(* ===== verification/Prelude.thy ===== *)
theory Prelude
  imports Main "HOL-Library.AList" "HOL-Library.Char_ord" "HOL-Library.List_Lexorder"
    "HOL-Library.Product_Lexorder"
begin

text \<open>
  Shared vocabulary of the development: the exception values of the program
  (\<^verbatim>\<open>src/trunks/errors.py\<close> and the built-in exceptions the sources raise),
  results and state-passing computations that may raise, Python dictionaries as
  association lists in insertion order, and the generic list lemmas the components use.

  A Python function that may raise is a function into \<open>'a res\<close>; one that also changes an
  object is a function from the state to a result and the new state, so that a change made
  before the exception is kept, as it is in Python.
\<close>

named_theorems res_simps \<open>unfolding of the result and state combinators\<close>
named_theorems model_defs \<open>definitions of non-recursive operations\<close>

section \<open>Exceptions and results\<close>

datatype error =
    InvalidPath string
  | ObjectNotFound string
  | RefConflict string
  | RepositoryNotFound string
  | RepositoryCorrupt string
  | BackendUnavailable string
  | GitNotFound string
  | UnsupportedGitCommand string
  | ValueError string
  | UnicodeDecodeError
  | XdrError string
  | RpcError string
  | TypeError string
  | KeyError string
  | IndexError
  | RuntimeError string
  | NotImplementedError string
  | OverflowError string
  | OSError string
  | AttributeError string
  | IntegrityError string
  | IncompleteReadError
  | AssertionError
  | WorkflowError string
  | LookupError string
  | CalledProcessError string string

type_synonym 'a res = "error + 'a"
type_synonym ('s, 'a) st = "'s \<Rightarrow> 'a res \<times> 's"
type_synonym bytes = "char list"
type_synonym ('k, 'v) dict = "('k \<times> 'v) list"

text \<open>Which exceptions an \<^verbatim>\<open>except ValueError\<close> clause catches.\<close>

fun is_value_error :: "error \<Rightarrow> bool" where
  "is_value_error (InvalidPath _) = True"
| "is_value_error (ValueError _) = True"
| "is_value_error UnicodeDecodeError = True"
| "is_value_error (XdrError _) = True"
| "is_value_error (RpcError _) = True"
| "is_value_error (WorkflowError _) = True"
| "is_value_error _ = False"

fun is_object_not_found :: "error \<Rightarrow> bool" where
  "is_object_not_found (ObjectNotFound _) = True"
| "is_object_not_found _ = False"

text \<open>\<^verbatim>\<open>str(exc)\<close>\<close>

fun exc_str :: "error \<Rightarrow> string" where
  "exc_str (InvalidPath s) = s"
| "exc_str (ObjectNotFound s) = s"
| "exc_str (RefConflict s) = s"
| "exc_str (RepositoryNotFound s) = s"
| "exc_str (RepositoryCorrupt s) = s"
| "exc_str (BackendUnavailable s) = s"
| "exc_str (GitNotFound s) = s"
| "exc_str (UnsupportedGitCommand s) = s"
| "exc_str (ValueError s) = s"
| "exc_str UnicodeDecodeError = ''invalid utf-8''"
| "exc_str (XdrError s) = s"
| "exc_str (RpcError s) = s"
| "exc_str (TypeError s) = s"
| "exc_str (KeyError s) = s"
| "exc_str IndexError = ''index out of range''"
| "exc_str (RuntimeError s) = s"
| "exc_str (NotImplementedError s) = s"
| "exc_str (OverflowError s) = s"
| "exc_str (OSError s) = s"
| "exc_str (AttributeError s) = s"
| "exc_str (IntegrityError s) = s"
| "exc_str IncompleteReadError = ''incomplete read''"
| "exc_str AssertionError = ''''"
| "exc_str (WorkflowError s) = s"
| "exc_str (LookupError s) = s"
| "exc_str (CalledProcessError s _) = s"

definition bindR :: "'a res \<Rightarrow> ('a \<Rightarrow> 'b res) \<Rightarrow> 'b res" where
  "bindR m f = (case m of Inl e \<Rightarrow> Inl e | Inr x \<Rightarrow> f x)"

definition guardR :: "bool \<Rightarrow> error \<Rightarrow> unit res" where
  "guardR b e = (if b then Inr () else Inl e)"

fun mapR :: "('a \<Rightarrow> 'b res) \<Rightarrow> 'a list \<Rightarrow> 'b list res" where
  "mapR f [] = Inr []"
| "mapR f (x # xs) = bindR (f x) (\<lambda>y. bindR (mapR f xs) (\<lambda>ys. Inr (y # ys)))"

fun foldR :: "('a \<Rightarrow> 'b \<Rightarrow> 'a res) \<Rightarrow> 'a \<Rightarrow> 'b list \<Rightarrow> 'a res" where
  "foldR f a [] = Inr a"
| "foldR f a (x # xs) = bindR (f a x) (\<lambda>a'. foldR f a' xs)"

definition ok :: "'a res \<Rightarrow> bool" where
  "ok r = (case r of Inl _ \<Rightarrow> False | Inr _ \<Rightarrow> True)"

lemma bindR_simps [simp]:
  "bindR (Inl e) f = Inl e"
  "bindR (Inr x) f = f x"
  by (simp_all add: bindR_def)

lemma bindR_eq_Inr: "bindR m f = Inr y \<longleftrightarrow> (\<exists>x. m = Inr x \<and> f x = Inr y)"
  by (cases m) auto

lemma bindR_eq_Inl: "bindR m f = Inl e \<longleftrightarrow> m = Inl e \<or> (\<exists>x. m = Inr x \<and> f x = Inl e)"
  by (cases m) auto

lemma bindR_InrE [elim!]:
  assumes "bindR m f = Inr y"
  obtains x where "m = Inr x" and "f x = Inr y"
  using assms by (cases m) auto

lemma bindR_assoc: "bindR (bindR m f) g = bindR m (\<lambda>x. bindR (f x) g)"
  by (cases m) auto

lemma bindR_cong [fundef_cong]:
  assumes "m1 = m2" and "\<And>x. m2 = Inr x \<Longrightarrow> f1 x = f2 x"
  shows "bindR m1 f1 = bindR m2 f2"
  using assms by (cases m2) auto

lemma guardR_simps [simp]:
  "guardR True e = Inr ()"
  "guardR False e = Inl e"
  "guardR b e = Inr u \<longleftrightarrow> b"
  by (auto simp: guardR_def)

lemma ok_simps [simp]: "ok (Inr x)" "\<not> ok (Inl e)"
  by (simp_all add: ok_def)

lemma ok_iff: "ok r \<longleftrightarrow> (\<exists>x. r = Inr x)"
  by (cases r) auto

lemma mapR_Inr_iff:
  "mapR f xs = Inr ys \<longleftrightarrow> list_all2 (\<lambda>x y. f x = Inr y) xs ys"
  by (induction xs arbitrary: ys) (auto simp: bindR_eq_Inr list_all2_Cons1)

lemma mapR_all_Inr: "(\<And>x. x \<in> set xs \<Longrightarrow> f x = Inr (g x)) \<Longrightarrow> mapR f xs = Inr (map g xs)"
  by (induction xs) auto

lemma mapR_cong [fundef_cong]:
  "xs = ys \<Longrightarrow> (\<And>x. x \<in> set ys \<Longrightarrow> f x = g x) \<Longrightarrow> mapR f xs = mapR g ys"
  by (induction ys arbitrary: xs) auto

lemma foldR_append: "foldR f a (xs @ ys) = bindR (foldR f a xs) (\<lambda>a'. foldR f a' ys)"
  by (induction xs arbitrary: a) (auto simp: bindR_assoc)

section \<open>State-passing computations that may raise\<close>

definition returnS :: "'a \<Rightarrow> ('s, 'a) st" where
  "returnS x = (\<lambda>s. (Inr x, s))"

definition raiseS :: "error \<Rightarrow> ('s, 'a) st" where
  "raiseS e = (\<lambda>s. (Inl e, s))"

definition bindS :: "('s, 'a) st \<Rightarrow> ('a \<Rightarrow> ('s, 'b) st) \<Rightarrow> ('s, 'b) st" where
  "bindS m f = (\<lambda>s. case m s of (Inl e, s') \<Rightarrow> (Inl e, s') | (Inr x, s') \<Rightarrow> f x s')"

definition liftR :: "'a res \<Rightarrow> ('s, 'a) st" where
  "liftR r = (\<lambda>s. (r, s))"

definition getsS :: "('s \<Rightarrow> 'a res) \<Rightarrow> ('s, 'a) st" where
  "getsS f = (\<lambda>s. (f s, s))"

definition modifyS :: "('s \<Rightarrow> 's) \<Rightarrow> ('s, unit) st" where
  "modifyS f = (\<lambda>s. (Inr (), f s))"

text \<open>\<open>catchS m h\<close> is \<^verbatim>\<open>try: m except Exception as e: h(e)\<close>; \<open>h\<close> may raise again.\<close>

definition catchS :: "('s, 'a) st \<Rightarrow> (error \<Rightarrow> ('s, 'a) st) \<Rightarrow> ('s, 'a) st" where
  "catchS m h = (\<lambda>s. case m s of (Inl e, s') \<Rightarrow> h e s' | (Inr x, s') \<Rightarrow> (Inr x, s'))"

fun iterS :: "('a \<Rightarrow> ('s, unit) st) \<Rightarrow> 'a list \<Rightarrow> ('s, unit) st" where
  "iterS f [] = returnS ()"
| "iterS f (x # xs) = bindS (f x) (\<lambda>_. iterS f xs)"

fun mapS :: "('a \<Rightarrow> ('s, 'b) st) \<Rightarrow> 'a list \<Rightarrow> ('s, 'b list) st" where
  "mapS f [] = returnS []"
| "mapS f (x # xs) = bindS (f x) (\<lambda>y. bindS (mapS f xs) (\<lambda>ys. returnS (y # ys)))"

lemma bindS_apply:
  "bindS m f s = (case fst (m s) of Inl e \<Rightarrow> (Inl e, snd (m s)) | Inr x \<Rightarrow> f x (snd (m s)))"
  by (simp add: bindS_def split: prod.split sum.split)

lemma st_simps [simp]:
  "returnS x s = (Inr x, s)"
  "raiseS e s = (Inl e, s)"
  "liftR r s = (r, s)"
  "getsS g s = (g s, s)"
  "modifyS u s = (Inr (), u s)"
  by (simp_all add: returnS_def raiseS_def liftR_def getsS_def modifyS_def)

lemma bindS_Inr_iff:
  "bindS m f s = (Inr y, t) \<longleftrightarrow> (\<exists>x u. m s = (Inr x, u) \<and> f x u = (Inr y, t))"
  by (cases "m s"; cases "fst (m s)") (auto simp: bindS_def)

lemma bindS_InrE [elim!]:
  assumes "bindS m f s = (Inr y, t)"
  obtains x u where "m s = (Inr x, u)" and "f x u = (Inr y, t)"
  using assms by (auto simp: bindS_Inr_iff)

lemma bindS_Inl_iff:
  "bindS m f s = (Inl e, t) \<longleftrightarrow>
     m s = (Inl e, t) \<or> (\<exists>x u. m s = (Inr x, u) \<and> f x u = (Inl e, t))"
  by (cases "m s"; cases "fst (m s)") (auto simp: bindS_def)

lemma bindS_step:
  "m s = (Inr x, u) \<Longrightarrow> bindS m f s = f x u"
  "m s = (Inl e, u) \<Longrightarrow> bindS m f s = (Inl e, u)"
  by (simp_all add: bindS_def)

lemma bindS_returns [simp]:
  "bindS (returnS x) f s = f x s"
  "bindS (raiseS e) f s = (Inl e, s)"
  "bindS (modifyS u) k s = k () (u s)"
  "bindS (liftR (Inr x)) f s = f x s"
  "bindS (liftR (Inl e)) f s = (Inl e, s)"
  by (simp_all add: bindS_def)

lemma bindS_cong [fundef_cong]:
  assumes "s1 = s2" and "m1 s2 = m2 s2" and "\<And>x t. m2 s2 = (Inr x, t) \<Longrightarrow> f1 x t = f2 x t"
  shows "bindS m1 f1 s1 = bindS m2 f2 s2"
  using assms by (auto simp: bindS_def split: prod.split sum.split)

text \<open>
  A predicate on states that a computation keeps whether it returns or raises. Invariants
  of the components are shown with the rules below, one per combinator.
\<close>

definition keeps :: "('s \<Rightarrow> bool) \<Rightarrow> ('s, 'a) st \<Rightarrow> bool" where
  "keeps P m \<longleftrightarrow> (\<forall>s. P s \<longrightarrow> P (snd (m s)))"

lemma keepsI: "(\<And>s. P s \<Longrightarrow> P (snd (m s))) \<Longrightarrow> keeps P m"
  by (simp add: keeps_def)

lemma keepsD: "keeps P m \<Longrightarrow> P s \<Longrightarrow> P (snd (m s))"
  by (simp add: keeps_def)

lemma keeps_basic [intro!, simp]:
  "keeps P (returnS x)" "keeps P (raiseS e)" "keeps P (liftR r)" "keeps P (getsS g)"
  by (simp_all add: keeps_def)

lemma keeps_modifyS: "(\<And>s. P s \<Longrightarrow> P (u s)) \<Longrightarrow> keeps P (modifyS u)"
  by (simp add: keeps_def)

lemma keeps_bindS [intro]:
  assumes "keeps P m" and "\<And>x. keeps P (f x)"
  shows "keeps P (bindS m f)"
proof (rule keepsI)
  fix s assume s: "P s"
  then have "P (snd (m s))" by (rule keepsD [OF assms(1)])
  with assms(2) show "P (snd (bindS m f s))"
    by (auto simp: bindS_apply keeps_def split: sum.split)
qed

lemma keeps_catchS [intro]:
  assumes "keeps P m" and "\<And>e. keeps P (h e)"
  shows "keeps P (catchS m h)"
proof (rule keepsI)
  fix s assume "P s"
  then have "P (snd (m s))" by (rule keepsD [OF assms(1)])
  then show "P (snd (catchS m h s))"
    using keepsD [OF assms(2)] by (cases "m s"; cases "fst (m s)") (auto simp: catchS_def)
qed

lemma keeps_iterS [intro]:
  "(\<And>x. x \<in> set xs \<Longrightarrow> keeps P (f x)) \<Longrightarrow> keeps P (iterS f xs)"
  by (induction xs) auto

lemma keeps_mapS [intro]:
  "(\<And>x. x \<in> set xs \<Longrightarrow> keeps P (f x)) \<Longrightarrow> keeps P (mapS f xs)"
  by (induction xs) auto

lemma mapS_cong [fundef_cong]:
  "xs = ys \<Longrightarrow> s = t \<Longrightarrow> (\<And>x u. x \<in> set ys \<Longrightarrow> f x u = g x u) \<Longrightarrow> mapS f xs s = mapS g ys t"
proof (induction ys arbitrary: xs s t)
  case (Cons y ys)
  have "f y t = g y t" using Cons.prems by simp
  then show ?case using Cons by (auto simp: bindS_def split: prod.splits sum.splits)
qed simp

section \<open>Dictionaries\<close>

text \<open>
  A Python dict keeps insertion order; assigning an existing key keeps its place. This is
  \<^const>\<open>AList.update\<close>; \<^verbatim>\<open>pop(k, None)\<close> is \<^const>\<open>AList.delete\<close>, \<^verbatim>\<open>get\<close> is \<^const>\<open>map_of\<close>.
\<close>

definition setdefault :: "'k \<Rightarrow> 'v \<Rightarrow> ('k, 'v) dict \<Rightarrow> ('k, 'v) dict" where
  "setdefault k v d = (case map_of d k of None \<Rightarrow> d @ [(k, v)] | Some _ \<Rightarrow> d)"

definition wf_dict :: "('k, 'v) dict \<Rightarrow> bool" where
  "wf_dict d \<longleftrightarrow> distinct (map fst d)"

lemma wf_dict_Nil [simp]: "wf_dict []"
  by (simp add: wf_dict_def)

lemma wf_dict_update [simp, intro]: "wf_dict d \<Longrightarrow> wf_dict (AList.update k v d)"
  by (simp add: wf_dict_def distinct_update)

lemma wf_dict_delete [simp, intro]: "wf_dict d \<Longrightarrow> wf_dict (AList.delete k d)"
  by (simp add: wf_dict_def distinct_delete)

lemma wf_dict_filter [simp, intro]: "wf_dict d \<Longrightarrow> wf_dict (filter P d)"
  by (simp add: wf_dict_def distinct_map_filter)

lemma wf_dict_setdefault [simp, intro]: "wf_dict d \<Longrightarrow> wf_dict (setdefault k v d)"
  by (auto simp: wf_dict_def setdefault_def map_of_eq_None_iff split: option.split)

lemma map_of_setdefault:
  "map_of (setdefault k v d) = (case map_of d k of None \<Rightarrow> (map_of d)(k \<mapsto> v) | Some _ \<Rightarrow> map_of d)"
  by (auto simp: setdefault_def map_add_def fun_eq_iff split: option.split)

lemma map_of_update_iff [simp]:
  "map_of (AList.update k v d) k' = (if k' = k then Some v else map_of d k')"
  by (simp add: update_conv')

lemma map_of_delete_iff [simp]:
  "map_of (AList.delete k d) k' = (if k' = k then None else map_of d k')"
  by (simp add: delete_conv')

lemma update_absent: "k \<notin> fst ` set d \<Longrightarrow> AList.update k v d = d @ [(k, v)]"
  by (induction d) auto

lemma wf_dict_map_of_iff: "wf_dict d \<Longrightarrow> map_of d k = Some v \<longleftrightarrow> (k, v) \<in> set d"
  by (simp add: wf_dict_def)

section \<open>Lists\<close>

lemma take_append_exact [simp]: "length xs = n \<Longrightarrow> take n (xs @ ys) = xs"
  by simp

lemma drop_append_exact [simp]: "length xs = n \<Longrightarrow> drop n (xs @ ys) = ys"
  by simp

lemma takeWhile_append_stop: "x \<notin> set xs \<Longrightarrow> takeWhile (\<lambda>y. y \<noteq> x) (xs @ x # ys) = xs"
  by (induction xs) auto

lemma dropWhile_append_stop: "x \<notin> set xs \<Longrightarrow> dropWhile (\<lambda>y. y \<noteq> x) (xs @ x # ys) = x # ys"
  by (induction xs) auto

lemma map_of_map_fst_snd: "map fst (map (\<lambda>x. (f x, g x)) xs) = map f xs"
  by simp

end
