(* ===== verification/PyStr.thy ===== *)
theory PyStr
  imports Prelude
begin

text \<open>
  The parts of Python's \<^verbatim>\<open>str\<close> and \<^verbatim>\<open>bytes\<close> that the sources use. A byte is a
  \<^typ>\<open>char\<close>. A \<^verbatim>\<open>str\<close> is represented by its UTF-8 encoding, so \<^verbatim>\<open>encode()\<close> is the
  identity, \<^verbatim>\<open>decode()\<close> is a check (\<open>decode_utf8\<close>) and the order of two \<^verbatim>\<open>str\<close> (by code
  point) is the order of their encodings (by byte). \<open>is_str\<close> says that a byte list is such
  an encoding. Whitespace and digits are the ASCII ones.
\<close>

section \<open>Characters\<close>

definition ordc :: "char \<Rightarrow> nat" where
  "ordc c = of_char c"

definition chrn :: "nat \<Rightarrow> char" where
  "chrn n = char_of n"

abbreviation NL :: char where "NL \<equiv> CHR 0x0A"
abbreviation NUL :: char where "NUL \<equiv> CHR 0x00"
abbreviation SP :: char where "SP \<equiv> CHR 0x20"
abbreviation SLASH :: char where "SLASH \<equiv> CHR 0x2F"
abbreviation BSLASH :: char where "BSLASH \<equiv> CHR 0x5C"

definition is_digit :: "char \<Rightarrow> bool" where
  "is_digit c \<longleftrightarrow> 48 \<le> ordc c \<and> ordc c \<le> 57"

definition is_space :: "char \<Rightarrow> bool" where
  "is_space c \<longleftrightarrow> ordc c \<in> {9, 10, 11, 12, 13, 28, 29, 30, 31, 32}"

definition is_bspace :: "char \<Rightarrow> bool" where
  "is_bspace c \<longleftrightarrow> ordc c \<in> {9, 10, 11, 12, 13, 32}"

section \<open>UTF-8\<close>

definition cont_byte :: "nat \<Rightarrow> bool" where
  "cont_byte b \<longleftrightarrow> 128 \<le> b \<and> b < 192"

fun utf8_ok :: "nat list \<Rightarrow> bool" where
  "utf8_ok [] = True"
| "utf8_ok (a # r) =
    (if a < 128 then utf8_ok r
     else if 194 \<le> a \<and> a < 224 then
       (case r of b # r1 \<Rightarrow> cont_byte b \<and> utf8_ok r1 | _ \<Rightarrow> False)
     else if 224 \<le> a \<and> a < 240 then
       (case r of b # c # r2 \<Rightarrow>
          cont_byte b \<and> (a = 224 \<longrightarrow> 160 \<le> b) \<and> (a = 237 \<longrightarrow> b < 160) \<and> cont_byte c \<and> utf8_ok r2
        | _ \<Rightarrow> False)
     else if 240 \<le> a \<and> a < 245 then
       (case r of b # c # d # r3 \<Rightarrow>
          cont_byte b \<and> (a = 240 \<longrightarrow> 144 \<le> b) \<and> (a = 244 \<longrightarrow> b < 144) \<and> cont_byte c \<and> cont_byte d
          \<and> utf8_ok r3
        | _ \<Rightarrow> False)
     else False)"

definition is_str :: "bytes \<Rightarrow> bool" where
  "is_str s = utf8_ok (map ordc s)"

definition decode_utf8 :: "bytes \<Rightarrow> string res" where
  "decode_utf8 b = (if is_str b then Inr b else Inl UnicodeDecodeError)"

section \<open>Searching, splitting, joining\<close>

definition startswith :: "string \<Rightarrow> string \<Rightarrow> bool" where
  "startswith s p \<longleftrightarrow> take (length p) s = p"

definition endswith :: "string \<Rightarrow> string \<Rightarrow> bool" where
  "endswith s p \<longleftrightarrow> length p \<le> length s \<and> drop (length s - length p) s = p"

text \<open>\<^verbatim>\<open>s[a:b]\<close> for indices that are not negative.\<close>

definition slice :: "nat \<Rightarrow> nat \<Rightarrow> 'a list \<Rightarrow> 'a list" where
  "slice a b s = take (b - a) (drop a s)"

text \<open>The parts before and after the first (last) occurrence of a separator, which is
  what \<^verbatim>\<open>partition\<close>, \<^verbatim>\<open>split(sep, 1)\<close> and \<^verbatim>\<open>rsplit(sep, 1)\<close> return.\<close>

fun split1 :: "string \<Rightarrow> string \<Rightarrow> (string \<times> string) option" where
  "split1 sep [] = (if sep = [] then Some ([], []) else None)"
| "split1 sep (c # s) =
    (if startswith (c # s) sep then Some ([], drop (length sep) (c # s))
     else map_option (\<lambda>(a, b). (c # a, b)) (split1 sep s))"

text \<open>\<^verbatim>\<open>sub in s\<close>\<close>

definition contains :: "string \<Rightarrow> string \<Rightarrow> bool" where
  "contains sub s \<longleftrightarrow> split1 sub s \<noteq> None"

definition rsplit1 :: "string \<Rightarrow> string \<Rightarrow> (string \<times> string) option" where
  "rsplit1 sep s = map_option (\<lambda>(a, b). (rev b, rev a)) (split1 (rev sep) (rev s))"

fun split_on :: "'a \<Rightarrow> 'a list \<Rightarrow> 'a list list" where
  "split_on c [] = [[]]"
| "split_on c (x # xs) =
    (if x = c then [] # split_on c xs
     else (case split_on c xs of [] \<Rightarrow> [[x]] | p # ps \<Rightarrow> (x # p) # ps))"

fun join :: "'a list \<Rightarrow> 'a list list \<Rightarrow> 'a list" where
  "join sep [] = []"
| "join sep [x] = x"
| "join sep (x # y # r) = x @ sep @ join sep (y # r)"

definition replace_char :: "char \<Rightarrow> char \<Rightarrow> string \<Rightarrow> string" where
  "replace_char a b s = map (\<lambda>c. if c = a then b else c) s"

definition lstrip_by :: "(char \<Rightarrow> bool) \<Rightarrow> string \<Rightarrow> string" where
  "lstrip_by P s = dropWhile P s"

definition rstrip_by :: "(char \<Rightarrow> bool) \<Rightarrow> string \<Rightarrow> string" where
  "rstrip_by P s = rev (dropWhile P (rev s))"

definition strip_by :: "(char \<Rightarrow> bool) \<Rightarrow> string \<Rightarrow> string" where
  "strip_by P s = rstrip_by P (lstrip_by P s)"

text \<open>\<open>line_break s\<close> is the rest of \<open>s\<close> after a line boundary of \<^verbatim>\<open>str.splitlines\<close> at its
  start: LF, CR, CRLF, VT, FF, FS, GS, RS, NEL, LS and PS.\<close>

definition line_break :: "string \<Rightarrow> string option" where
  "line_break s = (case s of [] \<Rightarrow> None | c # r \<Rightarrow>
     (if ordc c = 13 then
        Some (case r of [] \<Rightarrow> [] | d # r1 \<Rightarrow> if ordc d = 10 then r1 else r)
      else if ordc c \<in> {10, 11, 12, 28, 29, 30} then Some r
      else if ordc c = 194 then
        (case r of d # r1 \<Rightarrow> if ordc d = 133 then Some r1 else None | _ \<Rightarrow> None)
      else if ordc c = 226 then
        (case r of d # e # r2 \<Rightarrow>
           if ordc d = 128 \<and> (ordc e = 168 \<or> ordc e = 169) then Some r2 else None
         | _ \<Rightarrow> None)
      else None))"

lemma line_break_shorter: "line_break (c # s) = Some r \<Longrightarrow> length r < Suc (length s)"
  by (auto simp: line_break_def split: if_splits list.splits)

function splitlines_acc :: "string \<Rightarrow> string \<Rightarrow> string list" where
  "splitlines_acc [] cur = (if cur = [] then [] else [rev cur])"
| "splitlines_acc (c # s) cur =
    (case line_break (c # s) of Some r \<Rightarrow> rev cur # splitlines_acc r []
     | None \<Rightarrow> splitlines_acc s (c # cur))"
  by pat_completeness auto
termination
  by (relation "measure (\<lambda>(s, cur). length s)") (auto dest: line_break_shorter)

definition splitlines :: "string \<Rightarrow> string list" where
  "splitlines s = splitlines_acc s []"

fun no_breaks :: "string \<Rightarrow> bool" where
  "no_breaks [] = True"
| "no_breaks (c # s) = (line_break (c # s) = None \<and> no_breaks s)"

section \<open>Numbers\<close>

definition digit_chr :: "nat \<Rightarrow> char" where
  "digit_chr d = chrn (48 + d)"

definition digit_val :: "char \<Rightarrow> nat" where
  "digit_val c = ordc c - 48"

fun dec :: "nat \<Rightarrow> string" where
  "dec n = (if n < 10 then [digit_chr n] else dec (n div 10) @ [digit_chr (n mod 10)])"

declare dec.simps [simp del]

definition int_str :: "int \<Rightarrow> string" where
  "int_str i = (if i < 0 then ''-'' @ dec (nat (- i)) else dec (nat i))"

text \<open>\<^verbatim>\<open>{n:0wd}\<close> for a number that is not negative.\<close>

definition dec_pad :: "nat \<Rightarrow> nat \<Rightarrow> string" where
  "dec_pad w n = replicate (w - length (dec n)) (CHR ''0'') @ dec n"

text \<open>Digits of \<^verbatim>\<open>int(str)\<close>: single underscores are allowed between two digits.\<close>

fun int_digits :: "bool \<Rightarrow> nat \<Rightarrow> string \<Rightarrow> nat option" where
  "int_digits p a [] = (if p then Some a else None)"
| "int_digits p a (c # s) =
    (if is_digit c then int_digits True (a * 10 + digit_val c) s
     else if c = CHR ''_'' \<and> p then int_digits False a s
     else None)"

definition py_int :: "string \<Rightarrow> int res" where
  "py_int s = (let t = strip_by is_space s in
     case (case t of CHR ''-'' # r \<Rightarrow> map_option (\<lambda>n. - int n) (int_digits False 0 r)
           | CHR ''+'' # r \<Rightarrow> map_option int (int_digits False 0 r)
           | _ \<Rightarrow> map_option int (int_digits False 0 t))
     of None \<Rightarrow> Inl (ValueError ''invalid literal for int()'') | Some i \<Rightarrow> Inr i)"

definition hex_chr :: "nat \<Rightarrow> char" where
  "hex_chr d = (if d < 10 then chrn (48 + d) else chrn (87 + d))"

definition is_hex :: "char \<Rightarrow> bool" where
  "is_hex c \<longleftrightarrow> is_digit c \<or> (97 \<le> ordc c \<and> ordc c \<le> 102)"

definition hex_val :: "char \<Rightarrow> nat" where
  "hex_val c = (if is_digit c then ordc c - 48 else ordc c - 87)"

text \<open>\<^verbatim>\<open>bytes.hex()\<close> and \<^verbatim>\<open>bytes.fromhex()\<close> on an even number of lower-case digits.\<close>

definition hex_bytes :: "bytes \<Rightarrow> string" where
  "hex_bytes b = concat (map (\<lambda>c. [hex_chr (ordc c div 16), hex_chr (ordc c mod 16)]) b)"

fun unhex :: "string \<Rightarrow> bytes" where
  "unhex (a # b # r) = chrn (hex_val a * 16 + hex_val b) # unhex r"
| "unhex _ = []"

section \<open>Lemmas on characters and encodings\<close>

lemma chrn_ordc [simp]: "chrn (ordc c) = c"
  by (simp add: chrn_def ordc_def)

lemma ordc_chrn: "ordc (chrn n) = n mod 256"
  by (simp add: chrn_def ordc_def)

lemma ordc_chrn_small [simp]: "n < 256 \<Longrightarrow> ordc (chrn n) = n"
  by (simp add: ordc_chrn)

lemma ordc_less [simp]: "ordc c < 256"
  by (simp add: ordc_def)

lemma ordc_eq_iff [simp]: "ordc a = ordc b \<longleftrightarrow> a = b"
  by (simp add: ordc_def)

lemma ordc_Char [simp]:
  "ordc (Char b0 b1 b2 b3 b4 b5 b6 b7) = of_char (Char b0 b1 b2 b3 b4 b5 b6 b7)"
  by (simp only: ordc_def)

lemma ordc_le_iff: "ordc a \<le> ordc b \<longleftrightarrow> a \<le> b"
  by (simp add: ordc_def less_eq_char_def)

lemma utf8_ok_append: "utf8_ok xs \<Longrightarrow> utf8_ok ys \<Longrightarrow> utf8_ok (xs @ ys)"
  by (induction xs rule: utf8_ok.induct) (auto split: if_splits list.splits)

lemma utf8_ok_ascii: "(\<And>x. x \<in> set xs \<Longrightarrow> x < 128) \<Longrightarrow> utf8_ok xs"
  by (induction xs) auto

lemma is_str_Nil [simp]: "is_str []"
  by (simp add: is_str_def)

lemma is_str_append [simp, intro]: "is_str a \<Longrightarrow> is_str b \<Longrightarrow> is_str (a @ b)"
  by (simp add: is_str_def utf8_ok_append)

lemma is_str_ascii: "(\<And>c. c \<in> set s \<Longrightarrow> ordc c < 128) \<Longrightarrow> is_str s"
  by (auto simp: is_str_def intro!: utf8_ok_ascii)

lemma is_str_Cons_ascii [simp]: "ordc c < 128 \<Longrightarrow> is_str (c # s) = is_str s"
  by (simp add: is_str_def)

lemma is_str_concat: "(\<And>s. s \<in> set ss \<Longrightarrow> is_str s) \<Longrightarrow> is_str (concat ss)"
  by (induction ss) auto

lemma is_str_join: "is_str sep \<Longrightarrow> (\<And>s. s \<in> set ss \<Longrightarrow> is_str s) \<Longrightarrow> is_str (join sep ss)"
  by (induction sep ss rule: join.induct) auto

lemma decode_utf8_Inr [simp]: "decode_utf8 b = Inr s \<longleftrightarrow> is_str b \<and> s = b"
  by (auto simp: decode_utf8_def)

lemma decode_utf8_str [simp]: "is_str b \<Longrightarrow> decode_utf8 b = Inr b"
  by (simp add: decode_utf8_def)

section \<open>Lemmas on splitting and joining\<close>

lemma startswith_append [simp]: "startswith (p @ s) p"
  by (simp add: startswith_def)

lemma startswith_iff: "startswith s p \<longleftrightarrow> (\<exists>r. s = p @ r)"
proof
  assume "startswith s p"
  then have "s = p @ drop (length p) s"
    by (metis startswith_def append_take_drop_id)
  then show "\<exists>r. s = p @ r" ..
qed auto

lemma startswith_Nil [simp]: "startswith s []"
  by (simp add: startswith_def)

lemma startswith_Cons [simp]:
  "startswith [] (q # p) \<longleftrightarrow> False"
  "startswith (c # s) (q # p) \<longleftrightarrow> c = q \<and> startswith s p"
  by (auto simp: startswith_def)

lemma endswith_iff: "endswith s p \<longleftrightarrow> (\<exists>r. s = r @ p)"
proof
  assume "endswith s p"
  then have "s = take (length s - length p) s @ p"
    by (metis endswith_def append_take_drop_id)
  then show "\<exists>r. s = r @ p" ..
qed (auto simp: endswith_def)

lemma split1_first: "p \<notin> set x \<Longrightarrow> split1 (p # sep) (x @ (p # sep) @ y) = Some (x, y)"
proof (induction x)
  case Nil
  then show ?case by simp
next
  case (Cons c x)
  then show ?case by auto
qed

lemma split1_char [simp]: "c \<notin> set a \<Longrightarrow> split1 [c] (a @ c # b) = Some (a, b)"
  using split1_first [of c a "[]" b] by simp

lemma split1_char_None: "split1 [c] s = None \<longleftrightarrow> c \<notin> set s"
  by (induction s) auto

lemma split1_Some: "split1 sep s = Some (a, b) \<Longrightarrow> s = a @ sep @ b"
proof (induction s arbitrary: a)
  case Nil
  then show ?case by (auto split: if_splits)
next
  case (Cons c s)
  then show ?case by (auto simp: startswith_iff split: if_splits)
qed

lemma split1_char_Some: "split1 [c] s = Some (a, b) \<Longrightarrow> c \<notin> set a"
  by (induction s arbitrary: a) (auto split: if_splits)

lemma rsplit1_last:
  assumes "p \<notin> set b"
  shows "rsplit1 (sep @ [p]) (a @ (sep @ [p]) @ b) = Some (a, b)"
proof -
  have "split1 (p # rev sep) (rev b @ (p # rev sep) @ rev a) = Some (rev b, rev a)"
    using assms by (intro split1_first) simp
  then show ?thesis by (simp add: rsplit1_def)
qed

lemma rsplit1_char: "c \<notin> set b \<Longrightarrow> rsplit1 [c] (a @ c # b) = Some (a, b)"
  using rsplit1_last [of c b "[]" a] by simp

lemma rsplit1_Some: "rsplit1 sep s = Some (a, b) \<Longrightarrow> s = a @ sep @ b"
proof -
  assume "rsplit1 sep s = Some (a, b)"
  then have "split1 (rev sep) (rev s) = Some (rev b, rev a)"
    by (auto simp: rsplit1_def)
  then have "rev s = rev b @ rev sep @ rev a" by (rule split1_Some)
  then have "rev (rev s) = rev (rev b @ rev sep @ rev a)" by (rule arg_cong)
  then show ?thesis by simp
qed

lemma rsplit1_char_Some: "rsplit1 [c] s = Some (a, b) \<Longrightarrow> c \<notin> set b"
  by (auto simp: rsplit1_def dest: split1_char_Some)

lemma rsplit1_char_None: "rsplit1 [c] s = None \<longleftrightarrow> c \<notin> set s"
  by (simp add: rsplit1_def split1_char_None)

lemma split_on_not_Nil [simp]: "split_on c s \<noteq> []"
  by (induction s) (auto split: list.splits)

lemma split_on_absent: "c \<notin> set s \<Longrightarrow> split_on c s = [s]"
  by (induction s) auto

lemma split_on_append: "split_on c (a @ c # b) = split_on c a @ split_on c b"
  by (induction a) (auto split: list.split)

lemma split_on_append_tail:
  "c \<notin> set b \<Longrightarrow> split_on c (a @ c # b) = split_on c a @ [b]"
  by (simp add: split_on_append split_on_absent)

lemma split_on_parts: "p \<in> set (split_on c s) \<Longrightarrow> c \<notin> set p"
  by (induction s arbitrary: p) (auto split: if_splits list.splits)

lemma set_split_on: "p \<in> set (split_on c s) \<Longrightarrow> set p \<subseteq> set s"
  by (induction s arbitrary: p) (fastforce split: if_splits list.splits)+

lemma join_Cons: "ps \<noteq> [] \<Longrightarrow> join sep (p # ps) = p @ sep @ join sep ps"
  by (cases ps) auto

lemma join_append: "ps \<noteq> [] \<Longrightarrow> qs \<noteq> [] \<Longrightarrow> join sep (ps @ qs) = join sep ps @ sep @ join sep qs"
proof (induction ps)
  case (Cons p ps)
  then show ?case by (cases "ps = []") (simp_all add: join_Cons)
qed simp

lemma join_split_on [simp]: "join [c] (split_on c s) = s"
proof (induction s)
  case (Cons x s)
  show ?case
  proof (cases "split_on c s")
    case Nil
    then show ?thesis by simp
  next
    case (Cons p ps)
    with Cons.IH show ?thesis by (cases ps) auto
  qed
qed simp

lemma split_on_join:
  "ps \<noteq> [] \<Longrightarrow> (\<And>p. p \<in> set ps \<Longrightarrow> c \<notin> set p) \<Longrightarrow> split_on c (join [c] ps) = ps"
proof (induction ps)
  case (Cons p ps)
  show ?case
  proof (cases "ps = []")
    case True
    with Cons.prems show ?thesis by (simp add: split_on_absent)
  next
    case False
    with Cons show ?thesis by (simp add: join_Cons split_on_append split_on_absent)
  qed
qed simp

lemma set_join_subset: "set (join sep ps) \<subseteq> set sep \<union> (\<Union>p\<in>set ps. set p)"
  by (induction sep ps rule: join.induct) auto

lemma set_replace_char: "set (replace_char a b s) \<subseteq> (set s - {a}) \<union> {b}"
  by (auto simp: replace_char_def)

lemma replace_char_absent: "a \<notin> set s \<Longrightarrow> replace_char a b s = s"
  by (auto simp: replace_char_def intro: map_idI)

lemma rstrip_by_id: "s = [] \<or> \<not> P (last s) \<Longrightarrow> rstrip_by P s = s"
  by (cases s rule: rev_cases) (auto simp: rstrip_by_def)

lemma rstrip_by_append: "\<not> P c \<Longrightarrow> rstrip_by P (s @ [c]) = s @ [c]"
  by (simp add: rstrip_by_def)

lemma rstrip_by_drop: "P c \<Longrightarrow> rstrip_by P (s @ [c]) = rstrip_by P s"
  by (simp add: rstrip_by_def)

lemma strip_by_none: "(\<And>c. c \<in> set s \<Longrightarrow> \<not> P c) \<Longrightarrow> strip_by P s = s"
proof -
  assume h: "\<And>c. c \<in> set s \<Longrightarrow> \<not> P c"
  then have "dropWhile P s = s" by (cases s) auto
  with h show ?thesis by (auto simp: strip_by_def lstrip_by_def intro!: rstrip_by_id)
qed

lemma rstrip_by_idem [simp]: "rstrip_by P (rstrip_by P s) = rstrip_by P s"
  by (simp add: rstrip_by_def dropWhile_idem)

lemma no_breaks_NL: "no_breaks s \<Longrightarrow> NL \<notin> set s"
  by (induction s) (auto simp: line_break_def ordc_def)

lemma line_break_ascii [simp]: "32 \<le> ordc c \<Longrightarrow> ordc c < 128 \<Longrightarrow> line_break (c # s) = None"
  by (auto simp: line_break_def)

lemma line_break_extend:
  "line_break (c # l) = None \<Longrightarrow> ordc d < 128 \<Longrightarrow> line_break (c # l @ d # r) = None"
  by (auto simp: line_break_def split: if_splits list.splits)

lemma no_breaks_append_ascii:
  "no_breaks a \<Longrightarrow> no_breaks (d # b) \<Longrightarrow> ordc d < 128 \<Longrightarrow> no_breaks (a @ d # b)"
  by (induction a) (auto simp: line_break_extend)

lemma splitlines_acc_line:
  "no_breaks l \<Longrightarrow> splitlines_acc (l @ NL # r) cur = (rev cur @ l) # splitlines_acc r []"
proof (induction l arbitrary: cur)
  case Nil
  then show ?case by (simp add: line_break_def ordc_def)
next
  case (Cons c l)
  then show ?case by (simp add: line_break_extend ordc_def)
qed

lemma splitlines_acc_last:
  "no_breaks l \<Longrightarrow> rev cur @ l \<noteq> [] \<Longrightarrow> splitlines_acc l cur = [rev cur @ l]"
  by (induction l arbitrary: cur) auto

lemma splitlines_join:
  "ls \<noteq> [] \<Longrightarrow> (\<And>l. l \<in> set ls \<Longrightarrow> no_breaks l) \<Longrightarrow> last ls \<noteq> [] \<Longrightarrow>
   splitlines (join [NL] ls) = ls"
proof (induction ls)
  case (Cons l ls)
  show ?case
  proof (cases "ls = []")
    case True
    with Cons.prems show ?thesis by (simp add: splitlines_def splitlines_acc_last)
  next
    case False
    with Cons show ?thesis by (simp add: splitlines_def join_Cons splitlines_acc_line)
  qed
qed simp

lemma no_breaks_ascii:
  "(\<And>c. c \<in> set s \<Longrightarrow> 32 \<le> ordc c \<and> ordc c < 128) \<Longrightarrow> no_breaks s"
  by (induction s) auto

lemma no_breaks_ascii_append:
  "(\<And>c. c \<in> set s \<Longrightarrow> 32 \<le> ordc c \<and> ordc c < 128) \<Longrightarrow> no_breaks (s @ t) = no_breaks t"
  by (induction s) auto

section \<open>Lemmas on numbers\<close>

definition digits_value :: "nat \<Rightarrow> string \<Rightarrow> nat" where
  "digits_value a s = foldl (\<lambda>a c. a * 10 + digit_val c) a s"

lemma is_digit_digit_chr [simp]: "d < 10 \<Longrightarrow> is_digit (digit_chr d)"
  by (simp add: is_digit_def digit_chr_def)

lemma digit_val_digit_chr [simp]: "d < 10 \<Longrightarrow> digit_val (digit_chr d) = d"
  by (simp add: digit_val_def digit_chr_def)

lemma dec_digits: "c \<in> set (dec n) \<Longrightarrow> is_digit c"
proof (induction n rule: dec.induct)
  case (1 n)
  then show ?case by (subst (asm) dec.simps) (auto split: if_splits)
qed

lemma dec_not_Nil [simp]: "dec n \<noteq> []"
  by (subst dec.simps) simp

lemma digits_value_dec [simp]: "digits_value 0 (dec n) = n"
proof (induction n rule: dec.induct)
  case (1 n)
  then show ?case by (subst dec.simps) (auto simp: digits_value_def)
qed

lemma int_digits_value:
  "(\<And>c. c \<in> set s \<Longrightarrow> is_digit c) \<Longrightarrow> s \<noteq> [] \<or> p \<Longrightarrow> int_digits p a s = Some (digits_value a s)"
  by (induction s arbitrary: a p) (auto simp: digits_value_def)

lemma is_digit_not_space: "is_digit c \<Longrightarrow> \<not> is_space c"
  by (auto simp: is_digit_def is_space_def)

lemma py_int_digits:
  assumes "s \<noteq> []" and "\<And>c. c \<in> set s \<Longrightarrow> is_digit c"
  shows "py_int s = Inr (int (digits_value 0 s))"
proof -
  obtain c r where s: "s = c # r" using assms(1) by (cases s) auto
  have strip: "strip_by is_space s = s"
    using assms(2) by (intro strip_by_none) (auto dest: is_digit_not_space)
  have "is_digit c" using assms(2) s by simp
  then have "c \<noteq> CHR ''-'' \<and> c \<noteq> CHR ''+''" by (auto simp: is_digit_def ordc_def)
  then have "(case s of CHR ''-'' # r \<Rightarrow> map_option (\<lambda>n. - int n) (int_digits False 0 r)
           | CHR ''+'' # r \<Rightarrow> map_option int (int_digits False 0 r)
           | _ \<Rightarrow> map_option int (int_digits False 0 s)) = map_option int (int_digits False 0 s)"
    unfolding s by (auto split: char.split bool.split)
  then show ?thesis
    using int_digits_value [of s False 0] assms by (simp add: py_int_def strip Let_def)
qed

lemma py_int_dec [simp]: "py_int (dec n) = Inr (int n)"
  using py_int_digits [of "dec n"] dec_digits by simp

lemma digits_value_zeros: "digits_value 0 (replicate k (CHR ''0'') @ s) = digits_value 0 s"
  by (induction k) (auto simp: digits_value_def digit_val_def ordc_def)

lemma dec_pad_digits: "c \<in> set (dec_pad w n) \<Longrightarrow> is_digit c"
  by (auto simp: dec_pad_def is_digit_def ordc_def dest: dec_digits)

lemma py_int_dec_pad [simp]: "py_int (dec_pad w n) = Inr (int n)"
proof -
  have "dec_pad w n \<noteq> []" by (simp add: dec_pad_def)
  then have "py_int (dec_pad w n) = Inr (int (digits_value 0 (dec_pad w n)))"
    by (rule py_int_digits) (rule dec_pad_digits)
  then show ?thesis by (simp add: dec_pad_def digits_value_zeros)
qed

lemma py_int_int_str [simp]: "py_int (int_str i) = Inr i"
proof (cases "i < 0")
  case True
  let ?d = "dec (nat (- i))"
  have "\<not> is_space (CHR ''-'')" by (simp add: is_space_def ordc_def)
  then have strip: "strip_by is_space (CHR ''-'' # ?d) = CHR ''-'' # ?d"
    by (intro strip_by_none) (auto dest: dec_digits is_digit_not_space)
  show ?thesis
    using True int_digits_value [of ?d False 0] dec_digits
    by (simp add: int_str_def py_int_def strip)
qed (simp add: int_str_def)

lemma length_dec_small: "n < 10 \<Longrightarrow> length (dec n) = 1" "10 \<le> n \<Longrightarrow> n < 100 \<Longrightarrow> length (dec n) = 2"
proof -
  show "n < 10 \<Longrightarrow> length (dec n) = 1" by (subst dec.simps) simp
  assume "10 \<le> n" "n < 100"
  then have "n div 10 < 10" by simp
  then have "length (dec (n div 10)) = 1" by (subst dec.simps) simp
  with \<open>10 \<le> n\<close> show "length (dec n) = 2" by (subst dec.simps) simp
qed

lemma length_dec_pad2: "n < 100 \<Longrightarrow> length (dec_pad 2 n) = 2"
  by (cases "n < 10") (auto simp: dec_pad_def length_dec_small)

lemma int_str_chars: "c \<in> set (int_str i) \<Longrightarrow> is_digit c \<or> c = CHR ''-''"
  by (auto simp: int_str_def dest: dec_digits split: if_splits)

section \<open>Lemmas on hexadecimal text\<close>

lemma hex_val_hex_chr [simp]: "d < 16 \<Longrightarrow> hex_val (hex_chr d) = d"
  by (auto simp: hex_val_def hex_chr_def is_digit_def)

lemma is_hex_hex_chr [simp]: "d < 16 \<Longrightarrow> is_hex (hex_chr d)"
  by (auto simp: is_hex_def hex_chr_def is_digit_def)

lemma hex_val_less: "is_hex c \<Longrightarrow> hex_val c < 16"
  by (auto simp: is_hex_def hex_val_def is_digit_def)

lemma hex_chr_hex_val [simp]: "is_hex c \<Longrightarrow> hex_chr (hex_val c) = c"
  by (auto simp: is_hex_def hex_val_def hex_chr_def is_digit_def)

lemma hex_bytes_Cons [simp]:
  "hex_bytes [] = []"
  "hex_bytes (c # b) = hex_chr (ordc c div 16) # hex_chr (ordc c mod 16) # hex_bytes b"
  by (simp_all add: hex_bytes_def)

lemma length_hex_bytes [simp]: "length (hex_bytes b) = 2 * length b"
  by (induction b) auto

lemma ordc_div16 [simp]: "ordc c div 16 < 16"
  using ordc_less [of c] by linarith

lemma hex_bytes_is_hex: "c \<in> set (hex_bytes b) \<Longrightarrow> is_hex c"
  by (induction b) auto

lemma unhex_hex_bytes [simp]: "unhex (hex_bytes b) = b"
  by (induction b) auto

lemma length_unhex [simp]: "length (unhex s) = length s div 2"
  by (induction s rule: unhex.induct) auto

lemma hex_bytes_unhex:
  "even (length s) \<Longrightarrow> (\<And>c. c \<in> set s \<Longrightarrow> is_hex c) \<Longrightarrow> hex_bytes (unhex s) = s"
proof (induction s rule: unhex.induct)
  case (1 a b r)
  then have "hex_val a < 16" "hex_val b < 16" by (auto intro: hex_val_less)
  with 1 show ?case by (simp add: ordc_chrn)
qed auto

lemma is_hex_ascii: "is_hex c \<Longrightarrow> 32 \<le> ordc c \<and> ordc c < 128 \<and> \<not> is_space c"
  by (auto simp: is_hex_def is_digit_def is_space_def)

end
