(* ===== verification/Json.thy ===== *)
theory Json
  imports PyStr
begin

text \<open>
  JSON documents: the values the sources build and read, \<^verbatim>\<open>json.dumps\<close> (ASCII output,
  chosen separators, optional sorted keys) and \<^verbatim>\<open>json.loads\<close>. A number with a fraction or
  an exponent is kept as its text (\<open>JFloat\<close>); the literals NaN and Infinity are not
  accepted. The recursion of the parser is on a fuel argument; two units per character of
  the text suffice for every document that \<open>dumps\<close> writes (\<open>loads_dumps_sep\<close>).
\<close>

datatype json =
    JNull
  | JBool bool
  | JInt int
  | JFloat string
  | JStr string
  | JList "json list"
  | JObj "(string \<times> json) list"

section \<open>Writing\<close>

definition hex4 :: "nat \<Rightarrow> string" where
  "hex4 n = [hex_chr (n div 4096 mod 16), hex_chr (n div 256 mod 16), hex_chr (n div 16 mod 16), hex_chr (n mod 16)]"

definition u_escape :: "nat \<Rightarrow> string" where
  "u_escape cp =
    (if cp < 65536 then BSLASH # CHR ''u'' # hex4 cp
     else BSLASH # CHR ''u'' # hex4 (55296 + (cp - 65536) div 1024) @
          BSLASH # CHR ''u'' # hex4 (56320 + (cp - 65536) mod 1024))"

definition escape_ascii :: "char \<Rightarrow> string" where
  "escape_ascii c =
    (if c = CHR 0x22 then [BSLASH, CHR 0x22]
     else if c = BSLASH then [BSLASH, BSLASH]
     else if ordc c = 10 then [BSLASH, CHR ''n'']
     else if ordc c = 13 then [BSLASH, CHR ''r'']
     else if ordc c = 9 then [BSLASH, CHR ''t'']
     else if ordc c = 12 then [BSLASH, CHR ''f'']
     else if ordc c = 8 then [BSLASH, CHR ''b'']
     else if ordc c < 32 \<or> ordc c = 127 then u_escape (ordc c)
     else [c])"

fun escape :: "string \<Rightarrow> string" where
  "escape [] = []"
| "escape (a # r) =
    (if ordc a < 128 then escape_ascii a @ escape r
     else if ordc a < 224 then
       (case r of b # r1 \<Rightarrow> u_escape ((ordc a - 192) * 64 + (ordc b - 128)) @ escape r1 | _ \<Rightarrow> [])
     else if ordc a < 240 then
       (case r of b # c # r2 \<Rightarrow>
          u_escape ((ordc a - 224) * 4096 + (ordc b - 128) * 64 + (ordc c - 128)) @ escape r2 | _ \<Rightarrow> [])
     else
       (case r of b # c # d # r3 \<Rightarrow>
          u_escape ((ordc a - 240) * 262144 + (ordc b - 128) * 4096 + (ordc c - 128) * 64 + (ordc d - 128))
            @ escape r3
        | _ \<Rightarrow> []))"

definition quote :: "string \<Rightarrow> string" where
  "quote s = CHR 0x22 # escape s @ [CHR 0x22]"

fun dumps :: "string \<times> string \<Rightarrow> json \<Rightarrow> string" where
  "dumps sep JNull = ''null''"
| "dumps sep (JBool b) = (if b then ''true'' else ''false'')"
| "dumps sep (JInt i) = int_str i"
| "dumps sep (JFloat t) = t"
| "dumps sep (JStr s) = quote s"
| "dumps sep (JList xs) = ''['' @ join (fst sep) (map (dumps sep) xs) @ '']''"
| "dumps sep (JObj kvs) =
    CHR 0x7B # join (fst sep) (map (\<lambda>(k, v). quote k @ snd sep @ dumps sep v) kvs) @ [CHR 0x7D]"

fun sort_keys :: "json \<Rightarrow> json" where
  "sort_keys (JList xs) = JList (map sort_keys xs)"
| "sort_keys (JObj kvs) = JObj (sort_key fst (map (\<lambda>(k, v). (k, sort_keys v)) kvs))"
| "sort_keys j = j"

definition compact :: "string \<times> string" where
  "compact = ('','', '':'')"

definition spaced :: "string \<times> string" where
  "spaced = ('', '', '': '')"

section \<open>Reading\<close>

definition is_ws :: "char \<Rightarrow> bool" where
  "is_ws c \<longleftrightarrow> ordc c \<in> {9, 10, 13, 32}"

definition ws :: "string \<Rightarrow> string" where
  "ws s = dropWhile is_ws s"

definition is_hex_any :: "char \<Rightarrow> bool" where
  "is_hex_any c \<longleftrightarrow> is_hex c \<or> (65 \<le> ordc c \<and> ordc c \<le> 70)"

definition hex_any_val :: "char \<Rightarrow> nat" where
  "hex_any_val c = (if 65 \<le> ordc c \<and> ordc c \<le> 70 then ordc c - 55 else hex_val c)"

definition unhex4 :: "string \<Rightarrow> nat option" where
  "unhex4 s = (if 4 \<le> length s \<and> list_all is_hex_any (take 4 s)
     then Some (foldl (\<lambda>a c. a * 16 + hex_any_val c) 0 (take 4 s)) else None)"

definition utf8_encode :: "nat \<Rightarrow> string" where
  "utf8_encode cp =
    (if cp < 128 then [chrn cp]
     else if cp < 2048 then [chrn (192 + cp div 64), chrn (128 + cp mod 64)]
     else if cp < 65536 then
       [chrn (224 + cp div 4096), chrn (128 + cp div 64 mod 64), chrn (128 + cp mod 64)]
     else [chrn (240 + cp div 262144), chrn (128 + cp div 4096 mod 64), chrn (128 + cp div 64 mod 64),
           chrn (128 + cp mod 64)])"

text \<open>The text of a string literal after its opening quote, and the rest after the closing one.\<close>

definition simple_escape :: "char \<Rightarrow> char option" where
  "simple_escape c = map_of [(CHR 0x22, CHR 0x22), (BSLASH, BSLASH), (CHR ''/'', CHR ''/''),
     (CHR ''b'', CHR 0x08), (CHR ''f'', CHR 0x0C), (CHR ''n'', CHR 0x0A), (CHR ''r'', CHR 0x0D),
     (CHR ''t'', CHR 0x09)] c"

definition low_surrogate :: "string \<Rightarrow> nat option" where
  "low_surrogate s = (if startswith s [BSLASH, CHR ''u'']
     then (case unhex4 (drop 2 s) of Some n \<Rightarrow> if 56320 \<le> n \<and> n < 57344 then Some n else None | None \<Rightarrow> None)
     else None)"

function parse_str :: "string \<Rightarrow> (string \<times> string) option" where
  "parse_str [] = None"
| "parse_str (c # s) =
    (if c = CHR 0x22 then Some ([], s)
     else if ordc c < 32 then None
     else if c \<noteq> BSLASH then map_option (\<lambda>(a, r). (c # a, r)) (parse_str s)
     else (case s of [] \<Rightarrow> None
       | e # s1 \<Rightarrow>
         if e = CHR ''u'' then
           (case unhex4 s1 of None \<Rightarrow> None
            | Some n \<Rightarrow>
              (let s2 = drop 4 s1 in
               case (if 55296 \<le> n \<and> n < 56320 then low_surrogate s2 else None) of
                 Some m \<Rightarrow> map_option (\<lambda>(a, r). (utf8_encode (65536 + (n - 55296) * 1024 + (m - 56320)) @ a, r))
                             (parse_str (drop 6 s2))
               | None \<Rightarrow> map_option (\<lambda>(a, r). (utf8_encode n @ a, r)) (parse_str s2)))
         else (case simple_escape e of None \<Rightarrow> None
               | Some d \<Rightarrow> map_option (\<lambda>(a, r). (d # a, r)) (parse_str s1))))"
  by pat_completeness auto
termination
  by (relation "measure length") (auto split: if_splits)

text \<open>The integer part, the fraction and the exponent of a number, each with the rest.\<close>

definition scan_int :: "string \<Rightarrow> string" where
  "scan_int s = (if startswith s ''0'' then ''0'' else takeWhile is_digit s)"

definition scan_frac :: "string \<Rightarrow> string \<times> string" where
  "scan_frac s =
    (let fp = (if startswith s ''.'' then takeWhile is_digit (drop 1 s) else [])
     in (fp, if fp = [] then s else drop (1 + length fp) s))"

definition scan_exp :: "string \<Rightarrow> string \<times> string" where
  "scan_exp s =
    (let n = (if startswith s ''e'' \<or> startswith s ''E''
              then (if startswith (drop 1 s) ''+'' \<or> startswith (drop 1 s) ''-'' then 2 else 1) else 0);
         ep = (if n = 0 then [] else takeWhile is_digit (drop n s))
     in (ep, if ep = [] then s else drop (n + length ep) s))"

definition parse_number :: "string \<Rightarrow> (json \<times> string) option" where
  "parse_number s =
    (let neg = startswith s ''-'';
         s1 = (if neg then drop 1 s else s);
         ip = scan_int s1
     in case scan_frac (drop (length ip) s1) of (fp, s3) \<Rightarrow>
        case scan_exp s3 of (ep, s4) \<Rightarrow>
          if ip = [] then None
          else if fp = [] \<and> ep = [] then
            Some (JInt ((if neg then - 1 else 1) * int (digits_value 0 ip)), s4)
          else Some (JFloat (take (length s - length s4) s), s4))"

fun parse_value :: "nat \<Rightarrow> string \<Rightarrow> (json \<times> string) option"
  and parse_elems :: "nat \<Rightarrow> string \<Rightarrow> (json list \<times> string) option"
  and parse_members :: "nat \<Rightarrow> string \<Rightarrow> ((string \<times> json) list \<times> string) option" where
  "parse_value 0 s = None"
| "parse_value (Suc f) s =
    (case s of [] \<Rightarrow> None
     | c # r \<Rightarrow>
       if c = CHR 0x22 then map_option (\<lambda>(t, r'). (JStr t, r')) (parse_str r)
       else if c = CHR 0x7B then
         (case ws r of
            d # r1 \<Rightarrow> if d = CHR 0x7D then Some (JObj [], r1)
              else map_option (\<lambda>(kvs, r'). (JObj (foldl (\<lambda>a (k, v). AList.update k v a) [] kvs), r'))
                     (parse_members f (d # r1))
          | [] \<Rightarrow> None)
       else if c = CHR ''['' then
         (case ws r of
            d # r1 \<Rightarrow> if d = CHR '']'' then Some (JList [], r1)
              else map_option (\<lambda>(xs, r'). (JList xs, r')) (parse_elems f (d # r1))
          | [] \<Rightarrow> None)
       else if startswith s ''null'' then Some (JNull, drop 4 s)
       else if startswith s ''true'' then Some (JBool True, drop 4 s)
       else if startswith s ''false'' then Some (JBool False, drop 5 s)
       else parse_number s)"
| "parse_elems 0 s = None"
| "parse_elems (Suc f) s =
    (case parse_value f s of None \<Rightarrow> None
     | Some (v, r) \<Rightarrow>
       (case ws r of
          d # r1 \<Rightarrow>
            if d = CHR '']'' then Some ([v], r1)
            else if d = CHR '','' then map_option (\<lambda>(xs, r'). (v # xs, r')) (parse_elems f (ws r1))
            else None
        | [] \<Rightarrow> None))"
| "parse_members 0 s = None"
| "parse_members (Suc f) s =
    (case s of [] \<Rightarrow> None
     | c # r \<Rightarrow>
       if c \<noteq> CHR 0x22 then None
       else (case parse_str r of None \<Rightarrow> None
         | Some (k, r1) \<Rightarrow>
           (case ws r1 of
              d # r2 \<Rightarrow>
                if d \<noteq> CHR '':'' then None
                else (case parse_value f (ws r2) of None \<Rightarrow> None
                  | Some (v, r3) \<Rightarrow>
                    (case ws r3 of
                       e # r4 \<Rightarrow>
                         if e = CHR 0x7D then Some ([(k, v)], r4)
                         else if e = CHR '','' then
                           map_option (\<lambda>(kvs, r'). ((k, v) # kvs, r')) (parse_members f (ws r4))
                         else None
                     | [] \<Rightarrow> None))
            | [] \<Rightarrow> None)))"

definition loads :: "string \<Rightarrow> json res" where
  "loads s =
    (case parse_value (2 * length s + 2) (ws s) of
       None \<Rightarrow> Inl (ValueError ''JSONDecodeError'')
     | Some (v, r) \<Rightarrow> if ws r = [] then Inr v else Inl (ValueError ''JSONDecodeError''))"

section \<open>Access\<close>

text \<open>\<^verbatim>\<open>d[k]\<close>, \<^verbatim>\<open>d.get(k)\<close> and \<^verbatim>\<open>int(v)\<close> on a decoded document.\<close>

definition jget :: "json \<Rightarrow> string \<Rightarrow> json option res" where
  "jget j k = (case j of JObj kvs \<Rightarrow> Inr (map_of kvs k)
     | _ \<Rightarrow> Inl (TypeError ''no attribute get''))"

definition jitem :: "json \<Rightarrow> string \<Rightarrow> json res" where
  "jitem j k = (case j of
       JObj kvs \<Rightarrow> (case map_of kvs k of None \<Rightarrow> Inl (KeyError k) | Some v \<Rightarrow> Inr v)
     | _ \<Rightarrow> Inl (TypeError ''not subscriptable by str''))"

text \<open>A number in floating-point form, as its sign, its decimal digits and its exponent.\<close>

definition float_parts :: "string \<Rightarrow> bool \<times> nat \<times> int" where
  "float_parts t =
    (let neg = startswith t ''-'';
         u = (if neg then drop 1 t else t);
         ip = takeWhile is_digit u;
         u2 = drop (length ip) u;
         fp = (if startswith u2 ''.'' then takeWhile is_digit (drop 1 u2) else []);
         u3 = (if fp = [] then u2 else drop (1 + length fp) u2);
         e = (if u3 = [] then 0 else (case py_int (drop 1 u3) of Inr i \<Rightarrow> i | Inl _ \<Rightarrow> 0))
     in (neg, digits_value 0 (ip @ fp), e - int (length fp)))"

definition float_int :: "string \<Rightarrow> int" where
  "float_int t =
    (case float_parts t of (neg, m, sc) \<Rightarrow>
     let v = (if 0 \<le> sc then m * 10 ^ nat sc else m div 10 ^ nat (- sc))
     in if neg then - int v else int v)"

definition jint :: "json \<Rightarrow> int res" where
  "jint j = (case j of JInt i \<Rightarrow> Inr i | JBool b \<Rightarrow> Inr (if b then 1 else 0) | JStr s \<Rightarrow> py_int s
     | JFloat t \<Rightarrow> Inr (float_int t)
     | _ \<Rightarrow> Inl (TypeError ''int() argument must be a string or a number''))"

text \<open>\<^verbatim>\<open>value == n\<close> for the result of \<^verbatim>\<open>get\<close> and an integer: booleans are integers in Python, and a
  number in floating-point form is compared by its exact value.\<close>

definition float_is :: "string \<Rightarrow> int \<Rightarrow> bool" where
  "float_is t n \<longleftrightarrow> float_int t = n \<and>
    (case float_parts t of (neg, m, sc) \<Rightarrow> 0 \<le> sc \<or> 10 ^ nat (- sc) dvd m)"

definition json_is_int :: "json option \<Rightarrow> int \<Rightarrow> bool" where
  "json_is_int v n = (case v of Some (JInt i) \<Rightarrow> i = n | Some (JBool b) \<Rightarrow> (if b then 1 else 0) = n
     | Some (JFloat t) \<Rightarrow> float_is t n | _ \<Rightarrow> False)"

text \<open>\<^verbatim>\<open>for item in d.get(k, [])\<close>: iterating over a string or an object gives its characters or keys,
  and any other value is a type error.\<close>

definition json_items :: "json option \<Rightarrow> json list res" where
  "json_items v = (case v of None \<Rightarrow> Inr [] | Some (JList xs) \<Rightarrow> Inr xs
     | Some (JStr s) \<Rightarrow> Inr (map (\<lambda>c. JStr [c]) s) | Some (JObj kvs) \<Rightarrow> Inr (map (\<lambda>(k, _). JStr k) kvs)
     | Some _ \<Rightarrow> Inl (TypeError ''object is not iterable''))"

section \<open>Lemmas\<close>

definition ascii_str :: "string \<Rightarrow> bool" where
  "ascii_str s \<longleftrightarrow> (\<forall>c \<in> set s. ordc c < 128)"

text \<open>Documents without numbers in floating-point form, with ASCII text and distinct keys.\<close>

fun ascii_json :: "json \<Rightarrow> bool" where
  "ascii_json (JFloat t) = False"
| "ascii_json (JStr s) = ascii_str s"
| "ascii_json (JList xs) = (\<forall>x \<in> set xs. ascii_json x)"
| "ascii_json (JObj kvs) = (distinct (map fst kvs) \<and> (\<forall>(k, v) \<in> set kvs. ascii_str k \<and> ascii_json v))"
| "ascii_json _ = True"

definition good_sep :: "string \<times> string \<Rightarrow> bool" where
  "good_sep sep \<longleftrightarrow> (\<exists>a. fst sep = CHR '','' # a \<and> list_all is_ws a) \<and>
     (\<exists>b. snd sep = CHR '':'' # b \<and> list_all is_ws b)"

lemma good_sep_known [simp]: "good_sep compact" "good_sep spaced"
  by (auto simp: good_sep_def compact_def spaced_def is_ws_def)

fun need_fuel :: "json \<Rightarrow> nat" where
  "need_fuel (JList xs) = Suc (\<Sum>x \<leftarrow> xs. Suc (need_fuel x))"
| "need_fuel (JObj kvs) = Suc (\<Sum>(k, v) \<leftarrow> kvs. Suc (need_fuel v))"
| "need_fuel _ = 1"

lemma ws_append: "list_all is_ws a \<Longrightarrow> ws (a @ s) = ws s"
  by (simp add: ws_def list_all_iff dropWhile_append2)

lemma ws_stop: "\<not> is_ws c \<Longrightarrow> ws (c # s) = c # s"
  by (simp add: ws_def)

lemma map_option_case_id: "map_option (\<lambda>(a, r). (c # a, r)) (Some (x, y)) = Some (c # x, y)"
  by simp

lemma hex_any_hex_chr: "d < 16 \<Longrightarrow> is_hex_any (hex_chr d) \<and> hex_any_val (hex_chr d) = d"
  by (auto simp: is_hex_any_def hex_any_val_def hex_chr_def hex_val_def is_hex_def is_digit_def)

lemma ordc_eq_code: "ordc c = k \<Longrightarrow> (ordc a = k) = (a = c)"
  by auto

lemma unhex4_hex4: "n < 65536 \<Longrightarrow> unhex4 (hex4 n @ s) = Some n"
proof -
  assume "n < 65536"
  moreover have "n div 256 = n div 16 div 16" "n div 4096 = n div 256 div 16"
    using div_mult2_eq [of n 16 16] div_mult2_eq [of n 256 16] by simp_all
  moreover have "n div 256 div 16 mod 16 = n div 256 div 16"
    using \<open>n < 65536\<close> div_mult2_eq [of n 256 16] by simp
  ultimately have "((n div 4096 mod 16 * 16 + n div 256 mod 16) * 16 + n div 16 mod 16) * 16 + n mod 16 = n"
    using div_mult_mod_eq [of n 16] div_mult_mod_eq [of "n div 16" 16] div_mult_mod_eq [of "n div 256" 16]
    by (simp only:)
  then show ?thesis using \<open>n < 65536\<close> by (simp add: unhex4_def hex4_def hex_any_hex_chr)
qed

lemma parse_str_u_escape:
  assumes "ordc c < 128"
  shows "parse_str (u_escape (ordc c) @ t) = map_option (\<lambda>(a, r). (c # a, r)) (parse_str t)"
proof -
  have "unhex4 (hex4 (ordc c) @ t) = Some (ordc c)" using assms by (intro unhex4_hex4) simp
  moreover have "drop 4 (hex4 (ordc c) @ t) = t" by (simp add: hex4_def)
  moreover have "utf8_encode (ordc c) = [c]" using assms by (simp add: utf8_encode_def)
  ultimately show ?thesis using assms by (simp add: u_escape_def)
qed

lemma parse_str_escape_ascii:
  assumes "ordc a < 128"
  shows "parse_str (escape_ascii a @ t) = map_option (\<lambda>(x, r). (a # x, r)) (parse_str t)"
proof -
  have eqs: "ordc a = 10 \<longleftrightarrow> a = CHR 0x0A" "ordc a = 13 \<longleftrightarrow> a = CHR 0x0D" "ordc a = 9 \<longleftrightarrow> a = CHR 0x09"
    "ordc a = 12 \<longleftrightarrow> a = CHR 0x0C" "ordc a = 8 \<longleftrightarrow> a = CHR 0x08"
    by (rule ordc_eq_code, simp)+
  show ?thesis
    unfolding escape_ascii_def eqs using assms parse_str_u_escape [of a t]
    by (auto simp: simple_escape_def simp del: parse_str.simps(1))
qed

lemma parse_str_escape:
  "ascii_str s \<Longrightarrow> parse_str (escape s @ CHR 0x22 # r) = Some (s, r)"
  by (induction s) (simp_all add: ascii_str_def parse_str_escape_ascii)

lemma parse_str_quote: "ascii_str s \<Longrightarrow> \<exists>q. quote s @ r = CHR 0x22 # q \<and> parse_str q = Some (s, r)"
  by (simp add: quote_def parse_str_escape)

text \<open>What may follow a number for the scanner to stop at its end.\<close>

definition stops :: "string \<Rightarrow> bool" where
  "stops r \<longleftrightarrow> (case r of [] \<Rightarrow> True | c # _ \<Rightarrow> \<not> is_digit c \<and> c \<notin> {CHR ''.'', CHR ''e'', CHR ''E''})"

lemma stops_simps:
  "stops []" "stops (CHR '','' # r)" "stops (CHR '']'' # r)" "stops (CHR 0x7D # r)"
  by (simp_all add: stops_def is_digit_def)

lemma dec_hd: "0 < n \<Longrightarrow> hd (dec n) \<noteq> CHR ''0''"
proof (induction n rule: dec.induct)
  case (1 n)
  have zero: "0 < d \<Longrightarrow> d < 10 \<Longrightarrow> digit_chr d \<noteq> CHR ''0''" for d
  proof
    assume "0 < d" "d < 10" "digit_chr d = CHR ''0''"
    then have "digit_val (digit_chr d) = digit_val (CHR ''0'')" by simp
    with \<open>0 < d\<close> \<open>d < 10\<close> show False by (simp add: digit_val_def del: digit_val_digit_chr) (simp add: digit_chr_def)
  qed
  show ?case
    using 1 zero by (subst dec.simps) (auto simp: hd_append)
qed

lemma takeWhile_dec:
  assumes "stops r"
  shows "takeWhile is_digit (dec n @ r) = dec n"
proof -
  have "takeWhile is_digit (dec n @ r) = dec n @ takeWhile is_digit r"
    by (rule takeWhile_append2) (rule dec_digits)
  moreover have "takeWhile is_digit r = []" using assms by (auto simp: stops_def split: list.splits)
  ultimately show ?thesis by simp
qed

lemma parse_number_dec:
  assumes "stops r" and "s1 = dec n @ r"
  shows "scan_int s1 = dec n"
proof (cases "n = 0")
  case True
  have "digit_chr 0 = CHR ''0''"
    using chrn_ordc [of "CHR ''0''"] by (simp add: digit_chr_def del: chrn_ordc)
  then have "dec 0 = ''0''" by (simp add: dec.simps)
  then show ?thesis using True assms by (simp add: scan_int_def)
next
  case False
  then have "\<not> startswith s1 ''0''"
    using dec_hd [of n] dec_not_Nil [of n] unfolding assms(2) by (cases "dec n") auto
  then show ?thesis using assms by (simp add: takeWhile_dec scan_int_def)
qed

lemma scan_stops:
  assumes "stops r"
  shows "scan_frac r = ([], r)" and "scan_exp r = ([], r)"
proof -
  have "\<not> startswith r ''.''" "\<not> startswith r ''e''" "\<not> startswith r ''E''"
    using assms by (cases r; auto simp: stops_def)+
  then show "scan_frac r = ([], r)" and "scan_exp r = ([], r)"
    by (simp_all add: scan_frac_def scan_exp_def)
qed

lemma parse_number_int:
  assumes "stops r"
  shows "parse_number (int_str i @ r) = Some (JInt i, r)"
proof (cases "i < 0")
  case True
  note ip = parse_number_dec [OF assms refl, of "nat (- i)"]
  show ?thesis
    using True ip by (simp add: parse_number_def int_str_def scan_stops [OF assms])
next
  case False
  obtain c d where cd: "dec (nat i) = c # d" using dec_not_Nil [of "nat i"] by (cases "dec (nat i)") auto
  then have "c \<noteq> CHR ''-''" using dec_digits [of c "nat i"] by (auto simp: is_digit_def)
  then have "\<not> startswith (dec (nat i) @ r) ''-''" by (simp add: cd)
  then show ?thesis
    using False parse_number_dec [OF assms refl, of "nat i"]
    by (simp add: parse_number_def int_str_def scan_stops [OF assms])
qed

lemma dumps_head:
  assumes "ascii_json j"
  shows "\<exists>c t. dumps sep j = c # t \<and> \<not> is_ws c \<and> c \<noteq> CHR '']''"
proof (cases j)
  case (JInt i)
  obtain c t where ct: "int_str i = c # t"
    using dec_not_Nil by (cases "int_str i") (auto simp: int_str_def split: if_splits)
  then have "is_digit c \<or> c = CHR ''-''" using int_str_chars [of c i] by simp
  then show ?thesis using JInt ct by (auto simp: is_ws_def is_digit_def)
qed (use assms in \<open>auto simp: is_ws_def quote_def\<close>)

lemma parse_value_int:
  assumes "stops r"
  shows "parse_value (Suc f) (int_str i @ r) = Some (JInt i, r)"
proof -
  obtain c t where ct: "int_str i = c # t"
    using dec_not_Nil by (cases "int_str i") (auto simp: int_str_def split: if_splits)
  then have "is_digit c \<or> c = CHR ''-''" using int_str_chars [of c i] by simp
  then have "c \<noteq> CHR 0x22 \<and> c \<noteq> CHR 0x7B \<and> c \<noteq> CHR ''['' \<and> c \<noteq> CHR ''n'' \<and> c \<noteq> CHR ''t'' \<and> c \<noteq> CHR ''f''"
    by (auto simp: is_digit_def)
  then show ?thesis using parse_number_int [OF assms, of i] by (simp add: ct)
qed

lemma parse_elems_dumps:
  assumes "\<And>x f r. x \<in> set xs \<Longrightarrow> need_fuel x \<le> f \<Longrightarrow> stops r \<Longrightarrow> parse_value f (dumps sep x @ r) = Some (x, r)"
    and "\<And>x. x \<in> set xs \<Longrightarrow> ascii_json x" and "good_sep sep" and "xs \<noteq> []"
    and "(\<Sum>x \<leftarrow> xs. Suc (need_fuel x)) \<le> f"
  shows "parse_elems f (join (fst sep) (map (dumps sep) xs) @ CHR '']'' # r) = Some (xs, r)"
  using assms
proof (induction xs arbitrary: f)
  case (Cons x xs)
  obtain f' where f: "f = Suc f'" using Cons.prems(5) by (cases f) auto
  have x: "need_fuel x \<le> f'" using Cons.prems(5) f by simp
  show ?case
  proof (cases "xs = []")
    case True
    then show ?thesis
      using Cons.prems(1) [of x f' "CHR '']'' # r"] x f
      by (simp add: stops_simps ws_stop is_ws_def)
  next
    case False
    obtain a where a: "fst sep = CHR '','' # a" "list_all is_ws a"
      using Cons.prems(3) by (auto simp: good_sep_def)
    let ?tl = "join (fst sep) (map (dumps sep) xs) @ CHR '']'' # r"
    obtain y ys where ys: "xs = y # ys" using False by (cases xs) auto
    obtain c t where ct: "dumps sep y = c # t" "\<not> is_ws c"
      using dumps_head [of y sep] Cons.prems(2) ys by auto
    have "\<exists>u. ?tl = c # u" using ct by (cases ys) (auto simp: ys)
    then have tl: "ws (a @ ?tl) = ?tl" using a(2) ct(2) by (auto simp: ws_append ws_stop)
    have v: "parse_value f' (dumps sep x @ CHR '','' # a @ ?tl) = Some (x, CHR '','' # a @ ?tl)"
      using Cons.prems(1) x by (simp add: stops_simps)
    have "parse_elems f' ?tl = Some (xs, r)"
      using Cons.prems f False by (intro Cons.IH) auto
    then show ?thesis
      using v tl False f by (simp add: join_Cons a(1) ws_stop is_ws_def)
  qed
qed simp

lemma parse_members_dumps:
  assumes "\<And>k v f r. (k, v) \<in> set kvs \<Longrightarrow> need_fuel v \<le> f \<Longrightarrow> stops r \<Longrightarrow>
      parse_value f (dumps sep v @ r) = Some (v, r)"
    and "\<And>k v. (k, v) \<in> set kvs \<Longrightarrow> ascii_str k \<and> ascii_json v" and "good_sep sep" and "kvs \<noteq> []"
    and "(\<Sum>(k, v) \<leftarrow> kvs. Suc (need_fuel v)) \<le> f"
  shows "parse_members f (join (fst sep) (map (\<lambda>(k, v). quote k @ snd sep @ dumps sep v) kvs) @
      CHR 0x7D # r) = Some (kvs, r)"
  using assms
proof (induction kvs arbitrary: f)
  case (Cons kv kvs)
  obtain k v where kv: "kv = (k, v)" by (cases kv)
  obtain f' where f: "f = Suc f'" using Cons.prems(5) kv by (cases f) auto
  have nf: "need_fuel v \<le> f'" using Cons.prems(5) f kv by simp
  have wf: "ascii_str k" "ascii_json v" using Cons.prems(2) kv by auto
  obtain a b where a: "fst sep = CHR '','' # a" "list_all is_ws a"
    and b: "snd sep = CHR '':'' # b" "list_all is_ws b"
    using Cons.prems(3) by (auto simp: good_sep_def)
  obtain c t where ct: "dumps sep v = c # t" "\<not> is_ws c" using dumps_head [OF wf(2)] by blast
  have head: "parse_members f (quote k @ snd sep @ dumps sep v @ z # u) =
      (if z = CHR 0x7D then Some ([(k, v)], u)
       else if z = CHR '','' then map_option (\<lambda>(kvs, r'). ((k, v) # kvs, r')) (parse_members f' (ws u))
       else None)" if "z = CHR 0x7D \<or> z = CHR '',''" for z u
  proof -
    obtain q where q: "quote k @ snd sep @ dumps sep v @ z # u = CHR 0x22 # q"
      and ps: "parse_str q = Some (k, snd sep @ dumps sep v @ z # u)"
      using parse_str_quote [OF wf(1)] by blast
    have "ws (b @ dumps sep v @ z # u) = dumps sep v @ z # u"
      using b(2) ct by (simp add: ws_append ws_stop)
    moreover have "parse_value f' (dumps sep v @ z # u) = Some (v, z # u)"
      using Cons.prems(1) [of k v f' "z # u"] kv nf that by (auto simp: stops_simps)
    moreover have "ws (z # u) = z # u" using that by (auto simp: ws_stop is_ws_def)
    ultimately show ?thesis
      unfolding q f using ps b(1) by (simp add: ws_stop is_ws_def)
  qed
  show ?case
  proof (cases "kvs = []")
    case True
    then show ?thesis using head [of "CHR 0x7D" r] by (simp add: kv)
  next
    case False
    let ?tl = "join (fst sep) (map (\<lambda>(k, v). quote k @ snd sep @ dumps sep v) kvs) @ CHR 0x7D # r"
    have "\<exists>u. ?tl = CHR 0x22 # u" using False by (cases kvs; cases "tl kvs") (auto simp: quote_def)
    then have tl: "ws (a @ ?tl) = ?tl" using a(2) by (auto simp: ws_append ws_stop is_ws_def)
    have "parse_members f' ?tl = Some (kvs, r)"
    proof (rule Cons.IH)
      show "ascii_str k' \<and> ascii_json v'" if "(k', v') \<in> set kvs" for k' v'
        using Cons.prems(2) [of k' v'] that by simp
    qed (use Cons.prems f False kv in auto)
    then show ?thesis
      using head [of "CHR '',''" "a @ ?tl"] tl False by (simp add: kv join_Cons a(1))
  qed
qed simp

lemma foldl_update_distinct:
  "distinct (map fst (acc @ kvs)) \<Longrightarrow> foldl (\<lambda>a (k, v). AList.update k v a) acc kvs = acc @ kvs"
proof (induction kvs arbitrary: acc)
  case (Cons kv kvs)
  obtain k v where kv: "kv = (k, v)" by (cases kv)
  have "AList.update k v acc = acc @ [(k, v)]"
    using Cons.prems kv by (intro update_absent) auto
  then show ?case using Cons kv by simp
qed simp

lemma parse_value_dumps:
  "ascii_json j \<Longrightarrow> good_sep sep \<Longrightarrow> need_fuel j \<le> f \<Longrightarrow> stops r \<Longrightarrow>
   parse_value f (dumps sep j @ r) = Some (j, r)"
proof (induction sep j arbitrary: f r rule: dumps.induct)
  case (3 sep i)
  then show ?case by (cases f) (simp_all add: parse_value_int del: parse_value.simps(2))
next
  case (5 sep s)
  then show ?case by (cases f) (auto simp: quote_def parse_str_escape)
next
  case (6 sep xs)
  obtain f' where f: "f = Suc f'" using "6.prems" by (cases f) auto
  show ?case
  proof (cases "xs = []")
    case True
    then show ?thesis by (simp add: f ws_stop is_ws_def)
  next
    case False
    let ?t = "join (fst sep) (map (dumps sep) xs) @ CHR '']'' # r"
    obtain y ys where ys: "xs = y # ys" using False by (cases xs) auto
    obtain c t where ct: "dumps sep y = c # t" "\<not> is_ws c" "c \<noteq> CHR '']''"
      using dumps_head [of y sep] "6.prems" ys by auto
    obtain u where u: "?t = c # u" using ct by (cases ys) (auto simp: ys)
    have "parse_elems f' ?t = Some (xs, r)"
    proof (rule parse_elems_dumps)
      show "parse_value g (dumps sep x @ q) = Some (x, q)"
        if "x \<in> set xs" "need_fuel x \<le> g" "stops q" for x g q
        using that "6.prems" by (intro "6.IH") auto
    qed (use "6.prems" f False in auto)
    then show ?thesis using u ct by (simp add: f ws_stop)
  qed
next
  case (7 sep kvs)
  obtain f' where f: "f = Suc f'" using "7.prems" by (cases f) auto
  show ?case
  proof (cases "kvs = []")
    case True
    then show ?thesis by (simp add: f ws_stop is_ws_def)
  next
    case False
    let ?t = "join (fst sep) (map (\<lambda>(k, v). quote k @ snd sep @ dumps sep v) kvs) @ CHR 0x7D # r"
    obtain u where u: "?t = CHR 0x22 # u" using False by (cases kvs; cases "tl kvs") (auto simp: quote_def)
    have "parse_members f' ?t = Some (kvs, r)"
    proof (rule parse_members_dumps)
      show "parse_value g (dumps sep v @ q) = Some (v, q)"
        if "(k, v) \<in> set kvs" "need_fuel v \<le> g" "stops q" for k v g q
        using that "7.prems" by (intro "7.IH" [of "(k, v)" k]) auto
    qed (use "7.prems" f False in auto)
    moreover have "foldl (\<lambda>a (k, v). AList.update k v a) [] kvs = kvs"
      using "7.prems" foldl_update_distinct [of "[]" kvs] by simp
    ultimately show ?thesis using u by (simp add: f ws_stop is_ws_def)
  qed
next
  case (1 sep)
  then show ?case by (cases f) simp_all
next
  case (2 sep b)
  then show ?case by (cases f) simp_all
next
  case (4 sep t)
  then show ?case by simp
qed

lemma length_join_ge: "(\<Sum>s \<leftarrow> ss. length s) \<le> length (join sep ss)"
proof (induction ss)
  case (Cons s ss)
  then show ?case by (cases ss) auto
qed simp

lemma sum_fuel_le:
  assumes "\<And>x. x \<in> set xs \<Longrightarrow> Suc (f x) \<le> 2 * length (g x)"
  shows "(\<Sum>x \<leftarrow> xs. Suc (f x)) \<le> 2 * length (join sep (map g xs))"
proof -
  have "(\<Sum>x \<leftarrow> xs. Suc (f x)) \<le> (\<Sum>x \<leftarrow> xs. 2 * length (g x))"
    using assms by (intro sum_list_mono) auto
  also have "\<dots> = 2 * (\<Sum>s \<leftarrow> map g xs. length s)"
    by (induction xs) simp_all
  also have "\<dots> \<le> 2 * length (join sep (map g xs))"
    using length_join_ge [of "map g xs" sep] by simp
  finally show ?thesis .
qed

lemma need_fuel_le:
  "ascii_json j \<Longrightarrow> Suc (need_fuel j) \<le> 2 * length (dumps sep j)"
proof (induction sep j rule: dumps.induct)
  case (3 sep i)
  obtain c t where "int_str i = c # t"
    using dec_not_Nil by (cases "int_str i") (auto simp: int_str_def split: if_splits)
  then show ?case by simp
next
  case (6 sep xs)
  then have "(\<Sum>x \<leftarrow> xs. Suc (need_fuel x)) \<le> 2 * length (join (fst sep) (map (dumps sep) xs))"
    by (intro sum_fuel_le) auto
  then show ?case by simp
next
  case (7 sep kvs)
  have "(\<Sum>kv \<leftarrow> kvs. Suc (case kv of (k, v) \<Rightarrow> need_fuel v)) \<le>
      2 * length (join (fst sep) (map (\<lambda>(k, v). quote k @ snd sep @ dumps sep v) kvs))"
  proof (rule sum_fuel_le)
    fix kv assume kv: "kv \<in> set kvs"
    obtain k v where eq: "kv = (k, v)" by (cases kv)
    have "ascii_json v" using "7.prems" kv eq by auto
    then have "Suc (need_fuel v) \<le> 2 * length (dumps sep v)"
      by (rule "7.IH" [OF kv eq [symmetric]])
    with eq show "Suc (case kv of (k, v) \<Rightarrow> need_fuel v) \<le> 2 * length (case kv of (k, v) \<Rightarrow> quote k @ snd sep @ dumps sep v)"
      by simp
  qed
  moreover have "(\<lambda>kv :: string \<times> json. Suc (case kv of (k, v) \<Rightarrow> need_fuel v)) =
      (\<lambda>(k, v). Suc (need_fuel v))" by auto
  ultimately show ?case by simp
qed (auto simp: quote_def)

lemma loads_dumps_sep:
  assumes "ascii_json j" and "good_sep sep"
  shows "loads (dumps sep j) = Inr j"
proof -
  obtain c t where "dumps sep j = c # t" "\<not> is_ws c" using dumps_head [OF assms(1)] by blast
  then have "ws (dumps sep j) = dumps sep j" by (simp add: ws_stop)
  moreover have "parse_value (2 * length (dumps sep j) + 2) (dumps sep j @ []) = Some (j, [])"
    using assms need_fuel_le [OF assms(1), of sep] by (intro parse_value_dumps) (auto simp: stops_def)
  ultimately show ?thesis by (simp add: loads_def ws_def)
qed

text \<open>The text of such a document is printable ASCII.\<close>

definition printable :: "char \<Rightarrow> bool" where
  "printable c \<longleftrightarrow> 32 \<le> ordc c \<and> ordc c < 128"

lemma hex_chr_ascii: "d < 16 \<Longrightarrow> 32 \<le> ordc (hex_chr d) \<and> ordc (hex_chr d) < 128"
  by (simp add: hex_chr_def)

lemma u_escape_ascii: "c \<in> set (u_escape n) \<Longrightarrow> printable c"
  by (auto simp: printable_def u_escape_def hex4_def hex_chr_ascii split: if_splits)

lemma escape_is_ascii: "ascii_str s \<Longrightarrow> c \<in> set (escape s) \<Longrightarrow> printable c"
proof (induction s)
  case (Cons a s)
  then have a: "ordc a < 128" by (simp add: ascii_str_def)
  then have "c \<in> set (escape_ascii a) \<or> c \<in> set (escape s)" using Cons.prems(2) by simp
  moreover have "c \<in> set (escape_ascii a) \<Longrightarrow> printable c"
    using a u_escape_ascii by (auto simp: printable_def escape_ascii_def split: if_splits)
  ultimately show ?case using Cons by (auto simp: ascii_str_def)
qed simp

lemma quote_is_ascii: "ascii_str s \<Longrightarrow> c \<in> set (quote s) \<Longrightarrow> printable c"
  using escape_is_ascii by (auto simp: quote_def printable_def)

lemma dumps_printable: "ascii_json j \<Longrightarrow> c \<in> set (dumps compact j) \<Longrightarrow> printable c"
proof (induction "compact" j rule: dumps.induct)
  case (3 i)
  then show ?case using int_str_chars [of c i] by (auto simp: is_digit_def printable_def)
next
  case (6 xs)
  then have "c \<in> {CHR ''['', CHR '']'', CHR '',''} \<or> (\<exists>x \<in> set xs. c \<in> set (dumps compact x))"
    using set_join_subset [of "'',''" "map (dumps compact) xs"] by (auto simp: compact_def)
  then show ?case using 6 by (auto simp: printable_def)
next
  case (7 kvs)
  let ?f = "\<lambda>(k, v). quote k @ snd compact @ dumps compact v"
  have "c \<in> {CHR 0x7B, CHR 0x7D, CHR '',''} \<or> (\<exists>kv \<in> set kvs. c \<in> set (?f kv))"
    using "7.prems"(2) set_join_subset [of "'',''" "map ?f kvs"] by (auto simp: compact_def)
  then consider "c \<in> {CHR 0x7B, CHR 0x7D, CHR '','', CHR '':''}"
    | k v where "(k, v) \<in> set kvs" "c \<in> set (quote k) \<or> c \<in> set (dumps compact v)"
    by (auto simp: compact_def)
  then show ?case
  proof cases
    case 2
    then have "ascii_str k" "ascii_json v" using "7.prems"(1) by auto
    then show ?thesis using 2 "7.hyps" [OF 2(1) refl] quote_is_ascii by blast
  qed (auto simp: printable_def)
next
  case (5 s)
  then show ?case using quote_is_ascii by simp
qed (auto simp: printable_def split: if_splits)

lemma ascii_dumps: "ascii_json j \<Longrightarrow> c \<in> set (dumps compact j) \<Longrightarrow> ordc c < 128"
  using dumps_printable by (simp add: printable_def)

end
