(* ===== verification/Ids.thy ===== *)
theory Ids
  imports PyStr
begin

text \<open>
  \<^verbatim>\<open>src/trunks/ids.py\<close>: object ids and ULIDs. The hash of \<^verbatim>\<open>hashlib\<close> is the argument \<open>h\<close> of
  every definition that uses it; it maps a byte string to its digest, and all that the
  program relies on is that a SHA-1 digest has 20 bytes (\<open>digest20 h\<close>). Statements that need
  more say so (\<open>inj_on h\<close> on the objects at hand).
\<close>

section \<open>Object ids\<close>

datatype ObjectId = ObjectId (oid_value: string)

type_synonym hash = "bytes \<Rightarrow> bytes"

definition digest20 :: "hash \<Rightarrow> bool" where
  "digest20 h \<longleftrightarrow> (\<forall>d. length (h d) = 20)"

definition valid_oid_str :: "string \<Rightarrow> bool" where
  "valid_oid_str s \<longleftrightarrow> length s = 40 \<and> list_all is_hex s"

definition valid_oid :: "ObjectId \<Rightarrow> bool" where
  "valid_oid x = valid_oid_str (oid_value x)"

text \<open>The constructor with the check of \<^verbatim>\<open>__post_init__\<close>.\<close>

definition mk_ObjectId :: "string \<Rightarrow> ObjectId res" where
  "mk_ObjectId s =
    (if length s \<noteq> 40 \<or> list_ex (\<lambda>c. \<not> is_hex c) s
     then Inl (ValueError ''invalid SHA-1 object id'') else Inr (ObjectId s))"

text \<open>\<^verbatim>\<open>from_bytes\<close> runs the constructor on a hexdigest; the check cannot fail on the digest of
  a 20-byte hash (\<open>mk_from_bytes\<close> below), so the model returns the id itself.\<close>

definition from_bytes :: "hash \<Rightarrow> bytes \<Rightarrow> ObjectId" where
  "from_bytes h data = ObjectId (hex_bytes (h data))"

definition raw :: "ObjectId \<Rightarrow> bytes" where
  "raw x = unhex (oid_value x)"

definition short :: "nat \<Rightarrow> ObjectId \<Rightarrow> string" where
  "short n x = take n (oid_value x)"

instantiation ObjectId :: linorder
begin

definition less_eq_ObjectId :: "ObjectId \<Rightarrow> ObjectId \<Rightarrow> bool" where
  "less_eq_ObjectId a b \<longleftrightarrow> oid_value a \<le> oid_value b"

definition less_ObjectId :: "ObjectId \<Rightarrow> ObjectId \<Rightarrow> bool" where
  "less_ObjectId a b \<longleftrightarrow> oid_value a < oid_value b"

instance
proof
  fix a b c :: ObjectId
  show "a < b \<longleftrightarrow> a \<le> b \<and> \<not> b \<le> a" by (auto simp: less_eq_ObjectId_def less_ObjectId_def)
  show "a \<le> a" by (simp add: less_eq_ObjectId_def)
  show "a \<le> b \<Longrightarrow> b \<le> c \<Longrightarrow> a \<le> c" by (simp add: less_eq_ObjectId_def)
  show "a \<le> b \<Longrightarrow> b \<le> a \<Longrightarrow> a = b" by (auto simp: less_eq_ObjectId_def ObjectId.expand)
  show "a \<le> b \<or> b \<le> a" by (auto simp: less_eq_ObjectId_def)
qed

end

section \<open>ULIDs\<close>

text \<open>\<^verbatim>\<open>(timestamp_ms << 80) | randomness\<close> with 80 random bits, written as 26 base-32 digits,
  most significant first. The loop takes the low five bits 26 times.\<close>

definition CROCKFORD :: string where
  "CROCKFORD = ''0123456789ABCDEFGHJKMNPQRSTVWXYZ''"

fun ulid_chars :: "nat \<Rightarrow> nat \<Rightarrow> string" where
  "ulid_chars 0 v = []"
| "ulid_chars (Suc k) v = (CROCKFORD ! (v mod 32)) # ulid_chars k (v div 32)"

definition ulid :: "nat \<Rightarrow> nat \<Rightarrow> string" where
  "ulid timestamp_ms randomness = rev (ulid_chars 26 (timestamp_ms * 2 ^ 80 + randomness))"

section \<open>Lemmas\<close>

lemma mk_ObjectId_Inr [simp]: "mk_ObjectId s = Inr x \<longleftrightarrow> valid_oid_str s \<and> x = ObjectId s"
  by (auto simp: mk_ObjectId_def valid_oid_str_def list_ex_iff list_all_iff)

lemma mk_ObjectId_valid [simp]: "valid_oid_str s \<Longrightarrow> mk_ObjectId s = Inr (ObjectId s)"
  by simp

lemma mk_ObjectId_value: "valid_oid x \<Longrightarrow> mk_ObjectId (oid_value x) = Inr x"
  by (simp add: valid_oid_def)

lemma mk_ObjectId_Inl: "mk_ObjectId s = Inl e \<longleftrightarrow>
    \<not> valid_oid_str s \<and> e = ValueError ''invalid SHA-1 object id''"
  by (auto simp: mk_ObjectId_def valid_oid_str_def list_ex_iff list_all_iff)

lemma valid_from_bytes [simp]: "digest20 h \<Longrightarrow> valid_oid (from_bytes h d)"
  by (auto simp: valid_oid_def valid_oid_str_def from_bytes_def digest20_def list_all_iff
      dest: hex_bytes_is_hex)

lemma mk_from_bytes: "digest20 h \<Longrightarrow> mk_ObjectId (hex_bytes (h d)) = Inr (from_bytes h d)"
  using valid_from_bytes [of h d] by (simp add: valid_oid_def from_bytes_def)

lemma hex_bytes_inject [simp]: "hex_bytes a = hex_bytes b \<longleftrightarrow> a = b"
  by (metis unhex_hex_bytes)

lemma from_bytes_eq_iff [simp]: "from_bytes h a = from_bytes h b \<longleftrightarrow> h a = h b"
  by (simp add: from_bytes_def)

lemma length_raw [simp]: "valid_oid x \<Longrightarrow> length (raw x) = 20"
  by (simp add: valid_oid_def valid_oid_str_def raw_def)

lemma hex_raw: "valid_oid x \<Longrightarrow> hex_bytes (raw x) = oid_value x"
  by (simp add: valid_oid_def valid_oid_str_def raw_def list_all_iff hex_bytes_unhex)

lemma mk_ObjectId_raw: "valid_oid x \<Longrightarrow> mk_ObjectId (hex_bytes (raw x)) = Inr x"
  by (simp add: hex_raw mk_ObjectId_value)

lemma valid_oid_ascii:
  "valid_oid x \<Longrightarrow> c \<in> set (oid_value x) \<Longrightarrow> 32 \<le> ordc c \<and> ordc c < 128 \<and> \<not> is_space c"
  by (auto simp: valid_oid_def valid_oid_str_def list_all_iff dest: is_hex_ascii)

lemma is_str_oid: "valid_oid x \<Longrightarrow> is_str (oid_value x)"
  by (rule is_str_ascii) (auto dest: valid_oid_ascii)

lemma length_ulid_chars [simp]: "length (ulid_chars k v) = k"
  by (induction k arbitrary: v) auto

lemma CROCKFORD_less: "i < j \<Longrightarrow> j < 32 \<Longrightarrow> CROCKFORD ! i < CROCKFORD ! j"
proof -
  have "sorted_wrt (<) CROCKFORD" by (simp add: CROCKFORD_def less_char_def)
  moreover have "length CROCKFORD = 32" by (simp add: CROCKFORD_def)
  moreover assume "i < j" "j < 32"
  ultimately show ?thesis by (simp add: sorted_wrt_nth_less)
qed

lemma append_less_append:
  fixes a :: "'a::linorder list"
  assumes "length a = length b"
  shows "a @ x < b @ y \<longleftrightarrow> a < b \<or> (a = b \<and> x < y)"
  using assms by (induction a b rule: list_induct2) auto

lemma ulid_chars_mono: "u < v \<Longrightarrow> v < 32 ^ k \<Longrightarrow> rev (ulid_chars k u) < rev (ulid_chars k v)"
proof (induction k arbitrary: u v)
  case 0
  then show ?case by simp
next
  case (Suc k)
  have bound: "v div 32 < 32 ^ k" using Suc.prems(2) by (simp add: less_mult_imp_div_less mult.commute)
  consider "u div 32 < v div 32" | "u div 32 = v div 32" "u mod 32 < v mod 32"
    using Suc.prems(1) by (metis div_le_mono div_mult_mod_eq le_eq_less_or_eq nat_add_left_cancel_less)
  then show ?case
  proof cases
    case 1
    then show ?thesis using Suc.IH [OF 1 bound] by (simp add: append_less_append)
  next
    case 2
    then show ?thesis using CROCKFORD_less [OF 2(2)] by (simp add: append_less_append)
  qed
qed

section \<open>Sample ids and a sample hash\<close>

text \<open>For closed examples: ids of one repeated digit, and the first 20 bytes of the data, padded,
  as a 20-byte digest.\<close>

definition sample_oid :: "char \<Rightarrow> ObjectId" where
  "sample_oid c = ObjectId (replicate 40 c)"

definition sample_hash :: hash where
  "sample_hash d = take 20 (d @ replicate 20 NUL)"

lemma valid_sample_oid: "is_hex c \<Longrightarrow> valid_oid (sample_oid c)"
  by (simp add: valid_oid_def valid_oid_str_def sample_oid_def list_all_iff)

lemma digest20_sample [simp]: "digest20 sample_hash"
  by (auto simp: digest20_def sample_hash_def)

section \<open>Properties\<close>

text \<open>ULIDs sort by time. An id drawn in a later millisecond is greater as a string than every id
  of an earlier one, whatever the 80 random bits are, up to the 48-bit range of the clock.\<close>

lemma ulid_time_order:
  assumes "t1 < t2" and "t2 < 2 ^ 48" and "r1 < 2 ^ 80" and "r2 < 2 ^ 80"
  shows "ulid t1 r1 < ulid t2 r2 \<and> length (ulid t1 r1) = 26"
proof -
  have "t1 * 2 ^ 80 + r1 < (t1 + 1) * 2 ^ 80" using assms(3) by simp
  also have "\<dots> \<le> t2 * 2 ^ 80" using assms(1) by (intro mult_right_mono) auto
  finally have "t1 * 2 ^ 80 + r1 < t2 * 2 ^ 80 + r2" by simp
  moreover have "(t2 + 1) * 2 ^ 80 \<le> 2 ^ 48 * (2 ^ 80 :: nat)"
    using assms(2) by (intro mult_right_mono) auto
  then have "t2 * 2 ^ 80 + r2 < 32 ^ 26" using assms(4) by simp
  ultimately show ?thesis unfolding ulid_def using ulid_chars_mono by simp
qed

end
