(* ===== verification/Objects.thy ===== *)
theory Objects
  imports Ids
begin

text \<open>
  \<^verbatim>\<open>src/trunks/objects.py\<close>: the Git object formats. Definitions follow the file: the
  canonical form \<^verbatim>\<open>kind size NUL payload\<close>, identities, blobs, trees, commits and their
  parsers. Lemmas: each parser inverts its serializer on well-formed values.
\<close>

section \<open>Canonical objects\<close>

definition canonical_object :: "string \<Rightarrow> bytes \<Rightarrow> bytes" where
  "canonical_object kind payload = (kind @ [SP] @ dec (length payload) @ [NUL]) @ payload"

definition parse_canonical_object :: "bytes \<Rightarrow> (string \<times> bytes) res" where
  "parse_canonical_object data =
    (case split1 [NUL] data of
       None \<Rightarrow> Inl (ValueError ''not enough values to unpack'')
     | Some (header, payload) \<Rightarrow>
         bindR (decode_utf8 header) (\<lambda>text.
         case split1 [SP] text of
           None \<Rightarrow> Inl (ValueError ''not enough values to unpack'')
         | Some (kind, raw_size) \<Rightarrow>
             bindR (py_int raw_size) (\<lambda>size.
             if size \<noteq> int (length payload) then Inl (ValueError ''object size mismatch'')
             else Inr (kind, payload))))"

definition object_id :: "hash \<Rightarrow> string \<Rightarrow> bytes \<Rightarrow> ObjectId" where
  "object_id h kind payload = from_bytes h (canonical_object kind payload)"

section \<open>Identities\<close>

text \<open>
  A \<^verbatim>\<open>datetime\<close> is its instant in microseconds since the epoch and its UTC offset in
  seconds; a naive one (no offset) is read as UTC, which is what \<^verbatim>\<open>replace(tzinfo=UTC)\<close> does.
\<close>

record datetime =
  dt_us :: int
  dt_off :: "int option"

record Identity =
  id_name :: string
  id_email :: string
  id_when :: datetime

definition trunc_div :: "int \<Rightarrow> int \<Rightarrow> int" where
  "trunc_div a b = (if a < 0 then - ((- a) div b) else a div b)"

text \<open>
  \<^verbatim>\<open>int(when.timestamp())\<close>. The time stamp is the quotient of the microseconds and a million as a float: the nearest
  number with 53 binary digits, of two equally near ones the even one; \<^verbatim>\<open>int\<close> drops what follows the point. Far from the
  epoch the float can be the next whole second (\<open>float_secs_exact\<close>: not before the year 2514).
\<close>

fun bit_length :: "nat \<Rightarrow> nat" where
  "bit_length n = (if n = 0 then 0 else Suc (bit_length (n div 2)))"

declare bit_length.simps [simp del]

definition round_half_even :: "int \<Rightarrow> int \<Rightarrow> int" where
  "round_half_even n d =
    (let q = n div d; r = n mod d in if 2 * r < d \<or> 2 * r = d \<and> even q then q else q + 1)"

definition float_secs :: "int \<Rightarrow> int" where
  "float_secs us =
    (let m = \<bar>us\<bar>; q = m div 1000000; b = 53 - bit_length (nat q)
     in sgn us * (if q = 0 then 0 else round_half_even (m * 2 ^ b) 1000000 div 2 ^ b))"

definition identity_git :: "Identity \<Rightarrow> string" where
  "identity_git i =
    (let w = id_when i;
         timestamp = float_secs (dt_us w);
         offset_seconds = (case dt_off w of None \<Rightarrow> 0 | Some o' \<Rightarrow> o');
         sign = (if 0 \<le> offset_seconds then ''+'' else ''-'');
         off = nat \<bar>offset_seconds\<bar>;
         hours = off div 3600;
         minutes = (off mod 3600) div 60
     in id_name i @ '' <'' @ id_email i @ ''> '' @ int_str timestamp @ '' '' @
        sign @ dec_pad 2 hours @ dec_pad 2 minutes)"

text \<open>\<^verbatim>\<open>datetime.fromtimestamp(ts, timezone(timedelta(seconds=off)))\<close>: years 1 to 9999 only.\<close>

definition min_ts :: int where "min_ts = - 62135596800"
definition max_ts :: int where "max_ts = 253402300799"

definition from_timestamp :: "int \<Rightarrow> int \<Rightarrow> datetime res" where
  "from_timestamp ts off =
    (if ts < - (2 ^ 63) \<or> 2 ^ 63 \<le> ts then Inl (OverflowError ''timestamp out of range'')
     else if ts < min_ts \<or> max_ts < ts then Inl (ValueError ''year is out of range'')
     else if ts + off < min_ts \<or> max_ts < ts + off then Inl (OverflowError ''date value out of range'')
     else Inr \<lparr>dt_us = ts * 1000000, dt_off = Some off\<rparr>)"

definition mk_timezone :: "int \<Rightarrow> int res" where
  "mk_timezone off =
    (if - 86400 < off \<and> off < 86400 then Inr off else Inl (ValueError ''offset must be within a day''))"

definition parse_identity :: "string \<Rightarrow> Identity res" where
  "parse_identity value =
    (case rsplit1 [SP] value of
       None \<Rightarrow> Inl (ValueError ''not enough values to unpack'')
     | Some (front, raw_offset) \<Rightarrow>
     (case rsplit1 [SP] front of
       None \<Rightarrow> Inl (ValueError ''not enough values to unpack'')
     | Some (name_email, raw_ts) \<Rightarrow>
     (case rsplit1 '' <'' name_email of
       None \<Rightarrow> Inl (ValueError ''not enough values to unpack'')
     | Some (name, email0) \<Rightarrow>
       (let email = rstrip_by (\<lambda>c. c = CHR ''>'') email0 in
        case raw_offset of [] \<Rightarrow> Inl IndexError
        | c # _ \<Rightarrow>
          (let sign = (if c = CHR ''+'' then 1 else - 1 :: int) in
           bindR (py_int (slice 1 3 raw_offset)) (\<lambda>hours.
           bindR (py_int (slice 3 5 raw_offset)) (\<lambda>minutes.
           bindR (mk_timezone (sign * (hours * 3600 + minutes * 60))) (\<lambda>off.
           bindR (py_int raw_ts) (\<lambda>ts.
           bindR (from_timestamp ts off) (\<lambda>w.
           Inr \<lparr>id_name = name, id_email = email, id_when = w\<rparr>))))))))))"

section \<open>Blobs, trees and commits\<close>

record Blob =
  blob_id :: ObjectId
  blob_data :: bytes

definition blob_from_data :: "hash \<Rightarrow> bytes \<Rightarrow> Blob" where
  "blob_from_data h d = \<lparr>blob_id = object_id h ''blob'' d, blob_data = d\<rparr>"

definition blob_canonical :: "Blob \<Rightarrow> bytes" where
  "blob_canonical b = canonical_object ''blob'' (blob_data b)"

record TreeEntry =
  te_mode :: string
  te_name :: string
  te_oid :: ObjectId

record Tree =
  tree_id :: ObjectId
  tree_entries :: "TreeEntry list"

definition serialize_tree_entry :: "TreeEntry \<Rightarrow> bytes" where
  "serialize_tree_entry e = (te_mode e @ [SP] @ te_name e @ [NUL]) @ raw (te_oid e)"

definition serialize_tree_entries :: "TreeEntry list \<Rightarrow> bytes" where
  "serialize_tree_entries es = concat (map serialize_tree_entry es)"

definition tree_from_entries :: "hash \<Rightarrow> TreeEntry list \<Rightarrow> Tree" where
  "tree_from_entries h entries =
    (let normalized = sort_key te_name entries
     in \<lparr>tree_id = object_id h ''tree'' (serialize_tree_entries normalized),
         tree_entries = normalized\<rparr>)"

definition tree_canonical :: "Tree \<Rightarrow> bytes" where
  "tree_canonical t = canonical_object ''tree'' (serialize_tree_entries (tree_entries t))"

text \<open>The loop of \<^verbatim>\<open>parse_tree_payload\<close>; the argument is the payload from \<^verbatim>\<open>pos\<close> on.\<close>

function parse_tree_entries :: "bytes \<Rightarrow> TreeEntry list res" where
  "parse_tree_entries rest =
    (if rest = [] then Inr []
     else (case split1 [NUL] rest of
       None \<Rightarrow> Inl (ValueError ''subsection not found'')
     | Some (header, tail) \<Rightarrow>
         bindR (decode_utf8 header) (\<lambda>mode_name.
         case split1 [SP] mode_name of
           None \<Rightarrow> Inl (ValueError ''not enough values to unpack'')
         | Some (mode, name) \<Rightarrow>
             bindR (mk_ObjectId (hex_bytes (take 20 tail))) (\<lambda>oid.
             bindR (parse_tree_entries (drop 20 tail)) (\<lambda>es.
             Inr (\<lparr>te_mode = mode, te_name = name, te_oid = oid\<rparr> # es))))))"
  by pat_completeness auto
termination
  by (relation "measure length") (auto dest!: split1_Some)

declare parse_tree_entries.simps [simp del]

definition parse_tree_payload :: "hash \<Rightarrow> bytes \<Rightarrow> Tree res" where
  "parse_tree_payload h payload =
    bindR (parse_tree_entries payload) (\<lambda>es.
    Inr \<lparr>tree_id = object_id h ''tree'' payload, tree_entries = es\<rparr>)"

record Commit =
  c_id :: ObjectId
  c_tree :: ObjectId
  c_parents :: "ObjectId list"
  c_author :: Identity
  c_committer :: Identity
  c_message :: string

definition serialize_commit_payload ::
  "ObjectId \<Rightarrow> ObjectId list \<Rightarrow> Identity \<Rightarrow> Identity \<Rightarrow> string \<Rightarrow> bytes" where
  "serialize_commit_payload tree parents author committer message =
    join [NL] ((''tree '' @ oid_value tree) # map (\<lambda>p. ''parent '' @ oid_value p) parents @
      [''author '' @ identity_git author, ''committer '' @ identity_git committer, [],
       rstrip_by (\<lambda>c. c = NL) message]) @ [NL]"

definition commit_create ::
  "hash \<Rightarrow> ObjectId \<Rightarrow> ObjectId list \<Rightarrow> Identity \<Rightarrow> Identity \<Rightarrow> string \<Rightarrow> Commit" where
  "commit_create h tree parents author committer message =
    \<lparr>c_id = object_id h ''commit'' (serialize_commit_payload tree parents author committer message),
     c_tree = tree, c_parents = parents, c_author = author, c_committer = committer,
     c_message = message\<rparr>"

definition commit_canonical :: "Commit \<Rightarrow> bytes" where
  "commit_canonical c = canonical_object ''commit''
     (serialize_commit_payload (c_tree c) (c_parents c) (c_author c) (c_committer c) (c_message c))"

record commit_header =
  hd_tree :: "ObjectId option"
  hd_parents :: "ObjectId list"
  hd_author :: "Identity option"
  hd_committer :: "Identity option"

definition empty_header :: commit_header where
  "empty_header = \<lparr>hd_tree = None, hd_parents = [], hd_author = None, hd_committer = None\<rparr>"

definition parse_commit_line :: "commit_header \<Rightarrow> string \<Rightarrow> commit_header res" where
  "parse_commit_line st line =
    (case split1 [SP] line of
       None \<Rightarrow> Inl (ValueError ''not enough values to unpack'')
     | Some (key, value) \<Rightarrow>
       if key = ''tree'' then bindR (mk_ObjectId value) (\<lambda>t. Inr (st\<lparr>hd_tree := Some t\<rparr>))
       else if key = ''parent'' then
         bindR (mk_ObjectId value) (\<lambda>p. Inr (st\<lparr>hd_parents := hd_parents st @ [p]\<rparr>))
       else if key = ''author'' then
         bindR (parse_identity value) (\<lambda>i. Inr (st\<lparr>hd_author := Some i\<rparr>))
       else if key = ''committer'' then
         bindR (parse_identity value) (\<lambda>i. Inr (st\<lparr>hd_committer := Some i\<rparr>))
       else Inr st)"

definition parse_commit_payload :: "bytes \<Rightarrow> ObjectId \<Rightarrow> Commit res" where
  "parse_commit_payload payload oid =
    bindR (decode_utf8 payload) (\<lambda>text.
    (let (header, message) = (case split1 [NL, NL] text of None \<Rightarrow> (text, []) | Some p \<Rightarrow> p) in
     bindR (foldR parse_commit_line empty_header (splitlines header)) (\<lambda>st.
     case (hd_tree st, hd_author st, hd_committer st) of
       (Some t, Some a, Some c) \<Rightarrow>
         Inr \<lparr>c_id = oid, c_tree = t, c_parents = hd_parents st, c_author = a, c_committer = c,
              c_message = rstrip_by (\<lambda>c. c = NL) message\<rparr>
     | _ \<Rightarrow> Inl (ValueError ''invalid commit payload''))))"

definition object_kind :: "bytes \<Rightarrow> string res" where
  "object_kind data = bindR (parse_canonical_object data) (\<lambda>(k, _). Inr k)"

definition require_object :: "(ObjectId, bytes) dict \<Rightarrow> ObjectId \<Rightarrow> bytes res" where
  "require_object objects oid =
    (case map_of objects oid of None \<Rightarrow> Inl (ObjectNotFound (oid_value oid)) | Some d \<Rightarrow> Inr d)"

section \<open>Well-formed values\<close>

definition wf_kind :: "string \<Rightarrow> bool" where
  "wf_kind k \<longleftrightarrow> SP \<notin> set k \<and> NUL \<notin> set k \<and> is_str k"

definition wf_entry :: "TreeEntry \<Rightarrow> bool" where
  "wf_entry e \<longleftrightarrow> SP \<notin> set (te_mode e) \<and> NUL \<notin> set (te_mode e) \<and> is_str (te_mode e) \<and>
     NUL \<notin> set (te_name e) \<and> is_str (te_name e) \<and> valid_oid (te_oid e)"

text \<open>The canonical bytes of an object of one of Git's four kinds.\<close>

definition git_object :: "bytes \<Rightarrow> bool" where
  "git_object d = (case parse_canonical_object d of Inl _ \<Rightarrow> False
     | Inr (k, _) \<Rightarrow> k \<in> {''blob'', ''tree'', ''commit'', ''tag''})"

definition offset_of :: "datetime \<Rightarrow> int" where
  "offset_of w = (case dt_off w of None \<Rightarrow> 0 | Some o' \<Rightarrow> o')"

text \<open>What survives serialization: whole seconds (of the float time stamp), and offsets in whole minutes.\<close>

definition norm_offset :: "int \<Rightarrow> int" where
  "norm_offset off = (if 0 \<le> off then 1 else - 1) * (\<bar>off\<bar> div 60 * 60)"

definition norm_identity :: "Identity \<Rightarrow> Identity" where
  "norm_identity i = i\<lparr>id_when := \<lparr>dt_us = float_secs (dt_us (id_when i)) * 1000000,
                                 dt_off = Some (norm_offset (offset_of (id_when i)))\<rparr>\<rparr>"

definition wf_when :: "datetime \<Rightarrow> bool" where
  "wf_when w \<longleftrightarrow> (let ts = float_secs (dt_us w); off = norm_offset (offset_of w) in
     - 86400 < offset_of w \<and> offset_of w < 86400 \<and>
     min_ts \<le> ts \<and> ts \<le> max_ts \<and> min_ts \<le> ts + off \<and> ts + off \<le> max_ts)"

definition wf_identity :: "Identity \<Rightarrow> bool" where
  "wf_identity i \<longleftrightarrow> is_str (id_name i) \<and> is_str (id_email i) \<and>
     no_breaks (id_name i) \<and> no_breaks (id_email i) \<and>
     CHR ''<'' \<notin> set (id_email i) \<and> (id_email i = [] \<or> last (id_email i) \<noteq> CHR ''>'') \<and>
     wf_when (id_when i)"

section \<open>Lemmas on canonical objects and trees\<close>

lemma wf_kind_known [simp]: "wf_kind ''blob''" "wf_kind ''tree''" "wf_kind ''commit''" "wf_kind ''tag''"
  by (simp_all add: wf_kind_def is_str_def ordc_def)

lemma is_digit_facts: "is_digit c \<Longrightarrow> c \<noteq> NUL \<and> c \<noteq> SP \<and> 32 \<le> ordc c \<and> ordc c < 128"
  by (auto simp: is_digit_def ordc_def)

lemma dec_ascii: "c \<in> set (dec n) \<Longrightarrow> c \<noteq> NUL \<and> c \<noteq> SP \<and> 32 \<le> ordc c \<and> ordc c < 128"
  using dec_digits is_digit_facts by blast

lemma is_str_dec [simp]: "is_str (dec n)"
  by (rule is_str_ascii) (use dec_ascii in blast)

lemma parse_canonical_canonical:
  assumes "wf_kind k"
  shows "parse_canonical_object (canonical_object k p) = Inr (k, p)"
proof -
  let ?header = "k @ SP # dec (length p)"
  have "NUL \<notin> set ?header" using assms dec_ascii by (auto simp: wf_kind_def)
  then have split: "split1 [NUL] (canonical_object k p) = Some (?header, p)"
    using split1_char [of NUL ?header p] by (simp add: canonical_object_def)
  have "is_str ?header" using assms by (simp add: wf_kind_def ordc_def)
  then show ?thesis
    using assms split by (simp add: parse_canonical_object_def wf_kind_def)
qed

lemma canonical_object_inject:
  "wf_kind k \<Longrightarrow> wf_kind k' \<Longrightarrow> canonical_object k p = canonical_object k' p' \<Longrightarrow> k = k' \<and> p = p'"
  by (metis parse_canonical_canonical Inr_inject Pair_inject)

lemma parse_canonical_length:
  "parse_canonical_object d = Inr (k, p) \<Longrightarrow> length p < length d"
  by (auto simp: parse_canonical_object_def dest!: split1_Some split: option.splits if_splits)

lemma serialize_tree_entries_simps [simp]:
  "serialize_tree_entries [] = []"
  "serialize_tree_entries (e # es) = serialize_tree_entry e @ serialize_tree_entries es"
  by (simp_all add: serialize_tree_entries_def)

lemma serialize_tree_entry_not_Nil [simp]: "serialize_tree_entry e \<noteq> []"
  by (simp add: serialize_tree_entry_def)

lemma parse_tree_entries_Nil [simp]: "parse_tree_entries [] = Inr []"
  by (simp add: parse_tree_entries.simps)

lemma TreeEntry_surj: "\<lparr>te_mode = te_mode e, te_name = te_name e, te_oid = te_oid e\<rparr> = e"
  by (cases e) simp

lemma parse_tree_entries_step:
  assumes "wf_entry e"
  shows "parse_tree_entries (serialize_tree_entry e @ r) =
    bindR (parse_tree_entries r) (\<lambda>es. Inr (e # es))"
proof -
  let ?header = "te_mode e @ SP # te_name e"
  have nul: "NUL \<notin> set ?header" and str: "is_str ?header"
    using assms by (auto simp: wf_entry_def ordc_def)
  have split: "split1 [NUL] (serialize_tree_entry e @ r) = Some (?header, raw (te_oid e) @ r)"
    using split1_char [OF nul, of "raw (te_oid e) @ r"] by (simp add: serialize_tree_entry_def)
  have raw: "length (raw (te_oid e)) = 20" "mk_ObjectId (hex_bytes (raw (te_oid e))) = Inr (te_oid e)"
    using assms mk_ObjectId_raw [of "te_oid e"] by (simp_all add: wf_entry_def)
  show ?thesis
    unfolding parse_tree_entries.simps [of "serialize_tree_entry e @ r"]
    using assms split str raw by (simp add: wf_entry_def TreeEntry_surj del: mk_ObjectId_Inr)
qed

lemma parse_serialize_tree:
  "(\<And>e. e \<in> set es \<Longrightarrow> wf_entry e) \<Longrightarrow> parse_tree_entries (serialize_tree_entries es) = Inr es"
  by (induction es) (auto simp: parse_tree_entries_step)

lemma parse_tree_payload_canonical:
  assumes "\<And>e. e \<in> set (tree_entries t) \<Longrightarrow> wf_entry e"
    and "tree_id t = object_id h ''tree'' (serialize_tree_entries (tree_entries t))"
  shows "parse_tree_payload h (serialize_tree_entries (tree_entries t)) = Inr t"
  using parse_serialize_tree [OF assms(1)] assms(2) by (simp add: parse_tree_payload_def)

lemma tree_from_entries_simps [simp]:
  "tree_entries (tree_from_entries h es) = sort_key te_name es"
  "tree_id (tree_from_entries h es) = object_id h ''tree'' (serialize_tree_entries (sort_key te_name es))"
  by (simp_all add: tree_from_entries_def Let_def)

lemma from_bytes_tree_canonical:
  "from_bytes h (tree_canonical (tree_from_entries h es)) = tree_id (tree_from_entries h es)"
  by (simp add: tree_canonical_def object_id_def)

lemma from_bytes_blob_canonical [simp]:
  "from_bytes h (blob_canonical (blob_from_data h d)) = blob_id (blob_from_data h d)"
  by (simp add: blob_canonical_def blob_from_data_def object_id_def)

lemma from_bytes_commit_canonical [simp]:
  "from_bytes h (commit_canonical (commit_create h t ps a c m)) = c_id (commit_create h t ps a c m)"
  by (simp add: commit_canonical_def commit_create_def object_id_def)

section \<open>Lemmas on identities and commits\<close>

lemma slice_sign:
  "length a = 2 \<Longrightarrow> length b = 2 \<Longrightarrow> slice 1 3 (c # a @ b) = a \<and> slice 3 5 (c # a @ b) = b"
  by (simp add: slice_def)

lemma bit_length_le: "n < 2 ^ k \<Longrightarrow> bit_length n \<le> k"
proof (induction k arbitrary: n)
  case (Suc k)
  then show ?case using Suc.IH [of "n div 2"] by (subst bit_length.simps) auto
qed (simp add: bit_length.simps)

text \<open>Before 2514 (and after 1425) the time stamp in whole seconds is exact.\<close>

text \<open>Far dates: the last microseconds of a second are written as the next one, and the last microsecond that a
  \<^verbatim>\<open>datetime\<close> can hold as a time stamp outside its range.\<close>

lemma float_secs_rounds: "float_secs 253402300799999999 = 253402300800" "max_ts < float_secs 253402300799999999"
proof -
  have "bit_length 253402300799 = 38" by (simp add: bit_length.simps)
  then show "float_secs 253402300799999999 = 253402300800" by (simp add: float_secs_def round_half_even_def)
  then show "max_ts < float_secs 253402300799999999" by (simp add: max_ts_def)
qed

lemma float_secs_exact:
  assumes "\<bar>us\<bar> < 2 ^ 34 * 1000000"
  shows "float_secs us = trunc_div us 1000000"
proof -
  define m q f b where "m = \<bar>us\<bar>" and "q = m div 1000000" and "f = m mod 1000000" and "b = 53 - bit_length (nat q)"
  have m: "m = q * 1000000 + f" "0 \<le> f" "f \<le> 999999" by (simp_all add: q_def f_def)
  have "nat q < 2 ^ 34" using assms by (simp add: q_def m_def nat_less_iff div_less_iff_less_mult)
  then have "19 \<le> b" using bit_length_le [of "nat q" 34] by (simp add: b_def)
  then have b: "(2::int) ^ 19 \<le> 2 ^ b" by (intro power_increasing) auto
  let ?g = "round_half_even (m * 2 ^ b) 1000000"
  have e: "m * 2 ^ b = f * 2 ^ b + q * 2 ^ b * 1000000" unfolding m(1) by (simp add: algebra_simps)
  have eq: "(m * 2 ^ b) div 1000000 = q * 2 ^ b + f * 2 ^ b div 1000000" "(m * 2 ^ b) mod 1000000 = f * 2 ^ b mod 1000000"
    unfolding e by simp_all
  define u v where "u = f * 2 ^ b div 1000000" and "v = f * 2 ^ b mod 1000000"
  have uv: "f * 2 ^ b = u * 1000000 + v" "0 \<le> v" "v < 1000000" "0 \<le> u" using m(2) by (simp_all add: u_def v_def pos_imp_zdiv_nonneg_iff)
  have "f * 2 ^ b \<le> 999999 * 2 ^ b" using m(3) by (intro mult_right_mono) auto
  then have up: "u * 1000000 + v \<le> 999999 * 2 ^ b" using uv by simp
  have "?g = q * 2 ^ b + (if 2 * v < 1000000 \<or> 2 * v = 1000000 \<and> even (q * 2 ^ b + u) then u else u + 1)"
    by (simp add: round_half_even_def Let_def eq u_def v_def)
  moreover have "(if 2 * v < 1000000 \<or> 2 * v = 1000000 \<and> even (q * 2 ^ b + u) then u else u + 1) < 2 ^ b"
    using up b uv by auto
  ultimately have "?g div 2 ^ b = q" using uv(4) by auto
  then show ?thesis by (auto simp: float_secs_def trunc_div_def Let_def m_def q_def b_def)
qed

lemma norm_offset_hm:
  fixes off :: int
  assumes "off = int n"
  shows "int (n div 3600) * 3600 + int (n mod 3600 div 60) * 60 = off div 60 * 60"
proof -
  have "n div 3600 = n div 60 div 60" using div_mult2_eq [of n 60 60] by simp
  moreover have "n mod 3600 div 60 = n div 60 mod 60" using mod_mult2_eq [of n 60 60] by simp
  ultimately have "n div 3600 * 3600 + n mod 3600 div 60 * 60 = n div 60 * 60"
    using div_mult_mod_eq [of "n div 60" 60] by linarith
  then have "int (n div 3600 * 3600 + n mod 3600 div 60 * 60) = int (n div 60 * 60)" by simp
  then show ?thesis using assms by (simp only: of_nat_add of_nat_mult of_nat_numeral zdiv_int)
qed

lemma parse_identity_git:
  assumes "wf_identity i"
  shows "parse_identity (identity_git i) = Inr (norm_identity i)"
proof -
  define w where "w = id_when i"
  define off where "off = offset_of w"
  define ts where "ts = float_secs (dt_us w)"
  define n where "n = nat \<bar>off\<bar>"
  define sg where "sg = (if 0 \<le> off then CHR ''+'' else CHR ''-'')"
  define hh where "hh = dec_pad 2 (n div 3600)"
  define mm where "mm = dec_pad 2 (n mod 3600 div 60)"
  have w: "- 86400 < off" "off < 86400" "min_ts \<le> ts" "ts \<le> max_ts"
    "min_ts \<le> ts + norm_offset off" "ts + norm_offset off \<le> max_ts"
    using assms by (auto simp: wf_identity_def wf_when_def Let_def w_def off_def ts_def)
  have n: "n < 86400" using w by (auto simp: n_def)
  have git: "identity_git i =
      ((id_name i @ '' <'' @ id_email i @ [CHR ''>'']) @ SP # int_str ts) @ SP # (sg # hh @ mm)"
    by (simp add: identity_git_def Let_def sg_def hh_def mm_def n_def off_def ts_def w_def offset_of_def)
  have "SP \<notin> set hh" "SP \<notin> set mm"
    using dec_pad_digits is_digit_facts unfolding hh_def mm_def by blast+
  then have sp1: "SP \<notin> set (sg # hh @ mm)" by (simp add: sg_def)
  have sp2: "SP \<notin> set (int_str ts)"
  proof
    assume "SP \<in> set (int_str ts)"
    then have "is_digit SP \<or> SP = CHR ''-''" by (rule int_str_chars)
    then show False using is_digit_facts [of SP] by auto
  qed
  have lt: "CHR ''<'' \<notin> set (id_email i @ [CHR ''>''])"
    using assms by (simp add: wf_identity_def)
  have email: "rstrip_by (\<lambda>c. c = CHR ''>'') (id_email i @ [CHR ''>'']) = id_email i"
    using assms by (subst rstrip_by_drop) (auto simp: wf_identity_def intro!: rstrip_by_id)
  have "length hh = 2" "length mm = 2"
    using n by (auto simp: hh_def mm_def intro!: length_dec_pad2)
  note sl = slice_sign [OF this, of sg]
  have hm: "int (n div 3600) * 3600 + int (n mod 3600 div 60) * 60 = \<bar>off\<bar> div 60 * 60"
    by (rule norm_offset_hm) (simp add: n_def)
  have sgn: "(if sg = CHR ''+'' then 1 else - 1) *
      (int (n div 3600) * 3600 + int (n mod 3600 div 60) * 60) = norm_offset off"
    by (simp add: hm norm_offset_def sg_def)
  have tz: "mk_timezone (norm_offset off) = Inr (norm_offset off)"
  proof -
    have "\<bar>off\<bar> div 60 * 60 \<le> \<bar>off\<bar>" by simp
    then show ?thesis using w by (auto simp: mk_timezone_def norm_offset_def)
  qed
  have ft: "from_timestamp ts (norm_offset off) =
      Inr \<lparr>dt_us = ts * 1000000, dt_off = Some (norm_offset off)\<rparr>"
    using w by (auto simp: from_timestamp_def min_ts_def max_ts_def)
  have r1: "rsplit1 [SP] (identity_git i) =
      Some ((id_name i @ '' <'' @ id_email i @ [CHR ''>'']) @ SP # int_str ts, sg # hh @ mm)"
    unfolding git by (rule rsplit1_char [OF sp1])
  have r2: "rsplit1 [SP] ((id_name i @ '' <'' @ id_email i @ [CHR ''>'']) @ SP # int_str ts) =
      Some (id_name i @ '' <'' @ id_email i @ [CHR ''>''], int_str ts)"
    by (rule rsplit1_char [OF sp2])
  have r3: "rsplit1 '' <'' (id_name i @ '' <'' @ id_email i @ [CHR ''>'']) =
      Some (id_name i, id_email i @ [CHR ''>''])"
    using rsplit1_last [OF lt, of "[SP]" "id_name i"] by simp
  have ints: "py_int hh = Inr (int (n div 3600))" "py_int mm = Inr (int (n mod 3600 div 60))"
    by (simp_all add: hh_def mm_def)
  show ?thesis
    unfolding parse_identity_def r1 option.case prod.case r2 r3
    using sl ints sgn tz ft email
    by (simp add: Let_def norm_identity_def w_def off_def ts_def)
qed

lemma identity_git_line:
  assumes "wf_identity i"
  shows "no_breaks (identity_git i)" and "is_str (identity_git i)" and "identity_git i \<noteq> []"
proof -
  define t where "t = identity_git i"
  obtain q where t: "t = id_name i @ SP # CHR ''<'' # id_email i @ CHR ''>'' # q"
    and q: "\<And>c. c \<in> set q \<Longrightarrow> 32 \<le> ordc c \<and> ordc c < 128"
  proof
    let ?w = "id_when i"
    let ?n = "nat \<bar>offset_of ?w\<bar>"
    let ?q = "SP # int_str (float_secs (dt_us ?w)) @ SP #
      (if 0 \<le> offset_of ?w then CHR ''+'' else CHR ''-'') #
      dec_pad 2 (?n div 3600) @ dec_pad 2 (?n mod 3600 div 60)"
    show "t = id_name i @ SP # CHR ''<'' # id_email i @ CHR ''>'' # ?q"
      by (simp add: t_def identity_git_def Let_def offset_of_def)
    have digits: "is_digit c \<or> c \<in> {SP, CHR ''+'', CHR ''-''}" if "c \<in> set ?q" for c
      using that by (auto dest: int_str_chars dec_pad_digits split: if_splits)
    show "32 \<le> ordc c \<and> ordc c < 128" if "c \<in> set ?q" for c
      using digits [OF that] by (auto simp: is_digit_def ordc_def)
  qed
  have wf: "no_breaks (id_name i)" "no_breaks (id_email i)" "is_str (id_name i)" "is_str (id_email i)"
    using assms by (auto simp: wf_identity_def)
  have "no_breaks (CHR ''>'' # q)"
    by (rule no_breaks_ascii) (use q in \<open>auto simp: ordc_def\<close>)
  with wf(2) have "no_breaks (id_email i @ CHR ''>'' # q)"
    by (rule no_breaks_append_ascii) (simp add: ordc_def)
  then have "no_breaks (SP # CHR ''<'' # id_email i @ CHR ''>'' # q)"
    by simp
  with wf(1) show "no_breaks (identity_git i)"
    unfolding t_def [symmetric] t by (rule no_breaks_append_ascii) (simp add: ordc_def)
  have "is_str q" by (rule is_str_ascii) (use q in blast)
  then have "is_str (SP # CHR ''<'' # id_email i @ CHR ''>'' # q)"
    using wf(4) by (simp add: ordc_def)
  with wf(3) show "is_str (identity_git i)"
    unfolding t_def [symmetric] t by (rule is_str_append)
  show "identity_git i \<noteq> []" unfolding t_def [symmetric] t by simp
qed

definition header_lines :: "ObjectId \<Rightarrow> ObjectId list \<Rightarrow> Identity \<Rightarrow> Identity \<Rightarrow> string list" where
  "header_lines tree parents author committer =
    (''tree '' @ oid_value tree) # map (\<lambda>p. ''parent '' @ oid_value p) parents @
      [''author '' @ identity_git author, ''committer '' @ identity_git committer]"

lemma no_breaks_oid: "valid_oid x \<Longrightarrow> no_breaks (oid_value x)"
  by (rule no_breaks_ascii) (auto dest: valid_oid_ascii)

lemma no_breaks_prefix:
  "no_breaks (''tree '' @ s) = no_breaks s" "no_breaks (''parent '' @ s) = no_breaks s"
  "no_breaks (''author '' @ s) = no_breaks s" "no_breaks (''committer '' @ s) = no_breaks s"
  by simp_all

lemma header_lines_ok:
  assumes "valid_oid t" and "\<And>p. p \<in> set ps \<Longrightarrow> valid_oid p" and "wf_identity a" and "wf_identity c"
    and "l \<in> set (header_lines t ps a c)"
  shows "no_breaks l" and "is_str l" and "l \<noteq> []"
  using assms identity_git_line [of a] identity_git_line [of c]
  by (auto simp: header_lines_def no_breaks_oid is_str_oid)

lemma parse_commit_lines:
  assumes "valid_oid t" and "\<And>p. p \<in> set ps \<Longrightarrow> valid_oid p" and "wf_identity a" and "wf_identity c"
  shows "foldR parse_commit_line empty_header (header_lines t ps a c) =
    Inr \<lparr>hd_tree = Some t, hd_parents = ps, hd_author = Some (norm_identity a),
         hd_committer = Some (norm_identity c)\<rparr>"
proof -
  have tree: "parse_commit_line st (''tree '' @ oid_value x) = Inr (st\<lparr>hd_tree := Some x\<rparr>)"
    and parent: "parse_commit_line st (''parent '' @ oid_value x) =
      Inr (st\<lparr>hd_parents := hd_parents st @ [x]\<rparr>)" if "valid_oid x" for st x
    using split1_char [of SP "''tree''" "oid_value x"] split1_char [of SP "''parent''" "oid_value x"]
      mk_ObjectId_value [OF that]
    by (simp_all add: parse_commit_line_def del: mk_ObjectId_Inr)
  have author: "parse_commit_line st (''author '' @ identity_git x) =
      Inr (st\<lparr>hd_author := Some (norm_identity x)\<rparr>)"
    and committer: "parse_commit_line st (''committer '' @ identity_git x) =
      Inr (st\<lparr>hd_committer := Some (norm_identity x)\<rparr>)" if "wf_identity x" for st x
    using split1_char [of SP "''author''" "identity_git x"]
      split1_char [of SP "''committer''" "identity_git x"] parse_identity_git [OF that]
    by (simp_all add: parse_commit_line_def)
  have parents: "foldR parse_commit_line st (map (\<lambda>p. ''parent '' @ oid_value p) qs) =
      Inr (st\<lparr>hd_parents := hd_parents st @ qs\<rparr>)" if "\<And>p. p \<in> set qs \<Longrightarrow> valid_oid p" for st qs
    using that by (induction qs arbitrary: st) (simp_all add: parent del: append.simps)
  show ?thesis
    using assms parents [of ps]
    by (simp add: header_lines_def foldR_append tree author committer empty_header_def del: append.simps)
qed

lemma split1_NLNL:
  "ls \<noteq> [] \<Longrightarrow> (\<And>l. l \<in> set ls \<Longrightarrow> l \<noteq> [] \<and> NL \<notin> set l) \<Longrightarrow>
   split1 [NL, NL] (join [NL] ls @ [NL, NL] @ r) = Some (join [NL] ls, r)"
proof (induction ls)
  case (Cons l ls)
  have skip: "split1 [NL, NL] (x @ u) = map_option (\<lambda>(a, b). (x @ a, b)) (split1 [NL, NL] u)"
    if "NL \<notin> set x" for x u
    using that by (induction x) (cases "split1 [NL, NL] u"; auto)+
  show ?case
  proof (cases "ls = []")
    case True
    then show ?thesis using Cons.prems skip [of l "[NL, NL] @ r"] by simp
  next
    case False
    then obtain k ms where k: "ls = k # ms" by (cases ls) auto
    then have "k \<noteq> [] \<and> NL \<notin> set k" using Cons.prems(2) by simp
    then obtain c m where ls: "ls = (c # m) # ms" and "c \<noteq> NL" using k by (cases k) auto
    have j: "\<exists>z. join [NL] ls @ [NL, NL] @ r = c # z" unfolding ls by (cases ms) auto
    then have "split1 [NL, NL] (NL # join [NL] ls @ [NL, NL] @ r) =
        map_option (\<lambda>(a, b). (NL # a, b)) (split1 [NL, NL] (join [NL] ls @ [NL, NL] @ r))"
      using \<open>c \<noteq> NL\<close> by auto
    moreover have "split1 [NL, NL] (join [NL] ls @ [NL, NL] @ r) = Some (join [NL] ls, r)"
      using Cons False by simp
    ultimately show ?thesis
      using skip [of l "NL # join [NL] ls @ [NL, NL] @ r"] Cons.prems(2) False
      by (simp add: join_Cons)
  qed
qed simp

lemma serialize_commit_payload_lines:
  "serialize_commit_payload t ps a c m =
     join [NL] (header_lines t ps a c) @ [NL, NL] @ rstrip_by (\<lambda>c. c = NL) m @ [NL]"
proof -
  have "serialize_commit_payload t ps a c m =
      join [NL] (header_lines t ps a c @ [[], rstrip_by (\<lambda>c. c = NL) m]) @ [NL]"
    by (simp add: serialize_commit_payload_def header_lines_def)
  also have "\<dots> = join [NL] (header_lines t ps a c) @ [NL, NL] @ rstrip_by (\<lambda>c. c = NL) m @ [NL]"
    by (subst join_append) (auto simp: header_lines_def)
  finally show ?thesis .
qed

lemma is_str_rstrip_NL: "is_str m \<Longrightarrow> is_str (rstrip_by (\<lambda>c. c = NL) m)"
proof (induction m rule: rev_induct)
  case (snoc c m)
  have "utf8_ok (map ordc m @ [10]) \<Longrightarrow> utf8_ok (map ordc m)" for m
    by (induction "map ordc m" arbitrary: m rule: utf8_ok.induct)
      (auto simp: cont_byte_def split: if_splits list.splits)
  then have "c = NL \<Longrightarrow> is_str m"
    using snoc.prems by (simp add: is_str_def ordc_def)
  then show ?case
    using snoc by (cases "c = NL") (simp_all add: rstrip_by_drop rstrip_by_append)
qed (simp add: rstrip_by_def)

lemma parse_serialize_commit:
  assumes "valid_oid t" and "\<And>p. p \<in> set ps \<Longrightarrow> valid_oid p" and "wf_identity a" and "wf_identity c"
    and "is_str m"
  shows "parse_commit_payload (serialize_commit_payload t ps a c m) oid =
    Inr \<lparr>c_id = oid, c_tree = t, c_parents = ps, c_author = norm_identity a,
         c_committer = norm_identity c, c_message = rstrip_by (\<lambda>c. c = NL) m\<rparr>"
proof -
  let ?ls = "header_lines t ps a c" and ?m = "rstrip_by (\<lambda>c. c = NL) m"
  note ok = header_lines_ok [OF assms(1-4)]
  have ne: "?ls \<noteq> []" by (simp add: header_lines_def)
  have split: "split1 [NL, NL] (join [NL] ?ls @ [NL, NL] @ ?m @ [NL]) = Some (join [NL] ?ls, ?m @ [NL])"
    by (rule split1_NLNL) (use ne ok no_breaks_NL in blast)+
  have lines: "splitlines (join [NL] ?ls) = ?ls"
    by (rule splitlines_join) (use ne ok last_in_set in blast)+
  have "is_str (join [NL] ?ls)" by (rule is_str_join) (auto simp: ordc_def intro: ok)
  moreover have "is_str ?m" by (rule is_str_rstrip_NL) (rule assms(5))
  ultimately have str: "is_str (join [NL] ?ls @ [NL, NL] @ ?m @ [NL])"
    by (intro is_str_append) (simp_all add: ordc_def)
  have msg: "rstrip_by (\<lambda>c. c = NL) (?m @ [NL]) = ?m"
    by (simp add: rstrip_by_drop)
  show ?thesis
    unfolding serialize_commit_payload_lines parse_commit_payload_def
    using str split lines msg parse_commit_lines [OF assms(1-4)] by simp
qed

section \<open>Properties\<close>

text \<open>C31: a tree built from well-formed entries is stored under the hash of its canonical bytes, and
  parsing those bytes gives the same tree back: same id, same entries, sorted by name.\<close>

theorem tree_roundtrip:
  assumes "\<forall>e \<in> set es. wf_entry e"
  shows "bindR (parse_canonical_object (tree_canonical (tree_from_entries h es)))
      (\<lambda>(kind, payload). bindR (parse_tree_payload h payload) (\<lambda>t. Inr (kind, t))) =
    Inr (''tree'', tree_from_entries h es) \<and>
    from_bytes h (tree_canonical (tree_from_entries h es)) = tree_id (tree_from_entries h es) \<and>
    sorted (map te_name (tree_entries (tree_from_entries h es))) \<and>
    set (tree_entries (tree_from_entries h es)) = set es \<and>
    length (tree_entries (tree_from_entries h es)) = length es"
proof -
  have "wf_kind ''tree''" by (simp add: wf_kind_def is_str_def)
  moreover have "parse_tree_payload h (serialize_tree_entries (sort_key te_name es)) = Inr (tree_from_entries h es)"
    using parse_tree_payload_canonical [of "tree_from_entries h es" h] assms by simp
  ultimately show ?thesis
    by (simp add: tree_canonical_def parse_canonical_canonical object_id_def)
qed

theorem tree_roundtrip_witness:
  "bindR (parse_canonical_object (tree_canonical (tree_from_entries sample_hash
        [\<lparr>te_mode = ''100644'', te_name = ''b'', te_oid = sample_oid (CHR ''1'')\<rparr>,
         \<lparr>te_mode = ''40000'', te_name = ''a'', te_oid = sample_oid (CHR ''f'')\<rparr>])))
      (\<lambda>(kind, payload). bindR (parse_tree_payload sample_hash payload) (\<lambda>t. Inr (kind, t))) =
    Inr (''tree'', tree_from_entries sample_hash
        [\<lparr>te_mode = ''100644'', te_name = ''b'', te_oid = sample_oid (CHR ''1'')\<rparr>,
         \<lparr>te_mode = ''40000'', te_name = ''a'', te_oid = sample_oid (CHR ''f'')\<rparr>])"
  by (rule conjunct1 [OF tree_roundtrip])
     (simp add: wf_entry_def is_str_def valid_sample_oid is_hex_def is_digit_def)

text \<open>C32: a commit created from valid ids and well-formed identities is stored under the hash of its
  canonical bytes, and parsing the bytes gives it back: the same tree, the same parents in order,
  the identities to the second of the time stamp (a float, whose whole second is exact before 2514:
  \<open>float_secs_exact\<close>) and to the minute of the offset, and the message without its trailing line feeds.
  A well-formed identity has a time stamp in the range of \<^verbatim>\<open>datetime\<close>, which excludes the last microsecond of 9999.\<close>

theorem commit_roundtrip:
  assumes "valid_oid t" and "\<forall>p \<in> set ps. valid_oid p" and "wf_identity a" and "wf_identity c" and "is_str m"
  shows "bindR (parse_canonical_object (commit_canonical (commit_create h t ps a c m)))
      (\<lambda>(kind, payload). bindR (parse_commit_payload payload (c_id (commit_create h t ps a c m))) (\<lambda>x. Inr (kind, x))) =
    Inr (''commit'', \<lparr>c_id = c_id (commit_create h t ps a c m), c_tree = t, c_parents = ps,
       c_author = norm_identity a, c_committer = norm_identity c, c_message = rstrip_by (\<lambda>c. c = NL) m\<rparr>) \<and>
    from_bytes h (commit_canonical (commit_create h t ps a c m)) = c_id (commit_create h t ps a c m)"
proof -
  have "wf_kind ''commit''" by (simp add: wf_kind_def is_str_def)
  then show ?thesis
    using parse_serialize_commit [OF assms(1) _ assms(3,4,5), of ps] assms(2)
    by (simp add: commit_canonical_def commit_create_def parse_canonical_canonical object_id_def)
qed


definition sample_identity :: Identity where
  "sample_identity = \<lparr>id_name = ''Ada'', id_email = ''ada@x.org'',
     id_when = \<lparr>dt_us = 1700000000123456, dt_off = Some 3600\<rparr>\<rparr>"

lemma sample_identity_wf: "wf_identity sample_identity"
  by (simp add: wf_identity_def sample_identity_def is_str_def wf_when_def offset_of_def norm_offset_def
      float_secs_exact trunc_div_def min_ts_def max_ts_def line_break_def)

theorem commit_roundtrip_witness:
  "bindR (parse_canonical_object (commit_canonical (commit_create sample_hash
        (sample_oid (CHR ''1'')) [sample_oid (CHR ''2'')] sample_identity sample_identity
        (''first'' @ [NL]))))
      (\<lambda>(kind, payload). Inr kind) = Inr ''commit''"
proof -
  have "valid_oid (sample_oid (CHR ''1''))" "valid_oid (sample_oid (CHR ''2''))"
    by (simp_all add: valid_sample_oid is_hex_def is_digit_def)
  moreover have "is_str (''first'' @ [NL])" by (simp add: is_str_def)
  ultimately show ?thesis
    using commit_roundtrip [OF _ _ sample_identity_wf sample_identity_wf, of "sample_oid (CHR ''1'')"
        "[sample_oid (CHR ''2'')]" "''first'' @ [NL]" sample_hash]
    by (auto split: prod.splits)
qed

end
