(* ===== verification/Journal.thy ===== *)
theory Journal
  imports Json Objects
begin

text \<open>
  \<^verbatim>\<open>src/trunks/journal.py\<close>: journal entries and their JSON text. The encoder is the
  third-party \<^verbatim>\<open>orjson\<close>, so it is the argument \<open>orjson_dumps\<close> (called with sorted keys by
  \<^verbatim>\<open>src/trunks/_speed.py\<close>); \<^verbatim>\<open>datetime.isoformat\<close> is the standard library's, on the proleptic
  Gregorian calendar.
\<close>

section \<open>Calendar dates\<close>

definition days_before_month :: "nat \<Rightarrow> nat" where
  "days_before_month m = [0, 0, 31, 59, 90, 120, 151, 181, 212, 243, 273, 304, 334] ! m"

text \<open>Year, month and day of a day number, where day 0 is 0001-01-01.\<close>

definition ord_ymd :: "nat \<Rightarrow> nat \<times> nat \<times> nat" where
  "ord_ymd n0 =
    (let n400 = n0 div 146097; a = n0 mod 146097;
         n100 = a div 36524; b = a mod 36524;
         n4 = b div 1461; c = b mod 1461;
         n1 = c div 365; d = c mod 365;
         year = n400 * 400 + 1 + n100 * 100 + n4 * 4 + n1
     in if n1 = 4 \<or> n100 = 4 then (year - 1, 12, 31)
        else
          (let leap = (n1 = 3 \<and> (n4 \<noteq> 24 \<or> n100 = 3));
               est = (d + 50) div 32;
               before = (\<lambda>m. days_before_month m + (if m > 2 \<and> leap then 1 else 0));
               month = (if before est > d then est - 1 else est)
           in (year, month, d - before month + 1)))"

definition isoformat :: "datetime \<Rightarrow> string" where
  "isoformat w =
    (let off = (case dt_off w of None \<Rightarrow> 0 | Some o' \<Rightarrow> o');
         us = dt_us w + off * 1000000 - min_ts * 1000000;
         day = nat (us div 86400000000);
         rest = nat (us mod 86400000000);
         secs = rest div 1000000;
         micro = rest mod 1000000
     in case ord_ymd day of (y, m, d) \<Rightarrow>
        dec_pad 4 y @ ''-'' @ dec_pad 2 m @ ''-'' @ dec_pad 2 d @ ''T'' @
        dec_pad 2 (secs div 3600) @ '':'' @ dec_pad 2 (secs div 60 mod 60) @ '':'' @ dec_pad 2 (secs mod 60) @
        (if micro = 0 then '''' else ''.'' @ dec_pad 6 micro) @
        (case dt_off w of None \<Rightarrow> ''''
         | Some o' \<Rightarrow>
           (let a = nat \<bar>o'\<bar> in
            (if o' < 0 then ''-'' else ''+'') @ dec_pad 2 (a div 3600) @ '':'' @ dec_pad 2 (a div 60 mod 60) @
            (if a mod 60 = 0 then '''' else '':'' @ dec_pad 2 (a mod 60)))))"

section \<open>Entries\<close>

record JournalEntry =
  je_id :: string
  je_kind :: string
  je_data :: json
  je_created_at :: datetime

text \<open>\<^verbatim>\<open>create\<close>: \<open>fresh\<close> is what \<^verbatim>\<open>ulid()\<close> would draw and \<open>now\<close> the clock.\<close>

definition journal_create :: "string \<Rightarrow> datetime \<Rightarrow> string \<Rightarrow> json \<Rightarrow> string option \<Rightarrow> JournalEntry" where
  "journal_create fresh now kind data id' =
    \<lparr>je_id = (case id' of None \<Rightarrow> fresh | Some i \<Rightarrow> if i = '''' then fresh else i),
     je_kind = kind, je_data = data, je_created_at = now\<rparr>"

definition journal_to_json :: "(json \<Rightarrow> string) \<Rightarrow> JournalEntry \<Rightarrow> string" where
  "journal_to_json orjson_dumps e =
    orjson_dumps (JObj [(''id'', JStr (je_id e)), (''kind'', JStr (je_kind e)), (''data'', je_data e),
                        (''created_at'', JStr (isoformat (je_created_at e)))])"

definition oid_list :: "ObjectId list \<Rightarrow> string list" where
  "oid_list values = map oid_value values"

end
