(* ===== verification/Refs.thy ===== *)
theory Refs
  imports Ids
begin

text \<open>
  \<^verbatim>\<open>src/trunks/refs.py\<close>: reference names, reference records and the in-memory reference
  store with compare-and-swap. \<open>ref_cells\<close> is the contract every reference table of the
  program keeps (this store, the tables of the repository and of the backends): a table is
  a map from normalized names, a swap succeeds exactly when the expected value is current
  and then changes that one name.
\<close>

section \<open>Definitions\<close>

definition normalize_ref :: "string \<Rightarrow> string" where
  "normalize_ref name =
    (if name = ''HEAD'' \<or> name = '''' then name
     else if startswith name ''refs/'' then name
     else if startswith name ''heads/'' then ''refs/'' @ name
     else if startswith name ''tags/'' then ''refs/'' @ name
     else ''refs/heads/'' @ name)"

definition branch_name :: "string \<Rightarrow> string" where
  "branch_name ref =
    (if startswith ref ''refs/heads/'' then drop (length ''refs/heads/'') ref else ref)"

record Ref =
  ref_name :: string
  ref_oid :: "ObjectId option"

record RefUpdate =
  upd_name :: string
  upd_expected :: "ObjectId option"
  upd_new :: ObjectId

type_synonym ref_table = "(string, ObjectId) dict"

definition refstore_get :: "ref_table \<Rightarrow> string \<Rightarrow> ObjectId option" where
  "refstore_get t name = map_of t (normalize_ref name)"

definition refstore_set :: "string \<Rightarrow> ObjectId \<Rightarrow> ref_table \<Rightarrow> ref_table" where
  "refstore_set name oid t = AList.update (normalize_ref name) oid t"

definition refstore_cas ::
  "string \<Rightarrow> ObjectId option \<Rightarrow> ObjectId \<Rightarrow> ref_table \<Rightarrow> bool \<times> ref_table" where
  "refstore_cas name expected new t =
    (let normalized = normalize_ref name in
     if map_of t normalized \<noteq> expected then (False, t)
     else (True, AList.update normalized new t))"

definition refstore_list :: "string \<Rightarrow> ref_table \<Rightarrow> Ref list" where
  "refstore_list prefix t =
    (let normalized_prefix = (if prefix \<noteq> '''' then normalize_ref prefix else '''') in
     map (\<lambda>(name, oid). \<lparr>ref_name = name, ref_oid = Some oid\<rparr>)
       (filter (\<lambda>(name, oid). startswith name normalized_prefix) (sort t)))"

section \<open>Names\<close>

lemma normalize_ref_prefix:
  "normalize_ref n = ''HEAD'' \<or> normalize_ref n = '''' \<or> startswith (normalize_ref n) ''refs/''"
  by (auto simp: normalize_ref_def)

lemma normalize_ref_refs [simp]: "startswith n ''refs/'' \<Longrightarrow> normalize_ref n = n"
  by (auto simp: normalize_ref_def)

lemma normalize_ref_idem [simp]: "normalize_ref (normalize_ref n) = normalize_ref n"
  using normalize_ref_prefix [of n] by (auto simp: normalize_ref_def)

definition plain_branch :: "string \<Rightarrow> bool" where
  "plain_branch b \<longleftrightarrow> b \<noteq> '''' \<and> b \<noteq> ''HEAD'' \<and> \<not> startswith b ''refs/'' \<and>
     \<not> startswith b ''heads/'' \<and> \<not> startswith b ''tags/''"

lemma normalize_ref_plain: "plain_branch b \<Longrightarrow> normalize_ref b = ''refs/heads/'' @ b"
  by (simp add: plain_branch_def normalize_ref_def)

lemma branch_name_normalize: "plain_branch b \<Longrightarrow> branch_name (normalize_ref b) = b"
  by (simp add: normalize_ref_plain branch_name_def)

section \<open>The contract of a reference table\<close>

locale ref_cells =
  fixes inv :: "'s \<Rightarrow> bool"
    and refs :: "'s \<Rightarrow> string \<Rightarrow> ObjectId option"
    and get :: "'s \<Rightarrow> string \<Rightarrow> ObjectId option"
    and cas :: "string \<Rightarrow> ObjectId option \<Rightarrow> ObjectId \<Rightarrow> 's \<Rightarrow> bool \<times> 's"
  assumes get_refs: "inv s \<Longrightarrow> get s n = refs s (normalize_ref n)"
    and cas_flag: "inv s \<Longrightarrow> fst (cas n e x s) \<longleftrightarrow> refs s (normalize_ref n) = e"
    and cas_refs: "inv s \<Longrightarrow> refs (snd (cas n e x s)) =
      (if refs s (normalize_ref n) = e then (refs s)(normalize_ref n \<mapsto> x) else refs s)"
    and cas_inv: "inv s \<Longrightarrow> valid_oid x \<Longrightarrow> inv (snd (cas n e x s))"
begin

lemma cas_get:
  assumes "inv s" and "valid_oid x"
  shows "get (snd (cas n e x s)) n = (if get s n = e then Some x else get s n)"
  using assms by (simp add: get_refs cas_refs cas_inv)

lemma cas_frame:
  assumes "inv s" and "valid_oid x" and "normalize_ref m \<noteq> normalize_ref n"
  shows "get (snd (cas n e x s)) m = get s m"
  using assms by (simp add: get_refs cas_refs cas_inv)

text \<open>Of two swaps that expect the same value, the second fails once the first has changed
  it: the lost-update race is closed.\<close>

lemma cas_second_fails:
  assumes "inv s" and "fst (cas n e x s)" and "e \<noteq> Some x" and "normalize_ref m = normalize_ref n" and "valid_oid x"
  shows "\<not> fst (cas m e y (snd (cas n e x s)))"
proof -
  have "refs s (normalize_ref n) = e" using assms(1,2) by (simp add: cas_flag)
  with assms show ?thesis by (auto simp: cas_flag cas_inv cas_refs)
qed

end

interpretation refstore: ref_cells wf_dict map_of refstore_get refstore_cas
  by unfold_locales (auto simp: refstore_get_def refstore_cas_def Let_def fun_eq_iff)

lemma set_refstore_list:
  assumes "wf_dict t"
  shows "r \<in> set (refstore_list p t) \<longleftrightarrow>
    (\<exists>n x. r = \<lparr>ref_name = n, ref_oid = Some x\<rparr> \<and> map_of t n = Some x \<and>
      startswith n (if p \<noteq> '''' then normalize_ref p else ''''))"
  using assms by (auto simp: refstore_list_def Let_def wf_dict_map_of_iff)

section \<open>Properties\<close>

text \<open>Naming a branch and reading the name back are inverse, and normalizing twice is
  normalizing once; two spellings of a reference name the same cell.\<close>

lemma ref_name_roundtrip:
  "normalize_ref (normalize_ref n) = normalize_ref n \<and>
   (plain_branch n \<longrightarrow> branch_name (normalize_ref n) = n \<and>
     refstore_get t (''heads/'' @ n) = refstore_get t n \<and> refstore_get t (''refs/heads/'' @ n) = refstore_get t n)"
proof -
  have "normalize_ref (''heads/'' @ n) = ''refs/heads/'' @ n" by (simp add: normalize_ref_def)
  then show ?thesis by (simp add: branch_name_def refstore_get_def normalize_ref_plain)
qed

end
