(* ===== verification/Paths.thy ===== *)
theory Paths
  imports PyStr
begin

text \<open>
  \<^verbatim>\<open>src/trunks/paths.py\<close>: normalization of repository paths, the test for internal
  directories and the ignore rules. \<open>fnmatchcase\<close> is the function of the standard library
  the rules call; it works on code points, which are the elements of \<open>utf8_chars\<close>.
\<close>

section \<open>Normalization\<close>

definition path_parts :: "string \<Rightarrow> string list" where
  \<comment> \<open>\<^verbatim>\<open>PurePosixPath(raw).parts\<close> of a path that does not start with a slash\<close>
  "path_parts raw = filter (\<lambda>p. p \<noteq> '''' \<and> p \<noteq> ''.'') (split_on SLASH raw)"

definition is_control :: "char \<Rightarrow> bool" where
  "is_control c \<longleftrightarrow> ordc c < 32 \<or> ordc c = 127"

definition normalize_path :: "string \<Rightarrow> string res" where
  "normalize_path path =
    (let raw' = replace_char BSLASH SLASH path in
     if raw' = '''' \<or> raw' = ''.'' \<or> raw' = ''/'' then Inl (InvalidPath path)
     else if list_ex is_control raw' then Inl (InvalidPath path)
     else if startswith raw' ''/'' \<or> endswith raw' ''/'' then Inl (InvalidPath path)
     else let parts = path_parts raw' in
       if list_ex (\<lambda>p. p = '''' \<or> p = ''.'' \<or> p = ''..'') parts then Inl (InvalidPath path)
       else Inr (join ''/'' parts))"

definition is_internal_path :: "string \<Rightarrow> bool" where
  "is_internal_path path =
    (let normalized = strip_by (\<lambda>c. c = SLASH) (replace_char BSLASH SLASH path) in
     list_ex (\<lambda>p. p = ''.git'' \<or> p = ''.trunks'') (split_on SLASH normalized))"

section \<open>Shell patterns\<close>

fun utf8_chars :: "string \<Rightarrow> string list" where
  "utf8_chars [] = []"
| "utf8_chars (c # s) =
    (case utf8_chars s of
       [] \<Rightarrow> [[c]]
     | x # xs \<Rightarrow> if cont_byte (ordc (hd x)) then (c # x) # xs else [c] # x # xs)"

text \<open>Members of a bracket expression: single characters and ranges.\<close>

fun set_match :: "string list \<Rightarrow> string \<Rightarrow> bool" where
  "set_match [] c = False"
| "set_match (x # [CHR ''-''] # y # r) c = ((x \<le> c \<and> c \<le> y) \<or> set_match r c)"
| "set_match (x # r) c = (x = c \<or> set_match r c)"

text \<open>The contents of a bracket expression and the pattern after it; the closing bracket
  cannot be the first character after an optional exclamation mark.\<close>

definition bracket :: "string list \<Rightarrow> (string list \<times> string list) option" where
  "bracket p =
    (let neg = (case p of [] \<Rightarrow> [] | x # _ \<Rightarrow> if x = ''!'' then [x] else []);
         p1 = drop (length neg) p;
         fst1 = (case p1 of [] \<Rightarrow> [] | x # _ \<Rightarrow> if x = '']'' then [x] else []);
         p2 = drop (length fst1) p1;
         body = takeWhile (\<lambda>x. x \<noteq> '']'') p2;
         rest = dropWhile (\<lambda>x. x \<noteq> '']'') p2
     in if rest = [] then None else Some (neg @ fst1 @ body, tl rest))"

definition bracket_match :: "string list \<Rightarrow> string \<Rightarrow> bool" where
  "bracket_match stuff c =
    (case stuff of [] \<Rightarrow> False
     | x # r \<Rightarrow> if x = ''!'' then \<not> set_match r c else set_match stuff c)"

lemma bracket_shorter: "bracket p = Some (stuff, rest) \<Longrightarrow> length rest < length p"
proof -
  assume "bracket p = Some (stuff, rest)"
  then obtain n where r: "rest = tl (dropWhile (\<lambda>x. x \<noteq> '']'') (drop n p))"
    and ne: "dropWhile (\<lambda>x. x \<noteq> '']'') (drop n p) \<noteq> []"
    by (auto simp: bracket_def Let_def drop_drop split: if_splits)
  have "length (dropWhile (\<lambda>x. x \<noteq> '']'') (drop n p)) \<le> length p"
    by (rule order_trans [OF length_dropWhile_le]) simp
  with r ne show ?thesis by (cases "dropWhile (\<lambda>x. x \<noteq> '']'') (drop n p)") auto
qed

function fnmatch_chars :: "string list \<Rightarrow> string list \<Rightarrow> bool" where
  "fnmatch_chars [] s = (s = [])"
| "fnmatch_chars (p # ps) s =
    (if p = ''*'' then
       fnmatch_chars ps s \<or> (case s of [] \<Rightarrow> False | _ # s' \<Rightarrow> fnmatch_chars (p # ps) s')
     else (case s of [] \<Rightarrow> False
       | c # s' \<Rightarrow>
         if p = ''?'' then fnmatch_chars ps s'
         else if p = ''['' then
           (case bracket ps of
              None \<Rightarrow> c = p \<and> fnmatch_chars ps s'
            | Some (stuff, rest) \<Rightarrow> bracket_match stuff c \<and> fnmatch_chars rest s')
         else c = p \<and> fnmatch_chars ps s'))"
  by pat_completeness auto
termination
  by (relation "measure (\<lambda>(p, s). length p + length s)") (auto dest: bracket_shorter)

definition fnmatchcase :: "string \<Rightarrow> string \<Rightarrow> bool" where
  "fnmatchcase name pat = fnmatch_chars (utf8_chars pat) (utf8_chars name)"

section \<open>Ignore rules\<close>

text \<open>\<^verbatim>\<open>**\<close> stands for any number of components, also none.\<close>

fun glob_parts_match :: "string list \<Rightarrow> string list \<Rightarrow> bool" where
  "glob_parts_match [] xs = (xs = [])"
| "glob_parts_match (p # ps) xs =
    (if p = ''**'' then
       list_ex (\<lambda>i. glob_parts_match ps (drop i xs)) [0..<length xs + 1]
     else (case xs of [] \<Rightarrow> False
       | q # qs \<Rightarrow> fnmatchcase q p \<and> glob_parts_match ps qs))"

definition path_glob_matches :: "string \<Rightarrow> string \<Rightarrow> bool" where
  "path_glob_matches path pattern = glob_parts_match (split_on SLASH pattern) (split_on SLASH path)"

definition path_or_parent_matches :: "string \<Rightarrow> string \<Rightarrow> bool" where
  "path_or_parent_matches path pattern =
    (let parts = split_on SLASH path in
     if SLASH \<notin> set pattern then list_ex (\<lambda>part. fnmatchcase part pattern) parts
     else list_ex (\<lambda>i. path_glob_matches (join ''/'' (take i parts)) pattern) [1..<length parts + 1])"

text \<open>\<^verbatim>\<open>pattern.replace("\\x", "x")\<close> for a one-character \<open>x\<close>.\<close>

fun unescape :: "char \<Rightarrow> string \<Rightarrow> string" where
  "unescape x (a # b # r) =
    (if a = BSLASH \<and> b = x then x # unescape x r else a # unescape x (b # r))"
| "unescape x s = s"

definition matches_ignore :: "string \<Rightarrow> string \<Rightarrow> bool option" where
  "matches_ignore path pattern0 =
    (let negate = startswith pattern0 ''!'';
         pattern1 = (if negate then drop 1 pattern0 else pattern0);
         pattern2 = replace_char BSLASH SLASH
           (unescape (CHR ''#'') (unescape (CHR ''!'') (strip_by is_space pattern1)))
     in if pattern2 = '''' then None
        else let pattern3 = (if startswith pattern2 ''/'' then drop 1 pattern2 else pattern2);
                 directory_only = endswith pattern3 ''/'';
                 pattern4 = (if directory_only then rstrip_by (\<lambda>c. c = SLASH) pattern3 else pattern3)
             in if pattern4 = '''' then None
                else let matched =
                       (if directory_only then path_or_parent_matches path pattern4
                        else if SLASH \<in> set pattern4 then path_glob_matches path pattern4
                        else list_ex (\<lambda>part. fnmatchcase part pattern4) (split_on SLASH path))
                     in if \<not> matched then None else Some (\<not> negate))"

definition DEFAULT_IGNORES :: "string list" where
  "DEFAULT_IGNORES = [''.git/'', ''.trunks/'', ''node_modules/'', ''__pycache__/'', ''build/'', ''dist/'',
     ''.DS_Store'', ''Thumbs.db'']"

text \<open>The rules of one ignore file, then of the files present in the root, in their order.\<close>

definition ignore_lines :: "string \<Rightarrow> string list" where
  "ignore_lines content =
    filter (\<lambda>line. line \<noteq> '''' \<and> \<not> startswith line ''#'') (map (strip_by is_space) (splitlines content))"

definition ignore_patterns :: "string option \<Rightarrow> string option \<Rightarrow> string list" where
  "ignore_patterns gitignore trunksignore =
    (case gitignore of None \<Rightarrow> [] | Some c \<Rightarrow> ignore_lines c) @
    (case trunksignore of None \<Rightarrow> [] | Some c \<Rightarrow> ignore_lines c)"

definition apply_pattern :: "string \<Rightarrow> bool \<Rightarrow> string \<Rightarrow> bool" where
  "apply_pattern path ignored pattern =
    (case matches_ignore path pattern of None \<Rightarrow> ignored | Some b \<Rightarrow> b)"

text \<open>\<^verbatim>\<open>is_ignored(path, root)\<close>; the second argument holds the rules of the root's files.\<close>

definition is_ignored :: "string \<Rightarrow> string list \<Rightarrow> bool" where
  "is_ignored path root_patterns =
    (let normalized = strip_by (\<lambda>c. c = SLASH) (replace_char BSLASH SLASH path) in
     if is_internal_path normalized then True
     else foldl (apply_pattern normalized) (foldl (apply_pattern normalized) False DEFAULT_IGNORES)
            root_patterns)"

section \<open>Lemmas\<close>

definition clean_part :: "string \<Rightarrow> bool" where
  "clean_part p \<longleftrightarrow> p \<noteq> '''' \<and> p \<noteq> ''.'' \<and> p \<noteq> ''..'' \<and> SLASH \<notin> set p \<and> BSLASH \<notin> set p \<and>
     (\<forall>c \<in> set p. \<not> is_control c)"

text \<open>The canonical spelling of a path: clean components separated by single slashes.\<close>

definition canonical_path :: "string \<Rightarrow> bool" where
  "canonical_path p \<longleftrightarrow> p \<noteq> '''' \<and> (\<forall>q \<in> set (split_on SLASH p). clean_part q)"

lemma replace_slash_no_bslash: "BSLASH \<notin> set (replace_char BSLASH SLASH s)"
  by (auto simp: replace_char_def)

lemma path_parts_facts:
  assumes "q \<in> set (path_parts r)"
  shows "q \<noteq> ''''" and "q \<noteq> ''.''" and "SLASH \<notin> set q" and "set q \<subseteq> set r"
  using assms split_on_parts [of q SLASH r] set_split_on [of q SLASH r] by (auto simp: path_parts_def)

lemma normalize_path_parts:
  assumes "normalize_path path = Inr p"
  shows "\<exists>parts. p = join ''/'' parts \<and> (\<forall>q \<in> set parts. clean_part q)"
proof (intro exI conjI ballI)
  let ?r = "replace_char BSLASH SLASH path"
  have p: "p = join ''/'' (path_parts ?r)" and ctl: "\<not> list_ex is_control ?r"
    and dots: "\<not> list_ex (\<lambda>p. p = '''' \<or> p = ''.'' \<or> p = ''..'') (path_parts ?r)"
    using assms by (auto simp: normalize_path_def Let_def split: if_splits)
  show "p = join ''/'' (path_parts ?r)" by (rule p)
  show "clean_part q" if "q \<in> set (path_parts ?r)" for q
    using path_parts_facts [OF that] that ctl dots replace_slash_no_bslash [of path]
    by (auto simp: clean_part_def list_ex_iff)
qed

lemma split_join_clean:
  assumes "parts \<noteq> []" and "\<And>q. q \<in> set parts \<Longrightarrow> clean_part q"
  shows "split_on SLASH (join ''/'' parts) = parts"
  using assms by (intro split_on_join) (auto simp: clean_part_def)

lemma normalize_path_canonical:
  assumes "normalize_path path = Inr p" and "p \<noteq> ''''"
  shows "canonical_path p"
proof -
  obtain parts where p: "p = join ''/'' parts" and clean: "\<And>q. q \<in> set parts \<Longrightarrow> clean_part q"
    using normalize_path_parts [OF assms(1)] by blast
  with assms(2) have "parts \<noteq> []" by auto
  with clean have "split_on SLASH p = parts" unfolding p by (intro split_join_clean)
  with clean assms(2) show ?thesis by (simp add: canonical_path_def)
qed

lemma canonical_path_chars:
  assumes "canonical_path p" and "c \<in> set p"
  shows "c \<noteq> BSLASH" and "\<not> is_control c"
proof -
  have "c \<in> set (join [SLASH] (split_on SLASH p))" using assms(2) by simp
  then have "c = SLASH \<or> (\<exists>q \<in> set (split_on SLASH p). c \<in> set q)"
    using set_join_subset [of "[SLASH]" "split_on SLASH p"] by auto
  then show "c \<noteq> BSLASH" and "\<not> is_control c"
    using assms(1) by (auto simp: canonical_path_def clean_part_def is_control_def)
qed

lemma split_on_snoc: "split_on c (s @ [c]) = split_on c s @ [[]]"
  using split_on_append [of c s "[]"] by simp

lemma canonical_path_ends:
  assumes "canonical_path p"
  shows "\<not> startswith p ''/''" and "\<not> endswith p ''/''"
proof -
  have clean: "'''' \<notin> set (split_on SLASH p)"
    using assms by (auto simp: canonical_path_def clean_part_def)
  show "\<not> startswith p ''/''" using clean by (auto simp: startswith_iff)
  show "\<not> endswith p ''/''" using clean by (auto simp: endswith_iff split_on_snoc)
qed

lemma path_parts_canonical: "canonical_path p \<Longrightarrow> path_parts p = split_on SLASH p"
  by (auto simp: path_parts_def canonical_path_def clean_part_def intro!: filter_True)

lemma normalize_canonical_path:
  assumes "canonical_path p"
  shows "normalize_path p = Inr p"
proof -
  have r: "replace_char BSLASH SLASH p = p"
    using canonical_path_chars(1) [OF assms] by (intro replace_char_absent) blast
  have ne: "p \<noteq> ''''" "p \<noteq> ''.''" "p \<noteq> ''/''"
    using assms by (auto simp: canonical_path_def clean_part_def)
  have ctl: "\<not> list_ex is_control p"
    using canonical_path_chars(2) [OF assms] by (auto simp: list_ex_iff)
  have dots: "\<not> list_ex (\<lambda>q. q = '''' \<or> q = ''.'' \<or> q = ''..'') (split_on SLASH p)"
    using assms by (auto simp: canonical_path_def clean_part_def list_ex_iff)
  have j: "join [SLASH] (split_on SLASH p) = p" by simp
  show ?thesis
    unfolding normalize_path_def Let_def r path_parts_canonical [OF assms]
    using ne ctl dots canonical_path_ends [OF assms] j by simp
qed

lemma strip_canonical:
  assumes "canonical_path p"
  shows "strip_by (\<lambda>c. c = SLASH) p = p"
proof -
  obtain c r where p: "p = c # r" using assms by (cases p) (auto simp: canonical_path_def)
  then have "c \<noteq> SLASH" using canonical_path_ends(1) [OF assms] by simp
  moreover have "last p \<noteq> SLASH"
  proof
    assume "last p = SLASH"
    then have "p = butlast p @ ''/''" using append_butlast_last_id [of p] p by simp
    then have "endswith p ''/''" unfolding endswith_iff ..
    then show False using canonical_path_ends(2) [OF assms] by simp
  qed
  ultimately show ?thesis
    using p by (auto simp: strip_by_def lstrip_by_def intro!: rstrip_by_id)
qed

lemma is_internal_canonical:
  assumes "canonical_path p"
  shows "is_internal_path p \<longleftrightarrow>
    ''.git'' \<in> set (split_on SLASH p) \<or> ''.trunks'' \<in> set (split_on SLASH p)"
proof -
  have "replace_char BSLASH SLASH p = p"
    using canonical_path_chars(1) [OF assms] by (intro replace_char_absent) blast
  then show ?thesis
    by (auto simp: is_internal_path_def Let_def strip_canonical [OF assms] list_ex_iff)
qed

text \<open>Of several rules that match, the last one decides.\<close>

lemma apply_patterns_last:
  "foldl (apply_pattern path) b pats =
     (let ms = filter (\<lambda>p. matches_ignore path p \<noteq> None) pats
      in if ms = [] then b else the (matches_ignore path (last ms)))"
  by (induction pats rule: rev_induct) (auto simp: apply_pattern_def Let_def)

lemma glob_double_star:
  "glob_parts_match (''**'' # ps) xs \<longleftrightarrow> (\<exists>a b. xs = a @ b \<and> glob_parts_match ps b)"
proof
  assume "glob_parts_match (''**'' # ps) xs"
  then obtain i where "glob_parts_match ps (drop i xs)"
    by (auto simp: list_ex_iff simp del: upt_Suc)
  then have "xs = take i xs @ drop i xs \<and> glob_parts_match ps (drop i xs)" by simp
  then show "\<exists>a b. xs = a @ b \<and> glob_parts_match ps b" by blast
next
  assume "\<exists>a b. xs = a @ b \<and> glob_parts_match ps b"
  then obtain a b where "xs = a @ b" "glob_parts_match ps b" by blast
  then have "length a \<in> set [0..<length xs + 1] \<and> glob_parts_match ps (drop (length a) xs)" by simp
  then show "glob_parts_match (''**'' # ps) xs" by (auto simp: list_ex_iff simp del: upt_Suc)
qed

section \<open>Properties\<close>

text \<open>C39: path safety. What \<^verbatim>\<open>normalize_path\<close> accepts is spelled canonically: components that are not
  empty, not a dot and not a double dot, without slashes, backslashes or control characters, so
  that it cannot leave the working tree; canonical spellings are exactly its fixed points. The
  only other value it returns is the empty string (for inputs made of dots and slashes).\<close>

theorem normalize_path_safe:
  "case normalize_path path of
     Inl e \<Rightarrow> e = InvalidPath path
   | Inr p \<Rightarrow> p = '''' \<or> (canonical_path p \<and> normalize_path p = Inr p)"
proof (cases "normalize_path path")
  case (Inl e)
  then show ?thesis by (auto simp: normalize_path_def Let_def split: if_splits)
next
  case (Inr p)
  then show ?thesis using normalize_path_canonical normalize_canonical_path by (cases "p = ''''") auto
qed

text \<open>C40: the metadata directories can never be tracked. For a canonical path with a component
  \<^verbatim>\<open>.git\<close> or \<^verbatim>\<open>.trunks\<close> no list of ignore rules, negated ones included, makes \<^verbatim>\<open>is_ignored\<close> false;
  for every other path the last rule that matches decides, and with none it is not ignored.\<close>

theorem is_ignored_decision:
  assumes "canonical_path p"
  shows "is_ignored p rules \<longleftrightarrow>
    ''.git'' \<in> set (split_on SLASH p) \<or> ''.trunks'' \<in> set (split_on SLASH p) \<or>
    (let ms = filter (\<lambda>r. matches_ignore p r \<noteq> None) (DEFAULT_IGNORES @ rules)
     in ms \<noteq> [] \<and> matches_ignore p (last ms) = Some True)"
proof -
  have strip: "strip_by (\<lambda>c. c = SLASH) (replace_char BSLASH SLASH p) = p"
    using canonical_path_chars(1) [OF assms] strip_canonical [OF assms]
    by (metis replace_char_absent)
  have the: "the m = (m = Some True)" if "m \<noteq> None" for m :: "bool option" using that by auto
  have "foldl (apply_pattern p) (foldl (apply_pattern p) False DEFAULT_IGNORES) rules =
      foldl (apply_pattern p) False (DEFAULT_IGNORES @ rules)" by simp
  also have "\<dots> = (let ms = filter (\<lambda>r. matches_ignore p r \<noteq> None) (DEFAULT_IGNORES @ rules)
     in ms \<noteq> [] \<and> matches_ignore p (last ms) = Some True)"
  proof -
    have "matches_ignore p (last (filter (\<lambda>r. matches_ignore p r \<noteq> None) rs)) \<noteq> None"
      if "filter (\<lambda>r. matches_ignore p r \<noteq> None) rs \<noteq> []" for rs
      using last_in_set [OF that] by simp
    then show ?thesis unfolding apply_patterns_last Let_def using the by (simp del: filter_append)
  qed
  finally show ?thesis
    using is_internal_canonical [OF assms] unfolding is_ignored_def Let_def strip by auto
qed

theorem is_ignored_decision_witness: "is_ignored ''a/.git/x'' [''!**'']"
proof -
  have "canonical_path ''a/.git/x''"
    by (simp add: canonical_path_def clean_part_def is_control_def)
  from is_ignored_decision [OF this, of "[''!**'']"] show ?thesis by simp
qed

end
