(* ===== verification/Backend.thy ===== *)
theory Backend
  imports Journal Refs Paths
begin

text \<open>
  \<^verbatim>\<open>src/trunks/backend.py\<close>: the storage interface. The abstract class is the record of its
  methods over the state \<open>'s\<close> of an implementation; the two methods with a body and the two
  that raise are given as the defaults.

  The contract is in two steps. \<open>backend_safe\<close> lets every call fail at any point, as a remote
  store may: what a call returned is true of the store, a failed call changed nothing but what
  it was asked to change, objects never disappear and stay content-addressed; an object may be
  reported missing although it is there. \<open>backend\<close> adds that calls succeed when they should.
  Clients prove safety in the first and progress in the second.
\<close>

section \<open>The interface\<close>

datatype Role = primary | mirror | archive

record Capabilities =
  cap_cas_refs :: bool
  cap_locks :: bool
  cap_journal :: bool
  cap_list_prefix :: bool
  cap_read_after_write_refs :: bool

record 's Backend =
  capabilities :: Capabilities
  read_object :: "ObjectId \<Rightarrow> ('s, bytes) st"
  write_object :: "ObjectId \<Rightarrow> bytes \<Rightarrow> ('s, unit) st"
  write_objects :: "(ObjectId \<times> bytes) list \<Rightarrow> ('s, unit) st"
  has_object :: "ObjectId \<Rightarrow> ('s, bool) st"
  read_ref :: "string \<Rightarrow> ('s, ObjectId option) st"
  cas_ref :: "string \<Rightarrow> ObjectId option \<Rightarrow> ObjectId \<Rightarrow> ('s, bool) st"
  delete_ref :: "string \<Rightarrow> ('s, unit) st"
  delete_object :: "ObjectId \<Rightarrow> ('s, unit) st"
  list_refs :: "string \<Rightarrow> ('s, Ref list) st"
  append_journal :: "JournalEntry \<Rightarrow> ('s, unit) st"
  read_config :: "('s, json) st"
  write_config :: "json \<Rightarrow> ('s, unit) st"

definition default_write_objects ::
  "(ObjectId \<Rightarrow> bytes \<Rightarrow> ('s, unit) st) \<Rightarrow> (ObjectId \<times> bytes) list \<Rightarrow> ('s, unit) st" where
  "default_write_objects write objects = iterS (\<lambda>(oid, data). write oid data) objects"

definition default_has_object :: "(ObjectId \<Rightarrow> ('s, bytes) st) \<Rightarrow> ObjectId \<Rightarrow> ('s, bool) st" where
  "default_has_object read oid =
    catchS (bindS (read oid) (\<lambda>_. returnS True))
      (\<lambda>e. if is_object_not_found e then returnS False else raiseS e)"

definition default_delete_ref :: "string \<Rightarrow> ('s, unit) st" where
  "default_delete_ref name = raiseS (NotImplementedError ''backend does not support ref deletion'')"

definition default_delete_object :: "ObjectId \<Rightarrow> ('s, unit) st" where
  "default_delete_object oid = raiseS (NotImplementedError ''backend does not support object deletion'')"

section \<open>Contract: safety under failures\<close>

text \<open>Names a store that keeps references in files can tell apart: canonical paths.\<close>

definition good_ref :: "string \<Rightarrow> bool" where
  "good_ref n \<longleftrightarrow> canonical_path (normalize_ref n)"

text \<open>\<open>same\<close>: a call left the abstract store as it was. \<open>grown\<close>: it may only have added objects
  out of \<open>X\<close>.\<close>

definition same :: "('s \<Rightarrow> bool) \<Rightarrow> ('s \<Rightarrow> ObjectId \<Rightarrow> bytes option) \<Rightarrow> ('s \<Rightarrow> string \<Rightarrow> ObjectId option) \<Rightarrow>
    's \<Rightarrow> 's \<Rightarrow> bool" where
  "same good objs refs s t \<longleftrightarrow> good t \<and> objs t = objs s \<and> refs t = refs s"

definition grown :: "('s \<Rightarrow> bool) \<Rightarrow> ('s \<Rightarrow> ObjectId \<Rightarrow> bytes option) \<Rightarrow> ('s \<Rightarrow> string \<Rightarrow> ObjectId option) \<Rightarrow>
    ObjectId set \<Rightarrow> 's \<Rightarrow> 's \<Rightarrow> bool" where
  "grown good objs refs X s t \<longleftrightarrow> good t \<and> refs t = refs s \<and>
     dom (objs s) \<subseteq> dom (objs t) \<and> dom (objs t) \<subseteq> dom (objs s) \<union> X"

locale backend_safe =
  fixes h :: hash and B :: "'s Backend"
    and inv :: "'s \<Rightarrow> bool"
    and objs :: "'s \<Rightarrow> ObjectId \<Rightarrow> bytes option"
    and refs :: "'s \<Rightarrow> string \<Rightarrow> ObjectId option"
  assumes content: "inv s \<Longrightarrow> objs s x = Some d \<Longrightarrow> from_bytes h d = x"
    and read_sound: "inv s \<Longrightarrow> read_object B x s = (Inr d, t) \<Longrightarrow> x \<in> dom (objs s) \<and> from_bytes h d = x"
    and read_same: "inv s \<Longrightarrow> same inv objs refs s (snd (read_object B x s))"
    and has_sound: "inv s \<Longrightarrow> has_object B x s = (Inr True, t) \<Longrightarrow> x \<in> dom (objs s)"
    and has_same: "inv s \<Longrightarrow> same inv objs refs s (snd (has_object B x s))"
    and write_sound: "inv s \<Longrightarrow> write_object B x d s = (Inr u, t) \<Longrightarrow> from_bytes h d = x \<and> x \<in> dom (objs t)"
    and write_grown: "inv s \<Longrightarrow> grown inv objs refs {x} s (snd (write_object B x d s))"
    and writes_sound: "inv s \<Longrightarrow> write_objects B os s = (Inr u, t) \<Longrightarrow> fst ` set os \<subseteq> dom (objs t)"
    and writes_grown: "inv s \<Longrightarrow> grown inv objs refs (fst ` set os) s (snd (write_objects B os s))"
    and ref_sound: "inv s \<Longrightarrow> good_ref n \<Longrightarrow> read_ref B n s = (Inr r, t) \<Longrightarrow> r = refs s (normalize_ref n)"
    and ref_same: "inv s \<Longrightarrow> same inv objs refs s (snd (read_ref B n s))"
    and cas_sound: "inv s \<Longrightarrow> good_ref n \<Longrightarrow> valid_oid x \<Longrightarrow> cas_ref B n e x s = (res, t) \<Longrightarrow>
        inv t \<and> objs t = objs s \<and>
        (case res of
           Inr b \<Rightarrow> b = (refs s (normalize_ref n) = e) \<and>
                    refs t = (if b then (refs s)(normalize_ref n \<mapsto> x) else refs s)
         | Inl _ \<Rightarrow> refs t = refs s \<or> (refs s (normalize_ref n) = e \<and> refs t = (refs s)(normalize_ref n \<mapsto> x)))"
    and list_sound: "inv s \<Longrightarrow> list_refs B ''refs/'' s = (Inr rs, t) \<Longrightarrow>
        (rr \<in> set rs \<longleftrightarrow> (\<exists>n x. rr = \<lparr>ref_name = n, ref_oid = Some x\<rparr> \<and> startswith n ''refs/'' \<and> refs s n = Some x))"
    and list_same: "inv s \<Longrightarrow> same inv objs refs s (snd (list_refs B p s))"
    and journal_same: "inv s \<Longrightarrow> same inv objs refs s (snd (append_journal B je s))"
    and read_config_same: "inv s \<Longrightarrow> same inv objs refs s (snd (read_config B s))"
    and write_config_same: "inv s \<Longrightarrow> same inv objs refs s (snd (write_config B c s))"
begin


lemma cas_inv: "inv s \<Longrightarrow> good_ref n \<Longrightarrow> valid_oid x \<Longrightarrow> inv (snd (cas_ref B n e x s))"
  using cas_sound [of s n x e] by (metis prod.collapse)

lemma cas_objs: "inv s \<Longrightarrow> good_ref n \<Longrightarrow> valid_oid x \<Longrightarrow> objs (snd (cas_ref B n e x s)) = objs s"
  using cas_sound [of s n x e] by (metis prod.collapse)

text \<open>However the call ends, a swap changes at most the one reference, only from the expected
  value, and only to the new one.\<close>

lemma cas_refs_cases:
  assumes "inv s" and "good_ref n" and "valid_oid x"
  shows "refs (snd (cas_ref B n e x s)) = refs s \<or>
    (refs s (normalize_ref n) = e \<and> refs (snd (cas_ref B n e x s)) = (refs s)(normalize_ref n \<mapsto> x))"
proof -
  obtain r t where rt: "cas_ref B n e x s = (r, t)" by (cases "cas_ref B n e x s")
  show ?thesis using cas_sound [OF assms rt] rt by (cases r) (auto split: if_splits)
qed

end

section \<open>Contract: progress\<close>

text \<open>Objects a store must accept: the id is the hash of the data, and the data is a canonical
  object of one of Git's kinds (stores that pack objects parse it).\<close>

definition storable :: "hash \<Rightarrow> ObjectId \<times> bytes \<Rightarrow> bool" where
  "storable h p \<longleftrightarrow> from_bytes h (snd p) = fst p \<and> git_object (snd p)"

locale backend = backend_safe +
  assumes read_hit: "inv s \<Longrightarrow> objs s x = Some d \<Longrightarrow> fst (read_object B x s) = Inr d"
    and read_miss: "inv s \<Longrightarrow> objs s x = None \<Longrightarrow>
        fst (read_object B x s) = Inl (ObjectNotFound (oid_value x))"
    and has_ok: "inv s \<Longrightarrow> fst (has_object B x s) = Inr (x \<in> dom (objs s))"
    and write_bad: "inv s \<Longrightarrow> from_bytes h d \<noteq> x \<Longrightarrow>
        fst (write_object B x d s) = Inl (ValueError ''object id does not match object data'')"
    and write_ok: "inv s \<Longrightarrow> storable h (x, d) \<Longrightarrow> fst (write_object B x d s) = Inr ()"
    and writes_ok: "inv s \<Longrightarrow> list_all (storable h) os \<Longrightarrow> fst (write_objects B os s) = Inr ()"
    and ref_ok: "inv s \<Longrightarrow> good_ref n \<Longrightarrow> ok (fst (read_ref B n s))"
    and cas_ok: "inv s \<Longrightarrow> good_ref n \<Longrightarrow> valid_oid x \<Longrightarrow> ok (fst (cas_ref B n e x s))"
    and list_ok: "inv s \<Longrightarrow> ok (fst (list_refs B ''refs/'' s))"
    and journal_ok: "inv s \<Longrightarrow> fst (append_journal B je s) = Inr ()"
    and write_config_ok: "inv s \<Longrightarrow> fst (write_config B c s) = Inr ()"
begin

lemma read_object_eq:
  assumes "inv s"
  shows "fst (read_object B x s) =
    (case objs s x of None \<Rightarrow> Inl (ObjectNotFound (oid_value x)) | Some d \<Rightarrow> Inr d)"
  using assms read_hit read_miss by (simp split: option.split)

lemma read_ref_eq:
  assumes "inv s" and "good_ref n"
  shows "fst (read_ref B n s) = Inr (refs s (normalize_ref n))"
proof -
  obtain r where r: "fst (read_ref B n s) = Inr r" using ref_ok [OF assms] by (auto simp: ok_iff)
  then show ?thesis using ref_sound [OF assms, of r "snd (read_ref B n s)"] by (simp add: prod_eq_iff)
qed

lemma cas_ref_eq:
  assumes "inv s" and "good_ref n" and "valid_oid x"
  shows "fst (cas_ref B n e x s) = Inr (refs s (normalize_ref n) = e)"
    and "refs (snd (cas_ref B n e x s)) =
      (if refs s (normalize_ref n) = e then (refs s)(normalize_ref n \<mapsto> x) else refs s)"
proof -
  obtain b t where bt: "cas_ref B n e x s = (Inr b, t)"
    using cas_ok [OF assms] by (metis ok_iff prod.collapse)
  note law = cas_sound [OF assms bt]
  show "fst (cas_ref B n e x s) = Inr (refs s (normalize_ref n) = e)"
    using law bt by simp
  show "refs (snd (cas_ref B n e x s)) =
      (if refs s (normalize_ref n) = e then (refs s)(normalize_ref n \<mapsto> x) else refs s)"
    using law bt by simp
qed

text \<open>An object written can be read back, as itself unless another object of the same hash was
  there before.\<close>

lemma write_then_read:
  assumes "inv s" and "storable h (x, d)"
  shows "\<exists>d'. fst (read_object B x (snd (write_object B x d s))) = Inr d' \<and> from_bytes h d' = x"
proof -
  let ?t = "snd (write_object B x d s)"
  have inv: "inv ?t" using write_grown [OF assms(1), of x d] by (simp add: grown_def)
  have "x \<in> dom (objs ?t)"
    using write_sound [OF assms(1), of x d "()" ?t] write_ok [OF assms] by (simp add: prod_eq_iff)
  then obtain d' where "objs ?t x = Some d'" by blast
  then show ?thesis using read_hit [OF inv] content [OF inv] by blast
qed

end

section \<open>The default methods keep the contract\<close>

lemma grown_refl: "good s \<Longrightarrow> grown good objs refs X s s"
  by (auto simp: grown_def)

lemma grown_trans:
  "grown good objs refs X s t \<Longrightarrow> grown good objs refs Y t u \<Longrightarrow> grown good objs refs (X \<union> Y) s u"
  unfolding grown_def by (elim conjE) (intro conjI; simp; blast)

lemma grown_mono: "grown good objs refs X s t \<Longrightarrow> X \<subseteq> Y \<Longrightarrow> grown good objs refs Y s t"
  by (auto simp: grown_def)

lemma same_grown: "same good objs refs s t \<Longrightarrow> grown good objs refs X s t"
  by (auto simp: grown_def same_def)

lemma same_refl: "good s \<Longrightarrow> same good objs refs s s"
  by (simp add: same_def)

lemma same_trans: "same good objs refs s t \<Longrightarrow> same good objs refs t u \<Longrightarrow> same good objs refs s u"
  by (simp add: same_def)

lemma default_writes_grown:
  assumes "\<And>x d s. good s \<Longrightarrow> grown good objs refs {x} s (snd (w x d s))" and "good s"
  shows "grown good objs refs (fst ` set os) s (snd (default_write_objects w os s))"
  using assms(2)
proof (induction os arbitrary: s)
  case (Cons p os)
  obtain x d where p: "p = (x, d)" by (cases p)
  obtain r t where rt: "w x d s = (r, t)" by (cases "w x d s")
  have g: "grown good objs refs {x} s t" using assms(1) [OF Cons.prems, of x d] rt by simp
  show ?case
  proof (cases r)
    case (Inl e)
    then show ?thesis using g p rt
      by (simp add: default_write_objects_def bindS_def grown_mono)
  next
    case (Inr u)
    have "grown good objs refs (fst ` set os) t (snd (default_write_objects w os t))"
      using g by (intro Cons.IH) (simp add: grown_def)
    then show ?thesis using grown_trans [OF g] Inr p rt
      by (simp add: default_write_objects_def bindS_def)
  qed
qed (simp add: default_write_objects_def grown_refl)

lemma default_writes_sound:
  assumes "\<And>x d s. good s \<Longrightarrow> grown good objs refs {x} s (snd (w x d s))"
    and "\<And>x d s u t. good s \<Longrightarrow> w x d s = (Inr u, t) \<Longrightarrow> x \<in> dom (objs t)"
    and "good s" and "default_write_objects w os s = (Inr u, t)"
  shows "fst ` set os \<subseteq> dom (objs t)"
  using assms(3,4)
proof (induction os arbitrary: s)
  case (Cons p os)
  obtain x d where p: "p = (x, d)" by (cases p)
  obtain v m where m: "w x d s = (Inr v, m)" and rest: "default_write_objects w os m = (Inr u, t)"
    using Cons.prems(2) p by (auto simp: default_write_objects_def)
  have good: "good m" using assms(1) [OF Cons.prems(1), of x d] m by (simp add: grown_def)
  have "x \<in> dom (objs m)" using assms(2) [OF Cons.prems(1) m] .
  moreover have "dom (objs m) \<subseteq> dom (objs t)"
    using default_writes_grown [where w = w, OF assms(1) good, of os] rest by (simp add: grown_def)
  ultimately show ?case using Cons.IH [OF good rest] p by auto
qed simp

lemma default_writes_ok:
  assumes "\<And>x d s. good s \<Longrightarrow> grown good objs refs {x} s (snd (w x d s))"
    and "\<And>x d s. good s \<Longrightarrow> storable h (x, d) \<Longrightarrow> fst (w x d s) = Inr ()"
    and "good s" and "list_all (storable h) os"
  shows "fst (default_write_objects w os s) = Inr ()"
  using assms(3,4)
proof (induction os arbitrary: s)
  case (Cons p os)
  obtain x d where p: "p = (x, d)" by (cases p)
  have m: "w x d s = (Inr (), snd (w x d s))"
    using assms(2) [OF Cons.prems(1), of x d] Cons.prems(2) p by (simp add: prod_eq_iff)
  have "good (snd (w x d s))" using assms(1) [OF Cons.prems(1), of x d] by (simp add: grown_def)
  then show ?case
    using Cons p m by (simp add: default_write_objects_def bindS_step(1) [where m = "w x d", OF m])
qed (simp add: default_write_objects_def)

lemma default_has_same:
  assumes "same good objs refs s (snd (r x s))"
  shows "same good objs refs s (snd (default_has_object r x s))"
  using assms by (cases "r x s"; cases "fst (r x s)") (auto simp: default_has_object_def catchS_def bindS_def)

lemma default_has_sound:
  assumes "fst (r x s) = (case objs s x of None \<Rightarrow> Inl (ObjectNotFound e) | Some d \<Rightarrow> Inr d)"
  shows "fst (default_has_object r x s) = Inr (x \<in> dom (objs s))"
  using assms by (cases "r x s") (auto simp: default_has_object_def catchS_def bindS_def split: option.splits)

section \<open>Stores built on the default methods\<close>

text \<open>Stores that inherit \<^verbatim>\<open>write_objects\<close> and \<^verbatim>\<open>has_object\<close> and whose reads neither fail nor change
  the store: the full contract follows from the laws of the single operations.\<close>

locale simple_backend =
  fixes h :: hash and B :: "'s Backend"
    and inv :: "'s \<Rightarrow> bool"
    and objs :: "'s \<Rightarrow> ObjectId \<Rightarrow> bytes option"
    and refs :: "'s \<Rightarrow> string \<Rightarrow> ObjectId option"
  assumes sb_content: "inv s \<Longrightarrow> objs s x = Some d \<Longrightarrow> from_bytes h d = x"
    and sb_read: "inv s \<Longrightarrow> read_object B x s =
        ((case objs s x of None \<Rightarrow> Inl (ObjectNotFound (oid_value x)) | Some d \<Rightarrow> Inr d), s)"
    and sb_writes: "write_objects B = default_write_objects (write_object B)"
    and sb_has: "has_object B = default_has_object (read_object B)"
    and sb_write_bad: "inv s \<Longrightarrow> from_bytes h d \<noteq> x \<Longrightarrow>
        write_object B x d s = (Inl (ValueError ''object id does not match object data''), s)"
    and sb_write_ok: "inv s \<Longrightarrow> from_bytes h d = x \<Longrightarrow> fst (write_object B x d s) = Inr () \<and>
        inv (snd (write_object B x d s)) \<and> refs (snd (write_object B x d s)) = refs s \<and>
        dom (objs (snd (write_object B x d s))) = insert x (dom (objs s))"
    and sb_ref: "inv s \<Longrightarrow> read_ref B n s = (Inr (refs s (normalize_ref n)), s)"
    and sb_cas: "inv s \<Longrightarrow> valid_oid x \<Longrightarrow> fst (cas_ref B n e x s) = Inr (refs s (normalize_ref n) = e) \<and>
        inv (snd (cas_ref B n e x s)) \<and> objs (snd (cas_ref B n e x s)) = objs s \<and>
        refs (snd (cas_ref B n e x s)) =
          (if refs s (normalize_ref n) = e then (refs s)(normalize_ref n \<mapsto> x) else refs s)"
    and sb_list: "inv s \<Longrightarrow> \<exists>rs. list_refs B ''refs/'' s = (Inr rs, s) \<and>
        (\<forall>rr. rr \<in> set rs \<longleftrightarrow>
          (\<exists>n x. rr = \<lparr>ref_name = n, ref_oid = Some x\<rparr> \<and> startswith n ''refs/'' \<and> refs s n = Some x))"
    and sb_list_same: "inv s \<Longrightarrow> same inv objs refs s (snd (list_refs B p s))"
    and sb_journal: "inv s \<Longrightarrow> fst (append_journal B je s) = Inr () \<and> same inv objs refs s (snd (append_journal B je s))"
    and sb_read_config: "inv s \<Longrightarrow> same inv objs refs s (snd (read_config B s))"
    and sb_write_config: "inv s \<Longrightarrow> fst (write_config B c s) = Inr () \<and> same inv objs refs s (snd (write_config B c s))"
begin

lemma sb_write_grown:
  assumes "inv s"
  shows "grown inv objs refs {x} s (snd (write_object B x d s))"
  using assms sb_write_ok [of s d x] sb_write_bad [of s d x]
  by (cases "from_bytes h d = x") (auto simp: grown_def)

lemma sb_write_sound:
  assumes "inv s" and "write_object B x d s = (Inr u, t)"
  shows "from_bytes h d = x \<and> x \<in> dom (objs t)"
  using assms sb_write_ok [of s d x] sb_write_bad [of s d x] by (cases "from_bytes h d = x") auto

lemma sb_cas_sound:
  assumes "inv s" and "good_ref n" and "valid_oid x" and "cas_ref B n e x s = (res, t)"
  shows "inv t \<and> objs t = objs s \<and>
        (case res of
           Inr b \<Rightarrow> b = (refs s (normalize_ref n) = e) \<and>
                    refs t = (if b then (refs s)(normalize_ref n \<mapsto> x) else refs s)
         | Inl _ \<Rightarrow> refs t = refs s \<or> (refs s (normalize_ref n) = e \<and> refs t = (refs s)(normalize_ref n \<mapsto> x)))"
  using sb_cas [OF assms(1,3), of n e] assms(4) by simp

lemma sb_has_eq:
  assumes "inv s"
  shows "fst (has_object B x s) = Inr (x \<in> dom (objs s))"
  unfolding sb_has by (rule default_has_sound [where e = "oid_value x"]) (simp add: sb_read assms)

end

sublocale simple_backend \<subseteq> backend
proof unfold_locales
  fix s x d t assume "inv s" "read_object B x s = (Inr d, t)"
  then show "x \<in> dom (objs s) \<and> from_bytes h d = x"
    using sb_content [of s x d] by (auto simp: sb_read split: option.splits)
next
  fix s x t assume "inv s" "has_object B x s = (Inr True, t)"
  then show "x \<in> dom (objs s)" using sb_has_eq [of s x] by simp
next
  fix s x assume "inv s"
  then show "same inv objs refs s (snd (has_object B x s))"
    unfolding sb_has by (intro default_has_same) (simp add: sb_read same_def)
next
  fix s os u t assume "inv s" "write_objects B os s = (Inr u, t)"
  then show "fst ` set os \<subseteq> dom (objs t)"
    unfolding sb_writes using sb_write_sound sb_write_grown
    by (intro default_writes_sound [of inv objs refs "write_object B" s os]) auto
next
  fix s os assume "inv s"
  then show "grown inv objs refs (fst ` set os) s (snd (write_objects B os s))"
    unfolding sb_writes using sb_write_grown by (intro default_writes_grown)
next
  fix s os assume "inv s" "list_all (storable h) os"
  then show "fst (write_objects B os s) = Inr ()"
    unfolding sb_writes using sb_write_grown sb_write_ok
    by (intro default_writes_ok [of inv objs refs "write_object B" h]) (auto simp: storable_def)
next
  fix s rs t rr assume "inv s" "list_refs B ''refs/'' s = (Inr rs, t)"
  then show "(rr \<in> set rs) = (\<exists>n x. rr = \<lparr>ref_name = n, ref_oid = Some x\<rparr> \<and>
      startswith n ''refs/'' \<and> refs s n = Some x)"
    using sb_list [of s] by auto
next
  fix s assume "inv s"
  then show "ok (fst (list_refs B ''refs/'' s))" using sb_list [of s] by auto
qed ((rule sb_content sb_write_sound sb_write_grown sb_cas_sound sb_list_same sb_has_eq; assumption) |
     simp add: sb_read sb_ref sb_journal sb_read_config sb_write_config sb_write_bad sb_write_ok
       sb_cas same_refl storable_def)+

end
