(* ===== verification/Memory.thy ===== *)
theory Memory
  imports Backend
begin

text \<open>
  \<^verbatim>\<open>src/trunks/backends/memory.py\<close>: the in-memory store, and the proof that it keeps the
  contract of the storage interface.
\<close>

record Memory =
  m_objects :: "(ObjectId, bytes) dict"
  m_refs :: ref_table
  m_journals :: "(string, JournalEntry) dict"
  m_config :: "json option"

definition memory_init :: Memory where
  "memory_init = \<lparr>m_objects = [], m_refs = [], m_journals = [], m_config = None\<rparr>"

definition memory_capabilities :: Capabilities where
  "memory_capabilities = \<lparr>cap_cas_refs = True, cap_locks = False, cap_journal = True,
     cap_list_prefix = True, cap_read_after_write_refs = True\<rparr>"

definition memory_read_object :: "ObjectId \<Rightarrow> (Memory, bytes) st" where
  "memory_read_object oid =
    getsS (\<lambda>m. case map_of (m_objects m) oid of None \<Rightarrow> Inl (ObjectNotFound (oid_value oid)) | Some d \<Rightarrow> Inr d)"

definition memory_write_object :: "hash \<Rightarrow> ObjectId \<Rightarrow> bytes \<Rightarrow> (Memory, unit) st" where
  "memory_write_object h oid data =
    (if from_bytes h data \<noteq> oid then raiseS (ValueError ''object id does not match object data'')
     else modifyS (m_objects_update (setdefault oid data)))"

definition memory_read_ref :: "string \<Rightarrow> (Memory, ObjectId option) st" where
  "memory_read_ref name = getsS (\<lambda>m. Inr (map_of (m_refs m) (normalize_ref name)))"

definition memory_cas_ref :: "string \<Rightarrow> ObjectId option \<Rightarrow> ObjectId \<Rightarrow> (Memory, bool) st" where
  "memory_cas_ref name expected new = (\<lambda>m.
    let normalized = normalize_ref name in
    if map_of (m_refs m) normalized \<noteq> expected then (Inr False, m)
    else (Inr True, m\<lparr>m_refs := AList.update normalized new (m_refs m)\<rparr>))"

definition memory_delete_ref :: "string \<Rightarrow> (Memory, unit) st" where
  "memory_delete_ref name = modifyS (m_refs_update (AList.delete (normalize_ref name)))"

definition memory_delete_object :: "ObjectId \<Rightarrow> (Memory, unit) st" where
  "memory_delete_object oid = modifyS (m_objects_update (AList.delete oid))"

definition memory_list_refs :: "string \<Rightarrow> (Memory, Ref list) st" where
  "memory_list_refs prefix = getsS (\<lambda>m.
    let normalized_prefix = (if prefix \<noteq> '''' then normalize_ref prefix else '''') in
    Inr (map (\<lambda>(name, oid). \<lparr>ref_name = name, ref_oid = Some oid\<rparr>)
      (filter (\<lambda>(name, oid). startswith name normalized_prefix) (sort (m_refs m)))))"

definition memory_append_journal :: "JournalEntry \<Rightarrow> (Memory, unit) st" where
  "memory_append_journal entry = modifyS (m_journals_update (setdefault (je_id entry) entry))"

definition memory_read_config :: "(Memory, json) st" where
  "memory_read_config = getsS (\<lambda>m. case m_config m of None \<Rightarrow> Inl (ObjectNotFound ''config'') | Some c \<Rightarrow> Inr c)"

definition memory_write_config :: "json \<Rightarrow> (Memory, unit) st" where
  "memory_write_config data = modifyS (m_config_update (\<lambda>_. Some data))"

definition memory_backend :: "hash \<Rightarrow> Memory Backend" where
  "memory_backend h = \<lparr>
     capabilities = memory_capabilities,
     read_object = memory_read_object,
     write_object = memory_write_object h,
     write_objects = default_write_objects (memory_write_object h),
     has_object = default_has_object memory_read_object,
     read_ref = memory_read_ref,
     cas_ref = memory_cas_ref,
     delete_ref = memory_delete_ref,
     delete_object = memory_delete_object,
     list_refs = memory_list_refs,
     append_journal = memory_append_journal,
     read_config = memory_read_config,
     write_config = memory_write_config\<rparr>"

lemmas memory_defs = memory_read_object_def memory_write_object_def memory_read_ref_def memory_cas_ref_def
  memory_list_refs_def memory_append_journal_def memory_read_config_def memory_write_config_def

section \<open>The contract\<close>

definition memory_inv :: "hash \<Rightarrow> Memory \<Rightarrow> bool" where
  "memory_inv h m \<longleftrightarrow> wf_dict (m_objects m) \<and> wf_dict (m_refs m) \<and>
     (\<forall>(x, d) \<in> set (m_objects m). from_bytes h d = x)"

abbreviation memory_objs :: "Memory \<Rightarrow> ObjectId \<Rightarrow> bytes option" where
  "memory_objs m \<equiv> map_of (m_objects m)"

abbreviation memory_refs :: "Memory \<Rightarrow> string \<Rightarrow> ObjectId option" where
  "memory_refs m \<equiv> map_of (m_refs m)"

lemma memory_inv_init [simp]: "memory_inv h memory_init"
  by (simp add: memory_inv_def memory_init_def)

lemma memory_write_ok:
  assumes "memory_inv h m" and "from_bytes h d = x"
  shows "memory_inv h (m_objects_update (setdefault x d) m)"
    and "dom (map_of (setdefault x d (m_objects m))) = insert x (dom (memory_objs m))"
  using assms
  by (auto simp: memory_inv_def setdefault_def wf_dict_def map_of_eq_None_iff split: option.split)

lemma memory_list_refs_set:
  assumes "memory_inv h m"
  shows "\<exists>rs. memory_list_refs ''refs/'' m = (Inr rs, m) \<and>
    (\<forall>rr. rr \<in> set rs \<longleftrightarrow>
      (\<exists>n x. rr = \<lparr>ref_name = n, ref_oid = Some x\<rparr> \<and> startswith n ''refs/'' \<and> memory_refs m n = Some x))"
  using assms by (auto simp: memory_list_refs_def memory_inv_def wf_dict_map_of_iff)

interpretation memory: simple_backend h "memory_backend h" "memory_inv h" memory_objs memory_refs
  for h
proof unfold_locales
  fix s x and d :: bytes
  assume "memory_inv h s" "memory_objs s x = Some d"
  then show "from_bytes h d = x" by (auto simp: memory_inv_def dest: map_of_SomeD)
next
  fix s x d
  assume inv: "memory_inv h s" and d: "from_bytes h d = x"
  show "fst (write_object (memory_backend h) x d s) = Inr () \<and>
    memory_inv h (snd (write_object (memory_backend h) x d s)) \<and>
    memory_refs (snd (write_object (memory_backend h) x d s)) = memory_refs s \<and>
    dom (memory_objs (snd (write_object (memory_backend h) x d s))) = insert x (dom (memory_objs s))"
    using memory_write_ok [OF inv d] d by (simp add: memory_backend_def memory_write_object_def)
next
  fix s n e x
  assume "memory_inv h s"
  then show "fst (cas_ref (memory_backend h) n e x s) = Inr (memory_refs s (normalize_ref n) = e) \<and>
    memory_inv h (snd (cas_ref (memory_backend h) n e x s)) \<and>
    memory_objs (snd (cas_ref (memory_backend h) n e x s)) = memory_objs s \<and>
    memory_refs (snd (cas_ref (memory_backend h) n e x s)) =
      (if memory_refs s (normalize_ref n) = e then (memory_refs s)(normalize_ref n \<mapsto> x) else memory_refs s)"
    by (auto simp: memory_backend_def memory_cas_ref_def Let_def memory_inv_def fun_eq_iff)
next
  fix s
  assume "memory_inv h s"
  then show "\<exists>rs. list_refs (memory_backend h) ''refs/'' s = (Inr rs, s) \<and>
    (\<forall>rr. rr \<in> set rs \<longleftrightarrow>
      (\<exists>n x. rr = \<lparr>ref_name = n, ref_oid = Some x\<rparr> \<and> startswith n ''refs/'' \<and> memory_refs s n = Some x))"
    using memory_list_refs_set by (simp add: memory_backend_def)
qed (simp_all add: memory_backend_def memory_defs same_def memory_inv_def)

end
