(* ===== verification/SQLite.thy ===== *)
theory SQLite
  imports Backend
begin

text \<open>
  \<^verbatim>\<open>src/trunks/backends/sqlite.py\<close>: one database file shared by many trunks. A table is a
  dictionary from its primary key; \<^verbatim>\<open>insert or ignore\<close> is \<^const>\<open>setdefault\<close>, the upsert is
  \<^const>\<open>AList.update\<close>, \<^verbatim>\<open>order by name\<close> sorts by the bytes of the name. Every statement runs in a
  transaction of its own, and the swap in one immediate transaction, so each operation is one
  step. \<^verbatim>\<open>like\<close> is SQLite's: \<^verbatim>\<open>%\<close> and \<^verbatim>\<open>_\<close> are wildcards and ASCII letters match in either case.
\<close>

section \<open>Tables and statements\<close>

record SqliteDb =
  sq_objects :: "(string \<times> string, bytes) dict"
  sq_refs :: "(string \<times> string, string) dict"
  sq_journals :: "(string \<times> string, string) dict"
  sq_config :: "(string \<times> string, string) dict"

definition sqlite_init :: SqliteDb where
  "sqlite_init = \<lparr>sq_objects = [], sq_refs = [], sq_journals = [], sq_config = []\<rparr>"

definition fold_case :: "string \<Rightarrow> string" where
  "fold_case s = map (\<lambda>c. if 65 \<le> ordc c \<and> ordc c \<le> 90 then chrn (ordc c + 32) else c) s"

fun like_match :: "string list \<Rightarrow> string list \<Rightarrow> bool" where
  "like_match [] xs = (xs = [])"
| "like_match (p # ps) xs =
    (if p = ''%'' then list_ex (\<lambda>i. like_match ps (drop i xs)) [0..<Suc (length xs)]
     else (case xs of [] \<Rightarrow> False
       | x # xs' \<Rightarrow> (p = ''_'' \<or> fold_case p = fold_case x) \<and> like_match ps xs'))"

text \<open>The characters as SQLite reads them: a byte below 0xC0 alone, any other with the continuation
  bytes after it.\<close>

function sql_chars :: "string \<Rightarrow> string list" where
  "sql_chars [] = []"
| "sql_chars (c # s) =
    (if ordc c < 192 then [c] # sql_chars s
     else (c # takeWhile (\<lambda>x. cont_byte (ordc x)) s) # sql_chars (dropWhile (\<lambda>x. cont_byte (ordc x)) s))"
  by pat_completeness auto
termination
  by (relation "measure length") (auto simp: le_imp_less_Suc length_dropWhile_le)

definition sql_like :: "string \<Rightarrow> string \<Rightarrow> bool" where
  "sql_like name pattern = like_match (sql_chars pattern) (sql_chars name)"

section \<open>Operations\<close>

definition sqlite_read_object :: "string \<Rightarrow> ObjectId \<Rightarrow> (SqliteDb, bytes) st" where
  "sqlite_read_object trunk oid = getsS (\<lambda>db.
    case map_of (sq_objects db) (trunk, oid_value oid) of
      None \<Rightarrow> Inl (ObjectNotFound (oid_value oid)) | Some d \<Rightarrow> Inr d)"

definition sqlite_write_object :: "hash \<Rightarrow> string \<Rightarrow> ObjectId \<Rightarrow> bytes \<Rightarrow> (SqliteDb, unit) st" where
  "sqlite_write_object h trunk oid data =
    (if from_bytes h data \<noteq> oid then raiseS (ValueError ''object id does not match object data'')
     else modifyS (sq_objects_update (setdefault (trunk, oid_value oid) data)))"

definition sqlite_read_ref :: "string \<Rightarrow> string \<Rightarrow> (SqliteDb, ObjectId option) st" where
  "sqlite_read_ref trunk name = getsS (\<lambda>db.
    case map_of (sq_refs db) (trunk, normalize_ref name) of
      None \<Rightarrow> Inr None
    | Some v \<Rightarrow> bindR (mk_ObjectId v) (\<lambda>x. Inr (Some x)))"

definition sqlite_cas_ref_sync ::
  "string \<Rightarrow> string \<Rightarrow> ObjectId option \<Rightarrow> ObjectId \<Rightarrow> (SqliteDb, bool) st" where
  "sqlite_cas_ref_sync trunk name expected new = (\<lambda>db.
    case (case map_of (sq_refs db) (trunk, name) of
            None \<Rightarrow> Inr None | Some v \<Rightarrow> bindR (mk_ObjectId v) (\<lambda>x. Inr (Some x))) of
      Inl e \<Rightarrow> (Inl e, db)
    | Inr current \<Rightarrow>
      if current \<noteq> expected then (Inr False, db)
      else (Inr True, sq_refs_update (AList.update (trunk, name) (oid_value new)) db))"

definition sqlite_cas_ref ::
  "string \<Rightarrow> string \<Rightarrow> ObjectId option \<Rightarrow> ObjectId \<Rightarrow> (SqliteDb, bool) st" where
  "sqlite_cas_ref trunk name expected new = sqlite_cas_ref_sync trunk (normalize_ref name) expected new"

definition sqlite_delete_ref :: "string \<Rightarrow> string \<Rightarrow> (SqliteDb, unit) st" where
  "sqlite_delete_ref trunk name = modifyS (sq_refs_update (AList.delete (trunk, normalize_ref name)))"

definition sqlite_delete_object :: "string \<Rightarrow> ObjectId \<Rightarrow> (SqliteDb, unit) st" where
  "sqlite_delete_object trunk oid = modifyS (sq_objects_update (AList.delete (trunk, oid_value oid)))"

definition sqlite_list_refs :: "string \<Rightarrow> string \<Rightarrow> (SqliteDb, Ref list) st" where
  "sqlite_list_refs trunk prefix = getsS (\<lambda>db.
    let normalized_prefix = (if prefix \<noteq> '''' then normalize_ref prefix else '''');
        rows = sort_key fst (map (\<lambda>((t, name), oid). (name, oid))
          (filter (\<lambda>((t, name), oid). t = trunk \<and> sql_like name (normalized_prefix @ ''%'')) (sq_refs db)))
    in mapR (\<lambda>(name, oid). bindR (mk_ObjectId oid) (\<lambda>x. Inr \<lparr>ref_name = name, ref_oid = Some x\<rparr>)) rows)"

definition sqlite_append_journal :: "(json \<Rightarrow> string) \<Rightarrow> string \<Rightarrow> JournalEntry \<Rightarrow> (SqliteDb, unit) st" where
  "sqlite_append_journal orjson_dumps trunk entry =
    modifyS (sq_journals_update (setdefault (trunk, je_id entry) (journal_to_json orjson_dumps entry)))"

definition sqlite_read_config :: "string \<Rightarrow> (SqliteDb, json) st" where
  "sqlite_read_config trunk = getsS (\<lambda>db.
    case map_of (sq_config db) (trunk, ''storage'') of
      None \<Rightarrow> Inl (ObjectNotFound ''config'') | Some t \<Rightarrow> loads t)"

definition sqlite_write_config :: "string \<Rightarrow> json \<Rightarrow> (SqliteDb, unit) st" where
  "sqlite_write_config trunk data =
    modifyS (sq_config_update (AList.update (trunk, ''storage'') (dumps spaced (sort_keys data))))"

definition sqlite_capabilities :: Capabilities where
  "sqlite_capabilities = \<lparr>cap_cas_refs = True, cap_locks = False, cap_journal = True,
     cap_list_prefix = True, cap_read_after_write_refs = True\<rparr>"

definition sqlite_backend :: "hash \<Rightarrow> (json \<Rightarrow> string) \<Rightarrow> string \<Rightarrow> SqliteDb Backend" where
  "sqlite_backend h orjson_dumps trunk = \<lparr>
     capabilities = sqlite_capabilities,
     read_object = sqlite_read_object trunk,
     write_object = sqlite_write_object h trunk,
     write_objects = default_write_objects (sqlite_write_object h trunk),
     has_object = default_has_object (sqlite_read_object trunk),
     read_ref = sqlite_read_ref trunk,
     cas_ref = sqlite_cas_ref trunk,
     delete_ref = sqlite_delete_ref trunk,
     delete_object = sqlite_delete_object trunk,
     list_refs = sqlite_list_refs trunk,
     append_journal = sqlite_append_journal orjson_dumps trunk,
     read_config = sqlite_read_config trunk,
     write_config = sqlite_write_config trunk\<rparr>"

text \<open>\<^verbatim>\<open>_split_sqlite_url\<close>; the first component is the text given to \<^verbatim>\<open>Path\<close>.\<close>

definition split_sqlite_url :: "string \<Rightarrow> (string \<times> string) res" where
  "split_sqlite_url value =
    (let raw0 = (if startswith value ''sqlite://'' then drop (length ''sqlite://'') value else value);
         raw1 = lstrip_by (\<lambda>c. c = SLASH) raw0
     in bindR
       (case rsplit1 ''#'' raw1 of
          Some p \<Rightarrow> Inr p
        | None \<Rightarrow>
          (case rsplit1 ''/'' raw1 of
             None \<Rightarrow> Inl (ValueError ''sqlite URL must include a trunk segment'')
           | Some (path_part, trunk) \<Rightarrow>
             if \<not> endswith path_part ''.db'' \<and> \<not> endswith path_part ''.sqlite'' \<and> \<not> endswith path_part ''.sqlite3''
             then Inl (ValueError ''sqlite URL must point at a .db file with a trunk segment'')
             else Inr (path_part, trunk)))
       (\<lambda>(path_part, trunk).
          if path_part = '''' \<or> trunk = ''''
          then Inl (ValueError ''sqlite URL must include both a database path and a trunk segment'')
          else Inr (if \<not> startswith path_part ''/'' then ''/'' @ path_part else path_part, trunk)))"

section \<open>The contract\<close>

definition normalized_name :: "string \<Rightarrow> bool" where
  "normalized_name n \<longleftrightarrow> n = ''HEAD'' \<or> n = '''' \<or> startswith n ''refs/''"

definition sqlite_inv :: "hash \<Rightarrow> string \<Rightarrow> SqliteDb \<Rightarrow> bool" where
  "sqlite_inv h trunk db \<longleftrightarrow> wf_dict (sq_objects db) \<and> wf_dict (sq_refs db) \<and>
     (\<forall>((t, o'), d) \<in> set (sq_objects db). t = trunk \<longrightarrow> from_bytes h d = ObjectId o') \<and>
     (\<forall>((t, n), v) \<in> set (sq_refs db). t = trunk \<longrightarrow> normalized_name n \<and> valid_oid_str v)"

definition sqlite_objs :: "string \<Rightarrow> SqliteDb \<Rightarrow> ObjectId \<Rightarrow> bytes option" where
  "sqlite_objs trunk db x = map_of (sq_objects db) (trunk, oid_value x)"

definition sqlite_refs :: "string \<Rightarrow> SqliteDb \<Rightarrow> string \<Rightarrow> ObjectId option" where
  "sqlite_refs trunk db n = map_option ObjectId (map_of (sq_refs db) (trunk, n))"

lemmas sqlite_defs = sqlite_read_object_def sqlite_write_object_def sqlite_read_ref_def sqlite_cas_ref_def
  sqlite_cas_ref_sync_def sqlite_append_journal_def sqlite_read_config_def sqlite_write_config_def
  sqlite_objs_def sqlite_refs_def

lemma sqlite_inv_init [simp]: "sqlite_inv h trunk sqlite_init"
  by (simp add: sqlite_inv_def sqlite_init_def)

lemma normalized_normalize_ref [simp]: "normalized_name (normalize_ref n)"
  using normalize_ref_prefix [of n] by (auto simp: normalized_name_def)

lemma sqlite_ref_valid:
  assumes "sqlite_inv h trunk db" and "map_of (sq_refs db) (trunk, n) = Some v"
  shows "valid_oid_str v" and "normalized_name n"
  using assms by (auto simp: sqlite_inv_def dest!: map_of_SomeD)

lemma sqlite_inv_cas:
  assumes "sqlite_inv h trunk db" and "valid_oid x"
  shows "sqlite_inv h trunk (sq_refs_update (AList.update (trunk, normalize_ref n) (oid_value x)) db)"
proof -
  have "set (AList.update k v d) \<subseteq> insert (k, v) (set d)" for k :: "string \<times> string" and v :: string and d
    by (induction d) auto
  from this [of "(trunk, normalize_ref n)" "oid_value x" "sq_refs db"] show ?thesis
    using assms by (auto simp: sqlite_inv_def valid_oid_def)
qed

lemma sqlite_inv_write:
  assumes "sqlite_inv h trunk db" and "from_bytes h d = x"
  shows "sqlite_inv h trunk (sq_objects_update (setdefault (trunk, oid_value x) d) db)"
  using assms by (auto simp: sqlite_inv_def setdefault_def wf_dict_def map_of_eq_None_iff split: option.split)

lemma list_ex_drop_all: "list_ex (\<lambda>i. drop i xs = []) [0..<Suc (length xs)]"
  by (auto simp: list_ex_iff)

lemma like_refs_prefix:
  assumes "normalized_name n"
  shows "sql_like n ''refs/%'' \<longleftrightarrow> startswith n ''refs/''"
proof (cases "startswith n ''refs/''")
  case True
  then obtain r where "n = ''refs/'' @ r" by (auto simp: startswith_iff)
  then show ?thesis using list_ex_drop_all [of "sql_chars r"] by (simp add: sql_like_def ordc_def)
next
  case False
  then have "n = ''HEAD'' \<or> n = ''''" using assms by (auto simp: normalized_name_def)
  then show ?thesis using False by (auto simp: sql_like_def ordc_def fold_case_def)
qed

lemma sqlite_list_refs_set:
  assumes "sqlite_inv h trunk db"
  shows "\<exists>rs. sqlite_list_refs trunk ''refs/'' db = (Inr rs, db) \<and>
    (\<forall>rr. rr \<in> set rs \<longleftrightarrow>
      (\<exists>n x. rr = \<lparr>ref_name = n, ref_oid = Some x\<rparr> \<and> startswith n ''refs/'' \<and> sqlite_refs trunk db n = Some x))"
proof -
  let ?rows = "sort_key fst (map (\<lambda>((t, name), oid). (name, oid))
    (filter (\<lambda>((t, name), oid). t = trunk \<and> sql_like name ''refs/%'') (sq_refs db)))"
  let ?f = "\<lambda>(name, oid). bindR (mk_ObjectId oid) (\<lambda>x. Inr \<lparr>ref_name = name, ref_oid = Some x\<rparr>)"
  let ?g = "\<lambda>(name, oid). \<lparr>ref_name = name, ref_oid = Some (ObjectId oid)\<rparr>"
  have rows: "(n, v) \<in> set ?rows \<longleftrightarrow> startswith n ''refs/'' \<and> map_of (sq_refs db) (trunk, n) = Some v" for n v
  proof -
    have "(n, v) \<in> set ?rows \<longleftrightarrow> sql_like n ''refs/%'' \<and> map_of (sq_refs db) (trunk, n) = Some v"
      using assms by (force simp: sqlite_inv_def wf_dict_map_of_iff image_iff)
    then show ?thesis using sqlite_ref_valid(2) [OF assms] like_refs_prefix by blast
  qed
  have "mapR ?f ?rows = Inr (map ?g ?rows)"
    using rows sqlite_ref_valid(1) [OF assms] by (intro mapR_all_Inr) (auto simp del: set_sort)
  moreover have "rr \<in> set (map ?g ?rows) \<longleftrightarrow>
      (\<exists>n x. rr = \<lparr>ref_name = n, ref_oid = Some x\<rparr> \<and> startswith n ''refs/'' \<and> sqlite_refs trunk db n = Some x)" for rr
  proof -
    have "rr \<in> set (map ?g rows) \<longleftrightarrow>
        (\<exists>n v. (n, v) \<in> set rows \<and> rr = \<lparr>ref_name = n, ref_oid = Some (ObjectId v)\<rparr>)" for rows
      by force
    from this [of ?rows] show ?thesis unfolding rows sqlite_refs_def by auto
  qed
  ultimately show ?thesis by (simp add: sqlite_list_refs_def)
qed

interpretation sqlite: simple_backend h "sqlite_backend h od trunk" "sqlite_inv h trunk"
    "sqlite_objs trunk" "sqlite_refs trunk"
  for h od trunk
proof unfold_locales
  fix s x d assume "sqlite_inv h trunk s" "sqlite_objs trunk s x = Some d"
  then show "from_bytes h d = x" by (cases x) (auto simp: sqlite_inv_def sqlite_objs_def dest!: map_of_SomeD)
next
  fix s x d assume inv: "sqlite_inv h trunk s" and d: "from_bytes h d = x"
  have "dom (\<lambda>x. map_of (setdefault (trunk, oid_value y) d (sq_objects s)) (trunk, oid_value x)) =
      insert y (dom (\<lambda>x. map_of (sq_objects s) (trunk, oid_value x)))" for y
    by (auto simp: map_of_setdefault ObjectId.expand split: option.splits if_splits)
  then show "fst (write_object (sqlite_backend h od trunk) x d s) = Inr () \<and>
    sqlite_inv h trunk (snd (write_object (sqlite_backend h od trunk) x d s)) \<and>
    sqlite_refs trunk (snd (write_object (sqlite_backend h od trunk) x d s)) = sqlite_refs trunk s \<and>
    dom (sqlite_objs trunk (snd (write_object (sqlite_backend h od trunk) x d s))) =
      insert x (dom (sqlite_objs trunk s))"
    using sqlite_inv_write [OF inv d] d
    by (simp add: sqlite_backend_def sqlite_write_object_def sqlite_objs_def [abs_def] sqlite_refs_def [abs_def])
next
  fix s n assume inv: "sqlite_inv h trunk s"
  then show "read_ref (sqlite_backend h od trunk) n s = (Inr (sqlite_refs trunk s (normalize_ref n)), s)"
    using sqlite_ref_valid(1) [OF inv]
    by (auto simp: sqlite_backend_def sqlite_read_ref_def sqlite_refs_def split: option.split)
next
  fix s n e x assume inv: "sqlite_inv h trunk s" and x: "valid_oid x"
  then show "fst (cas_ref (sqlite_backend h od trunk) n e x s) = Inr (sqlite_refs trunk s (normalize_ref n) = e) \<and>
    sqlite_inv h trunk (snd (cas_ref (sqlite_backend h od trunk) n e x s)) \<and>
    sqlite_objs trunk (snd (cas_ref (sqlite_backend h od trunk) n e x s)) = sqlite_objs trunk s \<and>
    sqlite_refs trunk (snd (cas_ref (sqlite_backend h od trunk) n e x s)) =
      (if sqlite_refs trunk s (normalize_ref n) = e
       then (sqlite_refs trunk s)(normalize_ref n \<mapsto> x) else sqlite_refs trunk s)"
    using sqlite_ref_valid(1) [OF inv] sqlite_inv_cas [OF inv x]
    by (auto simp: sqlite_backend_def sqlite_cas_ref_def sqlite_cas_ref_sync_def sqlite_refs_def sqlite_objs_def
        fun_eq_iff split: option.split)
next
  fix s assume "sqlite_inv h trunk s"
  then show "\<exists>rs. list_refs (sqlite_backend h od trunk) ''refs/'' s = (Inr rs, s) \<and>
    (\<forall>rr. rr \<in> set rs \<longleftrightarrow>
      (\<exists>n x. rr = \<lparr>ref_name = n, ref_oid = Some x\<rparr> \<and> startswith n ''refs/'' \<and> sqlite_refs trunk s n = Some x))"
    using sqlite_list_refs_set by (simp add: sqlite_backend_def)
qed (simp_all add: sqlite_backend_def sqlite_defs sqlite_list_refs_def same_def sqlite_inv_def
      fun_eq_iff split: option.split)

end
