(* ===== verification/Postgres.thy ===== *)
theory Postgres
  imports SQLite
begin

text \<open>
  \<^verbatim>\<open>src/trunks/backends/postgres.py\<close>: many trunks in one PostgreSQL database. The four tables are those of the
  SQLite backend (theory \<open>SQLite\<close>), and so are the statements: \<^verbatim>\<open>on conflict do nothing\<close> is the insert that
  keeps an existing row, \<^verbatim>\<open>on conflict do update\<close> the upsert. The swap runs in a transaction under an advisory
  lock on the name, and each operation is one step. Two things differ: \<^verbatim>\<open>like\<close> distinguishes upper and lower
  case and has the escape character, and \<^verbatim>\<open>order by\<close> follows the collation of the database, which is the
  argument \<open>collate\<close>.
\<close>

type_synonym PostgresDb = SqliteDb

definition pg_read_object :: "string \<Rightarrow> ObjectId \<Rightarrow> (PostgresDb, bytes) st" where
  "pg_read_object trunk oid = getsS (\<lambda>db.
    case map_of (sq_objects db) (trunk, oid_value oid) of
      None \<Rightarrow> Inl (ObjectNotFound (oid_value oid)) | Some d \<Rightarrow> Inr d)"

definition pg_write_object :: "hash \<Rightarrow> string \<Rightarrow> ObjectId \<Rightarrow> bytes \<Rightarrow> (PostgresDb, unit) st" where
  "pg_write_object h trunk oid data =
    (if from_bytes h data \<noteq> oid then raiseS (ValueError ''object id does not match object data'')
     else modifyS (sq_objects_update (setdefault (trunk, oid_value oid) data)))"

definition pg_current :: "string \<Rightarrow> string \<Rightarrow> PostgresDb \<Rightarrow> ObjectId option res" where
  "pg_current trunk ref db =
    (case map_of (sq_refs db) (trunk, ref) of None \<Rightarrow> Inr None | Some v \<Rightarrow> bindR (mk_ObjectId v) (\<lambda>x. Inr (Some x)))"

definition pg_read_ref :: "string \<Rightarrow> string \<Rightarrow> (PostgresDb, ObjectId option) st" where
  "pg_read_ref trunk name = getsS (pg_current trunk (normalize_ref name))"

definition pg_cas_ref :: "string \<Rightarrow> string \<Rightarrow> ObjectId option \<Rightarrow> ObjectId \<Rightarrow> (PostgresDb, bool) st" where
  "pg_cas_ref trunk name expected new =
    bindS (getsS (pg_current trunk (normalize_ref name))) (\<lambda>current.
    if current \<noteq> expected then returnS False
    else bindS (modifyS (sq_refs_update (AList.update (trunk, normalize_ref name) (oid_value new)))) (\<lambda>_. returnS True))"

definition pg_delete_ref :: "string \<Rightarrow> string \<Rightarrow> (PostgresDb, unit) st" where
  "pg_delete_ref trunk name = modifyS (sq_refs_update (AList.delete (trunk, normalize_ref name)))"

definition pg_delete_object :: "string \<Rightarrow> ObjectId \<Rightarrow> (PostgresDb, unit) st" where
  "pg_delete_object trunk oid = modifyS (sq_objects_update (AList.delete (trunk, oid_value oid)))"

fun pg_match :: "string list \<Rightarrow> string list \<Rightarrow> bool" where
  "pg_match [] xs \<longleftrightarrow> xs = []"
| "pg_match (p # ps) xs \<longleftrightarrow>
    (if p = ''%'' then list_ex (\<lambda>i. pg_match ps (drop i xs)) [0..<Suc (length xs)]
     else if p = [CHR 0x5C] then
       (case (ps, xs) of (q # qs, x # xs') \<Rightarrow> q = x \<and> pg_match qs xs' | _ \<Rightarrow> False)
     else (case xs of [] \<Rightarrow> False | x # xs' \<Rightarrow> (p = ''_'' \<or> p = x) \<and> pg_match ps xs'))"

definition pg_like :: "string \<Rightarrow> string \<Rightarrow> bool" where
  "pg_like name pattern = pg_match (sql_chars pattern) (sql_chars name)"

definition pg_list_refs :: "((string \<times> string) list \<Rightarrow> (string \<times> string) list) \<Rightarrow> string \<Rightarrow> string \<Rightarrow> (PostgresDb, Ref list) st" where
  "pg_list_refs collate trunk pre = getsS (\<lambda>db.
    let normalized_prefix = (if pre \<noteq> [] then normalize_ref pre else []);
        rows = collate (map (\<lambda>((t, name), oid). (name, oid))
          (filter (\<lambda>((t, name), oid). t = trunk \<and> pg_like name (normalized_prefix @ ''%'')) (sq_refs db)))
    in mapR (\<lambda>(name, oid). bindR (mk_ObjectId oid) (\<lambda>x. Inr \<lparr>ref_name = name, ref_oid = Some x\<rparr>)) rows)"

definition pg_append_journal :: "(json \<Rightarrow> string) \<Rightarrow> string \<Rightarrow> JournalEntry \<Rightarrow> (PostgresDb, unit) st" where
  "pg_append_journal orjson_dumps trunk entry =
    modifyS (sq_journals_update (setdefault (trunk, je_id entry) (journal_to_json orjson_dumps entry)))"

definition pg_read_config :: "string \<Rightarrow> (PostgresDb, json) st" where
  "pg_read_config trunk = getsS (\<lambda>db.
    case map_of (sq_config db) (trunk, ''storage'') of None \<Rightarrow> Inl (ObjectNotFound ''config'') | Some t \<Rightarrow> loads t)"

definition pg_write_config :: "string \<Rightarrow> json \<Rightarrow> (PostgresDb, unit) st" where
  "pg_write_config trunk data =
    modifyS (sq_config_update (AList.update (trunk, ''storage'') (dumps spaced (sort_keys data))))"

definition pg_backend :: "hash \<Rightarrow> (json \<Rightarrow> string) \<Rightarrow> ((string \<times> string) list \<Rightarrow> (string \<times> string) list) \<Rightarrow> string \<Rightarrow> PostgresDb Backend" where
  "pg_backend h orjson_dumps collate trunk = \<lparr>
     capabilities = sqlite_capabilities,
     read_object = pg_read_object trunk,
     write_object = pg_write_object h trunk,
     write_objects = default_write_objects (pg_write_object h trunk),
     has_object = default_has_object (pg_read_object trunk),
     read_ref = pg_read_ref trunk,
     cas_ref = pg_cas_ref trunk,
     delete_ref = pg_delete_ref trunk,
     delete_object = pg_delete_object trunk,
     list_refs = pg_list_refs collate trunk,
     append_journal = pg_append_journal orjson_dumps trunk,
     read_config = pg_read_config trunk,
     write_config = pg_write_config trunk\<rparr>"

section \<open>The contract\<close>

lemma pg_read_object_eq [simp]: "pg_read_object = sqlite_read_object"
  by (simp add: fun_eq_iff pg_read_object_def sqlite_read_object_def)

lemma pg_write_object_eq [simp]: "pg_write_object = sqlite_write_object"
  by (simp add: fun_eq_iff pg_write_object_def sqlite_write_object_def)

lemma pg_read_ref_eq [simp]: "pg_read_ref = sqlite_read_ref"
  by (simp add: fun_eq_iff pg_read_ref_def sqlite_read_ref_def pg_current_def [abs_def])

lemma pg_cas_ref_eq [simp]: "pg_cas_ref = sqlite_cas_ref"
  by (simp add: fun_eq_iff pg_cas_ref_def sqlite_cas_ref_def sqlite_cas_ref_sync_def pg_current_def bindS_def getsS_def modifyS_def returnS_def
      split: sum.split)

lemma pg_like_refs:
  assumes "normalized_name n"
  shows "pg_like n ''refs/%'' \<longleftrightarrow> startswith n ''refs/''"
proof (cases "startswith n ''refs/''")
  case True
  then obtain r where "n = ''refs/'' @ r" by (auto simp: startswith_iff)
  then show ?thesis using list_ex_drop_all [of "sql_chars r"] by (simp add: pg_like_def ordc_def)
next
  case False
  then have "n = ''HEAD'' \<or> n = ''''" using assms by (auto simp: normalized_name_def)
  then show ?thesis using False by (auto simp: pg_like_def ordc_def)
qed

lemma pg_list_refs_set:
  assumes inv: "sqlite_inv h trunk db" and order: "\<And>xs. set (collate xs) = set xs"
  shows "\<exists>rs. pg_list_refs collate trunk ''refs/'' db = (Inr rs, db) \<and>
    (\<forall>rr. rr \<in> set rs \<longleftrightarrow>
      (\<exists>n x. rr = \<lparr>ref_name = n, ref_oid = Some x\<rparr> \<and> startswith n ''refs/'' \<and> sqlite_refs trunk db n = Some x))"
proof -
  let ?rows = "collate (map (\<lambda>((t, name), oid). (name, oid)) (filter (\<lambda>((t, name), oid). t = trunk \<and> pg_like name ''refs/%'') (sq_refs db)))"
  let ?f = "\<lambda>(name, oid). bindR (mk_ObjectId oid) (\<lambda>x. Inr \<lparr>ref_name = name, ref_oid = Some x\<rparr>)"
  let ?g = "\<lambda>(name, oid). \<lparr>ref_name = name, ref_oid = Some (ObjectId oid)\<rparr>"
  have rows: "(n, v) \<in> set ?rows \<longleftrightarrow> startswith n ''refs/'' \<and> map_of (sq_refs db) (trunk, n) = Some v" for n v
  proof -
    have "(n, v) \<in> set ?rows \<longleftrightarrow> pg_like n ''refs/%'' \<and> map_of (sq_refs db) (trunk, n) = Some v"
      using inv unfolding order by (force simp: sqlite_inv_def wf_dict_map_of_iff image_iff)
    then show ?thesis using sqlite_ref_valid(2) [OF inv] pg_like_refs by blast
  qed
  have "mapR ?f ?rows = Inr (map ?g ?rows)"
    using rows sqlite_ref_valid(1) [OF inv] by (intro mapR_all_Inr) auto
  moreover have "rr \<in> set (map ?g ?rows) \<longleftrightarrow>
      (\<exists>n x. rr = \<lparr>ref_name = n, ref_oid = Some x\<rparr> \<and> startswith n ''refs/'' \<and> sqlite_refs trunk db n = Some x)" for rr
  proof -
    have "rr \<in> set (map ?g rows) \<longleftrightarrow> (\<exists>n v. (n, v) \<in> set rows \<and> rr = \<lparr>ref_name = n, ref_oid = Some (ObjectId v)\<rparr>)" for rows
      by force
    from this [of ?rows] show ?thesis unfolding rows sqlite_refs_def by auto
  qed
  ultimately show ?thesis by (simp add: pg_list_refs_def)
qed

lemma pg_backend_eq: "pg_backend h od collate trunk = (sqlite_backend h od trunk)\<lparr>list_refs := pg_list_refs collate trunk\<rparr>"
  by (simp add: pg_backend_def sqlite_backend_def fun_eq_iff pg_delete_ref_def sqlite_delete_ref_def pg_delete_object_def sqlite_delete_object_def
      pg_append_journal_def sqlite_append_journal_def pg_read_config_def sqlite_read_config_def pg_write_config_def sqlite_write_config_def)

text \<open>The backend keeps the contract, for every order that loses no row; here for the one of SQLite.\<close>

lemma list_refs_fields:
  "read_object (B\<lparr>list_refs := f\<rparr>) = read_object B" "write_object (B\<lparr>list_refs := f\<rparr>) = write_object B"
  "write_objects (B\<lparr>list_refs := f\<rparr>) = write_objects B" "has_object (B\<lparr>list_refs := f\<rparr>) = has_object B"
  "read_ref (B\<lparr>list_refs := f\<rparr>) = read_ref B" "cas_ref (B\<lparr>list_refs := f\<rparr>) = cas_ref B"
  "append_journal (B\<lparr>list_refs := f\<rparr>) = append_journal B" "read_config (B\<lparr>list_refs := f\<rparr>) = read_config B"
  "write_config (B\<lparr>list_refs := f\<rparr>) = write_config B" "list_refs (B\<lparr>list_refs := f\<rparr>) = f"
  by simp_all

lemma simple_backend_list_refs:
  assumes B: "simple_backend h B ok_db objs refs"
    and rows: "\<And>s. ok_db s \<Longrightarrow> \<exists>rs. f ''refs/'' s = (Inr rs, s) \<and>
      (\<forall>rr. rr \<in> set rs \<longleftrightarrow>
        (\<exists>n x. rr = \<lparr>ref_name = n, ref_oid = Some x\<rparr> \<and> startswith n ''refs/'' \<and> refs s n = Some x))"
    and keeps: "\<And>s p. ok_db s \<Longrightarrow> same ok_db objs refs s (snd (f p s))"
  shows "simple_backend h (B\<lparr>list_refs := f\<rparr>) ok_db objs refs"
  by (rule simple_backend.intro; (unfold list_refs_fields)?;
      (rule rows keeps simple_backend.sb_content [OF B] simple_backend.sb_read [OF B] simple_backend.sb_writes [OF B]
        simple_backend.sb_has [OF B] simple_backend.sb_write_bad [OF B] simple_backend.sb_write_ok [OF B]
        simple_backend.sb_ref [OF B] simple_backend.sb_cas [OF B] simple_backend.sb_journal [OF B]
        simple_backend.sb_read_config [OF B] simple_backend.sb_write_config [OF B]; assumption?))

lemma pg_simple_backend:
  assumes "\<And>xs. set (collate xs) = set xs"
  shows "simple_backend h (pg_backend h od collate trunk) (sqlite_inv h trunk) (sqlite_objs trunk) (sqlite_refs trunk)"
  unfolding pg_backend_eq
proof (rule simple_backend_list_refs [OF sqlite.simple_backend_axioms])
  fix s p assume "sqlite_inv h trunk s"
  then show "same (sqlite_inv h trunk) (sqlite_objs trunk) (sqlite_refs trunk) s (snd (pg_list_refs collate trunk p s))"
    by (simp add: same_def pg_list_refs_def)
qed (rule pg_list_refs_set [OF _ assms])

interpretation postgres: simple_backend h "pg_backend h od (sort_key fst) trunk" "sqlite_inv h trunk" "sqlite_objs trunk" "sqlite_refs trunk"
  for h od trunk
  by (rule pg_simple_backend) simp

end
