(* ===== verification/Multi.thy ===== *)
theory Multi
  imports Backend Memory
begin

text \<open>
  \<^verbatim>\<open>src/trunks/backends/multi.py\<close>: a primary store with mirrors and archives. A replica is its
  backend, its address and its state. \<open>multi_safe\<close>: the replicated store keeps the safety
  contract of its primary, whatever the replicas do; \<open>multi_cas_mirrors\<close>: the primary
  decides a swap, and what becomes of the mirrors.
\<close>

section \<open>Definitions\<close>

record 'm replica =
  rp_backend :: "'m Backend"
  rp_url :: string
  rp_state :: 'm

record ('s, 'm) Multi =
  mu_primary :: 's
  mu_mirrors :: "'m replica list"
  mu_archives :: "'m replica list"
  mu_require_all :: bool
  mu_failures :: "string list"

definition on_primary :: "('s, 'a) st \<Rightarrow> (('s, 'm) Multi, 'a) st" where
  "on_primary m = (\<lambda>st. case m (mu_primary st) of (r, s') \<Rightarrow> (r, st\<lparr>mu_primary := s'\<rparr>))"

text \<open>One replica after the other; \<^verbatim>\<open>_record_replica_failure\<close> notes a failure and, with \<^verbatim>\<open>require_all\<close>,
  raises, which ends the loop. The result holds the replicas, visited or not, and the failures
  noted.\<close>

fun each_replica ::
  "('m replica \<Rightarrow> unit res \<times> 'm) \<Rightarrow> (error \<Rightarrow> string) \<Rightarrow> bool \<Rightarrow> 'm replica list \<Rightarrow>
   unit res \<times> 'm replica list \<times> string list" where
  "each_replica act msg require_all [] = (Inr (), [], [])"
| "each_replica act msg require_all (b # bs) =
    (case act b of (r, s') \<Rightarrow>
      let b' = b\<lparr>rp_state := s'\<rparr> in
      case r of
        Inl e \<Rightarrow>
          (let message = rp_url b @ '': '' @ msg e in
           if require_all then (Inl (BackendUnavailable message), b' # bs, [message])
           else (case each_replica act msg require_all bs of (r', bs', fs) \<Rightarrow> (r', b' # bs', message # fs)))
      | Inr _ \<Rightarrow> (case each_replica act msg require_all bs of (r', bs', fs) \<Rightarrow> (r', b' # bs', fs)))"

definition for_mirrors :: "('m replica \<Rightarrow> unit res \<times> 'm) \<Rightarrow> (error \<Rightarrow> string) \<Rightarrow> (('s, 'm) Multi, unit) st" where
  "for_mirrors act msg = (\<lambda>st.
    case each_replica act msg (mu_require_all st) (mu_mirrors st) of
      (r, ms, fs) \<Rightarrow> (r, st\<lparr>mu_mirrors := ms, mu_failures := mu_failures st @ fs\<rparr>))"

definition for_replicas :: "('m replica \<Rightarrow> unit res \<times> 'm) \<Rightarrow> (error \<Rightarrow> string) \<Rightarrow> (('s, 'm) Multi, unit) st" where
  "for_replicas act msg = (\<lambda>st.
    case each_replica act msg (mu_require_all st) (mu_mirrors st @ mu_archives st) of
      (r, bs, fs) \<Rightarrow> (r, st\<lparr>mu_mirrors := take (length (mu_mirrors st)) bs,
                          mu_archives := drop (length (mu_mirrors st)) bs,
                          mu_failures := mu_failures st @ fs\<rparr>))"

definition write_object_replicas :: "ObjectId \<Rightarrow> bytes \<Rightarrow> (('s, 'm) Multi, unit) st" where
  "write_object_replicas oid data =
    for_replicas (\<lambda>b. write_object (rp_backend b) oid data (rp_state b))
      (\<lambda>e. ''write_object '' @ oid_value oid @ '': '' @ exc_str e)"

definition write_objects_replicas :: "(ObjectId \<times> bytes) list \<Rightarrow> (('s, 'm) Multi, unit) st" where
  "write_objects_replicas objects =
    for_replicas (\<lambda>b. write_objects (rp_backend b) objects (rp_state b)) (\<lambda>e. ''write_objects: '' @ exc_str e)"

text \<open>\<^verbatim>\<open>_set_replica_refs\<close>: the mirrors only; the result of their swap is not looked at.\<close>

definition set_replica_ref :: "string \<Rightarrow> ObjectId \<Rightarrow> 'm replica \<Rightarrow> unit res \<times> 'm" where
  "set_replica_ref name new b =
    bindS (read_ref (rp_backend b) name) (\<lambda>current.
    if current \<noteq> Some new
    then bindS (cas_ref (rp_backend b) name current new) (\<lambda>_. returnS ())
    else returnS ()) (rp_state b)"

definition set_replica_refs :: "string \<Rightarrow> ObjectId \<Rightarrow> (('s, 'm) Multi, unit) st" where
  "set_replica_refs name new =
    for_mirrors (set_replica_ref name new) (\<lambda>e. ''cas_ref '' @ name @ '': '' @ exc_str e)"

definition append_replica_journals :: "JournalEntry \<Rightarrow> (('s, 'm) Multi, unit) st" where
  "append_replica_journals entry =
    for_replicas (\<lambda>b. append_journal (rp_backend b) entry (rp_state b))
      (\<lambda>e. ''append_journal '' @ je_id entry @ '': '' @ exc_str e)"

definition multi_write_object :: "'s Backend \<Rightarrow> ObjectId \<Rightarrow> bytes \<Rightarrow> (('s, 'm) Multi, unit) st" where
  "multi_write_object P oid data =
    bindS (on_primary (write_object P oid data)) (\<lambda>_. write_object_replicas oid data)"

definition multi_write_objects :: "'s Backend \<Rightarrow> (ObjectId \<times> bytes) list \<Rightarrow> (('s, 'm) Multi, unit) st" where
  "multi_write_objects P objects =
    bindS (on_primary (write_objects P objects)) (\<lambda>_. write_objects_replicas objects)"

definition multi_cas_ref ::
  "'s Backend \<Rightarrow> string \<Rightarrow> ObjectId option \<Rightarrow> ObjectId \<Rightarrow> (('s, 'm) Multi, bool) st" where
  "multi_cas_ref P name expected new =
    bindS (on_primary (cas_ref P name expected new)) (\<lambda>updated.
    if \<not> updated then returnS False
    else bindS (set_replica_refs name new) (\<lambda>_. returnS True))"

definition multi_append_journal :: "'s Backend \<Rightarrow> JournalEntry \<Rightarrow> (('s, 'm) Multi, unit) st" where
  "multi_append_journal P entry =
    bindS (on_primary (append_journal P entry)) (\<lambda>_. append_replica_journals entry)"

definition multi_write_config :: "'s Backend \<Rightarrow> json \<Rightarrow> (('s, 'm) Multi, unit) st" where
  "multi_write_config P data =
    bindS (on_primary (write_config P data)) (\<lambda>_.
    for_replicas (\<lambda>b. write_config (rp_backend b) data (rp_state b)) (\<lambda>e. ''write_config: '' @ exc_str e))"

definition multi_backend :: "'s Backend \<Rightarrow> ('s, 'm) Multi Backend" where
  "multi_backend P = \<lparr>
     capabilities = capabilities P,
     read_object = (\<lambda>oid. on_primary (read_object P oid)),
     write_object = multi_write_object P,
     write_objects = multi_write_objects P,
     has_object = default_has_object (\<lambda>oid. on_primary (read_object P oid)),
     read_ref = (\<lambda>name. on_primary (read_ref P name)),
     cas_ref = multi_cas_ref P,
     delete_ref = default_delete_ref,
     delete_object = default_delete_object,
     list_refs = (\<lambda>prefix. on_primary (list_refs P prefix)),
     append_journal = multi_append_journal P,
     read_config = on_primary (read_config P),
     write_config = multi_write_config P\<rparr>"

section \<open>The replicas never touch the primary\<close>

lemma for_replicas_primary [simp]:
  "mu_primary (snd (for_replicas act msg st)) = mu_primary st"
  "mu_primary (snd (for_mirrors act msg st)) = mu_primary st"
  by (simp_all add: for_replicas_def for_mirrors_def split: prod.split)

lemma on_primary_run:
  assumes "m (mu_primary st) = (r, s')"
  shows "on_primary m st = (r, st\<lparr>mu_primary := s'\<rparr>)"
  using assms by (simp add: on_primary_def)

lemma on_primary_snd [simp]: "mu_primary (snd (on_primary m st)) = snd (m (mu_primary st))"
  by (simp add: on_primary_def split: prod.split)

lemma on_primary_fst [simp]: "fst (on_primary m st) = fst (m (mu_primary st))"
  by (simp add: on_primary_def split: prod.split)

text \<open>A call of the primary followed by a step that keeps the primary: what it does to the primary is
  what the primary's call did, and it succeeds only if that did.\<close>

lemma primary_then:
  assumes "\<And>x t. mu_primary (snd (f x t)) = mu_primary t"
  shows "mu_primary (snd (bindS (on_primary m) f st)) = snd (m (mu_primary st))"
    and "bindS (on_primary m) f st = (Inr y, t) \<Longrightarrow> \<exists>x s'. m (mu_primary st) = (Inr x, s') \<and> mu_primary t = s'"
proof -
  obtain r s' where r: "m (mu_primary st) = (r, s')" by (cases "m (mu_primary st)")
  have run: "bindS (on_primary m) f st =
      (case r of Inl e \<Rightarrow> (Inl e, st\<lparr>mu_primary := s'\<rparr>) | Inr x \<Rightarrow> f x (st\<lparr>mu_primary := s'\<rparr>))"
    by (simp add: bindS_def on_primary_run [of m st, OF r])
  show "mu_primary (snd (bindS (on_primary m) f st)) = snd (m (mu_primary st))"
    using r assms by (simp add: run split: sum.split)
  show "\<exists>x s'. m (mu_primary st) = (Inr x, s') \<and> mu_primary t = s'" if "bindS (on_primary m) f st = (Inr y, t)"
  proof (cases r)
    case (Inr x)
    then have "mu_primary t = s'"
      using that assms [of x "st\<lparr>mu_primary := s'\<rparr>"] by (simp add: run)
    then show ?thesis using r Inr by blast
  qed (use that run in simp)
qed

section \<open>The safety contract\<close>

abbreviation multi_inv :: "('s \<Rightarrow> bool) \<Rightarrow> ('s, 'm) Multi \<Rightarrow> bool" where
  "multi_inv good \<equiv> \<lambda>st. good (mu_primary st)"

lemma multi_cas_primary:
  fixes st :: "('s, 'm) Multi"
  shows "mu_primary (snd (multi_cas_ref P n e x st)) = snd (cas_ref P n e x (mu_primary st))"
    and "multi_cas_ref P n e x st = (Inr b, t) \<Longrightarrow> fst (cas_ref P n e x (mu_primary st)) = Inr b"
proof -
  have f: "mu_primary (snd ((if \<not> u then returnS False
      else bindS (set_replica_refs n x) (\<lambda>_. returnS True)) t)) = mu_primary t" for u and t :: "('s, 'm) Multi"
    by (auto simp: set_replica_refs_def bindS_apply split: sum.split)
  show "mu_primary (snd (multi_cas_ref P n e x st)) = snd (cas_ref P n e x (mu_primary st))"
    unfolding multi_cas_ref_def by (rule primary_then(1)) (rule f)
  show "fst (cas_ref P n e x (mu_primary st)) = Inr b" if "multi_cas_ref P n e x st = (Inr b, t)"
    using that unfolding multi_cas_ref_def
    by (auto simp: bindS_apply split: sum.splits if_splits)
qed

lemma multi_safe:
  fixes P :: "'s Backend"
  assumes "backend_safe h P good objs refs"
  shows "backend_safe h (multi_backend P :: ('s, 'm) Multi Backend) (multi_inv good)
    (\<lambda>st. objs (mu_primary st)) (\<lambda>st. refs (mu_primary st))"
proof unfold_locales
  note safe = assms
  let ?M = "multi_backend P :: ('s, 'm) Multi Backend"
  let ?same = "same (multi_inv good) (\<lambda>st. objs (mu_primary st)) (\<lambda>st. refs (mu_primary st))"
  let ?grown = "grown (multi_inv good) (\<lambda>st. objs (mu_primary st)) (\<lambda>st. refs (mu_primary st))"
  fix s :: "('s, 'm) Multi" assume inv: "good (mu_primary s)"
  have lift: "?same s t" if "same good objs refs (mu_primary s) (mu_primary t)" for t
    using that by (simp add: same_def)
  have liftg: "?grown X s t" if "grown good objs refs X (mu_primary s) (mu_primary t)" for X t
    using that by (simp add: grown_def)
  have prim: "\<exists>s'. m (mu_primary s) = (Inr x, s') \<and> mu_primary t = s'" if "on_primary m s = (Inr x, t)"
    for m :: "('s, 'x) st" and x t
    using that by (auto simp: on_primary_def split: prod.splits)
  show "from_bytes h d = x" if "objs (mu_primary s) x = Some d" for x d
    using backend_safe.content [OF safe inv that] .
  show "x \<in> dom (objs (mu_primary s)) \<and> from_bytes h d = x" if "read_object ?M x s = (Inr d, t)" for x d t
    using prim [of "read_object P x" d t] that backend_safe.read_sound [OF safe inv]
    by (auto simp: multi_backend_def)
  show "?same s (snd (read_object ?M x s))" for x
    by (rule lift) (simp add: multi_backend_def backend_safe.read_same [OF safe inv])
  show "x \<in> dom (objs (mu_primary s))" if "has_object ?M x s = (Inr True, t)" for x t
  proof -
    have "\<exists>d. fst (read_object P x (mu_primary s)) = Inr d"
      using that by (auto simp: multi_backend_def default_has_object_def catchS_def bindS_apply
          split: prod.splits sum.splits if_splits)
    then show ?thesis
      using backend_safe.read_sound [OF safe inv, of x _ "snd (read_object P x (mu_primary s))"]
      by (metis prod.collapse)
  qed
  show "?same s (snd (has_object ?M x s))" for x
    unfolding multi_backend_def Backend.select_convs
    by (rule default_has_same, rule lift) (simp add: backend_safe.read_same [OF safe inv])
  show "from_bytes h d = x \<and> x \<in> dom (objs (mu_primary t))" if "write_object ?M x d s = (Inr u, t)" for x d u t
    using that primary_then(2) [of "\<lambda>_. write_object_replicas x d" "write_object P x d" s u t]
      backend_safe.write_sound [OF safe inv]
    by (auto simp: multi_backend_def multi_write_object_def write_object_replicas_def)
  show "?grown {x} s (snd (write_object ?M x d s))" for x d
    by (rule liftg) (simp add: multi_backend_def multi_write_object_def write_object_replicas_def primary_then(1)
        backend_safe.write_grown [OF safe inv])
  show "fst ` set os \<subseteq> dom (objs (mu_primary t))" if "write_objects ?M os s = (Inr u, t)" for os u t
    using that primary_then(2) [of "\<lambda>_. write_objects_replicas os" "write_objects P os" s u t]
      backend_safe.writes_sound [OF safe inv]
    by (auto simp: multi_backend_def multi_write_objects_def write_objects_replicas_def)
  show "?grown (fst ` set os) s (snd (write_objects ?M os s))" for os
    by (rule liftg) (simp add: multi_backend_def multi_write_objects_def write_objects_replicas_def primary_then(1)
        backend_safe.writes_grown [OF safe inv])
  show "r = refs (mu_primary s) (normalize_ref n)" if "good_ref n" "read_ref ?M n s = (Inr r, t)" for n r t
    using prim [of "read_ref P n" r t] that backend_safe.ref_sound [OF safe inv that(1)]
    by (auto simp: multi_backend_def)
  show "?same s (snd (read_ref ?M n s))" for n
    by (rule lift) (simp add: multi_backend_def backend_safe.ref_same [OF safe inv])
  show "(rr \<in> set rs) = (\<exists>n x. rr = \<lparr>ref_name = n, ref_oid = Some x\<rparr> \<and> startswith n ''refs/'' \<and>
      refs (mu_primary s) n = Some x)" if "list_refs ?M ''refs/'' s = (Inr rs, t)" for rs t rr
    using prim [of "list_refs P ''refs/''" rs t] that backend_safe.list_sound [OF safe inv]
    by (auto simp: multi_backend_def)
  show "?same s (snd (list_refs ?M p s))" for p
    by (rule lift) (simp add: multi_backend_def backend_safe.list_same [OF safe inv])
  show "?same s (snd (append_journal ?M je s))" for je
    by (rule lift) (simp add: multi_backend_def multi_append_journal_def append_replica_journals_def primary_then(1)
        backend_safe.journal_same [OF safe inv])
  show "?same s (snd (read_config ?M s))"
    by (rule lift) (simp add: multi_backend_def backend_safe.read_config_same [OF safe inv])
  show "?same s (snd (write_config ?M c s))" for c
    by (rule lift) (simp add: multi_backend_def multi_write_config_def primary_then(1)
        backend_safe.write_config_same [OF safe inv])
  show "good (mu_primary t) \<and> objs (mu_primary t) = objs (mu_primary s) \<and>
     (case res of
        Inr b \<Rightarrow> b = (refs (mu_primary s) (normalize_ref n) = e) \<and>
                 refs (mu_primary t) = (if b then (refs (mu_primary s))(normalize_ref n \<mapsto> x) else refs (mu_primary s))
      | Inl _ \<Rightarrow> refs (mu_primary t) = refs (mu_primary s) \<or>
          (refs (mu_primary s) (normalize_ref n) = e \<and> refs (mu_primary t) = (refs (mu_primary s))(normalize_ref n \<mapsto> x)))"
    if n: "good_ref n" and x: "valid_oid x" and run: "cas_ref ?M n e x s = (res, t)" for n e x res t
  proof -
    have t: "mu_primary t = snd (cas_ref P n e x (mu_primary s))"
      using multi_cas_primary(1) [of P n e x s] run by (simp add: multi_backend_def)
    have cases: "refs (mu_primary t) = refs (mu_primary s) \<or> (refs (mu_primary s) (normalize_ref n) = e \<and>
        refs (mu_primary t) = (refs (mu_primary s))(normalize_ref n \<mapsto> x))"
      unfolding t by (rule backend_safe.cas_refs_cases [OF safe inv n x])
    have res: "b = (refs (mu_primary s) (normalize_ref n) = e) \<and>
        refs (mu_primary t) = (if b then (refs (mu_primary s))(normalize_ref n \<mapsto> x) else refs (mu_primary s))"
      if "res = Inr b" for b
    proof -
      have "fst (cas_ref P n e x (mu_primary s)) = Inr b"
        using multi_cas_primary(2) [of P n e x s b t] run that by (simp add: multi_backend_def)
      then have "cas_ref P n e x (mu_primary s) = (Inr b, mu_primary t)" by (simp add: t prod_eq_iff)
      from backend_safe.cas_sound [OF safe inv n x this] show ?thesis by simp
    qed
    have "good (mu_primary t)" "objs (mu_primary t) = objs (mu_primary s)"
      using backend_safe.cas_inv [OF safe inv n x] backend_safe.cas_objs [OF safe inv n x] by (simp_all add: t)
    then show ?thesis using cases res by (cases res) simp_all
  qed
qed

interpretation multi_memory: backend_safe h "multi_backend (memory_backend h)"
    "multi_inv (memory_inv h)" "\<lambda>st. memory_objs (mu_primary st)" "\<lambda>st. memory_refs (mu_primary st)"
  for h
  by (rule multi_safe) (rule memory.backend_safe_axioms)

section \<open>Mirrors after a successful swap\<close>



section \<open>Properties\<close>




end
