(* ===== verification/Cache.thy ===== *)
theory Cache
  imports Backend Memory
begin

text \<open>
  \<^verbatim>\<open>src/trunks/cache\<close>: the on-disk cache and the backend wrapper that uses it. The files of the
  cache are dictionaries by file name: objects and negative entries with their modification
  times, reference files with their text, and the counters of \<^verbatim>\<open>stats.json\<close> (with those of caches
  nested below, which \<^verbatim>\<open>_read_counters\<close> adds up). The object files of caches nested below, and temporary files that an
  interrupted write has left, which \<^verbatim>\<open>_object_files\<close> collects too, are not modelled: the cache has none. A
  reference file is written once the whole listing is there. The clock reading is the field \<open>ca_now\<close>.

  \<open>cached_safe\<close>: wrapping keeps the safety contract of any backend, whatever is in the cache
  files as long as an entry whose hash matches its name is in the store. A negative entry can
  be out of date, so the wrapper promises no more than that.
\<close>

section \<open>The cache manager\<close>

type_synonym counters = "(string, int) dict"

record Cache =
  ca_objects :: "(string, bytes \<times> int) dict"
  ca_negative :: "(string, int) dict"
  ca_refs :: "(string, string \<times> int) dict"
  ca_counters :: counters
  ca_nested :: "counters list"
  ca_now :: int
  ca_ref_ttl :: int
  ca_negative_ttl :: int

record CacheStats =
  cs_hits :: int
  cs_misses :: int
  cs_puts :: int
  cs_negative_hits :: int
  cs_objects :: nat
  cs_size_bytes :: nat

definition counter :: "string \<Rightarrow> counters \<Rightarrow> int" where
  "counter k c = (case map_of c k of None \<Rightarrow> 0 | Some n \<Rightarrow> n)"

definition read_counters :: "Cache \<Rightarrow> counters" where
  "read_counters ca =
    foldl (\<lambda>acc (k, v). AList.update k (counter k acc + v) acc) [] (concat (ca_counters ca # ca_nested ca))"

definition increment :: "string \<Rightarrow> Cache \<Rightarrow> Cache" where
  "increment key ca =
    (let counters = read_counters ca
     in ca\<lparr>ca_counters := AList.update key (counter key counters + 1) counters\<rparr>)"

definition cache_get_object :: "hash \<Rightarrow> ObjectId \<Rightarrow> Cache \<Rightarrow> bytes option \<times> Cache" where
  "cache_get_object h oid ca =
    (case map_of (ca_objects ca) (oid_value oid) of
       None \<Rightarrow> (None, increment ''misses'' ca)
     | Some (data, _) \<Rightarrow>
       if from_bytes h data \<noteq> oid then
         (None, increment ''misses'' (ca_objects_update (AList.delete (oid_value oid)) ca))
       else
         (Some data, increment ''hits''
            (ca_objects_update (AList.update (oid_value oid) (data, ca_now ca)) ca)))"

definition cache_clear_negative :: "ObjectId \<Rightarrow> Cache \<Rightarrow> Cache" where
  "cache_clear_negative oid = ca_negative_update (AList.delete (oid_value oid))"

definition cache_put_object :: "hash \<Rightarrow> ObjectId \<Rightarrow> bytes \<Rightarrow> (Cache, unit) st" where
  "cache_put_object h oid data = (\<lambda>ca.
    if from_bytes h data \<noteq> oid then (Inl (ValueError ''object id does not match object data''), ca)
    else if map_of (ca_objects ca) (oid_value oid) \<noteq> None then (Inr (), ca)
    else (Inr (), increment ''puts'' (cache_clear_negative oid
           (ca_objects_update (AList.update (oid_value oid) (data, ca_now ca)) ca))))"

definition cache_has_negative :: "ObjectId \<Rightarrow> Cache \<Rightarrow> bool \<times> Cache" where
  "cache_has_negative oid ca =
    (case map_of (ca_negative ca) (oid_value oid) of
       None \<Rightarrow> (False, ca)
     | Some mtime \<Rightarrow>
       if ca_now ca - mtime > ca_negative_ttl ca then (False, cache_clear_negative oid ca)
       else (True, increment ''negative_hits'' ca))"

definition cache_put_negative :: "ObjectId \<Rightarrow> Cache \<Rightarrow> Cache" where
  "cache_put_negative oid ca = ca_negative_update (AList.update (oid_value oid) (ca_now ca)) ca"

text \<open>\<^verbatim>\<open>_ref_path\<close>: the file name of a reference replaces every slash by two underscores.\<close>

definition cache_ref_file :: "string \<Rightarrow> string" where
  "cache_ref_file name =
    concat (map (\<lambda>c. if c = SLASH then ''__'' else [c]) (normalize_ref name)) @ ''.json''"

text \<open>\<^verbatim>\<open>get_ref\<close>: \<open>None\<close> is \<^verbatim>\<open>_REF_MISS\<close>.\<close>

definition cache_get_ref :: "string \<Rightarrow> (Cache, ObjectId option option) st" where
  "cache_get_ref name = (\<lambda>ca.
    case map_of (ca_refs ca) (cache_ref_file name) of
      None \<Rightarrow> (Inr None, ca)
    | Some (text, mtime) \<Rightarrow>
      if ca_now ca - mtime > ca_ref_ttl ca
      then (Inr None, ca_refs_update (AList.delete (cache_ref_file name)) ca)
      else
        (bindR (loads text) (\<lambda>doc.
         bindR (jget doc ''oid'') (\<lambda>v.
         case v of Some (JStr s) \<Rightarrow> bindR (mk_ObjectId s) (\<lambda>x. Inr (Some (Some x)))
         | _ \<Rightarrow> Inr (Some None))), ca))"

definition cache_put_ref :: "string \<Rightarrow> ObjectId option \<Rightarrow> Cache \<Rightarrow> Cache" where
  "cache_put_ref name oid ca =
    ca_refs_update (AList.update (cache_ref_file name)
      (dumps spaced (JObj [(''oid'', case oid of None \<Rightarrow> JNull | Some x \<Rightarrow> JStr (oid_value x))]), ca_now ca)) ca"

definition cache_clear_refs :: "Cache \<Rightarrow> Cache" where
  "cache_clear_refs ca = ca\<lparr>ca_refs := []\<rparr>"

definition cache_clear :: "Cache \<Rightarrow> Cache" where
  "cache_clear ca = ca\<lparr>ca_objects := [], ca_negative := [], ca_refs := [], ca_counters := [], ca_nested := []\<rparr>"

text \<open>\<^verbatim>\<open>prune\<close>: the loop over the object files, oldest first.\<close>

fun prune_loop :: "int \<Rightarrow> int \<Rightarrow> nat \<Rightarrow> (string \<times> bytes \<times> int) list \<Rightarrow> nat \<times> (string \<times> bytes \<times> int) list" where
  "prune_loop max_size held removed [] = (removed, [])"
| "prune_loop max_size held removed (f # files) =
    (if held > max_size then prune_loop max_size (held - int (length (fst (snd f)))) (removed + 1) files
     else (removed, f # files))"

definition cache_prune :: "int \<Rightarrow> Cache \<Rightarrow> nat \<times> Cache" where
  "cache_prune max_size ca =
    (let files = sort_key (\<lambda>f. snd (snd f)) (ca_objects ca);
         held = sum_list (map (\<lambda>f. int (length (fst (snd f)))) files)
     in case prune_loop max_size held 0 files of
          (removed, kept) \<Rightarrow> (removed, ca\<lparr>ca_objects := filter (\<lambda>f. f \<in> set kept) (ca_objects ca)\<rparr>))"

text \<open>\<^verbatim>\<open>verify\<close>: the file names reported, with whether the name or the content is wrong.\<close>

definition cache_verify :: "hash \<Rightarrow> Cache \<Rightarrow> (string \<times> string) list" where
  "cache_verify h ca =
    List.map_filter (\<lambda>(name, data, _).
      case mk_ObjectId name of
        Inl _ \<Rightarrow> Some (''invalid object cache entry'', name)
      | Inr oid \<Rightarrow> if from_bytes h data \<noteq> oid then Some (''corrupt object cache entry'', name) else None)
    (ca_objects ca)"

definition cache_stats :: "Cache \<Rightarrow> CacheStats" where
  "cache_stats ca =
    (let counters = read_counters ca in
     \<lparr>cs_hits = counter ''hits'' counters, cs_misses = counter ''misses'' counters,
      cs_puts = counter ''puts'' counters, cs_negative_hits = counter ''negative_hits'' counters,
      cs_objects = length (ca_objects ca),
      cs_size_bytes = sum_list (map (\<lambda>f. length (fst (snd f))) (ca_objects ca))\<rparr>)"

section \<open>The wrapper\<close>

text \<open>A call of the wrapped backend, and a step of the cache.\<close>

definition on_backend :: "('s, 'a) st \<Rightarrow> ('s \<times> Cache, 'a) st" where
  "on_backend m = (\<lambda>(s, ca). case m s of (r, s') \<Rightarrow> (r, (s', ca)))"

definition on_cache :: "(Cache \<Rightarrow> 'a \<times> Cache) \<Rightarrow> ('s \<times> Cache, 'a) st" where
  "on_cache m = (\<lambda>(s, ca). case m ca of (r, ca') \<Rightarrow> (Inr r, (s, ca')))"

definition on_cache_st :: "(Cache, 'a) st \<Rightarrow> ('s \<times> Cache, 'a) st" where
  "on_cache_st m = (\<lambda>(s, ca). case m ca of (r, ca') \<Rightarrow> (r, (s, ca')))"

text \<open>The part of \<^verbatim>\<open>read_object\<close> after both cache lookups missed.\<close>

definition cached_fetch :: "hash \<Rightarrow> 's Backend \<Rightarrow> ObjectId \<Rightarrow> ('s \<times> Cache, bytes) st" where
  "cached_fetch h B oid =
    bindS (catchS (on_backend (read_object B oid))
            (\<lambda>e. if is_object_not_found e
                 then bindS (on_cache (\<lambda>ca. ((), cache_put_negative oid ca))) (\<lambda>_. raiseS e)
                 else raiseS e)) (\<lambda>data.
    bindS (on_cache_st (cache_put_object h oid data)) (\<lambda>_. returnS data))"

definition cached_read_object :: "hash \<Rightarrow> 's Backend \<Rightarrow> ObjectId \<Rightarrow> ('s \<times> Cache, bytes) st" where
  "cached_read_object h B oid =
    bindS (on_cache (cache_get_object h oid)) (\<lambda>cached.
    case cached of
      Some data \<Rightarrow> returnS data
    | None \<Rightarrow>
      bindS (on_cache (cache_has_negative oid)) (\<lambda>negative.
      if negative then raiseS (ObjectNotFound (oid_value oid)) else cached_fetch h B oid))"

definition cached_write_object :: "hash \<Rightarrow> 's Backend \<Rightarrow> ObjectId \<Rightarrow> bytes \<Rightarrow> ('s \<times> Cache, unit) st" where
  "cached_write_object h B oid data =
    bindS (on_backend (write_object B oid data)) (\<lambda>_. on_cache_st (cache_put_object h oid data))"

definition cached_write_objects ::
  "hash \<Rightarrow> 's Backend \<Rightarrow> (ObjectId \<times> bytes) list \<Rightarrow> ('s \<times> Cache, unit) st" where
  "cached_write_objects h B values =
    bindS (on_backend (write_objects B values))
      (\<lambda>_. iterS (\<lambda>(oid, data). on_cache_st (cache_put_object h oid data)) values)"

definition cached_has_object :: "hash \<Rightarrow> 's Backend \<Rightarrow> ObjectId \<Rightarrow> ('s \<times> Cache, bool) st" where
  "cached_has_object h B oid =
    bindS (on_cache (cache_get_object h oid)) (\<lambda>cached.
    if cached \<noteq> None then returnS True
    else
      bindS (on_cache (cache_has_negative oid)) (\<lambda>negative.
      if negative then returnS False else on_backend (has_object B oid)))"

definition cached_read_ref :: "'s Backend \<Rightarrow> string \<Rightarrow> ('s \<times> Cache, ObjectId option) st" where
  "cached_read_ref B name =
    bindS (on_backend (read_ref B name)) (\<lambda>oid.
    bindS (on_cache (\<lambda>ca. ((), cache_put_ref name oid ca))) (\<lambda>_. returnS oid))"

definition cached_cas_ref ::
  "'s Backend \<Rightarrow> string \<Rightarrow> ObjectId option \<Rightarrow> ObjectId \<Rightarrow> ('s \<times> Cache, bool) st" where
  "cached_cas_ref B name expected new =
    bindS (on_backend (cas_ref B name expected new)) (\<lambda>updated.
    bindS (on_cache (\<lambda>ca. ((), if updated then cache_put_ref name (Some new) ca else cache_clear_refs ca))) (\<lambda>_.
    returnS updated))"

definition cached_list_refs :: "'s Backend \<Rightarrow> string \<Rightarrow> ('s \<times> Cache, Ref list) st" where
  "cached_list_refs B prefix =
    bindS (on_backend (list_refs B prefix)) (\<lambda>refs.
    bindS (on_cache (\<lambda>ca. ((), foldl (\<lambda>c r. cache_put_ref (ref_name r) (ref_oid r) c) ca refs))) (\<lambda>_.
    returnS refs))"

definition cached_backend :: "hash \<Rightarrow> 's Backend \<Rightarrow> ('s \<times> Cache) Backend" where
  "cached_backend h B = \<lparr>
     capabilities = capabilities B,
     read_object = cached_read_object h B,
     write_object = cached_write_object h B,
     write_objects = cached_write_objects h B,
     has_object = cached_has_object h B,
     read_ref = cached_read_ref B,
     cas_ref = cached_cas_ref B,
     delete_ref = default_delete_ref,
     delete_object = default_delete_object,
     list_refs = cached_list_refs B,
     append_journal = (\<lambda>e. on_backend (append_journal B e)),
     read_config = on_backend (read_config B),
     write_config = (\<lambda>c. on_backend (write_config B c))\<rparr>"

section \<open>What the cache operations do to the object files\<close>

text \<open>The objects the cache would hand out: files whose content hashes to their name.\<close>

definition trusted :: "hash \<Rightarrow> Cache \<Rightarrow> ObjectId set" where
  "trusted h ca = {x. \<exists>d m. map_of (ca_objects ca) (oid_value x) = Some (d, m) \<and> from_bytes h d = x}"

lemma increment_fields [simp]:
  "ca_objects (increment k ca) = ca_objects ca" "ca_negative (increment k ca) = ca_negative ca"
  "ca_refs (increment k ca) = ca_refs ca"
  by (simp_all add: increment_def Let_def)

lemma trusted_simps [simp]:
  "trusted h (increment k ca) = trusted h ca"
  "trusted h (cache_put_ref n r ca) = trusted h ca"
  "trusted h (cache_clear_refs ca) = trusted h ca"
  "trusted h (cache_put_negative x ca) = trusted h ca"
  "trusted h (cache_clear_negative x ca) = trusted h ca"
  by (simp_all add: trusted_def cache_put_ref_def cache_clear_refs_def cache_put_negative_def cache_clear_negative_def)

lemma trusted_fold_put_ref [simp]:
  "trusted h (foldl (\<lambda>c r. cache_put_ref (f r) (g r) c) ca rs) = trusted h ca"
  by (induction rs arbitrary: ca) simp_all

lemma cache_get_object_trusted:
  "trusted h (snd (cache_get_object h x ca)) \<subseteq> trusted h ca"
  "fst (cache_get_object h x ca) = Some d \<Longrightarrow> x \<in> trusted h ca \<and> from_bytes h d = x"
  by (auto simp: cache_get_object_def trusted_def split: option.splits if_splits prod.splits)

lemma cache_has_negative_trusted: "trusted h (snd (cache_has_negative x ca)) = trusted h ca"
  by (simp add: cache_has_negative_def split: option.split)

lemma cache_put_object_trusted:
  "trusted h (snd (cache_put_object h x d ca)) \<subseteq> insert x (trusted h ca)"
  by (auto simp: cache_put_object_def trusted_def cache_clear_negative_def ObjectId.expand split: if_splits)

section \<open>The wrapper keeps the safety contract\<close>

definition cached_inv :: "hash \<Rightarrow> ('s \<Rightarrow> bool) \<Rightarrow> ('s \<Rightarrow> ObjectId \<Rightarrow> bytes option) \<Rightarrow> 's \<times> Cache \<Rightarrow> bool" where
  "cached_inv h good objs st \<longleftrightarrow> good (fst st) \<and> trusted h (snd st) \<subseteq> dom (objs (fst st))"

text \<open>Steps of the wrapper that leave the backend's store as it was and put no object in the cache
  but one that is in the store.\<close>

definition calm :: "hash \<Rightarrow> ('s \<Rightarrow> bool) \<Rightarrow> ('s \<Rightarrow> ObjectId \<Rightarrow> bytes option) \<Rightarrow> ('s \<Rightarrow> string \<Rightarrow> ObjectId option) \<Rightarrow>
    's \<times> Cache \<Rightarrow> 's \<times> Cache \<Rightarrow> bool" where
  "calm h good objs refs st st' \<longleftrightarrow>
     same (cached_inv h good objs) (\<lambda>st. objs (fst st)) (\<lambda>st. refs (fst st)) st st'"

lemma calm_refl: "cached_inv h good objs st \<Longrightarrow> calm h good objs refs st st"
  by (simp add: calm_def same_def)

lemma calm_trans: "calm h good objs refs a b \<Longrightarrow> calm h good objs refs b c \<Longrightarrow> calm h good objs refs a c"
  by (simp add: calm_def same_def)

lemma calm_inv: "calm h good objs refs a b \<Longrightarrow> cached_inv h good objs b"
  by (simp add: calm_def same_def)

lemma calm_cache:
  assumes "cached_inv h good objs (s, ca)" and "trusted h ca' \<subseteq> dom (objs s)"
  shows "calm h good objs refs (s, ca) (s, ca')"
  using assms by (simp add: calm_def same_def cached_inv_def)

lemma calm_backend:
  assumes "cached_inv h good objs (s, ca)" and "same good objs refs s s'"
  shows "calm h good objs refs (s, ca) (s', ca)"
  using assms by (simp add: calm_def same_def cached_inv_def)

lemma calm_bind:
  assumes "calm h good objs refs st (snd (m st))"
    and "\<And>x t. m st = (Inr x, t) \<Longrightarrow> cached_inv h good objs t \<Longrightarrow> calm h good objs refs t (snd (f x t))"
  shows "calm h good objs refs st (snd (bindS m f st))"
proof -
  obtain r t where rt: "m st = (r, t)" by (cases "m st")
  then have t: "calm h good objs refs st t" using assms(1) by simp
  then show ?thesis using assms(2) rt calm_trans [OF t] calm_inv [OF t] by (cases r) (auto simp: bindS_def)
qed

lemma grown_then_calm:
  assumes "grown good objs refs X s s'" and "cached_inv h good objs (s, ca)" and "calm h good objs refs (s', ca) v"
  shows "grown (cached_inv h good objs) (\<lambda>st. objs (fst st)) (\<lambda>st. refs (fst st)) X (s, ca) v"
  using assms by (simp add: grown_def calm_def same_def)

lemma calm_get:
  assumes "cached_inv h good objs st"
  shows "calm h good objs refs st (snd (on_cache (cache_get_object h x) st))"
proof -
  obtain s ca where st: "st = (s, ca)" by (cases st)
  have "trusted h (snd (cache_get_object h x ca)) \<subseteq> dom (objs s)"
    using assms cache_get_object_trusted(1) [of h x ca] by (auto simp: st cached_inv_def)
  then show ?thesis using calm_cache assms by (simp add: st on_cache_def case_prod_beta)
qed

lemma calm_negative:
  assumes "cached_inv h good objs st"
  shows "calm h good objs refs st (snd (on_cache (cache_has_negative x) st))"
  using assms by (cases st) (auto simp: on_cache_def case_prod_beta cached_inv_def cache_has_negative_trusted
      intro!: calm_cache)

lemma calm_step:
  assumes "cached_inv h good objs st" and "\<And>ca. trusted h (f ca) = trusted h ca"
  shows "calm h good objs refs st (snd (on_cache (\<lambda>ca. (x, f ca)) st))"
  using assms by (cases st) (auto simp: on_cache_def cached_inv_def intro!: calm_cache)

lemma calm_put:
  assumes "cached_inv h good objs st" and "x \<in> dom (objs (fst st))"
  shows "calm h good objs refs st (snd (on_cache_st (cache_put_object h x d) st))"
proof -
  obtain s ca where st: "st = (s, ca)" by (cases st)
  have "trusted h (snd (cache_put_object h x d ca)) \<subseteq> dom (objs s)"
    using assms cache_put_object_trusted [of h x d ca] by (auto simp: st cached_inv_def)
  then show ?thesis using calm_cache assms(1) by (simp add: st on_cache_st_def case_prod_beta)
qed

lemma calm_on_backend:
  assumes "cached_inv h good objs st" and "\<And>s. good s \<Longrightarrow> same good objs refs s (snd (m s))"
  shows "calm h good objs refs st (snd (on_backend m st))"
proof -
  obtain s ca where st: "st = (s, ca)" by (cases st)
  have "same good objs refs s (snd (m s))" using assms by (simp add: st cached_inv_def)
  then show ?thesis using calm_backend assms(1) by (simp add: st on_backend_def case_prod_beta)
qed

context backend_safe
begin

lemma cached_fetch_calm:
  assumes "cached_inv h inv objs st"
  shows "calm h inv objs refs st (snd (cached_fetch h B x st))"
    and "cached_fetch h B x st = (Inr d, t) \<Longrightarrow> x \<in> dom (objs (fst st)) \<and> from_bytes h d = x"
proof -
  obtain s ca where st: "st = (s, ca)" by (cases st)
  then have s: "inv s" using assms by (simp add: cached_inv_def)
  obtain r s' where r: "read_object B x s = (r, s')" by (cases "read_object B x s")
  then have step: "calm h inv objs refs st (s', ca)"
    using calm_backend [OF assms [unfolded st]] read_same [OF s, of x] st by simp
  note s' = calm_inv [OF step]
  show "calm h inv objs refs st (snd (cached_fetch h B x st))"
  proof (cases r)
    case (Inl e)
    have "calm h inv objs refs (s', ca) (s', cache_put_negative x ca)"
      using s' by (intro calm_cache) (auto simp: cached_inv_def)
    then show ?thesis using Inl r st step calm_trans
      by (auto simp: cached_fetch_def bindS_def catchS_def on_backend_def on_cache_def)
  next
    case (Inr d)
    then have "x \<in> dom (objs s')" using read_sound [OF s] r read_same [OF s, of x] by (simp add: same_def)
    then have "calm h inv objs refs (s', ca) (snd (on_cache_st (cache_put_object h x d) (s', ca)))"
      using calm_put [OF s'] by simp
    then have "calm h inv objs refs st (snd (on_cache_st (cache_put_object h x d) (s', ca)))"
      by (rule calm_trans [OF step])
    then show ?thesis using Inr r st
      by (cases "on_cache_st (cache_put_object h x d) (s', ca)")
         (auto simp: cached_fetch_def bindS_def catchS_def on_backend_def split: sum.split)
  qed
  show "x \<in> dom (objs (fst st)) \<and> from_bytes h d = x" if "cached_fetch h B x st = (Inr d, t)"
  proof (cases r)
    case (Inr d')
    then have "d' = d" using that r st
      by (auto simp: cached_fetch_def bindS_def catchS_def on_backend_def split: prod.splits sum.splits)
    then show ?thesis using read_sound [OF s] r Inr st by auto
  qed (use that r st in \<open>auto simp: cached_fetch_def bindS_def catchS_def on_backend_def on_cache_def split: if_splits\<close>)
qed

lemma cached_read_calm:
  assumes "cached_inv h inv objs st"
  shows "calm h inv objs refs st (snd (cached_read_object h B x st))"
  unfolding cached_read_object_def
proof (rule calm_bind)
  show "calm h inv objs refs st (snd (on_cache (cache_get_object h x) st))" by (rule calm_get [OF assms])
next
  fix c t assume t: "cached_inv h inv objs t"
  show "calm h inv objs refs t (snd ((case c of Some data \<Rightarrow> returnS data
    | None \<Rightarrow> bindS (on_cache (cache_has_negative x)) (\<lambda>negative.
        if negative then raiseS (ObjectNotFound (oid_value x)) else cached_fetch h B x)) t))"
    using t by (cases c) (auto intro!: calm_bind calm_negative calm_refl cached_fetch_calm(1))
qed

lemma get_object_sound:
  assumes "cached_inv h inv objs st" and "on_cache (cache_get_object h x) st = (Inr c, t)"
  shows "cached_inv h inv objs t \<and> objs (fst t) = objs (fst st) \<and>
    (case c of Some d \<Rightarrow> x \<in> dom (objs (fst st)) \<and> from_bytes h d = x | None \<Rightarrow> True)"
proof -
  obtain s ca where st: "st = (s, ca)" by (cases st)
  have "calm h inv objs refs st t" using calm_get [OF assms(1), of refs x] assms(2) by simp
  moreover have "fst (cache_get_object h x ca) = c"
    using assms(2) by (auto simp: st on_cache_def split: prod.splits)
  ultimately show ?thesis
    using cache_get_object_trusted(2) [of h x ca] assms(1)
    by (auto simp: calm_def same_def st cached_inv_def split: option.split)
qed

lemma negative_sound:
  assumes "cached_inv h inv objs st" and "on_cache (cache_has_negative x) st = (Inr b, t)"
  shows "cached_inv h inv objs t \<and> objs (fst t) = objs (fst st)"
  using calm_negative [OF assms(1), of refs x] assms(2) by (simp add: calm_def same_def)

lemma cached_read_sound:
  assumes "cached_inv h inv objs st" and "cached_read_object h B x st = (Inr d, t)"
  shows "x \<in> dom (objs (fst st)) \<and> from_bytes h d = x"
proof -
  obtain c u where c: "on_cache (cache_get_object h x) st = (Inr c, u)"
    and k: "(case c of Some data \<Rightarrow> returnS data
      | None \<Rightarrow> bindS (on_cache (cache_has_negative x)) (\<lambda>negative.
        if negative then raiseS (ObjectNotFound (oid_value x)) else cached_fetch h B x)) u = (Inr d, t)"
    using assms(2) unfolding cached_read_object_def by blast
  note u = get_object_sound [OF assms(1) c]
  show ?thesis
  proof (cases c)
    case None
    then obtain b v where v: "on_cache (cache_has_negative x) u = (Inr b, v)"
      and f: "(if b then raiseS (ObjectNotFound (oid_value x)) else cached_fetch h B x) v = (Inr d, t)"
      using k by auto
    have "cached_fetch h B x v = (Inr d, t)" using f by (cases b) auto
    then show ?thesis using cached_fetch_calm(2) negative_sound v u by metis
  qed (use k u in auto)
qed

lemma cached_has_calm:
  assumes "cached_inv h inv objs st"
  shows "calm h inv objs refs st (snd (cached_has_object h B x st))"
  unfolding cached_has_object_def
proof (rule calm_bind)
  show "calm h inv objs refs st (snd (on_cache (cache_get_object h x) st))" by (rule calm_get [OF assms])
next
  fix c t assume t: "cached_inv h inv objs t"
  show "calm h inv objs refs t (snd ((if c \<noteq> None then returnS True
      else bindS (on_cache (cache_has_negative x)) (\<lambda>negative.
        if negative then returnS False else on_backend (has_object B x))) t))"
    using t by (cases c) (auto intro!: calm_bind calm_negative calm_refl calm_on_backend has_same)
qed

lemma cached_has_sound:
  assumes "cached_inv h inv objs st" and "cached_has_object h B x st = (Inr True, t)"
  shows "x \<in> dom (objs (fst st))"
proof -
  obtain c u where c: "on_cache (cache_get_object h x) st = (Inr c, u)"
    and k: "(if c \<noteq> None then returnS True
      else bindS (on_cache (cache_has_negative x)) (\<lambda>negative.
        if negative then returnS False else on_backend (has_object B x))) u = (Inr True, t)"
    using assms(2) unfolding cached_has_object_def by blast
  note u = get_object_sound [OF assms(1) c]
  show ?thesis
  proof (cases c)
    case None
    then obtain b v where v: "on_cache (cache_has_negative x) u = (Inr b, v)"
      and f: "(if b then returnS False else on_backend (has_object B x)) v = (Inr True, t)"
      using k by auto
    have "on_backend (has_object B x) v = (Inr True, t)" using f by (cases b) auto
    then have "\<exists>t'. has_object B x (fst v) = (Inr True, t')" by (cases v) (auto simp: on_backend_def split: prod.splits)
    then show ?thesis using has_sound negative_sound v u by (metis cached_inv_def)
  qed (use u in auto)
qed

end

context backend_safe
begin

lemma cached_writes:
  assumes "cached_inv h inv objs st"
  shows "grown (cached_inv h inv objs) (\<lambda>st. objs (fst st)) (\<lambda>st. refs (fst st)) (fst ` set os) st
      (snd (cached_write_objects h B os st))"
    and "cached_write_objects h B os st = (Inr u, t) \<Longrightarrow> fst ` set os \<subseteq> dom (objs (fst t))"
proof -
  obtain s ca where st: "st = (s, ca)" by (cases st)
  then have s: "inv s" using assms by (simp add: cached_inv_def)
  obtain r s' where r: "write_objects B os s = (r, s')" by (cases "write_objects B os s")
  have g: "grown inv objs refs (fst ` set os) s s'" using writes_grown [OF s, of os] r by simp
  have s': "cached_inv h inv objs (s', ca)" using assms g st by (auto simp: cached_inv_def grown_def)
  have puts: "calm h inv objs refs v (snd (iterS (\<lambda>(oid, data). on_cache_st (cache_put_object h oid data)) ps v))"
    if "cached_inv h inv objs v" "fst ` set ps \<subseteq> dom (objs (fst v))" for ps v
    using that
  proof (induction ps arbitrary: v)
    case (Cons p ps)
    obtain x d where p: "p = (x, d)" by (cases p)
    have c: "calm h inv objs refs v (snd (on_cache_st (cache_put_object h x d) v))"
      using Cons.prems p by (intro calm_put) auto
    show ?case unfolding p iterS.simps case_prod_conv
    proof (rule calm_bind [where m = "on_cache_st (cache_put_object h x d)", OF c])
      fix y w assume "on_cache_st (cache_put_object h x d) v = (Inr y, w)" and w: "cached_inv h inv objs w"
      then have "objs (fst w) = objs (fst v)" using c by (simp add: calm_def same_def)
      then show "calm h inv objs refs w (snd (iterS (\<lambda>(oid, data). on_cache_st (cache_put_object h oid data)) ps w))"
        using Cons.IH [OF w] Cons.prems(2) by simp
    qed
  qed (simp add: calm_refl)
  have run: "cached_write_objects h B os st =
      (case r of Inl e \<Rightarrow> (Inl e, (s', ca))
       | Inr _ \<Rightarrow> iterS (\<lambda>(oid, data). on_cache_st (cache_put_object h oid data)) os (s', ca))"
    using r by (simp add: cached_write_objects_def st bindS_def on_backend_def split: sum.split)
  have all: "fst ` set os \<subseteq> dom (objs s')" if "r = Inr v" for v
    using writes_sound [OF s] r that by blast
  show "grown (cached_inv h inv objs) (\<lambda>st. objs (fst st)) (\<lambda>st. refs (fst st)) (fst ` set os) st
      (snd (cached_write_objects h B os st))"
  proof (cases r)
    case (Inl e)
    then show ?thesis unfolding st run [unfolded st] using grown_then_calm [OF g, of h ca] calm_refl [OF s'] assms st by simp
  next
    case (Inr v)
    then show ?thesis
      unfolding st run [unfolded st] using grown_then_calm [OF g, of h ca] puts [OF s', of os] all [OF Inr] assms st by simp
  qed
  show "fst ` set os \<subseteq> dom (objs (fst t))" if "cached_write_objects h B os st = (Inr u, t)"
  proof (cases r)
    case (Inr v)
    then show ?thesis using that [unfolded run] puts [OF s', of os] all [OF Inr] by (auto simp: calm_def same_def)
  qed (use that run in simp)
qed

end

context backend_safe
begin

lemma cached_write:
  assumes "cached_inv h inv objs st"
  shows "grown (cached_inv h inv objs) (\<lambda>st. objs (fst st)) (\<lambda>st. refs (fst st)) {x} st
      (snd (cached_write_object h B x d st))"
    and "cached_write_object h B x d st = (Inr u, t) \<Longrightarrow> from_bytes h d = x \<and> x \<in> dom (objs (fst t))"
proof -
  obtain s ca where st: "st = (s, ca)" by (cases st)
  then have s: "inv s" using assms by (simp add: cached_inv_def)
  obtain r s' where r: "write_object B x d s = (r, s')" by (cases "write_object B x d s")
  have g: "grown inv objs refs {x} s s'" using write_grown [OF s, of x d] r by simp
  have s': "cached_inv h inv objs (s', ca)" using assms g st by (auto simp: cached_inv_def grown_def)
  have put: "calm h inv objs refs (s', ca) (snd (on_cache_st (cache_put_object h x d) (s', ca)))"
    if "x \<in> dom (objs s')" using that calm_put [OF s'] by simp
  have run: "cached_write_object h B x d st =
      (case r of Inl e \<Rightarrow> (Inl e, (s', ca)) | Inr _ \<Rightarrow> on_cache_st (cache_put_object h x d) (s', ca))"
    using r by (simp add: cached_write_object_def st bindS_def on_backend_def split: sum.split)
  have ok: "from_bytes h d = x \<and> x \<in> dom (objs s')" if "r = Inr v" for v
    using write_sound [OF s] r that by blast
  show "grown (cached_inv h inv objs) (\<lambda>st. objs (fst st)) (\<lambda>st. refs (fst st)) {x} st
      (snd (cached_write_object h B x d st))"
  proof (cases r)
    case (Inl e)
    then show ?thesis unfolding st run [unfolded st] using grown_then_calm [OF g, of h ca] calm_refl [OF s'] assms st by simp
  next
    case (Inr v)
    then show ?thesis unfolding st run [unfolded st] using grown_then_calm [OF g, of h ca] put ok [OF Inr] assms st by simp
  qed
  show "from_bytes h d = x \<and> x \<in> dom (objs (fst t))" if "cached_write_object h B x d st = (Inr u, t)"
  proof (cases r)
    case (Inr v)
    then show ?thesis using that [unfolded run] put ok [OF Inr] by (auto simp: calm_def same_def)
  qed (use that run in simp)
qed

lemma cached_read_ref_calm:
  assumes "cached_inv h inv objs st"
  shows "calm h inv objs refs st (snd (cached_read_ref B n st))"
  unfolding cached_read_ref_def
  by (intro calm_bind calm_on_backend assms ref_same calm_step) (simp_all add: calm_refl)

lemma cached_list_refs_calm:
  assumes "cached_inv h inv objs st"
  shows "calm h inv objs refs st (snd (cached_list_refs B p st))"
  unfolding cached_list_refs_def
  by (intro calm_bind calm_on_backend assms list_same calm_step) (simp_all add: calm_refl)

lemma on_backend_Inr: "on_backend m st = (Inr x, t) \<Longrightarrow> m (fst st) = (Inr x, fst t)"
  by (auto simp: on_backend_def split: prod.splits)

lemma cached_cas:
  assumes "cached_inv h inv objs st" and "good_ref n" and "valid_oid x" and "cached_cas_ref B n e x st = (res, t)"
  shows "cached_inv h inv objs t \<and> objs (fst t) = objs (fst st) \<and>
     (case res of
        Inr b \<Rightarrow> b = (refs (fst st) (normalize_ref n) = e) \<and>
                 refs (fst t) = (if b then (refs (fst st))(normalize_ref n \<mapsto> x) else refs (fst st))
      | Inl _ \<Rightarrow> refs (fst t) = refs (fst st) \<or>
          (refs (fst st) (normalize_ref n) = e \<and> refs (fst t) = (refs (fst st))(normalize_ref n \<mapsto> x)))"
proof -
  obtain s ca where st: "st = (s, ca)" by (cases st)
  then have s: "inv s" using assms by (simp add: cached_inv_def)
  obtain r s' where r: "cas_ref B n e x s = (r, s')" by (cases "cas_ref B n e x s")
  note law = cas_sound [OF s assms(2,3) r]
  have t: "fst t = s' \<and> res = r \<and> trusted h (snd t) = trusted h ca"
    using assms(4) r
    by (cases r) (auto simp: cached_cas_ref_def st bindS_def on_backend_def on_cache_def split: if_splits)
  have inv: "inv s'" "objs s' = objs s" using law by auto
  have "cached_inv h inv objs t" using t inv assms(1) st by (simp add: cached_inv_def)
  moreover have "res = r" "fst t = s'" "fst st = s" using t st by simp_all
  ultimately show ?thesis using law by (cases r) simp_all
qed

end


lemma cached_safe:
  assumes "backend_safe h B good objs refs"
  shows "backend_safe h (cached_backend h B) (cached_inv h good objs) (\<lambda>st. objs (fst st)) (\<lambda>st. refs (fst st))"
proof unfold_locales
  note safe = assms
  let ?same = "same (cached_inv h good objs) (\<lambda>st. objs (fst st)) (\<lambda>st. refs (fst st))"
  fix s assume inv: "cached_inv h good objs s"
  then have fst: "good (fst s)" by (simp add: cached_inv_def)
  show "from_bytes h d = x" if "objs (fst s) x = Some d" for x d
    using backend_safe.content [OF safe fst that] .
  show "x \<in> dom (objs (fst s)) \<and> from_bytes h d = x" if "read_object (cached_backend h B) x s = (Inr d, t)" for x d t
    using backend_safe.cached_read_sound [OF safe inv] that by (simp add: cached_backend_def)
  show "?same s (snd (read_object (cached_backend h B) x s))" for x
    using backend_safe.cached_read_calm [OF safe inv] by (simp add: cached_backend_def calm_def)
  show "x \<in> dom (objs (fst s))" if "has_object (cached_backend h B) x s = (Inr True, t)" for x t
    using backend_safe.cached_has_sound [OF safe inv] that by (simp add: cached_backend_def)
  show "?same s (snd (has_object (cached_backend h B) x s))" for x
    using backend_safe.cached_has_calm [OF safe inv] by (simp add: cached_backend_def calm_def)
  show "from_bytes h d = x \<and> x \<in> dom (objs (fst t))" if "write_object (cached_backend h B) x d s = (Inr u, t)" for x d u t
    using backend_safe.cached_write(2) [OF safe inv] that by (simp add: cached_backend_def)
  show "grown (cached_inv h good objs) (\<lambda>st. objs (fst st)) (\<lambda>st. refs (fst st)) {x} s
      (snd (write_object (cached_backend h B) x d s))" for x d
    using backend_safe.cached_write(1) [OF safe inv] by (simp add: cached_backend_def)
  show "fst ` set os \<subseteq> dom (objs (fst t))" if "write_objects (cached_backend h B) os s = (Inr u, t)" for os u t
    using backend_safe.cached_writes(2) [OF safe inv] that by (simp add: cached_backend_def)
  show "grown (cached_inv h good objs) (\<lambda>st. objs (fst st)) (\<lambda>st. refs (fst st)) (fst ` set os) s
      (snd (write_objects (cached_backend h B) os s))" for os
    using backend_safe.cached_writes(1) [OF safe inv] by (simp add: cached_backend_def)
  show "r = refs (fst s) (normalize_ref n)" if "good_ref n" "read_ref (cached_backend h B) n s = (Inr r, t)" for n r t
  proof -
    have "\<exists>t'. read_ref B n (fst s) = (Inr r, t')"
      using that(2) by (cases s) (auto simp: cached_backend_def cached_read_ref_def bindS_def on_backend_def on_cache_def
          split: prod.splits sum.splits)
    then show ?thesis using backend_safe.ref_sound [OF safe fst that(1)] by blast
  qed
  show "?same s (snd (read_ref (cached_backend h B) n s))" for n
    using backend_safe.cached_read_ref_calm [OF safe inv] by (simp add: cached_backend_def calm_def)
  show "cached_inv h good objs t \<and> objs (fst t) = objs (fst s) \<and>
     (case res of
        Inr b \<Rightarrow> b = (refs (fst s) (normalize_ref n) = e) \<and>
                 refs (fst t) = (if b then (refs (fst s))(normalize_ref n \<mapsto> x) else refs (fst s))
      | Inl _ \<Rightarrow> refs (fst t) = refs (fst s) \<or>
          (refs (fst s) (normalize_ref n) = e \<and> refs (fst t) = (refs (fst s))(normalize_ref n \<mapsto> x)))"
    if "good_ref n" "valid_oid x" "cas_ref (cached_backend h B) n e x s = (res, t)" for n e x res t
    using backend_safe.cached_cas [OF safe inv that(1,2)] that(3) by (simp add: cached_backend_def)
  show "(rr \<in> set rs) = (\<exists>n x. rr = \<lparr>ref_name = n, ref_oid = Some x\<rparr> \<and> startswith n ''refs/'' \<and>
      refs (fst s) n = Some x)" if "list_refs (cached_backend h B) ''refs/'' s = (Inr rs, t)" for rs t rr
  proof -
    have "\<exists>t'. list_refs B ''refs/'' (fst s) = (Inr rs, t')"
      using that by (cases s) (auto simp: cached_backend_def cached_list_refs_def bindS_def on_backend_def on_cache_def
          split: prod.splits sum.splits)
    then show ?thesis using backend_safe.list_sound [OF safe fst] by blast
  qed
  show "?same s (snd (list_refs (cached_backend h B) p s))" for p
    using backend_safe.cached_list_refs_calm [OF safe inv] by (simp add: cached_backend_def calm_def)
  note ob = calm_on_backend [OF inv, unfolded calm_def]
  show "?same s (snd (append_journal (cached_backend h B) je s))" for je
    using ob [OF backend_safe.journal_same [OF safe]] by (simp add: cached_backend_def)
  show "?same s (snd (read_config (cached_backend h B) s))"
    using ob [OF backend_safe.read_config_same [OF safe]] by (simp add: cached_backend_def)
  show "?same s (snd (write_config (cached_backend h B) c s))" for c
    using ob [OF backend_safe.write_config_same [OF safe]] by (simp add: cached_backend_def)
qed

interpretation cached_memory: backend_safe h "cached_backend h (memory_backend h)"
    "cached_inv h (memory_inv h) memory_objs" "\<lambda>st. memory_objs (fst st)" "\<lambda>st. memory_refs (fst st)"
  for h
  by (rule cached_safe) (rule memory.backend_safe_axioms)

section \<open>Pruning\<close>

abbreviation file_size :: "string \<times> bytes \<times> int \<Rightarrow> int" where
  "file_size f \<equiv> int (length (fst (snd f)))"

lemma prune_loop_spec:
  "\<exists>k \<le> length files. prune_loop m held r files = (r + k, drop k files) \<and>
     (k = length files \<or> held - (\<Sum>f \<leftarrow> take k files. file_size f) \<le> m) \<and>
     (0 < k \<longrightarrow> held - (\<Sum>f \<leftarrow> take (k - 1) files. file_size f) > m)"
proof (induction m held r files rule: prune_loop.induct)
  case (2 m held r f files)
  show ?case
  proof (cases "held > m")
    case True
    then obtain k where k: "k \<le> length files"
      "prune_loop m (held - file_size f) (r + 1) files = (r + 1 + k, drop k files)"
      "k = length files \<or> held - file_size f - (\<Sum>f \<leftarrow> take k files. file_size f) \<le> m"
      "0 < k \<longrightarrow> held - file_size f - (\<Sum>f \<leftarrow> take (k - 1) files. file_size f) > m"
      using "2.IH" by blast
    have "held - (\<Sum>f \<leftarrow> take k (f # files). file_size f) > m"
      using k(4) True by (cases k) auto
    then show ?thesis using k True by (intro exI [of _ "Suc k"]) auto
  qed (intro exI [of _ 0]; simp)
qed simp

lemma sum_list_split: "(\<Sum>f \<leftarrow> xs. g f) = (\<Sum>f \<leftarrow> take k xs. g f) + (\<Sum>f \<leftarrow> drop k xs. g (f :: 'a) :: int)"
  by (metis append_take_drop_id map_append sum_list_append)

lemma filter_mem_drop:
  assumes "distinct xs" and "set ys = set xs" and "distinct ys"
  shows "(\<Sum>f \<leftarrow> filter (\<lambda>f. f \<in> set (drop k ys)) xs. g f) = (\<Sum>f \<leftarrow> drop k ys. g f :: int)"
proof -
  have "set (filter (\<lambda>f. f \<in> set (drop k ys)) xs) = set (drop k ys)"
    using assms(2) set_drop_subset [of k ys] by auto
  then show ?thesis using assms by (simp add: sum_list_distinct_conv_sum_set)
qed

section \<open>Properties\<close>

text \<open>C35: cached reads are verified. Whatever the cache directory holds and whatever the wrapped backend
  returns, correct or not, an object that a read through the cache hands out hashes to the id
  asked for; in particular a damaged cache file is never served.\<close>

theorem cached_read_verified:
  assumes "cached_read_object h B oid st = (Inr d, t)"
  shows "from_bytes h d = oid"
proof -
  obtain s ca where st: "st = (s, ca)" by (cases st)
  have get: "fst (cache_get_object h oid ca) = Some d' \<Longrightarrow> from_bytes h d' = oid" for d'
    using cache_get_object_trusted(2) by blast
  have put: "cache_put_object h oid d' c = (Inr u, c') \<Longrightarrow> from_bytes h d' = oid" for d' c u c'
    by (auto simp: cache_put_object_def split: if_splits)
  have fetch: "from_bytes h d = oid" if run: "cached_fetch h B oid v = (Inr d, t)" for v
  proof -
    obtain data w where "bindS (on_cache_st (cache_put_object h oid data)) (\<lambda>_. returnS data) w = (Inr d, t)"
      using run unfolding cached_fetch_def by (rule bindS_InrE)
    then have "\<exists>x. on_cache_st (cache_put_object h oid d) w = (Inr x, t)"
      by (auto simp: bindS_Inr_iff)
    then show ?thesis using put by (cases w) (auto simp: on_cache_st_def split: prod.splits)
  qed
  obtain c u where c: "on_cache (cache_get_object h oid) st = (Inr c, u)"
    and k: "(case c of Some data \<Rightarrow> returnS data
      | None \<Rightarrow> bindS (on_cache (cache_has_negative oid)) (\<lambda>negative.
        if negative then raiseS (ObjectNotFound (oid_value oid)) else cached_fetch h B oid)) u = (Inr d, t)"
    using assms unfolding cached_read_object_def by blast
  show ?thesis
  proof (cases c)
    case None
    then show ?thesis using k fetch by (auto split: if_splits)
  next
    case (Some d')
    then have "fst (cache_get_object h oid ca) = Some d'"
      using c by (auto simp: st on_cache_def split: prod.splits)
    then show ?thesis using get k Some by simp
  qed
qed

definition empty_cache :: Cache where
  "empty_cache = \<lparr>ca_objects = [], ca_negative = [], ca_refs = [], ca_counters = [], ca_nested = [],
     ca_now = 0, ca_ref_ttl = 60, ca_negative_ttl = 60\<rparr>"

theorem cached_read_verified_witness:
  "\<exists>d t. cached_read_object sample_hash (memory_backend sample_hash) (from_bytes sample_hash ''x'')
      (memory_init\<lparr>m_objects := [(from_bytes sample_hash ''x'', ''x'')]\<rparr>,
       empty_cache\<lparr>ca_objects := [(oid_value (from_bytes sample_hash ''x''), ''damaged'', 0)]\<rparr>) = (Inr d, t) \<and>
    from_bytes sample_hash d = from_bytes sample_hash ''x''"
proof -
  let ?st = "(memory_init\<lparr>m_objects := [(from_bytes sample_hash ''x'', ''x'')]\<rparr>,
       empty_cache\<lparr>ca_objects := [(oid_value (from_bytes sample_hash ''x''), ''damaged'', 0)]\<rparr>)"
  obtain d t where dt: "cached_read_object sample_hash (memory_backend sample_hash) (from_bytes sample_hash ''x'') ?st
      = (Inr d, t)"
    by (simp add: cached_read_object_def cached_fetch_def bindS_def on_cache_def cache_get_object_def
        cache_has_negative_def empty_cache_def memory_backend_def memory_read_object_def catchS_def on_backend_def
        on_cache_st_def cache_put_object_def increment_def Let_def sample_hash_def memory_init_def)
  then show ?thesis using cached_read_verified [OF dt] by blast
qed

text \<open>C36: pruning. The files are removed in the order of their last use, one by one, for as long as the bound is
  exceeded and files are left. The number \<open>k\<close> of removed files, which is returned, is so the least one after
  which the rest fits in the bound: with any fewer files removed it is exceeded. The other files stay.\<close>

theorem cache_prune_spec:
  assumes "wf_dict (ca_objects ca)" and "cache_prune m ca = (k, ca')"
    and "files = sort_key (\<lambda>f. snd (snd f)) (ca_objects ca)"
  shows "k \<le> length files \<and> set (ca_objects ca') = set (drop k files) \<and> length (ca_objects ca') = length files - k \<and>
    (k = length files \<or> (\<Sum>f \<leftarrow> drop k files. file_size f) \<le> m) \<and>
    (\<forall>j < k. m < (\<Sum>f \<leftarrow> drop j files. file_size f))"
proof -
  let ?xs = "ca_objects ca"
  have dist: "distinct ?xs" "distinct files" and set: "set files = set ?xs"
    using assms(1) by (simp_all add: assms(3) wf_dict_def distinct_map)
  obtain k' where k: "k' \<le> length files"
    "prune_loop m (\<Sum>f \<leftarrow> files. file_size f) 0 files = (k', drop k' files)"
    "k' = length files \<or> (\<Sum>f \<leftarrow> files. file_size f) - (\<Sum>f \<leftarrow> take k' files. file_size f) \<le> m"
    "0 < k' \<longrightarrow> (\<Sum>f \<leftarrow> files. file_size f) - (\<Sum>f \<leftarrow> take (k' - 1) files. file_size f) > m"
    using prune_loop_spec [of files m "\<Sum>f \<leftarrow> files. file_size f" 0] by auto
  have ca': "k = k'" "ca_objects ca' = filter (\<lambda>f. f \<in> set (drop k' files)) ?xs"
    using assms(2) k(2) by (auto simp: cache_prune_def Let_def assms(3) [symmetric])
  have set': "set (ca_objects ca') = set (drop k files)"
    using ca' set set_drop_subset [of k files] by auto
  then have "length (ca_objects ca') = length (drop k files)"
    using dist ca'(2) by (metis distinct_card distinct_drop distinct_filter)
  moreover have rest: "(\<Sum>f \<leftarrow> drop j files. file_size f) = (\<Sum>f \<leftarrow> files. file_size f) - (\<Sum>f \<leftarrow> take j files. file_size f)" for j
    using sum_list_split [where g = file_size and xs = files and k = j] by simp
  moreover have "m < (\<Sum>f \<leftarrow> drop j files. file_size f)" if "j < k" for j
  proof -
    have "drop (k - 1 - j) (drop j files) = drop (k - 1) files" using that by (simp only: drop_drop) simp
    then have "(\<Sum>f \<leftarrow> drop j files. file_size f) = (\<Sum>f \<leftarrow> take (k - 1 - j) (drop j files). file_size f) + (\<Sum>f \<leftarrow> drop (k - 1) files. file_size f)"
      using sum_list_split [where g = file_size and xs = "drop j files" and k = "k - 1 - j"] by simp
    moreover have "0 \<le> (\<Sum>f \<leftarrow> take (k - 1 - j) (drop j files). file_size f)" by (intro sum_list_nonneg) auto
    ultimately show ?thesis using k(4) that ca'(1) rest [of "k - 1"] by simp
  qed
  ultimately show ?thesis using k(1,3) ca'(1) set' by auto
qed

theorem cache_prune_spec_witness:
  "\<exists>ca'. cache_prune 3 (empty_cache\<lparr>ca_objects := [(''a'', ''12'', 5), (''b'', ''34'', 3), (''c'', ''5'', 9)]\<rparr>) = (1, ca') \<and>
    set (ca_objects ca') = {(''a'', ''12'', 5), (''c'', ''5'', 9)}"
proof -
  let ?ca = "empty_cache\<lparr>ca_objects := [(''a'', ''12'', 5), (''b'', ''34'', 3), (''c'', ''5'', 9)]\<rparr>"
  obtain ca' where c: "cache_prune 3 ?ca = (1, ca')"
    by (simp add: cache_prune_def empty_cache_def Let_def)
  moreover have "wf_dict (ca_objects ?ca)" by (simp add: wf_dict_def)
  ultimately show ?thesis using cache_prune_spec [of ?ca 3 1 ca'] by auto
qed

end
