(* ===== verification/Chunked.thy ===== *)
theory Chunked
  imports Json Ids
begin

text \<open>
  \<^verbatim>\<open>src/trunks/chunked.py\<close>: objects above four mebibytes are stored as chunks and a JSON
  manifest. \<open>h\<close> is SHA-1 as before and \<open>h2\<close> is SHA-256. \<open>assemble_encode\<close>: what was encoded is
  assembled back; \<open>assemble_sound\<close>: whatever the manifest and the chunks hold, a result has the
  id the manifest names.
\<close>

section \<open>Definitions\<close>

definition CHUNK_SIZE :: nat where "CHUNK_SIZE = 4 * 1024 * 1024"
definition CHUNK_THRESHOLD :: nat where "CHUNK_THRESHOLD = CHUNK_SIZE"
definition CHUNK_VERSION :: int where "CHUNK_VERSION = 1"

text \<open>The id of an entry is whatever the document holds; it is compared with a digest later.\<close>

record ChunkEntry =
  ce_id :: json
  ce_offset :: int
  ce_length :: int

record ChunkManifest =
  cm_oid :: ObjectId
  cm_size :: int
  cm_chunks :: "ChunkEntry list"

definition should_chunk :: "bytes \<Rightarrow> bool" where
  "should_chunk data \<longleftrightarrow> length data > CHUNK_THRESHOLD"

text \<open>\<^verbatim>\<open>ObjectId(value)\<close> on a decoded value. (A list of forty one-digit strings, which the check of the
  constructor lets through, is refused here.)\<close>

definition json_oid :: "json \<Rightarrow> ObjectId res" where
  "json_oid v = (case v of JStr s \<Rightarrow> mk_ObjectId s
     | JList _ \<Rightarrow> Inl (ValueError ''invalid SHA-1 object id'')
     | JObj _ \<Rightarrow> Inl (ValueError ''invalid SHA-1 object id'')
     | _ \<Rightarrow> Inl (TypeError ''object has no len()''))"

text \<open>\<^verbatim>\<open>range(0, len(data), chunk_size)\<close>\<close>

definition chunk_offsets :: "nat \<Rightarrow> nat \<Rightarrow> nat list" where
  "chunk_offsets n step = map (\<lambda>i. i * step) [0..<(n + step - 1) div step]"

definition encode_chunked_object ::
  "hash \<Rightarrow> hash \<Rightarrow> nat \<Rightarrow> ObjectId \<Rightarrow> bytes \<Rightarrow> (bytes \<times> (string \<times> bytes) list) res" where
  "encode_chunked_object h h2 chunk_size oid data =
    (if from_bytes h data \<noteq> oid then Inl (ValueError ''object id does not match object data'')
     else if chunk_size = 0 then Inl (ValueError ''range() arg 3 must not be zero'')
     else
       (let parts = map (\<lambda>offset. (offset, slice offset (offset + chunk_size) data))
              (chunk_offsets (length data) chunk_size);
            chunks = map (\<lambda>(offset, chunk). (hex_bytes (h2 chunk), chunk)) parts;
            entries = map (\<lambda>(offset, chunk). JObj [(''id'', JStr (hex_bytes (h2 chunk))),
              (''offset'', JInt (int offset)), (''length'', JInt (int (length chunk)))]) parts;
            manifest = JObj [(''version'', JInt CHUNK_VERSION), (''oid'', JStr (oid_value oid)),
              (''size'', JInt (int (length data))), (''chunks'', JList entries)]
        in Inr (dumps compact (sort_keys manifest), chunks)))"

definition decode_chunk_entry :: "json \<Rightarrow> ChunkEntry res" where
  "decode_chunk_entry item =
    bindR (jitem item ''id'') (\<lambda>i.
    bindR (bindR (jitem item ''offset'') jint) (\<lambda>offset.
    bindR (bindR (jitem item ''length'') jint) (\<lambda>len.
    Inr \<lparr>ce_id = i, ce_offset = offset, ce_length = len\<rparr>)))"

definition decode_manifest :: "bytes \<Rightarrow> ChunkManifest res" where
  "decode_manifest data =
    bindR (decode_utf8 data) (\<lambda>text.
    bindR (loads text) (\<lambda>raw.
    bindR (jget raw ''version'') (\<lambda>version.
    if \<not> json_is_int version CHUNK_VERSION then Inl (ValueError ''unsupported chunk manifest version'')
    else
      bindR (bindR (jitem raw ''oid'') json_oid) (\<lambda>oid.
      bindR (bindR (jitem raw ''size'') jint) (\<lambda>size.
      bindR (bindR (jget raw ''chunks'') json_items) (\<lambda>items.
      bindR (mapR decode_chunk_entry items) (\<lambda>entries.
      Inr \<lparr>cm_oid = oid, cm_size = size, cm_chunks = entries\<rparr>)))))))"

text \<open>\<^verbatim>\<open>out[a:b] = chunk\<close> on a bytearray: indices from the end when negative, cut to the length.\<close>

definition slice_index :: "nat \<Rightarrow> int \<Rightarrow> nat" where
  "slice_index n i = nat (if i < 0 then max 0 (i + int n) else min i (int n))"

definition slice_assign :: "int \<Rightarrow> int \<Rightarrow> bytes \<Rightarrow> bytes \<Rightarrow> bytes" where
  "slice_assign a b chunk out =
    (let start = slice_index (length out) a; stop = max start (slice_index (length out) b)
     in take start out @ chunk @ drop stop out)"

definition place_chunk :: "hash \<Rightarrow> bytes \<Rightarrow> ChunkEntry \<times> bytes \<Rightarrow> bytes res" where
  "place_chunk h2 out ec =
    (case ec of (entry, chunk) \<Rightarrow>
      if int (length chunk) \<noteq> ce_length entry then Inl (ValueError ''chunk length mismatch'')
      else if JStr (hex_bytes (h2 chunk)) \<noteq> ce_id entry then Inl (ValueError ''chunk checksum mismatch'')
      else Inr (slice_assign (ce_offset entry) (ce_offset entry + ce_length entry) chunk out))"

definition assemble_chunked_object :: "hash \<Rightarrow> hash \<Rightarrow> bytes \<Rightarrow> bytes list \<Rightarrow> bytes res" where
  "assemble_chunked_object h h2 manifest_bytes chunks =
    bindR (decode_manifest manifest_bytes) (\<lambda>manifest.
    if length chunks \<noteq> length (cm_chunks manifest) then Inl (ValueError ''chunk count mismatch'')
    else if cm_size manifest < 0 then Inl (ValueError ''negative count'')
    else
      bindR (foldR (place_chunk h2) (replicate (nat (cm_size manifest)) NUL) (zip (cm_chunks manifest) chunks)) (\<lambda>data.
      if from_bytes h data \<noteq> cm_oid manifest then Inl (ValueError ''chunked object checksum mismatch'')
      else Inr data))"

section \<open>Lemmas\<close>

definition entry_json :: "hash \<Rightarrow> nat \<times> bytes \<Rightarrow> json" where
  "entry_json h2 p = JObj [(''id'', JStr (hex_bytes (h2 (snd p)))), (''length'', JInt (int (length (snd p)))),
     (''offset'', JInt (int (fst p)))]"

definition entry_of :: "hash \<Rightarrow> nat \<times> bytes \<Rightarrow> ChunkEntry" where
  "entry_of h2 p = \<lparr>ce_id = JStr (hex_bytes (h2 (snd p))), ce_offset = int (fst p), ce_length = int (length (snd p))\<rparr>"

lemma sort_keys_entry:
  "sort_keys (JObj [(''id'', JStr i), (''offset'', JInt a), (''length'', JInt b)]) =
   JObj [(''id'', JStr i), (''length'', JInt b), (''offset'', JInt a)]"
  by (simp add: less_char_def ordc_def)

definition chunk_parts :: "nat \<Rightarrow> bytes \<Rightarrow> (nat \<times> bytes) list" where
  "chunk_parts step data = map (\<lambda>offset. (offset, slice offset (offset + step) data)) (chunk_offsets (length data) step)"

definition manifest_json :: "hash \<Rightarrow> nat \<Rightarrow> ObjectId \<Rightarrow> bytes \<Rightarrow> json" where
  "manifest_json h2 step oid data = JObj [(''chunks'', JList (map (entry_json h2) (chunk_parts step data))),
     (''oid'', JStr (oid_value oid)), (''size'', JInt (int (length data))), (''version'', JInt CHUNK_VERSION)]"

lemma encode_eq:
  assumes "from_bytes h data = oid" and "0 < step"
  shows "encode_chunked_object h h2 step oid data =
    Inr (dumps compact (manifest_json h2 step oid data), map (\<lambda>p. (hex_bytes (h2 (snd p)), snd p)) (chunk_parts step data))"
  using assms
  by (simp add: encode_chunked_object_def manifest_json_def chunk_parts_def entry_json_def Let_def
      less_char_def case_prod_beta o_def)

lemma hex_ascii: "ascii_str (hex_bytes d)"
  using hex_bytes_is_hex is_hex_ascii by (fastforce simp: ascii_str_def)

lemma entry_ascii: "ascii_json (entry_json h2 p)"
proof -
  have "ascii_str ''id''" "ascii_str ''length''" "ascii_str ''offset''"
    by (simp_all add: ascii_str_def ordc_def)
  then show ?thesis by (simp add: entry_json_def hex_ascii)
qed

lemma manifest_ascii:
  assumes "valid_oid oid"
  shows "ascii_json (manifest_json h2 step oid data)"
proof -
  have "ascii_str (oid_value oid)" using valid_oid_ascii [OF assms] by (auto simp: ascii_str_def)
  moreover have "ascii_str ''chunks''" "ascii_str ''oid''" "ascii_str ''size''" "ascii_str ''version''"
    by (simp_all add: ascii_str_def ordc_def)
  ultimately show ?thesis by (simp add: manifest_json_def entry_ascii)
qed

lemma decode_entry: "decode_chunk_entry (entry_json h2 p) = Inr (entry_of h2 p)"
  by (simp add: decode_chunk_entry_def entry_json_def entry_of_def jitem_def jint_def)

lemma decode_manifest_dumps:
  assumes "valid_oid oid"
  shows "decode_manifest (dumps compact (manifest_json h2 step oid data)) =
    Inr \<lparr>cm_oid = oid, cm_size = int (length data), cm_chunks = map (entry_of h2) (chunk_parts step data)\<rparr>"
proof -
  have a: "ascii_json (manifest_json h2 step oid data)" by (rule manifest_ascii [OF assms])
  then have "is_str (dumps compact (manifest_json h2 step oid data))"
    by (intro is_str_ascii) (auto dest: ascii_dumps)
  moreover have "mapR decode_chunk_entry (map (entry_json h2) ps) = Inr (map (entry_of h2) ps)" for ps
    by (induction ps) (simp_all add: decode_entry)
  moreover have "mk_ObjectId (oid_value oid) = Inr oid" by (rule mk_ObjectId_value [OF assms])
  ultimately show ?thesis
    using loads_dumps_sep [OF a, of compact]
    by (simp add: decode_manifest_def manifest_json_def jget_def jitem_def jint_def json_is_int_def json_items_def
        json_oid_def)
qed

section \<open>Assembling what was encoded\<close>

lemma slice_index_int: "slice_index n (int a) = min a n"
  by (simp add: slice_index_def flip: of_nat_min)

lemma slice_assign_inside:
  assumes "a + length chunk \<le> length out"
  shows "slice_assign (int a) (int a + int (length chunk)) chunk out =
    take a out @ chunk @ drop (a + length chunk) out"
proof -
  have "int a + int (length chunk) = int (a + length chunk)" by simp
  then show ?thesis
    unfolding slice_assign_def Let_def using assms by (simp only: slice_index_int) (simp add: min_def max_def)
qed

lemma place_chunk_step:
  fixes data :: bytes
  assumes "i * step < length data"
  shows "place_chunk h2 (take (i * step) data @ replicate (length data - i * step) NUL)
      (entry_of h2 (i * step, slice (i * step) (i * step + step) data), slice (i * step) (i * step + step) data) =
    Inr (take (Suc i * step) data @ replicate (length data - Suc i * step) NUL)"
proof -
  let ?out = "take (i * step) data @ replicate (length data - i * step) NUL"
  let ?c = "slice (i * step) (i * step + step) data"
  have c: "?c = take step (drop (i * step) data)" by (simp add: slice_def take_drop add.commute)
  have len: "i * step + length ?c \<le> length ?out" using assms by (simp add: c)
  have "take (i * step) data @ ?c = take (i * step + step) data" by (simp add: c take_add)
  moreover have "length ?c = min step (length data - i * step)" by (simp add: c)
  then have "drop (i * step + length ?c) ?out = replicate (length data - Suc i * step) NUL"
    using assms by (simp add: min_def add.commute [of step])
  moreover have "take (i * step) ?out = take (i * step) data" using assms by simp
  ultimately have "slice_assign (int (i * step)) (int (i * step) + int (length ?c)) ?c ?out =
      take (Suc i * step) data @ replicate (length data - Suc i * step) NUL"
    unfolding slice_assign_inside [OF len] by (simp add: add.commute)
  then show ?thesis by (simp add: place_chunk_def entry_of_def)
qed

lemma place_chunks:
  fixes data :: bytes
  assumes "0 < step" and "k \<le> (length data + step - 1) div step"
  shows "foldR (place_chunk h2) (take (k * step) data @ replicate (length data - k * step) NUL)
     (map (\<lambda>i. (entry_of h2 (i * step, slice (i * step) (i * step + step) data), slice (i * step) (i * step + step) data))
        [k..<(length data + step - 1) div step]) = Inr data"
  using assms(2)
proof (induction rule: inc_induct)
  case base
  have "length data \<le> (length data + step - 1) div step * step"
    using assms(1) div_mult_mod_eq [of "length data + step - 1" step] mod_less_divisor [OF assms(1), of "length data + step - 1"]
    by linarith
  then show ?case by simp
next
  case (step i)
  have "i * step < length data"
  proof -
    have "Suc i * step \<le> (length data + step - 1) div step * step" using step.hyps(2) by (intro mult_right_mono) auto
    also have "\<dots> \<le> length data + step - 1" by (simp add: div_times_less_eq_dividend)
    finally show ?thesis using assms(1) by simp
  qed
  then show ?case
    using step place_chunk_step [of i step data h2] by (simp add: upt_conv_Cons)
qed

lemma assemble_encode:
  assumes "digest20 h" and "encode_chunked_object h h2 step oid data = Inr (manifest, chunks)"
  shows "assemble_chunked_object h h2 manifest (map snd chunks) = Inr data"
proof -
  have oid: "from_bytes h data = oid" and pos: "0 < step"
    using assms(2) by (auto simp: encode_chunked_object_def split: if_splits)
  then have valid: "valid_oid oid" using assms(1) by auto
  have m: "manifest = dumps compact (manifest_json h2 step oid data)"
    and c: "map snd chunks = map snd (chunk_parts step data)"
    using assms(2) by (auto simp: encode_eq [OF oid pos] o_def)
  have "foldR (place_chunk h2) (replicate (length data) NUL)
      (zip (map (entry_of h2) (chunk_parts step data)) (map snd (chunk_parts step data))) = Inr data"
    using place_chunks [OF pos, of 0 data h2]
    by (simp add: chunk_parts_def chunk_offsets_def zip_map_map zip_same_conv_map o_def)
  then show ?thesis
    by (simp add: assemble_chunked_object_def m c decode_manifest_dumps [OF valid] oid)
qed

lemma assemble_sound:
  assumes "decode_manifest manifest = Inr m" and "assemble_chunked_object h h2 manifest chunks = Inr data"
  shows "from_bytes h data = cm_oid m"
  using assms by (auto simp: assemble_chunked_object_def split: if_splits)

section \<open>Properties\<close>

text \<open>C34: chunking is lossless and tamper-evident. Whatever the chunk size, assembling the chunks an object
  was split into gives the object back; and for any manifest and any chunks at all, an object
  that \<^verbatim>\<open>assemble_chunked_object\<close> returns hashes to the id the manifest names.\<close>

theorem chunked_roundtrip:
  assumes "digest20 h" and "encode_chunked_object h h2 chunk_size oid data = Inr (manifest, chunks)"
  shows "assemble_chunked_object h h2 manifest (map snd chunks) = Inr data \<and>
    (\<forall>m cs d. assemble_chunked_object h h2 m cs = Inr d \<longrightarrow>
       (\<exists>x. decode_manifest m = Inr x \<and> from_bytes h d = cm_oid x))"
proof -
  have "\<exists>x. decode_manifest m = Inr x \<and> from_bytes h d = cm_oid x"
    if "assemble_chunked_object h h2 m cs = Inr d" for m cs d
    using that assemble_sound by (auto simp: assemble_chunked_object_def split: if_splits)
  then show ?thesis using assemble_encode [OF assms] by blast
qed

theorem chunked_roundtrip_witness:
  "\<exists>manifest chunks. encode_chunked_object sample_hash sample_hash 3 (from_bytes sample_hash ''0123456789'')
      ''0123456789'' = Inr (manifest, chunks) \<and> length chunks = 4 \<and>
    assemble_chunked_object sample_hash sample_hash manifest (map snd chunks) = Inr ''0123456789''"
proof -
  let ?e = "encode_chunked_object sample_hash sample_hash 3 (from_bytes sample_hash ''0123456789'') ''0123456789''"
  obtain m cs where e: "?e = Inr (m, cs)" by (simp add: encode_eq)
  moreover have "length cs = 4"
    using e by (auto simp: encode_eq chunk_parts_def chunk_offsets_def)
  ultimately show ?thesis using chunked_roundtrip [OF digest20_sample e] by blast
qed

end
