(* ===== verification/Segment.thy ===== *)
theory Segment
  imports Chunked Objects
begin

text \<open>
  \<^verbatim>\<open>src/trunks/segment.py\<close>: many small objects packed into one file with a JSON index.
  \<open>read_encode_hit\<close> and \<open>read_encode_miss\<close>: a packed object is read back and an object that was
  not packed is reported missing; \<open>read_segment_sound\<close>: whatever the two files hold, a result
  hashes to the id asked for.
\<close>

section \<open>Definitions\<close>

definition MAGIC :: bytes where "MAGIC = ''TRUNKSSEG1'' @ [NUL]"
definition SEGMENT_VERSION :: int where "SEGMENT_VERSION = 1"

record SegmentEntry =
  se_oid :: ObjectId
  se_kind :: json
  se_offset :: int
  se_length :: int

record SegmentIndex =
  si_data_sha256 :: json
  si_entries :: "SegmentEntry list"

definition segment_unique :: "hash \<Rightarrow> (ObjectId \<times> bytes) list \<Rightarrow> (ObjectId, bytes) dict res" where
  "segment_unique h objects =
    foldR (\<lambda>unique (oid, data).
      if from_bytes h data \<noteq> oid then Inl (ValueError ''object id does not match object data'')
      else Inr (setdefault oid data unique)) [] objects"

text \<open>The loop over the sorted ids: the payload so far and the entries so far, as (id, kind, offset,
  length).\<close>

definition segment_add ::
  "bytes \<times> (ObjectId \<times> string \<times> nat \<times> nat) list \<Rightarrow> ObjectId \<times> bytes \<Rightarrow>
   (bytes \<times> (ObjectId \<times> string \<times> nat \<times> nat) list) res" where
  "segment_add st od =
    (case st of (payload, entries) \<Rightarrow> case od of (oid, data) \<Rightarrow>
      bindR (parse_canonical_object data) (\<lambda>(kind, _).
      Inr (payload @ data, entries @ [(oid, kind, length payload, length data)])))"

definition segment_entry_json :: "ObjectId \<times> string \<times> nat \<times> nat \<Rightarrow> json" where
  "segment_entry_json e = (case e of (oid, kind, offset, len) \<Rightarrow>
     JObj [(''oid'', JStr (oid_value oid)), (''kind'', JStr kind), (''offset'', JInt (int offset)),
           (''length'', JInt (int len))])"

definition encode_segment :: "hash \<Rightarrow> hash \<Rightarrow> (ObjectId \<times> bytes) list \<Rightarrow> (string \<times> bytes \<times> bytes) res" where
  "encode_segment h h2 objects =
    bindR (segment_unique h objects) (\<lambda>unique.
    bindR (foldR segment_add (MAGIC, []) (sort_key fst unique)) (\<lambda>(segment, entries).
    let doc = JObj [(''version'', JInt SEGMENT_VERSION), (''data_sha256'', JStr (hex_bytes (h2 segment))),
                    (''objects'', JList (map segment_entry_json entries))];
        index = dumps compact (sort_keys doc);
        segment_id = hex_bytes (h2 (index @ [NUL] @ segment))
    in Inr (segment_id, segment, index)))"

definition decode_segment_entry :: "json \<Rightarrow> SegmentEntry res" where
  "decode_segment_entry item =
    bindR (bindR (jitem item ''oid'') json_oid) (\<lambda>oid.
    bindR (jitem item ''kind'') (\<lambda>kind.
    bindR (bindR (jitem item ''offset'') jint) (\<lambda>offset.
    bindR (bindR (jitem item ''length'') jint) (\<lambda>len.
    Inr \<lparr>se_oid = oid, se_kind = kind, se_offset = offset, se_length = len\<rparr>))))"

definition decode_index :: "bytes \<Rightarrow> SegmentIndex res" where
  "decode_index data =
    bindR (decode_utf8 data) (\<lambda>text.
    bindR (loads text) (\<lambda>doc.
    bindR (jget doc ''version'') (\<lambda>version.
    if \<not> json_is_int version SEGMENT_VERSION then Inl (ValueError ''unsupported segment index version'')
    else
      bindR (bindR (jget doc ''objects'') json_items) (\<lambda>items.
      bindR (mapR decode_segment_entry items) (\<lambda>entries.
      bindR (jitem doc ''data_sha256'') (\<lambda>sha.
      Inr \<lparr>si_data_sha256 = sha, si_entries = entries\<rparr>))))))"

text \<open>\<^verbatim>\<open>segment[a:b]\<close> with Python's reading of bounds.\<close>

definition py_slice :: "int \<Rightarrow> int \<Rightarrow> bytes \<Rightarrow> bytes" where
  "py_slice a b s = slice (slice_index (length s) a) (slice_index (length s) b) s"

fun find_entry :: "hash \<Rightarrow> bytes \<Rightarrow> ObjectId \<Rightarrow> SegmentEntry list \<Rightarrow> bytes res" where
  "find_entry h segment oid [] = Inl (ObjectNotFound (oid_value oid))"
| "find_entry h segment oid (entry # rest) =
    (if se_oid entry \<noteq> oid then find_entry h segment oid rest
     else
       (let e' = se_offset entry + se_length entry in
        if se_offset entry < int (length MAGIC) \<or> e' > int (length segment)
        then Inl (ValueError ''segment entry points outside data'')
        else
          (let data = py_slice (se_offset entry) e' segment in
           if from_bytes h data \<noteq> oid then Inl (ValueError ''segment object checksum mismatch'')
           else
             bindR (parse_canonical_object data) (\<lambda>(kind, _).
             if JStr kind \<noteq> se_kind entry then Inl (ValueError ''segment object kind mismatch'')
             else Inr data))))"

definition read_segment_object :: "hash \<Rightarrow> hash \<Rightarrow> bytes \<Rightarrow> bytes \<Rightarrow> ObjectId \<Rightarrow> bytes res" where
  "read_segment_object h h2 segment index oid =
    bindR (decode_index index) (\<lambda>decoded.
    if \<not> startswith segment MAGIC then Inl (ValueError ''invalid segment magic'')
    else if JStr (hex_bytes (h2 segment)) \<noteq> si_data_sha256 decoded then Inl (ValueError ''segment checksum mismatch'')
    else find_entry h segment oid (si_entries decoded))"

section \<open>Soundness\<close>

lemma find_entry_sound: "find_entry h segment oid es = Inr d \<Longrightarrow> from_bytes h d = oid"
  by (induction es) (auto simp: Let_def split: if_splits)

lemma read_segment_sound: "read_segment_object h h2 segment index oid = Inr d \<Longrightarrow> from_bytes h d = oid"
  by (auto simp: read_segment_object_def split: if_splits dest: find_entry_sound)

section \<open>Reading what was packed\<close>

definition kind_of :: "bytes \<Rightarrow> string" where
  "kind_of d = (case parse_canonical_object d of Inr (k, _) \<Rightarrow> k | Inl _ \<Rightarrow> [])"

fun layout :: "nat \<Rightarrow> (ObjectId \<times> bytes) list \<Rightarrow> (ObjectId \<times> string \<times> nat \<times> nat) list" where
  "layout n [] = []"
| "layout n ((oid, data) # us) = (oid, kind_of data, n, length data) # layout (n + length data) us"

definition decoded :: "ObjectId \<times> string \<times> nat \<times> nat \<Rightarrow> SegmentEntry" where
  "decoded e = (case e of (oid, kind, offset, len) \<Rightarrow>
     \<lparr>se_oid = oid, se_kind = JStr kind, se_offset = int offset, se_length = int len\<rparr>)"

lemma decoded_Pair [simp]: "decoded (oid, kind, offset, len) =
    \<lparr>se_oid = oid, se_kind = JStr kind, se_offset = int offset, se_length = int len\<rparr>"
  by (simp add: decoded_def)

lemma git_object_kind:
  assumes "git_object d"
  obtains p where "parse_canonical_object d = Inr (kind_of d, p)"
    and "kind_of d \<in> {''blob'', ''tree'', ''commit'', ''tag''}"
  using assms by (auto simp: git_object_def kind_of_def split: sum.splits prod.splits)

lemma segment_add_fold:
  assumes "list_all (\<lambda>u. git_object (snd u)) us"
  shows "foldR segment_add (p, es) us = Inr (p @ concat (map snd us), es @ layout (length p) us)"
  using assms
proof (induction us arbitrary: p es)
  case (Cons u us)
  obtain o' d where u: "u = (o', d)" by (cases u)
  then have "git_object d" using Cons.prems by auto
  then obtain q where "parse_canonical_object d = Inr (kind_of d, q)" by (rule git_object_kind)
  then have "segment_add (p, es) u = Inr (p @ d, es @ [(o', kind_of d, length p, length d)])"
    by (simp add: segment_add_def u)
  then show ?case using Cons u by simp
qed simp

lemma py_slice_middle: "py_slice (int (length a)) (int (length a + length d)) (a @ d @ b) = d"
  by (simp add: py_slice_def slice_index_int slice_def del: of_nat_add)

lemma find_entry_layout:
  assumes "segment = pre @ concat (map snd us) @ post" and "length MAGIC \<le> length pre" and "wf_dict us"
    and "\<forall>p \<in> set us. git_object (snd p) \<and> from_bytes h (snd p) = fst p"
  shows "find_entry h segment oid (map decoded (layout (length pre) us)) =
    (case map_of us oid of Some d \<Rightarrow> Inr d | None \<Rightarrow> Inl (ObjectNotFound (oid_value oid)))"
  using assms
proof (induction us arbitrary: pre)
  case (Cons u us)
  obtain o' d where u: "u = (o', d)" by (cases u)
  then have d: "git_object d" "from_bytes h d = o'" using Cons.prems(4) by auto
  obtain q where q: "parse_canonical_object d = Inr (kind_of d, q)" using d(1) by (rule git_object_kind)
  have ih: "find_entry h segment oid (map decoded (layout (length pre + length d) us)) =
    (case map_of us oid of Some d \<Rightarrow> Inr d | None \<Rightarrow> Inl (ObjectNotFound (oid_value oid)))"
    using Cons.IH [of "pre @ d"] Cons.prems u by (auto simp: wf_dict_def)
  show ?case
  proof (cases "o' = oid")
    case True
    have "py_slice (int (length pre)) (int (length pre) + int (length d)) segment = d"
      using Cons.prems(1) u py_slice_middle [of pre d "concat (map snd us) @ post"] by simp
    then show ?thesis using True d q Cons.prems(1,2) u by (simp add: Let_def)
  qed (use ih u in simp)
qed simp

lemma segment_unique_spec:
  assumes "segment_unique h objects = Inr u"
  shows "wf_dict u \<and> (\<forall>x. x \<in> dom (map_of u) \<longleftrightarrow> x \<in> fst ` set objects) \<and>
    (\<forall>p \<in> set u. p \<in> set objects \<and> from_bytes h (snd p) = fst p)"
proof -
  let ?f = "\<lambda>unique (oid, data). if from_bytes h data \<noteq> oid
      then Inl (ValueError ''object id does not match object data'') else Inr (setdefault oid data unique)"
  have "foldR ?f u0 objects = Inr u \<Longrightarrow> wf_dict u0 \<Longrightarrow> wf_dict u \<and>
      (\<forall>x. x \<in> dom (map_of u) \<longleftrightarrow> x \<in> fst ` set objects \<union> dom (map_of u0)) \<and>
      (\<forall>p \<in> set u. p \<in> set u0 \<or> (p \<in> set objects \<and> from_bytes h (snd p) = fst p))" for u0
  proof (induction objects arbitrary: u0)
    case (Cons p objects)
    obtain x d where p: "p = (x, d)" by (cases p)
    have x: "from_bytes h d = x" and rest: "foldR ?f (setdefault x d u0) objects = Inr u"
      using Cons.prems(1) p by (auto split: if_splits)
    have dom: "dom (map_of (setdefault x d u0)) = insert x (dom (map_of u0))"
      by (auto simp: map_of_setdefault split: option.splits if_splits)
    have sub: "set (setdefault x d u0) \<subseteq> insert (x, d) (set u0)"
      by (auto simp: setdefault_def split: option.splits)
    have ih: "wf_dict u \<and>
      (\<forall>y. y \<in> dom (map_of u) \<longleftrightarrow> y \<in> fst ` set objects \<union> dom (map_of (setdefault x d u0))) \<and>
      (\<forall>p \<in> set u. p \<in> set (setdefault x d u0) \<or> (p \<in> set objects \<and> from_bytes h (snd p) = fst p))"
      using Cons.prems(2) by (intro Cons.IH [OF rest]) simp
    have "\<forall>q \<in> set u. q \<in> set u0 \<or> (q \<in> set (p # objects) \<and> from_bytes h (snd q) = fst q)"
      using ih sub p x by fastforce
    then show ?case using ih dom p by (simp only: Un_insert_right) simp
  qed simp
  from this [of "[]", OF assms [unfolded segment_unique_def]] show ?thesis by simp
qed

lemma segment_unique_ok:
  "(\<And>x d. (x, d) \<in> set objects \<Longrightarrow> from_bytes h d = x) \<Longrightarrow> ok (segment_unique h objects)"
proof -
  let ?f = "\<lambda>unique (oid, data). if from_bytes h data \<noteq> oid
      then Inl (ValueError ''object id does not match object data'') else Inr (setdefault oid data unique)"
  assume "\<And>x d. (x, d) \<in> set objects \<Longrightarrow> from_bytes h d = x"
  then have "ok (foldR ?f u0 objects)" for u0
    by (induction objects arbitrary: u0) auto
  then show ?thesis by (simp add: segment_unique_def)
qed

section \<open>The index\<close>

definition segment_doc :: "hash \<Rightarrow> bytes \<Rightarrow> (ObjectId \<times> string \<times> nat \<times> nat) list \<Rightarrow> json" where
  "segment_doc h2 segment entries = JObj [(''data_sha256'', JStr (hex_bytes (h2 segment))),
     (''objects'', JList (map (\<lambda>(oid, kind, offset, len).
        JObj [(''kind'', JStr kind), (''length'', JInt (int len)), (''offset'', JInt (int offset)),
              (''oid'', JStr (oid_value oid))]) entries)),
     (''version'', JInt SEGMENT_VERSION)]"

lemma sort_keys_doc:
  "sort_keys (JObj [(''version'', JInt SEGMENT_VERSION), (''data_sha256'', JStr (hex_bytes (h2 segment))),
      (''objects'', JList (map segment_entry_json entries))]) = segment_doc h2 segment entries"
  by (simp add: segment_doc_def segment_entry_json_def less_char_def case_prod_beta o_def)

definition wf_layout :: "ObjectId \<times> string \<times> nat \<times> nat \<Rightarrow> bool" where
  "wf_layout e \<longleftrightarrow> valid_oid (fst e) \<and> ascii_str (fst (snd e))"

lemma segment_doc_ascii:
  assumes "list_all wf_layout entries"
  shows "ascii_json (segment_doc h2 segment entries)"
proof -
  have "ascii_str ''kind''" "ascii_str ''length''" "ascii_str ''offset''" "ascii_str ''oid''"
    "ascii_str ''data_sha256''" "ascii_str ''objects''" "ascii_str ''version''"
    by (simp_all add: ascii_str_def ordc_def)
  moreover have "ascii_str (oid_value x)" if "valid_oid x" for x
    using valid_oid_ascii [OF that] by (auto simp: ascii_str_def)
  ultimately show ?thesis
    using assms by (auto simp: segment_doc_def hex_ascii list_all_iff wf_layout_def)
qed

lemma decode_index_dumps:
  assumes "list_all wf_layout entries"
  shows "decode_index (dumps compact (segment_doc h2 segment entries)) =
    Inr \<lparr>si_data_sha256 = JStr (hex_bytes (h2 segment)), si_entries = map decoded entries\<rparr>"
proof -
  have a: "ascii_json (segment_doc h2 segment entries)" by (rule segment_doc_ascii [OF assms])
  then have "is_str (dumps compact (segment_doc h2 segment entries))"
    by (intro is_str_ascii) (auto dest: ascii_dumps)
  moreover have "mapR decode_segment_entry (map (\<lambda>(oid, kind, offset, len).
        JObj [(''kind'', JStr kind), (''length'', JInt (int len)), (''offset'', JInt (int offset)),
              (''oid'', JStr (oid_value oid))]) entries) = Inr (map decoded entries)"
    using assms
    by (induction entries) (auto simp: decode_segment_entry_def jitem_def jint_def json_oid_def wf_layout_def
        mk_ObjectId_value)
  ultimately show ?thesis
    using loads_dumps_sep [OF a, of compact]
    by (simp add: decode_index_def segment_doc_def jget_def jitem_def json_is_int_def json_items_def)
qed

lemma layout_wf:
  assumes "list_all (\<lambda>u. git_object (snd u) \<and> valid_oid (fst u)) us"
  shows "list_all wf_layout (layout n us)"
  using assms
proof (induction n us rule: layout.induct)
  case (2 n oid data us)
  then have "ascii_str (kind_of data)"
    by (auto simp: ascii_str_def ordc_def elim!: git_object_kind)
  then show ?case using 2 by (simp add: wf_layout_def)
qed simp

lemma encode_segment_eq:
  assumes "segment_unique h objects = Inr u" and "list_all (\<lambda>p. git_object (snd p)) u"
  defines "us \<equiv> sort_key fst u"
  shows "encode_segment h h2 objects =
    (let segment = MAGIC @ concat (map snd us);
         index = dumps compact (segment_doc h2 segment (layout (length MAGIC) us))
     in Inr (hex_bytes (h2 (index @ [NUL] @ segment)), segment, index))"
proof -
  have "list_all (\<lambda>p. git_object (snd p)) us" using assms(2) by (simp add: us_def list_all_iff)
  from segment_add_fold [OF this, of MAGIC "[]"] show ?thesis
    using assms(1) sort_keys_doc by (simp add: encode_segment_def us_def Let_def del: sort_keys.simps)
qed

lemma wf_dict_sort: "wf_dict (sort_key fst u) = wf_dict u"
  by (simp add: wf_dict_def distinct_map)

lemma map_of_sort: "wf_dict u \<Longrightarrow> map_of (sort_key fst u) = map_of u"
proof
  fix x assume "wf_dict u"
  then have "map_of (sort_key fst u) x = Some v \<longleftrightarrow> map_of u x = Some v" for v
    by (simp add: wf_dict_map_of_iff wf_dict_sort)
  then show "map_of (sort_key fst u) x = map_of u x" by (metis option.exhaust)
qed

text \<open>Packing objects of Git's kinds under their own ids succeeds, and reading any id from the
  result gives what was packed first under it, or reports it missing.\<close>

lemma read_encode:
  assumes "digest20 h" and "list_all (\<lambda>p. from_bytes h (snd p) = fst p \<and> git_object (snd p)) objects"
  shows "\<exists>sid segment index. encode_segment h h2 objects = Inr (sid, segment, index) \<and>
    (\<forall>oid. oid \<in> fst ` set objects \<longrightarrow>
       (\<exists>d. (oid, d) \<in> set objects \<and> read_segment_object h h2 segment index oid = Inr d)) \<and>
    (\<forall>oid. oid \<notin> fst ` set objects \<longrightarrow>
       read_segment_object h h2 segment index oid = Inl (ObjectNotFound (oid_value oid)))"
proof -
  obtain u where u: "segment_unique h objects = Inr u"
    using segment_unique_ok [of objects h] assms(2) by (force simp: ok_iff list_all_iff)
  note spec = segment_unique_spec [OF u]
  define us where "us = sort_key fst u"
  have us: "list_all (\<lambda>p. git_object (snd p) \<and> valid_oid (fst p)) us"
    using spec assms by (auto simp: us_def list_all_iff) (metis valid_from_bytes snd_conv fst_conv)+
  have git: "list_all (\<lambda>p. git_object (snd p)) u" using us by (auto simp: us_def list_all_iff)
  define segment where "segment = MAGIC @ concat (map snd us)"
  define index where "index = dumps compact (segment_doc h2 segment (layout (length MAGIC) us))"
  have enc: "encode_segment h h2 objects = Inr (hex_bytes (h2 (index @ [NUL] @ segment)), segment, index)"
    using encode_segment_eq [OF u git, of h2] by (simp add: us_def segment_def index_def Let_def)
  have read: "read_segment_object h h2 segment index oid =
      (case map_of u oid of Some d \<Rightarrow> Inr d | None \<Rightarrow> Inl (ObjectNotFound (oid_value oid)))" for oid
  proof -
    have "find_entry h segment oid (map decoded (layout (length MAGIC) us)) =
        (case map_of us oid of Some d \<Rightarrow> Inr d | None \<Rightarrow> Inl (ObjectNotFound (oid_value oid)))"
      using find_entry_layout [of segment MAGIC us "[]" h oid] spec us
      by (auto simp: segment_def us_def wf_dict_sort list_all_iff)
    moreover have "decode_index index = Inr \<lparr>si_data_sha256 = JStr (hex_bytes (h2 segment)),
        si_entries = map decoded (layout (length MAGIC) us)\<rparr>"
      unfolding index_def by (rule decode_index_dumps [OF layout_wf [OF us]])
    ultimately show ?thesis
      using spec by (simp add: read_segment_object_def segment_def us_def map_of_sort)
  qed
  have hit: "\<exists>d. (oid, d) \<in> set objects \<and> map_of u oid = Some d" if "oid \<in> fst ` set objects" for oid
  proof -
    have "oid \<in> dom (map_of u)" using spec that by simp
    then obtain d where d: "map_of u oid = Some d" by auto
    then have "(oid, d) \<in> set u" by (rule map_of_SomeD)
    then show ?thesis using spec d by blast
  qed
  have miss: "map_of u oid = None" if "oid \<notin> fst ` set objects" for oid
  proof -
    have "oid \<notin> dom (map_of u)" using spec that by simp
    then show ?thesis by auto
  qed
  show ?thesis
  proof (rule exI, rule exI, rule exI, intro conjI allI impI)
    show "encode_segment h h2 objects = Inr (hex_bytes (h2 (index @ [NUL] @ segment)), segment, index)" by (rule enc)
    show "\<exists>d. (oid, d) \<in> set objects \<and> read_segment_object h h2 segment index oid = Inr d"
      if "oid \<in> fst ` set objects" for oid
      using hit [OF that] by (auto simp: read)
    show "read_segment_object h h2 segment index oid = Inl (ObjectNotFound (oid_value oid))"
      if "oid \<notin> fst ` set objects" for oid
      using miss [OF that] by (simp add: read)
  qed
qed

section \<open>Properties\<close>

text \<open>C33: packing is lossless. A list of canonical objects with their ids, duplicates allowed, is packed
  into a segment and an index from which every packed id reads back an object packed under it,
  and from which any other id is reported missing, never as corrupt.\<close>

theorem segment_roundtrip:
  assumes "digest20 h" and "list_all (\<lambda>p. from_bytes h (snd p) = fst p \<and> git_object (snd p)) objects"
  shows "\<exists>sid segment index. encode_segment h h2 objects = Inr (sid, segment, index) \<and>
    (\<forall>oid. case map_of objects oid of
        Some _ \<Rightarrow> (\<exists>d. (oid, d) \<in> set objects \<and> read_segment_object h h2 segment index oid = Inr d)
      | None \<Rightarrow> read_segment_object h h2 segment index oid = Inl (ObjectNotFound (oid_value oid)))"
proof -
  have key: "map_of objects oid = None \<longleftrightarrow> oid \<notin> fst ` set objects" for oid
    by (simp add: map_of_eq_None_iff)
  show ?thesis
    using read_encode [OF assms, of h2] key by (auto split: option.splits) (metis option.distinct(1))
qed

definition sample_blob :: "char \<Rightarrow> bytes" where
  "sample_blob c = canonical_object ''blob'' [c]"

lemma sample_blob_git: "git_object (sample_blob c)"
  using parse_canonical_canonical [of "''blob''" "[c]"]
  by (simp add: git_object_def sample_blob_def wf_kind_def is_str_def)

theorem segment_roundtrip_witness:
  "\<exists>sid segment index. encode_segment sample_hash sample_hash
      [(from_bytes sample_hash (sample_blob CHR ''a''), sample_blob CHR ''a''),
       (from_bytes sample_hash (sample_blob CHR ''b''), sample_blob CHR ''b'')] = Inr (sid, segment, index)"
proof -
  have "list_all (\<lambda>p. from_bytes sample_hash (snd p) = fst p \<and> git_object (snd p))
      [(from_bytes sample_hash (sample_blob CHR ''a''), sample_blob CHR ''a''),
       (from_bytes sample_hash (sample_blob CHR ''b''), sample_blob CHR ''b'')]"
    by (simp add: sample_blob_git)
  from segment_roundtrip [OF digest20_sample this, of sample_hash] show ?thesis by blast
qed

end
