(* ===== verification/Requests.thy ===== *)
theory Requests
  imports Backend
begin

text \<open>
  Programs that talk to a service. An operation of a remote backend is a sequence of requests, each of
  which can fail; it is a \<open>prog\<close>: a result, or a request with the program that goes on from the
  reply. The same program is run against a service on its own (\<open>run_prog\<close>), and by one of many clients
  whose requests reach the service in any order (\<open>sys_step\<close>).
\<close>

section \<open>Programs\<close>

datatype ('q, 'p, 'a) prog = Ret 'a | Req 'q "'p \<Rightarrow> ('q, 'p, 'a) prog"

type_synonym ('q, 'p, 'a) task = "('q, 'p, 'a res) prog"

primrec bindP :: "('q, 'p, 'a) task \<Rightarrow> ('a \<Rightarrow> ('q, 'p, 'b) task) \<Rightarrow> ('q, 'p, 'b) task" where
  "bindP (Ret x) f = (case x of Inl e \<Rightarrow> Ret (Inl e) | Inr v \<Rightarrow> f v)"
| "bindP (Req q k) f = Req q (\<lambda>p. bindP (k p) f)"

primrec catchP :: "('q, 'p, 'a) task \<Rightarrow> (error \<Rightarrow> ('q, 'p, 'a) task) \<Rightarrow> ('q, 'p, 'a) task" where
  "catchP (Ret x) f = (case x of Inl e \<Rightarrow> f e | Inr v \<Rightarrow> Ret (Inr v))"
| "catchP (Req q k) f = Req q (\<lambda>p. catchP (k p) f)"

text \<open>\<^verbatim>\<open>try: m finally: c\<close>: an error of \<open>c\<close> replaces the outcome of \<open>m\<close>.\<close>

primrec finallyP :: "('q, 'p, 'a) task \<Rightarrow> ('q, 'p, 'b) task \<Rightarrow> ('q, 'p, 'a) task" where
  "finallyP (Ret x) c = bindP c (\<lambda>_. Ret x)"
| "finallyP (Req q k) c = Req q (\<lambda>p. finallyP (k p) c)"

abbreviation returnP :: "'a \<Rightarrow> ('q, 'p, 'a) task" where
  "returnP v \<equiv> Ret (Inr v)"

abbreviation raiseP :: "error \<Rightarrow> ('q, 'p, 'a) task" where
  "raiseP e \<equiv> Ret (Inl e)"

abbreviation liftP :: "'a res \<Rightarrow> ('q, 'p, 'a) task" where
  "liftP r \<equiv> Ret r"

fun iterP :: "('a \<Rightarrow> ('q, 'p, unit) task) \<Rightarrow> 'a list \<Rightarrow> ('q, 'p, unit) task" where
  "iterP f [] = returnP ()"
| "iterP f (x # xs) = bindP (f x) (\<lambda>_. iterP f xs)"

fun mapP :: "('a \<Rightarrow> ('q, 'p, 'b) task) \<Rightarrow> 'a list \<Rightarrow> ('q, 'p, 'b list) task" where
  "mapP f [] = returnP []"
| "mapP f (x # xs) = bindP (f x) (\<lambda>y. bindP (mapP f xs) (\<lambda>ys. returnP (y # ys)))"

section \<open>One client\<close>

primrec run_prog :: "('q \<Rightarrow> 's \<Rightarrow> 'p \<times> 's) \<Rightarrow> ('q, 'p, 'a) prog \<Rightarrow> 's \<Rightarrow> 'a \<times> 's" where
  "run_prog serve (Ret x) s = (x, s)"
| "run_prog serve (Req q k) s = (case serve q s of (p, t) \<Rightarrow> run_prog serve (k p) t)"

lemma run_bindP [simp]: "run_prog serve (bindP m f) = bindS (run_prog serve m) (\<lambda>x. run_prog serve (f x))"
proof
  fix s show "run_prog serve (bindP m f) s = bindS (run_prog serve m) (\<lambda>x. run_prog serve (f x)) s"
    by (induction m arbitrary: s) (auto simp: bindS_def split: sum.split prod.split)
qed

lemma run_catchP [simp]: "run_prog serve (catchP m f) = catchS (run_prog serve m) (\<lambda>e. run_prog serve (f e))"
proof
  fix s show "run_prog serve (catchP m f) s = catchS (run_prog serve m) (\<lambda>e. run_prog serve (f e)) s"
    by (induction m arbitrary: s) (auto simp: catchS_def split: sum.split prod.split)
qed

lemma run_finallyP [simp]:
  "run_prog serve (finallyP m c) s =
    (case run_prog serve m s of (x, t) \<Rightarrow>
       (case run_prog serve c t of (y, u) \<Rightarrow> ((case y of Inl e \<Rightarrow> Inl e | Inr _ \<Rightarrow> x), u)))"
  by (induction m arbitrary: s) (auto simp: bindS_def split: sum.split prod.split)

lemma run_iterP [simp]: "run_prog serve (iterP f xs) = iterS (\<lambda>x. run_prog serve (f x)) xs"
proof (induction xs)
  case Nil
  show ?case by (simp add: fun_eq_iff returnS_def)
next
  case (Cons x xs)
  then show ?case by simp
qed

section \<open>Many clients\<close>

text \<open>A system is the state of the service and what each client still has to do. A client makes one request at a
  time, and the service answers it and changes its state in one step; \<open>serve q b p b'\<close> says that it may answer \<open>q\<close>
  with \<open>p\<close> and go from \<open>b\<close> to \<open>b'\<close>. A client that makes no more steps has finished or has crashed.\<close>

type_synonym ('q, 'p, 'a, 'b) system = "'b \<times> (nat \<Rightarrow> ('q, 'p, 'a) prog)"

inductive sys_step :: "('q \<Rightarrow> 'b \<Rightarrow> 'p \<Rightarrow> 'b \<Rightarrow> bool) \<Rightarrow> ('q, 'p, 'a, 'b) system \<Rightarrow> nat \<Rightarrow> ('q, 'p, 'a, 'b) system \<Rightarrow> bool"
  for serve where
  step: "c i = Req q k \<Longrightarrow> serve q b p b' \<Longrightarrow> sys_step serve (b, c) i (b', c(i := k p))"

inductive reachable :: "('q \<Rightarrow> 'b \<Rightarrow> 'p \<Rightarrow> 'b \<Rightarrow> bool) \<Rightarrow> ('q, 'p, 'a, 'b) system \<Rightarrow> ('q, 'p, 'a, 'b) system \<Rightarrow> bool"
  for serve init where
  start: "reachable serve init init"
| next_state: "reachable serve init x \<Longrightarrow> sys_step serve x i y \<Longrightarrow> reachable serve init y"

inductive_cases sys_stepE: "sys_step serve (b, c) i (b', c')"

text \<open>An invariant of the service and its clients, shown step by step.\<close>

lemma reachable_invariant:
  assumes "reachable serve init x" and "I init" and "\<And>x i y. I x \<Longrightarrow> sys_step serve x i y \<Longrightarrow> I y"
  shows "I x"
  using assms(1,2) by (induction) (auto intro: assms(3))

end
