(* ===== verification/Storage.thy ===== *)
theory Storage
  imports Json
begin

text \<open>
  \<^verbatim>\<open>src/trunks/storage.py\<close>: storage profiles, the URLs they stand for, their stored form and their
  public and masked forms. The environment is the argument \<open>env\<close>. \<open>json_str\<close> is \<^verbatim>\<open>str()\<close> of a JSON
  value that is neither a string, an integer nor a boolean. The quotes that \<^verbatim>\<open>!r\<close> puts around
  names in error texts are left out, and \<^verbatim>\<open>upper\<close> and \<^verbatim>\<open>lower\<close> act on ASCII letters.

  The lemmas show that a stored profile reads back, and that the public form of a profile does not
  depend on its secret settings and hardly on its credentials.
\<close>

section \<open>Strings\<close>

function replace_str :: "string \<Rightarrow> string \<Rightarrow> string \<Rightarrow> string" where
  "replace_str old new [] = []"
| "replace_str old new (c # s) =
    (if old \<noteq> [] \<and> startswith (c # s) old then new @ replace_str old new (drop (length old) (c # s))
     else c # replace_str old new s)"
  by pat_completeness auto
termination
proof (relation "measure (\<lambda>(old, new, s). length s)", goal_cases)
  case (2 old new c s)
  then show ?case by (cases old) simp_all
qed simp_all

definition upper_char :: "char \<Rightarrow> char" where
  "upper_char c = (if 97 \<le> ordc c \<and> ordc c \<le> 122 then chrn (ordc c - 32) else c)"

definition lower_char :: "char \<Rightarrow> char" where
  "lower_char c = (if 65 \<le> ordc c \<and> ordc c \<le> 90 then chrn (ordc c + 32) else c)"

definition strip_slashes :: "string \<Rightarrow> string" where
  "strip_slashes s = strip_by (\<lambda>c. c = SLASH) s"

definition rstrip_slashes :: "string \<Rightarrow> string" where
  "rstrip_slashes s = rstrip_by (\<lambda>c. c = SLASH) s"

text \<open>\<^verbatim>\<open>str(value)\<close> of a decoded JSON value.\<close>

definition json_to_str :: "(json \<Rightarrow> string) \<Rightarrow> json \<Rightarrow> string" where
  "json_to_str json_str v =
    (case v of JStr s \<Rightarrow> s | JInt i \<Rightarrow> int_str i | JBool b \<Rightarrow> if b then ''True'' else ''False'' | _ \<Rightarrow> json_str v)"

section \<open>Profiles\<close>

definition SECRET_KEYS :: "string set" where
  "SECRET_KEYS = {''access_key'', ''access_key_id'', ''account_key'', ''application_key'', ''password'', ''passphrase'',
     ''sas_token'', ''secret_access_key'', ''secret_key'', ''session_token''}"

definition is_secret :: "string \<Rightarrow> bool" where
  "is_secret key \<longleftrightarrow> key \<in> SECRET_KEYS \<or> endswith key ''_key'' \<or> endswith key ''_token''"

record Storage =
  sg_name :: string
  sg_backend :: string
  sg_role :: string
  sg_settings :: "(string, string) dict"
  sg_credentials :: "(string, string) dict"

definition storage_from_url :: "string \<Rightarrow> string \<Rightarrow> string \<Rightarrow> Storage" where
  "storage_from_url name role url =
    \<lparr>sg_name = name, sg_backend = ''url'', sg_role = role, sg_settings = [(''url'', url)], sg_credentials = []\<rparr>"

text \<open>\<^verbatim>\<open>{str(k): str(v) for k, v in dict(raw.get(key, {})).items() if v is not None}\<close>\<close>

definition str_dict :: "(json \<Rightarrow> string) \<Rightarrow> (string \<times> json) list \<Rightarrow> (string, string) dict" where
  "str_dict json_str kvs = map (\<lambda>(k, v). (k, json_to_str json_str v)) (filter (\<lambda>(k, v). v \<noteq> JNull) kvs)"

definition record_dict :: "(json \<Rightarrow> string) \<Rightarrow> json \<Rightarrow> string \<Rightarrow> (string, string) dict res" where
  "record_dict json_str raw key =
    bindR (jget raw key) (\<lambda>v.
    case v of
      None \<Rightarrow> Inr []
    | Some (JObj kvs) \<Rightarrow> Inr (str_dict json_str kvs)
    | Some _ \<Rightarrow> Inl (TypeError ''cannot convert to dict''))"

definition storage_from_record :: "(json \<Rightarrow> string) \<Rightarrow> json \<Rightarrow> Storage res" where
  "storage_from_record json_str raw =
    bindR (jitem raw ''name'') (\<lambda>name.
    bindR (jitem raw ''backend'') (\<lambda>backend.
    bindR (jitem raw ''role'') (\<lambda>role.
    bindR (record_dict json_str raw ''settings'') (\<lambda>settings.
    bindR (record_dict json_str raw ''credentials'') (\<lambda>credentials.
    Inr \<lparr>sg_name = json_to_str json_str name, sg_backend = json_to_str json_str backend,
         sg_role = json_to_str json_str role, sg_settings = settings, sg_credentials = credentials\<rparr>)))))"

definition json_dict :: "(string, string) dict \<Rightarrow> json" where
  "json_dict d = JObj (map (\<lambda>(k, v). (k, JStr v)) d)"

definition storage_to_record :: "Storage \<Rightarrow> json" where
  "storage_to_record s = JObj
    [(''name'', JStr (sg_name s)), (''backend'', JStr (sg_backend s)), (''role'', JStr (sg_role s)),
     (''settings'', json_dict (sg_settings s)), (''credentials'', json_dict (sg_credentials s))]"

section \<open>URLs\<close>

text \<open>\<^verbatim>\<open>d.get(key)\<close> used as a condition: absent and empty are the same.\<close>

definition truthy :: "string option \<Rightarrow> string option" where
  "truthy v = (case v of Some (c # s) \<Rightarrow> Some (c # s) | _ \<Rightarrow> None)"

definition storage_required :: "Storage \<Rightarrow> string \<Rightarrow> string res" where
  "storage_required s key =
    (case truthy (map_of (sg_settings s) key) of
       Some v \<Rightarrow> Inr v
     | None \<Rightarrow>
       (case truthy (map_of (sg_credentials s) key) of
          Some v \<Rightarrow> Inr v
        | None \<Rightarrow> Inl (ValueError (''storage '' @ sg_name s @ '' missing required field '' @ key))))"

definition format_repo :: "string \<Rightarrow> string \<Rightarrow> string" where
  "format_repo v repo_name = replace_str ''{repo}'' repo_name v"

definition storage_prefix :: "Storage \<Rightarrow> string \<Rightarrow> string" where
  "storage_prefix s repo_name =
    strip_slashes (format_repo (case truthy (map_of (sg_settings s) ''prefix'') of
      Some p \<Rightarrow> p | None \<Rightarrow> ''trunks/{repo}.trunk'') repo_name)"

definition bucket_url :: "Storage \<Rightarrow> string \<Rightarrow> string \<Rightarrow> string res" where
  "bucket_url s scheme repo_name =
    bindR (storage_required s ''bucket'') (\<lambda>bucket.
    Inr (rstrip_slashes (scheme @ ''://'' @ bucket @ ''/'' @ storage_prefix s repo_name)))"

definition S3_BACKENDS :: "string set" where
  "S3_BACKENDS = {''s3'', ''r2'', ''tigris'', ''b2'', ''wasabi'', ''spaces'', ''ceph'', ''netapp'', ''gcs-s3''}"

definition sftp_url :: "Storage \<Rightarrow> string \<Rightarrow> string res" where
  "sftp_url s repo_name =
    bindR (storage_required s ''host'') (\<lambda>host.
    let port = (case truthy (map_of (sg_settings s) ''port'') of Some p \<Rightarrow> '':'' @ p | None \<Rightarrow> '''');
        auth_host = (case truthy (map_of (sg_settings s) ''user'') of Some u \<Rightarrow> u @ ''@'' @ host | None \<Rightarrow> host)
    in bindR (storage_required s ''path'') (\<lambda>p.
       let path0 = rstrip_slashes p;
           path = (if endswith path0 ''.trunk'' then path0 else path0 @ ''/trunks/'' @ repo_name @ ''.trunk'')
       in Inr (''sftp://'' @ auth_host @ port @ (if startswith path ''/'' then path else ''/'' @ path))))"

definition postgres_url :: "(string, string) dict \<Rightarrow> Storage \<Rightarrow> string \<Rightarrow> string res" where
  "postgres_url env s repo_name =
    (let dsn = (case truthy (map_of (sg_settings s) ''dsn'') of
           Some d \<Rightarrow> Some d
         | None \<Rightarrow> (case truthy (map_of (sg_settings s) ''dsn_env'') of
             Some e \<Rightarrow> truthy (map_of env e) | None \<Rightarrow> None))
     in case dsn of
          None \<Rightarrow> Inl (ValueError (''storage '' @ sg_name s @ '' missing required field dsn''))
        | Some d \<Rightarrow>
          Inr (rstrip_slashes d @ ''/'' @ strip_slashes (case truthy (map_of (sg_settings s) ''trunk'') of
            Some t \<Rightarrow> t | None \<Rightarrow> ''trunks/'' @ repo_name @ ''.trunk'')))"

definition storage_url :: "(string, string) dict \<Rightarrow> Storage \<Rightarrow> string \<Rightarrow> string res" where
  "storage_url env s repo_name =
    (if sg_backend s = ''url'' then
       (case map_of (sg_settings s) ''url'' of
          None \<Rightarrow> Inl (KeyError ''url'') | Some u \<Rightarrow> Inr (format_repo u repo_name))
     else if sg_backend s \<in> S3_BACKENDS then bucket_url s (sg_backend s) repo_name
     else if sg_backend s = ''minio'' then
       bindR (storage_required s ''host'') (\<lambda>host.
       bindR (storage_required s ''bucket'') (\<lambda>bucket.
       Inr (rstrip_slashes (''minio://'' @ host @ ''/'' @ bucket @ ''/'' @ storage_prefix s repo_name))))
     else if sg_backend s \<in> {''local'', ''file'', ''nfs'', ''smb'', ''nas''} then
       bindR (storage_required s ''path'') (\<lambda>p.
       let path = rstrip_slashes p
       in if endswith path ''.trunk'' then Inr (sg_backend s @ ''://'' @ path)
          else Inr (sg_backend s @ ''://'' @ path @ ''/trunks/'' @ repo_name @ ''.trunk''))
     else if sg_backend s = ''sftp'' then sftp_url s repo_name
     else if sg_backend s = ''postgres'' then postgres_url env s repo_name
     else if sg_backend s = ''azure'' then
       bindR (storage_required s ''account_name'') (\<lambda>account.
       bindR (storage_required s ''container'') (\<lambda>container.
       Inr (''azure://'' @ account @ ''/'' @ container @ ''/'' @ storage_prefix s repo_name)))
     else if sg_backend s = ''gcs'' then bucket_url s ''gcs'' repo_name
     else Inl (ValueError (''unsupported storage backend: '' @ sg_backend s)))"

section \<open>Public and masked forms\<close>

definition public_settings :: "Storage \<Rightarrow> (string, string) dict" where
  "public_settings s = filter (\<lambda>(k, v). \<not> is_secret k \<and> k \<notin> {''password_env'', ''dsn_env''}) (sg_settings s)"

definition public_record :: "(string, string) dict \<Rightarrow> Storage \<Rightarrow> string \<Rightarrow> json res" where
  "public_record env s repo_name =
    bindR (storage_url env s repo_name) (\<lambda>url.
    let record = [(''name'', JStr (sg_name s)), (''role'', JStr (sg_role s)), (''url'', JStr url)]
    in Inr (JObj (if sg_backend s \<noteq> ''url''
         then record @ [(''backend'', JStr (sg_backend s)), (''settings'', json_dict (public_settings s))]
         else record)))"

definition masked :: "(string, string) dict \<Rightarrow> (string, string) dict" where
  "masked d = map (\<lambda>(k, v). (k, if is_secret k then (if v \<noteq> '''' then ''****'' else '''') else v)) d"

definition masked_record :: "Storage \<Rightarrow> json" where
  "masked_record s = JObj
    [(''name'', JStr (sg_name s)), (''backend'', JStr (sg_backend s)), (''role'', JStr (sg_role s)),
     (''settings'', json_dict (masked (sg_settings s))), (''credentials'', json_dict (masked (sg_credentials s)))]"

definition env_prefix :: "string \<Rightarrow> string" where
  "env_prefix name =
    ''TRUNKS_STORAGE_'' @ replace_char (CHR ''.'') (CHR ''_'') (replace_char (CHR ''-'') (CHR ''_'') (map upper_char name)) @ ''_''"

definition env_override :: "string \<Rightarrow> Storage \<Rightarrow> string \<times> string \<Rightarrow> Storage" where
  "env_override prefix s kv =
    (case kv of (key, v) \<Rightarrow>
      if \<not> startswith key prefix then s
      else let target = map lower_char (drop (length prefix) key)
           in if is_secret target then s\<lparr>sg_credentials := AList.update target v (sg_credentials s)\<rparr>
              else s\<lparr>sg_settings := AList.update target v (sg_settings s)\<rparr>)"

definition with_env_overrides :: "(string, string) dict \<Rightarrow> Storage \<Rightarrow> Storage" where
  "with_env_overrides env s = foldl (env_override (env_prefix (sg_name s))) s env"


section \<open>Lemmas\<close>

text \<open>The order of the keys is not kept by the stored form, which sorts them.\<close>

definition sorted_storage :: "Storage \<Rightarrow> Storage" where
  "sorted_storage s = s\<lparr>sg_settings := sort_key fst (sg_settings s), sg_credentials := sort_key fst (sg_credentials s)\<rparr>"

definition ascii_storage :: "Storage \<Rightarrow> bool" where
  "ascii_storage s \<longleftrightarrow> ascii_str (sg_name s) \<and> ascii_str (sg_backend s) \<and> ascii_str (sg_role s) \<and>
     wf_dict (sg_settings s) \<and> wf_dict (sg_credentials s) \<and>
     (\<forall>(k, v) \<in> set (sg_settings s) \<union> set (sg_credentials s). ascii_str k \<and> ascii_str v)"

lemma str_dict_json: "str_dict json_str (map (\<lambda>(k, v). (k, JStr v)) d) = d"
  by (induction d) (auto simp: str_dict_def json_to_str_def)

lemma from_record_parts:
  assumes "map_of kvs ''name'' = Some (JStr (sg_name s))" and "map_of kvs ''backend'' = Some (JStr (sg_backend s))"
    and "map_of kvs ''role'' = Some (JStr (sg_role s))" and "map_of kvs ''settings'' = Some (json_dict (sg_settings s))"
    and "map_of kvs ''credentials'' = Some (json_dict (sg_credentials s))"
  shows "storage_from_record json_str (JObj kvs) = Inr s"
  using assms by (simp add: storage_from_record_def jitem_def jget_def record_dict_def json_dict_def str_dict_json json_to_str_def)

lemma from_record_to_record: "storage_from_record json_str (storage_to_record s) = Inr s"
  unfolding storage_to_record_def by (intro from_record_parts) simp_all

lemma sort_json_dict: "sort_keys (json_dict d) = json_dict (sort_key fst d)"
proof -
  have ins: "insort_key fst (k, JStr v) (map (\<lambda>(k, v). (k, JStr v)) d) = map (\<lambda>(k, v). (k, JStr v)) (insort_key fst (k, v) d)"
    for k v and d :: "(string, string) dict" by (induction d) auto
  have "sort_key fst (map (\<lambda>(k, v). (k, JStr v)) d) = map (\<lambda>(k, v). (k, JStr v)) (sort_key fst d)" for d :: "(string, string) dict"
    by (induction d) (auto simp: ins)
  moreover have "map (\<lambda>(k, v). (k, sort_keys v)) (map (\<lambda>(k, v). (k, JStr v)) d) = map (\<lambda>(k, v). (k, JStr v)) d" for d :: "(string, string) dict"
    by auto
  ultimately show ?thesis by (simp only: json_dict_def sort_keys.simps)
qed

lemma sorted_record:
  "sort_keys (storage_to_record s) = JObj
    [(''backend'', JStr (sg_backend s)), (''credentials'', json_dict (sort_key fst (sg_credentials s))),
     (''name'', JStr (sg_name s)), (''role'', JStr (sg_role s)), (''settings'', json_dict (sort_key fst (sg_settings s)))]"
  by (simp add: storage_to_record_def sort_json_dict)

lemma stored_record_reads:
  assumes "ascii_storage s"
  shows "bindR (loads (dumps spaced (sort_keys (storage_to_record s)))) (storage_from_record json_str) = Inr (sorted_storage s)"
proof -
  have "ascii_json (json_dict (sort_key fst d))" if "wf_dict d" "\<forall>(k, v) \<in> set d. ascii_str k \<and> ascii_str v" for d
    using that by (auto simp: json_dict_def wf_dict_def distinct_map o_def case_prod_beta inj_on_def)
  then have "ascii_json (sort_keys (storage_to_record s))"
    using assms by (simp add: sorted_record ascii_storage_def) (simp add: ascii_str_def ordc_def)
  then show ?thesis
    by (simp add: loads_dumps_sep) (simp add: sorted_record sorted_storage_def from_record_parts)
qed

lemma map_of_filter_pred:
  "P k \<Longrightarrow> map_of (filter (\<lambda>(k, v). P k) d) k = map_of d k"
  by (induction d) auto


section \<open>Properties\<close>

text \<open>Two profiles that look alike from outside: the same name, backend and role, the same settings but for the
  secret ones, and the same values of the five keys that a URL may take from the credentials.\<close>

definition public_settings_env :: "Storage \<Rightarrow> (string, string) dict" where
  "public_settings_env s = filter (\<lambda>(k, v). \<not> is_secret k) (sg_settings s)"

definition alike :: "Storage \<Rightarrow> Storage \<Rightarrow> bool" where
  "alike s t \<longleftrightarrow> sg_name s = sg_name t \<and> sg_backend s = sg_backend t \<and> sg_role s = sg_role t \<and>
     public_settings_env s = public_settings_env t \<and>
     (\<forall>k \<in> {''bucket'', ''host'', ''path'', ''account_name'', ''container''}.
        map_of (sg_credentials s) k = map_of (sg_credentials t) k)"

lemma alike_setting:
  assumes "alike s t" and "\<not> is_secret k"
  shows "map_of (sg_settings s) k = map_of (sg_settings t) k"
  using assms map_of_filter_pred [of "\<lambda>k. \<not> is_secret k" k "sg_settings s"]
    map_of_filter_pred [of "\<lambda>k. \<not> is_secret k" k "sg_settings t"]
  by (simp add: alike_def public_settings_env_def)

lemma url_keys_not_secret:
  "\<not> is_secret ''bucket''" "\<not> is_secret ''host''" "\<not> is_secret ''path''" "\<not> is_secret ''account_name''"
  "\<not> is_secret ''container''" "\<not> is_secret ''prefix''" "\<not> is_secret ''port''" "\<not> is_secret ''user''"
  "\<not> is_secret ''dsn''" "\<not> is_secret ''dsn_env''" "\<not> is_secret ''trunk''" "\<not> is_secret ''url''"
  by (simp_all add: is_secret_def SECRET_KEYS_def endswith_def)

lemma alike_required:
  assumes "alike s t" and "k \<in> {''bucket'', ''host'', ''path'', ''account_name'', ''container''}"
  shows "storage_required s k = storage_required t k"
proof -
  have "\<not> is_secret k" using assms(2) url_keys_not_secret by blast
  note k = alike_setting [OF assms(1) this]
  have e: "map_of (sg_credentials s) k = map_of (sg_credentials t) k" "sg_name s = sg_name t"
    using assms by (auto simp: alike_def)
  show ?thesis unfolding storage_required_def k e ..
qed

lemma alike_url:
  assumes "alike s t"
  shows "storage_url env s repo_name = storage_url env t repo_name"
proof -
  have b: "sg_backend s = sg_backend t" "sg_name s = sg_name t" using assms by (simp_all add: alike_def)
  note k = url_keys_not_secret [THEN alike_setting [OF assms]]
  have p: "storage_prefix s repo_name = storage_prefix t repo_name" by (simp add: storage_prefix_def k)
  have r: "storage_required s k = storage_required t k"
    if "k \<in> {''bucket'', ''host'', ''path'', ''account_name'', ''container''}" for k
    using alike_required [OF assms that] .
  have r5: "storage_required s ''bucket'' = storage_required t ''bucket''" "storage_required s ''host'' = storage_required t ''host''"
    "storage_required s ''path'' = storage_required t ''path''"
    "storage_required s ''account_name'' = storage_required t ''account_name''"
    "storage_required s ''container'' = storage_required t ''container''"
    by (rule r, simp)+
  show ?thesis
    unfolding storage_url_def bucket_url_def sftp_url_def postgres_url_def b k p r5 ..
qed

lemma public_settings_filter:
  "public_settings s = filter (\<lambda>(k, v). k \<notin> {''password_env'', ''dsn_env''}) (public_settings_env s)"
  by (auto simp: public_settings_def public_settings_env_def intro!: filter_cong)

text \<open>C38: the public form of a profile, which a push writes to every storage, does not depend on the settings under secret
  keys, and on the credentials only through the five keys a URL may name; and the settings it shows have no
  secret key. This says nothing of a URL or data source name, nor of the environment variables they are resolved
  from: a password inside one of them is shown (\<open>public_record_shows_dsn\<close>).\<close>

theorem public_record_hides_secrets:
  assumes "alike s t"
  shows "public_record env s repo_name = public_record env t repo_name \<and>
    fst ` set (public_settings s) \<inter> (SECRET_KEYS \<union> {''password_env'', ''dsn_env''}) = {}"
proof
  show "public_record env s repo_name = public_record env t repo_name"
  proof -
    have e: "sg_name s = sg_name t" "sg_backend s = sg_backend t" "sg_role s = sg_role t" "public_settings s = public_settings t"
      using assms by (simp_all add: alike_def public_settings_filter)
    show ?thesis unfolding public_record_def alike_url [OF assms] e ..
  qed
  show "fst ` set (public_settings s) \<inter> (SECRET_KEYS \<union> {''password_env'', ''dsn_env''}) = {}"
    by (auto simp: public_settings_def is_secret_def)
qed

definition sample_storage :: "string \<Rightarrow> Storage" where
  "sample_storage key = \<lparr>sg_name = ''eu'', sg_backend = ''s3'', sg_role = ''primary'',
     sg_settings = [(''bucket'', ''b''), (''secret_key'', key)], sg_credentials = [(''password'', key)]\<rparr>"

theorem public_record_hides_secrets_witness:
  "public_record [] (sample_storage ''x'') ''demo'' = public_record [] (sample_storage ''y'') ''demo'' \<and>
    sample_storage ''x'' \<noteq> sample_storage ''y''"
proof -
  have "is_secret ''secret_key''" by (simp add: is_secret_def SECRET_KEYS_def)
  then have "alike (sample_storage ''x'') (sample_storage ''y'')"
    by (simp add: alike_def sample_storage_def public_settings_env_def)
  from public_record_hides_secrets [OF this, of "[]" "''demo''"] show ?thesis by (simp add: sample_storage_def)
qed

text \<open>A profile is stored as JSON text with sorted keys and reads back as itself, its dictionaries in
  the order of their keys.\<close>

lemma storage_record_roundtrip:
  assumes "ascii_storage s"
  shows "bindR (loads (dumps spaced (sort_keys (storage_to_record s)))) (storage_from_record json_str) =
    Inr (s\<lparr>sg_settings := sort_key fst (sg_settings s), sg_credentials := sort_key fst (sg_credentials s)\<rparr>)"
  using stored_record_reads [OF assms] by (simp add: sorted_storage_def)

lemma storage_record_roundtrip_witness:
  "bindR (loads (dumps spaced (sort_keys (storage_to_record (sample_storage ''x''))))) (storage_from_record (\<lambda>_. '''')) =
    Inr (sample_storage ''x'')"
proof -
  have "ascii_storage (sample_storage ''x'')"
    by (simp add: ascii_storage_def sample_storage_def ascii_str_def wf_dict_def ordc_def)
  from storage_record_roundtrip [OF this] show ?thesis by (simp add: sample_storage_def)
qed

text \<open>The data source name of a PostgreSQL profile is part of its URL, so that the public form shows it with
  any password in it, also where the profile only names the environment variable that holds it.\<close>

lemma public_record_shows_dsn:
  assumes "sg_backend s = ''postgres''" and "map_of (sg_settings s) ''dsn'' = None"
    and "map_of (sg_settings s) ''dsn_env'' = Some (c # var)" and "map_of env (c # var) = Some d"
    and "rstrip_slashes d = d" and "d \<noteq> ''''"
  shows "\<exists>kvs rest. public_record env s repo_name = Inr (JObj kvs) \<and> map_of kvs ''url'' = Some (JStr (d @ ''/'' @ rest))"
  using assms by (cases d) (auto simp: public_record_def storage_url_def postgres_url_def S3_BACKENDS_def truthy_def Let_def)

end
