(* ===== verification/S3.thy ===== *)
theory S3
  imports Requests Segment Chunked Storage
begin

text \<open>
  \<^verbatim>\<open>src/trunks/backends/s3.py\<close>: the backend on S3-compatible object stores. Objects, chunks, segments, references,
  the journal and the configuration are objects of a bucket, and a reference is swapped under a lock object
  that is created only when it is absent. Every operation is a program of requests (theory \<open>Requests\<close>),
  each of which is sent up to four times; \<open>s3_message\<close> is what goes over the wire for a request.

  The HTTP client, the service and the XML parser are not part of the sources: a reply is a status with a
  body, a transport error or another error, and \<open>xml_list\<close> reads the keys, the truncation flag and the
  continuation token out of a listing. SHA-1 and SHA-256 are \<open>h\<close> and \<open>h2\<close>. Names of buckets and endpoints
  have no \<open>?\<close>, no \<open>#\<close> and no control characters. A listing of more than \<open>pages\<close> pages, which the source would go on
  reading, is an error here.
\<close>

section \<open>Requests\<close>

record S3Credentials =
  sc_access_key :: string
  sc_secret_key :: string
  sc_session_token :: "string option"

record S3 =
  s3_bucket :: string
  s3_prefix :: string
  s3_endpoint :: "string option"
  s3_region :: string
  s3_credentials :: S3Credentials

definition RETRYABLE_STATUS_CODES :: "nat set" where
  "RETRYABLE_STATUS_CODES = {429, 500, 502, 503, 504}"

text \<open>The constructor: \<open>env_region\<close> is the environment's \<^verbatim>\<open>AWS_REGION\<close>.\<close>

definition mk_S3 :: "string option \<Rightarrow> string \<Rightarrow> string \<Rightarrow> string option \<Rightarrow> string option \<Rightarrow> S3Credentials \<Rightarrow> S3" where
  "mk_S3 env_region bucket prefix endpoint region credentials =
    \<lparr>s3_bucket = bucket, s3_prefix = strip_slashes prefix, s3_endpoint = endpoint,
     s3_region = (case truthy region of Some r \<Rightarrow> r | None \<Rightarrow> (case truthy env_region of Some r \<Rightarrow> r | None \<Rightarrow> ''us-east-1'')),
     s3_credentials = credentials\<rparr>"

record S3Call =
  call_method :: string
  call_key :: string
  call_body :: bytes
  call_headers :: "(string, string) dict"
  call_query :: "(string, string) dict"

datatype http_reply = HttpResponse nat string bytes | HttpTransportError string | HttpError string

type_synonym 'a s3_task = "(S3Call, http_reply, 'a) task"

text \<open>\<^verbatim>\<open>_request\<close>: what is made of a reply, \<open>again\<close> being the next attempt when there is one left, and the attempts.\<close>

definition s3_reply :: "bytes s3_task option \<Rightarrow> http_reply \<Rightarrow> bytes s3_task" where
  "s3_reply again reply =
    (case reply of
       HttpResponse status reason body \<Rightarrow>
         if 200 \<le> status \<and> status < 300 then returnP body
         else (case again of
             Some m \<Rightarrow> if status \<in> RETRYABLE_STATUS_CODES then m else raiseP (BackendUnavailable (dec status @ '' '' @ reason))
           | None \<Rightarrow> raiseP (BackendUnavailable (dec status @ '' '' @ reason)))
     | HttpTransportError msg \<Rightarrow> (case again of Some m \<Rightarrow> m | None \<Rightarrow> raiseP (BackendUnavailable msg))
     | HttpError msg \<Rightarrow> raiseP (BackendUnavailable msg))"

primrec s3_try :: "nat \<Rightarrow> S3Call \<Rightarrow> bytes s3_task" where
  "s3_try 0 call = Req call (s3_reply None)"
| "s3_try (Suc n) call = Req call (s3_reply (Some (s3_try n call)))"

definition s3_request_query :: "string \<Rightarrow> string \<Rightarrow> bytes \<Rightarrow> (string, string) dict \<Rightarrow> (string, string) dict \<Rightarrow> bytes s3_task" where
  "s3_request_query method key body headers query =
    s3_try 3 \<lparr>call_method = method, call_key = key, call_body = body, call_headers = headers, call_query = query\<rparr>"

definition s3_request :: "string \<Rightarrow> string \<Rightarrow> bytes \<Rightarrow> (string, string) dict \<Rightarrow> bytes s3_task" where
  "s3_request method key body headers = s3_request_query method key body headers []"

text \<open>\<^verbatim>\<open>except BackendUnavailable as exc: if "404" in str(exc)\<close>\<close>

definition unavailable_with :: "string \<Rightarrow> error \<Rightarrow> bool" where
  "unavailable_with text e = (case e of BackendUnavailable msg \<Rightarrow> contains text msg | _ \<Rightarrow> False)"

definition is_unavailable :: "error \<Rightarrow> bool" where
  "is_unavailable e = (case e of BackendUnavailable _ \<Rightarrow> True | _ \<Rightarrow> False)"

section \<open>Keys\<close>

definition s3_key :: "S3 \<Rightarrow> string \<Rightarrow> string" where
  "s3_key C suffix = join ''/'' (filter (\<lambda>p. p \<noteq> []) [s3_prefix C, strip_slashes suffix])"

definition s3_strip_prefix :: "S3 \<Rightarrow> string \<Rightarrow> string" where
  "s3_strip_prefix C key =
    (if s3_prefix C \<noteq> [] \<and> startswith key (s3_prefix C @ ''/'') then drop (length (s3_prefix C) + 1) key else key)"

definition s3_object_key :: "S3 \<Rightarrow> ObjectId \<Rightarrow> string" where
  "s3_object_key C oid = s3_key C (''objects/'' @ take 2 (oid_value oid) @ ''/'' @ oid_value oid)"

definition s3_chunk_manifest_key :: "S3 \<Rightarrow> ObjectId \<Rightarrow> string" where
  "s3_chunk_manifest_key C oid = s3_key C (''objects/'' @ take 2 (oid_value oid) @ ''/'' @ oid_value oid @ ''.tmanifest'')"

definition s3_chunk_key :: "S3 \<Rightarrow> string \<Rightarrow> string" where
  "s3_chunk_key C chunk_id = s3_key C (''chunks/'' @ take 2 chunk_id @ ''/'' @ chunk_id)"

definition s3_segment_data_key :: "S3 \<Rightarrow> string \<Rightarrow> string" where
  "s3_segment_data_key C segment_id = s3_key C (''segments/'' @ segment_id @ ''.tseg'')"

definition s3_segment_index_key :: "S3 \<Rightarrow> string \<Rightarrow> string" where
  "s3_segment_index_key C segment_id = s3_key C (''segments/'' @ segment_id @ ''.tidx'')"

text \<open>\<^verbatim>\<open>urllib.parse.quote\<close>: letters, digits and \<^verbatim>\<open>_.-~\<close> stay, and so do the characters of \<open>safe\<close>.\<close>

definition url_hex :: "nat \<Rightarrow> char" where
  "url_hex n = upper_char (hex_chr n)"

definition url_quote :: "string \<Rightarrow> string \<Rightarrow> string" where
  "url_quote safe s = concat (map (\<lambda>c.
    if is_digit c \<or> (65 \<le> ordc c \<and> ordc c \<le> 90) \<or> (97 \<le> ordc c \<and> ordc c \<le> 122) \<or> c \<in> set ''_.-~'' \<or> c \<in> set safe then [c]
    else [CHR ''%'', url_hex (ordc c div 16), url_hex (ordc c mod 16)]) s)"

section \<open>Signed messages\<close>

definition s3_base_url :: "S3 \<Rightarrow> string \<Rightarrow> string" where
  "s3_base_url C key =
    (case truthy (s3_endpoint C) of
       Some e \<Rightarrow> rstrip_slashes e @ ''/'' @ s3_bucket C @ ''/'' @ url_quote ''/'' key
     | None \<Rightarrow> ''https://'' @ s3_bucket C @ ''.s3.'' @ s3_region C @ ''.amazonaws.com/'' @ url_quote ''/'' key)"

text \<open>The network location and the path of a URL (\<^verbatim>\<open>urlparse\<close>).\<close>

definition url_netloc :: "string \<Rightarrow> string" where
  "url_netloc url = (case split1 ''//'' url of None \<Rightarrow> [] | Some (_, rest) \<Rightarrow> takeWhile (\<lambda>c. c \<notin> set ''/?#'') rest)"

definition url_path :: "string \<Rightarrow> string" where
  "url_path url = (case split1 ''//'' url of
     None \<Rightarrow> takeWhile (\<lambda>c. c \<notin> set ''?#'') url
   | Some (_, rest) \<Rightarrow> takeWhile (\<lambda>c. c \<notin> set ''?#'') (dropWhile (\<lambda>c. c \<notin> set ''/?#'') rest))"

text \<open>\<^verbatim>\<open>hmac.new(key, msg, sha256).digest()\<close>, with blocks of 64 bytes.\<close>

definition xor_byte :: "nat \<Rightarrow> char \<Rightarrow> char" where
  "xor_byte n c = chrn (xor n (ordc c))"

definition hmac_digest :: "hash \<Rightarrow> bytes \<Rightarrow> bytes \<Rightarrow> bytes" where
  "hmac_digest h2 key msg =
    (let k = (if length key > 64 then h2 key else key);
         block = k @ replicate (64 - length k) NUL
     in h2 (map (xor_byte 0x5c) block @ h2 (map (xor_byte 0x36) block @ msg)))"

definition s3_signing_key :: "hash \<Rightarrow> S3 \<Rightarrow> string \<Rightarrow> bytes" where
  "s3_signing_key h2 C date_stamp =
    (let date_key = hmac_digest h2 (''AWS4'' @ sc_secret_key (s3_credentials C)) date_stamp;
         region_key = hmac_digest h2 date_key (s3_region C);
         service_key = hmac_digest h2 region_key ''s3''
     in hmac_digest h2 service_key ''aws4_request'')"

definition s3_canonical_query :: "(string, string) dict \<Rightarrow> string" where
  "s3_canonical_query query =
    join ''&'' (map (\<lambda>(k, v). url_quote [] k @ ''='' @ url_quote ''-_.~'' v) (sort query))"

text \<open>\<^verbatim>\<open>strftime("%Y%m%dT%H%M%SZ")\<close> and \<^verbatim>\<open>strftime("%Y%m%d")\<close> in UTC.\<close>

definition date_stamp :: "datetime \<Rightarrow> string" where
  "date_stamp w =
    (case ord_ymd (nat ((dt_us w - min_ts * 1000000) div 86400000000)) of (y, m, d) \<Rightarrow> dec_pad 4 y @ dec_pad 2 m @ dec_pad 2 d)"

definition amz_date :: "datetime \<Rightarrow> string" where
  "amz_date w =
    (let secs = nat ((dt_us w - min_ts * 1000000) mod 86400000000) div 1000000
     in date_stamp w @ ''T'' @ dec_pad 2 (secs div 3600) @ dec_pad 2 (secs div 60 mod 60) @ dec_pad 2 (secs mod 60) @ ''Z'')"

record HttpMessage =
  msg_method :: string
  msg_url :: string
  msg_content :: "bytes option"
  msg_headers :: "(string, string) dict"

definition signed_headers :: "hash \<Rightarrow> S3 \<Rightarrow> datetime \<Rightarrow> S3Call \<Rightarrow> (string, string) dict" where
  "signed_headers h2 C now call =
    (let base = foldl (\<lambda>d (k, v). AList.update (map lower_char k) v d)
           [(''host'', url_netloc (s3_base_url C (call_key call))), (''x-amz-content-sha256'', hex_bytes (h2 (call_body call))),
            (''x-amz-date'', amz_date now)] (call_headers call)
     in case truthy (sc_session_token (s3_credentials C)) of
          None \<Rightarrow> base | Some t \<Rightarrow> AList.update ''x-amz-security-token'' t base)"

definition s3_message :: "hash \<Rightarrow> S3 \<Rightarrow> datetime \<Rightarrow> S3Call \<Rightarrow> HttpMessage" where
  "s3_message h2 C now call =
    (let LF = [CHR 0x0A];
         hdrs = signed_headers h2 C now call;
         names = sort (map fst hdrs);
         query = s3_canonical_query (call_query call);
         path = (let p = url_path (s3_base_url C (call_key call)) in if p = [] then ''/'' else p);
         canonical_headers = concat (map (\<lambda>n. n @ '':'' @ the (map_of hdrs n) @ LF) names);
         canonical_request = join LF [call_method call, path, query, canonical_headers, join '';'' names, hex_bytes (h2 (call_body call))];
         scope = date_stamp now @ ''/'' @ s3_region C @ ''/s3/aws4_request'';
         string_to_sign = join LF [''AWS4-HMAC-SHA256'', amz_date now, scope, hex_bytes (h2 canonical_request)];
         signature = hex_bytes (hmac_digest h2 (s3_signing_key h2 C (date_stamp now)) string_to_sign);
         authorization = ''AWS4-HMAC-SHA256 Credential='' @ sc_access_key (s3_credentials C) @ ''/'' @ scope @
           '', SignedHeaders='' @ join '';'' names @ '', Signature='' @ signature
     in \<lparr>msg_method = call_method call,
         msg_url = s3_base_url C (call_key call) @ (if query = [] then [] else ''?'' @ query),
         msg_content = (if call_method call \<in> {''GET'', ''DELETE''} then None else Some (call_body call)),
         msg_headers = AList.update ''Authorization'' authorization (filter (\<lambda>(k, _). k \<noteq> ''host'') hdrs)\<rparr>)"

section \<open>Operations\<close>

definition decode_strip :: "bytes \<Rightarrow> string res" where
  "decode_strip data = bindR (decode_utf8 data) (\<lambda>t. Inr (strip_by is_space t))"

definition ref_of_text :: "string \<Rightarrow> ObjectId option res" where
  "ref_of_text t = (if t = [] then Inr None else bindR (mk_ObjectId t) (\<lambda>x. Inr (Some x)))"

text \<open>\<^verbatim>\<open>_list_keys\<close>\<close>

type_synonym xml_list = "bytes \<Rightarrow> (string list \<times> bool \<times> string option) res"

fun s3_list_pages :: "xml_list \<Rightarrow> nat \<Rightarrow> string \<Rightarrow> string option \<Rightarrow> string list s3_task" where
  "s3_list_pages xml 0 pre token = raiseP (RuntimeError ''too many pages'')"
| "s3_list_pages xml (Suc pages) pre token =
    bindP (s3_request_query ''GET'' [] [] [] ([(''list-type'', ''2''), (''prefix'', pre)] @
      (case truthy token of None \<Rightarrow> [] | Some t \<Rightarrow> [(''continuation-token'', t)]))) (\<lambda>data.
    bindP (liftP (xml data)) (\<lambda>(keys, truncated, token).
    if \<not> truncated \<or> truthy token = None then returnP (filter (\<lambda>k. k \<noteq> []) keys)
    else bindP (s3_list_pages xml pages pre token) (\<lambda>rest. returnP (filter (\<lambda>k. k \<noteq> []) keys @ rest))))"

text \<open>Chunked objects. The id of a chunk is whatever the manifest holds: \<open>js\<close> is Python's \<^verbatim>\<open>str\<close> on lists.\<close>

definition chunk_id_key :: "(json \<Rightarrow> string) \<Rightarrow> S3 \<Rightarrow> json \<Rightarrow> string res" where
  "chunk_id_key js C i =
    (case i of
       JStr s \<Rightarrow> Inr (s3_chunk_key C s)
     | JList xs \<Rightarrow> Inr (s3_key C (''chunks/'' @ js (JList (take 2 xs)) @ ''/'' @ js (JList xs)))
     | _ \<Rightarrow> Inl (TypeError ''object is not subscriptable''))"

definition s3_read_chunk :: "(json \<Rightarrow> string) \<Rightarrow> S3 \<Rightarrow> ObjectId \<Rightarrow> ChunkEntry \<Rightarrow> bytes s3_task" where
  "s3_read_chunk js C oid entry =
    catchP (bindP (liftP (chunk_id_key js C (ce_id entry))) (\<lambda>key. s3_request ''GET'' key [] []))
      (\<lambda>e. if is_unavailable e
           then raiseP (BackendUnavailable (''missing chunk '' @ json_to_str js (ce_id entry) @ '' for object '' @ oid_value oid)) else raiseP e)"

definition s3_read_chunked_object :: "hash \<Rightarrow> hash \<Rightarrow> (json \<Rightarrow> string) \<Rightarrow> S3 \<Rightarrow> ObjectId \<Rightarrow> bytes s3_task" where
  "s3_read_chunked_object h h2 js C oid =
    bindP (catchP (s3_request ''GET'' (s3_chunk_manifest_key C oid) [] [])
      (\<lambda>e. if unavailable_with ''404'' e then raiseP (ObjectNotFound (oid_value oid)) else raiseP e)) (\<lambda>manifest_bytes.
    catchP
      (bindP (liftP (decode_manifest manifest_bytes)) (\<lambda>manifest.
       bindP (mapP (s3_read_chunk js C oid) (cm_chunks manifest)) (\<lambda>chunks.
       liftP (assemble_chunked_object h h2 manifest_bytes chunks))))
      (\<lambda>e. if is_value_error e
           then raiseP (BackendUnavailable (''corrupt chunked object '' @ oid_value oid @ '': '' @ exc_str e)) else raiseP e))"

definition s3_write_chunked_object :: "hash \<Rightarrow> hash \<Rightarrow> S3 \<Rightarrow> ObjectId \<Rightarrow> bytes \<Rightarrow> unit s3_task" where
  "s3_write_chunked_object h h2 C oid data =
    bindP (liftP (encode_chunked_object h h2 CHUNK_SIZE oid data)) (\<lambda>(manifest, chunks).
    bindP (iterP (\<lambda>(chunk_id, chunk). bindP (s3_request ''PUT'' (s3_chunk_key C chunk_id) chunk []) (\<lambda>_. returnP ())) chunks) (\<lambda>_.
    bindP (s3_request ''PUT'' (s3_chunk_manifest_key C oid) manifest []) (\<lambda>_. returnP ())))"

text \<open>Segments.\<close>

fun s3_search_segments :: "hash \<Rightarrow> hash \<Rightarrow> S3 \<Rightarrow> ObjectId \<Rightarrow> string list \<Rightarrow> bytes s3_task" where
  "s3_search_segments h h2 C oid [] = raiseP (ObjectNotFound (oid_value oid))"
| "s3_search_segments h h2 C oid (index_key # keys) =
    bindP (s3_request ''GET'' index_key [] []) (\<lambda>index.
    bindP (liftP (decode_index index)) (\<lambda>decoded.
    if \<not> list_ex (\<lambda>e. se_oid e = oid) (si_entries decoded) then s3_search_segments h h2 C oid keys
    else
      bindP (catchP (s3_request ''GET'' (take (length index_key - 5) index_key @ ''.tseg'') [] [])
        (\<lambda>e. if is_unavailable e then raiseP (BackendUnavailable (''missing segment data for '' @ index_key)) else raiseP e)) (\<lambda>segment.
      catchP (liftP (read_segment_object h h2 segment index oid))
        (\<lambda>e. if is_value_error e
             then raiseP (BackendUnavailable (''corrupt segment '' @ index_key @ '': '' @ exc_str e)) else raiseP e))))"

definition s3_read_segment_object :: "hash \<Rightarrow> hash \<Rightarrow> xml_list \<Rightarrow> nat \<Rightarrow> S3 \<Rightarrow> ObjectId \<Rightarrow> bytes s3_task" where
  "s3_read_segment_object h h2 xml pages C oid =
    bindP (s3_list_pages xml pages (s3_key C ''segments/'') None) (\<lambda>keys.
    s3_search_segments h h2 C oid (sort (filter (\<lambda>k. endswith k ''.tidx'') keys)))"

definition s3_read_object :: "hash \<Rightarrow> hash \<Rightarrow> (json \<Rightarrow> string) \<Rightarrow> xml_list \<Rightarrow> nat \<Rightarrow> S3 \<Rightarrow> ObjectId \<Rightarrow> bytes s3_task" where
  "s3_read_object h h2 js xml pages C oid =
    catchP (s3_request ''GET'' (s3_object_key C oid) [] []) (\<lambda>e.
      if \<not> unavailable_with ''404'' e then raiseP e
      else catchP (s3_read_chunked_object h h2 js C oid) (\<lambda>e.
        if is_object_not_found e then s3_read_segment_object h h2 xml pages C oid else raiseP e))"

definition s3_write_object :: "hash \<Rightarrow> hash \<Rightarrow> S3 \<Rightarrow> ObjectId \<Rightarrow> bytes \<Rightarrow> unit s3_task" where
  "s3_write_object h h2 C oid data =
    (if from_bytes h data \<noteq> oid then raiseP (ValueError ''object id does not match object data'')
     else if should_chunk data then s3_write_chunked_object h h2 C oid data
     else bindP (s3_request ''PUT'' (s3_object_key C oid) data []) (\<lambda>_. returnP ()))"

definition s3_write_objects :: "hash \<Rightarrow> hash \<Rightarrow> S3 \<Rightarrow> (ObjectId \<times> bytes) list \<Rightarrow> unit s3_task" where
  "s3_write_objects h h2 C objects =
    bindP (iterP (\<lambda>(oid, data). s3_write_object h h2 C oid data) (filter (\<lambda>(_, data). should_chunk data) objects)) (\<lambda>_.
    case filter (\<lambda>(_, data). \<not> should_chunk data) objects of
      [] \<Rightarrow> returnP ()
    | [(oid, data)] \<Rightarrow> s3_write_object h h2 C oid data
    | small \<Rightarrow>
      bindP (liftP (encode_segment h h2 small)) (\<lambda>(segment_id, segment, index).
      bindP (s3_request ''PUT'' (s3_segment_data_key C segment_id) segment []) (\<lambda>_.
      bindP (s3_request ''PUT'' (s3_segment_index_key C segment_id) index []) (\<lambda>_. returnP ()))))"

text \<open>References. \<open>stamp\<close> is the text of the time that is written into a lock.\<close>

definition s3_read_ref :: "S3 \<Rightarrow> string \<Rightarrow> ObjectId option s3_task" where
  "s3_read_ref C name =
    catchP (bindP (s3_request ''GET'' (s3_key C (normalize_ref name)) [] []) (\<lambda>data.
      liftP (bindR (decode_strip data) ref_of_text)))
      (\<lambda>e. if unavailable_with ''404'' e then returnP None else raiseP e)"

definition s3_lock_key :: "S3 \<Rightarrow> string \<Rightarrow> string" where
  "s3_lock_key C name = s3_key C (''locks/'' @ url_quote [] (normalize_ref name) @ ''.lock'')"

definition s3_locked_swap :: "S3 \<Rightarrow> string \<Rightarrow> ObjectId option \<Rightarrow> ObjectId \<Rightarrow> bool s3_task" where
  "s3_locked_swap C name expected new =
    bindP (s3_read_ref C (normalize_ref name)) (\<lambda>current.
    if current \<noteq> expected then returnP False
    else bindP (s3_request ''PUT'' (s3_key C (normalize_ref name)) (oid_value new @ [CHR 0x0A]) []) (\<lambda>_. returnP True))"

definition s3_cas_ref :: "S3 \<Rightarrow> bytes \<Rightarrow> string \<Rightarrow> ObjectId option \<Rightarrow> ObjectId \<Rightarrow> bool s3_task" where
  "s3_cas_ref C stamp name expected new =
    bindP (catchP (bindP (s3_request ''PUT'' (s3_lock_key C name) stamp [(''If-None-Match'', ''*'')]) (\<lambda>_. returnP True))
      (\<lambda>e. if unavailable_with ''412'' e then returnP False else raiseP e)) (\<lambda>locked.
    if \<not> locked then returnP False
    else finallyP (s3_locked_swap C name expected new) (s3_request ''DELETE'' (s3_lock_key C name) [] []))"

definition s3_delete :: "string \<Rightarrow> unit s3_task" where
  "s3_delete key = bindP (s3_request ''DELETE'' key [] []) (\<lambda>_. returnP ())"

definition s3_read_listed :: "S3 \<Rightarrow> string \<Rightarrow> Ref list s3_task" where
  "s3_read_listed C key =
    (if endswith key ''/'' then returnP []
     else
       bindP (s3_request ''GET'' key [] []) (\<lambda>data.
       bindP (liftP (bindR (decode_strip data) ref_of_text)) (\<lambda>r.
       returnP (case r of None \<Rightarrow> [] | Some x \<Rightarrow> [\<lparr>ref_name = s3_strip_prefix C key, ref_oid = Some x\<rparr>]))))"

definition s3_list_refs :: "xml_list \<Rightarrow> nat \<Rightarrow> S3 \<Rightarrow> string \<Rightarrow> Ref list s3_task" where
  "s3_list_refs xml pages C pre =
    bindP (s3_list_pages xml pages (s3_key C (if pre \<noteq> [] then normalize_ref pre else ''refs/'')) None) (\<lambda>keys.
    bindP (mapP (s3_read_listed C) keys) (\<lambda>rs. returnP (concat rs)))"

text \<open>The journal, the configuration and the bucket.\<close>

definition s3_append_journal :: "(json \<Rightarrow> string) \<Rightarrow> S3 \<Rightarrow> JournalEntry \<Rightarrow> unit s3_task" where
  "s3_append_journal orjson_dumps C entry =
    catchP (bindP (s3_request ''PUT'' (s3_key C (''journals/'' @ je_id entry @ ''.txn'')) (journal_to_json orjson_dumps entry)
        [(''If-None-Match'', ''*'')]) (\<lambda>_. returnP ()))
      (\<lambda>e. if unavailable_with ''412'' e then returnP () else raiseP e)"

definition s3_read_config :: "S3 \<Rightarrow> json s3_task" where
  "s3_read_config C =
    catchP (bindP (s3_request ''GET'' (s3_key C ''config'') [] []) (\<lambda>data. liftP (bindR (decode_utf8 data) loads)))
      (\<lambda>e. if unavailable_with ''404'' e then raiseP (ObjectNotFound ''config'') else raiseP e)"

definition s3_write_config :: "S3 \<Rightarrow> json \<Rightarrow> unit s3_task" where
  "s3_write_config C data =
    bindP (s3_request ''PUT'' (s3_key C ''config'') (dumps spaced (sort_keys data)) []) (\<lambda>_. returnP ())"

definition s3_ensure_bucket :: "bool \<Rightarrow> unit s3_task" where
  "s3_ensure_bucket bucket_ready =
    (if bucket_ready then returnP ()
     else catchP (bindP (s3_request ''PUT'' [] [] []) (\<lambda>_. returnP ()))
       (\<lambda>e. if unavailable_with ''409'' e then returnP () else raiseP e))"

section \<open>The backend\<close>

definition s3_capabilities :: Capabilities where
  "s3_capabilities = \<lparr>cap_cas_refs = True, cap_locks = True, cap_journal = True, cap_list_prefix = True,
     cap_read_after_write_refs = True\<rparr>"

text \<open>The backend on a service that answers the messages of the client. The clock \<open>clock\<close> gives the time of a request and
  the text that goes into a lock.\<close>

record s3_env =
  env_h :: hash
  env_h2 :: hash
  env_js :: "json \<Rightarrow> string"
  env_orjson :: "json \<Rightarrow> string"
  env_xml :: xml_list
  env_pages :: nat
  env_now :: datetime
  env_stamp :: bytes

definition s3_backend :: "s3_env \<Rightarrow> S3 \<Rightarrow> (HttpMessage \<Rightarrow> 's \<Rightarrow> http_reply \<times> 's) \<Rightarrow> 's Backend" where
  "s3_backend E C http =
    (let h = env_h E; h2 = env_h2 E;
         serve = (\<lambda>call. http (s3_message h2 C (env_now E) call));
         read = (\<lambda>oid. run_prog serve (s3_read_object h h2 (env_js E) (env_xml E) (env_pages E) C oid))
     in \<lparr>
       capabilities = s3_capabilities,
       read_object = read,
       write_object = (\<lambda>oid data. run_prog serve (s3_write_object h h2 C oid data)),
       write_objects = (\<lambda>objects. run_prog serve (s3_write_objects h h2 C objects)),
       has_object = default_has_object read,
       read_ref = (\<lambda>name. run_prog serve (s3_read_ref C name)),
       cas_ref = (\<lambda>name expected new. run_prog serve (s3_cas_ref C (env_stamp E) name expected new)),
       delete_ref = (\<lambda>name. run_prog serve (s3_delete (s3_key C (normalize_ref name)))),
       delete_object = (\<lambda>oid. run_prog serve (s3_delete (s3_object_key C oid))),
       list_refs = (\<lambda>pre. run_prog serve (s3_list_refs (env_xml E) (env_pages E) C pre)),
       append_journal = (\<lambda>entry. run_prog serve (s3_append_journal (env_orjson E) C entry)),
       read_config = run_prog serve (s3_read_config C),
       write_config = (\<lambda>data. run_prog serve (s3_write_config C data))\<rparr>)"

end
