(* ===== verification/S3Cas.thy ===== *)
theory S3Cas
  imports S3
begin

text \<open>
  Swapping references on an object store, by many clients at once. \<^verbatim>\<open>S3.cas_ref\<close> creates a lock object when it is
  absent, reads the reference, overwrites it and deletes the lock, with every request repeated when it fails.
  \<open>bucket_serve\<close> is what an S3 service documents: requests are atomic, a request that failed may or may not
  have taken effect, and a conditional PUT creates an object only when there is none. \<open>cas_point\<close> are the
  points between two requests of \<^verbatim>\<open>cas_ref\<close>, and \<open>point_step\<close> shows that the program is the state machine over
  them.

  \<open>s3_cas_atomic\<close>: however the requests of the clients interleave, a reference changes only from the value
  that the client expects, as long as a DELETE that failed has not taken effect. Without that, a repeated
  DELETE removes the lock of another client, and \<open>s3_retried_unlock_loses_update\<close> has a run in which an update
  is lost.
\<close>

section \<open>The service\<close>

type_synonym bucket = "string \<Rightarrow> bytes option"

definition good_reply :: "http_reply \<Rightarrow> bool" where
  "good_reply p = (case p of HttpResponse status _ _ \<Rightarrow> 200 \<le> status \<and> status < 300 | _ \<Rightarrow> False)"

fun reply_body :: "http_reply \<Rightarrow> bytes" where
  "reply_body (HttpResponse _ _ body) = body"
| "reply_body _ = []"

fun reply_text :: "http_reply \<Rightarrow> string" where
  "reply_text (HttpResponse status reason _) = dec status @ '' '' @ reason"
| "reply_text (HttpTransportError msg) = msg"
| "reply_text (HttpError msg) = msg"

text \<open>\<open>lossy\<close>: a DELETE that is answered with a failure may have taken effect.\<close>

definition bucket_serve :: "bool \<Rightarrow> S3Call \<Rightarrow> bucket \<Rightarrow> http_reply \<Rightarrow> bucket \<Rightarrow> bool" where
  "bucket_serve lossy q b p b' \<longleftrightarrow>
    (if call_method q = ''GET'' then
       b' = b \<and> (call_query q = [] \<longrightarrow>
         (good_reply p \<longrightarrow> b (call_key q) = Some (reply_body p)) \<and>
         (\<not> good_reply p \<and> contains ''404'' (reply_text p) \<longrightarrow> b (call_key q) = None))
     else if call_method q = ''PUT'' then
       (let free = (map_of (call_headers q) ''If-None-Match'' = Some ''*'' \<longrightarrow> b (call_key q) = None);
            stored = b(call_key q \<mapsto> call_body q)
        in if good_reply p then free \<and> b' = stored else b' = b \<or> free \<and> b' = stored)
     else if call_method q = ''DELETE'' then
       b' = b(call_key q := None) \<and> (good_reply p \<or> lossy) \<or> \<not> good_reply p \<and> b' = b
     else b' = b)"

section \<open>The program as a state machine\<close>

record cas_job =
  job_stamp :: bytes
  job_name :: string
  job_expected :: "ObjectId option"
  job_new :: ObjectId

definition job_prog :: "S3 \<Rightarrow> cas_job \<Rightarrow> bool s3_task" where
  "job_prog C j = s3_cas_ref C (job_stamp j) (job_name j) (job_expected j) (job_new j)"

definition lock_key :: "S3 \<Rightarrow> cas_job \<Rightarrow> string" where
  "lock_key C j = s3_lock_key C (job_name j)"

definition ref_key :: "S3 \<Rightarrow> cas_job \<Rightarrow> string" where
  "ref_key C j = s3_key C (normalize_ref (job_name j))"

definition new_text :: "cas_job \<Rightarrow> bytes" where
  "new_text j = oid_value (job_new j) @ [CHR 0x0A]"

text \<open>The points at which a client waits for the reply to a request, with the number of attempts left.\<close>

datatype cas_point = Locking nat | Reading nat | Writing nat | Unlocking nat "bool res" | Finished "bool res"

definition mk_call :: "string \<Rightarrow> string \<Rightarrow> bytes \<Rightarrow> (string, string) dict \<Rightarrow> S3Call" where
  "mk_call method key body headers =
    \<lparr>call_method = method, call_key = key, call_body = body, call_headers = headers, call_query = []\<rparr>"

fun point_call :: "S3 \<Rightarrow> cas_job \<Rightarrow> cas_point \<Rightarrow> S3Call" where
  "point_call C j (Locking n) = mk_call ''PUT'' (lock_key C j) (job_stamp j) [(''If-None-Match'', ''*'')]"
| "point_call C j (Reading n) = mk_call ''GET'' (ref_key C j) [] []"
| "point_call C j (Writing n) = mk_call ''PUT'' (ref_key C j) (new_text j) []"
| "point_call C j (Unlocking n x) = mk_call ''DELETE'' (lock_key C j) [] []"
| "point_call C j (Finished x) = mk_call [] [] [] []"

definition unlock :: "S3 \<Rightarrow> cas_job \<Rightarrow> bytes s3_task" where
  "unlock C j = s3_try 3 (mk_call ''DELETE'' (lock_key C j) [] [])"

definition after_read :: "S3 \<Rightarrow> cas_job \<Rightarrow> ObjectId option \<Rightarrow> bool s3_task" where
  "after_read C j current =
    (if current \<noteq> job_expected j then returnP False
     else bindP (s3_try 3 (mk_call ''PUT'' (ref_key C j) (new_text j) [])) (\<lambda>_. returnP True))"

definition reading_prog :: "S3 \<Rightarrow> cas_job \<Rightarrow> nat \<Rightarrow> bool s3_task" where
  "reading_prog C j n =
    finallyP (bindP (catchP (bindP (s3_try n (mk_call ''GET'' (ref_key C j) [] [])) (\<lambda>data. liftP (bindR (decode_strip data) ref_of_text)))
      (\<lambda>e. if unavailable_with ''404'' e then returnP None else raiseP e)) (after_read C j)) (unlock C j)"

fun point_prog :: "S3 \<Rightarrow> cas_job \<Rightarrow> cas_point \<Rightarrow> bool s3_task" where
  "point_prog C j (Locking n) =
    bindP (catchP (bindP (s3_try n (point_call C j (Locking n))) (\<lambda>_. returnP True))
      (\<lambda>e. if unavailable_with ''412'' e then returnP False else raiseP e)) (\<lambda>locked.
    if \<not> locked then returnP False else reading_prog C j 3)"
| "point_prog C j (Reading n) = reading_prog C j n"
| "point_prog C j (Writing n) =
    finallyP (bindP (s3_try n (point_call C j (Writing n))) (\<lambda>_. returnP True)) (unlock C j)"
| "point_prog C j (Unlocking n x) = bindP (s3_try n (point_call C j (Unlocking n x))) (\<lambda>_. Ret x)"
| "point_prog C j (Finished x) = Ret x"

text \<open>What a reply to an attempt means: another attempt, or an outcome.\<close>

definition attempt :: "nat \<Rightarrow> http_reply \<Rightarrow> nat + bytes res" where
  "attempt n p =
    (if good_reply p then Inr (Inr (reply_body p))
     else if 0 < n \<and> (case p of HttpResponse status _ _ \<Rightarrow> status \<in> RETRYABLE_STATUS_CODES | HttpTransportError _ \<Rightarrow> True | HttpError _ \<Rightarrow> False)
       then Inl (n - 1)
     else Inr (Inl (BackendUnavailable (reply_text p))))"

definition read_point :: "cas_job \<Rightarrow> ObjectId option res \<Rightarrow> cas_point" where
  "read_point j r =
    (case r of
       Inl e \<Rightarrow> Unlocking 3 (Inl e)
     | Inr current \<Rightarrow> if current \<noteq> job_expected j then Unlocking 3 (Inr False) else Writing 3)"

fun point_next :: "cas_job \<Rightarrow> cas_point \<Rightarrow> http_reply \<Rightarrow> cas_point" where
  "point_next j (Locking n) p =
    (case attempt n p of
       Inl m \<Rightarrow> Locking m
     | Inr (Inr _) \<Rightarrow> Reading 3
     | Inr (Inl e) \<Rightarrow> if unavailable_with ''412'' e then Finished (Inr False) else Finished (Inl e))"
| "point_next j (Reading n) p =
    (case attempt n p of
       Inl m \<Rightarrow> Reading m
     | Inr (Inr data) \<Rightarrow> read_point j (bindR (decode_strip data) ref_of_text)
     | Inr (Inl e) \<Rightarrow> if unavailable_with ''404'' e then read_point j (Inr None) else Unlocking 3 (Inl e))"
| "point_next j (Writing n) p =
    (case attempt n p of
       Inl m \<Rightarrow> Writing m
     | Inr (Inr _) \<Rightarrow> Unlocking 3 (Inr True)
     | Inr (Inl e) \<Rightarrow> Unlocking 3 (Inl e))"
| "point_next j (Unlocking n x) p =
    (case attempt n p of
       Inl m \<Rightarrow> Unlocking m x
     | Inr (Inr _) \<Rightarrow> Finished x
     | Inr (Inl e) \<Rightarrow> Finished (Inl e))"
| "point_next j (Finished x) p = Finished x"

lemma s3_try_attempt: "s3_try n call = Req call (\<lambda>p. case attempt n p of Inl m \<Rightarrow> s3_try m call | Inr r \<Rightarrow> Ret r)"
proof -
  have "s3_reply again p = (case attempt n p of Inl m \<Rightarrow> s3_try m call | Inr r \<Rightarrow> Ret r)"
    if "again = (case n of 0 \<Rightarrow> None | Suc m \<Rightarrow> Some (s3_try m call))" for p again
    using that by (cases n; cases p) (auto simp: s3_reply_def attempt_def good_reply_def)
  then show ?thesis by (cases n) auto
qed

lemma decode_not_missing: "bindR (decode_strip data) ref_of_text = Inl e \<Longrightarrow> \<not> unavailable_with t e"
  by (auto simp: decode_strip_def decode_utf8_def ref_of_text_def mk_ObjectId_def unavailable_with_def bindR_eq_Inl split: if_splits)

lemma job_point: "job_prog C j = point_prog C j (Locking 3)"
proof -
  have "finallyP (s3_locked_swap C (job_name j) (job_expected j) (job_new j)) (s3_request ''DELETE'' (s3_lock_key C (job_name j)) [] []) =
    reading_prog C j 3"
    by (simp add: s3_locked_swap_def s3_read_ref_def s3_request_def s3_request_query_def unlock_def after_read_def [abs_def]
        lock_key_def ref_key_def new_text_def mk_call_def reading_prog_def cong: if_cong)
  then show ?thesis
    by (simp add: job_prog_def s3_cas_ref_def s3_request_def s3_request_query_def mk_call_def lock_key_def cong: if_cong)
qed

lemma bindP_try:
  "bindP (s3_try n call) f = Req call (\<lambda>p. case attempt n p of Inl m \<Rightarrow> bindP (s3_try m call) f | Inr r \<Rightarrow> bindP (Ret r) f)"
  by (subst s3_try_attempt) (auto simp: fun_eq_iff split: sum.split)

text \<open>A client at a point sends the request of the point and goes on at the next one.\<close>

lemma point_step:
  assumes "\<And>x. pt \<noteq> Finished x"
  shows "point_prog C j pt = Req (point_call C j pt) (\<lambda>p. point_prog C j (point_next j pt p))"
proof (cases pt)
  case (Reading n)
  show ?thesis unfolding Reading point_prog.simps reading_prog_def
    by (subst bindP_try) (auto simp: fun_eq_iff reading_prog_def unlock_def after_read_def read_point_def
        split: sum.split dest: decode_not_missing [of _ _ "''404''"])
qed (use assms in \<open>(auto simp: bindP_try fun_eq_iff unlock_def split: sum.split)\<close>)

section \<open>Keys\<close>

definition plain_ref :: "string \<Rightarrow> bool" where
  "plain_ref n \<longleftrightarrow> startswith (normalize_ref n) ''refs/'' \<and> last (normalize_ref n) \<noteq> SLASH"

lemma strip_slashes_id: "s \<noteq> [] \<Longrightarrow> hd s \<noteq> SLASH \<Longrightarrow> last s \<noteq> SLASH \<Longrightarrow> strip_slashes s = s"
proof -
  assume "s \<noteq> []" "hd s \<noteq> SLASH" "last s \<noteq> SLASH"
  then have "dropWhile (\<lambda>c. c = SLASH) s = s" "dropWhile (\<lambda>c. c = SLASH) (rev s) = rev s"
    by (simp_all add: dropWhile_eq_self_iff hd_rev)
  then show ?thesis by (simp add: strip_slashes_def strip_by_def lstrip_by_def rstrip_by_def)
qed

lemma s3_key_inj:
  assumes "strip_slashes a \<noteq> []" and "strip_slashes b \<noteq> []"
  shows "s3_key C a = s3_key C b \<longleftrightarrow> strip_slashes a = strip_slashes b"
  using assms by (auto simp: s3_key_def)

lemma plain_ref_strip: "plain_ref n \<Longrightarrow> strip_slashes (normalize_ref n) = normalize_ref n \<and> normalize_ref n \<noteq> []"
  using strip_slashes_id [of "normalize_ref n"] by (auto simp: plain_ref_def startswith_iff)

lemma lock_strip: "strip_slashes (''locks/'' @ t @ ''.lock'') = ''locks/'' @ t @ ''.lock''"
  by (rule strip_slashes_id) auto

lemma same_ref_same_lock:
  assumes "plain_ref (job_name i)" and "plain_ref (job_name j)" and "ref_key C i = ref_key C j"
  shows "lock_key C i = lock_key C j"
  using assms plain_ref_strip [OF assms(1)] plain_ref_strip [OF assms(2)] s3_key_inj [of "normalize_ref (job_name i)" "normalize_ref (job_name j)" C]
  by (simp add: ref_key_def lock_key_def s3_lock_key_def)

lemma ref_not_lock:
  assumes "plain_ref (job_name i)"
  shows "ref_key C i \<noteq> lock_key C j"
proof -
  have "normalize_ref (job_name i) \<noteq> ''locks/'' @ t @ ''.lock''" for t
    using assms by (auto simp: plain_ref_def startswith_iff)
  then show ?thesis
    using s3_key_inj [of "normalize_ref (job_name i)" "''locks/'' @ url_quote [] (normalize_ref (job_name j)) @ ''.lock''" C]
      plain_ref_strip [OF assms] lock_strip [of "url_quote [] (normalize_ref (job_name j))"]
    by (simp add: ref_key_def lock_key_def s3_lock_key_def)
qed

section \<open>Mutual exclusion\<close>

fun critical :: "cas_point \<Rightarrow> bool" where
  "critical (Locking n) \<longleftrightarrow> False"
| "critical (Reading n) \<longleftrightarrow> True"
| "critical (Writing n) \<longleftrightarrow> True"
| "critical (Unlocking n x) \<longleftrightarrow> True"
| "critical (Finished x) \<longleftrightarrow> False"

text \<open>The value of a reference in the bucket.\<close>

definition ref_is :: "bucket \<Rightarrow> string \<Rightarrow> ObjectId option \<Rightarrow> bool" where
  "ref_is b k e = (case b k of None \<Rightarrow> e = None | Some data \<Rightarrow> bindR (decode_strip data) ref_of_text = Inr e)"

text \<open>What a client at a point knows of its reference.\<close>

fun knows :: "S3 \<Rightarrow> cas_job \<Rightarrow> bucket \<Rightarrow> cas_point \<Rightarrow> bool" where
  "knows C j b (Writing n) \<longleftrightarrow> ref_is b (ref_key C j) (job_expected j) \<or> b (ref_key C j) = Some (new_text j)"
| "knows C j b (Unlocking n x) \<longleftrightarrow> (x = Inr True \<longrightarrow> b (ref_key C j) = Some (new_text j))"
| "knows C j b (Locking n) \<longleftrightarrow> True"
| "knows C j b (Reading n) \<longleftrightarrow> True"
| "knows C j b (Finished x) \<longleftrightarrow> True"

text \<open>Clients without a job may do anything but write or delete the references and locks of the jobs.\<close>

primrec all_calls :: "('q \<Rightarrow> bool) \<Rightarrow> ('q, 'p, 'a) prog \<Rightarrow> bool" where
  "all_calls P (Ret x) \<longleftrightarrow> True"
| "all_calls P (Req q k) \<longleftrightarrow> P q \<and> (\<forall>p. all_calls P (k p))"

definition harmless :: "S3 \<Rightarrow> (nat \<Rightarrow> cas_job option) \<Rightarrow> S3Call \<Rightarrow> bool" where
  "harmless C job q \<longleftrightarrow> call_method q = ''GET'' \<or> (\<forall>i j. job i = Some j \<longrightarrow> call_key q \<noteq> ref_key C j \<and> call_key q \<noteq> lock_key C j)"

definition cas_inv :: "S3 \<Rightarrow> (nat \<Rightarrow> cas_job option) \<Rightarrow> bucket \<Rightarrow> (nat \<Rightarrow> bool s3_task) \<Rightarrow> (nat \<Rightarrow> cas_point) \<Rightarrow> bool" where
  "cas_inv C job b c pt \<longleftrightarrow>
    (\<forall>i. case job i of None \<Rightarrow> all_calls (harmless C job) (c i)
       | Some j \<Rightarrow> c i = point_prog C j (pt i) \<and> (critical (pt i) \<longrightarrow> b (lock_key C j) \<noteq> None) \<and> knows C j b (pt i)) \<and>
    (\<forall>i i' j j'. job i = Some j \<and> job i' = Some j' \<and> critical (pt i) \<and> critical (pt i') \<and> lock_key C j = lock_key C j' \<longrightarrow> i = i')"

text \<open>One request of one client: what it does to the bucket, seen from the point the client is at.\<close>

lemma serve_simps:
  "bucket_serve lossy (mk_call ''GET'' k d hs) b p b' \<longleftrightarrow> b' = b \<and> (good_reply p \<longrightarrow> b k = Some (reply_body p)) \<and>
     (\<not> good_reply p \<and> contains ''404'' (reply_text p) \<longrightarrow> b k = None)"
  "bucket_serve lossy (mk_call ''PUT'' k d []) b p b' \<longleftrightarrow> b' = b(k \<mapsto> d) \<or> \<not> good_reply p \<and> b' = b"
  "bucket_serve lossy (mk_call ''PUT'' k d [(''If-None-Match'', ''*'')]) b p b' \<longleftrightarrow>
     b k = None \<and> b' = b(k \<mapsto> d) \<or> \<not> good_reply p \<and> b' = b"
  "bucket_serve lossy (mk_call ''DELETE'' k d hs) b p b' \<longleftrightarrow> b' = b(k := None) \<and> (good_reply p \<or> lossy) \<or> \<not> good_reply p \<and> b' = b"
  by (auto simp: bucket_serve_def mk_call_def)

lemma attempt_cases:
  "attempt n p = Inr (Inr d) \<longleftrightarrow> good_reply p \<and> d = reply_body p"
  "attempt n p = Inl m \<Longrightarrow> \<not> good_reply p"
  "attempt n p = Inr (Inl e) \<Longrightarrow> \<not> good_reply p \<and> e = BackendUnavailable (reply_text p)"
  by (auto simp: attempt_def split: if_splits)

text \<open>The effect of a request on the bucket: nothing, or a new value for the lock or the reference.\<close>

lemma point_effect:
  assumes "bucket_serve False (point_call C j pt) b p b'" and "\<And>x. pt \<noteq> Finished x"
  shows "b' = b \<and> (\<forall>n x. pt = Unlocking n x \<longrightarrow> critical (point_next j pt p) \<or> \<not> good_reply p) \<or>
    (\<exists>n. pt = Locking n \<and> b (lock_key C j) = None \<and> b' = b(lock_key C j \<mapsto> job_stamp j)) \<or>
    (\<exists>n. pt = Writing n \<and> b' = b(ref_key C j \<mapsto> new_text j)) \<or>
    (\<exists>n x. pt = Unlocking n x \<and> good_reply p \<and> b' = b(lock_key C j := None))"
  using assms by (cases pt) (auto simp: serve_simps)

lemma point_critical:
  "critical (point_next j pt p) \<Longrightarrow> critical pt \<or> (\<exists>n. pt = Locking n) \<and> good_reply p"
  "critical pt \<Longrightarrow> \<not> critical (point_next j pt p) \<Longrightarrow> \<exists>n x. pt = Unlocking n x"
  by (cases pt; auto simp: attempt_def read_point_def split: sum.splits if_splits)+

lemma point_knows:
  assumes "bucket_serve False (point_call C j pt) b p b'" and "ref_key C j \<noteq> lock_key C j" and "knows C j b pt"
  shows "knows C j b' (point_next j pt p)"
proof (cases pt)
  case (Reading n)
  have "ref_is b (ref_key C j) r" if "read_point j (Inr r) = Writing m" "bindR (decode_strip (reply_body p)) ref_of_text = Inr r" "good_reply p" for r m
    using assms(1) that by (simp add: Reading serve_simps ref_is_def)
  moreover have "ref_is b (ref_key C j) None" if "\<not> good_reply p" "contains ''404'' (reply_text p)"
    using assms(1) that by (simp add: Reading serve_simps ref_is_def)
  ultimately show ?thesis
    using assms(1) unfolding Reading
    by (auto simp: serve_simps read_point_def attempt_cases unavailable_with_def split: sum.split dest!: attempt_cases(2,3))
qed (use assms in \<open>auto simp: serve_simps ref_is_def attempt_cases split: sum.split dest: attempt_cases(2,3)\<close>)

lemma knows_cong: "b' (ref_key C j) = b (ref_key C j) \<Longrightarrow> knows C j b' pt = knows C j b pt"
  by (cases pt) (simp_all add: ref_is_def)

lemma knows_critical: "\<not> critical pt \<Longrightarrow> knows C j b pt"
  by (cases pt) simp_all

lemma serve_elsewhere: "bucket_serve lossy q b p b' \<Longrightarrow> b' k = b k \<or> call_method q \<noteq> ''GET'' \<and> call_key q = k"
  by (auto simp: bucket_serve_def Let_def split: if_splits)

lemma point_prog_Ret: "point_prog C j pt = Ret x \<longleftrightarrow> pt = Finished x"
  using point_step [of pt C j] by (cases pt) auto

lemma point_success:
  assumes "point_next j pt p = Finished (Inr True)" and "\<And>x. pt \<noteq> Finished x"
  shows "\<exists>n. pt = Unlocking n (Inr True)"
  using assms by (cases pt) (auto simp: read_point_def split: sum.splits if_splits)

lemma cas_invI:
  assumes "\<And>i. job i = None \<Longrightarrow> all_calls (harmless C job) (c i)"
    and "\<And>i j. job i = Some j \<Longrightarrow> c i = point_prog C j (pt i) \<and> (critical (pt i) \<longrightarrow> b (lock_key C j) \<noteq> None) \<and> knows C j b (pt i)"
    and "\<And>i i' j j'. job i = Some j \<Longrightarrow> job i' = Some j' \<Longrightarrow> critical (pt i) \<Longrightarrow> critical (pt i') \<Longrightarrow> lock_key C j = lock_key C j' \<Longrightarrow> i = i'"
  shows "cas_inv C job b c pt"
  unfolding cas_inv_def
proof (intro conjI allI)
  fix i show "case job i of None \<Rightarrow> all_calls (harmless C job) (c i)
      | Some j \<Rightarrow> c i = point_prog C j (pt i) \<and> (critical (pt i) \<longrightarrow> b (lock_key C j) \<noteq> None) \<and> knows C j b (pt i)"
    using assms(1) [of i] assms(2) [of i] by (simp split: option.split)
qed (use assms(3) in blast)

lemma cas_invD:
  assumes "cas_inv C job b c pt"
  shows "job i = None \<Longrightarrow> all_calls (harmless C job) (c i)"
    and "job i = Some j \<Longrightarrow> c i = point_prog C j (pt i)"
    and "job i = Some j \<Longrightarrow> critical (pt i) \<Longrightarrow> b (lock_key C j) \<noteq> None"
    and "job i = Some j \<Longrightarrow> knows C j b (pt i)"
    and "job i = Some j \<Longrightarrow> job i' = Some j' \<Longrightarrow> critical (pt i) \<Longrightarrow> critical (pt i') \<Longrightarrow> lock_key C j = lock_key C j' \<Longrightarrow> i = i'"
proof -
  note c = assms [unfolded cas_inv_def, THEN conjunct1, rule_format, of i]
  show "job i = None \<Longrightarrow> all_calls (harmless C job) (c i)" using c by simp
  show "job i = Some j \<Longrightarrow> c i = point_prog C j (pt i)" using c by simp
  show "job i = Some j \<Longrightarrow> critical (pt i) \<Longrightarrow> b (lock_key C j) \<noteq> None" using c by simp
  show "job i = Some j \<Longrightarrow> knows C j b (pt i)" using c by simp
qed (use assms [unfolded cas_inv_def, THEN conjunct2] in blast)

text \<open>A step of a client without a job changes nothing that the others look at.\<close>

lemma cas_inv_bystander:
  assumes I: "cas_inv C job b c pt" and i: "job i = None" "c i = Req q k" and s: "bucket_serve False q b p b'"
  shows "cas_inv C job b' (c(i := k p)) pt"
    and "job i' = Some j' \<Longrightarrow> b' (ref_key C j') = b (ref_key C j')"
proof -
  have h: "harmless C job q" "all_calls (harmless C job) (k p)" using cas_invD(1) [OF I i(1)] i(2) by simp_all
  have same: "b' (ref_key C j') = b (ref_key C j')" "b' (lock_key C j') = b (lock_key C j')" if "job i' = Some j'" for i' j'
    using h(1) that serve_elsewhere [OF s] unfolding harmless_def by blast+
  then show "job i' = Some j' \<Longrightarrow> b' (ref_key C j') = b (ref_key C j')" by blast
  show "cas_inv C job b' (c(i := k p)) pt"
  proof (rule cas_invI)
    fix i' assume "job i' = None"
    then show "all_calls (harmless C job) ((c(i := k p)) i')" using h(2) cas_invD(1) [OF I] by simp
  next
    fix i' j' assume j: "job i' = Some j'"
    then have "i' \<noteq> i" using i(1) by auto
    then show "(c(i := k p)) i' = point_prog C j' (pt i') \<and> (critical (pt i') \<longrightarrow> b' (lock_key C j') \<noteq> None) \<and> knows C j' b' (pt i')"
      using cas_invD(2-4) [OF I j] same [OF j] knows_cong [of b' C j' b "pt i'"] by simp
  qed (rule cas_invD(5) [OF I])
qed

text \<open>A step of a client with a job, from the point \<open>pt i\<close> to the next one.\<close>

definition client_moves :: "S3 \<Rightarrow> (nat \<Rightarrow> cas_job option) \<Rightarrow> bucket \<Rightarrow> (nat \<Rightarrow> bool s3_task) \<Rightarrow> (nat \<Rightarrow> cas_point) \<Rightarrow> nat \<Rightarrow> cas_job \<Rightarrow>
    http_reply \<Rightarrow> bucket \<Rightarrow> bool" where
  "client_moves C job b c pt i j p b' \<longleftrightarrow>
    cas_inv C job b c pt \<and> (\<forall>i j. job i = Some j \<longrightarrow> plain_ref (job_name j)) \<and> job i = Some j \<and> (\<forall>x. pt i \<noteq> Finished x) \<and>
    bucket_serve False (point_call C j (pt i)) b p b'"

lemma client_movesD:
  assumes "client_moves C job b c pt i j p b'"
  shows "cas_inv C job b c pt" "job i = Some j" "pt i \<noteq> Finished x" "bucket_serve False (point_call C j (pt i)) b p b'"
    and "job i' = Some j' \<Longrightarrow> plain_ref (job_name j')" and "job i' = Some j' \<Longrightarrow> ref_key C j' \<noteq> lock_key C j''"
    and "b' = b \<and> (\<forall>n x. pt i = Unlocking n x \<longrightarrow> critical (point_next j (pt i) p) \<or> \<not> good_reply p) \<or>
      (\<exists>n. pt i = Locking n \<and> b (lock_key C j) = None \<and> b' = b(lock_key C j \<mapsto> job_stamp j)) \<or>
      (\<exists>n. pt i = Writing n \<and> b' = b(ref_key C j \<mapsto> new_text j)) \<or>
      (\<exists>n x. pt i = Unlocking n x \<and> good_reply p \<and> b' = b(lock_key C j := None))"
  using assms point_effect [of C j "pt i" b p b'] ref_not_lock [of j' C j''] unfolding client_moves_def by simp_all

lemma client_excl:
  assumes m: "client_moves C job b c pt i j p b'"
    and "job i' = Some j'" "critical (pt i')" "critical (pt i)" "lock_key C j' = lock_key C j"
  shows "i' = i"
  by (rule cas_invD(5) [OF client_movesD(1) [OF m] assms(2) client_movesD(2) [OF m] assms(3-5)])

lemma client_lock:
  assumes m: "client_moves C job b c pt i j p b'" and j': "job i' = Some j'" "critical ((pt(i := point_next j (pt i) p)) i')"
  shows "b' (lock_key C j') \<noteq> None"
proof (cases "i' = i")
  case True
  have i: "job i = Some j" "bucket_serve False (point_call C j (pt i)) b p b'" using client_movesD(2,4) [OF m] by auto
  have "critical (pt i) \<or> (\<exists>n. pt i = Locking n) \<and> good_reply p" using j'(2) True point_critical(1) by simp
  then show ?thesis
  proof
    assume "critical (pt i)"
    then show ?thesis
      using client_movesD(7) [OF m] cas_invD(3) [OF client_movesD(1) [OF m] i(1)] client_movesD(6) [OF m i(1)] j' True i(1)
      by (auto simp: attempt_def split: if_splits)
  next
    assume "(\<exists>n. pt i = Locking n) \<and> good_reply p"
    then have "b' = b(lock_key C j \<mapsto> job_stamp j)" using i(2) by (auto simp: serve_simps)
    then show ?thesis using j'(1) True i(1) by simp
  qed
next
  case False
  with j'(2) have c: "critical (pt i')" by simp
  then have "b (lock_key C j') \<noteq> None" using cas_invD(3) [OF client_movesD(1) [OF m] j'(1)] by blast
  then show ?thesis using client_movesD(7) [OF m] client_excl [OF m j'(1) c] False by (auto simp: fun_upd_def)
qed

lemma client_knows:
  assumes m: "client_moves C job b c pt i j p b'" and j': "job i' = Some j'"
  shows "knows C j' b' ((pt(i := point_next j (pt i) p)) i')"
proof (cases "i' = i")
  case True
  then show ?thesis
    using point_knows [OF client_movesD(4) [OF m] client_movesD(6) [OF m client_movesD(2) [OF m]]]
      cas_invD(4) [OF client_movesD(1) [OF m] client_movesD(2) [OF m]] j' client_movesD(2) [OF m]
    by simp
next
  case False
  show ?thesis
  proof (cases "critical (pt i')")
    case c: True
    have "ref_key C j \<noteq> ref_key C j'" if "pt i = Writing n" for n
      using client_excl [OF m j' c] False that
        same_ref_same_lock [OF client_movesD(5) [OF m j'] client_movesD(5) [OF m client_movesD(2) [OF m]], of C] by auto
    then have "b' (ref_key C j') = b (ref_key C j')" using client_movesD(7) [OF m] client_movesD(6) [OF m j'] by auto
    then show ?thesis using cas_invD(4) [OF client_movesD(1) [OF m] j'] False knows_cong [of b' C j' b] by simp
  qed (simp add: knows_critical False)
qed

lemma client_unique:
  assumes m: "client_moves C job b c pt i j p b'" and j': "job i' = Some j'" "lock_key C j' = lock_key C j"
    and c: "critical ((pt(i := point_next j (pt i) p)) i')" "critical (point_next j (pt i) p)"
  shows "i' = i"
proof (rule ccontr)
  assume n: "i' \<noteq> i"
  then have c': "critical (pt i')" using c(1) by simp
  have "b (lock_key C j) = None" if "\<not> critical (pt i)"
    using that c(2) point_critical(1) [of j "pt i" p] client_movesD(4) [OF m] by (auto simp: serve_simps)
  then show False using client_excl [OF m j'(1) c' _ j'(2)] cas_invD(3) [OF client_movesD(1) [OF m] j'(1) c'] n j'(2)
    by (cases "critical (pt i)") auto
qed

lemma cas_inv_client:
  assumes m: "client_moves C job b c pt i j p b'"
  shows "cas_inv C job b' (c(i := point_prog C j (point_next j (pt i) p))) (pt(i := point_next j (pt i) p))"
proof (rule cas_invI)
  fix i' assume "job i' = None"
  then show "all_calls (harmless C job) ((c(i := point_prog C j (point_next j (pt i) p))) i')"
    using cas_invD(1) [OF client_movesD(1) [OF m]] client_movesD(2) [OF m] by auto
next
  fix i' j' assume j': "job i' = Some j'"
  then show "(c(i := point_prog C j (point_next j (pt i) p))) i' = point_prog C j' ((pt(i := point_next j (pt i) p)) i') \<and>
      (critical ((pt(i := point_next j (pt i) p)) i') \<longrightarrow> b' (lock_key C j') \<noteq> None) \<and> knows C j' b' ((pt(i := point_next j (pt i) p)) i')"
    using client_lock [OF m j'] client_knows [OF m j'] cas_invD(2) [OF client_movesD(1) [OF m] j'] client_movesD(2) [OF m] by auto
next
  fix i1 i2 j1 j2
  assume 12: "job i1 = Some j1" "job i2 = Some j2" "critical ((pt(i := point_next j (pt i) p)) i1)"
    "critical ((pt(i := point_next j (pt i) p)) i2)" "lock_key C j1 = lock_key C j2"
  show "i1 = i2"
  proof (cases "i1 = i \<or> i2 = i")
    case True
    then show ?thesis using client_unique [OF m 12(1)] client_unique [OF m 12(2)] 12 client_movesD(2) [OF m] by auto
  next
    case False
    then show ?thesis using cas_invD(5) [OF client_movesD(1) [OF m] 12(1,2)] 12(3-5) by simp
  qed
qed

lemma client_changes:
  assumes m: "client_moves C job b c pt i j p b'"
  shows "b' (ref_key C j') \<noteq> b (ref_key C j') \<Longrightarrow> job i' = Some j' \<Longrightarrow>
      ref_key C j' = ref_key C j \<and> ref_is b (ref_key C j) (job_expected j) \<and> b' (ref_key C j) = Some (new_text j)"
    and "point_next j (pt i) p = Finished (Inr True) \<Longrightarrow> b' (ref_key C j) = Some (new_text j)"
proof -
  note eff = client_movesD(7) [OF m] and know = cas_invD(4) [OF client_movesD(1) [OF m] client_movesD(2) [OF m]]
  show "ref_key C j' = ref_key C j \<and> ref_is b (ref_key C j) (job_expected j) \<and> b' (ref_key C j) = Some (new_text j)"
    if "b' (ref_key C j') \<noteq> b (ref_key C j')" "job i' = Some j'"
    using eff that client_movesD(6) [OF m that(2)] know by (auto split: if_splits)
  show "b' (ref_key C j) = Some (new_text j)" if f: "point_next j (pt i) p = Finished (Inr True)"
    using point_success [OF f client_movesD(3) [OF m]] eff know client_movesD(6) [OF m client_movesD(2) [OF m]] by auto
qed

section \<open>All interleavings\<close>

text \<open>The clients with a job start with \<^verbatim>\<open>cas_ref\<close>, the others with a program that writes neither references nor locks.\<close>

definition cas_start :: "S3 \<Rightarrow> (nat \<Rightarrow> cas_job option) \<Rightarrow> (nat \<Rightarrow> bool s3_task) \<Rightarrow> bool" where
  "cas_start C job c \<longleftrightarrow>
    (\<forall>i. case job i of None \<Rightarrow> all_calls (harmless C job) (c i) | Some j \<Rightarrow> c i = job_prog C j \<and> plain_ref (job_name j))"

lemma cas_startD:
  assumes "cas_start C job c"
  shows "job i = None \<Longrightarrow> all_calls (harmless C job) (c i)"
    and "job i = Some j \<Longrightarrow> c i = job_prog C j" and "job i = Some j \<Longrightarrow> plain_ref (job_name j)"
  using assms [unfolded cas_start_def, rule_format, of i] by simp_all

lemma cas_step:
  assumes I: "cas_inv C job b c pt" and plain: "\<forall>i j. job i = Some j \<longrightarrow> plain_ref (job_name j)"
    and s: "sys_step (bucket_serve False) (b, c) i (b', c')"
  shows "(\<exists>pt. cas_inv C job b' c' pt) \<and>
    (\<forall>i' j'. job i' = Some j' \<and> b' (ref_key C j') \<noteq> b (ref_key C j') \<longrightarrow>
      (\<exists>j. job i = Some j \<and> ref_key C j = ref_key C j' \<and> ref_is b (ref_key C j) (job_expected j) \<and> b' (ref_key C j) = Some (new_text j))) \<and>
    (\<forall>j. job i = Some j \<and> c' i = Ret (Inr True) \<longrightarrow> b' (ref_key C j) = Some (new_text j))"
proof -
  obtain q k p where k: "c i = Req q k" "bucket_serve False q b p b'" "c' = c(i := k p)" using s by (auto elim: sys_stepE)
  show ?thesis
  proof (cases "job i")
    case None
    then show ?thesis using cas_inv_bystander [OF I None k(1,2)] k(3) by auto
  next
    case (Some j)
    then have nf: "pt i \<noteq> Finished x" for x using cas_invD(2) [OF I Some] k(1) by auto
    have q: "q = point_call C j (pt i)" "k = (\<lambda>p. point_prog C j (point_next j (pt i) p))"
      using cas_invD(2) [OF I Some] k(1) point_step [of "pt i" C j] nf by auto
    have m: "client_moves C job b c pt i j p b'" unfolding client_moves_def using I plain Some nf k(2) q(1) by simp
    note step = cas_inv_client [OF m] client_changes [OF m]
    show ?thesis
    proof (intro conjI allI impI)
      show "\<exists>pt. cas_inv C job b' c' pt" using step(1) unfolding k(3) q(2) by blast
    next
      fix i' j' assume "job i' = Some j' \<and> b' (ref_key C j') \<noteq> b (ref_key C j')"
      then show "\<exists>j. job i = Some j \<and> ref_key C j = ref_key C j' \<and> ref_is b (ref_key C j) (job_expected j) \<and> b' (ref_key C j) = Some (new_text j)"
        using step(2) [of j' i'] Some by auto
    next
      fix j' assume "job i = Some j' \<and> c' i = Ret (Inr True)"
      then show "b' (ref_key C j') = Some (new_text j')"
        using step(3) Some unfolding k(3) q(2) by (auto simp: point_prog_Ret)
    qed
  qed
qed

text \<open>C17: any number of clients swap references of one bucket, their requests interleaved in any way, every request
  failing at any time, repeated as the program repeats it, and clients stopping for ever at any point; other
  clients may do anything that does not write these references and their locks. If a failed DELETE
  has not taken effect, then a reference changes only in a step of a client that swaps this reference, from
  the value that client expects to its new value; and when \<^verbatim>\<open>cas_ref\<close> returns true, the reference has the new
  value at the moment the lock is released.\<close>

theorem s3_cas_atomic:
  assumes "cas_start C job c0" and "reachable (bucket_serve False) (b0, c0) (b, c)"
    and "sys_step (bucket_serve False) (b, c) i (b', c')"
  shows "(\<forall>i' j'. job i' = Some j' \<and> b' (ref_key C j') \<noteq> b (ref_key C j') \<longrightarrow>
      (\<exists>j. job i = Some j \<and> ref_key C j = ref_key C j' \<and> ref_is b (ref_key C j) (job_expected j) \<and> b' (ref_key C j) = Some (new_text j))) \<and>
    (\<forall>j. job i = Some j \<and> c' i = Ret (Inr True) \<longrightarrow> b' (ref_key C j) = Some (new_text j))"
proof -
  have plain: "\<forall>i j. job i = Some j \<longrightarrow> plain_ref (job_name j)" using cas_startD(3) [OF assms(1)] by blast
  have "cas_inv C job b0 c0 (\<lambda>_. Locking 3)"
  proof (rule cas_invI)
    fix i j assume "job i = Some j"
    then show "c0 i = point_prog C j (Locking 3) \<and> (critical (Locking 3) \<longrightarrow> b0 (lock_key C j) \<noteq> None) \<and> knows C j b0 (Locking 3)"
      using cas_startD(2) [OF assms(1)] job_point by simp
  qed (simp_all add: cas_startD(1) [OF assms(1)])
  then have "case (b, c) of (b, c) \<Rightarrow> \<exists>pt. cas_inv C job b c pt"
  proof (intro reachable_invariant [OF assms(2), where I = "\<lambda>(b, c). \<exists>pt. cas_inv C job b c pt"], simp_all only: prod.case, blast)
    fix x i y assume "case x of (b, c) \<Rightarrow> \<exists>pt. cas_inv C job b c pt" "sys_step (bucket_serve False) x i y"
    then obtain b c b' c' pt where "x = (b, c)" "y = (b', c')" "cas_inv C job b c pt" "sys_step (bucket_serve False) (b, c) i (b', c')"
      by (cases x; cases y) auto
    then show "case y of (b, c) \<Rightarrow> \<exists>pt. cas_inv C job b c pt" using cas_step [OF _ plain] by simp
  qed
  then obtain pt where "cas_inv C job b c pt" by auto
  from cas_step [OF this plain assms(3)] show ?thesis by blast
qed

section \<open>The other operations\<close>

lemma all_calls_bindP: "all_calls P m \<Longrightarrow> (\<And>v. all_calls P (f v)) \<Longrightarrow> all_calls P (bindP m f)"
  by (induction m) (auto split: sum.split)

lemma all_calls_catchP: "all_calls P m \<Longrightarrow> (\<And>e. all_calls P (f e)) \<Longrightarrow> all_calls P (catchP m f)"
  by (induction m) (auto split: sum.split)

lemma all_calls_iterP: "(\<And>x. x \<in> set xs \<Longrightarrow> all_calls P (f x)) \<Longrightarrow> all_calls P (iterP f xs)"
  by (induction xs) (auto intro!: all_calls_bindP)

lemma all_calls_mapP: "(\<And>x. x \<in> set xs \<Longrightarrow> all_calls P (f x)) \<Longrightarrow> all_calls P (mapP f xs)"
  by (induction xs) (auto intro!: all_calls_bindP)

lemma all_calls_try: "P call \<Longrightarrow> all_calls P (s3_try n call)"
  by (induction n) (auto simp: s3_reply_def split: http_reply.split)

lemmas all_calls_intros = all_calls_bindP all_calls_catchP all_calls_iterP all_calls_mapP

text \<open>Keys that start differently are different.\<close>

lemma strip_hd: "s \<noteq> [] \<Longrightarrow> hd s \<noteq> SLASH \<Longrightarrow> strip_slashes s \<noteq> [] \<and> hd (strip_slashes s) = hd s"
proof -
  assume s: "s \<noteq> []" "hd s \<noteq> SLASH"
  then obtain c t where c: "s = c # t" "c \<noteq> SLASH" by (cases s) auto
  have "strip_slashes s = c # rev (dropWhile (\<lambda>c. c = SLASH) (rev t))" if "x \<in> set t" "x \<noteq> SLASH" for x
    using that c dropWhile_append1 [of x "rev t" "\<lambda>c. c = SLASH" "[c]"]
    by (simp add: strip_slashes_def strip_by_def lstrip_by_def rstrip_by_def)
  moreover have "strip_slashes s = [c]" if "\<forall>x \<in> set t. x = SLASH"
    using that c dropWhile_append2 [of "rev t" "\<lambda>c. c = SLASH" "[c]"]
    by (simp add: strip_slashes_def strip_by_def lstrip_by_def rstrip_by_def)
  ultimately show ?thesis using c by (cases "\<exists>x \<in> set t. x \<noteq> SLASH") auto
qed

lemma key_apart: "a \<noteq> [] \<Longrightarrow> hd a \<noteq> SLASH \<Longrightarrow> b \<noteq> [] \<Longrightarrow> hd b \<noteq> SLASH \<Longrightarrow> hd a \<noteq> hd b \<Longrightarrow> s3_key C a \<noteq> s3_key C b"
  using strip_hd [of a] strip_hd [of b] s3_key_inj [of a b C] by auto

lemma harmless_request:
  assumes "\<And>i j. job i = Some j \<Longrightarrow> plain_ref (job_name j)"
    and "method = ''GET'' \<or> (\<exists>s. key = s3_key C s \<and> s \<noteq> [] \<and> hd s \<in> {CHR ''o'', CHR ''c'', CHR ''s'', CHR ''j''})"
  shows "all_calls (harmless C job) (s3_request_query method key body headers query)"
  unfolding s3_request_query_def
proof (rule all_calls_try)
  have "s3_key C s \<noteq> ref_key C j" "s3_key C s \<noteq> lock_key C j"
    if "job i = Some j" "s \<noteq> []" "hd s \<in> {CHR ''o'', CHR ''c'', CHR ''s'', CHR ''j''}" for i j s
  proof -
    have ref: "normalize_ref (job_name j) \<noteq> []" "hd (normalize_ref (job_name j)) = CHR ''r''"
      using assms(1) [OF that(1)] by (auto simp: plain_ref_def startswith_iff)
    show "s3_key C s \<noteq> ref_key C j" unfolding ref_key_def by (rule key_apart) (use that(2,3) ref in auto)
    show "s3_key C s \<noteq> lock_key C j" unfolding lock_key_def s3_lock_key_def by (rule key_apart) (use that(2,3) in auto)
  qed
  then show "harmless C job \<lparr>call_method = method, call_key = key, call_body = body, call_headers = headers, call_query = query\<rparr>"
    using assms(2) unfolding harmless_def by auto
qed

text \<open>Reading, writing objects, the journal and the configuration never touch a reference or a lock.\<close>

lemma s3_reads_harmless:
  assumes "\<And>i j. job i = Some j \<Longrightarrow> plain_ref (job_name j)"
  shows "all_calls (harmless C job) (s3_read_object h h2 js xml pages C oid)" "all_calls (harmless C job) (s3_read_ref C name)"
    "all_calls (harmless C job) (s3_list_refs xml pages C pre)" "all_calls (harmless C job) (s3_read_config C)"
proof -
  have get: "all_calls (harmless C job) (s3_request ''GET'' key body hs)" "all_calls (harmless C job) (s3_request_query ''GET'' key body hs q)"
    for key body hs q using harmless_request [OF assms] by (simp_all add: s3_request_def)
  have list: "all_calls (harmless C job) (s3_list_pages xml pages pre token)" for pages pre token
    by (induction xml pages pre token rule: s3_list_pages.induct) (auto intro!: all_calls_intros get split: sum.split prod.split)
  have seg: "all_calls (harmless C job) (s3_search_segments h h2 C oid keys)" for keys
    by (induction keys) (auto intro!: all_calls_intros get split: sum.split prod.split)
  show "all_calls (harmless C job) (s3_read_object h h2 js xml pages C oid)"
    unfolding s3_read_object_def s3_read_chunked_object_def s3_read_segment_object_def s3_read_chunk_def
    by (auto intro!: all_calls_intros get list seg split: sum.split prod.split)
  show "all_calls (harmless C job) (s3_read_ref C name)" "all_calls (harmless C job) (s3_read_config C)"
    unfolding s3_read_ref_def s3_read_config_def by (auto intro!: all_calls_intros get split: sum.split prod.split)
  show "all_calls (harmless C job) (s3_list_refs xml pages C pre)"
    unfolding s3_list_refs_def s3_read_listed_def by (auto intro!: all_calls_intros get list split: sum.split prod.split)
qed

lemma s3_writes_harmless:
  assumes "\<And>i j. job i = Some j \<Longrightarrow> plain_ref (job_name j)"
  shows "all_calls (harmless C job) (s3_write_objects h h2 C objects)" "all_calls (harmless C job) (s3_append_journal od C entry)"
    "all_calls (harmless C job) (s3_write_config C data)"
proof -
  have put: "all_calls (harmless C job) (s3_request m (s3_key C s) body hs)"
    if "s \<noteq> []" "hd s \<in> {CHR ''o'', CHR ''c'', CHR ''s'', CHR ''j''}" for m s body hs
    unfolding s3_request_def by (rule harmless_request [OF assms]) (use that in auto)
  have w: "all_calls (harmless C job) (s3_write_object h h2 C oid data)" for oid data
    unfolding s3_write_object_def s3_write_chunked_object_def s3_object_key_def s3_chunk_manifest_key_def s3_chunk_key_def
    by (auto intro!: all_calls_intros put split: sum.split prod.split)
  show "all_calls (harmless C job) (s3_write_objects h h2 C objects)"
    unfolding s3_write_objects_def s3_segment_data_key_def s3_segment_index_key_def
    by (auto intro!: all_calls_intros w put split: list.split sum.split prod.split)
  show "all_calls (harmless C job) (s3_append_journal od C entry)" "all_calls (harmless C job) (s3_write_config C data)"
    unfolding s3_append_journal_def s3_write_config_def by (auto intro!: all_calls_intros put)
qed

section \<open>Instances\<close>

definition sample_s3 :: S3 where
  "sample_s3 = \<lparr>s3_bucket = ''bucket'', s3_prefix = ''team'', s3_endpoint = None, s3_region = ''us-east-1'',
     s3_credentials = \<lparr>sc_access_key = ''key'', sc_secret_key = ''secret'', sc_session_token = None\<rparr>\<rparr>"

definition oid40 :: "char \<Rightarrow> ObjectId" where
  "oid40 c = ObjectId (replicate 40 c)"

definition swap_main :: "ObjectId option \<Rightarrow> char \<Rightarrow> cas_job" where
  "swap_main e c = \<lparr>job_stamp = ''now'', job_name = ''main'', job_expected = e, job_new = oid40 c\<rparr>"

text \<open>Three clients: the first creates the reference, the other two both swap it from there.\<close>

fun three_jobs :: "nat \<Rightarrow> cas_job option" where
  "three_jobs i = (if i = 0 then Some (swap_main None CHR ''a'')
     else if i = 1 then Some (swap_main (Some (oid40 CHR ''a'')) CHR ''b'')
     else if i = 2 then Some (swap_main (Some (oid40 CHR ''a'')) CHR ''c'') else None)"

definition three_clients :: "nat \<Rightarrow> bool s3_task" where
  "three_clients i = (case three_jobs i of None \<Rightarrow> Ret (Inr False) | Some j \<Rightarrow> job_prog sample_s3 j)"

abbreviation REF :: string where
  "REF \<equiv> s3_key sample_s3 ''refs/heads/main''"

abbreviation LOCK :: string where
  "LOCK \<equiv> s3_lock_key sample_s3 ''main''"

lemma sample_keys: "ref_key sample_s3 (swap_main e c) = REF" "lock_key sample_s3 (swap_main e c) = LOCK" "REF \<noteq> LOCK"
  by (simp_all add: ref_key_def lock_key_def swap_main_def) code_simp+

lemma three_start: "cas_start sample_s3 three_jobs three_clients"
proof -
  have "plain_ref ''main''" by code_simp
  then show ?thesis by (simp add: cas_start_def three_clients_def swap_main_def split: option.split)
qed

theorem s3_cas_atomic_witness:
  "\<not> (\<exists>b c b' c'. reachable (bucket_serve False) (Map.empty, three_clients) (b, c) \<and>
      sys_step (bucket_serve False) (b, c) 1 (b', c') \<and> b' REF \<noteq> b REF \<and> \<not> ref_is b REF (Some (oid40 CHR ''a'')))"
proof
  assume "\<exists>b c b' c'. reachable (bucket_serve False) (Map.empty, three_clients) (b, c) \<and>
      sys_step (bucket_serve False) (b, c) 1 (b', c') \<and> b' REF \<noteq> b REF \<and> \<not> ref_is b REF (Some (oid40 CHR ''a''))"
  then obtain b c b' c' where r: "reachable (bucket_serve False) (Map.empty, three_clients) (b, c)"
    and s: "sys_step (bucket_serve False) (b, c) 1 (b', c')" and ch: "b' REF \<noteq> b REF" "\<not> ref_is b REF (Some (oid40 CHR ''a''))" by blast
  note t = s3_cas_atomic [OF three_start r s, THEN conjunct1, rule_format, of 1 "swap_main (Some (oid40 CHR ''a'')) CHR ''b''"]
  then show False using ch by (simp add: sample_keys, simp add: swap_main_def)
qed

text \<open>A service that may carry out a DELETE and answer it with a failure. The first client has created the reference and
  releases its lock, but sees a timeout; the second takes the lock and reads the reference; the first
  repeats its DELETE, which removes the lock of the second; the third takes the lock, swaps the reference and is done; the
  second writes, although the value it has read is gone.\<close>

lemma point_moves:
  assumes "c i = point_prog C j pt" and "\<And>x. pt \<noteq> Finished x" and "bucket_serve lossy (point_call C j pt) b p b'"
  shows "sys_step (bucket_serve lossy) (b, c) i (b', c(i := point_prog C j (point_next j pt p)))"
  using assms(1,3) sys_step.step [of c i "point_call C j pt" "\<lambda>p. point_prog C j (point_next j pt p)" "bucket_serve lossy" b p b']
    point_step [of pt C j, OF assms(2)] by simp

definition clients_at :: "(nat \<Rightarrow> cas_point) \<Rightarrow> nat \<Rightarrow> bool s3_task" where
  "clients_at pt i = (case three_jobs i of None \<Rightarrow> Ret (Inr False) | Some j \<Rightarrow> point_prog sample_s3 j (pt i))"

lemma clients_start: "three_clients = clients_at (\<lambda>_. Locking 3)"
  by (simp add: fun_eq_iff three_clients_def clients_at_def job_point split: option.split)

lemma clients_step:
  assumes "three_jobs i = Some j" and "\<forall>x. pt i \<noteq> Finished x" and "bucket_serve lossy (point_call sample_s3 j (pt i)) b p b'"
  shows "sys_step (bucket_serve lossy) (b, clients_at pt) i (b', clients_at (pt(i := point_next j (pt i) p)))"
proof -
  have "clients_at (pt(i := point_next j (pt i) p)) = (clients_at pt)(i := point_prog sample_s3 j (point_next j (pt i) p))"
    using assms(1) by (auto simp: fun_eq_iff clients_at_def)
  moreover have "clients_at pt i = point_prog sample_s3 j (pt i)" using assms(1) by (simp add: clients_at_def del: point_prog.simps)
  ultimately show ?thesis using point_moves [of "clients_at pt" i sample_s3 j "pt i" lossy b p b'] assms(2,3) by simp
qed

definition points :: "cas_point \<Rightarrow> cas_point \<Rightarrow> cas_point \<Rightarrow> nat \<Rightarrow> cas_point" where
  "points p q r i = (if i = 0 then p else if i = 1 then q else r)"

lemma clients_move:
  assumes "reachable (bucket_serve lossy) init (b, clients_at pt)" and "three_jobs i = Some j" and "\<forall>x. pt i \<noteq> Finished x"
    and "bucket_serve lossy (point_call sample_s3 j (pt i)) b p b'" and "clients_at pt' = clients_at (pt(i := point_next j (pt i) p))"
  shows "reachable (bucket_serve lossy) init (b', clients_at pt')"
  unfolding assms(5) by (rule next_state [OF assms(1)], rule clients_step) (rule assms(2-4))+

lemma points_update:
  "clients_at (points p' q r) = clients_at ((points p q r)(0 := p'))"
  "clients_at (points p q' r) = clients_at ((points p q r)(Suc 0 := q'))"
  "clients_at (points p q r') = clients_at ((points p q r)(2 := r'))"
  by (auto simp: fun_eq_iff clients_at_def points_def)

lemma points_simps [simp]: "points p q r 0 = p" "points p q r (Suc 0) = q" "points p q r 2 = r"
  by (simp_all add: points_def)

definition ok_with :: "bytes \<Rightarrow> http_reply" where
  "ok_with body = HttpResponse 200 ''OK'' body"

definition not_found :: http_reply where
  "not_found = HttpResponse 404 ''Not Found'' []"

lemma sample_replies:
  "good_reply (ok_with d)" "reply_body (ok_with d) = d" "attempt n (ok_with d) = Inr (Inr d)" "\<not> good_reply not_found"
  "attempt n not_found = Inr (Inl (BackendUnavailable (reply_text not_found)))" "contains ''404'' (reply_text not_found)"
  "\<not> good_reply (HttpTransportError m)" "attempt 3 (HttpTransportError m) = Inl 2"
  by (simp_all add: ok_with_def not_found_def good_reply_def attempt_def RETRYABLE_STATUS_CODES_def) code_simp

lemma sample_ref: "bindR (decode_strip (new_text (swap_main e CHR ''a''))) ref_of_text = Inr (Some (oid40 CHR ''a''))"
proof -
  have "bindR (decode_strip (oid_value (oid40 CHR ''a'') @ [CHR 0x0A])) ref_of_text = Inr (Some (oid40 CHR ''a''))" by code_simp
  then show ?thesis by (simp add: new_text_def swap_main_def)
qed

lemma sample_fields [simp]: "job_stamp (swap_main e c) = ''now''" "job_expected (swap_main e c) = e"
  "new_text (swap_main e c) = oid_value (oid40 c) @ [CHR 0x0A]"
  by (simp_all add: swap_main_def new_text_def)

theorem s3_retried_unlock_loses_update:
  "\<exists>b c b' c'. reachable (bucket_serve True) (Map.empty, three_clients) (b, c) \<and> sys_step (bucket_serve True) (b, c) 1 (b', c') \<and>
    c 2 = Ret (Inr True) \<and> b REF = Some (oid_value (oid40 CHR ''c'') @ [CHR 0x0A]) \<and> b' REF = Some (oid_value (oid40 CHR ''b'') @ [CHR 0x0A])"
proof -
  let ?A = "swap_main None CHR ''a''" and ?B = "swap_main (Some (oid40 CHR ''a'')) CHR ''b''"
    and ?C = "swap_main (Some (oid40 CHR ''a'')) CHR ''c''"
  let ?a = "oid_value (oid40 CHR ''a'') @ [CHR 0x0A]" and ?c = "oid_value (oid40 CHR ''c'') @ [CHR 0x0A]"
  let ?b4 = "[LOCK \<mapsto> ''now'', REF \<mapsto> ?a](LOCK := None)"
  let ?R = "\<lambda>b p q r. reachable (bucket_serve True) (Map.empty, three_clients) (b, clients_at (points p q r))"
  note move = clients_move [where lossy = True and init = "(Map.empty, three_clients)"]
  note facts = sample_keys serve_simps sample_replies unavailable_with_def read_point_def sample_ref [simplified] points_update
  have "?R Map.empty (Locking 3) (Locking 3) (Locking 3)"
  proof -
    have "points (Locking 3) (Locking 3) (Locking 3) = (\<lambda>_. Locking 3)" by (simp add: fun_eq_iff points_def)
    then show ?thesis unfolding clients_start by (simp add: start)
  qed
  then have "?R [LOCK \<mapsto> ''now''] (Reading 3) (Locking 3) (Locking 3)"
    by (rule move [of _ _ 0 ?A "ok_with []"]) (simp_all add: facts)
  then have "?R [LOCK \<mapsto> ''now''] (Writing 3) (Locking 3) (Locking 3)"
    by (rule move [of _ _ 0 ?A not_found]) (simp_all add: facts)
  then have "?R [LOCK \<mapsto> ''now'', REF \<mapsto> ?a] (Unlocking 3 (Inr True)) (Locking 3) (Locking 3)"
    by (rule move [of _ _ 0 ?A "ok_with []"]) (simp_all add: facts)
  then have "?R ?b4 (Unlocking 2 (Inr True)) (Locking 3) (Locking 3)"
    by (rule move [of _ _ 0 ?A "HttpTransportError ''timeout''"]) (simp_all add: facts)
  then have "?R (?b4(LOCK \<mapsto> ''now'')) (Unlocking 2 (Inr True)) (Reading 3) (Locking 3)"
    by (rule move [of _ _ 1 ?B "ok_with []"]) (simp_all add: facts)
  then have "?R (?b4(LOCK \<mapsto> ''now'')) (Unlocking 2 (Inr True)) (Writing 3) (Locking 3)"
    by (rule move [of _ _ 1 ?B "ok_with ?a"]) (simp_all add: facts)
  then have "?R ?b4 (Finished (Inr True)) (Writing 3) (Locking 3)"
    by (rule move [of _ _ 0 ?A "ok_with []"]) (simp_all add: facts)
  then have "?R (?b4(LOCK \<mapsto> ''now'')) (Finished (Inr True)) (Writing 3) (Reading 3)"
    by (rule move [of _ _ 2 ?C "ok_with []"]) (simp_all add: facts)
  then have "?R (?b4(LOCK \<mapsto> ''now'')) (Finished (Inr True)) (Writing 3) (Writing 3)"
    by (rule move [of _ _ 2 ?C "ok_with ?a"]) (simp_all add: facts)
  then have "?R (?b4(LOCK \<mapsto> ''now'', REF \<mapsto> ?c)) (Finished (Inr True)) (Writing 3) (Unlocking 3 (Inr True))"
    by (rule move [of _ _ 2 ?C "ok_with []"]) (simp_all add: facts)
  then have r: "?R (?b4(LOCK \<mapsto> ''now'', REF \<mapsto> ?c, LOCK := None)) (Finished (Inr True)) (Writing 3) (Finished (Inr True))"
    by (rule move [of _ _ 2 ?C "ok_with []"]) (simp_all add: facts)
  have st: "sys_step (bucket_serve True) (?b4(LOCK \<mapsto> ''now'', REF \<mapsto> ?c, LOCK := None),
      clients_at (points (Finished (Inr True)) (Writing 3) (Finished (Inr True)))) 1
      (?b4(LOCK \<mapsto> ''now'', REF \<mapsto> ?c, LOCK := None, REF \<mapsto> oid_value (oid40 CHR ''b'') @ [CHR 0x0A]),
       clients_at ((points (Finished (Inr True)) (Writing 3) (Finished (Inr True)))(1 := point_next ?B
         (points (Finished (Inr True)) (Writing 3) (Finished (Inr True)) 1) (ok_with []))))"
    by (rule clients_step) (simp_all add: facts)
  show ?thesis by (rule exI, rule exI, rule exI, rule exI, rule conjI [OF r conjI [OF st]]) (simp add: sample_keys clients_at_def)
qed

end
