(* ===== verification/Blobs.thy ===== *)
theory Blobs
  imports S3
begin

text \<open>
  \<^verbatim>\<open>src/trunks/backends/gcs.py\<close> and \<^verbatim>\<open>azure.py\<close>: the backends on Google Cloud Storage and Azure Blob Storage. Both
  call a client library; its operations on blobs are the requests of the programs here, and a reply is
  a result or the text of the exception that was raised. The two differ in how they recognize that a blob
  exists already, which is the argument \<open>exists\<close> of the shared definitions. An exception of the library that
  the source does not translate is a \<open>RuntimeError\<close>.

  Reading a reference answers every failure with \<^verbatim>\<open>None\<close>, as if the reference did not exist.
  \<open>blob_read_failure_loses_update\<close> shows what that means for a swap from nothing: one failed download and an
  existing reference is overwritten.
\<close>

datatype blob_call = Download string | Upload string bytes bool | DeleteBlob string | ListBlobs string
  | ContainerExists | CreateContainer

datatype blob_reply = BlobData bytes | BlobNames "string list" | BlobFlag bool | BlobDone | BlobError string

type_synonym 'a blob_task = "(blob_call, blob_reply, 'a) task"

text \<open>The library is not called with a request and another kind of reply.\<close>

definition unexpected :: "('q, 'p, 'a) task" where
  "unexpected = raiseP (RuntimeError ''unexpected reply'')"

section \<open>Blobs\<close>

definition blob_download :: "string \<Rightarrow> bytes blob_task" where
  "blob_download key = Req (Download key) (\<lambda>r.
    case r of BlobData d \<Rightarrow> returnP d | BlobError msg \<Rightarrow> raiseP (BackendUnavailable msg) | _ \<Rightarrow> unexpected)"

definition blob_upload :: "string \<Rightarrow> bytes \<Rightarrow> bool \<Rightarrow> unit blob_task" where
  "blob_upload key data overwrite = Req (Upload key data overwrite) (\<lambda>r.
    case r of BlobError msg \<Rightarrow> raiseP (BackendUnavailable msg) | _ \<Rightarrow> returnP ())"

definition blob_delete :: "string \<Rightarrow> unit blob_task" where
  "blob_delete key = Req (DeleteBlob key) (\<lambda>_. returnP ())"

definition blob_list_keys :: "string \<Rightarrow> string list blob_task" where
  "blob_list_keys pre = Req (ListBlobs pre) (\<lambda>r.
    case r of BlobNames ns \<Rightarrow> returnP ns | BlobError msg \<Rightarrow> raiseP (RuntimeError msg) | _ \<Rightarrow> unexpected)"

text \<open>The keys are those of the S3 backend: \<^verbatim>\<open>_key\<close>, \<^verbatim>\<open>_object_key\<close> and \<^verbatim>\<open>_strip_prefix\<close> are the same.\<close>

definition blob_key :: "string \<Rightarrow> string \<Rightarrow> string" where
  "blob_key pre suffix = join ''/'' (filter (\<lambda>p. p \<noteq> []) [pre, strip_slashes suffix])"

definition blob_object_key :: "string \<Rightarrow> ObjectId \<Rightarrow> string" where
  "blob_object_key pre oid = blob_key pre (''objects/'' @ take 2 (oid_value oid) @ ''/'' @ oid_value oid)"

definition blob_strip_prefix :: "string \<Rightarrow> string \<Rightarrow> string" where
  "blob_strip_prefix pre key =
    (if pre \<noteq> [] \<and> startswith key (pre @ ''/'') then drop (length pre + 1) key else key)"

definition blob_lock_key :: "string \<Rightarrow> string \<Rightarrow> string" where
  "blob_lock_key pre name = blob_key pre (''locks/'' @ url_quote [] (normalize_ref name) @ ''.lock'')"

section \<open>Operations\<close>

definition blob_read_object :: "string \<Rightarrow> ObjectId \<Rightarrow> bytes blob_task" where
  "blob_read_object pre oid =
    catchP (blob_download (blob_object_key pre oid)) (\<lambda>e. if is_unavailable e then raiseP (ObjectNotFound (oid_value oid)) else raiseP e)"

text \<open>Creating a blob, where an existing one is not an error.\<close>

definition blob_create :: "(string \<Rightarrow> bool) \<Rightarrow> string \<Rightarrow> bytes \<Rightarrow> unit blob_task" where
  "blob_create exists key data =
    catchP (blob_upload key data False)
      (\<lambda>e. case e of BackendUnavailable msg \<Rightarrow> if exists msg then returnP () else raiseP e | _ \<Rightarrow> raiseP e)"

definition blob_write_object :: "(string \<Rightarrow> bool) \<Rightarrow> hash \<Rightarrow> string \<Rightarrow> ObjectId \<Rightarrow> bytes \<Rightarrow> unit blob_task" where
  "blob_write_object exists h pre oid data =
    (if from_bytes h data \<noteq> oid then raiseP (ValueError ''object id does not match object data'')
     else blob_create exists (blob_object_key pre oid) data)"

definition blob_read_ref :: "string \<Rightarrow> string \<Rightarrow> ObjectId option blob_task" where
  "blob_read_ref pre name =
    catchP (bindP (blob_download (blob_key pre (normalize_ref name))) (\<lambda>data. liftP (bindR (decode_strip data) ref_of_text)))
      (\<lambda>e. if is_unavailable e then returnP None else raiseP e)"

definition blob_cas_ref :: "(string \<Rightarrow> bool) \<Rightarrow> string \<Rightarrow> bytes \<Rightarrow> string \<Rightarrow> ObjectId option \<Rightarrow> ObjectId \<Rightarrow> bool blob_task" where
  "blob_cas_ref exists pre stamp name expected new =
    bindP (catchP (bindP (blob_upload (blob_lock_key pre name) stamp False) (\<lambda>_. returnP True))
      (\<lambda>e. case e of BackendUnavailable msg \<Rightarrow> if exists msg then returnP False else raiseP e | _ \<Rightarrow> raiseP e)) (\<lambda>locked.
    if \<not> locked then returnP False
    else finallyP
      (bindP (blob_read_ref pre (normalize_ref name)) (\<lambda>current.
       if current \<noteq> expected then returnP False
       else bindP (blob_upload (blob_key pre (normalize_ref name)) (oid_value new @ [CHR 0x0A]) True) (\<lambda>_. returnP True)))
      (blob_delete (blob_lock_key pre name)))"

definition blob_read_listed :: "string \<Rightarrow> string \<Rightarrow> Ref list blob_task" where
  "blob_read_listed pre key =
    bindP (blob_download key) (\<lambda>data.
    bindP (liftP (bindR (decode_strip data) ref_of_text)) (\<lambda>r.
    returnP (case r of None \<Rightarrow> [] | Some x \<Rightarrow> [\<lparr>ref_name = blob_strip_prefix pre key, ref_oid = Some x\<rparr>])))"

definition blob_list_refs :: "string \<Rightarrow> string \<Rightarrow> Ref list blob_task" where
  "blob_list_refs pre ref_prefix =
    bindP (blob_list_keys (blob_key pre (if ref_prefix \<noteq> [] then normalize_ref ref_prefix else ''refs/''))) (\<lambda>keys.
    bindP (mapP (blob_read_listed pre) keys) (\<lambda>rs. returnP (concat rs)))"

definition blob_append_journal :: "(string \<Rightarrow> bool) \<Rightarrow> (json \<Rightarrow> string) \<Rightarrow> string \<Rightarrow> JournalEntry \<Rightarrow> unit blob_task" where
  "blob_append_journal exists orjson_dumps pre entry =
    blob_create exists (blob_key pre (''journals/'' @ je_id entry @ ''.txn'')) (journal_to_json orjson_dumps entry)"

definition blob_read_config :: "string \<Rightarrow> json blob_task" where
  "blob_read_config pre =
    catchP (bindP (blob_download (blob_key pre ''config'')) (\<lambda>data. liftP (bindR (decode_utf8 data) loads)))
      (\<lambda>e. if is_unavailable e then raiseP (ObjectNotFound ''config'') else raiseP e)"

definition blob_write_config :: "string \<Rightarrow> json \<Rightarrow> unit blob_task" where
  "blob_write_config pre data = blob_upload (blob_key pre ''config'') (dumps spaced (sort_keys data)) True"

definition blob_backend :: "(string \<Rightarrow> bool) \<Rightarrow> hash \<Rightarrow> (json \<Rightarrow> string) \<Rightarrow> string \<Rightarrow> bytes \<Rightarrow> (blob_call \<Rightarrow> 's \<Rightarrow> blob_reply \<times> 's) \<Rightarrow> 's Backend" where
  "blob_backend exists h orjson_dumps pre stamp serve = \<lparr>
     capabilities = s3_capabilities,
     read_object = (\<lambda>oid. run_prog serve (blob_read_object pre oid)),
     write_object = (\<lambda>oid data. run_prog serve (blob_write_object exists h pre oid data)),
     write_objects = default_write_objects (\<lambda>oid data. run_prog serve (blob_write_object exists h pre oid data)),
     has_object = default_has_object (\<lambda>oid. run_prog serve (blob_read_object pre oid)),
     read_ref = (\<lambda>name. run_prog serve (blob_read_ref pre name)),
     cas_ref = (\<lambda>name expected new. run_prog serve (blob_cas_ref exists pre stamp name expected new)),
     delete_ref = (\<lambda>name. run_prog serve (blob_delete (blob_key pre (normalize_ref name)))),
     delete_object = (\<lambda>oid. run_prog serve (blob_delete (blob_object_key pre oid))),
     list_refs = (\<lambda>ref_prefix. run_prog serve (blob_list_refs pre ref_prefix)),
     append_journal = (\<lambda>entry. run_prog serve (blob_append_journal exists orjson_dumps pre entry)),
     read_config = run_prog serve (blob_read_config pre),
     write_config = (\<lambda>data. run_prog serve (blob_write_config pre data))\<rparr>"

section \<open>Google Cloud Storage and Azure\<close>

definition gcs_exists :: "string \<Rightarrow> bool" where
  "gcs_exists msg \<longleftrightarrow> contains ''Precondition'' msg \<or> contains ''already exists'' (map lower_char msg)"

definition azure_exists :: "string \<Rightarrow> bool" where
  "azure_exists msg \<longleftrightarrow> contains ''BlobAlreadyExists'' msg"

definition gcs_ensure_bucket :: "bool \<Rightarrow> unit blob_task" where
  "gcs_ensure_bucket ready =
    (if ready then returnP ()
     else
       let failed = (\<lambda>msg. if contains ''already exists'' (map lower_char msg) \<or> contains ''409'' msg then returnP ()
                           else raiseP (BackendUnavailable msg))
       in Req ContainerExists (\<lambda>r.
         case r of
           BlobError msg \<Rightarrow> failed msg
         | BlobFlag True \<Rightarrow> returnP ()
         | _ \<Rightarrow> Req CreateContainer (\<lambda>r. case r of BlobError msg \<Rightarrow> failed msg | _ \<Rightarrow> returnP ())))"

definition azure_ensure_container :: "bool \<Rightarrow> unit blob_task" where
  "azure_ensure_container ready =
    (if ready then returnP ()
     else Req CreateContainer (\<lambda>r.
       case r of
         BlobError msg \<Rightarrow>
           if contains ''ContainerAlreadyExists'' msg \<or> contains ''ContainerBeingDeleted'' msg then returnP ()
           else raiseP (BackendUnavailable msg)
       | _ \<Rightarrow> returnP ()))"

definition gcs_backend :: "hash \<Rightarrow> (json \<Rightarrow> string) \<Rightarrow> string \<Rightarrow> bytes \<Rightarrow> (blob_call \<Rightarrow> 's \<Rightarrow> blob_reply \<times> 's) \<Rightarrow> 's Backend" where
  "gcs_backend h orjson_dumps prefix_arg stamp serve =
    blob_backend gcs_exists h orjson_dumps (strip_slashes prefix_arg) stamp serve"

definition azure_backend :: "hash \<Rightarrow> (json \<Rightarrow> string) \<Rightarrow> string \<Rightarrow> bytes \<Rightarrow> (blob_call \<Rightarrow> 's \<Rightarrow> blob_reply \<times> 's) \<Rightarrow> 's Backend" where
  "azure_backend h orjson_dumps prefix_arg stamp serve =
    blob_backend azure_exists h orjson_dumps (strip_slashes prefix_arg) stamp serve"

section \<open>A failed download\<close>

text \<open>A store that fails one download, for whatever reason, and otherwise does what it is asked.\<close>

fun flaky :: "blob_call \<Rightarrow> (string \<Rightarrow> bytes option) \<times> bool \<Rightarrow> blob_reply \<times> (string \<Rightarrow> bytes option) \<times> bool" where
  "flaky (Download key) (b, fails) =
    (if fails then (BlobError ''503 Service Unavailable'', b, False)
     else (case b key of None \<Rightarrow> BlobError ''404 Not Found'' | Some d \<Rightarrow> BlobData d, b, False))"
| "flaky (Upload key data overwrite) (b, fails) =
    (if overwrite \<or> b key = None then (BlobDone, b(key \<mapsto> data), fails) else (BlobError ''BlobAlreadyExists Precondition Failed'', b, fails))"
| "flaky (DeleteBlob key) (b, fails) = (BlobDone, b(key := None), fails)"
| "flaky (ListBlobs pre) (b, fails) = (BlobNames [], b, fails)"
| "flaky ContainerExists (b, fails) = (BlobFlag True, b, fails)"
| "flaky CreateContainer (b, fails) = (BlobDone, b, fails)"

theorem blob_read_failure_loses_update:
  assumes "b (blob_lock_key pre name) = None" and "blob_key pre (normalize_ref name) \<noteq> blob_lock_key pre name"
  shows "run_prog flaky (blob_cas_ref exists pre stamp name None new) (b, True) =
    (Inr True, b(blob_key pre (normalize_ref name) \<mapsto> oid_value new @ [CHR 0x0A]), False)"
  using assms
  by (auto simp: blob_cas_ref_def blob_read_ref_def blob_upload_def blob_download_def blob_delete_def bindS_def catchS_def is_unavailable_def
      fun_eq_iff)

end
