(* ===== verification/LocalDir.thy ===== *)
theory LocalDir
  imports Segment Chunked Backend Storage S3
begin

text \<open>
  \<^verbatim>\<open>src/trunks/backends/local.py\<close> (and \<^verbatim>\<open>fileshare.py\<close>, which inherits everything): a store in a directory. The state
  is the files below the root, by their paths relative to it, and the directories that have been made.
  Small objects are files of their own or are packed into segments, large ones are cut into chunks. Each
  operation is one step. \<open>who\<close> holds the ids of the process and of the thread, which name temporary files.

  Paths are those of \<^verbatim>\<open>pathlib\<close>, where empty components and \<^verbatim>\<open>.\<close> of a reference disappear; a name or an id that
  leads out of the directory (absolute, or with \<^verbatim>\<open>..\<close>) is not resolved. The locks are those of POSIX systems: they are
  advisory and leave their files behind. \<open>js\<close> is Python's \<^verbatim>\<open>str\<close> on values that are not strings.
  \<^verbatim>\<open>read_text\<close> also turns CR into LF, which makes no difference to an id that is stripped and checked.
\<close>

section \<open>The file system\<close>

record Local =
  lf_files :: "(string, bytes) dict"
  lf_dirs :: "string list"

definition local_init :: Local where
  "local_init = \<lparr>lf_files = [], lf_dirs = []\<rparr>"

definition fs_file :: "string \<Rightarrow> Local \<Rightarrow> bytes option" where
  "fs_file p s = map_of (lf_files s) p"

definition fs_exists :: "string \<Rightarrow> Local \<Rightarrow> bool" where
  "fs_exists p s \<longleftrightarrow> fs_file p s \<noteq> None \<or> p = [] \<or> p \<in> set (lf_dirs s)"

definition fs_read :: "string \<Rightarrow> (Local, bytes) st" where
  "fs_read p = getsS (\<lambda>s. case fs_file p s of
      Some d \<Rightarrow> Inr d | None \<Rightarrow> Inl (OSError (if fs_exists p s then ''Is a directory'' else ''No such file or directory'')))"

definition parent_dirs :: "string \<Rightarrow> string list" where
  "parent_dirs p = map (\<lambda>i. take i p) (filter (\<lambda>i. p ! i = SLASH) [0..<length p])"

definition make_parents :: "string \<Rightarrow> (Local, unit) st" where
  "make_parents p = (\<lambda>s.
    if list_ex (\<lambda>d. fs_file d s \<noteq> None) (parent_dirs p) then (Inl (OSError ''File exists''), s)
    else (Inr (), s\<lparr>lf_dirs := parent_dirs p @ lf_dirs s\<rparr>))"

definition temp_path :: "nat \<times> nat \<Rightarrow> string \<Rightarrow> string" where
  "temp_path who p =
    (let suffix = ''.tmp.'' @ dec (fst who) @ ''.'' @ dec (snd who) in
     case rsplit1 [SLASH] p of
       None \<Rightarrow> ''.'' @ p @ suffix
     | Some (dir, name) \<Rightarrow> dir @ [SLASH] @ ''.'' @ name @ suffix)"

definition fs_put :: "string \<Rightarrow> bytes \<Rightarrow> Local \<Rightarrow> Local" where
  "fs_put p d s = s\<lparr>lf_files := AList.update p d (lf_files s)\<rparr>"

definition fs_unlink :: "string \<Rightarrow> (Local, unit) st" where
  "fs_unlink p = (\<lambda>s.
    if fs_file p s = None then (Inl (OSError ''Is a directory''), s)
    else (Inr (), s\<lparr>lf_files := AList.delete p (lf_files s)\<rparr>))"

text \<open>\<^verbatim>\<open>_write_atomic\<close>: the temporary file is written and renamed.\<close>

definition write_temp :: "nat \<times> nat \<Rightarrow> string \<Rightarrow> bytes \<Rightarrow> (Local, unit) st" where
  "write_temp who p d = bindS (make_parents p) (\<lambda>_. modifyS (fs_put (temp_path who p) d))"

definition rename_temp :: "nat \<times> nat \<Rightarrow> string \<Rightarrow> bytes \<Rightarrow> (Local, unit) st" where
  "rename_temp who p d = (\<lambda>s.
    if fs_exists p s \<and> fs_file p s = None then (Inl (OSError ''Is a directory''), s)
    else (Inr (), fs_put p d (s\<lparr>lf_files := AList.delete (temp_path who p) (lf_files s)\<rparr>)))"

definition write_atomic :: "nat \<times> nat \<Rightarrow> string \<Rightarrow> bytes \<Rightarrow> (Local, unit) st" where
  "write_atomic who p d = bindS (write_temp who p d) (\<lambda>_. rename_temp who p d)"

section \<open>Paths\<close>

definition local_object_path :: "ObjectId \<Rightarrow> string" where
  "local_object_path oid = ''objects/'' @ take 2 (oid_value oid) @ ''/'' @ oid_value oid"

definition local_chunk_manifest_path :: "ObjectId \<Rightarrow> string" where
  "local_chunk_manifest_path oid = ''objects/'' @ take 2 (oid_value oid) @ ''/'' @ oid_value oid @ ''.tmanifest''"

definition local_chunk_path :: "string \<Rightarrow> string" where
  "local_chunk_path chunk_id = ''chunks/'' @ take 2 chunk_id @ ''/'' @ chunk_id"

definition local_segment_path :: "string \<Rightarrow> string" where
  "local_segment_path segment_id = ''segments/'' @ segment_id @ ''.tseg''"

definition local_segment_index_path :: "string \<Rightarrow> string" where
  "local_segment_index_path segment_id = ''segments/'' @ segment_id @ ''.tidx''"

definition pure_path :: "string \<Rightarrow> string" where
  "pure_path n = join [SLASH] (filter (\<lambda>p. p \<noteq> [] \<and> p \<noteq> ''.'') (split_on SLASH n))"

definition local_ref_path :: "string \<Rightarrow> string" where
  "local_ref_path name = pure_path (normalize_ref name)"

definition local_lock_path :: "hash \<Rightarrow> string \<Rightarrow> string" where
  "local_lock_path h2 name = ''locks/refs/'' @ hex_bytes (h2 name) @ ''.lock''"

section \<open>Objects\<close>

text \<open>\<^verbatim>\<open>entry.id\<close> is what the manifest holds; only strings and lists can be sliced.\<close>

definition local_chunk_file :: "json \<Rightarrow> string res" where
  "local_chunk_file i = (case i of JStr c \<Rightarrow> Inr (local_chunk_path c) | _ \<Rightarrow> Inl (TypeError ''unsupported operand type''))"

definition local_read_chunk :: "(json \<Rightarrow> string) \<Rightarrow> ObjectId \<Rightarrow> ChunkEntry \<Rightarrow> (Local, bytes) st" where
  "local_read_chunk js oid entry =
    bindS (liftR (local_chunk_file (ce_id entry))) (\<lambda>p.
    bindS (getsS (\<lambda>s. Inr (fs_exists p s))) (\<lambda>there.
    if \<not> there then raiseS (BackendUnavailable (''missing chunk '' @ json_to_str js (ce_id entry) @ '' for object '' @ oid_value oid))
    else fs_read p))"

definition local_read_chunked :: "hash \<Rightarrow> hash \<Rightarrow> (json \<Rightarrow> string) \<Rightarrow> ObjectId \<Rightarrow> (Local, bytes) st" where
  "local_read_chunked h h2 js oid =
    bindS (getsS (\<lambda>s. Inr (fs_exists (local_chunk_manifest_path oid) s))) (\<lambda>there.
    if \<not> there then raiseS (ObjectNotFound (oid_value oid))
    else catchS
      (bindS (fs_read (local_chunk_manifest_path oid)) (\<lambda>manifest_bytes.
       bindS (liftR (decode_manifest manifest_bytes)) (\<lambda>manifest.
       bindS (mapS (local_read_chunk js oid) (cm_chunks manifest)) (\<lambda>chunks.
       liftR (assemble_chunked_object h h2 manifest_bytes chunks)))))
      (\<lambda>e. if is_value_error e
           then raiseS (BackendUnavailable (''corrupt chunked object '' @ oid_value oid @ '': '' @ exc_str e)) else raiseS e))"

text \<open>\<^verbatim>\<open>sorted(segments.glob("*.tidx"))\<close>\<close>

definition segment_indexes :: "Local \<Rightarrow> string list" where
  "segment_indexes s = sort (filter (\<lambda>p. startswith p ''segments/'' \<and> endswith p ''.tidx'' \<and> SLASH \<notin> set (drop 9 p))
    (map fst (lf_files s) @ filter (\<lambda>d. fs_file d s = None) (remdups (lf_dirs s))))"

definition tseg_path :: "string \<Rightarrow> string" where
  "tseg_path p = (if drop 9 p = ''.tidx'' then p else take (length p - 5) p) @ ''.tseg''"

fun search_indexes :: "hash \<Rightarrow> hash \<Rightarrow> ObjectId \<Rightarrow> string list \<Rightarrow> (Local, bytes) st" where
  "search_indexes h h2 oid [] = raiseS (ObjectNotFound (oid_value oid))"
| "search_indexes h h2 oid (p # ps) =
    (let segment_path = tseg_path p in
     bindS (getsS (\<lambda>s. Inr (fs_exists segment_path s))) (\<lambda>there.
     if \<not> there then raiseS (BackendUnavailable (''missing segment data for '' @ drop 9 p))
     else
       bindS (fs_read segment_path) (\<lambda>segment.
       bindS (fs_read p) (\<lambda>index.
       case read_segment_object h h2 segment index oid of
         Inr d \<Rightarrow> returnS d
       | Inl e \<Rightarrow>
         if is_object_not_found e then search_indexes h h2 oid ps
         else if is_value_error e then raiseS (BackendUnavailable (''corrupt segment '' @ drop 9 p @ '': '' @ exc_str e))
         else raiseS e))))"

definition local_read_segment :: "hash \<Rightarrow> hash \<Rightarrow> ObjectId \<Rightarrow> (Local, bytes) st" where
  "local_read_segment h h2 oid =
    bindS (getsS (\<lambda>s. Inr (fs_exists ''segments'' s))) (\<lambda>there.
    if \<not> there then raiseS (ObjectNotFound (oid_value oid))
    else bindS (getsS (\<lambda>s. Inr (segment_indexes s))) (search_indexes h h2 oid))"

definition local_read_object :: "hash \<Rightarrow> hash \<Rightarrow> (json \<Rightarrow> string) \<Rightarrow> ObjectId \<Rightarrow> (Local, bytes) st" where
  "local_read_object h h2 js oid =
    bindS (getsS (\<lambda>s. Inr (fs_exists (local_object_path oid) s))) (\<lambda>there.
    if there then fs_read (local_object_path oid)
    else catchS (local_read_chunked h h2 js oid)
      (\<lambda>e. if is_object_not_found e then local_read_segment h h2 oid else raiseS e))"

definition local_segment_contains :: "hash \<Rightarrow> hash \<Rightarrow> ObjectId \<Rightarrow> (Local, bool) st" where
  "local_segment_contains h h2 oid =
    catchS (bindS (local_read_segment h h2 oid) (\<lambda>_. returnS True))
      (\<lambda>e. if is_object_not_found e then returnS False else raiseS e)"

definition local_has_object :: "hash \<Rightarrow> hash \<Rightarrow> (json \<Rightarrow> string) \<Rightarrow> ObjectId \<Rightarrow> (Local, bool) st" where
  "local_has_object h h2 js oid =
    bindS (getsS (\<lambda>s. Inr (fs_exists (local_object_path oid) s))) (\<lambda>there.
    if there then catchS (bindS (fs_read (local_object_path oid)) (\<lambda>data. returnS (from_bytes h data = oid))) (\<lambda>_. returnS False)
    else
      bindS (catchS (bindS (local_read_chunked h h2 js oid) (\<lambda>_. returnS True))
        (\<lambda>e. case e of ObjectNotFound _ \<Rightarrow> returnS False | BackendUnavailable _ \<Rightarrow> returnS False | _ \<Rightarrow> raiseS e)) (\<lambda>found.
      if found then returnS True else local_segment_contains h h2 oid))"

definition local_write_chunked :: "hash \<Rightarrow> hash \<Rightarrow> (json \<Rightarrow> string) \<Rightarrow> nat \<times> nat \<Rightarrow> ObjectId \<Rightarrow> bytes \<Rightarrow> (Local, unit) st" where
  "local_write_chunked h h2 js who oid data =
    bindS (getsS (\<lambda>s. Inr (fs_exists (local_chunk_manifest_path oid) s))) (\<lambda>there.
    bindS (if \<not> there then returnS False
           else catchS (bindS (local_read_chunked h h2 js oid) (\<lambda>_. returnS True))
             (\<lambda>e. case e of BackendUnavailable _ \<Rightarrow> returnS False | _ \<Rightarrow> raiseS e)) (\<lambda>intact.
    if intact then returnS ()
    else
      bindS (liftR (encode_chunked_object h h2 CHUNK_SIZE oid data)) (\<lambda>(manifest, chunks).
      bindS (iterS (\<lambda>(chunk_id, chunk). write_atomic who (local_chunk_path chunk_id) chunk) chunks) (\<lambda>_.
      write_atomic who (local_chunk_manifest_path oid) manifest))))"

definition local_write_object :: "hash \<Rightarrow> hash \<Rightarrow> (json \<Rightarrow> string) \<Rightarrow> nat \<times> nat \<Rightarrow> ObjectId \<Rightarrow> bytes \<Rightarrow> (Local, unit) st" where
  "local_write_object h h2 js who oid data =
    (if from_bytes h data \<noteq> oid then raiseS (ValueError ''object id does not match object data'')
     else if should_chunk data then local_write_chunked h h2 js who oid data
     else
       bindS (getsS (\<lambda>s. Inr (fs_exists (local_object_path oid) s))) (\<lambda>there.
       bindS (if there then bindS (fs_read (local_object_path oid)) (\<lambda>old. returnS (old = data \<and> from_bytes h old = oid)) else returnS False) (\<lambda>done.
       if done then returnS () else write_atomic who (local_object_path oid) data)))"

definition local_write_segment :: "hash \<Rightarrow> hash \<Rightarrow> nat \<times> nat \<Rightarrow> (ObjectId \<times> bytes) list \<Rightarrow> (Local, unit) st" where
  "local_write_segment h h2 who objects =
    bindS (liftR (encode_segment h h2 objects)) (\<lambda>(segment_id, segment, index).
    bindS (getsS (\<lambda>s. Inr (fs_exists (local_segment_path segment_id) s \<and> fs_exists (local_segment_index_path segment_id) s))) (\<lambda>done.
    if done then returnS ()
    else bindS (write_atomic who (local_segment_path segment_id) segment) (\<lambda>_.
         write_atomic who (local_segment_index_path segment_id) index)))"

text \<open>The loop of \<^verbatim>\<open>write_objects\<close> gives the small objects that are not there yet.\<close>

fun local_write_large :: "hash \<Rightarrow> hash \<Rightarrow> (json \<Rightarrow> string) \<Rightarrow> nat \<times> nat \<Rightarrow> (ObjectId \<times> bytes) list \<Rightarrow> (Local, (ObjectId \<times> bytes) list) st" where
  "local_write_large h h2 js who [] = returnS []"
| "local_write_large h h2 js who ((oid, data) # objects) =
    bindS (local_has_object h h2 js oid) (\<lambda>present.
    if present then local_write_large h h2 js who objects
    else if should_chunk data then
      bindS (local_write_object h h2 js who oid data) (\<lambda>_. local_write_large h h2 js who objects)
    else bindS (local_write_large h h2 js who objects) (\<lambda>small. returnS ((oid, data) # small)))"

definition local_write_objects :: "hash \<Rightarrow> hash \<Rightarrow> (json \<Rightarrow> string) \<Rightarrow> nat \<times> nat \<Rightarrow> (ObjectId \<times> bytes) list \<Rightarrow> (Local, unit) st" where
  "local_write_objects h h2 js who objects =
    bindS (local_write_large h h2 js who objects) (\<lambda>small.
    case small of
      [] \<Rightarrow> returnS ()
    | [(oid, data)] \<Rightarrow> local_write_object h h2 js who oid data
    | _ \<Rightarrow> local_write_segment h h2 who small)"

text \<open>\<^verbatim>\<open>delete_object\<close> removes the file of a small object only.\<close>

definition local_delete_object :: "ObjectId \<Rightarrow> (Local, unit) st" where
  "local_delete_object oid =
    bindS (getsS (\<lambda>s. Inr (fs_exists (local_object_path oid) s))) (\<lambda>there.
    if there then fs_unlink (local_object_path oid) else returnS ())"

section \<open>References\<close>

definition read_ref_file :: "string \<Rightarrow> (Local, ObjectId option) st" where
  "read_ref_file p = bindS (fs_read p) (\<lambda>data. liftR (bindR (decode_strip data) ref_of_text))"

definition local_read_ref :: "string \<Rightarrow> (Local, ObjectId option) st" where
  "local_read_ref name =
    bindS (getsS (\<lambda>s. Inr (fs_exists (local_ref_path name) s))) (\<lambda>there.
    if \<not> there then returnS None else read_ref_file (local_ref_path name))"

text \<open>The lock is taken on a file that is made if need be and stays.\<close>

definition local_ref_lock :: "hash \<Rightarrow> string \<Rightarrow> (Local, unit) st" where
  "local_ref_lock h2 name =
    bindS (make_parents (local_lock_path h2 name)) (\<lambda>_ s.
    if fs_file (local_lock_path h2 name) s \<noteq> None then (Inr (), s)
    else if fs_exists (local_lock_path h2 name) s then (Inl (OSError ''Is a directory''), s)
    else (Inr (), fs_put (local_lock_path h2 name) [] s))"

definition local_cas_ref :: "hash \<Rightarrow> nat \<times> nat \<Rightarrow> string \<Rightarrow> ObjectId option \<Rightarrow> ObjectId \<Rightarrow> (Local, bool) st" where
  "local_cas_ref h2 who name expected new =
    bindS (local_ref_lock h2 name) (\<lambda>_.
    bindS (local_read_ref name) (\<lambda>current.
    if current \<noteq> expected then returnS False
    else bindS (write_atomic who (local_ref_path name) (oid_value new @ [CHR 0x0A])) (\<lambda>_. returnS True)))"

definition local_delete_ref :: "string \<Rightarrow> (Local, unit) st" where
  "local_delete_ref name =
    bindS (getsS (\<lambda>s. Inr (fs_exists (local_ref_path name) s))) (\<lambda>there.
    if there then fs_unlink (local_ref_path name) else returnS ())"

text \<open>\<^verbatim>\<open>sorted(refs_root.rglob("*"))\<close> orders paths by their components.\<close>

definition ref_files :: "Local \<Rightarrow> string list" where
  "ref_files s = sort_key (split_on SLASH) (filter (\<lambda>p. startswith p ''refs/'') (map fst (lf_files s)))"

definition local_list_refs :: "string \<Rightarrow> (Local, Ref list) st" where
  "local_list_refs pre =
    (let normalized_prefix = (if pre \<noteq> [] then normalize_ref pre else ''refs/'') in
     bindS (getsS (\<lambda>s. Inr (filter (\<lambda>name. startswith name normalized_prefix) (ref_files s))))
       (mapS (\<lambda>name. bindS (read_ref_file name) (\<lambda>x. returnS \<lparr>ref_name = name, ref_oid = x\<rparr>))))"

section \<open>Journal and configuration\<close>

definition local_append_journal :: "(json \<Rightarrow> string) \<Rightarrow> nat \<times> nat \<Rightarrow> JournalEntry \<Rightarrow> (Local, unit) st" where
  "local_append_journal orjson_dumps who entry =
    (let p = ''journals/'' @ je_id entry @ ''.txn'' in
     bindS (getsS (\<lambda>s. Inr (fs_exists p s))) (\<lambda>there.
     if there then returnS () else write_atomic who p (journal_to_json orjson_dumps entry)))"

definition local_read_config :: "(Local, json) st" where
  "local_read_config =
    bindS (getsS (\<lambda>s. Inr (fs_exists ''config'' s))) (\<lambda>there.
    if \<not> there then raiseS (ObjectNotFound ''config'')
    else bindS (fs_read ''config'') (\<lambda>data. liftR (bindR (decode_utf8 data) loads)))"

definition local_write_config :: "nat \<times> nat \<Rightarrow> json \<Rightarrow> (Local, unit) st" where
  "local_write_config who data = write_atomic who ''config'' (dumps spaced (sort_keys data))"

definition local_capabilities :: Capabilities where
  "local_capabilities = \<lparr>cap_cas_refs = True, cap_locks = False, cap_journal = True, cap_list_prefix = True,
     cap_read_after_write_refs = True\<rparr>"

definition local_backend ::
  "hash \<Rightarrow> hash \<Rightarrow> (json \<Rightarrow> string) \<Rightarrow> (json \<Rightarrow> string) \<Rightarrow> nat \<times> nat \<Rightarrow> Local Backend" where
  "local_backend h h2 js orjson_dumps who = \<lparr>
     capabilities = local_capabilities,
     read_object = local_read_object h h2 js,
     write_object = local_write_object h h2 js who,
     write_objects = local_write_objects h h2 js who,
     has_object = local_has_object h h2 js,
     read_ref = local_read_ref,
     cas_ref = local_cas_ref h2 who,
     delete_ref = local_delete_ref,
     delete_object = local_delete_object,
     list_refs = local_list_refs,
     append_journal = local_append_journal orjson_dumps who,
     read_config = local_read_config,
     write_config = local_write_config who\<rparr>"

end
