(* ===== verification/LocalObjects.thy ===== *)
theory LocalObjects
  imports LocalDir
begin

text \<open>
  The objects of a directory backend. \<open>local_ok\<close> is what a directory satisfies that this backend has written:
  files of small objects hash to their names, the chunks of every manifest are there, every index of a
  segment has its segment. Reading then finds an object wherever it is kept and fails only with
  \<open>ObjectNotFound\<close> (\<open>local_read_spec\<close>); writing a batch keeps \<open>local_ok\<close> and everything that could be read, and makes
  the batch readable (\<open>local_batch_kept\<close>), unless two of the pieces that are named by their SHA-256 digest
  have the same one.
\<close>

section \<open>Paths of the store\<close>

definition base_name :: "string \<Rightarrow> string" where
  "base_name p = rev (takeWhile (\<lambda>c. c \<noteq> SLASH) (rev p))"

lemma base_name_join: "SLASH \<notin> set n \<Longrightarrow> base_name (d @ SLASH # n) = n"
  by (simp add: base_name_def takeWhile_append_stop)

lemma parent_dirs_join:
  assumes "SLASH \<notin> set n"
  shows "parent_dirs (d @ SLASH # n) = parent_dirs d @ [d]"
proof -
  let ?p = "d @ SLASH # n"
  have u: "[0..<length ?p] = [0..<length d] @ length d # [Suc (length d)..<length ?p]"
    using upt_add_eq_append [of 0 "length d" "Suc (length n)"] by (simp add: upt_conv_Cons del: upt_Suc)
  have "filter (\<lambda>i. ?p ! i = SLASH) [Suc (length d)..<length ?p] = []"
    using assms by (auto simp: filter_empty_conv nth_append nth_Cons' in_set_conv_nth)
  moreover have "map (\<lambda>i. take i ?p) (filter (\<lambda>i. ?p ! i = SLASH) [0..<length d]) =
      map (\<lambda>i. take i d) (filter (\<lambda>i. d ! i = SLASH) [0..<length d])"
    by (rule map_cong) (auto simp: nth_append intro!: filter_cong)
  ultimately show ?thesis unfolding parent_dirs_def u by simp
qed

lemma parent_dirs_plain: "SLASH \<notin> set n \<Longrightarrow> parent_dirs n = []"
  by (auto simp: parent_dirs_def filter_empty_conv in_set_conv_nth)

definition temp_suffix :: "nat \<times> nat \<Rightarrow> string" where
  "temp_suffix who = ''.tmp.'' @ dec (fst who) @ ''.'' @ dec (snd who)"

lemma SLASH_not_digit: "\<not> is_digit SLASH"
  unfolding is_digit_def by (simp add: ordc_def)

lemma SLASH_not_hex: "\<not> is_hex SLASH"
  using SLASH_not_digit by (simp add: is_hex_def ordc_def)

lemma temp_suffix_no_slash: "SLASH \<notin> set (temp_suffix who)"
  using dec_digits SLASH_not_digit by (auto simp: temp_suffix_def)

lemma last_temp_suffix: "is_digit (last (temp_suffix who))"
  using dec_digits [OF last_in_set] by (simp add: temp_suffix_def)

lemma temp_path_join:
  "SLASH \<notin> set n \<Longrightarrow> temp_path who (d @ SLASH # n) = d @ SLASH # CHR ''.'' # n @ temp_suffix who"
  by (simp add: temp_path_def rsplit1_char temp_suffix_def Let_def)

definition store_dir :: "string \<Rightarrow> bool" where
  "store_dir d \<longleftrightarrow> d \<in> {''objects'', ''chunks'', ''segments''} \<or>
     (\<exists>a b. is_hex a \<and> is_hex b \<and> (d = ''objects/'' @ [a, b] \<or> d = ''chunks/'' @ [a, b]))"

definition store_path :: "string \<Rightarrow> bool" where
  "store_path p \<longleftrightarrow>
     (\<exists>x. valid_oid x \<and> (p = local_object_path x \<or> p = local_chunk_manifest_path x)) \<or>
     (\<exists>i. i \<noteq> [] \<and> (p = local_chunk_path (hex_bytes i) \<or> p = local_segment_path (hex_bytes i) \<or>
        p = local_segment_index_path (hex_bytes i)))"

definition is_index :: "string \<Rightarrow> bool" where
  "is_index p \<longleftrightarrow> startswith p ''segments/'' \<and> endswith p ''.tidx'' \<and> SLASH \<notin> set (drop 9 p)"

lemma hex_two:
  assumes "list_all is_hex s" and "2 \<le> length s"
  obtains a b where "take 2 s = [a, b]" and "is_hex a" and "is_hex b" and "s = a # b # drop 2 s"
  using assms by (cases s; cases "tl s") auto

lemma hex_no_slash: "list_all is_hex s \<Longrightarrow> SLASH \<notin> set s"
  using SLASH_not_hex by (auto simp: list_all_iff)

lemma hex_bytes_Nil: "hex_bytes b = [] \<longleftrightarrow> b = []"
  using length_hex_bytes [of b] by (metis length_0_conv mult_is_0 zero_neq_numeral)

lemma hex_bytes_all: "list_all is_hex (hex_bytes b)"
  using hex_bytes_is_hex by (auto simp: list_all_iff)

text \<open>A path of the store is a name that starts with a hex digit in one of the directories of the store.\<close>

lemma store_path_shape:
  assumes "store_path p"
  obtains d n where "p = d @ SLASH # n" and "SLASH \<notin> set n" and "n \<noteq> []" and "is_hex (hd n)"
    and "\<forall>q \<in> set (parent_dirs p). store_dir q"
proof -
  note shape = that
  have obj: thesis if x: "valid_oid x" and p: "p = ''objects/'' @ take 2 (oid_value x) @ ''/'' @ oid_value x @ e"
    and e: "SLASH \<notin> set e" for x e
  proof -
    have hx: "list_all is_hex (oid_value x)" "2 \<le> length (oid_value x)"
      using x by (simp_all add: valid_oid_def valid_oid_str_def)
    obtain a b where ab: "take 2 (oid_value x) = [a, b]" "is_hex a" "is_hex b" "oid_value x = a # b # drop 2 (oid_value x)"
      by (rule hex_two [OF hx])
    have "p = (''objects'' @ SLASH # [a, b]) @ SLASH # (oid_value x @ e)" using p ab(1) by simp
    moreover have n: "SLASH \<notin> set (oid_value x @ e)" using hex_no_slash [OF hx(1)] e by simp
    moreover have "parent_dirs p = [''objects'', ''objects/'' @ [a, b]]"
      using p ab SLASH_not_hex
        parent_dirs_join [OF n, of "''objects'' @ SLASH # [a, b]"] parent_dirs_join [of "[a, b]" "''objects''"]
      by (auto simp: parent_dirs_plain)
    moreover have "is_hex (hd (oid_value x @ e))" using ab(2,4) by (metis append_Cons list.sel(1))
    moreover have "oid_value x \<noteq> []" using hx(2) by auto
    ultimately show thesis using ab(2,3) by (intro shape [of "''objects'' @ SLASH # [a, b]" "oid_value x @ e"]) (auto simp: store_dir_def)
  qed
  have chunk: thesis if i: "i \<noteq> []" and p: "p = local_chunk_path (hex_bytes i)" for i
  proof -
    have hx: "list_all is_hex (hex_bytes i)" "2 \<le> length (hex_bytes i)" using i by (auto simp: hex_bytes_all Suc_le_eq)
    obtain a b where ab: "take 2 (hex_bytes i) = [a, b]" "is_hex a" "is_hex b" "hex_bytes i = a # b # drop 2 (hex_bytes i)"
      by (rule hex_two [OF hx])
    have "p = (''chunks'' @ SLASH # [a, b]) @ SLASH # hex_bytes i" using p ab(1) by (simp add: local_chunk_path_def)
    moreover have n: "SLASH \<notin> set (hex_bytes i)" by (rule hex_no_slash [OF hx(1)])
    moreover have "parent_dirs p = [''chunks'', ''chunks/'' @ [a, b]]"
      using p ab SLASH_not_hex
        parent_dirs_join [OF n, of "''chunks'' @ SLASH # [a, b]"] parent_dirs_join [of "[a, b]" "''chunks''"]
      by (auto simp: parent_dirs_plain local_chunk_path_def)
    moreover have "is_hex (hd (hex_bytes i))" using ab(2,4) by (metis list.sel(1))
    moreover have "hex_bytes i \<noteq> []" using i by (simp add: hex_bytes_Nil)
    ultimately show thesis using ab(2,3) by (intro shape [of "''chunks'' @ SLASH # [a, b]" "hex_bytes i"]) (auto simp: store_dir_def)
  qed
  have seg: thesis if i: "i \<noteq> []" and p: "p = ''segments'' @ SLASH # hex_bytes i @ e" and e: "SLASH \<notin> set e" for i e
  proof -
    have n: "SLASH \<notin> set (hex_bytes i @ e)" using hex_no_slash [OF hex_bytes_all] e by simp
    then have "parent_dirs p = [''segments'']"
      unfolding p using parent_dirs_join [OF n, of "''segments''"] by (simp add: parent_dirs_plain)
    moreover have "is_hex (hd (hex_bytes i @ e))" "hex_bytes i \<noteq> []" using i hex_bytes_all [of i] by (cases i; simp)+
    ultimately show thesis using p n by (intro shape [of "''segments''" "hex_bytes i @ e"]) (auto simp: store_dir_def)
  qed
  from assms consider x e where "valid_oid x" "p = ''objects/'' @ take 2 (oid_value x) @ ''/'' @ oid_value x @ e" "SLASH \<notin> set e"
    | i where "i \<noteq> []" "p = local_chunk_path (hex_bytes i)"
    | i e where "i \<noteq> []" "p = ''segments'' @ SLASH # hex_bytes i @ e" "SLASH \<notin> set e"
    unfolding store_path_def local_object_path_def local_chunk_manifest_path_def local_segment_path_def local_segment_index_path_def
    by (elim disjE exE conjE; force)
  then show thesis using obj chunk seg by cases blast+
qed


lemma store_path_base:
  assumes "store_path p"
  shows "base_name p \<noteq> []" and "is_hex (hd (base_name p))"
  using store_path_shape [OF assms] base_name_join by metis+

lemma store_path_length: "store_path p \<Longrightarrow> 12 \<le> length p"
proof -
  assume p: "store_path p"
  have "2 \<le> length (hex_bytes i)" if "i \<noteq> []" for i using that by (auto simp: Suc_le_eq)
  with p show ?thesis
    unfolding store_path_def
    by (auto simp: local_object_path_def local_chunk_manifest_path_def local_chunk_path_def local_segment_path_def
        local_segment_index_path_def valid_oid_def valid_oid_str_def)
qed

lemma store_dir_not_path: "store_dir d \<Longrightarrow> \<not> store_path d"
  using store_path_length [of d] by (auto simp: store_dir_def)

lemma store_dir_not_index: "store_dir d \<Longrightarrow> \<not> is_index d"
  by (auto simp: store_dir_def is_index_def)

text \<open>A temporary file is none of the files of the store.\<close>

lemma temp_path_apart:
  assumes "store_path p"
  shows "\<not> store_path (temp_path who p)" and "\<not> is_index (temp_path who p)" and "\<not> store_dir (temp_path who p)"
proof -
  obtain d n where p: "p = d @ SLASH # n" "SLASH \<notin> set n" "n \<noteq> []"
    and dirs: "\<forall>q \<in> set (parent_dirs p). store_dir q"
    using store_path_shape [OF assms] by metis
  have t: "temp_path who p = d @ SLASH # CHR ''.'' # n @ temp_suffix who"
    unfolding p(1) by (rule temp_path_join [OF p(2)])
  have "base_name (temp_path who p) = CHR ''.'' # n @ temp_suffix who"
    unfolding t using p(2) temp_suffix_no_slash by (intro base_name_join) auto
  moreover have "\<not> is_hex CHR ''.''" by (simp add: is_hex_def is_digit_def ordc_def)
  ultimately show "\<not> store_path (temp_path who p)" using store_path_base(2) [of "temp_path who p"] by auto
  have "temp_suffix who \<noteq> []" by (simp add: temp_suffix_def)
  then have "last (temp_path who p) = last (temp_suffix who)" by (simp add: t)
  moreover have "\<not> is_digit CHR ''x''" by (simp add: is_digit_def ordc_def)
  ultimately show "\<not> is_index (temp_path who p)"
    using last_temp_suffix [of who] by (auto simp: is_index_def endswith_iff)
  have "store_dir d" using dirs parent_dirs_join [OF p(2), of d] p(1) by simp
  then have "6 \<le> length d" by (auto simp: store_dir_def)
  moreover have "5 < length (temp_suffix who)" by (simp add: temp_suffix_def)
  ultimately have "10 < length (temp_path who p)" using p(3) by (simp add: t)
  then show "\<not> store_dir (temp_path who p)" by (auto simp: store_dir_def)
qed

section \<open>Writing one file\<close>

lemma fs_file_put [simp]: "fs_file q (fs_put p d s) = (if q = p then Some d else fs_file q s)"
  by (simp add: fs_file_def fs_put_def)

lemma write_atomic_ok:
  assumes "\<forall>q \<in> set (parent_dirs p). fs_file q s = None" and "p \<notin> set (lf_dirs s)"
    and "p \<notin> set (parent_dirs p)" and "p \<noteq> []" and "temp_path who p \<noteq> p"
  shows "\<exists>t. write_atomic who p d s = (Inr (), t) \<and> lf_dirs t = parent_dirs p @ lf_dirs s \<and>
    (\<forall>q. fs_file q t = (if q = p then Some d else if q = temp_path who p then None else fs_file q s))"
proof -
  have "\<not> list_ex (\<lambda>q. fs_file q s \<noteq> None) (parent_dirs p)" using assms(1) by (auto simp: list_ex_iff)
  then show ?thesis
    using assms(2-5)
    by (auto simp: write_atomic_def write_temp_def make_parents_def rename_temp_def bindS_def fs_exists_def fs_file_def
        fs_put_def)
qed

section \<open>What the directory holds\<close>

definition seg_good :: "bytes set \<Rightarrow> hash \<Rightarrow> hash \<Rightarrow> Local \<Rightarrow> string \<Rightarrow> bool" where
  "seg_good S h h2 s p \<longleftrightarrow> (\<exists>os sid seg idx. encode_segment h h2 os = Inr (sid, seg, idx) \<and> list_all (storable h) os \<and>
     p = local_segment_index_path sid \<and> fs_file p s = Some idx \<and> fs_file (local_segment_path sid) s = Some seg \<and>
     idx @ [NUL] @ seg \<in> S)"

definition chunks_there :: "bytes set \<Rightarrow> hash \<Rightarrow> Local \<Rightarrow> bytes \<Rightarrow> bool" where
  "chunks_there S h2 s data \<longleftrightarrow> (\<forall>c \<in> snd ` set (chunk_parts CHUNK_SIZE data).
     c \<in> S \<and> fs_file (local_chunk_path (hex_bytes (h2 c))) s = Some c)"

definition manifest_good :: "bytes set \<Rightarrow> hash \<Rightarrow> hash \<Rightarrow> Local \<Rightarrow> ObjectId \<Rightarrow> bytes \<Rightarrow> bool" where
  "manifest_good S h h2 s x m \<longleftrightarrow> (\<exists>data. from_bytes h data = x \<and>
     m = dumps compact (manifest_json h2 CHUNK_SIZE x data) \<and> chunks_there S h2 s data)"

definition dirs_ok :: "Local \<Rightarrow> bool" where
  "dirs_ok s \<longleftrightarrow> (\<forall>d. store_dir d \<longrightarrow> fs_file d s = None) \<and> (\<forall>d \<in> set (lf_dirs s). \<not> store_path d \<and> \<not> is_index d) \<and>
     (\<forall>p. is_index p \<longrightarrow> fs_file p s \<noteq> None \<longrightarrow> ''segments'' \<in> set (lf_dirs s))"

definition local_ok :: "bytes set \<Rightarrow> hash \<Rightarrow> hash \<Rightarrow> Local \<Rightarrow> bool" where
  "local_ok S h h2 s \<longleftrightarrow> dirs_ok s \<and>
     (\<forall>x d. valid_oid x \<longrightarrow> fs_file (local_object_path x) s = Some d \<longrightarrow> from_bytes h d = x) \<and>
     (\<forall>x m. valid_oid x \<longrightarrow> fs_file (local_chunk_manifest_path x) s = Some m \<longrightarrow> manifest_good S h h2 s x m) \<and>
     (\<forall>p. is_index p \<longrightarrow> fs_file p s \<noteq> None \<longrightarrow> seg_good S h h2 s p)"

definition in_segment :: "hash \<Rightarrow> hash \<Rightarrow> Local \<Rightarrow> ObjectId \<Rightarrow> bool" where
  "in_segment h h2 s x \<longleftrightarrow> (\<exists>p idx seg d. is_index p \<and> fs_file p s = Some idx \<and> fs_file (tseg_path p) s = Some seg \<and>
     read_segment_object h h2 seg idx x = Inr d)"

definition kept :: "hash \<Rightarrow> hash \<Rightarrow> Local \<Rightarrow> ObjectId \<Rightarrow> bool" where
  "kept h h2 s x \<longleftrightarrow> fs_file (local_object_path x) s \<noteq> None \<or> fs_file (local_chunk_manifest_path x) s \<noteq> None \<or>
     in_segment h h2 s x"

lemma local_ok_init: "local_ok S h h2 local_init"
  by (simp add: local_ok_def dirs_ok_def local_init_def fs_file_def)

lemma store_exists: "dirs_ok s \<Longrightarrow> store_path p \<Longrightarrow> fs_exists p s \<longleftrightarrow> fs_file p s \<noteq> None"
  using store_path_length [of p] by (auto simp: fs_exists_def dirs_ok_def)

lemma set_segment_indexes: "dirs_ok s \<Longrightarrow> p \<in> set (segment_indexes s) \<longleftrightarrow> is_index p \<and> fs_file p s \<noteq> None"
  by (auto simp: segment_indexes_def is_index_def dirs_ok_def fs_file_def map_of_eq_None_iff)


lemma store_paths [simp]:
  "valid_oid x \<Longrightarrow> store_path (local_object_path x)"
  "valid_oid x \<Longrightarrow> store_path (local_chunk_manifest_path x)"
  "i \<noteq> [] \<Longrightarrow> store_path (local_chunk_path (hex_bytes i))"
  "i \<noteq> [] \<Longrightarrow> store_path (local_segment_path (hex_bytes i))"
  "i \<noteq> [] \<Longrightarrow> store_path (local_segment_index_path (hex_bytes i))"
  by (auto simp: store_path_def)

section \<open>Reading\<close>

lemma fs_read_Some: "fs_file p s = Some d \<Longrightarrow> fs_read p s = (Inr d, s)"
  by (simp add: fs_read_def)

lemma exists_Some: "fs_file p s = Some d \<Longrightarrow> fs_exists p s"
  by (simp add: fs_exists_def)

lemma CHUNK_SIZE_pos: "0 < CHUNK_SIZE"
  by (simp add: CHUNK_SIZE_def)

lemma read_chunks:
  assumes "\<forall>c \<in> snd ` set ps. fs_file (local_chunk_path (hex_bytes (h2 c))) s = Some c"
  shows "mapS (local_read_chunk js x) (map (entry_of h2) ps) s = (Inr (map snd ps), s)"
  using assms
proof (induction ps)
  case (Cons q ps)
  then have f: "fs_file (local_chunk_path (hex_bytes (h2 (snd q)))) s = Some (snd q)" by simp
  have "local_read_chunk js x (entry_of h2 q) s = (Inr (snd q), s)"
    using f by (simp add: local_read_chunk_def local_chunk_file_def entry_of_def bindS_def exists_Some fs_read_Some)
  then show ?case using Cons by (simp add: bindS_def)
qed simp

lemma read_chunked_ok:
  assumes "digest20 h" and "local_ok S h h2 s" and "valid_oid x" and "fs_file (local_chunk_manifest_path x) s = Some m"
  shows "\<exists>d. local_read_chunked h h2 js x s = (Inr d, s) \<and> from_bytes h d = x"
proof -
  obtain data where d: "from_bytes h data = x" "m = dumps compact (manifest_json h2 CHUNK_SIZE x data)"
    and c: "chunks_there S h2 s data"
    using assms(2-4) unfolding local_ok_def manifest_good_def by blast
  have "assemble_chunked_object h h2 m (map snd (chunk_parts CHUNK_SIZE data)) = Inr data"
    using assemble_encode [OF assms(1) encode_eq [OF d(1) CHUNK_SIZE_pos]] d(2) by (simp add: o_def)
  moreover have "mapS (local_read_chunk js x) (map (entry_of h2) (chunk_parts CHUNK_SIZE data)) s =
      (Inr (map snd (chunk_parts CHUNK_SIZE data)), s)"
    using c by (intro read_chunks) (auto simp: chunks_there_def)
  ultimately have "local_read_chunked h h2 js x s = (Inr data, s)"
    using assms(4) d(2) decode_manifest_dumps [OF assms(3), of h2 CHUNK_SIZE data]
    by (simp add: local_read_chunked_def catchS_def bindS_def exists_Some fs_read_Some)
  then show ?thesis using d(1) by blast
qed

lemma read_chunked_missing:
  assumes "dirs_ok s" and "valid_oid x" and "fs_file (local_chunk_manifest_path x) s = None"
  shows "local_read_chunked h h2 js x s = (Inl (ObjectNotFound (oid_value x)), s)"
  using assms store_exists [OF assms(1), of "local_chunk_manifest_path x"] by (simp add: local_read_chunked_def bindS_def)

lemma tseg_index: "sid \<noteq> [] \<Longrightarrow> tseg_path (local_segment_index_path sid) = local_segment_path sid"
  by (simp add: tseg_path_def local_segment_index_path_def local_segment_path_def)

lemma encode_segment_id:
  assumes "encode_segment h h2 os = Inr (sid, seg, idx)"
  shows "sid = hex_bytes (h2 (idx @ [NUL] @ seg))"
  using assms by (auto simp: encode_segment_def Let_def split: prod.splits)

text \<open>A digest is not empty, as the 32 bytes of SHA-256 are not.\<close>

definition digested :: "hash \<Rightarrow> bool" where
  "digested h2 \<longleftrightarrow> (\<forall>d. h2 d \<noteq> [])"

lemma packed_read:
  assumes "digest20 h" and "list_all (storable h) os" and "encode_segment h h2 os = Inr (sid, seg, idx)"
  shows "if x \<in> fst ` set os then ok (read_segment_object h h2 seg idx x)
    else read_segment_object h h2 seg idx x = Inl (ObjectNotFound (oid_value x))"
proof -
  have "list_all (\<lambda>p. from_bytes h (snd p) = fst p \<and> git_object (snd p)) os"
    using assms(2) by (simp add: storable_def list_all_iff)
  from read_encode [OF assms(1) this, of h2] show ?thesis using assms(3) by (auto simp: ok_iff)
qed

lemma seg_good_read:
  assumes "digest20 h" and "digested h2" and "seg_good S h h2 s p"
  shows "\<exists>idx seg. fs_file p s = Some idx \<and> fs_file (tseg_path p) s = Some seg \<and>
    (\<forall>x. ok (read_segment_object h h2 seg idx x) \<or>
       read_segment_object h h2 seg idx x = Inl (ObjectNotFound (oid_value x)))"
proof -
  obtain os sid seg idx where e: "encode_segment h h2 os = Inr (sid, seg, idx)" "list_all (storable h) os"
    and p: "p = local_segment_index_path sid" "fs_file p s = Some idx" "fs_file (local_segment_path sid) s = Some seg"
    using assms(3) unfolding seg_good_def by blast
  have "tseg_path p = local_segment_path sid"
    unfolding p(1) using encode_segment_id [OF e(1)] assms(2) by (intro tseg_index) (simp add: hex_bytes_Nil digested_def)
  moreover have "ok (read_segment_object h h2 seg idx x) \<or>
      read_segment_object h h2 seg idx x = Inl (ObjectNotFound (oid_value x))" for x
    using packed_read [OF assms(1) e(2,1), of x] by (auto split: if_splits)
  ultimately show ?thesis using p by auto
qed

lemma search_spec:
  assumes "\<forall>p \<in> set ps. \<exists>idx seg. fs_file p s = Some idx \<and> fs_file (tseg_path p) s = Some seg \<and>
    (ok (read_segment_object h h2 seg idx x) \<or> read_segment_object h h2 seg idx x = Inl (ObjectNotFound (oid_value x)))"
  shows "if \<exists>p \<in> set ps. \<exists>idx seg d. fs_file p s = Some idx \<and> fs_file (tseg_path p) s = Some seg \<and>
       read_segment_object h h2 seg idx x = Inr d
    then \<exists>d. search_indexes h h2 x ps s = (Inr d, s) \<and> from_bytes h d = x
    else search_indexes h h2 x ps s = (Inl (ObjectNotFound (oid_value x)), s)"
  using assms
proof (induction ps)
  case (Cons p ps)
  obtain idx seg where f: "fs_file p s = Some idx" "fs_file (tseg_path p) s = Some seg"
    and r: "ok (read_segment_object h h2 seg idx x) \<or> read_segment_object h h2 seg idx x = Inl (ObjectNotFound (oid_value x))"
    using Cons.prems by auto
  have step: "search_indexes h h2 x (p # ps) s =
     (case read_segment_object h h2 seg idx x of Inr d \<Rightarrow> (Inr d, s) | Inl e \<Rightarrow>
        if is_object_not_found e then search_indexes h h2 x ps s
        else if is_value_error e then (Inl (BackendUnavailable (''corrupt segment '' @ drop 9 p @ '': '' @ exc_str e)), s)
        else (Inl e, s))"
    using f by (simp add: Let_def bindS_def exists_Some fs_read_Some split: sum.splits)
  show ?case
  proof (cases "read_segment_object h h2 seg idx x")
    case (Inl e)
    then show ?thesis using r step f Cons by auto
  next
    case (Inr d)
    then show ?thesis using step f read_segment_sound by auto
  qed
qed simp

lemma local_read_segment_spec:
  assumes "digest20 h" and "digested h2" and "local_ok S h h2 s"
  shows "if in_segment h h2 s x then \<exists>d. local_read_segment h h2 x s = (Inr d, s) \<and> from_bytes h d = x
    else local_read_segment h h2 x s = (Inl (ObjectNotFound (oid_value x)), s)"
proof -
  have dirs: "dirs_ok s" using assms(3) by (simp add: local_ok_def)
  have eq: "(\<exists>p \<in> set (segment_indexes s). \<exists>idx seg d. fs_file p s = Some idx \<and> fs_file (tseg_path p) s = Some seg \<and>
       read_segment_object h h2 seg idx x = Inr d) \<longleftrightarrow> in_segment h h2 s x"
    unfolding in_segment_def Bex_def set_segment_indexes [OF dirs] by blast
  have "\<forall>p \<in> set (segment_indexes s). \<exists>idx seg. fs_file p s = Some idx \<and> fs_file (tseg_path p) s = Some seg \<and>
    (ok (read_segment_object h h2 seg idx x) \<or> read_segment_object h h2 seg idx x = Inl (ObjectNotFound (oid_value x)))"
    using seg_good_read [OF assms(1,2)] assms(3) set_segment_indexes [OF dirs] unfolding local_ok_def by blast
  note found = search_spec [OF this, unfolded eq]
  show ?thesis
  proof (cases "fs_exists ''segments'' s")
    case True
    then show ?thesis using found by (simp add: local_read_segment_def bindS_def)
  next
    case False
    then have "\<not> in_segment h h2 s x" using dirs by (auto simp: in_segment_def dirs_ok_def fs_exists_def)
    then show ?thesis using False by (simp add: local_read_segment_def bindS_def)
  qed
qed


text \<open>Reading and asking: what is kept is found, the rest is reported missing, nothing else is raised.\<close>

lemma local_read_spec:
  assumes "digest20 h" and "digested h2" and "local_ok S h h2 s" and "valid_oid x"
  shows "if kept h h2 s x then \<exists>d. local_read_object h h2 js x s = (Inr d, s) \<and> from_bytes h d = x
    else local_read_object h h2 js x s = (Inl (ObjectNotFound (oid_value x)), s)"
proof (cases "fs_file (local_object_path x) s")
  case (Some d)
  then have "from_bytes h d = x" using assms(3,4) by (simp add: local_ok_def)
  then show ?thesis using Some by (simp add: kept_def local_read_object_def bindS_def exists_Some fs_read_Some)
next
  case None
  have dirs: "dirs_ok s" using assms(3) by (simp add: local_ok_def)
  have absent: "\<not> fs_exists (local_object_path x) s" using None store_exists [OF dirs] assms(4) by simp
  show ?thesis
  proof (cases "fs_file (local_chunk_manifest_path x) s")
    case (Some m)
    then show ?thesis
      using read_chunked_ok [OF assms(1,3,4) Some, of js] absent
      by (auto simp: kept_def local_read_object_def bindS_def catchS_def)
  next
    case m: None
    show ?thesis
      using local_read_segment_spec [OF assms(1,2,3), of x] None m absent read_chunked_missing [OF dirs assms(4) m, of h h2 js]
      by (auto simp: kept_def local_read_object_def bindS_def catchS_def split: if_splits)
  qed
qed

lemma local_has_spec:
  assumes "digest20 h" and "digested h2" and "local_ok S h h2 s" and "valid_oid x"
  shows "local_has_object h h2 js x s = (Inr (kept h h2 s x), s)"
proof (cases "fs_file (local_object_path x) s")
  case (Some d)
  then have "from_bytes h d = x" using assms(3,4) by (simp add: local_ok_def)
  then show ?thesis using Some by (simp add: kept_def local_has_object_def bindS_def catchS_def exists_Some fs_read_Some)
next
  case None
  have dirs: "dirs_ok s" using assms(3) by (simp add: local_ok_def)
  have absent: "\<not> fs_exists (local_object_path x) s" using None store_exists [OF dirs] assms(4) by simp
  show ?thesis
  proof (cases "fs_file (local_chunk_manifest_path x) s")
    case (Some m)
    then show ?thesis
      using read_chunked_ok [OF assms(1,3,4) Some, of js] absent
      by (auto simp: kept_def local_has_object_def bindS_def catchS_def)
  next
    case m: None
    show ?thesis
      using local_read_segment_spec [OF assms(1,2,3), of x] None m absent read_chunked_missing [OF dirs assms(4) m, of h h2 js]
      by (auto simp: kept_def local_has_object_def local_segment_contains_def bindS_def catchS_def split: if_splits)
  qed
qed


section \<open>Distinct paths\<close>

lemma valid_oid_length: "valid_oid x \<Longrightarrow> length (oid_value x) = 40"
  by (simp add: valid_oid_def valid_oid_str_def)

lemma object_path_inj [simp]:
  "valid_oid x \<Longrightarrow> valid_oid y \<Longrightarrow> local_object_path x = local_object_path y \<longleftrightarrow> x = y"
  "valid_oid x \<Longrightarrow> valid_oid y \<Longrightarrow> local_chunk_manifest_path x = local_chunk_manifest_path y \<longleftrightarrow> x = y"
  by (auto simp: local_object_path_def local_chunk_manifest_path_def valid_oid_length intro: ObjectId.expand)

lemma object_manifest_apart [simp]:
  assumes "valid_oid x" and "valid_oid y"
  shows "local_object_path x \<noteq> local_chunk_manifest_path y" and "local_chunk_manifest_path y \<noteq> local_object_path x"
proof -
  have "length (local_object_path x) \<noteq> length (local_chunk_manifest_path y)"
    using assms by (simp add: local_object_path_def local_chunk_manifest_path_def valid_oid_length)
  then show "local_object_path x \<noteq> local_chunk_manifest_path y" by metis
  then show "local_chunk_manifest_path y \<noteq> local_object_path x" by metis
qed

lemma chunk_path_inj [simp]:
  assumes "i \<noteq> []" and "j \<noteq> []"
  shows "local_chunk_path (hex_bytes i) = local_chunk_path (hex_bytes j) \<longleftrightarrow> i = j"
proof -
  have "drop 10 (local_chunk_path (hex_bytes k)) = hex_bytes k" if "k \<noteq> []" for k
    using that by (cases k) (simp_all add: local_chunk_path_def)
  then show ?thesis using assms hex_bytes_inject by metis
qed

lemma segment_path_inj [simp]:
  "local_segment_path a = local_segment_path b \<longleftrightarrow> a = b"
  "local_segment_index_path a = local_segment_index_path b \<longleftrightarrow> a = b"
  by (simp_all add: local_segment_path_def local_segment_index_path_def)

lemma segment_index_apart [simp]:
  "local_segment_path a \<noteq> local_segment_index_path b" "local_segment_index_path b \<noteq> local_segment_path a"
proof -
  have "last (butlast (local_segment_path a)) = CHR ''e''" "last (butlast (local_segment_index_path b)) = CHR ''d''"
    by (simp_all add: local_segment_path_def local_segment_index_path_def butlast_append)
  then show "local_segment_path a \<noteq> local_segment_index_path b" by auto
  then show "local_segment_index_path b \<noteq> local_segment_path a" by metis
qed

lemma store_kinds_apart [simp]:
  "local_object_path x \<noteq> local_chunk_path c" "local_object_path x \<noteq> local_segment_path a"
  "local_object_path x \<noteq> local_segment_index_path a" "local_chunk_manifest_path x \<noteq> local_chunk_path c"
  "local_chunk_manifest_path x \<noteq> local_segment_path a" "local_chunk_manifest_path x \<noteq> local_segment_index_path a"
  "local_chunk_path c \<noteq> local_segment_path a" "local_chunk_path c \<noteq> local_segment_index_path a"
  "local_chunk_path c \<noteq> local_object_path x" "local_chunk_path c \<noteq> local_chunk_manifest_path x"
  "local_segment_path a \<noteq> local_object_path x" "local_segment_path a \<noteq> local_chunk_manifest_path x"
  "local_segment_path a \<noteq> local_chunk_path c" "local_segment_index_path a \<noteq> local_object_path x"
  "local_segment_index_path a \<noteq> local_chunk_manifest_path x" "local_segment_index_path a \<noteq> local_chunk_path c"
  by (simp_all add: local_object_path_def local_chunk_manifest_path_def local_chunk_path_def local_segment_path_def
      local_segment_index_path_def)

lemma is_index_kinds [simp]:
  "\<not> is_index (local_object_path x)" "\<not> is_index (local_chunk_manifest_path x)" "\<not> is_index (local_chunk_path c)"
  "\<not> is_index (local_segment_path a)" "is_index (local_segment_index_path (hex_bytes i))"
  using hex_no_slash [OF hex_bytes_all]
  by (auto simp: is_index_def local_object_path_def local_chunk_manifest_path_def local_chunk_path_def
      local_segment_path_def local_segment_index_path_def endswith_iff append_eq_append_conv2 append_eq_Cons_conv Cons_eq_append_conv)

section \<open>Writing into the store\<close>

definition stored_at :: "string \<Rightarrow> bytes \<Rightarrow> Local \<Rightarrow> Local \<Rightarrow> bool" where
  "stored_at p d s t \<longleftrightarrow> dirs_ok t \<and>
     (\<forall>q. store_path q \<or> is_index q \<longrightarrow> fs_file q t = (if q = p then Some d else fs_file q s))"

lemma index_parent: "is_index p \<Longrightarrow> ''segments'' \<in> set (parent_dirs p)"
  using parent_dirs_join [of "drop 9 p" "''segments''"] by (auto simp: is_index_def startswith_iff)

lemma write_store:
  assumes "dirs_ok s" and "store_path p"
  shows "\<exists>t. write_atomic who p d s = (Inr (), t) \<and> stored_at p d s t"
proof -
  have dirs: "\<forall>q \<in> set (parent_dirs p). store_dir q" using store_path_shape [OF assms(2)] by metis
  then have par: "\<forall>q \<in> set (parent_dirs p). fs_file q s = None" using assms(1) by (simp add: dirs_ok_def)
  note apart = temp_path_apart [OF assms(2), of who]
  have p: "p \<notin> set (lf_dirs s)" "p \<notin> set (parent_dirs p)" "p \<noteq> []" "temp_path who p \<noteq> p"
    using assms dirs store_dir_not_path store_path_length [of p] apart(1) by (auto simp: dirs_ok_def)
  obtain t where t: "write_atomic who p d s = (Inr (), t)" "lf_dirs t = parent_dirs p @ lf_dirs s"
    and f: "\<And>q. fs_file q t = (if q = p then Some d else if q = temp_path who p then None else fs_file q s)"
    using write_atomic_ok [OF par p] by blast
  have "dirs_ok t"
    unfolding dirs_ok_def t(2) f
    using assms dirs store_dir_not_path store_dir_not_index index_parent by (auto simp: dirs_ok_def)
  then show ?thesis using t(1) f apart by (auto simp: stored_at_def)
qed


text \<open>The id of a segment determines its two files: the index holds no NUL, and the digests of what is hashed
  differ.\<close>

lemma index_no_NUL:
  assumes "digest20 h" and "list_all (storable h) os" and "encode_segment h h2 os = Inr (sid, seg, idx)"
  shows "NUL \<notin> set idx"
proof -
  obtain u where u: "segment_unique h os = Inr u" using assms(3) by (auto simp: encode_segment_def)
  note spec = segment_unique_spec [OF u]
  have git: "list_all (\<lambda>p. git_object (snd p)) u" using spec assms(2) by (auto simp: list_all_iff storable_def)
  have "list_all (\<lambda>p. git_object (snd p) \<and> valid_oid (fst p)) (sort_key fst u)"
    using git spec valid_from_bytes [OF assms(1)] by (auto simp: list_all_iff) (metis snd_conv fst_conv)
  then have "ascii_json (segment_doc h2 seg (layout (length MAGIC) (sort_key fst u)))"
    by (intro segment_doc_ascii layout_wf)
  moreover have "idx = dumps compact (segment_doc h2 seg (layout (length MAGIC) (sort_key fst u)))"
    using encode_segment_eq [OF u git, of h2] assms(3) by (auto simp: Let_def)
  ultimately show ?thesis using dumps_printable [of _ NUL] by (auto simp: printable_def ordc_def)
qed

lemma encode_segment_inj:
  assumes "digest20 h" and "inj_on h2 S" and "list_all (storable h) os" and "list_all (storable h) os'"
    and "encode_segment h h2 os = Inr (sid, seg, idx)" and "encode_segment h h2 os' = Inr (sid, seg', idx')"
    and "idx @ [NUL] @ seg \<in> S" and "idx' @ [NUL] @ seg' \<in> S"
  shows "seg' = seg \<and> idx' = idx"
proof -
  have "h2 (idx @ [NUL] @ seg) = h2 (idx' @ [NUL] @ seg')"
    using encode_segment_id [OF assms(5)] encode_segment_id [OF assms(6)] hex_bytes_inject by metis
  then have "idx @ NUL # seg = idx' @ NUL # seg'" using inj_onD [OF assms(2) _ assms(7,8)] by simp
  moreover have "NUL \<notin> set idx" "NUL \<notin> set idx'"
    using index_no_NUL [OF assms(1,3,5)] index_no_NUL [OF assms(1,4,6)] by auto
  ultimately have "takeWhile (\<lambda>c. c \<noteq> NUL) (idx @ NUL # seg) = idx" "takeWhile (\<lambda>c. c \<noteq> NUL) (idx @ NUL # seg) = idx'"
    by (metis takeWhile_append_stop)+
  then show ?thesis using \<open>idx @ NUL # seg = idx' @ NUL # seg'\<close> by simp
qed

text \<open>When one file of the store is written, the rest of the store stays good.\<close>

definition more_kept :: "hash \<Rightarrow> hash \<Rightarrow> Local \<Rightarrow> Local \<Rightarrow> bool" where
  "more_kept h h2 s t \<longleftrightarrow> (\<forall>x. kept h h2 s x \<longrightarrow> valid_oid x \<longrightarrow> kept h h2 t x)"

lemma more_kept_refl [simp]: "more_kept h h2 s s"
  by (simp add: more_kept_def)

lemma more_kept_trans: "more_kept h h2 s t \<Longrightarrow> more_kept h h2 t u \<Longrightarrow> more_kept h h2 s u"
  by (simp add: more_kept_def)

definition agrees :: "bytes set \<Rightarrow> hash \<Rightarrow> hash \<Rightarrow> string \<Rightarrow> bytes \<Rightarrow> bool" where
  "agrees S h h2 p d \<longleftrightarrow>
     (\<forall>x. valid_oid x \<longrightarrow> p = local_object_path x \<longrightarrow> from_bytes h d = x) \<and>
     (\<forall>c \<in> S. p = local_chunk_path (hex_bytes (h2 c)) \<longrightarrow> d = c) \<and>
     (\<forall>os sid seg idx. encode_segment h h2 os = Inr (sid, seg, idx) \<longrightarrow> list_all (storable h) os \<longrightarrow> idx @ [NUL] @ seg \<in> S \<longrightarrow>
        (p = local_segment_path sid \<longrightarrow> d = seg) \<and> (p = local_segment_index_path sid \<longrightarrow> d = idx))"

lemma chunks_stay:
  assumes "digested h2" and "stored_at p d s t" and "agrees S h h2 p d" and "chunks_there S h2 s data"
  shows "chunks_there S h2 t data"
  using assms store_paths(3) unfolding chunks_there_def stored_at_def agrees_def digested_def by metis

lemma seg_stays:
  assumes "digested h2" and "stored_at p d s t" and "agrees S h h2 p d" and "seg_good S h h2 s q"
  shows "seg_good S h h2 t q"
proof -
  obtain os sid seg idx where e: "encode_segment h h2 os = Inr (sid, seg, idx)" "list_all (storable h) os"
    and q: "q = local_segment_index_path sid" "fs_file q s = Some idx" "fs_file (local_segment_path sid) s = Some seg"
    and S: "idx @ [NUL] @ seg \<in> S"
    using assms(4) unfolding seg_good_def by blast
  have "store_path q" "store_path (local_segment_path sid)"
    using encode_segment_id [OF e(1)] assms(1) q(1) by (simp_all add: digested_def)
  then have "fs_file q t = Some idx" "fs_file (local_segment_path sid) t = Some seg"
    using assms(2,3) e q S unfolding stored_at_def agrees_def by auto
  then show ?thesis using e q(1) S unfolding seg_good_def by blast
qed

lemma stored_keeps:
  assumes "digest20 h" and "digested h2" and "local_ok S h h2 s" and "stored_at p d s t" and "agrees S h h2 p d"
    and "\<And>x. valid_oid x \<Longrightarrow> p = local_chunk_manifest_path x \<Longrightarrow> manifest_good S h h2 t x d"
    and "is_index p \<Longrightarrow> seg_good S h h2 t p"
  shows "local_ok S h h2 t \<and> more_kept h h2 s t"
proof
  have f: "fs_file q t = (if q = p then Some d else fs_file q s)" if "store_path q \<or> is_index q" for q
    using assms(4) that unfolding stored_at_def by blast
  have "from_bytes h e = x" if "valid_oid x" "fs_file (local_object_path x) t = Some e" for x e
    using that assms(3,5) f [of "local_object_path x"] by (auto simp: local_ok_def agrees_def split: if_splits)
  moreover have "manifest_good S h h2 t x m" if "valid_oid x" "fs_file (local_chunk_manifest_path x) t = Some m" for x m
  proof (cases "local_chunk_manifest_path x = p")
    case True
    then show ?thesis using that f [of p] assms(6) [OF that(1)] by auto
  next
    case False
    then have "manifest_good S h h2 s x m" using that assms(3) f [of "local_chunk_manifest_path x"] by (simp add: local_ok_def)
    then show ?thesis using chunks_stay [OF assms(2,4,5)] unfolding manifest_good_def by blast
  qed
  moreover have "seg_good S h h2 t q" if "is_index q" "fs_file q t \<noteq> None" for q
    using that assms(3,7) f [of q] seg_stays [OF assms(2,4,5)] by (cases "q = p") (auto simp: local_ok_def)
  ultimately show "local_ok S h h2 t" using assms(4) by (simp add: local_ok_def stored_at_def)
  have "in_segment h h2 t x" if "in_segment h h2 s x" for x
  proof -
    obtain q idx seg e where q: "is_index q" "fs_file q s = Some idx" "fs_file (tseg_path q) s = Some seg"
      and r: "read_segment_object h h2 seg idx x = Inr e"
      using \<open>in_segment h h2 s x\<close> unfolding in_segment_def by blast
    have good: "seg_good S h h2 s q" using q assms(3) by (simp add: local_ok_def)
    obtain os sid seg' idx' where g: "encode_segment h h2 os = Inr (sid, seg', idx')" "list_all (storable h) os"
      "q = local_segment_index_path sid" "fs_file q s = Some idx'" "fs_file (local_segment_path sid) s = Some seg'"
      "idx' @ [NUL] @ seg' \<in> S"
      using good unfolding seg_good_def by blast
    have sid: "sid \<noteq> []" "store_path (local_segment_path sid)"
      using encode_segment_id [OF g(1)] assms(2) by (simp_all add: digested_def hex_bytes_Nil)
    then have "tseg_path q = local_segment_path sid" using tseg_index g(3) by simp
    moreover have "fs_file q t = Some idx" "fs_file (local_segment_path sid) t = Some seg'"
      using f [of q] f [of "local_segment_path sid"] q g sid(2) assms(5) unfolding agrees_def by auto
    ultimately show ?thesis using q r g(5) unfolding in_segment_def by auto
  qed
  moreover have "fs_file q t \<noteq> None" if "fs_file q s \<noteq> None" "store_path q" for q using f [of q] that by simp
  ultimately show "more_kept h h2 s t" by (auto simp: more_kept_def kept_def)
qed


section \<open>Writing objects\<close>

definition leads :: "bytes set \<Rightarrow> hash \<Rightarrow> hash \<Rightarrow> Local \<Rightarrow> Local \<Rightarrow> bool" where
  "leads S h h2 s t \<longleftrightarrow> local_ok S h h2 t \<and> more_kept h h2 s t"

lemma leads_refl: "local_ok S h h2 s \<Longrightarrow> leads S h h2 s s"
  by (simp add: leads_def)

lemma leads_trans: "leads S h h2 s t \<Longrightarrow> leads S h h2 t u \<Longrightarrow> leads S h h2 s u"
  unfolding leads_def using more_kept_trans by blast

lemma local_ok_dirs: "local_ok S h h2 s \<Longrightarrow> dirs_ok s"
  by (simp add: local_ok_def)

lemma stored_at_file: "stored_at p d s t \<Longrightarrow> store_path p \<Longrightarrow> fs_file p t = Some d"
  by (simp add: stored_at_def)

lemma stored_at_other: "stored_at p d s t \<Longrightarrow> store_path q \<Longrightarrow> q \<noteq> p \<Longrightarrow> fs_file q t = fs_file q s"
  by (simp add: stored_at_def)

lemma write_small:
  assumes "digest20 h" and "digested h2" and "local_ok S h h2 s" and "from_bytes h d = x"
  shows "\<exists>t. write_atomic who (local_object_path x) d s = (Inr (), t) \<and> leads S h h2 s t \<and> kept h h2 t x"
proof -
  have x: "valid_oid x" using assms(1,4) by auto
  obtain t where t: "write_atomic who (local_object_path x) d s = (Inr (), t)" "stored_at (local_object_path x) d s t"
    using write_store [OF local_ok_dirs [OF assms(3)] store_paths(1) [OF x]] by blast
  have "agrees S h h2 (local_object_path x) d" using assms(4) x by (auto simp: agrees_def)
  then have "leads S h h2 s t"
    unfolding leads_def using x by (intro stored_keeps [OF assms(1-3) t(2)]) auto
  moreover have "kept h h2 t x" using stored_at_file [OF t(2)] x by (simp add: kept_def)
  ultimately show ?thesis using t(1) by blast
qed

lemma write_chunk:
  assumes "digest20 h" and "digested h2" and "inj_on h2 S" and "local_ok S h h2 s" and "c \<in> S"
  shows "\<exists>t. write_atomic who (local_chunk_path (hex_bytes (h2 c))) c s = (Inr (), t) \<and> leads S h h2 s t \<and>
    (\<forall>b \<in> S. b = c \<or> fs_file (local_chunk_path (hex_bytes (h2 b))) s = Some b \<longrightarrow>
       fs_file (local_chunk_path (hex_bytes (h2 b))) t = Some b)"
proof -
  let ?p = "\<lambda>c. local_chunk_path (hex_bytes (h2 c))"
  have sp: "store_path (?p b)" for b using assms(2) by (simp add: digested_def)
  obtain t where t: "write_atomic who (?p c) c s = (Inr (), t)" "stored_at (?p c) c s t"
    using write_store [OF local_ok_dirs [OF assms(4)] sp] by blast
  have same: "b = c" if "b \<in> S" "?p b = ?p c" for b
    using that assms(2,3,5) by (auto simp: digested_def dest: inj_onD)
  have "agrees S h h2 (?p c) c"
    unfolding agrees_def using same by (auto dest: sym)
  then have "leads S h h2 s t"
    unfolding leads_def by (intro stored_keeps [OF assms(1,2,4) t(2)]) auto
  moreover have "fs_file (?p b) t = Some b" if "b \<in> S" "b = c \<or> fs_file (?p b) s = Some b" for b
    using that same [OF that(1)] stored_at_file [OF t(2) sp] stored_at_other [OF t(2) sp, of b] by metis
  ultimately show ?thesis using t(1) by blast
qed

lemma write_chunks:
  assumes "digest20 h" and "digested h2" and "inj_on h2 S" and "local_ok S h h2 s" and "snd ` set ps \<subseteq> S"
  shows "\<exists>t. iterS (\<lambda>(i, c). write_atomic who (local_chunk_path i) c) (map (\<lambda>p. (hex_bytes (h2 (snd p)), snd p)) ps) s =
      (Inr (), t) \<and> leads S h h2 s t \<and>
    (\<forall>b \<in> S. b \<in> snd ` set ps \<or> fs_file (local_chunk_path (hex_bytes (h2 b))) s = Some b \<longrightarrow>
       fs_file (local_chunk_path (hex_bytes (h2 b))) t = Some b)"
  using assms(4,5)
proof (induction ps arbitrary: s)
  case (Cons p ps)
  obtain u where u: "write_atomic who (local_chunk_path (hex_bytes (h2 (snd p)))) (snd p) s = (Inr (), u)"
    "leads S h h2 s u"
    and fu: "\<And>b. b \<in> S \<Longrightarrow> b = snd p \<or> fs_file (local_chunk_path (hex_bytes (h2 b))) s = Some b \<Longrightarrow>
       fs_file (local_chunk_path (hex_bytes (h2 b))) u = Some b"
    using write_chunk [OF assms(1-3) Cons.prems(1), of "snd p" who] Cons.prems(2) by auto
  have "local_ok S h h2 u" using u(2) by (simp add: leads_def)
  then obtain t where t: "iterS (\<lambda>(i, c). write_atomic who (local_chunk_path i) c)
      (map (\<lambda>p. (hex_bytes (h2 (snd p)), snd p)) ps) u = (Inr (), t)" "leads S h h2 u t"
    and ft: "\<And>b. b \<in> S \<Longrightarrow> b \<in> snd ` set ps \<or> fs_file (local_chunk_path (hex_bytes (h2 b))) u = Some b \<Longrightarrow>
       fs_file (local_chunk_path (hex_bytes (h2 b))) t = Some b"
    using Cons.IH [of u] Cons.prems(2) by auto
  show ?case using u t leads_trans [OF u(2) t(2)] fu ft by (auto simp: bindS_def)
qed (simp add: leads_refl)

lemma write_manifest:
  assumes "digest20 h" and "digested h2" and "local_ok S h h2 s" and "from_bytes h data = x" and "chunks_there S h2 s data"
  shows "\<exists>t. write_atomic who (local_chunk_manifest_path x) (dumps compact (manifest_json h2 CHUNK_SIZE x data)) s =
      (Inr (), t) \<and> leads S h h2 s t \<and> kept h h2 t x"
proof -
  let ?m = "dumps compact (manifest_json h2 CHUNK_SIZE x data)"
  have x: "valid_oid x" using assms(1,4) by auto
  obtain t where t: "write_atomic who (local_chunk_manifest_path x) ?m s = (Inr (), t)"
    "stored_at (local_chunk_manifest_path x) ?m s t"
    using write_store [OF local_ok_dirs [OF assms(3)] store_paths(2) [OF x]] by blast
  have a: "agrees S h h2 (local_chunk_manifest_path x) ?m" using x by (auto simp: agrees_def)
  have "manifest_good S h h2 t x ?m"
    using chunks_stay [OF assms(2) t(2) a assms(5)] assms(4) unfolding manifest_good_def by blast
  then have "leads S h h2 s t"
    unfolding leads_def using x by (intro stored_keeps [OF assms(1-3) t(2) a]) auto
  moreover have "kept h h2 t x" using stored_at_file [OF t(2)] x by (simp add: kept_def)
  ultimately show ?thesis using t(1) by blast
qed

definition chunk_pieces :: "bytes \<Rightarrow> bytes set" where
  "chunk_pieces data = (if should_chunk data then snd ` set (chunk_parts CHUNK_SIZE data) else {})"

lemma write_chunked_ok:
  assumes "digest20 h" and "digested h2" and "inj_on h2 S" and "local_ok S h h2 s" and "from_bytes h data = x"
    and "chunk_pieces data \<subseteq> S" and "should_chunk data"
  shows "\<exists>t. local_write_chunked h h2 js who x data s = (Inr (), t) \<and> leads S h h2 s t \<and> kept h h2 t x"
proof -
  have x: "valid_oid x" using assms(1,5) by auto
  show ?thesis
  proof (cases "fs_file (local_chunk_manifest_path x) s")
    case (Some m)
    then have "local_write_chunked h h2 js who x data s = (Inr (), s)"
      using read_chunked_ok [OF assms(1,4) x Some, of js]
      by (auto simp: local_write_chunked_def bindS_def catchS_def exists_Some)
    then show ?thesis using Some assms(4) leads_refl by (auto simp: kept_def)
  next
    case None
    then have no: "\<not> fs_exists (local_chunk_manifest_path x) s"
      using store_exists [OF local_ok_dirs [OF assms(4)], of "local_chunk_manifest_path x"] x by simp
    let ?ps = "chunk_parts CHUNK_SIZE data"
    have sub: "snd ` set ?ps \<subseteq> S" using assms(6,7) by (simp add: chunk_pieces_def)
    obtain u where u: "iterS (\<lambda>(i, c). write_atomic who (local_chunk_path i) c) (map (\<lambda>p. (hex_bytes (h2 (snd p)), snd p)) ?ps) s =
        (Inr (), u)" "leads S h h2 s u" and f: "\<forall>b \<in> S. b \<in> snd ` set ?ps \<or> fs_file (local_chunk_path (hex_bytes (h2 b))) s = Some b \<longrightarrow>
       fs_file (local_chunk_path (hex_bytes (h2 b))) u = Some b"
      using write_chunks [OF assms(1-4) sub, of who] by blast
    have "chunks_there S h2 u data" using f sub by (auto simp: chunks_there_def)
    moreover have "local_ok S h h2 u" using u(2) by (simp add: leads_def)
    ultimately obtain t where "write_atomic who (local_chunk_manifest_path x) (dumps compact (manifest_json h2 CHUNK_SIZE x data)) u =
      (Inr (), t)" "leads S h h2 u t" "kept h h2 t x"
      using write_manifest [OF assms(1,2) _ assms(5), of S u who] by blast
    moreover from this have "local_write_chunked h h2 js who x data s = (Inr (), t)"
      using no u(1) encode_eq [OF assms(5) CHUNK_SIZE_pos, of h2]
      by (simp add: local_write_chunked_def bindS_def case_prod_unfold)
    ultimately show ?thesis using leads_trans [OF u(2)] by auto
  qed
qed

lemma write_object_ok:
  assumes "digest20 h" and "digested h2" and "inj_on h2 S" and "local_ok S h h2 s" and "from_bytes h data = x"
    and "chunk_pieces data \<subseteq> S"
  shows "\<exists>t. local_write_object h h2 js who x data s = (Inr (), t) \<and> leads S h h2 s t \<and> kept h h2 t x"
proof (cases "should_chunk data")
  case False
  show ?thesis
  proof (cases "fs_file (local_object_path x) s = Some data")
    case True
    then show ?thesis using False assms(4,5) leads_refl
      by (auto simp: local_write_object_def bindS_def exists_Some fs_read_Some kept_def)
  next
    case other: False
    have "local_write_object h h2 js who x data s = write_atomic who (local_object_path x) data s"
    proof (cases "fs_file (local_object_path x) s")
      case None
      then have "\<not> fs_exists (local_object_path x) s"
        using store_exists [OF local_ok_dirs [OF assms(4)], of "local_object_path x"] assms(1,5) by auto
      then show ?thesis using False assms(5) by (simp add: local_write_object_def bindS_def)
    next
      case (Some old)
      then show ?thesis using False other assms(5)
        by (simp add: local_write_object_def bindS_def exists_Some fs_read_Some)
    qed
    then show ?thesis using write_small [OF assms(1,2,4,5), of who] by simp
  qed
next
  case True
  then show ?thesis using write_chunked_ok [OF assms True, of js who] assms(5) by (simp add: local_write_object_def)
qed


lemma write_segment_ok:
  assumes "digest20 h" and "digested h2" and "inj_on h2 S" and "local_ok S h h2 s" and "list_all (storable h) os"
    and "\<And>sid seg idx. encode_segment h h2 os = Inr (sid, seg, idx) \<Longrightarrow> idx @ [NUL] @ seg \<in> S"
  shows "\<exists>t. local_write_segment h h2 who os s = (Inr (), t) \<and> leads S h h2 s t \<and> (\<forall>x \<in> fst ` set os. kept h h2 t x)"
proof -
  have "list_all (\<lambda>p. from_bytes h (snd p) = fst p \<and> git_object (snd p)) os"
    using assms(5) by (simp add: storable_def list_all_iff)
  then obtain sid seg idx where e: "encode_segment h h2 os = Inr (sid, seg, idx)"
    using read_encode [OF assms(1), of os h2] by blast
  note S = assms(6) [OF e]
  note same = encode_segment_inj [OF assms(1,3,5) _ e _ S]
  obtain i where sid: "sid = hex_bytes i" "i \<noteq> []"
    using encode_segment_id [OF e] assms(2) by (auto simp: digested_def)
  let ?p = "local_segment_path sid" and ?q = "local_segment_index_path sid"
  have sp: "store_path ?p" "store_path ?q" "is_index ?q" using sid by simp_all
  have kept: "kept h h2 t x" if x: "x \<in> fst ` set os" and f: "fs_file ?p t = Some seg" "fs_file ?q t = Some idx" for x t
  proof -
    have "tseg_path ?q = ?p" using sid by (intro tseg_index) (simp add: hex_bytes_Nil)
    moreover obtain d where "read_segment_object h h2 seg idx x = Inr d"
      using packed_read [OF assms(1,5) e, of x] x by (auto simp: ok_iff)
    ultimately have "in_segment h h2 t x" unfolding in_segment_def using f sp(3) by metis
    then show ?thesis by (simp add: kept_def)
  qed
  have agree: "agrees S h h2 ?p seg" "agrees S h h2 ?q idx"
    using same by (auto simp: agrees_def)
  show ?thesis
  proof (cases "fs_file ?p s \<noteq> None \<and> fs_file ?q s \<noteq> None")
    case True
    then have "seg_good S h h2 s ?q" using assms(4) sp(3) by (auto simp: local_ok_def)
    then have "fs_file ?p s = Some seg" "fs_file ?q s = Some idx" using same by (auto simp: seg_good_def)
    moreover have "local_write_segment h h2 who os s = (Inr (), s)"
      using True e by (auto simp: local_write_segment_def bindS_def fs_exists_def)
    ultimately show ?thesis using kept leads_refl [OF assms(4)] by blast
  next
    case False
    obtain u where u: "write_atomic who ?p seg s = (Inr (), u)" "stored_at ?p seg s u"
      using write_store [OF local_ok_dirs [OF assms(4)] sp(1)] by blast
    have lu: "leads S h h2 s u"
      unfolding leads_def using sp by (intro stored_keeps [OF assms(1,2,4) u(2) agree(1)]) auto
    then have ok: "local_ok S h h2 u" by (simp add: leads_def)
    obtain t where t: "write_atomic who ?q idx u = (Inr (), t)" "stored_at ?q idx u t"
      using write_store [OF local_ok_dirs [OF ok] sp(2)] by blast
    have f: "fs_file ?q t = Some idx" "fs_file ?p t = Some seg"
      using stored_at_file [OF t(2) sp(2)] stored_at_other [OF t(2) sp(1)] stored_at_file [OF u(2) sp(1)] by simp_all
    then have "seg_good S h h2 t ?q" using e assms(5) S unfolding seg_good_def by blast
    then have "leads S h h2 u t"
      unfolding leads_def by (intro stored_keeps [OF assms(1,2) ok t(2) agree(2)]) auto
    moreover have "local_write_segment h h2 who os s = (Inr (), t)"
      using False e u(1) t(1) store_exists [OF local_ok_dirs [OF assms(4)]] sp
      by (auto simp: local_write_segment_def bindS_def)
    ultimately show ?thesis using kept f leads_trans [OF lu] by blast
  qed
qed

text \<open>What is named by its SHA-256 digest when a batch is written: the chunks of its large objects, and index and data of
  the segments that may be made of it.\<close>

definition pieces :: "hash \<Rightarrow> hash \<Rightarrow> (ObjectId \<times> bytes) list \<Rightarrow> bytes set" where
  "pieces h h2 os = (\<Union>p \<in> set os. chunk_pieces (snd p)) \<union>
     {idx @ [NUL] @ seg | small sid seg idx. set small \<subseteq> set os \<and> encode_segment h h2 small = Inr (sid, seg, idx)}"

lemma write_large_ok:
  assumes "digest20 h" and "digested h2" and "inj_on h2 S" and "local_ok S h h2 s" and "list_all (storable h) os"
    and "(\<Union>p \<in> set os. chunk_pieces (snd p)) \<subseteq> S"
  shows "\<exists>small t. local_write_large h h2 js who os s = (Inr small, t) \<and> leads S h h2 s t \<and> set small \<subseteq> set os \<and>
    (\<forall>p \<in> set os. p \<in> set small \<or> kept h h2 t (fst p))"
  using assms(4-6)
proof (induction os arbitrary: s)
  case (Cons p os)
  obtain x data where p: "p = (x, data)" by (cases p)
  then have x: "from_bytes h data = x" "valid_oid x" using Cons.prems(2) assms(1) by (auto simp: storable_def)
  have has: "local_has_object h h2 js x s = (Inr (kept h h2 s x), s)"
    by (rule local_has_spec [OF assms(1,2) Cons.prems(1) x(2)])
  have rest: "\<exists>small t. local_write_large h h2 js who os u = (Inr small, t) \<and> leads S h h2 u t \<and> set small \<subseteq> set os \<and>
      (\<forall>p \<in> set os. p \<in> set small \<or> kept h h2 t (fst p))" if "local_ok S h h2 u" for u
    using that Cons.prems by (intro Cons.IH) auto
  have keep: "kept h h2 t x" if "leads S h h2 u t" "kept h h2 u x" for u t
    using that x(2) by (simp add: leads_def more_kept_def)
  consider "kept h h2 s x" | "\<not> kept h h2 s x" "should_chunk data" | "\<not> kept h h2 s x" "\<not> should_chunk data" by blast
  then show ?case
  proof cases
    case 1
    then show ?thesis using rest [OF Cons.prems(1)] has keep p by (auto simp: bindS_def)
  next
    case 2
    obtain u where u: "local_write_object h h2 js who x data s = (Inr (), u)" "leads S h h2 s u" "kept h h2 u x"
      using write_object_ok [OF assms(1-3) Cons.prems(1) x(1), of js who] Cons.prems(3) p by auto
    obtain small t where t: "local_write_large h h2 js who os u = (Inr small, t)" "leads S h h2 u t" "set small \<subseteq> set os"
      "\<forall>p \<in> set os. p \<in> set small \<or> kept h h2 t (fst p)"
      using rest [of u] u(2) by (auto simp: leads_def)
    have "local_write_large h h2 js who (p # os) s = (Inr small, t)"
      using 2 has u(1) t(1) p by (simp add: bindS_def)
    then show ?thesis using t(3,4) leads_trans [OF u(2) t(2)] keep [OF t(2) u(3)] p by auto
  next
    case 3
    then show ?thesis using rest [OF Cons.prems(1)] has p by (fastforce simp: bindS_def)
  qed
qed (simp add: leads_refl)

lemma write_objects_ok:
  assumes "digest20 h" and "digested h2" and "inj_on h2 S" and "local_ok S h h2 s" and "list_all (storable h) os"
    and "pieces h h2 os \<subseteq> S"
  shows "\<exists>t. local_write_objects h h2 js who os s = (Inr (), t) \<and> leads S h h2 s t \<and> (\<forall>p \<in> set os. kept h h2 t (fst p))"
proof -
  have chunks: "(\<Union>p \<in> set os. chunk_pieces (snd p)) \<subseteq> S" using assms(6) by (simp add: pieces_def)
  obtain small u where u: "local_write_large h h2 js who os s = (Inr small, u)" "leads S h h2 s u" "set small \<subseteq> set os"
    and rest: "\<forall>p \<in> set os. p \<in> set small \<or> kept h h2 u (fst p)"
    using write_large_ok [OF assms(1-5) chunks, of js who] by blast
  have ok: "local_ok S h h2 u" using u(2) by (simp add: leads_def)
  have st: "list_all (storable h) small" using assms(5) u(3) by (auto simp: list_all_iff)
  have valid: "valid_oid (fst p)" if "p \<in> set os" for p
    using assms(1,5) that by (auto simp: list_all_iff storable_def) (metis valid_from_bytes)
  have seg: "idx @ [NUL] @ seg \<in> S" if "encode_segment h h2 small = Inr (sid, seg, idx)" for sid seg idx
    using that assms(6) u(3) unfolding pieces_def by blast
  have "\<exists>t. (case small of [] \<Rightarrow> returnS () | [(oid, data)] \<Rightarrow> local_write_object h h2 js who oid data
      | _ \<Rightarrow> local_write_segment h h2 who small) u = (Inr (), t) \<and> leads S h h2 u t \<and> (\<forall>p \<in> set small. kept h h2 t (fst p))"
  proof (cases small)
    case Nil
    then show ?thesis using leads_refl [OF ok] by auto
  next
    case (Cons p more)
    show ?thesis
    proof (cases more)
      case Nil
      obtain x data where p: "p = (x, data)" by (cases p)
      have "(x, data) \<in> set os" using u(3) Cons p by simp
      then have "chunk_pieces data \<subseteq> S" using chunks by fastforce
      moreover have "from_bytes h data = x" using st Cons p by (simp add: storable_def)
      ultimately show ?thesis using write_object_ok [OF assms(1-3) ok, where js = js and who = who] Cons Nil p by auto
    next
      case more: (Cons p' more')
      show ?thesis
        using write_segment_ok [OF assms(1-3) ok st seg, where who = who] Cons more by (auto split: prod.splits)
    qed
  qed
  then obtain t where t: "local_write_objects h h2 js who os s = (Inr (), t)" "leads S h h2 u t"
      "\<forall>p \<in> set small. kept h h2 t (fst p)"
    using u(1) by (auto simp: local_write_objects_def bindS_def)
  have "\<forall>p \<in> set os. kept h h2 t (fst p)"
    using rest t(2,3) valid by (auto simp: leads_def more_kept_def)
  then show ?thesis using t(1) leads_trans [OF u(2) t(2)] by blast
qed


section \<open>Property\<close>

text \<open>C18: a directory that the backend wrote keeps what it is given. Writing a batch of objects, whether they end up
  as files, chunks or a segment, succeeds, and afterwards every object of the batch and every object that
  could be read before is read with the content its id names; the directory is again one the backend wrote.
  The hypothesis on digests is that no two of the pieces stored under a SHA-256 name have the same one.\<close>

theorem local_batch_kept:
  assumes "digest20 h" and "digested h2" and "inj_on h2 S" and "local_ok S h h2 s" and "list_all (storable h) os"
    and "pieces h h2 os \<subseteq> S"
  shows "\<exists>t. local_write_objects h h2 js who os s = (Inr (), t) \<and> local_ok S h h2 t \<and>
    (\<forall>x. valid_oid x \<longrightarrow> x \<in> fst ` set os \<or> ok (fst (local_read_object h h2 js x s)) \<longrightarrow>
       (\<exists>d. local_read_object h h2 js x t = (Inr d, t) \<and> from_bytes h d = x))"
proof -
  obtain t where t: "local_write_objects h h2 js who os s = (Inr (), t)" "leads S h h2 s t" "\<forall>p \<in> set os. kept h h2 t (fst p)"
    using write_objects_ok [OF assms, of js who] by blast
  have ok: "local_ok S h h2 t" using t(2) by (simp add: leads_def)
  have "\<exists>d. local_read_object h h2 js x t = (Inr d, t) \<and> from_bytes h d = x"
    if x: "valid_oid x" and was: "x \<in> fst ` set os \<or> ok (fst (local_read_object h h2 js x s))" for x
  proof -
    have "kept h h2 s x" if "ok (fst (local_read_object h h2 js x s))"
      using that local_read_spec [OF assms(1,2,4) x, of js] by (auto split: if_splits)
    then have "kept h h2 t x" using was t(2,3) x by (auto simp: leads_def more_kept_def)
    then show ?thesis using local_read_spec [OF assms(1,2) ok x, of js] by simp
  qed
  then show ?thesis using t(1) ok by blast
qed

definition sample_batch :: "(ObjectId \<times> bytes) list" where
  "sample_batch = map (\<lambda>c. (from_bytes sample_hash (sample_blob c), sample_blob c)) ''abc''"

theorem local_batch_kept_witness:
  "\<exists>t d. local_write_objects sample_hash (\<lambda>d. CHR ''#'' # d) (\<lambda>_. []) (1, 2) sample_batch local_init = (Inr (), t) \<and>
     local_read_object sample_hash (\<lambda>d. CHR ''#'' # d) (\<lambda>_. []) (from_bytes sample_hash (sample_blob CHR ''b'')) t = (Inr d, t) \<and>
     from_bytes sample_hash d = from_bytes sample_hash (sample_blob CHR ''b'')"
proof -
  let ?h2 = "\<lambda>d :: bytes. CHR ''#'' # d" and ?x = "from_bytes sample_hash (sample_blob CHR ''b'')"
  have h2: "digested ?h2" "inj_on ?h2 UNIV" by (simp_all add: digested_def inj_on_def)
  have "list_all (storable sample_hash) sample_batch"
    by (simp add: sample_batch_def storable_def sample_blob_git)
  then obtain t where t: "local_write_objects sample_hash ?h2 (\<lambda>_. []) (1, 2) sample_batch local_init = (Inr (), t)"
    "\<forall>x. valid_oid x \<longrightarrow> x \<in> fst ` set sample_batch \<or> ok (fst (local_read_object sample_hash ?h2 (\<lambda>_. []) x local_init)) \<longrightarrow>
       (\<exists>d. local_read_object sample_hash ?h2 (\<lambda>_. []) x t = (Inr d, t) \<and> from_bytes sample_hash d = x)"
    using local_batch_kept [OF digest20_sample h2 local_ok_init, of sample_batch "\<lambda>_. []" "(1, 2)"] by blast
  moreover have "?x \<in> fst ` set sample_batch" by (simp add: sample_batch_def)
  ultimately show ?thesis by (metis valid_from_bytes digest20_sample)
qed

end
