(* ===== verification/LocalRefs.thy ===== *)
theory LocalRefs
  imports LocalObjects
begin

text \<open>
  The references of a directory backend. \<open>local_cas_exact\<close>: a swap that runs alone succeeds exactly when the
  expected value is current, changes that one reference and no object. Two lemmas show where the
  operations do not compose: \<open>lock_by_spelling\<close>, the lock of a swap depends on how the name is spelled, and
  \<open>list_sees_temporary\<close>, a listing that runs between the two halves of a write sees the temporary file as a
  reference.
\<close>

section \<open>Files outside the objects\<close>

text \<open>The names at the root that belong to objects are \<^verbatim>\<open>objects\<close>, \<^verbatim>\<open>chunks\<close> and \<^verbatim>\<open>segments\<close>; references and their locks
  start with another letter.\<close>

definition outside :: "string \<Rightarrow> bool" where
  "outside p \<longleftrightarrow> p \<noteq> [] \<and> hd p \<notin> set ''ocs/''"

lemma outside_not_store: "outside p \<Longrightarrow> \<not> store_path p \<and> \<not> is_index p \<and> \<not> store_dir p"
  by (auto simp: outside_def store_path_def is_index_def store_dir_def startswith_iff local_object_path_def local_chunk_manifest_path_def
      local_chunk_path_def local_segment_path_def local_segment_index_path_def)

text \<open>States that differ outside the objects only.\<close>

definition same_objects :: "Local \<Rightarrow> Local \<Rightarrow> bool" where
  "same_objects s t \<longleftrightarrow> (\<forall>q. store_path q \<or> is_index q \<longrightarrow> fs_file q t = fs_file q s) \<and>
     (\<forall>d. store_dir d \<longrightarrow> fs_file d t = fs_file d s) \<and>
     (\<forall>d \<in> set (lf_dirs t). d \<in> set (lf_dirs s) \<or> outside d) \<and> set (lf_dirs s) \<subseteq> set (lf_dirs t)"

lemma same_objects_refl: "same_objects s s"
  by (simp add: same_objects_def)

lemma same_objects_trans: "same_objects s t \<Longrightarrow> same_objects t u \<Longrightarrow> same_objects s u"
  unfolding same_objects_def by (intro conjI; metis subset_trans)

lemma same_objects_ok:
  assumes "digested h2" and "same_objects s t" and "local_ok S h h2 s"
  shows "local_ok S h h2 t \<and> (\<forall>x. valid_oid x \<longrightarrow> kept h h2 t x = kept h h2 s x)"
proof
  have f: "store_path q \<or> is_index q \<Longrightarrow> fs_file q t = fs_file q s" for q
    using assms(2) unfolding same_objects_def by blast
  have dirs: "dirs_ok t"
  proof -
    have "fs_file d t = None" if "store_dir d" for d
      using that assms(2) local_ok_dirs [OF assms(3)] by (simp add: same_objects_def dirs_ok_def)
    moreover have "\<not> store_path d \<and> \<not> is_index d" if "d \<in> set (lf_dirs t)" for d
      using that assms(2) local_ok_dirs [OF assms(3)] outside_not_store [of d] by (auto simp: same_objects_def dirs_ok_def)
    moreover have "''segments'' \<in> set (lf_dirs t)" if "is_index p" "fs_file p t \<noteq> None" for p
      using that f [of p] assms(2) local_ok_dirs [OF assms(3)] by (auto simp: same_objects_def dirs_ok_def)
    ultimately show ?thesis by (simp add: dirs_ok_def)
  qed
  have man: "manifest_good S h h2 t x m = manifest_good S h h2 s x m" for x m
    using f assms(1) unfolding manifest_good_def chunks_there_def digested_def by (metis store_paths(3))
  have seg: "seg_good S h h2 t p = seg_good S h h2 s p" for p
    unfolding seg_good_def using f assms(1) encode_segment_id store_paths(4,5) unfolding digested_def by metis
  show "local_ok S h h2 t"
    using assms(3) dirs by (simp add: local_ok_def man seg f)
  have "in_segment h h2 t x = in_segment h h2 s x" for x
  proof -
    have "fs_file (tseg_path p) t = fs_file (tseg_path p) s" if p: "is_index p" "fs_file p s \<noteq> None" for p
    proof -
      obtain os sid seg idx where "encode_segment h h2 os = Inr (sid, seg, idx)" "p = local_segment_index_path sid"
        using assms(3) p unfolding local_ok_def seg_good_def by blast
      then have "store_path (tseg_path p)"
        using encode_segment_id assms(1) tseg_index by (metis digested_def hex_bytes_Nil store_paths(4))
      then show ?thesis using f by blast
    qed
    then show ?thesis unfolding in_segment_def using f by (metis option.distinct(1))
  qed
  then show "\<forall>x. valid_oid x \<longrightarrow> kept h h2 t x = kept h h2 s x" using f by (auto simp: kept_def)
qed


section \<open>Swapping\<close>

lemma strip_hex_line:
  assumes "list_all is_hex v"
  shows "strip_by is_space (v @ [CHR 0x0A]) = v"
proof -
  have sp: "is_space CHR 0x0A" by (simp add: is_space_def ordc_def)
  have ns: "\<not> is_space c" if "c \<in> set v" for c using that assms is_hex_ascii by (auto simp: list_all_iff)
  have "dropWhile is_space (v @ [CHR 0x0A]) = (if v = [] then [] else v @ [CHR 0x0A])" using sp ns by (cases v) auto
  moreover have "dropWhile is_space (rev v) = rev v" using ns by (cases "v = []") (simp_all add: dropWhile_eq_self_iff hd_rev)
  ultimately show ?thesis using sp by (simp add: strip_by_def lstrip_by_def rstrip_by_def)
qed

lemma ref_text_roundtrip:
  assumes "valid_oid x"
  shows "bindR (decode_strip (oid_value x @ [CHR 0x0A])) ref_of_text = Inr (Some x)"
proof -
  have v: "list_all is_hex (oid_value x)" "oid_value x \<noteq> []"
    using assms by (auto simp: valid_oid_def valid_oid_str_def)
  have "is_str (oid_value x @ [CHR 0x0A])"
    using v(1) is_hex_ascii by (intro is_str_ascii) (auto simp: list_all_iff ordc_def)
  then show ?thesis
    using v assms by (simp add: decode_strip_def decode_utf8_def ref_of_text_def strip_hex_line mk_ObjectId_value)
qed

lemma pure_path_canonical: "canonical_path p \<Longrightarrow> pure_path p = p"
proof -
  assume "canonical_path p"
  then have "filter (\<lambda>q. q \<noteq> [] \<and> q \<noteq> ''.'') (split_on SLASH p) = split_on SLASH p"
    by (intro filter_True) (auto simp: canonical_path_def clean_part_def)
  then show ?thesis by (simp add: pure_path_def)
qed

lemma ref_path_good: "good_ref n \<Longrightarrow> local_ref_path n = normalize_ref n"
  by (simp add: local_ref_path_def good_ref_def pure_path_canonical)

lemma outside_ref:
  assumes "good_ref n"
  shows "outside (normalize_ref n)" and "normalize_ref n \<noteq> []"
proof -
  show "normalize_ref n \<noteq> []" using assms by (auto simp: good_ref_def canonical_path_def)
  then show "outside (normalize_ref n)"
    using normalize_ref_prefix [of n] by (auto simp: outside_def startswith_iff)
qed

lemma lock_outside: "outside (local_lock_path h2 n)"
  by (simp add: outside_def local_lock_path_def)


lemma outside_parents: "outside p \<Longrightarrow> q \<in> set (parent_dirs p) \<Longrightarrow> outside q"
  by (cases p) (auto simp: outside_def parent_dirs_def nth_Cons' take_Cons' split: if_splits)

lemma hd_parent: "outside p \<Longrightarrow> q \<in> set (parent_dirs p) \<Longrightarrow> hd q = hd p"
  by (cases p) (auto simp: outside_def parent_dirs_def nth_Cons' take_Cons' split: if_splits)

lemma parent_not_self: "p \<notin> set (parent_dirs p)"
  by (auto simp: parent_dirs_def) (metis length_take min.absorb4 nat_less_le)

lemma temp_path_outside:
  assumes "outside p"
  shows "outside (temp_path who p)" and "temp_path who p \<noteq> p"
proof -
  obtain d n where "temp_path who p = d @ CHR ''.'' # n @ temp_suffix who" "p = d @ n" "d = [] \<or> hd d = hd p"
  proof (cases "rsplit1 [SLASH] p")
    case None
    then show thesis by (intro that [of "[]" p]) (simp_all add: temp_path_def temp_suffix_def Let_def)
  next
    case (Some dn)
    obtain d n where dn: "dn = (d, n)" by (cases dn)
    then have p: "p = d @ SLASH # n" using rsplit1_Some [of "[SLASH]" p d n] Some by simp
    then have "d \<noteq> []" using assms by (auto simp: outside_def)
    then show thesis using Some dn p
      by (intro that [of "d @ [SLASH]" n]) (simp_all add: temp_path_def temp_suffix_def Let_def)
  qed
  then show "outside (temp_path who p)" "temp_path who p \<noteq> p"
    using assms by (cases d; auto simp: outside_def temp_suffix_def)+
qed

text \<open>Writing a file that is not one of an object.\<close>

lemma write_outside:
  assumes "outside p" and "\<forall>q \<in> set (parent_dirs p). fs_file q s = None" and "p \<notin> set (lf_dirs s)"
  shows "\<exists>t. write_atomic who p d s = (Inr (), t) \<and> same_objects s t \<and> lf_dirs t = parent_dirs p @ lf_dirs s \<and>
    (\<forall>q. fs_file q t = (if q = p then Some d else if q = temp_path who p then None else fs_file q s))"
proof -
  have "p \<noteq> []" using assms(1) by (simp add: outside_def)
  from write_atomic_ok [OF assms(2,3) parent_not_self this temp_path_outside(2) [OF assms(1)], of who d]
  obtain t where t: "write_atomic who p d s = (Inr (), t)" "lf_dirs t = parent_dirs p @ lf_dirs s"
    and f: "\<forall>q. fs_file q t = (if q = p then Some d else if q = temp_path who p then None else fs_file q s)" by blast
  have "same_objects s t"
    unfolding same_objects_def t(2)
    using f outside_not_store [OF assms(1)] outside_not_store [OF temp_path_outside(1) [OF assms(1)], of who]
      outside_parents [OF assms(1)] by auto
  then show ?thesis using t f by blast
qed

lemma lock_ok:
  assumes "\<forall>q \<in> set (parent_dirs (local_lock_path h2 n)). fs_file q s = None"
    and "local_lock_path h2 n \<notin> set (lf_dirs s)"
  shows "\<exists>u. local_ref_lock h2 n s = (Inr (), u) \<and> same_objects s u \<and>
    lf_dirs u = parent_dirs (local_lock_path h2 n) @ lf_dirs s \<and>
    (\<forall>q. q \<noteq> local_lock_path h2 n \<longrightarrow> fs_file q u = fs_file q s)"
proof -
  let ?l = "local_lock_path h2 n"
  let ?s = "s\<lparr>lf_dirs := parent_dirs ?l @ lf_dirs s\<rparr>"
  have out: "outside ?l" by (rule lock_outside)
  have f: "fs_file q ?s = fs_file q s" for q by (simp add: fs_file_def)
  have par: "make_parents ?l s = (Inr (), ?s)" using assms(1) by (auto simp: make_parents_def list_ex_iff)
  have ne: "q \<noteq> ?l" if "store_path q \<or> is_index q \<or> store_dir q" for q using that outside_not_store [OF out] by auto
  have same: "same_objects s u" if u: "\<And>q. q \<noteq> ?l \<Longrightarrow> fs_file q u = fs_file q s" "lf_dirs u = parent_dirs ?l @ lf_dirs s" for u
    unfolding same_objects_def u(2) using u(1) ne outside_parents [OF out] by simp blast
  show ?thesis
  proof (cases "fs_file ?l s")
    case None
    have "\<not> fs_exists ?l ?s" using None assms(2) parent_not_self out by (auto simp: fs_exists_def f outside_def)
    then have "local_ref_lock h2 n s = (Inr (), fs_put ?l [] ?s)"
      using par None by (simp add: local_ref_lock_def bindS_def f)
    moreover have "lf_dirs (fs_put ?l [] ?s) = parent_dirs ?l @ lf_dirs s" by (simp add: fs_put_def)
    ultimately show ?thesis using same [of "fs_put ?l [] ?s"] f by auto
  next
    case (Some d)
    then have "local_ref_lock h2 n s = (Inr (), ?s)" using par by (simp add: local_ref_lock_def bindS_def f)
    then show ?thesis using same [of ?s] f by auto
  qed
qed


text \<open>No file stands where a swap needs a directory, and no directory where it needs a file.\<close>

definition ref_ready :: "hash \<Rightarrow> string \<Rightarrow> Local \<Rightarrow> bool" where
  "ref_ready h2 n s \<longleftrightarrow> list_all (\<lambda>q. fs_file q s = None) (parent_dirs (local_lock_path h2 n) @ parent_dirs (local_ref_path n)) \<and>
     local_lock_path h2 n \<notin> set (lf_dirs s) \<and> local_ref_path n \<notin> set (lf_dirs s)"

lemma local_ref_not_lock:
  assumes "good_ref m"
  shows "normalize_ref m \<noteq> local_lock_path h2 n" and "normalize_ref m \<notin> set (parent_dirs (local_lock_path h2 n))"
proof -
  have hd: "hd (normalize_ref m) \<noteq> CHR ''l''" using normalize_ref_prefix [of m] outside_ref(2) [OF assms] by (auto simp: startswith_iff)
  then show "normalize_ref m \<noteq> local_lock_path h2 n" by (auto simp: local_lock_path_def)
  have "hd q = CHR ''l''" if "q \<in> set (parent_dirs (local_lock_path h2 n))" for q
    using hd_parent [OF lock_outside that] by (simp add: local_lock_path_def)
  with hd show "normalize_ref m \<notin> set (parent_dirs (local_lock_path h2 n))" by auto
qed

lemma read_ref_file_at:
  "local_read_ref n s = (case fs_file (local_ref_path n) s of
     Some d \<Rightarrow> (bindR (decode_strip d) ref_of_text, s)
   | None \<Rightarrow> if local_ref_path n = [] \<or> local_ref_path n \<in> set (lf_dirs s) then (Inl (OSError ''Is a directory''), s) else (Inr None, s))"
  by (auto simp: local_read_ref_def read_ref_file_def bindS_def fs_read_def fs_exists_def split: option.splits)

lemma read_ref_same:
  assumes "fs_file (local_ref_path n) t = fs_file (local_ref_path n) s"
    and "local_ref_path n \<in> set (lf_dirs t) \<longleftrightarrow> local_ref_path n \<in> set (lf_dirs s)"
  shows "fst (local_read_ref n t) = fst (local_read_ref n s)"
  using assms by (simp add: read_ref_file_at split: option.splits)

lemma read_ref_state: "snd (local_read_ref n s) = s"
  by (simp add: read_ref_file_at split: option.splits)

lemma cas_parts:
  assumes "good_ref n" and "valid_oid new" and "fst (local_read_ref n s) = Inr cur" and "ref_ready h2 n s"
  obtains t where "local_cas_ref h2 who n e new s = (Inr (cur = e), t)" and "same_objects s t"
    and "fst (local_read_ref n t) = Inr (if cur = e then Some new else cur)"
    and "\<forall>q. q \<noteq> normalize_ref n \<longrightarrow> q \<noteq> temp_path who (normalize_ref n) \<longrightarrow> q \<noteq> local_lock_path h2 n \<longrightarrow> fs_file q t = fs_file q s"
    and "\<forall>q \<in> set (lf_dirs t). q \<in> set (lf_dirs s) \<or> q \<in> set (parent_dirs (local_lock_path h2 n)) \<or> q \<in> set (parent_dirs (normalize_ref n))"
proof -
  let ?p = "normalize_ref n" and ?l = "local_lock_path h2 n"
  have path: "local_ref_path n = ?p" by (rule ref_path_good [OF assms(1)])
  have out: "outside ?p" by (rule outside_ref(1) [OF assms(1)])
  obtain u where u: "local_ref_lock h2 n s = (Inr (), u)" "same_objects s u" "lf_dirs u = parent_dirs ?l @ lf_dirs s"
    and fu: "\<forall>q. q \<noteq> ?l \<longrightarrow> fs_file q u = fs_file q s"
    using lock_ok [of h2 n s] assms(4) by (auto simp: ref_ready_def list_all_iff)
  have "fst (local_read_ref n u) = Inr cur"
    using read_ref_same [of n u s] assms(3) path fu u(3) local_ref_not_lock [OF assms(1)] by simp
  then have cur: "local_read_ref n u = (Inr cur, u)" using read_ref_state [of n u] by (simp add: prod_eq_iff)
  show thesis
  proof (cases "cur = e")
    case False
    then have "local_cas_ref h2 who n e new s = (Inr (cur = e), u)"
      using u(1) cur by (simp add: local_cas_ref_def bindS_def)
    then show thesis using that [of u] u False fu cur by auto
  next
    case True
    have par: "\<forall>q \<in> set (parent_dirs ?p). fs_file q u = None"
    proof
      fix q assume q: "q \<in> set (parent_dirs ?p)"
      then have "fs_file q s = None" using assms(4) path by (auto simp: ref_ready_def list_all_iff)
      moreover have "q \<noteq> ?l"
        using hd_parent [OF out q] normalize_ref_prefix [of n] outside_ref(2) [OF assms(1)]
        by (auto simp: local_lock_path_def startswith_iff)
      ultimately show "fs_file q u = None" using fu by simp
    qed
    have "?p \<notin> set (lf_dirs u)"
      using assms(4) path u(3) local_ref_not_lock(2) [OF assms(1), of h2 n] by (simp add: ref_ready_def)
    from write_outside [OF out par this, of who "oid_value new @ [CHR 0x0A]"]
    obtain t where t: "write_atomic who ?p (oid_value new @ [CHR 0x0A]) u = (Inr (), t)" "same_objects u t"
      "lf_dirs t = parent_dirs ?p @ lf_dirs u"
      and ft: "\<forall>q. fs_file q t = (if q = ?p then Some (oid_value new @ [CHR 0x0A]) else if q = temp_path who ?p then None else fs_file q u)"
      by blast
    have "local_cas_ref h2 who n e new s = (Inr (cur = e), t)"
      using u(1) cur True t(1) path by (simp add: local_cas_ref_def bindS_def)
    moreover have "fst (local_read_ref n t) = Inr (Some new)"
      using ft path ref_text_roundtrip [OF assms(2)] by (simp add: read_ref_file_at)
    ultimately show thesis
      using True same_objects_trans [OF u(2) t(2)] ft fu t(3) u(3) by (intro that [of t]) auto
  qed
qed


section \<open>What the operations do not exclude\<close>

text \<open>The lock is named by the digest of the name as it was given. Two spellings of one branch take different
  locks and then read and write the same file.\<close>

lemma lock_by_spelling:
  assumes "inj_on h2 {''main'', ''refs/heads/main''}"
  shows "local_ref_path ''main'' = local_ref_path ''refs/heads/main'' \<and>
    local_lock_path h2 ''main'' \<noteq> local_lock_path h2 ''refs/heads/main''"
proof
  show "local_ref_path ''main'' = local_ref_path ''refs/heads/main''"
    by (simp add: local_ref_path_def normalize_ref_def)
  have "h2 ''main'' \<noteq> h2 ''refs/heads/main''" using inj_onD [OF assms, of "''main''" "''refs/heads/main''"] by auto
  then show "local_lock_path h2 ''main'' \<noteq> local_lock_path h2 ''refs/heads/main''" by (simp add: local_lock_path_def)
qed

text \<open>Between the write of the temporary file and its renaming, \<^verbatim>\<open>list_refs\<close> yields the temporary file.\<close>

lemma list_sees_temporary:
  "fst (local_list_refs [] (snd (write_temp (1, 2) ''refs/heads/main'' (oid_value (sample_oid CHR ''a'') @ [CHR 0x0A]) local_init))) =
   Inr [\<lparr>ref_name = ''refs/heads/.main.tmp.1.2'', ref_oid = Some (sample_oid CHR ''a'')\<rparr>]"
  by code_simp

section \<open>Property\<close>

text \<open>C19: a swap in a directory is a swap. When no other process interferes, \<^verbatim>\<open>cas_ref\<close> answers whether the expected
  value was the current one; the reference then reads as the new value, or as before when the
  answer is no; references under other names, apart from the two file names the write uses, read as
  before; and the objects of the directory are the same.\<close>

theorem local_cas_exact:
  assumes "good_ref n" and "valid_oid new" and "fst (local_read_ref n s) = Inr cur" and "ref_ready h2 n s"
    and "digest20 h" and "digested h2" and "local_ok S h h2 s"
  shows "\<exists>t. local_cas_ref h2 who n e new s = (Inr (cur = e), t) \<and>
    local_read_ref n t = (Inr (if cur = e then Some new else cur), t) \<and>
    (\<forall>m. good_ref m \<longrightarrow> normalize_ref m \<noteq> normalize_ref n \<longrightarrow> normalize_ref m \<noteq> temp_path who (normalize_ref n) \<longrightarrow>
       normalize_ref m \<notin> set (parent_dirs (normalize_ref n)) \<longrightarrow> fst (local_read_ref m t) = fst (local_read_ref m s)) \<and>
    local_ok S h h2 t \<and>
    (\<forall>x. valid_oid x \<longrightarrow> ok (fst (local_read_object h h2 js x t)) = ok (fst (local_read_object h h2 js x s)))"
proof -
  obtain t where t: "local_cas_ref h2 who n e new s = (Inr (cur = e), t)" "same_objects s t"
    "fst (local_read_ref n t) = Inr (if cur = e then Some new else cur)"
    and f: "\<forall>q. q \<noteq> normalize_ref n \<longrightarrow> q \<noteq> temp_path who (normalize_ref n) \<longrightarrow> q \<noteq> local_lock_path h2 n \<longrightarrow> fs_file q t = fs_file q s"
    and d: "\<forall>q \<in> set (lf_dirs t). q \<in> set (lf_dirs s) \<or> q \<in> set (parent_dirs (local_lock_path h2 n)) \<or> q \<in> set (parent_dirs (normalize_ref n))"
    by (rule cas_parts [OF assms(1-4), of who e])
  have "local_read_ref n t = (Inr (if cur = e then Some new else cur), t)"
    using t(3) read_ref_state [of n t] by (simp add: prod_eq_iff)
  moreover have "fst (local_read_ref m t) = fst (local_read_ref m s)"
    if m: "good_ref m" "normalize_ref m \<noteq> normalize_ref n" "normalize_ref m \<noteq> temp_path who (normalize_ref n)"
      "normalize_ref m \<notin> set (parent_dirs (normalize_ref n))" for m
    using f m(2,3) d t(2) local_ref_not_lock [OF m(1)] m(4) ref_path_good [OF m(1)]
    by (intro read_ref_same) (auto simp: same_objects_def)
  moreover have ok: "local_ok S h h2 t" and same: "\<And>x. valid_oid x \<Longrightarrow> kept h h2 t x = kept h h2 s x"
    using same_objects_ok [OF assms(6) t(2) assms(7)] by blast+
  moreover have "ok (fst (local_read_object h h2 js x t)) = ok (fst (local_read_object h h2 js x s))" if x: "valid_oid x" for x
    using local_read_spec [OF assms(5,6,7) x, of js] local_read_spec [OF assms(5,6) ok x, of js] same [OF x]
    by (auto split: if_splits)
  ultimately show ?thesis using t(1) by blast
qed

theorem local_cas_exact_witness:
  "\<exists>t. local_cas_ref (\<lambda>d. CHR ''#'' # d) (1, 2) ''main'' None (sample_oid CHR ''a'') local_init = (Inr True, t) \<and>
     local_read_ref ''refs/heads/main'' t = (Inr (Some (sample_oid CHR ''a'')), t)"
proof -
  let ?h2 = "\<lambda>d :: bytes. CHR ''#'' # d" and ?n = "''refs/heads/main''"
  have good: "good_ref ''main''" by code_simp
  have ready: "ref_ready ?h2 ''main'' local_init" by (simp add: ref_ready_def local_init_def fs_file_def list_all_iff)
  have cur: "fst (local_read_ref ''main'' local_init) = Inr None" by code_simp
  have h2: "digested ?h2" by (simp add: digested_def)
  have v: "valid_oid (sample_oid CHR ''a'')" by (rule valid_sample_oid) (simp add: is_hex_def is_digit_def ordc_def)
  obtain t where t: "local_cas_ref ?h2 (1, 2) ''main'' None (sample_oid CHR ''a'') local_init = (Inr (None = (None :: ObjectId option)), t)"
    "local_read_ref ''main'' t = (Inr (if None = (None :: ObjectId option) then Some (sample_oid CHR ''a'') else None), t)"
    using local_cas_exact [OF good v cur ready digest20_sample h2 local_ok_init [where S = UNIV], where e = None and who = "(1, 2)" and js = "\<lambda>_. []"]
    by blast
  have "local_ref_path ?n = local_ref_path ''main''" by (simp add: local_ref_path_def normalize_ref_def)
  then have "local_read_ref ?n = local_read_ref ''main''" unfolding local_read_ref_def by (simp only:)
  then show ?thesis using t by auto
qed

end
