(* ===== verification/Sftp.thy ===== *)
theory Sftp
  imports LocalDir Blobs
begin

text \<open>
  \<^verbatim>\<open>src/trunks/backends/sftp.py\<close>: the backend on files of an SFTP server, as programs of calls of the client library on
  an open connection; a reply is a result or the text of the exception raised. The root is the string
  of its path. \<open>steps\<close> bounds the number of directories a listing visits.

  A file is opened, which truncates it, and then written, in two calls. \<open>sftp_swap_exposes_gap\<close>: who reads a reference
  between the two finds none.
\<close>

section \<open>Calls\<close>

datatype sftp_call = Stat string | OpenRead string | ReadHandle string | MakeDirs string
  | OpenWrite string bool | WriteHandle string bytes | RemoveFile string | ReadDir string

datatype sftp_reply = SftpDone | SftpData bytes | SftpEntries "(string \<times> bool) list" | SftpError string

type_synonym 'a sftp_task = "(sftp_call, sftp_reply, 'a) task"

definition sftp_path :: "string \<Rightarrow> string \<Rightarrow> string" where
  "sftp_path root suffix =
    (let p = pure_path (strip_slashes suffix) in
     if p = [] then root else if root = ''.'' then p else if root = ''/'' then ''/'' @ p else root @ ''/'' @ p)"

definition sftp_object_path :: "string \<Rightarrow> ObjectId \<Rightarrow> string" where
  "sftp_object_path root oid = sftp_path root (''objects/'' @ take 2 (oid_value oid) @ ''/'' @ oid_value oid)"

definition sftp_relative :: "string \<Rightarrow> string \<Rightarrow> string" where
  "sftp_relative root path =
    (let r = rstrip_slashes root @ ''/'' in if startswith path r then drop (length r) path else path)"

text \<open>\<^verbatim>\<open>str(PurePosixPath(path).parent)\<close> of a path made by \<open>sftp_path\<close>\<close>

definition posix_parent :: "string \<Rightarrow> string" where
  "posix_parent path =
    (case rsplit1 [SLASH] path of None \<Rightarrow> ''.'' | Some (dir, _) \<Rightarrow> if dir = [] then ''/'' else dir)"

definition sftp_exists :: "string \<Rightarrow> bool sftp_task" where
  "sftp_exists path = Req (Stat path) (\<lambda>r. case r of SftpError _ \<Rightarrow> returnP False | _ \<Rightarrow> returnP True)"

text \<open>Every exception of the library is turned into \<^verbatim>\<open>BackendUnavailable\<close>.\<close>

definition sftp_step :: "sftp_call \<Rightarrow> sftp_reply sftp_task" where
  "sftp_step q = Req q (\<lambda>r. case r of SftpError msg \<Rightarrow> raiseP (BackendUnavailable msg) | _ \<Rightarrow> returnP r)"

definition sftp_read :: "string \<Rightarrow> bytes sftp_task" where
  "sftp_read path =
    bindP (sftp_step (OpenRead path)) (\<lambda>_.
    bindP (sftp_step (ReadHandle path)) (\<lambda>r.
    case r of SftpData d \<Rightarrow> returnP d | _ \<Rightarrow> unexpected))"

definition sftp_write :: "string \<Rightarrow> bytes \<Rightarrow> bool \<Rightarrow> unit sftp_task" where
  "sftp_write path data overwrite =
    bindP (sftp_step (MakeDirs (posix_parent path))) (\<lambda>_.
    bindP (sftp_step (OpenWrite path overwrite)) (\<lambda>_.
    bindP (sftp_step (WriteHandle path data)) (\<lambda>_. returnP ())))"

definition sftp_remove :: "string \<Rightarrow> unit sftp_task" where
  "sftp_remove path = Req (RemoveFile path) (\<lambda>_. returnP ())"

section \<open>Operations\<close>

definition sftp_read_object :: "string \<Rightarrow> ObjectId \<Rightarrow> bytes sftp_task" where
  "sftp_read_object root oid =
    catchP (sftp_read (sftp_object_path root oid))
      (\<lambda>e. if is_unavailable e then raiseP (ObjectNotFound (oid_value oid)) else raiseP e)"

definition sftp_write_object :: "hash \<Rightarrow> string \<Rightarrow> ObjectId \<Rightarrow> bytes \<Rightarrow> unit sftp_task" where
  "sftp_write_object h root oid data =
    (if from_bytes h data \<noteq> oid then raiseP (ValueError ''object id does not match object data'')
     else bindP (sftp_exists (sftp_object_path root oid)) (\<lambda>there.
       if there then returnP () else sftp_write (sftp_object_path root oid) data True))"

definition sftp_read_ref :: "string \<Rightarrow> string \<Rightarrow> ObjectId option sftp_task" where
  "sftp_read_ref root name =
    catchP (bindP (sftp_read (sftp_path root (normalize_ref name))) (\<lambda>data. liftP (bindR (decode_strip data) ref_of_text)))
      (\<lambda>e. if is_unavailable e then returnP None else raiseP e)"

definition quote_slashes :: "string \<Rightarrow> string" where
  "quote_slashes s = concat (map (\<lambda>c. if c = SLASH then ''%2F'' else [c]) s)"

definition sftp_lock_path :: "string \<Rightarrow> string \<Rightarrow> string" where
  "sftp_lock_path root n = sftp_path root (''locks/'' @ quote_slashes n @ ''.lock'')"

definition sftp_cas_ref :: "string \<Rightarrow> string \<Rightarrow> ObjectId option \<Rightarrow> ObjectId \<Rightarrow> bool sftp_task" where
  "sftp_cas_ref root name expected new =
    (let n = normalize_ref name; lock = sftp_lock_path root n in
     bindP (catchP (bindP (sftp_write lock (''lock'' @ [CHR 0x0A]) False) (\<lambda>_. returnP True))
       (\<lambda>e. if is_unavailable e then returnP False else raiseP e)) (\<lambda>locked.
     if \<not> locked then returnP False
     else finallyP
       (bindP (sftp_read_ref root n) (\<lambda>current.
        if current \<noteq> expected then returnP False
        else bindP (sftp_write (sftp_path root n) (oid_value new @ [CHR 0x0A]) True) (\<lambda>_. returnP True)))
       (sftp_remove lock)))"

definition sftp_delete_ref :: "string \<Rightarrow> string \<Rightarrow> unit sftp_task" where
  "sftp_delete_ref root name = sftp_remove (sftp_path root (normalize_ref name))"

definition sftp_delete_object :: "string \<Rightarrow> ObjectId \<Rightarrow> unit sftp_task" where
  "sftp_delete_object root oid = sftp_remove (sftp_object_path root oid)"

text \<open>\<^verbatim>\<open>_walk_files\<close>: the stack of directories to visit, its top first.\<close>

fun sftp_walk :: "nat \<Rightarrow> string list \<Rightarrow> string list sftp_task" where
  "sftp_walk steps [] = returnP []"
| "sftp_walk 0 (current # stack) = raiseP (RuntimeError ''too many directories'')"
| "sftp_walk (Suc steps) (current # stack) =
    Req (ReadDir current) (\<lambda>r.
    case r of
      SftpEntries es \<Rightarrow>
        (let children = map (\<lambda>(name, is_dir). (rstrip_slashes current @ ''/'' @ name, is_dir))
               (filter (\<lambda>(name, _). name \<notin> {''.'', ''..''}) es)
         in bindP (sftp_walk steps (rev (map fst (filter snd children)) @ stack)) (\<lambda>rest.
            returnP (map fst (filter (\<lambda>c. \<not> snd c) children) @ rest)))
    | SftpError msg \<Rightarrow> raiseP (RuntimeError msg)
    | _ \<Rightarrow> unexpected)"

definition sftp_walk_files :: "nat \<Rightarrow> string \<Rightarrow> string list sftp_task" where
  "sftp_walk_files steps root = bindP (sftp_exists root) (\<lambda>there. if there then sftp_walk steps [root] else returnP [])"

definition sftp_read_listed :: "string \<Rightarrow> string \<Rightarrow> Ref list sftp_task" where
  "sftp_read_listed root path =
    bindP (sftp_read path) (\<lambda>data.
    bindP (liftP (bindR (decode_strip data) ref_of_text)) (\<lambda>x.
    returnP (case x of None \<Rightarrow> [] | Some _ \<Rightarrow> [\<lparr>ref_name = sftp_relative root path, ref_oid = x\<rparr>])))"

definition sftp_list_refs :: "nat \<Rightarrow> string \<Rightarrow> string \<Rightarrow> Ref list sftp_task" where
  "sftp_list_refs steps root ref_prefix =
    (let normalized_prefix = (if ref_prefix \<noteq> [] then normalize_ref ref_prefix else ''refs/'') in
     bindP (sftp_walk_files steps (sftp_path root ''refs'')) (\<lambda>files.
     bindP (mapP (sftp_read_listed root) (filter (\<lambda>p. startswith (sftp_relative root p) normalized_prefix) (sort files))) (\<lambda>rs.
     returnP (concat rs))))"

definition sftp_append_journal :: "(json \<Rightarrow> string) \<Rightarrow> string \<Rightarrow> JournalEntry \<Rightarrow> unit sftp_task" where
  "sftp_append_journal orjson_dumps root entry =
    catchP (sftp_write (sftp_path root (''journals/'' @ je_id entry @ ''.txn'')) (journal_to_json orjson_dumps entry) False)
      (\<lambda>e. case e of BackendUnavailable msg \<Rightarrow> if contains ''exists'' (map lower_char msg) then returnP () else raiseP e
             | _ \<Rightarrow> raiseP e)"

definition sftp_read_config :: "string \<Rightarrow> json sftp_task" where
  "sftp_read_config root =
    catchP (bindP (sftp_read (sftp_path root ''config'')) (\<lambda>data. liftP (bindR (decode_utf8 data) loads)))
      (\<lambda>e. if is_unavailable e then raiseP (ObjectNotFound ''config'') else raiseP e)"

definition sftp_write_config :: "string \<Rightarrow> json \<Rightarrow> unit sftp_task" where
  "sftp_write_config root data = sftp_write (sftp_path root ''config'') (dumps spaced (sort_keys data)) True"

definition sftp_capabilities :: Capabilities where
  "sftp_capabilities = \<lparr>cap_cas_refs = True, cap_locks = True, cap_journal = True, cap_list_prefix = True,
     cap_read_after_write_refs = True\<rparr>"

definition sftp_backend :: "nat \<Rightarrow> hash \<Rightarrow> (json \<Rightarrow> string) \<Rightarrow> string \<Rightarrow> (sftp_call \<Rightarrow> 's \<Rightarrow> sftp_reply \<times> 's) \<Rightarrow> 's Backend" where
  "sftp_backend steps h orjson_dumps root serve = \<lparr>
     capabilities = sftp_capabilities,
     read_object = (\<lambda>oid. run_prog serve (sftp_read_object root oid)),
     write_object = (\<lambda>oid data. run_prog serve (sftp_write_object h root oid data)),
     write_objects = default_write_objects (\<lambda>oid data. run_prog serve (sftp_write_object h root oid data)),
     has_object = default_has_object (\<lambda>oid. run_prog serve (sftp_read_object root oid)),
     read_ref = (\<lambda>name. run_prog serve (sftp_read_ref root name)),
     cas_ref = (\<lambda>name expected new. run_prog serve (sftp_cas_ref root name expected new)),
     delete_ref = (\<lambda>name. run_prog serve (sftp_delete_ref root name)),
     delete_object = (\<lambda>oid. run_prog serve (sftp_delete_object root oid)),
     list_refs = (\<lambda>ref_prefix. run_prog serve (sftp_list_refs steps root ref_prefix)),
     append_journal = (\<lambda>entry. run_prog serve (sftp_append_journal orjson_dumps root entry)),
     read_config = run_prog serve (sftp_read_config root),
     write_config = (\<lambda>data. run_prog serve (sftp_write_config root data))\<rparr>"


section \<open>Reading while a reference is written\<close>

text \<open>A server that keeps files and does what it is asked.\<close>

fun plain_sftp :: "sftp_call \<Rightarrow> (string \<Rightarrow> bytes option) \<Rightarrow> sftp_reply \<times> (string \<Rightarrow> bytes option)" where
  "plain_sftp (Stat p) b = (if b p = None then SftpError ''No such file'' else SftpDone, b)"
| "plain_sftp (OpenRead p) b = (if b p = None then SftpError ''No such file'' else SftpDone, b)"
| "plain_sftp (ReadHandle p) b = ((case b p of None \<Rightarrow> SftpError ''No such file'' | Some d \<Rightarrow> SftpData d), b)"
| "plain_sftp (MakeDirs p) b = (SftpDone, b)"
| "plain_sftp (OpenWrite p overwrite) b =
    (if overwrite \<or> b p = None then (SftpDone, b(p \<mapsto> [])) else (SftpError ''File already exists'', b))"
| "plain_sftp (WriteHandle p d) b = (SftpDone, b(p \<mapsto> d))"
| "plain_sftp (RemoveFile p) b = (SftpDone, b(p := None))"
| "plain_sftp (ReadDir p) b = (SftpEntries [], b)"

text \<open>A swap that runs alone does what it should.\<close>

lemma sftp_cas_alone:
  assumes "b (sftp_lock_path root (normalize_ref n)) = None" and "sftp_path root (normalize_ref n) \<noteq> sftp_lock_path root (normalize_ref n)"
    and "fst (run_prog plain_sftp (sftp_read_ref root n) b) = Inr cur"
  shows "run_prog plain_sftp (sftp_cas_ref root n e new) b =
    (Inr (cur = e), if cur = e then b(sftp_path root (normalize_ref n) \<mapsto> oid_value new @ [CHR 0x0A]) else b)"
proof -
  let ?p = "sftp_path root (normalize_ref n)" and ?l = "sftp_lock_path root (normalize_ref n)"
  have "run_prog plain_sftp (sftp_read_ref root (normalize_ref n)) (b(?l \<mapsto> d)) = (Inr cur, b(?l \<mapsto> d))" for d
    using assms by (auto simp: sftp_read_ref_def sftp_read_def sftp_step_def catchS_def bindS_def unexpected_def is_unavailable_def split: option.splits sum.splits)
  then show ?thesis
    using assms(1,2)
    by (auto simp: sftp_cas_ref_def sftp_write_def sftp_step_def sftp_remove_def bindS_def catchS_def Let_def fun_upd_twist)
qed

text \<open>Between the two calls of the write a reader is told that the reference does not exist.\<close>

lemma sftp_swap_exposes_gap:
  "run_prog plain_sftp (sftp_read_ref root n) (snd (plain_sftp (OpenWrite (sftp_path root (normalize_ref n)) True) b)) =
    (Inr None, b(sftp_path root (normalize_ref n) \<mapsto> []))"
  by (simp add: sftp_read_ref_def sftp_read_def sftp_step_def catchS_def bindS_def decode_strip_def decode_utf8_def is_str_def
      ref_of_text_def strip_by_def lstrip_by_def rstrip_by_def)

end
