(* ===== verification/Repository.thy ===== *)
theory Repository
  imports Journal Refs Paths
begin

text \<open>
  \<^verbatim>\<open>src/trunks/repository.py\<close> (with \<^verbatim>\<open>src/trunks/index.py\<close>): the local repository. The SQLite file is
  the record of its tables, each a dictionary from its primary key, with the text columns as
  the code stores them; the working tree is the dictionary of its regular files and the list of
  its directories, by path relative to the root. A method that only reads is a function of the
  repository into a result; one that writes is a state-passing computation, where each
  \<^verbatim>\<open>with self._connect()\<close> block is one step that takes effect as a whole.

  The recursion limit of Python, which stops \<^verbatim>\<open>flatten_tree\<close> on a tree that contains itself, is
  the argument \<open>limit\<close>.
\<close>

section \<open>State\<close>

record IndexEntry =
  ie_path :: string
  ie_oid :: ObjectId
  ie_mode :: string

record PushTx =
  pt_source_ref :: string
  pt_expected :: "string option"
  pt_result :: string
  pt_objects :: string
  pt_status :: string

record Repo =
  r_meta :: "(string, string) dict"
  r_objects :: "(string, string \<times> bytes) dict"
  r_refs :: "(string, string) dict"
  r_backend_refs :: "(string, string) dict"
  r_index :: "(string, string \<times> string) dict"
  r_journals :: "(string, string \<times> string) dict"
  r_labels :: "(string \<times> string \<times> string) list"
  r_push :: "(string, PushTx) dict"
  r_stem :: string
  r_storages :: "(string, string \<times> string \<times> string) dict"
  r_files :: "(string, bytes) dict"
  r_dirs :: "string list"

record ChangedFile =
  cf_path :: string
  cf_data :: "bytes option"

section \<open>Metadata\<close>

definition repo_get_meta :: "string \<Rightarrow> string option \<Rightarrow> Repo \<Rightarrow> string option" where
  "repo_get_meta key dflt r = (case map_of (r_meta r) key of None \<Rightarrow> dflt | Some v \<Rightarrow> Some v)"

definition repo_set_meta :: "string \<Rightarrow> string \<Rightarrow> (Repo, unit) st" where
  "repo_set_meta key v = modifyS (r_meta_update (AList.update key v))"

definition repo_delete_meta :: "string \<Rightarrow> (Repo, unit) st" where
  "repo_delete_meta key = modifyS (r_meta_update (AList.delete key))"

definition repo_current_branch :: "Repo \<Rightarrow> string" where
  "repo_current_branch r =
    (case repo_get_meta ''current_branch'' (Some ''main'') r of
       None \<Rightarrow> ''main'' | Some b \<Rightarrow> if b = '''' then ''main'' else b)"

definition repo_set_current_branch :: "string \<Rightarrow> (Repo, unit) st" where
  "repo_set_current_branch branch = repo_set_meta ''current_branch'' branch"

definition repo_backend_url :: "Repo \<Rightarrow> string option" where
  "repo_backend_url r = repo_get_meta ''backend'' None r"

text \<open>\<^verbatim>\<open>_initialize\<close>, on the tables that \<^verbatim>\<open>_ensure_schema\<close> created or found.\<close>

definition repo_empty :: Repo where
  "repo_empty = \<lparr>r_meta = [], r_objects = [], r_refs = [], r_backend_refs = [], r_index = [],
     r_journals = [], r_labels = [], r_push = [], r_stem = ''repo'', r_storages = [], r_files = [], r_dirs = []\<rparr>"

definition repo_initialize :: "string \<Rightarrow> string option \<Rightarrow> string \<Rightarrow> (Repo, unit) st" where
  "repo_initialize name backend push_mode = modifyS (r_meta_update (\<lambda>m.
    let m1 = AList.update ''schema_version'' ''1'' m;
        m2 = setdefault ''current_branch'' ''main'' m1;
        m3 = AList.update ''repo_name'' name m2;
        m4 = AList.update ''push_mode'' push_mode m3
    in case backend of None \<Rightarrow> m4 | Some b \<Rightarrow> if b = '''' then m4 else AList.update ''backend'' b m4))"

section \<open>Objects\<close>

definition repo_put_object :: "hash \<Rightarrow> ObjectId \<Rightarrow> bytes \<Rightarrow> (Repo, unit) st" where
  "repo_put_object h oid data =
    (if from_bytes h data \<noteq> oid then raiseS (ValueError ''object id does not match object data'')
     else bindS (liftR (parse_canonical_object data)) (\<lambda>(kind, _).
       modifyS (r_objects_update (setdefault (oid_value oid) (kind, data)))))"

definition repo_object_data :: "ObjectId \<Rightarrow> Repo \<Rightarrow> bytes res" where
  "repo_object_data oid r =
    (case map_of (r_objects r) (oid_value oid) of
       None \<Rightarrow> Inl (ObjectNotFound (oid_value oid)) | Some (_, data) \<Rightarrow> Inr data)"

definition repo_object_kind :: "ObjectId \<Rightarrow> Repo \<Rightarrow> string res" where
  "repo_object_kind oid r =
    (case map_of (r_objects r) (oid_value oid) of
       None \<Rightarrow> Inl (ObjectNotFound (oid_value oid)) | Some (kind, _) \<Rightarrow> Inr kind)"

definition repo_payload :: "string \<Rightarrow> ObjectId \<Rightarrow> Repo \<Rightarrow> bytes res" where
  "repo_payload expected oid r =
    bindR (repo_object_data oid r) (\<lambda>data.
    bindR (parse_canonical_object data) (\<lambda>(kind, payload).
    if kind \<noteq> expected then Inl (ValueError (''expected '' @ expected @ '', got '' @ kind))
    else Inr payload))"

definition repo_blob_payload :: "ObjectId \<Rightarrow> Repo \<Rightarrow> bytes res" where
  "repo_blob_payload oid r = repo_payload ''blob'' oid r"

definition repo_tree :: "hash \<Rightarrow> ObjectId \<Rightarrow> Repo \<Rightarrow> Tree res" where
  "repo_tree h oid r = bindR (repo_payload ''tree'' oid r) (parse_tree_payload h)"

definition repo_load_commit :: "ObjectId \<Rightarrow> Repo \<Rightarrow> Commit res" where
  "repo_load_commit oid r = bindR (repo_payload ''commit'' oid r) (\<lambda>p. parse_commit_payload p oid)"

definition repo_stage_blob :: "hash \<Rightarrow> bytes \<Rightarrow> (Repo, ObjectId) st" where
  "repo_stage_blob h data =
    (let canonical = canonical_object ''blob'' data; oid = from_bytes h canonical
     in bindS (modifyS (r_objects_update (setdefault (oid_value oid) (''blob'', canonical)))) (\<lambda>_. returnS oid))"

definition repo_all_objects :: "Repo \<Rightarrow> (ObjectId \<times> bytes) list res" where
  "repo_all_objects r =
    mapR (\<lambda>(oid, kind, data). bindR (mk_ObjectId oid) (\<lambda>x. Inr (x, data))) (sort_key fst (r_objects r))"

section \<open>References\<close>

definition repo_ref :: "string \<Rightarrow> Repo \<Rightarrow> ObjectId option res" where
  "repo_ref name r =
    (case map_of (r_refs r) (normalize_ref name) of
       None \<Rightarrow> Inr None | Some v \<Rightarrow> bindR (mk_ObjectId v) (\<lambda>x. Inr (Some x)))"

definition repo_set_ref :: "string \<Rightarrow> ObjectId \<Rightarrow> (Repo, unit) st" where
  "repo_set_ref name oid = modifyS (r_refs_update (AList.update (normalize_ref name) (oid_value oid)))"

definition repo_cas_ref :: "string \<Rightarrow> ObjectId option \<Rightarrow> ObjectId \<Rightarrow> (Repo, bool) st" where
  "repo_cas_ref name expected new = (\<lambda>r.
    case repo_ref name r of
      Inl e \<Rightarrow> (Inl e, r)
    | Inr current \<Rightarrow>
      if current \<noteq> expected then (Inr False, r)
      else (Inr True, r_refs_update (AList.update (normalize_ref name) (oid_value new)) r))"

definition repo_delete_ref :: "string \<Rightarrow> (Repo, unit) st" where
  "repo_delete_ref name = modifyS (r_refs_update (AList.delete (normalize_ref name)))"

definition repo_raw_refs :: "Repo \<Rightarrow> (string \<times> string) list" where
  "repo_raw_refs r = sort_key fst (r_refs r)"

definition repo_list_refs :: "Repo \<Rightarrow> (string \<times> ObjectId) list res" where
  "repo_list_refs r = mapR (\<lambda>(name, raw_oid). bindR (mk_ObjectId raw_oid) (\<lambda>x. Inr (name, x))) (repo_raw_refs r)"

definition repo_backend_ref :: "string \<Rightarrow> Repo \<Rightarrow> ObjectId option res" where
  "repo_backend_ref name r =
    (case map_of (r_backend_refs r) (normalize_ref name) of
       None \<Rightarrow> Inr None | Some v \<Rightarrow> bindR (mk_ObjectId v) (\<lambda>x. Inr (Some x)))"

definition repo_set_backend_ref :: "string \<Rightarrow> ObjectId \<Rightarrow> (Repo, unit) st" where
  "repo_set_backend_ref name oid =
    modifyS (r_backend_refs_update (AList.update (normalize_ref name) (oid_value oid)))"

section \<open>Journal and push transactions\<close>

definition repo_append_journal :: "(json \<Rightarrow> string) \<Rightarrow> JournalEntry \<Rightarrow> (Repo, unit) st" where
  "repo_append_journal orjson_dumps entry =
    modifyS (r_journals_update (setdefault (je_id entry) (je_kind entry, journal_to_json orjson_dumps entry)))"

text \<open>The upsert changes nothing but the status of a transaction that is already there.\<close>

definition repo_record_push_transaction ::
  "string \<Rightarrow> string \<Rightarrow> ObjectId option \<Rightarrow> ObjectId \<Rightarrow> ObjectId list \<Rightarrow> string \<Rightarrow> (Repo, unit) st" where
  "repo_record_push_transaction tx_id source_ref expected_remote_ref result_ref object_ids status =
    modifyS (r_push_update (\<lambda>t.
      case map_of t tx_id of
        Some tx \<Rightarrow> AList.update tx_id (tx\<lparr>pt_status := status\<rparr>) t
      | None \<Rightarrow> AList.update tx_id
          \<lparr>pt_source_ref = normalize_ref source_ref,
           pt_expected = map_option oid_value expected_remote_ref,
           pt_result = oid_value result_ref,
           pt_objects = dumps spaced (JList (map (\<lambda>x. JStr (oid_value x)) object_ids)),
           pt_status = status\<rparr> t))"

section \<open>Paths and the index\<close>

definition repo_normalize_trackable_path :: "string \<Rightarrow> string res" where
  "repo_normalize_trackable_path path =
    bindR (normalize_path path) (\<lambda>normalized.
    if is_internal_path normalized
    then Inl (InvalidPath (''internal Trunks/Git path is not trackable: '' @ path))
    else Inr normalized)"

definition repo_validate_index_entry :: "IndexEntry \<Rightarrow> IndexEntry res" where
  "repo_validate_index_entry entry =
    bindR (repo_normalize_trackable_path (ie_path entry)) (\<lambda>normalized.
    if normalized \<noteq> replace_char BSLASH SLASH (ie_path entry) then Inl (InvalidPath (ie_path entry))
    else Inr (entry\<lparr>ie_path := normalized\<rparr>))"

definition repo_validate_tree_path :: "string \<Rightarrow> string res" where
  "repo_validate_tree_path path =
    (if BSLASH \<in> set path then Inl (InvalidPath path)
     else bindR (repo_normalize_trackable_path path) (\<lambda>normalized.
       if normalized \<noteq> path then Inl (InvalidPath path) else Inr normalized))"

definition repo_index_entries :: "Repo \<Rightarrow> IndexEntry list res" where
  "repo_index_entries r =
    mapR (\<lambda>(path, oid, mode).
      bindR (mk_ObjectId oid) (\<lambda>x.
      repo_validate_index_entry \<lparr>ie_path = path, ie_oid = x, ie_mode = mode\<rparr>))
    (sort_key fst (r_index r))"

definition repo_set_file_object :: "string \<Rightarrow> ObjectId \<Rightarrow> string \<Rightarrow> (Repo, unit) st" where
  "repo_set_file_object path oid mode =
    bindS (liftR (repo_normalize_trackable_path path)) (\<lambda>normalized.
    modifyS (r_index_update (AList.update normalized (oid_value oid, mode))))"

definition repo_write_file :: "hash \<Rightarrow> string \<Rightarrow> bytes \<Rightarrow> (Repo, unit) st" where
  "repo_write_file h path data =
    bindS (liftR (repo_normalize_trackable_path path)) (\<lambda>normalized.
    let canonical = canonical_object ''blob'' data; oid = from_bytes h canonical
    in modifyS (\<lambda>r. r\<lparr>r_objects := setdefault (oid_value oid) (''blob'', canonical) (r_objects r),
                      r_index := AList.update normalized (oid_value oid, ''100644'') (r_index r)\<rparr>))"

text \<open>The loop of \<^verbatim>\<open>resolve_path\<close> from the tree \<open>current\<close> on.\<close>

fun resolve_parts :: "hash \<Rightarrow> Tree \<Rightarrow> string list \<Rightarrow> Repo \<Rightarrow> ObjectId option res" where
  "resolve_parts h current [] r = Inr None"
| "resolve_parts h current (part # parts) r =
    (case find (\<lambda>e. te_name e = part) (tree_entries current) of
       None \<Rightarrow> Inr None
     | Some entry \<Rightarrow>
       if parts = [] then Inr (Some (te_oid entry))
       else bindR (repo_tree h (te_oid entry) r) (\<lambda>next. resolve_parts h next parts r))"

definition repo_resolve_path :: "hash \<Rightarrow> ObjectId \<Rightarrow> string \<Rightarrow> Repo \<Rightarrow> ObjectId option res" where
  "repo_resolve_path h tree_oid path r =
    bindR (repo_normalize_trackable_path path) (\<lambda>normalized.
    bindR (repo_tree h tree_oid r) (\<lambda>current.
    resolve_parts h current (split_on SLASH normalized) r))"

definition repo_read_file :: "hash \<Rightarrow> string option \<Rightarrow> string \<Rightarrow> Repo \<Rightarrow> bytes res" where
  "repo_read_file h branch path r =
    bindR (repo_normalize_trackable_path path) (\<lambda>normalized.
    case map_of (r_index r) normalized of
      Some (oid, mode) \<Rightarrow> bindR (mk_ObjectId oid) (\<lambda>x. repo_blob_payload x r)
    | None \<Rightarrow>
      bindR (repo_ref (case branch of None \<Rightarrow> repo_current_branch r
                       | Some b \<Rightarrow> if b = '''' then repo_current_branch r else b) r) (\<lambda>head.
      case head of
        None \<Rightarrow> Inl (ObjectNotFound normalized)
      | Some c \<Rightarrow>
        bindR (repo_load_commit c r) (\<lambda>commit.
        bindR (repo_resolve_path h (c_tree commit) normalized r) (\<lambda>oid.
        case oid of None \<Rightarrow> Inl (ObjectNotFound normalized) | Some x \<Rightarrow> repo_blob_payload x r))))"

definition repo_delete_file :: "string \<Rightarrow> (Repo, unit) st" where
  "repo_delete_file path =
    bindS (liftR (repo_normalize_trackable_path path)) (\<lambda>normalized.
    modifyS (r_index_update (AList.delete normalized)))"

definition repo_copy_file :: "hash \<Rightarrow> string option \<Rightarrow> string \<Rightarrow> string \<Rightarrow> (Repo, unit) st" where
  "repo_copy_file h branch source dest =
    bindS (getsS (repo_read_file h branch source)) (\<lambda>data. repo_write_file h dest data)"

definition repo_move_file :: "hash \<Rightarrow> string option \<Rightarrow> string \<Rightarrow> string \<Rightarrow> (Repo, unit) st" where
  "repo_move_file h branch source dest =
    bindS (repo_copy_file h branch source dest) (\<lambda>_. repo_delete_file source)"

definition repo_make_dir :: "string \<Rightarrow> unit res" where
  "repo_make_dir path =
    (if path \<notin> {'''', ''.'', ''/''} then bindR (repo_normalize_trackable_path path) (\<lambda>_. Inr ()) else Inr ())"

section \<open>Trees\<close>

text \<open>The nested dictionary of \<^verbatim>\<open>build_tree\<close>: a value is an index entry or a dictionary.\<close>

datatype node = Leaf IndexEntry | Dir "(string \<times> node) list"

text \<open>Walking down with \<^verbatim>\<open>setdefault\<close> and assigning the last part. A file in the way ends the walk: an
  index entry has no \<^verbatim>\<open>setdefault\<close> and no item assignment.\<close>

fun insert_node :: "string list \<Rightarrow> IndexEntry \<Rightarrow> (string \<times> node) list \<Rightarrow> (string \<times> node) list res" where
  "insert_node [] e d = Inl IndexError"
| "insert_node [p] e d = Inr (AList.update p (Leaf e) d)"
| "insert_node (p # q # ps) e d =
    (case map_of d p of
       None \<Rightarrow> bindR (insert_node (q # ps) e []) (\<lambda>c. Inr (AList.update p (Dir c) d))
     | Some (Dir c) \<Rightarrow> bindR (insert_node (q # ps) e c) (\<lambda>c'. Inr (AList.update p (Dir c') d))
     | Some (Leaf _) \<Rightarrow>
       Inl (if ps = [] then TypeError ''IndexEntry does not support item assignment''
            else AttributeError ''IndexEntry has no attribute setdefault''))"

definition nest_entries :: "IndexEntry list \<Rightarrow> (string \<times> node) list res" where
  "nest_entries entries =
    foldR (\<lambda>nested entry.
      bindR (repo_validate_index_entry entry) (\<lambda>e.
      insert_node (split_on SLASH (ie_path e)) e nested)) [] entries"

lemma size_node_pair: "(n, v) \<in> set kvs \<Longrightarrow> size v < size (Dir kvs)"
  by (induction kvs) auto

function write_tree_node :: "hash \<Rightarrow> (string \<times> node) list \<Rightarrow> Repo \<Rightarrow> Tree res \<times> Repo" where
  "write_tree_node h kvs r =
    bindS (mapS (\<lambda>kv r'. case kv of (name, value) \<Rightarrow>
        (case value of
           Leaf e \<Rightarrow> (Inr \<lparr>te_mode = ie_mode e, te_name = name, te_oid = ie_oid e\<rparr>, r')
         | Dir c \<Rightarrow> bindS (write_tree_node h c) (\<lambda>child.
             returnS \<lparr>te_mode = ''40000'', te_name = name, te_oid = tree_id child\<rparr>) r'))
      (sort_key fst kvs)) (\<lambda>entries.
    let tree = tree_from_entries h entries
    in bindS (repo_put_object h (tree_id tree) (tree_canonical tree)) (\<lambda>_. returnS tree)) r"
  by pat_completeness auto
termination
  by (relation "measure (\<lambda>(h, kvs, r). size (Dir kvs))") (use size_node_pair in \<open>fastforce+\<close>)

definition repo_build_tree :: "hash \<Rightarrow> IndexEntry list \<Rightarrow> (Repo, Tree) st" where
  "repo_build_tree h entries = bindS (liftR (nest_entries entries)) (\<lambda>nested. write_tree_node h nested)"

text \<open>\<^verbatim>\<open>flatten_tree\<close>: \<open>limit\<close> is how many more calls Python's stack takes.\<close>

fun repo_flatten_tree :: "hash \<Rightarrow> nat \<Rightarrow> ObjectId \<Rightarrow> string \<Rightarrow> Repo \<Rightarrow> IndexEntry list res" where
  "repo_flatten_tree h 0 tree_oid prefix r = Inl (RuntimeError ''maximum recursion depth exceeded'')"
| "repo_flatten_tree h (Suc limit) tree_oid prefix r =
    bindR (repo_tree h tree_oid r) (\<lambda>tree.
    foldR (\<lambda>results entry.
      if SLASH \<in> set (te_name entry) \<or> BSLASH \<in> set (te_name entry) then Inl (InvalidPath (te_name entry))
      else
        bindR (repo_validate_tree_path (if prefix \<noteq> '''' then prefix @ ''/'' @ te_name entry else te_name entry)) (\<lambda>path.
        if te_mode entry = ''40000''
        then bindR (repo_flatten_tree h limit (te_oid entry) path r) (\<lambda>sub. Inr (results @ sub))
        else Inr (results @ [\<lparr>ie_path = path, ie_oid = te_oid entry, ie_mode = te_mode entry\<rparr>])))
    [] (tree_entries tree))"

section \<open>Listing\<close>

definition repo_entries_for_listing :: "hash \<Rightarrow> nat \<Rightarrow> string option \<Rightarrow> Repo \<Rightarrow> IndexEntry list res" where
  "repo_entries_for_listing h limit branch r =
    (case branch of
       None \<Rightarrow> repo_index_entries r
     | Some b \<Rightarrow>
       if b = repo_current_branch r then repo_index_entries r
       else bindR (repo_ref b r) (\<lambda>head.
         case head of
           None \<Rightarrow> Inl (ObjectNotFound b)
         | Some c \<Rightarrow> bindR (repo_load_commit c r) (\<lambda>commit. repo_flatten_tree h limit (c_tree commit) '''' r)))"

definition listing_path :: "string \<Rightarrow> string res" where
  "listing_path path = (if path \<in> {'''', ''.'', ''/''} then Inr '''' else repo_normalize_trackable_path path)"

definition list_children :: "string \<Rightarrow> IndexEntry list \<Rightarrow> string list" where
  "list_children normalized entries =
    (let prefix = (if normalized \<noteq> '''' then normalized @ ''/'' else '''');
         inside = filter (\<lambda>e. \<not> (normalized \<noteq> '''' \<and> ie_path e = normalized) \<and>
                              \<not> (prefix \<noteq> '''' \<and> \<not> startswith (ie_path e) prefix)) entries;
         rests = filter (\<lambda>s. s \<noteq> '''') (map (\<lambda>e. drop (length prefix) (ie_path e)) inside)
     in sort (remdups (map (\<lambda>rest. takeWhile (\<lambda>c. c \<noteq> SLASH) rest) rests)))"

definition repo_list_dir :: "hash \<Rightarrow> nat \<Rightarrow> string option \<Rightarrow> string \<Rightarrow> Repo \<Rightarrow> string list res" where
  "repo_list_dir h limit branch path r =
    bindR (listing_path path) (\<lambda>normalized.
    bindR (repo_entries_for_listing h limit branch r) (\<lambda>entries.
    Inr (list_children normalized entries)))"

definition repo_exists :: "hash \<Rightarrow> nat \<Rightarrow> string option \<Rightarrow> string \<Rightarrow> Repo \<Rightarrow> bool res" where
  "repo_exists h limit branch path r =
    bindR (listing_path path) (\<lambda>normalized.
    if normalized = '''' then Inr True
    else bindR (repo_entries_for_listing h limit branch r) (\<lambda>entries.
      Inr (list_ex (\<lambda>e. ie_path e = normalized \<or> startswith (ie_path e) (normalized @ ''/'')) entries)))"

section \<open>Commits\<close>

definition repo_insert_labels :: "ObjectId \<Rightarrow> (string, string) dict \<Rightarrow> (Repo, unit) st" where
  "repo_insert_labels oid labels =
    modifyS (r_labels_update (\<lambda>t. t @ map (\<lambda>(k, v). (oid_value oid, k, v)) labels))"

text \<open>\<^verbatim>\<open>create_commit_from_entries\<close>; \<open>ident\<close> is what \<^verbatim>\<open>git_identity()\<close> reads from the environment, the Git
  configuration and the clock. \<^verbatim>\<open>None\<close> for the labels is the empty dictionary.\<close>

definition repo_create_commit_from_entries ::
  "hash \<Rightarrow> Identity \<Rightarrow> IndexEntry list \<Rightarrow> string \<Rightarrow> string \<Rightarrow> Identity option \<Rightarrow> Identity option \<Rightarrow>
   (string, string) dict \<Rightarrow> (Repo, Commit) st" where
  "repo_create_commit_from_entries h ident entries message branch author committer labels =
    (let author' = (case author of None \<Rightarrow> ident | Some a \<Rightarrow> a);
         committer' = (case committer of None \<Rightarrow> author' | Some c \<Rightarrow> c)
     in bindS (repo_build_tree h entries) (\<lambda>tree.
        bindS (getsS (repo_ref branch)) (\<lambda>parent.
        let parents = (case parent of None \<Rightarrow> [] | Some p \<Rightarrow> [p]);
            commit = commit_create h (tree_id tree) parents author' committer' message
        in bindS (repo_put_object h (c_id commit) (commit_canonical commit)) (\<lambda>_.
           bindS (repo_set_ref branch (c_id commit)) (\<lambda>_.
           bindS (if labels \<noteq> [] then repo_insert_labels (c_id commit) labels else returnS ()) (\<lambda>_.
           returnS commit))))))"

definition repo_create_commit ::
  "hash \<Rightarrow> Identity \<Rightarrow> string \<Rightarrow> Identity option \<Rightarrow> Identity option \<Rightarrow> string option \<Rightarrow>
   (string, string) dict \<Rightarrow> (Repo, Commit) st" where
  "repo_create_commit h ident message author committer branch labels = (\<lambda>r.
    let branch' = (case branch of None \<Rightarrow> repo_current_branch r | Some b \<Rightarrow> if b = '''' then repo_current_branch r else b)
    in bindS (getsS repo_index_entries) (\<lambda>entries.
       repo_create_commit_from_entries h ident entries message branch' author committer labels) r)"

section \<open>The working tree\<close>

definition is_dir :: "string \<Rightarrow> Repo \<Rightarrow> bool" where
  "is_dir p r \<longleftrightarrow> p = '''' \<or> p \<in> set (r_dirs r)"

definition is_file :: "string \<Rightarrow> Repo \<Rightarrow> bool" where
  "is_file p r \<longleftrightarrow> p \<in> fst ` set (r_files r)"

text \<open>The directories above a path, outermost first.\<close>

definition parent_dirs :: "string \<Rightarrow> string list" where
  "parent_dirs p = (let parts = split_on SLASH p in map (\<lambda>i. join ''/'' (take i parts)) [1..<length parts])"

text \<open>\<^verbatim>\<open>path.parent.mkdir(parents=True, exist_ok=True)\<close>: directories created before a failure stay.\<close>

definition mkdir_one :: "string \<Rightarrow> (Repo, unit) st" where
  "mkdir_one p = (\<lambda>r. if is_file p r then (Inl (OSError (''File exists: '' @ p)), r)
     else if is_dir p r then (Inr (), r) else (Inr (), r\<lparr>r_dirs := r_dirs r @ [p]\<rparr>))"

definition write_bytes :: "string \<Rightarrow> bytes \<Rightarrow> (Repo, unit) st" where
  "write_bytes p data = (\<lambda>r.
    if is_dir p r then (Inl (OSError (''Is a directory: '' @ p)), r)
    else (Inr (), r_files_update (AList.update p data) r))"

text \<open>\<^verbatim>\<open>_safe_worktree_file_path\<close>; without symbolic links \<^verbatim>\<open>resolve\<close> is the identity on canonical paths.\<close>

definition repo_safe_worktree_file_path :: "string \<Rightarrow> string res" where
  "repo_safe_worktree_file_path path = repo_normalize_trackable_path path"

definition unlink_untracked :: "(string, IndexEntry) dict \<Rightarrow> IndexEntry \<Rightarrow> (Repo, unit) st" where
  "unlink_untracked target_entries entry =
    (if map_of target_entries (ie_path entry) \<noteq> None then returnS ()
     else bindS (liftR (repo_safe_worktree_file_path (ie_path entry))) (\<lambda>path r.
       if is_file path r then (Inr (), r_files_update (AList.delete path) r) else (Inr (), r)))"

definition write_target :: "IndexEntry \<Rightarrow> (Repo, unit) st" where
  "write_target entry =
    bindS (liftR (repo_safe_worktree_file_path (ie_path entry))) (\<lambda>path.
    bindS (iterS mkdir_one (parent_dirs path)) (\<lambda>_.
    bindS (getsS (repo_blob_payload (ie_oid entry))) (\<lambda>data.
    write_bytes path data)))"

definition entry_dict :: "IndexEntry list \<Rightarrow> (string, IndexEntry) dict" where
  "entry_dict entries = foldl (\<lambda>d e. AList.update (ie_path e) e d) [] entries"

definition repo_checkout_tree :: "hash \<Rightarrow> nat \<Rightarrow> ObjectId \<Rightarrow> IndexEntry list option \<Rightarrow> (Repo, unit) st" where
  "repo_checkout_tree h limit commit_oid previous_entries =
    bindS (getsS (\<lambda>r. bindR (repo_load_commit commit_oid r) (\<lambda>commit.
                      repo_flatten_tree h limit (c_tree commit) '''' r))) (\<lambda>flat.
    let target_entries = entry_dict flat
    in bindS (case previous_entries of Some es \<Rightarrow> returnS es | None \<Rightarrow> getsS repo_index_entries) (\<lambda>tracked.
       bindS (iterS (unlink_untracked target_entries) tracked) (\<lambda>_.
       iterS write_target (map snd target_entries))))"

definition repo_reset_index_to_commit :: "hash \<Rightarrow> nat \<Rightarrow> ObjectId \<Rightarrow> (Repo, unit) st" where
  "repo_reset_index_to_commit h limit commit_oid =
    bindS (getsS (\<lambda>r. bindR (repo_load_commit commit_oid r) (\<lambda>commit.
                      repo_flatten_tree h limit (c_tree commit) '''' r))) (\<lambda>entries.
    if distinct (map ie_path entries)
    then modifyS (r_index_update (\<lambda>_. map (\<lambda>e. (ie_path e, oid_value (ie_oid e), ie_mode e)) entries))
    else raiseS (IntegrityError ''UNIQUE constraint failed: index_entries.path''))"

definition repo_checkout :: "hash \<Rightarrow> nat \<Rightarrow> string \<Rightarrow> (Repo, unit) st" where
  "repo_checkout h limit branch =
    bindS (getsS (repo_ref branch)) (\<lambda>oid.
    case oid of
      None \<Rightarrow> raiseS (RefConflict (''unknown branch: '' @ branch))
    | Some x \<Rightarrow>
      bindS (getsS repo_index_entries) (\<lambda>old_entries.
      bindS (repo_set_current_branch (branch_name (normalize_ref branch))) (\<lambda>_.
      bindS (repo_reset_index_to_commit h limit x) (\<lambda>_.
      repo_checkout_tree h limit x (Some old_entries)))))"

text \<open>\<^verbatim>\<open>create_branch\<close>; the start is an id, a name or absent.\<close>

datatype branch_start = StartOid ObjectId | StartName string | NoStart

definition repo_create_branch :: "hash \<Rightarrow> nat \<Rightarrow> string \<Rightarrow> branch_start \<Rightarrow> bool \<Rightarrow> (Repo, unit) st" where
  "repo_create_branch h limit name start switch =
    bindS (getsS (\<lambda>r. case start of
        StartOid x \<Rightarrow> Inr (Some x)
      | StartName n \<Rightarrow> if n \<noteq> '''' then repo_ref n r else repo_ref (repo_current_branch r) r
      | NoStart \<Rightarrow> repo_ref (repo_current_branch r) r)) (\<lambda>oid.
    case oid of
      None \<Rightarrow> raiseS (RefConflict ''cannot create branch before first commit'')
    | Some x \<Rightarrow> bindS (repo_set_ref name x) (\<lambda>_. if switch then repo_checkout h limit name else returnS ()))"

section \<open>Sessions\<close>

definition repo_files_for_commit :: "hash \<Rightarrow> nat \<Rightarrow> ObjectId option \<Rightarrow> Repo \<Rightarrow> ChangedFile list res" where
  "repo_files_for_commit h limit commit_oid r =
    (case commit_oid of
       None \<Rightarrow> Inr []
     | Some c \<Rightarrow>
       bindR (repo_load_commit c r) (\<lambda>commit.
       bindR (repo_flatten_tree h limit (c_tree commit) '''' r) (\<lambda>entries.
       mapR (\<lambda>e. bindR (repo_blob_payload (ie_oid e) r) (\<lambda>d. Inr \<lparr>cf_path = ie_path e, cf_data = Some d\<rparr>)) entries)))"

definition repo_files_for_branch :: "hash \<Rightarrow> nat \<Rightarrow> string \<Rightarrow> Repo \<Rightarrow> ChangedFile list res" where
  "repo_files_for_branch h limit branch r =
    bindR (repo_ref branch r) (\<lambda>c. repo_files_for_commit h limit c r)"

text \<open>The loop of \<^verbatim>\<open>commit_session_changes\<close> over the changes: the entries and whether one changed.\<close>

definition apply_change ::
  "hash \<Rightarrow> (string, IndexEntry) dict \<times> bool \<Rightarrow> ChangedFile \<Rightarrow> (Repo, (string, IndexEntry) dict \<times> bool) st" where
  "apply_change h acc item =
    (case acc of (entries, changed) \<Rightarrow>
      bindS (liftR (repo_normalize_trackable_path (cf_path item))) (\<lambda>normalized.
      case cf_data item of
        None \<Rightarrow> returnS (AList.delete normalized entries, map_of entries normalized \<noteq> None \<or> changed)
      | Some d \<Rightarrow>
        (let blob = blob_from_data h d
         in bindS (repo_put_object h (blob_id blob) (blob_canonical blob)) (\<lambda>_.
            let changed' = (case map_of entries normalized of
                  None \<Rightarrow> True | Some previous \<Rightarrow> ie_oid previous \<noteq> blob_id blob \<or> changed)
            in returnS (AList.update normalized
                 \<lparr>ie_path = normalized, ie_oid = blob_id blob, ie_mode = ''100644''\<rparr> entries, changed')))))"

fun apply_changes ::
  "hash \<Rightarrow> (string, IndexEntry) dict \<times> bool \<Rightarrow> ChangedFile list \<Rightarrow> (Repo, (string, IndexEntry) dict \<times> bool) st" where
  "apply_changes h acc [] = returnS acc"
| "apply_changes h acc (item # items) = bindS (apply_change h acc item) (\<lambda>acc'. apply_changes h acc' items)"

definition repo_commit_session_changes ::
  "hash \<Rightarrow> nat \<Rightarrow> Identity \<Rightarrow> string \<Rightarrow> ChangedFile list \<Rightarrow> string \<Rightarrow> (string, string) dict \<Rightarrow>
   (Repo, Commit option) st" where
  "repo_commit_session_changes h limit ident branch changes message labels =
    bindS (getsS (\<lambda>r. bindR (repo_ref branch r) (\<lambda>head.
      case head of
        None \<Rightarrow> Inr []
      | Some c \<Rightarrow> bindR (repo_load_commit c r) (\<lambda>commit.
          bindR (repo_flatten_tree h limit (c_tree commit) '''' r) (\<lambda>es. Inr (entry_dict es)))))) (\<lambda>entries.
    bindS (apply_changes h (entries, False) changes) (\<lambda>(entries', changed).
    if \<not> changed then returnS None
    else bindS (repo_create_commit_from_entries h ident (map snd entries') message branch None None labels)
      (\<lambda>c. returnS (Some c))))"

section \<open>Adding files of the working tree\<close>

text \<open>The ignore rules of the two files in the root. (\<^verbatim>\<open>errors="replace"\<close> puts a replacement character
  for bytes that are not UTF-8; the model keeps the bytes.)\<close>

definition root_patterns :: "Repo \<Rightarrow> string list" where
  "root_patterns r = ignore_patterns (map_of (r_files r) ''.gitignore'') (map_of (r_files r) ''.trunksignore'')"

text \<open>\<^verbatim>\<open>sorted(directory.rglob("*"))\<close>, the regular files of it: paths compare by their parts.\<close>

definition files_under :: "string \<Rightarrow> Repo \<Rightarrow> string list" where
  "files_under p r =
    sort_key (split_on SLASH) (filter (\<lambda>f. p = '''' \<or> startswith f (p @ ''/'')) (map fst (r_files r)))"

definition add_worktree_file :: "hash \<Rightarrow> bool \<Rightarrow> string \<Rightarrow> (Repo, unit) st" where
  "add_worktree_file h force rel =
    bindS (liftR (normalize_path rel)) (\<lambda>normalized.
    if is_internal_path normalized then returnS ()
    else bindS (getsS (\<lambda>r. Inr (\<not> force \<and> is_ignored normalized (root_patterns r)))) (\<lambda>skip.
      if skip then returnS ()
      else bindS (getsS (\<lambda>r. case map_of (r_files r) rel of
             None \<Rightarrow> Inl (OSError (''No such file: '' @ rel)) | Some d \<Rightarrow> Inr d)) (\<lambda>data.
        repo_write_file h normalized data)))"

definition add_listed_file :: "hash \<Rightarrow> bool \<Rightarrow> string \<Rightarrow> (Repo, unit) st" where
  "add_listed_file h force rel =
    (if is_internal_path rel then returnS ()
     else bindS (getsS (\<lambda>r. Inr (force \<or> \<not> is_ignored rel (root_patterns r)))) (\<lambda>take'.
       if take' then add_worktree_file h force rel else returnS ()))"

definition repo_add_worktree_path :: "hash \<Rightarrow> bool \<Rightarrow> string \<Rightarrow> (Repo, unit) st" where
  "repo_add_worktree_path h force rel = (\<lambda>r.
    if is_dir rel r then iterS (add_listed_file h force) (files_under rel r) r
    else add_worktree_file h force rel r)"

definition repo_add_all_worktree_files :: "hash \<Rightarrow> bool \<Rightarrow> (Repo, unit) st" where
  "repo_add_all_worktree_files h force = (\<lambda>r. iterS (add_listed_file h force) (files_under '''' r) r)"

section \<open>Status\<close>

record Status =
  st_branch :: string
  st_head :: "ObjectId option"
  st_indexed :: nat
  st_dirty :: bool
  st_backend :: "string option"
  st_untracked :: "string list"
  st_modified :: "string list"
  st_deleted :: "string list"

text \<open>The stat cache: for a path, the metadata last seen (size, times, inode and mode, compared for
  equality only) and the blob id computed then. \<open>stat\<close> is the file system's metadata of a path.\<close>

type_synonym 'm stat_cache = "(string, 'm \<times> string) dict"

definition status_file ::
  "hash \<Rightarrow> (string \<Rightarrow> 'm) \<Rightarrow> 'm stat_cache \<Rightarrow> string \<times> string \<times> bytes \<Rightarrow> string \<times> 'm \<times> string" where
  "status_file h stat cache f =
    (case f of (normalised, rel, data) \<Rightarrow>
      (normalised, stat rel,
       case map_of cache normalised of
         Some (m, oid) \<Rightarrow> if m = stat rel then oid else oid_value (blob_id (blob_from_data h data))
       | None \<Rightarrow> oid_value (blob_id (blob_from_data h data))))"

text \<open>The files that are looked at: the path as tracked, the path in the working tree, the content.\<close>

definition status_paths :: "Repo \<Rightarrow> (string \<times> string \<times> bytes) list" where
  "status_paths r =
    List.map_filter (\<lambda>(rel, data).
      if is_internal_path rel \<or> is_ignored rel (root_patterns r) then None
      else (case repo_normalize_trackable_path rel of Inl _ \<Rightarrow> None | Inr n \<Rightarrow> Some (n, rel, data)))
    (sort_key (\<lambda>f. split_on SLASH (fst f)) (r_files r))"

definition repo_worktree_status ::
  "hash \<Rightarrow> (string \<Rightarrow> 'm) \<Rightarrow> 'm stat_cache \<Rightarrow> IndexEntry list \<Rightarrow> Repo \<Rightarrow>
   (string list \<times> string list \<times> string list) \<times> 'm stat_cache" where
  "repo_worktree_status h stat cache index r =
    (let index_by_path = foldl (\<lambda>d e. AList.update (ie_path e) (ie_oid e) d) [] index;
         seen = map (status_file h stat cache) (status_paths r);
         untracked = map fst (filter (\<lambda>(p, _, _). map_of index_by_path p = None) seen);
         modified = map fst (filter (\<lambda>(p, _, oid). case map_of index_by_path p of
           None \<Rightarrow> False | Some x \<Rightarrow> oid_value x \<noteq> oid) seen);
         deleted = filter (\<lambda>p. p \<notin> fst ` set seen) (map fst index_by_path)
     in ((untracked, modified, deleted), foldl (\<lambda>d (p, mo). AList.update p mo d) [] seen))"

definition repo_status ::
  "hash \<Rightarrow> (string \<Rightarrow> 'm) \<Rightarrow> 'm stat_cache \<Rightarrow> bool \<Rightarrow> Repo \<Rightarrow> (Status \<times> 'm stat_cache) res" where
  "repo_status h stat cache compare_worktree r =
    bindR (repo_index_entries r) (\<lambda>index.
    let ((untracked, modified, deleted), cache') =
          (if compare_worktree then repo_worktree_status h stat cache index r else (([], [], []), cache))
    in bindR (repo_ref (repo_current_branch r) r) (\<lambda>head.
       Inr (\<lparr>st_branch = repo_current_branch r, st_head = head, st_indexed = length index,
             st_dirty = (untracked \<noteq> [] \<or> modified \<noteq> [] \<or> deleted \<noteq> []), st_backend = repo_backend_url r,
             st_untracked = sort untracked, st_modified = sort modified, st_deleted = sort deleted\<rparr>, cache')))"

section \<open>The invariant\<close>

definition trackable :: "string \<Rightarrow> bool" where
  "trackable p \<longleftrightarrow> canonical_path p \<and> \<not> is_internal_path p"

definition normal_ref_name :: "string \<Rightarrow> bool" where
  "normal_ref_name n \<longleftrightarrow> normalize_ref n = n"

text \<open>Every object is stored under its hash with its kind; references, remembered remote references and
  index entries name ids; index paths are trackable, or the empty path that \<^verbatim>\<open>normalize_path\<close> can
  return.\<close>

definition repo_inv :: "hash \<Rightarrow> Repo \<Rightarrow> bool" where
  "repo_inv h r \<longleftrightarrow>
     wf_dict (r_objects r) \<and> wf_dict (r_refs r) \<and> wf_dict (r_backend_refs r) \<and> wf_dict (r_index r) \<and>
     (\<forall>(o', k, d) \<in> set (r_objects r). valid_oid_str o' \<and> from_bytes h d = ObjectId o' \<and>
        (\<exists>p. parse_canonical_object d = Inr (k, p))) \<and>
     (\<forall>(n, v) \<in> set (r_refs r). normal_ref_name n \<and> valid_oid_str v) \<and>
     (\<forall>(n, v) \<in> set (r_backend_refs r). normal_ref_name n \<and> valid_oid_str v) \<and>
     (\<forall>(p, v, m) \<in> set (r_index r). (p = '''' \<or> trackable p) \<and> valid_oid_str v)"

lemma trackable_normalize:
  assumes "trackable p"
  shows "repo_normalize_trackable_path p = Inr p" and "repo_validate_tree_path p = Inr p"
proof -
  have n: "normalize_path p = Inr p" using assms by (simp add: trackable_def normalize_canonical_path)
  then show "repo_normalize_trackable_path p = Inr p"
    using assms by (simp add: repo_normalize_trackable_path_def trackable_def)
  moreover have "BSLASH \<notin> set p"
    using assms canonical_path_chars(1) [of p BSLASH] by (auto simp: trackable_def)
  ultimately show "repo_validate_tree_path p = Inr p" by (simp add: repo_validate_tree_path_def)
qed

lemma normalize_trackable_Inr:
  assumes "repo_normalize_trackable_path p = Inr n"
  shows "n = '''' \<or> trackable n"
  using assms normalize_path_canonical [of p n]
  by (auto simp: repo_normalize_trackable_path_def trackable_def split: if_splits)

lemma validate_trackable:
  "trackable (ie_path e) \<Longrightarrow> repo_validate_index_entry e = Inr e"
  using canonical_path_chars(1) [of "ie_path e" BSLASH]
  by (auto simp: repo_validate_index_entry_def trackable_normalize trackable_def
      intro!: replace_char_absent [symmetric])

lemma set_update_subset: "set (AList.update k v d) \<subseteq> insert (k, v) (set d)"
  by (induction d) auto

lemma set_setdefault_subset: "set (setdefault k v d) \<subseteq> insert (k, v) (set d)"
  by (auto simp: setdefault_def split: option.splits)

lemma set_delete_subset: "set (AList.delete k d) \<subseteq> set d"
  by (auto simp: AList.delete_eq)

lemma repo_inv_object:
  assumes "repo_inv h r" and "map_of (r_objects r) o' = Some (k, d)"
  shows "valid_oid_str o'" and "from_bytes h d = ObjectId o'" and "\<exists>p. parse_canonical_object d = Inr (k, p)"
  using assms by (auto simp: repo_inv_def dest!: map_of_SomeD)

lemma repo_inv_ref:
  assumes "repo_inv h r" and "map_of (r_refs r) n = Some v"
  shows "valid_oid_str v" and "normal_ref_name n"
  using assms by (auto simp: repo_inv_def dest!: map_of_SomeD)

lemma repo_inv_index:
  assumes "repo_inv h r" and "map_of (r_index r) p = Some (v, m)"
  shows "valid_oid_str v" and "p = '''' \<or> trackable p"
  using assms by (auto simp: repo_inv_def dest!: map_of_SomeD)

lemma repo_inv_empty: "repo_inv h repo_empty"
  by (simp add: repo_inv_def repo_empty_def)

lemma repo_inv_add_object:
  assumes "repo_inv h r" and "from_bytes h d = x" and "parse_canonical_object d = Inr (k, p)" and "digest20 h"
  shows "repo_inv h (r_objects_update (setdefault (oid_value x) (k, d)) r)"
proof -
  have "valid_oid_str (oid_value x)" using valid_from_bytes [OF assms(4), of d] assms(2) by (simp add: valid_oid_def)
  then show ?thesis
    using assms set_setdefault_subset [of "oid_value x" "(k, d)" "r_objects r"]
    by (cases x) (auto simp: repo_inv_def)
qed

lemma repo_inv_put_object:
  assumes "repo_inv h r" and "digest20 h"
  shows "repo_inv h (snd (repo_put_object h x d r))"
  using assms repo_inv_add_object [OF assms(1) _ _ assms(2), of d x]
  by (auto simp: repo_put_object_def bindS_def split: sum.splits prod.splits)

lemma repo_inv_index_update:
  assumes "repo_inv h r" and "p = '''' \<or> trackable p" and "valid_oid_str v"
  shows "repo_inv h (r_index_update (AList.update p (v, m)) r)"
  using assms set_update_subset [of p "(v, m)" "r_index r"] by (auto simp: repo_inv_def)

lemma repo_inv_set_ref:
  assumes "repo_inv h r" and "valid_oid x"
  shows "repo_inv h (snd (repo_set_ref n x r))"
  using assms set_update_subset [of "normalize_ref n" "oid_value x" "r_refs r"]
  by (auto simp: repo_inv_def repo_set_ref_def normal_ref_name_def valid_oid_def)

lemma repo_inv_set_backend_ref:
  assumes "repo_inv h r" and "valid_oid x"
  shows "repo_inv h (snd (repo_set_backend_ref n x r))"
  using assms set_update_subset [of "normalize_ref n" "oid_value x" "r_backend_refs r"]
  by (auto simp: repo_inv_def repo_set_backend_ref_def normal_ref_name_def valid_oid_def)

text \<open>A reference that reads is its text.\<close>

definition repo_refs :: "Repo \<Rightarrow> string \<Rightarrow> ObjectId option" where
  "repo_refs r n = map_option ObjectId (map_of (r_refs r) n)"

lemma repo_ref_eq:
  assumes "repo_inv h r"
  shows "repo_ref n r = Inr (repo_refs r (normalize_ref n))"
  using repo_inv_ref(1) [OF assms] by (auto simp: repo_ref_def repo_refs_def split: option.split)

lemma repo_refs_valid: "repo_inv h r \<Longrightarrow> repo_refs r n = Some x \<Longrightarrow> valid_oid x"
  using repo_inv_ref(1) by (auto simp: repo_refs_def valid_oid_def)

text \<open>The reference table of the repository keeps the contract of a reference table. (\<^verbatim>\<open>ObjectId\<close> values
  are valid in Python; here the swap is asked to store a valid one.)\<close>

lemma repo_cas_ref_run:
  assumes "repo_inv h r"
  shows "repo_cas_ref n e x r =
    (if repo_refs r (normalize_ref n) = e
     then (Inr True, r_refs_update (AList.update (normalize_ref n) (oid_value x)) r) else (Inr False, r))"
  by (simp add: repo_cas_ref_def repo_ref_eq [OF assms])

definition repo_cas_valid :: "string \<Rightarrow> ObjectId option \<Rightarrow> ObjectId \<Rightarrow> Repo \<Rightarrow> bool \<times> Repo" where
  "repo_cas_valid n e x r = (case repo_cas_ref n e x r of (Inr b, r') \<Rightarrow> (b, r') | (Inl _, r') \<Rightarrow> (False, r'))"

interpretation repo_cells: ref_cells "repo_inv h" repo_refs
    "\<lambda>r n. case repo_ref n r of Inr x \<Rightarrow> x | Inl _ \<Rightarrow> None" repo_cas_valid
  for h
proof unfold_locales
  fix s n e x assume inv: "repo_inv h s"
  show "(case repo_ref n s of Inr x \<Rightarrow> x | Inl _ \<Rightarrow> None) = repo_refs s (normalize_ref n)"
    by (simp add: repo_ref_eq [OF inv])
  show "fst (repo_cas_valid n e x s) = (repo_refs s (normalize_ref n) = e)"
    by (simp add: repo_cas_valid_def repo_cas_ref_run [OF inv])
  show "repo_refs (snd (repo_cas_valid n e x s)) =
      (if repo_refs s (normalize_ref n) = e then (repo_refs s)(normalize_ref n \<mapsto> x) else repo_refs s)"
    by (auto simp: repo_cas_valid_def repo_cas_ref_run [OF inv] repo_refs_def fun_eq_iff)
  show "repo_inv h (snd (repo_cas_valid n e x s))" if "valid_oid x"
    using inv repo_inv_set_ref [OF inv that, of n]
    by (simp add: repo_cas_valid_def repo_cas_ref_run [OF inv] repo_set_ref_def)
qed

section \<open>Files of the index\<close>

lemma repo_write_file_run:
  assumes "repo_normalize_trackable_path p = Inr n"
  shows "repo_write_file h p d r =
    (Inr (), r\<lparr>r_objects := setdefault (oid_value (from_bytes h (canonical_object ''blob'' d)))
                 (''blob'', canonical_object ''blob'' d) (r_objects r),
               r_index := AList.update n (oid_value (from_bytes h (canonical_object ''blob'' d)), ''100644'') (r_index r)\<rparr>)"
  using assms by (simp add: repo_write_file_def Let_def)

lemma blob_kind [simp]: "wf_kind ''blob''" "wf_kind ''tree''" "wf_kind ''commit''"
  by (simp_all add: wf_kind_def is_str_def)

lemma repo_inv_write_file:
  assumes "repo_inv h r" and "digest20 h"
  shows "repo_inv h (snd (repo_write_file h p d r))"
proof (cases "repo_normalize_trackable_path p")
  case (Inr n)
  let ?c = "canonical_object ''blob'' d"
  have v: "valid_oid_str (oid_value (from_bytes h ?c))"
    using valid_from_bytes [OF assms(2), of ?c] by (simp add: valid_oid_def)
  have "repo_inv h (r_objects_update (setdefault (oid_value (from_bytes h ?c)) (''blob'', ?c)) r)"
    using assms by (intro repo_inv_add_object) (auto simp: parse_canonical_canonical)
  from repo_inv_index_update [OF this normalize_trackable_Inr [OF Inr] v, of "''100644''"]
  show ?thesis by (simp add: repo_write_file_run [OF Inr] repo_inv_def)
qed (simp add: repo_write_file_def bindS_def assms)

lemma repo_inv_delete_file: "repo_inv h r \<Longrightarrow> repo_inv h (snd (repo_delete_file p r))"
  using set_delete_subset
  by (cases "repo_normalize_trackable_path p") (fastforce simp: repo_delete_file_def bindS_def repo_inv_def)+

text \<open>What is stored under the id of a piece of data: that data, if no stored object has its hash.\<close>

lemma stored_blob:
  assumes "repo_inv h r" and "inj_on h (insert c (snd ` snd ` set (r_objects r)))"
  shows "\<exists>k. map_of (setdefault (oid_value (from_bytes h c)) (''blob'', c) (r_objects r)) (oid_value (from_bytes h c)) =
    Some (k, c)"
proof (cases "map_of (r_objects r) (oid_value (from_bytes h c))")
  case (Some kd)
  obtain k d where kd: "kd = (k, d)" by (cases kd)
  then have "from_bytes h d = from_bytes h c" using repo_inv_object(2) [OF assms(1)] Some by force
  moreover have "d \<in> snd ` snd ` set (r_objects r)" using map_of_SomeD [OF Some] kd by force
  ultimately have "d = c" using assms(2) by (auto simp: inj_on_def)
  then show ?thesis using Some kd by (simp add: map_of_setdefault)
qed (simp add: map_of_setdefault)

lemma repo_read_written:
  assumes "repo_inv h r" and "digest20 h" and "repo_normalize_trackable_path p = Inr n"
    and "inj_on h (insert (canonical_object ''blob'' d) (snd ` snd ` set (r_objects r)))"
  shows "repo_read_file h b p (snd (repo_write_file h p d r)) = Inr d"
proof -
  let ?c = "canonical_object ''blob'' d"
  obtain k where "map_of (setdefault (oid_value (from_bytes h ?c)) (''blob'', ?c) (r_objects r))
      (oid_value (from_bytes h ?c)) = Some (k, ?c)" using stored_blob [OF assms(1,4)] by blast
  then show ?thesis
    using assms(2) mk_ObjectId_value [OF valid_from_bytes [OF assms(2), of ?c]]
    by (simp add: repo_write_file_run [OF assms(3)] repo_read_file_def assms(3) repo_blob_payload_def repo_payload_def
        repo_object_data_def parse_canonical_canonical)
qed

text \<open>Any other indexed path reads as before.\<close>

lemma repo_read_other:
  assumes "repo_normalize_trackable_path q = Inr m" and "repo_normalize_trackable_path p = Inr n" and "m \<noteq> n"
    and "map_of (r_index r) m = Some (v, md)" and "repo_read_file h b q r = Inr d'"
  shows "repo_read_file h b q (snd (repo_write_file h p d r)) = Inr d'"
proof -
  obtain x where x: "mk_ObjectId v = Inr x" and "repo_blob_payload x r = Inr d'"
    using assms(1,4,5) by (auto simp: repo_read_file_def)
  then obtain k c where c: "map_of (r_objects r) (oid_value x) = Some (k, c)"
    and p: "parse_canonical_object c = Inr (''blob'', d')"
    by (auto simp: repo_blob_payload_def repo_payload_def repo_object_data_def split: option.splits if_splits prod.splits)
  then have "map_of (setdefault o' e (r_objects r)) (oid_value x) = Some (k, c)" for o' e
    by (auto simp: map_of_setdefault split: option.split)
  then show ?thesis
    using assms(1,3,4) x p
    by (simp add: repo_write_file_run [OF assms(2)] repo_read_file_def repo_blob_payload_def repo_payload_def
        repo_object_data_def)
qed

end
