(* ===== verification/RepoTree.thy ===== *)
theory RepoTree
  imports Repository "HOL-Library.Sublist"
begin

text \<open>
  Trees of the repository: committing an index and reading the commit back.
  \<open>node_tree\<close> is the tree that \<open>write_tree_node\<close> returns, without the store; \<open>leaves\<close> are the
  files of a nested dictionary with their path components. The lemmas go from the index to the
  nested dictionary (\<open>nest_entries_leaves\<close>), from there to the stored trees
  (\<open>write_tree_node_run\<close>), and from the stored trees back to the entries (\<open>flatten_node\<close>).
\<close>

section \<open>Nested dictionaries\<close>

fun node_leaves :: "node \<Rightarrow> (string list \<times> IndexEntry) list" where
  "node_leaves (Leaf e) = [([], e)]"
| "node_leaves (Dir kvs) = concat (map (\<lambda>(n, v). map (\<lambda>(ps, e). (n # ps, e)) (node_leaves v)) kvs)"

fun wf_node :: "node \<Rightarrow> bool" where
  "wf_node (Leaf e) = True"
| "wf_node (Dir kvs) = (distinct (map fst kvs) \<and> (\<forall>(n, v) \<in> set kvs. wf_node v \<and> node_leaves v \<noteq> []))"

lemma leaves_Dir_iff:
  "(qs, e) \<in> set (node_leaves (Dir kvs)) \<longleftrightarrow>
     (\<exists>n v ps. (n, v) \<in> set kvs \<and> qs = n # ps \<and> (ps, e) \<in> set (node_leaves v))"
  by fastforce

declare node_leaves.simps(2) [simp del]

lemma wf_node_sub: "wf_node (Dir d) \<Longrightarrow> (n, v) \<in> set d \<Longrightarrow> wf_node v \<and> node_leaves v \<noteq> []"
  by auto

lemma set_update_distinct:
  "distinct (map fst d) \<Longrightarrow> (k', v') \<in> set (AList.update k v d) \<longleftrightarrow> (if k' = k then v' = v else (k', v') \<in> set d)"
proof (induction d)
  case (Cons kv d)
  then show ?case by (cases kv) (force simp: image_iff)
qed auto

lemma insert_node_leaves:
  assumes "ps \<noteq> []" and "wf_node (Dir d)"
    and "\<forall>(qs, e') \<in> set (node_leaves (Dir d)). \<not> prefix qs ps \<and> \<not> prefix ps qs"
  shows "\<exists>d'. insert_node ps e d = Inr d' \<and> wf_node (Dir d') \<and>
    set (node_leaves (Dir d')) = insert (ps, e) (set (node_leaves (Dir d)))"
  using assms
proof (induction ps e d rule: insert_node.induct)
  case (2 p e d)
  have dist: "distinct (map fst d)" using "2.prems" by simp
  have absent: "p \<notin> fst ` set d"
  proof
    assume "p \<in> fst ` set d"
    then obtain v where v: "(p, v) \<in> set d" by auto
    then have "node_leaves v \<noteq> []" using "2.prems"(2) by auto
    then obtain qs e' where "(qs, e') \<in> set (node_leaves v)" by (cases "node_leaves v") auto
    then have "(p # qs, e') \<in> set (node_leaves (Dir d))" using v by (auto simp: leaves_Dir_iff)
    then show False using "2.prems"(3) by auto
  qed
  then have "AList.update p (Leaf e) d = d @ [(p, Leaf e)]" by (rule update_absent)
  moreover have "wf_node (Dir (d @ [(p, Leaf e)]))" using "2.prems"(2) absent by auto
  moreover have "set (node_leaves (Dir (d @ [(p, Leaf e)]))) = insert ([p], e) (set (node_leaves (Dir d)))"
    by (auto simp: node_leaves.simps(2))
  ultimately show ?case by simp
next
  case (3 p q ps e d)
  have dist: "distinct (map fst d)" using "3.prems" by simp
  let ?c = "case map_of d p of Some (Dir c) \<Rightarrow> c | _ \<Rightarrow> []"
  have not_leaf: "map_of d p \<noteq> Some (Leaf e')" for e'
  proof
    assume "map_of d p = Some (Leaf e')"
    then have "([p], e') \<in> set (node_leaves (Dir d))" by (auto simp: leaves_Dir_iff dest: map_of_SomeD)
    then show False using "3.prems"(3) by auto
  qed
  have c: "wf_node (Dir ?c)" "\<forall>(qs, e') \<in> set (node_leaves (Dir ?c)). \<not> prefix qs (q # ps) \<and> \<not> prefix (q # ps) qs"
  proof -
    consider "?c = []" | c0 where "(p, Dir c0) \<in> set d" "?c = c0"
      using not_leaf by (cases "map_of d p"; cases "the (map_of d p)") (auto dest: map_of_SomeD)
    then have "wf_node (Dir ?c) \<and> (\<forall>qs e'. (qs, e') \<in> set (node_leaves (Dir ?c)) \<longrightarrow> (p # qs, e') \<in> set (node_leaves (Dir d)))"
    proof cases
      case 1
      then show ?thesis by (simp add: node_leaves.simps(2))
    next
      case 2
      then have "wf_node (Dir c0)" using wf_node_sub [OF "3.prems"(2)] by blast
      then show ?thesis using 2 leaves_Dir_iff [of _ _ d] by auto
    qed
    then show "wf_node (Dir ?c)" and "\<forall>(qs, e') \<in> set (node_leaves (Dir ?c)). \<not> prefix qs (q # ps) \<and> \<not> prefix (q # ps) qs"
      using "3.prems"(3) by fastforce+
  qed
  have ih: "\<exists>c'. insert_node (q # ps) e ?c = Inr c' \<and> wf_node (Dir c') \<and>
      set (node_leaves (Dir c')) = insert (q # ps, e) (set (node_leaves (Dir ?c)))"
  proof (cases "map_of d p")
    case None
    then show ?thesis using "3.IH"(1) [OF None] c by simp
  next
    case (Some v)
    then obtain c0 where "v = Dir c0" using not_leaf by (cases v) auto
    then show ?thesis using "3.IH"(2) [OF Some] c Some by simp
  qed
  then obtain c' where c': "insert_node (q # ps) e ?c = Inr c'" "wf_node (Dir c')"
    "set (node_leaves (Dir c')) = insert (q # ps, e) (set (node_leaves (Dir ?c)))" by blast
  have run: "insert_node (p # q # ps) e d = Inr (AList.update p (Dir c') d)"
    using c'(1) not_leaf by (auto split: option.splits node.splits)
  let ?d' = "AList.update p (Dir c') d"
  have "node_leaves (Dir c') \<noteq> []" using c'(3) by auto
  then have wf: "wf_node (Dir ?d')"
    using "3.prems"(2) c'(2) by (auto simp: distinct_update set_update_distinct [OF dist] split: if_splits)
  have old: "(\<exists>v. (p, v) \<in> set d \<and> (rs, e') \<in> set (node_leaves v)) \<longleftrightarrow> (rs, e') \<in> set (node_leaves (Dir ?c))" for rs e'
  proof (cases "map_of d p")
    case None
    then have "(p, v) \<notin> set d" for v by (force simp: map_of_eq_None_iff)
    then show ?thesis using None by (simp add: node_leaves.simps(2))
  next
    case (Some v)
    then obtain c0 where v: "v = Dir c0" using not_leaf by (cases v) auto
    have "(p, w) \<in> set d \<longleftrightarrow> w = v" for w using Some dist by (metis map_of_eq_Some_iff option.inject)
    then show ?thesis using Some v by simp
  qed
  have "(rs, e') \<in> set (node_leaves (Dir ?d')) \<longleftrightarrow> (rs, e') = (p # q # ps, e) \<or> (rs, e') \<in> set (node_leaves (Dir d))" for rs e'
  proof (cases rs)
    case (Cons n rs')
    have "(rs, e') \<in> set (node_leaves (Dir ?d')) \<longleftrightarrow> (\<exists>v. (n, v) \<in> set ?d' \<and> (rs', e') \<in> set (node_leaves v))"
      unfolding leaves_Dir_iff Cons by blast
    moreover have "(rs, e') \<in> set (node_leaves (Dir d)) \<longleftrightarrow> (\<exists>v. (n, v) \<in> set d \<and> (rs', e') \<in> set (node_leaves v))"
      unfolding leaves_Dir_iff Cons by blast
    ultimately show ?thesis
      using old [of rs' e'] c'(3) Cons by (auto simp: set_update_distinct [OF dist])
  qed (simp add: leaves_Dir_iff)
  then have "set (node_leaves (Dir ?d')) = insert (p # q # ps, e) (set (node_leaves (Dir d)))"
    by (auto)
  then show ?case using run wf by blast
qed simp

section \<open>From the index to the nested dictionary\<close>

text \<open>No entry's path is a directory of another's.\<close>

definition prefix_free :: "IndexEntry list \<Rightarrow> bool" where
  "prefix_free es \<longleftrightarrow> distinct (map ie_path es) \<and>
     (\<forall>a \<in> set es. \<forall>b \<in> set es. prefix (split_on SLASH (ie_path a)) (split_on SLASH (ie_path b)) \<longrightarrow> a = b)"

definition leaf_of :: "IndexEntry \<Rightarrow> string list \<times> IndexEntry" where
  "leaf_of e = (split_on SLASH (ie_path e), e)"

lemma nest_entries_acc:
  assumes "wf_node (Dir d)" and "set (node_leaves (Dir d)) = leaf_of ` set done'" and "prefix_free (done' @ es)"
    and "\<forall>e \<in> set es. trackable (ie_path e)"
  shows "\<exists>d'. foldR (\<lambda>nested entry.
      bindR (repo_validate_index_entry entry) (\<lambda>e. insert_node (split_on SLASH (ie_path e)) e nested)) d es = Inr d' \<and>
    wf_node (Dir d') \<and> set (node_leaves (Dir d')) = leaf_of ` set (done' @ es)"
  using assms
proof (induction es arbitrary: d done')
  case (Cons e es)
  have v: "repo_validate_index_entry e = Inr e" using Cons.prems(4) by (simp add: validate_trackable)
  have "\<not> prefix qs (split_on SLASH (ie_path e)) \<and> \<not> prefix (split_on SLASH (ie_path e)) qs"
    if "(qs, e') \<in> set (node_leaves (Dir d))" for qs e'
  proof -
    have e': "e' \<in> set done'" "qs = split_on SLASH (ie_path e')"
      using that Cons.prems(2) by (auto simp: leaf_of_def)
    then have "e' \<noteq> e" using Cons.prems(3) by (auto simp: prefix_free_def)
    then show ?thesis using Cons.prems(3) e' unfolding prefix_free_def by (metis Un_iff list.set_intros(1) set_append)
  qed
  then have free: "\<forall>(qs, e') \<in> set (node_leaves (Dir d)).
      \<not> prefix qs (split_on SLASH (ie_path e)) \<and> \<not> prefix (split_on SLASH (ie_path e)) qs" by blast
  obtain d1 where d1: "insert_node (split_on SLASH (ie_path e)) e d = Inr d1" "wf_node (Dir d1)"
    "set (node_leaves (Dir d1)) = insert (split_on SLASH (ie_path e), e) (set (node_leaves (Dir d)))"
    using insert_node_leaves [OF split_on_not_Nil Cons.prems(1) free, of e] by metis
  have "set (node_leaves (Dir d1)) = leaf_of ` set (done' @ [e])"
    using d1(3) Cons.prems(2) by (auto simp: leaf_of_def)
  then show ?case
    using Cons.IH [OF d1(2), of "done' @ [e]"] Cons.prems(3,4) v d1(1) by simp
qed simp

lemma nest_entries_leaves:
  assumes "prefix_free es" and "\<forall>e \<in> set es. trackable (ie_path e)"
  shows "\<exists>d. nest_entries es = Inr d \<and> wf_node (Dir d) \<and> set (node_leaves (Dir d)) = leaf_of ` set es"
  using nest_entries_acc [of "[]" "[]" es] assms by (simp add: nest_entries_def node_leaves.simps(2))

section \<open>The tree of a nested dictionary\<close>

fun node_tree :: "hash \<Rightarrow> node \<Rightarrow> Tree" where
  "node_tree h (Leaf e) = tree_from_entries h []"
| "node_tree h (Dir kvs) = tree_from_entries h (map (\<lambda>(n, v).
     case v of
       Leaf e \<Rightarrow> \<lparr>te_mode = ie_mode e, te_name = n, te_oid = ie_oid e\<rparr>
     | Dir c \<Rightarrow> \<lparr>te_mode = ''40000'', te_name = n, te_oid = tree_id (node_tree h v)\<rparr>) kvs)"

definition node_entry :: "hash \<Rightarrow> string \<times> node \<Rightarrow> TreeEntry" where
  "node_entry h kv = (case kv of (n, v) \<Rightarrow>
     case v of
       Leaf e \<Rightarrow> \<lparr>te_mode = ie_mode e, te_name = n, te_oid = ie_oid e\<rparr>
     | Dir c \<Rightarrow> \<lparr>te_mode = ''40000'', te_name = n, te_oid = tree_id (node_tree h v)\<rparr>)"

lemma node_tree_Dir: "node_tree h (Dir kvs) = tree_from_entries h (map (node_entry h) kvs)"
  by (auto simp: node_entry_def intro!: arg_cong [where f = "tree_from_entries h"])

lemma te_name_node_entry [simp]: "te_name (node_entry h kv) = fst kv"
  by (cases kv) (simp add: node_entry_def split: node.split)

lemma sort_map_node_entry: "sort_key te_name (map (node_entry h) kvs) = map (node_entry h) (sort_key fst kvs)"
proof -
  have "sort_key te_name (map (node_entry h) kvs) = sort_key te_name (map (node_entry h) kvs)" by simp
  have ins: "insort_key te_name (node_entry h kv) (map (node_entry h) xs) = map (node_entry h) (insort_key fst kv xs)" for kv xs
    by (induction xs) auto
  show ?thesis by (induction kvs) (simp_all add: ins)
qed

lemma tree_entries_node_tree: "tree_entries (node_tree h (Dir kvs)) = map (node_entry h) (sort_key fst kvs)"
  by (simp add: node_tree_Dir sort_map_node_entry del: node_tree.simps)

text \<open>The canonical bytes of all trees of a nested dictionary.\<close>

fun node_objects :: "hash \<Rightarrow> node \<Rightarrow> bytes list" where
  "node_objects h (Leaf e) = []"
| "node_objects h (Dir kvs) =
    tree_canonical (node_tree h (Dir kvs)) # concat (map (\<lambda>(n, v). node_objects h v) kvs)"

fun node_depth :: "node \<Rightarrow> nat" where
  "node_depth (Leaf e) = 0"
| "node_depth (Dir kvs) = Suc (fold max (map (\<lambda>(n, v). node_depth v) kvs) 0)"

section \<open>Writing the trees\<close>

text \<open>\<open>added h D r r'\<close>: nothing changed but that objects with data from \<open>D\<close> were stored, all of them under
  their ids unless the id was taken.\<close>

definition added :: "hash \<Rightarrow> bytes set \<Rightarrow> Repo \<Rightarrow> Repo \<Rightarrow> bool" where
  "added h D r r' \<longleftrightarrow> r' = r\<lparr>r_objects := r_objects r'\<rparr> \<and> (wf_dict (r_objects r) \<longrightarrow> wf_dict (r_objects r')) \<and>
     map_of (r_objects r) \<subseteq>\<^sub>m map_of (r_objects r') \<and>
     (\<forall>d \<in> D. oid_value (from_bytes h d) \<in> dom (map_of (r_objects r'))) \<and>
     (\<forall>o' k d. map_of (r_objects r') o' = Some (k, d) \<longrightarrow> map_of (r_objects r) o' = Some (k, d) \<or>
        (d \<in> D \<and> o' = oid_value (from_bytes h d) \<and> (\<exists>p. parse_canonical_object d = Inr (k, p))))"

lemma added_refl: "added h {} r r"
  by (simp add: added_def)

lemma added_fields:
  assumes "added h D r r'"
  shows "r_meta r' = r_meta r" and "r_refs r' = r_refs r" and "r_index r' = r_index r"
    and "r_backend_refs r' = r_backend_refs r" and "r_files r' = r_files r"
proof -
  have r': "r' = r\<lparr>r_objects := r_objects r'\<rparr>" using assms by (simp add: added_def)
  show "r_meta r' = r_meta r" "r_refs r' = r_refs r" "r_index r' = r_index r"
    "r_backend_refs r' = r_backend_refs r" "r_files r' = r_files r"
    by (subst r', simp)+
qed

lemma added_trans:
  assumes "added h D r s" and "added h E s t"
  shows "added h (D \<union> E) r t"
proof -
  have s: "s = r\<lparr>r_objects := r_objects s\<rparr>" and t: "t = s\<lparr>r_objects := r_objects t\<rparr>"
    using assms by (simp_all add: added_def)
  have "t = r\<lparr>r_objects := r_objects t\<rparr>" by (subst t, subst s, simp)
  moreover have "map_of (r_objects r) \<subseteq>\<^sub>m map_of (r_objects t)"
    using assms unfolding added_def by (blast intro: map_le_trans)
  moreover have "dom (map_of (r_objects s)) \<subseteq> dom (map_of (r_objects t))"
    using assms(2) unfolding added_def by (blast dest: map_le_implies_dom_le)
  ultimately show ?thesis
    using assms unfolding added_def by (intro conjI) (simp, simp, blast, blast, blast)
qed

lemma added_put:
  assumes "parse_canonical_object d = Inr (k, p)"
  shows "\<exists>r'. repo_put_object h (from_bytes h d) d r = (Inr (), r') \<and> added h {d} r r'"
proof -
  let ?o = "oid_value (from_bytes h d)"
  let ?r' = "r_objects_update (setdefault ?o (k, d)) r"
  have run: "repo_put_object h (from_bytes h d) d r = (Inr (), ?r')"
    using assms by (simp add: repo_put_object_def)
  have "map_of (r_objects r) \<subseteq>\<^sub>m map_of (r_objects ?r')"
    by (auto simp: map_le_def map_of_setdefault split: option.split)
  moreover have "?o \<in> dom (map_of (r_objects ?r'))"
    by (auto simp: map_of_setdefault split: option.split)
  moreover have "map_of (r_objects r) o' = Some (k', d') \<or> (d' = d \<and> o' = ?o \<and> k' = k)"
    if "map_of (r_objects ?r') o' = Some (k', d')" for o' k' d'
    using that by (auto simp: map_of_setdefault split: option.splits if_splits)
  ultimately have "added h {d} r ?r'"
    using assms unfolding added_def by (intro conjI) (simp, simp, simp, simp, blast)
  with run show ?thesis by blast
qed

lemma mapS_added:
  assumes "\<And>x r. x \<in> set xs \<Longrightarrow> \<exists>r'. f x r = (Inr (g x), r') \<and> added h (D x) r r'"
  shows "\<exists>r'. mapS f xs r = (Inr (map g xs), r') \<and> added h (\<Union>x \<in> set xs. D x) r r'"
  using assms
proof (induction xs arbitrary: r)
  case Nil
  then show ?case by (simp add: added_refl)
next
  case (Cons x xs)
  obtain s where s: "f x r = (Inr (g x), s)" "added h (D x) r s" using Cons.prems by (meson list.set_intros(1))
  obtain t where t: "mapS f xs s = (Inr (map g xs), t)" "added h (\<Union>x \<in> set xs. D x) s t"
    using Cons.IH [of s] Cons.prems by (meson list.set_intros(2))
  show ?case using s t added_trans [OF s(2) t(2)] by (auto simp: bindS_def)
qed

lemma parse_tree_canonical: "\<exists>p. parse_canonical_object (tree_canonical t) = Inr (''tree'', p)"
  by (auto simp: tree_canonical_def parse_canonical_canonical)

declare write_tree_node.simps [simp del]

lemma write_tree_node_run:
  "\<exists>r'. write_tree_node h kvs r = (Inr (node_tree h (Dir kvs)), r') \<and>
     added h (set (node_objects h (Dir kvs))) r r'"
proof (induction h kvs r rule: write_tree_node.induct)
  case (1 h kvs r)
  let ?f = "\<lambda>kv r'. case kv of (name, value) \<Rightarrow>
        (case value of
           Leaf e \<Rightarrow> (Inr \<lparr>te_mode = ie_mode e, te_name = name, te_oid = ie_oid e\<rparr>, r')
         | Dir c \<Rightarrow> bindS (write_tree_node h c) (\<lambda>child.
             returnS \<lparr>te_mode = ''40000'', te_name = name, te_oid = tree_id child\<rparr>) r')"
  let ?t = "node_tree h (Dir kvs)"
  have step: "\<exists>u. ?f kv s = (Inr (node_entry h kv), u) \<and> added h (set (node_objects h (snd kv))) s u"
    if kv: "kv \<in> set (sort_key fst kvs)" for kv s
  proof -
    obtain n v where nv: "kv = (n, v)" by (cases kv)
    show ?thesis
    proof (cases v)
      case (Leaf e)
      then show ?thesis using nv by (simp add: node_entry_def added_refl)
    next
      case (Dir c)
      have "\<exists>u. write_tree_node h c s = (Inr (node_tree h (Dir c)), u) \<and>
          added h (set (node_objects h (Dir c))) s u"
        by (rule "1.IH" [OF kv nv [symmetric] Dir])
      then show ?thesis using nv Dir by (auto simp: node_entry_def bindS_def simp del: node_tree.simps node_objects.simps)
    qed
  qed
  have "\<exists>s. mapS ?f (sort_key fst kvs) r = (Inr (map (node_entry h) (sort_key fst kvs)), s) \<and>
      added h (\<Union>kv \<in> set (sort_key fst kvs). set (node_objects h (snd kv))) r s"
    by (rule mapS_added) (rule step)
  then obtain s where s: "mapS ?f (sort_key fst kvs) r = (Inr (map (node_entry h) (sort_key fst kvs)), s)"
    "added h (\<Union>kv \<in> set (sort_key fst kvs). set (node_objects h (snd kv))) r s"
    by (elim exE conjE)
  have tree: "tree_from_entries h (map (node_entry h) (sort_key fst kvs)) = ?t"
    unfolding node_tree_Dir tree_from_entries_def Let_def sort_map_node_entry by (simp add: sort_key_id_if_sorted)
  obtain k p where "parse_canonical_object (tree_canonical ?t) = Inr (''tree'', p)"
    using parse_tree_canonical by blast
  then obtain u where u: "repo_put_object h (from_bytes h (tree_canonical ?t)) (tree_canonical ?t) s = (Inr (), u)"
    "added h {tree_canonical ?t} s u"
    using added_put by blast
  have id: "tree_id ?t = from_bytes h (tree_canonical ?t)"
    unfolding node_tree_Dir by (rule from_bytes_tree_canonical [symmetric])
  have "write_tree_node h kvs r = (Inr ?t, u)"
    unfolding write_tree_node.simps [of h kvs r] bindS_step(1) [where m = "mapS ?f (sort_key fst kvs)", OF s(1)] tree Let_def id
    by (simp add: bindS_step(1) [where m = "repo_put_object h (from_bytes h (tree_canonical ?t)) (tree_canonical ?t)", OF u(1)]
        del: node_tree.simps)
  moreover have "added h (set (node_objects h (Dir kvs))) r u"
    using added_trans [OF s(2) u(2)] by (simp add: case_prod_beta del: node_tree.simps)
  ultimately show ?case by blast
qed

section \<open>Reading the trees back\<close>

lemma utf8_ok_split: "utf8_ok (a @ 47 # b) \<Longrightarrow> utf8_ok a \<and> utf8_ok b"
proof (induction a rule: length_induct)
  case (1 a)
  have c: "\<not> cont_byte 47" by (simp add: cont_byte_def)
  show ?case
  proof (cases a)
    case (Cons x r)
    have ih: "utf8_ok (s @ 47 # b) \<Longrightarrow> length s < length a \<Longrightarrow> utf8_ok s \<and> utf8_ok b" for s using "1.IH" by blast
    consider "x < 128" | "194 \<le> x" "x < 224" | "224 \<le> x" "x < 240" | "240 \<le> x" "x < 245"
      using "1.prems" Cons by (auto split: if_splits)
    then show ?thesis
    proof cases
      case 1
      then show ?thesis using "1.prems" Cons ih [of r] by simp
    next
      case 2
      then show ?thesis using "1.prems" Cons c ih [of "tl r"] by (cases r) simp_all
    next
      case 3
      then show ?thesis using "1.prems" Cons c ih [of "tl (tl r)"] by (cases r; cases "tl r") (simp_all split: list.splits)
    next
      case 4
      then show ?thesis using "1.prems" Cons c ih [of "tl (tl (tl r))"]
        by (cases r; cases "tl r"; cases "tl (tl r)") (simp_all split: list.splits)
    qed
  qed (use "1.prems" in simp)
qed

lemma is_str_parts:
  assumes "is_str p" and "q \<in> set (split_on SLASH p)"
  shows "is_str q"
proof -
  have "utf8_ok (map ordc p) \<Longrightarrow> \<forall>q \<in> set (split_on SLASH p). utf8_ok (map ordc q)" for p
  proof (induction "length p" arbitrary: p rule: less_induct)
    case less
    show ?case
    proof (cases "SLASH \<in> set p")
      case True
      then obtain a b where p: "p = a @ SLASH # b" "SLASH \<notin> set a" using split_list_first by fastforce
      then have "utf8_ok (map ordc a) \<and> utf8_ok (map ordc b)"
        using less.prems utf8_ok_split [of "map ordc a" "map ordc b"] by (simp add: ordc_def)
      moreover have "split_on SLASH p = a # split_on SLASH b"
        using p split_on_append [of SLASH a b] by (simp add: split_on_absent)
      ultimately show ?thesis using less.hyps [of b] p by auto
    next
      case False
      then show ?thesis using less.prems by (simp add: split_on_absent)
    qed
  qed
  then show ?thesis using assms by (simp add: is_str_def)
qed

definition entry_ok :: "IndexEntry \<Rightarrow> bool" where
  "entry_ok e \<longleftrightarrow> trackable (ie_path e) \<and> is_str (ie_path e) \<and> valid_oid (ie_oid e) \<and>
     SP \<notin> set (ie_mode e) \<and> NUL \<notin> set (ie_mode e) \<and> is_str (ie_mode e) \<and> ie_mode e \<noteq> ''40000''"

definition stored :: "hash \<Rightarrow> Repo \<Rightarrow> bytes \<Rightarrow> bool" where
  "stored h r d \<longleftrightarrow> repo_object_data (from_bytes h d) r = Inr d"

lemma trackable_prefix:
  assumes "trackable p" and "split_on SLASH p = a @ b" and "a \<noteq> []"
  shows "trackable (join ''/'' a)" and "split_on SLASH (join ''/'' a) = a"
proof -
  have clean: "clean_part q" if "q \<in> set a" for q
    using assms that by (auto simp: trackable_def canonical_path_def)
  show split: "split_on SLASH (join ''/'' a) = a" using assms(3) clean by (intro split_join_clean)
  obtain x xs where "a = x # xs" using assms(3) by (cases a) auto
  then have "join ''/'' a \<noteq> ''''" using clean [of x] by (cases xs) (auto simp: clean_part_def)
  then have "canonical_path (join ''/'' a)" using split clean by (simp add: canonical_path_def)
  moreover have "''.git'' \<notin> set a \<and> ''.trunks'' \<notin> set a"
    using assms is_internal_canonical [of p] by (auto simp: trackable_def)
  ultimately show "trackable (join ''/'' a)"
    using split by (simp add: trackable_def is_internal_canonical)
qed

lemma node_depth_child: "(n, v) \<in> set kvs \<Longrightarrow> node_depth v < node_depth (Dir kvs)"
proof -
  have "x \<in> set xs \<Longrightarrow> x \<le> fold max xs (m :: nat)" and "m \<le> fold max xs m" for x xs m
    by (induction xs arbitrary: m) (auto intro: le_trans [OF max.cobounded1] le_trans [OF max.cobounded2])
  from this(1) [of "node_depth v" "map (\<lambda>(n, v). node_depth v) kvs" 0] show "(n, v) \<in> set kvs \<Longrightarrow> node_depth v < node_depth (Dir kvs)"
    by (force simp: less_Suc_eq_le)
qed

text \<open>The leaves of a nested dictionary under the path components \<open>pre\<close> carry their own paths.\<close>

definition leaves_ok :: "string list \<Rightarrow> node \<Rightarrow> bool" where
  "leaves_ok pre v \<longleftrightarrow> (\<forall>(ps, e) \<in> set (node_leaves v). entry_ok e \<and> split_on SLASH (ie_path e) = pre @ ps)"

lemma leaves_ok_child:
  assumes "leaves_ok pre (Dir kvs)" and "(n, v) \<in> set kvs"
  shows "leaves_ok (pre @ [n]) v"
  using assms by (fastforce simp: leaves_ok_def leaves_Dir_iff)

lemma child_path:
  assumes "leaves_ok pre (Dir kvs)" and "wf_node (Dir kvs)" and "(n, v) \<in> set kvs"
  shows "trackable (join ''/'' (pre @ [n]))" and "clean_part n" and "is_str n"
proof -
  obtain ps e where leaf: "(ps, e) \<in> set (node_leaves v)"
    using wf_node_sub [OF assms(2,3)] by (cases "node_leaves v") auto
  then have e: "entry_ok e" and s: "split_on SLASH (ie_path e) = (pre @ [n]) @ ps"
    using leaves_ok_child [OF assms(1,3)] by (auto simp: leaves_ok_def)
  show "trackable (join ''/'' (pre @ [n]))" using trackable_prefix(1) [OF _ s] e by (simp add: entry_ok_def)
  have "n \<in> set (split_on SLASH (ie_path e))" using s by simp
  then show "clean_part n" "is_str n"
    using e is_str_parts by (auto simp: entry_ok_def trackable_def canonical_path_def)
qed

lemma join_snoc: "join ''/'' (pre @ [n]) = (if join ''/'' pre \<noteq> '''' then join ''/'' pre @ ''/'' @ n else n)"
  if "\<forall>q \<in> set pre. q \<noteq> ''''"
proof (cases "pre = []")
  case False
  then obtain x xs where "pre = x # xs" by (cases pre) auto
  then have "join ''/'' pre \<noteq> ''''" using that by (cases xs) auto
  then show ?thesis using False by (simp add: join_append)
qed simp

lemma node_entry_wf:
  assumes "leaves_ok pre (Dir kvs)" and "wf_node (Dir kvs)" and "(n, v) \<in> set kvs" and "digest20 h"
  shows "wf_entry (node_entry h (n, v))"
proof -
  note n = child_path [OF assms(1-3)]
  have nul: "NUL \<notin> set n" using n(2) by (auto simp: clean_part_def is_control_def ordc_def)
  show ?thesis
  proof (cases v)
    case (Leaf e)
    then have "entry_ok e" using leaves_ok_child [OF assms(1,3)] by (simp add: leaves_ok_def)
    then show ?thesis using Leaf n(3) nul by (simp add: node_entry_def wf_entry_def entry_ok_def)
  next
    case (Dir c)
    then have "valid_oid (tree_id (node_tree h v))"
      using assms(4) by (simp add: node_tree_Dir object_id_def del: node_tree.simps)
    then show ?thesis using Dir n(3) nul by (simp add: node_entry_def wf_entry_def is_str_def)
  qed
qed

lemma repo_tree_stored:
  assumes "leaves_ok pre (Dir kvs)" and "wf_node (Dir kvs)" and "digest20 h"
    and "stored h r (tree_canonical (node_tree h (Dir kvs)))"
  shows "repo_tree h (tree_id (node_tree h (Dir kvs))) r = Inr (node_tree h (Dir kvs))"
proof -
  let ?t = "node_tree h (Dir kvs)"
  have id: "from_bytes h (tree_canonical ?t) = tree_id ?t"
    unfolding node_tree_Dir by (rule from_bytes_tree_canonical)
  have wf: "\<And>e. e \<in> set (tree_entries ?t) \<Longrightarrow> wf_entry e"
    using node_entry_wf [OF assms(1,2) _ assms(3)] unfolding tree_entries_node_tree by auto
  have "tree_id ?t = object_id h ''tree'' (serialize_tree_entries (tree_entries ?t))"
    unfolding node_tree_Dir tree_from_entries_simps ..
  from parse_tree_payload_canonical [OF wf this]
  have "parse_tree_payload h (serialize_tree_entries (tree_entries ?t)) = Inr ?t" .
  then show ?thesis
    using assms(4) id by (simp add: stored_def repo_tree_def repo_payload_def tree_canonical_def parse_canonical_canonical
        del: node_tree.simps)
qed

lemma disjoint_heads:
  "(\<And>p. p \<in> A \<Longrightarrow> hd p = a) \<Longrightarrow> (\<And>p. p \<in> B \<Longrightarrow> hd p \<in> C) \<Longrightarrow> a \<notin> C \<Longrightarrow> A \<inter> B = {}"
  by auto

lemma distinct_concat_heads:
  assumes "distinct (map fst xs)" and "\<And>x. x \<in> set xs \<Longrightarrow> distinct (map fst (g x))"
  shows "distinct (map fst (concat (map (\<lambda>kv. map (\<lambda>(ps, e). (fst kv # ps, e)) (g kv)) xs)))"
  using assms
proof (induction xs)
  case (Cons x xs)
  have eq: "map fst (map (\<lambda>(ps, e). (fst x # ps, e)) (g x)) = map ((#) (fst x)) (map fst (g x))"
    by (simp add: o_def case_prod_beta)
  have d: "distinct (map ((#) (fst x)) (map fst (g x)))"
    using Cons.prems(2) [of x] by (simp add: distinct_map inj_on_def)
  have "hd p \<in> fst ` set xs" if "p \<in> set (map fst (concat (map (\<lambda>kv. map (\<lambda>(ps, e). (fst kv # ps, e)) (g kv)) xs)))" for p
    using that by force
  moreover have "hd p = fst x" if "p \<in> set (map ((#) (fst x)) (map fst (g x)))" for p using that by auto
  moreover have "fst x \<notin> fst ` set xs" using Cons.prems(1) by simp
  ultimately have "set (map ((#) (fst x)) (map fst (g x))) \<inter>
      set (map fst (concat (map (\<lambda>kv. map (\<lambda>(ps, e). (fst kv # ps, e)) (g kv)) xs))) = {}"
    by (intro disjoint_heads [of _ "fst x" _ "fst ` set xs"])
  then show ?case
    using Cons.IH Cons.prems d unfolding list.map concat.simps map_append distinct_append eq by simp
qed simp

lemma foldR_concat:
  assumes "\<And>x acc. x \<in> set xs \<Longrightarrow> f acc (k x) = Inr (acc @ g x)"
  shows "foldR f acc (map k xs) = Inr (acc @ concat (map g xs))"
  using assms by (induction xs arbitrary: acc) auto

lemma flatten_node:
  assumes "leaves_ok pre (Dir kvs)" and "wf_node (Dir kvs)" and "digest20 h"
    and "\<forall>d \<in> set (node_objects h (Dir kvs)). stored h r d" and "node_depth (Dir kvs) \<le> limit"
    and "\<forall>q \<in> set pre. q \<noteq> ''''"
  shows "\<exists>ls. repo_flatten_tree h limit (tree_id (node_tree h (Dir kvs))) (join ''/'' pre) r = Inr (map snd ls) \<and>
    set ls = set (node_leaves (Dir kvs)) \<and> distinct (map fst ls)"
  using assms
proof (induction limit arbitrary: pre kvs)
  case 0
  then show ?case by simp
next
  case (Suc limit)
  let ?t = "node_tree h (Dir kvs)" and ?s = "sort_key fst kvs"
  have tree: "repo_tree h (tree_id ?t) r = Inr ?t"
    using Suc.prems(4) by (intro repo_tree_stored [OF Suc.prems(1-3)]) simp
  let ?f = "\<lambda>results entry.
      if SLASH \<in> set (te_name entry) \<or> BSLASH \<in> set (te_name entry) then Inl (InvalidPath (te_name entry))
      else
        bindR (repo_validate_tree_path (if join ''/'' pre \<noteq> '''' then join ''/'' pre @ ''/'' @ te_name entry else te_name entry)) (\<lambda>path.
        if te_mode entry = ''40000''
        then bindR (repo_flatten_tree h limit (te_oid entry) path r) (\<lambda>sub. Inr (results @ sub))
        else Inr (results @ [\<lparr>ie_path = path, ie_oid = te_oid entry, ie_mode = te_mode entry\<rparr>]))"
  have child: "\<exists>ls. (\<forall>acc. ?f acc (node_entry h kv) = Inr (acc @ map snd ls)) \<and>
      set ls = set (node_leaves (snd kv)) \<and> distinct (map fst ls)" if kv: "kv \<in> set kvs" for kv
  proof -
    obtain n v where nv: "kv = (n, v)" by (cases kv)
    then have mem: "(n, v) \<in> set kvs" using kv by simp
    note n = child_path [OF Suc.prems(1,2) mem]
    have path: "(if join ''/'' pre \<noteq> '''' then join ''/'' pre @ ''/'' @ n else n) = join ''/'' (pre @ [n])"
      using join_snoc [of pre n] Suc.prems(6) by simp
    have name: "SLASH \<notin> set n \<and> BSLASH \<notin> set n" using n(2) by (simp add: clean_part_def)
    have valid: "repo_validate_tree_path (join ''/'' (pre @ [n])) = Inr (join ''/'' (pre @ [n]))"
      by (rule trackable_normalize(2) [OF n(1)])
    have red: "?f acc te = (if te_mode te = ''40000''
        then bindR (repo_flatten_tree h limit (te_oid te) (join ''/'' (pre @ [n])) r) (\<lambda>sub. Inr (acc @ sub))
        else Inr (acc @ [\<lparr>ie_path = join ''/'' (pre @ [n]), ie_oid = te_oid te, ie_mode = te_mode te\<rparr>]))"
      if "te_name te = n" for acc te
      using name valid by (simp only: that path) simp
    have entry: "te_name (node_entry h kv) = n" using nv by simp
    show ?thesis
    proof (cases v)
      case (Leaf e)
      then have e: "entry_ok e" "split_on SLASH (ie_path e) = pre @ [n]"
        using leaves_ok_child [OF Suc.prems(1) mem] by (simp_all add: leaves_ok_def)
      have "ie_path e = join ''/'' (pre @ [n])" using e(2) join_split_on [of SLASH "ie_path e"] by simp
      then have "\<forall>acc. ?f acc (node_entry h kv) = Inr (acc @ [e])"
        unfolding red [OF entry] using e(1) nv Leaf by (simp add: node_entry_def entry_ok_def)
      then show ?thesis using nv Leaf by (intro exI [of _ "[([], e)]"]) simp
    next
      case (Dir c)
      have objs: "\<forall>d \<in> set (node_objects h (Dir c)). stored h r d"
        using Suc.prems(4) mem Dir by (auto simp del: node_tree.simps)
      have pre: "\<forall>q \<in> set (pre @ [n]). q \<noteq> ''''" using Suc.prems(6) n(2) by (auto simp: clean_part_def)
      have "node_depth (Dir c) \<le> limit" using node_depth_child [OF mem] Suc.prems(5) Dir by simp
      from Suc.IH [OF leaves_ok_child [OF Suc.prems(1) mem, unfolded Dir] _ Suc.prems(3) objs this pre]
      obtain ls where ls: "repo_flatten_tree h limit (tree_id (node_tree h (Dir c))) (join ''/'' (pre @ [n])) r = Inr (map snd ls)"
        "set ls = set (node_leaves (Dir c))" "distinct (map fst ls)"
        using wf_node_sub [OF Suc.prems(2) mem] Dir by blast
      have "?f acc (node_entry h kv) = Inr (acc @ map snd ls)" for acc
        unfolding red [OF entry] using nv Dir ls(1) by (simp add: node_entry_def del: node_tree.simps)
      then show ?thesis using nv Dir ls by auto
    qed
  qed
  define g where "g kv = (SOME ls. (\<forall>acc. ?f acc (node_entry h kv) = Inr (acc @ map snd ls)) \<and>
      set ls = set (node_leaves (snd kv)) \<and> distinct (map fst ls))" for kv
  have g: "(\<forall>acc. ?f acc (node_entry h kv) = Inr (acc @ map snd (g kv))) \<and>
      set (g kv) = set (node_leaves (snd kv)) \<and> distinct (map fst (g kv))" if "kv \<in> set kvs" for kv
    unfolding g_def by (rule someI_ex) (rule child [OF that])
  let ?ls = "concat (map (\<lambda>kv. map (\<lambda>(ps, e). (fst kv # ps, e)) (g kv)) ?s)"
  have "foldR ?f [] (map (node_entry h) ?s) = Inr ([] @ concat (map (\<lambda>kv. map snd (g kv)) ?s))"
    using g by (intro foldR_concat) simp
  moreover have "concat (map (\<lambda>kv. map snd (g kv)) ?s) = map snd ?ls"
    by (simp add: map_concat o_def case_prod_beta)
  ultimately have run: "repo_flatten_tree h (Suc limit) (tree_id ?t) (join ''/'' pre) r = Inr (map snd ?ls)"
    using tree tree_entries_node_tree [of h kvs] by (simp del: node_tree.simps)
  have gset: "set (g kv) = set (node_leaves (snd kv))" and gdist: "distinct (map fst (g kv))" if "kv \<in> set kvs" for kv
    using g [OF that] by blast+
  have "(qs, e) \<in> set ?ls \<longleftrightarrow> (qs, e) \<in> set (node_leaves (Dir kvs))" for qs e
  proof -
    have "(qs, e) \<in> set ?ls \<longleftrightarrow> (\<exists>kv \<in> set kvs. \<exists>ps. qs = fst kv # ps \<and> (ps, e) \<in> set (g kv))" by force
    also have "\<dots> \<longleftrightarrow> (\<exists>kv \<in> set kvs. \<exists>ps. qs = fst kv # ps \<and> (ps, e) \<in> set (node_leaves (snd kv)))"
      using gset by blast
    also have "\<dots> \<longleftrightarrow> (qs, e) \<in> set (node_leaves (Dir kvs))"
      unfolding leaves_Dir_iff by force
    finally show ?thesis .
  qed
  then have set: "set ?ls = set (node_leaves (Dir kvs))" by (simp only: set_eq_iff split_paired_All simp_thms)
  have "distinct (map fst ?s)" using Suc.prems(2) by (simp add: distinct_map)
  then have dist: "distinct (map fst ?ls)" using gdist by (intro distinct_concat_heads) auto
  show ?case using run set dist by blast
qed


section \<open>Committing\<close>

definition repo_data :: "Repo \<Rightarrow> bytes set" where
  "repo_data r = snd ` snd ` set (r_objects r)"

lemma added_stored:
  assumes "added h D r r'" and "repo_inv h r" and "inj_on h (repo_data r \<union> D)" and "d \<in> D"
  shows "stored h r' d"
proof -
  obtain k d' where kd: "map_of (r_objects r') (oid_value (from_bytes h d)) = Some (k, d')"
    using assms(1,4) unfolding added_def by fast
  have "d' \<in> repo_data r \<union> D \<and> from_bytes h d' = from_bytes h d"
  proof (cases "map_of (r_objects r) (oid_value (from_bytes h d)) = Some (k, d')")
    case True
    then have "from_bytes h d' = from_bytes h d" using repo_inv_object(2) [OF assms(2)] by fastforce
    moreover have "d' \<in> repo_data r" using map_of_SomeD [OF True] by (force simp: repo_data_def)
    ultimately show ?thesis by simp
  next
    case False
    then have "d' \<in> D \<and> oid_value (from_bytes h d) = oid_value (from_bytes h d')"
      using assms(1) kd unfolding added_def by fast
    then show ?thesis using ObjectId.expand [of "from_bytes h d'" "from_bytes h d"] by auto
  qed
  then have "d' = d" using assms(3,4) by (auto simp: inj_on_def)
  then show ?thesis using kd by (simp add: stored_def repo_object_data_def)
qed

lemma added_inv:
  assumes "added h D r r'" and "repo_inv h r" and "digest20 h"
  shows "repo_inv h r'"
proof -
  note f = added_fields [OF assms(1)]
  have wf: "wf_dict (r_objects r')" using assms(1,2) by (simp add: added_def repo_inv_def)
  have "valid_oid_str o' \<and> from_bytes h d = ObjectId o' \<and> (\<exists>p. parse_canonical_object d = Inr (k, p))"
    if "map_of (r_objects r') o' = Some (k, d)" for o' k d
  proof (cases "map_of (r_objects r) o' = Some (k, d)")
    case True
    then show ?thesis using repo_inv_object [OF assms(2)] by blast
  next
    case False
    then have "o' = oid_value (from_bytes h d)" "\<exists>p. parse_canonical_object d = Inr (k, p)"
      using assms(1) that unfolding added_def by fast+
    then show ?thesis using valid_from_bytes [OF assms(3), of d] by (simp add: valid_oid_def)
  qed
  then show ?thesis
    using assms(2) wf unfolding repo_inv_def f by (auto simp: wf_dict_map_of_iff [OF wf, symmetric])
qed

text \<open>The canonical bytes of the trees of an index.\<close>

definition written_trees :: "hash \<Rightarrow> IndexEntry list \<Rightarrow> bytes set" where
  "written_trees h es = (case nest_entries es of Inl _ \<Rightarrow> {} | Inr kvs \<Rightarrow> set (node_objects h (Dir kvs)))"

lemma node_depth_bound:
  assumes "wf_node v" and "\<forall>(ps, e) \<in> set (node_leaves v). length ps \<le> n"
  shows "node_depth v \<le> max 1 n"
  using assms
proof (induction v arbitrary: n rule: node_depth.induct)
  case (2 kvs)
  have fold: "(\<forall>x \<in> set xs. x \<le> m) \<Longrightarrow> k \<le> m \<Longrightarrow> fold max xs k \<le> (m :: nat)" for xs k m
    by (induction xs arbitrary: k) auto
  have "node_depth v \<le> n - 1" if kv: "(k, v) \<in> set kvs" for k v
  proof -
    have wf: "wf_node v" "node_leaves v \<noteq> []" using wf_node_sub [OF "2.prems"(1) kv] by simp_all
    have l: "Suc (length ps) \<le> n" if "(ps, e) \<in> set (node_leaves v)" for ps e
    proof -
      have "(k # ps, e) \<in> set (node_leaves (Dir kvs))" unfolding leaves_Dir_iff using kv that by blast
      then show ?thesis using "2.prems"(2) by auto
    qed
    show ?thesis
    proof (cases v)
      case (Dir c)
      have "\<exists>ps e. (ps, e) \<in> set (node_leaves v) \<and> ps \<noteq> []"
        using wf(2) Dir by (cases "node_leaves v") (auto simp: leaves_Dir_iff, metis leaves_Dir_iff list.set_intros(1) list.simps(3))
      then obtain ps e where "(ps, e) \<in> set (node_leaves v)" "ps \<noteq> []" by blast
      then have "2 \<le> n" using l [of ps e] by (cases ps) auto
      moreover have "node_depth v \<le> max 1 (n - 1)"
        using l wf(1) kv by (intro "2.IH" [OF kv refl]) (fastforce simp: Suc_le_eq)+
      ultimately show ?thesis by simp
    qed simp
  qed
  then have "fold max (map (\<lambda>(n, v). node_depth v) kvs) 0 \<le> n - 1" by (intro fold) auto
  then show ?case by simp
qed simp

lemma build_tree_run:
  assumes "prefix_free es" and "\<forall>e \<in> set es. entry_ok e"
  shows "\<exists>kvs r'. nest_entries es = Inr kvs \<and> repo_build_tree h es r = (Inr (node_tree h (Dir kvs)), r') \<and>
    added h (written_trees h es) r r' \<and> wf_node (Dir kvs) \<and> set (node_leaves (Dir kvs)) = leaf_of ` set es"
proof -
  obtain kvs where kvs: "nest_entries es = Inr kvs" "wf_node (Dir kvs)" "set (node_leaves (Dir kvs)) = leaf_of ` set es"
    using nest_entries_leaves [OF assms(1)] assms(2) by (auto simp: entry_ok_def)
  obtain r' where "write_tree_node h kvs r = (Inr (node_tree h (Dir kvs)), r')"
      "added h (set (node_objects h (Dir kvs))) r r'"
    using write_tree_node_run [of h kvs r] by (elim exE conjE)
  then show ?thesis using kvs by (auto simp: repo_build_tree_def written_trees_def bindS_def simp del: node_tree.simps node_objects.simps)
qed

lemma flatten_built:
  assumes "digest20 h" and "nest_entries es = Inr kvs" and "wf_node (Dir kvs)"
    and "set (node_leaves (Dir kvs)) = leaf_of ` set es" and "\<forall>e \<in> set es. entry_ok e"
    and "\<forall>d \<in> written_trees h es. stored h r d" and "0 < limit"
    and "\<forall>e \<in> set es. length (split_on SLASH (ie_path e)) \<le> limit"
  shows "\<exists>fs. repo_flatten_tree h limit (tree_id (node_tree h (Dir kvs))) '''' r = Inr fs \<and>
    set fs = set es \<and> distinct (map ie_path fs)"
proof -
  have ok: "leaves_ok [] (Dir kvs)" using assms(4,5) by (auto simp: leaves_ok_def leaf_of_def)
  have "node_depth (Dir kvs) \<le> max 1 limit"
    using assms(3,4,8) by (intro node_depth_bound) (auto simp: leaf_of_def)
  then have depth: "node_depth (Dir kvs) \<le> limit" using assms(7) by simp
  have objs: "\<forall>d \<in> set (node_objects h (Dir kvs)). stored h r d"
    using assms(2,6) by (simp add: written_trees_def del: node_objects.simps)
  obtain ls where ls: "repo_flatten_tree h limit (tree_id (node_tree h (Dir kvs))) '''' r = Inr (map snd ls)"
    "set ls = set (node_leaves (Dir kvs))" "distinct (map fst ls)"
    using flatten_node [OF ok assms(3,1) objs depth] by (auto simp del: node_tree.simps)
  have mem: "fst l = split_on SLASH (ie_path (snd l)) \<and> snd l \<in> set es" if "l \<in> set ls" for l
    using that ls(2) assms(4) by (auto simp: leaf_of_def)
  have "map fst ls = map (split_on SLASH) (map ie_path (map snd ls))" using mem by simp
  then have "distinct (map (split_on SLASH) (map ie_path (map snd ls)))" using ls(3) by metis
  then have "distinct (map ie_path (map snd ls))" unfolding distinct_map [of "split_on SLASH"] by simp
  moreover have "set (map snd ls) = set es" unfolding set_map ls(2) assms(4) by (simp add: leaf_of_def image_image)
  ultimately show ?thesis using ls(1) by (intro exI [of _ "map snd ls"]) simp
qed


text \<open>What \<^verbatim>\<open>create_commit_from_entries\<close> does when the entries have a tree: objects are added, then the
  reference moves, then the labels are recorded.\<close>

lemma create_commit_run:
  assumes "repo_inv h r" and "digest20 h" and "prefix_free es" and "\<forall>e \<in> set es. entry_ok e"
    and ps_def: "ps = (case repo_refs r (normalize_ref b) of None \<Rightarrow> [] | Some p \<Rightarrow> [p])"
  shows "\<exists>kvs s x. nest_entries es = Inr kvs \<and> x = commit_create h (tree_id (node_tree h (Dir kvs))) ps a c m \<and>
    added h (insert (commit_canonical x) (written_trees h es)) r s \<and>
    repo_create_commit_from_entries h ident es m b (Some a) (Some c) labels r =
      (Inr x, s\<lparr>r_refs := AList.update (normalize_ref b) (oid_value (c_id x)) (r_refs s),
                r_labels := r_labels s @ map (\<lambda>(k, v). (oid_value (c_id x), k, v)) labels\<rparr>) \<and>
    wf_node (Dir kvs) \<and> set (node_leaves (Dir kvs)) = leaf_of ` set es"
proof -
  obtain kvs r1 where kvs: "nest_entries es = Inr kvs" "repo_build_tree h es r = (Inr (node_tree h (Dir kvs)), r1)"
      "added h (written_trees h es) r r1" "wf_node (Dir kvs)" "set (node_leaves (Dir kvs)) = leaf_of ` set es"
    using build_tree_run [OF assms(3,4), of h r] by blast
  have ref: "repo_ref b r1 = Inr (repo_refs r (normalize_ref b))"
    using repo_ref_eq [OF assms(1), of b] added_fields(2) [OF kvs(3)] by (simp add: repo_ref_def)
  define x where "x = commit_create h (tree_id (node_tree h (Dir kvs))) ps a c m"
  have id: "c_id x = from_bytes h (commit_canonical x)"
    unfolding x_def by (rule from_bytes_commit_canonical [symmetric])
  obtain p where "parse_canonical_object (commit_canonical x) = Inr (''commit'', p)"
    by (auto simp: commit_canonical_def parse_canonical_canonical)
  then obtain s where s: "repo_put_object h (c_id x) (commit_canonical x) r1 = (Inr (), s)" "added h {commit_canonical x} r1 s"
    using added_put [of "commit_canonical x" "''commit''" p h r1] unfolding id by blast
  have run: "repo_create_commit_from_entries h ident es m b (Some a) (Some c) labels r =
      (Inr x, s\<lparr>r_refs := AList.update (normalize_ref b) (oid_value (c_id x)) (r_refs s),
                r_labels := r_labels s @ map (\<lambda>(k, v). (oid_value (c_id x), k, v)) labels\<rparr>)"
    unfolding repo_create_commit_from_entries_def Let_def option.case
      bindS_step(1) [where m = "repo_build_tree h es", OF kvs(2)]
    using s(1) by (simp add: bindS_def getsS_def ref x_def [symmetric] ps_def [symmetric] repo_set_ref_def
        repo_insert_labels_def del: node_tree.simps)
  have "added h (insert (commit_canonical x) (written_trees h es)) r s"
    using added_trans [OF kvs(3) s(2)] by simp
  with kvs(1,4,5) run show ?thesis using x_def by blast
qed

lemma sorted_entries_eq:
  assumes "distinct (map ie_path fs)" and "set fs = set es" and "sorted (map ie_path es)" and "distinct (map ie_path es)"
  shows "sort_key ie_path fs = es"
proof -
  have "distinct (map ie_path (sort_key ie_path fs))" using assms(1) by (simp add: distinct_map)
  moreover have "set (map ie_path (sort_key ie_path fs)) = set (map ie_path es)" using assms(2) by simp
  ultimately have "map ie_path (sort_key ie_path fs) = map ie_path es"
    using assms(3,4) sorted_distinct_set_unique [of "map ie_path (sort_key ie_path fs)"] by (simp add: sorted_sort_key)
  moreover have "inj_on ie_path (set (sort_key ie_path fs) \<union> set es)" using assms by (simp add: distinct_map)
  ultimately show ?thesis by (rule map_inj_on)
qed


lemma sort_key_rows:
  "sort_key fst (map (\<lambda>e. (ie_path e, g e)) fs) = map (\<lambda>e. (ie_path e, g e)) (sort_key ie_path fs)"
proof -
  have ins: "insort_key fst (ie_path e, g e) (map (\<lambda>e. (ie_path e, g e)) xs) =
      map (\<lambda>e. (ie_path e, g e)) (insort_key ie_path e xs)" for e xs
    by (induction xs) auto
  show ?thesis by (induction fs) (simp_all add: ins)
qed

lemma mapR_id: "(\<And>x. x \<in> set xs \<Longrightarrow> f (k x) = Inr x) \<Longrightarrow> mapR f (map k xs) = Inr xs"
  by (induction xs) auto

lemma index_entries_rows:
  assumes "\<forall>e \<in> set fs. entry_ok e"
  shows "repo_index_entries (r\<lparr>r_index := map (\<lambda>e. (ie_path e, oid_value (ie_oid e), ie_mode e)) fs\<rparr>) =
    Inr (sort_key ie_path fs)"
  unfolding repo_index_entries_def using assms
  by (simp add: sort_key_rows, intro mapR_id) (simp add: entry_ok_def validate_trackable mk_ObjectId_value)

lemma index_entries_paths:
  assumes "repo_inv h r" and "repo_index_entries r = Inr es"
  shows "map ie_path es = map fst (sort_key fst (r_index r))"
proof -
  let ?f = "\<lambda>(path, oid, mode). bindR (mk_ObjectId oid) (\<lambda>x.
        repo_validate_index_entry \<lparr>ie_path = path, ie_oid = x, ie_mode = mode\<rparr>)"
  have key: "mapR ?f rows = Inr es \<Longrightarrow> \<forall>(p, row) \<in> set rows. p = '''' \<or> trackable p \<Longrightarrow> map ie_path es = map fst rows" for rows
  proof (induction rows arbitrary: es)
    case (Cons row rows)
    obtain p o' md where row: "row = (p, o', md)" by (cases row)
    with Cons.prems(1) obtain x e es' where x: "repo_validate_index_entry \<lparr>ie_path = p, ie_oid = x, ie_mode = md\<rparr> = Inr e"
      "es = e # es'" "mapR ?f rows = Inr es'"
      by auto
    have "repo_validate_index_entry \<lparr>ie_path = '''', ie_oid = x, ie_mode = md\<rparr> \<noteq> Inr e"
      by (simp add: repo_validate_index_entry_def repo_normalize_trackable_path_def normalize_path_def
          replace_char_def Let_def)
    then have "trackable p" using x(1) Cons.prems(2) row by auto
    then have "ie_path e = p" using x(1) by (auto simp: validate_trackable)
    then show ?case using Cons x row by simp
  qed simp
  have "\<forall>(p, row) \<in> set (sort_key fst (r_index r)). p = '''' \<or> trackable p"
    using assms(1) by (auto simp: repo_inv_def)
  from key [OF _ this] show ?thesis using assms(2) by (simp add: repo_index_entries_def)
qed

lemma index_entries_sorted:
  assumes "repo_inv h r" and "repo_index_entries r = Inr es"
  shows "sorted (map ie_path es)" and "distinct (map ie_path es)"
  using assms(1) unfolding index_entries_paths [OF assms] by (simp_all add: sorted_sort_key repo_inv_def wf_dict_def distinct_map)


lemma load_created:
  assumes "valid_oid t" and "\<forall>p \<in> set ps. valid_oid p" and "wf_identity a" and "wf_identity c" and "is_str m"
    and "x = commit_create h t ps a c m" and "stored h r (commit_canonical x)"
  shows "repo_load_commit (c_id x) r = Inr (x\<lparr>c_author := norm_identity a, c_committer := norm_identity c,
        c_message := rstrip_by (\<lambda>c. c = NL) m\<rparr>)"
  using assms(7) parse_serialize_commit [OF assms(1) _ assms(3-5), of ps] assms(2)
  by (simp add: repo_load_commit_def repo_payload_def stored_def commit_canonical_def object_id_def
      parse_canonical_canonical assms(6) commit_create_def)

lemma reset_restores:
  assumes "repo_load_commit x r = Inr c" and "\<exists>fs. repo_flatten_tree h limit (c_tree c) '''' r = Inr fs \<and>
      set fs = set es \<and> distinct (map ie_path fs)"
    and "sorted (map ie_path es)" and "distinct (map ie_path es)" and "\<forall>e \<in> set es. entry_ok e"
  shows "\<exists>r'. repo_reset_index_to_commit h limit x r = (Inr (), r') \<and> repo_index_entries r' = Inr es"
proof -
  obtain fs where fs: "repo_flatten_tree h limit (c_tree c) '''' r = Inr fs" "set fs = set es" "distinct (map ie_path fs)"
    using assms(2) by blast
  have "repo_index_entries (r\<lparr>r_index := map (\<lambda>e. (ie_path e, oid_value (ie_oid e), ie_mode e)) fs\<rparr>) = Inr es"
    using index_entries_rows [of fs r] sorted_entries_eq [OF fs(3,2) assms(3,4)] fs(2) assms(5) by simp
  then show ?thesis
    using assms(1) fs(1,3) by (simp add: repo_reset_index_to_commit_def bindS_def getsS_def)
qed

section \<open>Properties\<close>

definition target_branch :: "string option \<Rightarrow> Repo \<Rightarrow> string" where
  "target_branch branch r =
    (case branch of None \<Rightarrow> repo_current_branch r | Some b \<Rightarrow> if b = '''' then repo_current_branch r else b)"

text \<open>C4: committing an index whose paths do not run through each other succeeds, moves the branch to the
  new commit whose parent is the old head, and keeps the repository's invariant; and whatever the
  index holds later, resetting it to that commit gives back exactly the committed entries.
  The hash must not collide on the stored data and what the commit writes.\<close>

theorem commit_restores_index:
  assumes "repo_inv h r" and "digest20 h" and "repo_index_entries r = Inr es" and "prefix_free es"
    and "\<forall>e \<in> set es. entry_ok e" and "wf_identity a" and "wf_identity c" and "is_str m"
    and "0 < limit" and "\<forall>e \<in> set es. length (split_on SLASH (ie_path e)) \<le> limit"
    and "\<forall>x. fst (repo_create_commit h ident m (Some a) (Some c) branch labels r) = Inr x \<longrightarrow>
      inj_on h (insert (commit_canonical x) (repo_data r \<union> written_trees h es))"
  shows "\<exists>x r'. repo_create_commit h ident m (Some a) (Some c) branch labels r = (Inr x, r') \<and>
    repo_inv h r' \<and> r_index r' = r_index r \<and>
    repo_ref (target_branch branch r) r' = Inr (Some (c_id x)) \<and>
    (\<forall>n. normalize_ref n \<noteq> normalize_ref (target_branch branch r) \<longrightarrow> repo_ref n r' = repo_ref n r) \<and>
    c_parents x = (case repo_ref (target_branch branch r) r of Inr (Some p) \<Rightarrow> [p] | _ \<Rightarrow> []) \<and>
    (\<forall>idx. \<exists>r''. repo_reset_index_to_commit h limit (c_id x) (r'\<lparr>r_index := idx\<rparr>) = (Inr (), r'') \<and>
       repo_index_entries r'' = Inr es)"
proof -
  define b where "b = target_branch branch r"
  define ps where "ps = (case repo_refs r (normalize_ref b) of None \<Rightarrow> [] | Some p \<Rightarrow> [p])"
  obtain kvs s x where k: "nest_entries es = Inr kvs" "x = commit_create h (tree_id (node_tree h (Dir kvs))) ps a c m"
    "added h (insert (commit_canonical x) (written_trees h es)) r s"
    "repo_create_commit_from_entries h ident es m b (Some a) (Some c) labels r =
      (Inr x, s\<lparr>r_refs := AList.update (normalize_ref b) (oid_value (c_id x)) (r_refs s),
                r_labels := r_labels s @ map (\<lambda>(k, v). (oid_value (c_id x), k, v)) labels\<rparr>)"
    "wf_node (Dir kvs)" "set (node_leaves (Dir kvs)) = leaf_of ` set es"
    using create_commit_run [OF assms(1,2,4,5) ps_def, of a c m ident labels] by blast
  define r' where "r' = s\<lparr>r_refs := AList.update (normalize_ref b) (oid_value (c_id x)) (r_refs s),
                r_labels := r_labels s @ map (\<lambda>(k, v). (oid_value (c_id x), k, v)) labels\<rparr>"
  have run: "repo_create_commit h ident m (Some a) (Some c) branch labels r = (Inr x, r')"
    using k(4) assms(3) by (simp add: repo_create_commit_def bindS_def getsS_def b_def target_branch_def r'_def)
  have id: "c_id x = from_bytes h (commit_canonical x)"
    unfolding k(2) by (rule from_bytes_commit_canonical [symmetric])
  have vid: "valid_oid (c_id x)" unfolding id by (rule valid_from_bytes [OF assms(2)])
  have "repo_inv h (snd (repo_set_ref b (c_id x) s))"
    using repo_inv_set_ref [OF added_inv [OF k(3) assms(1,2)] vid] .
  then have inv: "repo_inv h r'" by (simp add: repo_inv_def r'_def repo_set_ref_def)
  have head: "repo_ref b r' = Inr (Some (c_id x))" using vid by (simp add: repo_ref_def r'_def mk_ObjectId_value)
  have others: "repo_ref n r' = repo_ref n r" if "normalize_ref n \<noteq> normalize_ref b" for n
    using that added_fields(2) [OF k(3)] by (simp add: repo_ref_def r'_def)
  have parents: "c_parents x = (case repo_ref b r of Inr (Some p) \<Rightarrow> [p] | _ \<Rightarrow> [])"
    using repo_ref_eq [OF assms(1), of b] by (simp add: k(2) commit_create_def ps_def split: option.split)
  have idx: "r_index r' = r_index r" using added_fields(3) [OF k(3)] by (simp add: r'_def)
  have "inj_on h (repo_data r \<union> insert (commit_canonical x) (written_trees h es))"
    using assms(11) run by (simp add: insert_commute)
  from added_stored [OF k(3) assms(1) this]
  have st: "stored h (r'\<lparr>r_index := i\<rparr>) d" if "d \<in> insert (commit_canonical x) (written_trees h es)" for i d
    using that by (simp add: stored_def repo_object_data_def r'_def)
  have "valid_oid (tree_id (node_tree h (Dir kvs)))"
    using assms(2) by (simp add: node_tree_Dir object_id_def del: node_tree.simps)
  moreover have "\<forall>p \<in> set ps. valid_oid p" using repo_refs_valid [OF assms(1)] by (simp add: ps_def split: option.split)
  ultimately have load: "repo_load_commit (c_id x) (r'\<lparr>r_index := i\<rparr>) = Inr (x\<lparr>c_author := norm_identity a,
      c_committer := norm_identity c, c_message := rstrip_by (\<lambda>c. c = NL) m\<rparr>)" for i
    using load_created [OF _ _ assms(6-8) k(2) st] by blast
  have flat: "\<exists>fs. repo_flatten_tree h limit (c_tree x) '''' (r'\<lparr>r_index := i\<rparr>) = Inr fs \<and>
      set fs = set es \<and> distinct (map ie_path fs)" for i
    using flatten_built [OF assms(2) k(1,5,6) assms(5) _ assms(9,10), of "r'\<lparr>r_index := i\<rparr>"] st
    unfolding k(2) commit_create_def Commit.simps by blast
  have "\<exists>r''. repo_reset_index_to_commit h limit (c_id x) (r'\<lparr>r_index := i\<rparr>) = (Inr (), r'') \<and>
       repo_index_entries r'' = Inr es" for i
    using flat [of i] index_entries_sorted [OF assms(1,3)] assms(5) by (intro reset_restores [OF load]) simp_all
  then show ?thesis using run inv idx head others parents unfolding b_def by blast
qed


definition sample_entry :: IndexEntry where
  "sample_entry = \<lparr>ie_path = ''a'', ie_oid = sample_oid (CHR ''1''), ie_mode = ''100644''\<rparr>"

definition sample_repo :: Repo where
  "sample_repo = repo_empty\<lparr>r_index := [(''a'', oid_value (sample_oid (CHR ''1'')), ''100644'')]\<rparr>"

lemma sample_entry_ok: "entry_ok sample_entry" "split_on SLASH (ie_path sample_entry) = [''a'']"
proof -
  have "valid_oid (sample_oid (CHR ''1''))" by (rule valid_sample_oid) (simp add: is_hex_def is_digit_def)
  moreover have split: "split_on SLASH ''a'' = [''a'']" by (rule split_on_absent) simp
  moreover have "canonical_path ''a''"
    using split by (simp add: canonical_path_def clean_part_def is_control_def ordc_def)
  ultimately show "entry_ok sample_entry" "split_on SLASH (ie_path sample_entry) = [''a'']"
    by (simp_all add: entry_ok_def sample_entry_def trackable_def is_str_def is_internal_canonical)
qed

lemma sample_repo_index: "repo_index_entries sample_repo = Inr [sample_entry]" "repo_inv sample_hash sample_repo"
proof -
  have t: "trackable ''a''" "valid_oid (sample_oid (CHR ''1''))"
    using sample_entry_ok(1) by (simp_all add: entry_ok_def sample_entry_def)
  then show "repo_inv sample_hash sample_repo" by (simp add: repo_inv_def sample_repo_def repo_empty_def wf_dict_def valid_oid_def)
  show "repo_index_entries sample_repo = Inr [sample_entry]"
    using index_entries_rows [of "[sample_entry]" repo_empty] sample_entry_ok(1)
    by (simp add: sample_repo_def sample_entry_def)
qed

theorem commit_restores_index_witness:
  "\<exists>x r' r''. repo_create_commit sample_hash sample_identity ''first'' (Some sample_identity) (Some sample_identity)
      None [] sample_repo = (Inr x, r') \<and>
    repo_reset_index_to_commit sample_hash 1 (c_id x) (r'\<lparr>r_index := []\<rparr>) = (Inr (), r'') \<and>
    repo_index_entries r'' = Inr [sample_entry]"
proof -
  have "nest_entries [sample_entry] = Inr [(''a'', Leaf sample_entry)]"
    using sample_entry_ok by (simp add: nest_entries_def validate_trackable entry_ok_def)
  then have trees: "written_trees sample_hash [sample_entry] = {tree_canonical (node_tree sample_hash (Dir [(''a'', Leaf sample_entry)]))}"
    by (simp add: written_trees_def)
  have inj: "inj_on sample_hash (insert (commit_canonical x) (repo_data sample_repo \<union> written_trees sample_hash [sample_entry]))" for x
    unfolding trees
    by (simp add: repo_data_def sample_repo_def repo_empty_def inj_on_def sample_hash_def commit_canonical_def
        tree_canonical_def canonical_object_def del: node_tree.simps)
  show ?thesis
    using commit_restores_index [OF sample_repo_index(2) digest20_sample sample_repo_index(1) _ _ sample_identity_wf
        sample_identity_wf, of "''first''" 1 sample_identity None "[]"] inj sample_entry_ok
    by (simp add: prefix_free_def is_str_def) blast
qed

end
