(* ===== verification/RepoGraph.thy ===== *)
theory RepoGraph
  imports RepoTree
begin

text \<open>
  \<^verbatim>\<open>src/trunks/repository.py\<close>, the object graph: \<^verbatim>\<open>reachable_objects\<close>, \<^verbatim>\<open>check_integrity\<close> and
  \<^verbatim>\<open>clean_unreachable\<close>. The stacks are lists with their top first and \<^verbatim>\<open>seen\<close> is the list of the
  visited ids. Every visited id that is stored is visited for the first time, so the loops end: the
  measure is the number of stored ids not seen, then the height of the stack.

  The reference relation is \<open>reach\<close>; the loops compute it (\<open>reachable_objects_reach\<close>), the check
  reports nothing exactly when every reachable object is stored under its hash and well-formed
  (\<open>check_integrity_iff\<close>), and cleaning keeps exactly the reachable objects.
\<close>

section \<open>The loops\<close>

text \<open>The ids an object refers to, in the order they are pushed.\<close>

definition object_links :: "hash \<Rightarrow> ObjectId \<Rightarrow> bytes \<Rightarrow> ObjectId list res" where
  "object_links h oid data =
    bindR (parse_canonical_object data) (\<lambda>(kind, payload).
    if kind = ''commit'' then bindR (parse_commit_payload payload oid) (\<lambda>c. Inr (c_tree c # c_parents c))
    else if kind = ''tree'' then bindR (parse_tree_payload h payload) (\<lambda>t. Inr (map te_oid (tree_entries t)))
    else Inr [])"

definition unseen :: "Repo \<Rightarrow> ObjectId list \<Rightarrow> nat" where
  "unseen r seen = card (fst ` set (r_objects r) - oid_value ` set seen)"

lemma unseen_less:
  assumes "repo_object_data oid r = Inr d" and "oid \<notin> set seen"
  shows "unseen r (oid # seen) < unseen r seen"
proof -
  have "oid_value oid \<in> fst ` set (r_objects r)"
    using assms(1) by (auto simp: repo_object_data_def split: option.splits dest!: map_of_SomeD intro: rev_image_eqI)
  moreover have "oid_value oid \<notin> oid_value ` set seen" using assms(2) by (auto dest: ObjectId.expand)
  ultimately show ?thesis unfolding unseen_def by (intro psubset_card_mono) auto
qed

lemma unseen_mono: "unseen r (oid # seen) \<le> unseen r seen"
  unfolding unseen_def by (intro card_mono) auto

function reach_loop :: "hash \<Rightarrow> Repo \<Rightarrow> ObjectId list \<Rightarrow> ObjectId list \<Rightarrow> ObjectId list res" where
  "reach_loop h r [] seen = Inr seen"
| "reach_loop h r (oid # stack) seen =
    (if oid \<in> set seen then reach_loop h r stack seen
     else case repo_object_data oid r of
       Inl _ \<Rightarrow> reach_loop h r stack (oid # seen)
     | Inr data \<Rightarrow> bindR (object_links h oid data) (\<lambda>links. reach_loop h r (rev links @ stack) (oid # seen)))"
  by pat_completeness auto
termination
proof (relation "measures [\<lambda>(h, r, stack, seen). unseen r seen, \<lambda>(h, r, stack, seen). length stack]", goal_cases)
  case (3 h r oid stack seen e)
  then show ?case using unseen_mono [of r oid seen] by (simp add: le_less)
next
  case (4 h r oid stack seen d links)
  then show ?case using unseen_less [of oid r d seen] by simp
qed simp_all

definition repo_reachable_objects :: "hash \<Rightarrow> Repo \<Rightarrow> ObjectId list res" where
  "repo_reachable_objects h r =
    bindR (repo_list_refs r) (\<lambda>refs. reach_loop h r (rev (map snd refs)) [])"

text \<open>The inner loop of \<^verbatim>\<open>check_integrity\<close> over a tree: the ids pushed, and the exception if one is raised.\<close>

fun check_entries :: "TreeEntry list \<Rightarrow> ObjectId list \<times> error option" where
  "check_entries [] = ([], None)"
| "check_entries (e # es) =
    (if SLASH \<in> set (te_name e) \<or> BSLASH \<in> set (te_name e) then ([], Some (InvalidPath (te_name e)))
     else case repo_validate_tree_path (te_name e) of
       Inl x \<Rightarrow> ([], Some x)
     | Inr _ \<Rightarrow> (case check_entries es of (pushed, x) \<Rightarrow> (te_oid e # pushed, x)))"

definition check_links :: "hash \<Rightarrow> ObjectId \<Rightarrow> string \<Rightarrow> bytes \<Rightarrow> ObjectId list \<times> error option" where
  "check_links h oid kind payload =
    (if kind = ''commit'' then
       (case parse_commit_payload payload oid of Inl x \<Rightarrow> ([], Some x) | Inr c \<Rightarrow> (c_tree c # c_parents c, None))
     else if kind = ''tree'' then
       (case parse_tree_payload h payload of Inl x \<Rightarrow> ([], Some x) | Inr t \<Rightarrow> check_entries (tree_entries t))
     else ([], None))"

text \<open>What one visit finds: the ids to push and the error to report.\<close>

definition check_visit :: "hash \<Rightarrow> ObjectId \<Rightarrow> bytes \<Rightarrow> ObjectId list \<times> string option" where
  "check_visit h oid data =
    (case parse_canonical_object data of
       Inl x \<Rightarrow> ([], Some (''corrupt object: '' @ oid_value oid @ '' ('' @ exc_str x @ '')''))
     | Inr (kind, payload) \<Rightarrow>
       if from_bytes h data \<noteq> oid then ([], Some (''object id mismatch: '' @ oid_value oid))
       else (case check_links h oid kind payload of (pushed, x) \<Rightarrow>
         (pushed, map_option (\<lambda>e. ''corrupt '' @ kind @ '' object: '' @ oid_value oid @ '' ('' @ exc_str e @ '')'') x)))"

function check_loop :: "hash \<Rightarrow> Repo \<Rightarrow> ObjectId list \<Rightarrow> ObjectId list \<Rightarrow> string list \<Rightarrow> string list" where
  "check_loop h r [] seen errors = errors"
| "check_loop h r (oid # stack) seen errors =
    (if oid \<in> set seen then check_loop h r stack seen errors
     else case repo_object_data oid r of
       Inl _ \<Rightarrow> check_loop h r stack (oid # seen) (errors @ [''missing object: '' @ oid_value oid])
     | Inr data \<Rightarrow> check_loop h r (rev (fst (check_visit h oid data)) @ stack) (oid # seen)
         (errors @ (case snd (check_visit h oid data) of None \<Rightarrow> [] | Some e \<Rightarrow> [e])))"
  by pat_completeness auto
termination
proof (relation "measures [\<lambda>(h, r, stack, seen, errors). unseen r seen, \<lambda>(h, r, stack, seen, errors). length stack]", goal_cases)
  case (3 h r oid stack seen errors e)
  then show ?case using unseen_mono [of r oid seen] by (simp add: le_less)
next
  case (4 h r oid stack seen errors d)
  then show ?case using unseen_less [of oid r d seen] by simp
qed simp_all

text \<open>The loop over the references: the stack, last pushed first, and the errors.\<close>

fun check_refs :: "(string \<times> string) list \<Rightarrow> ObjectId list \<Rightarrow> string list \<Rightarrow> ObjectId list \<times> string list" where
  "check_refs [] stack errors = (stack, errors)"
| "check_refs ((name, raw_oid) # rs) stack errors =
    (case mk_ObjectId raw_oid of
       Inl _ \<Rightarrow> check_refs rs stack (errors @ [''invalid ref target: '' @ name @ '' -> '' @ raw_oid])
     | Inr oid \<Rightarrow> check_refs rs (oid # stack) errors)"

definition repo_check_integrity :: "hash \<Rightarrow> Repo \<Rightarrow> string list" where
  "repo_check_integrity h r =
    (case check_refs (repo_raw_refs r) [] [] of (stack, errors) \<Rightarrow> check_loop h r stack [] errors)"

definition repo_clean_unreachable :: "hash \<Rightarrow> (Repo, nat) st" where
  "repo_clean_unreachable h = (\<lambda>r.
    if repo_check_integrity h r \<noteq> []
    then (Inl (RepositoryCorrupt ''repository failed check; run trunks check before cleaning''), r)
    else case repo_reachable_objects h r of
      Inl e \<Rightarrow> (Inl e, r)
    | Inr reachable \<Rightarrow>
      let stale = filter (\<lambda>oid. oid \<notin> oid_value ` set reachable) (map fst (r_objects r))
      in (Inr (length stale), r_objects_update (filter (\<lambda>(oid, _). oid \<notin> set stale)) r))"

section \<open>The object graph\<close>

inductive reach :: "hash \<Rightarrow> Repo \<Rightarrow> ObjectId \<Rightarrow> bool" for h r where
  reach_ref: "(n, v) \<in> set (r_refs r) \<Longrightarrow> mk_ObjectId v = Inr x \<Longrightarrow> reach h r x"
| reach_link: "reach h r x \<Longrightarrow> repo_object_data x r = Inr d \<Longrightarrow> object_links h x d = Inr ls \<Longrightarrow> y \<in> set ls \<Longrightarrow>
    reach h r y"

definition links_of :: "hash \<Rightarrow> Repo \<Rightarrow> ObjectId \<Rightarrow> ObjectId set" where
  "links_of h r x = {y. \<exists>d ls. repo_object_data x r = Inr d \<and> object_links h x d = Inr ls \<and> y \<in> set ls}"

definition roots :: "Repo \<Rightarrow> ObjectId set" where
  "roots r = {x. \<exists>n v. (n, v) \<in> set (r_refs r) \<and> mk_ObjectId v = Inr x}"

definition links_closed :: "hash \<Rightarrow> Repo \<Rightarrow> ObjectId set \<Rightarrow> bool" where
  "links_closed h r S \<longleftrightarrow> (\<forall>x \<in> S. links_of h r x \<subseteq> S)"

lemma reach_closed: "roots r \<subseteq> {x. reach h r x}" "links_closed h r {x. reach h r x}"
  by (auto simp: roots_def links_closed_def links_of_def intro: reach.intros)

lemma links_of_stored: "repo_object_data x r = Inr d \<Longrightarrow> object_links h x d = Inr ls \<Longrightarrow> links_of h r x = set ls"
  by (auto simp: links_of_def)

lemma links_of_missing: "repo_object_data x r = Inl e \<Longrightarrow> links_of h r x = {}"
  by (auto simp: links_of_def)

lemma reach_least: "roots r \<subseteq> S \<Longrightarrow> links_closed h r S \<Longrightarrow> reach h r x \<Longrightarrow> x \<in> S"
proof (rotate_tac 2, induction rule: reach.induct)
  case (reach_ref n v x)
  then show ?case by (auto simp: roots_def)
next
  case (reach_link x d ls y)
  then show ?case using links_of_stored [OF reach_link(2,3)] by (auto simp: links_closed_def)
qed

lemma reach_loop_lower:
  assumes "reach_loop h r stack seen = Inr out" and "\<forall>x \<in> set seen. links_of h r x \<subseteq> set seen \<union> set stack"
  shows "set seen \<union> set stack \<subseteq> set out \<and> links_closed h r (set out)"
  using assms
proof (induction h r stack seen rule: reach_loop.induct)
  case (1 h r seen)
  then show ?case by (simp add: links_closed_def)
next
  case (2 h r oid stack seen)
  show ?case
  proof (cases "oid \<in> set seen")
    case True
    then show ?thesis using "2.IH"(1) "2.prems" by (auto simp: insert_absorb)
  next
    case new: False
    show ?thesis
    proof (cases "repo_object_data oid r")
      case (Inl e)
      have "\<forall>x \<in> set (oid # seen). links_of h r x \<subseteq> set (oid # seen) \<union> set stack"
        using "2.prems"(2) links_of_missing [OF Inl] by auto
      then show ?thesis using "2.IH"(2) [OF new Inl] "2.prems"(1) new Inl by auto
    next
      case (Inr d)
      then obtain ls where ls: "object_links h oid d = Inr ls" "reach_loop h r (rev ls @ stack) (oid # seen) = Inr out"
        using "2.prems"(1) new by auto
      have "\<forall>x \<in> set (oid # seen). links_of h r x \<subseteq> set (oid # seen) \<union> set (rev ls @ stack)"
        using "2.prems"(2) links_of_stored [OF Inr ls(1)] by auto
      then show ?thesis using "2.IH"(3) [OF new Inr ls(1) ls(2)] by auto
    qed
  qed
qed

lemma reach_loop_upper:
  assumes "reach_loop h r stack seen = Inr out" and "set seen \<union> set stack \<subseteq> S" and "links_closed h r S"
  shows "set out \<subseteq> S"
  using assms
proof (induction h r stack seen rule: reach_loop.induct)
  case (2 h r oid stack seen)
  show ?case
  proof (cases "oid \<in> set seen")
    case new: False
    show ?thesis
    proof (cases "repo_object_data oid r")
      case (Inr d)
      then obtain ls where ls: "object_links h oid d = Inr ls" "reach_loop h r (rev ls @ stack) (oid # seen) = Inr out"
        using "2.prems"(1) new by auto
      have "set ls \<subseteq> S" using "2.prems"(2,3) links_of_stored [OF Inr ls(1)] by (auto simp: links_closed_def)
      then show ?thesis using "2.IH"(3) [OF new Inr ls(1) ls(2)] "2.prems"(2,3) by simp
    qed (use "2.IH"(2) [OF new] "2.prems" new in simp)
  qed (use "2.IH"(1) "2.prems" in simp)
qed simp

lemma reach_loop_ok:
  assumes "set stack \<subseteq> S" and "links_closed h r S"
    and "\<forall>x \<in> S. \<forall>d. repo_object_data x r = Inr d \<longrightarrow> ok (object_links h x d)"
  shows "ok (reach_loop h r stack seen)"
  using assms
proof (induction h r stack seen rule: reach_loop.induct)
  case (2 h r oid stack seen)
  show ?case
  proof (cases "oid \<in> set seen")
    case new: False
    show ?thesis
    proof (cases "repo_object_data oid r")
      case (Inr d)
      then obtain ls where ls: "object_links h oid d = Inr ls" using "2.prems"(1,3) by (fastforce simp: ok_iff)
      have "set ls \<subseteq> S" using "2.prems"(1,2) links_of_stored [OF Inr ls(1)] by (auto simp: links_closed_def)
      then show ?thesis using "2.IH"(3) [OF new Inr ls(1)] "2.prems" new Inr ls by simp
    qed (use "2.IH"(2) [OF new] "2.prems" new in simp)
  qed (use "2.IH"(1) "2.prems" in simp)
qed simp

lemma list_refs_roots:
  assumes "repo_list_refs r = Inr refs"
  shows "snd ` set refs = roots r"
proof -
  have "list_all2 (\<lambda>(n, v) y. \<exists>x. mk_ObjectId v = Inr x \<and> y = (n, x)) (repo_raw_refs r) refs"
    using assms unfolding repo_list_refs_def mapR_Inr_iff by (rule list_all2_mono) (auto simp: bindR_eq_Inr)
  then have "snd ` set refs = {x. \<exists>n v. (n, v) \<in> set (repo_raw_refs r) \<and> mk_ObjectId v = Inr x}"
    by (induction rule: list_all2_induct) auto
  then show ?thesis by (simp add: roots_def repo_raw_refs_def)
qed

lemma reachable_objects_reach:
  assumes "repo_reachable_objects h r = Inr out"
  shows "set out = {x. reach h r x}"
proof -
  obtain refs where refs: "repo_list_refs r = Inr refs" "reach_loop h r (rev (map snd refs)) [] = Inr out"
    using assms by (auto simp: repo_reachable_objects_def)
  have roots: "set (rev (map snd refs)) = roots r" using list_refs_roots [OF refs(1)] by simp
  have "roots r \<subseteq> set out \<and> links_closed h r (set out)"
    using reach_loop_lower [OF refs(2)] roots by simp
  moreover have "set out \<subseteq> {x. reach h r x}"
    using reach_loop_upper [OF refs(2)] roots reach_closed by simp
  ultimately show ?thesis using reach_least by blast
qed


section \<open>The check\<close>

text \<open>An object is sound: stored under its hash, of the canonical form, and of a kind that parses; the names
  of a tree are paths.\<close>

definition sound_object :: "hash \<Rightarrow> Repo \<Rightarrow> ObjectId \<Rightarrow> bool" where
  "sound_object h r x \<longleftrightarrow> (\<exists>d k p. repo_object_data x r = Inr d \<and> parse_canonical_object d = Inr (k, p) \<and>
     from_bytes h d = x \<and> snd (check_links h x k p) = None)"

lemma check_entries_ok: "snd (check_entries es) = None \<Longrightarrow> fst (check_entries es) = map te_oid es"
  by (induction es) (auto split: if_splits sum.splits prod.splits)

lemma sound_visit:
  assumes "repo_object_data x r = Inr d"
  shows "sound_object h r x \<longleftrightarrow> snd (check_visit h x d) = None"
    and "sound_object h r x \<Longrightarrow> object_links h x d = Inr (fst (check_visit h x d))"
proof -
  show "sound_object h r x \<longleftrightarrow> snd (check_visit h x d) = None"
    using assms by (auto simp: sound_object_def check_visit_def split: sum.splits prod.splits)
  assume "sound_object h r x"
  then obtain k p where kp: "parse_canonical_object d = Inr (k, p)" "from_bytes h d = x" "snd (check_links h x k p) = None"
    using assms by (auto simp: sound_object_def)
  then have "fst (check_visit h x d) = fst (check_links h x k p)" by (simp add: check_visit_def split: prod.split)
  then show "object_links h x d = Inr (fst (check_visit h x d))"
    using kp by (auto simp: object_links_def check_links_def check_entries_ok split: if_splits sum.splits)
qed

lemma check_loop_keeps_errors: "\<exists>es. check_loop h r stack seen errors = errors @ es"
proof (induction h r stack seen errors rule: check_loop.induct)
  case (2 h r oid stack seen errors)
  show ?case
  proof (cases "oid \<in> set seen")
    case new: False
    show ?thesis
      using "2.IH"(2) [OF new] "2.IH"(3) [OF new] new by (cases "repo_object_data oid r") fastforce+
  qed (use "2.IH"(1) in simp)
qed simp

lemma check_loop_clean:
  assumes "check_loop h r stack seen errors = []" and "\<forall>x \<in> set seen. sound_object h r x \<and> links_of h r x \<subseteq> set seen \<union> set stack"
  shows "\<exists>S. set seen \<union> set stack \<subseteq> S \<and> links_closed h r S \<and> (\<forall>x \<in> S. sound_object h r x)"
  using assms
proof (induction h r stack seen errors rule: check_loop.induct)
  case (1 h r seen errors)
  then show ?case by (intro exI [of _ "set seen"]) (simp add: links_closed_def)
next
  case (2 h r oid stack seen errors)
  show ?case
  proof (cases "oid \<in> set seen")
    case True
    then have "\<forall>x \<in> set seen. sound_object h r x \<and> links_of h r x \<subseteq> set seen \<union> set stack" using "2.prems"(2) by auto
    then show ?thesis using "2.IH"(1) [OF True] "2.prems"(1) True by auto
  next
    case new: False
    show ?thesis
    proof (cases "repo_object_data oid r")
      case (Inl e)
      then show ?thesis
        using "2.prems"(1) new check_loop_keeps_errors [of h r stack "oid # seen" "errors @ [''missing object: '' @ oid_value oid]"]
        by auto
    next
      case (Inr d)
      let ?es = "errors @ (case snd (check_visit h oid d) of None \<Rightarrow> [] | Some e \<Rightarrow> [e])"
      have run: "check_loop h r (rev (fst (check_visit h oid d)) @ stack) (oid # seen) ?es = []"
        using "2.prems"(1) new Inr by simp
      then have "?es = []" using check_loop_keeps_errors [of h r "rev (fst (check_visit h oid d)) @ stack" "oid # seen" ?es] by simp
      then have "snd (check_visit h oid d) = None" by (auto split: option.splits)
      then have s: "sound_object h r oid" using sound_visit(1) [OF Inr] by simp
      have l: "links_of h r oid = set (fst (check_visit h oid d))" by (rule links_of_stored [OF Inr sound_visit(2) [OF Inr s]])
      have "\<forall>x \<in> set (oid # seen). sound_object h r x \<and>
          links_of h r x \<subseteq> set (oid # seen) \<union> set (rev (fst (check_visit h oid d)) @ stack)"
        using "2.prems"(2) s l by auto
      then show ?thesis using "2.IH"(3) [OF new Inr run] by auto
    qed
  qed
qed

lemma check_loop_sound:
  assumes "set stack \<subseteq> S" and "links_closed h r S" and "\<forall>x \<in> S. sound_object h r x"
  shows "check_loop h r stack seen errors = errors"
  using assms
proof (induction h r stack seen errors rule: check_loop.induct)
  case (2 h r oid stack seen errors)
  show ?case
  proof (cases "oid \<in> set seen")
    case new: False
    have s: "sound_object h r oid" using "2.prems"(1,3) by simp
    then obtain d where d: "repo_object_data oid r = Inr d" by (auto simp: sound_object_def)
    have "set (fst (check_visit h oid d)) \<subseteq> S"
      using "2.prems"(1,2) links_of_stored [OF d sound_visit(2) [OF d s]] by (auto simp: links_closed_def)
    then show ?thesis
      using "2.IH"(3) [OF new d] "2.prems" new d s sound_visit(1) [OF d] by simp
  qed (use "2.IH"(1) "2.prems" in simp)
qed simp

lemma check_refs_run:
  "check_refs rs stack errors =
    (rev (List.map_filter (\<lambda>(n, v). case mk_ObjectId v of Inl _ \<Rightarrow> None | Inr x \<Rightarrow> Some x) rs) @ stack,
     errors @ List.map_filter (\<lambda>(n, v). case mk_ObjectId v of
       Inl _ \<Rightarrow> Some (''invalid ref target: '' @ n @ '' -> '' @ v) | Inr x \<Rightarrow> None) rs)"
proof (induction rs arbitrary: stack errors)
  case (Cons p rs)
  obtain n v where "p = (n, v)" by (cases p)
  then show ?case using Cons by (cases "mk_ObjectId v") (simp_all add: map_filter_simps)
qed (simp add: map_filter_simps)

lemma check_integrity_iff:
  "repo_check_integrity h r = [] \<longleftrightarrow>
    (\<forall>(n, v) \<in> set (r_refs r). valid_oid_str v) \<and> (\<forall>x. reach h r x \<longrightarrow> sound_object h r x)"
proof -
  let ?stack = "rev (List.map_filter (\<lambda>(n, v). case mk_ObjectId v of Inl _ \<Rightarrow> None | Inr x \<Rightarrow> Some x) (repo_raw_refs r))"
  let ?errs = "List.map_filter (\<lambda>(n, v). case mk_ObjectId v of
       Inl _ \<Rightarrow> Some (''invalid ref target: '' @ n @ '' -> '' @ v) | Inr x \<Rightarrow> None) (repo_raw_refs r)"
  have eq: "repo_check_integrity h r = check_loop h r ?stack [] ?errs"
    by (simp add: repo_check_integrity_def check_refs_run)
  have stack: "set ?stack = roots r"
    by (force simp: List.map_filter_def roots_def repo_raw_refs_def split: sum.splits)
  have errs: "?errs = [] \<longleftrightarrow> (\<forall>(n, v) \<in> set (r_refs r). valid_oid_str v)"
    by (force simp: List.map_filter_def repo_raw_refs_def filter_empty_conv split: sum.splits)
  show ?thesis
  proof (intro iffI conjI)
    assume clean: "repo_check_integrity h r = []"
    then have "?errs = []" using check_loop_keeps_errors [of h r ?stack "[]" ?errs] eq by auto
    with errs show "\<forall>(n, v) \<in> set (r_refs r). valid_oid_str v" by simp
    obtain S where "set ?stack \<subseteq> S" "links_closed h r S" "\<forall>x \<in> S. sound_object h r x"
      using check_loop_clean [of h r ?stack "[]" ?errs] clean eq by auto
    then show "\<forall>x. reach h r x \<longrightarrow> sound_object h r x" using reach_least [of r S h] stack by blast
  next
    assume "(\<forall>(n, v) \<in> set (r_refs r). valid_oid_str v) \<and> (\<forall>x. reach h r x \<longrightarrow> sound_object h r x)"
    then show "repo_check_integrity h r = []"
      unfolding eq using check_loop_sound [of ?stack "{x. reach h r x}" h r "[]" ?errs] stack reach_closed errs by simp
  qed
qed


section \<open>Cleaning\<close>

lemma sound_links_ok: "sound_object h r x \<Longrightarrow> repo_object_data x r = Inr d \<Longrightarrow> ok (object_links h x d)"
  using sound_visit(2) by (simp add: ok_iff)

lemma reachable_objects_ok:
  assumes "repo_check_integrity h r = []"
  shows "\<exists>out. repo_reachable_objects h r = Inr out"
proof -
  have refs: "\<forall>(n, v) \<in> set (r_refs r). valid_oid_str v" and sound: "\<And>x. reach h r x \<Longrightarrow> sound_object h r x"
    using assms by (auto simp: check_integrity_iff)
  have parse: "mapR (\<lambda>(name, raw_oid). bindR (mk_ObjectId raw_oid) (\<lambda>x. Inr (name, x))) rs = Inr (map (\<lambda>(n, v). (n, ObjectId v)) rs)"
    if "\<forall>(n, v) \<in> set rs. valid_oid_str v" for rs
    using that by (induction rs) auto
  obtain rs where rs: "repo_list_refs r = Inr rs"
    using parse [of "sort_key fst (r_refs r)"] refs by (simp add: repo_list_refs_def repo_raw_refs_def)
  have "ok (reach_loop h r (rev (map snd rs)) [])"
    using reach_closed(1) [of r h] reach_closed(2) [of h r] list_refs_roots [OF rs] sound sound_links_ok
    by (intro reach_loop_ok [of _ "{x. reach h r x}"]) (simp_all, blast)
  then show ?thesis using rs by (simp add: repo_reachable_objects_def ok_iff)
qed

lemma map_of_filter_key: "map_of (filter (\<lambda>(k, _). P k) d) k = (if P k then map_of d k else None)"
  by (induction d) auto

text \<open>The graph depends only on the references and on the data of the reachable objects.\<close>

lemma reach_cong:
  assumes "r_refs r' = r_refs r" and "\<And>x. reach h r x \<Longrightarrow> repo_object_data x r' = repo_object_data x r"
  shows "reach h r x \<Longrightarrow> reach h r' x" and "reach h r' x \<Longrightarrow> reach h r x"
proof -
  show "reach h r x \<Longrightarrow> reach h r' x"
  proof (induction rule: reach.induct)
    case (reach_ref n v x)
    then show ?case using assms(1) by (metis reach.reach_ref)
  next
    case (reach_link x d ls y)
    then show ?case using assms(2) by (metis reach.reach_link)
  qed
  show "reach h r' x \<Longrightarrow> reach h r x"
  proof (induction rule: reach.induct)
    case (reach_ref n v x)
    then show ?case using assms(1) by (metis reach.reach_ref)
  next
    case (reach_link x d ls y)
    then show ?case using assms(2) by (metis reach.reach_link)
  qed
qed

lemma clean_run:
  assumes "repo_check_integrity h r = []"
  shows "\<exists>n r'. repo_clean_unreachable h r = (Inr n, r') \<and> r' = r\<lparr>r_objects := r_objects r'\<rparr> \<and>
    length (r_objects r') + n = length (r_objects r) \<and>
    (\<forall>x. map_of (r_objects r') (oid_value x) = (if reach h r x then map_of (r_objects r) (oid_value x) else None))"
proof -
  obtain out where out: "repo_reachable_objects h r = Inr out" using reachable_objects_ok [OF assms] by blast
  have set: "oid_value x \<in> oid_value ` set out \<longleftrightarrow> reach h r x" for x
    using reachable_objects_reach [OF out] by (auto dest: ObjectId.expand)
  let ?stale = "filter (\<lambda>oid. oid \<notin> oid_value ` set out) (map fst (r_objects r))"
  let ?os = "filter (\<lambda>(oid, _). oid \<notin> set ?stale) (r_objects r)"
  have os: "?os = filter (\<lambda>(oid, _). oid \<in> oid_value ` set out) (r_objects r)"
    by (intro filter_cong) force+
  have "length ?stale = length (filter (\<lambda>p. \<not> (case p of (oid, _) \<Rightarrow> oid \<in> oid_value ` set out)) (r_objects r))"
    by (simp add: filter_map o_def case_prod_beta)
  then have "length ?os + length ?stale = length (r_objects r)"
    unfolding os using sum_length_filter_compl [of "\<lambda>(oid, _). oid \<in> oid_value ` set out" "r_objects r"] by simp
  moreover have "map_of ?os (oid_value x) = (if reach h r x then map_of (r_objects r) (oid_value x) else None)" for x
    unfolding os map_of_filter_key set ..
  moreover have "repo_clean_unreachable h r = (Inr (length ?stale), r\<lparr>r_objects := ?os\<rparr>)"
    using assms out by (simp add: repo_clean_unreachable_def)
  ultimately show ?thesis by (intro exI [of _ "length ?stale"] exI [of _ "r\<lparr>r_objects := ?os\<rparr>"]) simp
qed

section \<open>Properties\<close>

text \<open>C6: the integrity check reports nothing exactly when every reference names an id and every object
  reachable from the references is stored under the hash of its data and parses (a tree with
  names that are paths).\<close>

theorem check_integrity_decides:
  "repo_check_integrity h r = [] \<longleftrightarrow>
    snd ` set (r_refs r) \<subseteq> {v. valid_oid_str v} \<and> {x. reach h r x} \<subseteq> {x. sound_object h r x}"
  unfolding check_integrity_iff by auto

text \<open>C5: cleaning refuses a repository that fails the check and leaves it as it was; otherwise it removes
  exactly the objects that are not reachable from the references and reports how many. Nothing else
  changes, the same objects are reachable afterwards, and the check still passes.\<close>

theorem clean_keeps_reachable:
  "case repo_clean_unreachable h r of
     (Inl e, r') \<Rightarrow> repo_check_integrity h r \<noteq> [] \<and> r' = r \<and>
       e = RepositoryCorrupt ''repository failed check; run trunks check before cleaning''
   | (Inr n, r') \<Rightarrow> repo_check_integrity h r = [] \<and> r' = r\<lparr>r_objects := r_objects r'\<rparr> \<and>
       length (r_objects r') + n = length (r_objects r) \<and>
       (\<forall>x. repo_object_data x r' =
          (if reach h r x then repo_object_data x r else Inl (ObjectNotFound (oid_value x)))) \<and>
       (\<forall>x. reach h r' x \<longleftrightarrow> reach h r x) \<and> repo_check_integrity h r' = []"
proof (cases "repo_check_integrity h r = []")
  case True
  then obtain n r' where run: "repo_clean_unreachable h r = (Inr n, r')" "r' = r\<lparr>r_objects := r_objects r'\<rparr>"
    "length (r_objects r') + n = length (r_objects r)"
    and os: "\<And>x. map_of (r_objects r') (oid_value x) = (if reach h r x then map_of (r_objects r) (oid_value x) else None)"
    using clean_run by blast
  have data: "repo_object_data x r' = (if reach h r x then repo_object_data x r else Inl (ObjectNotFound (oid_value x)))" for x
    by (simp add: repo_object_data_def os)
  have refs: "r_refs r' = r_refs r" by (subst run(2)) simp
  have reach: "reach h r' x \<longleftrightarrow> reach h r x" for x using reach_cong [OF refs, of h x] data by auto
  have "sound_object h r' x \<longleftrightarrow> sound_object h r x" if "reach h r x" for x
    using data [of x] that by (simp add: sound_object_def)
  then have "repo_check_integrity h r' = []" using True reach refs by (simp add: check_integrity_iff)
  then show ?thesis using True run data reach by simp
qed (simp add: repo_clean_unreachable_def)

end
