(* ===== verification/RepoStorage.thy ===== *)
theory RepoStorage
  imports RepoTree Storage
begin

text \<open>
  \<^verbatim>\<open>src/trunks/repository.py\<close>, the storage configuration: the primary storage and the mirrors in the
  \<^verbatim>\<open>meta\<close> table, the profiles in the \<^verbatim>\<open>storages\<close> table (name to role, backend and JSON text), and the
  configuration document that a push writes to the storages and a pull reads from them. Each
  method is a sequence of small transactions, so that a profile whose URL cannot be built is
  stored before the exception.

  The environment \<open>env\<close> and \<open>json_str\<close> are the arguments of the profiles.
\<close>

section \<open>Mirrors\<close>

definition repo_name :: "Repo \<Rightarrow> string" where
  "repo_name r = (case repo_get_meta ''repo_name'' (Some (r_stem r)) r of
     None \<Rightarrow> r_stem r | Some n \<Rightarrow> if n = '''' then r_stem r else n)"

definition repo_primary_storage_name :: "Repo \<Rightarrow> string" where
  "repo_primary_storage_name r = (case repo_get_meta ''primary_storage_name'' (Some ''primary'') r of
     None \<Rightarrow> ''primary'' | Some n \<Rightarrow> if n = '''' then ''primary'' else n)"

text \<open>The items of \<^verbatim>\<open>mirror_targets\<close> with a name and a URL that are strings and not empty.\<close>

definition target_item :: "json \<Rightarrow> (string \<times> string) option" where
  "target_item item =
    (case item of
       JObj kvs \<Rightarrow>
         (case (map_of kvs ''name'', map_of kvs ''url'') of
            (Some (JStr n), Some (JStr u)) \<Rightarrow> if n \<noteq> '''' \<and> u \<noteq> '''' then Some (n, u) else None
          | _ \<Rightarrow> None)
     | _ \<Rightarrow> None)"

text \<open>\<^verbatim>\<open>[(f"mirror-{idx + 1}", value) for idx, value in enumerate(values) if isinstance(value, str) and value]\<close>\<close>

definition numbered :: "json list \<Rightarrow> (string \<times> string) list" where
  "numbered values = List.map_filter (\<lambda>(i, v). case v of
       JStr s \<Rightarrow> if s \<noteq> '''' then Some (''mirror-'' @ dec (i + 1), s) else None | _ \<Rightarrow> None)
     (zip [0..<length values] values)"

definition repo_mirror_targets :: "Repo \<Rightarrow> (string \<times> string) list res" where
  "repo_mirror_targets r =
    (case truthy (repo_get_meta ''mirror_targets'' None r) of
       Some txt \<Rightarrow>
         (case loads txt of
            Inl _ \<Rightarrow> Inr []
          | Inr values \<Rightarrow> bindR (json_items (Some values)) (\<lambda>items. Inr (List.map_filter target_item items)))
     | None \<Rightarrow>
         (case loads (case truthy (repo_get_meta ''mirrors'' (Some ''[]'') r) of Some m \<Rightarrow> m | None \<Rightarrow> ''[]'') of
            Inl _ \<Rightarrow> Inr []
          | Inr values \<Rightarrow> bindR (json_items (Some values)) (\<lambda>items. Inr (numbered items))))"

definition repo_mirror_urls :: "Repo \<Rightarrow> string list res" where
  "repo_mirror_urls r = bindR (repo_mirror_targets r) (\<lambda>ts. Inr (map snd ts))"

definition targets_json :: "(string \<times> string) list \<Rightarrow> json" where
  "targets_json values = JList (map (\<lambda>(n, u). JObj [(''name'', JStr n), (''url'', JStr u)]) values)"

definition repo_set_mirror_targets :: "(string \<times> string) list \<Rightarrow> (Repo, unit) st" where
  "repo_set_mirror_targets values =
    bindS (repo_set_meta ''mirror_targets'' (dumps spaced (targets_json values))) (\<lambda>_.
    repo_set_meta ''mirrors'' (dumps spaced (JList (map (\<lambda>(n, u). JStr u) values))))"

definition repo_set_mirror_urls :: "string list \<Rightarrow> (Repo, unit) st" where
  "repo_set_mirror_urls values =
    repo_set_mirror_targets (map (\<lambda>(i, v). (''mirror-'' @ dec (i + 1), v)) (zip [0..<length values] values))"

section \<open>Profiles\<close>

definition repo_set_storage_profile :: "(string, string) dict \<Rightarrow> Storage \<Rightarrow> (Repo, unit) st" where
  "repo_set_storage_profile env storage =
    bindS (modifyS (r_storages_update (AList.update (sg_name storage)
      (sg_role storage, sg_backend storage, dumps spaced (sort_keys (storage_to_record storage)))))) (\<lambda>_.
    if sg_role storage = ''primary'' then
      bindS (repo_set_meta ''primary_storage_name'' (sg_name storage)) (\<lambda>_.
      bindS (getsS (\<lambda>r. storage_url env storage (repo_name r))) (\<lambda>url.
      repo_set_meta ''backend'' url))
    else if sg_role storage = ''mirror'' then
      bindS (getsS repo_mirror_targets) (\<lambda>ts.
      bindS (getsS (\<lambda>r. storage_url env storage (repo_name r))) (\<lambda>url.
      repo_set_mirror_targets (filter (\<lambda>(n, u). n \<noteq> sg_name storage) ts @ [(sg_name storage, url)])))
    else returnS ())"

definition repo_storage_profile :: "(json \<Rightarrow> string) \<Rightarrow> string \<Rightarrow> Repo \<Rightarrow> Storage option res" where
  "repo_storage_profile json_str name r =
    (case map_of (r_storages r) name of
       None \<Rightarrow> Inr None
     | Some (role, backend, data) \<Rightarrow>
       bindR (loads data) (\<lambda>j. bindR (storage_from_record json_str j) (\<lambda>s. Inr (Some s))))"

text \<open>\<^verbatim>\<open>order by role desc, name\<close>: sorting by name and then by role, the greatest first, keeping the order of names.\<close>

definition role_desc :: "(string \<times> string \<times> string \<times> string) list \<Rightarrow> (string \<times> string \<times> string \<times> string) list" where
  "role_desc rows = rev (sort_key (\<lambda>(n, role, _). role) (rev (sort_key fst rows)))"

definition repo_list_storage_profiles :: "(json \<Rightarrow> string) \<Rightarrow> Repo \<Rightarrow> Storage list res" where
  "repo_list_storage_profiles json_str r =
    mapR (\<lambda>(name, role, backend, data). bindR (loads data) (storage_from_record json_str)) (role_desc (r_storages r))"

definition repo_primary_storage_profile :: "(json \<Rightarrow> string) \<Rightarrow> Repo \<Rightarrow> Storage option res" where
  "repo_primary_storage_profile json_str r = repo_storage_profile json_str (repo_primary_storage_name r) r"

definition repo_mirror_storage_profiles :: "(json \<Rightarrow> string) \<Rightarrow> Repo \<Rightarrow> Storage list res" where
  "repo_mirror_storage_profiles json_str r =
    bindR (repo_list_storage_profiles json_str r) (\<lambda>profiles.
    if profiles \<noteq> [] then Inr (filter (\<lambda>p. sg_role p = ''mirror'') profiles)
    else bindR (repo_mirror_targets r) (\<lambda>ts. Inr (map (\<lambda>(n, u). storage_from_url n ''mirror'' u) ts)))"

definition repo_remove_storage_profile :: "string \<Rightarrow> (Repo, unit) st" where
  "repo_remove_storage_profile name = modifyS (r_storages_update (AList.delete name))"

definition repo_set_primary_storage :: "(string, string) dict \<Rightarrow> string \<Rightarrow> string \<Rightarrow> (Repo, unit) st" where
  "repo_set_primary_storage env name url =
    bindS (repo_set_meta ''primary_storage_name'' name) (\<lambda>_.
    bindS (repo_set_meta ''backend'' url) (\<lambda>_.
    repo_set_storage_profile env (storage_from_url name ''primary'' url)))"

definition repo_set_backend_url :: "(string, string) dict \<Rightarrow> string \<Rightarrow> (Repo, unit) st" where
  "repo_set_backend_url env v =
    (if v \<noteq> '''' then repo_set_primary_storage env ''primary'' v
     else bindS (getsS (\<lambda>r. Inr (repo_primary_storage_name r))) (\<lambda>current.
       bindS (repo_delete_meta ''backend'') (\<lambda>_.
       bindS (repo_delete_meta ''primary_storage_name'') (\<lambda>_.
       repo_remove_storage_profile current))))"

definition repo_set_mirror_storage :: "(string, string) dict \<Rightarrow> string \<Rightarrow> string \<Rightarrow> (Repo, unit) st" where
  "repo_set_mirror_storage env name url =
    bindS (getsS repo_mirror_targets) (\<lambda>ts.
    bindS (repo_set_mirror_targets (filter (\<lambda>(n, u). n \<noteq> name) ts @ [(name, url)])) (\<lambda>_.
    repo_set_storage_profile env (storage_from_url name ''mirror'' url)))"

definition repo_remove_storage :: "(string, string) dict \<Rightarrow> string \<Rightarrow> (Repo, bool) st" where
  "repo_remove_storage env name = (\<lambda>r.
    if name \<in> {''primary'', ''remote'', repo_primary_storage_name r} \<and> truthy (repo_backend_url r) \<noteq> None
    then bindS (repo_set_backend_url env '''') (\<lambda>_.
         bindS (repo_remove_storage_profile (repo_primary_storage_name r)) (\<lambda>_. returnS True)) r
    else bindS (getsS repo_mirror_targets) (\<lambda>ts.
         let targets = filter (\<lambda>(n, u). n \<noteq> name) ts
         in if length targets = length ts then returnS False
            else bindS (repo_set_mirror_targets targets) (\<lambda>_.
              bindS (repo_remove_storage_profile name) (\<lambda>_. returnS True))) r)"

definition repo_storage_url :: "(string, string) dict \<Rightarrow> (json \<Rightarrow> string) \<Rightarrow> string \<Rightarrow> Repo \<Rightarrow> string option res" where
  "repo_storage_url env json_str name r =
    bindR (repo_storage_profile json_str name r) (\<lambda>profile.
    case profile of
      Some p \<Rightarrow> bindR (storage_url env p (repo_name r)) (\<lambda>u. Inr (Some u))
    | None \<Rightarrow>
      if name \<in> {''primary'', ''remote'', repo_primary_storage_name r} then Inr (repo_backend_url r)
      else bindR (repo_mirror_targets r) (\<lambda>ts. Inr (map_option snd (find (\<lambda>(n, u). n = name) ts))))"

section \<open>The configuration document\<close>

definition target_json :: "string \<Rightarrow> string \<Rightarrow> string \<Rightarrow> json" where
  "target_json name role url = JObj [(''name'', JStr name), (''role'', JStr role), (''url'', JStr url)]"

definition repo_storage_targets :: "(string, string) dict \<Rightarrow> (json \<Rightarrow> string) \<Rightarrow> Repo \<Rightarrow> json list res" where
  "repo_storage_targets env json_str r =
    bindR (repo_list_storage_profiles json_str r) (\<lambda>profiles.
    if profiles \<noteq> [] then mapR (\<lambda>p. public_record env p (repo_name r)) profiles
    else bindR (repo_mirror_targets r) (\<lambda>ts.
      Inr ((case truthy (repo_backend_url r) of
              None \<Rightarrow> [] | Some u \<Rightarrow> [target_json (repo_primary_storage_name r) ''primary'' u]) @
           map (\<lambda>(n, u). target_json n ''mirror'' u) ts)))"

definition repo_storage_config :: "(string, string) dict \<Rightarrow> (json \<Rightarrow> string) \<Rightarrow> Repo \<Rightarrow> json res" where
  "repo_storage_config env json_str r =
    bindR (repo_storage_targets env json_str r) (\<lambda>ts.
    Inr (JObj [(''format'', JInt 1), (''repository'', JStr (repo_name r)), (''storage'', JList ts)]))"

definition public_storage_item :: "json list \<Rightarrow> string \<Rightarrow> string \<Rightarrow> json option" where
  "public_storage_item storage name role =
    find (\<lambda>item. case item of
        JObj kvs \<Rightarrow> map_of kvs ''name'' = Some (JStr name) \<and> map_of kvs ''role'' = Some (JStr role)
      | _ \<Rightarrow> False) storage"

definition storage_from_public_target :: "(json \<Rightarrow> string) \<Rightarrow> string \<Rightarrow> string \<Rightarrow> string \<Rightarrow> json option \<Rightarrow> Storage" where
  "storage_from_public_target json_str name role url item =
    (case item of
       Some (JObj kvs) \<Rightarrow>
         (case (map_of kvs ''backend'', map_of kvs ''settings'') of
            (Some (JStr backend), Some (JObj settings)) \<Rightarrow>
              \<lparr>sg_name = name, sg_backend = backend, sg_role = role, sg_settings = str_dict json_str settings,
               sg_credentials = []\<rparr>
          | _ \<Rightarrow> storage_from_url name role url)
     | _ \<Rightarrow> storage_from_url name role url)"

definition repo_apply_public_storage_target ::
  "(string, string) dict \<Rightarrow> (json \<Rightarrow> string) \<Rightarrow> string \<Rightarrow> string \<Rightarrow> string \<Rightarrow> json option \<Rightarrow> (Repo, unit) st" where
  "repo_apply_public_storage_target env json_str name role url item =
    bindS (getsS (repo_storage_profile json_str name)) (\<lambda>existing.
    case existing of
      None \<Rightarrow> repo_set_storage_profile env (storage_from_public_target json_str name role url item)
    | Some e \<Rightarrow>
      if sg_role e \<noteq> role then repo_set_storage_profile env (e\<lparr>sg_role := role\<rparr>)
      else if role = ''primary'' then
        bindS (repo_set_meta ''primary_storage_name'' name) (\<lambda>_. repo_set_meta ''backend'' url)
      else returnS ())"

text \<open>The loop over the items: the first primary and the mirrors.\<close>

definition config_item :: "(string \<times> string) option \<times> (string \<times> string) list \<Rightarrow> json \<Rightarrow>
    (string \<times> string) option \<times> (string \<times> string) list" where
  "config_item acc item =
    (case acc of (primary, mirrors) \<Rightarrow>
      case item of
        JObj kvs \<Rightarrow>
          (case (map_of kvs ''name'', map_of kvs ''role'', map_of kvs ''url'') of
             (Some (JStr name), Some (JStr role), Some (JStr url)) \<Rightarrow>
               if role = ''primary'' \<and> primary = None then (Some (name, url), mirrors)
               else if role = ''mirror'' then (primary, mirrors @ [(name, url)])
               else acc
           | _ \<Rightarrow> acc)
      | _ \<Rightarrow> acc)"

definition repo_apply_storage_config ::
  "(string, string) dict \<Rightarrow> (json \<Rightarrow> string) \<Rightarrow> json \<Rightarrow> (Repo, unit) st" where
  "repo_apply_storage_config env json_str data =
    bindS (liftR (jget data ''storage'')) (\<lambda>storage.
    case storage of
      Some (JList items) \<Rightarrow>
        (case foldl config_item (None, []) items of (primary, mirrors) \<Rightarrow>
           bindS (case primary of
               None \<Rightarrow> returnS ()
             | Some (name, url) \<Rightarrow> repo_apply_public_storage_target env json_str name ''primary'' url
                 (public_storage_item items name ''primary'')) (\<lambda>_.
           bindS (repo_set_mirror_targets mirrors) (\<lambda>_.
           iterS (\<lambda>(name, url). repo_apply_public_storage_target env json_str name ''mirror'' url
               (public_storage_item items name ''mirror'')) mirrors)))
    | _ \<Rightarrow> returnS ())"


section \<open>Lemmas\<close>

definition good_target :: "string \<times> string \<Rightarrow> bool" where
  "good_target t \<longleftrightarrow> fst t \<noteq> '''' \<and> snd t \<noteq> '''' \<and> ascii_str (fst t) \<and> ascii_str (snd t)"

lemma target_item_json: "good_target t \<Longrightarrow> target_item (case t of (n, u) \<Rightarrow> JObj [(''name'', JStr n), (''url'', JStr u)]) = Some t"
  by (cases t) (simp add: target_item_def good_target_def)

lemma map_filter_all: "(\<And>x. x \<in> set xs \<Longrightarrow> f (g x) = Some x) \<Longrightarrow> List.map_filter f (map g xs) = xs"
  by (induction xs) (simp_all add: map_filter_simps)

lemma ascii_targets: "list_all good_target ts \<Longrightarrow> ascii_json (targets_json ts)"
  by (auto simp: targets_json_def good_target_def list_all_iff ascii_str_def ordc_def)

lemma dumps_list_nonempty: "dumps sep (JList xs) \<noteq> ''''"
  by simp

lemma truthy_nonempty: "s \<noteq> '''' \<Longrightarrow> truthy (Some s) = Some s"
  by (cases s) (simp_all add: truthy_def)

lemma mirror_targets_set:
  assumes "list_all good_target ts"
  shows "\<exists>r'. repo_set_mirror_targets ts r = (Inr (), r') \<and> repo_mirror_targets r' = Inr ts \<and>
    r' = r\<lparr>r_meta := r_meta r'\<rparr> \<and>
    (\<forall>k. k \<notin> {''mirror_targets'', ''mirrors''} \<longrightarrow> map_of (r_meta r') k = map_of (r_meta r) k)"
proof -
  let ?j = "targets_json ts"
  let ?r = "r\<lparr>r_meta := AList.update ''mirrors'' (dumps spaced (JList (map (\<lambda>(n, u). JStr u) ts)))
      (AList.update ''mirror_targets'' (dumps spaced ?j) (r_meta r))\<rparr>"
  have run: "repo_set_mirror_targets ts r = (Inr (), ?r)"
    by (simp add: repo_set_mirror_targets_def repo_set_meta_def bindS_def del: dumps.simps)
  have meta: "repo_get_meta ''mirror_targets'' None ?r = Some (dumps spaced ?j)" by (simp add: repo_get_meta_def del: dumps.simps)
  have nonempty: "dumps spaced ?j \<noteq> ''''" by (simp add: targets_json_def)
  have "List.map_filter target_item (map (\<lambda>(n, u). JObj [(''name'', JStr n), (''url'', JStr u)]) ts) = ts"
    using assms by (intro map_filter_all) (auto simp: list_all_iff dest!: target_item_json)
  then have "repo_mirror_targets ?r = Inr ts"
    using loads_dumps_sep [OF ascii_targets [OF assms], of spaced]
    by (simp add: repo_mirror_targets_def meta truthy_nonempty [OF nonempty] del: dumps.simps)
       (simp add: targets_json_def json_items_def)
  then show ?thesis using run by (intro exI [of _ ?r]) (simp del: dumps.simps)
qed

lemma repo_name_cong:
  assumes "map_of (r_meta r') ''repo_name'' = map_of (r_meta r) ''repo_name''" and "r_stem r' = r_stem r"
  shows "repo_name r' = repo_name r"
  unfolding repo_name_def repo_get_meta_def assms ..

lemma mirror_targets_cong:
  assumes "map_of (r_meta r') ''mirror_targets'' = map_of (r_meta r) ''mirror_targets''"
    and "map_of (r_meta r') ''mirrors'' = map_of (r_meta r) ''mirrors''"
  shows "repo_mirror_targets r' = repo_mirror_targets r"
  unfolding repo_mirror_targets_def repo_get_meta_def assms ..

lemma profile_stored:
  assumes "ascii_storage s" and "map_of (r_storages r) (sg_name s) =
      Some (sg_role s, sg_backend s, dumps spaced (sort_keys (storage_to_record s)))"
  shows "repo_storage_profile json_str (sg_name s) r = Inr (Some (sorted_storage s))"
proof -
  have "bindR (loads (dumps spaced (sort_keys (storage_to_record s)))) (storage_from_record json_str) = Inr (sorted_storage s)"
    by (rule stored_record_reads [OF assms(1)])
  then show ?thesis using assms(2) by (auto simp: repo_storage_profile_def simp del: sort_keys.simps dumps.simps elim: bindR_InrE)
qed

section \<open>Properties\<close>

text \<open>A stored profile reads back, with its keys in order, and no other profile changes; a primary one
  becomes the repository's primary storage with its URL, a mirror joins the mirrors, in place of a
  mirror of the same name.\<close>

lemma storage_profile_stored:
  assumes "ascii_storage s" and "storage_url env s (repo_name r) = Inr u"
    and "repo_mirror_targets r = Inr ts" and "list_all good_target ts" and "good_target (sg_name s, u)"
  shows "\<exists>r'. repo_set_storage_profile env s r = (Inr (), r') \<and>
    repo_storage_profile json_str (sg_name s) r' = Inr (Some (sorted_storage s)) \<and>
    (\<forall>n. n \<noteq> sg_name s \<longrightarrow> repo_storage_profile json_str n r' = repo_storage_profile json_str n r) \<and>
    (sg_role s = ''primary'' \<longrightarrow> repo_backend_url r' = Some u \<and> repo_primary_storage_name r' = sg_name s \<and>
       repo_mirror_targets r' = Inr ts) \<and>
    (sg_role s = ''mirror'' \<longrightarrow> repo_backend_url r' = repo_backend_url r \<and>
       repo_mirror_targets r' = Inr (filter (\<lambda>(n, v). n \<noteq> sg_name s) ts @ [(sg_name s, u)]))"
proof -
  let ?row = "(sg_role s, sg_backend s, dumps spaced (sort_keys (storage_to_record s)))"
  define r1 where "r1 = r_storages_update (AList.update (sg_name s) ?row) r"
  have name: "repo_name r1 = repo_name r" "repo_mirror_targets r1 = Inr ts"
    using assms(3) repo_name_cong [of r1 r] mirror_targets_cong [of r1 r] by (simp_all add: r1_def)
  have profiles: "repo_storage_profile json_str (sg_name s) r' = Inr (Some (sorted_storage s)) \<and>
      (\<forall>n. n \<noteq> sg_name s \<longrightarrow> repo_storage_profile json_str n r' = repo_storage_profile json_str n r)"
    if "r_storages r' = r_storages r1" for r'
    using profile_stored [OF assms(1), of r'] that by (simp add: r1_def repo_storage_profile_def)
  have nonempty: "sg_name s \<noteq> ''''" using assms(5) by (simp add: good_target_def)
  consider (primary) "sg_role s = ''primary''" | (mirror) "sg_role s = ''mirror''"
    | (other) "sg_role s \<noteq> ''primary''" "sg_role s \<noteq> ''mirror''" by blast
  then show ?thesis
  proof cases
    case primary
    let ?r = "r1\<lparr>r_meta := AList.update ''backend'' u (AList.update ''primary_storage_name'' (sg_name s) (r_meta r1))\<rparr>"
    have "repo_set_storage_profile env s r = (Inr (), ?r)"
    proof -
      have "repo_name (r_meta_update (AList.update ''primary_storage_name'' (sg_name s)) (r_storages_update g r)) = repo_name r" for g
        by (rule repo_name_cong) simp_all
      then show ?thesis
        using primary assms(2) by (simp add: repo_set_storage_profile_def repo_set_meta_def bindS_def getsS_def r1_def)
    qed
    moreover have "repo_mirror_targets ?r = Inr ts"
      using name(2) mirror_targets_cong [of ?r r1] by simp
    ultimately show ?thesis
      using profiles [of ?r] primary nonempty
      by (intro exI [of _ ?r]) (simp add: repo_backend_url_def repo_primary_storage_name_def repo_get_meta_def)
  next
    case mirror
    let ?ts = "filter (\<lambda>(n, v). n \<noteq> sg_name s) ts @ [(sg_name s, u)]"
    have "list_all good_target ?ts" using assms(4,5) by (auto simp: list_all_iff)
    then obtain r' where r': "repo_set_mirror_targets ?ts r1 = (Inr (), r')" "repo_mirror_targets r' = Inr ?ts"
      "r' = r1\<lparr>r_meta := r_meta r'\<rparr>" "\<forall>k. k \<notin> {''mirror_targets'', ''mirrors''} \<longrightarrow> map_of (r_meta r') k = map_of (r_meta r1) k"
      using mirror_targets_set by blast
    have "repo_set_storage_profile env s r = (Inr (), r')"
      using mirror assms(2) name r'(1) by (simp add: repo_set_storage_profile_def bindS_def getsS_def r1_def)
    moreover have "r_storages r' = r_storages r1" by (subst r'(3)) simp
    moreover have "repo_backend_url r' = repo_backend_url r"
      using r'(4) by (simp add: repo_backend_url_def repo_get_meta_def r1_def)
    ultimately show ?thesis using profiles [of r'] mirror r'(2) by (intro exI [of _ r']) simp
  next
    case other
    then have "repo_set_storage_profile env s r = (Inr (), r1)"
      by (simp add: repo_set_storage_profile_def bindS_def r1_def)
    then show ?thesis using profiles [of r1] other by (intro exI [of _ r1]) simp
  qed
qed

lemma storage_profile_stored_witness:
  "\<exists>r'. repo_set_storage_profile [] (sample_storage ''x'') repo_empty = (Inr (), r') \<and>
    repo_backend_url r' = Some ''s3://b/trunks/repo.trunk''"
proof -
  have ascii: "ascii_storage (sample_storage ''x'')"
    by (simp add: ascii_storage_def sample_storage_def ascii_str_def wf_dict_def ordc_def)
  have name: "repo_name repo_empty = ''repo''" by (simp add: repo_name_def repo_get_meta_def repo_empty_def)
  have url: "storage_url [] (sample_storage ''x'') (repo_name repo_empty) = Inr ''s3://b/trunks/repo.trunk''"
    unfolding name by code_simp
  have ts: "repo_mirror_targets repo_empty = Inr []" by code_simp
  show ?thesis
    using storage_profile_stored [OF ascii url ts, of "\<lambda>_. ''''"]
    by (auto simp: good_target_def sample_storage_def ascii_str_def ordc_def)
qed

end
