(* ===== verification/Push.thy ===== *)
theory Push
  imports Memory RepoStorage
begin

text \<open>
  \<^verbatim>\<open>src/trunks/push.py\<close>: publishing the current branch. The code is a computation over the pair of the
  repository and the store behind a backend; \<open>onR\<close> and \<open>onB\<close> run a step on one of the two. Drawn
  values (the transaction id, the clock) and the environment are arguments.

  Other clients use the same store. \<open>interfered B\<close> is the backend \<open>B\<close> seen by one of them: before each
  call the store is changed by the next function of a list, which stands for what the others did
  in between, and each call is logged with the store before and after it. The push is proved
  against every such interference that keeps the store's invariant and loses no object.
\<close>

section \<open>The code\<close>

definition onR :: "(Repo, 'a) st \<Rightarrow> (Repo \<times> 's, 'a) st" where
  "onR m = (\<lambda>(r, s). case m r of (x, r') \<Rightarrow> (x, (r', s)))"

definition onB :: "('s, 'a) st \<Rightarrow> ('r \<times> 's, 'a) st" where
  "onB m = (\<lambda>(r, s). case m s of (x, s') \<Rightarrow> (x, (r, s')))"

record PushResult =
  pr_refs_pushed :: nat
  pr_refs_already_current :: nat
  pr_objects_uploaded :: nat

definition push_record :: "string \<Rightarrow> string \<Rightarrow> ObjectId option \<Rightarrow> ObjectId \<Rightarrow> (ObjectId \<times> bytes) list \<Rightarrow> string \<Rightarrow>
    (Repo \<times> 's, unit) st" where
  "push_record tx_id refn expected local_oid objects status =
    onR (repo_record_push_transaction tx_id refn expected local_oid (map fst objects) status)"

text \<open>The \<^verbatim>\<open>except\<close> clause around the steps of one reference, with the value \<^verbatim>\<open>expected\<close> has there.\<close>

definition push_failing :: "string \<Rightarrow> string \<Rightarrow> ObjectId option \<Rightarrow> ObjectId \<Rightarrow> (ObjectId \<times> bytes) list \<Rightarrow>
    (Repo \<times> 's, 'a) st \<Rightarrow> (Repo \<times> 's, 'a) st" where
  "push_failing tx_id refn expected local_oid objects m =
    catchS m (\<lambda>e. bindS (push_record tx_id refn expected local_oid objects ''failed'') (\<lambda>_. raiseS e))"

definition push_journal :: "string \<Rightarrow> datetime \<Rightarrow> string \<Rightarrow> ObjectId option \<Rightarrow> ObjectId \<Rightarrow> JournalEntry" where
  "push_journal tx_id now refn expected local_oid =
    journal_create tx_id now ''push''
      (JObj [(''tx_id'', JStr tx_id), (''ref'', JStr refn),
             (''expected'', case expected of None \<Rightarrow> JNull | Some x \<Rightarrow> JStr (oid_value x)),
             (''new'', JStr (oid_value local_oid))]) (Some tx_id)"

text \<open>From the first record of the transaction to the last: \<open>push_update\<close> up to the upload, \<open>push_swap\<close> the swap,
  \<open>push_finish\<close> what follows it.\<close>

definition push_finish :: "'s Backend \<Rightarrow> (json \<Rightarrow> string) \<Rightarrow> string \<Rightarrow> datetime \<Rightarrow> string \<Rightarrow> ObjectId option \<Rightarrow> ObjectId \<Rightarrow>
    (ObjectId \<times> bytes) list \<Rightarrow> bool \<Rightarrow> (Repo \<times> 's, nat \<times> nat) st" where
  "push_finish B orjson_dumps tx_id now refn expected local_oid objects updated =
    (if \<not> updated then raiseS (RefConflict (''non-fast-forward: '' @ refn))
     else
      bindS (push_record tx_id refn expected local_oid objects ''ref_updated'') (\<lambda>_.
      let journal = push_journal tx_id now refn expected local_oid
      in bindS (onB (append_journal B journal)) (\<lambda>_.
         bindS (onR (repo_append_journal orjson_dumps journal)) (\<lambda>_.
         bindS (onR (repo_set_backend_ref refn local_oid)) (\<lambda>_.
         bindS (push_record tx_id refn expected local_oid objects ''complete'') (\<lambda>_.
         returnS (1, 0)))))))"

definition push_swap :: "'s Backend \<Rightarrow> (json \<Rightarrow> string) \<Rightarrow> string \<Rightarrow> datetime \<Rightarrow> string \<Rightarrow> ObjectId option \<Rightarrow> ObjectId \<Rightarrow>
    (ObjectId \<times> bytes) list \<Rightarrow> (Repo \<times> 's, nat \<times> nat) st" where
  "push_swap B orjson_dumps tx_id now refn expected local_oid objects =
    bindS (push_record tx_id refn expected local_oid objects ''uploaded'') (\<lambda>_.
    bindS (onB (cas_ref B refn expected local_oid))
      (push_finish B orjson_dumps tx_id now refn expected local_oid objects))"

definition push_update :: "'s Backend \<Rightarrow> (json \<Rightarrow> string) \<Rightarrow> string \<Rightarrow> datetime \<Rightarrow> string \<Rightarrow> ObjectId option \<Rightarrow> ObjectId \<Rightarrow>
    (ObjectId \<times> bytes) list \<Rightarrow> (Repo \<times> 's, nat \<times> nat) st" where
  "push_update B orjson_dumps tx_id now refn expected local_oid objects =
    bindS (push_record tx_id refn expected local_oid objects ''pending'') (\<lambda>_.
    bindS (onB (write_objects B objects)) (\<lambda>_.
    push_swap B orjson_dumps tx_id now refn expected local_oid objects))"

definition push_ref :: "'s Backend \<Rightarrow> (json \<Rightarrow> string) \<Rightarrow> string \<Rightarrow> datetime \<Rightarrow> string \<Rightarrow> ObjectId \<Rightarrow>
    (ObjectId \<times> bytes) list \<Rightarrow> (Repo \<times> 's, nat \<times> nat) st" where
  "push_ref B orjson_dumps tx_id now refn local_oid objects =
    bindS (onR (getsS (repo_backend_ref refn))) (\<lambda>known.
    bindS (push_failing tx_id refn known local_oid objects (onB (read_ref B refn))) (\<lambda>remote.
    if remote = Some local_oid then
      push_failing tx_id refn known local_oid objects
        (bindS (onB (write_objects B objects)) (\<lambda>_.
         bindS (onR (repo_set_backend_ref refn local_oid)) (\<lambda>_. returnS (0, 1))))
    else if remote \<noteq> None \<and> remote \<noteq> known then
      push_failing tx_id refn known local_oid objects (raiseS (RefConflict (''non-fast-forward: '' @ refn)))
    else
      push_failing tx_id refn remote local_oid objects
        (push_update B orjson_dumps tx_id now refn remote local_oid objects)))"

text \<open>The configuration is written when the repository has a storage.\<close>

definition push_config :: "'s Backend \<Rightarrow> (string, string) dict \<Rightarrow> (json \<Rightarrow> string) \<Rightarrow> (Repo \<times> 's, unit) st" where
  "push_config B env json_str =
    bindS (onR (getsS (\<lambda>r. Inr (truthy (repo_backend_url r))))) (\<lambda>url.
    case url of
      None \<Rightarrow> returnS ()
    | Some _ \<Rightarrow> bindS (onR (getsS (repo_storage_config env json_str))) (\<lambda>c. onB (write_config B c)))"

definition push_run :: "'s Backend \<Rightarrow> (string, string) dict \<Rightarrow> (json \<Rightarrow> string) \<Rightarrow> (json \<Rightarrow> string) \<Rightarrow> string \<Rightarrow> datetime \<Rightarrow>
    (Repo \<times> 's, PushResult) st" where
  "push_run B env json_str orjson_dumps tx_id now =
    bindS (onR (getsS repo_all_objects)) (\<lambda>objects.
    bindS (push_config B env json_str) (\<lambda>_.
    bindS (onR (getsS (\<lambda>r. repo_ref (repo_current_branch r) r))) (\<lambda>current_oid.
    bindS (case current_oid of
        None \<Rightarrow> returnS (0, 0)
      | Some local_oid \<Rightarrow>
        bindS (onR (getsS (\<lambda>r. Inr (normalize_ref (repo_current_branch r))))) (\<lambda>refn.
        push_ref B orjson_dumps tx_id now refn local_oid objects)) (\<lambda>(refs_pushed, refs_current).
    returnS \<lparr>pr_refs_pushed = refs_pushed, pr_refs_already_current = refs_current,
             pr_objects_uploaded = (if refs_pushed \<noteq> 0 \<or> refs_current \<noteq> 0 then length objects else 0)\<rparr>))))"

section \<open>Other clients\<close>

type_synonym 's shared = "'s \<times> ('s \<Rightarrow> 's) list \<times> ('s \<times> 's) list"

definition interfere :: "('s, 'a) st \<Rightarrow> ('s shared, 'a) st" where
  "interfere m = (\<lambda>(s, others, log).
    let s1 = (case others of [] \<Rightarrow> s | f # _ \<Rightarrow> f s)
    in case m s1 of (x, s2) \<Rightarrow> (x, (s2, tl others, log @ [(s1, s2)])))"

definition interfered :: "'s Backend \<Rightarrow> 's shared Backend" where
  "interfered B = \<lparr>capabilities = capabilities B,
     read_object = (\<lambda>x. interfere (read_object B x)),
     write_object = (\<lambda>x d. interfere (write_object B x d)),
     write_objects = (\<lambda>os. interfere (write_objects B os)),
     has_object = (\<lambda>x. interfere (has_object B x)),
     read_ref = (\<lambda>n. interfere (read_ref B n)),
     cas_ref = (\<lambda>n e x. interfere (cas_ref B n e x)),
     delete_ref = (\<lambda>n. interfere (delete_ref B n)),
     delete_object = (\<lambda>x. interfere (delete_object B x)),
     list_refs = (\<lambda>p. interfere (list_refs B p)),
     append_journal = (\<lambda>j. interfere (append_journal B j)),
     read_config = interfere (read_config B),
     write_config = (\<lambda>c. interfere (write_config B c))\<rparr>"

text \<open>What a client may rely on: the others keep the invariant and lose no object.\<close>

definition calm_others :: "('s \<Rightarrow> bool) \<Rightarrow> ('s \<Rightarrow> ObjectId \<Rightarrow> bytes option) \<Rightarrow> ('s \<Rightarrow> 's) list \<Rightarrow> bool" where
  "calm_others good objs others \<longleftrightarrow>
     (\<forall>f \<in> set others. \<forall>s. good s \<longrightarrow> good (f s) \<and> dom (objs s) \<subseteq> dom (objs (f s)))"

text \<open>What the push promises of each of its calls: the references stay as they are, or the one reference moves
  to the pushed commit from nothing or from the value this client knew, when all its objects are there.\<close>

definition fair_step :: "('s \<Rightarrow> ObjectId \<Rightarrow> bytes option) \<Rightarrow> ('s \<Rightarrow> string \<Rightarrow> ObjectId option) \<Rightarrow> string \<Rightarrow> ObjectId option \<Rightarrow>
    ObjectId \<Rightarrow> ObjectId set \<Rightarrow> 's \<times> 's \<Rightarrow> bool" where
  "fair_step objs refs n known x ids step \<longleftrightarrow>
     (case step of (a, b) \<Rightarrow> refs b = refs a \<or>
        (refs a n \<in> {None, known} \<and> refs b = (refs a)(n \<mapsto> x) \<and> ids \<subseteq> dom (objs a)))"

definition shared_ok :: "('s \<Rightarrow> bool) \<Rightarrow> ('s \<Rightarrow> ObjectId \<Rightarrow> bytes option) \<Rightarrow> ('s \<times> 's \<Rightarrow> bool) \<Rightarrow> ObjectId set \<Rightarrow>
    'r \<times> 's shared \<Rightarrow> bool" where
  "shared_ok good objs fair ids st \<longleftrightarrow>
     (case st of (r, s, others, log) \<Rightarrow>
        good s \<and> calm_others good objs others \<and> ids \<subseteq> dom (objs s) \<and> (\<forall>e \<in> set log. fair e))"

lemma keeps_onR [intro!]: "keeps (shared_ok good objs fair ids) (onR m)"
  by (rule keepsI) (auto simp: onR_def shared_ok_def split: prod.splits)

lemma disturbed_ok:
  assumes "shared_ok good objs fair ids (r, s, others, log)"
  defines "s1 \<equiv> case others of [] \<Rightarrow> s | f # _ \<Rightarrow> f s"
  shows "good s1" and "ids \<subseteq> dom (objs s1)" and "calm_others good objs (tl others)"
  using assms by (cases others; force simp: shared_ok_def calm_others_def)+

lemma keeps_interfere:
  assumes "\<And>s. good s \<Longrightarrow> ids \<subseteq> dom (objs s) \<Longrightarrow>
      good (snd (m s)) \<and> dom (objs s) \<subseteq> dom (objs (snd (m s))) \<and> fair (s, snd (m s))"
  shows "keeps (shared_ok good objs fair ids) (onB (interfere m))"
proof (rule keepsI)
  fix st assume ok: "shared_ok good objs fair ids st"
  obtain r s others log where st: "st = (r, s, others, log)" by (cases st) auto
  let ?s1 = "case others of [] \<Rightarrow> s | f # _ \<Rightarrow> f s"
  note d = disturbed_ok [OF ok [unfolded st]]
  have "good (snd (m ?s1))" "dom (objs ?s1) \<subseteq> dom (objs (snd (m ?s1)))" "fair (?s1, snd (m ?s1))"
    using assms [OF d(1,2)] by blast+
  then show "shared_ok good objs fair ids (snd (onB (interfere m) st))"
    using ok d unfolding st
    by (cases "m ?s1") (auto simp: shared_ok_def onB_def interfere_def Let_def)
qed

lemma interfere_result:
  assumes "onB (interfere m) (r, s, others, log) = (x, st')"
  shows "\<exists>s2. m (case others of [] \<Rightarrow> s | f # _ \<Rightarrow> f s) = (x, s2) \<and>
    st' = (r, s2, tl others, log @ [(case others of [] \<Rightarrow> s | f # _ \<Rightarrow> f s, s2)])"
  using assms by (auto simp: onB_def interfere_def Let_def split: prod.splits)


lemma keeps_bindS_gain:
  assumes "keeps P m" and "\<And>s x t. P s \<Longrightarrow> m s = (Inr x, t) \<Longrightarrow> Q t" and "\<And>x. keeps Q (f x)" and "\<And>s. Q s \<Longrightarrow> P s"
  shows "keeps P (bindS m f)"
proof (rule keepsI)
  fix s assume s: "P s"
  show "P (snd (bindS m f s))"
  proof (cases "m s")
    case (Pair y t)
    then show ?thesis
      using keepsD [OF assms(1) s] assms(2) [OF s] keepsD [OF assms(3)] assms(4)
      by (cases y) (auto simp: bindS_def)
  qed
qed

lemma keeps_if: "(b \<Longrightarrow> keeps P m) \<Longrightarrow> (\<not> b \<Longrightarrow> keeps P n) \<Longrightarrow> keeps P (if b then m else n)"
  by simp

lemma shared_ok_weaken: "shared_ok good objs fair ids st \<Longrightarrow> shared_ok good objs fair {} st"
  by (auto simp: shared_ok_def)

lemma keeps_push_failing [intro!]:
  "keeps (shared_ok good objs fair ids) m \<Longrightarrow>
   keeps (shared_ok good objs fair ids) (push_failing tx_id refn expected local_oid objects m)"
  unfolding push_failing_def push_record_def by blast

lemma push_failing_Inr:
  "push_failing tx n e x os m st = (Inr y, t) \<longleftrightarrow> m st = (Inr y, t)"
  by (auto simp: push_failing_def catchS_def bindS_def push_record_def onR_def
      repo_record_push_transaction_def split: prod.splits sum.splits)

section \<open>The push over a backend that may fail\<close>

context backend_safe
begin

lemma same_call:
  assumes "\<And>s. inv s \<Longrightarrow> same inv objs refs s (snd (m s))"
  shows "keeps (shared_ok inv objs (fair_step objs refs n known x ids) X) (onB (interfere m))"
  using assms by (intro keeps_interfere) (auto simp: same_def fair_step_def)

lemma calls_keep:
  "keeps (shared_ok inv objs (fair_step objs refs n known x ids) X) (onB (read_ref (interfered B) p))"
  "keeps (shared_ok inv objs (fair_step objs refs n known x ids) X) (onB (append_journal (interfered B) j))"
  "keeps (shared_ok inv objs (fair_step objs refs n known x ids) X) (onB (write_config (interfered B) c))"
  using same_call [OF ref_same] same_call [OF journal_same] same_call [OF write_config_same]
  by (simp_all add: interfered_def)

lemma writes_keep:
  "keeps (shared_ok inv objs (fair_step objs refs n known x ids) X) (onB (write_objects (interfered B) os))"
proof -
  have "inv (snd (write_objects B os s)) \<and> dom (objs s) \<subseteq> dom (objs (snd (write_objects B os s))) \<and>
      fair_step objs refs n known x ids (s, snd (write_objects B os s))" if "inv s" for s
    using writes_grown [OF that, of os] by (auto simp: grown_def fair_step_def)
  then show ?thesis by (simp add: interfered_def keeps_interfere)
qed

lemma writes_gain:
  assumes "shared_ok inv objs fair {} st" and "onB (write_objects (interfered B) os) st = (Inr u, st')"
    and "shared_ok inv objs fair {} st'"
  shows "shared_ok inv objs fair (fst ` set os) st'"
proof -
  obtain r s others log where st: "st = (r, s, others, log)" by (cases st) auto
  let ?s1 = "case others of [] \<Rightarrow> s | f # _ \<Rightarrow> f s"
  obtain s2 where s2: "write_objects B os ?s1 = (Inr u, s2)" "st' = (r, s2, tl others, log @ [(?s1, s2)])"
    using interfere_result [OF assms(2) [unfolded st interfered_def Backend.simps]] by blast
  have "inv ?s1" by (rule disturbed_ok(1) [OF assms(1) [unfolded st]])
  from writes_sound [OF this s2(1)] show ?thesis using assms(3) s2(2) by (simp add: shared_ok_def)
qed

lemma cas_keeps:
  assumes "good_ref n" and "valid_oid x" and "e \<in> {None, known}"
  shows "keeps (shared_ok inv objs (fair_step objs refs (normalize_ref n) known x ids) ids)
    (onB (cas_ref (interfered B) n e x))"
proof -
  have "inv (snd (cas_ref B n e x s)) \<and> dom (objs s) \<subseteq> dom (objs (snd (cas_ref B n e x s))) \<and>
      fair_step objs refs (normalize_ref n) known x ids (s, snd (cas_ref B n e x s))"
    if "inv s" "ids \<subseteq> dom (objs s)" for s
    using cas_refs_cases [OF that(1) assms(1,2), of e] cas_inv [OF that(1) assms(1,2), of e]
      cas_objs [OF that(1) assms(1,2), of e] assms(3) that(2)
    by (auto simp: fair_step_def)
  then show ?thesis by (simp add: interfered_def keeps_interfere)
qed

lemma push_update_keeps:
  assumes "good_ref n" and "valid_oid x" and "e \<in> {None, known}"
  shows "keeps (shared_ok inv objs (fair_step objs refs (normalize_ref n) known x (fst ` set os)) {})
    (push_update (interfered B) oj tx now n e x os)"
  unfolding push_update_def push_swap_def push_finish_def push_record_def Let_def
proof (rule keeps_bindS [OF keeps_onR keeps_bindS_gain [OF writes_keep]], rule writes_gain, assumption, assumption)
  let ?P = "shared_ok inv objs (fair_step objs refs (normalize_ref n) known x (fst ` set os))"
  show "?P {} t" if "?P {} s" "onB (write_objects (interfered B) os) s = (Inr u, t)" for s u t
    using keepsD [OF writes_keep that(1), of os] that(2) by simp
  show "?P {} s" if "?P (fst ` set os) s" for s using that by (rule shared_ok_weaken)
qed (intro keeps_bindS keeps_onR cas_keeps assms calls_keep | auto)+

lemma push_ref_keeps:
  assumes "good_ref n" and "valid_oid x" and "repo_backend_ref n r = Inr known"
    and "shared_ok inv objs (fair_step objs refs (normalize_ref n) known x (fst ` set os)) {} (r, st)"
  shows "shared_ok inv objs (fair_step objs refs (normalize_ref n) known x (fst ` set os)) {}
    (snd (push_ref (interfered B) oj tx now n x os (r, st)))"
proof -
  let ?P = "shared_ok inv objs (fair_step objs refs (normalize_ref n) known x (fst ` set os)) {}"
  have "keeps ?P (bindS (push_failing tx n known x os (onB (read_ref (interfered B) n))) (\<lambda>remote.
    if remote = Some x then
      push_failing tx n known x os
        (bindS (onB (write_objects (interfered B) os)) (\<lambda>_.
         bindS (onR (repo_set_backend_ref n x)) (\<lambda>_. returnS (0, 1))))
    else if remote \<noteq> None \<and> remote \<noteq> known then
      push_failing tx n known x os (raiseS (RefConflict (''non-fast-forward: '' @ n)))
    else
      push_failing tx n remote x os (push_update (interfered B) oj tx now n remote x os)))"
    by (intro keeps_bindS keeps_push_failing calls_keep(1) keeps_if keeps_basic writes_keep keeps_onR
        push_update_keeps [OF assms(1,2)]) auto
  from keepsD [OF this assms(4)] show ?thesis
    using assms(3) by (simp add: push_ref_def onR_def bindS_def)
qed

end


section \<open>What is logged\<close>

definition logged :: "('s \<times> 's \<Rightarrow> bool) \<Rightarrow> 'r \<times> 's shared \<Rightarrow> bool" where
  "logged P st \<longleftrightarrow> (case st of (r, s, others, log) \<Rightarrow> \<exists>e \<in> set log. P e)"

lemma keeps_logged [intro!]: "keeps (logged P) (onR m)" "keeps (logged P) (onB (interfere m'))"
  by (auto intro!: keepsI simp: logged_def onR_def onB_def interfere_def Let_def split: prod.splits)

lemma keeps_logged_calls [intro!]: "keeps (logged P) (onB (append_journal (interfered B) j))"
  by (simp add: interfered_def keeps_logged)

text \<open>The reference moved in this call.\<close>

definition moved :: "('s \<Rightarrow> string \<Rightarrow> ObjectId option) \<Rightarrow> string \<Rightarrow> ObjectId option \<Rightarrow> ObjectId \<Rightarrow> 's \<times> 's \<Rightarrow> bool" where
  "moved refs n e x step \<longleftrightarrow> (case step of (a, b) \<Rightarrow> refs a n = e \<and> refs b = (refs a)(n \<mapsto> x))"

context backend_safe
begin

lemma cas_logged:
  assumes "shared_ok inv objs fair {} st" and "good_ref n" and "valid_oid x"
    and "onB (cas_ref (interfered B) n e x) st = (Inr b, st')" and b
  shows "logged (moved refs (normalize_ref n) e x) st'"
proof -
  obtain r s others log where st: "st = (r, s, others, log)" by (cases st) auto
  let ?s1 = "case others of [] \<Rightarrow> s | f # _ \<Rightarrow> f s"
  obtain s2 where s2: "cas_ref B n e x ?s1 = (Inr b, s2)" "st' = (r, s2, tl others, log @ [(?s1, s2)])"
    using interfere_result [OF assms(4) [unfolded st interfered_def Backend.simps]] by blast
  have "inv ?s1" by (rule disturbed_ok(1) [OF assms(1) [unfolded st]])
  from cas_sound [OF this assms(2,3) s2(1)] show ?thesis using assms(5) s2(2) by (simp add: logged_def moved_def)
qed

text \<open>Recording never fails and leaves the store alone.\<close>

lemma push_record_run: "\<exists>r'. push_record tx n e x os msg (r, s) = (Inr (), (r', s))"
  by (auto simp: push_record_def onR_def repo_record_push_transaction_def)

lemma push_record_step:
  assumes "bindS (push_record tx n e x os msg) f (r, s) = (Inr y, t)"
  shows "\<exists>r'. f () (r', s) = (Inr y, t)"
proof -
  obtain r' where "push_record tx n e x os msg (r, s) = (Inr (), (r', s))"
    using push_record_run [of tx n e x os msg r s] by blast
  then show ?thesis using assms by (auto simp: bindS_def)
qed

lemma shared_ok_repo: "shared_ok inv objs fair X (r, s) \<Longrightarrow> shared_ok inv objs fair X (r', s)"
  by (auto simp: shared_ok_def)

lemma push_swap_moves:
  assumes "good_ref n" and "valid_oid x" and "shared_ok inv objs fair {} (r, s)"
    and "push_swap (interfered B) oj tx now n e x os (r, s) = (Inr y, st')"
  shows "logged (moved refs (normalize_ref n) e x) st'"
proof -
  obtain r1 where "bindS (onB (cas_ref (interfered B) n e x)) (push_finish (interfered B) oj tx now n e x os) (r1, s) = (Inr y, st')"
    using push_record_step [OF assms(4) [unfolded push_swap_def]] ..
  then obtain b st1 where c: "onB (cas_ref (interfered B) n e x) (r1, s) = (Inr b, st1)"
      "push_finish (interfered B) oj tx now n e x os b st1 = (Inr y, st')"
    by (rule bindS_InrE)
  then have b by (cases b) (simp_all add: push_finish_def)
  have l: "logged (moved refs (normalize_ref n) e x) st1"
    by (rule cas_logged [OF shared_ok_repo [OF assms(3)] assms(1,2) c(1) \<open>b\<close>])
  have "keeps (logged (moved refs (normalize_ref n) e x)) (push_finish (interfered B) oj tx now n e x os b)"
    unfolding push_finish_def push_record_def Let_def
    by (intro keeps_if keeps_bindS keeps_logged keeps_logged_calls keeps_basic)
  from keepsD [OF this l] show ?thesis using c(2) by simp
qed

lemma push_update_moves:
  assumes "good_ref n" and "valid_oid x" and "shared_ok inv objs (fair_step objs refs m known z ids) {} (r, s)"
    and "push_update (interfered B) oj tx now n e x os (r, s) = (Inr y, st')"
  shows "logged (moved refs (normalize_ref n) e x) st'"
proof -
  obtain r1 where "bindS (onB (write_objects (interfered B) os)) (\<lambda>_. push_swap (interfered B) oj tx now n e x os) (r1, s) = (Inr y, st')"
    using push_record_step [OF assms(4) [unfolded push_update_def]] ..
  then obtain u r2 s2 where w: "onB (write_objects (interfered B) os) (r1, s) = (Inr u, (r2, s2))"
      "push_swap (interfered B) oj tx now n e x os (r2, s2) = (Inr y, st')"
    by (elim bindS_InrE) auto
  have "shared_ok inv objs (fair_step objs refs m known z ids) {} (r2, s2)"
    using keepsD [OF writes_keep shared_ok_repo [OF assms(3)], of os r1] w(1) by simp
  then show ?thesis by (rule push_swap_moves [OF assms(1,2) _ w(2)])
qed

end


section \<open>The whole run\<close>

lemma all_objects_run:
  assumes "repo_inv h r"
  shows "\<exists>os. repo_all_objects r = Inr os \<and> set os = (\<lambda>(o', k, d). (ObjectId o', d)) ` set (r_objects r)"
proof -
  have "mapR (\<lambda>(oid, kind, data). bindR (mk_ObjectId oid) (\<lambda>x. Inr (x, data))) rows =
      Inr (map (\<lambda>(o', k, d). (ObjectId o', d)) rows)" if "\<forall>(o', k, d) \<in> set rows. valid_oid_str o'" for rows
    using that by (induction rows) auto
  moreover have "\<forall>(o', k, d) \<in> set (sort_key fst (r_objects r)). valid_oid_str o'"
    using assms by (auto simp: repo_inv_def)
  ultimately have "repo_all_objects r = Inr (map (\<lambda>(o', k, d). (ObjectId o', d)) (sort_key fst (r_objects r)))"
    unfolding repo_all_objects_def by blast
  then show ?thesis by simp
qed

definition repo_ids :: "Repo \<Rightarrow> ObjectId set" where
  "repo_ids r = ObjectId ` fst ` set (r_objects r)"

lemma push_config_repo: "fst (snd (push_config B env js (r, s))) = r"
  by (cases "truthy (repo_backend_url r)"; cases "repo_storage_config env js r")
     (auto simp: push_config_def bindS_def onR_def onB_def split: prod.splits)

lemma push_run_split:
  assumes "repo_all_objects r = Inr os" and "repo_ref (repo_current_branch r) r = Inr (Some x)"
  shows "push_run B env js oj tx now (r, s) =
    (case push_config B env js (r, s) of
       (Inl e, st) \<Rightarrow> (Inl e, st)
     | (Inr _, st) \<Rightarrow>
       (case push_ref B oj tx now (normalize_ref (repo_current_branch r)) x os st of
          (Inl e, st') \<Rightarrow> (Inl e, st')
        | (Inr (a, b), st') \<Rightarrow> (Inr \<lparr>pr_refs_pushed = a, pr_refs_already_current = b,
             pr_objects_uploaded = (if a \<noteq> 0 \<or> b \<noteq> 0 then length os else 0)\<rparr>, st')))"
proof -
  obtain res r1 s1 where c: "push_config B env js (r, s) = (res, (r1, s1))" by (cases "push_config B env js (r, s)") auto
  then have r1: "r1 = r" using push_config_repo [of B env js r s] by simp
  have "push_run B env js oj tx now (r, s) = bindS (push_config B env js) (\<lambda>_.
      bindS (onR (getsS (\<lambda>r. repo_ref (repo_current_branch r) r))) (\<lambda>current_oid.
      bindS (case current_oid of
          None \<Rightarrow> returnS (0, 0)
        | Some local_oid \<Rightarrow>
          bindS (onR (getsS (\<lambda>r. Inr (normalize_ref (repo_current_branch r))))) (\<lambda>refn.
          push_ref B oj tx now refn local_oid os)) (\<lambda>(refs_pushed, refs_current).
      returnS \<lparr>pr_refs_pushed = refs_pushed, pr_refs_already_current = refs_current,
             pr_objects_uploaded = (if refs_pushed \<noteq> 0 \<or> refs_current \<noteq> 0 then length os else 0)\<rparr>))) (r, s)"
    using assms(1) by (simp add: push_run_def bindS_def onR_def)
  then show ?thesis
    using assms(2) unfolding bindS_def c r1
    by (cases res) (simp_all add: onR_def split: prod.split sum.split)
qed


context backend_safe
begin

lemma push_config_keeps:
  "keeps (shared_ok inv objs (fair_step objs refs n known x ids) X) (push_config (interfered B) env js)"
proof -
  have "keeps (shared_ok inv objs (fair_step objs refs n known x ids) X)
      (case u of None \<Rightarrow> returnS () | Some a \<Rightarrow> bindS (onR (getsS (repo_storage_config env js))) (\<lambda>c. onB (write_config (interfered B) c)))"
    for u :: "string option"
    by (cases u) (auto intro: calls_keep)
  then show ?thesis unfolding push_config_def by (intro keeps_bindS keeps_onR)
qed

lemma push_ref_moves:
  assumes "good_ref n" and "valid_oid x" and "repo_backend_ref n r = Inr known"
    and "shared_ok inv objs (fair_step objs refs m k z ids) {} (r, s)"
    and "push_ref (interfered B) oj tx now n x os (r, s) = (Inr (a, b), st')" and "a \<noteq> 0"
  shows "logged (moved refs (normalize_ref n) None x) st' \<or> logged (moved refs (normalize_ref n) known x) st'"
proof -
  let ?go = "\<lambda>remote. if remote = Some x then push_failing tx n known x os
          (bindS (onB (write_objects (interfered B) os)) (\<lambda>_. bindS (onR (repo_set_backend_ref n x)) (\<lambda>_. returnS (0, 1))))
        else if remote \<noteq> None \<and> remote \<noteq> known then push_failing tx n known x os (raiseS (RefConflict (''non-fast-forward: '' @ n)))
        else push_failing tx n remote x os (push_update (interfered B) oj tx now n remote x os)"
  have "bindS (push_failing tx n known x os (onB (read_ref (interfered B) n))) ?go (r, s) = (Inr (a, b), st')"
    using assms(3,5) by (simp add: push_ref_def onR_def bindS_def)
  then obtain remote st1 where rd: "onB (read_ref (interfered B) n) (r, s) = (Inr remote, st1)"
    and go: "?go remote st1 = (Inr (a, b), st')"
    by (elim bindS_InrE) (simp add: push_failing_Inr)
  obtain r1 s1 where st1: "st1 = (r1, s1)" by (cases st1)
  have ok: "shared_ok inv objs (fair_step objs refs m k z ids) {} (r1, s1)"
    using keepsD [OF calls_keep(1) assms(4), of n] rd st1 by simp
  have "remote \<noteq> Some x"
  proof
    assume "remote = Some x"
    then have "bindS (onB (write_objects (interfered B) os)) (\<lambda>_. bindS (onR (repo_set_backend_ref n x)) (\<lambda>_. returnS (0, 1))) st1 =
        (Inr (a, b), st')" using go by (simp add: push_failing_Inr)
    then show False using assms(6) by (elim bindS_InrE) simp
  qed
  moreover have "remote = None \<or> remote = known"
    using go \<open>remote \<noteq> Some x\<close> by (cases remote) (auto simp: push_failing_Inr split: if_splits)
  ultimately have "push_update (interfered B) oj tx now n remote x os (r1, s1) = (Inr (a, b), st')"
    using go st1 by (auto simp: push_failing_Inr)
  from push_update_moves [OF assms(1,2) ok this] show ?thesis using \<open>remote = None \<or> remote = known\<close> by auto
qed

end

lemma backend_ref_run:
  assumes "repo_inv h r"
  shows "\<exists>known. repo_backend_ref n r = Inr known"
  using assms by (auto simp: repo_backend_ref_def repo_inv_def split: option.split dest!: map_of_SomeD)

lemma fst_objects: "set os = (\<lambda>(o', k, d). (ObjectId o', d)) ` set (r_objects r) \<Longrightarrow> fst ` set os = repo_ids r"
  by (simp add: repo_ids_def image_image case_prod_beta)

context backend_safe
begin

lemma push_run_safe:
  assumes "repo_inv h r" and "inv s" and "calm_others inv objs others" and "good_ref (repo_current_branch r)"
    and "repo_ref (repo_current_branch r) r = Inr (Some x)"
    and "repo_backend_ref (repo_current_branch r) r = Inr known"
    and "push_run (interfered B) env js oj tx now (r, s, others, []) = (res, st')"
  defines "n \<equiv> normalize_ref (repo_current_branch r)"
  shows "shared_ok inv objs (fair_step objs refs n known x (repo_ids r)) {} st' \<and>
    (\<forall>p. res = Inr p \<longrightarrow> pr_refs_pushed p = 0 \<or> logged (moved refs n None x) st' \<or> logged (moved refs n known x) st')"
proof -
  obtain os where os: "repo_all_objects r = Inr os" "fst ` set os = repo_ids r"
    using all_objects_run [OF assms(1)] fst_objects by blast
  have n: "good_ref n" "normalize_ref n = n" "repo_backend_ref n r = Inr known"
    using assms(4,6) by (simp_all add: n_def good_ref_def repo_backend_ref_def)
  have x: "valid_oid x" using repo_ref_eq [OF assms(1)] assms(5) repo_refs_valid [OF assms(1)] by simp
  let ?ok = "shared_ok inv objs (fair_step objs refs n known x (repo_ids r)) {}"
  have ok0: "?ok (r, s, others, [])" using assms(2,3) by (simp add: shared_ok_def)
  obtain c r1 s1 where c: "push_config (interfered B) env js (r, s, others, []) = (c, (r1, s1))"
    by (cases "push_config (interfered B) env js (r, s, others, [])") auto
  then have r1: "r1 = r" using push_config_repo [of "interfered B" env js r "(s, others, [])"] by simp
  have ok1: "?ok (r, s1)" using keepsD [OF push_config_keeps ok0, of env js] c r1 by simp
  note split = push_run_split [OF os(1) assms(5), of "interfered B" env js oj tx now "(s, others, [])"]
  show ?thesis
  proof (cases c)
    case (Inl e)
    then show ?thesis using assms(7) c r1 ok1 split by auto
  next
    case (Inr u)
    obtain y st2 where y: "push_ref (interfered B) oj tx now n x os (r, s1) = (y, st2)"
      by (cases "push_ref (interfered B) oj tx now n x os (r, s1)")
    have ok2: "?ok st2"
      using push_ref_keeps [OF n(1) x n(3), of os s1 oj tx now] ok1 os(2) n(2) y by simp
    have st2: "st' = st2" and res: "res = Inr p \<Longrightarrow> \<exists>b. y = Inr (pr_refs_pushed p, b)" for p
      using assms(7) c r1 Inr y split unfolding n_def
      by (auto split: sum.splits prod.splits)
    show ?thesis
    proof (intro conjI allI impI)
      show "?ok st'" using ok2 st2 by simp
      fix p assume "res = Inr p"
      then obtain b where "y = Inr (pr_refs_pushed p, b)" using res by blast
      then show "pr_refs_pushed p = 0 \<or> logged (moved refs n None x) st' \<or> logged (moved refs n known x) st'"
        using push_ref_moves [OF n(1) x n(3) ok1, of oj tx now os "pr_refs_pushed p" b st2] y st2 n(2) by auto
    qed
  qed
qed

end

section \<open>Properties\<close>

text \<open>C1: no update is lost. A client pushes over a store every call of which may fail and that other
  clients change between the calls. Every call of the push leaves the references as they are, or
  moves its branch from nothing or from the value this client had last seen to the pushed commit,
  at a moment when all the client's objects are in the store. A push that reports a reference as
  pushed made such a move.\<close>

theorem push_no_lost_update:
  assumes "backend_safe h B good objs refs" and "repo_inv h r" and "good s" and "calm_others good objs others"
    and "good_ref (repo_current_branch r)" and "repo_ref (repo_current_branch r) r = Inr (Some x)"
    and "repo_backend_ref (repo_current_branch r) r = Inr known"
    and "push_run (interfered B) env js oj tx now (r, s, others, []) = (res, (r', s', rest, log))"
  shows "good s' \<and>
    (\<forall>e \<in> set log. fair_step objs refs (normalize_ref (repo_current_branch r)) known x (repo_ids r) e) \<and>
    (\<forall>p. res = Inr p \<longrightarrow> pr_refs_pushed p = 0 \<or>
       (\<exists>e \<in> set log. moved refs (normalize_ref (repo_current_branch r)) None x e \<or>
                      moved refs (normalize_ref (repo_current_branch r)) known x e))"
  using backend_safe.push_run_safe [OF assms] unfolding shared_ok_def logged_def by auto


definition pushed_repo :: Repo where
  "pushed_repo = repo_empty\<lparr>r_refs := [(''refs/heads/main'', oid_value (sample_oid (CHR ''1'')))]\<rparr>"

definition epoch :: datetime where
  "epoch = \<lparr>dt_us = 0, dt_off = Some 0\<rparr>"

lemma pushed_repo_ok:
  "repo_inv sample_hash pushed_repo" "repo_current_branch pushed_repo = ''main''"
  "repo_ref ''main'' pushed_repo = Inr (Some (sample_oid (CHR ''1'')))" "repo_backend_ref ''main'' pushed_repo = Inr None"
proof -
  have v: "valid_oid (sample_oid (CHR ''1''))" by (rule valid_sample_oid) (simp add: is_hex_def is_digit_def)
  have n: "normalize_ref ''main'' = ''refs/heads/main''" by code_simp
  show "repo_inv sample_hash pushed_repo"
    using v n normalize_ref_idem [of "''main''"]
    by (simp add: repo_inv_def pushed_repo_def repo_empty_def normal_ref_name_def valid_oid_def wf_dict_def)
  show "repo_current_branch pushed_repo = ''main''"
    by (simp add: repo_current_branch_def repo_get_meta_def pushed_repo_def repo_empty_def)
  show "repo_ref ''main'' pushed_repo = Inr (Some (sample_oid (CHR ''1'')))"
    using v n by (simp add: repo_ref_def pushed_repo_def mk_ObjectId_value)
  show "repo_backend_ref ''main'' pushed_repo = Inr None"
    by (simp add: repo_backend_ref_def pushed_repo_def repo_empty_def)
qed

lemma pushed_run: "\<exists>st. push_run (interfered (memory_backend sample_hash)) [] (\<lambda>_. '''') (\<lambda>_. '''') ''tx'' epoch
    (pushed_repo, memory_init, [], []) =
  (Inr \<lparr>pr_refs_pushed = 1, pr_refs_already_current = 0, pr_objects_uploaded = 0\<rparr>, st)"
  by (simp add: prod_eq_iff) code_simp


theorem push_no_lost_update_witness:
  "\<exists>res r' s' rest log. push_run (interfered (memory_backend sample_hash)) [] (\<lambda>_. '''') (\<lambda>_. '''') ''tx'' epoch
      (pushed_repo, memory_init, [], []) = (res, (r', s', rest, log)) \<and> memory_inv sample_hash s' \<and>
    (\<exists>e \<in> set log. moved memory_refs (normalize_ref ''main'') None (sample_oid (CHR ''1'')) e)"
proof -
  obtain r' s' rest log where run: "push_run (interfered (memory_backend sample_hash)) [] (\<lambda>_. '''') (\<lambda>_. '''') ''tx'' epoch
      (pushed_repo, memory_init, [], []) =
      (Inr \<lparr>pr_refs_pushed = 1, pr_refs_already_current = 0, pr_objects_uploaded = 0\<rparr>, (r', s', rest, log))"
    using pushed_run by (metis prod.collapse)
  have good: "good_ref ''main''" unfolding good_ref_def by code_simp
  show ?thesis
    using push_no_lost_update [OF memory.backend_safe_axioms [of sample_hash] pushed_repo_ok(1) memory_inv_init [of sample_hash]
        _ _ _ _ run, of "sample_oid (CHR ''1'')" None] pushed_repo_ok good run
    by (auto simp: calm_others_def)
qed

context backend
begin

lemma push_update_ok:
  assumes "good_ref n" and "normalize_ref n = n" and "valid_oid x" and "list_all (storable h) os" and "inv s"
  shows "\<exists>r' s' res. push_update B oj tx now n e x os (r, s) = (res, (r', s')) \<and> inv s' \<and>
    (if refs s n = e
     then res = Inr (1, 0) \<and> refs s' = (refs s)(n \<mapsto> x) \<and> dom (objs s) \<union> fst ` set os \<subseteq> dom (objs s') \<and>
       repo_backend_ref n r' = Inr (Some x)
     else res = Inl (RefConflict (''non-fast-forward: '' @ n)) \<and> refs s' = refs s)"
proof -
  define s1 where "s1 = snd (write_objects B os s)"
  have w: "write_objects B os s = (Inr (), s1)" using writes_ok [OF assms(5,4)] by (simp add: s1_def prod_eq_iff)
  have g: "inv s1" "refs s1 = refs s" "dom (objs s) \<subseteq> dom (objs s1)"
    using writes_grown [OF assms(5), of os] by (simp_all add: s1_def grown_def)
  have d: "fst ` set os \<subseteq> dom (objs s1)" by (rule writes_sound [OF assms(5) w])
  define s2 where "s2 = snd (cas_ref B n e x s1)"
  have c: "cas_ref B n e x s1 = (Inr (refs s n = e), s2)"
    using cas_ref_eq(1) [OF g(1) assms(1,3), of e] g(2) assms(2) by (simp add: s2_def prod_eq_iff)
  have r2: "refs s2 = (if refs s n = e then (refs s)(n \<mapsto> x) else refs s)" and i2: "inv s2" "objs s2 = objs s1"
    using cas_ref_eq(2) [OF g(1) assms(1,3), of e] g(2) assms(2) cas_inv [OF g(1) assms(1,3), of e]
      cas_objs [OF g(1) assms(1,3), of e] by (simp_all add: s2_def)
  define j where "j = push_journal tx now n e x"
  define s3 where "s3 = snd (append_journal B j s2)"
  have a: "append_journal B j s2 = (Inr (), s3)" using journal_ok [OF i2(1)] by (simp add: s3_def prod_eq_iff)
  have i3: "inv s3" "refs s3 = refs s2" "objs s3 = objs s2" using journal_same [OF i2(1), of j] by (simp_all add: s3_def same_def)
  have "mk_ObjectId (oid_value x) = Inr x" using assms(3) by (rule mk_ObjectId_value)
  then show ?thesis
    using w c a r2 i2 i3 g d assms(2)
    by (simp add: push_update_def push_swap_def push_finish_def push_record_def onR_def onB_def bindS_def Let_def
        j_def [symmetric] repo_record_push_transaction_def repo_append_journal_def repo_set_backend_ref_def
        repo_backend_ref_def del: mk_ObjectId_Inr)
qed

lemma push_failing_run:
  assumes "m (r, s) = (res, (r', s'))"
  shows "\<exists>r''. push_failing tx n e x os m (r, s) = (res, (case res of Inl _ \<Rightarrow> r'' | Inr _ \<Rightarrow> r', s'))"
  using assms by (cases res) (auto simp: push_failing_def catchS_def push_record_def bindS_def onR_def
      repo_record_push_transaction_def)

lemma push_ref_ok:
  assumes "good_ref n" and "normalize_ref n = n" and "valid_oid x" and "list_all (storable h) os" and "inv s"
    and "repo_backend_ref n r = Inr known"
  shows "\<exists>r' s' res. push_ref B oj tx now n x os (r, s) = (res, (r', s')) \<and> inv s' \<and>
    (if refs s n \<in> {None, known, Some x}
     then res = Inr (if refs s n = Some x then (0, 1) else (1, 0)) \<and> refs s' = (refs s)(n \<mapsto> x) \<and>
       fst ` set os \<subseteq> dom (objs s') \<and> repo_backend_ref n r' = Inr (Some x)
     else res = Inl (RefConflict (''non-fast-forward: '' @ n)) \<and> refs s' = refs s)"
proof -
  define s1 where "s1 = snd (read_ref B n s)"
  have rd: "read_ref B n s = (Inr (refs s n), s1)"
    using read_ref_eq [OF assms(5,1)] assms(2) by (simp add: s1_def prod_eq_iff)
  have i1: "inv s1" "refs s1 = refs s" "objs s1 = objs s" using ref_same [OF assms(5), of n] by (simp_all add: s1_def same_def)
  have red: "push_ref B oj tx now n x os (r, s) =
    (if refs s n = Some x then
      push_failing tx n known x os
        (bindS (onB (write_objects B os)) (\<lambda>_. bindS (onR (repo_set_backend_ref n x)) (\<lambda>_. returnS (0, 1)))) (r, s1)
    else if refs s n \<noteq> None \<and> refs s n \<noteq> known then
      push_failing tx n known x os (raiseS (RefConflict (''non-fast-forward: '' @ n))) (r, s1)
    else push_failing tx n (refs s n) x os (push_update B oj tx now n (refs s n) x os) (r, s1))"
    using assms(6) rd push_failing_run [of "onB (read_ref B n)" r s "Inr (refs s n)" r s1 tx n known x os]
    by (auto simp: push_ref_def onR_def onB_def bindS_def)
  consider (current) "refs s n = Some x" | (conflict) "refs s n \<notin> {None, known, Some x}"
    | (move) "refs s n \<in> {None, known}" "refs s n \<noteq> Some x" by blast
  then show ?thesis
  proof cases
    case current
    define s2 where "s2 = snd (write_objects B os s1)"
    have w: "write_objects B os s1 = (Inr (), s2)" using writes_ok [OF i1(1) assms(4)] by (simp add: s2_def prod_eq_iff)
    have g: "inv s2" "refs s2 = refs s1" using writes_grown [OF i1(1), of os] by (simp_all add: s2_def grown_def)
    have "push_failing tx n known x os
        (bindS (onB (write_objects B os)) (\<lambda>_. bindS (onR (repo_set_backend_ref n x)) (\<lambda>_. returnS (0, 1)))) (r, s1) =
      (Inr (0 :: nat, 1 :: nat), (snd (repo_set_backend_ref n x r), s2))"
      using w by (simp add: push_failing_Inr onB_def onR_def bindS_def repo_set_backend_ref_def)
    moreover have "repo_backend_ref n (snd (repo_set_backend_ref n x r)) = Inr (Some x)"
      using assms(3) by (simp add: repo_set_backend_ref_def repo_backend_ref_def mk_ObjectId_value del: mk_ObjectId_Inr)
    ultimately show ?thesis
      using red current g i1(2) writes_sound [OF i1(1) w] by (simp add: fun_upd_idem del: One_nat_def)
  next
    case conflict
    then show ?thesis
      using red i1 push_failing_run [of "raiseS (RefConflict (''non-fast-forward: '' @ n))" r s1 _ r s1 tx n known x os] by auto
  next
    case move
    obtain r' s' where u: "push_update B oj tx now n (refs s n) x os (r, s1) = (Inr (1, 0), (r', s'))" "inv s'"
        "refs s' = (refs s)(n \<mapsto> x)" "fst ` set os \<subseteq> dom (objs s')" "repo_backend_ref n r' = Inr (Some x)"
      using push_update_ok [OF assms(1-4) i1(1), of oj tx now "refs s n" r] i1(2) by auto
    then show ?thesis using red move by (auto simp: push_failing_Inr)
  qed
qed

end


text \<open>C2: a push publishes or is refused. Over a store whose calls succeed, a push of a commit returns
  exactly when the remote branch is absent, is what this client last saw, or is the commit
  already; the branch then names the commit, all local objects are stored, and the client
  remembers the remote value. Otherwise it raises a reference conflict and the references stay.\<close>

theorem push_publishes:
  assumes "backend h B good objs refs" and "repo_inv h r" and "good s" and "good_ref (repo_current_branch r)"
    and "repo_ref (repo_current_branch r) r = Inr (Some x)" and "repo_backend_ref (repo_current_branch r) r = Inr known"
    and "\<forall>(o', k, d) \<in> set (r_objects r). git_object d"
    and "truthy (repo_backend_url r) = None \<or> ok (repo_storage_config env js r)"
  shows "\<exists>res r' s'. push_run B env js oj tx now (r, s) = (res, (r', s')) \<and> good s' \<and>
    (if refs s (normalize_ref (repo_current_branch r)) \<in> {None, known, Some x}
     then ok res \<and> refs s' = (refs s)(normalize_ref (repo_current_branch r) \<mapsto> x) \<and> repo_ids r \<subseteq> dom (objs s') \<and>
       repo_backend_ref (repo_current_branch r) r' = Inr (Some x)
     else res = Inl (RefConflict (''non-fast-forward: '' @ normalize_ref (repo_current_branch r))) \<and> refs s' = refs s)"
proof -
  define n where "n = normalize_ref (repo_current_branch r)"
  obtain os where os: "repo_all_objects r = Inr os" "set os = (\<lambda>(o', k, d). (ObjectId o', d)) ` set (r_objects r)"
    using all_objects_run [OF assms(2)] by blast
  have st: "list_all (storable h) os"
    using os(2) assms(2,7) by (auto simp: list_all_iff storable_def repo_inv_def)
  have n: "good_ref n" "normalize_ref n = n" "repo_backend_ref n r = Inr known" "repo_backend_ref n = repo_backend_ref (repo_current_branch r)"
    using assms(4,6) by (simp_all add: n_def good_ref_def repo_backend_ref_def fun_eq_iff)
  have x: "valid_oid x" using repo_ref_eq [OF assms(2)] assms(5) repo_refs_valid [OF assms(2)] by simp
  obtain s1 where c: "push_config B env js (r, s) = (Inr (), (r, s1))" "good s1" "refs s1 = refs s"
  proof (cases "truthy (repo_backend_url r)")
    case None
    then show ?thesis using that [of s] assms(3) by (simp add: push_config_def onR_def bindS_def)
  next
    case (Some u)
    then obtain j where j: "repo_storage_config env js r = Inr j" using assms(8) by (auto simp: ok_iff)
    obtain t where t: "write_config B j s = (Inr (), t)"
      using backend.write_config_ok [OF assms(1,3), of j] by (metis prod.collapse)
    then show ?thesis
      using that [of t] Some j backend_safe.write_config_same [OF backend.axioms(1) [OF assms(1)] assms(3), of j]
      by (simp add: push_config_def onR_def onB_def bindS_def same_def)
  qed
  obtain res r' s' where p: "push_ref B oj tx now n x os (r, s1) = (res, (r', s'))" "good s'"
    and q: "if refs s1 n \<in> {None, known, Some x}
     then res = Inr (if refs s1 n = Some x then (0, 1) else (1, 0)) \<and> refs s' = (refs s1)(n \<mapsto> x) \<and>
       fst ` set os \<subseteq> dom (objs s') \<and> repo_backend_ref n r' = Inr (Some x)
     else res = Inl (RefConflict (''non-fast-forward: '' @ n)) \<and> refs s' = refs s1"
    using backend.push_ref_ok [OF assms(1) n(1,2) x st c(2) n(3), of oj tx now] by blast
  have "fst (push_run B env js oj tx now (r, s)) = Inl e \<longleftrightarrow> res = Inl e" "snd (push_run B env js oj tx now (r, s)) = (r', s')" for e
    using push_run_split [OF os(1) assms(5), of B env js oj tx now s] c(1) p(1) unfolding n_def
    by (cases res; auto split: prod.splits)+
  then show ?thesis
    using q p(2) c(3) n(4) fst_objects [OF os(2)]
    by (cases "push_run B env js oj tx now (r, s)"; cases "fst (push_run B env js oj tx now (r, s))")
       (auto simp: n_def [symmetric] split: if_splits)
qed


theorem push_publishes_witness:
  "\<exists>res r' s'. push_run (memory_backend sample_hash) [] (\<lambda>_. '''') (\<lambda>_. '''') ''tx'' epoch (pushed_repo, memory_init) =
      (res, (r', s')) \<and> ok res \<and> memory_refs s' (normalize_ref ''main'') = Some (sample_oid (CHR ''1''))"
proof -
  have good: "good_ref ''main''" unfolding good_ref_def by code_simp
  have "r_objects pushed_repo = []" "truthy (repo_backend_url pushed_repo) = None" "memory_refs memory_init n = None" for n
    by (simp_all add: pushed_repo_def repo_empty_def truthy_def repo_backend_url_def repo_get_meta_def memory_init_def)
  then show ?thesis
    using push_publishes [OF memory.backend_axioms [of sample_hash], of pushed_repo memory_init "sample_oid (CHR ''1'')" None
        "[]" "\<lambda>_. ''''" "\<lambda>_. ''''" "''tx''" epoch] pushed_repo_ok good
    by auto
qed

end
