(* ===== verification/Fetch.thy ===== *)
theory Fetch
  imports Push RepoGraph
begin

text \<open>
  \<^verbatim>\<open>src/trunks/fetch.py\<close> and \<^verbatim>\<open>src/trunks/pull.py\<close>: downloading the closure of the remote references and
  updating the working tree. The recursion of \<^verbatim>\<open>_download_closure\<close> is on \<open>limit\<close>, the number of nested
  calls Python's stack takes; \<^verbatim>\<open>seen\<close>, the set the calls share, is passed on and returned.

  \<open>fetch_closure_sound\<close> shows what a fetch that returns has brought: with a complete repository
  before, the repository is complete afterwards. \<open>fetch_closure_ok\<close> shows that it returns when the
  store has all objects and the stack is deeper than their number.
\<close>

section \<open>The code\<close>

function fetch_closure :: "hash \<Rightarrow> 's Backend \<Rightarrow> nat \<Rightarrow> ObjectId \<Rightarrow> ObjectId list \<Rightarrow> Repo \<times> 's \<Rightarrow>
    ObjectId list res \<times> Repo \<times> 's"
  and fetch_list :: "hash \<Rightarrow> 's Backend \<Rightarrow> nat \<Rightarrow> ObjectId list \<Rightarrow> ObjectId list \<Rightarrow> Repo \<times> 's \<Rightarrow>
    ObjectId list res \<times> Repo \<times> 's" where
  "fetch_closure h B 0 oid seen st = (Inl (RuntimeError ''maximum recursion depth exceeded''), st)"
| "fetch_closure h B (Suc limit) oid seen st =
    (if oid \<in> set seen then (Inr seen, st)
     else case repo_object_data oid (fst st) of
       Inr _ \<Rightarrow> (Inr (oid # seen), st)
     | Inl _ \<Rightarrow>
       bindS (onB (read_object B oid)) (\<lambda>data.
       bindS (onR (repo_put_object h oid data)) (\<lambda>_.
       bindS (liftR (object_links h oid data)) (\<lambda>links.
       fetch_list h B limit links (oid # seen)))) st)"
| "fetch_list h B limit [] seen st = (Inr seen, st)"
| "fetch_list h B limit (x # xs) seen st =
    bindS (fetch_closure h B limit x seen) (\<lambda>seen'. fetch_list h B limit xs seen') st"
  by pat_completeness auto
termination
  by (relation "measures
    [\<lambda>q. case q of Inl (h, B, limit, oid, seen, st) \<Rightarrow> 2 * limit | Inr (h, B, limit, xs, seen, st) \<Rightarrow> 2 * limit + 1,
     \<lambda>q. case q of Inl _ \<Rightarrow> 0 | Inr (h, B, limit, xs, seen, st) \<Rightarrow> length xs]") auto

definition fetch_ref :: "hash \<Rightarrow> 's Backend \<Rightarrow> nat \<Rightarrow> Ref \<Rightarrow> (Repo \<times> 's, unit) st" where
  "fetch_ref h B limit ref =
    (case ref_oid ref of
        None \<Rightarrow> returnS ()
      | Some oid \<Rightarrow>
        bindS (fetch_closure h B limit oid []) (\<lambda>_.
        bindS (onR (repo_set_ref (ref_name ref) oid)) (\<lambda>_.
        onR (repo_set_backend_ref (ref_name ref) oid))))"

definition fetch_run :: "hash \<Rightarrow> 's Backend \<Rightarrow> nat \<Rightarrow> (Repo \<times> 's, unit) st" where
  "fetch_run h B limit = bindS (onB (list_refs B ''refs/'')) (iterS (fetch_ref h B limit))"

definition pull_config :: "'s Backend \<Rightarrow> (string, string) dict \<Rightarrow> (json \<Rightarrow> string) \<Rightarrow> (Repo \<times> 's, unit) st" where
  "pull_config B env json_str =
    catchS (bindS (onB (read_config B)) (\<lambda>data. onR (repo_apply_storage_config env json_str data)))
      (\<lambda>e. if is_object_not_found e then returnS () else raiseS e)"

definition pull_run :: "hash \<Rightarrow> 's Backend \<Rightarrow> (string, string) dict \<Rightarrow> (json \<Rightarrow> string) \<Rightarrow> nat \<Rightarrow> (Repo \<times> 's, unit) st" where
  "pull_run h B env json_str limit =
    bindS (fetch_run h B limit) (\<lambda>_.
    bindS (pull_config B env json_str) (\<lambda>_.
    bindS (onR (getsS (\<lambda>r. repo_ref (repo_current_branch r) r))) (\<lambda>head.
    case head of
      None \<Rightarrow> returnS ()
    | Some c \<Rightarrow>
      bindS (onR (getsS repo_index_entries)) (\<lambda>old_entries.
      bindS (onR (repo_reset_index_to_commit h limit c)) (\<lambda>_.
      onR (repo_checkout_tree h limit c (Some old_entries)))))))"

section \<open>What a fetch that returns has brought\<close>

definition stored_ids :: "Repo \<Rightarrow> ObjectId set" where
  "stored_ids r = {x. ok (repo_object_data x r)}"

text \<open>Every object that is stored has the objects it refers to.\<close>

definition complete :: "hash \<Rightarrow> Repo \<Rightarrow> bool" where
  "complete h r \<longleftrightarrow> (\<forall>x \<in> stored_ids r. links_of h r x \<subseteq> stored_ids r)"

text \<open>Only objects were added.\<close>

definition extends :: "Repo \<Rightarrow> Repo \<Rightarrow> bool" where
  "extends r r' \<longleftrightarrow> r' = r\<lparr>r_objects := r_objects r'\<rparr> \<and> map_of (r_objects r) \<subseteq>\<^sub>m map_of (r_objects r')"

lemma extends_refl [simp]: "extends r r"
  by (simp add: extends_def)

lemma extends_trans: "extends r s \<Longrightarrow> extends s t \<Longrightarrow> extends r t"
proof -
  assume a: "extends r s" "extends s t"
  then have s: "s = r\<lparr>r_objects := r_objects s\<rparr>" and t: "t = s\<lparr>r_objects := r_objects t\<rparr>" by (simp_all add: extends_def)
  have "t = r\<lparr>r_objects := r_objects t\<rparr>" by (subst t, subst s, simp)
  then show ?thesis using a by (auto simp: extends_def intro: map_le_trans)
qed

lemma extends_data:
  assumes "extends r r'" and "repo_object_data x r = Inr d"
  shows "repo_object_data x r' = Inr d"
proof -
  obtain k where k: "map_of (r_objects r) (oid_value x) = Some (k, d)"
    using assms(2) by (auto simp: repo_object_data_def split: option.splits)
  then have "map_of (r_objects r') (oid_value x) = Some (k, d)" using assms(1) by (force simp: extends_def map_le_def)
  then show ?thesis by (simp add: repo_object_data_def)
qed

lemma extends_stored: "extends r r' \<Longrightarrow> stored_ids r \<subseteq> stored_ids r'"
  using extends_data by (auto simp: stored_ids_def ok_iff)

lemma extends_links: "extends r r' \<Longrightarrow> x \<in> stored_ids r \<Longrightarrow> links_of h r' x = links_of h r x"
  by (auto simp: links_of_def stored_ids_def ok_iff dest: extends_data)

text \<open>\<open>brought h r seen r' seen'\<close>: the new objects refer to stored or seen ones, and what is seen now was seen or is
  stored.\<close>

definition brought :: "hash \<Rightarrow> Repo \<Rightarrow> ObjectId list \<Rightarrow> Repo \<Rightarrow> ObjectId list \<Rightarrow> bool" where
  "brought h r seen r' seen' \<longleftrightarrow> extends r r' \<and> set seen \<subseteq> set seen' \<and> set seen' \<subseteq> set seen \<union> stored_ids r' \<and>
     (\<forall>x \<in> stored_ids r' - stored_ids r. links_of h r' x \<subseteq> stored_ids r' \<union> set seen)"

lemma brought_refl: "brought h r seen r seen"
  by (simp add: brought_def)

lemma brought_trans:
  assumes "brought h r a s b" and "brought h s b t c"
  shows "brought h r a t c"
proof -
  have e: "extends r s" "extends s t" using assms by (simp_all add: brought_def)
  have st: "stored_ids s \<subseteq> stored_ids t" using extends_stored [OF e(2)] .
  have "links_of h t x \<subseteq> stored_ids t \<union> set a" if x: "x \<in> stored_ids t - stored_ids r" for x
  proof (cases "x \<in> stored_ids s")
    case True
    then have "links_of h s x \<subseteq> stored_ids s \<union> set a" using assms(1) x by (auto simp: brought_def)
    then show ?thesis using extends_links [OF e(2) True] st by auto
  next
    case False
    then have "links_of h t x \<subseteq> stored_ids t \<union> set b" using assms(2) x by (auto simp: brought_def)
    then show ?thesis using assms(1) st by (auto simp: brought_def)
  qed
  then show ?thesis using assms extends_trans [OF e] st unfolding brought_def by blast
qed

lemma put_object_extends:
  assumes "repo_put_object h x d r = (Inr u, r')"
  shows "extends r r'" and "x \<in> stored_ids r'" and "from_bytes h d = x"
    and "repo_object_data x r = Inl e \<Longrightarrow> repo_object_data x r' = Inr d"
    and "stored_ids r' = insert x (stored_ids r)"
proof -
  obtain k p where kp: "from_bytes h d = x" "parse_canonical_object d = Inr (k, p)"
    "r' = r_objects_update (setdefault (oid_value x) (k, d)) r"
    using assms by (auto simp: repo_put_object_def bindS_def split: if_splits sum.splits)
  show "from_bytes h d = x" by fact
  show "extends r r'" using kp(3) by (auto simp: extends_def map_le_def map_of_setdefault split: option.split)
  show "repo_object_data x r = Inl e \<Longrightarrow> repo_object_data x r' = Inr d"
    using kp(3) by (auto simp: repo_object_data_def map_of_setdefault split: option.splits)
  show "stored_ids r' = insert x (stored_ids r)"
    using kp(3) by (auto simp: stored_ids_def repo_object_data_def map_of_setdefault ObjectId.expand split: option.splits if_splits)
  then show "x \<in> stored_ids r'" by simp
qed

lemma fetch_step:
  assumes "fetch_closure h B (Suc limit) oid seen st = (Inr seen', st')"
    and "oid \<notin> set seen" and "repo_object_data oid (fst st) = Inl e"
  shows "\<exists>d st1 st2 links. onB (read_object B oid) st = (Inr d, st1) \<and> onR (repo_put_object h oid d) st1 = (Inr (), st2) \<and>
    object_links h oid d = Inr links \<and> fetch_list h B limit links (oid # seen) st2 = (Inr seen', st')"
proof -
  have "bindS (onB (read_object B oid)) (\<lambda>data.
       bindS (onR (repo_put_object h oid data)) (\<lambda>_.
       bindS (liftR (object_links h oid data)) (\<lambda>links.
       fetch_list h B limit links (oid # seen)))) st = (Inr seen', st')"
    using assms by simp
  then show ?thesis by (elim bindS_InrE) auto
qed

lemma fetch_sound:
  "fetch_closure h B limit oid seen st = (Inr seen', st') \<Longrightarrow>
     brought h (fst st) seen (fst st') seen' \<and> oid \<in> set seen'"
  "fetch_list h B limit xs seen st = (Inr seen', st') \<Longrightarrow>
     brought h (fst st) seen (fst st') seen' \<and> set xs \<subseteq> set seen'"
proof (induction h B limit oid seen st and h B limit xs seen st arbitrary: seen' st' and seen' st'
    rule: fetch_closure_fetch_list.induct)
  case (2 h B limit oid seen st)
  show ?case
  proof (cases "oid \<in> set seen \<or> oid \<in> stored_ids (fst st)")
    case True
    then show ?thesis
      using "2.prems" by (auto simp: brought_def stored_ids_def ok_iff split: if_splits sum.splits)
  next
    case False
    then obtain e where e: "oid \<notin> set seen" "repo_object_data oid (fst st) = Inl e"
      by (cases "repo_object_data oid (fst st)") (auto simp: stored_ids_def)
    obtain d st1 st2 links where run: "onB (read_object B oid) st = (Inr d, st1)" "onR (repo_put_object h oid d) st1 = (Inr (), st2)"
      "object_links h oid d = Inr links" "fetch_list h B limit links (oid # seen) st2 = (Inr seen', st')"
      using fetch_step [OF "2.prems" e] by blast
    have ih: "brought h (fst st2) (oid # seen) (fst st') seen' \<and> set links \<subseteq> set seen'"
      using "2.IH" [OF e run(1,2) _ run(4)] run(3) by simp
    have st1: "fst st1 = fst st" using run(1) by (auto simp: onB_def split: prod.splits)
    then have put: "repo_put_object h oid d (fst st) = (Inr (), fst st2)"
      using run(2) by (auto simp: onR_def split: prod.splits)
    note p = put_object_extends [OF put]
    have data: "repo_object_data oid (fst st') = Inr d"
      using extends_data [of "fst st2" "fst st'"] ih p(4) [OF e(2)] by (simp add: brought_def)
    have oid: "oid \<in> stored_ids (fst st')" using data by (simp add: stored_ids_def)
    have l: "links_of h (fst st') oid \<subseteq> stored_ids (fst st') \<union> set seen"
      using links_of_stored [OF data run(3)] ih oid by (auto simp: brought_def)
    have "links_of h (fst st') x \<subseteq> stored_ids (fst st') \<union> set seen" if "x \<in> stored_ids (fst st') - stored_ids (fst st)" for x
    proof (cases "x = oid")
      case False
      then have "x \<notin> stored_ids (fst st2)" using that p(5) by auto
      then have "links_of h (fst st') x \<subseteq> stored_ids (fst st') \<union> set (oid # seen)" using ih that by (auto simp: brought_def)
      then show ?thesis using oid by auto
    qed (use l in simp)
    moreover have "extends (fst st) (fst st')" using ih extends_trans [OF p(1)] unfolding brought_def by blast
    ultimately show ?thesis using ih oid unfolding brought_def by auto
  qed
next
  case (4 h B limit x xs seen st)
  obtain seen1 st1 where run: "fetch_closure h B limit x seen st = (Inr seen1, st1)"
      "fetch_list h B limit xs seen1 st1 = (Inr seen', st')"
    using "4.prems" by (auto elim!: bindS_InrE)
  have a: "brought h (fst st) seen (fst st1) seen1 \<and> x \<in> set seen1" by (rule "4.IH"(1) [OF run(1)])
  have b: "brought h (fst st1) seen1 (fst st') seen' \<and> set xs \<subseteq> set seen'" by (rule "4.IH"(2) [OF run])
  have "brought h (fst st) seen (fst st') seen'" using brought_trans a b by blast
  moreover have "set seen1 \<subseteq> set seen'" using b unfolding brought_def by blast
  ultimately show ?case using a b by auto
qed (simp_all add: brought_refl)


section \<open>When a fetch returns\<close>

text \<open>The objects of a set \<open>D\<close> parse and refer to each other only.\<close>

definition self_contained :: "hash \<Rightarrow> (ObjectId \<Rightarrow> bytes option) \<Rightarrow> ObjectId set \<Rightarrow> bool" where
  "self_contained h store D \<longleftrightarrow> finite D \<and>
     (\<forall>x \<in> D. \<exists>d ls. store x = Some d \<and> object_links h x d = Inr ls \<and> set ls \<subseteq> D)"

lemma card_seen:
  assumes "finite D" and "x \<in> D" and "x \<notin> set seen" and "card (D - set seen) < Suc n"
  shows "card (D - set (x # seen)) < n"
proof -
  have "D - set (x # seen) \<subset> D - set seen" using assms(2,3) by auto
  then have "card (D - set (x # seen)) < card (D - set seen)" using assms(1) by (intro psubset_card_mono) auto
  then show ?thesis using assms(4) by simp
qed

context backend
begin

lemma fetch_list_ok:
  assumes one: "\<And>x seen r s. x \<in> D \<Longrightarrow> inv s \<Longrightarrow> self_contained h (objs s) D \<Longrightarrow> card (D - set seen) < limit \<Longrightarrow>
      \<exists>seen' r' s'. fetch_closure h B limit x seen (r, s) = (Inr seen', (r', s')) \<and> same inv objs refs s s' \<and> set seen \<subseteq> set seen'"
    and "set xs \<subseteq> D" and "inv s" and "self_contained h (objs s) D" and "card (D - set seen) < limit"
  shows "\<exists>seen' r' s'. fetch_list h B limit xs seen (r, s) = (Inr seen', (r', s')) \<and> same inv objs refs s s' \<and> set seen \<subseteq> set seen'"
  using assms(2-)
proof (induction xs arbitrary: seen r s)
  case Nil
  then show ?case by (simp add: same_refl)
next
  case (Cons x xs)
  obtain seen1 r1 s1 where a: "fetch_closure h B limit x seen (r, s) = (Inr seen1, (r1, s1))" "same inv objs refs s s1"
      "set seen \<subseteq> set seen1"
    using one [of x s seen r] Cons.prems by auto
  have "finite D" using Cons.prems(3) by (simp add: self_contained_def)
  then have "card (D - set seen1) < limit"
    using card_mono [of "D - set seen" "D - set seen1"] a(3) Cons.prems(4) by fastforce
  moreover have "inv s1" "self_contained h (objs s1) D" using a(2) Cons.prems(3) by (simp_all add: same_def)
  ultimately obtain seen2 r2 s2 where b: "fetch_list h B limit xs seen1 (r1, s1) = (Inr seen2, (r2, s2))"
      "same inv objs refs s1 s2" "set seen1 \<subseteq> set seen2"
    using Cons.IH [of s1 seen1 r1] Cons.prems(1) by auto
  have "fetch_list h B limit (x # xs) seen (r, s) = (Inr seen2, (r2, s2))"
    unfolding fetch_list.simps bindS_step(1) [where m = "fetch_closure h B limit x seen", OF a(1)] by (rule b(1))
  then show ?case using same_trans [OF a(2) b(2)] a(3) b(3) by auto
qed

lemma fetch_closure_ok:
  assumes "x \<in> D" and "inv s" and "self_contained h (objs s) D" and "card (D - set seen) < limit"
  shows "\<exists>seen' r' s'. fetch_closure h B limit x seen (r, s) = (Inr seen', (r', s')) \<and> same inv objs refs s s' \<and> set seen \<subseteq> set seen'"
  using assms
proof (induction limit arbitrary: x seen r s)
  case (Suc limit)
  show ?case
  proof (cases "x \<in> set seen \<or> ok (repo_object_data x r)")
    case True
    then show ?thesis using Suc.prems(2) same_refl by (auto simp: ok_iff split: sum.split)
  next
    case False
    then obtain e where e: "x \<notin> set seen" "repo_object_data x r = Inl e" by (cases "repo_object_data x r") auto
    obtain d ls where d: "objs s x = Some d" "object_links h x d = Inr ls" "set ls \<subseteq> D"
      using Suc.prems(1,3) by (auto simp: self_contained_def)
    define s1 where "s1 = snd (read_object B x s)"
    have rd: "read_object B x s = (Inr d, s1)" using read_hit [OF Suc.prems(2) d(1)] by (simp add: s1_def prod_eq_iff)
    have same: "same inv objs refs s s1" using read_same [OF Suc.prems(2), of x] by (simp add: s1_def)
    obtain k p where "parse_canonical_object d = Inr (k, p)" using d(2) by (auto simp: object_links_def)
    then obtain r1 where put: "repo_put_object h x d r = (Inr (), r1)"
      using content [OF Suc.prems(2) d(1)] by (simp add: repo_put_object_def)
    have "card (D - set (x # seen)) < limit"
      using card_seen [OF _ Suc.prems(1) e(1) Suc.prems(4)] Suc.prems(3) by (simp add: self_contained_def)
    moreover have "inv s1" "self_contained h (objs s1) D" using same Suc.prems(3) by (simp_all add: same_def)
    ultimately obtain seen' r' s' where l: "fetch_list h B limit ls (x # seen) (r1, s1) = (Inr seen', (r', s'))"
        "same inv objs refs s1 s'" "set (x # seen) \<subseteq> set seen'"
      using fetch_list_ok [of D limit ls s1 "x # seen" r1] Suc.IH d(3) by blast
    have "fetch_closure h B (Suc limit) x seen (r, s) = (Inr seen', (r', s'))"
      using e rd put d(2) l(1) by (simp add: bindS_def onB_def onR_def)
    then show ?thesis using same_trans [OF same l(2)] l(3) by auto
  qed
qed simp

end


section \<open>The whole fetch\<close>

lemma put_object_keeps_inv: "digest20 h \<Longrightarrow> repo_inv h (fst st) \<Longrightarrow> repo_inv h (fst (snd (onR (repo_put_object h x d) st)))"
  using repo_inv_put_object [of h "fst st" x d] by (cases st) (auto simp: onR_def split: prod.split)

lemma onB_fst [simp]: "fst (snd (onB m st)) = fst st"
  by (cases st) (simp add: onB_def split: prod.split)

lemma fetch_inv:
  "digest20 h \<Longrightarrow> repo_inv h (fst st) \<Longrightarrow> repo_inv h (fst (snd (fetch_closure h B limit oid seen st)))"
  "digest20 h \<Longrightarrow> repo_inv h (fst st) \<Longrightarrow> repo_inv h (fst (snd (fetch_list h B limit xs seen st)))"
proof (induction h B limit oid seen st and h B limit xs seen st rule: fetch_closure_fetch_list.induct)
  case (2 h B limit oid seen st)
  show ?case
  proof (cases "oid \<in> set seen \<or> ok (repo_object_data oid (fst st))")
    case True
    then show ?thesis using "2.prems" by (auto simp: ok_iff split: sum.split)
  next
    case False
    then obtain e where e: "oid \<notin> set seen" "repo_object_data oid (fst st) = Inl e" by (cases "repo_object_data oid (fst st)") auto
    obtain d st1 where rd: "onB (read_object B oid) st = (d, st1)" by (cases "onB (read_object B oid) st")
    have i1: "repo_inv h (fst st1)" using "2.prems"(2) onB_fst [of "read_object B oid" st] rd by simp
    show ?thesis
    proof (cases d)
      case (Inl a)
      then show ?thesis using e rd i1 by (simp add: bindS_def)
    next
      case (Inr data)
      obtain u st2 where put: "onR (repo_put_object h oid data) st1 = (u, st2)" by (cases "onR (repo_put_object h oid data) st1")
      have i2: "repo_inv h (fst st2)" using put_object_keeps_inv [OF "2.prems"(1) i1, of oid data] put by simp
      have "repo_inv h (fst (snd (fetch_list h B limit links (oid # seen) st2)))" if "u = Inr ()" "object_links h oid data = Inr links" for links
        using "2.IH" [OF e] rd Inr put that i2 "2.prems"(1) by auto
      then show ?thesis
        using e rd Inr put i2 by (cases u; cases "object_links h oid data") (simp_all add: bindS_def)
    qed
  qed
next
  case (4 h B limit x xs seen st)
  then show ?case by (cases "fetch_closure h B limit x seen st"; cases "fst (fetch_closure h B limit x seen st)") (auto simp: bindS_def)
qed simp_all

lemma complete_brought:
  assumes "complete h r" and "brought h r [] r' seen'"
  shows "complete h r'"
  unfolding complete_def
proof
  fix x assume x: "x \<in> stored_ids r'"
  have e: "extends r r'" using assms(2) by (simp add: brought_def)
  show "links_of h r' x \<subseteq> stored_ids r'"
  proof (cases "x \<in> stored_ids r")
    case True
    then have "links_of h r x \<subseteq> stored_ids r" using assms(1) by (simp add: complete_def)
    then show ?thesis using extends_links [OF e True, of h] extends_stored [OF e] by simp
  next
    case False
    then show ?thesis using assms(2) x by (auto simp: brought_def)
  qed
qed

text \<open>A repository after some references were fetched.\<close>

definition fetched :: "hash \<Rightarrow> Ref list \<Rightarrow> Repo \<Rightarrow> Repo \<Rightarrow> bool" where
  "fetched h rs r r' \<longleftrightarrow> repo_inv h r' \<and> complete h r' \<and> stored_ids r \<subseteq> stored_ids r' \<and>
     r' = r\<lparr>r_objects := r_objects r', r_refs := r_refs r', r_backend_refs := r_backend_refs r'\<rparr> \<and>
     (\<forall>rr \<in> set rs. \<exists>x. ref_oid rr = Some x \<and> x \<in> stored_ids r' \<and>
        repo_ref (ref_name rr) r' = Inr (Some x) \<and> repo_backend_ref (ref_name rr) r' = Inr (Some x)) \<and>
     (\<forall>n. normalize_ref n \<notin> normalize_ref ` ref_name ` set rs \<longrightarrow>
        repo_ref n r' = repo_ref n r \<and> repo_backend_ref n r' = repo_backend_ref n r)"

lemma complete_refs [simp]: "complete h (r\<lparr>r_refs := a, r_backend_refs := b\<rparr>) = complete h r"
  "stored_ids (r\<lparr>r_refs := a, r_backend_refs := b\<rparr>) = stored_ids r"
  by (simp_all add: complete_def stored_ids_def links_of_def repo_object_data_def)

context backend
begin

lemma fetch_ref_ok:
  assumes "ref_oid rr = Some x" and "x \<in> D" and "inv s" and "self_contained h (objs s) D" and "card D < limit"
    and "repo_inv h r" and "complete h r" and "digest20 h"
  shows "\<exists>r' s'. fetch_ref h B limit rr (r, s) = (Inr (), (r', s')) \<and> same inv objs refs s s' \<and> fetched h [rr] r r'"
proof -
  obtain seen r1 s1 where run: "fetch_closure h B limit x [] (r, s) = (Inr seen, (r1, s1))" "same inv objs refs s s1"
    using fetch_closure_ok [OF assms(2-4), of "[]" limit r] assms(5) by auto
  have b: "brought h r [] r1 seen" "x \<in> set seen" using fetch_sound(1) [OF run(1)] by simp_all
  then have x1: "x \<in> stored_ids r1" by (auto simp: brought_def)
  have i1: "repo_inv h r1" using fetch_inv(1) [OF assms(8), of "(r, s)" B limit x "[]"] assms(6) run(1) by simp
  obtain d where "objs s x = Some d" using assms(2,4) by (auto simp: self_contained_def)
  then have v: "valid_oid x" using content [OF assms(3)] valid_from_bytes [OF assms(8)] by blast
  let ?n = "normalize_ref (ref_name rr)"
  let ?r2 = "r1\<lparr>r_refs := AList.update ?n (oid_value x) (r_refs r1),
      r_backend_refs := AList.update ?n (oid_value x) (r_backend_refs r1)\<rparr>"
  have i2: "repo_inv h ?r2"
    using repo_inv_set_backend_ref [OF repo_inv_set_ref [OF i1 v] v, of "ref_name rr" "ref_name rr"]
    by (simp add: repo_set_ref_def repo_set_backend_ref_def repo_inv_def)
  have e: "extends r r1" using b(1) by (simp add: brought_def)
  then have r1: "r1 = r\<lparr>r_objects := r_objects r1\<rparr>" by (simp add: extends_def)
  have refs1: "r_refs r1 = r_refs r" "r_backend_refs r1 = r_backend_refs r" by (subst r1, simp)+
  have shape: "?r2 = r\<lparr>r_objects := r_objects ?r2, r_refs := r_refs ?r2, r_backend_refs := r_backend_refs ?r2\<rparr>"
    by (subst r1) simp
  have "fetched h [rr] r ?r2"
    unfolding fetched_def
    using i2 complete_brought [OF assms(7) b(1)] extends_stored [OF e] x1 v assms(1) refs1 shape r1 [symmetric]
    by (simp add: repo_ref_def repo_backend_ref_def mk_ObjectId_value del: mk_ObjectId_Inr)
  moreover have "fetch_ref h B limit rr (r, s) = (Inr (), (?r2, s1))"
    using run(1) assms(1)
    by (simp add: fetch_ref_def bindS_def onR_def repo_set_ref_def repo_set_backend_ref_def)
  ultimately show ?thesis using run(2) by blast
qed

end

lemma repo_ref_norm:
  assumes "normalize_ref a = normalize_ref b"
  shows "repo_ref a r = repo_ref b r" and "repo_backend_ref a r = repo_backend_ref b r"
  unfolding repo_ref_def repo_backend_ref_def assms by (rule refl)+

lemma fetched_trans:
  assumes "fetched h [rr] r s" and "fetched h rs s t"
    and "\<And>q. q \<in> set rs \<Longrightarrow> normalize_ref (ref_name q) = normalize_ref (ref_name rr) \<Longrightarrow> ref_oid q = ref_oid rr"
  shows "fetched h (rr # rs) r t"
proof -
  have s: "s = r\<lparr>r_objects := r_objects s, r_refs := r_refs s, r_backend_refs := r_backend_refs s\<rparr>"
    and t: "t = s\<lparr>r_objects := r_objects t, r_refs := r_refs t, r_backend_refs := r_backend_refs t\<rparr>"
    using assms(1,2) by (simp_all add: fetched_def)
  have shape: "t = r\<lparr>r_objects := r_objects t, r_refs := r_refs t, r_backend_refs := r_backend_refs t\<rparr>"
    by (subst t, subst s, simp)
  obtain x where x: "ref_oid rr = Some x" "x \<in> stored_ids s" "repo_ref (ref_name rr) s = Inr (Some x)"
      "repo_backend_ref (ref_name rr) s = Inr (Some x)" using assms(1) by (auto simp: fetched_def)
  have later: "repo_ref (ref_name rr) t = Inr (Some x) \<and> repo_backend_ref (ref_name rr) t = Inr (Some x)"
  proof (cases "normalize_ref (ref_name rr) \<in> normalize_ref ` ref_name ` set rs")
    case True
    then obtain q where q: "q \<in> set rs" "normalize_ref (ref_name q) = normalize_ref (ref_name rr)" by auto
    then have "ref_oid q = Some x" using assms(3) x(1) by simp
    then have "repo_ref (ref_name q) t = Inr (Some x)" "repo_backend_ref (ref_name q) t = Inr (Some x)"
      using assms(2) q(1) by (auto simp: fetched_def)
    then show ?thesis using repo_ref_norm [OF q(2)] by simp
  next
    case False
    then show ?thesis using assms(2) x(3,4) by (simp add: fetched_def)
  qed
  show ?thesis
    unfolding fetched_def
  proof (intro conjI)
    show "repo_inv h t" "complete h t" using assms(2) by (simp_all add: fetched_def)
    show "stored_ids r \<subseteq> stored_ids t" using assms(1,2) unfolding fetched_def by blast
    show "\<forall>q \<in> set (rr # rs). \<exists>x. ref_oid q = Some x \<and> x \<in> stored_ids t \<and>
        repo_ref (ref_name q) t = Inr (Some x) \<and> repo_backend_ref (ref_name q) t = Inr (Some x)"
      using later x(1,2) assms(2) by (auto simp: fetched_def)
    show "\<forall>n. normalize_ref n \<notin> normalize_ref ` ref_name ` set (rr # rs) \<longrightarrow>
        repo_ref n t = repo_ref n r \<and> repo_backend_ref n t = repo_backend_ref n r"
      using assms(1,2) by (simp add: fetched_def)
  qed (rule shape)
qed

lemma fetched_refl: "repo_inv h r \<Longrightarrow> complete h r \<Longrightarrow> fetched h [] r r"
  by (simp add: fetched_def)

text \<open>The remote references a fetch follows lead into \<open>D\<close>.\<close>

definition remote_ok :: "hash \<Rightarrow> (ObjectId \<Rightarrow> bytes option) \<Rightarrow> (string \<Rightarrow> ObjectId option) \<Rightarrow> ObjectId set \<Rightarrow> bool" where
  "remote_ok h store cells D \<longleftrightarrow> self_contained h store D \<and>
     (\<forall>n x. startswith n ''refs/'' \<and> cells n = Some x \<longrightarrow> x \<in> D)"

context backend
begin

lemma fetch_refs_ok:
  assumes "remote_ok h (objs s) (refs s) D" and "inv s" and "card D < limit" and "digest20 h"
    and "\<And>rr. rr \<in> set rs \<Longrightarrow> \<exists>n x. rr = \<lparr>ref_name = n, ref_oid = Some x\<rparr> \<and> startswith n ''refs/'' \<and> refs s n = Some x"
    and "repo_inv h r" and "complete h r"
  shows "\<exists>r' s'. iterS (fetch_ref h B limit) rs (r, s) = (Inr (), (r', s')) \<and> same inv objs refs s s' \<and> fetched h rs r r'"
  using assms
proof (induction rs arbitrary: r s)
  case Nil
  then show ?case by (simp add: same_refl fetched_refl)
next
  case (Cons rr rs)
  obtain n x where rr: "rr = \<lparr>ref_name = n, ref_oid = Some x\<rparr>" "startswith n ''refs/''" "refs s n = Some x"
    using Cons.prems(5) [of rr] by auto
  have sc: "self_contained h (objs s) D" "x \<in> D" using Cons.prems(1) rr unfolding remote_ok_def by blast+
  obtain r1 s1 where a: "fetch_ref h B limit rr (r, s) = (Inr (), (r1, s1))" "same inv objs refs s s1" "fetched h [rr] r r1"
    using fetch_ref_ok [of rr x D s limit r] rr(1) sc Cons.prems(2,3,4,6,7) by auto
  have s1: "inv s1" "objs s1 = objs s" "refs s1 = refs s" using a(2) by (simp_all add: same_def)
  have r1: "repo_inv h r1" "complete h r1" using a(3) by (simp_all add: fetched_def)
  obtain r' s' where b: "iterS (fetch_ref h B limit) rs (r1, s1) = (Inr (), (r', s'))" "same inv objs refs s1 s'" "fetched h rs r1 r'"
    using Cons.IH [of s1 r1] Cons.prems s1 r1 by auto
  have "ref_oid q = ref_oid rr" if q: "q \<in> set rs" "normalize_ref (ref_name q) = normalize_ref (ref_name rr)" for q
  proof -
    obtain m y where "q = \<lparr>ref_name = m, ref_oid = Some y\<rparr>" "startswith m ''refs/''" "refs s m = Some y"
      using Cons.prems(5) [of q] q(1) by auto
    then show ?thesis using rr q(2) by simp
  qed
  then have "fetched h (rr # rs) r r'" by (intro fetched_trans [OF a(3) b(3)])
  then show ?case
    using same_trans [OF a(2) b(2)] b(1)
    unfolding iterS.simps bindS_step(1) [where m = "fetch_ref h B limit rr", OF a(1)] by blast
qed

end

section \<open>Properties\<close>

text \<open>C3: a fetch brings everything. Over a store whose calls succeed, whose references lead into a finite set
  of objects that parse and refer to each other only, and with a stack deeper than their number, a
  fetch into a complete repository returns; every remote reference is then set locally to a stored
  commit, the repository is complete again, other references and everything else are unchanged.\<close>

theorem fetch_brings_closure:
  assumes "backend h B good objs refs" and "digest20 h" and "repo_inv h r" and "complete h r" and "good s"
    and "remote_ok h (objs s) (refs s) D" and "card D < limit"
  shows "\<exists>r' s'. fetch_run h B limit (r, s) = (Inr (), (r', s')) \<and> same good objs refs s s' \<and>
    repo_inv h r' \<and> complete h r' \<and>
    r' = r\<lparr>r_objects := r_objects r', r_refs := r_refs r', r_backend_refs := r_backend_refs r'\<rparr> \<and>
    (\<forall>n x. startswith n ''refs/'' \<and> refs s n = Some x \<longrightarrow>
       x \<in> stored_ids r' \<and> repo_ref n r' = Inr (Some x) \<and> repo_backend_ref n r' = Inr (Some x)) \<and>
    (\<forall>n. refs s (normalize_ref n) = None \<longrightarrow> repo_ref n r' = repo_ref n r)"
proof -
  have safe: "backend_safe h B good objs refs" using assms(1) by (rule backend.axioms(1))
  obtain rs s1 where ls: "list_refs B ''refs/'' s = (Inr rs, s1)"
    using backend.list_ok [OF assms(1,5)] by (metis ok_iff prod.collapse)
  have same1: "same good objs refs s s1" using backend_safe.list_same [OF safe assms(5), of "''refs/''"] ls by simp
  note rs = backend_safe.list_sound [OF safe assms(5) ls]
  have "\<exists>n x. rr = \<lparr>ref_name = n, ref_oid = Some x\<rparr> \<and> startswith n ''refs/'' \<and> refs s1 n = Some x" if "rr \<in> set rs" for rr
    using rs [of rr] that same1 by (simp add: same_def)
  then obtain r' s' where run: "iterS (fetch_ref h B limit) rs (r, s1) = (Inr (), (r', s'))" "same good objs refs s1 s'" "fetched h rs r r'"
    using backend.fetch_refs_ok [OF assms(1), of s1 D limit rs r] assms same1 by (auto simp: same_def)
  have "fetch_run h B limit (r, s) = (Inr (), (r', s'))" using ls run(1) by (simp add: fetch_run_def bindS_def onB_def)
  moreover have "x \<in> stored_ids r' \<and> repo_ref n r' = Inr (Some x) \<and> repo_backend_ref n r' = Inr (Some x)"
    if "startswith n ''refs/''" "refs s n = Some x" for n x
    using run(3) rs [of "\<lparr>ref_name = n, ref_oid = Some x\<rparr>"] that by (force simp: fetched_def)
  moreover have "repo_ref n r' = repo_ref n r" if "refs s (normalize_ref n) = None" for n
  proof -
    have "normalize_ref n \<notin> normalize_ref ` ref_name ` set rs" using rs that by fastforce
    then show ?thesis using run(3) by (simp add: fetched_def)
  qed
  ultimately show ?thesis
    using run(3) same_trans [OF same1 run(2)] unfolding fetched_def by blast
qed


definition hello :: bytes where
  "hello = canonical_object ''blob'' ''hi''"

definition hello_store :: Memory where
  "hello_store = memory_init\<lparr>m_objects := [(from_bytes sample_hash hello, hello)],
     m_refs := [(''refs/heads/main'', from_bytes sample_hash hello)]\<rparr>"

lemma hello_links: "object_links sample_hash x hello = Inr []"
  by (simp add: object_links_def hello_def parse_canonical_canonical)

theorem fetch_brings_closure_witness:
  "\<exists>r' s'. fetch_run sample_hash (memory_backend sample_hash) 2 (repo_empty, hello_store) = (Inr (), (r', s')) \<and>
    from_bytes sample_hash hello \<in> stored_ids r' \<and> repo_ref ''refs/heads/main'' r' = Inr (Some (from_bytes sample_hash hello))"
proof -
  let ?x = "from_bytes sample_hash hello"
  have inv: "memory_inv sample_hash hello_store"
    by (simp add: memory_inv_def hello_store_def memory_init_def wf_dict_def)
  have ok: "remote_ok sample_hash (memory_objs hello_store) (memory_refs hello_store) {?x}"
    using hello_links by (auto simp: remote_ok_def self_contained_def hello_store_def memory_init_def split: if_splits)
  have empty: "complete sample_hash repo_empty"
    by (simp add: complete_def stored_ids_def repo_object_data_def repo_empty_def)
  have cell: "memory_refs hello_store ''refs/heads/main'' = Some ?x" by (simp add: hello_store_def)
  have pre: "startswith ''refs/heads/main'' ''refs/''" by (simp add: startswith_def)
  obtain r' s' where "fetch_run sample_hash (memory_backend sample_hash) 2 (repo_empty, hello_store) = (Inr (), (r', s'))"
    "\<forall>n x. startswith n ''refs/'' \<and> memory_refs hello_store n = Some x \<longrightarrow>
       x \<in> stored_ids r' \<and> repo_ref n r' = Inr (Some x) \<and> repo_backend_ref n r' = Inr (Some x)"
    using fetch_brings_closure [OF memory.backend_axioms [of sample_hash] digest20_sample repo_inv_empty [of sample_hash] empty inv ok, of 2]
    by auto
  then show ?thesis using pre cell by blast
qed

end
