(* ===== verification/Provider.thy ===== *)
theory Provider
  imports Storage
begin

text \<open>
  \<^verbatim>\<open>src/trunks/sandboxes/provider.py\<close> and the choice of a provider in
  \<^verbatim>\<open>src/trunks/sandboxes/registry.py\<close>: machine specifications with the checks of their
  constructors, what a provider supports, and the chain of providers tried for a run. A provider is
  code behind a network or a container engine: here it is its \<^verbatim>\<open>info\<close> record and the answer of its
  \<^verbatim>\<open>supports\<close> call, which may also be an exception.
\<close>

section \<open>Text\<close>

text \<open>\<^verbatim>\<open>repr\<close> of a string, where characters outside ASCII count as printable.\<close>

definition repr_char :: "char \<Rightarrow> char \<Rightarrow> string" where
  "repr_char q c =
    (if c = q \<or> c = BSLASH then [BSLASH, c]
     else if c = NL then [BSLASH, CHR ''n'']
     else if c = CHR 0x0D then [BSLASH, CHR ''r'']
     else if c = CHR 0x09 then [BSLASH, CHR ''t'']
     else if ordc c < 32 \<or> ordc c = 127 then [BSLASH, CHR ''x'', hex_chr (ordc c div 16), hex_chr (ordc c mod 16)]
     else [c])"

definition repr_str :: "string \<Rightarrow> string" where
  "repr_str s =
    (let q = (if CHR 0x27 \<in> set s \<and> CHR 0x22 \<notin> set s then CHR 0x22 else CHR 0x27)
     in q # concat (map (repr_char q) s) @ [q])"

section \<open>Specifications\<close>

record GPU =
  gpu_kind :: string
  gpu_count :: int

definition mk_GPU :: "string \<Rightarrow> int \<Rightarrow> GPU res" where
  "mk_GPU kind count =
    (if kind = [] then Inl (ValueError ''gpu kind is required'')
     else if count < 1 then Inl (ValueError ''gpu count must be >= 1'')
     else Inr \<lparr>gpu_kind = kind, gpu_count = count\<rparr>)"

record Spec =
  sp_cpu :: int
  sp_memory_gib :: int
  sp_disk_gib :: int
  sp_arch :: string
  sp_gpu :: "GPU option"
  sp_network :: string

definition mk_Spec :: "int \<Rightarrow> int \<Rightarrow> int \<Rightarrow> string \<Rightarrow> GPU option \<Rightarrow> string \<Rightarrow> Spec res" where
  "mk_Spec cpu memory_gib disk_gib arch gpu network =
    (if cpu < 1 then Inl (ValueError ''cpu must be >= 1'')
     else if memory_gib < 1 then Inl (ValueError ''memory_gib must be >= 1'')
     else if disk_gib < 1 then Inl (ValueError ''disk_gib must be >= 1'')
     else if arch \<notin> {''x86_64'', ''arm64''} then Inl (ValueError ''arch must be x86_64 or arm64'')
     else if network \<notin> {''default'', ''none'', ''egress-only''}
       then Inl (ValueError ''network must be default, none, or egress-only'')
     else Inr \<lparr>sp_cpu = cpu, sp_memory_gib = memory_gib, sp_disk_gib = disk_gib, sp_arch = arch,
       sp_gpu = gpu, sp_network = network\<rparr>)"

text \<open>\<^verbatim>\<open>Spec.key\<close>, the text under which queues and capacity slots are kept.\<close>

definition spec_key :: "Spec \<Rightarrow> string" where
  "spec_key s =
    ''cpu'' @ int_str (sp_cpu s) @ ''-mem'' @ int_str (sp_memory_gib s) @ ''g-disk'' @ int_str (sp_disk_gib s) @ ''g-'' @
    sp_arch s @ ''-'' @
    (case sp_gpu s of None \<Rightarrow> ''nogpu'' | Some g \<Rightarrow> ''gpu'' @ gpu_kind g @ ''x'' @ int_str (gpu_count g)) @
    ''-'' @ sp_network s"

text \<open>\<^verbatim>\<open>asdict\<close> of a specification.\<close>

definition spec_dict :: "Spec \<Rightarrow> json" where
  "spec_dict s = JObj
    [(''cpu'', JInt (sp_cpu s)), (''memory_gib'', JInt (sp_memory_gib s)), (''disk_gib'', JInt (sp_disk_gib s)),
     (''arch'', JStr (sp_arch s)),
     (''gpu'', case sp_gpu s of None \<Rightarrow> JNull
        | Some g \<Rightarrow> JObj [(''kind'', JStr (gpu_kind g)), (''count'', JInt (gpu_count g))]),
     (''network'', JStr (sp_network s))]"

section \<open>Providers\<close>

record SandboxProviderInfo =
  pi_id :: string
  pi_capabilities :: "string set"
  pi_isolation :: "string set"
  pi_architectures :: "string set"
  pi_network_modes :: "string set"
  pi_gpu_kinds :: "string set"
  pi_max_cpu :: int
  pi_max_memory_gib :: int
  pi_max_disk_gib :: int
  pi_max_timeout_s :: int
  pi_specs :: "Spec list"
  pi_regions :: "string set"
  pi_secrets_passthrough :: bool
  pi_closure_fetch :: bool
  pi_artifact_upload :: bool
  pi_live_logs :: bool

text \<open>What a run asks for.\<close>

record Request =
  rq_capabilities :: "string set"
  rq_spec :: Spec
  rq_region :: "string option"
  rq_isolation :: "string option"
  rq_network :: string

definition supports_static :: "Request \<Rightarrow> SandboxProviderInfo \<Rightarrow> bool" where
  "supports_static q i =
    (if \<not> rq_capabilities q \<subseteq> pi_capabilities i then False
     else if (case rq_isolation q of None \<Rightarrow> False | Some x \<Rightarrow> x \<notin> pi_isolation i) then False
     else if sp_arch (rq_spec q) \<notin> pi_architectures i then False
     else if rq_network q \<notin> pi_network_modes i then False
     else if (case rq_region q of None \<Rightarrow> False | Some x \<Rightarrow> x \<notin> pi_regions i) then False
     else if sp_cpu (rq_spec q) > pi_max_cpu i \<or> sp_memory_gib (rq_spec q) > pi_max_memory_gib i \<or>
       sp_disk_gib (rq_spec q) > pi_max_disk_gib i then False
     else if (case sp_gpu (rq_spec q) of None \<Rightarrow> False | Some g \<Rightarrow> gpu_kind g \<notin> pi_gpu_kinds i) then False
     else True)"

section \<open>The registry\<close>

record RegisteredProvider =
  rp_name :: string
  rp_type :: string
  rp_priority :: int
  rp_info :: SandboxProviderInfo
  rp_supports :: "Request \<Rightarrow> bool res"

text \<open>The list sorted by priority and name, and the two dictionaries over it: the last entry of a name and the
  first entry of a type.\<close>

record ProviderRegistry =
  pg_registered :: "RegisteredProvider list"
  pg_by_name :: "(string, RegisteredProvider) dict"
  pg_by_type :: "(string, RegisteredProvider) dict"

definition mk_ProviderRegistry :: "RegisteredProvider list \<Rightarrow> ProviderRegistry" where
  "mk_ProviderRegistry registered =
    (let rs = sort_key rp_priority (sort_key rp_name registered)
     in \<lparr>pg_registered = rs,
         pg_by_name = foldl (\<lambda>d r. AList.update (rp_name r) r d) [] rs,
         pg_by_type = foldl (\<lambda>d r. setdefault (rp_type r) r d) [] rs\<rparr>)"

definition registry_find :: "string \<Rightarrow> ProviderRegistry \<Rightarrow> RegisteredProvider option" where
  "registry_find key g =
    (case map_of (pg_by_name g) key of Some r \<Rightarrow> Some r | None \<Rightarrow> map_of (pg_by_type g) key)"

definition get_registered :: "string \<Rightarrow> ProviderRegistry \<Rightarrow> RegisteredProvider res" where
  "get_registered key g =
    (case registry_find key g of
       None \<Rightarrow> Inl (KeyError (''unknown sandbox provider '' @ repr_str key)) | Some r \<Rightarrow> Inr r)"

text \<open>The name stands for the identity of an entry in \<^verbatim>\<open>item is not preferred\<close>: the registries that
  \<^verbatim>\<open>discover\<close> builds have one entry of each name.\<close>

definition candidates :: "string option \<Rightarrow> bool \<Rightarrow> string set \<Rightarrow> ProviderRegistry \<Rightarrow> RegisteredProvider list res" where
  "candidates provider strict avoid g =
    bindR (case truthy provider of
        None \<Rightarrow> Inr (pg_registered g)
      | Some p \<Rightarrow>
        if strict then bindR (get_registered p g) (\<lambda>r. Inr [r])
        else (case registry_find p g of
            None \<Rightarrow> Inr (pg_registered g)
          | Some r \<Rightarrow> Inr (r # filter (\<lambda>i. rp_name i \<noteq> rp_name r) (pg_registered g)))) (\<lambda>cs.
    if avoid \<noteq> {} \<and> \<not> strict
    then Inr (filter (\<lambda>r. rp_name r \<notin> avoid \<and> rp_type r \<notin> avoid) cs @
              filter (\<lambda>r. rp_name r \<in> avoid \<or> rp_type r \<in> avoid) cs)
    else Inr cs)"

fun supported_chain :: "Request \<Rightarrow> bool \<Rightarrow> RegisteredProvider list \<Rightarrow> RegisteredProvider list res" where
  "supported_chain q strict [] = Inr []"
| "supported_chain q strict (c # cs) =
    (if \<not> supports_static q (rp_info c) then supported_chain q strict cs
     else case rp_supports c q of
       Inl e \<Rightarrow> if strict then Inl e else supported_chain q strict cs
     | Inr supported \<Rightarrow> bindR (supported_chain q strict cs) (\<lambda>chain. Inr (if supported then c # chain else chain)))"

definition resolve_chain :: "Request \<Rightarrow> string option \<Rightarrow> bool \<Rightarrow> string set \<Rightarrow> ProviderRegistry \<Rightarrow> RegisteredProvider list res" where
  "resolve_chain q provider strict avoid g = bindR (candidates provider strict avoid g) (supported_chain q strict)"

definition registry_resolve :: "Request \<Rightarrow> string option \<Rightarrow> bool \<Rightarrow> string set \<Rightarrow> ProviderRegistry \<Rightarrow> RegisteredProvider res" where
  "registry_resolve q provider strict avoid g =
    bindR (resolve_chain q provider strict avoid g) (\<lambda>chain. case chain of
        [] \<Rightarrow> Inl (LookupError ''no sandbox provider satisfies the requested spec'')
      | c # _ \<Rightarrow> Inr c)"

end
