(* ===== verification/Workflow.thy ===== *)
theory Workflow
  imports Provider Paths "HOL-Library.Multiset"
begin

text \<open>
  \<^verbatim>\<open>src/trunks/actions/workflow.py\<close>, the part that reads and plans workflows: the workflow files of a
  working tree, jobs with their steps, machine specification and matrix, the filters of triggers, the
  stages in which jobs run and the shell script of a job. What runs the stages is in the theory
  \<open>WorkflowRuns\<close>.

  The YAML library is a parameter \<open>yaml\<close> from text to a document, with the message of its exception
  when there is none; documents are JSON values (the keys of mappings are strings, and no dates or
  other tagged values occur). \<open>js\<close> is Python's \<^verbatim>\<open>str\<close> on values that are not strings, integers or
  booleans. The kind of machine the program runs on is the argument \<open>machine\<close>.

  \<open>stages_spec\<close> shows that the stages are the layers of the graph of needs: a job comes in the first
  stage after those it needs, every job comes once, and a cycle is reported exactly when there is one.
\<close>

section \<open>Values\<close>

definition jtrue :: "json \<Rightarrow> bool" where
  "jtrue v = (case v of JNull \<Rightarrow> False | JBool b \<Rightarrow> b | JInt i \<Rightarrow> i \<noteq> 0 | JFloat t \<Rightarrow> \<not> float_is t 0
     | JStr s \<Rightarrow> s \<noteq> [] | JList xs \<Rightarrow> xs \<noteq> [] | JObj kvs \<Rightarrow> kvs \<noteq> [])"

text \<open>\<^verbatim>\<open>d.get(k)\<close> and \<^verbatim>\<open>d.get(k, default)\<close> on a dictionary, and the dictionary a value is, if it is one.\<close>

definition dget :: "(string, json) dict \<Rightarrow> string \<Rightarrow> json" where
  "dget d k = (case map_of d k of None \<Rightarrow> JNull | Some v \<Rightarrow> v)"

definition dget_or :: "(string, json) dict \<Rightarrow> string \<Rightarrow> json \<Rightarrow> json" where
  "dget_or d k v = (case map_of d k of None \<Rightarrow> v | Some w \<Rightarrow> w)"

definition as_dict :: "json \<Rightarrow> (string, json) dict" where
  "as_dict v = (case v of JObj kvs \<Rightarrow> kvs | _ \<Rightarrow> [])"

definition is_obj :: "json \<Rightarrow> bool" where
  "is_obj v = (case v of JObj _ \<Rightarrow> True | _ \<Rightarrow> False)"

definition is_jstr :: "json \<Rightarrow> bool" where
  "is_jstr v = (case v of JStr _ \<Rightarrow> True | _ \<Rightarrow> False)"

definition jstrs :: "json list \<Rightarrow> string list" where
  "jstrs xs = concat (map (\<lambda>v. case v of JStr s \<Rightarrow> [s] | _ \<Rightarrow> []) xs)"

text \<open>The \<^verbatim>\<open>except (TypeError, ValueError)\<close> clauses.\<close>

definition is_type_error :: "error \<Rightarrow> bool" where
  "is_type_error e = (case e of TypeError _ \<Rightarrow> True | _ \<Rightarrow> False)"

definition rethrow :: "'a res \<Rightarrow> (error \<Rightarrow> error) \<Rightarrow> 'a res" where
  "rethrow r f = (case r of Inl e \<Rightarrow> Inl (if is_type_error e \<or> is_value_error e then f e else e) | Inr x \<Rightarrow> Inr x)"

section \<open>Data\<close>

record WorkflowStep =
  ws_name :: string
  ws_run :: "string option"
  ws_uses :: "string option"
  ws_env :: "(string, string) dict"
  ws_with_args :: "(string, string) dict"

record WorkflowJob =
  wj_id :: string
  wj_name :: string
  wj_needs :: "string list"
  wj_steps :: "WorkflowStep list"
  wj_spec :: Spec
  wj_provider_id :: "string option"
  wj_strict_provider :: bool
  wj_region :: "string option"
  wj_isolation :: string
  wj_timeout_s :: int
  wj_matrix :: "(string, json) dict list"

record TriggerFilter =
  tf_branches :: "string list"
  tf_branches_ignore :: "string list"
  tf_paths :: "string list"
  tf_paths_ignore :: "string list"
  tf_tags :: "string list"
  tf_tags_ignore :: "string list"
  tf_types :: "string list"

definition no_filter :: TriggerFilter where
  "no_filter = \<lparr>tf_branches = [], tf_branches_ignore = [], tf_paths = [], tf_paths_ignore = [], tf_tags = [],
     tf_tags_ignore = [], tf_types = []\<rparr>"

record Workflow =
  wf_path :: string
  wf_name :: string
  wf_triggers :: "(string, TriggerFilter) dict"
  wf_jobs :: "WorkflowJob list"

definition jopt_str :: "string option \<Rightarrow> json" where
  "jopt_str v = (case v of None \<Rightarrow> JNull | Some s \<Rightarrow> JStr s)"

definition step_dict :: "WorkflowStep \<Rightarrow> json" where
  "step_dict s = JObj [(''name'', JStr (ws_name s)), (''run'', jopt_str (ws_run s)), (''uses'', jopt_str (ws_uses s)),
     (''env'', json_dict (ws_env s)), (''with_args'', json_dict (ws_with_args s))]"

definition job_dict :: "WorkflowJob \<Rightarrow> json" where
  "job_dict j = JObj [(''id'', JStr (wj_id j)), (''name'', JStr (wj_name j)), (''needs'', JList (map JStr (wj_needs j))),
     (''spec'', spec_dict (wj_spec j)), (''provider_id'', jopt_str (wj_provider_id j)),
     (''strict_provider'', JBool (wj_strict_provider j)), (''region'', jopt_str (wj_region j)),
     (''isolation'', JStr (wj_isolation j)), (''timeout_s'', JInt (wj_timeout_s j)),
     (''matrix'', JList (map JObj (wj_matrix j))), (''steps'', JList (map step_dict (wj_steps j)))]"

definition workflow_to_dict :: "Workflow \<Rightarrow> json" where
  "workflow_to_dict w = JObj [(''_schema_version'', JStr ''trunks.actions.workflow.v1''), (''object'', JStr ''workflow''),
     (''path'', JStr (wf_path w)), (''name'', JStr (wf_name w)),
     (''triggers'', JList (map (\<lambda>(k, _). JStr k) (wf_triggers w))), (''jobs'', JList (map job_dict (wf_jobs w)))]"

section \<open>Steps and needs\<close>

definition supported_uses :: "string \<Rightarrow> bool" where
  "supported_uses v \<longleftrightarrow> startswith v ''actions/checkout@'' \<or> startswith v ''actions/upload-artifact@''"

definition string_map :: "(json \<Rightarrow> string) \<Rightarrow> json \<Rightarrow> (string, string) dict" where
  "string_map js v = map (\<lambda>(k, w). (k, json_to_str js w)) (as_dict v)"

definition is_name_start :: "char \<Rightarrow> bool" where
  "is_name_start c \<longleftrightarrow> (65 \<le> ordc c \<and> ordc c \<le> 90) \<or> (97 \<le> ordc c \<and> ordc c \<le> 122) \<or> c = CHR ''_''"

definition env_name_ok :: "string \<Rightarrow> bool" where
  "env_name_ok s = (case s of [] \<Rightarrow> False | c # r \<Rightarrow> is_name_start c \<and> list_all (\<lambda>x. is_name_start x \<or> is_digit x) r)"

definition env_map :: "(json \<Rightarrow> string) \<Rightarrow> string \<Rightarrow> string \<Rightarrow> json \<Rightarrow> (string, string) dict res" where
  "env_map js path location v =
    (let vals = string_map js v; invalid = filter (\<lambda>k. \<not> env_name_ok k) (map fst vals)
     in if invalid \<noteq> []
        then Inl (WorkflowError (path @ '': '' @ location @ '' has invalid environment variable names: '' @ join '', '' invalid))
        else Inr vals)"

definition parse_step :: "(json \<Rightarrow> string) \<Rightarrow> string \<Rightarrow> bool \<Rightarrow> string \<Rightarrow> nat \<times> json \<Rightarrow> WorkflowStep res" where
  "parse_step js path accept job_id irow =
    (case irow of (index, row) \<Rightarrow>
     let loc = ''jobs.'' @ job_id @ ''.steps['' @ dec index @ '']''
     in case row of
       JObj kvs \<Rightarrow>
         let uses = dget kvs ''uses''; run = dget kvs ''run''; use = json_to_str js uses;
             name = (\<lambda>d. if jtrue (dget kvs ''name'') then json_to_str js (dget kvs ''name'') else d)
         in if uses \<noteq> JNull \<and> supported_uses use then
              bindR (env_map js path (loc @ ''.env'') (dget kvs ''env'')) (\<lambda>env.
              Inr \<lparr>ws_name = name use, ws_run = None, ws_uses = Some use, ws_env = env,
                ws_with_args = string_map js (dget kvs ''with'')\<rparr>)
            else if uses \<noteq> JNull \<and> \<not> accept then
              Inl (WorkflowError (path @ '': unsupported action '' @ repr_str use @
                ''; use a run: step or pass --accept-best-effort''))
            else if run = JNull \<and> uses = JNull then
              Inl (WorkflowError (path @ '': '' @ loc @ '' must define run or uses''))
            else
              bindR (env_map js path (loc @ ''.env'') (dget kvs ''env'')) (\<lambda>env.
              Inr \<lparr>ws_name = name (''step-'' @ dec (index + 1)),
                ws_run = (if run = JNull then None else Some (json_to_str js run)),
                ws_uses = (if uses = JNull then None else Some use), ws_env = env,
                ws_with_args = string_map js (dget kvs ''with'')\<rparr>)
     | _ \<Rightarrow> Inl (WorkflowError (path @ '': '' @ loc @ '' must be a mapping'')))"

definition parse_needs :: "json \<Rightarrow> string list res" where
  "parse_needs v =
    (case v of JNull \<Rightarrow> Inr [] | JStr s \<Rightarrow> Inr [s]
     | JList xs \<Rightarrow> if list_all is_jstr xs then Inr (jstrs xs)
         else Inl (WorkflowError ''needs must be a string or list of strings'')
     | _ \<Rightarrow> Inl (WorkflowError ''needs must be a string or list of strings''))"

definition optional_string :: "(json \<Rightarrow> string) \<Rightarrow> json \<Rightarrow> string option" where
  "optional_string js v = (if v = JNull then None else truthy (Some (strip_by is_space (json_to_str js v))))"

definition bool_value :: "(json \<Rightarrow> string) \<Rightarrow> json \<Rightarrow> bool \<Rightarrow> bool res" where
  "bool_value js v dflt =
    (let bad = Inl (WorkflowError (''invalid boolean value '' @ (case v of JStr s \<Rightarrow> repr_str s | _ \<Rightarrow> json_to_str js v)))
     in case v of JNull \<Rightarrow> Inr dflt | JBool b \<Rightarrow> Inr b
     | JStr s \<Rightarrow> (let value = map lower_char (strip_by is_space s) in
         if value \<in> {''1'', ''true'', ''yes'', ''on''} then Inr True
         else if value \<in> {''0'', ''false'', ''no'', ''off''} then Inr False else bad)
     | _ \<Rightarrow> bad)"

section \<open>Machines\<close>

definition preset :: "int \<Rightarrow> int \<Rightarrow> int \<Rightarrow> (string, json) dict" where
  "preset cpu mem disk = [(''cpu'', JInt cpu), (''memory_gib'', JInt mem), (''disk_gib'', JInt disk), (''arch'', JStr ''x86_64'')]"

definition gpu_preset :: "string \<Rightarrow> (string, json) dict" where
  "gpu_preset kind = preset 8 32 100 @ [(''gpu'', JObj [(''kind'', JStr kind), (''count'', JInt 1)])]"

definition RUNS_ON_PRESETS :: "(string, (string, json) dict) dict" where
  "RUNS_ON_PRESETS =
    [(''ubuntu-latest'', [(''arch'', JStr ''x86_64'')]),
     (''ubuntu-24.04'', [(''arch'', JStr ''x86_64'')]),
     (''ubuntu-22.04'', [(''arch'', JStr ''x86_64'')]),
     (''ubuntu-20.04'', [(''arch'', JStr ''x86_64'')]),
     (''ubuntu-large'', preset 4 16 150),
     (''ubuntu-latest-4-cores'', preset 4 16 150),
     (''ubuntu-latest-8-cores'', preset 8 32 300),
     (''ubuntu-latest-16-cores'', preset 16 64 600),
     (''ubuntu-latest-32-cores'', preset 32 128 1200),
     (''gpu-h100'', gpu_preset ''H100_80GB''),
     (''gpu-a100'', gpu_preset ''A100_80GB''),
     (''gpu-l40s'', gpu_preset ''L40S_48GB'')]"

definition runs_on_labels :: "json \<Rightarrow> string list" where
  "runs_on_labels v = (case v of JStr s \<Rightarrow> [s] | JList xs \<Rightarrow> jstrs xs | _ \<Rightarrow> [])"

fun first_preset :: "string list \<Rightarrow> (string, json) dict" where
  "first_preset [] = []"
| "first_preset (l # ls) =
    (case map_of RUNS_ON_PRESETS (strip_by is_space l) of Some p \<Rightarrow> p | None \<Rightarrow> first_preset ls)"

definition runs_on_preset :: "json \<Rightarrow> (string, json) dict" where
  "runs_on_preset v = first_preset (runs_on_labels v)"

definition default_isolation_for_runs_on :: "json \<Rightarrow> string" where
  "default_isolation_for_runs_on v =
    (if list_ex (\<lambda>l. startswith l ''ubuntu'' \<or> startswith l ''gpu-'') (runs_on_labels v) then ''container'' else ''process'')"

definition parse_isolation :: "(json \<Rightarrow> string) \<Rightarrow> string \<Rightarrow> string \<Rightarrow> json \<Rightarrow> json \<Rightarrow> string res" where
  "parse_isolation js path job_id v runs_on =
    (let value = (if jtrue v then json_to_str js v else default_isolation_for_runs_on runs_on)
     in if value \<notin> {''process'', ''container'', ''microvm'', ''vm''}
        then Inl (WorkflowError (path @ '': jobs.'' @ job_id @ ''.trunks.isolation must be process, container, microvm, or vm''))
        else Inr value)"

definition parse_timeout :: "string \<Rightarrow> string \<Rightarrow> (string, json) dict \<Rightarrow> (string, json) dict \<Rightarrow> int res" where
  "parse_timeout path job_id job trunks =
    (let value = dget_or trunks ''timeout_s'' (dget trunks ''timeout'')
     in if value = JNull then
          (let minutes = dget job ''timeout-minutes''
           in if minutes = JNull then Inr (30 * 60)
              else rethrow (bindR (jint minutes) (\<lambda>m. Inr (m * 60)))
                (\<lambda>_. WorkflowError (path @ '': jobs.'' @ job_id @ ''.timeout-minutes must be an integer'')))
        else
          bindR (rethrow (jint value)
            (\<lambda>_. WorkflowError (path @ '': jobs.'' @ job_id @ ''.trunks.timeout must be seconds as an integer''))) (\<lambda>timeout_s.
          if timeout_s \<le> 0
          then Inl (WorkflowError (path @ '': jobs.'' @ job_id @ ''.trunks.timeout must be greater than zero''))
          else Inr timeout_s))"

definition host_arch :: "string \<Rightarrow> string" where
  "host_arch machine = (if map lower_char machine \<in> {''arm64'', ''aarch64''} then ''arm64'' else ''x86_64'')"

fun first_key :: "string list \<Rightarrow> (string, json) dict \<Rightarrow> json option" where
  "first_key [] d = None"
| "first_key (k # ks) d = (case map_of d k of Some v \<Rightarrow> Some v | None \<Rightarrow> first_key ks d)"

definition pick :: "(string, json) dict \<Rightarrow> (string, json) dict \<Rightarrow> string list \<Rightarrow> json" where
  "pick override base ks =
    (case first_key ks override of Some v \<Rightarrow> v | None \<Rightarrow> (case first_key ks base of Some v \<Rightarrow> v | None \<Rightarrow> JNull))"

definition jint_or :: "json \<Rightarrow> int \<Rightarrow> int res" where
  "jint_or v d = (if v = JNull then Inr d else jint v)"

definition parse_gpu :: "(json \<Rightarrow> string) \<Rightarrow> json \<Rightarrow> GPU option res" where
  "parse_gpu js v =
    (let d = as_dict v; kind = (if jtrue (dget d ''kind'') then dget d ''kind'' else dget d ''type'')
     in if is_obj v \<and> jtrue kind
        then bindR (jint (dget_or d ''count'' (JInt 1))) (\<lambda>count. bindR (mk_GPU (json_to_str js kind) count) (\<lambda>g. Inr (Some g)))
        else Inr None)"

definition parse_spec :: "(json \<Rightarrow> string) \<Rightarrow> string \<Rightarrow> (string, json) dict \<Rightarrow> Spec res" where
  "parse_spec js machine job =
    (let base = runs_on_preset (dget job ''runs-on'');
         override = as_dict (dget (as_dict (dget job ''trunks'')) ''spec'');
         get = pick override base
     in rethrow
       (bindR (parse_gpu js (get [''gpu''])) (\<lambda>gpu.
        bindR (jint_or (get [''cpu'']) 2) (\<lambda>cpu.
        bindR (jint_or (get [''memory_gib'', ''memory'']) 7) (\<lambda>memory_gib.
        bindR (jint_or (get [''disk_gib'', ''disk'']) 14) (\<lambda>disk_gib.
        mk_Spec cpu memory_gib disk_gib
          (if jtrue (get [''arch'']) then json_to_str js (get [''arch'']) else host_arch machine) gpu
          (if jtrue (get [''network'']) then json_to_str js (get [''network'']) else ''default''))))))
       (\<lambda>e. WorkflowError (''invalid trunks.spec: '' @ exc_str e)))"

section \<open>Matrices\<close>

definition MAX_MATRIX_COMBINATIONS :: nat where
  "MAX_MATRIX_COMBINATIONS = 256"

text \<open>\<^verbatim>\<open>itertools.product\<close>\<close>

fun product_lists :: "'a list list \<Rightarrow> 'a list list" where
  "product_lists [] = [[]]"
| "product_lists (xs # xss) = concat (map (\<lambda>x. map ((#) x) (product_lists xss)) xs)"

definition matrix_values :: "json \<Rightarrow> json list" where
  "matrix_values v = (case v of JList xs \<Rightarrow> xs | _ \<Rightarrow> [v])"

definition parse_matrix :: "(string, json) dict \<Rightarrow> (string, json) dict list res" where
  "parse_matrix job =
    (let matrix = dget (as_dict (dget job ''strategy'')) ''matrix''
     in case matrix of
       JObj kvs \<Rightarrow>
         let ks = map fst kvs;
             combinations = map (zip ks) (product_lists (map (\<lambda>k. matrix_values (dget kvs k)) ks))
         in if length combinations > MAX_MATRIX_COMBINATIONS
            then Inl (WorkflowError (''matrix expands to '' @ dec (length combinations) @ '' jobs; maximum is '' @
              dec MAX_MATRIX_COMBINATIONS))
            else Inr combinations
     | _ \<Rightarrow> Inr [[]])"

section \<open>Triggers\<close>

definition str_list :: "(json \<Rightarrow> string) \<Rightarrow> json \<Rightarrow> string list" where
  "str_list js v = (case v of JStr s \<Rightarrow> [s] | JList xs \<Rightarrow> map (json_to_str js) xs | _ \<Rightarrow> [])"

definition parse_trigger_filter :: "(json \<Rightarrow> string) \<Rightarrow> json \<Rightarrow> TriggerFilter" where
  "parse_trigger_filter js config =
    (case config of
       JObj kvs \<Rightarrow>
         \<lparr>tf_branches = str_list js (dget kvs ''branches''), tf_branches_ignore = str_list js (dget kvs ''branches-ignore''),
          tf_paths = str_list js (dget kvs ''paths''), tf_paths_ignore = str_list js (dget kvs ''paths-ignore''),
          tf_tags = str_list js (dget kvs ''tags''), tf_tags_ignore = str_list js (dget kvs ''tags-ignore''),
          tf_types = str_list js (dget kvs ''types'')\<rparr>
     | _ \<Rightarrow> no_filter)"

definition parse_triggers :: "(json \<Rightarrow> string) \<Rightarrow> json \<Rightarrow> (string, TriggerFilter) dict" where
  "parse_triggers js v =
    (case v of
       JStr s \<Rightarrow> [(s, no_filter)]
     | JList xs \<Rightarrow> foldl (\<lambda>d x. AList.update (json_to_str js x) no_filter d) [] xs
     | JObj kvs \<Rightarrow> foldl (\<lambda>d (k, w). AList.update k (parse_trigger_filter js w) d) [] kvs
     | _ \<Rightarrow> [])"

definition pattern_matches :: "string \<Rightarrow> string list \<Rightarrow> bool" where
  "pattern_matches value patterns = list_ex (fnmatchcase value) patterns"

definition trigger_matches_branch :: "TriggerFilter \<Rightarrow> string \<Rightarrow> bool" where
  "trigger_matches_branch f branch =
    (if tf_branches f \<noteq> [] \<and> tf_branches_ignore f \<noteq> [] then False
     else if tf_branches f \<noteq> [] then pattern_matches branch (tf_branches f)
     else if tf_branches_ignore f \<noteq> [] then \<not> pattern_matches branch (tf_branches_ignore f)
     else True)"

definition trigger_matches_paths :: "TriggerFilter \<Rightarrow> string list \<Rightarrow> bool" where
  "trigger_matches_paths f changed_files =
    (if tf_paths f \<noteq> [] \<and> tf_paths_ignore f \<noteq> [] then False
     else if tf_paths f = [] \<and> tf_paths_ignore f = [] then True
     else if tf_paths f \<noteq> [] then list_ex (\<lambda>p. pattern_matches p (tf_paths f)) changed_files
     else \<not> list_all (\<lambda>p. pattern_matches p (tf_paths_ignore f)) changed_files)"

definition trigger_matches_tags :: "TriggerFilter \<Rightarrow> string option \<Rightarrow> bool" where
  "trigger_matches_tags f tag =
    (case tag of
       None \<Rightarrow> tf_tags f = []
     | Some t \<Rightarrow>
       if tf_tags f \<noteq> [] \<and> tf_tags_ignore f \<noteq> [] then False
       else if tf_tags f \<noteq> [] then pattern_matches t (tf_tags f)
       else if tf_tags_ignore f \<noteq> [] then \<not> pattern_matches t (tf_tags_ignore f)
       else True)"

definition trigger_matches_types :: "TriggerFilter \<Rightarrow> string \<Rightarrow> bool" where
  "trigger_matches_types f event_type = (if tf_types f = [] then True else event_type \<in> set (tf_types f))"

definition push_trigger_matches :: "TriggerFilter \<Rightarrow> string \<Rightarrow> string list \<Rightarrow> string option \<Rightarrow> bool" where
  "push_trigger_matches f branch changed_files tag \<longleftrightarrow>
    trigger_matches_branch f branch \<and> trigger_matches_paths f changed_files \<and> trigger_matches_tags f tag"

definition pull_request_trigger_matches :: "TriggerFilter \<Rightarrow> string \<Rightarrow> string list \<Rightarrow> string \<Rightarrow> bool" where
  "pull_request_trigger_matches f branch changed_files event_type \<longleftrightarrow>
    trigger_matches_branch f branch \<and> trigger_matches_paths f changed_files \<and> trigger_matches_types f event_type"

section \<open>Stages\<close>

function stages_loop :: "(string, WorkflowJob) dict \<Rightarrow> string set \<Rightarrow> WorkflowJob list list res" where
  "stages_loop remaining completed =
    (if remaining = [] then Inr []
     else
       let ready = filter (\<lambda>job. set (wj_needs job) \<subseteq> completed) (map snd remaining)
       in if ready = [] then Inl (WorkflowError ''workflow jobs contain a needs cycle'')
          else bindR (stages_loop (filter (\<lambda>(_, job). \<not> set (wj_needs job) \<subseteq> completed) remaining)
                 (completed \<union> wj_id ` set ready)) (\<lambda>rest. Inr (sort_key wj_id ready # rest)))"
  by pat_completeness auto
termination
proof (relation "measure (\<lambda>(remaining, completed). length remaining)", goal_cases)
  case (2 remaining completed ready)
  then obtain a b where "(a, b) \<in> set remaining" "set (wj_needs b) \<subseteq> completed"
    by (auto simp: filter_empty_conv)
  then show ?case using length_filter_less [of "(a, b)" remaining] by auto
qed simp

declare stages_loop.simps [simp del]

definition stages :: "WorkflowJob list \<Rightarrow> WorkflowJob list list res" where
  "stages jobs = stages_loop (foldl (\<lambda>d job. AList.update (wj_id job) job d) [] jobs) {}"

definition validate_needs :: "string \<Rightarrow> WorkflowJob list \<Rightarrow> unit res" where
  "validate_needs path jobs =
    bindR (foldR (\<lambda>_ job.
      let missing = filter (\<lambda>need. need \<notin> wj_id ` set jobs) (wj_needs job)
      in if missing \<noteq> []
         then Inl (WorkflowError (path @ '': jobs.'' @ wj_id job @ ''.needs references unknown jobs: '' @ join '', '' missing))
         else Inr ()) () jobs) (\<lambda>_.
    bindR (stages jobs) (\<lambda>_. Inr ()))"

section \<open>Scripts\<close>

text \<open>\<^verbatim>\<open>shlex.quote\<close>\<close>

definition shell_safe :: "char \<Rightarrow> bool" where
  "shell_safe c \<longleftrightarrow> is_name_start c \<or> is_digit c \<or> c \<in> set ''@%+=:,./-''"

definition shlex_quote :: "string \<Rightarrow> string" where
  "shlex_quote s =
    (if s = [] then [CHR 0x27, CHR 0x27]
     else if list_all shell_safe s then s
     else CHR 0x27 # replace_str [CHR 0x27] [CHR 0x27, CHR 0x22, CHR 0x27, CHR 0x22, CHR 0x27] s @ [CHR 0x27])"

text \<open>The expression \<^verbatim>\<open>secrets.NAME\<close> in double braces at the start of a text: the name and what follows.\<close>

definition secret_expr :: "string \<Rightarrow> (string \<times> string) option" where
  "secret_expr s =
    (if \<not> startswith s ''${{'' then None
     else
       let s1 = dropWhile is_space (drop 3 s)
       in if \<not> startswith s1 ''secrets.'' then None
          else
            let s2 = drop 8 s1; name = takeWhile (\<lambda>c. is_name_start c \<or> is_digit c) s2;
                s3 = dropWhile is_space (drop (length name) s2)
            in if env_name_ok name \<and> startswith s3 ''}}'' then Some (name, drop 2 s3) else None)"

lemma secret_expr_shorter: "secret_expr s = Some (n, r) \<Longrightarrow> length r < length s"
proof -
  assume a: "secret_expr s = Some (n, r)"
  then have "3 \<le> length s" by (auto simp: secret_expr_def startswith_iff Let_def split: if_splits)
  moreover have "length r \<le> length s - 3"
  proof -
    from a obtain k where "r = drop 2 (dropWhile is_space (drop k (dropWhile is_space (drop 3 s))))"
      by (auto simp: secret_expr_def Let_def split: if_splits)
    then show ?thesis
      using length_dropWhile_le [of is_space "drop k (dropWhile is_space (drop 3 s))"]
        length_dropWhile_le [of is_space "drop 3 s"] by simp
  qed
  ultimately show ?thesis by simp
qed

function sub_secrets :: "string \<Rightarrow> string" where
  "sub_secrets [] = []"
| "sub_secrets (c # s) =
    (case secret_expr (c # s) of
       Some (name, rest) \<Rightarrow> CHR ''$'' # name @ sub_secrets rest
     | None \<Rightarrow> c # sub_secrets s)"
  by pat_completeness auto
termination
  by (relation "measure length") (auto dest: secret_expr_shorter)

definition apply_expressions :: "(json \<Rightarrow> string) \<Rightarrow> string \<Rightarrow> (string, json) dict \<Rightarrow> (string, string) dict \<Rightarrow> string" where
  "apply_expressions js command variables context =
    (let r1 = foldl (\<lambda>t (k, v).
           let t1 = replace_str (''${{ matrix.'' @ k @ '' }}'') (json_to_str js v) t
           in replace_str (''${{matrix.'' @ k @ ''}}'') (json_to_str js v) t1) command variables;
         r2 = foldl (\<lambda>t (k, v).
           let t1 = replace_str (''${{ '' @ k @ '' }}'') v t
           in replace_str (''${{'' @ k @ ''}}'') v t1) r1 context
     in sub_secrets r2)"

definition step_commands :: "(json \<Rightarrow> string) \<Rightarrow> (string, json) dict \<Rightarrow> (string, string) dict \<Rightarrow> WorkflowStep \<Rightarrow> string list" where
  "step_commands js variables context step =
    (if (case truthy (ws_uses step) of None \<Rightarrow> False | Some u \<Rightarrow> supported_uses u) then []
     else map (\<lambda>(k, v). ''export '' @ k @ ''='' @ shlex_quote (apply_expressions js v variables context)) (ws_env step) @
       (case truthy (ws_run step) of None \<Rightarrow> [] | Some r \<Rightarrow> [apply_expressions js r variables context]))"

definition job_command :: "(json \<Rightarrow> string) \<Rightarrow> (string, json) dict \<Rightarrow> (string, string) dict \<Rightarrow> WorkflowJob \<Rightarrow> string" where
  "job_command js variables context job =
    join [NL] (''set -e'' # concat (map (step_commands js variables context) (wj_steps job)))"

definition step_artifacts :: "(json \<Rightarrow> string) \<Rightarrow> (string, json) dict \<Rightarrow> WorkflowStep \<Rightarrow> string list" where
  "step_artifacts js variables step =
    (if (case truthy (ws_uses step) of None \<Rightarrow> False | Some u \<Rightarrow> startswith u ''actions/upload-artifact@'')
     then (case truthy (map_of (ws_with_args step) ''path'') of
        None \<Rightarrow> []
      | Some p \<Rightarrow> filter (\<lambda>i. i \<noteq> []) (map (strip_by is_space) (splitlines (apply_expressions js p variables []))))
     else [])"

definition job_artifacts :: "(json \<Rightarrow> string) \<Rightarrow> (string, json) dict \<Rightarrow> WorkflowJob \<Rightarrow> string list" where
  "job_artifacts js variables job = concat (map (step_artifacts js variables) (wj_steps job))"

section \<open>Workflows\<close>

definition parse_job :: "(json \<Rightarrow> string) \<Rightarrow> string \<Rightarrow> string \<Rightarrow> bool \<Rightarrow> string \<times> json \<Rightarrow> WorkflowJob res" where
  "parse_job js machine path accept item =
    (case item of (job_id, row) \<Rightarrow>
     case row of
       JObj job \<Rightarrow>
         if map_of job ''environment'' \<noteq> None
         then Inl (WorkflowError (path @ '': jobs.'' @ job_id @ ''.environment is not supported by Trunks Actions''))
         else (case dget job ''steps'' of
           JList (st # sts) \<Rightarrow>
             let trunks = as_dict (dget job ''trunks'') in
             bindR (mapR (parse_step js path accept job_id) (List.enumerate 0 (st # sts))) (\<lambda>steps.
             bindR (parse_needs (dget job ''needs'')) (\<lambda>needs.
             bindR (parse_spec js machine job) (\<lambda>spec.
             bindR (bool_value js (dget_or trunks ''strict_provider'' (dget trunks ''strict-provider'')) False) (\<lambda>strict.
             bindR (parse_isolation js path job_id (dget trunks ''isolation'') (dget job ''runs-on'')) (\<lambda>isolation.
             bindR (parse_timeout path job_id job trunks) (\<lambda>timeout_s.
             bindR (parse_matrix job) (\<lambda>matrix.
             Inr \<lparr>wj_id = job_id,
               wj_name = (if jtrue (dget job ''name'') then json_to_str js (dget job ''name'') else job_id),
               wj_needs = needs, wj_steps = steps, wj_spec = spec,
               wj_provider_id = optional_string js (dget trunks ''provider''), wj_strict_provider = strict,
               wj_region = optional_string js (dget trunks ''region''), wj_isolation = isolation,
               wj_timeout_s = timeout_s, wj_matrix = matrix\<rparr>)))))))
         | _ \<Rightarrow> Inl (WorkflowError (path @ '': jobs.'' @ job_id @ ''.steps must be a non-empty list'')))
     | _ \<Rightarrow> Inl (WorkflowError (path @ '': jobs.'' @ job_id @ '' must be a mapping'')))"

text \<open>\<^verbatim>\<open>Path.stem\<close>: the last component without its suffix.\<close>

definition path_stem :: "string \<Rightarrow> string" where
  "path_stem path =
    (let name = last (split_on SLASH path)
     in case rsplit1 ''.'' name of Some (a, b) \<Rightarrow> if a \<noteq> [] \<and> b \<noteq> [] then a else name | None \<Rightarrow> name)"

text \<open>Reading text: the line ends of other systems become line feeds.\<close>

fun universal_newlines :: "string \<Rightarrow> string" where
  "universal_newlines [] = []"
| "universal_newlines (c # s) =
    (if c = CHR 0x0D then NL # universal_newlines (if startswith s [NL] then tl s else s)
     else c # universal_newlines s)"

text \<open>The files under the root by their paths relative to it. A file system name that ends in \<^verbatim>\<open>.yml\<close> matches
  the pattern \<^verbatim>\<open>*.yml\<close>.\<close>

definition WORKFLOWS_DIR :: string where
  "WORKFLOWS_DIR = ''.trunks/workflows/''"

definition workflows_with :: "string \<Rightarrow> (string, bytes) dict \<Rightarrow> string list" where
  "workflows_with suffix fs =
    sort (filter (\<lambda>p. startswith p WORKFLOWS_DIR \<and> SLASH \<notin> set (drop (length WORKFLOWS_DIR) p) \<and>
      endswith (drop (length WORKFLOWS_DIR) p) suffix) (map fst fs))"

definition workflow_files :: "(string, bytes) dict \<Rightarrow> string list" where
  "workflow_files fs =
    (let files = workflows_with ''.yml'' fs @ workflows_with ''.yaml'' fs
     in if files = [] \<and> map_of fs ''.trunks/workflow.yml'' \<noteq> None then [''.trunks/workflow.yml''] else files)"

definition parse_workflow :: "(string \<Rightarrow> string + json) \<Rightarrow> (json \<Rightarrow> string) \<Rightarrow> string \<Rightarrow> string \<Rightarrow> bool \<Rightarrow> bool \<Rightarrow>
    (string, bytes) dict \<Rightarrow> string \<Rightarrow> Workflow res" where
  "parse_workflow yaml js machine root accept oidc fs file_path =
    (let path = root @ ''/'' @ file_path
     in case map_of fs file_path of
       None \<Rightarrow> Inl (OSError path)
     | Some content \<Rightarrow>
       bindR (decode_utf8 content) (\<lambda>t.
       case yaml (universal_newlines t) of
         Inl e \<Rightarrow> Inl (WorkflowError (path @ '': invalid YAML: '' @ e))
       | Inr (JObj data) \<Rightarrow>
         if map_of data ''environment'' \<noteq> None
         then Inl (WorkflowError (path @ '': environment is not supported by Trunks Actions''))
         else if dget (as_dict (dget data ''permissions'')) ''id-token'' = JStr ''write'' \<and> \<not> oidc
         then Inl (WorkflowError (path @ '': permissions.id-token: write requires the Trunks OIDC bridge''))
         else if \<not> is_obj (dget data ''jobs'') \<or> as_dict (dget data ''jobs'') = []
         then Inl (WorkflowError (path @ '': workflow must define jobs''))
         else
           bindR (mapR (parse_job js machine path accept) (as_dict (dget data ''jobs''))) (\<lambda>jobs.
           bindR (validate_needs path jobs) (\<lambda>_.
           Inr \<lparr>wf_path = file_path,
             wf_name = (if jtrue (dget data ''name'') then json_to_str js (dget data ''name'') else path_stem file_path),
             wf_triggers = parse_triggers js (dget data ''on''), wf_jobs = jobs\<rparr>))
       | Inr _ \<Rightarrow> Inl (WorkflowError (path @ '': workflow must be a mapping''))))"

definition load_workflows :: "(string \<Rightarrow> string + json) \<Rightarrow> (json \<Rightarrow> string) \<Rightarrow> string \<Rightarrow> string \<Rightarrow> bool \<Rightarrow> bool \<Rightarrow>
    (string, bytes) dict \<Rightarrow> Workflow list res" where
  "load_workflows yaml js machine root accept oidc fs =
    mapR (parse_workflow yaml js machine root accept oidc fs) (workflow_files fs)"

definition lint_workflows :: "(string \<Rightarrow> string + json) \<Rightarrow> (json \<Rightarrow> string) \<Rightarrow> string \<Rightarrow> string \<Rightarrow> bool \<Rightarrow> bool \<Rightarrow>
    (string, bytes) dict \<Rightarrow> json list res" where
  "lint_workflows yaml js machine root accept oidc fs =
    mapR (\<lambda>p. case parse_workflow yaml js machine root accept oidc fs p of
        Inl (WorkflowError e) \<Rightarrow> Inr (JObj [(''path'', JStr p), (''valid'', JBool False), (''error'', JStr e)])
      | Inl e \<Rightarrow> Inl e
      | Inr w \<Rightarrow> Inr (JObj [(''path'', JStr (wf_path w)), (''valid'', JBool True), (''workflow'', workflow_to_dict w)]))
      (workflow_files fs)"

definition select_workflow :: "Workflow list \<Rightarrow> string option \<Rightarrow> Workflow res" where
  "select_workflow workflows name =
    (case workflows of
       [] \<Rightarrow> Inl (WorkflowError ''no .trunks/workflows/*.yml or .trunks/workflow.yml files found'')
     | w # _ \<Rightarrow> (case name of
         None \<Rightarrow> Inr w
       | Some n \<Rightarrow> (case List.find (\<lambda>w. wf_name w = n \<or> wf_path w = n \<or> path_stem (wf_path w) = n) workflows of
           None \<Rightarrow> Inl (WorkflowError (''unknown workflow '' @ repr_str n))
         | Some w' \<Rightarrow> Inr w')))"

definition workflow_phase :: "json list \<Rightarrow> string" where
  "workflow_phase jobs =
    (let phases = jstrs (map (\<lambda>j. dget (as_dict j) ''phase'') jobs)
     in if phases = [] then ''pending''
        else if list_ex (\<lambda>p. p = ''failed'') phases then ''failed''
        else if list_ex (\<lambda>p. p = ''canceled'') phases then ''canceled''
        else if list_ex (\<lambda>p. p = ''running'') phases then ''running''
        else if list_all (\<lambda>p. p = ''succeeded'') phases then ''succeeded''
        else ''pending'')"

section \<open>The stages are the layers of the needs\<close>

text \<open>A job that another one needs, by id.\<close>

definition needs_rel :: "WorkflowJob list \<Rightarrow> (string \<times> string) set" where
  "needs_rel jobs = {(n, wj_id j) | n j. j \<in> set jobs \<and> n \<in> set (wj_needs j)}"

text \<open>Stages after the jobs with the ids \<open>done\<close>: each is sorted and not empty, its jobs need only what came before,
  and no job of a later stage could have run in it.\<close>

fun layered :: "string set \<Rightarrow> WorkflowJob list list \<Rightarrow> bool" where
  "layered finished [] = True"
| "layered finished (l # ls) \<longleftrightarrow>
    l \<noteq> [] \<and> sorted (map wj_id l) \<and> (\<forall>j \<in> set l. set (wj_needs j) \<subseteq> finished) \<and>
    (\<forall>j \<in> set (concat ls). \<not> set (wj_needs j) \<subseteq> finished) \<and> layered (finished \<union> wj_id ` set l) ls"

lemma map_snd_filter: "map snd (filter (\<lambda>(_, x). P x) xs) = filter P (map snd xs)"
  by (induction xs) auto

lemma stages_loop_layered:
  "stages_loop rem c = Inr ls \<Longrightarrow> mset (concat ls) = mset (map snd rem) \<and> layered c ls"
proof (induction rem c arbitrary: ls rule: stages_loop.induct)
  case (1 rem c)
  show ?case
  proof (cases "rem = []")
    case True
    then show ?thesis using 1 by (simp add: stages_loop.simps)
  next
    case False
    let ?P = "\<lambda>job. set (wj_needs job) \<subseteq> c"
    let ?ready = "filter ?P (map snd rem)"
    let ?rest = "filter (\<lambda>(_, job). \<not> ?P job) rem"
    have ready: "?ready \<noteq> []" using 1(2) False by (auto simp: stages_loop.simps [of rem c] Let_def split: if_splits)
    then obtain ms where ms: "stages_loop ?rest (c \<union> wj_id ` set ?ready) = Inr ms" "ls = sort_key wj_id ?ready # ms"
      using 1(2) False by (auto simp: stages_loop.simps [of rem c] Let_def)
    have ih: "mset (concat ms) = mset (map snd ?rest)" "layered (c \<union> wj_id ` set ?ready) ms"
      using 1(1) [OF False refl ready ms(1)] by auto
    have rest: "map snd ?rest = filter (\<lambda>job. \<not> ?P job) (map snd rem)" by (rule map_snd_filter)
    have "mset ?ready + mset (map snd ?rest) = mset (map snd rem)"
      unfolding rest by (metis mset_filter multiset_partition)
    moreover have "\<not> ?P j" if "j \<in> set (concat ms)" for j
    proof -
      have "j \<in> set (filter (\<lambda>job. \<not> ?P job) (map snd rem))" using that ih(1) unfolding rest by (metis set_mset_mset)
      then show ?thesis by simp
    qed
    moreover have "sort_key wj_id ?ready \<noteq> []" using ready by (metis length_sort length_0_conv)
    ultimately show ?thesis using ih unfolding ms(2) by auto
  qed
qed

lemma stages_loop_stuck:
  "stages_loop rem c = Inl e \<Longrightarrow> e = WorkflowError ''workflow jobs contain a needs cycle'' \<and>
    (\<exists>S \<subseteq> set (map snd rem). S \<noteq> {} \<and>
       (\<forall>j \<in> S. \<not> set (wj_needs j) \<subseteq> c \<union> wj_id ` (set (map snd rem) - S)))"
proof (induction rem c rule: stages_loop.induct)
  case (1 rem c)
  have ne: "rem \<noteq> []" using 1(2) by (auto simp: stages_loop.simps)
  let ?P = "\<lambda>job. set (wj_needs job) \<subseteq> c"
  let ?ready = "filter ?P (map snd rem)"
  let ?rest = "filter (\<lambda>(_, job). \<not> ?P job) rem"
  show ?case
  proof (cases "?ready = []")
    case True
    then have "e = WorkflowError ''workflow jobs contain a needs cycle''"
      using 1(2) ne by (simp add: stages_loop.simps [of rem c])
    moreover have "\<forall>j \<in> set (map snd rem). \<not> ?P j" using True by (auto simp: filter_empty_conv)
    ultimately show ?thesis using ne by (intro conjI exI [of _ "set (map snd rem)"]) auto
  next
    case False
    then have "stages_loop ?rest (c \<union> wj_id ` set ?ready) = Inl e"
      using 1(2) ne by (auto simp: stages_loop.simps [of rem c] bindR_eq_Inl)
    from 1(1) [OF ne refl False this] obtain S where
      S: "e = WorkflowError ''workflow jobs contain a needs cycle''" "S \<subseteq> set (map snd ?rest)" "S \<noteq> {}"
      "\<forall>j \<in> S. \<not> set (wj_needs j) \<subseteq> c \<union> wj_id ` set ?ready \<union> wj_id ` (set (map snd ?rest) - S)" by blast
    have rest: "set (map snd ?rest) = {j \<in> set (map snd rem). \<not> ?P j}" by (simp only: map_snd_filter set_filter)
    have "set ?ready \<union> (set (map snd ?rest) - S) = set (map snd rem) - S"
      using S(2) unfolding rest set_filter by blast
    then have "c \<union> wj_id ` set ?ready \<union> wj_id ` (set (map snd ?rest) - S) = c \<union> wj_id ` (set (map snd rem) - S)"
      by (simp only: Un_assoc image_Un [symmetric])
    with S(4) have 4: "\<forall>j \<in> S. \<not> set (wj_needs j) \<subseteq> c \<union> wj_id ` (set (map snd rem) - S)" by (simp only:)
    have "S \<subseteq> set (map snd rem)" using S(2) unfolding rest by blast
    with S(1,3) 4 show ?thesis by blast
  qed
qed

lemma remaining_distinct:
  "distinct (map wj_id jobs) \<Longrightarrow>
    foldl (\<lambda>d job. AList.update (wj_id job) job d) [] jobs = map (\<lambda>j. (wj_id j, j)) jobs"
proof -
  assume "distinct (map wj_id jobs)"
  then have "foldl (\<lambda>a (k, v). AList.update k v a) [] (map (\<lambda>j. (wj_id j, j)) jobs) = map (\<lambda>j. (wj_id j, j)) jobs"
    using foldl_update_distinct [of "[]" "map (\<lambda>j. (wj_id j, j)) jobs"] by (simp add: comp_def)
  then show ?thesis by (simp add: foldl_map)
qed

lemma layered_order:
  assumes "layered c ls" and "i < length ls" and "j \<in> set (ls ! i)"
  shows "set (wj_needs j) \<subseteq> c \<union> wj_id ` set (concat (take i ls))"
  using assms
proof (induction ls arbitrary: c i)
  case (Cons l ls)
  show ?case
  proof (cases i)
    case (Suc k)
    then have "set (wj_needs j) \<subseteq> (c \<union> wj_id ` set l) \<union> wj_id ` set (concat (take k ls))"
      using Cons.IH [of "c \<union> wj_id ` set l" k] Cons.prems by simp
    then show ?thesis using Suc by (simp add: image_Un Un_assoc)
  qed (use Cons.prems in auto)
qed simp

lemma acyclic_by_rank:
  assumes "\<And>a b. (a, b) \<in> r \<Longrightarrow> (f a :: nat) < f b"
  shows "acyclic r"
proof -
  have "r \<subseteq> inv_image less_than f" using assms by auto
  then have "wf r" using wf_inv_image [OF wf_less_than, of f] wf_subset by blast
  then show ?thesis by (rule wf_acyclic)
qed

text \<open>The stage in which a job is.\<close>

definition stage_of :: "WorkflowJob list list \<Rightarrow> string \<Rightarrow> nat" where
  "stage_of ls n = (LEAST i. i < length ls \<and> n \<in> wj_id ` set (ls ! i))"

lemma layered_acyclic:
  assumes l: "layered {} ls" and d: "distinct (map wj_id (concat ls))"
  shows "acyclic (needs_rel (concat ls))"
proof (rule acyclic_by_rank [of _ "stage_of ls"])
  have uniq: "i = k" if "i < length ls" "k < length ls" "x \<in> wj_id ` set (ls ! i)" "x \<in> wj_id ` set (ls ! k)" for i k x
    using d that
  proof (induction ls arbitrary: i k)
    case (Cons l ls)
    have dj: "wj_id ` set l \<inter> wj_id ` set (concat ls) = {}" and d': "distinct (map wj_id (concat ls))"
      using Cons.prems(1) by auto
    have inc: "x \<in> wj_id ` set (concat ls)" if "m < length ls" "x \<in> wj_id ` set (ls ! m)" for m
      using that by (auto intro: rev_image_eqI) (metis UN_I imageI nth_mem set_concat)
    have "x \<notin> wj_id ` set l \<or> x \<notin> wj_id ` set (concat ls)" using dj by blast
    then show ?case using Cons.prems(2-) inc Cons.IH [OF d'] by (cases i; cases k) (simp_all, blast+)
  qed simp
  have st: "stage_of ls x = i" if "i < length ls" "x \<in> wj_id ` set (ls ! i)" for i x
    unfolding stage_of_def by (rule Least_equality) (use that uniq in auto)
  fix a b assume "(a, b) \<in> needs_rel (concat ls)"
  then obtain j where j: "j \<in> set (concat ls)" "b = wj_id j" "a \<in> set (wj_needs j)" by (auto simp: needs_rel_def)
  then obtain i where i: "i < length ls" "j \<in> set (ls ! i)" by (auto simp: in_set_conv_nth [of _ ls])
  have "a \<in> wj_id ` set (concat (take i ls))" using layered_order [OF l i] j(3) by auto
  then obtain k where "k < i" "a \<in> wj_id ` set (ls ! k)" using i(1) by (auto simp: in_set_conv_nth [of _ "take i ls"])
  with st [of i b] st [of k a] i j(2) show "stage_of ls a < stage_of ls b" by auto
qed

lemma stages_loop_ids: "stages jobs = stages_loop (map (\<lambda>j. (wj_id j, j)) jobs) {}" if "distinct (map wj_id jobs)"
  using that by (simp add: stages_def remaining_distinct)

lemma stages_cyclic:
  assumes "distinct (map wj_id jobs)" and "\<forall>j \<in> set jobs. set (wj_needs j) \<subseteq> wj_id ` set jobs" and "stages jobs = Inl e"
  shows "e = WorkflowError ''workflow jobs contain a needs cycle'' \<and> \<not> acyclic (needs_rel jobs)"
proof -
  have snd: "set (map snd (map (\<lambda>j. (wj_id j, j)) jobs)) = set jobs" by (simp add: comp_def)
  note st = stages_loop_stuck [OF assms(3) [unfolded stages_loop_ids [OF assms(1)]], unfolded snd Un_empty_left]
  note e = conjunct1 [OF st]
  from conjunct2 [OF st] obtain S where S: "S \<subseteq> set jobs" "S \<noteq> {}"
    "\<forall>j \<in> S. \<not> set (wj_needs j) \<subseteq> wj_id ` (set jobs - S)" by (elim exE conjE)
  have "\<exists>n \<in> wj_id ` S. (n, wj_id j) \<in> needs_rel jobs" if j: "j \<in> S" for j
  proof -
    obtain n where n: "n \<in> set (wj_needs j)" "n \<notin> wj_id ` (set jobs - S)" using bspec [OF S(3) j] by (meson subsetI)
    have "n \<in> wj_id ` set jobs" using bspec [OF assms(2) subsetD [OF S(1) j]] n(1) by (rule subsetD)
    with n(2) have "n \<in> wj_id ` S" by auto
    then show ?thesis using n(1) S(1) j by (auto simp: needs_rel_def)
  qed
  note later = this
  have "\<not> wf (needs_rel jobs)"
  proof
    assume "wf (needs_rel jobs)"
    moreover obtain s where "s \<in> wj_id ` S" using S(2) by blast
    ultimately obtain z where "z \<in> wj_id ` S" "\<And>y. (y, z) \<in> needs_rel jobs \<Longrightarrow> y \<notin> wj_id ` S" by (rule wfE_min) blast
    with later show False by blast
  qed
  moreover have "finite (needs_rel jobs)"
    by (rule finite_subset [of _ "(\<Union>j \<in> set jobs. set (wj_needs j)) \<times> wj_id ` set jobs"]) (auto simp: needs_rel_def)
  ultimately show ?thesis using e finite_acyclic_wf by blast
qed

text \<open>C20: for jobs with different ids that need only each other, planning ends, and it ends with stages exactly when no job
  needs itself, directly or through others. Every job is then in one stage, after the stages of all
  the jobs it needs and in the first stage of which that is true; the jobs of a stage are in the
  order of their ids. Otherwise planning reports a cycle.\<close>

theorem stages_layers:
  assumes "distinct (map wj_id jobs)" and "\<forall>j \<in> set jobs. set (wj_needs j) \<subseteq> wj_id ` set jobs"
  shows "if acyclic (needs_rel jobs)
    then \<exists>ls. stages jobs = Inr ls \<and> mset (concat ls) = mset jobs \<and> layered {} ls
    else stages jobs = Inl (WorkflowError ''workflow jobs contain a needs cycle'')"
proof (cases "stages jobs")
  case (Inl e)
  then show ?thesis using stages_cyclic [OF assms] by auto
next
  case (Inr ls)
  then have l: "mset (concat ls) = mset jobs" "layered {} ls"
    using stages_loop_layered [of "map (\<lambda>j. (wj_id j, j)) jobs" "{}" ls] assms(1)
    by (simp_all add: stages_loop_ids comp_def)
  then have "distinct (map wj_id (concat ls))" using assms(1) by (metis mset_eq_imp_distinct_iff mset_map)
  moreover have "needs_rel (concat ls) = needs_rel jobs" using l(1) unfolding needs_rel_def by (metis mset_eq_setD)
  ultimately have "acyclic (needs_rel jobs)" using layered_acyclic [OF l(2)] by simp
  with Inr l show ?thesis by auto
qed

definition sample_job :: "string \<Rightarrow> string list \<Rightarrow> WorkflowJob" where
  "sample_job i needs = \<lparr>wj_id = i, wj_name = i, wj_needs = needs,
     wj_steps = [\<lparr>ws_name = ''step-1'', ws_run = Some ''make'', ws_uses = None, ws_env = [], ws_with_args = []\<rparr>],
     wj_spec = \<lparr>sp_cpu = 2, sp_memory_gib = 7, sp_disk_gib = 14, sp_arch = ''x86_64'', sp_gpu = None, sp_network = ''default''\<rparr>,
     wj_provider_id = None, wj_strict_provider = False, wj_region = None, wj_isolation = ''process'', wj_timeout_s = 1800,
     wj_matrix = [[]]\<rparr>"

lemma sample_stages:
  "stages [sample_job ''test'' [''build'', ''lint''], sample_job ''lint'' [], sample_job ''build'' []] =
    Inr [[sample_job ''build'' [], sample_job ''lint'' []], [sample_job ''test'' [''build'', ''lint'']]]"
  by code_simp

theorem stages_layers_witness:
  "acyclic (needs_rel [sample_job ''test'' [''build'', ''lint''], sample_job ''lint'' [], sample_job ''build'' []]) \<and>
   layered {} [[sample_job ''build'' [], sample_job ''lint'' []], [sample_job ''test'' [''build'', ''lint'']]]"
proof -
  let ?jobs = "[sample_job ''test'' [''build'', ''lint''], sample_job ''lint'' [], sample_job ''build'' []]"
  have "if acyclic (needs_rel ?jobs)
    then \<exists>ls. stages ?jobs = Inr ls \<and> mset (concat ls) = mset ?jobs \<and> layered {} ls
    else stages ?jobs = Inl (WorkflowError ''workflow jobs contain a needs cycle'')"
    by (rule stages_layers) (auto simp: sample_job_def)
  then show ?thesis using sample_stages by (auto split: if_splits)
qed

end
