(* ===== verification/ActionStore.thy ===== *)
theory ActionStore
  imports Push Workflow
begin

text \<open>
  \<^verbatim>\<open>src/trunks/actions/backend_store.py\<close>: where the state of action runs is kept. An \<^verbatim>\<open>ActionsStore\<close>
  works on the backend of the repository when it has one and on the repository itself otherwise; the
  state of an operation is the pair of the two, as in the theory \<open>Push\<close>.

  The loop of \<^verbatim>\<open>set_ref\<close> reads a reference and swaps it until the swap succeeds: it ends when no other
  client wins the race for ever. \<open>as_tries\<close> bounds how often it is tried, and a loop that has
  used up its tries is a \<open>RuntimeError\<close>.
\<close>

section \<open>The store\<close>

record 's ActionsStore =
  as_hash :: hash
  as_backend :: "'s Backend option"
  as_tries :: nat
  as_root :: string

definition as_write_blob :: "'s ActionsStore \<Rightarrow> Blob \<Rightarrow> (Repo \<times> 's, unit) st" where
  "as_write_blob A blob =
    (case as_backend A of
       None \<Rightarrow> onR (repo_put_object (as_hash A) (blob_id blob) (blob_canonical blob))
     | Some B \<Rightarrow> onB (write_object B (blob_id blob) (blob_canonical blob)))"

definition as_read_blob_payload :: "'s ActionsStore \<Rightarrow> ObjectId \<Rightarrow> (Repo \<times> 's, bytes) st" where
  "as_read_blob_payload A oid =
    (case as_backend A of
       None \<Rightarrow> onR (getsS (repo_blob_payload oid))
     | Some B \<Rightarrow>
       bindS (onB (read_object B oid)) (\<lambda>data.
       liftR (bindR (parse_canonical_object data) (\<lambda>(kind, payload).
         if kind \<noteq> ''blob'' then Inl (ValueError (''expected blob, got '' @ kind)) else Inr payload))))"

definition as_read_object :: "'s ActionsStore \<Rightarrow> ObjectId \<Rightarrow> (Repo \<times> 's, bytes) st" where
  "as_read_object A oid =
    (case as_backend A of None \<Rightarrow> onR (getsS (repo_object_data oid)) | Some B \<Rightarrow> onB (read_object B oid))"

definition as_has_object :: "'s ActionsStore \<Rightarrow> ObjectId \<Rightarrow> (Repo \<times> 's, bool) st" where
  "as_has_object A oid =
    (case as_backend A of
       None \<Rightarrow> catchS (bindS (onR (getsS (repo_object_data oid))) (\<lambda>_. returnS True)) (\<lambda>_. returnS False)
     | Some B \<Rightarrow> onB (has_object B oid))"

definition as_read_ref :: "'s ActionsStore \<Rightarrow> string \<Rightarrow> (Repo \<times> 's, ObjectId option) st" where
  "as_read_ref A name =
    (case as_backend A of None \<Rightarrow> onR (getsS (repo_ref name)) | Some B \<Rightarrow> onB (read_ref B name))"

fun set_ref_loop :: "'s Backend \<Rightarrow> nat \<Rightarrow> string \<Rightarrow> ObjectId \<Rightarrow> (Repo \<times> 's, unit) st" where
  "set_ref_loop B 0 name oid = raiseS (RuntimeError ''set_ref lost every race'')"
| "set_ref_loop B (Suc tries) name oid =
    bindS (onB (read_ref B name)) (\<lambda>expected.
    bindS (onB (cas_ref B name expected oid)) (\<lambda>swapped.
    if swapped then returnS () else set_ref_loop B tries name oid))"

definition as_set_ref :: "'s ActionsStore \<Rightarrow> string \<Rightarrow> ObjectId \<Rightarrow> (Repo \<times> 's, unit) st" where
  "as_set_ref A name oid =
    (case as_backend A of None \<Rightarrow> onR (repo_set_ref name oid) | Some B \<Rightarrow> set_ref_loop B (as_tries A) name oid)"

definition as_cas_ref :: "'s ActionsStore \<Rightarrow> string \<Rightarrow> ObjectId option \<Rightarrow> ObjectId \<Rightarrow> (Repo \<times> 's, bool) st" where
  "as_cas_ref A name expected new =
    (case as_backend A of None \<Rightarrow> onR (repo_cas_ref name expected new) | Some B \<Rightarrow> onB (cas_ref B name expected new))"

definition is_not_implemented :: "error \<Rightarrow> bool" where
  "is_not_implemented e = (case e of NotImplementedError _ \<Rightarrow> True | _ \<Rightarrow> False)"

definition as_delete_ref :: "'s ActionsStore \<Rightarrow> string \<Rightarrow> (Repo \<times> 's, unit) st" where
  "as_delete_ref A name =
    (case as_backend A of
       None \<Rightarrow> onR (repo_delete_ref name)
     | Some B \<Rightarrow> catchS (onB (delete_ref B name)) (\<lambda>e. if is_not_implemented e then returnS () else raiseS e))"

definition collect_refs :: "'s Backend \<Rightarrow> string \<Rightarrow> (Repo \<times> 's, (string \<times> ObjectId) list) st" where
  "collect_refs B pre =
    bindS (onB (list_refs B pre)) (\<lambda>refs.
    returnS (concat (map (\<lambda>r. case ref_oid r of None \<Rightarrow> [] | Some x \<Rightarrow> [(ref_name r, x)]) refs)))"

definition as_list_refs :: "'s ActionsStore \<Rightarrow> string \<Rightarrow> (Repo \<times> 's, (string \<times> ObjectId) list) st" where
  "as_list_refs A pre =
    (let normalized = (if pre \<noteq> [] then normalize_ref pre else [])
     in case as_backend A of
       None \<Rightarrow> bindS (onR (getsS repo_list_refs)) (\<lambda>refs.
         returnS (filter (\<lambda>(name, _). normalized = [] \<or> startswith name normalized) refs))
     | Some B \<Rightarrow> collect_refs B normalized)"

section \<open>Names of references\<close>

text \<open>The names of a repository start with \<open>repo_root\<close>, which does not change while an operation runs: it is the
  component \<open>as_root\<close> of the store.\<close>

definition repo_root :: "Repo \<Rightarrow> string" where
  "repo_root r = ''refs/actions/repos/'' @ repo_name r"

definition actions_store :: "hash \<Rightarrow> 's Backend option \<Rightarrow> nat \<Rightarrow> Repo \<Rightarrow> 's ActionsStore" where
  "actions_store h B tries r = \<lparr>as_hash = h, as_backend = B, as_tries = tries, as_root = repo_root r\<rparr>"

definition pool_root :: "string \<Rightarrow> string" where
  "pool_root pool = ''refs/actions/pools/'' @ pool"

definition run_state_ref :: "string \<Rightarrow> string \<Rightarrow> string" where
  "run_state_ref root run = root @ ''/runs/'' @ run @ ''/state''"

definition run_prefix :: "string \<Rightarrow> string \<Rightarrow> string" where
  "run_prefix root run = root @ ''/runs/'' @ run @ ''/''"

definition run_logs_prefix :: "string \<Rightarrow> string \<Rightarrow> string" where
  "run_logs_prefix root run = root @ ''/runs/'' @ run @ ''/logs/''"

text \<open>A number with the format \<^verbatim>\<open>0wd\<close>.\<close>

definition fmt_d :: "nat \<Rightarrow> int \<Rightarrow> string" where
  "fmt_d w i = (if i < 0 then CHR ''-'' # dec_pad (w - 1) (nat (- i)) else dec_pad w (nat i))"

definition run_log_ref :: "string \<Rightarrow> string \<Rightarrow> int \<Rightarrow> int \<Rightarrow> string" where
  "run_log_ref root run attempt seq = root @ ''/runs/'' @ run @ ''/logs/'' @ int_str attempt @ ''/'' @ fmt_d 20 seq"

definition run_artifacts_prefix :: "string \<Rightarrow> string \<Rightarrow> string" where
  "run_artifacts_prefix root run = root @ ''/runs/'' @ run @ ''/artifacts/''"

definition run_artifact_ref :: "string \<Rightarrow> string \<Rightarrow> string \<Rightarrow> string" where
  "run_artifact_ref root run name = run_artifacts_prefix root run @ name"

definition run_index_by_repo_prefix :: "string \<Rightarrow> string" where
  "run_index_by_repo_prefix root = root @ ''/index/runs/by-repo/''"

definition run_index_by_status_prefix :: "string \<Rightarrow> string option \<Rightarrow> string" where
  "run_index_by_status_prefix root status =
    (let base = root @ ''/index/runs/by-status/'' in case status of None \<Rightarrow> base | Some s \<Rightarrow> base @ s @ ''/'')"

definition run_queue_prefix :: "string \<Rightarrow> string" where
  "run_queue_prefix root = root @ ''/queue/''"

definition run_queue_ref :: "string \<Rightarrow> string \<Rightarrow> string \<Rightarrow> string \<Rightarrow> string \<Rightarrow> string" where
  "run_queue_ref root key route_bucket shard run =
    root @ ''/queue/'' @ key @ ''/'' @ route_bucket @ ''/'' @ shard @ ''/'' @ run"

definition workflow_run_prefix :: "string \<Rightarrow> string \<Rightarrow> string" where
  "workflow_run_prefix root wrun = root @ ''/workflow-runs/'' @ wrun @ ''/''"

definition workflow_run_state_ref :: "string \<Rightarrow> string \<Rightarrow> string" where
  "workflow_run_state_ref root wrun = root @ ''/workflow-runs/'' @ wrun @ ''/state''"

definition workflow_run_job_ref :: "string \<Rightarrow> string \<Rightarrow> string \<Rightarrow> nat \<Rightarrow> string" where
  "workflow_run_job_ref root wrun job index =
    root @ ''/workflow-runs/'' @ wrun @ ''/jobs/'' @ job @ ''/'' @ dec index"

definition workflow_run_index_by_repo_prefix :: "string \<Rightarrow> string" where
  "workflow_run_index_by_repo_prefix root = root @ ''/index/workflow-runs/by-repo/''"

definition workflow_run_index_by_status_prefix :: "string \<Rightarrow> string option \<Rightarrow> string" where
  "workflow_run_index_by_status_prefix root status =
    (let base = root @ ''/index/workflow-runs/by-status/'' in case status of None \<Rightarrow> base | Some s \<Rightarrow> base @ s @ ''/'')"

definition secret_prefix :: "string \<Rightarrow> string" where
  "secret_prefix root = root @ ''/secrets/''"

definition secret_ref :: "string \<Rightarrow> string \<Rightarrow> string" where
  "secret_ref root name = root @ ''/secrets/'' @ name"

definition capacity_prefix :: "string \<Rightarrow> string" where
  "capacity_prefix pool = pool_root pool @ ''/capacity/''"

definition capacity_limit_ref :: "string \<Rightarrow> string \<Rightarrow> string \<Rightarrow> string" where
  "capacity_limit_ref pool region key = pool_root pool @ ''/capacity/'' @ region @ ''/'' @ key @ ''/limit''"

definition capacity_slot_ref :: "string \<Rightarrow> string \<Rightarrow> string \<Rightarrow> int \<Rightarrow> string" where
  "capacity_slot_ref pool region key slot =
    pool_root pool @ ''/capacity/'' @ region @ ''/'' @ key @ ''/slots/'' @ fmt_d 6 slot"

definition provider_health_prefix :: "string \<Rightarrow> string" where
  "provider_health_prefix pool = pool_root pool @ ''/provider-health/''"

definition provider_health_ref :: "string \<Rightarrow> string \<Rightarrow> string \<Rightarrow> string \<Rightarrow> string" where
  "provider_health_ref pool provider region key =
    pool_root pool @ ''/provider-health/'' @ provider @ ''/'' @ region @ ''/'' @ key @ ''/latest''"

section \<open>Documents in the store\<close>

text \<open>The blob of a document, and \<^verbatim>\<open>json.loads(read_blob_payload(oid).decode())\<close>.\<close>

definition doc_text :: "json \<Rightarrow> string" where
  "doc_text v = dumps compact (sort_keys v)"

definition doc_blob :: "hash \<Rightarrow> json \<Rightarrow> Blob" where
  "doc_blob h v = blob_from_data h (doc_text v)"

definition as_load :: "'s ActionsStore \<Rightarrow> ObjectId \<Rightarrow> (Repo \<times> 's, json) st" where
  "as_load A oid = bindS (as_read_blob_payload A oid) (\<lambda>p. liftR (bindR (decode_utf8 p) loads))"

end
