(* ===== verification/ActionRuns.thy ===== *)
theory ActionRuns
  imports ActionStore "HOL-Library.Word"
begin

text \<open>
  \<^verbatim>\<open>src/trunks/actions/state.py\<close> and \<^verbatim>\<open>src/trunks/actions/storage.py\<close>: the records of action runs and
  their life cycle. A run is a JSON document in the store, named by its state reference; executors
  claim it with a lease, extend the lease, complete the run or give it back, all by comparing and
  swapping that reference. Drawn tokens and the time in seconds are arguments; \<open>js\<close> is Python's
  \<^verbatim>\<open>str\<close> on values that are not strings, integers or booleans.
\<close>

section \<open>Records\<close>

record LogChunk =
  lc_stream :: string
  lc_seq :: int
  lc_text :: string
  lc_ts_ms :: int

record ExecResult =
  er_exit_code :: int
  er_duration_ms :: int
  er_timed_out :: bool

record RunState =
  rs_phase :: string
  rs_token :: "string option"
  rs_expires_at :: "int option"
  rs_result_oid :: "string option"
  rs_attempt :: int
  rs_executor :: "string option"
  rs_provider :: "string option"
  rs_spec_key :: string
  rs_requested_region :: "string option"
  rs_region :: "string option"

definition jopt_int :: "int option \<Rightarrow> json" where
  "jopt_int v = (case v of None \<Rightarrow> JNull | Some i \<Rightarrow> JInt i)"

definition run_state_to_dict :: "RunState \<Rightarrow> json" where
  "run_state_to_dict s = JObj
    [(''_schema_version'', JStr ''trunks.actions.run_state.v1''), (''phase'', JStr (rs_phase s)),
     (''token'', jopt_str (rs_token s)), (''expires_at'', jopt_int (rs_expires_at s)),
     (''result_oid'', jopt_str (rs_result_oid s)), (''attempt'', JInt (rs_attempt s)),
     (''executor'', jopt_str (rs_executor s)), (''provider'', jopt_str (rs_provider s)),
     (''spec_key'', JStr (rs_spec_key s)), (''requested_region'', jopt_str (rs_requested_region s)),
     (''region'', jopt_str (rs_region s))]"

record Run =
  run_id :: string
  run_commit :: string
  run_command :: "string list"
  run_spec :: Spec
  run_timeout_s :: int
  run_isolation :: string
  run_provider_id :: "string option"
  run_strict_provider :: bool
  run_artifact_paths :: "string list"
  run_state :: RunState
  run_logs :: "LogChunk list"
  run_result :: "ExecResult option"
  run_artifacts :: "json list"

definition log_dict :: "LogChunk \<Rightarrow> json" where
  "log_dict l = JObj [(''stream'', JStr (lc_stream l)), (''seq'', JInt (lc_seq l)), (''text'', JStr (lc_text l)),
     (''ts_ms'', JInt (lc_ts_ms l))]"

definition result_dict :: "ExecResult \<Rightarrow> json" where
  "result_dict x = JObj [(''exit_code'', JInt (er_exit_code x)), (''duration_ms'', JInt (er_duration_ms x)),
     (''timed_out'', JBool (er_timed_out x))]"

definition run_to_dict :: "Run \<Rightarrow> (string, json) dict" where
  "run_to_dict r =
    [(''_schema_version'', JStr ''trunks.actions.run.v1''), (''object'', JStr ''action_run''), (''id'', JStr (run_id r)),
     (''commit'', JStr (run_commit r)), (''command'', JList (map JStr (run_command r))), (''spec'', spec_dict (run_spec r)),
     (''timeout_s'', JInt (run_timeout_s r)), (''isolation'', JStr (run_isolation r)),
     (''provider_id'', jopt_str (run_provider_id r)), (''strict_provider'', JBool (run_strict_provider r)),
     (''artifact_paths'', JList (map JStr (run_artifact_paths r))), (''state'', run_state_to_dict (run_state r)),
     (''logs'', JList (map log_dict (run_logs r))),
     (''result'', case run_result r of None \<Rightarrow> JNull | Some x \<Rightarrow> result_dict x),
     (''artifacts'', JList (run_artifacts r))]"

section \<open>Payloads\<close>

type_synonym payload = "(string, json) dict"

text \<open>\<^verbatim>\<open>{**d, k: v, ...}\<close>, \<^verbatim>\<open>isinstance(v, int)\<close> and the \<^verbatim>\<open>except (KeyError, UnicodeDecodeError, ValueError)\<close> clauses.\<close>

definition dmerge :: "payload \<Rightarrow> (string \<times> json) list \<Rightarrow> payload" where
  "dmerge d kvs = foldl (\<lambda>d (k, v). AList.update k v d) d kvs"

definition jint_of :: "json \<Rightarrow> int option" where
  "jint_of v = (case v of JInt i \<Rightarrow> Some i | JBool b \<Rightarrow> Some (if b then 1 else 0) | _ \<Rightarrow> None)"

definition is_key_error :: "error \<Rightarrow> bool" where
  "is_key_error e = (case e of KeyError _ \<Rightarrow> True | ObjectNotFound _ \<Rightarrow> True | _ \<Rightarrow> False)"

definition as_obj :: "json \<Rightarrow> payload option" where
  "as_obj v = (case v of JObj d \<Rightarrow> Some d | _ \<Rightarrow> None)"

definition load_payload :: "'s ActionsStore \<Rightarrow> ObjectId \<Rightarrow> (Repo \<times> 's, payload option) st" where
  "load_payload A oid =
    catchS (bindS (as_load A oid) (\<lambda>v. returnS (as_obj v)))
      (\<lambda>e. if is_key_error e \<or> is_value_error e then returnS None else raiseS e)"

definition payload_phase :: "payload \<Rightarrow> string" where
  "payload_phase d =
    (case dget d ''state'' of
       JObj st \<Rightarrow> (case dget st ''phase'' of JStr p \<Rightarrow> p | _ \<Rightarrow> ''unknown'')
     | _ \<Rightarrow> ''unknown'')"

definition phase_at :: "'s ActionsStore \<Rightarrow> ObjectId option \<Rightarrow> (Repo \<times> 's, string option) st" where
  "phase_at A oid =
    (case oid of
       None \<Rightarrow> returnS None
     | Some x \<Rightarrow> bindS (load_payload A x) (\<lambda>p. returnS (map_option payload_phase p)))"

definition attempt_from_state :: "payload \<Rightarrow> int" where
  "attempt_from_state st =
    (case jint_of (dget st ''attempt'') of None \<Rightarrow> 0 | Some a \<Rightarrow> if a \<ge> 0 then a else 0)"

definition state_payload :: "payload \<Rightarrow> payload" where
  "state_payload d = AList.update ''logs'' (JList []) d"

section \<open>Logs\<close>

definition write_log_chunk :: "'s ActionsStore \<Rightarrow> string \<Rightarrow> int \<Rightarrow> payload \<Rightarrow> (Repo \<times> 's, unit) st" where
  "write_log_chunk A run attempt item =
    (case jint_of (dget item ''seq'') of
       None \<Rightarrow> returnS ()
     | Some seq \<Rightarrow>
       let blob = doc_blob (as_hash A) (JObj item)
       in bindS (as_write_blob A blob) (\<lambda>_. as_set_ref A (run_log_ref (as_root A) run attempt seq) (blob_id blob)))"

definition write_log_chunks :: "'s ActionsStore \<Rightarrow> string \<Rightarrow> int \<Rightarrow> payload list \<Rightarrow> (Repo \<times> 's, unit) st" where
  "write_log_chunks A run attempt logs = iterS (write_log_chunk A run attempt) logs"

definition dict_items :: "json list \<Rightarrow> payload list" where
  "dict_items xs = concat (map (\<lambda>v. case v of JObj d \<Rightarrow> [d] | _ \<Rightarrow> []) xs)"

definition persist_log_chunks :: "'s ActionsStore \<Rightarrow> string \<Rightarrow> payload \<Rightarrow> (Repo \<times> 's, unit) st" where
  "persist_log_chunks A run d =
    (case dget d ''logs'' of
       JList logs \<Rightarrow> write_log_chunks A run
         (case dget d ''state'' of JObj st \<Rightarrow> attempt_from_state st | _ \<Rightarrow> 0) (dict_items logs)
     | _ \<Rightarrow> returnS ())"

fun load_all :: "'s ActionsStore \<Rightarrow> (string \<times> ObjectId) list \<Rightarrow> (Repo \<times> 's, (string \<times> payload) list) st" where
  "load_all A [] = returnS []"
| "load_all A ((name, oid) # refs) =
    bindS (load_payload A oid) (\<lambda>p.
    bindS (load_all A refs) (\<lambda>rest. returnS (case p of None \<Rightarrow> rest | Some d \<Rightarrow> (name, d) # rest)))"

definition load_log_chunks :: "'s ActionsStore \<Rightarrow> string \<Rightarrow> (Repo \<times> 's, payload list) st" where
  "load_log_chunks A run =
    bindS (as_list_refs A (run_logs_prefix (as_root A) run)) (\<lambda>refs.
    bindS (load_all A refs) (\<lambda>logs. returnS (map snd (sort_key fst logs))))"

definition load_log_chunks_for_attempt :: "'s ActionsStore \<Rightarrow> string \<Rightarrow> int \<Rightarrow> (Repo \<times> 's, payload list) st" where
  "load_log_chunks_for_attempt A run attempt =
    bindS (as_list_refs A (run_logs_prefix (as_root A) run @ int_str attempt @ ''/'')) (\<lambda>refs.
    bindS (load_all A refs) (\<lambda>logs. returnS (map snd logs)))"

section \<open>Indexes and the queue\<close>

text \<open>\<^verbatim>\<open>zlib.crc32\<close>\<close>

definition crc_bit :: "32 word \<Rightarrow> 32 word" where
  "crc_bit c = (if bit c 0 then xor (drop_bit 1 c) 0xEDB88320 else drop_bit 1 c)"

definition crc_byte :: "32 word \<Rightarrow> char \<Rightarrow> 32 word" where
  "crc_byte c b = (crc_bit ^^ 8) (xor c (of_nat (ordc b)))"

definition crc32 :: "string \<Rightarrow> nat" where
  "crc32 s = unat (xor (foldl crc_byte 0xFFFFFFFF s) 0xFFFFFFFF)"

definition refresh_queue_ref :: "'s ActionsStore \<Rightarrow> string \<Rightarrow> payload \<Rightarrow> string option \<Rightarrow> string \<Rightarrow> ObjectId \<Rightarrow>
    (Repo \<times> 's, unit) st" where
  "refresh_queue_ref A run d previous_phase phase oid =
    bindS (if previous_phase = Some ''pending'' \<and> phase \<noteq> ''pending''
      then bindS (as_list_refs A (run_queue_prefix (as_root A))) (\<lambda>refs.
        iterS (\<lambda>(name, _). if endswith name (''/'' @ run) then as_delete_ref A name else returnS ()) refs)
      else returnS ()) (\<lambda>_.
    if phase \<noteq> ''pending'' then returnS ()
    else
      let st = as_dict (dget d ''state'')
      in case dget st ''spec_key'' of
        JStr key \<Rightarrow>
          if key = [] then returnS ()
          else as_set_ref A (run_queue_ref (as_root A) key
            (case dget st ''requested_region'' of
               JStr g \<Rightarrow> if dget d ''region_pin'' = JStr ''hard'' then g else ''any''
             | _ \<Rightarrow> ''any'') (hex4 (crc32 run mod 64)) run) oid
      | _ \<Rightarrow> returnS ())"

definition refresh_indexes :: "'s ActionsStore \<Rightarrow> string \<Rightarrow> ObjectId \<Rightarrow> payload \<Rightarrow> ObjectId option \<Rightarrow> (Repo \<times> 's, unit) st" where
  "refresh_indexes A run oid d previous =
    bindS (phase_at A previous) (\<lambda>previous_phase.
    let phase = payload_phase d
    in bindS (case previous_phase of
        None \<Rightarrow> returnS ()
      | Some p \<Rightarrow> if p \<noteq> phase then as_delete_ref A (run_index_by_status_prefix (as_root A) (Some p) @ run) else returnS ()) (\<lambda>_.
    bindS (as_set_ref A (run_index_by_repo_prefix (as_root A) @ run) oid) (\<lambda>_.
    bindS (as_set_ref A (run_index_by_status_prefix (as_root A) (Some phase) @ run) oid) (\<lambda>_.
    refresh_queue_ref A run d previous_phase phase oid))))"

section \<open>Storing a run\<close>

definition payload_id :: "(json \<Rightarrow> string) \<Rightarrow> payload \<Rightarrow> string res" where
  "payload_id js d = bindR (jitem (JObj d) ''id'') (\<lambda>v. Inr (json_to_str js v))"

text \<open>Moving the state reference: without an expected value it is set, and what it was is read before; with one it is
  swapped. The result is the previous value, or nothing when the swap fails.\<close>

definition move_state :: "'s ActionsStore \<Rightarrow> string \<Rightarrow> ObjectId option \<Rightarrow> ObjectId \<Rightarrow> (Repo \<times> 's, ObjectId option option) st" where
  "move_state A run expected oid =
    (case expected of
       None \<Rightarrow>
         bindS (as_read_ref A (run_state_ref (as_root A) run)) (\<lambda>previous.
         bindS (as_set_ref A (run_state_ref (as_root A) run) oid) (\<lambda>_. returnS (Some previous)))
     | Some e \<Rightarrow>
         bindS (as_cas_ref A (run_state_ref (as_root A) run) expected oid) (\<lambda>swapped.
         returnS (if swapped then Some expected else None)))"

definition persist_run_payload :: "(json \<Rightarrow> string) \<Rightarrow> 's ActionsStore \<Rightarrow> payload \<Rightarrow> ObjectId option \<Rightarrow>
    (Repo \<times> 's, string option) st" where
  "persist_run_payload js A d expected =
    bindS (liftR (payload_id js d)) (\<lambda>run.
    bindS (persist_log_chunks A run d) (\<lambda>_.
    let blob = doc_blob (as_hash A) (JObj (state_payload d))
    in bindS (as_write_blob A blob) (\<lambda>_.
    bindS (move_state A run expected (blob_id blob)) (\<lambda>moved.
    case moved of
      None \<Rightarrow> returnS None
    | Some previous \<Rightarrow>
      bindS (refresh_indexes A run (blob_id blob) (state_payload d) previous) (\<lambda>_.
      returnS (Some (oid_value (blob_id blob))))))))"

definition persist_run :: "(json \<Rightarrow> string) \<Rightarrow> 's ActionsStore \<Rightarrow> Run \<Rightarrow> (Repo \<times> 's, string option) st" where
  "persist_run js A r = persist_run_payload js A (run_to_dict r) None"

definition load_run :: "'s ActionsStore \<Rightarrow> string \<Rightarrow> (Repo \<times> 's, json) st" where
  "load_run A run =
    bindS (as_read_ref A (run_state_ref (as_root A) run)) (\<lambda>oid.
    case oid of
      None \<Rightarrow> raiseS (KeyError (''unknown action run '' @ repr_str run))
    | Some x \<Rightarrow>
      bindS (as_load A x) (\<lambda>v.
      bindS (load_log_chunks A run) (\<lambda>logs.
      case v of
        JObj d \<Rightarrow> returnS (JObj (AList.update ''logs'' (JList (map JObj logs)) d))
      | _ \<Rightarrow> raiseS (TypeError ''object does not support item assignment''))))"

section \<open>Leases\<close>

text \<open>What the operations on a stored run begin with: the state reference, the document it names and the state in it. An
  operation gives up with \<open>no\<close> when one of them is missing.\<close>

definition with_run :: "'s ActionsStore \<Rightarrow> string \<Rightarrow> 'a \<Rightarrow> (ObjectId \<Rightarrow> payload \<Rightarrow> payload \<Rightarrow> (Repo \<times> 's, 'a) st) \<Rightarrow>
    (Repo \<times> 's, 'a) st" where
  "with_run A run no k =
    bindS (as_read_ref A (run_state_ref (as_root A) run)) (\<lambda>expected.
    case expected of
      None \<Rightarrow> returnS no
    | Some x \<Rightarrow>
      bindS (load_payload A x) (\<lambda>current.
      case current of
        None \<Rightarrow> returnS no
      | Some d \<Rightarrow> (case dget d ''state'' of JObj st \<Rightarrow> k x d st | _ \<Rightarrow> returnS no)))"

definition swap_run :: "(json \<Rightarrow> string) \<Rightarrow> 's ActionsStore \<Rightarrow> payload \<Rightarrow> ObjectId \<Rightarrow> (Repo \<times> 's, bool) st" where
  "swap_run js A d expected =
    bindS (persist_run_payload js A d (Some expected)) (\<lambda>p. returnS (p \<noteq> None))"

definition lease_expired :: "payload \<Rightarrow> int \<Rightarrow> bool" where
  "lease_expired st now \<longleftrightarrow>
    dget st ''phase'' = JStr ''running'' \<and> (case jint_of (dget st ''expires_at'') of None \<Rightarrow> False | Some e \<Rightarrow> e \<le> now)"

definition next_attempt :: "payload \<Rightarrow> int \<Rightarrow> int" where
  "next_attempt st now =
    (case jint_of (dget st ''attempt'') of
       None \<Rightarrow> 1 | Some a \<Rightarrow> if lease_expired st now then a + 1 else 1)"

record Claim =
  cl_executor :: string
  cl_provider :: string
  cl_spec_key :: string
  cl_region :: "string option"
  cl_requested_region :: "string option"
  cl_ttl_s :: int

definition claimed_state :: "Claim \<Rightarrow> string \<Rightarrow> int \<Rightarrow> payload \<Rightarrow> payload" where
  "claimed_state c token now st = dmerge st
    [(''phase'', JStr ''running''), (''token'', JStr token), (''expires_at'', JInt (now + cl_ttl_s c)),
     (''attempt'', JInt (next_attempt st now)), (''executor'', JStr (cl_executor c)), (''provider'', JStr (cl_provider c)),
     (''spec_key'', JStr (cl_spec_key c)), (''requested_region'', jopt_str (cl_requested_region c)),
     (''region'', jopt_str (cl_region c))]"

definition claim_run :: "(json \<Rightarrow> string) \<Rightarrow> 's ActionsStore \<Rightarrow> string \<Rightarrow> Claim \<Rightarrow> string \<Rightarrow> int \<Rightarrow> (Repo \<times> 's, payload option) st" where
  "claim_run js A run c token now =
    with_run A run None (\<lambda>expected d st.
      if dget st ''phase'' \<noteq> JStr ''pending'' \<and> \<not> lease_expired st now then returnS None
      else
        let claimed = AList.update ''state'' (JObj (claimed_state c token now st)) d
        in bindS (swap_run js A claimed expected) (\<lambda>swapped. returnS (if swapped then Some claimed else None)))"

definition heartbeat_run :: "(json \<Rightarrow> string) \<Rightarrow> 's ActionsStore \<Rightarrow> string \<Rightarrow> string \<Rightarrow> int \<Rightarrow> int \<Rightarrow> (Repo \<times> 's, bool) st" where
  "heartbeat_run js A run token ttl_s now =
    with_run A run False (\<lambda>expected d st.
      if dget st ''phase'' \<noteq> JStr ''running'' \<or> dget st ''token'' \<noteq> JStr token then returnS False
      else swap_run js A (AList.update ''state'' (JObj (dmerge st [(''expires_at'', JInt (now + ttl_s))])) d) expected)"

definition ended_state :: "string \<Rightarrow> payload \<Rightarrow> payload" where
  "ended_state phase st = dmerge st [(''phase'', JStr phase), (''token'', JNull), (''expires_at'', JNull)]"

definition complete_run :: "(json \<Rightarrow> string) \<Rightarrow> 's ActionsStore \<Rightarrow> payload \<Rightarrow> string \<Rightarrow> string \<Rightarrow> payload list \<Rightarrow> json \<Rightarrow>
    (Repo \<times> 's, bool) st" where
  "complete_run js A d0 token phase logs result =
    bindS (liftR (payload_id js d0)) (\<lambda>run.
    with_run A run False (\<lambda>expected d st.
      if dget st ''token'' \<noteq> JStr token then returnS False
      else
        bindS (write_log_chunks A run (attempt_from_state st) logs) (\<lambda>_.
        swap_run js A (dmerge d
          [(''logs'', JList []), (''result'', result),
           (''artifacts'', dget_or d0 ''artifacts'' (dget_or d ''artifacts'' (JList []))),
           (''state'', JObj (ended_state phase st))]) expected)))"

definition release_run_claim :: "(json \<Rightarrow> string) \<Rightarrow> 's ActionsStore \<Rightarrow> payload \<Rightarrow> string \<Rightarrow> (Repo \<times> 's, bool) st" where
  "release_run_claim js A d0 token =
    bindS (liftR (payload_id js d0)) (\<lambda>run.
    with_run A run False (\<lambda>expected d st.
      if dget st ''token'' \<noteq> JStr token then returnS False
      else swap_run js A (AList.update ''state'' (JObj (ended_state ''pending'' st)) d) expected))"

definition TERMINAL_PHASES :: "string set" where
  "TERMINAL_PHASES = {''succeeded'', ''failed'', ''canceled'', ''skipped''}"

definition is_terminal :: "json \<Rightarrow> bool" where
  "is_terminal v \<longleftrightarrow> (case v of JStr p \<Rightarrow> p \<in> TERMINAL_PHASES | _ \<Rightarrow> False)"

definition cancel_run :: "(json \<Rightarrow> string) \<Rightarrow> 's ActionsStore \<Rightarrow> string \<Rightarrow> (Repo \<times> 's, payload option) st" where
  "cancel_run js A run =
    with_run A run None (\<lambda>expected d st.
      if is_terminal (dget st ''phase'') then returnS (Some d)
      else
        let canceled = AList.update ''state'' (JObj (ended_state ''canceled'' st)) d
        in bindS (swap_run js A canceled expected) (\<lambda>swapped. returnS (if swapped then Some canceled else None)))"

definition log_key :: "payload \<Rightarrow> json \<times> json" where
  "log_key item = (dget item ''stream'', dget item ''seq'')"

definition append_run_logs :: "'s ActionsStore \<Rightarrow> string \<Rightarrow> string \<Rightarrow> payload list \<Rightarrow> nat \<Rightarrow> (Repo \<times> 's, bool) st" where
  "append_run_logs A run token logs attempts =
    (if logs = [] then returnS True
     else if attempts = 0 then returnS False
     else
       with_run A run False (\<lambda>_ _ st.
         if dget st ''phase'' \<noteq> JStr ''running'' \<or> dget st ''token'' \<noteq> JStr token then returnS False
         else
           let attempt = attempt_from_state st
           in bindS (load_log_chunks_for_attempt A run attempt) (\<lambda>items.
              let next_logs = filter (\<lambda>item. log_key item \<notin> log_key ` set items) logs
              in if next_logs = [] then returnS True
                 else bindS (write_log_chunks A run attempt next_logs) (\<lambda>_. returnS True))))"

section \<open>Listing and repair\<close>

definition with_logs :: "'s ActionsStore \<Rightarrow> payload \<Rightarrow> (Repo \<times> 's, payload) st" where
  "with_logs A d =
    (case dget d ''id'' of
       JStr run \<Rightarrow> bindS (load_log_chunks A run) (\<lambda>logs. returnS (AList.update ''logs'' (JList (map JObj logs)) d))
     | _ \<Rightarrow> returnS d)"

fun load_runs :: "'s ActionsStore \<Rightarrow> (string \<times> ObjectId) list \<Rightarrow> (Repo \<times> 's, payload list) st" where
  "load_runs A [] = returnS []"
| "load_runs A ((name, oid) # refs) =
    bindS (load_payload A oid) (\<lambda>p.
    bindS (case p of None \<Rightarrow> returnS [] | Some d \<Rightarrow> bindS (with_logs A d) (\<lambda>d'. returnS [d'])) (\<lambda>ds.
    bindS (load_runs A refs) (\<lambda>rest. returnS (ds @ rest))))"

definition list_runs :: "'s ActionsStore \<Rightarrow> string option \<Rightarrow> nat \<Rightarrow> nat \<Rightarrow> (Repo \<times> 's, payload list) st" where
  "list_runs A status limit offset =
    bindS (as_list_refs A (case truthy status of
        Some s \<Rightarrow> run_index_by_status_prefix (as_root A) (Some s) | None \<Rightarrow> run_index_by_repo_prefix (as_root A))) (\<lambda>refs.
    load_runs A (take limit (drop offset (rev (sort_key fst refs)))))"

definition last_part :: "string \<Rightarrow> string" where
  "last_part name = (case rsplit1 ''/'' name of None \<Rightarrow> name | Some (_, b) \<Rightarrow> b)"

definition pending_run_ids :: "'s ActionsStore \<Rightarrow> nat \<Rightarrow> (Repo \<times> 's, string list) st" where
  "pending_run_ids A limit =
    bindS (as_list_refs A (run_queue_prefix (as_root A))) (\<lambda>refs.
    returnS (map last_part (take limit (sort (map fst refs)))))"

definition repair_one :: "'s ActionsStore \<Rightarrow> string \<times> ObjectId \<Rightarrow> (Repo \<times> 's, nat) st" where
  "repair_one A ref =
    (case ref of (name, oid) \<Rightarrow>
     if \<not> endswith name ''/state'' then returnS 0
     else bindS (load_payload A oid) (\<lambda>p.
       case p of
         None \<Rightarrow> returnS 0
       | Some d \<Rightarrow> (case dget d ''id'' of
           JStr run \<Rightarrow> bindS (refresh_indexes A run oid d None) (\<lambda>_. returnS 1)
         | _ \<Rightarrow> returnS 0)))"

definition repair_indexes :: "'s ActionsStore \<Rightarrow> (Repo \<times> 's, json) st" where
  "repair_indexes A =
    bindS (as_list_refs A (as_root A @ ''/runs/'')) (\<lambda>refs.
    bindS (mapS (repair_one A) refs) (\<lambda>ns.
    returnS (JObj [(''_schema_version'', JStr ''trunks.actions.index_repair.v1''), (''object'', JStr ''index_repair''),
      (''repaired'', JInt (int (sum_list ns)))])))"

end
