(* ===== verification/Cells.thy ===== *)
theory Cells
  imports ActionRuns SQLite
begin

text \<open>
  References as cells that several executors share. An operation of the actions is many store calls, and
  between any two of them the others may change the store (\<open>interfered\<close> of the theory \<open>Push\<close>). What
  holds them together are references that are only ever compared and swapped, the cells: the state
  references of runs, and the slots of a capacity pool. \<open>backend_cells\<close> is what they need of a store (the
  memory and the SQLite backend provide it), \<open>cell_calls\<close> collects what every call of an operation
  keeps, for any set of cells and any rule \<open>permitted\<close> about which swaps are allowed.
\<close>

section \<open>Stores with cells\<close>

locale backend_cells = backend_safe +
  assumes cell_ref: "inv s \<Longrightarrow> read_ref B m s = (Inr r, t) \<Longrightarrow> r = refs s (normalize_ref m)"
    and cell_cas: "inv s \<Longrightarrow> valid_oid y \<Longrightarrow> cas_ref B m e y s = (res, t) \<Longrightarrow>
      inv t \<and> objs t = objs s \<and> (\<forall>b. res = Inr b \<longrightarrow> b = (refs s (normalize_ref m) = e)) \<and>
      (refs t = refs s \<and> res \<noteq> Inr True \<or> refs s (normalize_ref m) = e \<and> refs t = (refs s)(normalize_ref m \<mapsto> y))"
    and cell_delete: "inv s \<Longrightarrow> delete_ref B m s = (res', t) \<Longrightarrow>
      inv t \<and> objs t = objs s \<and> (refs t = refs s \<or> refs t = (refs s)(normalize_ref m := None))"

lemma delete_subset: "x \<in> set (AList.delete k d) \<Longrightarrow> x \<in> set d"
  by (auto simp: AList.delete_eq)

interpretation memory_cells: backend_cells h "memory_backend h" "memory_inv h" memory_objs memory_refs
  for h
proof unfold_locales
  fix s m r t assume "memory_inv h s" "read_ref (memory_backend h) m s = (Inr r, t)"
  then show "r = memory_refs s (normalize_ref m)" using memory.sb_ref [of h s m] by auto
next
  fix s y m e res t assume "memory_inv h s" "valid_oid y" "cas_ref (memory_backend h) m e y s = (res, t)"
  then show "memory_inv h t \<and> memory_objs t = memory_objs s \<and> (\<forall>b. res = Inr b \<longrightarrow> b = (memory_refs s (normalize_ref m) = e)) \<and>
      (memory_refs t = memory_refs s \<and> res \<noteq> Inr True \<or>
       memory_refs s (normalize_ref m) = e \<and> memory_refs t = (memory_refs s)(normalize_ref m \<mapsto> y))"
    using memory.sb_cas [of h s y m e] by (auto split: if_splits)
next
  fix s m res' t assume "memory_inv h s" "delete_ref (memory_backend h) m s = (res', t)"
  then show "memory_inv h t \<and> memory_objs t = memory_objs s \<and>
      (memory_refs t = memory_refs s \<or> memory_refs t = (memory_refs s)(normalize_ref m := None))"
    by (auto simp: memory_backend_def memory_delete_ref_def memory_inv_def fun_eq_iff)
qed

interpretation sqlite_cells: backend_cells h "sqlite_backend h od trunk" "sqlite_inv h trunk" "sqlite_objs trunk" "sqlite_refs trunk"
  for h od trunk
proof unfold_locales
  fix s m r t assume "sqlite_inv h trunk s" "read_ref (sqlite_backend h od trunk) m s = (Inr r, t)"
  then show "r = sqlite_refs trunk s (normalize_ref m)" using sqlite.sb_ref [of h trunk s od m] by auto
next
  fix s y m e res t assume "sqlite_inv h trunk s" "valid_oid y" "cas_ref (sqlite_backend h od trunk) m e y s = (res, t)"
  then show "sqlite_inv h trunk t \<and> sqlite_objs trunk t = sqlite_objs trunk s \<and>
      (\<forall>b. res = Inr b \<longrightarrow> b = (sqlite_refs trunk s (normalize_ref m) = e)) \<and>
      (sqlite_refs trunk t = sqlite_refs trunk s \<and> res \<noteq> Inr True \<or>
       sqlite_refs trunk s (normalize_ref m) = e \<and> sqlite_refs trunk t = (sqlite_refs trunk s)(normalize_ref m \<mapsto> y))"
    using sqlite.sb_cas [of h trunk s y od m e] by (auto split: if_splits)
next
  fix s m res' t assume "sqlite_inv h trunk s" "delete_ref (sqlite_backend h od trunk) m s = (res', t)"
  then show "sqlite_inv h trunk t \<and> sqlite_objs trunk t = sqlite_objs trunk s \<and>
      (sqlite_refs trunk t = sqlite_refs trunk s \<or> sqlite_refs trunk t = (sqlite_refs trunk s)(normalize_ref m := None))"
    by (auto simp: sqlite_backend_def sqlite_delete_ref_def sqlite_inv_def sqlite_objs_def [abs_def] sqlite_refs_def fun_eq_iff
        dest!: delete_subset)
qed

section \<open>What every call keeps\<close>

text \<open>A fair call: it leaves all cells alone, or it sets one of them to a value \<open>y\<close> when that is permitted for the
  value it has at that moment.\<close>

definition fair_call :: "('s \<Rightarrow> string \<Rightarrow> ObjectId option) \<Rightarrow> string set \<Rightarrow> (string \<Rightarrow> ObjectId option \<Rightarrow> ObjectId \<Rightarrow> bool) \<Rightarrow>
    's \<times> 's \<Rightarrow> bool" where
  "fair_call refs cells permitted step \<longleftrightarrow>
    (case step of (a, b) \<Rightarrow>
      (\<forall>p \<in> cells. refs b p = refs a p) \<or>
      (\<exists>n \<in> cells. \<exists>y. permitted n (refs a n) y \<and> (\<forall>p \<in> cells. refs b p = ((refs a)(n \<mapsto> y)) p)))"

text \<open>The store satisfies \<open>G\<close>, the other clients keep it, and the calls logged after \<open>L\<close> are fair.\<close>

definition guar :: "('s \<Rightarrow> bool) \<Rightarrow> ('s \<times> 's \<Rightarrow> bool) \<Rightarrow> ('s \<times> 's) list \<Rightarrow> Repo \<times> 's shared \<Rightarrow> bool" where
  "guar G fair L st \<longleftrightarrow>
    (case st of (r, s, others, log) \<Rightarrow>
      G s \<and> (\<forall>f \<in> set others. \<forall>s. G s \<longrightarrow> G (f s)) \<and> (\<exists>l. log = L @ l \<and> (\<forall>e \<in> set l. fair e)))"

lemma keeps_guar_onR [intro!]: "keeps (guar G fair L) (onR m)"
  by (rule keepsI) (auto simp: onR_def guar_def split: prod.splits)

lemma keeps_guar_call:
  assumes "\<And>s. G s \<Longrightarrow> G (snd (m s)) \<and> fair (s, snd (m s))"
  shows "keeps (guar G fair L) (onB (interfere m))"
proof (rule keepsI)
  fix st assume g: "guar G fair L st"
  obtain r s others log where st: "st = (r, s, others, log)" by (cases st) auto
  let ?s1 = "case others of [] \<Rightarrow> s | f # _ \<Rightarrow> f s"
  have "G ?s1" "\<forall>f \<in> set (tl others). \<forall>s. G s \<longrightarrow> G (f s)" using g st by (cases others; auto simp: guar_def)+
  with g assms [of ?s1] show "guar G fair L (snd (onB (interfere m) st))"
    unfolding st by (cases "m ?s1") (auto simp: guar_def onB_def interfere_def Let_def)
qed

lemma guar_extend:
  assumes "guar G fair L (r, s, others, log)" and "set ls \<subseteq> Collect fair"
  shows "guar G fair L (r, s, others, log @ ls) \<longleftrightarrow> True"
  using assms by (auto simp: guar_def subset_iff)

lemma guar_log: "guar G fair L (r, s, others, log) \<Longrightarrow> set L \<subseteq> set log"
  by (auto simp: guar_def)

lemma keeps_Pair [intro!, simp]: "keeps P (Pair x)"
  by (rule keepsI) simp

lemma bindS_liftR_Inr: "bindS (liftR (Inr x)) f = f x"
  by (simp add: fun_eq_iff bindS_def liftR_def)

lemma keeps_bindS_result:
  assumes "keeps P m" and "\<And>s x t. P s \<Longrightarrow> m s = (Inr x, t) \<Longrightarrow> Q x" and "\<And>x. Q x \<Longrightarrow> keeps P (f x)"
  shows "keeps P (bindS m f)"
proof (rule keepsI)
  fix s assume s: "P s"
  show "P (snd (bindS m f s))"
    using keepsD [OF assms(1) s] assms(2) [OF s] keepsD [OF assms(3)]
    by (cases "m s") (auto simp: bindS_def split: sum.splits)
qed

text \<open>The store in which the first call of an operation works, and a call in the log that has swapped a cell.\<close>

definition seen :: "'s \<Rightarrow> ('s \<Rightarrow> 's) list \<Rightarrow> 's" where
  "seen s others = (case others of [] \<Rightarrow> s | f # _ \<Rightarrow> f s)"

definition swapped :: "('s \<Rightarrow> bool) \<Rightarrow> ('s \<Rightarrow> string \<Rightarrow> ObjectId option) \<Rightarrow> string \<Rightarrow> ObjectId option \<Rightarrow> ObjectId \<Rightarrow>
    ('s \<times> 's) list \<Rightarrow> bool" where
  "swapped P refs n e y log \<longleftrightarrow> (\<exists>(a, b) \<in> set log. P a \<and> refs a n = e \<and> refs b n = Some y)"

text \<open>\<open>x\<close> is the id of a blob that holds the document \<open>d\<close>.\<close>

definition doc_at :: "hash \<Rightarrow> ObjectId \<Rightarrow> payload \<Rightarrow> bool" where
  "doc_at h x d \<longleftrightarrow> (\<exists>b p. from_bytes h b = x \<and> parse_canonical_object b = Inr (''blob'', p) \<and> is_str p \<and> loads p = Inr (JObj d))"

text \<open>What an operation has left: the store and the log of its calls.\<close>

definition final_store :: "'a res \<times> Repo \<times> 's shared \<Rightarrow> 's" where
  "final_store out = (case out of (_, _, s, _, _) \<Rightarrow> s)"

definition final_log :: "'a res \<times> Repo \<times> 's shared \<Rightarrow> ('s \<times> 's) list" where
  "final_log out = (case out of (_, _, _, _, log) \<Rightarrow> log)"

lemma keeps_cases_option:
  "(v = None \<Longrightarrow> keeps P m) \<Longrightarrow> (\<And>x. v = Some x \<Longrightarrow> keeps P (f x)) \<Longrightarrow> keeps P (case v of None \<Rightarrow> m | Some x \<Rightarrow> f x)"
  by (cases v) auto

lemma valid_doc_id [simp]: "digest20 h \<Longrightarrow> valid_oid (blob_id (doc_blob h v))"
  by (simp add: doc_blob_def blob_from_data_def object_id_def)

section \<open>Operations on cells\<close>

locale cell_calls = backend_cells +
  fixes A :: "'s shared ActionsStore" and cells :: "string set"
    and permitted :: "string \<Rightarrow> ObjectId option \<Rightarrow> ObjectId \<Rightarrow> bool" and G :: "'s \<Rightarrow> bool"
  assumes store: "as_backend A = Some (interfered B)" "as_hash A = h"
    and G_inv: "G s \<Longrightarrow> digest20 h \<and> inv s"
    and G_step: "G a \<Longrightarrow> inv b \<Longrightarrow> dom (objs a) \<subseteq> dom (objs b) \<Longrightarrow> fair_call refs cells permitted (a, b) \<Longrightarrow> G b"
begin

abbreviation kept :: "('s \<times> 's) list \<Rightarrow> Repo \<times> 's shared \<Rightarrow> bool" where
  "kept L \<equiv> guar G (fair_call refs cells permitted) L"

lemma fair_quiet: "(\<And>p. p \<in> cells \<Longrightarrow> refs b p = refs a p) \<Longrightarrow> fair_call refs cells permitted (a, b)"
  by (simp add: fair_call_def)

lemma call_kept:
  assumes "\<And>s. digest20 h \<Longrightarrow> inv s \<Longrightarrow> inv (snd (m s)) \<and> dom (objs s) \<subseteq> dom (objs (snd (m s))) \<and>
    fair_call refs cells permitted (s, snd (m s))"
  shows "keeps (kept L) (onB (interfere m))"
proof (rule keeps_guar_call)
  fix s assume s: "G s"
  note c = assms [OF conjunct1 conjunct2, OF G_inv G_inv, OF s s]
  with G_step [OF s] show "G (snd (m s)) \<and> fair_call refs cells permitted (s, snd (m s))" by blast
qed

lemma same_kept: "(\<And>s. inv s \<Longrightarrow> same inv objs refs s (snd (m s))) \<Longrightarrow> keeps (kept L) (onB (interfere m))"
  by (rule call_kept) (auto simp: same_def intro!: fair_quiet)

lemma reads_kept [intro!]:
  "keeps (kept L) (onB (read_object (interfered B) x))" "keeps (kept L) (onB (read_ref (interfered B) n))"
  "keeps (kept L) (onB (list_refs (interfered B) p))" "keeps (kept L) (onB (has_object (interfered B) x))"
  using same_kept [OF read_same] same_kept [OF ref_same] same_kept [OF list_same] same_kept [OF has_same]
  by (simp_all add: interfered_def)

lemma write_kept [intro!]: "keeps (kept L) (onB (write_object (interfered B) x d))"
proof -
  have "inv (snd (write_object B x d s)) \<and> dom (objs s) \<subseteq> dom (objs (snd (write_object B x d s))) \<and>
    fair_call refs cells permitted (s, snd (write_object B x d s))" if "inv s" for s
    using write_grown [OF that, of x d] by (auto simp: grown_def intro!: fair_quiet)
  then show ?thesis by (simp add: interfered_def call_kept)
qed

lemma cas_kept:
  assumes "digest20 h \<Longrightarrow> valid_oid y" and "normalize_ref m \<in> cells \<Longrightarrow> permitted (normalize_ref m) e y"
  shows "keeps (kept L) (onB (cas_ref (interfered B) m e y))"
proof -
  have "inv (snd (cas_ref B m e y s)) \<and> dom (objs s) \<subseteq> dom (objs (snd (cas_ref B m e y s))) \<and>
    fair_call refs cells permitted (s, snd (cas_ref B m e y s))" if "inv s" "digest20 h" for s
  proof -
    obtain res t where t: "cas_ref B m e y s = (res, t)" by (cases "cas_ref B m e y s")
    note c = cell_cas [OF that(1) assms(1) [OF that(2)] t]
    consider "refs t = refs s" | "normalize_ref m \<notin> cells" "refs t = (refs s)(normalize_ref m \<mapsto> y)"
      | "normalize_ref m \<in> cells" "refs s (normalize_ref m) = e" "refs t = (refs s)(normalize_ref m \<mapsto> y)"
      using c by blast
    then have "fair_call refs cells permitted (s, t)"
    proof cases
      case 3
      then have "\<forall>p \<in> cells. refs t p = ((refs s)(normalize_ref m \<mapsto> y)) p" by simp
      with 3(1,2) assms(2) show ?thesis unfolding fair_call_def prod.case by blast
    qed (auto intro!: fair_quiet)
    with c t show ?thesis by simp
  qed
  then show ?thesis by (simp add: interfered_def call_kept)
qed

lemma delete_kept:
  assumes "normalize_ref m \<notin> cells"
  shows "keeps (kept L) (onB (delete_ref (interfered B) m))"
proof -
  have "inv (snd (delete_ref B m s)) \<and> dom (objs s) \<subseteq> dom (objs (snd (delete_ref B m s))) \<and>
    fair_call refs cells permitted (s, snd (delete_ref B m s))" if "inv s" for s
    using cell_delete [OF that prod.collapse [symmetric], of m] assms by (auto intro!: fair_quiet)
  then show ?thesis by (simp add: interfered_def call_kept)
qed

lemma store_kept [intro!]:
  "keeps (kept L) (as_write_blob A blob)" "keeps (kept L) (as_read_ref A n)" "keeps (kept L) (as_read_blob_payload A x)"
  "keeps (kept L) (as_list_refs A p)" "keeps (kept L) (as_load A x)"
  unfolding as_write_blob_def as_read_ref_def as_read_blob_payload_def as_list_refs_def as_load_def collect_refs_def store Let_def option.case
  by (intro keeps_bindS reads_kept write_kept keeps_basic)+

lemma set_ref_kept:
  assumes "digest20 h \<Longrightarrow> valid_oid y" and "normalize_ref m \<notin> cells"
  shows "keeps (kept L) (as_set_ref A m y)"
proof -
  have "keeps (kept L) (set_ref_loop (interfered B) k m y)" for k
    by (induction k) (use assms in \<open>auto intro!: keeps_bindS cas_kept\<close>)
  then show ?thesis by (simp add: as_set_ref_def store)
qed

lemma delete_ref_kept: "normalize_ref m \<notin> cells \<Longrightarrow> keeps (kept L) (as_delete_ref A m)"
  unfolding as_delete_ref_def store option.case by (auto intro!: keeps_catchS delete_kept)

lemma load_payload_kept [intro!]: "keeps (kept L) (load_payload A x)"
  unfolding load_payload_def by (auto intro!: keeps_catchS keeps_bindS)

lemma load_all_kept [intro!]: "keeps (kept L) (load_all A rs)"
  by (induction rs) (auto intro!: keeps_bindS)

lemma kept_seen: "kept L (r, s, others, log) \<Longrightarrow> G (seen s others) \<and> inv (seen s others)"
  using G_inv by (cases others) (auto simp: guar_def seen_def)

lemma kept_restart: "kept L (r, s, others, log) \<Longrightarrow> kept log (r, s, others, log)"
  by (auto simp: guar_def)

lemma kept_bindS: "kept L (snd (m st)) \<Longrightarrow> (\<And>x. keeps (kept L) (f x)) \<Longrightarrow> kept L (snd (bindS m f st))"
  by (cases "m st") (auto simp: bindS_def keeps_def split: sum.splits)

lemma bindS_keptE:
  assumes "bindS m f st = (Inr v, st')" and "keeps (kept L) m" and "kept L st"
  obtains u st1 where "m st = (Inr u, st1)" "kept L st1" "f u st1 = (Inr v, st')"
proof -
  obtain u st1 where "m st = (Inr u, st1)" "f u st1 = (Inr v, st')" using assms(1) by (auto simp: bindS_Inr_iff)
  then show ?thesis using that keepsD [OF assms(2,3)] by auto
qed

text \<open>What a reference, and a document, are found to be is what they are at that moment.\<close>

lemma read_ref_seen:
  assumes "kept L (r, s, others, log)" and "as_read_ref A n (r, s, others, log) = (Inr e, st')"
  shows "refs (seen s others) (normalize_ref n) = e"
proof -
  obtain s2 where "read_ref B n (seen s others) = (Inr e, s2)"
    using assms(2) interfere_result [of "read_ref B n" r s others log] by (auto simp: as_read_ref_def store interfered_def seen_def)
  with cell_ref kept_seen [OF assms(1)] show ?thesis by auto
qed

lemma load_doc:
  assumes "kept L st" and "as_load A x st = (Inr (JObj d), st')"
  shows "doc_at h x d"
proof -
  obtain r s others log where st: "st = (r, s, others, log)" by (cases st) auto
  from assms(2) obtain b st1 p where b: "onB (interfere (read_object B x)) st = (Inr b, st1)"
    "parse_canonical_object b = Inr (''blob'', p)" "is_str p" "loads p = Inr (JObj d)"
    by (auto simp: as_load_def as_read_blob_payload_def store interfered_def bindS_Inr_iff liftR_def split: if_splits)
  obtain s2 where "read_object B x (seen s others) = (Inr b, s2)"
    using interfere_result [OF b(1) [unfolded st]] unfolding seen_def by blast
  with kept_seen [OF assms(1) [unfolded st]] show ?thesis using read_sound b(2-) unfolding doc_at_def by blast
qed

lemma load_payload_doc:
  assumes "kept L st" and "load_payload A x st = (Inr (Some d), st')"
  shows "doc_at h x d"
proof (rule load_doc [OF assms(1)])
  show "as_load A x st = (Inr (JObj d), st')"
    using assms(2) by (auto simp: load_payload_def catchS_def bindS_def as_obj_def split: prod.splits sum.splits if_splits json.splits)
qed

text \<open>A compare-and-swap that succeeds is in the log of every operation that goes on from there.\<close>

lemma cas_moves:
  assumes "kept L st" and "as_cas_ref A n e y st = (Inr True, st')" and "digest20 h \<Longrightarrow> valid_oid y"
    and "normalize_ref n \<in> cells \<Longrightarrow> permitted (normalize_ref n) e y"
  obtains L' where "kept L' st'" "\<And>log. set L' \<subseteq> set log \<Longrightarrow> swapped G refs (normalize_ref n) e y log"
proof -
  obtain r s others log where st: "st = (r, s, others, log)" by (cases st) auto
  let ?s = "seen s others"
  have cas: "onB (interfere (cas_ref B n e y)) st = (Inr True, st')"
    using assms(2) by (simp add: as_cas_ref_def store interfered_def)
  obtain t where t: "cas_ref B n e y ?s = (Inr True, t)" "st' = (r, t, tl others, log @ [(?s, t)])"
    using interfere_result [OF cas [unfolded st]] unfolding seen_def by blast
  have g: "G ?s" "digest20 h" "inv ?s" using kept_seen [OF assms(1) [unfolded st]] G_inv by blast+
  have "refs ?s (normalize_ref n) = e" "refs t (normalize_ref n) = Some y"
    using cell_cas [OF g(3) assms(3) [OF g(2)] t(1)] by auto
  then have sw: "swapped G refs (normalize_ref n) e y l" if "set (log @ [(?s, t)]) \<subseteq> set l" for l
    using that g(1) unfolding swapped_def by auto
  have "kept L st'"
    using keepsD [OF cas_kept [where m = n and e = e, OF assms(3,4)] assms(1)] cas by (simp add: interfered_def)
  then have "kept (log @ [(?s, t)]) st'" unfolding t(2) by (rule kept_restart)
  with sw that show ?thesis by blast
qed

end

section \<open>A store that runs alone\<close>

context backend
begin

lemma write_blob_done:
  assumes "inv s" and "blob = blob_from_data h data" and "A = actions_store h (Some B) tries q"
  shows "\<exists>t. as_write_blob A blob (r, s) = (Inr (), r, t) \<and> inv t \<and> refs t = refs s \<and> blob_id blob \<in> dom (objs t) \<and>
    dom (objs s) \<subseteq> dom (objs t)"
proof -
  let ?x = "blob_id blob" and ?d = "blob_canonical blob"
  have st: "storable h (?x, ?d)"
    using parse_canonical_canonical [of "''blob''" data]
    by (simp add: storable_def git_object_def assms(2) blob_from_data_def blob_canonical_def object_id_def wf_kind_def is_str_def)
  obtain t where w: "write_object B ?x ?d s = (Inr (), t)" using write_ok [OF assms(1) st] by (metis prod.collapse)
  have t: "inv t" "refs t = refs s" "dom (objs s) \<subseteq> dom (objs t)" using write_grown [OF assms(1), of ?x ?d] w by (auto simp: grown_def)
  have "?x \<in> dom (objs t)" using write_sound [OF assms(1) w] by simp
  with w t show ?thesis by (intro exI [of _ t]) (simp add: assms(3) as_write_blob_def actions_store_def onB_def)
qed

lemma set_ref_done:
  assumes "inv s" and "good_ref n" and "valid_oid x" and "0 < tries" and "A = actions_store h (Some B) tries q"
  shows "\<exists>t. as_set_ref A n x (r, s) = (Inr (), r, t) \<and> inv t \<and> objs t = objs s \<and> refs t = (refs s)(normalize_ref n \<mapsto> x)"
proof -
  obtain s1 where r1: "read_ref B n s = (Inr (refs s (normalize_ref n)), s1)"
    using read_ref_eq [OF assms(1,2)] by (metis prod.collapse)
  have s1: "inv s1" "objs s1 = objs s" "refs s1 = refs s" using ref_same [OF assms(1), of n] r1 by (auto simp: same_def)
  obtain s2 where c: "cas_ref B n (refs s (normalize_ref n)) x s1 = (Inr True, s2)"
    using cas_ref_eq(1) [OF s1(1) assms(2,3), of "refs s (normalize_ref n)"] s1(3) by (metis prod.collapse)
  have s2: "inv s2" "objs s2 = objs s1" "refs s2 = (refs s)(normalize_ref n \<mapsto> x)"
    using cas_sound [OF s1(1) assms(2,3) c] s1(3) by auto
  obtain k where "tries = Suc k" using assms(4) by (cases tries) auto
  then show ?thesis using r1 c s2 s1(2)
    by (intro exI [of _ s2]) (simp add: assms(5) as_set_ref_def actions_store_def bindS_def onB_def returnS_def)
qed

end

section \<open>Instances\<close>

text \<open>A store that holds one document, under a hash that tells it from all other bytes.\<close>

definition doc_bytes :: "payload \<Rightarrow> bytes" where
  "doc_bytes d = canonical_object ''blob'' (dumps compact (JObj d))"

definition one_hash :: "payload \<Rightarrow> hash" where
  "one_hash d b = replicate 20 (if b = doc_bytes d then CHR 0x11 else CHR 0x22)"

definition one_doc :: "string \<Rightarrow> payload \<Rightarrow> Memory" where
  "one_doc n d = memory_init\<lparr>m_objects := [(from_bytes (one_hash d) (doc_bytes d), doc_bytes d)],
     m_refs := [(n, from_bytes (one_hash d) (doc_bytes d))]\<rparr>"

lemma one_hash_eq: "from_bytes (one_hash d) b = from_bytes (one_hash d) (doc_bytes d) \<longleftrightarrow> b = doc_bytes d"
proof (cases "b = doc_bytes d")
  case False
  have "hex_bytes (replicate 20 (CHR 0x22)) \<noteq> hex_bytes (replicate 20 (CHR 0x11))" by code_simp
  with False show ?thesis by (simp add: from_bytes_def one_hash_def)
qed simp

lemma doc_bytes_parse:
  assumes "ascii_json (JObj d)"
  shows "parse_canonical_object (doc_bytes d) = Inr (''blob'', dumps compact (JObj d))" "is_str (dumps compact (JObj d))"
    "loads (dumps compact (JObj d)) = Inr (JObj d)"
proof -
  show "parse_canonical_object (doc_bytes d) = Inr (''blob'', dumps compact (JObj d))"
    unfolding doc_bytes_def by (rule parse_canonical_canonical) code_simp
  show "is_str (dumps compact (JObj d))" using ascii_dumps [OF assms] by (rule is_str_ascii)
  show "loads (dumps compact (JObj d)) = Inr (JObj d)" using assms by (rule loads_dumps_sep) simp
qed

lemma one_doc_ok:
  assumes "ascii_json (JObj d)"
  shows "digest20 (one_hash d)" "memory_inv (one_hash d) (one_doc n d)"
    "doc_at (one_hash d) (from_bytes (one_hash d) (doc_bytes d)) d' \<longleftrightarrow> d' = d"
    "memory_refs (one_doc n d) n = Some (from_bytes (one_hash d) (doc_bytes d))"
    "from_bytes (one_hash d) (doc_bytes d) \<in> dom (memory_objs (one_doc n d))"
proof -
  show "doc_at (one_hash d) (from_bytes (one_hash d) (doc_bytes d)) d' \<longleftrightarrow> d' = d"
    unfolding doc_at_def one_hash_eq using doc_bytes_parse [OF assms] by auto
qed (auto simp: digest20_def one_hash_def one_doc_def memory_inv_def memory_init_def wf_dict_def)

end
