(* ===== verification/GitHelper.thy ===== *)
theory GitHelper
  imports Cells
begin

text \<open>
  \<^verbatim>\<open>src/trunks/remote_helper.py\<close>: the helper process that Git starts for \<^verbatim>\<open>trunks://\<close> remotes. It reads commands of
  Git's remote helper protocol, fetches by walking the objects of the store breadth first, and pushes by
  uploading what \<^verbatim>\<open>git rev-list\<close> names and swapping the reference.

  The \<^verbatim>\<open>git\<close> executable is not part of the sources: \<open>git_run\<close> runs it on an argument list and standard input and
  gives its exit status, standard output and standard error. The queueing of local workflows after a push,
  which happens in another repository and whose failure is only reported, is the argument \<open>queue\<close>. The
  clock and the names of temporary directories are fields of the record \<open>Helper\<close>. The loop over the queue of a
  fetch is bounded by an argument.
\<close>

section \<open>Bytes and text\<close>

text \<open>\<^verbatim>\<open>bytes.decode\<close> with the \<^verbatim>\<open>ascii\<close> codec, and decoding that replaces what is invalid by U+FFFD: the longest
  prefix of a sequence gives one replacement character.\<close>

definition decode_ascii :: "bytes \<Rightarrow> string res" where
  "decode_ascii b = (if list_all (\<lambda>c. ordc c < 128) b then Inr b else Inl UnicodeDecodeError)"

definition FFFD :: string where
  "FFFD = [CHR 0xEF, CHR 0xBF, CHR 0xBD]"

definition ascii_replace :: "bytes \<Rightarrow> string" where
  "ascii_replace b = concat (map (\<lambda>c. if ordc c < 128 then [c] else FFFD) b)"

definition utf8_tail :: "nat \<Rightarrow> (nat \<times> nat) list" where
  "utf8_tail n =
    (if 194 \<le> n \<and> n \<le> 223 then [(128, 191)]
     else if n = 224 then [(160, 191), (128, 191)]
     else if n = 237 then [(128, 159), (128, 191)]
     else if 225 \<le> n \<and> n \<le> 239 then [(128, 191), (128, 191)]
     else if n = 240 then [(144, 191), (128, 191), (128, 191)]
     else if 241 \<le> n \<and> n \<le> 243 then [(128, 191), (128, 191), (128, 191)]
     else if n = 244 then [(128, 143), (128, 191), (128, 191)]
     else [])"

fun tail_match :: "(nat \<times> nat) list \<Rightarrow> bytes \<Rightarrow> nat" where
  "tail_match ((lo, hi) # rs) (c # cs) = (if lo \<le> ordc c \<and> ordc c \<le> hi then Suc (tail_match rs cs) else 0)"
| "tail_match _ _ = 0"

function utf8_replace :: "bytes \<Rightarrow> string" where
  "utf8_replace [] = []"
| "utf8_replace (c # cs) =
    (if ordc c < 128 then c # utf8_replace cs
     else let tail = utf8_tail (ordc c); n = tail_match tail cs
       in (if tail \<noteq> [] \<and> n = length tail then c # take n cs else FFFD) @ utf8_replace (drop n cs))"
  by pat_completeness auto
termination by (relation "measure length") auto

text \<open>\<^verbatim>\<open>text=True\<close>: the output is decoded and line ends become LF.\<close>

fun universal_newlines :: "string \<Rightarrow> string" where
  "universal_newlines [] = []"
| "universal_newlines [c] = (if ordc c = 13 then [NL] else [c])"
| "universal_newlines (c # d # cs) =
    (if ordc c = 13 then NL # universal_newlines (if d = NL then cs else d # cs) else c # universal_newlines (d # cs))"

text \<open>\<^verbatim>\<open>repr\<close> of a byte string.\<close>

definition repr_byte :: "char \<Rightarrow> char \<Rightarrow> string" where
  "repr_byte q c =
    (if c = q \<or> c = BSLASH then [BSLASH, c]
     else if ordc c = 9 then BSLASH # ''t'' else if c = NL then BSLASH # ''n'' else if ordc c = 13 then BSLASH # ''r''
     else if ordc c < 32 \<or> 127 \<le> ordc c then BSLASH # CHR ''x'' # hex_bytes [c] else [c])"

definition repr_bytes :: "bytes \<Rightarrow> string" where
  "repr_bytes b =
    (let q = (if CHR 0x27 \<in> set b \<and> CHR 0x22 \<notin> set b then CHR 0x22 else CHR 0x27)
     in CHR ''b'' # q # concat (map (repr_byte q) b) @ [q])"

section \<open>What an object refers to\<close>

definition commit_line_ref :: "bytes \<Rightarrow> ObjectId list res" where
  "commit_line_ref line =
    (let oid = (\<lambda>n. bindR (decode_ascii (strip_by is_bspace (drop n line))) (\<lambda>t. bindR (mk_ObjectId t) (\<lambda>x. Inr [x])))
     in if startswith line ''tree '' then oid 5 else if startswith line ''parent '' then oid 7 else Inr [])"

definition commit_refs :: "bytes \<Rightarrow> ObjectId list res" where
  "commit_refs body = bindR (mapR commit_line_ref (takeWhile (\<lambda>l. l \<noteq> []) (split_on NL body))) (\<lambda>xs. Inr (concat xs))"

function tree_refs :: "bytes \<Rightarrow> ObjectId list" where
  "tree_refs rest =
    (case split1 [SP] rest of
       None \<Rightarrow> []
     | Some (_, b) \<Rightarrow>
       (case split1 [NUL] b of
          None \<Rightarrow> []
        | Some (_, c) \<Rightarrow>
          if length (take 20 c) \<noteq> 20 then [] else ObjectId (hex_bytes (take 20 c)) # tree_refs (drop 20 c)))"
  by pat_completeness auto
termination
  by (relation "measure length") (auto dest!: split1_Some split: if_splits)

declare tree_refs.simps [simp del]

definition tag_refs :: "bytes \<Rightarrow> ObjectId list res" where
  "tag_refs body =
    (case filter (\<lambda>l. startswith l ''object '') (takeWhile (\<lambda>l. l \<noteq> []) (split_on NL body)) of
       [] \<Rightarrow> Inr []
     | line # _ \<Rightarrow> bindR (decode_ascii (strip_by is_bspace (drop 7 line))) (\<lambda>t. bindR (mk_ObjectId t) (\<lambda>x. Inr [x])))"

definition referenced_shas :: "bytes \<Rightarrow> ObjectId list res" where
  "referenced_shas data =
    (case split1 [NUL] data of
       None \<Rightarrow> Inl (ValueError ''subsection not found'')
     | Some (head, body) \<Rightarrow>
       bindR (decode_ascii head) (\<lambda>header.
       let type_str = hd (split_on SP header)
       in if type_str = ''commit'' then commit_refs body
          else if type_str = ''tree'' then Inr (tree_refs body)
          else if type_str = ''tag'' then tag_refs body
          else Inr []))"

section \<open>The git program\<close>

record 'g git =
  git_run :: "string list \<Rightarrow> bytes \<Rightarrow> 'g \<Rightarrow> (int \<times> bytes \<times> bytes) \<times> 'g"
  git_rmtree :: "string \<Rightarrow> 'g \<Rightarrow> 'g"

record Helper =
  hp_remote_name :: string
  hp_git_dir :: string
  hp_git_bin :: string
  hp_repo_name :: string
  hp_pusher :: string
  hp_now :: "string \<Rightarrow> ObjectId \<Rightarrow> datetime"
  hp_tmp :: "ObjectId \<Rightarrow> string"

record 'g helper_state =
  hs_git :: 'g
  hs_options :: "(string, string) dict"
  hs_out :: string

type_synonym ('g, 's, 'a) helper = "('g helper_state \<times> 's, 'a) st"

definition helper_write :: "string \<Rightarrow> ('g, 's, unit) helper" where
  "helper_write text = modifyS (\<lambda>(w, s). (w\<lparr>hs_out := hs_out w @ text\<rparr>, s))"

definition git_process :: "'g git \<Rightarrow> string list \<Rightarrow> bytes \<Rightarrow> ('g, 's, int \<times> bytes \<times> bytes) helper" where
  "git_process G argv stdin = (\<lambda>(w, s). case git_run G argv stdin (hs_git w) of (r, g) \<Rightarrow> (Inr r, (w\<lparr>hs_git := g\<rparr>, s)))"

text \<open>\<^verbatim>\<open>check=True\<close>\<close>

definition git_checked :: "'g git \<Rightarrow> string list \<Rightarrow> bytes \<Rightarrow> ('g, 's, bytes) helper" where
  "git_checked G argv stdin =
    bindS (git_process G argv stdin) (\<lambda>(rc, out, err).
    if rc = 0 then returnS out
    else raiseS (CalledProcessError (''Command '' @ [CHR 0x27] @ ''['' @ join '', '' (map repr_str argv) @ '']'' @ [CHR 0x27] @
      '' returned non-zero exit status '' @ int_str rc @ ''.'') err))"

definition git_argv :: "Helper \<Rightarrow> string \<Rightarrow> string list \<Rightarrow> string list" where
  "git_argv H dir args = [hp_git_bin H, ''--git-dir'', dir] @ args"

definition git_has_object :: "'g git \<Rightarrow> Helper \<Rightarrow> string \<Rightarrow> ('g, 's, bool) helper" where
  "git_has_object G H oid =
    bindS (git_process G (git_argv H (hp_git_dir H) [''cat-file'', ''-e'', oid]) []) (\<lambda>(rc, _, _). returnS (rc = 0))"

text \<open>What \<^verbatim>\<open>_git_cat_file_raw\<close> makes of the output. \<open>slice_to\<close> is \<^verbatim>\<open>out[nl + 1 : nl + 1 + size]\<close>, where the size may be
  negative.\<close>

definition slice_to :: "bytes \<Rightarrow> bytes \<Rightarrow> int \<Rightarrow> bytes" where
  "slice_to head rest n =
    (let nl1 = int (length head) + 1
     in if 0 \<le> n then take (nat n) rest
        else if 0 \<le> nl1 + n then [] else take (nat (nl1 + int (length rest) + n)) rest)"

definition cat_file_result :: "hash \<Rightarrow> bool \<Rightarrow> ObjectId \<Rightarrow> int \<Rightarrow> bytes \<Rightarrow> bytes \<Rightarrow> bytes option res" where
  "cat_file_result h allow_missing oid rc out err =
    (let absent = (\<lambda>msg. if allow_missing then Inr None else Inl (RuntimeError msg)); v = oid_value oid
     in if rc \<noteq> 0 then absent (''cat-file failed for '' @ v @ '': '' @ repr_bytes err)
        else if out = [] then absent (''cat-file empty output for '' @ v)
        else case split1 [NL] out of
          None \<Rightarrow> absent (''cat-file malformed output for '' @ v)
        | Some (head, rest) \<Rightarrow>
          (let header = ascii_replace head; parts = split_on SP header
           in if 2 \<le> length parts \<and> parts ! 1 = ''missing'' then absent (''object missing locally: '' @ v)
              else if length parts < 3 then Inl (RuntimeError (''unexpected cat-file header: '' @ repr_str header))
              else bindR (py_int (parts ! 2)) (\<lambda>size.
                if \<not> list_all (\<lambda>c. ordc c < 128) (parts ! 1) then Inl (ValueError ''ordinal not in range(128)'')
                else let data = parts ! 1 @ [SP] @ int_str size @ [NUL] @ slice_to head rest size
                  in if hex_bytes (h data) \<noteq> v then Inl (RuntimeError (''object hash mismatch for '' @ v)) else Inr (Some data))))"

definition git_cat_file_raw :: "hash \<Rightarrow> 'g git \<Rightarrow> Helper \<Rightarrow> bool \<Rightarrow> ObjectId \<Rightarrow> ('g, 's, bytes option) helper" where
  "git_cat_file_raw h G H allow_missing oid =
    bindS (git_process G (git_argv H (hp_git_dir H) [''cat-file'', ''--batch'']) (oid_value oid @ [NL])) (\<lambda>(rc, out, err).
    liftR (cat_file_result h allow_missing oid rc out err))"

definition git_rev_parse :: "'g git \<Rightarrow> Helper \<Rightarrow> string \<Rightarrow> ('g, 's, string) helper" where
  "git_rev_parse G H ref =
    bindS (git_process G (git_argv H (hp_git_dir H) [''rev-parse'', ''--verify'', ref]) []) (\<lambda>(rc, out, err).
    bindS (liftR (decode_utf8 out)) (\<lambda>out.
    bindS (liftR (decode_utf8 err)) (\<lambda>err.
    if rc \<noteq> 0 then raiseS (RuntimeError (''could not resolve '' @ repr_str ref @ '': '' @ strip_by is_space (universal_newlines err)))
    else returnS (strip_by is_space (universal_newlines out)))))"

definition is_ancestor :: "'g git \<Rightarrow> Helper \<Rightarrow> ObjectId \<Rightarrow> ObjectId \<Rightarrow> ('g, 's, bool) helper" where
  "is_ancestor G H ancestor descendant =
    bindS (git_process G (git_argv H (hp_git_dir H) [''merge-base'', ''--is-ancestor'', oid_value ancestor, oid_value descendant]) [])
      (\<lambda>(rc, _, _). returnS (rc = 0))"

fun git_known :: "'g git \<Rightarrow> Helper \<Rightarrow> string list \<Rightarrow> ('g, 's, string list) helper" where
  "git_known G H [] = returnS []"
| "git_known G H (x # xs) =
    bindS (git_has_object G H x) (\<lambda>known.
    bindS (git_known G H xs) (\<lambda>rest. returnS (if known then x # rest else rest)))"

text \<open>The decoding with replacement is left out: it changes only bytes of file names, which are dropped.\<close>

definition rev_list_ids :: "bytes \<Rightarrow> ObjectId list res" where
  "rev_list_ids out = mapR (\<lambda>line. mk_ObjectId (hd (split_on SP line))) (filter (\<lambda>line. line \<noteq> []) (splitlines out))"

definition git_rev_list_objects :: "'g git \<Rightarrow> Helper \<Rightarrow> string \<Rightarrow> string list \<Rightarrow> ('g, 's, ObjectId list) helper" where
  "git_rev_list_objects G H head excludes =
    bindS (git_known G H excludes) (\<lambda>known.
    bindS (git_checked G (git_argv H (hp_git_dir H) ([''rev-list'', ''--objects'', head] @ map (\<lambda>x. CHR ''^'' # x) known)) []) (\<lambda>out.
    liftR (rev_list_ids out)))"

section \<open>Fetching\<close>

definition stage_object :: "'g git \<Rightarrow> Helper \<Rightarrow> string \<Rightarrow> ObjectId \<times> bytes \<Rightarrow> ('g, 's, unit) helper" where
  "stage_object G H dir obj =
    (case obj of (oid, data) \<Rightarrow>
      bindS (liftR (parse_canonical_object data)) (\<lambda>(kind, payload).
      bindS (git_checked G (git_argv H dir [''hash-object'', ''-w'', ''-t'', kind, ''--stdin'']) payload) (\<lambda>out.
      bindS (liftR (decode_ascii out)) (\<lambda>text.
      if strip_by is_space text \<noteq> oid_value oid
      then raiseS (RuntimeError (''object hash mismatch while staging '' @ oid_value oid @ '': got '' @ strip_by is_space text))
      else returnS ()))))"

text \<open>The temporary directory is removed however the block ends.\<close>

definition with_tempdir :: "'g git \<Rightarrow> string \<Rightarrow> ('g, 's, 'a) helper \<Rightarrow> ('g, 's, 'a) helper" where
  "with_tempdir G tmp m = (\<lambda>st. case m st of (r, (w, s)) \<Rightarrow> (r, (w\<lparr>hs_git := git_rmtree G tmp (hs_git w)\<rparr>, s)))"

definition install_objects_via_pack :: "'g git \<Rightarrow> Helper \<Rightarrow> string \<Rightarrow> (ObjectId, bytes) dict \<Rightarrow> ('g, 's, unit) helper" where
  "install_objects_via_pack G H tmp objects =
    with_tempdir G tmp
      (let temp_git_dir = tmp @ ''/.git''
       in bindS (git_checked G [hp_git_bin H, ''init'', ''--bare'', ''-q'', temp_git_dir] []) (\<lambda>_.
          bindS (iterS (stage_object G H temp_git_dir) objects) (\<lambda>_.
          bindS (git_checked G (git_argv H temp_git_dir [''pack-objects'', ''--stdout'']) (join [NL] (map (oid_value \<circ> fst) objects) @ [NL])) (\<lambda>pack.
          bindS (git_checked G (git_argv H (hp_git_dir H) [''index-pack'', ''--stdin'']) pack) (\<lambda>_. returnS ())))))"

fun fetch_queue :: "hash \<Rightarrow> 'g git \<Rightarrow> 's Backend \<Rightarrow> Helper \<Rightarrow> nat \<Rightarrow> ObjectId list \<Rightarrow> string list \<Rightarrow> (ObjectId, bytes) dict \<Rightarrow>
    ('g, 's, (ObjectId, bytes) dict) helper" where
  "fetch_queue h G B H n [] visited objects = returnS objects"
| "fetch_queue h G B H 0 (oid # queue) visited objects = raiseS (RuntimeError ''queue not empty'')"
| "fetch_queue h G B H (Suc n) (oid # queue) visited objects =
    (if oid_value oid \<in> set visited then fetch_queue h G B H n queue visited objects
     else
      bindS (git_has_object G H (oid_value oid)) (\<lambda>local.
      if local then
        bindS (git_cat_file_raw h G H True oid) (\<lambda>data.
        case data of
          None \<Rightarrow> fetch_queue h G B H n queue (oid_value oid # visited) objects
        | Some data \<Rightarrow>
          bindS (liftR (referenced_shas data)) (\<lambda>children.
          fetch_queue h G B H n (queue @ children) (oid_value oid # visited) objects))
      else
        bindS (catchS (onB (read_object B oid))
          (\<lambda>e. if is_object_not_found e then raiseS (RuntimeError (''missing object in storage: '' @ oid_value oid)) else raiseS e)) (\<lambda>data.
        bindS (liftR (referenced_shas data)) (\<lambda>children.
        fetch_queue h G B H n (queue @ children) (oid_value oid # visited) (AList.update oid data objects)))))"

definition helper_fetch_closure :: "hash \<Rightarrow> 'g git \<Rightarrow> 's Backend \<Rightarrow> Helper \<Rightarrow> nat \<Rightarrow> ObjectId \<Rightarrow> ('g, 's, unit) helper" where
  "helper_fetch_closure h G B H n head =
    bindS (fetch_queue h G B H n [head] [] []) (\<lambda>objects.
    if objects = [] then returnS () else install_objects_via_pack G H (hp_tmp H head) objects)"

definition fetch_spec :: "hash \<Rightarrow> 'g git \<Rightarrow> 's Backend \<Rightarrow> Helper \<Rightarrow> nat \<Rightarrow> string \<Rightarrow> ('g, 's, unit) helper" where
  "fetch_spec h G B H n spec =
    (let sha = hd (split_on SP spec)
     in if sha = [] then returnS () else bindS (liftR (mk_ObjectId sha)) (helper_fetch_closure h G B H n))"

definition respond_fetch :: "hash \<Rightarrow> 'g git \<Rightarrow> 's Backend \<Rightarrow> Helper \<Rightarrow> nat \<Rightarrow> string list \<Rightarrow> ('g, 's, unit) helper" where
  "respond_fetch h G B H n specs = bindS (iterS (fetch_spec h G B H n) specs) (\<lambda>_. helper_write [NL])"

section \<open>Pushing\<close>

definition reply_ok :: "string \<Rightarrow> string" where
  "reply_ok dst = ''ok '' @ dst"

definition reply_error :: "string \<Rightarrow> string \<Rightarrow> string" where
  "reply_error dst why = ''error '' @ dst @ '' '' @ why"

definition push_delete :: "'s Backend \<Rightarrow> string \<Rightarrow> ('g, 's, string) helper" where
  "push_delete B dst =
    bindS (onB (read_ref B dst)) (\<lambda>current.
    if current = None then returnS (reply_ok dst)
    else catchS (bindS (onB (delete_ref B dst)) (\<lambda>_. returnS (reply_ok dst)))
      (\<lambda>e. case e of NotImplementedError _ \<Rightarrow> returnS (reply_error dst ''delete-not-supported'') | _ \<Rightarrow> raiseS e))"

definition push_excludes :: "'s Backend \<Rightarrow> string \<Rightarrow> ObjectId option \<Rightarrow> ('g, 's, string list) helper" where
  "push_excludes B dst current =
    bindS (onB (list_refs B ''refs/'')) (\<lambda>rs.
    returnS ((case current of None \<Rightarrow> [] | Some c \<Rightarrow> [oid_value c]) @
      concat (map (\<lambda>r. case ref_oid r of
          None \<Rightarrow> []
        | Some x \<Rightarrow> if ref_name r = dst \<or> startswith (ref_name r) ''refs/actions/'' then [] else [oid_value x]) rs)))"

text \<open>The upload gives the reason when it stops.\<close>

fun push_upload :: "hash \<Rightarrow> 'g git \<Rightarrow> 's Backend \<Rightarrow> Helper \<Rightarrow> ObjectId list \<Rightarrow> ('g, 's, string option) helper" where
  "push_upload h G B H [] = returnS None"
| "push_upload h G B H (oid # oids) =
    bindS (onB (has_object B oid)) (\<lambda>present.
    if present then push_upload h G B H oids
    else
      bindS (git_cat_file_raw h G H False oid) (\<lambda>data.
      case data of
        None \<Rightarrow> returnS (Some (''object-missing-locally:'' @ oid_value oid))
      | Some data \<Rightarrow> bindS (onB (write_object B oid data)) (\<lambda>_. push_upload h G B H oids)))"

definition push_swap_ref :: "'s Backend \<Rightarrow> bool \<Rightarrow> string \<Rightarrow> ObjectId option \<Rightarrow> ObjectId \<Rightarrow> ('g, 's, string option) helper" where
  "push_swap_ref B force dst current new_oid =
    bindS (onB (cas_ref B dst current new_oid)) (\<lambda>swapped.
    if swapped then returnS None
    else if force then
      bindS (onB (read_ref B dst)) (\<lambda>fresh.
      bindS (onB (cas_ref B dst fresh new_oid)) (\<lambda>swapped.
      returnS (if swapped then None else Some ''cas-conflict'')))
    else returnS (Some ''non-fast-forward''))"

definition push_trigger_payload :: "Helper \<Rightarrow> string \<Rightarrow> ObjectId \<Rightarrow> json" where
  "push_trigger_payload H ref oid =
    JObj ([(''_schema_version'', JStr ''trunks.actions.push_trigger.v1''), (''object'', JStr ''push_trigger''),
           (''repo'', JStr (hp_repo_name H)), (''remote'', JStr (hp_remote_name H)), (''ref'', JStr ref),
           (''commit'', JStr (oid_value oid)), (''pusher_id'', JStr (hp_pusher H)),
           (''created_at'', JStr (isoformat (hp_now H ref oid)))] @
      (if startswith ref ''refs/heads/'' then [(''branch'', JStr (drop (length ''refs/heads/'') ref))]
       else if startswith ref ''refs/tags/'' then [(''tag'', JStr (drop (length ''refs/tags/'') ref))] else []))"

definition trigger_ref :: "Helper \<Rightarrow> ObjectId \<Rightarrow> string" where
  "trigger_ref H oid = ''refs/actions/repos/'' @ hp_repo_name H @ ''/triggers/push/'' @ oid_value oid"

definition write_push_trigger :: "hash \<Rightarrow> 's Backend \<Rightarrow> Helper \<Rightarrow> string \<Rightarrow> ObjectId \<Rightarrow> ('g, 's, unit) helper" where
  "write_push_trigger h B H ref oid =
    (if startswith ref ''refs/actions/'' then returnS ()
     else let blob = blob_from_data h (dumps compact (sort_keys (push_trigger_payload H ref oid)))
       in bindS (onB (write_object B (blob_id blob) (blob_canonical blob))) (\<lambda>_.
          bindS (onB (read_ref B (trigger_ref H oid))) (\<lambda>current.
          bindS (onB (cas_ref B (trigger_ref H oid) current (blob_id blob))) (\<lambda>_. returnS ()))))"

text \<open>Local workflows are queued for branches and tags, and a failure there is only reported.\<close>

definition queue_push_workflows :: "(string \<Rightarrow> ObjectId \<Rightarrow> ('g, 's, unit) helper) \<Rightarrow> string \<Rightarrow> ObjectId \<Rightarrow> ('g, 's, unit) helper" where
  "queue_push_workflows queue ref oid =
    (if startswith ref ''refs/heads/'' \<or> startswith ref ''refs/tags/'' then catchS (queue ref oid) (\<lambda>_. returnS ()) else returnS ())"

definition push_objects :: "hash \<Rightarrow> 'g git \<Rightarrow> 's Backend \<Rightarrow> Helper \<Rightarrow> (string \<Rightarrow> ObjectId \<Rightarrow> ('g, 's, unit) helper) \<Rightarrow> bool \<Rightarrow> string \<Rightarrow>
    ObjectId option \<Rightarrow> ObjectId \<Rightarrow> ObjectId list \<Rightarrow> ('g, 's, string) helper" where
  "push_objects h G B H queue force dst current new_oid objects =
    bindS (push_upload h G B H objects) (\<lambda>stop.
    case stop of
      Some why \<Rightarrow> returnS (reply_error dst why)
    | None \<Rightarrow>
      bindS (push_swap_ref B force dst current new_oid) (\<lambda>stop.
      case stop of
        Some why \<Rightarrow> returnS (reply_error dst why)
      | None \<Rightarrow>
        bindS (write_push_trigger h B H dst new_oid) (\<lambda>_.
        bindS (queue_push_workflows queue dst new_oid) (\<lambda>_. returnS (reply_ok dst)))))"

definition push_collect :: "hash \<Rightarrow> 'g git \<Rightarrow> 's Backend \<Rightarrow> Helper \<Rightarrow> (string \<Rightarrow> ObjectId \<Rightarrow> ('g, 's, unit) helper) \<Rightarrow> bool \<Rightarrow> string \<Rightarrow>
    ObjectId option \<Rightarrow> ObjectId \<Rightarrow> ('g, 's, string) helper" where
  "push_collect h G B H queue force dst current new_oid =
    bindS (push_excludes B dst current) (\<lambda>excludes.
    bindS (catchS (bindS (git_rev_list_objects G H (oid_value new_oid) excludes) (\<lambda>objects. returnS (Inr objects)))
      (\<lambda>e. case e of CalledProcessError _ err \<Rightarrow> returnS (Inl (''rev-list-failed: '' @ strip_by is_space (utf8_replace err))) | _ \<Rightarrow> raiseS e)) (\<lambda>objects.
    case objects of
      Inl why \<Rightarrow> returnS (reply_error dst why)
    | Inr objects \<Rightarrow> push_objects h G B H queue force dst current new_oid objects))"

definition push_update_ref :: "hash \<Rightarrow> 'g git \<Rightarrow> 's Backend \<Rightarrow> Helper \<Rightarrow> (string \<Rightarrow> ObjectId \<Rightarrow> ('g, 's, unit) helper) \<Rightarrow> bool \<Rightarrow> string \<Rightarrow>
    ObjectId \<Rightarrow> ('g, 's, string) helper" where
  "push_update_ref h G B H queue force dst new_oid =
    bindS (onB (read_ref B dst)) (\<lambda>current.
    bindS (case current of Some c \<Rightarrow> if force then returnS True else is_ancestor G H c new_oid | None \<Rightarrow> returnS True) (\<lambda>forward.
    if \<not> forward then returnS (reply_error dst ''non-fast-forward'')
    else bindS (getsS (\<lambda>(w, s). Inr (map_of (hs_options w) ''dry-run''))) (\<lambda>dry.
      if dry = Some ''true'' then returnS (reply_ok dst)
      else push_collect h G B H queue force dst current new_oid)))"

definition push_one :: "hash \<Rightarrow> 'g git \<Rightarrow> 's Backend \<Rightarrow> Helper \<Rightarrow> (string \<Rightarrow> ObjectId \<Rightarrow> ('g, 's, unit) helper) \<Rightarrow> string \<Rightarrow> ('g, 's, string) helper" where
  "push_one h G B H queue spec =
    (let force = startswith spec ''+''; body = (if force then drop 1 spec else spec)
     in case split1 '':'' body of
          None \<Rightarrow> returnS (''error '' @ spec @ '' bad-spec'')
        | Some (src, dst) \<Rightarrow>
          (let dst = normalize_ref dst
           in if src = [] then push_delete B dst
              else bindS (catchS (bindS (git_rev_parse G H src) (\<lambda>t. bindS (liftR (mk_ObjectId t)) (\<lambda>x. returnS (Inr x))))
                  (\<lambda>e. case e of RuntimeError m \<Rightarrow> returnS (Inl m) | _ \<Rightarrow> raiseS e)) (\<lambda>new_oid.
                case new_oid of
                  Inl m \<Rightarrow> returnS (reply_error dst m)
                | Inr new_oid \<Rightarrow> push_update_ref h G B H queue force dst new_oid)))"

fun respond_push_all :: "hash \<Rightarrow> 'g git \<Rightarrow> 's Backend \<Rightarrow> Helper \<Rightarrow> (string \<Rightarrow> ObjectId \<Rightarrow> ('g, 's, unit) helper) \<Rightarrow> string list \<Rightarrow> ('g, 's, string list) helper" where
  "respond_push_all h G B H queue [] = returnS []"
| "respond_push_all h G B H queue (spec # specs) =
    (if spec = [] then respond_push_all h G B H queue specs
     else bindS (push_one h G B H queue spec) (\<lambda>r. bindS (respond_push_all h G B H queue specs) (\<lambda>rs. returnS (r # rs))))"

definition respond_push :: "hash \<Rightarrow> 'g git \<Rightarrow> 's Backend \<Rightarrow> Helper \<Rightarrow> (string \<Rightarrow> ObjectId \<Rightarrow> ('g, 's, unit) helper) \<Rightarrow> string list \<Rightarrow> ('g, 's, unit) helper" where
  "respond_push h G B H queue specs =
    bindS (respond_push_all h G B H queue specs) (\<lambda>responses.
    helper_write (if responses = [] then [NL] else join [NL] responses @ [NL, NL]))"

section \<open>The protocol\<close>

definition list_head :: "(string \<times> string) list \<Rightarrow> string option" where
  "list_head emitted =
    (if list_ex (\<lambda>(name, _). name = ''refs/heads/main'') emitted then Some ''refs/heads/main''
     else map_option fst (List.find (\<lambda>(name, _). startswith name ''refs/heads/'') emitted))"

definition respond_list :: "'s Backend \<Rightarrow> ('g, 's, unit) helper" where
  "respond_list B =
    bindS (onB (list_refs B ''refs/'')) (\<lambda>rs.
    let emitted = sort (concat (map (\<lambda>r. case ref_oid r of
          None \<Rightarrow> [] | Some x \<Rightarrow> if startswith (ref_name r) ''refs/actions/'' then [] else [(ref_name r, oid_value x)]) rs))
    in bindS (onB (read_ref B ''HEAD'')) (\<lambda>head_oid.
       let symref = (if head_oid = None then list_head emitted else None);
           lines = map (\<lambda>(name, oid). oid @ [SP] @ name) emitted @ (case symref of None \<Rightarrow> [] | Some n \<Rightarrow> [''@'' @ n @ '' HEAD''])
       in helper_write (if lines = [] then [NL] else join [NL] lines @ [NL, NL])))"

definition respond_option :: "string \<Rightarrow> ('g, 's, unit) helper" where
  "respond_option rest =
    (let (key, value) = (case split1 '' '' rest of None \<Rightarrow> (rest, []) | Some p \<Rightarrow> p)
     in if key \<in> {''progress'', ''verbosity'', ''check-connectivity'', ''cloning'', ''update-shallow'', ''pushcert'', ''force'', ''deepen'', ''depth'',
                   ''dry-run''}
        then bindS (modifyS (\<lambda>(w, s). (w\<lparr>hs_options := AList.update key value (hs_options w)\<rparr>, s))) (\<lambda>_. helper_write (''ok'' @ [NL]))
        else helper_write (''unsupported'' @ [NL]))"

datatype batch_kind = FetchBatch | PushBatch

fun helper_loop :: "hash \<Rightarrow> 'g git \<Rightarrow> 's Backend \<Rightarrow> Helper \<Rightarrow> (string \<Rightarrow> ObjectId \<Rightarrow> ('g, 's, unit) helper) \<Rightarrow> nat \<Rightarrow>
    batch_kind option \<Rightarrow> string list \<Rightarrow> string list \<Rightarrow> ('g, 's, unit) helper" where
  "helper_loop h G B H queue n kind batch [] = returnS ()"
| "helper_loop h G B H queue n kind batch (raw_line # input) =
    (let line = rstrip_by (\<lambda>c. ordc c = 13) (rstrip_by (\<lambda>c. c = NL) raw_line)
     in if line = [] then
          (case kind of
             Some FetchBatch \<Rightarrow> bindS (respond_fetch h G B H n batch) (\<lambda>_. helper_loop h G B H queue n None [] input)
           | Some PushBatch \<Rightarrow> bindS (respond_push h G B H queue batch) (\<lambda>_. helper_loop h G B H queue n None [] input)
           | None \<Rightarrow> returnS ())
        else
          (let (cmd, rest) = (case split1 '' '' line of None \<Rightarrow> (line, []) | Some p \<Rightarrow> p)
           in if cmd = ''capabilities'' then
                bindS (helper_write (''fetch'' @ [NL] @ ''push'' @ [NL] @ ''option'' @ [NL, NL])) (\<lambda>_. helper_loop h G B H queue n kind batch input)
              else if cmd = ''list'' then bindS (respond_list B) (\<lambda>_. helper_loop h G B H queue n kind batch input)
              else if cmd = ''option'' then bindS (respond_option rest) (\<lambda>_. helper_loop h G B H queue n kind batch input)
              else if cmd = ''fetch'' then helper_loop h G B H queue n (Some FetchBatch) (batch @ [rest]) input
              else if cmd = ''push'' then helper_loop h G B H queue n (Some PushBatch) (batch @ [rest]) input
              else bindS (helper_write [NL]) (\<lambda>_. helper_loop h G B H queue n kind batch input)))"

end
