(* ===== verification/GitModel.thy ===== *)
theory GitModel
  imports GitHelper
begin

text \<open>
  What the remote helper relies on of Git. \<open>git_reader\<close> has the documented behaviour of the commands that read
  (\<^verbatim>\<open>cat-file\<close>, \<^verbatim>\<open>rev-parse\<close>, \<^verbatim>\<open>merge-base\<close>, \<^verbatim>\<open>rev-list\<close>), \<open>git_writer\<close> adds those that write objects
  (\<^verbatim>\<open>init\<close>, \<^verbatim>\<open>hash-object\<close>, \<^verbatim>\<open>pack-objects\<close>, \<^verbatim>\<open>index-pack\<close>). \<open>plain_git\<close> is a small executable implementation of
  these commands, on which the two interfaces are interpreted.

  The laws are about repositories without shallow clones and grafts, at whose boundary \<^verbatim>\<open>rev-list\<close> stops, and about
  \<^verbatim>\<open>init\<close> of a directory that is not a repository yet: the helper calls it on a new temporary directory only.
\<close>

section \<open>What Git means by reachable\<close>

text \<open>The ids that an object of a repository needs: entries of submodules (mode 160000) are not among them.\<close>

function tree_links :: "bytes \<Rightarrow> ObjectId list" where
  "tree_links rest =
    (case split1 [SP] rest of
       None \<Rightarrow> []
     | Some (mode, b) \<Rightarrow>
       (case split1 [NUL] b of
          None \<Rightarrow> []
        | Some (_, c) \<Rightarrow>
          if length (take 20 c) \<noteq> 20 then []
          else (if mode = ''160000'' then [] else [ObjectId (hex_bytes (take 20 c))]) @ tree_links (drop 20 c)))"
  by pat_completeness auto
termination
  by (relation "measure length") (auto dest!: split1_Some split: if_splits)

declare tree_links.simps [simp del]

definition git_links :: "bytes \<Rightarrow> ObjectId set" where
  "git_links d =
    (case parse_canonical_object d of
       Inl _ \<Rightarrow> {}
     | Inr (k, p) \<Rightarrow> if k = ''tree'' then set (tree_links p) else (case referenced_shas d of Inl _ \<Rightarrow> {} | Inr xs \<Rightarrow> set xs))"

definition commit_parents :: "bytes \<Rightarrow> ObjectId set" where
  "commit_parents d =
    (case parse_canonical_object d of
       Inl _ \<Rightarrow> {}
     | Inr (k, p) \<Rightarrow> if k \<noteq> ''commit'' then {}
         else ObjectId ` (drop 7 ` set (filter (\<lambda>l. startswith l ''parent '') (takeWhile (\<lambda>l. l \<noteq> []) (split_on NL p)))))"

definition reaches :: "(ObjectId \<Rightarrow> ObjectId set) \<Rightarrow> ObjectId \<Rightarrow> ObjectId set" where
  "reaches L x = {y. (x, y) \<in> {(a, b). b \<in> L a}\<^sup>*}"

definition links_in :: "(bytes \<Rightarrow> ObjectId set) \<Rightarrow> (ObjectId \<Rightarrow> bytes option) \<Rightarrow> ObjectId \<Rightarrow> ObjectId set" where
  "links_in f store x = (case store x of None \<Rightarrow> {} | Some d \<Rightarrow> f d)"

abbreviation git_reach :: "(ObjectId \<Rightarrow> bytes option) \<Rightarrow> ObjectId \<Rightarrow> ObjectId set" where
  "git_reach store \<equiv> reaches (links_in git_links store)"

text \<open>\<open>git_ancestor store a b\<close>: the commit \<open>a\<close> is \<open>b\<close> or one of its ancestors.\<close>

definition git_ancestor :: "(ObjectId \<Rightarrow> bytes option) \<Rightarrow> ObjectId \<Rightarrow> ObjectId \<Rightarrow> bool" where
  "git_ancestor store a b \<longleftrightarrow> a \<in> reaches (links_in commit_parents store) b"

lemma reaches_refl [simp]: "x \<in> reaches L x"
  by (simp add: reaches_def)

lemma reaches_step: "y \<in> reaches L x \<Longrightarrow> z \<in> L y \<Longrightarrow> z \<in> reaches L x"
  unfolding reaches_def by (auto intro: rtrancl_into_rtrancl)

lemma reaches_induct [consumes 1, case_names base step]:
  assumes "y \<in> reaches L x" and "P x" and "\<And>y z. y \<in> reaches L x \<Longrightarrow> P y \<Longrightarrow> z \<in> L y \<Longrightarrow> P z"
  shows "P y"
  using assms(1) unfolding reaches_def mem_Collect_eq
  by (induction rule: rtrancl_induct) (use assms(2,3) in \<open>auto simp: reaches_def\<close>)

lemma reaches_mono: "(\<And>x. L x \<subseteq> M x) \<Longrightarrow> reaches L x \<subseteq> reaches M x"
  unfolding reaches_def by (auto elim!: rtrancl_mono [THEN subsetD, rotated])

section \<open>What git says\<close>

locale git_reader =
  fixes G :: "'g git" and H :: Helper and gobjs :: "'g \<Rightarrow> ObjectId \<Rightarrow> bytes option"
  assumes has_law: "valid_oid x \<Longrightarrow>
      git_run G (git_argv H (hp_git_dir H) [''cat-file'', ''-e'', oid_value x]) [] g = ((rc, out, err), g') \<Longrightarrow>
      g' = g \<and> (rc = 0 \<longleftrightarrow> x \<in> dom (gobjs g))"
    and batch_law: "git_run G (git_argv H (hp_git_dir H) [''cat-file'', ''--batch'']) stdin g = (r, g') \<Longrightarrow> g' = g"
    and parse_law: "git_run G (git_argv H (hp_git_dir H) [''rev-parse'', ''--verify'', ref]) [] g = (r, g') \<Longrightarrow> g' = g"
    and base_law: "valid_oid a \<Longrightarrow> valid_oid b \<Longrightarrow>
      git_run G (git_argv H (hp_git_dir H) [''merge-base'', ''--is-ancestor'', oid_value a, oid_value b]) [] g = ((rc, out, err), g') \<Longrightarrow>
      g' = g \<and> (rc = 0 \<longrightarrow> git_ancestor (gobjs g) a b)"
    and list_law: "valid_oid x \<Longrightarrow> (\<And>e. e \<in> set es \<Longrightarrow> valid_oid e \<and> e \<in> dom (gobjs g)) \<Longrightarrow>
      git_run G (git_argv H (hp_git_dir H) ([''rev-list'', ''--objects'', oid_value x] @ map (\<lambda>e. CHR ''^'' # oid_value e) es)) [] g =
        ((rc, out, err), g') \<Longrightarrow>
      g' = g \<and> (rc = 0 \<longrightarrow> (\<exists>ls. out = concat (map (\<lambda>l. l @ [NL]) ls) \<and>
        (\<forall>y \<in> git_reach (gobjs g) x. (\<exists>e \<in> set es. y \<in> git_reach (gobjs g) e) \<or>
           valid_oid y \<and> y \<in> dom (gobjs g) \<and> (\<exists>l \<in> set ls. l = oid_value y \<or> startswith l (oid_value y @ [SP])))))"

locale git_writer = git_reader G H "\<lambda>g. store g (hp_git_dir H)"
  for G :: "'g git" and H :: Helper and store :: "'g \<Rightarrow> string \<Rightarrow> ObjectId \<Rightarrow> bytes option" +
  fixes h :: hash and well_formed :: "string \<Rightarrow> bytes \<Rightarrow> bool" and packs :: "bytes \<Rightarrow> (ObjectId \<Rightarrow> bytes option) \<Rightarrow> bool"
  assumes batch_hit: "valid_oid x \<Longrightarrow> store g (hp_git_dir H) x = Some (canonical_object k p) \<Longrightarrow> k \<in> {''blob'', ''tree'', ''commit'', ''tag''} \<Longrightarrow>
      fst (git_run G (git_argv H (hp_git_dir H) [''cat-file'', ''--batch'']) (oid_value x @ [NL]) g) =
        (0, oid_value x @ [SP] @ k @ [SP] @ dec (length p) @ [NL] @ p @ [NL], [])"
    and init_law: "git_run G [hp_git_bin H, ''init'', ''--bare'', ''-q'', dir] [] g = ((rc, out, err), g') \<Longrightarrow>
      dir \<noteq> hp_git_dir H \<Longrightarrow> rc = 0 \<and> store g' dir = Map.empty \<and> store g' (hp_git_dir H) = store g (hp_git_dir H)"
    and hash_law: "git_run G (git_argv H dir [''hash-object'', ''-w'', ''-t'', k, ''--stdin'']) p g = ((rc, out, err), g') \<Longrightarrow>
      dir \<noteq> hp_git_dir H \<Longrightarrow> k \<in> {''blob'', ''tree'', ''commit'', ''tag''} \<Longrightarrow> well_formed k p \<Longrightarrow>
      rc = 0 \<and> out = oid_value (from_bytes h (canonical_object k p)) @ [NL] \<and>
      store g' dir = (store g dir)(from_bytes h (canonical_object k p) \<mapsto> canonical_object k p) \<and>
      store g' (hp_git_dir H) = store g (hp_git_dir H)"
    and pack_law: "git_run G (git_argv H dir [''pack-objects'', ''--stdout'']) (join [NL] (map oid_value xs) @ [NL]) g = ((rc, out, err), g') \<Longrightarrow>
      xs \<noteq> [] \<Longrightarrow> list_all valid_oid xs \<Longrightarrow> set xs \<subseteq> dom (store g dir) \<Longrightarrow>
      rc = 0 \<and> packs out (store g dir |` set xs) \<and> store g' (hp_git_dir H) = store g (hp_git_dir H)"
    and index_law: "git_run G (git_argv H (hp_git_dir H) [''index-pack'', ''--stdin'']) p g = ((rc, out, err), g') \<Longrightarrow> packs p m \<Longrightarrow>
      rc = 0 \<and> store g' (hp_git_dir H) = m ++ store g (hp_git_dir H)"
    and rm_law: "hp_git_dir H \<noteq> tmp \<Longrightarrow> \<not> startswith (hp_git_dir H) (tmp @ ''/'') \<Longrightarrow>
      store (git_rmtree G tmp g) (hp_git_dir H) = store g (hp_git_dir H)"

section \<open>A small implementation\<close>

text \<open>The objects of each directory. A pack is the objects in hexadecimal, one on a line. \<^verbatim>\<open>rev-list\<close> lists every object of a
  repository without gaps, and refuses others.\<close>

type_synonym plain_repos = "(string, (ObjectId, bytes) dict) dict"

definition plain_objects :: "plain_repos \<Rightarrow> string \<Rightarrow> (ObjectId, bytes) dict" where
  "plain_objects g dir = (case map_of g dir of None \<Rightarrow> [] | Some os \<Rightarrow> os)"

definition plain_store :: "plain_repos \<Rightarrow> string \<Rightarrow> ObjectId \<Rightarrow> bytes option" where
  "plain_store g dir = map_of (plain_objects g dir)"

fun plain_ancestor :: "nat \<Rightarrow> (ObjectId, bytes) dict \<Rightarrow> ObjectId \<Rightarrow> ObjectId \<Rightarrow> bool" where
  "plain_ancestor 0 os a b = (a = b)"
| "plain_ancestor (Suc n) os a b = (a = b \<or> (\<exists>p \<in> links_in commit_parents (map_of os) b. plain_ancestor n os a p))"

definition plain_complete :: "(ObjectId, bytes) dict \<Rightarrow> bool" where
  "plain_complete os = list_all (\<lambda>(x, d). valid_oid x \<and> git_links d \<subseteq> fst ` set os) os"

definition pack_bytes :: "(ObjectId, bytes) dict \<Rightarrow> bytes" where
  "pack_bytes os = concat (map (\<lambda>(x, d). oid_value x @ hex_bytes d @ [NL]) os)"

definition unpack_bytes :: "bytes \<Rightarrow> (ObjectId, bytes) dict" where
  "unpack_bytes p = map (\<lambda>l. (ObjectId (take 40 l), unhex (drop 40 l))) (butlast (split_on NL p))"

definition plain_add :: "string \<Rightarrow> (ObjectId, bytes) dict \<Rightarrow> plain_repos \<Rightarrow> plain_repos" where
  "plain_add dir new g = AList.update dir (plain_objects g dir @ new) g"

definition plain_command :: "hash \<Rightarrow> string \<Rightarrow> string \<Rightarrow> string list \<Rightarrow> bytes \<Rightarrow> plain_repos \<Rightarrow> (int \<times> bytes \<times> bytes) \<times> plain_repos" where
  "plain_command h dir cmd args stdin g =
    (let os = plain_objects g dir; fail = ((128, [], ''fatal''), g); line = takeWhile (\<lambda>c. c \<noteq> NL) stdin
     in if cmd = ''cat-file'' then
          (if args = [''--batch''] then
             (case map_of os (ObjectId line) of
                None \<Rightarrow> ((0, line @ '' missing'' @ [NL], []), g)
              | Some d \<Rightarrow> (case parse_canonical_object d of
                  Inl _ \<Rightarrow> fail
                | Inr (k, p) \<Rightarrow> ((0, line @ [SP] @ k @ [SP] @ dec (length p) @ [NL] @ p @ [NL], []), g)))
           else if length args = 2 then ((if ObjectId (args ! 1) \<in> fst ` set os then 0 else 1, [], []), g) else fail)
        else if cmd = ''rev-parse'' then
          (if length args = 2 \<and> valid_oid_str (args ! 1) then ((0, args ! 1 @ [NL], []), g) else fail)
        else if cmd = ''merge-base'' then
          (if length args = 3 then ((if plain_ancestor (length os) os (ObjectId (args ! 1)) (ObjectId (args ! 2)) then 0 else 1, [], []), g) else fail)
        else if cmd = ''rev-list'' then
          (if plain_complete os \<and> ObjectId (args ! 1) \<in> fst ` set os then ((0, concat (map (\<lambda>(x, d). oid_value x @ [NL]) os), []), g) else fail)
        else if cmd = ''hash-object'' then
          (let d = canonical_object (args ! 2) stdin; x = from_bytes h d
           in ((0, oid_value x @ [NL], []), AList.update dir ((x, d) # os) g))
        else if cmd = ''pack-objects'' then
          ((0, pack_bytes (map (\<lambda>l. (ObjectId l, the (map_of os (ObjectId l)))) (butlast (split_on NL stdin))), []), g)
        else if cmd = ''index-pack'' then ((0, [], []), plain_add dir (unpack_bytes stdin) g)
        else fail)"

definition plain_run :: "hash \<Rightarrow> string list \<Rightarrow> bytes \<Rightarrow> plain_repos \<Rightarrow> (int \<times> bytes \<times> bytes) \<times> plain_repos" where
  "plain_run h argv stdin g =
    (if argv ! 1 = ''init'' then ((0, [], []), AList.update (last argv) [] g)
     else plain_command h (argv ! 2) (argv ! 3) (drop 4 argv) stdin g)"

definition plain_git :: "hash \<Rightarrow> plain_repos git" where
  "plain_git h = \<lparr>git_run = plain_run h, git_rmtree = (\<lambda>dir g. filter (\<lambda>(d, _). d \<noteq> dir \<and> \<not> startswith d (dir @ ''/'')) g)\<rparr>"

lemma plain_git_run: "git_run (plain_git h) (git_argv H dir (cmd # args)) stdin g = plain_command h dir cmd args stdin g"
  by (simp add: plain_git_def plain_run_def git_argv_def)

lemma plain_store_dom: "x \<in> dom (plain_store g dir) \<longleftrightarrow> x \<in> fst ` set (plain_objects g dir)"
  by (simp add: plain_store_def dom_map_of_conv_image_fst)

lemma plain_ancestor_sound: "plain_ancestor n os a b \<Longrightarrow> a \<in> reaches (links_in commit_parents (map_of os)) b"
proof (induction n arbitrary: b)
  case (Suc n)
  then consider "a = b" | p where "p \<in> links_in commit_parents (map_of os) b" "a \<in> reaches (links_in commit_parents (map_of os)) p" by auto
  then show ?case
  proof cases
    case 2
    then show ?thesis unfolding reaches_def by (auto intro: converse_rtrancl_into_rtrancl)
  qed simp
qed simp

lemma plain_complete_reach:
  assumes "plain_complete os" and "x \<in> fst ` set os" and "y \<in> git_reach (map_of os) x"
  shows "valid_oid y \<and> y \<in> fst ` set os"
  using assms(3)
proof (induction rule: reaches_induct)
  case base
  then show ?case using assms(1,2) by (auto simp: plain_complete_def list_all_iff)
next
  case (step y z)
  then obtain d where "(y, d) \<in> set os" "z \<in> git_links d" by (auto simp: links_in_def split: option.splits dest!: map_of_SomeD)
  then have "z \<in> fst ` set os" using assms(1) by (auto simp: plain_complete_def list_all_iff)
  then show ?case using assms(1) by (auto simp: plain_complete_def list_all_iff)
qed

interpretation plain: git_reader "plain_git h" H "\<lambda>g. plain_store g (hp_git_dir H)"
  for h H
proof
  fix x g rc out err g'
  assume "git_run (plain_git h) (git_argv H (hp_git_dir H) [''cat-file'', ''-e'', oid_value x]) [] g = ((rc, out, err), g')"
  then show "g' = g \<and> (rc = 0 \<longleftrightarrow> x \<in> dom (plain_store g (hp_git_dir H)))"
    unfolding plain_git_run by (auto simp: plain_command_def Let_def plain_store_dom split: if_splits)
next
  fix stdin g r g'
  assume "git_run (plain_git h) (git_argv H (hp_git_dir H) [''cat-file'', ''--batch'']) stdin g = (r, g')"
  then show "g' = g" unfolding plain_git_run by (auto simp: plain_command_def Let_def split: option.splits sum.splits)
next
  fix ref g r g'
  assume "git_run (plain_git h) (git_argv H (hp_git_dir H) [''rev-parse'', ''--verify'', ref]) [] g = (r, g')"
  then show "g' = g" unfolding plain_git_run by (auto simp: plain_command_def Let_def split: if_splits)
next
  fix a b g rc out err g'
  assume "git_run (plain_git h) (git_argv H (hp_git_dir H) [''merge-base'', ''--is-ancestor'', oid_value a, oid_value b]) [] g = ((rc, out, err), g')"
  then have "g' = g \<and> (rc = 0 \<longrightarrow> plain_ancestor (length (plain_objects g (hp_git_dir H))) (plain_objects g (hp_git_dir H)) a b)"
    unfolding plain_git_run by (auto simp: plain_command_def Let_def split: if_splits)
  then show "g' = g \<and> (rc = 0 \<longrightarrow> git_ancestor (plain_store g (hp_git_dir H)) a b)"
    using plain_ancestor_sound by (auto simp: git_ancestor_def plain_store_def)
next
  fix x es g rc out err g'
  let ?os = "plain_objects g (hp_git_dir H)" and ?st = "plain_store g (hp_git_dir H)"
  assume "git_run (plain_git h) (git_argv H (hp_git_dir H) ([''rev-list'', ''--objects'', oid_value x] @ map (\<lambda>e. CHR ''^'' # oid_value e) es)) [] g =
    ((rc, out, err), g')"
  then have run: "plain_command h (hp_git_dir H) ''rev-list'' (''--objects'' # oid_value x # map (\<lambda>e. CHR ''^'' # oid_value e) es) [] g = ((rc, out, err), g')"
    unfolding append_Cons plain_git_run by simp
  then have g: "g' = g" by (auto simp: plain_command_def Let_def split: if_splits)
  have ok: "rc = 0 \<longrightarrow> plain_complete ?os \<and> x \<in> fst ` set ?os \<and> out = concat (map (\<lambda>l. l @ [NL]) (map (oid_value \<circ> fst) ?os))"
    using run by (auto simp: plain_command_def Let_def comp_def split_def split: if_splits)
  have listed: "valid_oid y \<and> y \<in> dom ?st \<and> (\<exists>l \<in> set (map (oid_value \<circ> fst) ?os). l = oid_value y)"
    if "rc = 0" "y \<in> git_reach ?st x" for y
    using plain_complete_reach [of ?os x y] ok that unfolding plain_store_dom by (auto simp: plain_store_def)
  show "g' = g \<and> (rc = 0 \<longrightarrow> (\<exists>ls. out = concat (map (\<lambda>l. l @ [NL]) ls) \<and>
      (\<forall>y \<in> git_reach ?st x. (\<exists>e \<in> set es. y \<in> git_reach ?st e) \<or>
         valid_oid y \<and> y \<in> dom ?st \<and> (\<exists>l \<in> set ls. l = oid_value y \<or> startswith l (oid_value y @ [SP])))))"
    using g ok listed by blast
qed

text \<open>A pack is an object, with its id, on a line.\<close>

lemma valid_oid_no_NL: "valid_oid x \<Longrightarrow> NL \<notin> set (oid_value x)"
  using valid_oid_ascii [of x NL] by (auto simp: ordc_def)

lemma unpack_pack:
  assumes "list_all (\<lambda>(x, _). valid_oid x) os"
  shows "unpack_bytes (pack_bytes os) = os"
proof -
  have "split_on NL (pack_bytes os) = map (\<lambda>(x, d). oid_value x @ hex_bytes d) os @ [[]]"
    using assms unfolding pack_bytes_def
  proof (induction os)
    case (Cons o' os)
    obtain x d where o': "o' = (x, d)" by (cases o')
    have "NL \<notin> set (oid_value x @ hex_bytes d)"
      using valid_oid_no_NL [of x] Cons.prems o' hex_bytes_is_hex [of NL d] is_hex_ascii [of NL] by (auto simp: ordc_def)
    then show ?case using Cons o' split_on_append [of NL "oid_value x @ hex_bytes d"] by (simp add: split_on_absent)
  qed simp
  moreover have "map (\<lambda>l. (ObjectId (take 40 l), unhex (drop 40 l))) (map (\<lambda>(x, d). oid_value x @ hex_bytes d) os) = os"
    using assms by (induction os) (auto simp: valid_oid_def valid_oid_str_def)
  ultimately show ?thesis by (simp add: unpack_bytes_def)
qed

lemma split_on_lines:
  assumes "xs \<noteq> []" and "list_all valid_oid xs"
  shows "split_on NL (join [NL] (map oid_value xs) @ [NL]) = map oid_value xs @ [[]]"
proof -
  have "split_on NL (join [NL] (map oid_value xs)) = map oid_value xs"
    using assms valid_oid_no_NL by (intro split_on_join) (auto simp: list_all_iff)
  then show ?thesis using split_on_append [of NL "join [NL] (map oid_value xs)" "[]"] by simp
qed

lemma plain_store_update: "plain_store (AList.update dir os g) d = (if d = dir then map_of os else plain_store g d)"
  by (auto simp: plain_store_def plain_objects_def)

lemma restrict_as_map_of: "set xs \<subseteq> dom m \<Longrightarrow> map_of (map (\<lambda>x. (x, the (m x))) xs) = m |` set xs"
  by (auto simp: fun_eq_iff map_of_map_restrict restrict_map_def comp_def)

interpretation plain: git_writer "plain_git h" H plain_store h "\<lambda>k p. True" "\<lambda>p m. m = map_of (unpack_bytes p)"
  for h H
proof
  fix x g k p assume "valid_oid x" "plain_store g (hp_git_dir H) x = Some (canonical_object k p)" "k \<in> {''blob'', ''tree'', ''commit'', ''tag''}"
  moreover have "takeWhile (\<lambda>c. c \<noteq> NL) (oid_value x @ [NL]) = oid_value x" if "valid_oid x"
    using valid_oid_no_NL [OF that] by (simp add: takeWhile_append_stop)
  moreover have "parse_canonical_object (canonical_object k p) = Inr (k, p)" if "k \<in> {''blob'', ''tree'', ''commit'', ''tag''}"
    using that parse_canonical_canonical by auto
  ultimately show "fst (git_run (plain_git h) (git_argv H (hp_git_dir H) [''cat-file'', ''--batch'']) (oid_value x @ [NL]) g) =
      (0, oid_value x @ [SP] @ k @ [SP] @ dec (length p) @ [NL] @ p @ [NL], [])"
    unfolding plain_git_run by (simp add: plain_command_def Let_def plain_store_def)
next
  fix dir g rc out err g'
  assume "git_run (plain_git h) [hp_git_bin H, ''init'', ''--bare'', ''-q'', dir] [] g = ((rc, out, err), g')" "dir \<noteq> hp_git_dir H"
  then show "rc = 0 \<and> plain_store g' dir = Map.empty \<and> plain_store g' (hp_git_dir H) = plain_store g (hp_git_dir H)"
    by (auto simp: plain_git_def plain_run_def plain_store_update)
next
  fix dir k p g rc out err g'
  assume "git_run (plain_git h) (git_argv H dir [''hash-object'', ''-w'', ''-t'', k, ''--stdin'']) p g = ((rc, out, err), g')" "dir \<noteq> hp_git_dir H"
  then show "rc = 0 \<and> out = oid_value (from_bytes h (canonical_object k p)) @ [NL] \<and>
      plain_store g' dir = (plain_store g dir)(from_bytes h (canonical_object k p) \<mapsto> canonical_object k p) \<and>
      plain_store g' (hp_git_dir H) = plain_store g (hp_git_dir H)"
    unfolding plain_git_run by (auto simp: plain_command_def Let_def plain_store_update plain_store_def [of g])
next
  fix dir xs g rc out err g'
  assume run: "git_run (plain_git h) (git_argv H dir [''pack-objects'', ''--stdout'']) (join [NL] (map oid_value xs) @ [NL]) g = ((rc, out, err), g')"
    and xs: "xs \<noteq> []" "list_all valid_oid xs" "set xs \<subseteq> dom (plain_store g dir)"
  have "rc = 0" "g' = g" "out = pack_bytes (map (\<lambda>x. (x, the (plain_store g dir x))) xs)"
    using run unfolding plain_git_run by (auto simp: plain_command_def Let_def split_on_lines [OF xs(1,2)] comp_def plain_store_def)
  moreover have "unpack_bytes (pack_bytes (map (\<lambda>x. (x, the (plain_store g dir x))) xs)) = map (\<lambda>x. (x, the (plain_store g dir x))) xs"
    using xs(2) by (intro unpack_pack) (simp add: list_all_iff)
  ultimately show "rc = 0 \<and> plain_store g dir |` set xs = map_of (unpack_bytes out) \<and> plain_store g' (hp_git_dir H) = plain_store g (hp_git_dir H)"
    using restrict_as_map_of [OF xs(3)] by simp
next
  fix p g rc out err g' m
  assume "git_run (plain_git h) (git_argv H (hp_git_dir H) [''index-pack'', ''--stdin'']) p g = ((rc, out, err), g')" "m = map_of (unpack_bytes p)"
  then show "rc = 0 \<and> plain_store g' (hp_git_dir H) = m ++ plain_store g (hp_git_dir H)"
    unfolding plain_git_run by (auto simp: plain_command_def Let_def plain_add_def plain_store_update plain_store_def [of g] fun_eq_iff map_add_def split: option.split)
next
  fix tmp and g :: plain_repos assume "hp_git_dir H \<noteq> tmp" "\<not> startswith (hp_git_dir H) (tmp @ ''/'')"
  then have "map_of (filter (\<lambda>(d, _). d \<noteq> tmp \<and> \<not> startswith d (tmp @ ''/'')) g) (hp_git_dir H) = map_of g (hp_git_dir H)"
    by (induction g) auto
  then show "plain_store (git_rmtree (plain_git h) tmp g) (hp_git_dir H) = plain_store g (hp_git_dir H)"
    by (simp add: plain_git_def plain_store_def plain_objects_def)
qed
end
