(* ===== verification/Triples.thy ===== *)
theory Triples
  imports Prelude
begin

text \<open>
  Hoare triples for the state-passing computations of the prelude. \<open>triple P m Q E\<close>: when \<open>m\<close> starts in a state
  with \<open>P\<close>, a result comes with \<open>Q\<close> and an exception leaves a state with \<open>E\<close>.
\<close>

named_theorems triple_rules \<open>rules for the combinators\<close>

definition triple :: "('s \<Rightarrow> bool) \<Rightarrow> ('s, 'a) st \<Rightarrow> ('a \<Rightarrow> 's \<Rightarrow> bool) \<Rightarrow> ('s \<Rightarrow> bool) \<Rightarrow> bool" where
  "triple P m Q E \<longleftrightarrow> (\<forall>s. P s \<longrightarrow> (case m s of (Inr v, t) \<Rightarrow> Q v t | (Inl _, t) \<Rightarrow> E t))"

lemma tripleI: "(\<And>s v t. P s \<Longrightarrow> m s = (Inr v, t) \<Longrightarrow> Q v t) \<Longrightarrow> (\<And>s e t. P s \<Longrightarrow> m s = (Inl e, t) \<Longrightarrow> E t) \<Longrightarrow> triple P m Q E"
  by (auto simp: triple_def split: prod.split sum.split)

lemma tripleD: "triple P m Q E \<Longrightarrow> P s \<Longrightarrow> m s = (Inr v, t) \<Longrightarrow> Q v t"
  by (auto simp: triple_def dest!: spec [of _ s])

lemma tripleE: "triple P m Q E \<Longrightarrow> P s \<Longrightarrow> m s = (Inl e, t) \<Longrightarrow> E t"
  by (auto simp: triple_def dest!: spec [of _ s])

lemma triple_end: "triple P m Q E \<Longrightarrow> P s \<Longrightarrow> (\<And>v t. Q v t \<Longrightarrow> R t) \<Longrightarrow> (\<And>t. E t \<Longrightarrow> R t) \<Longrightarrow> R (snd (m s))"
  by (cases "m s"; cases "fst (m s)") (auto dest: tripleD tripleE)

lemma triple_weaken:
  assumes "triple P m Q E" and "\<And>s. P' s \<Longrightarrow> P s" and "\<And>v s. Q v s \<Longrightarrow> Q' v s" and "\<And>s. E s \<Longrightarrow> E' s"
  shows "triple P' m Q' E'"
proof (rule tripleI)
  show "Q' v t" if "P' s" "m s = (Inr v, t)" for s v t using assms(3) tripleD [OF assms(1) assms(2) [OF that(1)] that(2)] .
  show "E' t" if "P' s" "m s = (Inl e, t)" for s e t using assms(4) tripleE [OF assms(1) assms(2) [OF that(1)] that(2)] .
qed

lemma triple_pre: "triple P m Q E \<Longrightarrow> (\<And>s. P' s \<Longrightarrow> P s) \<Longrightarrow> triple P' m Q E"
  by (rule triple_weaken)

lemma triple_post: "triple P m Q E \<Longrightarrow> (\<And>v s. Q v s \<Longrightarrow> Q' v s) \<Longrightarrow> triple P m Q' E"
  by (rule triple_weaken)

lemma triple_assume:
  assumes "\<And>s. P s \<Longrightarrow> F" and "F \<Longrightarrow> triple P m Q E"
  shows "triple P m Q E"
proof (cases F)
  case False
  then have "\<not> P s" for s using assms(1) by blast
  then show ?thesis by (simp add: triple_def)
qed (rule assms(2))

lemma triple_fact: "(F \<Longrightarrow> triple P m Q E) \<Longrightarrow> triple (\<lambda>s. P s \<and> F) m Q E"
  by (cases F) (simp_all add: triple_def)

lemma triple_fact2: "(F \<Longrightarrow> triple P m Q E) \<Longrightarrow> triple (\<lambda>s. F \<and> P s) m Q E"
  by (cases F) (simp_all add: triple_def)

lemma triple_ex:
  assumes "\<And>x. triple (P x) m Q E"
  shows "triple (\<lambda>s. \<exists>x. P x s) m Q E"
  using tripleD [OF assms] tripleE [OF assms] by (intro tripleI) blast+

lemma triple_return [triple_rules]: "(\<And>s. P s \<Longrightarrow> Q v s) \<Longrightarrow> triple P (returnS v) Q E"
  by (auto simp: triple_def)

lemma triple_raise [triple_rules]: "(\<And>s. P s \<Longrightarrow> E s) \<Longrightarrow> triple P (raiseS e) Q E"
  by (auto simp: triple_def)

lemma triple_lift [triple_rules]: "(\<And>s v. P s \<Longrightarrow> r = Inr v \<Longrightarrow> Q v s) \<Longrightarrow> (\<And>s. P s \<Longrightarrow> E s) \<Longrightarrow> triple P (liftR r) Q E"
  by (cases r) (auto simp: triple_def liftR_def)

lemma triple_gets: "(\<And>s v. P s \<Longrightarrow> f s = Inr v \<Longrightarrow> Q v s) \<Longrightarrow> (\<And>s. P s \<Longrightarrow> E s) \<Longrightarrow> triple P (getsS f) Q E"
  by (auto simp: triple_def getsS_def split: sum.split)

lemma triple_modify: "(\<And>s. P s \<Longrightarrow> Q () (f s)) \<Longrightarrow> triple P (modifyS f) Q E"
  by (auto simp: triple_def modifyS_def)

lemma triple_bind [triple_rules]:
  assumes "triple P m M E" and "\<And>v. triple (M v) (f v) Q E"
  shows "triple P (bindS m f) Q E"
proof (rule tripleI)
  fix s v t assume "P s" "bindS m f s = (Inr v, t)"
  then show "Q v t" by (elim bindS_InrE) (meson assms tripleD)
next
  fix s e t assume "P s" "bindS m f s = (Inl e, t)"
  then show "E t" unfolding bindS_Inl_iff by (meson assms tripleD tripleE)
qed

lemma triple_catch:
  assumes "triple P m Q F" and "\<And>e. triple F (f e) Q E"
  shows "triple P (catchS m f) Q E"
proof (rule tripleI)
  fix s v t assume s: "P s" "catchS m f s = (Inr v, t)"
  show "Q v t"
    using s assms by (cases "m s"; cases "fst (m s)") (auto simp: catchS_def dest: tripleD tripleE)
next
  fix s e t assume s: "P s" "catchS m f s = (Inl e, t)"
  show "E t"
    using s assms by (cases "m s"; cases "fst (m s)") (auto simp: catchS_def dest: tripleD tripleE)
qed

lemma triple_if: "(b \<Longrightarrow> triple P m Q E) \<Longrightarrow> (\<not> b \<Longrightarrow> triple P n Q E) \<Longrightarrow> triple P (if b then m else n) Q E"
  by simp

lemma triple_option:
  "(x = None \<Longrightarrow> triple P m Q E) \<Longrightarrow> (\<And>y. x = Some y \<Longrightarrow> triple P (f y) Q E) \<Longrightarrow>
   triple P (case x of None \<Rightarrow> m | Some y \<Rightarrow> f y) Q E"
  by (cases x) simp_all

lemma triple_keeps: "triple P m (\<lambda>_. P) P \<longleftrightarrow> keeps P m"
proof -
  have "(case m s of (Inr v, t) \<Rightarrow> P t | (Inl _, t) \<Rightarrow> P t) = P (snd (m s))" for s
    by (cases "m s") (auto split: sum.split)
  then show ?thesis by (simp add: keeps_def triple_def)
qed

end
