(* ===== verification/GitPush.thy ===== *)
theory GitPush
  imports GitModel Triples
begin

text \<open>
  What a push through the remote helper does to a store that other clients use at the same time. A store is
  closed when every reference outside \<^verbatim>\<open>refs/actions/\<close> has all the objects that it needs. The helper asks Git to
  leave out what the references of the store reach, so it relies on closed stores, and
  \<open>helper_push_keeps_closed\<close> shows that it keeps them closed and never moves a branch backwards unless forced.
\<close>

section \<open>The lines of a listing\<close>

lemma ordc_NL [simp]: "ordc NL = 10"
  by (simp add: ordc_def)

lemma line_break_rest:
  assumes "line_break (c # l @ NL # r) = Some t"
  shows "t = r \<or> (\<exists>l'. t = l' @ NL # r \<and> length l' \<le> length l)"
proof -
  consider (one) "t = l @ NL # r" | (two) "t = tl (l @ NL # r)"
    | (three) "t = tl (tl (l @ NL # r))" "ordc (hd (l @ NL # r)) = 128" "ordc (hd (tl (l @ NL # r))) > 100" "tl (l @ NL # r) \<noteq> []"
    using assms unfolding line_break_def
    by (cases "l @ NL # r") (auto split: if_splits list.splits)
  then show ?thesis
  proof cases
    case three
    then show ?thesis by (cases l; cases "tl l") auto
  qed (cases l; auto)+
qed

lemma splitlines_acc_tail: "\<exists>pre. splitlines_acc (l @ NL # r) cur = pre @ splitlines_acc r []"
proof (induction "length l" arbitrary: l cur rule: less_induct)
  case less
  show ?case
  proof (cases l)
    case Nil
    then show ?thesis by (simp add: line_break_def)
  next
    case (Cons c l')
    show ?thesis
    proof (cases "line_break (c # l' @ NL # r)")
      case None
      then show ?thesis using less [of l' "c # cur"] Cons by simp
    next
      case (Some t)
      then have eq: "splitlines_acc (l @ NL # r) cur = rev cur # splitlines_acc t []" using Cons by simp
      from line_break_rest [OF Some] show ?thesis
      proof
        assume "t = r"
        then show ?thesis using eq by (intro exI [of _ "[rev cur]"]) simp
      next
        assume "\<exists>l''. t = l'' @ NL # r \<and> length l'' \<le> length l'"
        then obtain l'' where l'': "t = l'' @ NL # r" "length l'' \<le> length l'" by blast
        then obtain pre where "splitlines_acc t [] = pre @ splitlines_acc r []" using less [of l'' "[]"] Cons by auto
        then show ?thesis using eq by (intro exI [of _ "rev cur # pre"]) simp
      qed
    qed
  qed
qed

lemma splitlines_acc_head:
  assumes "\<And>c. c \<in> set a \<Longrightarrow> 32 \<le> ordc c \<and> ordc c < 128" and "s \<noteq> []"
  shows "\<exists>b rest. splitlines_acc (a @ s) cur = (rev cur @ a @ b) # rest"
  using assms(1)
proof (induction a arbitrary: cur)
  case Nil
  have "\<exists>b rest. splitlines_acc s cur = (rev cur @ b) # rest"
    using assms(2)
  proof (induction s arbitrary: cur)
    case (Cons c s)
    show ?case
    proof (cases "line_break (c # s)")
      case None
      show ?thesis
      proof (cases "s = []")
        case False
        then show ?thesis using Cons.IH [of "c # cur"] None by auto
      qed (use None in auto)
    qed auto
  qed simp
  then show ?case by simp
next
  case (Cons c a)
  then show ?case using Cons.IH [of "c # cur"] by auto
qed

lemma listed_line:
  assumes "\<And>c. c \<in> set a \<Longrightarrow> 32 \<le> ordc c \<and> ordc c < 128" and "l \<in> set ls" and "l = a \<or> startswith l (a @ [SP])"
  shows "\<exists>b. a @ b \<in> set (splitlines (concat (map (\<lambda>l. l @ [NL]) ls))) \<and> (b = [] \<or> hd b = SP)"
  using assms(2) unfolding splitlines_def
proof (induction ls)
  case (Cons k ls)
  let ?r = "concat (map (\<lambda>l. l @ [NL]) ls)"
  show ?case
  proof (cases "l = k")
    case True
    from assms(3) show ?thesis
    proof
      assume "l = a"
      then show ?thesis using splitlines_acc_line [of a ?r "[]"] no_breaks_ascii [of a] assms(1) True by (intro exI [of _ "[]"]) simp
    next
      assume "startswith l (a @ [SP])"
      then obtain b where b: "k = (a @ [SP]) @ b" using True by (auto simp: startswith_iff)
      have "32 \<le> ordc c \<and> ordc c < 128" if "c \<in> set (a @ [SP])" for c using that assms(1) by (auto simp: ordc_def)
      from splitlines_acc_head [of "a @ [SP]" "b @ NL # ?r" "[]", OF this]
      obtain c rest where "splitlines_acc ((a @ [SP]) @ (b @ NL # ?r)) [] = ((a @ [SP]) @ c) # rest" by auto
      then show ?thesis using b by (intro exI [of _ "SP # c"]) simp
    qed
  next
    case False
    then obtain b where "a @ b \<in> set (splitlines_acc ?r [])" "b = [] \<or> hd b = SP" using Cons by auto
    moreover obtain pre where "splitlines_acc (k @ NL # ?r) [] = pre @ splitlines_acc ?r []" using splitlines_acc_tail by blast
    ultimately show ?thesis by (intro exI [of _ b]) simp
  qed
qed simp

lemma mapR_image: "mapR f xs = Inr ys \<Longrightarrow> x \<in> set xs \<Longrightarrow> \<exists>y \<in> set ys. f x = Inr y"
  by (induction xs arbitrary: ys) (auto simp: bindR_eq_Inr)

lemma rev_list_ids_listed:
  assumes "rev_list_ids (concat (map (\<lambda>l. l @ [NL]) ls)) = Inr ids" and "valid_oid y"
    and "l \<in> set ls" and "l = oid_value y \<or> startswith l (oid_value y @ [SP])"
  shows "y \<in> set ids"
proof -
  have hex: "is_hex c" if "c \<in> set (oid_value y)" for c
    using assms(2) that by (simp add: valid_oid_def valid_oid_str_def list_all_iff)
  then have ascii: "32 \<le> ordc c \<and> ordc c < 128" if "c \<in> set (oid_value y)" for c using that is_hex_ascii by blast
  have SP: "SP \<notin> set (oid_value y)" using hex [of SP] by (auto simp: is_hex_def is_digit_def ordc_def)
  obtain b where b: "oid_value y @ b \<in> set (splitlines (concat (map (\<lambda>l. l @ [NL]) ls)))" "b = [] \<or> hd b = SP"
    using listed_line [OF ascii assms(3,4)] by blast
  have "hd (split_on SP (oid_value y @ b)) = oid_value y"
  proof (cases b)
    case (Cons c b')
    then have "split_on SP (oid_value y @ b) = split_on SP (oid_value y) @ split_on SP b'" using b(2) by (simp add: split_on_append)
    then show ?thesis using split_on_absent [OF SP] by simp
  qed (simp add: split_on_absent [OF SP])
  moreover have "oid_value y \<noteq> []" using assms(2) by (auto simp: valid_oid_def valid_oid_str_def)
  then have line: "oid_value y @ b \<in> set (filter (\<lambda>line. line \<noteq> []) (splitlines (concat (map (\<lambda>l. l @ [NL]) ls))))" using b(1) by simp
  have "\<exists>x \<in> set ids. mk_ObjectId (hd (split_on SP (oid_value y @ b))) = Inr x"
    by (rule mapR_image [OF assms(1) [unfolded rev_list_ids_def] line])
  ultimately show ?thesis using assms(2) by (auto simp: mk_ObjectId_value)
qed

section \<open>Closed stores\<close>

text \<open>\<open>L\<close> gives the ids that the object of an id needs.\<close>

definition in_actions :: "string \<Rightarrow> bool" where
  "in_actions n = startswith n ''refs/actions/''"

definition closed_store :: "(ObjectId \<Rightarrow> ObjectId set) \<Rightarrow> ('s \<Rightarrow> ObjectId \<Rightarrow> bytes option) \<Rightarrow> ('s \<Rightarrow> string \<Rightarrow> ObjectId option) \<Rightarrow> 's \<Rightarrow> bool" where
  "closed_store L objs refs s \<longleftrightarrow>
    (\<forall>n x. refs s n = Some x \<longrightarrow> valid_oid x \<and> (\<not> in_actions n \<longrightarrow> reaches L x \<subseteq> dom (objs s)))"

text \<open>What one call of the helper may do to the references, when it pushes to \<open>dst\<close>: nothing, write below \<^verbatim>\<open>refs/actions/\<close>,
  delete \<open>dst\<close> when asked to, or move \<open>dst\<close> to a commit whose objects are all there, unless forced only forward.\<close>

definition helper_fair :: "(ObjectId \<Rightarrow> ObjectId set) \<Rightarrow> (ObjectId \<Rightarrow> bytes option) \<Rightarrow> ('s \<Rightarrow> ObjectId \<Rightarrow> bytes option) \<Rightarrow>
    ('s \<Rightarrow> string \<Rightarrow> ObjectId option) \<Rightarrow> bool \<Rightarrow> bool \<Rightarrow> string \<Rightarrow> 's \<times> 's \<Rightarrow> bool" where
  "helper_fair L store objs refs force deletes dst step \<longleftrightarrow>
    (case step of (a, b) \<Rightarrow>
       refs b = refs a \<or>
       (\<exists>n y. in_actions n \<and> refs b = (refs a)(n := y)) \<or>
       (deletes \<and> refs b = (refs a)(dst := None)) \<or>
       (\<exists>x. \<not> deletes \<and> refs b = (refs a)(dst \<mapsto> x) \<and> reaches L x \<subseteq> dom (objs a) \<and>
          (force \<or> (\<forall>c. refs a dst = Some c \<longrightarrow> git_ancestor store c x))))"

definition helper_ok :: "('s \<Rightarrow> bool) \<Rightarrow> ('s \<Rightarrow> ObjectId \<Rightarrow> bytes option) \<Rightarrow> ('s \<times> 's \<Rightarrow> bool) \<Rightarrow> 'g \<Rightarrow> ObjectId set \<Rightarrow>
    'g helper_state \<times> 's shared \<Rightarrow> bool" where
  "helper_ok good objs fair g ids st \<longleftrightarrow> hs_git (fst st) = g \<and> shared_ok good objs fair ids st"

lemma helper_ok_mono: "helper_ok good objs fair g ids st \<Longrightarrow> ids' \<subseteq> ids \<Longrightarrow> helper_ok good objs fair g ids' st"
  by (cases st) (auto simp: helper_ok_def shared_ok_def)

lemma triple_interfere:
  assumes "\<And>s r t. good s \<Longrightarrow> ids \<subseteq> dom (objs s) \<Longrightarrow> m s = (r, t) \<Longrightarrow>
      good t \<and> dom (objs s) \<subseteq> dom (objs t) \<and> fair (s, t) \<and> (\<forall>v. r = Inr v \<longrightarrow> gain v \<subseteq> dom (objs t) \<and> know v)"
  shows "triple (helper_ok good objs fair g ids) (onB (interfere m))
    (\<lambda>v st. helper_ok good objs fair g (ids \<union> gain v) st \<and> know v) (helper_ok good objs fair g ids)"
proof -
  have "helper_ok good objs fair g (ids \<union> (case r of Inr v \<Rightarrow> gain v | Inl _ \<Rightarrow> {})) st' \<and> (\<forall>v. r = Inr v \<longrightarrow> know v)"
    if ok: "helper_ok good objs fair g ids st" and run: "onB (interfere m) st = (r, st')" for st r st'
  proof -
    obtain w s others log where st: "st = (w, s, others, log)" by (cases st) auto
    let ?s1 = "case others of [] \<Rightarrow> s | f # _ \<Rightarrow> f s"
    have sh: "shared_ok good objs fair ids (w, s, others, log)" using ok st by (simp add: helper_ok_def)
    note d = disturbed_ok [OF sh]
    obtain s2 where s2: "m ?s1 = (r, s2)" "st' = (w, s2, tl others, log @ [(?s1, s2)])"
      using interfere_result [OF run [unfolded st]] by blast
    have "good s2 \<and> dom (objs ?s1) \<subseteq> dom (objs s2) \<and> fair (?s1, s2) \<and> (\<forall>v. r = Inr v \<longrightarrow> gain v \<subseteq> dom (objs s2) \<and> know v)"
      using assms [OF d(1,2) s2(1)] .
    then show ?thesis using sh d(2,3) ok st s2(2) by (auto simp: helper_ok_def shared_ok_def split: sum.split)
  qed
  then show ?thesis by (intro tripleI; force)
qed

section \<open>The push\<close>

lemma closed_grown: "closed_store L objs refs s \<Longrightarrow> refs t = refs s \<Longrightarrow> dom (objs s) \<subseteq> dom (objs t) \<Longrightarrow> closed_store L objs refs t"
  unfolding closed_store_def by (metis subset_trans)

lemma closed_upd:
  assumes "closed_store L objs refs s" and "objs t = objs s" and "refs t = (refs s)(n := v)"
    and "\<And>x. v = Some x \<Longrightarrow> valid_oid x \<and> (in_actions n \<or> reaches L x \<subseteq> dom (objs s))"
  shows "closed_store L objs refs t"
  using assms unfolding closed_store_def by (auto split: if_splits)

locale helper_push =
  backend_cells h B inv objs refs + git_reader G H gobjs
  for h :: hash and B :: "'s Backend" and inv :: "'s \<Rightarrow> bool" and objs :: "'s \<Rightarrow> ObjectId \<Rightarrow> bytes option"
    and refs :: "'s \<Rightarrow> string \<Rightarrow> ObjectId option" and G :: "'g git" and H :: Helper and gobjs :: "'g \<Rightarrow> ObjectId \<Rightarrow> bytes option" +
  fixes L :: "ObjectId \<Rightarrow> ObjectId set" and g :: 'g
  assumes digest: "digest20 h"
    and agree: "gobjs g x = Some d \<Longrightarrow> L x = git_links d"
begin

abbreviation good :: "'s \<Rightarrow> bool" where
  "good s \<equiv> inv s \<and> closed_store L objs refs s"

abbreviation OK :: "bool \<Rightarrow> bool \<Rightarrow> string \<Rightarrow> ObjectId set \<Rightarrow> 'g helper_state \<times> 's shared \<Rightarrow> bool" where
  "OK force deletes dst ids \<equiv> helper_ok good objs (helper_fair L (gobjs g) objs refs force deletes dst) g ids"

lemma reaches_links: "git_reach (gobjs g) x \<subseteq> reaches L x"
  by (rule reaches_mono) (auto simp: links_in_def agree split: option.split)

lemma fair_same: "refs t = refs s \<Longrightarrow> helper_fair L store objs refs force deletes dst (s, t)"
  by (simp add: helper_fair_def)

lemma same_triple:
  assumes "\<And>s. inv s \<Longrightarrow> same inv objs refs s (snd (m s))"
    and "\<And>s v t. good s \<Longrightarrow> m s = (Inr v, t) \<Longrightarrow> gain v \<subseteq> dom (objs s) \<and> know v"
  shows "triple (OK force deletes dst ids) (onB (interfere m)) (\<lambda>v st. OK force deletes dst (ids \<union> gain v) st \<and> know v) (OK force deletes dst ids)"
proof (rule triple_interfere)
  fix s r t assume "good s" "m s = (r, t)"
  then have s: "good s" "m s = (r, t)" "same inv objs refs s t" using assms(1) [of s] by auto
  then show "good t \<and> dom (objs s) \<subseteq> dom (objs t) \<and> helper_fair L (gobjs g) objs refs force deletes dst (s, t) \<and>
      (\<forall>v. r = Inr v \<longrightarrow> gain v \<subseteq> dom (objs t) \<and> know v)"
    using assms(2) [OF s(1)] closed_grown [of L objs refs s t] fair_same by (simp add: same_def)
qed

lemma read_ref_triple:
  assumes "normalize_ref n = n"
  shows "triple (OK force deletes dst ids) (onB (read_ref (interfered B) n))
    (\<lambda>v st. OK force deletes dst (ids \<union> (case v of Some c \<Rightarrow> if in_actions n then {} else reaches L c | None \<Rightarrow> {})) st \<and>
      (\<forall>c. v = Some c \<longrightarrow> valid_oid c)) (OK force deletes dst ids)"
  unfolding interfered_def Backend.simps
proof (rule same_triple)
  fix s v t assume s: "good s" "read_ref B n s = (Inr v, t)"
  then have "v = refs s n" using cell_ref [of s n v t] assms by simp
  then show "(case v of Some c \<Rightarrow> if in_actions n then {} else reaches L c | None \<Rightarrow> {}) \<subseteq> dom (objs s) \<and> (\<forall>c. v = Some c \<longrightarrow> valid_oid c)"
    using s(1) by (auto simp: closed_store_def split: option.split)
qed (rule ref_same)

lemma list_triple:
  "triple (OK force deletes dst ids) (onB (list_refs (interfered B) ''refs/''))
    (\<lambda>rs st. OK force deletes dst (ids \<union> \<Union> {reaches L x |n x. \<lparr>ref_name = n, ref_oid = Some x\<rparr> \<in> set rs \<and> \<not> in_actions n}) st \<and>
      (\<forall>n x. \<lparr>ref_name = n, ref_oid = Some x\<rparr> \<in> set rs \<longrightarrow> valid_oid x)) (OK force deletes dst ids)"
  unfolding interfered_def Backend.simps
proof (rule same_triple)
  fix s rs t assume s: "good s" "list_refs B ''refs/'' s = (Inr rs, t)"
  have "refs s n = Some x" if "\<lparr>ref_name = n, ref_oid = Some x\<rparr> \<in> set rs" for n x
    using list_sound [of s rs t] s that by auto
  then show "\<Union> {reaches L x |n x. \<lparr>ref_name = n, ref_oid = Some x\<rparr> \<in> set rs \<and> \<not> in_actions n} \<subseteq> dom (objs s) \<and>
      (\<forall>n x. \<lparr>ref_name = n, ref_oid = Some x\<rparr> \<in> set rs \<longrightarrow> valid_oid x)"
    using s(1) unfolding closed_store_def by blast
qed (rule list_same)

lemma has_triple:
  "triple (OK force deletes dst ids) (onB (has_object (interfered B) x))
    (\<lambda>v st. OK force deletes dst (ids \<union> (if v then {x} else {})) st) (OK force deletes dst ids)"
proof -
  have "triple (OK force deletes dst ids) (onB (interfere (has_object B x)))
      (\<lambda>v st. OK force deletes dst (ids \<union> (if v then {x} else {})) st \<and> True) (OK force deletes dst ids)"
    by (rule same_triple [OF has_same]) (use has_sound in \<open>auto split: if_splits\<close>)
  then show ?thesis by (simp add: interfered_def)
qed

lemma write_triple:
  "triple (OK force deletes dst ids) (onB (write_object (interfered B) x d)) (\<lambda>_. OK force deletes dst (ids \<union> {x})) (OK force deletes dst ids)"
proof -
  have "triple (OK force deletes dst ids) (onB (interfere (write_object B x d)))
      (\<lambda>_ st. OK force deletes dst (ids \<union> {x}) st \<and> True) (OK force deletes dst ids)"
  proof (rule triple_interfere)
    fix s r t assume s: "good s" "write_object B x d s = (r, t)"
    then have "grown inv objs refs {x} s t" using write_grown [of s x d] by simp
    then show "good t \<and> dom (objs s) \<subseteq> dom (objs t) \<and> helper_fair L (gobjs g) objs refs force deletes dst (s, t) \<and>
        (\<forall>v. r = Inr v \<longrightarrow> {x} \<subseteq> dom (objs t) \<and> True)"
      using s write_sound [of s x d] closed_grown [of L objs refs s t] fair_same by (auto simp: grown_def)
  qed
  then show ?thesis by (simp add: interfered_def)
qed

lemma cas_triple:
  assumes "valid_oid x" and "normalize_ref n = n"
    and "in_actions n \<or> n = dst \<and> \<not> deletes \<and> reaches L x \<subseteq> ids \<and> (force \<or> (\<forall>c. e = Some c \<longrightarrow> git_ancestor (gobjs g) c x))"
  shows "triple (OK force deletes dst ids) (onB (cas_ref (interfered B) n e x)) (\<lambda>_. OK force deletes dst ids) (OK force deletes dst ids)"
proof -
  have "triple (OK force deletes dst ids) (onB (interfere (cas_ref B n e x))) (\<lambda>_ st. OK force deletes dst (ids \<union> {}) st \<and> True) (OK force deletes dst ids)"
  proof (rule triple_interfere)
    fix s r t assume s: "good s" "ids \<subseteq> dom (objs s)" "cas_ref B n e x s = (r, t)"
    note c = cell_cas [OF conjunct1 [OF s(1)] assms(1) s(3), unfolded assms(2)]
    then consider "refs t = refs s" | "refs s n = e" "refs t = (refs s)(n \<mapsto> x)" by blast
    then have "closed_store L objs refs t \<and> helper_fair L (gobjs g) objs refs force deletes dst (s, t)"
    proof cases
      case 1
      then show ?thesis using s(1) c closed_grown [of L objs refs s t] fair_same by simp
    next
      case 2
      have "closed_store L objs refs t"
        using closed_upd [of L objs refs s t n "Some x"] s(1,2) c 2 assms(1,3) by auto
      moreover have "helper_fair L (gobjs g) objs refs force deletes dst (s, t)"
        using 2 assms(3) s(2) unfolding helper_fair_def by blast
      ultimately show ?thesis ..
    qed
    then show "good t \<and> dom (objs s) \<subseteq> dom (objs t) \<and> helper_fair L (gobjs g) objs refs force deletes dst (s, t) \<and>
        (\<forall>v. r = Inr v \<longrightarrow> {} \<subseteq> dom (objs t) \<and> True)"
      using c by simp
  qed
  then show ?thesis by (simp add: interfered_def)
qed

lemma delete_triple:
  assumes "normalize_ref dst = dst"
  shows "triple (OK force True dst ids) (onB (delete_ref (interfered B) dst)) (\<lambda>_. OK force True dst ids) (OK force True dst ids)"
proof -
  have "triple (OK force True dst ids) (onB (interfere (delete_ref B dst))) (\<lambda>_ st. OK force True dst (ids \<union> {}) st \<and> True) (OK force True dst ids)"
  proof (rule triple_interfere)
    fix s r t assume s: "good s" "delete_ref B dst s = (r, t)"
    note c = cell_delete [OF conjunct1 [OF s(1)] s(2), unfolded assms]
    have "closed_store L objs refs t"
      using c s(1) closed_grown [of L objs refs s t] closed_upd [of L objs refs s t dst None] by auto
    moreover have "helper_fair L (gobjs g) objs refs force True dst (s, t)" using c by (auto simp: helper_fair_def)
    ultimately show "good t \<and> dom (objs s) \<subseteq> dom (objs t) \<and> helper_fair L (gobjs g) objs refs force True dst (s, t) \<and>
        (\<forall>v. r = Inr v \<longrightarrow> {} \<subseteq> dom (objs t) \<and> True)"
      using c by simp
  qed
  then show ?thesis by (simp add: interfered_def)
qed

end

lemma git_process_triple:
  assumes "\<And>r g'. git_run G argv stdin g = (r, g') \<Longrightarrow> g' = g \<and> know r"
  shows "triple (helper_ok gd objs fair g ids) (git_process G argv stdin) (\<lambda>r st. helper_ok gd objs fair g ids st \<and> know r) E"
proof (rule tripleI)
  fix st r t assume st: "helper_ok gd objs fair g ids st" "git_process G argv stdin st = (Inr r, t)"
  obtain w s where ws: "st = (w, s)" by (cases st)
  have g: "hs_git w = g" using st(1) ws by (simp add: helper_ok_def)
  obtain r' g' where run: "git_run G argv stdin g = (r', g')" by (cases "git_run G argv stdin g")
  have "g' = g \<and> know r'" using assms [OF run] .
  moreover have "r = r'" "t = (w\<lparr>hs_git := g'\<rparr>, s)" using st(2) ws g run by (auto simp: git_process_def)
  ultimately show "helper_ok gd objs fair g ids t \<and> know r" using st(1) ws g by (simp add: helper_ok_def shared_ok_def)
next
  fix st e t assume "helper_ok gd objs fair g ids st" "git_process G argv stdin st = (Inl e, t)"
  then show "E t" by (auto simp: git_process_def split: prod.splits)
qed

context helper_push
begin

lemma git_has_triple:
  assumes "valid_oid x"
  shows "triple (OK force deletes dst ids) (git_has_object G H (oid_value x)) (\<lambda>v st. OK force deletes dst ids st \<and> v = (x \<in> dom (gobjs g))) (OK force deletes dst ids)"
  unfolding git_has_object_def
proof (rule triple_bind [OF git_process_triple [where know = "\<lambda>(rc, _, _). (rc = 0) = (x \<in> dom (gobjs g))"]])
  show "g' = g \<and> (case r of (rc, _, _) \<Rightarrow> (rc = 0) = (x \<in> dom (gobjs g)))"
    if "git_run G (git_argv H (hp_git_dir H) [''cat-file'', ''-e'', oid_value x]) [] g = (r, g')" for r g'
    using has_law [OF assms, of g] that by (cases r) auto
qed (auto intro!: triple_return)

lemma git_cat_triple: "triple (OK force deletes dst ids) (git_cat_file_raw h G H am x) (\<lambda>_. OK force deletes dst ids) (OK force deletes dst ids)"
  unfolding git_cat_file_raw_def
proof (rule triple_bind [OF git_process_triple [where know = "\<lambda>_. True"]])
  show "g' = g \<and> True" if "git_run G (git_argv H (hp_git_dir H) [''cat-file'', ''--batch'']) (oid_value x @ [NL]) g = (r, g')" for r g'
    using batch_law [OF that] by simp
qed (auto intro!: triple_lift)

lemma rev_parse_triple: "triple (OK force deletes dst ids) (git_rev_parse G H src) (\<lambda>_. OK force deletes dst ids) (OK force deletes dst ids)"
  unfolding git_rev_parse_def
proof (rule triple_bind [OF git_process_triple [where know = "\<lambda>_. True"]])
  show "g' = g \<and> True" if "git_run G (git_argv H (hp_git_dir H) [''rev-parse'', ''--verify'', src]) [] g = (r, g')" for r g'
    using parse_law [OF that] by simp
  show "triple (\<lambda>st. OK force deletes dst ids st \<and> True)
      (case v of (rc, out, err) \<Rightarrow>
        bindS (liftR (decode_utf8 out)) (\<lambda>out.
        bindS (liftR (decode_utf8 err)) (\<lambda>err.
        if rc \<noteq> 0 then raiseS (RuntimeError (''could not resolve '' @ repr_str src @ '': '' @ strip_by is_space (universal_newlines err)))
        else returnS (strip_by is_space (universal_newlines out))))) (\<lambda>_. OK force deletes dst ids) (OK force deletes dst ids)" for v
    by (cases v) (auto intro!: triple_bind [where M = "\<lambda>_. OK force deletes dst ids"] triple_lift triple_raise triple_return)
qed

lemma ancestor_triple:
  assumes "valid_oid c" and "valid_oid x"
  shows "triple (OK force deletes dst ids) (is_ancestor G H c x) (\<lambda>v st. OK force deletes dst ids st \<and> (v \<longrightarrow> git_ancestor (gobjs g) c x)) (OK force deletes dst ids)"
  unfolding is_ancestor_def
proof (rule triple_bind [OF git_process_triple [where know = "\<lambda>(rc, _, _). rc = 0 \<longrightarrow> git_ancestor (gobjs g) c x"]])
  show "g' = g \<and> (case r of (rc, _, _) \<Rightarrow> rc = 0 \<longrightarrow> git_ancestor (gobjs g) c x)"
    if "git_run G (git_argv H (hp_git_dir H) [''merge-base'', ''--is-ancestor'', oid_value c, oid_value x]) [] g = (r, g')" for r g'
    using base_law [OF assms, of g] that by (cases r) auto
qed (auto intro!: triple_return)

lemma known_triple:
  assumes "list_all valid_oid es"
  shows "triple (OK force deletes dst ids) (git_known G H (map oid_value es))
    (\<lambda>v st. OK force deletes dst ids st \<and> v = map oid_value (filter (\<lambda>e. e \<in> dom (gobjs g)) es)) (OK force deletes dst ids)"
  using assms
proof (induction es)
  case (Cons e es)
  then have e: "valid_oid e" and IH: "triple (OK force deletes dst ids) (git_known G H (map oid_value es))
    (\<lambda>v st. OK force deletes dst ids st \<and> v = map oid_value (filter (\<lambda>e. e \<in> dom (gobjs g)) es)) (OK force deletes dst ids)" by simp_all
  show ?case
    unfolding list.map git_known.simps
    by (intro triple_bind [OF git_has_triple [OF e]] triple_fact triple_bind [OF IH] triple_return) auto
qed (auto intro!: triple_return)

text \<open>What has to be uploaded: the commit reaches nothing but listed objects and what the excluded ones reach.\<close>

lemma rev_list_covers:
  assumes "valid_oid x" and "\<And>e. e \<in> set es \<Longrightarrow> valid_oid e \<and> e \<in> dom (gobjs g)"
    and "\<And>y. y \<in> git_reach (gobjs g) x \<Longrightarrow> (\<exists>e \<in> set es. y \<in> git_reach (gobjs g) e) \<or> (y \<in> dom (gobjs g) \<and> y \<in> set listed)"
  shows "reaches L x \<subseteq> set listed \<union> (\<Union>e \<in> set es. reaches L e)"
proof
  fix y assume "y \<in> reaches L x"
  then have "(y \<in> git_reach (gobjs g) x \<and> y \<in> set listed \<and> y \<in> dom (gobjs g)) \<or> (\<exists>e \<in> set es. y \<in> reaches L e)"
  proof (induction rule: reaches_induct)
    case base
    show ?case using assms(3) [of x] reaches_links by auto
  next
    case (step y z)
    from step.IH show ?case
    proof
      assume y: "y \<in> git_reach (gobjs g) x \<and> y \<in> set listed \<and> y \<in> dom (gobjs g)"
      then have "z \<in> links_in git_links (gobjs g) y" using step.hyps(2) agree by (auto simp: links_in_def)
      then have "z \<in> git_reach (gobjs g) x" using reaches_step y by blast
      then show ?thesis using assms(3) [of z] reaches_links by blast
    qed (use step.hyps(2) reaches_step in blast)
  qed
  then show "y \<in> set listed \<union> (\<Union>e \<in> set es. reaches L e)" by blast
qed

lemma rev_list_triple:
  assumes "valid_oid x" and "list_all valid_oid es"
  shows "triple (OK force deletes dst ids) (git_rev_list_objects G H (oid_value x) (map oid_value es))
    (\<lambda>v st. OK force deletes dst ids st \<and> reaches L x \<subseteq> set v \<union> (\<Union>e \<in> set es. reaches L e)) (OK force deletes dst ids)"
proof -
  let ?es = "filter (\<lambda>e. e \<in> dom (gobjs g)) es"
  let ?argv = "git_argv H (hp_git_dir H) ([''rev-list'', ''--objects'', oid_value x] @ map (\<lambda>e. CHR ''^'' # oid_value e) ?es)"
  let ?know = "\<lambda>(rc, out, err). rc = 0 \<longrightarrow> (\<forall>v. rev_list_ids out = Inr v \<longrightarrow> reaches L x \<subseteq> set v \<union> (\<Union>e \<in> set es. reaches L e))"
  have es: "valid_oid e \<and> e \<in> dom (gobjs g)" if "e \<in> set ?es" for e using that assms(2) by (auto simp: list_all_iff)
  have law: "g' = g \<and> ?know r" if run: "git_run G ?argv [] g = (r, g')" for r g'
  proof -
    obtain rc out err where r: "r = (rc, out, err)" by (cases r)
    have l: "g' = g \<and> (rc = 0 \<longrightarrow> (\<exists>ls. out = concat (map (\<lambda>l. l @ [NL]) ls) \<and>
        (\<forall>y \<in> git_reach (gobjs g) x. (\<exists>e \<in> set ?es. y \<in> git_reach (gobjs g) e) \<or>
           valid_oid y \<and> y \<in> dom (gobjs g) \<and> (\<exists>l \<in> set ls. l = oid_value y \<or> startswith l (oid_value y @ [SP])))))"
      using list_law [OF assms(1) es run [unfolded r]] by blast
    have "reaches L x \<subseteq> set v \<union> (\<Union>e \<in> set ?es. reaches L e)" if "rc = 0" "rev_list_ids out = Inr v" for v
    proof (rule rev_list_covers [OF assms(1) es])
      fix y assume "y \<in> git_reach (gobjs g) x"
      then show "(\<exists>e \<in> set ?es. y \<in> git_reach (gobjs g) e) \<or> (y \<in> dom (gobjs g) \<and> y \<in> set v)"
        using l that rev_list_ids_listed [of _ v y] by blast
    qed
    then show ?thesis using l r by fastforce
  qed
  have checked: "triple (OK force deletes dst ids) (git_checked G ?argv [])
      (\<lambda>out st. OK force deletes dst ids st \<and> (\<forall>v. rev_list_ids out = Inr v \<longrightarrow> reaches L x \<subseteq> set v \<union> (\<Union>e \<in> set es. reaches L e)))
      (OK force deletes dst ids)"
    unfolding git_checked_def
    by (rule triple_bind [OF git_process_triple [where know = ?know, OF law]]) (auto intro!: triple_if triple_return triple_raise)
  show ?thesis
    unfolding git_rev_list_objects_def
    apply (rule triple_bind [OF known_triple [OF assms(2)]])
    apply (rule triple_fact)
    apply (simp only: map_map o_def)
    apply (rule triple_bind [OF checked])
    apply (auto intro!: triple_lift)
    done
qed

end

context helper_push
begin

text \<open>More known objects may be forgotten again.\<close>

lemma OK_less:
  assumes "triple (OK force deletes dst ids) m Q (OK force deletes dst ids)" and "ids \<subseteq> ids'" and "ids'' \<subseteq> ids"
  shows "triple (OK force deletes dst ids') m Q (OK force deletes dst ids'')"
proof (rule triple_weaken [OF assms(1)])
  show "OK force deletes dst ids s" if "OK force deletes dst ids' s" for s by (rule helper_ok_mono [OF that assms(2)])
  show "OK force deletes dst ids'' s" if "OK force deletes dst ids s" for s by (rule helper_ok_mono [OF that assms(3)])
qed

lemma upload_triple:
  "triple (OK force deletes dst ids) (push_upload h G (interfered B) H oids)
    (\<lambda>v. OK force deletes dst (ids \<union> (if v = None then set oids else {}))) (OK force deletes dst ids)"
proof (induction oids arbitrary: ids)
  case Nil
  show ?case unfolding push_upload.simps by (rule triple_return) simp
next
  case (Cons x oids)
  have rest: "triple (OK force deletes dst (insert x ids)) (push_upload h G (interfered B) H oids)
      (\<lambda>v. OK force deletes dst (ids \<union> (if v = None then set (x # oids) else {}))) (OK force deletes dst ids)"
    by (rule triple_weaken [OF Cons.IH [of "insert x ids"]]) (auto elim!: helper_ok_mono split: if_splits)
  have there: "triple (OK force deletes dst ids) (bindS (git_cat_file_raw h G H False x) (\<lambda>data.
      case data of
        None \<Rightarrow> returnS (Some (''object-missing-locally:'' @ oid_value x))
      | Some data \<Rightarrow> bindS (onB (write_object (interfered B) x data)) (\<lambda>_. push_upload h G (interfered B) H oids)))
      (\<lambda>v. OK force deletes dst (ids \<union> (if v = None then set (x # oids) else {}))) (OK force deletes dst ids)"
    by (intro triple_bind [OF git_cat_triple] triple_option triple_return triple_bind [OF write_triple]) (use rest in auto)
  show ?case
    unfolding push_upload.simps
  proof (rule triple_bind [OF has_triple], rule triple_if, goal_cases)
    case (1 v)
    then show ?case by (intro triple_pre [OF rest]) simp
  next
    case (2 v)
    then show ?case by (intro triple_pre [OF there]) simp
  qed
qed

lemma swap_triple:
  assumes "valid_oid x" and "normalize_ref dst = dst" and "\<not> deletes"
    and "in_actions dst \<or> reaches L x \<subseteq> ids \<and> (force \<or> (\<forall>c. e = Some c \<longrightarrow> git_ancestor (gobjs g) c x))"
  shows "triple (OK force deletes dst ids) (push_swap_ref (interfered B) force dst e x) (\<lambda>_. OK force deletes dst ids) (OK force deletes dst ids)"
proof -
  have again: "triple (OK True deletes dst ids) (bindS (onB (read_ref (interfered B) dst)) (\<lambda>fresh.
      bindS (onB (cas_ref (interfered B) dst fresh x)) (\<lambda>swapped. returnS (if swapped then None else Some ''cas-conflict''))))
      (\<lambda>_. OK True deletes dst ids) (OK True deletes dst ids)" if force
  proof (rule triple_bind [where M = "\<lambda>_. OK True deletes dst ids"])
    show "triple (OK True deletes dst ids) (onB (read_ref (interfered B) dst)) (\<lambda>_. OK True deletes dst ids) (OK True deletes dst ids)"
      by (rule triple_post [OF read_ref_triple [OF assms(2)]]) (auto elim!: helper_ok_mono)
  qed (intro triple_bind [OF cas_triple] triple_return, use assms in auto)
  show ?thesis
    unfolding push_swap_ref_def
    by (intro triple_bind [OF cas_triple] triple_if triple_return) (use assms again in auto)
qed

lemma trigger_actions: "in_actions (trigger_ref H x)" "normalize_ref (trigger_ref H x) = trigger_ref H x"
  by (simp_all add: in_actions_def trigger_ref_def startswith_def normalize_ref_def)

lemma trigger_triple:
  assumes "valid_oid x"
  shows "triple (OK force deletes dst ids) (write_push_trigger h (interfered B) H ref x) (\<lambda>_. OK force deletes dst ids) (OK force deletes dst ids)"
proof -
  have blob: "valid_oid (blob_id (blob_from_data h d))" for d
    using valid_from_bytes [OF digest] by (simp add: blob_from_data_def object_id_def)
  have "triple (OK force deletes dst ids) (bindS (onB (write_object (interfered B) (blob_id (blob_from_data h d)) c)) (\<lambda>_.
      bindS (onB (read_ref (interfered B) (trigger_ref H x))) (\<lambda>current.
      bindS (onB (cas_ref (interfered B) (trigger_ref H x) current (blob_id (blob_from_data h d)))) (\<lambda>_. returnS ()))))
      (\<lambda>_. OK force deletes dst ids) (OK force deletes dst ids)" for d c
  proof (rule triple_bind [where M = "\<lambda>_. OK force deletes dst ids"], goal_cases)
    case 1
    show ?case by (rule triple_post [OF write_triple]) (auto elim!: helper_ok_mono)
  next
    case (2 v)
    show ?case
    proof (rule triple_bind [where M = "\<lambda>_. OK force deletes dst ids"], goal_cases)
      case 1
      show ?case by (rule triple_post [OF read_ref_triple [OF trigger_actions(2)]]) (auto elim!: helper_ok_mono)
    qed (intro triple_bind [OF cas_triple [OF blob trigger_actions(2)]] triple_return, auto simp: trigger_actions(1))
  qed
  then show ?thesis unfolding write_push_trigger_def Let_def by (auto intro!: triple_if triple_return)
qed

lemma queue_triple:
  assumes "\<And>ref y. keeps (OK force deletes dst {}) (queue ref y)"
  shows "triple (OK force deletes dst {}) (queue_push_workflows queue ref x) (\<lambda>_. OK force deletes dst {}) (OK force deletes dst {})"
  unfolding queue_push_workflows_def
  by (intro triple_if triple_catch [where F = "OK force deletes dst {}"] triple_return) (use assms in \<open>simp_all add: triple_keeps\<close>)

lemma excludes_triple:
  "triple (OK force deletes dst ids) (push_excludes (interfered B) dst current)
    (\<lambda>v st. \<exists>es. v = map oid_value es \<and> (\<forall>e \<in> set es. current = Some e \<or> valid_oid e) \<and>
      OK force deletes dst (ids \<union> (\<Union>e \<in> {e \<in> set es. current \<noteq> Some e}. reaches L e)) st) (OK force deletes dst ids)"
  unfolding push_excludes_def
proof (rule triple_bind [OF list_triple], rule triple_return, goal_cases)
  case (1 rs st)
  define es where "es = (case current of None \<Rightarrow> [] | Some c \<Rightarrow> [c]) @ concat (map (\<lambda>r. case ref_oid r of
      None \<Rightarrow> [] | Some x \<Rightarrow> if ref_name r = dst \<or> startswith (ref_name r) ''refs/actions/'' then [] else [x]) rs)"
  have eq: "map oid_value es = (case current of None \<Rightarrow> [] | Some c \<Rightarrow> [oid_value c]) @ concat (map (\<lambda>r. case ref_oid r of
      None \<Rightarrow> [] | Some x \<Rightarrow> if ref_name r = dst \<or> startswith (ref_name r) ''refs/actions/'' then [] else [oid_value x]) rs)"
    unfolding es_def map_append map_concat map_map by (auto intro!: arg_cong [where f = concat] split: option.split)
  have mem: "\<exists>n. \<lparr>ref_name = n, ref_oid = Some e\<rparr> \<in> set rs \<and> \<not> in_actions n" if e: "e \<in> set es" "current \<noteq> Some e" for e
  proof -
    obtain r where r: "r \<in> set rs" "ref_oid r = Some e" "\<not> in_actions (ref_name r)"
      using e unfolding es_def by (auto simp: in_actions_def split: option.splits if_splits)
    then show ?thesis by (intro exI [of _ "ref_name r"]) (cases r, simp)
  qed
  have valid: "current = Some e \<or> valid_oid e" if "e \<in> set es" for e using mem [OF that] 1 by blast
  have "(\<Union>e \<in> {e \<in> set es. current \<noteq> Some e}. reaches L e) \<subseteq>
      \<Union> {reaches L x |n x. \<lparr>ref_name = n, ref_oid = Some x\<rparr> \<in> set rs \<and> \<not> in_actions n}"
  proof (rule UN_least)
    fix e assume "e \<in> {e \<in> set es. current \<noteq> Some e}"
    then obtain n where "\<lparr>ref_name = n, ref_oid = Some e\<rparr> \<in> set rs" "\<not> in_actions n" using mem by auto
    then show "reaches L e \<subseteq> \<Union> {reaches L x |n x. \<lparr>ref_name = n, ref_oid = Some x\<rparr> \<in> set rs \<and> \<not> in_actions n}"
      by (intro Union_upper CollectI exI [of _ n] exI [of _ e] conjI refl)
  qed
  then have "OK force deletes dst (ids \<union> (\<Union>e \<in> {e \<in> set es. current \<noteq> Some e}. reaches L e)) st"
    by (intro helper_ok_mono [OF conjunct1 [OF 1]] Un_mono subset_refl)
  then show ?case unfolding eq [symmetric] using valid by blast
qed

end

context helper_push
begin

lemma objects_triple:
  assumes "valid_oid x" and "normalize_ref dst = dst" and "\<And>ref y. keeps (OK force False dst {}) (queue ref y)"
    and "in_actions dst \<or> reaches L x \<subseteq> ids \<union> set oids \<and> (force \<or> (\<forall>c. e = Some c \<longrightarrow> git_ancestor (gobjs g) c x))"
  shows "triple (OK force False dst ids) (push_objects h G (interfered B) H queue force dst e x oids) (\<lambda>_. OK force False dst {}) (OK force False dst {})"
proof -
  have tail: "triple (OK force False dst {}) (bindS (write_push_trigger h (interfered B) H dst x) (\<lambda>_.
      bindS (queue_push_workflows queue dst x) (\<lambda>_. returnS (reply_ok dst)))) (\<lambda>_. OK force False dst {}) (OK force False dst {})"
    by (intro triple_bind [OF trigger_triple [OF assms(1)]] triple_bind [OF queue_triple] triple_return) (use assms(3) in auto)
  have swap: "triple (OK force False dst (ids \<union> set oids)) (bindS (push_swap_ref (interfered B) force dst e x) (\<lambda>stop.
      case stop of Some why \<Rightarrow> returnS (reply_error dst why)
      | None \<Rightarrow> bindS (write_push_trigger h (interfered B) H dst x) (\<lambda>_. bindS (queue_push_workflows queue dst x) (\<lambda>_. returnS (reply_ok dst)))))
      (\<lambda>_. OK force False dst {}) (OK force False dst {})"
  proof (rule triple_bind [where M = "\<lambda>_. OK force False dst {}"], goal_cases)
    case 1
    show ?case by (rule triple_weaken [OF swap_triple [OF assms(1,2), of False "ids \<union> set oids"]]) (use assms(4) in \<open>auto elim!: helper_ok_mono\<close>)
  qed (intro triple_option tail triple_return, simp)
  show ?thesis
    unfolding push_objects_def
  proof (rule triple_bind [where M = "\<lambda>v. OK force False dst (ids \<union> (if v = None then set oids else {}))"], goal_cases)
    case 1
    show ?case by (rule triple_weaken [OF upload_triple [where ids = ids]]) (auto elim!: helper_ok_mono)
  next
    case (2 stop)
    show ?case
    proof (rule triple_option, goal_cases)
      case 1
      then show ?case using swap by simp
    qed (auto intro!: triple_return elim!: helper_ok_mono)
  qed
qed

lemma collect_triple:
  assumes "valid_oid x" and "normalize_ref dst = dst" and "\<And>ref y. keeps (OK force False dst {}) (queue ref y)"
    and "\<And>c. e = Some c \<Longrightarrow> valid_oid c \<and> (in_actions dst \<or> reaches L c \<subseteq> ids)"
    and "force \<or> (\<forall>c. e = Some c \<longrightarrow> git_ancestor (gobjs g) c x)"
  shows "triple (OK force False dst ids) (push_collect h G (interfered B) H queue force dst e x) (\<lambda>_. OK force False dst {}) (OK force False dst {})"
  unfolding push_collect_def
proof (rule triple_bind [where M = "\<lambda>v st. \<exists>es. v = map oid_value es \<and> list_all valid_oid es \<and>
      OK force False dst (ids \<union> (\<Union>e' \<in> {e' \<in> set es. e \<noteq> Some e'}. reaches L e')) st"], goal_cases)
  case 1
  show ?case
  proof (rule triple_weaken [OF excludes_triple [where force = force and deletes = False and dst = dst and ids = ids and current = e]], goal_cases)
    case (2 v st)
    then obtain es where es: "v = map oid_value es" "\<forall>e' \<in> set es. e = Some e' \<or> valid_oid e'"
      "OK force False dst (ids \<union> (\<Union>e' \<in> {e' \<in> set es. e \<noteq> Some e'}. reaches L e')) st" by blast
    then have "list_all valid_oid es" using assms(4) by (auto simp: list_all_iff)
    then show ?case using es(1,3) by blast
  qed (auto elim!: helper_ok_mono)
next
  case (2 excludes)
  show ?case
  proof (intro triple_ex triple_fact2, goal_cases)
    case (1 es)
    let ?ids = "ids \<union> (\<Union>e' \<in> {e' \<in> set es. e \<noteq> Some e'}. reaches L e')"
    have listed: "triple (OK force False dst ?ids) (bindS (git_rev_list_objects G H (oid_value x) excludes) (\<lambda>objects. returnS (Inr objects)))
        (\<lambda>v st. OK force False dst ?ids st \<and> (\<forall>os. v = Inr os \<longrightarrow> reaches L x \<subseteq> set os \<union> (\<Union>e' \<in> set es. reaches L e'))) (OK force False dst ?ids)"
      unfolding 1(1) by (intro triple_bind [OF rev_list_triple [OF assms(1) 1(2)]] triple_return) auto
    show ?case
    proof (rule triple_bind [where M = "\<lambda>v st. OK force False dst ?ids st \<and> (\<forall>os. v = Inr os \<longrightarrow> reaches L x \<subseteq> set os \<union> (\<Union>e' \<in> set es. reaches L e'))"],
        goal_cases)
      case 1
      show ?case
        by (rule triple_catch [OF listed]) (auto intro!: triple_return triple_raise elim!: helper_ok_mono split: error.split)
    next
      case (2 objects)
      show ?case
      proof (cases objects)
        case (Inl why)
        then show ?thesis by (auto intro!: triple_return elim!: helper_ok_mono)
      next
        case (Inr os)
        have "in_actions dst \<or> reaches L x \<subseteq> ?ids \<union> set os" if "reaches L x \<subseteq> set os \<union> (\<Union>e' \<in> set es. reaches L e')"
          using that assms(4) by blast
        then show ?thesis unfolding Inr sum.case
          by (intro triple_fact objects_triple [OF assms(1-3)]) (use assms(5) in blast)
      qed
    qed
  qed
qed

end

definition calm_queue :: "('g helper_state \<times> 's shared \<Rightarrow> bool) \<Rightarrow> (string \<Rightarrow> ObjectId \<Rightarrow> ('g, 's shared, unit) helper) \<Rightarrow> bool" where
  "calm_queue P queue \<longleftrightarrow> (\<forall>ref y. keeps P (queue ref y))"

context helper_push
begin

lemma update_ref_triple:
  assumes "valid_oid x" and "normalize_ref dst = dst" and "calm_queue (OK force False dst {}) queue"
  shows "triple (OK force False dst {}) (push_update_ref h G (interfered B) H queue force dst x) (\<lambda>_. OK force False dst {}) (OK force False dst {})"
  unfolding push_update_ref_def
proof (rule triple_bind [OF read_ref_triple [OF assms(2)]], rule triple_fact, goal_cases)
  case (1 e)
  let ?ids = "{} \<union> (case e of Some c \<Rightarrow> if in_actions dst then {} else reaches L c | None \<Rightarrow> {})"
  let ?forward = "force \<or> (\<forall>c. e = Some c \<longrightarrow> git_ancestor (gobjs g) c x)"
  have queue: "keeps (OK force False dst {}) (queue ref y)" for ref y using assms(3) by (simp add: calm_queue_def)
  show ?case
  proof (rule triple_bind [where M = "\<lambda>v st. OK force False dst ?ids st \<and> (v \<longrightarrow> ?forward)"], goal_cases)
    case 1
    show ?case
    proof (cases e)
      case (Some c)
      have anc: "triple (OK force False dst ?ids) (is_ancestor G H c x) (\<lambda>v st. OK force False dst ?ids st \<and> (v \<longrightarrow> ?forward)) (OK force False dst {})"
        by (rule triple_weaken [OF ancestor_triple [OF _ assms(1), where ids = ?ids]]) (use \<open>\<forall>c. e = Some c \<longrightarrow> valid_oid c\<close> Some in \<open>auto elim!: helper_ok_mono\<close>)
      show ?thesis using anc Some by (auto intro!: triple_return)
    qed (auto intro!: triple_return)
  next
    case (2 v)
    have ready: "triple (OK force False dst ?ids) (push_collect h G (interfered B) H queue force dst e x) (\<lambda>_. OK force False dst {}) (OK force False dst {})"
      if ?forward
      by (rule collect_triple [OF assms(1,2) queue]) (use \<open>\<forall>c. e = Some c \<longrightarrow> valid_oid c\<close> that in auto)
    show ?case
      by (intro triple_fact triple_if triple_return triple_bind [where M = "\<lambda>_. OK force False dst ?ids"] triple_gets)
        (use ready in \<open>auto elim!: helper_ok_mono\<close>)
  qed
qed

lemma delete_ref_triple:
  assumes "normalize_ref dst = dst"
  shows "triple (OK force True dst {}) (push_delete (interfered B) dst) (\<lambda>_. OK force True dst {}) (OK force True dst {})"
  unfolding push_delete_def
proof (rule triple_bind [where M = "\<lambda>_. OK force True dst {}"], goal_cases)
  case 1
  show ?case by (rule triple_post [OF read_ref_triple [OF assms]]) (auto elim!: helper_ok_mono)
next
  case (2 v)
  show ?case
    by (intro triple_if triple_return triple_catch [where F = "OK force True dst {}"] triple_bind [OF delete_triple [OF assms]])
      (auto intro!: triple_return triple_raise split: error.split)
qed

lemma push_one_triple:
  assumes "split1 '':'' (if startswith spec ''+'' then drop 1 spec else spec) = Some (src, d)"
    and "calm_queue (OK (startswith spec ''+'') (src = []) (normalize_ref d) {}) queue"
  shows "triple (OK (startswith spec ''+'') (src = []) (normalize_ref d) {}) (push_one h G (interfered B) H queue spec)
    (\<lambda>_. OK (startswith spec ''+'') (src = []) (normalize_ref d) {}) (OK (startswith spec ''+'') (src = []) (normalize_ref d) {})"
proof -
  let ?force = "startswith spec ''+''" and ?dst = "normalize_ref d"
  have norm: "normalize_ref ?dst = ?dst" using ref_name_roundtrip [of d "[]"] by simp
  have run: "push_one h G (interfered B) H queue spec = (if src = [] then push_delete (interfered B) ?dst
      else bindS (catchS (bindS (git_rev_parse G H src) (\<lambda>t. bindS (liftR (mk_ObjectId t)) (\<lambda>x. returnS (Inr x))))
          (\<lambda>e. case e of RuntimeError m \<Rightarrow> returnS (Inl m) | _ \<Rightarrow> raiseS e)) (\<lambda>new_oid.
        case new_oid of Inl m \<Rightarrow> returnS (reply_error ?dst m)
        | Inr new_oid \<Rightarrow> push_update_ref h G (interfered B) H queue ?force ?dst new_oid))"
    using assms(1) by (simp add: push_one_def Let_def)
  show ?thesis
  proof (cases "src = []")
    case True
    then show ?thesis using delete_ref_triple [OF norm, of ?force] run by simp
  next
    case False
    let ?OK = "OK ?force False ?dst {}"
    have parsed: "triple ?OK (catchS (bindS (git_rev_parse G H src) (\<lambda>t. bindS (liftR (mk_ObjectId t)) (\<lambda>x. returnS (Inr x))))
        (\<lambda>e. case e of RuntimeError m \<Rightarrow> returnS (Inl m) | _ \<Rightarrow> raiseS e))
        (\<lambda>v st. ?OK st \<and> (\<forall>x. v = Inr x \<longrightarrow> valid_oid x)) ?OK"
    proof (rule triple_catch [where F = ?OK], goal_cases)
      case 1
      show ?case
        by (intro triple_bind [OF rev_parse_triple] triple_bind [where M = "\<lambda>x st. ?OK st \<and> valid_oid x"] triple_lift triple_return)
          (auto simp: valid_oid_def)
    qed (auto intro!: triple_return triple_raise split: error.split)
    have "triple ?OK (push_one h G (interfered B) H queue spec) (\<lambda>_. ?OK) ?OK"
      unfolding run if_not_P [OF False]
    proof (rule triple_bind [OF parsed], rule triple_fact, goal_cases)
      case (1 v)
      then show ?case
        using update_ref_triple [OF _ norm, of _ ?force queue] assms(2) False
        by (cases v) (auto intro!: triple_return)
    qed
    then show ?thesis using False by simp
  qed
qed

end

text \<open>C15: a push through the remote helper, against a store that other clients change between any two calls, every call
  and every command failing at any time. If the store is closed (every reference has all the objects it
  needs) and the others keep it so, then it is closed afterwards; and every call of the helper leaves the
  references alone, writes below \<^verbatim>\<open>refs/actions/\<close>, deletes the named reference when the push is a deletion, or
  moves the named reference to a commit all of whose objects are in the store, forward in the history
  unless the push is forced.\<close>

theorem helper_push_keeps_closed:
  assumes "backend_cells h B good objs refs" and "git_reader G H gobjs" and "digest20 h"
    and "\<And>x d. gobjs (hs_git w) x = Some d \<Longrightarrow> L x = git_links d"
    and "good s" and "closed_store L objs refs s"
    and "calm_others (\<lambda>s. good s \<and> closed_store L objs refs s) objs others"
    and "split1 '':'' (if startswith spec ''+'' then drop 1 spec else spec) = Some (src, d)"
    and "fair = helper_fair L (gobjs (hs_git w)) objs refs (startswith spec ''+'') (src = []) (normalize_ref d)"
    and "calm_queue (helper_ok (\<lambda>s. good s \<and> closed_store L objs refs s) objs fair (hs_git w) {}) queue"
    and "push_one h G (interfered B) H queue spec (w, s, others, []) = (res, (w', s', rest, log))"
  shows "good s' \<and> closed_store L objs refs s' \<and> (\<forall>e \<in> set log. fair e)"
proof -
  have loc: "helper_push h B good objs refs G H gobjs L (hs_git w)"
    using assms(1-4) by (simp add: helper_push_def helper_push_axioms_def)
  have start: "helper_ok (\<lambda>s. good s \<and> closed_store L objs refs s) objs fair (hs_git w) {} (w, s, others, [])"
    using assms(5-7) by (simp add: helper_ok_def shared_ok_def)
  have "helper_ok (\<lambda>s. good s \<and> closed_store L objs refs s) objs fair (hs_git w) {} (w', s', rest, log)"
    using triple_end [OF helper_push.push_one_triple [OF loc assms(8) assms(10) [unfolded assms(9)]] start [unfolded assms(9)],
        where R = "helper_ok (\<lambda>s. good s \<and> closed_store L objs refs s) objs fair (hs_git w) {}"] assms(9,11) by simp
  then show ?thesis by (simp add: helper_ok_def shared_ok_def)
qed

section \<open>An instance\<close>

definition here :: Helper where
  "here = \<lparr>hp_remote_name = ''origin'', hp_git_dir = ''/w/.git'', hp_git_bin = ''git'', hp_repo_name = ''demo'', hp_pusher = ''me'',
    hp_now = (\<lambda>_ _. \<lparr>dt_us = min_ts * 1000000, dt_off = Some 0\<rparr>), hp_tmp = (\<lambda>_. ''/tmp/x'')\<rparr>"

definition only_hash :: hash where
  "only_hash = (\<lambda>_. replicate 20 NUL)"

definition only_oid :: ObjectId where
  "only_oid = ObjectId (replicate 40 (CHR ''0''))"

definition git_one :: "plain_repos helper_state" where
  "git_one = \<lparr>hs_git = [(''/w/.git'', [(only_oid, canonical_object ''blob'' ''hi'')])], hs_options = [], hs_out = []\<rparr>"

definition push_only :: "string res \<times> plain_repos helper_state \<times> Memory shared" where
  "push_only = push_one only_hash (plain_git only_hash) (interfered (memory_backend only_hash)) here (\<lambda>_ _. returnS ())
    (oid_value only_oid @ '':main'') (git_one, memory_init, [], [])"

theorem helper_push_keeps_closed_witness:
  "case push_only of (res, w', s', rest, log) \<Rightarrow>
    closed_store (links_in git_links (plain_store (hs_git git_one) ''/w/.git'')) memory_objs memory_refs s' \<and>
    list_all (helper_fair (links_in git_links (plain_store (hs_git git_one) ''/w/.git'')) (plain_store (hs_git git_one) ''/w/.git'')
      memory_objs memory_refs False False ''refs/heads/main'') log"
proof -
  let ?L = "links_in git_links (plain_store (hs_git git_one) ''/w/.git'')" and ?spec = "oid_value only_oid @ '':main''"
  obtain res w' s' rest log where run: "push_only = (res, (w', s', rest, log))" by (metis prod.collapse)
  have parts: "split1 '':'' (if startswith ?spec ''+'' then drop 1 ?spec else ?spec) = Some (oid_value only_oid, ''main'')"
    "startswith ?spec ''+'' = False" "(oid_value only_oid = []) = False" "normalize_ref ''main'' = ''refs/heads/main''"
    by code_simp+
  have digest: "digest20 only_hash" by (simp add: digest20_def only_hash_def)
  have closed: "closed_store ?L memory_objs memory_refs memory_init" by (simp add: closed_store_def memory_init_def)
  have quiet: "calm_queue P (\<lambda>_ _. returnS ())" for P by (simp add: calm_queue_def)
  have dir: "hp_git_dir here = ''/w/.git''" by (simp add: here_def)
  show ?thesis
    unfolding run prod.case
    using helper_push_keeps_closed [OF memory_cells.backend_cells_axioms plain.git_reader_axioms digest _ memory_inv_init closed _ parts(1) refl quiet
        run [unfolded push_only_def]]
      parts dir
    by (simp add: links_in_def calm_others_def list_all_iff)
qed

text \<open>Git prints names of files as they are, and the helper splits the output at every character that ends a line for
  Python: a vertical tab in the name of a file makes the rest of the name a line of its own, and the push
  raises an exception.\<close>

lemma rev_list_splits_names:
  "rev_list_ids (oid_value only_oid @ '' a'' @ [CHR 0x0B] @ ''b'' @ [NL]) = Inl (ValueError ''invalid SHA-1 object id'')"
  by code_simp

end
