(* ===== verification/GitFetch.thy ===== *)
theory GitFetch
  imports GitModel
begin

text \<open>
  What a fetch through the remote helper brings. \<open>fetch_queue_ok\<close>: the breadth-first walk visits everything that the
  head reaches, and it ends after as many rounds as there are references between the objects.
  \<open>install_ok\<close>: the objects that Git did not have are packed into its repository. Together,
  \<open>helper_fetch_brings_closure\<close>.
\<close>

section \<open>Commands of git that succeed\<close>

lemma hex_chars: "valid_oid x \<Longrightarrow> c \<in> set (oid_value x) \<Longrightarrow> ordc c < 128 \<and> c \<noteq> SP \<and> c \<noteq> NL \<and> \<not> is_space c"
  using valid_oid_ascii [of x c] valid_oid_no_NL [of x] by (auto simp: is_space_def ordc_def)

lemma kind_chars: "k \<in> {''blob'', ''tree'', ''commit'', ''tag''} \<Longrightarrow> c \<in> set k \<Longrightarrow> ordc c < 128 \<and> c \<noteq> SP \<and> c \<noteq> NL"
  by (auto simp: ordc_def)

lemma dec_chars: "c \<in> set (dec n) \<Longrightarrow> ordc c < 128 \<and> c \<noteq> SP \<and> c \<noteq> NL"
  using dec_ascii [of c n] by (auto simp: ordc_def)

lemma ascii_replace_id: "(\<And>c. c \<in> set s \<Longrightarrow> ordc c < 128) \<Longrightarrow> ascii_replace s = s"
  unfolding ascii_replace_def by (induction s) auto

lemma cat_file_hit:
  assumes "valid_oid x" and "k \<in> {''blob'', ''tree'', ''commit'', ''tag''}" and "from_bytes h (canonical_object k p) = x"
  shows "cat_file_result h am x 0 (oid_value x @ [SP] @ k @ [SP] @ dec (length p) @ [NL] @ p @ [NL]) err = Inr (Some (canonical_object k p))"
proof -
  let ?head = "oid_value x @ [SP] @ k @ [SP] @ dec (length p)"
  have chars: "ordc c < 128 \<and> c \<noteq> NL" if "c \<in> set ?head" for c
    using that hex_chars [OF assms(1), of c] kind_chars [OF assms(2), of c] dec_chars [of c] by (auto simp: ordc_def)
  have line: "split1 [NL] (?head @ NL # p @ [NL]) = Some (?head, p @ [NL])" using chars by (intro split1_char) blast
  have "split_on SP ?head = [oid_value x, k, dec (length p)]"
    using split_on_append [of SP "oid_value x" "k @ [SP] @ dec (length p)"] split_on_append [of SP k "dec (length p)"]
      split_on_absent [of SP "oid_value x"] split_on_absent [of SP k] split_on_absent [of SP "dec (length p)"]
      hex_chars [OF assms(1)] kind_chars [OF assms(2)] dec_chars by fastforce
  moreover have "ascii_replace ?head = ?head" using chars by (intro ascii_replace_id) blast
  moreover have "k \<noteq> ''missing''" using assms(2) by auto
  moreover have "list_all (\<lambda>c. ordc c < 128) k" using kind_chars [OF assms(2)] by (simp add: list_all_iff)
  moreover have "k @ [SP] @ int_str (int (length p)) @ [NUL] @ slice_to ?head (p @ [NL]) (int (length p)) = canonical_object k p"
    by (simp add: canonical_object_def slice_to_def Let_def int_str_def)
  moreover have "hex_bytes (h (canonical_object k p)) = oid_value x" using assms(3) by (auto simp: from_bytes_def)
  ultimately show ?thesis using line by (simp add: cat_file_result_def Let_def)
qed

context git_writer
begin

abbreviation main :: "'g \<Rightarrow> ObjectId \<Rightarrow> bytes option" where
  "main g \<equiv> store g (hp_git_dir H)"

lemma git_has_run: "valid_oid x \<Longrightarrow> git_has_object G H (oid_value x) (w, s) = (Inr (x \<in> dom (main (hs_git w))), (w, s))"
  using has_law [of x "hs_git w"]
  by (cases "git_run G (git_argv H (hp_git_dir H) [''cat-file'', ''-e'', oid_value x]) [] (hs_git w)"; cases "fst (git_run G (git_argv H (hp_git_dir H) [''cat-file'', ''-e'', oid_value x]) [] (hs_git w))")
    (auto simp: git_has_object_def git_process_def bindS_def)

lemma git_cat_run:
  assumes "valid_oid x" and "main (hs_git w) x = Some (canonical_object k p)" and "k \<in> {''blob'', ''tree'', ''commit'', ''tag''}"
    and "from_bytes h (canonical_object k p) = x"
  shows "git_cat_file_raw h G H am x (w, s) = (Inr (Some (canonical_object k p)), (w, s))"
proof -
  obtain r g' where run: "git_run G (git_argv H (hp_git_dir H) [''cat-file'', ''--batch'']) (oid_value x @ [NL]) (hs_git w) = (r, g')"
    by (cases "git_run G (git_argv H (hp_git_dir H) [''cat-file'', ''--batch'']) (oid_value x @ [NL]) (hs_git w)")
  have "g' = hs_git w" by (rule batch_law [OF run])
  moreover have "r = (0, oid_value x @ [SP] @ k @ [SP] @ dec (length p) @ [NL] @ p @ [NL], [])"
    using batch_hit [OF assms(1-3)] run by simp
  ultimately show ?thesis
    using run cat_file_hit [OF assms(1,3,4), of am "[]"] by (simp add: git_cat_file_raw_def git_process_def bindS_def liftR_def)
qed

end

section \<open>The walk\<close>

text \<open>\<open>fetchable\<close>: the objects of \<open>D\<close> are well-formed objects of the store that refer to each other only, and what Git has of them
  is the same.\<close>

definition refs_of :: "(ObjectId \<Rightarrow> bytes option) \<Rightarrow> ObjectId \<Rightarrow> ObjectId list" where
  "refs_of st x = (case st x of None \<Rightarrow> [] | Some d \<Rightarrow> (case referenced_shas d of Inl _ \<Rightarrow> [] | Inr ls \<Rightarrow> ls))"

definition fetchable :: "(string \<Rightarrow> bytes \<Rightarrow> bool) \<Rightarrow> (ObjectId \<Rightarrow> bytes option) \<Rightarrow> (ObjectId \<Rightarrow> bytes option) \<Rightarrow> ObjectId set \<Rightarrow> bool" where
  "fetchable well_formed local st D \<longleftrightarrow> finite D \<and>
    (\<forall>x \<in> D. valid_oid x \<and> (\<exists>k p. st x = Some (canonical_object k p) \<and> k \<in> {''blob'', ''tree'', ''commit'', ''tag''} \<and> well_formed k p) \<and>
      ok (referenced_shas (the (st x))) \<and> set (refs_of st x) \<subseteq> D \<and> (\<forall>d. local x = Some d \<longrightarrow> st x = Some d))"

definition rounds :: "(ObjectId \<Rightarrow> bytes option) \<Rightarrow> ObjectId set \<Rightarrow> nat" where
  "rounds st D = (\<Sum>x \<in> D. length (refs_of st x))"

lemma fetchableD:
  assumes "fetchable well_formed local st D" and "x \<in> D"
  shows "\<exists>k p. valid_oid x \<and> st x = Some (canonical_object k p) \<and> k \<in> {''blob'', ''tree'', ''commit'', ''tag''} \<and> well_formed k p \<and>
    referenced_shas (canonical_object k p) = Inr (refs_of st x) \<and> set (refs_of st x) \<subseteq> D \<and>
    (x \<in> dom local \<longrightarrow> local x = Some (canonical_object k p))"
proof -
  obtain k p where kp: "valid_oid x" "st x = Some (canonical_object k p)" "k \<in> {''blob'', ''tree'', ''commit'', ''tag''}" "well_formed k p"
    "ok (referenced_shas (the (st x)))" "set (refs_of st x) \<subseteq> D" "\<forall>d. local x = Some d \<longrightarrow> st x = Some d"
    using assms unfolding fetchable_def by blast
  moreover have "referenced_shas (canonical_object k p) = Inr (refs_of st x)" using kp(2,5) by (auto simp: refs_of_def ok_iff)
  ultimately show ?thesis by auto
qed

text \<open>\<open>walked st local D vs queue objects\<close>: what holds when \<open>vs\<close> have been visited.\<close>

definition walked :: "(ObjectId \<Rightarrow> bytes option) \<Rightarrow> (ObjectId \<Rightarrow> bytes option) \<Rightarrow> ObjectId set \<Rightarrow> ObjectId set \<Rightarrow> ObjectId set \<Rightarrow> (ObjectId, bytes) dict \<Rightarrow> bool" where
  "walked st local D vs queue objects \<longleftrightarrow>
    vs \<subseteq> D \<and> queue \<subseteq> D \<and> (\<forall>v \<in> vs. set (refs_of st v) \<subseteq> vs \<union> queue) \<and> wf_dict objects \<and> map_of objects = st |` (vs - dom local)"

lemma walked_visit:
  assumes "walked st local D vs (insert x queue) objects" and "set (refs_of st x) \<subseteq> D"
    and "objects' = (if x \<in> dom local then objects else AList.update x d objects)" and "st x = Some d" and "x \<in> dom local \<or> x \<notin> vs"
  shows "walked st local D (insert x vs) (queue \<union> set (refs_of st x)) objects'"
proof -
  have "map_of objects' = st |` (insert x vs - dom local)"
    using assms(1,3,4) by (auto simp: walked_def fun_eq_iff restrict_map_def)
  then show ?thesis using assms unfolding walked_def by (auto split: if_splits)
qed

lemma rounds_drop: "finite D \<Longrightarrow> x \<in> D \<Longrightarrow> rounds st D = length (refs_of st x) + rounds st (D - {x})"
  unfolding rounds_def by (simp add: sum.remove)

lemma oid_value_mem: "oid_value x \<in> set (map oid_value vs) \<longleftrightarrow> x \<in> set vs"
  using ObjectId.expand by auto

locale helper_fetch =
  backend h B inv objs refs + git_writer G H store h well_formed packs
  for h :: hash and B :: "'s Backend" and inv :: "'s \<Rightarrow> bool" and objs :: "'s \<Rightarrow> ObjectId \<Rightarrow> bytes option"
    and refs :: "'s \<Rightarrow> string \<Rightarrow> ObjectId option" and G :: "'g git" and H :: Helper and store :: "'g \<Rightarrow> string \<Rightarrow> ObjectId \<Rightarrow> bytes option"
    and well_formed :: "string \<Rightarrow> bytes \<Rightarrow> bool" and packs :: "bytes \<Rightarrow> (ObjectId \<Rightarrow> bytes option) \<Rightarrow> bool"
begin

lemma fetch_queue_step:
  assumes "fetchable well_formed (main (hs_git w)) (objs s) D" and "x \<in> D" and "x \<notin> set vs" and "inv s"
  shows "\<exists>s1 d. same inv objs refs s s1 \<and> objs s x = Some d \<and>
    fetch_queue h G B H (Suc n) (x # queue) (map oid_value vs) objects (w, s) =
      fetch_queue h G B H n (queue @ refs_of (objs s) x) (map oid_value (x # vs))
        (if x \<in> dom (main (hs_git w)) then objects else AList.update x d objects) (w, s1)"
proof -
  obtain k p where x: "valid_oid x" "objs s x = Some (canonical_object k p)" "k \<in> {''blob'', ''tree'', ''commit'', ''tag''}"
    "referenced_shas (canonical_object k p) = Inr (refs_of (objs s) x)" "x \<in> dom (main (hs_git w)) \<longrightarrow> main (hs_git w) x = Some (canonical_object k p)"
    using fetchableD [OF assms(1,2)] by blast
  have id: "from_bytes h (canonical_object k p) = x" by (rule content [OF assms(4) x(2)])
  define s1 where "s1 = snd (read_object B x s)"
  have rd: "read_object B x s = (Inr (canonical_object k p), s1)" using read_hit [OF assms(4) x(2)] by (simp add: s1_def prod_eq_iff)
  have same: "same inv objs refs s s1" using read_same [OF assms(4), of x] by (simp add: s1_def)
  note step = git_has_run [OF x(1), of w s] x(4) oid_value_mem [of x vs] assms(3)
  show ?thesis
  proof (cases "x \<in> dom (main (hs_git w))")
    case True
    then have "git_cat_file_raw h G H True x (w, s) = (Inr (Some (canonical_object k p)), (w, s))"
      using git_cat_run [OF x(1) _ x(3) id, of w] x(5) by simp
    then show ?thesis using step True x(2) same_refl [of inv s] assms(4)
      by (intro exI [of _ s] exI [of _ "canonical_object k p"]) (simp add: bindS_def liftR_def)
  next
    case False
    then show ?thesis using step rd x(2) same
      by (intro exI [of _ s1] exI [of _ "canonical_object k p"]) (simp add: bindS_def liftR_def catchS_def onB_def)
  qed
qed

lemma fetch_queue_ok:
  assumes "fetchable well_formed (main (hs_git w)) (objs s) D" and "inv s"
    and "walked (objs s) (main (hs_git w)) D (set vs) (set queue) objects" and "length queue + rounds (objs s) (D - set vs) \<le> n"
  shows "\<exists>s' vs' objects'. fetch_queue h G B H n queue (map oid_value vs) objects (w, s) = (Inr objects', (w, s')) \<and>
    same inv objs refs s s' \<and> set vs \<union> set queue \<subseteq> vs' \<and> walked (objs s) (main (hs_git w)) D vs' {} objects'"
  using assms
proof (induction n arbitrary: queue vs objects s)
  case 0
  then show ?case using same_refl [of inv s] by (intro exI [of _ s] exI [of _ "set vs"] exI [of _ objects]) simp
next
  case (Suc n)
  show ?case
  proof (cases queue)
    case Nil
    then show ?thesis using Suc.prems same_refl [of inv s]
      by (intro exI [of _ s] exI [of _ "set vs"] exI [of _ objects]) simp
  next
    case (Cons x q)
    show ?thesis
    proof (cases "x \<in> set vs")
      case True
      have "walked (objs s) (main (hs_git w)) D (set vs) (set q) objects"
        using Suc.prems(3) Cons True by (auto simp: walked_def)
      then show ?thesis using Suc.IH [OF Suc.prems(1,2), of vs q objects] Suc.prems(4) Cons True oid_value_mem [of x vs] by auto
    next
      case False
      have x: "x \<in> D" using Suc.prems(3) Cons by (simp add: walked_def)
      obtain s1 d where s1: "same inv objs refs s s1" "objs s x = Some d"
        "fetch_queue h G B H (Suc n) queue (map oid_value vs) objects (w, s) =
          fetch_queue h G B H n (q @ refs_of (objs s) x) (map oid_value (x # vs))
            (if x \<in> dom (main (hs_git w)) then objects else AList.update x d objects) (w, s1)"
        using fetch_queue_step [OF Suc.prems(1) x False Suc.prems(2), of n q objects] Cons by blast
      have eq: "objs s1 = objs s" "inv s1" using s1(1) by (simp_all add: same_def)
      have refs: "set (refs_of (objs s) x) \<subseteq> D" using fetchableD [OF Suc.prems(1) x] by blast
      have w: "walked (objs s) (main (hs_git w)) D (insert x (set vs)) (set q \<union> set (refs_of (objs s) x))
          (if x \<in> dom (main (hs_git w)) then objects else AList.update x d objects)"
        by (rule walked_visit [OF _ refs refl s1(2)]) (use Suc.prems(3) Cons False in auto)
      have fin: "finite D" using Suc.prems(1) by (simp add: fetchable_def)
      have "D - insert x (set vs) = (D - set vs) - {x}" by blast
      then have "length (q @ refs_of (objs s) x) + rounds (objs s) (D - set (x # vs)) \<le> n"
        using rounds_drop [of "D - set vs" x "objs s"] fin x False Suc.prems(4) Cons by simp
      then obtain s' vs' objects' where "fetch_queue h G B H n (q @ refs_of (objs s) x) (map oid_value (x # vs))
            (if x \<in> dom (main (hs_git w)) then objects else AList.update x d objects) (w, s1) = (Inr objects', (w, s'))"
          "same inv objs refs s1 s'" "set (x # vs) \<union> set (q @ refs_of (objs s) x) \<subseteq> vs'" "walked (objs s) (main (hs_git w)) D vs' {} objects'"
        using Suc.IH [of s1 "x # vs" "q @ refs_of (objs s) x"] Suc.prems(1) eq w by fastforce
      then show ?thesis using s1(3) same_trans [OF s1(1)] Cons by auto
    qed
  qed
qed

end

section \<open>The pack\<close>

lemma git_checked_run:
  "git_run G argv stdin (hs_git w) = ((0, out, err), g') \<Longrightarrow> git_checked G argv stdin (w, s) = (Inr out, (w\<lparr>hs_git := g'\<rparr>, s))"
  by (simp add: git_checked_def git_process_def bindS_def)

definition stageable :: "hash \<Rightarrow> (string \<Rightarrow> bytes \<Rightarrow> bool) \<Rightarrow> ObjectId \<times> bytes \<Rightarrow> bool" where
  "stageable h well_formed o' \<longleftrightarrow> (case o' of (x, d) \<Rightarrow> valid_oid x \<and> from_bytes h d = x \<and>
    (\<exists>k p. d = canonical_object k p \<and> k \<in> {''blob'', ''tree'', ''commit'', ''tag''} \<and> well_formed k p))"

context git_writer
begin

lemma stage_run:
  assumes "stageable h well_formed o'" and "dir \<noteq> hp_git_dir H"
  shows "\<exists>g'. stage_object G H dir o' (w, s) = (Inr (), (w\<lparr>hs_git := g'\<rparr>, s)) \<and>
    store g' dir = (store (hs_git w) dir)(fst o' \<mapsto> snd o') \<and> main g' = main (hs_git w)"
proof -
  obtain x k p where o': "o' = (x, canonical_object k p)" "valid_oid x" "from_bytes h (canonical_object k p) = x"
    "k \<in> {''blob'', ''tree'', ''commit'', ''tag''}" "well_formed k p"
    using assms(1) by (auto simp: stageable_def)
  obtain rc out err g' where run: "git_run G (git_argv H dir [''hash-object'', ''-w'', ''-t'', k, ''--stdin'']) p (hs_git w) = ((rc, out, err), g')"
    by (metis prod.collapse)
  note law = hash_law [OF run assms(2) o'(4,5)]
  have parse: "parse_canonical_object (canonical_object k p) = Inr (k, p)" using o'(4) parse_canonical_canonical by auto
  have ascii: "decode_ascii (oid_value x @ [NL]) = Inr (oid_value x @ [NL])"
    using hex_chars [OF o'(2)] by (auto simp: decode_ascii_def list_all_iff ordc_def)
  have strip: "strip_by is_space (oid_value x @ [NL]) = oid_value x"
  proof -
    have ne: "oid_value x \<noteq> []" using o'(2) by (auto simp: valid_oid_def valid_oid_str_def)
    have "lstrip_by is_space (oid_value x @ [NL]) = oid_value x @ [NL]"
      using hex_chars [OF o'(2), of "hd (oid_value x)"] ne by (cases "oid_value x") (auto simp: lstrip_by_def)
    moreover have "is_space NL" by (simp add: is_space_def ordc_def)
    moreover have "rstrip_by is_space (oid_value x) = oid_value x" using hex_chars [OF o'(2), of "last (oid_value x)"] ne by (intro rstrip_by_id) auto
    ultimately show ?thesis by (simp add: strip_by_def rstrip_by_drop)
  qed
  have "git_checked G (git_argv H dir [''hash-object'', ''-w'', ''-t'', k, ''--stdin'']) p (w, s) = (Inr (oid_value x @ [NL]), (w\<lparr>hs_git := g'\<rparr>, s))"
    using git_checked_run run law o'(3) by metis
  then show ?thesis
    using law o'(1,3) parse ascii strip
    by (intro exI [of _ g']) (simp add: stage_object_def bindS_def liftR_def)
qed

lemma stage_all_run:
  assumes "list_all (stageable h well_formed) objects" and "dir \<noteq> hp_git_dir H"
  shows "\<exists>g'. iterS (stage_object G H dir) objects (w, s) = (Inr (), (w\<lparr>hs_git := g'\<rparr>, s)) \<and>
    store g' dir = store (hs_git w) dir ++ map_of (rev objects) \<and> main g' = main (hs_git w)"
  using assms(1)
proof (induction objects arbitrary: w)
  case Nil
  then show ?case by (intro exI [of _ "hs_git w"]) simp
next
  case (Cons o' os)
  obtain g1 where g1: "stage_object G H dir o' (w, s) = (Inr (), (w\<lparr>hs_git := g1\<rparr>, s))"
      "store g1 dir = (store (hs_git w) dir)(fst o' \<mapsto> snd o')" "main g1 = main (hs_git w)"
    using stage_run [OF _ assms(2), of o' w s] Cons.prems by auto
  obtain g2 where g2: "iterS (stage_object G H dir) os (w\<lparr>hs_git := g1\<rparr>, s) = (Inr (), (w\<lparr>hs_git := g2\<rparr>, s))"
      "store g2 dir = store g1 dir ++ map_of (rev os)" "main g2 = main g1"
    using Cons.IH [of "w\<lparr>hs_git := g1\<rparr>"] Cons.prems by auto
  show ?case using g1 g2 by (intro exI [of _ g2]) (cases o', simp add: bindS_def)
qed

lemma map_of_rev_wf: "wf_dict d \<Longrightarrow> map_of (rev d) = map_of d"
  unfolding wf_dict_def by (intro map_of_inject_set [THEN iffD2]) (simp_all add: rev_map [symmetric])

text \<open>All objects become objects of the repository, which keeps its own.\<close>

lemma install_ok:
  assumes "objects \<noteq> []" and "list_all (stageable h well_formed) objects" and "wf_dict objects"
    and "tmp @ ''/.git'' \<noteq> hp_git_dir H" and "hp_git_dir H \<noteq> tmp" and "\<not> startswith (hp_git_dir H) (tmp @ ''/'')"
  shows "\<exists>g'. install_objects_via_pack G H tmp objects (w, s) = (Inr (), (w\<lparr>hs_git := g'\<rparr>, s)) \<and> main g' = map_of objects ++ main (hs_git w)"
proof -
  let ?dir = "tmp @ ''/.git''" and ?ids = "map fst objects"
  obtain rc out err g1 where r1: "git_run G [hp_git_bin H, ''init'', ''--bare'', ''-q'', ?dir] [] (hs_git w) = ((rc, out, err), g1)" by (metis prod.collapse)
  note l1 = init_law [OF r1 assms(4)]
  obtain g2 where g2: "iterS (stage_object G H ?dir) objects (w\<lparr>hs_git := g1\<rparr>, s) = (Inr (), (w\<lparr>hs_git := g2\<rparr>, s))"
      "store g2 ?dir = store g1 ?dir ++ map_of (rev objects)" "main g2 = main g1"
    using stage_all_run [OF assms(2,4), of "w\<lparr>hs_git := g1\<rparr>" s] by auto
  have st: "store g2 ?dir = map_of objects" using g2(2) l1 map_of_rev_wf [OF assms(3)] by simp
  obtain rc3 out3 err3 g3 where r3: "git_run G (git_argv H ?dir [''pack-objects'', ''--stdout'']) (join [NL] (map oid_value ?ids) @ [NL]) g2 = ((rc3, out3, err3), g3)"
    by (metis prod.collapse)
  have ids: "?ids \<noteq> []" "list_all valid_oid ?ids" "set ?ids \<subseteq> dom (store g2 ?dir)"
    using assms(1,2) st by (auto simp: list_all_iff stageable_def dom_map_of_conv_image_fst)
  note l3 = pack_law [OF r3 ids]
  have "map_of objects |` set ?ids = map_of objects"
    by (rule ext) (metis map_of_eq_None_iff list.set_map restrict_in restrict_out)
  then have packs: "packs out3 (map_of objects)" using l3 st by simp
  obtain rc4 out4 err4 g4 where r4: "git_run G (git_argv H (hp_git_dir H) [''index-pack'', ''--stdin'']) out3 g3 = ((rc4, out4, err4), g4)"
    by (metis prod.collapse)
  note l4 = index_law [OF r4 packs]
  let ?g5 = "git_rmtree G tmp g4"
  have "main ?g5 = map_of objects ++ main (hs_git w)"
    using rm_law [OF assms(5,6), of g4] l1 g2(3) l3 l4 by simp
  moreover have "install_objects_via_pack G H tmp objects (w, s) = (Inr (), (w\<lparr>hs_git := ?g5\<rparr>, s))"
    using git_checked_run [of G "[hp_git_bin H, ''init'', ''--bare'', ''-q'', ?dir]" "[]" w out err g1 s] r1 l1 g2(1)
      git_checked_run [of G "git_argv H ?dir [''pack-objects'', ''--stdout'']" "join [NL] (map oid_value ?ids) @ [NL]" "w\<lparr>hs_git := g2\<rparr>" out3 err3 g3 s] r3 l3
      git_checked_run [of G "git_argv H (hp_git_dir H) [''index-pack'', ''--stdin'']" out3 "w\<lparr>hs_git := g3\<rparr>" out4 err4 g4 s] r4 l4
    by (simp add: install_objects_via_pack_def with_tempdir_def Let_def bindS_def comp_def)
  ultimately show ?thesis by blast
qed

end

section \<open>The fetch\<close>

definition outside :: "Helper \<Rightarrow> string \<Rightarrow> bool" where
  "outside H tmp \<longleftrightarrow> tmp @ ''/.git'' \<noteq> hp_git_dir H \<and> hp_git_dir H \<noteq> tmp \<and> \<not> startswith (hp_git_dir H) (tmp @ ''/'')"

context helper_fetch
begin

lemma fetch_closure_ok:
  assumes "fetchable well_formed (main (hs_git w)) (objs s) D" and "inv s" and "x \<in> D" and "Suc (rounds (objs s) D) \<le> n"
    and "outside H (hp_tmp H x)"
  shows "\<exists>g' s'. helper_fetch_closure h G B H n x (w, s) = (Inr (), (w\<lparr>hs_git := g'\<rparr>, s')) \<and> same inv objs refs s s' \<and>
    main (hs_git w) \<subseteq>\<^sub>m main g' \<and> (\<forall>y \<in> reaches (\<lambda>x. set (refs_of (objs s) x)) x. main g' y = objs s y)"
proof -
  have "walked (objs s) (main (hs_git w)) D (set []) (set [x]) []" using assms(3) by (auto simp: walked_def)
  moreover have "length [x] + rounds (objs s) (D - set []) \<le> n" using assms(4) by simp
  ultimately obtain s' vs objects where run: "fetch_queue h G B H n [x] [] [] (w, s) = (Inr objects, (w, s'))" "same inv objs refs s s'"
      "x \<in> vs" "walked (objs s) (main (hs_git w)) D vs {} objects"
    using fetch_queue_ok [OF assms(1,2), of "[]" "[x]" "[]" n] by auto
  note wk = run(4) [unfolded walked_def]
  have reach: "y \<in> vs" if "y \<in> reaches (\<lambda>x. set (refs_of (objs s) x)) x" for y
    using that by (induction rule: reaches_induct) (use run(3) wk in auto)
  have stage: "list_all (stageable h well_formed) objects"
    unfolding list_all_iff
  proof
    fix o' assume mem: "o' \<in> set objects"
    obtain y d where o': "o' = (y, d)" "map_of objects y = Some d"
      using wk mem wf_dict_map_of_iff [of objects "fst o'" "snd o'"] by (metis prod.collapse)
    then have y: "y \<in> D" "objs s y = Some d" using wk by (auto simp: restrict_map_def split: if_splits)
    then show "stageable h well_formed o'"
      using fetchableD [OF assms(1) y(1)] content [OF assms(2) y(2)] o'(1) by (auto simp: stageable_def)
  qed
  have "\<exists>g'. helper_fetch_closure h G B H n x (w, s) = (Inr (), (w\<lparr>hs_git := g'\<rparr>, s')) \<and> main g' = map_of objects ++ main (hs_git w)"
  proof (cases "objects = []")
    case True
    then show ?thesis using run(1) by (intro exI [of _ "hs_git w"]) (simp add: helper_fetch_closure_def bindS_def)
  next
    case False
    obtain g' where "install_objects_via_pack G H (hp_tmp H x) objects (w, s') = (Inr (), (w\<lparr>hs_git := g'\<rparr>, s'))"
        "main g' = map_of objects ++ main (hs_git w)"
      using install_ok [OF False stage, of "hp_tmp H x" w s'] wk assms(5) unfolding outside_def by blast
    then show ?thesis using run(1) False by (intro exI [of _ g']) (simp add: helper_fetch_closure_def bindS_def)
  qed
  then obtain g' where g': "helper_fetch_closure h G B H n x (w, s) = (Inr (), (w\<lparr>hs_git := g'\<rparr>, s'))" "main g' = map_of objects ++ main (hs_git w)"
    by blast
  have "main g' y = objs s y" if "y \<in> reaches (\<lambda>x. set (refs_of (objs s) x)) x" for y
  proof -
    have y: "y \<in> vs" "y \<in> D" using reach [OF that] wk by auto
    show ?thesis
    proof (cases "y \<in> dom (main (hs_git w))")
      case True
      then show ?thesis using fetchableD [OF assms(1) y(2)] g'(2) by (auto simp: map_add_def)
    next
      case False
      then show ?thesis using g'(2) wk y(1) by (auto simp: map_add_def restrict_map_def split: option.split)
    qed
  qed
  moreover have "main (hs_git w) \<subseteq>\<^sub>m main g'" using g'(2) by simp
  ultimately show ?thesis using g'(1) run(2) by blast
qed

end

text \<open>C16: a fetch of a commit through the remote helper. If the store has the commit and everything it refers to as
  well-formed objects, and Git's own objects among them are the same, then the fetch ends without an
  exception after one round for each reference between these objects, and the repository of Git has every
  object that the commit reaches, with the bytes of the store, and all it had before.\<close>

theorem helper_fetch_brings_closure:
  assumes "backend h B good objs refs" and "git_writer G H store h well_formed packs"
    and "fetchable well_formed (store (hs_git w) (hp_git_dir H)) (objs s) D" and "good s" and "x \<in> D"
    and "Suc (rounds (objs s) D) \<le> n" and "outside H (hp_tmp H x)"
  shows "\<exists>g' s'. helper_fetch_closure h G B H n x (w, s) = (Inr (), (w\<lparr>hs_git := g'\<rparr>, s')) \<and> same good objs refs s s' \<and>
    store (hs_git w) (hp_git_dir H) \<subseteq>\<^sub>m store g' (hp_git_dir H) \<and>
    (\<forall>y \<in> reaches (\<lambda>x. set (refs_of (objs s) x)) x. store g' (hp_git_dir H) y = objs s y)"
  by (rule helper_fetch.fetch_closure_ok [OF helper_fetch.intro [OF assms(1,2)] assms(3-7)])

section \<open>Instances\<close>

text \<open>A store with one commit on an empty tree, fetched into an empty repository.\<close>

definition fetch_here :: Helper where
  "fetch_here = \<lparr>hp_remote_name = ''origin'', hp_git_dir = ''/w/.git'', hp_git_bin = ''git'', hp_repo_name = ''demo'', hp_pusher = ''me'',
    hp_now = (\<lambda>_ _. \<lparr>dt_us = 0, dt_off = None\<rparr>), hp_tmp = (\<lambda>_. ''/tmp/x'')\<rparr>"

definition two_hash :: hash where
  "two_hash d = replicate 20 (if startswith d ''tree'' then NUL else CHR 0x11)"

definition empty_tree :: ObjectId where
  "empty_tree = ObjectId (replicate 40 (CHR ''0''))"

definition first_commit :: ObjectId where
  "first_commit = ObjectId (replicate 40 (CHR ''1''))"

definition two_objects :: "(ObjectId, bytes) dict" where
  "two_objects = [(empty_tree, canonical_object ''tree'' []), (first_commit, canonical_object ''commit'' (''tree '' @ oid_value empty_tree @ [NL]))]"

definition two_store :: Memory where
  "two_store = memory_init\<lparr>m_objects := two_objects\<rparr>"

definition no_git :: "plain_repos helper_state" where
  "no_git = \<lparr>hs_git = [], hs_options = [], hs_out = []\<rparr>"

lemma two_refs: "refs_of (map_of two_objects) first_commit = [empty_tree]" "refs_of (map_of two_objects) empty_tree = []"
  "ok (referenced_shas (the (map_of two_objects first_commit)))" "ok (referenced_shas (the (map_of two_objects empty_tree)))"
  by code_simp+

lemma two_fetchable: "fetchable (\<lambda>_ _. True) Map.empty (map_of two_objects) {first_commit, empty_tree}"
proof -
  have v: "valid_oid first_commit" "valid_oid empty_tree" by code_simp+
  have "first_commit \<noteq> empty_tree" by code_simp
  then have d: "map_of two_objects first_commit = Some (canonical_object ''commit'' (''tree '' @ oid_value empty_tree @ [NL]))"
    "map_of two_objects empty_tree = Some (canonical_object ''tree'' [])" by (simp_all add: two_objects_def)
  show ?thesis using two_refs v d by (auto simp: fetchable_def)
qed

theorem helper_fetch_brings_closure_witness:
  "\<exists>w' s'. helper_fetch_closure two_hash (plain_git two_hash) (memory_backend two_hash) fetch_here 2 first_commit (no_git, two_store) =
      (Inr (), (w', s')) \<and> plain_store (hs_git w') ''/w/.git'' empty_tree = Some (canonical_object ''tree'' [])"
proof -
  have inv: "memory_inv two_hash two_store"
    by (simp add: memory_inv_def two_store_def two_objects_def memory_init_def) code_simp
  have objs: "memory_objs two_store = map_of two_objects" by (simp add: two_store_def)
  have dir: "hp_git_dir fetch_here = ''/w/.git''" by (simp add: fetch_here_def)
  have empty: "plain_store (hs_git no_git) (hp_git_dir fetch_here) = Map.empty" by (simp add: no_git_def plain_store_def plain_objects_def)
  have "first_commit \<noteq> empty_tree" by code_simp
  then have n: "Suc (rounds (memory_objs two_store) {first_commit, empty_tree}) \<le> 2" by (simp add: objs rounds_def two_refs)
  have out: "outside fetch_here (hp_tmp fetch_here first_commit)" by code_simp
  have "empty_tree \<in> reaches (\<lambda>x. set (refs_of (memory_objs two_store) x)) first_commit"
    by (rule reaches_step [of first_commit]) (simp_all add: objs two_refs)
  moreover have "memory_objs two_store empty_tree = Some (canonical_object ''tree'' [])" by (simp add: objs two_objects_def)
  ultimately show ?thesis
    using helper_fetch_brings_closure [where h = two_hash and H = fetch_here and w = no_git and s = two_store and n = 2 and x = first_commit
        and D = "{first_commit, empty_tree}", OF memory.backend_axioms plain.git_writer_axioms] two_fetchable inv n out empty objs dir by fastforce
qed

text \<open>The walk also follows the entries of submodules, whose commits are not objects of the repository and are never pushed
  (\<open>git_links\<close>): a tree with a submodule cannot be fetched.\<close>

definition submodule_tree :: bytes where
  "submodule_tree = canonical_object ''tree'' (''160000 sub'' @ [NUL] @ replicate 20 (CHR 0x22))"

lemma fetch_submodule_fails:
  "fst (helper_fetch_closure two_hash (plain_git two_hash) (memory_backend two_hash) fetch_here 5 empty_tree
      (no_git, memory_init\<lparr>m_objects := [(empty_tree, submodule_tree)]\<rparr>)) =
    Inl (RuntimeError (''missing object in storage: '' @ replicate 40 (CHR ''2'')))" "git_links submodule_tree = {}"
  by code_simp+

end
