(* ===== verification/Xdr.thy ===== *)
theory Xdr
  imports PyStr
begin

text \<open>
  \<^verbatim>\<open>src/trunks/mount/xdr.py\<close>: the XDR primitives. A \<open>Packer\<close> is its buffer; each packing method
  takes the buffer to the extended one, or raises before it changes anything. An \<open>Unpacker\<close> is
  the data with the offset read so far; its methods are state-passing computations.

  \<open>reads m xs v\<close> says that the reader \<open>m\<close> takes exactly the bytes \<open>xs\<close> and returns \<open>v\<close>; it composes
  along the sequencing of readers, so that the round trip of a message is a chain of the round
  trips of its fields.
\<close>

section \<open>Big-endian integers\<close>

text \<open>\<^verbatim>\<open>struct.pack(">I")\<close> and \<^verbatim>\<open>struct.pack(">Q")\<close> are \<open>be 4\<close> and \<open>be 8\<close>; \<^verbatim>\<open>struct.unpack\<close> and
  \<^verbatim>\<open>int.from_bytes(..., "big")\<close> are \<open>unbe\<close>.\<close>

fun be :: "nat \<Rightarrow> nat \<Rightarrow> bytes" where
  "be 0 n = []"
| "be (Suc w) n = be w (n div 256) @ [chrn (n mod 256)]"

definition unbe :: "bytes \<Rightarrow> nat" where
  "unbe bs = foldl (\<lambda>a c. a * 256 + ordc c) 0 bs"

text \<open>\<^verbatim>\<open>struct.pack(">i")\<close>: two's complement in 32 bits.\<close>

definition be_int32 :: "int \<Rightarrow> bytes" where
  "be_int32 i = be 4 (nat (i mod 2 ^ 32))"

definition unbe_int32 :: "bytes \<Rightarrow> int" where
  "unbe_int32 bs = (if unbe bs < 2 ^ 31 then int (unbe bs) else int (unbe bs) - 2 ^ 32)"

lemma length_be [simp]: "length (be w n) = w"
  by (induction w arbitrary: n) auto

lemma unbe_snoc [simp]: "unbe (bs @ [c]) = unbe bs * 256 + ordc c"
  by (simp add: unbe_def)

lemma unbe_Nil [simp]: "unbe [] = 0"
  by (simp add: unbe_def)

lemma unbe_be_mod: "unbe (be w n) = n mod 256 ^ w"
proof (induction w arbitrary: n)
  case (Suc w)
  have "unbe (be (Suc w) n) = n div 256 mod 256 ^ w * 256 + n mod 256" by (simp add: Suc.IH)
  also have "\<dots> = n mod (256 * 256 ^ w)" by (simp add: mod_mult2_eq mult.commute add.commute)
  finally show ?case by simp
qed simp

lemma unbe_be: "n < 256 ^ w \<Longrightarrow> unbe (be w n) = n"
  by (simp add: unbe_be_mod)

lemma be_eq_iff: "n < 256 ^ w \<Longrightarrow> m < 256 ^ w \<Longrightarrow> be w n = be w m \<longleftrightarrow> n = m"
  by (metis unbe_be)

lemma unbe_less: "unbe bs < 256 ^ length bs"
proof (induction bs rule: rev_induct)
  case (snoc c bs)
  have "unbe bs * 256 + ordc c < (unbe bs + 1) * 256" by simp
  also have "\<dots> \<le> 256 ^ length bs * 256" using snoc.IH by (intro mult_le_mono1) simp
  finally show ?case by (simp add: mult.commute)
qed simp

lemma be_unbe: "be (length bs) (unbe bs) = bs"
  by (induction bs rule: rev_induct) auto

lemma unbe_be_int32:
  assumes "- (2 ^ 31) \<le> i" and "i < 2 ^ 31"
  shows "unbe_int32 (be_int32 i) = i"
proof -
  have n: "nat (i mod 2 ^ 32) < 256 ^ 4" by (simp add: nat_less_iff)
  show ?thesis
  proof (cases "0 \<le> i")
    case True
    then have "i mod 2 ^ 32 = i" using assms by (simp add: mod_pos_pos_trivial)
    then show ?thesis using True assms unbe_be [OF n] by (simp add: unbe_int32_def be_int32_def nat_less_iff)
  next
    case False
    have "i mod 2 ^ 32 = (i + 2 ^ 32) mod 2 ^ 32" by simp
    also have "\<dots> = i + 2 ^ 32" using assms False by (intro mod_pos_pos_trivial) simp_all
    finally have "i mod 2 ^ 32 = i + 2 ^ 32" .
    then show ?thesis using False assms unbe_be [OF n] by (simp add: unbe_int32_def be_int32_def nat_less_iff)
  qed
qed

section \<open>Packer\<close>

type_synonym Packer = bytes

definition padding :: "nat \<Rightarrow> nat" where
  "padding n = nat ((- int n) mod 4)"

definition pack_uint32 :: "int \<Rightarrow> Packer \<Rightarrow> Packer res" where
  "pack_uint32 v p =
    (if v < 0 \<or> v > 0xFFFFFFFF then Inl (XdrError (''uint32 out of range: '' @ int_str v))
     else Inr (p @ be 4 (nat v)))"

definition pack_int32 :: "int \<Rightarrow> Packer \<Rightarrow> Packer res" where
  "pack_int32 v p =
    (if v < - 0x80000000 \<or> v > 0x7FFFFFFF then Inl (XdrError (''int32 out of range: '' @ int_str v))
     else Inr (p @ be_int32 v))"

definition pack_uint64 :: "int \<Rightarrow> Packer \<Rightarrow> Packer res" where
  "pack_uint64 v p =
    (if v < 0 \<or> v > 0xFFFFFFFFFFFFFFFF then Inl (XdrError (''uint64 out of range: '' @ int_str v))
     else Inr (p @ be 8 (nat v)))"

definition pack_bool :: "bool \<Rightarrow> Packer \<Rightarrow> Packer res" where
  "pack_bool b = pack_uint32 (if b then 1 else 0)"

definition pack_fopaque :: "bytes \<Rightarrow> nat \<Rightarrow> Packer \<Rightarrow> Packer res" where
  "pack_fopaque v n p =
    (if length v \<noteq> n then Inl (XdrError (''fixed opaque length mismatch: expected '' @ dec n @ '', got '' @ dec (length v)))
     else Inr (p @ v @ replicate (padding n) NUL))"

definition pack_opaque :: "bytes \<Rightarrow> Packer \<Rightarrow> Packer res" where
  "pack_opaque v p = bindR (pack_uint32 (int (length v)) p) (pack_fopaque v (length v))"

definition pack_string :: "string \<Rightarrow> Packer \<Rightarrow> Packer res" where
  "pack_string v = pack_opaque v"

text \<open>A sequence of packing calls on one packer.\<close>

definition packs :: "(Packer \<Rightarrow> Packer res) list \<Rightarrow> Packer \<Rightarrow> Packer res" where
  "packs fs = (\<lambda>p. foldR (\<lambda>q f. f q) p fs)"

section \<open>Unpacker\<close>

record Unpacker =
  up_data :: bytes
  up_offset :: nat

definition unpacker :: "bytes \<Rightarrow> Unpacker" where
  "unpacker data = \<lparr>up_data = data, up_offset = 0\<rparr>"

definition unp_done :: "Unpacker \<Rightarrow> bool" where
  "unp_done u = (up_offset u = length (up_data u))"

definition unp_read :: "nat \<Rightarrow> (Unpacker, bytes) st" where
  "unp_read n = (\<lambda>u.
    let e = up_offset u + n
    in if e > length (up_data u) then (Inl (XdrError ''truncated XDR data''), u)
       else (Inr (slice (up_offset u) e (up_data u)), u\<lparr>up_offset := e\<rparr>))"

definition unpack_uint32 :: "(Unpacker, nat) st" where
  "unpack_uint32 = bindS (unp_read 4) (\<lambda>b. returnS (unbe b))"

definition unpack_int32 :: "(Unpacker, int) st" where
  "unpack_int32 = bindS (unp_read 4) (\<lambda>b. returnS (unbe_int32 b))"

definition unpack_uint64 :: "(Unpacker, nat) st" where
  "unpack_uint64 = bindS (unp_read 8) (\<lambda>b. returnS (unbe b))"

definition unpack_bool :: "(Unpacker, bool) st" where
  "unpack_bool = bindS unpack_uint32 (\<lambda>v.
    if v \<notin> {0, 1} then raiseS (XdrError (''invalid XDR bool: '' @ dec v)) else returnS (v = 1))"

definition unpack_fopaque :: "nat \<Rightarrow> (Unpacker, bytes) st" where
  "unpack_fopaque n = bindS (unp_read n) (\<lambda>v.
    if padding n \<noteq> 0 then bindS (unp_read (padding n)) (\<lambda>_. returnS v) else returnS v)"

definition unpack_opaque :: "(Unpacker, bytes) st" where
  "unpack_opaque = bindS unpack_uint32 unpack_fopaque"

definition unpack_string :: "(Unpacker, string) st" where
  "unpack_string = bindS unpack_opaque (\<lambda>b. liftR (decode_utf8 b))"

section \<open>Reading what was packed\<close>

definition ahead :: "Unpacker \<Rightarrow> bytes \<Rightarrow> bool" where
  "ahead u bs \<longleftrightarrow> up_offset u \<le> length (up_data u) \<and> drop (up_offset u) (up_data u) = bs"

definition reads :: "(Unpacker, 'a) st \<Rightarrow> bytes \<Rightarrow> 'a \<Rightarrow> bool" where
  "reads m xs v \<longleftrightarrow>
    (\<forall>u rest. ahead u (xs @ rest) \<longrightarrow> (\<exists>u'. m u = (Inr v, u') \<and> ahead u' rest \<and> up_data u' = up_data u))"

lemma ahead_unpacker [simp]: "ahead (unpacker bs) bs"
  by (simp add: ahead_def unpacker_def)

lemma readsI:
  "(\<And>u rest. ahead u (xs @ rest) \<Longrightarrow> \<exists>u'. m u = (Inr v, u') \<and> ahead u' rest \<and> up_data u' = up_data u)
   \<Longrightarrow> reads m xs v"
  by (auto simp: reads_def)

lemma readsE:
  assumes "reads m xs v" and "ahead u (xs @ rest)"
  obtains u' where "m u = (Inr v, u')" and "ahead u' rest" and "up_data u' = up_data u"
  using assms by (auto simp: reads_def)

lemma reads_return [intro]: "reads (returnS v) [] v"
  by (auto simp: reads_def)

lemma reads_bind:
  assumes "reads m xs v" and "reads (f v) ys w"
  shows "reads (bindS m f) (xs @ ys) w"
proof (rule readsI)
  fix u rest assume "ahead u ((xs @ ys) @ rest)"
  then have "ahead u (xs @ ys @ rest)" by simp
  with assms(1) obtain u1 where 1: "m u = (Inr v, u1)" "ahead u1 (ys @ rest)" "up_data u1 = up_data u"
    by (rule readsE)
  from assms(2) 1(2) obtain u2 where "f v u1 = (Inr w, u2)" "ahead u2 rest" "up_data u2 = up_data u1"
    by (rule readsE)
  with 1 show "\<exists>u'. bindS m f u = (Inr w, u') \<and> ahead u' rest \<and> up_data u' = up_data u"
    by (auto simp: bindS_def)
qed

lemma reads_bind_return: "reads m xs v \<Longrightarrow> reads (bindS m (\<lambda>x. returnS (f x))) xs (f v)"
  using reads_bind [of m xs v "\<lambda>x. returnS (f x)" "[]"] by auto

text \<open>A reader that takes all that is left, from data \<open>R\<close>.\<close>

definition reads_all :: "bytes \<Rightarrow> (Unpacker, 'a) st \<Rightarrow> bytes \<Rightarrow> 'a \<Rightarrow> bool" where
  "reads_all R m xs v \<longleftrightarrow> (\<forall>u. ahead u xs \<and> up_data u = R \<longrightarrow> fst (m u) = Inr v)"

lemma reads_all_bind:
  assumes "reads m xs v" and "reads_all R (f v) ys w"
  shows "reads_all R (bindS m f) (xs @ ys) w"
  unfolding reads_all_def
proof (intro allI impI, elim conjE)
  fix u assume "ahead u (xs @ ys)" and R: "up_data u = R"
  with assms(1) obtain u' where "m u = (Inr v, u')" "ahead u' ys" "up_data u' = up_data u" by (metis readsE)
  with assms(2) R show "fst (bindS m f u) = Inr w" by (simp add: reads_all_def bindS_def)
qed

lemma reads_all_reads: "reads m xs v \<Longrightarrow> reads_all R m (xs @ ys) v"
  unfolding reads_all_def by (metis readsE fst_conv)

lemma reads_read: "length xs = n \<Longrightarrow> reads (unp_read n) xs xs"
proof (rule readsI)
  fix u rest assume n: "length xs = n" and a: "ahead u (xs @ rest)"
  then have l: "length (up_data u) = up_offset u + n + length rest"
    by (metis ahead_def le_add_diff_inverse length_append length_drop add.assoc)
  have "drop (up_offset u + n) (up_data u) = rest"
    using a n by (metis ahead_def append_eq_conv_conj drop_drop add.commute)
  then show "\<exists>u'. unp_read n u = (Inr xs, u') \<and> ahead u' rest \<and> up_data u' = up_data u"
    using a l n by (auto simp: unp_read_def slice_def ahead_def Let_def)
qed

lemma reads_uint32: "n < 2 ^ 32 \<Longrightarrow> reads unpack_uint32 (be 4 n) n"
  using reads_bind_return [OF reads_read, of "be 4 n" 4 unbe] unbe_be [of n 4]
  by (simp add: unpack_uint32_def)

lemma reads_uint64: "n < 2 ^ 64 \<Longrightarrow> reads unpack_uint64 (be 8 n) n"
  using reads_bind_return [OF reads_read, of "be 8 n" 8 unbe] unbe_be [of n 8]
  by (simp add: unpack_uint64_def)

lemma reads_int32: "- (2 ^ 31) \<le> i \<Longrightarrow> i < 2 ^ 31 \<Longrightarrow> reads unpack_int32 (be_int32 i) i"
  using reads_bind_return [OF reads_read, of "be_int32 i" 4 unbe_int32] unbe_be_int32 [of i]
  by (simp add: unpack_int32_def be_int32_def)

lemma reads_bool: "reads unpack_bool (be 4 (if b then 1 else 0)) b"
proof -
  have "reads unpack_bool (be 4 (if b then 1 else 0) @ []) b"
    unfolding unpack_bool_def by (rule reads_bind [OF reads_uint32]) (auto intro: reads_return)
  then show ?thesis by simp
qed

definition enc_opaque :: "bytes \<Rightarrow> bytes" where
  "enc_opaque v = be 4 (length v) @ v @ replicate (padding (length v)) NUL"

lemma reads_fopaque: "length v = n \<Longrightarrow> reads (unpack_fopaque n) (v @ replicate (padding n) NUL) v"
  unfolding unpack_fopaque_def
  by (intro reads_bind [OF reads_read])
    (auto intro!: reads_bind_return [OF reads_read, where f = "\<lambda>_. v"] reads_return)

lemma reads_opaque: "length v < 2 ^ 32 \<Longrightarrow> reads unpack_opaque (enc_opaque v) v"
  unfolding unpack_opaque_def enc_opaque_def by (intro reads_bind [OF reads_uint32] reads_fopaque) auto

lemma reads_lift: "r = Inr v \<Longrightarrow> reads (liftR r) [] v"
  by (auto simp: reads_def)

lemma reads_string: "length v < 2 ^ 32 \<Longrightarrow> is_str v \<Longrightarrow> reads unpack_string (enc_opaque v) v"
proof -
  assume "length v < 2 ^ 32" and "is_str v"
  then have "reads unpack_string (enc_opaque v @ []) v"
    unfolding unpack_string_def by (intro reads_bind [OF reads_opaque] reads_lift) simp_all
  then show ?thesis by simp
qed

lemma pack_uint32_ok: "0 \<le> v \<Longrightarrow> v < 2 ^ 32 \<Longrightarrow> pack_uint32 v p = Inr (p @ be 4 (nat v))"
  by (simp add: pack_uint32_def)

lemma pack_opaque_eq:
  "pack_opaque v p =
    (if length v < 2 ^ 32 then Inr (p @ enc_opaque v)
     else Inl (XdrError (''uint32 out of range: '' @ int_str (int (length v)))))"
  by (auto simp: pack_opaque_def pack_uint32_def pack_fopaque_def enc_opaque_def)

lemma packs_simps [simp]:
  "packs [] p = Inr p"
  "packs (f # fs) p = bindR (f p) (packs fs)"
  by (simp_all add: packs_def)

lemma padding_mod: "(n + padding n) mod 4 = 0"
proof -
  have "int (n + padding n) mod 4 = 0" by (simp add: padding_def mod_add_right_eq)
  then show ?thesis by (metis of_nat_eq_0_iff of_nat_mod of_nat_numeral)
qed

lemma padding_less: "padding n < 4"
  by (simp add: padding_def nat_less_iff)

section \<open>Messages\<close>

text \<open>A message as the sequence of its fields, how they are packed and how a reader that knows their
  types takes them back.\<close>

datatype field = Uint32 int | Int32 int | Uint64 int | Flag bool | Opaque bytes | Fixed bytes | Text string

fun field_ok :: "field \<Rightarrow> bool" where
  "field_ok (Uint32 v) = (0 \<le> v \<and> v < 2 ^ 32)"
| "field_ok (Int32 v) = (- (2 ^ 31) \<le> v \<and> v < 2 ^ 31)"
| "field_ok (Uint64 v) = (0 \<le> v \<and> v < 2 ^ 64)"
| "field_ok (Flag b) = True"
| "field_ok (Opaque v) = (length v < 2 ^ 32)"
| "field_ok (Fixed v) = True"
| "field_ok (Text v) = (length v < 2 ^ 32 \<and> is_str v)"

fun pack_field :: "field \<Rightarrow> Packer \<Rightarrow> Packer res" where
  "pack_field (Uint32 v) = pack_uint32 v"
| "pack_field (Int32 v) = pack_int32 v"
| "pack_field (Uint64 v) = pack_uint64 v"
| "pack_field (Flag b) = pack_bool b"
| "pack_field (Opaque v) = pack_opaque v"
| "pack_field (Fixed v) = pack_fopaque v (length v)"
| "pack_field (Text v) = pack_string v"

text \<open>Reading a field of the type of the given one.\<close>

fun unpack_like :: "field \<Rightarrow> (Unpacker, field) st" where
  "unpack_like (Uint32 _) = bindS unpack_uint32 (\<lambda>v. returnS (Uint32 (int v)))"
| "unpack_like (Int32 _) = bindS unpack_int32 (\<lambda>v. returnS (Int32 v))"
| "unpack_like (Uint64 _) = bindS unpack_uint64 (\<lambda>v. returnS (Uint64 (int v)))"
| "unpack_like (Flag _) = bindS unpack_bool (\<lambda>v. returnS (Flag v))"
| "unpack_like (Opaque _) = bindS unpack_opaque (\<lambda>v. returnS (Opaque v))"
| "unpack_like (Fixed w) = bindS (unpack_fopaque (length w)) (\<lambda>v. returnS (Fixed v))"
| "unpack_like (Text _) = bindS unpack_string (\<lambda>v. returnS (Text v))"

fun field_bytes :: "field \<Rightarrow> bytes" where
  "field_bytes (Uint32 v) = be 4 (nat v)"
| "field_bytes (Int32 v) = be_int32 v"
| "field_bytes (Uint64 v) = be 8 (nat v)"
| "field_bytes (Flag b) = be 4 (if b then 1 else 0)"
| "field_bytes (Opaque v) = enc_opaque v"
| "field_bytes (Fixed v) = v @ replicate (padding (length v)) NUL"
| "field_bytes (Text v) = enc_opaque v"

lemma pack_field_bytes: "field_ok f \<Longrightarrow> pack_field f p = Inr (p @ field_bytes f)"
  by (cases f) (auto simp: pack_uint32_def pack_int32_def pack_uint64_def pack_bool_def pack_opaque_eq
      pack_string_def pack_fopaque_def)

lemma reads_field: "field_ok f \<Longrightarrow> reads (unpack_like f) (field_bytes f) f"
proof (cases f)
  case (Uint32 v)
  assume "field_ok f"
  then have "nat v < 2 ^ 32" and "int (nat v) = v" using Uint32 by (auto simp: nat_less_iff)
  then show ?thesis
    using reads_bind_return [OF reads_uint32, of "nat v" "\<lambda>v. Uint32 (int v)"] Uint32 by simp
next
  case (Uint64 v)
  assume "field_ok f"
  then have "nat v < 2 ^ 64" and "int (nat v) = v" using Uint64 by (auto simp: nat_less_iff)
  then show ?thesis
    using reads_bind_return [OF reads_uint64, of "nat v" "\<lambda>v. Uint64 (int v)"] Uint64 by simp
qed (use reads_bind_return [OF reads_int32, where f = Int32] reads_bind_return [OF reads_bool, where f = Flag]
    reads_bind_return [OF reads_opaque, where f = Opaque] reads_bind_return [OF reads_fopaque, where f = Fixed]
    reads_bind_return [OF reads_string, where f = Text] in simp_all)

lemma field_bytes_aligned: "length (field_bytes f) mod 4 = 0"
proof (cases f)
  case (Opaque v)
  have "length (field_bytes f) = length v + padding (length v) + 4" using Opaque by (simp add: enc_opaque_def)
  then show ?thesis using padding_mod [of "length v"] by simp
next
  case (Text v)
  have "length (field_bytes f) = length v + padding (length v) + 4" using Text by (simp add: enc_opaque_def)
  then show ?thesis using padding_mod [of "length v"] by simp
qed (simp_all add: be_int32_def padding_mod)

lemma packs_fields:
  "list_all field_ok fs \<Longrightarrow> packs (map pack_field fs) p = Inr (p @ concat (map field_bytes fs))"
  by (induction fs arbitrary: p) (auto simp: pack_field_bytes)

lemma reads_fields: "list_all field_ok fs \<Longrightarrow> reads (mapS unpack_like fs) (concat (map field_bytes fs)) fs"
proof (induction fs)
  case (Cons f fs)
  then have "reads (bindS (mapS unpack_like fs) (\<lambda>ys. returnS (f # ys))) (concat (map field_bytes fs)) (f # fs)"
    by (intro reads_bind_return) simp
  with Cons.prems show ?case by (auto intro!: reads_bind [OF reads_field])
qed auto

lemma concat_aligned: "length (concat (map field_bytes fs)) mod 4 = 0"
proof (induction fs)
  case (Cons f fs)
  then show ?case using field_bytes_aligned [of f] by (simp add: mod_add_eq [symmetric])
qed simp

text \<open>Every message packs into a buffer of a multiple of four bytes, and unpacking the buffer
  returns the same fields in order and ends exactly at its end, for values within the ranges
  the packer checks and text that is UTF-8.\<close>

lemma xdr_roundtrip:
  assumes "list_all field_ok fs"
  shows "\<exists>out u. packs (map pack_field fs) [] = Inr out \<and> length out mod 4 = 0 \<and>
    mapS unpack_like fs (unpacker out) = (Inr fs, u) \<and> unp_done u"
proof -
  let ?out = "concat (map field_bytes fs)"
  have "ahead (unpacker ?out) (?out @ [])" by simp
  with reads_fields [OF assms] obtain u where "mapS unpack_like fs (unpacker ?out) = (Inr fs, u)" "ahead u []"
    by (rule readsE)
  then show ?thesis
    using packs_fields [OF assms, of "[]"] concat_aligned [of fs] by (auto simp: unp_done_def ahead_def)
qed

lemma xdr_roundtrip_witness:
  "\<exists>out u. packs (map pack_field [Uint32 7, Int32 (- 5), Text ''abc'', Flag True]) [] = Inr out \<and> length out mod 4 = 0 \<and>
    mapS unpack_like [Uint32 7, Int32 (- 5), Text ''abc'', Flag True] (unpacker out) =
      (Inr [Uint32 7, Int32 (- 5), Text ''abc'', Flag True], u) \<and> unp_done u"
  by (rule xdr_roundtrip) (simp add: is_str_def)

end
