(* ===== verification/Handles.thy ===== *)
theory Handles
  imports Ids Xdr
begin

text \<open>
  \<^verbatim>\<open>src/trunks/mount/handles.py\<close>: the table of NFS file handles. SHA-256 is the argument \<open>h2\<close>; the secret that
  \<^verbatim>\<open>os.urandom\<close> draws is a field of the table. The lock makes each method one step.
\<close>

definition ROOT_PATH :: string where "ROOT_PATH = ''''"
definition HANDLE_LEN :: nat where "HANDLE_LEN = 32"

record HandleTable =
  ht_secret :: bytes
  ht_fwd :: "(bytes, string) dict"

definition derive :: "hash \<Rightarrow> bytes \<Rightarrow> string \<Rightarrow> bytes" where
  "derive h2 secret path = take HANDLE_LEN (h2 (secret @ [NUL] @ path))"

definition handles_init :: "hash \<Rightarrow> bytes \<Rightarrow> HandleTable" where
  "handles_init h2 secret = \<lparr>ht_secret = secret, ht_fwd = [(derive h2 secret ROOT_PATH, ROOT_PATH)]\<rparr>"

definition handles_root :: "hash \<Rightarrow> HandleTable \<Rightarrow> bytes" where
  "handles_root h2 t = derive h2 (ht_secret t) ROOT_PATH"

definition handles_register :: "hash \<Rightarrow> string \<Rightarrow> HandleTable \<Rightarrow> bytes \<times> HandleTable" where
  "handles_register h2 path t =
    (let handle = derive h2 (ht_secret t) path in (handle, t\<lparr>ht_fwd := AList.update handle path (ht_fwd t)\<rparr>))"

definition handles_resolve :: "bytes \<Rightarrow> HandleTable \<Rightarrow> string option" where
  "handles_resolve handle t = (if length handle \<noteq> HANDLE_LEN then None else map_of (ht_fwd t) handle)"

definition handles_forget :: "hash \<Rightarrow> string \<Rightarrow> HandleTable \<Rightarrow> HandleTable" where
  "handles_forget h2 path t = t\<lparr>ht_fwd := AList.delete (derive h2 (ht_secret t) path) (ht_fwd t)\<rparr>"

definition handles_rename :: "hash \<Rightarrow> string \<Rightarrow> string \<Rightarrow> HandleTable \<Rightarrow> HandleTable" where
  "handles_rename h2 old_path new_path t =
    t\<lparr>ht_fwd := AList.update (derive h2 (ht_secret t) new_path) new_path
       (AList.delete (derive h2 (ht_secret t) old_path) (ht_fwd t))\<rparr>"

definition fileid :: "hash \<Rightarrow> string \<Rightarrow> nat" where
  "fileid h2 path = unbe (take 8 (h2 path))"

section \<open>What the table promises\<close>

text \<open>Every entry is a path under the handle derived from it.\<close>

definition handles_inv :: "hash \<Rightarrow> HandleTable \<Rightarrow> bool" where
  "handles_inv h2 t \<longleftrightarrow> (\<forall>k p. map_of (ht_fwd t) k = Some p \<longrightarrow> k = derive h2 (ht_secret t) p)"

definition digest32 :: "hash \<Rightarrow> bool" where
  "digest32 h2 \<longleftrightarrow> (\<forall>d. length (h2 d) = 32)"

lemma length_derive [simp]: "digest32 h2 \<Longrightarrow> length (derive h2 s p) = HANDLE_LEN"
  by (simp add: digest32_def derive_def HANDLE_LEN_def)

lemma fileid_less: "fileid h2 p < 2 ^ 64"
proof -
  have "unbe (take 8 (h2 p)) < 256 ^ length (take 8 (h2 p))" by (rule unbe_less)
  also have "\<dots> \<le> 256 ^ 8" by (intro power_increasing) auto
  finally show ?thesis by (simp add: fileid_def)
qed

lemma handles_inv_init: "handles_inv h2 (handles_init h2 s)"
  by (simp add: handles_inv_def handles_init_def)

lemma handles_inv_register: "handles_inv h2 t \<Longrightarrow> handles_inv h2 (snd (handles_register h2 p t))"
  by (simp add: handles_inv_def handles_register_def Let_def)

lemma handles_inv_forget: "handles_inv h2 t \<Longrightarrow> handles_inv h2 (handles_forget h2 p t)"
  by (simp add: handles_inv_def handles_forget_def)

lemma handles_inv_rename: "handles_inv h2 t \<Longrightarrow> handles_inv h2 (handles_rename h2 p q t)"
  by (simp add: handles_inv_def handles_rename_def)

lemma handles_resolve_inv:
  "handles_inv h2 t \<Longrightarrow> handles_resolve hdl t = Some p \<Longrightarrow> hdl = derive h2 (ht_secret t) p"
  by (auto simp: handles_inv_def handles_resolve_def split: if_splits)

lemma handles_secret [simp]:
  "ht_secret (snd (handles_register h2 p t)) = ht_secret t"
  "ht_secret (handles_forget h2 p t) = ht_secret t"
  "ht_secret (handles_rename h2 p q t) = ht_secret t"
  by (simp_all add: handles_register_def handles_forget_def handles_rename_def Let_def)

lemma fst_register [simp]: "fst (handles_register h2 p t) = derive h2 (ht_secret t) p"
  by (simp add: handles_register_def Let_def)

lemma resolve_registered:
  "digest32 h2 \<Longrightarrow> handles_resolve (fst (handles_register h2 p t)) (snd (handles_register h2 p t)) = Some p"
  by (simp add: handles_resolve_def handles_register_def Let_def)

text \<open>The table seen from outside is the set of the paths whose handles are alive.\<close>

datatype handle_op = Register string | Forget string | Rename string string

fun handle_step :: "hash \<Rightarrow> handle_op \<Rightarrow> HandleTable \<Rightarrow> HandleTable" where
  "handle_step h2 (Register p) t = snd (handles_register h2 p t)"
| "handle_step h2 (Forget p) t = handles_forget h2 p t"
| "handle_step h2 (Rename p q) t = handles_rename h2 p q t"

fun live_step :: "handle_op \<Rightarrow> string set \<Rightarrow> string set" where
  "live_step (Register p) L = insert p L"
| "live_step (Forget p) L = L - {p}"
| "live_step (Rename p q) L = insert q (L - {p})"

fun op_paths :: "handle_op \<Rightarrow> string set" where
  "op_paths (Register p) = {p}"
| "op_paths (Forget p) = {p}"
| "op_paths (Rename p q) = {p, q}"

definition represents :: "hash \<Rightarrow> string set \<Rightarrow> HandleTable \<Rightarrow> string set \<Rightarrow> bool" where
  "represents h2 S t L \<longleftrightarrow>
    (\<forall>p \<in> S. map_of (ht_fwd t) (derive h2 (ht_secret t) p) = (if p \<in> L then Some p else None))"

lemma represents_step:
  assumes "represents h2 S t L" and "inj_on (derive h2 (ht_secret t)) S" and "op_paths x \<subseteq> S"
  shows "represents h2 S (handle_step h2 x t) (live_step x L)"
  using assms
  by (cases x) (auto simp: represents_def handles_register_def handles_forget_def handles_rename_def Let_def
      dest: inj_onD)

lemma handle_step_secret [simp]: "ht_secret (handle_step h2 x t) = ht_secret t"
  by (cases x) simp_all

lemma represents_fold:
  assumes "represents h2 S t L" and "inj_on (derive h2 (ht_secret t)) S" and "\<Union> (op_paths ` set xs) \<subseteq> S"
  shows "represents h2 S (fold (handle_step h2) xs t) (fold live_step xs L)
    \<and> ht_secret (fold (handle_step h2) xs t) = ht_secret t"
  using assms
proof (induction xs arbitrary: t L)
  case (Cons x xs)
  have "represents h2 S (handle_step h2 x t) (live_step x L)"
    using Cons.prems by (intro represents_step) auto
  from Cons.IH [OF this] Cons.prems show ?case by simp
qed simp

text \<open>C30: through any sequence of registrations, removals and renames the table behaves as the set of its live
  paths: the handle of a path resolves to that path exactly while it is live, as long as
  SHA-256 does not collide on the paths used.\<close>

theorem handles_refine_live_set:
  assumes "digest32 h2" and "inj_on (derive h2 secret) S"
    and "ROOT_PATH \<in> S" and "\<Union> (op_paths ` set xs) \<subseteq> S" and "p \<in> S"
  shows "handles_resolve (derive h2 secret p) (fold (handle_step h2) xs (handles_init h2 secret)) =
    (if p \<in> fold live_step xs {ROOT_PATH} then Some p else None)"
proof -
  let ?t = "handles_init h2 secret"
  have s: "ht_secret ?t = secret" by (simp add: handles_init_def)
  have "represents h2 S ?t {ROOT_PATH}"
    using assms(2,3) by (auto simp: represents_def handles_init_def dest: inj_onD)
  note r = represents_fold [OF this, unfolded s, OF assms(2,4)]
  then have "map_of (ht_fwd (fold (handle_step h2) xs ?t)) (derive h2 secret p) =
      (if p \<in> fold live_step xs {ROOT_PATH} then Some p else None)"
    using assms(5) unfolding represents_def by metis
  then show ?thesis using assms(1) by (simp add: handles_resolve_def)
qed

definition sample_digest :: hash where
  "sample_digest d = take 32 (rev d @ replicate 32 NUL)"

lemma digest32_sample: "digest32 sample_digest"
  by (auto simp: digest32_def sample_digest_def min_def)

theorem handles_refine_live_set_witness:
  "handles_resolve (derive sample_digest ''k'' ''b'')
     (fold (handle_step sample_digest) [Register ''a'', Rename ''a'' ''b''] (handles_init sample_digest ''k'')) = Some ''b''"
proof -
  have "inj_on (derive sample_digest ''k'') {ROOT_PATH, ''a'', ''b''}"
    by (simp add: sample_digest_def ROOT_PATH_def derive_def HANDLE_LEN_def)
  from handles_refine_live_set [OF digest32_sample this, of "[Register ''a'', Rename ''a'' ''b'']" "''b''"]
  show ?thesis by simp
qed

end
