(* ===== verification/Rpc.thy ===== *)
theory Rpc
  imports Xdr
begin

text \<open>
  \<^verbatim>\<open>src/trunks/mount/rpc.py\<close>: ONC RPC over TCP. A stream reader is the list of the bytes the peer sends
  before it closes; \<^verbatim>\<open>readexactly\<close> takes that many or raises \<^verbatim>\<open>IncompleteReadError\<close>.
  Python's integers are unbounded, so the fragment marker is an \<^typ>\<open>int\<close> and \<^verbatim>\<open>&\<close>, \<^verbatim>\<open>|\<close>, \<^verbatim>\<open>~\<close>
  are the operations on \<^typ>\<open>int\<close>.
\<close>

unbundle bit_operations_syntax

definition LAST_FRAG_BIT :: int where "LAST_FRAG_BIT = 0x80000000"
definition MAX_RECORD :: nat where "MAX_RECORD = 16 * 1024 * 1024"
definition MAX_FRAGMENT :: nat where "MAX_FRAGMENT = MAX_RECORD"
definition MSG_CALL :: nat where "MSG_CALL = 0"
definition MSG_REPLY :: nat where "MSG_REPLY = 1"
definition MSG_ACCEPTED :: nat where "MSG_ACCEPTED = 0"
definition MSG_DENIED :: nat where "MSG_DENIED = 1"
definition SUCCESS :: nat where "SUCCESS = 0"
definition PROG_UNAVAIL :: nat where "PROG_UNAVAIL = 1"
definition PROG_MISMATCH :: nat where "PROG_MISMATCH = 2"
definition PROC_UNAVAIL :: nat where "PROC_UNAVAIL = 3"
definition GARBAGE_ARGS :: nat where "GARBAGE_ARGS = 4"
definition RPC_MISMATCH :: nat where "RPC_MISMATCH = 0"
definition AUTH_NONE :: nat where "AUTH_NONE = 0"

lemmas rpc_consts = MSG_CALL_def MSG_REPLY_def MSG_ACCEPTED_def MSG_DENIED_def SUCCESS_def PROG_UNAVAIL_def
  PROG_MISMATCH_def PROC_UNAVAIL_def GARBAGE_ARGS_def RPC_MISMATCH_def AUTH_NONE_def

record RpcCall =
  xid :: nat
  rpcvers :: nat
  prog :: nat
  vers :: nat
  proc :: nat
  cred_flavor :: nat
  cred_body :: bytes
  verf_flavor :: nat
  verf_body :: bytes
  args :: bytes

section \<open>Records\<close>

definition read_exact :: "nat \<Rightarrow> (bytes, bytes) st" where
  "read_exact n = (\<lambda>reader.
    if length reader < n then (Inl IncompleteReadError, []) else (Inr (take n reader), drop n reader))"

lemma read_exact_shorter: "read_exact n s = (Inr x, t) \<Longrightarrow> length s = n + length t \<and> length x = n"
  by (auto simp: read_exact_def split: if_splits)

text \<open>One turn of the loop of \<^verbatim>\<open>read_record\<close>: the payload with the next fragment and whether it was the last.\<close>

definition read_fragment :: "bytes \<Rightarrow> (bytes, bytes \<times> bool) st" where
  "read_fragment payload =
    bindS (read_exact 4) (\<lambda>header.
      let marker = int (unbe header);
          last_frag = (marker AND LAST_FRAG_BIT \<noteq> 0);
          frag_size = nat (marker AND NOT LAST_FRAG_BIT)
      in if frag_size > MAX_FRAGMENT then raiseS (RpcError (''fragment too large: '' @ dec frag_size))
         else if frag_size \<noteq> 0 then
           bindS (read_exact frag_size) (\<lambda>b.
           if length (payload @ b) > MAX_RECORD
           then raiseS (RpcError (''record too large: '' @ dec (length (payload @ b))))
           else returnS (payload @ b, last_frag))
         else returnS (payload, last_frag))"

lemma read_fragment_shorter: "read_fragment payload s = (Inr x, t) \<Longrightarrow> length t + 4 \<le> length s"
  by (auto simp: read_fragment_def Let_def dest!: read_exact_shorter split: if_splits)

function read_fragments :: "bytes \<Rightarrow> (bytes, bytes) st" where
  "read_fragments payload s =
    (case read_fragment payload s of
       (Inl e, t) \<Rightarrow> (Inl e, t)
     | (Inr (payload', last_frag), t) \<Rightarrow> if last_frag then (Inr payload', t) else read_fragments payload' t)"
  by pat_completeness auto
termination
  by (relation "measure (\<lambda>(_, s). length s)") (force dest: read_fragment_shorter [OF sym])+

declare read_fragments.simps [simp del]

definition read_record :: "(bytes, bytes) st" where
  "read_record = read_fragments []"

definition encode_record :: "bytes \<Rightarrow> bytes res" where
  "encode_record payload =
    (if length payload > MAX_FRAGMENT then Inl (RpcError (''reply too large: '' @ dec (length payload)))
     else Inr (be 4 (nat (LAST_FRAG_BIT OR int (length payload))) @ payload))"

section \<open>Messages\<close>

text \<open>The body of \<^verbatim>\<open>parse_call\<close> on its unpacker; \<^verbatim>\<open>record[unp.offset:]\<close> is what the unpacker has not read.\<close>

definition call_reader :: "(Unpacker, RpcCall) st" where
  "call_reader =
    bindS unpack_uint32 (\<lambda>xid.
    bindS unpack_uint32 (\<lambda>mtype.
    if mtype \<noteq> MSG_CALL then raiseS (RpcError (''expected CALL, got mtype '' @ dec mtype))
    else bindS unpack_uint32 (\<lambda>rpcvers.
    bindS unpack_uint32 (\<lambda>prog.
    bindS unpack_uint32 (\<lambda>vers.
    bindS unpack_uint32 (\<lambda>proc.
    bindS unpack_uint32 (\<lambda>cred_flavor.
    bindS unpack_opaque (\<lambda>cred_body.
    bindS unpack_uint32 (\<lambda>verf_flavor.
    bindS unpack_opaque (\<lambda>verf_body.
    bindS (getsS (\<lambda>u. Inr (drop (up_offset u) (up_data u)))) (\<lambda>args.
    returnS \<lparr>xid = xid, rpcvers = rpcvers, prog = prog, vers = vers, proc = proc,
      cred_flavor = cred_flavor, cred_body = cred_body, verf_flavor = verf_flavor,
      verf_body = verf_body, args = args\<rparr>)))))))))))"

definition parse_call :: "bytes \<Rightarrow> RpcCall res" where
  "parse_call record = fst (call_reader (unpacker record))"

definition pack_reply_success :: "nat \<Rightarrow> bytes \<Rightarrow> bytes res" where
  "pack_reply_success x body =
    bindR (packs [pack_uint32 (int x), pack_uint32 (int MSG_REPLY), pack_uint32 (int MSG_ACCEPTED),
      pack_uint32 (int AUTH_NONE), pack_opaque [], pack_uint32 (int SUCCESS)] []) (\<lambda>p. Inr (p @ body))"

definition pack_reply_accepted_error :: "nat \<Rightarrow> nat \<Rightarrow> bytes res" where
  "pack_reply_accepted_error x accept_stat =
    (if accept_stat = PROG_MISMATCH
     then Inl (RpcError ''PROG_MISMATCH requires version range; use pack_reply_prog_mismatch'')
     else packs [pack_uint32 (int x), pack_uint32 (int MSG_REPLY), pack_uint32 (int MSG_ACCEPTED),
       pack_uint32 (int AUTH_NONE), pack_opaque [], pack_uint32 (int accept_stat)] [])"

definition pack_reply_prog_mismatch :: "nat \<Rightarrow> nat \<Rightarrow> nat \<Rightarrow> bytes res" where
  "pack_reply_prog_mismatch x low high =
    packs [pack_uint32 (int x), pack_uint32 (int MSG_REPLY), pack_uint32 (int MSG_ACCEPTED),
      pack_uint32 (int AUTH_NONE), pack_opaque [], pack_uint32 (int PROG_MISMATCH),
      pack_uint32 (int low), pack_uint32 (int high)] []"

definition pack_reply_rpc_mismatch :: "nat \<Rightarrow> nat \<Rightarrow> nat \<Rightarrow> bytes res" where
  "pack_reply_rpc_mismatch x low high =
    packs [pack_uint32 (int x), pack_uint32 (int MSG_REPLY), pack_uint32 (int MSG_DENIED),
      pack_uint32 (int RPC_MISMATCH), pack_uint32 (int low), pack_uint32 (int high)] []"

section \<open>Framing\<close>

lemma top_bit:
  fixes x :: int
  assumes "\<not> bit x k"
  shows "x AND 2 ^ k = 0" and "(2 ^ k OR x) = 2 ^ k + x" and "(2 ^ k OR x) AND 2 ^ k \<noteq> 0"
    and "x AND NOT (2 ^ k) = x"
proof -
  show zero: "x AND 2 ^ k = 0" by (rule bit_eqI) (use assms in \<open>auto simp: bit_and_iff bit_exp_iff\<close>)
  then show "(2 ^ k OR x) = 2 ^ k + x" using disjunctive_add_eq_or [of "2 ^ k" x] by (simp add: and.commute)
  have "bit ((2 ^ k OR x) AND 2 ^ k) k" by (simp add: bit_and_iff bit_or_iff bit_exp_iff)
  then show "(2 ^ k OR x) AND 2 ^ k \<noteq> 0" by auto
  show "x AND NOT (2 ^ k) = x"
    by (rule bit_eqI) (use assms in \<open>auto simp: bit_and_iff bit_exp_iff bit_not_iff\<close>)
qed

lemma top_bit_cleared:
  fixes x :: int
  assumes "\<not> bit x k"
  shows "(2 ^ k OR x) AND NOT (2 ^ k) = x"
  by (rule bit_eqI) (use assms in \<open>auto simp: bit_and_iff bit_or_iff bit_exp_iff bit_not_iff\<close>)

lemma frag_bits:
  assumes "n < 2 ^ 31"
  shows "(LAST_FRAG_BIT OR int n) = LAST_FRAG_BIT + int n"
    and "int n AND LAST_FRAG_BIT = 0" and "(LAST_FRAG_BIT + int n) AND LAST_FRAG_BIT \<noteq> 0"
    and "int n AND NOT LAST_FRAG_BIT = int n" and "(LAST_FRAG_BIT + int n) AND NOT LAST_FRAG_BIT = int n"
proof -
  have L: "LAST_FRAG_BIT = 2 ^ 31" by (simp add: LAST_FRAG_BIT_def)
  have "take_bit 31 (int n) = int n" using assms by (simp add: take_bit_int_eq_self_iff)
  then have small: "\<not> bit (int n) 31" by (metis bit_take_bit_iff less_irrefl)
  note top = top_bit [OF small] top_bit_cleared [OF small]
  show "(LAST_FRAG_BIT OR int n) = LAST_FRAG_BIT + int n"
    and "int n AND LAST_FRAG_BIT = 0" and "(LAST_FRAG_BIT + int n) AND LAST_FRAG_BIT \<noteq> 0"
    and "int n AND NOT LAST_FRAG_BIT = int n" and "(LAST_FRAG_BIT + int n) AND NOT LAST_FRAG_BIT = int n"
    unfolding L by (fact top(2) top(1) top(3) [unfolded top(2)] top(4) top(5) [unfolded top(2)])+
qed

text \<open>What a peer sends for a record cut into fragments.\<close>

definition fragment :: "bool \<Rightarrow> bytes \<Rightarrow> bytes" where
  "fragment last_frag b = be 4 ((if last_frag then 2 ^ 31 else 0) + length b) @ b"

fun frame :: "bytes list \<Rightarrow> bytes" where
  "frame [] = []"
| "frame [b] = fragment True b"
| "frame (b # c # bs) = fragment False b @ frame (c # bs)"

lemma read_exact_append: "length xs = n \<Longrightarrow> read_exact n (xs @ rest) = (Inr xs, rest)"
  by (simp add: read_exact_def)

lemma read_fragment_fragment:
  assumes "length p + length b \<le> MAX_RECORD"
  shows "read_fragment p (fragment l b @ rest) = (Inr (p @ b, l), rest)"
proof -
  define m where "m = (if l then 2 ^ 31 else 0) + length b"
  have f: "length b \<le> MAX_FRAGMENT" using assms by (simp add: MAX_FRAGMENT_def)
  then have s: "length b < 2 ^ 31" by (simp add: MAX_FRAGMENT_def MAX_RECORD_def)
  have u: "unbe (be 4 m) = m" using s by (intro unbe_be) (auto simp: m_def)
  have m: "int m = (if l then LAST_FRAG_BIT else 0) + int (length b)" by (simp add: m_def LAST_FRAG_BIT_def)
  have a: "(int m AND LAST_FRAG_BIT \<noteq> 0) = l" and b: "nat (int m AND NOT LAST_FRAG_BIT) = length b"
    unfolding m using frag_bits [OF s] by (cases l; simp)+
  have "read_exact 4 (fragment l b @ rest) = (Inr (be 4 m), b @ rest)"
    using read_exact_append [of "be 4 m" 4 "b @ rest"] by (simp add: fragment_def m_def)
  then show ?thesis
    using f assms a
    by (cases "b = []") (simp_all add: read_fragment_def bindS_step(1) u b Let_def read_exact_append not_less)
qed

lemma read_fragments_frame:
  "bs \<noteq> [] \<Longrightarrow> length p + length (concat bs) \<le> MAX_RECORD \<Longrightarrow>
   read_fragments p (frame bs @ rest) = (Inr (p @ concat bs), rest)"
proof (induction bs arbitrary: p rule: frame.induct)
  case (2 b)
  then show ?case by (subst read_fragments.simps) (simp add: read_fragment_fragment)
next
  case (3 b c bs)
  have "read_fragment p (fragment False b @ frame (c # bs) @ rest) = (Inr (p @ b, False), frame (c # bs) @ rest)"
    using 3 by (intro read_fragment_fragment) simp
  then show ?case using 3 by (subst read_fragments.simps) simp
qed simp

lemma encode_record_frame:
  "length p \<le> MAX_RECORD \<Longrightarrow> encode_record p = Inr (frame [p])"
  using frag_bits(1) [of "length p"]
  by (auto simp: encode_record_def MAX_FRAGMENT_def MAX_RECORD_def fragment_def nat_add_distrib LAST_FRAG_BIT_def)

text \<open>A record of at most 16 MiB is read back from any way of cutting it into fragments, leaving the
  stream at the next record, and what \<^verbatim>\<open>encode_record\<close> sends is one such framing.\<close>

lemma record_roundtrip:
  assumes "bs \<noteq> []" and "length (concat bs) \<le> MAX_RECORD"
  shows "read_record (frame bs @ rest) = (Inr (concat bs), rest) \<and>
    encode_record (concat bs) = Inr (frame [concat bs])"
  using read_fragments_frame [OF assms(1), of "[]"] assms(2) by (simp_all add: read_record_def encode_record_frame)

lemma record_roundtrip_witness:
  "read_record (frame [''ab'', '''', ''c''] @ ''next'') = (Inr ''abc'', ''next'') \<and>
   encode_record ''abc'' = Inr (frame [''abc''])"
  using record_roundtrip [of "[''ab'', '''', ''c'']" "''next''"] by (simp add: MAX_RECORD_def)

text \<open>A read never returns more than the limit, whatever the peer sends.\<close>

lemma read_fragment_bound:
  "read_fragment p s = (Inr (q, l), t) \<Longrightarrow> length p \<le> MAX_RECORD \<Longrightarrow> length q \<le> MAX_RECORD"
  by (auto simp: read_fragment_def Let_def split: if_splits)

lemma read_fragments_bound:
  "read_fragments p s = (Inr q, t) \<Longrightarrow> length p \<le> MAX_RECORD \<Longrightarrow> length q \<le> MAX_RECORD \<and> length t + 4 \<le> length s"
proof (induction p s arbitrary: q t rule: read_fragments.induct)
  case (1 p s)
  from 1(2) obtain p' l u where f: "read_fragment p s = (Inr (p', l), u)"
    by (subst (asm) read_fragments.simps) (auto split: prod.splits sum.splits)
  note b = read_fragment_bound [OF f 1(3)] read_fragment_shorter [OF f]
  show ?case
  proof (cases l)
    case True
    then show ?thesis using 1(2) f b by (subst (asm) read_fragments.simps) simp
  next
    case False
    then have "read_fragments p' u = (Inr q, t)" using 1(2) f by (subst (asm) read_fragments.simps) simp
    then show ?thesis using 1(1) [OF f [symmetric] refl refl False _ b(1)] b(2) by simp
  qed
qed

lemma read_record_shorter: "read_record s = (Inr x, t) \<Longrightarrow> length t < length s"
  using read_fragments_bound [of "[]" s x t] by (simp add: read_record_def)

text \<open>Whatever bytes a peer sends, a record that \<^verbatim>\<open>read_record\<close> returns has at most 16 MiB, and reading it
  has moved the stream forward.\<close>

lemma read_record_bounded:
  "read_record s = (Inr r, t) \<longrightarrow> length r \<le> MAX_RECORD \<and> length t + 4 \<le> length s"
  using read_fragments_bound [of "[]" s r t] by (simp add: read_record_def)

lemma read_record_bounded_witness:
  "length ''abc'' \<le> MAX_RECORD \<and> length ''next'' + 4 \<le> length (frame [''abc''] @ ''next'')"
proof -
  have "read_record (frame [''abc''] @ ''next'') = (Inr ''abc'', ''next'')"
    using read_fragments_frame [of "[''abc'']" "[]" "''next''"] by (simp add: read_record_def MAX_RECORD_def)
  then show ?thesis using read_record_bounded by blast
qed

section \<open>Calls and replies\<close>

definition call_ok :: "RpcCall \<Rightarrow> bool" where
  "call_ok c \<longleftrightarrow> list_all (\<lambda>n. n < 2 ^ 32) [xid c, rpcvers c, prog c, vers c, proc c, cred_flavor c, verf_flavor c,
    length (cred_body c), length (verf_body c)]"

definition call_fields :: "RpcCall \<Rightarrow> field list" where
  "call_fields c = [Uint32 (int (xid c)), Uint32 (int MSG_CALL), Uint32 (int (rpcvers c)), Uint32 (int (prog c)),
    Uint32 (int (vers c)), Uint32 (int (proc c)), Uint32 (int (cred_flavor c)), Opaque (cred_body c),
    Uint32 (int (verf_flavor c)), Opaque (verf_body c)]"

text \<open>The call message a client sends (RFC 5531): the header fields, then the arguments.\<close>

definition call_message :: "RpcCall \<Rightarrow> bytes" where
  "call_message c = concat (map field_bytes (call_fields c)) @ args c"

lemma call_reads:
  assumes "call_ok c"
  shows "reads_all R call_reader (call_message c) c"
proof -
  have small: "xid c < 2 ^ 32" "MSG_CALL < 2 ^ 32" "rpcvers c < 2 ^ 32" "prog c < 2 ^ 32" "vers c < 2 ^ 32"
    "proc c < 2 ^ 32" "cred_flavor c < 2 ^ 32" "verf_flavor c < 2 ^ 32" "length (cred_body c) < 2 ^ 32"
    "length (verf_body c) < 2 ^ 32"
    using assms by (simp_all add: call_ok_def MSG_CALL_def)
  have m: "call_message c = be 4 (xid c) @ be 4 MSG_CALL @ be 4 (rpcvers c) @ be 4 (prog c) @ be 4 (vers c) @
      be 4 (proc c) @ be 4 (cred_flavor c) @ enc_opaque (cred_body c) @ be 4 (verf_flavor c) @
      enc_opaque (verf_body c) @ args c"
    by (simp add: call_message_def call_fields_def)
  have rest: "k ys = w \<Longrightarrow>
      reads_all R (bindS (getsS (\<lambda>u. Inr (drop (up_offset u) (up_data u)))) (\<lambda>a. returnS (k a))) ys w"
    for k :: "bytes \<Rightarrow> RpcCall" and ys w by (auto simp: reads_all_def ahead_def bindS_def)
  show ?thesis
    unfolding m call_reader_def
    by (rule reads_all_bind [OF reads_uint32 [OF small(1)]], rule reads_all_bind [OF reads_uint32 [OF small(2)]],
      simp only: not_True_eq_False if_False simp_thms)
     (intro reads_all_bind [OF reads_uint32] reads_all_bind [OF reads_opaque] small rest, simp)
qed

text \<open>The parser of call messages returns the call a client sent, with the rest of the record as its
  arguments.\<close>

lemma parse_call_roundtrip:
  assumes "call_ok c"
  shows "parse_call (call_message c) = Inr c"
  using call_reads [OF assms, of "call_message c"] ahead_unpacker [of "call_message c"]
  by (simp add: reads_all_def parse_call_def unpacker_def)

definition sample_call :: "nat \<Rightarrow> bytes \<Rightarrow> RpcCall" where
  "sample_call p a = \<lparr>xid = 9, rpcvers = 2, prog = 100003, vers = 3, proc = p, cred_flavor = 0, cred_body = [],
     verf_flavor = 0, verf_body = [], args = a\<rparr>"

lemma unpack_uint32_less: "unpack_uint32 u = (Inr n, u') \<Longrightarrow> n < 2 ^ 32"
proof -
  assume "unpack_uint32 u = (Inr n, u')"
  then obtain b where "n = unbe b" and "length b = 4"
    by (auto simp: unpack_uint32_def unp_read_def slice_def Let_def split: if_splits)
  then show ?thesis using unbe_less [of b] by simp
qed

lemma parse_call_xid: "parse_call r = Inr c \<Longrightarrow> xid c < 2 ^ 32"
proof -
  assume "parse_call r = Inr c"
  then obtain u where "call_reader (unpacker r) = (Inr c, u)"
    by (cases "call_reader (unpacker r)") (simp add: parse_call_def)
  then obtain n u1 where "unpack_uint32 (unpacker r) = (Inr n, u1)" and "xid c = n"
    unfolding call_reader_def
    by (auto elim!: bindS_InrE split: if_splits)
  then show ?thesis using unpack_uint32_less by blast
qed

text \<open>Every reply starts with the transaction id of its call and the mark of a reply.\<close>

definition reply_head :: "nat \<Rightarrow> bytes" where
  "reply_head x = be 4 x @ be 4 MSG_REPLY"

definition accepted :: "nat \<Rightarrow> nat \<Rightarrow> bytes" where
  "accepted x s = reply_head x @ be 4 MSG_ACCEPTED @ be 4 AUTH_NONE @ enc_opaque [] @ be 4 s"

lemma pack_replies:
  assumes "x < 2 ^ 32"
  shows "pack_reply_success x body = Inr (accepted x SUCCESS @ body)"
    and "s < 2 ^ 32 \<Longrightarrow> s \<noteq> PROG_MISMATCH \<Longrightarrow> pack_reply_accepted_error x s = Inr (accepted x s)"
    and "low < 2 ^ 32 \<Longrightarrow> high < 2 ^ 32 \<Longrightarrow>
      pack_reply_prog_mismatch x low high = Inr (accepted x PROG_MISMATCH @ be 4 low @ be 4 high)"
    and "low < 2 ^ 32 \<Longrightarrow> high < 2 ^ 32 \<Longrightarrow>
      pack_reply_rpc_mismatch x low high =
        Inr (reply_head x @ be 4 MSG_DENIED @ be 4 RPC_MISMATCH @ be 4 low @ be 4 high)"
  using assms
  by (simp_all add: pack_reply_success_def pack_reply_accepted_error_def pack_reply_prog_mismatch_def
      pack_reply_rpc_mismatch_def pack_uint32_ok pack_opaque_eq accepted_def reply_head_def rpc_consts)

text \<open>What the parser raises: for a record that is not a call, or one that ends inside its header.\<close>

definition raises_rpc :: "('s, 'a) st \<Rightarrow> bool" where
  "raises_rpc m \<longleftrightarrow> (\<forall>s e t. m s = (Inl e, t) \<longrightarrow> (\<exists>x. e = RpcError x) \<or> (\<exists>x. e = XdrError x))"

lemma raises_rpc_bind [intro]: "raises_rpc m \<Longrightarrow> (\<And>x. raises_rpc (f x)) \<Longrightarrow> raises_rpc (bindS m f)"
  unfolding raises_rpc_def bindS_Inl_iff by metis

lemma raises_rpc_read [intro]: "raises_rpc (unp_read n)"
  by (auto simp: raises_rpc_def unp_read_def Let_def)

lemma raises_rpc_basic [intro]: "raises_rpc (returnS x)" "raises_rpc (raiseS (RpcError m))" "raises_rpc (getsS (\<lambda>s. Inr (k s)))"
  by (auto simp: raises_rpc_def)

lemma raises_rpc_if: "raises_rpc a \<Longrightarrow> raises_rpc b \<Longrightarrow> raises_rpc (if c then a else b)"
  by simp

lemma raises_rpc_unpack [intro]: "raises_rpc unpack_uint32" "raises_rpc unpack_opaque"
proof -
  show u: "raises_rpc unpack_uint32"
    unfolding unpack_uint32_def by (intro raises_rpc_bind raises_rpc_read raises_rpc_basic)
  show "raises_rpc unpack_opaque"
    unfolding unpack_opaque_def unpack_fopaque_def
    by (intro raises_rpc_bind raises_rpc_read u raises_rpc_if raises_rpc_basic)
qed

lemma parse_call_errors: "parse_call r = Inl e \<Longrightarrow> (\<exists>m. e = RpcError m) \<or> (\<exists>m. e = XdrError m)"
proof -
  have "raises_rpc call_reader"
    unfolding call_reader_def by (intro raises_rpc_bind raises_rpc_if raises_rpc_unpack raises_rpc_basic)
  then show "parse_call r = Inl e \<Longrightarrow> ?thesis"
    unfolding parse_call_def raises_rpc_def by (metis prod.collapse)
qed

end
