(* ===== verification/Mountd.thy ===== *)
theory Mountd
  imports Handles Rpc
begin

text \<open>
  \<^verbatim>\<open>src/trunks/mount/mountd.py\<close>: the mount protocol. Its procedures read the handler and the arguments and
  change neither; a procedure is a function from both to the reply body or an exception.
\<close>

definition MOUNT_PROGRAM :: nat where "MOUNT_PROGRAM = 100005"
definition MOUNT_VERSION :: nat where "MOUNT_VERSION = 3"
definition MNT3_OK :: nat where "MNT3_OK = 0"
definition MNT3ERR_NOENT :: nat where "MNT3ERR_NOENT = 2"
definition MNT3ERR_ACCES :: nat where "MNT3ERR_ACCES = 13"
definition MNT3ERR_SERVERFAULT :: nat where "MNT3ERR_SERVERFAULT = 10006"
definition AUTH_FLAVORS :: "nat list" where "AUTH_FLAVORS = [0, 1]"

lemmas mount_consts = MOUNT_PROGRAM_def MOUNT_VERSION_def MNT3_OK_def MNT3ERR_NOENT_def MNT3ERR_ACCES_def
  MNT3ERR_SERVERFAULT_def AUTH_FLAVORS_def

record MountHandler =
  mh_export :: string
  mh_mnt_enabled :: bool

definition is_slash :: "char \<Rightarrow> bool" where
  "is_slash c = (c = SLASH)"

definition mount_init :: "string \<Rightarrow> MountHandler" where
  "mount_init export_name = \<lparr>mh_export = SLASH # strip_by is_slash export_name, mh_mnt_enabled = True\<rparr>"

definition disable_mnt :: "MountHandler \<Rightarrow> MountHandler" where
  "disable_mnt m = m\<lparr>mh_mnt_enabled := False\<rparr>"

definition status_body :: "nat \<Rightarrow> bytes res" where
  "status_body s = packs [pack_uint32 (int s)] []"

text \<open>\<open>runU m u\<close> runs a reader on the unpacker of a call whose later state is not used.\<close>

definition runU :: "(Unpacker, 'a) st \<Rightarrow> Unpacker \<Rightarrow> 'a res" where
  "runU m u = fst (m u)"

definition mount_null :: "hash \<Rightarrow> HandleTable \<Rightarrow> MountHandler \<Rightarrow> Unpacker \<Rightarrow> bytes res" where
  "mount_null h2 t m u = Inr []"

definition mount_mnt :: "hash \<Rightarrow> HandleTable \<Rightarrow> MountHandler \<Rightarrow> Unpacker \<Rightarrow> bytes res" where
  "mount_mnt h2 t m u =
    bindR (runU unpack_string u) (\<lambda>path.
    if \<not> mh_mnt_enabled m then status_body MNT3ERR_ACCES
    else if rstrip_by is_slash path \<noteq> rstrip_by is_slash (mh_export m) then status_body MNT3ERR_NOENT
    else packs ([pack_uint32 (int MNT3_OK), pack_opaque (handles_root h2 t), pack_uint32 (int (length AUTH_FLAVORS))]
      @ map (\<lambda>f. pack_uint32 (int f)) AUTH_FLAVORS) [])"

definition mount_dump :: "hash \<Rightarrow> HandleTable \<Rightarrow> MountHandler \<Rightarrow> Unpacker \<Rightarrow> bytes res" where
  "mount_dump h2 t m u = packs [pack_bool False] []"

definition mount_umnt :: "hash \<Rightarrow> HandleTable \<Rightarrow> MountHandler \<Rightarrow> Unpacker \<Rightarrow> bytes res" where
  "mount_umnt h2 t m u = bindR (runU unpack_string u) (\<lambda>_. Inr [])"

definition mount_umntall :: "hash \<Rightarrow> HandleTable \<Rightarrow> MountHandler \<Rightarrow> Unpacker \<Rightarrow> bytes res" where
  "mount_umntall h2 t m u = Inr []"

definition mount_export :: "hash \<Rightarrow> HandleTable \<Rightarrow> MountHandler \<Rightarrow> Unpacker \<Rightarrow> bytes res" where
  "mount_export h2 t m u =
    packs [pack_bool True, pack_string (mh_export m), pack_bool False, pack_bool False] []"

definition mount_procs :: "(nat \<times> (hash \<Rightarrow> HandleTable \<Rightarrow> MountHandler \<Rightarrow> Unpacker \<Rightarrow> bytes res)) list" where
  "mount_procs = [(0, mount_null), (1, mount_mnt), (2, mount_dump), (3, mount_umnt), (4, mount_umntall), (5, mount_export)]"

fun is_xdr_error :: "error \<Rightarrow> bool" where
  "is_xdr_error (XdrError _) = True"
| "is_xdr_error _ = False"

text \<open>\<^verbatim>\<open>dispatch\<close>: the exceptions of the procedure and of the packing of its reply are turned into replies.\<close>

definition mount_dispatch :: "hash \<Rightarrow> HandleTable \<Rightarrow> MountHandler \<Rightarrow> RpcCall \<Rightarrow> bytes res" where
  "mount_dispatch h2 t m call =
    (let body = (case map_of mount_procs (proc call) of
        None \<Rightarrow> pack_reply_accepted_error (xid call) PROC_UNAVAIL
      | Some handler \<Rightarrow>
        (case handler h2 t m (unpacker (args call)) of
           Inl e \<Rightarrow> if is_xdr_error e then pack_reply_accepted_error (xid call) GARBAGE_ARGS else Inl e
         | Inr b \<Rightarrow> pack_reply_success (xid call) b))
     in case body of
          Inr r \<Rightarrow> Inr r
        | Inl _ \<Rightarrow> bindR (status_body MNT3ERR_SERVERFAULT) (pack_reply_success (xid call)))"

text \<open>The dispatcher answers every call.\<close>

lemma mount_dispatch_replies:
  assumes "xid call < 2 ^ 32"
  shows "\<exists>s body. mount_dispatch h2 t m call = Inr (accepted (xid call) s @ body)"
proof -
  have garbage: "pack_reply_accepted_error (xid call) GARBAGE_ARGS = Inr (accepted (xid call) GARBAGE_ARGS @ [])"
    and unavail: "pack_reply_accepted_error (xid call) PROC_UNAVAIL = Inr (accepted (xid call) PROC_UNAVAIL @ [])"
    using pack_replies(2) [OF assms] by (simp_all add: rpc_consts)
  show ?thesis
    unfolding mount_dispatch_def
    by (simp add: garbage unavail pack_replies(1) [OF assms] Let_def status_body_def pack_uint32_ok mount_consts
        split: option.split sum.split) blast
qed

text \<open>The root handle is given out to a client exactly when the mount procedure is enabled and it names
  the export, and then the reply carries a handle that resolves to the root of the
  repository.\<close>

lemma mnt_gives_root:
  assumes "digest32 h2" and "ahead u (enc_opaque path)" and "length path < 2 ^ 32" and "is_str path"
    and "handles_resolve (handles_root h2 t) t = Some ROOT_PATH"
  shows "\<exists>body. mount_mnt h2 t m u = Inr body \<and>
    (take 4 body = be 4 MNT3_OK \<longleftrightarrow>
       mh_mnt_enabled m \<and> rstrip_by is_slash path = rstrip_by is_slash (mh_export m)) \<and>
    (take 4 body = be 4 MNT3_OK \<longrightarrow>
       (\<exists>hdl u'. unpack_opaque (unpacker (drop 4 body)) = (Inr hdl, u') \<and> handles_resolve hdl t = Some ''''))"
proof -
  have "ahead u (enc_opaque path @ [])" using assms(2) by simp
  with reads_string [OF assms(3,4)] obtain u' where "unpack_string u = (Inr path, u')" by (rule readsE)
  then have r: "runU unpack_string u = Inr path" by (simp add: runU_def)
  let ?root = "handles_root h2 t"
  have l: "length ?root < 2 ^ 32" using assms(1) by (simp add: handles_root_def HANDLE_LEN_def)
  have distinct: "be 4 MNT3ERR_ACCES \<noteq> be 4 MNT3_OK" "be 4 MNT3ERR_NOENT \<noteq> be 4 MNT3_OK"
    by (subst be_eq_iff; simp add: mount_consts)+
  obtain rest where b: "packs ([pack_uint32 (int MNT3_OK), pack_opaque ?root, pack_uint32 (int (length AUTH_FLAVORS))]
      @ map (\<lambda>f. pack_uint32 (int f)) AUTH_FLAVORS) [] = Inr (be 4 MNT3_OK @ enc_opaque ?root @ rest)"
    using l by (simp add: mount_consts pack_uint32_ok pack_opaque_eq)
  have eq: "mount_mnt h2 t m u =
      (if \<not> mh_mnt_enabled m then Inr (be 4 MNT3ERR_ACCES)
       else if rstrip_by is_slash path \<noteq> rstrip_by is_slash (mh_export m) then Inr (be 4 MNT3ERR_NOENT)
       else Inr (be 4 MNT3_OK @ enc_opaque ?root @ rest))"
    unfolding mount_mnt_def r bindR_simps b by (simp add: status_body_def pack_uint32_ok mount_consts)
  have "ahead (unpacker (enc_opaque ?root @ rest)) (enc_opaque ?root @ rest)" by simp
  with reads_opaque [OF l] obtain u2 where "unpack_opaque (unpacker (enc_opaque ?root @ rest)) = (Inr ?root, u2)"
    by (rule readsE)
  then show ?thesis
    using assms(5) distinct
    by (cases "mh_mnt_enabled m"; cases "rstrip_by is_slash path = rstrip_by is_slash (mh_export m)")
      (simp_all add: eq ROOT_PATH_def)
qed

lemma mnt_gives_root_witness:
  "\<exists>body. mount_mnt sample_digest (handles_init sample_digest ''k'') (mount_init ''demo'')
      (unpacker (enc_opaque ''/demo/'')) = Inr body \<and> take 4 body = be 4 MNT3_OK"
proof -
  let ?t = "handles_init sample_digest ''k''"
  have "handles_resolve (handles_root sample_digest ?t) ?t = Some ROOT_PATH"
    using digest32_sample by (simp add: handles_resolve_def handles_root_def handles_init_def)
  from mnt_gives_root [OF digest32_sample ahead_unpacker _ _ this, of "''/demo/''" "mount_init ''demo''"]
  show ?thesis
    by (auto simp: is_str_def mount_init_def strip_by_def lstrip_by_def rstrip_by_def is_slash_def)
qed

end
