(* ===== verification/Nfs.thy ===== *)
theory Nfs
  imports Mountd Repository
begin

text \<open>
  \<^verbatim>\<open>src/trunks/mount/nfs.py\<close>: the NFSv3 handler over a repository. Its state is the record \<open>NfsHandler\<close>: the
  repository and the handle table it works on, the caches of the namespace and of file sizes, the
  write buffers with their generation counters, and the background jobs that store large blobs.
  A procedure takes the unpacker of the call and is a state-passing computation; where the code
  packs before it reads more state, so does the model.

  What the process gets from outside is the record \<open>Host\<close>: the two hash functions, the owner ids, the
  readings of the clock (a fresh one per \<^verbatim>\<open>time.time()\<close>) and whether an event loop is running. A time
  is the pair of what the code takes from the float, \<^verbatim>\<open>int(t)\<close> and \<^verbatim>\<open>int((t - int(t)) * 10**9)\<close>.

  A future of the executor is an index into the list of jobs. A job is one step: it may run between
  any two calls (\<open>run_job\<close>), and \<^verbatim>\<open>future.result()\<close> runs a job that has not run. A timer that fires is a
  step \<open>start_stage\<close>. Memory is unbounded.
\<close>

type_synonym timestamp = "int \<times> int"

record Host =
  ho_sha1 :: hash
  ho_sha256 :: hash
  ho_uid :: nat
  ho_gid :: nat
  ho_clock :: "nat \<Rightarrow> timestamp"
  ho_loop :: bool

record Attr =
  at_type :: nat
  at_mode :: nat
  at_nlink :: nat
  at_size :: nat
  at_fileid :: nat
  at_mtime :: timestamp

record StagedBlob =
  sb_generation :: nat
  sb_oid :: ObjectId
  sb_size :: nat

datatype stage_job = Running nat bytes | Finished StagedBlob | Failed error

record NfsHandler =
  nh_repo :: Repo
  nh_handles :: HandleTable
  nh_epoch :: timestamp
  nh_mtimes :: "(string, timestamp) dict"
  nh_entries_cache :: "IndexEntry list option"
  nh_files_cache :: "string set option"
  nh_dirs_cache :: "string set option"
  nh_children_cache :: "(string, string set) dict option"
  nh_size_cache :: "(string, nat) dict"
  nh_ephemeral :: "(string, bytes) dict"
  nh_write_buffers :: "(string, bytes) dict"
  nh_dirty :: "string set"
  nh_dirty_generations :: "(string, nat) dict"
  nh_stage_futures :: "(string, nat) dict"
  nh_stage_generations :: "(string, nat) dict"
  nh_stage_timers :: "string set"
  nh_jobs :: "stage_job list"
  nh_ticks :: nat

definition NFS_PROGRAM :: nat where "NFS_PROGRAM = 100003"
definition NFS_VERSION :: nat where "NFS_VERSION = 3"
definition NFS3_OK :: nat where "NFS3_OK = 0"
definition NFS3ERR_NOENT :: nat where "NFS3ERR_NOENT = 2"
definition NFS3ERR_EXIST :: nat where "NFS3ERR_EXIST = 17"
definition NFS3ERR_NOTDIR :: nat where "NFS3ERR_NOTDIR = 20"
definition NFS3ERR_ISDIR :: nat where "NFS3ERR_ISDIR = 21"
definition NFS3ERR_INVAL :: nat where "NFS3ERR_INVAL = 22"
definition NFS3ERR_NAMETOOLONG :: nat where "NFS3ERR_NAMETOOLONG = 63"
definition NFS3ERR_NOTEMPTY :: nat where "NFS3ERR_NOTEMPTY = 66"
definition NFS3ERR_STALE :: nat where "NFS3ERR_STALE = 70"
definition NFS3ERR_NOTSUPP :: nat where "NFS3ERR_NOTSUPP = 10004"
definition NFS3ERR_SERVERFAULT :: nat where "NFS3ERR_SERVERFAULT = 10006"
definition NF3REG :: nat where "NF3REG = 1"
definition NF3DIR :: nat where "NF3DIR = 2"
definition S_IFREG :: nat where "S_IFREG = 32768"
definition S_IFDIR :: nat where "S_IFDIR = 16384"
definition UNSTABLE :: nat where "UNSTABLE = 0"
definition GUARDED :: nat where "GUARDED = 1"
definition EXCLUSIVE :: nat where "EXCLUSIVE = 2"
definition DONT_CHANGE :: nat where "DONT_CHANGE = 0"
definition SET_TO_CLIENT_TIME :: nat where "SET_TO_CLIENT_TIME = 1"
definition SET_TO_SERVER_TIME :: nat where "SET_TO_SERVER_TIME = 2"
definition FSID :: nat where "FSID = 0xC0FEE5"
definition ROOT_FILEID :: nat where "ROOT_FILEID = 1"
definition DIR_SIZE :: nat where "DIR_SIZE = 4096"
definition WRITE_VERIFIER :: bytes where "WRITE_VERIFIER = ''trunks01''"
definition BACKGROUND_STAGE_MIN_BYTES :: nat where "BACKGROUND_STAGE_MIN_BYTES = 67108864"
definition BACKGROUND_STAGE_DELAY_MS :: nat where "BACKGROUND_STAGE_DELAY_MS = 50"

lemmas nfs_consts = NFS_PROGRAM_def NFS_VERSION_def NFS3_OK_def NFS3ERR_NOENT_def NFS3ERR_EXIST_def NFS3ERR_NOTDIR_def
  NFS3ERR_ISDIR_def NFS3ERR_INVAL_def NFS3ERR_NAMETOOLONG_def NFS3ERR_NOTEMPTY_def NFS3ERR_STALE_def
  NFS3ERR_NOTSUPP_def NFS3ERR_SERVERFAULT_def NF3REG_def NF3DIR_def S_IFREG_def S_IFDIR_def UNSTABLE_def
  GUARDED_def EXCLUSIVE_def FSID_def ROOT_FILEID_def DIR_SIZE_def

definition nfs_init :: "Host \<Rightarrow> Repo \<Rightarrow> HandleTable \<Rightarrow> NfsHandler" where
  "nfs_init H repo handles =
    \<lparr>nh_repo = repo, nh_handles = snd (handles_register (ho_sha256 H) '''' handles), nh_epoch = ho_clock H 0,
     nh_mtimes = [], nh_entries_cache = None, nh_files_cache = None, nh_dirs_cache = None,
     nh_children_cache = None, nh_size_cache = [], nh_ephemeral = [], nh_write_buffers = [], nh_dirty = {},
     nh_dirty_generations = [], nh_stage_futures = [], nh_stage_generations = [], nh_stage_timers = {},
     nh_jobs = [], nh_ticks = 1\<rparr>"

text \<open>Working on the repository and the handle table, reading the clock, reading arguments.\<close>

definition onRepo :: "(Repo, 'a) st \<Rightarrow> (NfsHandler, 'a) st" where
  "onRepo m = (\<lambda>s. case m (nh_repo s) of (r, repo) \<Rightarrow> (r, s\<lparr>nh_repo := repo\<rparr>))"

definition time_now :: "Host \<Rightarrow> (NfsHandler, timestamp) st" where
  "time_now H = (\<lambda>s. (Inr (ho_clock H (nh_ticks s)), s\<lparr>nh_ticks := Suc (nh_ticks s)\<rparr>))"

definition touch :: "Host \<Rightarrow> string \<Rightarrow> (NfsHandler, unit) st" where
  "touch H path = bindS (time_now H) (\<lambda>t. modifyS (nh_mtimes_update (AList.update path t)))"

definition untouch :: "string \<Rightarrow> (NfsHandler, unit) st" where
  "untouch path = modifyS (nh_mtimes_update (AList.delete path))"

definition register :: "Host \<Rightarrow> string \<Rightarrow> (NfsHandler, bytes) st" where
  "register H path = (\<lambda>s. case handles_register (ho_sha256 H) path (nh_handles s) of
     (hdl, t) \<Rightarrow> (Inr hdl, s\<lparr>nh_handles := t\<rparr>))"

definition forget :: "Host \<Rightarrow> string \<Rightarrow> (NfsHandler, unit) st" where
  "forget H path = modifyS (nh_handles_update (handles_forget (ho_sha256 H) path))"

definition rename_handle :: "Host \<Rightarrow> string \<Rightarrow> string \<Rightarrow> (NfsHandler, unit) st" where
  "rename_handle H old_path new_path = modifyS (nh_handles_update (handles_rename (ho_sha256 H) old_path new_path))"

definition readS :: "(Unpacker, 'a) st \<Rightarrow> Unpacker \<Rightarrow> (NfsHandler, 'a \<times> Unpacker) st" where
  "readS m u = liftR (case m u of (Inl e, _) \<Rightarrow> Inl e | (Inr v, u') \<Rightarrow> Inr (v, u'))"

definition resolve_handle :: "Unpacker \<Rightarrow> (NfsHandler, string option \<times> Unpacker) st" where
  "resolve_handle u = bindS (readS unpack_opaque u) (\<lambda>(hdl, u').
    getsS (\<lambda>s. Inr (handles_resolve hdl (nh_handles s), u')))"

section \<open>Namespace\<close>

definition name_ok :: "string \<Rightarrow> bool" where
  "name_ok name \<longleftrightarrow> name \<noteq> '''' \<and> length name \<le> 255 \<and> name \<notin> {''.'', ''..''} \<and> SLASH \<notin> set name \<and>
     BSLASH \<notin> set name \<and> \<not> list_ex (\<lambda>c. ordc c < 0x20 \<or> ordc c = 0x7F) name"

definition join_path :: "string \<Rightarrow> string \<Rightarrow> string" where
  "join_path dir_path name = (if dir_path = '''' then name else dir_path @ ''/'' @ name)"

definition parent_path :: "string \<Rightarrow> string" where
  "parent_path path = (case rsplit1 ''/'' path of None \<Rightarrow> '''' | Some (a, _) \<Rightarrow> a)"

definition is_ephemeral_path :: "string \<Rightarrow> bool" where
  "is_ephemeral_path path = list_ex (\<lambda>part. part = ''.DS_Store'' \<or> startswith part ''._'') (split_on SLASH path)"

definition nfs_entries :: "(NfsHandler, IndexEntry list) st" where
  "nfs_entries = (\<lambda>s. case nh_entries_cache s of
     Some es \<Rightarrow> (Inr es, s)
   | None \<Rightarrow> (case repo_index_entries (nh_repo s) of
       Inl e \<Rightarrow> (Inl e, s) | Inr es \<Rightarrow> (Inr es, s\<lparr>nh_entries_cache := Some es\<rparr>)))"

text \<open>The inner loop of \<^verbatim>\<open>_ensure_namespace\<close> over the parts of one path.\<close>

fun add_parts ::
  "string \<Rightarrow> string list \<Rightarrow> string set \<times> (string, string set) dict \<Rightarrow> string set \<times> (string, string set) dict" where
  "add_parts parent [] ns = ns"
| "add_parts parent (part # parts) (dirs, ch) =
    (let ch1 = AList.map_default parent {part} (insert part) ch
     in if parts = [] then (dirs, ch1)
        else let current = (if parent = '''' then part else parent @ ''/'' @ part)
             in add_parts current parts (insert current dirs, setdefault current {} ch1))"

definition namespace :: "IndexEntry list \<Rightarrow> string set \<times> (string, string set) dict" where
  "namespace es = fold (\<lambda>e. add_parts '''' (split_on SLASH (ie_path e))) es ({''''}, [('''', {})])"

definition ensure_namespace :: "(NfsHandler, unit) st" where
  "ensure_namespace = (\<lambda>s.
    if nh_files_cache s \<noteq> None \<and> nh_dirs_cache s \<noteq> None \<and> nh_children_cache s \<noteq> None then (Inr (), s)
    else bindS nfs_entries (\<lambda>es. modifyS (\<lambda>s. s\<lparr>nh_files_cache := Some (ie_path ` set es),
      nh_dirs_cache := Some (fst (namespace es)), nh_children_cache := Some (snd (namespace es))\<rparr>)) s)"

datatype path_kind = FileKind | DirKind

definition classify :: "string \<Rightarrow> (NfsHandler, path_kind option) st" where
  "classify path = bindS ensure_namespace (\<lambda>_. getsS (\<lambda>s.
    case (nh_files_cache s, nh_dirs_cache s) of
      (Some files, Some dirs) \<Rightarrow>
        Inr (if path \<in> files then Some FileKind else if path \<in> dirs then Some DirKind else None)
    | _ \<Rightarrow> Inl AssertionError))"

definition nfs_children :: "string \<Rightarrow> (NfsHandler, string list) st" where
  "nfs_children dir_path = bindS ensure_namespace (\<lambda>_. getsS (\<lambda>s.
    case nh_children_cache s of
      Some ch \<Rightarrow> Inr (sorted_list_of_set ((case map_of ch dir_path of None \<Rightarrow> {} | Some c \<Rightarrow> c) - {''.trunkskeep''}))
    | None \<Rightarrow> Inl AssertionError))"

definition under :: "string \<Rightarrow> string \<Rightarrow> bool" where
  "under dir_path path = startswith path (dir_path @ ''/'')"

definition all_files_under :: "string \<Rightarrow> (NfsHandler, string list) st" where
  "all_files_under dir_path = bindS nfs_entries (\<lambda>es. getsS (\<lambda>s.
    Inr (filter (under dir_path) (map ie_path es) @ filter (under dir_path) (map fst (nh_ephemeral s)))))"

text \<open>\<^verbatim>\<open>_invalidate_namespace(path)\<close>; every call in the program gives a path.\<close>

definition invalidate_namespace :: "string \<Rightarrow> (NfsHandler, unit) st" where
  "invalidate_namespace path = modifyS (\<lambda>s. s\<lparr>nh_entries_cache := None, nh_files_cache := None,
    nh_dirs_cache := None, nh_children_cache := None,
    nh_size_cache := filter (\<lambda>(p, _). \<not> (p = path \<or> under path p)) (nh_size_cache s)\<rparr>)"

definition file_size :: "Host \<Rightarrow> string \<Rightarrow> (NfsHandler, nat) st" where
  "file_size H path = (\<lambda>s.
    case map_of (nh_write_buffers s) path of
      Some b \<Rightarrow> (Inr (length b), s)
    | None \<Rightarrow> (case map_of (nh_ephemeral s) path of
        Some b \<Rightarrow> (Inr (length b), s)
      | None \<Rightarrow> (case map_of (nh_size_cache s) path of
          Some n \<Rightarrow> (Inr n, s)
        | None \<Rightarrow> bindS (getsS (\<lambda>s. repo_read_file (ho_sha1 H) None path (nh_repo s))) (\<lambda>b.
            bindS (modifyS (nh_size_cache_update (AList.update path (length b)))) (\<lambda>_. returnS (length b))) s)))"

definition dir_attr_of :: "nat \<Rightarrow> string \<Rightarrow> NfsHandler \<Rightarrow> Attr" where
  "dir_attr_of fid path s = \<lparr>at_type = NF3DIR, at_mode = S_IFDIR + 493, at_nlink = 2, at_size = DIR_SIZE,
     at_fileid = fid, at_mtime = (case map_of (nh_mtimes s) path of None \<Rightarrow> nh_epoch s | Some t \<Rightarrow> t)\<rparr>"

definition file_attr_of :: "nat \<Rightarrow> nat \<Rightarrow> nat \<Rightarrow> string \<Rightarrow> NfsHandler \<Rightarrow> Attr" where
  "file_attr_of perm n fid path s = \<lparr>at_type = NF3REG, at_mode = S_IFREG + perm, at_nlink = 1, at_size = n,
     at_fileid = fid, at_mtime = (case map_of (nh_mtimes s) path of None \<Rightarrow> nh_epoch s | Some t \<Rightarrow> t)\<rparr>"

text \<open>\<^verbatim>\<open>_stat\<close>: the modes are \<^verbatim>\<open>S_IFDIR | 0o755\<close>, \<^verbatim>\<open>S_IFREG | 0o600\<close> and \<^verbatim>\<open>S_IFREG | 0o644\<close>, whose bits do not overlap.\<close>

definition nfs_stat_path :: "Host \<Rightarrow> string \<Rightarrow> (NfsHandler, Attr option) st" where
  "nfs_stat_path H path = (\<lambda>s.
    if path = '''' then (Inr (Some (dir_attr_of ROOT_FILEID path s)), s)
    else case map_of (nh_ephemeral s) path of
      Some b \<Rightarrow> (Inr (Some (file_attr_of 384 (length b) (fileid (ho_sha256 H) path) path s)), s)
    | None \<Rightarrow> bindS (classify path) (\<lambda>kind.
        case kind of
          None \<Rightarrow> returnS None
        | Some DirKind \<Rightarrow> getsS (\<lambda>s. Inr (Some (dir_attr_of (fileid (ho_sha256 H) path) path s)))
        | Some FileKind \<Rightarrow>
            catchS (bindS (file_size H path) (\<lambda>n.
              getsS (\<lambda>s. Inr (Some (file_attr_of 420 n (fileid (ho_sha256 H) path) path s)))))
            (\<lambda>e. if is_object_not_found e then returnS None else raiseS e)) s)"

definition nfs_stat :: "Host \<Rightarrow> string option \<Rightarrow> (NfsHandler, Attr option) st" where
  "nfs_stat H path = (case path of None \<Rightarrow> returnS None | Some p \<Rightarrow> nfs_stat_path H p)"

section \<open>Contents\<close>

definition read_bytes :: "Host \<Rightarrow> string \<Rightarrow> NfsHandler \<Rightarrow> bytes res" where
  "read_bytes H path s =
    (case map_of (nh_write_buffers s) path of
       Some b \<Rightarrow> Inr b
     | None \<Rightarrow> (case map_of (nh_ephemeral s) path of
         Some b \<Rightarrow> Inr b | None \<Rightarrow> repo_read_file (ho_sha1 H) None path (nh_repo s)))"

definition cancel_stage_timer :: "string \<Rightarrow> (NfsHandler, unit) st" where
  "cancel_stage_timer path = modifyS (nh_stage_timers_update (\<lambda>ts. ts - {path}))"

text \<open>The six calls with which \<^verbatim>\<open>_write_bytes\<close> and \<^verbatim>\<open>_delete_bytes\<close> start.\<close>

definition drop_pending :: "string \<Rightarrow> (NfsHandler, unit) st" where
  "drop_pending path =
    bindS (modifyS (\<lambda>s. s\<lparr>nh_write_buffers := AList.delete path (nh_write_buffers s),
      nh_dirty := nh_dirty s - {path},
      nh_dirty_generations := AList.delete path (nh_dirty_generations s),
      nh_stage_generations := AList.delete path (nh_stage_generations s),
      nh_stage_futures := AList.delete path (nh_stage_futures s)\<rparr>)) (\<lambda>_. cancel_stage_timer path)"

definition nfs_write_bytes :: "Host \<Rightarrow> string \<Rightarrow> bytes \<Rightarrow> (NfsHandler, unit) st" where
  "nfs_write_bytes H path data =
    bindS (drop_pending path) (\<lambda>_.
    if is_ephemeral_path path then modifyS (nh_ephemeral_update (AList.update path data))
    else bindS (onRepo (repo_write_file (ho_sha1 H) path data)) (\<lambda>_. invalidate_namespace path))"

definition nfs_delete_bytes :: "Host \<Rightarrow> string \<Rightarrow> (NfsHandler, unit) st" where
  "nfs_delete_bytes H path =
    bindS (drop_pending path) (\<lambda>_ s.
    if map_of (nh_ephemeral s) path \<noteq> None then modifyS (nh_ephemeral_update (AList.delete path)) s
    else bindS (onRepo (repo_delete_file path)) (\<lambda>_. invalidate_namespace path) s)"

section \<open>Background staging\<close>

definition stage_blob :: "Host \<Rightarrow> nat \<Rightarrow> bytes \<Rightarrow> (Repo, StagedBlob) st" where
  "stage_blob H generation data = bindS (repo_stage_blob (ho_sha1 H) data) (\<lambda>x.
    returnS \<lparr>sb_generation = generation, sb_oid = x, sb_size = length data\<rparr>)"

text \<open>The executor runs a submitted job once.\<close>

definition run_job :: "Host \<Rightarrow> nat \<Rightarrow> (NfsHandler, unit) st" where
  "run_job H j = (\<lambda>s.
    if j < length (nh_jobs s) then
      (case nh_jobs s ! j of
         Running generation data \<Rightarrow>
           (case stage_blob H generation data (nh_repo s) of
              (Inl e, repo) \<Rightarrow> (Inr (), s\<lparr>nh_repo := repo, nh_jobs := (nh_jobs s)[j := Failed e]\<rparr>)
            | (Inr b, repo) \<Rightarrow> (Inr (), s\<lparr>nh_repo := repo, nh_jobs := (nh_jobs s)[j := Finished b]\<rparr>))
       | _ \<Rightarrow> (Inr (), s))
    else (Inr (), s))"

definition job_done :: "nat \<Rightarrow> NfsHandler \<Rightarrow> bool" where
  "job_done j s = (j < length (nh_jobs s) \<and> (case nh_jobs s ! j of Running _ _ \<Rightarrow> False | _ \<Rightarrow> True))"

text \<open>\<^verbatim>\<open>future.result()\<close>\<close>

definition job_result :: "Host \<Rightarrow> nat \<Rightarrow> (NfsHandler, StagedBlob) st" where
  "job_result H j = bindS (run_job H j) (\<lambda>_. getsS (\<lambda>s.
    if j < length (nh_jobs s) then
      (case nh_jobs s ! j of Finished b \<Rightarrow> Inr b | Failed e \<Rightarrow> Inl e | Running _ _ \<Rightarrow> Inl AssertionError)
    else Inl AssertionError))"

definition staged_blob :: "Host \<Rightarrow> string \<Rightarrow> nat \<Rightarrow> (NfsHandler, StagedBlob option) st" where
  "staged_blob H path generation = (\<lambda>s.
    case map_of (nh_stage_futures s) path of
      None \<Rightarrow> (Inr None, s)
    | Some j \<Rightarrow>
      if \<not> job_done j s then
        (if map_of (nh_stage_generations s) path = Some generation then
           bindS (job_result H j) (\<lambda>b. returnS (if sb_generation b = generation then Some b else None)) s
         else (Inr None, s))
      else
        bindS (catchS (bindS (job_result H j) (\<lambda>b. returnS (Some b))) (\<lambda>_. returnS None)) (\<lambda>b.
        returnS (case b of None \<Rightarrow> None | Some b \<Rightarrow> if sb_generation b = generation then Some b else None)) s)"

definition start_stage :: "string \<Rightarrow> (NfsHandler, unit) st" where
  "start_stage path =
    bindS (modifyS (nh_stage_timers_update (\<lambda>ts. ts - {path}))) (\<lambda>_ s.
    if (case map_of (nh_stage_futures s) path of None \<Rightarrow> False | Some j \<Rightarrow> \<not> job_done j s) then (Inr (), s)
    else (case (map_of (nh_write_buffers s) path, map_of (nh_dirty_generations s) path) of
        (Some b, Some g) \<Rightarrow> (Inr (), s\<lparr>nh_stage_futures := AList.update path (length (nh_jobs s)) (nh_stage_futures s),
           nh_jobs := nh_jobs s @ [Running g b],
           nh_stage_generations := AList.update path g (nh_stage_generations s)\<rparr>)
      | _ \<Rightarrow> (Inr (), s)))"

definition maybe_stage_background :: "Host \<Rightarrow> string \<Rightarrow> (NfsHandler, unit) st" where
  "maybe_stage_background H path = (\<lambda>s.
    if is_ephemeral_path path then (Inr (), s)
    else if (case map_of (nh_stage_futures s) path of None \<Rightarrow> False | Some j \<Rightarrow> \<not> job_done j s) then (Inr (), s)
    else case map_of (nh_write_buffers s) path of
      None \<Rightarrow> (Inr (), s)
    | Some b \<Rightarrow>
      if length b < BACKGROUND_STAGE_MIN_BYTES then (Inr (), s)
      else bindS (cancel_stage_timer path) (\<lambda>_.
        if BACKGROUND_STAGE_DELAY_MS = 0 then start_stage path
        else if \<not> ho_loop H then returnS ()
        else modifyS (nh_stage_timers_update (insert path))) s)"

definition flush_path :: "Host \<Rightarrow> string \<Rightarrow> (NfsHandler, unit) st" where
  "flush_path H path = (\<lambda>s.
    if path \<notin> nh_dirty s then (Inr (), s)
    else bindS (cancel_stage_timer path) (\<lambda>_.
      bindS (getsS (\<lambda>s. case map_of (nh_write_buffers s) path of None \<Rightarrow> Inl (KeyError path) | Some b \<Rightarrow> Inr b)) (\<lambda>data.
      bindS (getsS (\<lambda>s. case map_of (nh_dirty_generations s) path of None \<Rightarrow> Inl (KeyError path) | Some g \<Rightarrow> Inr g)) (\<lambda>generation.
      bindS (if is_ephemeral_path path then modifyS (nh_ephemeral_update (AList.update path data))
        else bindS (staged_blob H path generation) (\<lambda>staged.
          case staged of
            None \<Rightarrow> onRepo (repo_write_file (ho_sha1 H) path data)
          | Some b \<Rightarrow> onRepo (repo_set_file_object path (sb_oid b) ''100644''))) (\<lambda>_.
      bindS (modifyS (\<lambda>s. s\<lparr>nh_write_buffers := AList.delete path (nh_write_buffers s),
        nh_dirty := nh_dirty s - {path},
        nh_dirty_generations := AList.delete path (nh_dirty_generations s),
        nh_stage_generations := AList.delete path (nh_stage_generations s),
        nh_stage_futures := AList.delete path (nh_stage_futures s),
        nh_size_cache := AList.update path (length data) (nh_size_cache s)\<rparr>)) (\<lambda>_.
      invalidate_namespace path))))) s)"

text \<open>\<^verbatim>\<open>close\<close>: the dirty paths in the order in which the set yields them; shutting the executor down waits for
  every job.\<close>

definition nfs_close :: "Host \<Rightarrow> string list \<Rightarrow> (NfsHandler, unit) st" where
  "nfs_close H order =
    bindS (modifyS (nh_stage_timers_update (\<lambda>_. {}))) (\<lambda>_.
    bindS (iterS (flush_path H) order) (\<lambda>_ s.
    iterS (run_job H) [0..<length (nh_jobs s)] s))"

section \<open>Encoding\<close>

definition pack_handle :: "bytes \<Rightarrow> Packer \<Rightarrow> Packer res" where
  "pack_handle hdl = pack_opaque hdl"

definition pack_post_op_handle :: "bytes option \<Rightarrow> Packer \<Rightarrow> Packer res" where
  "pack_post_op_handle hdl = (case hdl of None \<Rightarrow> pack_bool False | Some b \<Rightarrow> packs [pack_bool True, pack_opaque b])"

definition pack_time :: "timestamp \<Rightarrow> Packer \<Rightarrow> Packer res" where
  "pack_time t = packs [pack_uint32 (fst t), pack_uint32 (snd t)]"

definition pack_fattr :: "Host \<Rightarrow> Attr \<Rightarrow> Packer \<Rightarrow> Packer res" where
  "pack_fattr H a = packs
    [pack_uint32 (int (at_type a)), pack_uint32 (int (at_mode a)), pack_uint32 (int (at_nlink a)),
     pack_uint32 (int (ho_uid H)), pack_uint32 (int (ho_gid H)),
     pack_uint64 (int (at_size a)), pack_uint64 (int (at_size a)), pack_uint32 0, pack_uint32 0,
     pack_uint64 (int FSID), pack_uint64 (int (at_fileid a)),
     pack_time (at_mtime a), pack_time (at_mtime a), pack_time (at_mtime a)]"

definition pack_post_op_attr :: "Host \<Rightarrow> Attr option \<Rightarrow> Packer \<Rightarrow> Packer res" where
  "pack_post_op_attr H a = (case a of None \<Rightarrow> pack_bool False | Some a \<Rightarrow> packs [pack_bool True, pack_fattr H a])"

definition pack_wcc :: "Host \<Rightarrow> Attr option \<Rightarrow> Attr option \<Rightarrow> Packer \<Rightarrow> Packer res" where
  "pack_wcc H before after = packs
    [(case before of
        None \<Rightarrow> pack_bool False
      | Some a \<Rightarrow> packs [pack_bool True, pack_uint64 (int (at_size a)), pack_time (at_mtime a), pack_time (at_mtime a)]),
     pack_post_op_attr H after]"

definition wcc_error :: "Host \<Rightarrow> nat \<Rightarrow> Attr option \<Rightarrow> bytes res" where
  "wcc_error H s before = packs [pack_uint32 (int s), pack_wcc H before before] []"

definition wcc_ok :: "Host \<Rightarrow> Attr option \<Rightarrow> Attr option \<Rightarrow> bytes res" where
  "wcc_ok H before after = packs [pack_uint32 (int NFS3_OK), pack_wcc H before after] []"

definition rename_wcc_error :: "Host \<Rightarrow> nat \<Rightarrow> Attr option \<Rightarrow> Attr option \<Rightarrow> bytes res" where
  "rename_wcc_error H s from_attr to_attr =
    packs [pack_uint32 (int s), pack_wcc H from_attr from_attr, pack_wcc H to_attr to_attr] []"

section \<open>Reading attributes from a call\<close>

definition read_set_uint32 :: "(Unpacker, nat option) st" where
  "read_set_uint32 = bindS unpack_bool (\<lambda>b.
    if b then bindS unpack_uint32 (\<lambda>v. returnS (Some v)) else returnS None)"

definition read_nfstime :: "(Unpacker, nat \<times> nat) st" where
  "read_nfstime = bindS unpack_uint32 (\<lambda>a. bindS unpack_uint32 (\<lambda>b. returnS (a, b)))"

definition read_set_time :: "(Unpacker, (nat \<times> nat) option) st" where
  "read_set_time = bindS unpack_uint32 (\<lambda>flag.
    if flag = DONT_CHANGE then returnS None
    else if flag = SET_TO_SERVER_TIME then returnS None
    else if flag = SET_TO_CLIENT_TIME then bindS read_nfstime (\<lambda>t. returnS (Some t))
    else returnS None)"

definition read_sattr :: "(Unpacker, unit) st" where
  "read_sattr = bindS read_set_uint32 (\<lambda>_. bindS read_set_uint32 (\<lambda>_. bindS read_set_uint32 (\<lambda>_.
    bindS unpack_bool (\<lambda>b. bindS (if b then bindS unpack_uint64 (\<lambda>_. returnS ()) else returnS ()) (\<lambda>_.
    bindS read_set_time (\<lambda>_. bindS read_set_time (\<lambda>_. returnS ())))))))"

section \<open>Procedures\<close>

definition nfs_status :: "nat \<Rightarrow> (NfsHandler, bytes) st" where
  "nfs_status s = liftR (status_body s)"

text \<open>The guard with which most procedures start: an unknown handle is answered with STALE.\<close>

definition with_handle :: "Unpacker \<Rightarrow> (string \<Rightarrow> Unpacker \<Rightarrow> (NfsHandler, bytes) st) \<Rightarrow> (NfsHandler, bytes) st" where
  "with_handle u f = bindS (resolve_handle u) (\<lambda>(path, u').
    case path of None \<Rightarrow> nfs_status NFS3ERR_STALE | Some p \<Rightarrow> f p u')"

definition proc_null :: "Host \<Rightarrow> Unpacker \<Rightarrow> (NfsHandler, bytes) st" where
  "proc_null H u = returnS []"

definition proc_getattr :: "Host \<Rightarrow> Unpacker \<Rightarrow> (NfsHandler, bytes) st" where
  "proc_getattr H u = with_handle u (\<lambda>path _.
    bindS (nfs_stat_path H path) (\<lambda>attr.
    case attr of
      None \<Rightarrow> nfs_status NFS3ERR_NOENT
    | Some a \<Rightarrow> liftR (packs [pack_uint32 (int NFS3_OK), pack_fattr H a] [])))"

text \<open>The arguments of SETATTR after the handle: the new size, if any.\<close>

definition setattr_args :: "(Unpacker, nat option) st" where
  "setattr_args = bindS read_set_uint32 (\<lambda>_. bindS read_set_uint32 (\<lambda>_. bindS read_set_uint32 (\<lambda>_.
    bindS unpack_bool (\<lambda>size_set.
    bindS (if size_set then bindS unpack_uint64 (\<lambda>n. returnS (Some n)) else returnS None) (\<lambda>new_size.
    bindS read_set_time (\<lambda>_. bindS read_set_time (\<lambda>_.
    bindS unpack_bool (\<lambda>check.
    bindS (if check then bindS read_nfstime (\<lambda>_. returnS ()) else returnS ()) (\<lambda>_.
    returnS new_size)))))))))"

definition resized :: "nat \<Rightarrow> bytes \<Rightarrow> bytes" where
  "resized n data = (if n < length data then take n data else data @ replicate (n - length data) NUL)"

definition proc_setattr :: "Host \<Rightarrow> Unpacker \<Rightarrow> (NfsHandler, bytes) st" where
  "proc_setattr H u = with_handle u (\<lambda>path u1.
    bindS (liftR (runU setattr_args u1)) (\<lambda>new_size.
    bindS (nfs_stat_path H path) (\<lambda>before.
    if (case before of None \<Rightarrow> True | Some a \<Rightarrow> at_type a = NF3DIR) \<and> new_size \<noteq> None
    then liftR (wcc_error H NFS3ERR_INVAL before)
    else bindS (case new_size of
        None \<Rightarrow> returnS ()
      | Some n \<Rightarrow>
        bindS (if (case before of None \<Rightarrow> False | Some a \<Rightarrow> at_type a = NF3REG) then getsS (read_bytes H path) else returnS []) (\<lambda>data.
        bindS (nfs_write_bytes H path (resized n data)) (\<lambda>_. touch H path))) (\<lambda>_.
      bindS (nfs_stat_path H path) (\<lambda>after. liftR (wcc_ok H before after))))))"

definition is_dir_attr :: "Attr option \<Rightarrow> bool" where
  "is_dir_attr a = (case a of None \<Rightarrow> False | Some a \<Rightarrow> at_type a = NF3DIR)"

definition lookup_found :: "Host \<Rightarrow> string \<Rightarrow> Attr option \<Rightarrow> (NfsHandler, bytes) st" where
  "lookup_found H target dir_attr =
    bindS (nfs_stat_path H target) (\<lambda>target_attr.
    case target_attr of
      None \<Rightarrow> liftR (packs [pack_uint32 (int NFS3ERR_NOENT), pack_post_op_attr H dir_attr] [])
    | Some _ \<Rightarrow> bindS (register H target) (\<lambda>hdl.
        liftR (packs [pack_uint32 (int NFS3_OK), pack_handle hdl, pack_post_op_attr H target_attr,
          pack_post_op_attr H dir_attr] [])))"

definition proc_lookup :: "Host \<Rightarrow> Unpacker \<Rightarrow> (NfsHandler, bytes) st" where
  "proc_lookup H u = with_handle u (\<lambda>dir_path u1.
    bindS (liftR (runU unpack_string u1)) (\<lambda>name.
    bindS (nfs_stat_path H dir_path) (\<lambda>dir_attr.
    if \<not> is_dir_attr dir_attr then liftR (wcc_error H NFS3ERR_NOTDIR dir_attr)
    else if name = ''.'' then lookup_found H dir_path dir_attr
    else if name = ''..'' then lookup_found H (parent_path dir_path) dir_attr
    else if \<not> name_ok name then liftR (wcc_error H NFS3ERR_NAMETOOLONG dir_attr)
    else lookup_found H (join_path dir_path name) dir_attr)))"

definition proc_access :: "Host \<Rightarrow> Unpacker \<Rightarrow> (NfsHandler, bytes) st" where
  "proc_access H u = with_handle u (\<lambda>path u1.
    bindS (liftR (runU unpack_uint32 u1)) (\<lambda>requested.
    bindS (nfs_stat_path H path) (\<lambda>attr.
    if attr = None then nfs_status NFS3ERR_NOENT
    else liftR (packs [pack_uint32 (int NFS3_OK), pack_post_op_attr H attr, pack_uint32 (int requested)] []))))"

definition proc_readlink :: "Host \<Rightarrow> Unpacker \<Rightarrow> (NfsHandler, bytes) st" where
  "proc_readlink H u = bindS (resolve_handle u) (\<lambda>(path, _).
    bindS (nfs_stat H path) (\<lambda>attr.
    liftR (packs [pack_uint32 (int NFS3ERR_NOTSUPP), pack_post_op_attr H attr] [])))"

definition read_args :: "(Unpacker, nat \<times> nat) st" where
  "read_args = bindS unpack_uint64 (\<lambda>offset. bindS unpack_uint32 (\<lambda>count. returnS (offset, count)))"

text \<open>READ and WRITE after their arguments are decoded.\<close>

definition read_body :: "Host \<Rightarrow> string \<Rightarrow> nat \<Rightarrow> nat \<Rightarrow> (NfsHandler, bytes) st" where
  "read_body H path offset count =
    bindS (nfs_stat_path H path) (\<lambda>attr.
    case attr of
      None \<Rightarrow> nfs_status NFS3ERR_NOENT
    | Some a \<Rightarrow>
      if at_type a = NF3DIR then liftR (wcc_error H NFS3ERR_ISDIR attr)
      else (\<lambda>s. case read_bytes H path s of
          Inl e \<Rightarrow> if is_object_not_found e then nfs_status NFS3ERR_NOENT s else (Inl e, s)
        | Inr data \<Rightarrow>
          let part = slice offset (offset + count) data
          in (packs [pack_uint32 (int NFS3_OK), pack_post_op_attr H attr, pack_uint32 (int (length part)),
               pack_bool (offset + length part \<ge> length data), pack_opaque part] [], s)))"

definition proc_read :: "Host \<Rightarrow> Unpacker \<Rightarrow> (NfsHandler, bytes) st" where
  "proc_read H u = with_handle u (\<lambda>path u1.
    bindS (liftR (runU read_args u1)) (\<lambda>(offset, count). read_body H path offset count))"

definition write_args :: "(Unpacker, nat \<times> nat \<times> bytes) st" where
  "write_args = bindS unpack_uint64 (\<lambda>offset. bindS unpack_uint32 (\<lambda>count. bindS unpack_uint32 (\<lambda>_.
    bindS unpack_opaque (\<lambda>data. returnS (offset, count, data)))))"

text \<open>The two extensions of the buffer and the slice assignment.\<close>

definition splice :: "nat \<Rightarrow> bytes \<Rightarrow> bytes \<Rightarrow> bytes" where
  "splice offset data merged =
    (let m1 = merged @ replicate (offset - length merged) NUL;
         e = offset + length data;
         m2 = m1 @ replicate (e - length m1) NUL
     in take offset m2 @ data @ drop e m2)"

definition write_source :: "Host \<Rightarrow> string \<Rightarrow> NfsHandler \<Rightarrow> bytes res" where
  "write_source H path s =
    (case map_of (nh_write_buffers s) path of
       Some b \<Rightarrow> Inr b
     | None \<Rightarrow> (case map_of (nh_ephemeral s) path of
         Some b \<Rightarrow> Inr b | None \<Rightarrow> repo_read_file (ho_sha1 H) None path (nh_repo s)))"

definition buffer_write :: "string \<Rightarrow> bytes \<Rightarrow> (NfsHandler, unit) st" where
  "buffer_write path merged = modifyS (\<lambda>s. s\<lparr>nh_write_buffers := AList.update path merged (nh_write_buffers s),
     nh_dirty := insert path (nh_dirty s),
     nh_dirty_generations := AList.update path
       (case map_of (nh_dirty_generations s) path of None \<Rightarrow> 1 | Some g \<Rightarrow> g + 1) (nh_dirty_generations s),
     nh_size_cache := AList.update path (length merged) (nh_size_cache s)\<rparr>)"

definition write_body :: "Host \<Rightarrow> string \<Rightarrow> nat \<Rightarrow> nat \<Rightarrow> bytes \<Rightarrow> (NfsHandler, bytes) st" where
  "write_body H path offset count data =
    bindS (nfs_stat_path H path) (\<lambda>before.
    if count \<noteq> length data then liftR (wcc_error H NFS3ERR_INVAL before)
    else case before of
      None \<Rightarrow> liftR (wcc_error H NFS3ERR_NOENT None)
    | Some a \<Rightarrow>
      if at_type a = NF3DIR then liftR (wcc_error H NFS3ERR_ISDIR before)
      else bindS (getsS (write_source H path)) (\<lambda>merged.
        bindS (buffer_write path (splice offset data merged)) (\<lambda>_.
        bindS (maybe_stage_background H path) (\<lambda>_.
        bindS (touch H path) (\<lambda>_.
        bindS (nfs_stat_path H path) (\<lambda>after.
        liftR (packs [pack_uint32 (int NFS3_OK), pack_wcc H before after, pack_uint32 (int (length data)),
          pack_uint32 (int UNSTABLE), pack_fopaque WRITE_VERIFIER 8] [])))))))"

definition proc_write :: "Host \<Rightarrow> Unpacker \<Rightarrow> (NfsHandler, bytes) st" where
  "proc_write H u = with_handle u (\<lambda>path u1.
    bindS (liftR (runU write_args u1)) (\<lambda>(offset, count, data). write_body H path offset count data))"

text \<open>The reply of CREATE and MKDIR: the attributes of the directory are read after the first part is packed.\<close>

definition created_reply :: "Host \<Rightarrow> string \<Rightarrow> Attr option \<Rightarrow> string \<Rightarrow> (NfsHandler, bytes) st" where
  "created_reply H dir_path dir_attr target =
    bindS (touch H target) (\<lambda>_. bindS (touch H dir_path) (\<lambda>_.
    bindS (register H target) (\<lambda>hdl.
    bindS (nfs_stat_path H target) (\<lambda>target_attr.
    bindS (liftR (packs [pack_uint32 (int NFS3_OK), pack_bool True, pack_handle hdl, pack_post_op_attr H target_attr] [])) (\<lambda>out.
    bindS (nfs_stat_path H dir_path) (\<lambda>after.
    liftR (pack_wcc H dir_attr after out)))))))"

definition create_args :: "(Unpacker, string \<times> nat) st" where
  "create_args = bindS unpack_string (\<lambda>name. bindS unpack_uint32 (\<lambda>mode.
    bindS (if mode = EXCLUSIVE then bindS (unpack_fopaque 8) (\<lambda>_. returnS ()) else read_sattr) (\<lambda>_.
    returnS (name, mode))))"

definition proc_create :: "Host \<Rightarrow> Unpacker \<Rightarrow> (NfsHandler, bytes) st" where
  "proc_create H u = with_handle u (\<lambda>dir_path u1.
    bindS (liftR (runU create_args u1)) (\<lambda>(name, mode).
    bindS (nfs_stat_path H dir_path) (\<lambda>dir_attr.
    if \<not> is_dir_attr dir_attr then liftR (wcc_error H NFS3ERR_NOTDIR dir_attr)
    else if \<not> name_ok name then liftR (wcc_error H NFS3ERR_NAMETOOLONG dir_attr)
    else let target = join_path dir_path name in
      bindS (nfs_stat_path H target) (\<lambda>existing.
      if existing \<noteq> None \<and> mode = GUARDED then liftR (wcc_error H NFS3ERR_EXIST dir_attr)
      else bindS (if existing = None then nfs_write_bytes H target [] else returnS ()) (\<lambda>_.
        created_reply H dir_path dir_attr target)))))"

definition mkdir_args :: "(Unpacker, string) st" where
  "mkdir_args = bindS unpack_string (\<lambda>name. bindS read_sattr (\<lambda>_. returnS name))"

definition proc_mkdir :: "Host \<Rightarrow> Unpacker \<Rightarrow> (NfsHandler, bytes) st" where
  "proc_mkdir H u = with_handle u (\<lambda>dir_path u1.
    bindS (liftR (runU mkdir_args u1)) (\<lambda>name.
    bindS (nfs_stat_path H dir_path) (\<lambda>dir_attr.
    if \<not> is_dir_attr dir_attr then liftR (wcc_error H NFS3ERR_NOTDIR dir_attr)
    else if \<not> name_ok name then liftR (wcc_error H NFS3ERR_NAMETOOLONG dir_attr)
    else let target = join_path dir_path name in
      bindS (nfs_stat_path H target) (\<lambda>existing.
      if existing \<noteq> None then liftR (wcc_error H NFS3ERR_EXIST dir_attr)
      else bindS (onRepo (repo_write_file (ho_sha1 H) (join_path target ''.trunkskeep'') [])) (\<lambda>_.
        bindS (invalidate_namespace target) (\<lambda>_.
        created_reply H dir_path dir_attr target))))))"

definition unsupported_reply :: "Host \<Rightarrow> string option \<Rightarrow> string \<Rightarrow> (NfsHandler, bytes) st" where
  "unsupported_reply H dir_path name =
    bindS (if dir_path \<noteq> None \<and> name_ok name then nfs_stat H dir_path else returnS None) (\<lambda>dir_attr.
    liftR (wcc_error H NFS3ERR_NOTSUPP dir_attr))"

definition symlink_args :: "(Unpacker, string) st" where
  "symlink_args = bindS unpack_string (\<lambda>name. bindS read_sattr (\<lambda>_. bindS unpack_string (\<lambda>_. returnS name)))"

definition proc_symlink :: "Host \<Rightarrow> Unpacker \<Rightarrow> (NfsHandler, bytes) st" where
  "proc_symlink H u = bindS (resolve_handle u) (\<lambda>(dir_path, u1).
    bindS (liftR (runU symlink_args u1)) (unsupported_reply H dir_path))"

definition mknod_args :: "(Unpacker, string) st" where
  "mknod_args = bindS unpack_string (\<lambda>name. bindS unpack_uint32 (\<lambda>mknod_type.
    bindS (if mknod_type \<in> {4, 3} then
             bindS read_sattr (\<lambda>_. bindS unpack_uint32 (\<lambda>_. bindS unpack_uint32 (\<lambda>_. returnS ())))
           else if mknod_type \<in> {6, 7} then read_sattr else returnS ()) (\<lambda>_. returnS name)))"

definition proc_mknod :: "Host \<Rightarrow> Unpacker \<Rightarrow> (NfsHandler, bytes) st" where
  "proc_mknod H u = bindS (resolve_handle u) (\<lambda>(dir_path, u1).
    bindS (liftR (runU mknod_args u1)) (unsupported_reply H dir_path))"

text \<open>The reply with the new attributes of the directory with which REMOVE and RMDIR end.\<close>

definition removed_reply :: "Host \<Rightarrow> string \<Rightarrow> Attr option \<Rightarrow> string \<Rightarrow> (NfsHandler, bytes) st" where
  "removed_reply H dir_path dir_attr target =
    bindS (forget H target) (\<lambda>_. bindS (untouch target) (\<lambda>_. bindS (touch H dir_path) (\<lambda>_.
    bindS (nfs_stat_path H dir_path) (\<lambda>after. liftR (wcc_ok H dir_attr after)))))"

definition proc_remove :: "Host \<Rightarrow> Unpacker \<Rightarrow> (NfsHandler, bytes) st" where
  "proc_remove H u = with_handle u (\<lambda>dir_path u1.
    bindS (liftR (runU unpack_string u1)) (\<lambda>name.
    bindS (nfs_stat_path H dir_path) (\<lambda>dir_attr.
    if \<not> is_dir_attr dir_attr then liftR (wcc_error H NFS3ERR_NOTDIR dir_attr)
    else let target = join_path dir_path name in
      bindS (nfs_stat_path H target) (\<lambda>target_attr.
      if target_attr = None then liftR (wcc_error H NFS3ERR_NOENT dir_attr)
      else if is_dir_attr target_attr then liftR (wcc_error H NFS3ERR_ISDIR dir_attr)
      else bindS (nfs_delete_bytes H target) (\<lambda>_. removed_reply H dir_path dir_attr target)))))"

definition proc_rmdir :: "Host \<Rightarrow> Unpacker \<Rightarrow> (NfsHandler, bytes) st" where
  "proc_rmdir H u = with_handle u (\<lambda>dir_path u1.
    bindS (liftR (runU unpack_string u1)) (\<lambda>name.
    bindS (nfs_stat_path H dir_path) (\<lambda>dir_attr.
    if \<not> is_dir_attr dir_attr then liftR (wcc_error H NFS3ERR_NOTDIR dir_attr)
    else let target = join_path dir_path name in
      bindS (nfs_stat_path H target) (\<lambda>target_attr.
      if target_attr = None then liftR (wcc_error H NFS3ERR_NOENT dir_attr)
      else if \<not> is_dir_attr target_attr then liftR (wcc_error H NFS3ERR_NOTDIR dir_attr)
      else bindS (nfs_children target) (\<lambda>children.
        if filter (\<lambda>c. c \<noteq> ''.trunkskeep'') children \<noteq> [] then liftR (wcc_error H NFS3ERR_NOTEMPTY dir_attr)
        else bindS (all_files_under target) (\<lambda>files.
          bindS (iterS (\<lambda>child. bindS (nfs_delete_bytes H child) (\<lambda>_. forget H child)) files) (\<lambda>_.
          bindS (invalidate_namespace target) (\<lambda>_.
          removed_reply H dir_path dir_attr target))))))))"

definition move_one :: "Host \<Rightarrow> string \<Rightarrow> string \<Rightarrow> string \<Rightarrow> (NfsHandler, unit) st" where
  "move_one H source dest path =
    (let new_path = dest @ drop (length source) path in
     bindS (\<lambda>s. case map_of (nh_ephemeral s) path of
         Some b \<Rightarrow> (Inr (), s\<lparr>nh_ephemeral := AList.update new_path b (AList.delete path (nh_ephemeral s))\<rparr>)
       | None \<Rightarrow> bindS (flush_path H path) (\<lambda>_. onRepo (repo_move_file (ho_sha1 H) None path new_path)) s) (\<lambda>_.
     rename_handle H path new_path))"

definition move_directory :: "Host \<Rightarrow> string \<Rightarrow> string \<Rightarrow> (NfsHandler, unit) st" where
  "move_directory H source dest =
    bindS (all_files_under source) (\<lambda>files.
    bindS (iterS (move_one H source dest) files) (\<lambda>_.
    bindS (rename_handle H source dest) (\<lambda>_.
    bindS (invalidate_namespace source) (\<lambda>_. invalidate_namespace dest))))"

text \<open>RENAME on a file: the metadata files of the desktop are only renamed in memory. \<open>False\<close> is the
  answer that the source does not exist.\<close>

definition rename_file :: "Host \<Rightarrow> string \<Rightarrow> string \<Rightarrow> (NfsHandler, bool) st" where
  "rename_file H source dest =
    (if is_ephemeral_path source \<or> is_ephemeral_path dest then
       bindS (getsS (read_bytes H source)) (\<lambda>data.
       bindS (nfs_delete_bytes H source) (\<lambda>_.
       bindS (nfs_write_bytes H dest data) (\<lambda>_.
       bindS (rename_handle H source dest) (\<lambda>_.
       bindS (untouch source) (\<lambda>_.
       bindS (touch H dest) (\<lambda>_. returnS True))))))
     else
       bindS (flush_path H source) (\<lambda>_.
       bindS (catchS (bindS (onRepo (repo_move_file (ho_sha1 H) None source dest)) (\<lambda>_. returnS True))
         (\<lambda>e. if is_object_not_found e then returnS False else raiseS e)) (\<lambda>moved.
       if \<not> moved then returnS False
       else bindS (rename_handle H source dest) (\<lambda>_.
         bindS (invalidate_namespace source) (\<lambda>_.
         bindS (invalidate_namespace dest) (\<lambda>_.
         bindS (untouch source) (\<lambda>_.
         bindS (touch H dest) (\<lambda>_. returnS True))))))))"

definition rename_body :: "Host \<Rightarrow> string \<Rightarrow> string \<Rightarrow> string \<Rightarrow> string \<Rightarrow> (NfsHandler, bytes) st" where
  "rename_body H from_dir from_name to_dir to_name =
    bindS (nfs_stat_path H from_dir) (\<lambda>from_attr.
    bindS (nfs_stat_path H to_dir) (\<lambda>to_attr.
    if \<not> is_dir_attr from_attr then liftR (rename_wcc_error H NFS3ERR_NOTDIR from_attr to_attr)
    else if \<not> is_dir_attr to_attr then liftR (rename_wcc_error H NFS3ERR_NOTDIR from_attr to_attr)
    else if \<not> (name_ok from_name \<and> name_ok to_name) then
      liftR (rename_wcc_error H NFS3ERR_NAMETOOLONG from_attr to_attr)
    else let source = join_path from_dir from_name; dest = join_path to_dir to_name in
      bindS (nfs_stat_path H source) (\<lambda>source_attr.
      if source_attr = None then liftR (rename_wcc_error H NFS3ERR_NOENT from_attr to_attr)
      else bindS (if is_dir_attr source_attr then bindS (move_directory H source dest) (\<lambda>_. returnS True)
                  else rename_file H source dest) (\<lambda>moved.
        if \<not> moved then liftR (rename_wcc_error H NFS3ERR_NOENT from_attr to_attr)
        else bindS (touch H from_dir) (\<lambda>_. bindS (touch H to_dir) (\<lambda>_.
          bindS (nfs_stat_path H from_dir) (\<lambda>after_from.
          bindS (liftR (packs [pack_uint32 (int NFS3_OK), pack_wcc H from_attr after_from] [])) (\<lambda>out.
          bindS (nfs_stat_path H to_dir) (\<lambda>after_to.
          liftR (pack_wcc H to_attr after_to out))))))))))"

definition proc_rename :: "Host \<Rightarrow> Unpacker \<Rightarrow> (NfsHandler, bytes) st" where
  "proc_rename H u = with_handle u (\<lambda>from_dir u1.
    bindS (readS unpack_string u1) (\<lambda>(from_name, u2).
    with_handle u2 (\<lambda>to_dir u3.
    bindS (liftR (runU unpack_string u3)) (\<lambda>to_name.
    rename_body H from_dir from_name to_dir to_name))))"

definition proc_link :: "Host \<Rightarrow> Unpacker \<Rightarrow> (NfsHandler, bytes) st" where
  "proc_link H u = bindS (resolve_handle u) (\<lambda>(file_path, u1).
    bindS (resolve_handle u1) (\<lambda>(link_dir, u2).
    bindS (liftR (runU unpack_string u2)) (\<lambda>_.
    bindS (nfs_stat H file_path) (\<lambda>file_attr.
    bindS (nfs_stat H link_dir) (\<lambda>dir_attr.
    liftR (packs [pack_uint32 (int NFS3ERR_NOTSUPP), pack_post_op_attr H file_attr,
      pack_wcc H dir_attr dir_attr] []))))))"

definition dir_entries :: "Host \<Rightarrow> string \<Rightarrow> Attr \<Rightarrow> (NfsHandler, (string \<times> nat \<times> string) list) st" where
  "dir_entries H dir_path dir_attr =
    bindS (if dir_path = '''' then returnS ROOT_FILEID
           else bindS (nfs_stat_path H (parent_path dir_path)) (\<lambda>a.
             returnS (case a of None \<Rightarrow> ROOT_FILEID | Some a \<Rightarrow> at_fileid a))) (\<lambda>parent_fileid.
    bindS (nfs_children dir_path) (\<lambda>names.
    returnS ([(''.'', at_fileid dir_attr, dir_path),
              (''..'', parent_fileid, if dir_path = '''' then '''' else parent_path dir_path)]
      @ map (\<lambda>name. (name, fileid (ho_sha256 H) (join_path dir_path name), join_path dir_path name)) names)))"

definition readdir_args :: "bool \<Rightarrow> (Unpacker, nat) st" where
  "readdir_args is_plus = bindS unpack_uint64 (\<lambda>cookie. bindS (unpack_fopaque 8) (\<lambda>_. bindS unpack_uint32 (\<lambda>_.
    bindS (if is_plus then bindS unpack_uint32 (\<lambda>_. returnS ()) else returnS ()) (\<lambda>_. returnS cookie))))"

text \<open>\<^verbatim>\<open>enumerate(entries[index:], start=index + 1)\<close>\<close>

definition numbered_entries :: "nat \<Rightarrow> 'a list \<Rightarrow> (nat \<times> 'a) list" where
  "numbered_entries index es = enumerate (index + 1) (drop index es)"

definition pack_dir_entry :: "nat \<times> string \<times> nat \<times> string \<Rightarrow> Packer \<Rightarrow> Packer res" where
  "pack_dir_entry = (\<lambda>(offset, name, fid, _). packs
    [pack_bool True, pack_uint64 (int fid), pack_string name, pack_uint64 (int offset)])"

definition proc_readdir :: "Host \<Rightarrow> Unpacker \<Rightarrow> (NfsHandler, bytes) st" where
  "proc_readdir H u = with_handle u (\<lambda>dir_path u1.
    bindS (liftR (runU (readdir_args False) u1)) (\<lambda>cookie.
    bindS (nfs_stat_path H dir_path) (\<lambda>dir_attr.
    case dir_attr of
      None \<Rightarrow> liftR (wcc_error H NFS3ERR_NOTDIR dir_attr)
    | Some a \<Rightarrow>
      if at_type a \<noteq> NF3DIR then liftR (wcc_error H NFS3ERR_NOTDIR dir_attr)
      else bindS (dir_entries H dir_path a) (\<lambda>entries.
        liftR (packs ([pack_uint32 (int NFS3_OK), pack_post_op_attr H dir_attr, pack_fopaque (replicate 8 NUL) 8]
          @ map pack_dir_entry (numbered_entries cookie entries) @ [pack_bool False, pack_bool True]) [])))))"

fun readdirplus_loop :: "Host \<Rightarrow> (nat \<times> string \<times> nat \<times> string) list \<Rightarrow> Packer \<Rightarrow> (NfsHandler, Packer) st" where
  "readdirplus_loop H [] out = returnS out"
| "readdirplus_loop H ((offset, name, fid, child_path) # es) out =
    bindS (nfs_stat_path H child_path) (\<lambda>child_attr.
    bindS (register H child_path) (\<lambda>hdl.
    bindS (liftR (packs [pack_bool True, pack_uint64 (int fid), pack_string name, pack_uint64 (int offset),
      pack_post_op_attr H child_attr, pack_post_op_handle (Some hdl)] out)) (readdirplus_loop H es)))"

definition proc_readdirplus :: "Host \<Rightarrow> Unpacker \<Rightarrow> (NfsHandler, bytes) st" where
  "proc_readdirplus H u = with_handle u (\<lambda>dir_path u1.
    bindS (liftR (runU (readdir_args True) u1)) (\<lambda>cookie.
    bindS (nfs_stat_path H dir_path) (\<lambda>dir_attr.
    case dir_attr of
      None \<Rightarrow> liftR (wcc_error H NFS3ERR_NOTDIR dir_attr)
    | Some a \<Rightarrow>
      if at_type a \<noteq> NF3DIR then liftR (wcc_error H NFS3ERR_NOTDIR dir_attr)
      else bindS (dir_entries H dir_path a) (\<lambda>entries.
        bindS (liftR (packs [pack_uint32 (int NFS3_OK), pack_post_op_attr H dir_attr,
          pack_fopaque (replicate 8 NUL) 8] [])) (\<lambda>out.
        bindS (readdirplus_loop H (numbered_entries cookie entries) out) (\<lambda>out.
        liftR (packs [pack_bool False, pack_bool True] out)))))))"

text \<open>FSSTAT, FSINFO and PATHCONF answer constants after the attributes of the path.\<close>

definition info_reply :: "Host \<Rightarrow> (Packer \<Rightarrow> Packer res) list \<Rightarrow> Unpacker \<Rightarrow> (NfsHandler, bytes) st" where
  "info_reply H fs u = bindS (resolve_handle u) (\<lambda>(path, _).
    bindS (nfs_stat H path) (\<lambda>attr.
    liftR (packs ([pack_uint32 (int NFS3_OK), pack_post_op_attr H attr] @ fs) [])))"

definition proc_fsstat :: "Host \<Rightarrow> Unpacker \<Rightarrow> (NfsHandler, bytes) st" where
  "proc_fsstat H = info_reply H [pack_uint64 (2 ^ 40), pack_uint64 (2 ^ 40), pack_uint64 (2 ^ 40),
    pack_uint64 (2 ^ 30), pack_uint64 (2 ^ 30), pack_uint64 (2 ^ 30), pack_uint32 0]"

definition proc_fsinfo :: "Host \<Rightarrow> Unpacker \<Rightarrow> (NfsHandler, bytes) st" where
  "proc_fsinfo H = info_reply H [pack_uint32 (2 ^ 20), pack_uint32 (2 ^ 20), pack_uint32 4096,
    pack_uint32 (2 ^ 20), pack_uint32 (2 ^ 20), pack_uint32 4096, pack_uint32 8192, pack_uint64 (2 ^ 50),
    pack_uint32 1, pack_uint32 0, pack_uint32 0x18]"

definition proc_pathconf :: "Host \<Rightarrow> Unpacker \<Rightarrow> (NfsHandler, bytes) st" where
  "proc_pathconf H = info_reply H [pack_uint32 255, pack_uint32 255, pack_bool True, pack_bool True,
    pack_bool False, pack_bool True]"

definition commit_body :: "Host \<Rightarrow> string \<Rightarrow> nat \<Rightarrow> nat \<Rightarrow> (NfsHandler, bytes) st" where
  "commit_body H path offset count =
    bindS (file_size H path) (\<lambda>n.
    bindS (if count = 0 \<or> offset + count \<ge> n then flush_path H path else returnS ()) (\<lambda>_.
    bindS (nfs_stat_path H path) (\<lambda>before.
    liftR (packs [pack_uint32 (int NFS3_OK), pack_wcc H before before, pack_fopaque WRITE_VERIFIER 8] []))))"

definition proc_commit :: "Host \<Rightarrow> Unpacker \<Rightarrow> (NfsHandler, bytes) st" where
  "proc_commit H u = with_handle u (\<lambda>path u1.
    bindS (liftR (runU read_args u1)) (\<lambda>(offset, count). commit_body H path offset count))"

definition nfs_procs :: "(nat \<times> (Host \<Rightarrow> Unpacker \<Rightarrow> (NfsHandler, bytes) st)) list" where
  "nfs_procs = [(0, proc_null), (1, proc_getattr), (2, proc_setattr), (3, proc_lookup), (4, proc_access),
    (5, proc_readlink), (6, proc_read), (7, proc_write), (8, proc_create), (9, proc_mkdir), (10, proc_symlink),
    (11, proc_mknod), (12, proc_remove), (13, proc_rmdir), (14, proc_rename), (15, proc_link), (16, proc_readdir),
    (17, proc_readdirplus), (18, proc_fsstat), (19, proc_fsinfo), (20, proc_pathconf), (21, proc_commit)]"

definition nfs_dispatch :: "Host \<Rightarrow> RpcCall \<Rightarrow> (NfsHandler, bytes) st" where
  "nfs_dispatch H call =
    catchS
      (case map_of nfs_procs (proc call) of
         None \<Rightarrow> liftR (pack_reply_accepted_error (xid call) PROC_UNAVAIL)
       | Some handler \<Rightarrow> (\<lambda>s.
           case handler H (unpacker (args call)) s of
             (Inl e, s') \<Rightarrow> ((if is_xdr_error e then pack_reply_accepted_error (xid call) GARBAGE_ARGS else Inl e), s')
           | (Inr body, s') \<Rightarrow> (pack_reply_success (xid call) body, s')))
      (\<lambda>_. liftR (bindR (status_body NFS3ERR_SERVERFAULT) (pack_reply_success (xid call))))"

end
