(* ===== verification/NfsSteps.thy ===== *)
theory NfsSteps
  imports Nfs
begin

text \<open>
  The handler as a state machine: the steps of the daemon (a call, a timer that fires, a background job that
  runs) and what they keep. The interface \<open>nfs_readers\<close> names the three operations that fill the caches, on which
  every lookup rests; \<open>nfs_stable\<close> adds the operations from which the procedures are built: a predicate they keep is kept by every procedure but RENAME, and by RENAME too if
  moving files and directories keeps it (\<open>nfs_stable_rename\<close>).
\<close>

named_theorems kept \<open>computations that keep a predicate, by their outer form\<close>

lemma keeps_cond [kept]:
  "(c \<Longrightarrow> keeps P a) \<Longrightarrow> (\<not> c \<Longrightarrow> keeps P b) \<Longrightarrow> keeps P (if c then a else b)"
  by simp

lemma keeps_option [kept]:
  "keeps P a \<Longrightarrow> (\<And>y. keeps P (f y)) \<Longrightarrow> keeps P (case x of None \<Rightarrow> a | Some y \<Rightarrow> f y)"
  by (cases x) simp_all

lemma keeps_prod [kept]: "(\<And>a b. keeps P (f a b)) \<Longrightarrow> keeps P (case p of (a, b) \<Rightarrow> f a b)"
  by (cases p) simp

lemma keeps_Let [kept]: "(\<And>x. keeps P (f x)) \<Longrightarrow> keeps P (Let y f)"
  by (simp add: Let_def)

lemma keeps_seq:
  "keeps P (bindS m (\<lambda>_. k)) \<Longrightarrow> keeps P g \<Longrightarrow> keeps P (bindS m (\<lambda>_. bindS k (\<lambda>_. g)))"
proof (rule keepsI)
  fix s assume 1: "keeps P (bindS m (\<lambda>_. k))" and 2: "keeps P g" and s: "P s"
  from keepsD [OF 1 s] keepsD [OF 2] show "P (snd (bindS m (\<lambda>_. bindS k (\<lambda>_. g)) s))"
    by (auto simp: bindS_apply split: sum.splits)
qed

lemmas [kept] = keeps_basic keeps_bindS keeps_catchS keeps_iterS

inductive nfs_step :: "Host \<Rightarrow> NfsHandler \<Rightarrow> NfsHandler \<Rightarrow> bool" for H where
  call: "nfs_dispatch H c s = (r, s') \<Longrightarrow> nfs_step H s s'"
| timer: "p \<in> nh_stage_timers s \<Longrightarrow> start_stage p s = (r, s') \<Longrightarrow> nfs_step H s s'"
| job: "j < length (nh_jobs s) \<Longrightarrow> run_job H j s = (r, s') \<Longrightarrow> nfs_step H s s'"

inductive_cases nfs_stepE: "nfs_step H s s'"

inductive nfs_reachable :: "Host \<Rightarrow> NfsHandler \<Rightarrow> NfsHandler \<Rightarrow> bool" for H s0 where
  start: "nfs_reachable H s0 s0"
| step: "nfs_reachable H s0 s \<Longrightarrow> nfs_step H s s' \<Longrightarrow> nfs_reachable H s0 s'"

locale nfs_readers =
  fixes H :: Host and P :: "NfsHandler \<Rightarrow> bool"
  assumes entries [kept]: "keeps P nfs_entries"
    and namespace [kept]: "keeps P ensure_namespace"
    and sizes [kept]: "keeps P (file_size H p)"
begin

lemma stat [kept]: "keeps P (nfs_stat_path H p)"
proof (rule keepsI)
  fix s assume s: "P s"
  have k: "keeps P (bindS (classify p) (\<lambda>kind.
        case kind of
          None \<Rightarrow> returnS None
        | Some DirKind \<Rightarrow> getsS (\<lambda>s. Inr (Some (dir_attr_of (fileid (ho_sha256 H) p) p s)))
        | Some FileKind \<Rightarrow>
            catchS (bindS (file_size H p) (\<lambda>n.
              getsS (\<lambda>s. Inr (Some (file_attr_of 420 n (fileid (ho_sha256 H) p) p s)))))
            (\<lambda>e. if is_object_not_found e then returnS None else raiseS e)))"
    unfolding classify_def
    by (auto intro!: kept split: option.split path_kind.split)
  show "P (snd (nfs_stat_path H p s))"
    using s keepsD [OF k s] by (auto simp: nfs_stat_path_def split: option.split)
qed

lemma stat_option [kept]: "keeps P (nfs_stat H p)"
  unfolding nfs_stat_def by (intro kept)

lemma children [kept]: "keeps P (nfs_children p)"
  unfolding nfs_children_def by (intro kept)

lemma files_under [kept]: "keeps P (all_files_under p)"
  unfolding all_files_under_def by (intro kept)

lemma entries_of [kept]: "keeps P (dir_entries H d a)"
  unfolding dir_entries_def by (intro kept)

end

locale nfs_stable = nfs_readers +
  assumes touch [kept]: "keeps P (touch H p)"
    and untouch [kept]: "keeps P (untouch p)"
    and register [kept]: "keeps P (register H p)"
    and forget [kept]: "keeps P (forget H p)"
    and invalidate [kept]: "keeps P (invalidate_namespace p)"
    and write_bytes [kept]: "keeps P (nfs_write_bytes H p d)"
    and delete_bytes [kept]: "keeps P (nfs_delete_bytes H p)"
    and buffer_write [kept]: "keeps P (buffer_write p d)"
    and flush [kept]: "keeps P (flush_path H p)"
    and start_stage [kept]: "keeps P (start_stage p)"
    and timers [kept]: "keeps P (modifyS (nh_stage_timers_update f))"
    and run_job [kept]: "keeps P (run_job H j)"
    and marker: "keeps P (bindS (onRepo (repo_write_file (ho_sha1 H) (join_path p ''.trunkskeep'') []))
          (\<lambda>_. invalidate_namespace p))"
begin

lemma maybe_stage [kept]: "keeps P (maybe_stage_background H p)"
proof (rule keepsI)
  fix s assume s: "P s"
  have "keeps P (bindS (cancel_stage_timer p) (\<lambda>_.
        if BACKGROUND_STAGE_DELAY_MS = 0 then start_stage p
        else if \<not> ho_loop H then returnS ()
        else modifyS (nh_stage_timers_update (insert p))))"
    unfolding cancel_stage_timer_def by (intro kept)
  from keepsD [OF this s] s show "P (snd (maybe_stage_background H p s))"
    by (auto simp: maybe_stage_background_def split: option.split)
qed

lemma resolve [kept]: "keeps P (resolve_handle u)" and read_S [kept]: "keeps P (readS m u)"
  unfolding resolve_handle_def readS_def by (intro kept)+

lemma status [kept]: "keeps P (nfs_status n)"
  unfolding nfs_status_def by (intro kept)

lemma with_handle [kept]: "(\<And>p u'. keeps P (f p u')) \<Longrightarrow> keeps P (with_handle u f)"
  unfolding with_handle_def by (intro kept)

lemma replies [kept]:
  "keeps P (lookup_found H p a)" "keeps P (created_reply H d a p)" "keeps P (removed_reply H d a p)"
  "keeps P (unsupported_reply H q n)" "keeps P (info_reply H fs u)"
  unfolding lookup_found_def created_reply_def removed_reply_def unsupported_reply_def info_reply_def
  by (intro kept)+

lemma plus_loop [kept]: "keeps P (readdirplus_loop H es out)"
proof (induction es arbitrary: out)
  case Nil
  show ?case unfolding readdirplus_loop.simps by (intro kept)
next
  case (Cons e es)
  obtain o' n i c where "e = (o', n, i, c)" by (cases e)
  then show ?case unfolding readdirplus_loop.simps by (simp only: readdirplus_loop.simps) (intro kept Cons.IH)
qed

lemma read_kept [kept]: "keeps P (read_body H p n c)"
proof -
  have "keeps P (\<lambda>s. case read_bytes H p s of
          Inl e \<Rightarrow> if is_object_not_found e then nfs_status NFS3ERR_NOENT s else (Inl e, s)
        | Inr data \<Rightarrow> let part = slice n (n + c) data
          in (packs [pack_uint32 (int NFS3_OK), pack_post_op_attr H a, pack_uint32 (int (length part)),
               pack_bool (n + length part \<ge> length data), pack_opaque part] [], s))" for a
    by (auto simp: keeps_def nfs_status_def Let_def split: sum.split)
  then show ?thesis unfolding read_body_def by (intro kept)
qed

lemma write_kept [kept]: "keeps P (write_body H p n c d)"
  unfolding write_body_def by (intro kept)

lemma commit_kept [kept]: "keeps P (commit_body H p n c)"
  unfolding commit_body_def by (intro kept)

lemma mkdir_kept [kept]: "keeps P (proc_mkdir H u)"
  unfolding proc_mkdir_def Let_def by (intro kept keeps_seq [OF marker])

lemma procs:
  assumes "map_of nfs_procs n = Some f" and "n \<noteq> 14"
  shows "keeps P (f H u)"
proof -
  have 1: "keeps P (proc_null H u)" "keeps P (proc_getattr H u)" "keeps P (proc_setattr H u)"
    "keeps P (proc_lookup H u)" "keeps P (proc_access H u)" "keeps P (proc_readlink H u)"
    "keeps P (proc_read H u)" "keeps P (proc_write H u)" "keeps P (proc_create H u)"
    unfolding proc_null_def proc_getattr_def proc_setattr_def proc_lookup_def proc_access_def
      proc_readlink_def proc_read_def proc_write_def proc_create_def
    by (intro kept)+
  have 2: "keeps P (proc_symlink H u)" "keeps P (proc_mknod H u)" "keeps P (proc_remove H u)"
    "keeps P (proc_rmdir H u)" "keeps P (proc_link H u)" "keeps P (proc_readdir H u)"
    "keeps P (proc_readdirplus H u)" "keeps P (proc_fsstat H u)" "keeps P (proc_fsinfo H u)"
    "keeps P (proc_pathconf H u)" "keeps P (proc_commit H u)"
    unfolding proc_symlink_def proc_mknod_def proc_remove_def proc_rmdir_def proc_link_def proc_readdir_def
      proc_readdirplus_def proc_fsstat_def proc_fsinfo_def proc_pathconf_def proc_commit_def
    by (intro kept)+
  from assms 1 2 mkdir_kept [of u] show ?thesis by (auto simp: nfs_procs_def split: if_splits)
qed

lemma dispatch_from:
  assumes "\<And>f. map_of nfs_procs (proc c) = Some f \<Longrightarrow> keeps P (f H (unpacker (args c)))"
  shows "keeps P (nfs_dispatch H c)"
proof -
  have "keeps P (\<lambda>s.
           case f H (unpacker (args c)) s of
             (Inl e, s') \<Rightarrow> ((if is_xdr_error e then pack_reply_accepted_error (xid c) GARBAGE_ARGS else Inl e), s')
           | (Inr body, s') \<Rightarrow> (pack_reply_success (xid c) body, s'))"
    if "map_of nfs_procs (proc c) = Some f" for f
    using keepsD [OF assms [OF that]] by (force simp: keeps_def split: prod.split sum.split)
  then show ?thesis
    unfolding nfs_dispatch_def
    by (cases "map_of nfs_procs (proc c)") (auto intro!: keeps_catchS)
qed

lemma dispatch: "proc c \<noteq> 14 \<Longrightarrow> keeps P (nfs_dispatch H c)"
  using procs by (intro dispatch_from) blast

end

locale nfs_stable_rename = nfs_stable +
  assumes rename_file [kept]: "keeps P (rename_file H p q)"
    and move_directory [kept]: "keeps P (move_directory H p q)"
begin

lemma rename_kept: "keeps P (proc_rename H u)"
  unfolding proc_rename_def rename_body_def by (intro kept)

lemma any_dispatch: "keeps P (nfs_dispatch H c)"
proof (rule dispatch_from)
  fix f assume f: "map_of nfs_procs (proc c) = Some f"
  show "keeps P (f H (unpacker (args c)))"
  proof (cases "proc c = 14")
    case True
    then have "f = proc_rename" using f by (simp add: nfs_procs_def)
    then show ?thesis using rename_kept by simp
  next
    case False
    then show ?thesis using procs [OF f] by simp
  qed
qed

lemma step_kept:
  assumes "nfs_step H s s'" and "P s"
  shows "P s'"
  using assms(1)
proof (cases rule: nfs_step.cases)
  case (call c r)
  then show ?thesis using keepsD [OF any_dispatch [of c] assms(2)] by simp
next
  case (timer p r)
  then show ?thesis using keepsD [OF start_stage [of p] assms(2)] by simp
next
  case (job j r)
  then show ?thesis using keepsD [OF run_job [of j] assms(2)] by simp
qed

lemma reachable_kept: "nfs_reachable H s0 s \<Longrightarrow> P s0 \<Longrightarrow> P s"
  by (induction rule: nfs_reachable.induct) (auto intro: step_kept)

end

end
