(* ===== verification/NfsInv.thy ===== *)
theory NfsInv
  imports NfsSteps
begin

text \<open>
  The invariant of the NFS handler. The three tables of pending writes name the same paths, and a background
  job that the handler may still use holds the buffer of the generation it was started for. This
  is what makes the short cut of a flush right: when the job of the current generation has
  stored the blob, the flush only points the index at it.
\<close>

section \<open>The invariant\<close>

definition buffers_ok :: "NfsHandler \<Rightarrow> bool" where
  "buffers_ok s \<longleftrightarrow> (\<forall>p. (p \<in> nh_dirty s \<longleftrightarrow> map_of (nh_write_buffers s) p \<noteq> None) \<and>
     (p \<in> nh_dirty s \<longleftrightarrow> map_of (nh_dirty_generations s) p \<noteq> None))"

abbreviation blob_id :: "Host \<Rightarrow> bytes \<Rightarrow> ObjectId" where
  "blob_id H b \<equiv> from_bytes (ho_sha1 H) (canonical_object ''blob'' b)"

fun job_holds :: "Host \<Rightarrow> Repo \<Rightarrow> stage_job \<Rightarrow> nat \<Rightarrow> bytes \<Rightarrow> bool" where
  "job_holds H r (Running g' b') g b = (g' = g \<and> b' = b)"
| "job_holds H r (Finished x) g b = (sb_generation x = g \<and> sb_oid x = blob_id H b \<and>
     map_of (r_objects r) (oid_value (blob_id H b)) \<noteq> None)"
| "job_holds H r (Failed e) g b = True"

definition staged_ok :: "Host \<Rightarrow> NfsHandler \<Rightarrow> bool" where
  "staged_ok H s \<longleftrightarrow> (\<forall>p j. map_of (nh_stage_futures s) p = Some j \<longrightarrow>
     j < length (nh_jobs s) \<and>
     (\<exists>g b gc bc. job_holds H (nh_repo s) (nh_jobs s ! j) g b \<and>
        map_of (nh_dirty_generations s) p = Some gc \<and> map_of (nh_write_buffers s) p = Some bc \<and>
        g \<le> gc \<and> (g = gc \<longrightarrow> b = bc)))"

definition nfs_inv :: "Host \<Rightarrow> NfsHandler \<Rightarrow> bool" where
  "nfs_inv H s \<longleftrightarrow> repo_inv (ho_sha1 H) (nh_repo s) \<and> handles_inv (ho_sha256 H) (nh_handles s) \<and>
     buffers_ok s \<and> staged_ok H s"

lemma nfs_inv_cong:
  assumes "nh_repo s = nh_repo t" "nh_handles s = nh_handles t" "nh_dirty s = nh_dirty t"
    "nh_write_buffers s = nh_write_buffers t" "nh_dirty_generations s = nh_dirty_generations t"
    "nh_stage_futures s = nh_stage_futures t" "nh_jobs s = nh_jobs t"
  shows "nfs_inv H s = nfs_inv H t"
  using assms by (simp add: nfs_inv_def buffers_ok_def staged_ok_def)

lemma staged_okD:
  assumes "staged_ok H s" and "map_of (nh_stage_futures s) p = Some j"
  obtains g b gc bc where "j < length (nh_jobs s)" and "job_holds H (nh_repo s) (nh_jobs s ! j) g b"
    and "map_of (nh_dirty_generations s) p = Some gc" and "map_of (nh_write_buffers s) p = Some bc"
    and "g \<le> gc" and "g = gc \<longrightarrow> b = bc"
  using assms unfolding staged_ok_def by metis

section \<open>The repository below\<close>

definition grows :: "Repo \<Rightarrow> Repo \<Rightarrow> bool" where
  "grows r r' \<longleftrightarrow> (\<forall>k v. map_of (r_objects r) k = Some v \<longrightarrow> map_of (r_objects r') k = Some v)"

lemma grows_refl [simp, intro]: "grows r r"
  by (simp add: grows_def)

lemma grows_trans: "grows a b \<Longrightarrow> grows b c \<Longrightarrow> grows a c"
  by (simp add: grows_def)

lemma grows_setdefault [intro]: "r_objects r' = setdefault k v (r_objects r) \<Longrightarrow> grows r r'"
  by (auto simp: grows_def map_of_setdefault split: option.split)

lemma grows_objects [intro]: "r_objects r' = r_objects r \<Longrightarrow> grows r r'"
  by (simp add: grows_def)

lemma job_holds_grows: "job_holds H r j g b \<Longrightarrow> grows r r' \<Longrightarrow> job_holds H r' j g b"
  by (cases j) (auto simp: grows_def)

lemma repo_write_grows: "grows r (snd (repo_write_file h p d r))"
  by (cases "repo_normalize_trackable_path p") (auto simp: repo_write_file_def bindS_def Let_def)

lemma repo_delete_grows: "grows r (snd (repo_delete_file p r))"
  by (cases "repo_normalize_trackable_path p") (auto simp: repo_delete_file_def bindS_def)

lemma repo_set_file_grows: "grows r (snd (repo_set_file_object p x m r))"
  by (cases "repo_normalize_trackable_path p") (auto simp: repo_set_file_object_def bindS_def)

lemma repo_move_grows: "grows r (snd (repo_move_file h b p q r))"
proof (cases "repo_read_file h b p r")
  case (Inr d)
  then show ?thesis
    using repo_write_grows [of r h q d] repo_delete_grows [of "snd (repo_write_file h q d r)" p]
    by (cases "repo_write_file h q d r")
      (auto simp: repo_move_file_def repo_copy_file_def bindS_def split: sum.splits intro: grows_trans)
qed (auto simp: repo_move_file_def repo_copy_file_def bindS_def)

lemma repo_inv_set_file:
  assumes "repo_inv h r" and "valid_oid x"
  shows "repo_inv h (snd (repo_set_file_object p x m r))"
proof (cases "repo_normalize_trackable_path p")
  case (Inr n)
  then show ?thesis
    using repo_inv_index_update [OF assms(1) normalize_trackable_Inr [OF Inr]] assms(2)
    by (simp add: repo_set_file_object_def valid_oid_def)
qed (simp add: repo_set_file_object_def bindS_def assms)

lemma repo_inv_move:
  assumes "repo_inv h r" and "digest20 h"
  shows "repo_inv h (snd (repo_move_file h b p q r))"
proof (cases "repo_read_file h b p r")
  case (Inr d)
  note w = repo_inv_write_file [OF assms, of q d]
  then show ?thesis
    using Inr repo_inv_delete_file [OF w, of p]
    by (cases "repo_write_file h q d r")
      (auto simp: repo_move_file_def repo_copy_file_def bindS_def split: sum.splits)
qed (simp add: repo_move_file_def repo_copy_file_def bindS_def assms)

lemma repo_stage_run:
  "repo_stage_blob h d r = (Inr (from_bytes h (canonical_object ''blob'' d)),
     r_objects_update (setdefault (oid_value (from_bytes h (canonical_object ''blob'' d))) (''blob'', canonical_object ''blob'' d)) r)"
  by (simp add: repo_stage_blob_def Let_def)

lemma repo_inv_stage:
  assumes "repo_inv h r" and "digest20 h"
  shows "repo_inv h (snd (repo_stage_blob h d r))"
  using assms by (simp add: repo_stage_run parse_canonical_canonical repo_inv_add_object)

text \<open>Replacing the repository by one that has more objects keeps the invariant.\<close>

lemma nfs_inv_repo:
  assumes "nfs_inv H s" and "repo_inv (ho_sha1 H) r" and "grows (nh_repo s) r"
  shows "nfs_inv H (s\<lparr>nh_repo := r\<rparr>)"
  using assms job_holds_grows unfolding nfs_inv_def staged_ok_def buffers_ok_def by simp meson

lemma onRepo_apply: "onRepo m s = (fst (m (nh_repo s)), s\<lparr>nh_repo := snd (m (nh_repo s))\<rparr>)"
  by (simp add: onRepo_def split: prod.split)

lemma keeps_onRepo:
  assumes "\<And>r. repo_inv (ho_sha1 H) r \<Longrightarrow> repo_inv (ho_sha1 H) (snd (m r))" and "\<And>r. grows r (snd (m r))"
  shows "keeps (nfs_inv H) (onRepo m)"
proof (rule keepsI)
  fix s assume s: "nfs_inv H s"
  then have "repo_inv (ho_sha1 H) (nh_repo s)" by (simp add: nfs_inv_def)
  with assms s show "nfs_inv H (snd (onRepo m s))" by (simp add: onRepo_apply nfs_inv_repo)
qed
section \<open>The operations keep it\<close>

lemma keeps_fields:
  assumes "\<And>s. nh_repo (snd (m s)) = nh_repo s" "\<And>s. nh_handles (snd (m s)) = nh_handles s"
    "\<And>s. nh_dirty (snd (m s)) = nh_dirty s" "\<And>s. nh_write_buffers (snd (m s)) = nh_write_buffers s"
    "\<And>s. nh_dirty_generations (snd (m s)) = nh_dirty_generations s"
    "\<And>s. nh_stage_futures (snd (m s)) = nh_stage_futures s" "\<And>s. nh_jobs (snd (m s)) = nh_jobs s"
  shows "keeps (nfs_inv H) m"
  by (rule keepsI) (subst nfs_inv_cong, (rule assms)+)

lemma ensure_namespace_fields:
  "nh_repo (snd (ensure_namespace s)) = nh_repo s" "nh_handles (snd (ensure_namespace s)) = nh_handles s"
  "nh_dirty (snd (ensure_namespace s)) = nh_dirty s"
  "nh_write_buffers (snd (ensure_namespace s)) = nh_write_buffers s"
  "nh_dirty_generations (snd (ensure_namespace s)) = nh_dirty_generations s"
  "nh_stage_futures (snd (ensure_namespace s)) = nh_stage_futures s" "nh_jobs (snd (ensure_namespace s)) = nh_jobs s"
  "nh_ephemeral (snd (ensure_namespace s)) = nh_ephemeral s" "nh_size_cache (snd (ensure_namespace s)) = nh_size_cache s"
  by (auto simp: ensure_namespace_def nfs_entries_def bindS_def split: option.split sum.split)

lemma file_size_fields:
  "nh_repo (snd (file_size H p s)) = nh_repo s" "nh_handles (snd (file_size H p s)) = nh_handles s"
  "nh_dirty (snd (file_size H p s)) = nh_dirty s" "nh_write_buffers (snd (file_size H p s)) = nh_write_buffers s"
  "nh_dirty_generations (snd (file_size H p s)) = nh_dirty_generations s"
  "nh_stage_futures (snd (file_size H p s)) = nh_stage_futures s" "nh_jobs (snd (file_size H p s)) = nh_jobs s"
  "nh_ephemeral (snd (file_size H p s)) = nh_ephemeral s"
  by (auto simp: file_size_def bindS_def split: option.split sum.split)

lemma nfs_inv_basic [kept]:
  "keeps (nfs_inv H) (touch H p)" "keeps (nfs_inv H) (untouch p)" "keeps (nfs_inv H) nfs_entries"
  "keeps (nfs_inv H) ensure_namespace" "keeps (nfs_inv H) (file_size H p)"
  "keeps (nfs_inv H) (invalidate_namespace p)" "keeps (nfs_inv H) (modifyS (nh_stage_timers_update f))"
  "keeps (nfs_inv H) (modifyS (nh_ephemeral_update e))"
  by (rule keeps_fields; auto simp: touch_def time_now_def untouch_def bindS_def nfs_entries_def
      invalidate_namespace_def ensure_namespace_fields file_size_fields split: option.split sum.split)+

lemma nfs_inv_handles [kept]:
  "keeps (nfs_inv H) (register H p)" "keeps (nfs_inv H) (forget H p)" "keeps (nfs_inv H) (rename_handle H p q)"
  using handles_inv_register handles_inv_forget handles_inv_rename
  by (auto simp: keeps_def nfs_inv_def buffers_ok_def staged_ok_def register_def forget_def rename_handle_def
      split: prod.split) (metis snd_conv)

lemma nfs_inv_drop [kept]: "keeps (nfs_inv H) (drop_pending p)"
  unfolding drop_pending_def cancel_stage_timer_def
proof (intro kept keeps_modifyS)
  fix s assume "nfs_inv H s"
  then show "nfs_inv H (s\<lparr>nh_write_buffers := AList.delete p (nh_write_buffers s), nh_dirty := nh_dirty s - {p},
      nh_dirty_generations := AList.delete p (nh_dirty_generations s),
      nh_stage_generations := AList.delete p (nh_stage_generations s),
      nh_stage_futures := AList.delete p (nh_stage_futures s)\<rparr>)"
    by (auto simp: nfs_inv_def buffers_ok_def staged_ok_def)
qed

lemma nfs_inv_buffer_write [kept]: "keeps (nfs_inv H) (buffer_write p d)"
  unfolding buffer_write_def
proof (rule keeps_modifyS)
  fix s assume s: "nfs_inv H s"
  let ?g = "case map_of (nh_dirty_generations s) p of None \<Rightarrow> 1 | Some g \<Rightarrow> g + 1"
  let ?s = "s\<lparr>nh_write_buffers := AList.update p d (nh_write_buffers s), nh_dirty := insert p (nh_dirty s),
      nh_dirty_generations := AList.update p ?g (nh_dirty_generations s),
      nh_size_cache := AList.update p (length d) (nh_size_cache s)\<rparr>"
  have "staged_ok H ?s"
    unfolding staged_ok_def
  proof (intro allI impI)
    fix q j assume "map_of (nh_stage_futures ?s) q = Some j"
    then have q: "map_of (nh_stage_futures s) q = Some j" by simp
    have "staged_ok H s" using s by (simp add: nfs_inv_def)
    from staged_okD [OF this q] obtain g b gc bc
      where "j < length (nh_jobs s)" "job_holds H (nh_repo s) (nh_jobs s ! j) g b"
        "map_of (nh_dirty_generations s) q = Some gc" "map_of (nh_write_buffers s) q = Some bc"
        "g \<le> gc" "g = gc \<longrightarrow> b = bc" .
    then show "j < length (nh_jobs ?s) \<and> (\<exists>g b gc bc. job_holds H (nh_repo ?s) (nh_jobs ?s ! j) g b \<and>
        map_of (nh_dirty_generations ?s) q = Some gc \<and> map_of (nh_write_buffers ?s) q = Some bc \<and>
        g \<le> gc \<and> (g = gc \<longrightarrow> b = bc))"
      by (cases "q = p") fastforce+
  qed
  with s show "nfs_inv H ?s" by (auto simp: nfs_inv_def buffers_ok_def)
qed

lemma stage_blob_run:
  "stage_blob H g d r = (Inr \<lparr>sb_generation = g, sb_oid = blob_id H d, sb_size = length d\<rparr>,
     snd (repo_stage_blob (ho_sha1 H) d r))"
  by (simp add: stage_blob_def bindS_def repo_stage_run)

lemma stage_grows: "grows r (snd (repo_stage_blob h d r))"
  by (auto simp: repo_stage_run)

lemma stage_stores: "map_of (r_objects (snd (repo_stage_blob (ho_sha1 H) d r))) (oid_value (blob_id H d)) \<noteq> None"
  by (auto simp: repo_stage_run map_of_setdefault split: option.split)

text \<open>What running a job does: nothing, or it stores its blob.\<close>

lemma run_job_cases:
  obtains "run_job H j s = (Inr (), s)" and "\<not> (j < length (nh_jobs s) \<and> (\<exists>g b. nh_jobs s ! j = Running g b))"
  | g b where "j < length (nh_jobs s)" and "nh_jobs s ! j = Running g b"
    and "run_job H j s = (Inr (), s\<lparr>nh_repo := snd (repo_stage_blob (ho_sha1 H) b (nh_repo s)),
        nh_jobs := (nh_jobs s)[j := Finished \<lparr>sb_generation = g, sb_oid = blob_id H b, sb_size = length b\<rparr>]\<rparr>)"
proof (cases "\<exists>g b. j < length (nh_jobs s) \<and> nh_jobs s ! j = Running g b")
  case True
  then obtain g b where "j < length (nh_jobs s)" "nh_jobs s ! j = Running g b" by blast
  then show ?thesis by (intro that(2)) (auto simp: run_job_def stage_blob_run)
next
  case False
  then show ?thesis by (intro that(1)) (auto simp: run_job_def split: stage_job.split)
qed

lemma nfs_inv_run_job_from:
  assumes "digest20 (ho_sha1 H)" and "nfs_inv H s"
  shows "nfs_inv H (snd (run_job H j s))"
proof (cases rule: run_job_cases [of H j s])
  case 1
  then show ?thesis using assms(2) by simp
next
  case (2 g b)
  let ?r = "snd (repo_stage_blob (ho_sha1 H) b (nh_repo s))"
  let ?x = "Finished \<lparr>sb_generation = g, sb_oid = blob_id H b, sb_size = length b\<rparr>"
  have r: "repo_inv (ho_sha1 H) ?r" using assms by (auto simp: nfs_inv_def intro: repo_inv_stage)
  have "nfs_inv H (s\<lparr>nh_repo := ?r\<rparr>)" using assms(2) r stage_grows by (rule nfs_inv_repo)
  moreover have "job_holds H ?r ((nh_jobs s)[j := ?x] ! i) g' b'"
    if "job_holds H ?r (nh_jobs s ! i) g' b'" and "i < length (nh_jobs s)" for i g' b'
    using that 2 stage_stores [of H b "nh_repo s"] by (cases "i = j") auto
  ultimately have "nfs_inv H (s\<lparr>nh_repo := ?r, nh_jobs := (nh_jobs s)[j := ?x]\<rparr>)"
    unfolding nfs_inv_def staged_ok_def buffers_ok_def by simp meson
  then show ?thesis using 2 by simp
qed

lemma nfs_inv_start_stage [kept]: "keeps (nfs_inv H) (start_stage p)"
proof (rule keepsI)
  fix s assume s: "nfs_inv H s"
  let ?s1 = "nh_stage_timers_update (\<lambda>ts. ts - {p}) s"
  have 1: "nfs_inv H ?s1" using s by (subst nfs_inv_cong [where t = s]) simp_all
  show "nfs_inv H (snd (start_stage p s))"
  proof (cases "\<exists>b g. map_of (nh_write_buffers s) p = Some b \<and> map_of (nh_dirty_generations s) p = Some g")
    case True
    then obtain b g where bg: "map_of (nh_write_buffers s) p = Some b" "map_of (nh_dirty_generations s) p = Some g"
      by blast
    let ?s2 = "?s1\<lparr>nh_stage_futures := AList.update p (length (nh_jobs s)) (nh_stage_futures s),
           nh_jobs := nh_jobs s @ [Running g b],
           nh_stage_generations := AList.update p g (nh_stage_generations s)\<rparr>"
    have "staged_ok H ?s2"
      unfolding staged_ok_def
    proof (intro allI impI)
      fix q j assume q: "map_of (nh_stage_futures ?s2) q = Some j"
      show "j < length (nh_jobs ?s2) \<and> (\<exists>g b gc bc. job_holds H (nh_repo ?s2) (nh_jobs ?s2 ! j) g b \<and>
        map_of (nh_dirty_generations ?s2) q = Some gc \<and> map_of (nh_write_buffers ?s2) q = Some bc \<and>
        g \<le> gc \<and> (g = gc \<longrightarrow> b = bc))"
      proof (cases "q = p")
        case True
        then show ?thesis using q bg by (auto simp: nth_append)
      next
        case False
        then have q': "map_of (nh_stage_futures s) q = Some j" using q by simp
        have "staged_ok H s" using s by (simp add: nfs_inv_def)
        from staged_okD [OF this q'] obtain g1 b1 gc bc where "j < length (nh_jobs s)"
          and h: "job_holds H (nh_repo s) (nh_jobs s ! j) g1 b1" "map_of (nh_dirty_generations s) q = Some gc"
            "map_of (nh_write_buffers s) q = Some bc" "g1 \<le> gc" "g1 = gc \<longrightarrow> b1 = bc" .
        then show ?thesis
          by (intro conjI exI [of _ g1] exI [of _ b1] exI [of _ gc] exI [of _ bc]) (simp_all add: nth_append)
      qed
    qed
    with 1 have "nfs_inv H ?s2" unfolding nfs_inv_def buffers_ok_def by simp metis
    with 1 bg show ?thesis by (simp add: start_stage_def)
  next
    case False
    then show ?thesis using 1 by (auto simp: start_stage_def split: option.split)
  qed
qed

text \<open>A staged blob that a flush gets back is the blob of the current buffer.\<close>

definition pending :: "string \<Rightarrow> NfsHandler \<Rightarrow> bytes \<Rightarrow> nat \<Rightarrow> bool" where
  "pending p s d g \<longleftrightarrow> map_of (nh_write_buffers s) p = Some d \<and> map_of (nh_dirty_generations s) p = Some g"

text \<open>The data that a hash may be asked for: what is stored, what is buffered, what a job is about to store.\<close>

definition nfs_data :: "NfsHandler \<Rightarrow> bytes set" where
  "nfs_data s = snd ` snd ` set (r_objects (nh_repo s)) \<union> canonical_object ''blob'' ` snd ` set (nh_write_buffers s) \<union>
     canonical_object ''blob'' ` {b. \<exists>g. Running g b \<in> set (nh_jobs s)}"

definition only_jobs :: "NfsHandler \<Rightarrow> NfsHandler \<Rightarrow> bool" where
  "only_jobs s s' \<longleftrightarrow> (\<exists>r js. s' = s\<lparr>nh_repo := r, nh_jobs := js\<rparr> \<and> grows (nh_repo s) r \<and>
     r_index r = r_index (nh_repo s) \<and> r_refs r = r_refs (nh_repo s) \<and> r_meta r = r_meta (nh_repo s)) \<and>
     nfs_data s' \<subseteq> nfs_data s"

lemma only_jobs_refl [simp]: "only_jobs s s"
  unfolding only_jobs_def by (intro conjI exI [of _ "nh_repo s"] exI [of _ "nh_jobs s"]) simp_all

lemma run_job_data: "nfs_data (snd (run_job H j s)) \<subseteq> nfs_data s"
proof (cases rule: run_job_cases [of H j s])
  case (2 g b)
  let ?c = "canonical_object ''blob'' b"
  have "Running g b \<in> set (nh_jobs s)" using 2(1,2) by (metis nth_mem)
  then have c: "?c \<in> nfs_data s" by (auto simp: nfs_data_def)
  let ?r = "snd (repo_stage_blob (ho_sha1 H) b (nh_repo s))"
  let ?js = "(nh_jobs s)[j := Finished \<lparr>sb_generation = g, sb_oid = blob_id H b, sb_size = length b\<rparr>]"
  have O: "snd ` snd ` set (r_objects ?r) \<subseteq> insert ?c (snd ` snd ` set (r_objects (nh_repo s)))"
    using image_mono [OF image_mono [OF set_setdefault_subset [of "oid_value (blob_id H b)" "(''blob'', ?c)"
          "r_objects (nh_repo s)"]], of snd snd] by (simp add: repo_stage_run)
  have J: "{b. \<exists>g. Running g b \<in> set ?js} \<subseteq> {b. \<exists>g. Running g b \<in> set (nh_jobs s)}"
    by (auto dest!: set_mp [OF set_update_subset_insert])
  have "nfs_data (s\<lparr>nh_repo := ?r, nh_jobs := ?js\<rparr>) \<subseteq> insert ?c (nfs_data s)"
    using Un_mono [OF Un_mono [OF O order_refl] image_mono [OF J]] by (simp add: nfs_data_def)
  then show ?thesis using 2(3) c by (simp add: insert_absorb)
qed simp

lemma run_job_only: "only_jobs s (snd (run_job H j s))"
proof (cases rule: run_job_cases [of H j s])
  case (2 g b)
  then show ?thesis
    unfolding only_jobs_def
    by (intro conjI run_job_data exI [of _ "snd (repo_stage_blob (ho_sha1 H) b (nh_repo s))"] exI)
      (auto simp: stage_grows repo_stage_run)
qed simp

lemma staged_blob_spec:
  assumes "digest20 (ho_sha1 H)" and "nfs_inv H s" and "pending p s d g"
  obtains x s' where "staged_blob H p g s = (Inr x, s')" and "nfs_inv H s'" and "only_jobs s s'"
    and "x = None \<or> (\<exists>b. x = Some b \<and> sb_oid b = blob_id H d \<and>
        map_of (r_objects (nh_repo s')) (oid_value (blob_id H d)) \<noteq> None)"
proof (cases "map_of (nh_stage_futures s) p")
  case None
  then show ?thesis using assms by (intro that [of None s]) (auto simp: staged_blob_def)
next
  case (Some j)
  define s' where "s' = snd (run_job H j s)"
  have inv': "nfs_inv H s'" unfolding s'_def using assms(1,2) by (rule nfs_inv_run_job_from)
  have run: "run_job H j s = (Inr (), s')" unfolding s'_def by (cases rule: run_job_cases [of H j s]) simp_all
  have fut: "map_of (nh_stage_futures s') p = Some j" "map_of (nh_write_buffers s') p = Some d"
    "map_of (nh_dirty_generations s') p = Some g"
    using Some assms(3) unfolding s'_def by (cases rule: run_job_cases [of H j s]; simp add: pending_def)+
  have not_running: "nh_jobs s' ! j \<noteq> Running g' b'" for g' b'
    unfolding s'_def by (cases rule: run_job_cases [of H j s]) (use Some assms(2) in \<open>auto simp: nfs_inv_def staged_ok_def\<close>)
  from inv' have "staged_ok H s'" by (simp add: nfs_inv_def)
  from staged_okD [OF this fut(1)] obtain g0 b0 where j: "j < length (nh_jobs s')"
    and holds: "job_holds H (nh_repo s') (nh_jobs s' ! j) g0 b0" and current: "g0 = g \<longrightarrow> b0 = d"
    using fut by (metis option.inject)
  show ?thesis
  proof (cases "\<exists>b. nh_jobs s' ! j = Finished b")
    case True
    then obtain b where b: "nh_jobs s' ! j = Finished b" by blast
    let ?x = "if sb_generation b = g then Some b else None"
    have res: "job_result H j s = (Inr b, s')" using run j b by (simp add: job_result_def bindS_def)
    have ok: "?x = None \<or> (\<exists>b. ?x = Some b \<and> sb_oid b = blob_id H d \<and>
        map_of (r_objects (nh_repo s')) (oid_value (blob_id H d)) \<noteq> None)"
      using holds current b by auto
    have "job_done j s \<Longrightarrow> s' = s" unfolding s'_def by (cases rule: run_job_cases [of H j s]) (auto simp: job_done_def)
    then show ?thesis
      using that [of ?x s'] that [of None s] Some res inv' assms(2) run_job_only [of s H j, folded s'_def] ok
      by (cases "job_done j s"; cases "map_of (nh_stage_generations s) p = Some g")
        (auto simp: staged_blob_def bindS_def catchS_def)
  next
    case False
    then obtain e where e: "nh_jobs s' ! j = Failed e" using not_running by (cases "nh_jobs s' ! j") auto
    then have s': "s' = s" and "job_done j s"
      using j unfolding s'_def by (cases rule: run_job_cases [of H j s]; auto simp: job_done_def)+
    then have "staged_blob H p g s = (Inr None, s)"
      using Some run j e by (simp add: staged_blob_def job_result_def bindS_def catchS_def)
    then show ?thesis using that [of None s] assms(2) by simp
  qed
qed

text \<open>What a flush leaves: the index names the blob of the buffer, the tables forget the path.\<close>

definition settled :: "string \<Rightarrow> nat \<Rightarrow> NfsHandler \<Rightarrow> NfsHandler" where
  "settled p n s = s\<lparr>nh_write_buffers := AList.delete p (nh_write_buffers s), nh_dirty := nh_dirty s - {p},
     nh_dirty_generations := AList.delete p (nh_dirty_generations s),
     nh_stage_generations := AList.delete p (nh_stage_generations s),
     nh_stage_futures := AList.delete p (nh_stage_futures s),
     nh_size_cache := filter (\<lambda>(q, _). \<not> (q = p \<or> under p q)) (AList.update p n (nh_size_cache s)),
     nh_entries_cache := None, nh_files_cache := None, nh_dirs_cache := None, nh_children_cache := None\<rparr>"

lemma nfs_inv_settled: "nfs_inv H s \<Longrightarrow> nfs_inv H (settled p n s)"
  by (auto simp: settled_def nfs_inv_def buffers_ok_def staged_ok_def)

lemma settled_step:
  "bindS (modifyS (\<lambda>s. s\<lparr>nh_write_buffers := AList.delete p (nh_write_buffers s), nh_dirty := nh_dirty s - {p},
     nh_dirty_generations := AList.delete p (nh_dirty_generations s),
     nh_stage_generations := AList.delete p (nh_stage_generations s),
     nh_stage_futures := AList.delete p (nh_stage_futures s),
     nh_size_cache := AList.update p n (nh_size_cache s)\<rparr>)) (\<lambda>_. invalidate_namespace p) s = (Inr (), settled p n s)"
  by (simp add: invalidate_namespace_def settled_def)

definition no_timer :: "string \<Rightarrow> NfsHandler \<Rightarrow> NfsHandler" where
  "no_timer p = nh_stage_timers_update (\<lambda>ts. ts - {p})"

lemma no_timer_fields [simp]:
  "nh_repo (no_timer p s) = nh_repo s" "nh_dirty (no_timer p s) = nh_dirty s"
  "nh_write_buffers (no_timer p s) = nh_write_buffers s" "nh_ephemeral (no_timer p s) = nh_ephemeral s"
  "nh_dirty_generations (no_timer p s) = nh_dirty_generations s" "nfs_inv H (no_timer p s) = nfs_inv H s"
  "pending q (no_timer p s) d g = pending q s d g"
  by (simp_all add: no_timer_def nfs_inv_def buffers_ok_def staged_ok_def pending_def)

lemma flush_cases:
  assumes "digest20 (ho_sha1 H)" and "nfs_inv H s" and "p \<in> nh_dirty s"
  obtains (ephemeral) d g where "is_ephemeral_path p" and "pending p s d g"
      and "flush_path H p s =
        (Inr (), settled p (length d) (nh_ephemeral_update (AList.update p d) (no_timer p s)))"
  | (published) d g s1 where "\<not> is_ephemeral_path p" and "pending p s d g" and "nfs_inv H s1"
      and "only_jobs (no_timer p s) s1"
      and "flush_path H p s = (case repo_write_file (ho_sha1 H) p d (nh_repo s1) of
          (Inl e, r) \<Rightarrow> (Inl e, s1\<lparr>nh_repo := r\<rparr>) | (Inr _, r) \<Rightarrow> (Inr (), settled p (length d) (s1\<lparr>nh_repo := r\<rparr>)))"
  | (pointed) d g s1 where "\<not> is_ephemeral_path p" and "pending p s d g" and "nfs_inv H s1"
      and "only_jobs (no_timer p s) s1"
      and "map_of (r_objects (nh_repo s1)) (oid_value (blob_id H d)) \<noteq> None"
      and "flush_path H p s = (case repo_set_file_object p (blob_id H d) ''100644'' (nh_repo s1) of
          (Inl e, r) \<Rightarrow> (Inl e, s1\<lparr>nh_repo := r\<rparr>) | (Inr _, r) \<Rightarrow> (Inr (), settled p (length d) (s1\<lparr>nh_repo := r\<rparr>)))"
proof -
  obtain d g where pend: "pending p s d g"
    using assms(2,3) unfolding nfs_inv_def buffers_ok_def pending_def by (metis option.exhaust)
  define tail where "tail = bindS (modifyS (\<lambda>s. s\<lparr>nh_write_buffers := AList.delete p (nh_write_buffers s),
     nh_dirty := nh_dirty s - {p},
     nh_dirty_generations := AList.delete p (nh_dirty_generations s),
     nh_stage_generations := AList.delete p (nh_stage_generations s),
     nh_stage_futures := AList.delete p (nh_stage_futures s),
     nh_size_cache := AList.update p (length d) (nh_size_cache s)\<rparr>)) (\<lambda>_. invalidate_namespace p)"
  have tail: "tail t = (Inr (), settled p (length d) t)" for t
    unfolding tail_def by (rule settled_step)
  have start: "flush_path H p s = bindS (if is_ephemeral_path p then modifyS (nh_ephemeral_update (AList.update p d))
        else bindS (staged_blob H p g) (\<lambda>staged.
          case staged of
            None \<Rightarrow> onRepo (repo_write_file (ho_sha1 H) p d)
          | Some b \<Rightarrow> onRepo (repo_set_file_object p (sb_oid b) ''100644''))) (\<lambda>_. tail) (no_timer p s)"
    using assms(3) pend
    by (simp add: flush_path_def cancel_stage_timer_def no_timer_def pending_def bindS_apply tail_def)
  show ?thesis
  proof (cases "is_ephemeral_path p")
    case True
    then show ?thesis using ephemeral [OF True pend] start by (simp add: tail)
  next
    case False
    obtain x s1 where x: "staged_blob H p g (no_timer p s) = (Inr x, s1)" "nfs_inv H s1"
        "only_jobs (no_timer p s) s1"
        "x = None \<or> (\<exists>b. x = Some b \<and> sb_oid b = blob_id H d \<and>
          map_of (r_objects (nh_repo s1)) (oid_value (blob_id H d)) \<noteq> None)"
      using staged_blob_spec [OF assms(1), of "no_timer p s" p d g] assms(2) pend by auto
    show ?thesis
    proof (cases x)
      case None
      then show ?thesis
        using published [OF False pend x(2,3)] start False x(1)
        by (simp add: bindS_apply tail onRepo_apply split: prod.split sum.split)
    next
      case (Some b)
      then show ?thesis
        using pointed [OF False pend x(2,3)] start False x(1,4)
        by (simp add: bindS_apply tail onRepo_apply split: prod.split sum.split)
    qed
  qed
qed

lemma valid_blob_id: "digest20 (ho_sha1 H) \<Longrightarrow> valid_oid (blob_id H d)"
  by (rule valid_from_bytes)

lemma nfs_inv_flush:
  assumes "digest20 (ho_sha1 H)"
  shows "keeps (nfs_inv H) (flush_path H p)"
proof (rule keepsI)
  fix s assume s: "nfs_inv H s"
  show "nfs_inv H (snd (flush_path H p s))"
  proof (cases "p \<in> nh_dirty s")
    case True
    from assms s True show ?thesis
    proof (cases rule: flush_cases)
      case (ephemeral d g)
      have "nfs_inv H (nh_ephemeral_update (AList.update p d) (no_timer p s))"
        using s by (subst nfs_inv_cong [where t = "no_timer p s"]) simp_all
      then show ?thesis using ephemeral by (simp add: nfs_inv_settled)
    next
      case (published d g s1)
      have "nfs_inv H (s1\<lparr>nh_repo := snd (repo_write_file (ho_sha1 H) p d (nh_repo s1))\<rparr>)"
        using published(3) assms
        by (intro nfs_inv_repo repo_write_grows repo_inv_write_file) (auto simp: nfs_inv_def)
      then show ?thesis using published(5) by (auto simp: nfs_inv_settled split: prod.splits sum.splits)
    next
      case (pointed d g s1)
      have "nfs_inv H (s1\<lparr>nh_repo := snd (repo_set_file_object p (blob_id H d) ''100644'' (nh_repo s1))\<rparr>)"
        using pointed(3) valid_blob_id [OF assms]
        by (intro nfs_inv_repo repo_set_file_grows repo_inv_set_file) (auto simp: nfs_inv_def)
      then show ?thesis using pointed(6) by (auto simp: nfs_inv_settled split: prod.splits sum.splits)
    qed
  qed (simp add: flush_path_def s)
qed

lemma nfs_inv_write_bytes: "digest20 (ho_sha1 H) \<Longrightarrow> keeps (nfs_inv H) (nfs_write_bytes H p d)"
  unfolding nfs_write_bytes_def by (intro kept keeps_onRepo repo_inv_write_file repo_write_grows)

lemma nfs_inv_delete_bytes [kept]: "keeps (nfs_inv H) (nfs_delete_bytes H p)"
proof -
  have "keeps (nfs_inv H) (bindS (onRepo (repo_delete_file p)) (\<lambda>_. invalidate_namespace p))"
    by (intro kept keeps_onRepo repo_inv_delete_file repo_delete_grows)
  moreover have "keeps (nfs_inv H) (modifyS (nh_ephemeral_update (AList.delete p)))" by (rule nfs_inv_basic)
  ultimately have "keeps (nfs_inv H) (\<lambda>s. if map_of (nh_ephemeral s) p \<noteq> None
      then modifyS (nh_ephemeral_update (AList.delete p)) s
      else bindS (onRepo (repo_delete_file p)) (\<lambda>_. invalidate_namespace p) s)"
    by (auto simp: keeps_def)
  then show ?thesis unfolding nfs_delete_bytes_def by (intro kept)
qed

lemma nfs_inv_move_one:
  assumes "digest20 (ho_sha1 H)"
  shows "keeps (nfs_inv H) (move_one H a b p)"
proof -
  have "keeps (nfs_inv H) (bindS (flush_path H p) (\<lambda>_. onRepo (repo_move_file (ho_sha1 H) None p q)))" for q
    using assms by (intro kept nfs_inv_flush keeps_onRepo repo_inv_move repo_move_grows)
  moreover have "nfs_inv H s \<Longrightarrow> nfs_inv H (nh_ephemeral_update f s)" for s f
    by (subst nfs_inv_cong [where t = s]) simp_all
  ultimately have "keeps (nfs_inv H) (\<lambda>s. case map_of (nh_ephemeral s) p of
         Some b \<Rightarrow> (Inr (), s\<lparr>nh_ephemeral := AList.update q b (AList.delete p (nh_ephemeral s))\<rparr>)
       | None \<Rightarrow> bindS (flush_path H p) (\<lambda>_. onRepo (repo_move_file (ho_sha1 H) None p q)) s)" for q
    by (auto simp: keeps_def split: option.split)
  then show ?thesis unfolding move_one_def by (intro kept)
qed

lemma nfs_inv_files_under [kept]: "keeps (nfs_inv H) (all_files_under p)"
  unfolding all_files_under_def by (intro kept)

lemma nfs_inv_stable:
  assumes d: "digest20 (ho_sha1 H)"
  shows "nfs_stable_rename H (nfs_inv H)"
proof (unfold_locales, goal_cases)
  case (15 j)
  then show ?case using nfs_inv_run_job_from [OF d] by (simp add: keeps_def)
next
  case (16 p)
  show ?case using d by (intro kept keeps_onRepo repo_inv_write_file repo_write_grows)
next
  case (17 p q)
  show ?case
    unfolding rename_file_def
    using d by (intro kept nfs_inv_write_bytes nfs_inv_flush keeps_onRepo repo_inv_move repo_move_grows)
next
  case (18 p q)
  show ?case unfolding move_directory_def using d by (intro kept nfs_inv_move_one)
qed (intro kept nfs_inv_write_bytes nfs_inv_flush d)+

section \<open>Every reachable state\<close>

lemma keeps_imp: "(c \<Longrightarrow> keeps P m) \<Longrightarrow> keeps (\<lambda>s. c \<longrightarrow> P s) m"
  by (auto simp: keeps_def)

interpretation nfs_steps: nfs_stable_rename H "\<lambda>s. digest20 (ho_sha1 H) \<longrightarrow> nfs_inv H s" for H
proof -
  note stable = nfs_inv_stable [of H]
  note base = nfs_stable_rename.axioms(1) [OF stable]
  note readers = nfs_stable.axioms(1) [OF base]
  show "nfs_stable_rename H (\<lambda>s. digest20 (ho_sha1 H) \<longrightarrow> nfs_inv H s)"
    by unfold_locales
      (intro keeps_imp nfs_stable.touch [OF base] nfs_stable.untouch [OF base] nfs_stable.register [OF base]
        nfs_stable.forget [OF base] nfs_readers.entries [OF readers] nfs_readers.namespace [OF readers]
        nfs_readers.sizes [OF readers] nfs_stable.invalidate [OF base] nfs_stable.write_bytes [OF base]
        nfs_stable.delete_bytes [OF base] nfs_stable.buffer_write [OF base] nfs_stable.flush [OF base]
        nfs_stable.start_stage [OF base] nfs_stable.timers [OF base] nfs_stable.run_job [OF base]
        nfs_stable.marker [OF base] nfs_stable_rename.rename_file [OF stable] nfs_stable_rename.move_directory [OF stable];
       assumption)+
qed

lemma nfs_inv_init:
  "repo_inv (ho_sha1 H) r \<Longrightarrow> handles_inv (ho_sha256 H) t \<Longrightarrow> nfs_inv H (nfs_init H r t)"
  by (simp add: nfs_inv_def nfs_init_def buffers_ok_def staged_ok_def handles_inv_register)

text \<open>C7: in every state the daemon can reach from a sound repository, through any calls of any clients,
  timers and background jobs in any order, the repository is sound, every handle belongs to its
  path, the tables of pending writes agree, and a background job of the current generation of a
  path holds exactly the bytes now buffered for it.\<close>

theorem nfs_reachable_invariant:
  assumes "digest20 (ho_sha1 H)" and "repo_inv (ho_sha1 H) repo" and "handles_inv (ho_sha256 H) table"
    and "nfs_reachable H (nfs_init H repo table) s"
  shows "nfs_inv H s"
  using nfs_steps.reachable_kept [OF assms(4)] nfs_inv_init [OF assms(2,3)] assms(1) by blast

definition sample_host :: Host where
  "sample_host = \<lparr>ho_sha1 = sample_hash, ho_sha256 = sample_digest, ho_uid = 501, ho_gid = 20,
     ho_clock = (\<lambda>_. (1700000000, 0)), ho_loop = True\<rparr>"

lemma sample_host_simps [simp]: "ho_sha1 sample_host = sample_hash" "ho_sha256 sample_host = sample_digest"
  by (simp_all add: sample_host_def)

theorem nfs_reachable_invariant_witness:
  "nfs_inv sample_host (snd (nfs_dispatch sample_host (sample_call 8 (enc_opaque (derive sample_digest ''k'' '''')
     @ enc_opaque ''a'' @ be 4 2 @ ''verifier'')) (nfs_init sample_host repo_empty (handles_init sample_digest ''k''))))"
proof (rule nfs_reachable_invariant)
  show "digest20 (ho_sha1 sample_host)" by (simp add: digest20_sample)
  show "repo_inv (ho_sha1 sample_host) repo_empty" by (rule repo_inv_empty)
  show "handles_inv (ho_sha256 sample_host) (handles_init sample_digest ''k'')" by (simp add: handles_inv_init)
  show "nfs_reachable sample_host (nfs_init sample_host repo_empty (handles_init sample_digest ''k''))
     (snd (nfs_dispatch sample_host (sample_call 8 (enc_opaque (derive sample_digest ''k'' '''')
     @ enc_opaque ''a'' @ be 4 2 @ ''verifier'')) (nfs_init sample_host repo_empty (handles_init sample_digest ''k''))))"
    by (rule nfs_reachable.step [OF nfs_reachable.start nfs_step.call [OF surjective_pairing]])
qed

end
