(* ===== verification/NfsFiles.thy ===== *)
theory NfsFiles
  imports NfsInv
begin

text \<open>
  What a client sees of the files. \<open>read_bytes H p s\<close> is the content that READ serves: the write buffer, else the
  file kept in memory, else the repository. A flush moves a buffer into the repository and changes no
  content; WRITE changes the content of one file; COMMIT and closing the handler publish.
\<close>

section \<open>Reading from a repository that grew\<close>

lemma repo_object_data_grows: "grows r r' \<Longrightarrow> repo_object_data x r = Inr d \<Longrightarrow> repo_object_data x r' = Inr d"
  by (auto simp: repo_object_data_def grows_def split: option.splits)

lemma repo_payload_grows:
  assumes "grows r r'" and "repo_payload k x r = Inr d"
  shows "repo_payload k x r' = Inr d"
proof -
  obtain data where "repo_object_data x r = Inr data" using assms(2) by (auto simp: repo_payload_def)
  with assms repo_object_data_grows [OF assms(1) this] show ?thesis by (simp add: repo_payload_def)
qed

lemma repo_tree_grows: "grows r r' \<Longrightarrow> repo_tree h x r = Inr t \<Longrightarrow> repo_tree h x r' = Inr t"
  by (auto simp: repo_tree_def repo_payload_grows)

lemma repo_load_commit_grows: "grows r r' \<Longrightarrow> repo_load_commit x r = Inr c \<Longrightarrow> repo_load_commit x r' = Inr c"
  by (auto simp: repo_load_commit_def repo_payload_grows)

lemma resolve_parts_grows:
  "grows r r' \<Longrightarrow> resolve_parts h t ps r = Inr x \<Longrightarrow> resolve_parts h t ps r' = Inr x"
proof (induction ps arbitrary: t)
  case (Cons p ps)
  then show ?case
    by (auto simp: repo_tree_grows split: option.splits if_splits)
qed simp

lemma repo_resolve_path_grows:
  "grows r r' \<Longrightarrow> repo_resolve_path h t p r = Inr x \<Longrightarrow> repo_resolve_path h t p r' = Inr x"
  by (auto simp: repo_resolve_path_def repo_tree_grows resolve_parts_grows)

lemma repo_read_grows:
  assumes "grows r r'" and "r_refs r' = r_refs r" and "r_meta r' = r_meta r"
    and "\<And>m. repo_normalize_trackable_path q = Inr m \<Longrightarrow> map_of (r_index r') m = map_of (r_index r) m"
    and "repo_read_file h b q r = Inr d"
  shows "repo_read_file h b q r' = Inr d"
proof -
  obtain m where m: "repo_normalize_trackable_path q = Inr m" using assms(5) by (auto simp: repo_read_file_def)
  have refs: "repo_ref n r' = repo_ref n r" for n using assms(2) by (simp add: repo_ref_def)
  have branch: "repo_current_branch r' = repo_current_branch r"
    using assms(3) by (simp add: repo_current_branch_def repo_get_meta_def)
  note grow = repo_payload_grows [OF assms(1)] repo_load_commit_grows [OF assms(1)] repo_resolve_path_grows [OF assms(1)]
  show ?thesis
  proof (cases "map_of (r_index r) m")
    case (Some v)
    then show ?thesis
      using assms(4) [OF m] assms(5) m grow(1)
      by (auto simp: repo_read_file_def repo_blob_payload_def split: prod.splits)
  next
    case None
    then show ?thesis
      using assms(4) [OF m] assms(5) m grow
      by (fastforce simp: repo_read_file_def refs branch repo_blob_payload_def split: option.splits)
  qed
qed

lemma repo_write_same:
  "r_refs (snd (repo_write_file h p d r)) = r_refs r" "r_meta (snd (repo_write_file h p d r)) = r_meta r"
  by (cases "repo_normalize_trackable_path p"; simp add: repo_write_file_def bindS_def Let_def)+

section \<open>Flushing\<close>

lemma blob_stored:
  assumes "repo_inv (ho_sha1 H) r" and "digest20 (ho_sha1 H)"
    and "inj_on (ho_sha1 H) (insert (canonical_object ''blob'' d) (snd ` snd ` set (r_objects r)))"
    and "map_of (r_objects r) (oid_value (blob_id H d)) \<noteq> None"
  shows "repo_blob_payload (blob_id H d) r = Inr d"
proof -
  from assms(4) obtain k c where c: "map_of (r_objects r) (oid_value (blob_id H d)) = Some (k, c)" by auto
  then have "from_bytes (ho_sha1 H) c = blob_id H d" using repo_inv_object(2) [OF assms(1)] by force
  moreover have "c \<in> snd ` snd ` set (r_objects r)" using map_of_SomeD [OF c] by force
  ultimately have "c = canonical_object ''blob'' d" using assms(3) by (auto simp: inj_on_def)
  with c show ?thesis
    by (simp add: repo_blob_payload_def repo_payload_def repo_object_data_def parse_canonical_canonical)
qed

lemma nfs_data_parts:
  "snd ` snd ` set (r_objects (nh_repo s)) \<subseteq> nfs_data s"
  "canonical_object ''blob'' ` snd ` set (nh_write_buffers s) \<subseteq> nfs_data s"
  "canonical_object ''blob'' ` {b. \<exists>g. Running g b \<in> set (nh_jobs s)} \<subseteq> nfs_data s"
  unfolding nfs_data_def by (rule le_supI1 [OF le_supI1 [OF order_refl]], rule le_supI1 [OF le_supI2 [OF order_refl]],
      rule le_supI2 [OF order_refl])

lemmas nfs_data_stored = nfs_data_parts(1)

lemma nfs_data_le:
  assumes "snd ` snd ` set (r_objects (nh_repo t)) \<subseteq> nfs_data s"
    and "set (nh_write_buffers t) \<subseteq> set (nh_write_buffers s)" and "nh_jobs t = nh_jobs s"
  shows "nfs_data t \<subseteq> nfs_data s"
  unfolding nfs_data_def [of t] assms(3)
  using assms(1) order_trans [OF image_mono [OF image_mono [OF assms(2)]] nfs_data_parts(2)] nfs_data_parts(3)
  by (intro Un_least)

lemma nfs_data_buffered: "map_of (nh_write_buffers s) p = Some d \<Longrightarrow> canonical_object ''blob'' d \<in> nfs_data s"
proof -
  assume "map_of (nh_write_buffers s) p = Some d"
  then have "d \<in> snd ` set (nh_write_buffers s)" by (metis map_of_SomeD image_eqI snd_conv)
  then show ?thesis by (simp add: nfs_data_def)
qed

lemma nfs_data_settled: "nfs_data (settled p n s) \<subseteq> nfs_data s"
  using nfs_data_stored [of s] set_delete_subset [of p "nh_write_buffers s"]
  by (intro nfs_data_le) (simp_all add: settled_def)

lemma nfs_data_repo:
  assumes "snd ` snd ` set (r_objects r) \<subseteq> insert c (snd ` snd ` set (r_objects (nh_repo s)))" and "c \<in> nfs_data s"
  shows "nfs_data (s\<lparr>nh_repo := r\<rparr>) \<subseteq> nfs_data s"
  using order_trans [OF assms(1)] assms(2) nfs_data_stored [of s] by (intro nfs_data_le) simp_all

lemma no_timer_data [simp]: "nfs_data (no_timer p s) = nfs_data s"
  by (simp add: nfs_data_def no_timer_def)

lemma written_objects:
  "snd ` snd ` set (r_objects (snd (repo_write_file h p d r))) \<subseteq>
    insert (canonical_object ''blob'' d) (snd ` snd ` set (r_objects r))"
proof (cases "repo_normalize_trackable_path p")
  case (Inr n)
  show ?thesis
    using image_mono [OF image_mono [OF set_setdefault_subset [of "oid_value (from_bytes h (canonical_object ''blob'' d))"
        "(''blob'', canonical_object ''blob'' d)" "r_objects r"]], of snd snd]
    by (simp add: repo_write_file_run [OF Inr])
qed (auto simp: repo_write_file_def bindS_def)

text \<open>The state after a flush of a file that is not kept in memory.\<close>

definition flushed :: "Host \<Rightarrow> string \<Rightarrow> NfsHandler \<Rightarrow> bytes \<Rightarrow> Repo \<Rightarrow> stage_job list \<Rightarrow> bool" where
  "flushed H p s d r js \<longleftrightarrow>
    flush_path H p s = (Inr (), settled p (length d) ((no_timer p s)\<lparr>nh_jobs := js, nh_repo := r\<rparr>)) \<and>
    map_of (nh_write_buffers s) p = Some d \<and>
    repo_read_file (ho_sha1 H) None p r = Inr d \<and> grows (nh_repo s) r \<and>
    r_refs r = r_refs (nh_repo s) \<and> r_meta r = r_meta (nh_repo s) \<and>
    (\<forall>m. m \<noteq> p \<longrightarrow> map_of (r_index r) m = map_of (r_index (nh_repo s)) m) \<and>
    nfs_data (snd (flush_path H p s)) \<subseteq> nfs_data s"

lemma flush_effect:
  assumes "digest20 (ho_sha1 H)" and "nfs_inv H s" and "p \<in> nh_dirty s" and "\<not> is_ephemeral_path p"
    and "repo_normalize_trackable_path p = Inr p" and "inj_on (ho_sha1 H) (nfs_data s)"
  obtains d r js where "flushed H p s d r js"
  using assms(1-3)
proof (cases rule: flush_cases)
  case (ephemeral d g)
  then show ?thesis using assms(4) by simp
next
  case (published d g s1)
  let ?c = "canonical_object ''blob'' d"
  obtain r1 js where s1: "s1 = (no_timer p s)\<lparr>nh_repo := r1, nh_jobs := js\<rparr>" and g1: "grows (nh_repo s) r1"
    and same: "r_index r1 = r_index (nh_repo s)" "r_refs r1 = r_refs (nh_repo s)" "r_meta r1 = r_meta (nh_repo s)"
    and data: "nfs_data s1 \<subseteq> nfs_data s"
    using published(4) by (auto simp: only_jobs_def)
  let ?r = "snd (repo_write_file (ho_sha1 H) p d r1)"
  have d: "map_of (nh_write_buffers s) p = Some d" using published(2) by (simp add: pending_def)
  then have c: "?c \<in> nfs_data s1" by (intro nfs_data_buffered [of _ p]) (simp add: s1)
  note w = repo_write_file_run [OF assms(5), of "ho_sha1 H" d r1]
  have "insert ?c (snd ` snd ` set (r_objects r1)) \<subseteq> nfs_data s"
    using data c nfs_data_stored [of s1] by (auto simp: s1)
  then have "inj_on (ho_sha1 H) (insert ?c (snd ` snd ` set (r_objects r1)))" by (rule inj_on_subset [OF assms(6)])
  then have read: "repo_read_file (ho_sha1 H) None p ?r = Inr d"
    using published(3) assms(1,5) by (intro repo_read_written) (auto simp: nfs_inv_def s1)
  have f: "flush_path H p s = (Inr (), settled p (length d) ((no_timer p s)\<lparr>nh_jobs := js, nh_repo := ?r\<rparr>))"
    using published(5) by (simp add: s1 w)
  have "nfs_data (snd (flush_path H p s)) \<subseteq> nfs_data (s1\<lparr>nh_repo := ?r\<rparr>)"
    unfolding f using nfs_data_settled by (simp add: s1)
  also have "\<dots> \<subseteq> nfs_data s1" using written_objects c by (intro nfs_data_repo [of _ ?c]) (simp_all add: s1)
  finally show ?thesis
    using that [of d ?r js] d read f g1 same data repo_write_grows [of r1 "ho_sha1 H" p d] repo_write_same [of "ho_sha1 H" p d r1]
    by (auto simp: flushed_def w intro: grows_trans)
next
  case (pointed d g s1)
  let ?c = "canonical_object ''blob'' d" and ?x = "blob_id H d"
  obtain r1 js where s1: "s1 = (no_timer p s)\<lparr>nh_repo := r1, nh_jobs := js\<rparr>" and g1: "grows (nh_repo s) r1"
    and same: "r_index r1 = r_index (nh_repo s)" "r_refs r1 = r_refs (nh_repo s)" "r_meta r1 = r_meta (nh_repo s)"
    and data: "nfs_data s1 \<subseteq> nfs_data s"
    using pointed(4) by (auto simp: only_jobs_def)
  let ?r = "r_index_update (AList.update p (oid_value ?x, ''100644'')) r1"
  have set: "repo_set_file_object p ?x ''100644'' r1 = (Inr (), ?r)"
    using assms(5) by (simp add: repo_set_file_object_def)
  have d: "map_of (nh_write_buffers s) p = Some d" using pointed(2) by (simp add: pending_def)
  then have c: "?c \<in> nfs_data s1" by (intro nfs_data_buffered [of _ p]) (simp add: s1)
  have "insert ?c (snd ` snd ` set (r_objects r1)) \<subseteq> nfs_data s"
    using data c nfs_data_stored [of s1] by (auto simp: s1)
  then have inj: "inj_on (ho_sha1 H) (insert ?c (snd ` snd ` set (r_objects r1)))" by (rule inj_on_subset [OF assms(6)])
  have "repo_blob_payload ?x ?r = Inr d"
    using blob_stored [of H r1 d, OF _ assms(1) inj] pointed(3,5)
    by (simp add: nfs_inv_def s1 repo_blob_payload_def repo_payload_def repo_object_data_def)
  then have read: "repo_read_file (ho_sha1 H) None p ?r = Inr d"
    using assms(5) mk_ObjectId_value [OF valid_blob_id [OF assms(1)]] by (simp add: repo_read_file_def)
  have f: "flush_path H p s = (Inr (), settled p (length d) ((no_timer p s)\<lparr>nh_jobs := js, nh_repo := ?r\<rparr>))"
    using pointed(6) by (simp add: s1 set)
  have "nfs_data (snd (flush_path H p s)) \<subseteq> nfs_data (s1\<lparr>nh_repo := ?r\<rparr>)"
    unfolding f using nfs_data_settled by (simp add: s1)
  also have "\<dots> \<subseteq> nfs_data s1" using c by (intro nfs_data_repo [of _ ?c]) (auto simp: s1)
  finally show ?thesis
    using that [of d ?r js] d read f g1 same data by (auto simp: flushed_def grows_def)
qed

text \<open>A flush changes no content that a client can read.\<close>

lemma settled_fields [simp]:
  "nh_repo (settled p n s) = nh_repo s" "nh_ephemeral (settled p n s) = nh_ephemeral s"
  "nh_write_buffers (settled p n s) = AList.delete p (nh_write_buffers s)" "nh_dirty (settled p n s) = nh_dirty s - {p}"
  "nh_dirty_generations (settled p n s) = AList.delete p (nh_dirty_generations s)"
  by (simp_all add: settled_def)

lemma flushed_view:
  assumes "flushed H p s d r js" and "map_of (nh_ephemeral s) p = None"
    and "q \<noteq> p \<Longrightarrow> repo_normalize_trackable_path q \<noteq> Inr p" and "read_bytes H q s = Inr e"
  shows "read_bytes H q (snd (flush_path H p s)) = Inr e"
proof (cases "q = p")
  case True
  then show ?thesis using assms by (auto simp: flushed_def read_bytes_def)
next
  case False
  have keep: "repo_read_file (ho_sha1 H) None q (nh_repo s) = Inr e \<Longrightarrow> repo_read_file (ho_sha1 H) None q r = Inr e"
    using assms(1) assms(3) [OF False] by (intro repo_read_grows [of "nh_repo s" r]) (auto simp: flushed_def)
  have f: "flush_path H p s = (Inr (), settled p (length d) ((no_timer p s)\<lparr>nh_jobs := js, nh_repo := r\<rparr>))"
    using assms(1) by (simp add: flushed_def)
  show ?thesis
    using False assms(4) keep by (auto simp: read_bytes_def f split: option.splits)
qed

section \<open>What lookups leave alone\<close>

definition nfs_core :: "NfsHandler \<Rightarrow> _" where
  "nfs_core s = (nh_repo s, nh_handles s, nh_epoch s, nh_mtimes s, nh_ephemeral s, nh_write_buffers s, nh_dirty s,
     nh_dirty_generations s, nh_stage_futures s, nh_stage_generations s, nh_stage_timers s, nh_jobs s, nh_ticks s)"

lemma nfs_core_updates [simp]:
  "nfs_core (s\<lparr>nh_entries_cache := a\<rparr>) = nfs_core s" "nfs_core (s\<lparr>nh_size_cache := b\<rparr>) = nfs_core s"
  "nfs_core (s\<lparr>nh_files_cache := c, nh_dirs_cache := d, nh_children_cache := e\<rparr>) = nfs_core s"
  "nfs_core (nh_size_cache_update f s) = nfs_core s"
  by (simp_all add: nfs_core_def)

lemma nfs_core_entries: "nfs_core (snd (nfs_entries s)) = nfs_core s"
  by (cases "nh_entries_cache s"; cases "repo_index_entries (nh_repo s)") (simp_all add: nfs_entries_def)

interpretation lookups: nfs_readers H "\<lambda>s. nfs_core s = c" for H c
proof
  show "keeps (\<lambda>s. nfs_core s = c) nfs_entries" by (simp add: keeps_def nfs_core_entries)
  show "keeps (\<lambda>s. nfs_core s = c) ensure_namespace"
    using nfs_core_entries by (auto simp: keeps_def ensure_namespace_def bindS_apply split: sum.split)
  show "keeps (\<lambda>s. nfs_core s = c) (file_size H p)" for p
    by (simp add: keeps_def file_size_def bindS_apply split: option.split sum.split)
qed

lemma nfs_core_stat: "nfs_core (snd (nfs_stat_path H p s)) = nfs_core s"
  using keepsD [OF lookups.stat [of "nfs_core s" H p], of s] by simp

lemma nfs_core_fields:
  assumes "nfs_core t = nfs_core s"
  shows "nh_repo t = nh_repo s" "nh_handles t = nh_handles s" "nh_mtimes t = nh_mtimes s"
    "nh_ephemeral t = nh_ephemeral s" "nh_write_buffers t = nh_write_buffers s" "nh_dirty t = nh_dirty s"
    "nh_dirty_generations t = nh_dirty_generations s" "nh_jobs t = nh_jobs s" "nh_stage_futures t = nh_stage_futures s"
    "nh_epoch t = nh_epoch s" "nh_ticks t = nh_ticks s"
  using assms by (simp_all add: nfs_core_def)

lemma nfs_core_view: "nfs_core t = nfs_core s \<Longrightarrow> read_bytes H q t = read_bytes H q s"
  using nfs_core_fields [of t s] by (simp add: read_bytes_def cong: option.case_cong)

lemma stat_state:
  obtains a s' where "nfs_stat_path H p s = (a, s')" and "nfs_core s' = nfs_core s"
  using nfs_core_stat [of H p s] by (cases "nfs_stat_path H p s") auto

section \<open>Committing\<close>

lemma commit_state:
  assumes "map_of (nh_write_buffers s) p = Some d" and "count = 0 \<or> length d \<le> offset + count"
    and "flush_path H p s = (Inr (), s1)"
  shows "nfs_core (snd (commit_body H p offset count s)) = nfs_core s1"
proof -
  obtain a s2 where "nfs_stat_path H p s1 = (a, s2)" and "nfs_core s2 = nfs_core s1" by (rule stat_state)
  then show ?thesis
    using assms by (cases a) (simp_all add: commit_body_def file_size_def bindS_apply)
qed

text \<open>C9: COMMIT of the whole file makes the bytes written so far the content of the file in the repository,
  by whichever way the flush takes (writing the blob or pointing the index at the one a
  background job has stored), and no file reads differently afterwards. A COMMIT of a range that ends before
  the end of the file publishes nothing.\<close>

theorem nfs_commit_publishes:
  assumes "digest20 (ho_sha1 H)" and "nfs_inv H s" and "inj_on (ho_sha1 H) (nfs_data s)"
    and "map_of (nh_write_buffers s) p = Some d" and "map_of (nh_ephemeral s) p = None"
    and "\<not> is_ephemeral_path p" and "repo_normalize_trackable_path p = Inr p"
    and "count = 0 \<or> length d \<le> offset + count"
  shows "repo_read_file (ho_sha1 H) None p (nh_repo (snd (commit_body H p offset count s))) = Inr d \<and>
    p \<notin> nh_dirty (snd (commit_body H p offset count s)) \<and>
    (\<forall>q e. (q = p \<or> repo_normalize_trackable_path q \<noteq> Inr p) \<and> read_bytes H q s = Inr e \<longrightarrow>
       read_bytes H q (snd (commit_body H p offset count s)) = Inr e)"
proof -
  have "p \<in> nh_dirty s" using assms(2,4) by (simp add: nfs_inv_def buffers_ok_def)
  with assms obtain d' r js where f: "flushed H p s d' r js" by (metis flush_effect)
  then have d: "d' = d" using assms(4) by (simp add: flushed_def)
  let ?s1 = "snd (flush_path H p s)"
  have run: "flush_path H p s = (Inr (), ?s1)" using f by (simp add: flushed_def)
  have core: "nfs_core (snd (commit_body H p offset count s)) = nfs_core ?s1"
    using assms(4,8) run by (rule commit_state)
  have "nh_repo ?s1 = r" and "p \<notin> nh_dirty ?s1" using f by (auto simp: flushed_def)
  then show ?thesis
    using f d flushed_view [OF f assms(5)] nfs_core_fields(1,6) [OF core] nfs_core_view [OF core]
    by (auto simp: flushed_def)
qed

section \<open>Writing and reading\<close>

text \<open>What WRITE makes of the old content: the new bytes at their offset, the old ones elsewhere, zeros in a gap.\<close>

lemma splice_length: "length (splice n d old) = max (length old) (n + length d)"
  by (auto simp: splice_def Let_def)

lemma splice_nth:
  assumes "i < length (splice n d old)"
  shows "splice n d old ! i =
    (if n \<le> i \<and> i < n + length d then d ! (i - n) else if i < length old then old ! i else NUL)"
  using assms by (auto simp: splice_def Let_def nth_append min_def)

lemma slice_splice: "slice n (n + length d) (splice n d old) = d"
  by (auto simp: slice_def splice_def Let_def)

lemma maybe_stage_view:
  assumes "maybe_stage_background H p s = (a, t)"
  shows "nh_repo t = nh_repo s" "nh_ephemeral t = nh_ephemeral s" "nh_write_buffers t = nh_write_buffers s"
    "nh_handles t = nh_handles s" "nh_epoch t = nh_epoch s" "nh_mtimes t = nh_mtimes s" "a = Inr ()"
    "nh_files_cache t = nh_files_cache s" "nh_dirs_cache t = nh_dirs_cache s"
    "nh_entries_cache t = nh_entries_cache s" "nh_children_cache t = nh_children_cache s"
  using assms
  by (auto simp: maybe_stage_background_def cancel_stage_timer_def BACKGROUND_STAGE_DELAY_MS_def
      split: option.splits if_splits)

lemma write_source_view: "write_source H p s = read_bytes H p s"
  by (simp add: write_source_def read_bytes_def)

text \<open>The attributes that are packed are in range.\<close>

definition time_ok :: "timestamp \<Rightarrow> bool" where
  "time_ok t \<longleftrightarrow> 0 \<le> fst t \<and> fst t < 2 ^ 32 \<and> 0 \<le> snd t \<and> snd t < 2 ^ 32"

definition host_ok :: "Host \<Rightarrow> bool" where
  "host_ok H \<longleftrightarrow> ho_uid H < 2 ^ 32 \<and> ho_gid H < 2 ^ 32 \<and> (\<forall>n. time_ok (ho_clock H n))"

definition attr_ok :: "Attr \<Rightarrow> bool" where
  "attr_ok a \<longleftrightarrow> at_type a < 2 ^ 32 \<and> at_mode a < 2 ^ 32 \<and> at_nlink a < 2 ^ 32 \<and> at_size a < 2 ^ 64 \<and>
     at_fileid a < 2 ^ 64 \<and> time_ok (at_mtime a)"

definition enc_time :: "timestamp \<Rightarrow> bytes" where
  "enc_time t = be 4 (nat (fst t)) @ be 4 (nat (snd t))"

definition enc_fattr :: "Host \<Rightarrow> Attr \<Rightarrow> bytes" where
  "enc_fattr H a = be 4 (at_type a) @ be 4 (at_mode a) @ be 4 (at_nlink a) @ be 4 (ho_uid H) @ be 4 (ho_gid H) @
     be 8 (at_size a) @ be 8 (at_size a) @ be 4 0 @ be 4 0 @ be 8 FSID @ be 8 (at_fileid a) @
     enc_time (at_mtime a) @ enc_time (at_mtime a) @ enc_time (at_mtime a)"

definition enc_post_op :: "Host \<Rightarrow> Attr option \<Rightarrow> bytes" where
  "enc_post_op H a = (case a of None \<Rightarrow> be 4 0 | Some a \<Rightarrow> be 4 1 @ enc_fattr H a)"

definition enc_wcc :: "Host \<Rightarrow> Attr option \<Rightarrow> Attr option \<Rightarrow> bytes" where
  "enc_wcc H b a = (case b of None \<Rightarrow> be 4 0 | Some x \<Rightarrow> be 4 1 @ be 8 (at_size x) @ enc_time (at_mtime x) @ enc_time (at_mtime x))
     @ enc_post_op H a"

lemma pack_uint64_ok: "0 \<le> v \<Longrightarrow> v < 2 ^ 64 \<Longrightarrow> pack_uint64 v p = Inr (p @ be 8 (nat v))"
  by (simp add: pack_uint64_def)

lemma pack_bool_eq: "pack_bool b p = Inr (p @ be 4 (if b then 1 else 0))"
  by (simp add: pack_bool_def pack_uint32_def)

lemma pack_time_eq: "time_ok t \<Longrightarrow> pack_time t p = Inr (p @ enc_time t)"
  by (simp add: pack_time_def enc_time_def time_ok_def pack_uint32_ok)

lemma pack_fattr_eq: "host_ok H \<Longrightarrow> attr_ok a \<Longrightarrow> pack_fattr H a p = Inr (p @ enc_fattr H a)"
  by (simp add: pack_fattr_def enc_fattr_def host_ok_def attr_ok_def pack_uint32_ok pack_uint64_ok pack_time_eq FSID_def)

lemma pack_post_op_eq:
  "host_ok H \<Longrightarrow> pred_option attr_ok a \<Longrightarrow> pack_post_op_attr H a p = Inr (p @ enc_post_op H a)"
  by (cases a) (simp_all add: pack_post_op_attr_def enc_post_op_def pack_bool_eq pack_fattr_eq)

lemma pack_wcc_eq:
  "host_ok H \<Longrightarrow> pred_option attr_ok b \<Longrightarrow> pred_option attr_ok a \<Longrightarrow> pack_wcc H b a p = Inr (p @ enc_wcc H b a)"
  by (cases b) (simp_all add: pack_wcc_def enc_wcc_def pack_bool_eq pack_post_op_eq pack_uint64_ok pack_time_eq attr_ok_def)

definition times_ok :: "NfsHandler \<Rightarrow> bool" where
  "times_ok s \<longleftrightarrow> time_ok (nh_epoch s) \<and> (\<forall>p t. map_of (nh_mtimes s) p = Some t \<longrightarrow> time_ok t)"

lemma times_ok_core: "nfs_core t = nfs_core s \<Longrightarrow> times_ok t = times_ok s"
  using nfs_core_fields [of t s] by (simp add: times_ok_def)

lemma attr_of_ok:
  assumes "times_ok s" and "fid < 2 ^ 64"
  shows "attr_ok (dir_attr_of fid p s)" and "perm < 2 ^ 16 \<Longrightarrow> n < 2 ^ 64 \<Longrightarrow> attr_ok (file_attr_of perm n fid p s)"
  using assms by (auto simp: attr_ok_def dir_attr_of_def file_attr_of_def nfs_consts times_ok_def split: option.split)

text \<open>A path that the caches know as a file.\<close>

definition cached_file :: "string \<Rightarrow> NfsHandler \<Rightarrow> bool" where
  "cached_file p s \<longleftrightarrow> p \<noteq> '''' \<and> map_of (nh_ephemeral s) p = None \<and> nh_dirs_cache s \<noteq> None \<and>
     nh_children_cache s \<noteq> None \<and> (\<exists>F. nh_files_cache s = Some F \<and> p \<in> F)"

lemma ensure_namespace_caches:
  "ensure_namespace s = (Inr (), s') \<Longrightarrow> nh_files_cache s' \<noteq> None \<and> nh_dirs_cache s' \<noteq> None \<and> nh_children_cache s' \<noteq> None"
  by (auto simp: ensure_namespace_def split: if_splits)

lemma file_size_caches:
  "nh_files_cache (snd (file_size H p s)) = nh_files_cache s" "nh_dirs_cache (snd (file_size H p s)) = nh_dirs_cache s"
  "nh_children_cache (snd (file_size H p s)) = nh_children_cache s"
  by (auto simp: file_size_def bindS_def split: option.split sum.split)

lemma stat_cached:
  assumes "cached_file p s" and "map_of (nh_write_buffers s) p = Some b"
  shows "nfs_stat_path H p s = (Inr (Some (file_attr_of 420 (length b) (fileid (ho_sha256 H) p) p s)), s)"
  using assms
  by (auto simp: cached_file_def nfs_stat_path_def classify_def ensure_namespace_def bindS_apply catchS_def file_size_def)

lemma stat_file:
  assumes "nfs_stat_path H p s = (Inr (Some a), s')" and "at_type a \<noteq> NF3DIR" and "map_of (nh_ephemeral s) p = None"
  shows "cached_file p s'"
    and "\<exists>t. a = file_attr_of 420 (at_size a) (fileid (ho_sha256 H) p) p t \<and> nfs_core t = nfs_core s"
proof -
  have p: "p \<noteq> ''''" using assms(1,2) by (auto simp: nfs_stat_path_def dir_attr_of_def)
  let ?kind = "\<lambda>kind. case kind of
          None \<Rightarrow> returnS None
        | Some DirKind \<Rightarrow> getsS (\<lambda>s. Inr (Some (dir_attr_of (fileid (ho_sha256 H) p) p s)))
        | Some FileKind \<Rightarrow>
            catchS (bindS (file_size H p) (\<lambda>n.
              getsS (\<lambda>s. Inr (Some (file_attr_of 420 n (fileid (ho_sha256 H) p) p s)))))
            (\<lambda>e. if is_object_not_found e then returnS None else raiseS e)"
  have "bindS (classify p) ?kind s = (Inr (Some a), s')" using assms(1,3) p by (simp add: nfs_stat_path_def)
  then obtain k s1 where c: "classify p s = (Inr k, s1)" and k: "?kind k s1 = (Inr (Some a), s')" by blast
  then have fk: "k = Some FileKind"
    using assms(2) by (auto simp: dir_attr_of_def split: option.splits path_kind.splits)
  from c obtain s0 where e: "ensure_namespace s = (Inr (), s0)" and "s1 = s0"
    by (auto simp: classify_def)
  then have caches: "nh_dirs_cache s1 \<noteq> None" "nh_children_cache s1 \<noteq> None" "\<exists>F. nh_files_cache s1 = Some F \<and> p \<in> F"
    and eph: "map_of (nh_ephemeral s1) p = None"
    using ensure_namespace_caches [OF e] c fk assms(3) ensure_namespace_fields(8) [of s]
    by (auto simp: classify_def bindS_apply split: option.splits if_splits)
  from k fk obtain n where n: "file_size H p s1 = (Inr n, s')" and a: "a = file_attr_of 420 n (fileid (ho_sha256 H) p) p s'"
    by (cases "file_size H p s1"; cases "fst (file_size H p s1)") (auto simp: catchS_def bindS_apply split: if_splits)
  show "cached_file p s'"
    using p eph caches n file_size_caches [of H p s1] file_size_fields(8) [of H p s1] by (simp add: cached_file_def)
  have "nfs_core s' = nfs_core s" using nfs_core_stat [of H p s] assms(1) by simp
  then show "\<exists>t. a = file_attr_of 420 (at_size a) (fileid (ho_sha256 H) p) p t \<and> nfs_core t = nfs_core s"
    using a by (auto simp: file_attr_of_def)
qed

lemma touch_run:
  "touch H p s = (Inr (), s\<lparr>nh_ticks := Suc (nh_ticks s), nh_mtimes := AList.update p (ho_clock H (nh_ticks s)) (nh_mtimes s)\<rparr>)"
  by (simp add: touch_def time_now_def bindS_def)

text \<open>WRITE on a regular file: the reply says OK, and the content served from now on is the spliced one.\<close>

lemma write_body_run:
  assumes "host_ok H" and "times_ok s" and "nfs_stat_path H p s = (Inr (Some a), s1)" and "at_type a \<noteq> NF3DIR"
    and "map_of (nh_ephemeral s) p = None" and "at_size a < 2 ^ 64" and "read_bytes H p s = Inr old"
    and "length (splice n d old) < 2 ^ 64" and "length d < 2 ^ 32"
  obtains rest s2 where "write_body H p n (length d) d s = (Inr (be 4 NFS3_OK @ rest), s2)"
    and "map_of (nh_write_buffers s2) p = Some (splice n d old)"
    and "\<And>q. q \<noteq> p \<Longrightarrow> read_bytes H q s2 = read_bytes H q s" and "nh_repo s2 = nh_repo s"
    and "cached_file p s2" and "times_ok s2" and "nh_handles s2 = nh_handles s"
proof -
  let ?m = "splice n d old"
  have core: "nfs_core s1 = nfs_core s" using nfs_core_stat [of H p s] assms(3) by simp
  note cf = nfs_core_fields [OF core]
  from stat_file [OF assms(3,4,5)] have cached: "cached_file p s1"
    and at: "\<exists>t. a = file_attr_of 420 (at_size a) (fileid (ho_sha256 H) p) p t \<and> nfs_core t = nfs_core s" by auto
  have a: "attr_ok a"
  proof -
    from at obtain t where t: "a = file_attr_of 420 (at_size a) (fileid (ho_sha256 H) p) p t" "nfs_core t = nfs_core s"
      by blast
    have "times_ok t" using assms(2) times_ok_core [OF t(2)] by simp
    from attr_of_ok(2) [OF this fileid_less, of 420 "at_size a"] assms(6) show ?thesis by (subst t(1)) simp
  qed
  define s2 where "s2 = snd (buffer_write p ?m s1)"
  have b: "buffer_write p ?m s1 = (Inr (), s2)" by (simp add: s2_def buffer_write_def)
  have f2: "nh_repo s2 = nh_repo s1" "nh_ephemeral s2 = nh_ephemeral s1" "nh_handles s2 = nh_handles s1"
    "nh_write_buffers s2 = AList.update p ?m (nh_write_buffers s1)" "nh_epoch s2 = nh_epoch s1" "nh_mtimes s2 = nh_mtimes s1"
    "nh_files_cache s2 = nh_files_cache s1" "nh_dirs_cache s2 = nh_dirs_cache s1" "nh_children_cache s2 = nh_children_cache s1"
    by (simp_all add: s2_def buffer_write_def)
  obtain s3 where m: "maybe_stage_background H p s2 = (Inr (), s3)"
    using maybe_stage_view(7) by (metis surj_pair)
  define s4 where "s4 = s3\<lparr>nh_ticks := Suc (nh_ticks s3), nh_mtimes := AList.update p (ho_clock H (nh_ticks s3)) (nh_mtimes s3)\<rparr>"
  note mv = maybe_stage_view [OF m]
  have buf: "map_of (nh_write_buffers s4) p = Some ?m" by (simp add: s4_def mv f2)
  have c4: "cached_file p s4" using cached by (simp add: cached_file_def s4_def mv f2)
  have t4: "times_ok s4"
    using assms(1,2) cf by (simp add: times_ok_def s4_def mv f2 host_ok_def del: split_paired_All)
  let ?a = "file_attr_of 420 (length ?m) (fileid (ho_sha256 H) p) p s4"
  have after: "attr_ok ?a" using attr_of_ok(2) [OF t4 fileid_less, of 420 "length ?m"] assms(8) by simp
  have "write_body H p n (length d) d s = (Inr (be 4 NFS3_OK @ (enc_wcc H (Some a) (Some ?a) @ be 4 (length d)
      @ be 4 UNSTABLE @ WRITE_VERIFIER)), s4)"
    using assms(3,4,7,9) a after stat_cached [OF c4 buf, of H] b m
      nfs_core_view [OF core, of H p]
    by (simp add: write_body_def bindS_apply write_source_view touch_run s4_def [symmetric] pack_wcc_eq [OF assms(1)]
        pack_uint32_ok nfs_consts pack_fopaque_def WRITE_VERIFIER_def padding_def)
  moreover have "read_bytes H q s4 = read_bytes H q s" if "q \<noteq> p" for q
    using that cf by (simp add: read_bytes_def s4_def mv f2 cong: option.case_cong)
  moreover have "nh_repo s4 = nh_repo s" and "nh_handles s4 = nh_handles s"
    using cf by (simp_all add: s4_def mv f2)
  ultimately show ?thesis using that buf c4 t4 by blast
qed

lemma read_body_run:
  assumes "host_ok H" and "times_ok s" and "cached_file p s" and "map_of (nh_write_buffers s) p = Some b"
    and "length b < 2 ^ 64" and "length (slice n (n + c) b) < 2 ^ 32"
  shows "\<exists>attr. read_body H p n c s = (Inr (be 4 NFS3_OK @ attr @ be 4 (length (slice n (n + c) b)) @
    be 4 (if n + length (slice n (n + c) b) \<ge> length b then 1 else 0) @ enc_opaque (slice n (n + c) b)), s)"
proof -
  let ?a = "file_attr_of 420 (length b) (fileid (ho_sha256 H) p) p s"
  have "attr_ok ?a" using attr_of_ok(2) [OF assms(2) fileid_less, of 420 "length b"] assms(5) by simp
  then show ?thesis
    using stat_cached [OF assms(3,4), of H] assms(1,4,6)
    by (intro exI [of _ "enc_post_op H (Some ?a)"])
      (simp add: read_body_def bindS_apply read_bytes_def Let_def pack_post_op_eq pack_uint32_ok pack_bool_eq pack_opaque_eq
        nfs_consts file_attr_of_def)
qed

section \<open>Through the dispatcher\<close>

lemma dispatch_success:
  assumes "map_of nfs_procs (proc c) = Some f" and "f H (unpacker (args c)) s = (Inr body, s')" and "xid c < 2 ^ 32"
  shows "nfs_dispatch H c s = (Inr (accepted (xid c) SUCCESS @ body), s')"
  using assms by (simp add: nfs_dispatch_def catchS_def pack_replies(1))

lemma with_handle_run:
  assumes "ahead u (enc_opaque hdl @ rest)" and "length hdl < 2 ^ 32"
    and "handles_resolve hdl (nh_handles s) = Some p"
  obtains u' where "ahead u' rest" and "\<And>f. with_handle u f s = f p u' s"
proof -
  from reads_opaque [OF assms(2)] assms(1) obtain u' where "unpack_opaque u = (Inr hdl, u')" "ahead u' rest"
    by (rule readsE)
  then show ?thesis
    using that assms(3) by (simp add: with_handle_def resolve_handle_def readS_def bindS_apply)
qed

lemma runU_reads: "reads m xs v \<Longrightarrow> ahead u (xs @ rest) \<Longrightarrow> runU m u = Inr v"
  by (metis readsE runU_def fst_conv)

lemma reads_write_args:
  assumes "n < 2 ^ 64" and "st < 2 ^ 32" and "length d < 2 ^ 32"
  shows "reads write_args (be 8 n @ be 4 (length d) @ be 4 st @ enc_opaque d) (n, length d, d)"
  unfolding write_args_def
  using assms reads_bind_return [OF reads_opaque, of d "\<lambda>x. (n, length d, x)"]
  by (intro reads_bind [OF reads_uint64] reads_bind [OF reads_uint32])

lemma reads_read_args:
  assumes "n < 2 ^ 64" and "c < 2 ^ 32"
  shows "reads read_args (be 8 n @ be 4 c) (n, c)"
  unfolding read_args_def
  using assms reads_bind_return [OF reads_uint32, of c "\<lambda>x. (n, x)"] by (intro reads_bind [OF reads_uint64])

definition write_message :: "bytes \<Rightarrow> nat \<Rightarrow> nat \<Rightarrow> bytes \<Rightarrow> bytes" where
  "write_message hdl n st d = enc_opaque hdl @ be 8 n @ be 4 (length d) @ be 4 st @ enc_opaque d"

definition read_message :: "bytes \<Rightarrow> nat \<Rightarrow> nat \<Rightarrow> bytes" where
  "read_message hdl n c = enc_opaque hdl @ be 8 n @ be 4 c"

lemma proc_write_run:
  assumes "length hdl < 2 ^ 32" and "handles_resolve hdl (nh_handles s) = Some p"
    and "n < 2 ^ 64" and "st < 2 ^ 32" and "length d < 2 ^ 32"
  shows "proc_write H (unpacker (write_message hdl n st d)) s = write_body H p n (length d) d s"
proof -
  let ?rest = "be 8 n @ be 4 (length d) @ be 4 st @ enc_opaque d"
  have "ahead (unpacker (write_message hdl n st d)) (enc_opaque hdl @ ?rest)" by (simp add: write_message_def)
  from with_handle_run [OF this assms(1,2)] obtain u' where u': "ahead u' ?rest"
    and run: "\<And>f. with_handle (unpacker (write_message hdl n st d)) f s = f p u' s" by blast
  have "runU write_args u' = Inr (n, length d, d)"
    using runU_reads [OF reads_write_args [OF assms(3-5)], of u' "[]"] u' by simp
  then show ?thesis by (simp add: proc_write_def run)
qed

lemma proc_read_run:
  assumes "length hdl < 2 ^ 32" and "handles_resolve hdl (nh_handles s) = Some p" and "n < 2 ^ 64" and "c < 2 ^ 32"
  shows "proc_read H (unpacker (read_message hdl n c)) s = read_body H p n c s"
proof -
  let ?rest = "be 8 n @ be 4 c"
  have "ahead (unpacker (read_message hdl n c)) (enc_opaque hdl @ ?rest)" by (simp add: read_message_def)
  from with_handle_run [OF this assms(1,2)] obtain u' where u': "ahead u' ?rest"
    and run: "\<And>f. with_handle (unpacker (read_message hdl n c)) f s = f p u' s" by blast
  have "runU read_args u' = Inr (n, c)" using runU_reads [OF reads_read_args [OF assms(3,4)], of u' "[]"] u' by simp
  then show ?thesis by (simp add: proc_read_def run)
qed

text \<open>C8: a client that writes some bytes at an offset of a file is answered OK, a READ of that range returns
  exactly these bytes, the file is the old one with the bytes spliced in, and no other file
  changes.\<close>

theorem nfs_write_then_read:
  assumes "host_ok H" and "times_ok s" and "handles_resolve hdl (nh_handles s) = Some p" and "length hdl < 2 ^ 32"
    and "nfs_stat_path H p s = (Inr (Some a), s1)" and "at_type a \<noteq> NF3DIR" and "at_size a < 2 ^ 64"
    and "map_of (nh_ephemeral s) p = None" and "read_bytes H p s = Inr old"
    and "n < 2 ^ 64" and "st < 2 ^ 32" and "length d < 2 ^ 32" and "length (splice n d old) < 2 ^ 64"
    and "proc wc = 7" and "args wc = write_message hdl n st d" and "xid wc < 2 ^ 32"
    and "proc rc = 6" and "args rc = read_message hdl n (length d)" and "xid rc < 2 ^ 32"
  shows "\<exists>rest s2 attr eof.
    nfs_dispatch H wc s = (Inr (accepted (xid wc) SUCCESS @ be 4 NFS3_OK @ rest), s2) \<and>
    read_bytes H p s2 = Inr (splice n d old) \<and> (\<forall>q. q \<noteq> p \<longrightarrow> read_bytes H q s2 = read_bytes H q s) \<and>
    nfs_dispatch H rc s2 =
      (Inr (accepted (xid rc) SUCCESS @ be 4 NFS3_OK @ attr @ be 4 (length d) @ be 4 eof @ enc_opaque d), s2)"
proof -
  from write_body_run [OF assms(1,2,5,6,8,7,9,13,12)]
  obtain rest s2 where w: "write_body H p n (length d) d s = (Inr (be 4 NFS3_OK @ rest), s2)"
    and buf: "map_of (nh_write_buffers s2) p = Some (splice n d old)"
    and others: "\<And>q. q \<noteq> p \<Longrightarrow> read_bytes H q s2 = read_bytes H q s"
    and c: "cached_file p s2" and t: "times_ok s2" and hs: "nh_handles s2 = nh_handles s" by metis
  have 1: "nfs_dispatch H wc s = (Inr (accepted (xid wc) SUCCESS @ be 4 NFS3_OK @ rest), s2)"
    using assms(14,15,16) proc_write_run [OF assms(4,3,10,11,12), of H] w
    by (intro dispatch_success [of _ proc_write]) (simp_all add: nfs_procs_def)
  from read_body_run [OF assms(1) t c buf assms(13), of n "length d"] assms(12)
  obtain attr eof where "read_body H p n (length d) s2 =
      (Inr (be 4 NFS3_OK @ attr @ be 4 (length d) @ be 4 eof @ enc_opaque d), s2)"
    by (auto simp: slice_splice)
  then have "nfs_dispatch H rc s2 =
      (Inr (accepted (xid rc) SUCCESS @ be 4 NFS3_OK @ attr @ be 4 (length d) @ be 4 eof @ enc_opaque d), s2)"
    using assms(17,18,19) proc_read_run [of hdl s2 p n "length d" H] assms(3,4,10,12) hs
    by (intro dispatch_success [of _ proc_read]) (simp_all add: nfs_procs_def)
  with 1 others buf show ?thesis by (auto simp: read_bytes_def)
qed

definition sample_nfs :: NfsHandler where
  "sample_nfs = nfs_init sample_host (snd (repo_write_file sample_hash ''a'' ''xy'' repo_empty))
     (snd (handles_register sample_digest ''a'' (handles_init sample_digest ''k'')))"

lemma stat_file_run:
  assumes "classify p s = (Inr (Some FileKind), s1)" and "p \<noteq> ''''" and "map_of (nh_ephemeral s) p = None"
    and "file_size H p s1 = (Inr n, s2)"
  shows "nfs_stat_path H p s = (Inr (Some (file_attr_of 420 n (fileid (ho_sha256 H) p) p s2)), s2)"
  using assms by (simp add: nfs_stat_path_def bindS_apply catchS_def)

lemma sample_stat:
  "\<exists>t s1. nfs_stat_path sample_host ''a'' sample_nfs = (Inr (Some (file_attr_of 420 2 (fileid sample_digest ''a'') ''a'' t)), s1)"
proof -
  have 1: "fst (classify ''a'' sample_nfs) = Inr (Some FileKind)" by code_simp
  have 2: "fst (file_size sample_host ''a'' (snd (classify ''a'' sample_nfs))) = Inr 2" by code_simp
  have "map_of (nh_ephemeral sample_nfs) ''a'' = None" by (simp add: sample_nfs_def nfs_init_def)
  then show ?thesis
    using stat_file_run [of "''a''" sample_nfs "snd (classify ''a'' sample_nfs)" sample_host 2] 1 2
    by (metis list.distinct(1) prod.collapse sample_host_simps(2))
qed

lemma sample_old: "read_bytes sample_host ''a'' sample_nfs = Inr ''xy''"
  by code_simp

lemma sample_resolve: "handles_resolve (derive sample_digest ''k'' ''a'') (nh_handles sample_nfs) = Some ''a''"
  by code_simp

lemma sample_host_ok: "host_ok sample_host" and sample_times_ok: "times_ok sample_nfs"
  by (simp_all add: host_ok_def sample_host_def time_ok_def times_ok_def sample_nfs_def nfs_init_def)

theorem nfs_write_then_read_witness:
  "\<exists>rest s2 attr eof.
    nfs_dispatch sample_host (sample_call 7 (write_message (derive sample_digest ''k'' ''a'') 1 2 ''hi'')) sample_nfs =
      (Inr (accepted 9 SUCCESS @ be 4 NFS3_OK @ rest), s2) \<and>
    read_bytes sample_host ''a'' s2 = Inr ''xhi'' \<and>
    (\<forall>q. q \<noteq> ''a'' \<longrightarrow> read_bytes sample_host q s2 = read_bytes sample_host q sample_nfs) \<and>
    nfs_dispatch sample_host (sample_call 6 (read_message (derive sample_digest ''k'' ''a'') 1 (length ''hi''))) s2 =
      (Inr (accepted 9 SUCCESS @ be 4 NFS3_OK @ attr @ be 4 (length ''hi'') @ be 4 eof @ enc_opaque ''hi''), s2)"
proof -
  obtain t s1 where st: "nfs_stat_path sample_host ''a'' sample_nfs =
      (Inr (Some (file_attr_of 420 2 (fileid sample_digest ''a'') ''a'' t)), s1)"
    using sample_stat by blast
  have sp: "splice 1 ''hi'' ''xy'' = ''xhi''" by (simp add: splice_def Let_def)
  have eph: "map_of (nh_ephemeral sample_nfs) ''a'' = None" by (simp add: sample_nfs_def nfs_init_def)
  let ?wc = "sample_call 7 (write_message (derive sample_digest ''k'' ''a'') 1 2 ''hi'')"
  let ?rc = "sample_call 6 (read_message (derive sample_digest ''k'' ''a'') 1 (length ''hi''))"
  have "length (derive sample_digest ''k'' ''a'') < 2 ^ 32" by (simp add: digest32_sample HANDLE_LEN_def)
  from nfs_write_then_read [OF sample_host_ok sample_times_ok sample_resolve this st _ _ eph sample_old,
      of 1 2 "''hi''" ?wc ?rc, unfolded sp]
  show ?thesis
    by (simp add: sample_call_def file_attr_of_def nfs_consts del: be.simps)
qed

definition sample_dirty :: NfsHandler where
  "sample_dirty = snd (buffer_write ''a'' ''hello'' sample_nfs)"

lemma sample_nfs_inv: "nfs_inv sample_host sample_nfs"
  unfolding sample_nfs_def
  by (rule nfs_inv_init)
    (simp_all add: handles_inv_register handles_inv_init repo_inv_write_file repo_inv_empty)

lemma sample_dirty_inv: "nfs_inv sample_host sample_dirty"
  using keepsD [OF nfs_inv_buffer_write sample_nfs_inv] by (simp add: sample_dirty_def)

lemma sample_dirty_data: "inj_on (ho_sha1 sample_host) (nfs_data sample_dirty)"
proof -
  have 1: "nh_jobs sample_dirty = []" and 2: "map snd (nh_write_buffers sample_dirty) = [''hello'']"
    and 3: "map (snd \<circ> snd) (r_objects (nh_repo sample_dirty)) = [canonical_object ''blob'' ''xy'']"
    by code_simp+
  have "snd ` set (nh_write_buffers sample_dirty) = {''hello''}"
    and "snd ` snd ` set (r_objects (nh_repo sample_dirty)) = {canonical_object ''blob'' ''xy''}"
    using arg_cong [OF 2, of set] arg_cong [OF 3, of set] by (simp_all add: image_comp)
  then have eq: "nfs_data sample_dirty = {canonical_object ''blob'' ''xy'', canonical_object ''blob'' ''hello''}"
    using 1 by (auto simp: nfs_data_def)
  have "sample_hash (canonical_object ''blob'' ''xy'') \<noteq> sample_hash (canonical_object ''blob'' ''hello'')" by code_simp
  then show ?thesis unfolding eq by (auto simp: inj_on_def)
qed

theorem nfs_commit_publishes_witness:
  "repo_read_file sample_hash None ''a'' (nh_repo (snd (commit_body sample_host ''a'' 0 0 sample_dirty))) = Inr ''hello'' \<and>
   ''a'' \<notin> nh_dirty (snd (commit_body sample_host ''a'' 0 0 sample_dirty))"
proof -
  have "map_of (nh_write_buffers sample_dirty) ''a'' = Some ''hello''" and "map_of (nh_ephemeral sample_dirty) ''a'' = None"
    and "\<not> is_ephemeral_path ''a''" and "repo_normalize_trackable_path ''a'' = Inr ''a''"
    by code_simp+
  from nfs_commit_publishes [OF _ sample_dirty_inv sample_dirty_data this, of 0 0] show ?thesis by simp
qed

section \<open>Closing\<close>

lemma flush_clean: "p \<notin> nh_dirty s \<Longrightarrow> flush_path H p s = (Inr (), s)"
  by (simp add: flush_path_def)

text \<open>A path that a flush publishes: tracked under its own name and not kept in memory.\<close>

definition plain :: "string \<Rightarrow> NfsHandler \<Rightarrow> bool" where
  "plain p s \<longleftrightarrow> \<not> is_ephemeral_path p \<and> repo_normalize_trackable_path p = Inr p \<and> map_of (nh_ephemeral s) p = None"

definition publishable :: "Host \<Rightarrow> NfsHandler \<Rightarrow> bool" where
  "publishable H s \<longleftrightarrow> digest20 (ho_sha1 H) \<and> nfs_inv H s \<and> inj_on (ho_sha1 H) (nfs_data s) \<and> (\<forall>p \<in> nh_dirty s. plain p s)"

lemma flush_publishable:
  assumes "publishable H s"
  shows "\<exists>s'. flush_path H p s = (Inr (), s') \<and> publishable H s' \<and> nh_dirty s' = nh_dirty s - {p} \<and>
    (\<forall>q d. plain q s \<and> read_bytes H q s = Inr d \<longrightarrow> read_bytes H q s' = Inr d) \<and> nh_ephemeral s' = nh_ephemeral s"
proof (cases "p \<in> nh_dirty s")
  case True
  then have p: "plain p s" using assms by (simp add: publishable_def)
  with assms True obtain d r js where f: "flushed H p s d r js"
    using flush_effect [of H s p] by (auto simp: publishable_def plain_def)
  let ?s' = "snd (flush_path H p s)"
  have s': "?s' = settled p (length d) ((no_timer p s)\<lparr>nh_jobs := js, nh_repo := r\<rparr>)" using f by (simp add: flushed_def)
  have eph: "nh_ephemeral ?s' = nh_ephemeral s" and dirty: "nh_dirty ?s' = nh_dirty s - {p}" by (simp_all add: s')
  have "nfs_inv H ?s'" using assms by (auto simp: publishable_def intro: keepsD [OF nfs_inv_flush])
  moreover have "inj_on (ho_sha1 H) (nfs_data ?s')"
    using assms f by (auto simp: publishable_def flushed_def intro: inj_on_subset)
  ultimately have pub: "publishable H ?s'" using assms eph dirty by (auto simp: publishable_def plain_def)
  have "read_bytes H q ?s' = Inr d" if "plain q s" and "read_bytes H q s = Inr d" for q d
    using that p by (intro flushed_view [OF f]) (auto simp: plain_def)
  then show ?thesis using pub eph dirty f by (intro exI [of _ ?s']) (auto simp: flushed_def)
next
  case False
  then show ?thesis using assms flush_clean [OF False, of H] by auto
qed

lemma flush_all:
  assumes "publishable H s"
  shows "\<exists>s'. iterS (flush_path H) ps s = (Inr (), s') \<and> publishable H s' \<and> nh_dirty s' = nh_dirty s - set ps \<and>
    (\<forall>q d. plain q s \<and> read_bytes H q s = Inr d \<longrightarrow> read_bytes H q s' = Inr d) \<and> nh_ephemeral s' = nh_ephemeral s"
  using assms
proof (induction ps arbitrary: s)
  case (Cons p ps)
  from flush_publishable [OF Cons.prems, of p] obtain s1 where 1: "flush_path H p s = (Inr (), s1)" "publishable H s1"
    "nh_dirty s1 = nh_dirty s - {p}" "\<forall>q d. plain q s \<and> read_bytes H q s = Inr d \<longrightarrow> read_bytes H q s1 = Inr d"
    "nh_ephemeral s1 = nh_ephemeral s" by blast
  from Cons.IH [OF 1(2)] obtain s2 where "iterS (flush_path H) ps s1 = (Inr (), s2)" "publishable H s2"
    "nh_dirty s2 = nh_dirty s1 - set ps" "\<forall>q d. plain q s1 \<and> read_bytes H q s1 = Inr d \<longrightarrow> read_bytes H q s2 = Inr d"
    "nh_ephemeral s2 = nh_ephemeral s1" by blast
  with 1 show ?case by (auto simp: bindS_step(1) plain_def)
qed auto

lemma run_jobs_view:
  "\<exists>s'. iterS (run_job H) js s = (Inr (), s') \<and> nh_dirty s' = nh_dirty s \<and> nh_write_buffers s' = nh_write_buffers s \<and>
    (\<forall>q d. repo_read_file (ho_sha1 H) None q (nh_repo s) = Inr d \<longrightarrow> repo_read_file (ho_sha1 H) None q (nh_repo s') = Inr d)"
proof (induction js arbitrary: s)
  case (Cons j js)
  let ?s1 = "snd (run_job H j s)"
  have run: "run_job H j s = (Inr (), ?s1)" by (cases rule: run_job_cases [of H j s]) simp_all
  from run_job_only [of s H j] have "nh_dirty ?s1 = nh_dirty s" "nh_write_buffers ?s1 = nh_write_buffers s"
    "repo_read_file (ho_sha1 H) None q (nh_repo s) = Inr d \<Longrightarrow> repo_read_file (ho_sha1 H) None q (nh_repo ?s1) = Inr d" for q d
    by (auto simp: only_jobs_def intro: repo_read_grows [of "nh_repo s"])
  with Cons.IH [of ?s1] run show ?case by (auto simp: bindS_step(1) [where m = "run_job H j", OF run])
qed auto

text \<open>C10: closing the handler publishes every pending write: whatever the order in which the pending paths come,
  it returns, nothing is left pending, and each file whose writes were pending has in the
  repository the content a client last read.\<close>

theorem nfs_close_publishes:
  assumes "publishable H s" and "set order = nh_dirty s"
  shows "\<exists>s'. nfs_close H order s = (Inr (), s') \<and> nh_dirty s' = {} \<and>
    (\<forall>p d. map_of (nh_write_buffers s) p = Some d \<longrightarrow> repo_read_file (ho_sha1 H) None p (nh_repo s') = Inr d)"
proof -
  let ?s0 = "nh_stage_timers_update (\<lambda>_. {}) s"
  have inv0: "nfs_inv H ?s0 = nfs_inv H s" by (rule nfs_inv_cong) simp_all
  have "publishable H ?s0" using assms(1) inv0 by (simp add: publishable_def plain_def nfs_data_def)
  moreover have "plain q ?s0 = plain q s" and "read_bytes H q ?s0 = read_bytes H q s" for q
    by (simp_all add: plain_def read_bytes_def cong: option.case_cong)
  ultimately obtain s1 where 1: "iterS (flush_path H) order ?s0 = (Inr (), s1)"
    "publishable H s1" "nh_dirty s1 = {}" "nh_ephemeral s1 = nh_ephemeral s"
    "\<And>q d. plain q s \<Longrightarrow> read_bytes H q s = Inr d \<Longrightarrow> read_bytes H q s1 = Inr d"
    using flush_all [of H ?s0 order] assms(2) by auto
  have clean: "map_of (nh_write_buffers s1) p = None" for p
    using 1(2,3) by (auto simp: publishable_def nfs_inv_def buffers_ok_def)
  obtain s2 where 2: "iterS (run_job H) [0..<length (nh_jobs s1)] s1 = (Inr (), s2)" "nh_dirty s2 = nh_dirty s1"
    "\<And>q d. repo_read_file (ho_sha1 H) None q (nh_repo s1) = Inr d \<Longrightarrow> repo_read_file (ho_sha1 H) None q (nh_repo s2) = Inr d"
    using run_jobs_view [of H "[0..<length (nh_jobs s1)]" s1] by blast
  have "repo_read_file (ho_sha1 H) None p (nh_repo s2) = Inr d" if b: "map_of (nh_write_buffers s) p = Some d" for p d
  proof -
    have "p \<in> nh_dirty s" using b assms(1) by (auto simp: publishable_def nfs_inv_def buffers_ok_def)
    then have p: "plain p s" using assms(1) by (simp add: publishable_def)
    then have "read_bytes H p s1 = Inr d" using b by (intro 1(5)) (simp_all add: read_bytes_def)
    then have "repo_read_file (ho_sha1 H) None p (nh_repo s1) = Inr d"
      using clean p 1(4) by (simp add: read_bytes_def plain_def)
    then show ?thesis by (rule 2(3))
  qed
  moreover have "nfs_close H order s = (Inr (), s2)"
    using 2(1) by (simp add: nfs_close_def bindS_step(1) [where m = "iterS (flush_path H) order", OF 1(1)])
  ultimately show ?thesis using 1(3) 2(2) by (intro exI [of _ s2]) simp
qed

theorem nfs_close_publishes_witness:
  "\<exists>s'. nfs_close sample_host [''a''] sample_dirty = (Inr (), s') \<and> nh_dirty s' = {} \<and>
    repo_read_file sample_hash None ''a'' (nh_repo s') = Inr ''hello''"
proof -
  have d: "nh_dirty sample_dirty = {''a''}" by (simp add: sample_dirty_def buffer_write_def sample_nfs_def nfs_init_def)
  have "plain ''a'' sample_dirty" unfolding plain_def by (intro conjI; code_simp)
  then have "publishable sample_host sample_dirty"
    using d by (simp add: publishable_def sample_dirty_inv sample_dirty_data [simplified])
  moreover have "map_of (nh_write_buffers sample_dirty) ''a'' = Some ''hello''" by code_simp
  moreover have "set [''a''] = nh_dirty sample_dirty" unfolding d by (simp only: list.set)
  ultimately show ?thesis using nfs_close_publishes [of sample_host sample_dirty "[''a'']"]
    unfolding sample_host_simps by blast
qed

end
