(* ===== verification/NfsNames.thy ===== *)
theory NfsNames
  imports NfsFiles
begin

text \<open>
  The namespace that NFS serves. The caches of the handler are derived from the index of the repository
  (\<open>coherent\<close>), which every procedure keeps, with the exception of a directory rename that fails half
  way; and what they are derived to is the directory structure of the paths in the index.
\<close>

section \<open>Directories of a set of paths\<close>

abbreviation joined :: "string list \<Rightarrow> string" where "joined \<equiv> join ''/''"

definition proper_parts :: "string list \<Rightarrow> bool" where
  "proper_parts ps \<longleftrightarrow> ps \<noteq> [] \<and> (\<forall>p \<in> set ps. p \<noteq> '''' \<and> SLASH \<notin> set p)"

lemma joined_eq_Nil: "(\<forall>p \<in> set ps. p \<noteq> '''') \<Longrightarrow> joined ps = '''' \<longleftrightarrow> ps = []"
  by (cases ps; cases "tl ps") (auto simp: neq_Nil_conv)

lemma joined_snoc: "(\<forall>p \<in> set ps. p \<noteq> '''') \<Longrightarrow> joined (ps @ [x]) = join_path (joined ps) x"
proof (cases "ps = []")
  case False
  assume "\<forall>p \<in> set ps. p \<noteq> ''''"
  then have "joined ps \<noteq> ''''" using False joined_eq_Nil by blast
  then show ?thesis using False join_append [of ps "[x]" "''/''"] by (simp add: join_path_def)
qed (simp add: join_path_def)

definition kids :: "(string, string set) dict \<Rightarrow> string \<Rightarrow> string set" where
  "kids ch d = (case map_of ch d of None \<Rightarrow> {} | Some c \<Rightarrow> c)"

lemma kids_setdefault [simp]: "kids (setdefault k {} ch) d = kids ch d"
  by (auto simp: kids_def map_of_setdefault split: option.split)

lemma map_of_map_default:
  "map_of (AList.map_default k v f ch) k' =
    (if k' = k then Some (case map_of ch k of None \<Rightarrow> v | Some x \<Rightarrow> f x) else map_of ch k')"
  by (induction ch) auto

lemma kids_add [simp]:
  "kids (AList.map_default k {v} (insert v) ch) d = (if d = k then insert v (kids ch d) else kids ch d)"
  by (auto simp: kids_def map_of_map_default split: option.split)

lemma shift_take:
  assumes "ps \<noteq> []"
  shows "{f (take k (p # ps)) |k. 0 < k \<and> k < length (p # ps)} =
    insert (f [p]) {f (p # take k ps) |k. 0 < k \<and> k < length ps}"
proof (intro set_eqI iffI)
  fix x assume "x \<in> {f (take k (p # ps)) |k. 0 < k \<and> k < length (p # ps)}"
  then obtain j where "x = f (p # take j ps)" "j < length ps" by (auto simp: gr0_conv_Suc)
  then show "x \<in> insert (f [p]) {f (p # take k ps) |k. 0 < k \<and> k < length ps}" by (cases "j = 0") auto
next
  fix x assume "x \<in> insert (f [p]) {f (p # take k ps) |k. 0 < k \<and> k < length ps}"
  then have "\<exists>j. x = f (p # take j ps) \<and> j < length ps" using assms by (auto intro: exI [of _ "0 :: nat"])
  then obtain j where "x = f (p # take j ps)" "j < length ps" by blast
  then show "x \<in> {f (take k (p # ps)) |k. 0 < k \<and> k < length (p # ps)}"
    by (intro CollectI exI [of _ "Suc j"]) simp
qed

lemma shift_nth:
  "{(p # ps) ! k |k. k < length (p # ps) \<and> P (take k (p # ps))} =
    (if P [] then {p} else {}) \<union> {ps ! k |k. k < length ps \<and> P (p # take k ps)}"
proof (intro set_eqI iffI)
  fix x assume "x \<in> {(p # ps) ! k |k. k < length (p # ps) \<and> P (take k (p # ps))}"
  then obtain k where "x = (p # ps) ! k" "k < length (p # ps)" "P (take k (p # ps))" by blast
  then show "x \<in> (if P [] then {p} else {}) \<union> {ps ! k |k. k < length ps \<and> P (p # take k ps)}"
    by (cases k) auto
next
  fix x assume x: "x \<in> (if P [] then {p} else {}) \<union> {ps ! k |k. k < length ps \<and> P (p # take k ps)}"
  show "x \<in> {(p # ps) ! k |k. k < length (p # ps) \<and> P (take k (p # ps))}"
  proof (cases "P [] \<and> x = p")
    case True
    then show ?thesis by (intro CollectI exI [of _ 0]) simp
  next
    case False
    then obtain k where "x = ps ! k" "k < length ps" "P (p # take k ps)" using x by (auto split: if_splits)
    then show ?thesis by (intro CollectI exI [of _ "Suc k"]) simp
  qed
qed

lemma add_parts_spec:
  assumes "\<forall>p \<in> set (qs @ ps). p \<noteq> ''''"
  shows "fst (add_parts (joined qs) ps (D, C)) = D \<union> {joined (qs @ take k ps) |k. 0 < k \<and> k < length ps}"
    and "kids (snd (add_parts (joined qs) ps (D, C))) d =
      kids C d \<union> {ps ! k |k. k < length ps \<and> d = joined (qs @ take k ps)}"
  using assms
proof (induction ps arbitrary: qs D C)
  case (Cons p ps)
  {
    case 1
    show ?case
    proof (cases "ps = []")
      case False
      have cur: "(if joined qs = '''' then p else joined qs @ ''/'' @ p) = joined (qs @ [p])"
        using 1 joined_snoc [of qs p] by (simp add: join_path_def)
      have "{joined (qs @ take k (p # ps)) |k. 0 < k \<and> k < length (p # ps)} =
        insert (joined (qs @ [p])) {joined ((qs @ [p]) @ take k ps) |k. 0 < k \<and> k < length ps}"
        using shift_take [OF False, of "\<lambda>t. joined (qs @ t)" p] by simp
      then show ?thesis
        using False Cons.IH(1) [of "qs @ [p]"] 1 by (simp add: Let_def cur)
    qed simp
  next
    case 2
    have cur: "(if joined qs = '''' then p else joined qs @ ''/'' @ p) = joined (qs @ [p])"
      using 2 joined_snoc [of qs p] by (simp add: join_path_def)
    have split: "{(p # ps) ! k |k. k < length (p # ps) \<and> d = joined (qs @ take k (p # ps))} =
      (if d = joined qs then {p} else {}) \<union> {ps ! k |k. k < length ps \<and> d = joined ((qs @ [p]) @ take k ps)}"
      using shift_nth [of p ps "\<lambda>t. d = joined (qs @ t)"] by simp
    show ?case
    proof (cases "ps = []")
      case True
      then show ?thesis by (auto simp: Let_def)
    next
      case False
      then show ?thesis
        using Cons.IH(2) [of "qs @ [p]"] 2 unfolding split by (auto simp: Let_def cur)
    qed
  }
qed simp_all
definition pieces :: "string \<Rightarrow> string list" where
  "pieces p = split_on SLASH p"

lemma pieces_not_Nil [simp]: "pieces p \<noteq> []"
  by (simp add: pieces_def)

lemma joined_pieces [simp]: "joined (pieces p) = p"
  by (simp add: pieces_def)

lemma namespace_spec:
  assumes "\<forall>e \<in> set es. proper_parts (pieces (ie_path e))"
  shows "fst (namespace es) =
      insert '''' {joined (take k (pieces (ie_path e))) |k e. e \<in> set es \<and> 0 < k \<and> k < length (pieces (ie_path e))}"
    and "kids (snd (namespace es)) d =
      {pieces (ie_path e) ! k |k e. e \<in> set es \<and> k < length (pieces (ie_path e)) \<and>
         d = joined (take k (pieces (ie_path e)))}"
proof -
  have step: "fst (fold (\<lambda>e. add_parts '''' (split_on SLASH (ie_path e))) es (D, C)) =
        D \<union> {joined (take k (pieces (ie_path e))) |k e. e \<in> set es \<and> 0 < k \<and> k < length (pieces (ie_path e))} \<and>
      kids (snd (fold (\<lambda>e. add_parts '''' (split_on SLASH (ie_path e))) es (D, C))) d =
        kids C d \<union> {pieces (ie_path e) ! k |k e. e \<in> set es \<and> k < length (pieces (ie_path e)) \<and>
         d = joined (take k (pieces (ie_path e)))}" for D C
    using assms
  proof (induction es arbitrary: D C)
    case (Cons e es)
    let ?ps = "pieces (ie_path e)"
    have "\<forall>p \<in> set ([] @ ?ps). p \<noteq> ''''" using Cons.prems by (simp add: proper_parts_def)
    note spec = add_parts_spec [OF this, where D = D and C = C, simplified]
    obtain D' C' where dc: "add_parts '''' ?ps (D, C) = (D', C')" by (cases "add_parts '''' ?ps (D, C)")
    have "D' = D \<union> {joined (take k ?ps) |k. 0 < k \<and> k < length ?ps}"
      and "kids C' d = kids C d \<union> {?ps ! k |k. k < length ?ps \<and> d = joined (take k ?ps)}"
      using spec(1) spec(2) [of d] dc by simp_all
    with Cons.IH [of D' C'] Cons.prems dc show ?case by (auto simp: pieces_def)
  qed simp
  show "fst (namespace es) =
      insert '''' {joined (take k (pieces (ie_path e))) |k e. e \<in> set es \<and> 0 < k \<and> k < length (pieces (ie_path e))}"
    using step [of "{''''}" "[('''', {})]"] by (simp add: namespace_def)
  show "kids (snd (namespace es)) d =
      {pieces (ie_path e) ! k |k e. e \<in> set es \<and> k < length (pieces (ie_path e)) \<and>
         d = joined (take k (pieces (ie_path e)))}"
    using step [of "{''''}" "[('''', {})]"] by (simp add: namespace_def kids_def)
qed

text \<open>The ancestors of a path, by its text: a name in a directory is a prefix of the path that ends at a slash or
  at the end.\<close>

definition within :: "string \<Rightarrow> string \<Rightarrow> bool" where
  "within p q \<longleftrightarrow> q = p \<or> under p q"

lemma under_iff: "under p q \<longleftrightarrow> (\<exists>r. q = p @ SLASH # r)"
  by (auto simp: under_def startswith_iff)

lemma pieces_join:
  assumes "SLASH \<notin> set c"
  shows "pieces (join_path d c) = (if d = '''' then [c] else pieces d @ [c])"
  using assms by (auto simp: pieces_def join_path_def split_on_absent split_on_append)

lemma pieces_slash: "pieces (p @ SLASH # r) = pieces p @ pieces r"
  by (simp add: pieces_def split_on_append)

lemma child_of_path:
  assumes "proper_parts (pieces q)" and "c \<noteq> ''''" and "SLASH \<notin> set c"
  shows "within (join_path d c) q \<longleftrightarrow>
    (\<exists>k < length (pieces q). d = joined (take k (pieces q)) \<and> c = pieces q ! k)"
proof
  assume "within (join_path d c) q"
  then obtain ts where ts: "pieces q = pieces (join_path d c) @ ts"
    by (auto simp: within_def under_iff pieces_slash)
  let ?k = "if d = '''' then 0 else length (pieces d)"
  have "?k < length (pieces q) \<and> d = joined (take ?k (pieces q)) \<and> c = pieces q ! ?k"
    unfolding ts pieces_join [OF assms(3)] by (auto simp: nth_append)
  then show "\<exists>k < length (pieces q). d = joined (take k (pieces q)) \<and> c = pieces q ! k" by blast
next
  assume "\<exists>k < length (pieces q). d = joined (take k (pieces q)) \<and> c = pieces q ! k"
  then obtain k where k: "k < length (pieces q)" "d = joined (take k (pieces q))" "c = pieces q ! k" by blast
  let ?a = "take (Suc k) (pieces q)" and ?b = "drop (Suc k) (pieces q)"
  have ne: "\<forall>p \<in> set (take k (pieces q)). p \<noteq> ''''" using assms(1) by (auto simp: proper_parts_def dest: in_set_takeD)
  have a: "joined ?a = join_path d c"
    using joined_snoc [OF ne, of c] k by (simp add: take_Suc_conv_app_nth)
  have q: "q = joined (?a @ ?b)" by simp
  show "within (join_path d c) q"
  proof (cases "?b = []")
    case True
    then show ?thesis using q a by (simp add: within_def)
  next
    case False
    then have "q = joined ?a @ ''/'' @ joined ?b" using k(1) by (subst q, subst join_append) auto
    then show ?thesis unfolding a by (auto simp: within_def under_iff)
  qed
qed

lemma directory_of_path:
  assumes "proper_parts (pieces q)"
  shows "d \<noteq> '''' \<and> under d q \<longleftrightarrow> (\<exists>k. 0 < k \<and> k < length (pieces q) \<and> d = joined (take k (pieces q)))"
proof
  assume d: "d \<noteq> '''' \<and> under d q"
  then obtain r where q: "q = d @ SLASH # r" by (auto simp: under_iff)
  show "\<exists>k. 0 < k \<and> k < length (pieces q) \<and> d = joined (take k (pieces q))"
    by (intro exI [of _ "length (pieces d)"]) (auto simp: q pieces_slash)
next
  assume "\<exists>k. 0 < k \<and> k < length (pieces q) \<and> d = joined (take k (pieces q))"
  then obtain k where k: "0 < k" "k < length (pieces q)" "d = joined (take k (pieces q))" by blast
  let ?a = "take k (pieces q)" and ?b = "drop k (pieces q)"
  have "\<forall>p \<in> set ?a. p \<noteq> ''''" using assms by (auto simp: proper_parts_def dest: in_set_takeD)
  then have "d \<noteq> ''''" using k by (auto simp: joined_eq_Nil)
  moreover have "joined (?a @ ?b) = joined ?a @ ''/'' @ joined ?b" using k by (intro join_append) auto
  then have "q = d @ ''/'' @ joined ?b" using k by simp
  ultimately show "d \<noteq> '''' \<and> under d q" by (auto simp: under_iff)
qed

lemma mapR_mem: "mapR f xs = Inr ys \<Longrightarrow> y \<in> set ys \<Longrightarrow> \<exists>x \<in> set xs. f x = Inr y"
  by (induction xs arbitrary: ys) auto

lemma index_entries_proper:
  assumes "repo_index_entries r = Inr es" and "e \<in> set es"
  shows "proper_parts (pieces (ie_path e))"
proof -
  from mapR_mem [OF assms(1) [unfolded repo_index_entries_def] assms(2)]
  have "\<exists>e0. repo_validate_index_entry e0 = Inr e" by (auto split: prod.splits)
  then obtain e0 where e0: "repo_validate_index_entry e0 = Inr e" by blast
  define n where "n = ie_path e"
  have n: "repo_normalize_trackable_path (ie_path e0) = Inr n" "n = replace_char BSLASH SLASH (ie_path e0)" "ie_path e = n"
    using e0 by (auto simp: n_def repo_validate_index_entry_def split: if_splits)
  then have "n \<noteq> ''''" by (auto simp: repo_normalize_trackable_path_def normalize_path_def Let_def)
  then have "canonical_path (ie_path e)" using normalize_trackable_Inr [OF n(1)] n(3) by (simp add: trackable_def)
  then show ?thesis
    using split_on_parts [of _ SLASH "ie_path e"]
    by (auto simp: proper_parts_def pieces_def canonical_path_def clean_part_def)
qed

section \<open>The caches\<close>

definition coherent :: "NfsHandler \<Rightarrow> bool" where
  "coherent s \<longleftrightarrow>
    (\<forall>es. nh_entries_cache s = Some es \<longrightarrow> repo_index_entries (nh_repo s) = Inr es) \<and>
    (\<forall>F. nh_files_cache s = Some F \<longrightarrow> (\<exists>es. repo_index_entries (nh_repo s) = Inr es \<and> F = ie_path ` set es)) \<and>
    (\<forall>D. nh_dirs_cache s = Some D \<longrightarrow> (\<exists>es. repo_index_entries (nh_repo s) = Inr es \<and> D = fst (namespace es))) \<and>
    (\<forall>C. nh_children_cache s = Some C \<longrightarrow> (\<exists>es. repo_index_entries (nh_repo s) = Inr es \<and> C = snd (namespace es)))"

definition caches :: "NfsHandler \<Rightarrow> _" where
  "caches s = (nh_entries_cache s, nh_files_cache s, nh_dirs_cache s, nh_children_cache s)"

lemma coherent_same:
  assumes "r_index (nh_repo t) = r_index (nh_repo s)" and "caches t = caches s"
  shows "coherent t = coherent s"
  using assms by (simp add: coherent_def caches_def repo_index_entries_def)

lemma coherent_empty: "caches s = (None, None, None, None) \<Longrightarrow> coherent s"
  by (simp add: coherent_def caches_def)

lemma keeps_coherent:
  assumes "\<And>s. r_index (nh_repo (snd (m s))) = r_index (nh_repo s)" and "\<And>s. caches (snd (m s)) = caches s"
  shows "keeps coherent m"
  by (rule keepsI) (simp add: coherent_same [OF assms])

lemma coherent_entries: "coherent s \<Longrightarrow> coherent (snd (nfs_entries s))"
  by (auto simp: nfs_entries_def coherent_def split: option.split sum.split)

lemma entries_truth:
  assumes "coherent s" and "nfs_entries s = (Inr es, s')"
  shows "repo_index_entries (nh_repo s) = Inr es" and "nh_repo s' = nh_repo s"
  using assms by (auto simp: nfs_entries_def coherent_def split: option.splits sum.splits)

lemma coherent_namespace: "coherent s \<Longrightarrow> coherent (snd (ensure_namespace s))"
proof -
  assume s: "coherent s"
  show ?thesis
  proof (cases "nfs_entries s")
    case (Pair r s')
    then have s': "coherent s'" using coherent_entries [OF s] by simp
    show ?thesis
    proof (cases r)
      case (Inl e)
      then show ?thesis using s s' Pair by (simp add: ensure_namespace_def bindS_def)
    next
      case (Inr es)
      have "repo_index_entries (nh_repo s') = Inr es" using entries_truth [OF s, of es s'] Pair Inr by simp
      then show ?thesis using s s' Pair Inr by (auto simp: ensure_namespace_def bindS_def coherent_def)
    qed
  qed
qed

lemma run_job_index:
  "r_index (nh_repo (snd (run_job H j s))) = r_index (nh_repo s)" "caches (snd (run_job H j s)) = caches s"
  by (cases rule: run_job_cases [of H j s]; simp add: repo_stage_run caches_def)+

lemma coherent_run_job [kept]: "keeps coherent (run_job H j)"
  by (rule keeps_coherent) (simp_all add: run_job_index)

lemma coherent_staged [kept]: "keeps coherent (staged_blob H p g)"
proof -
  have r: "keeps coherent (job_result H j)" for j unfolding job_result_def by (intro kept)
  have a: "keeps coherent (bindS (job_result H j) (\<lambda>b. returnS (if sb_generation b = g then Some b else None)))" for j
    by (intro kept r)
  have b: "keeps coherent (bindS (catchS (bindS (job_result H j) (\<lambda>b. returnS (Some b))) (\<lambda>_. returnS None)) (\<lambda>b.
        returnS (case b of None \<Rightarrow> None | Some b \<Rightarrow> if sb_generation b = g then Some b else None)))" for j
    by (intro kept r)
  show ?thesis
    by (rule keepsI) (use keepsD [OF a] keepsD [OF b] in \<open>auto simp: staged_blob_def split: option.split\<close>)
qed

text \<open>An operation on the repository followed by an invalidation.\<close>

definition errs_keep :: "(NfsHandler, 'a) st \<Rightarrow> bool" where
  "errs_keep m \<longleftrightarrow> (\<forall>s e t. coherent s \<and> m s = (Inl e, t) \<longrightarrow> coherent t)"

lemma errs_keep_keeps: "keeps coherent m \<Longrightarrow> errs_keep m"
  by (force simp: errs_keep_def keeps_def)

lemma errs_keep_bind: "keeps coherent m \<Longrightarrow> (\<And>x. errs_keep (f x)) \<Longrightarrow> errs_keep (bindS m f)"
  unfolding errs_keep_def keeps_def bindS_Inl_iff by (metis snd_conv)

lemma errs_keep_repo:
  assumes "\<And>r e r'. m r = (Inl e, r') \<Longrightarrow> r_index r' = r_index r"
  shows "errs_keep (onRepo m)"
  unfolding errs_keep_def
proof (intro allI impI, elim conjE)
  fix s e t assume s: "coherent s" and m: "onRepo m s = (Inl e, t)"
  then have "m (nh_repo s) = (Inl e, nh_repo t)" and "caches t = caches s"
    by (auto simp: onRepo_def caches_def split: prod.splits)
  with assms s show "coherent t" by (simp add: coherent_same [of t s])
qed

lemma keeps_invalidated:
  assumes "errs_keep m"
  shows "keeps coherent (bindS m (\<lambda>_. invalidate_namespace p))"
    and "keeps coherent (bindS m (\<lambda>_. bindS (modifyS u) (\<lambda>_. invalidate_namespace p)))"
proof -
  have e: "coherent (snd (invalidate_namespace p s))" for s
    by (rule coherent_empty) (simp add: invalidate_namespace_def caches_def)
  then have "coherent (snd (bindS m (\<lambda>_. invalidate_namespace p) s))"
    "coherent (snd (bindS m (\<lambda>_. bindS (modifyS u) (\<lambda>_. invalidate_namespace p)) s))" if "coherent s" for s
    using assms that
    by (cases "m s"; cases "fst (m s)"; auto simp: errs_keep_def bindS_def)+
  then show "keeps coherent (bindS m (\<lambda>_. invalidate_namespace p))"
    "keeps coherent (bindS m (\<lambda>_. bindS (modifyS u) (\<lambda>_. invalidate_namespace p)))" by (auto simp: keeps_def)
qed

lemma errs_keep_write: "errs_keep (onRepo (repo_write_file h p d))"
  by (rule errs_keep_repo) (auto simp: repo_write_file_def bindS_Inl_iff Let_def)

lemma errs_keep_delete: "errs_keep (onRepo (repo_delete_file p))"
  by (rule errs_keep_repo) (auto simp: repo_delete_file_def bindS_Inl_iff)

lemma errs_keep_set: "errs_keep (onRepo (repo_set_file_object p x m))"
  by (rule errs_keep_repo) (auto simp: repo_set_file_object_def bindS_Inl_iff)

lemma coherent_drop [kept]: "keeps coherent (drop_pending p)"
  by (rule keeps_coherent) (simp_all add: drop_pending_def cancel_stage_timer_def caches_def)

lemma coherent_memory [kept]: "keeps coherent (modifyS (nh_ephemeral_update f))" "keeps coherent (modifyS (nh_stage_timers_update g))"
  by (rule keeps_coherent; simp add: caches_def)+

lemma coherent_flush: "keeps coherent (flush_path H p)"
proof -
  have a: "errs_keep (if is_ephemeral_path p then modifyS (nh_ephemeral_update (AList.update p d))
        else bindS (staged_blob H p g) (\<lambda>staged.
          case staged of
            None \<Rightarrow> onRepo (repo_write_file (ho_sha1 H) p d)
          | Some b \<Rightarrow> onRepo (repo_set_file_object p (sb_oid b) ''100644'')))" for d g
    by (auto simp: errs_keep_write errs_keep_set intro!: errs_keep_keeps [OF coherent_memory(1)] errs_keep_bind coherent_staged
        split: option.split)
  let ?body = "bindS (cancel_stage_timer p) (\<lambda>_.
      bindS (getsS (\<lambda>s. case map_of (nh_write_buffers s) p of None \<Rightarrow> Inl (KeyError p) | Some b \<Rightarrow> Inr b)) (\<lambda>data.
      bindS (getsS (\<lambda>s. case map_of (nh_dirty_generations s) p of None \<Rightarrow> Inl (KeyError p) | Some g \<Rightarrow> Inr g)) (\<lambda>generation.
      bindS (if is_ephemeral_path p then modifyS (nh_ephemeral_update (AList.update p data))
        else bindS (staged_blob H p generation) (\<lambda>staged.
          case staged of
            None \<Rightarrow> onRepo (repo_write_file (ho_sha1 H) p data)
          | Some b \<Rightarrow> onRepo (repo_set_file_object p (sb_oid b) ''100644''))) (\<lambda>_.
      bindS (modifyS (\<lambda>s. s\<lparr>nh_write_buffers := AList.delete p (nh_write_buffers s),
        nh_dirty := nh_dirty s - {p},
        nh_dirty_generations := AList.delete p (nh_dirty_generations s),
        nh_stage_generations := AList.delete p (nh_stage_generations s),
        nh_stage_futures := AList.delete p (nh_stage_futures s),
        nh_size_cache := AList.update p (length data) (nh_size_cache s)\<rparr>)) (\<lambda>_.
      invalidate_namespace p)))))"
  have "keeps coherent ?body"
    unfolding cancel_stage_timer_def by (rule keeps_bindS, rule coherent_memory, rule keeps_bindS, rule keeps_basic,
      rule keeps_bindS, rule keeps_basic, rule keeps_invalidated, rule a)
  then show ?thesis by (auto simp: keeps_def flush_path_def)
qed

interpretation nfs_caches: nfs_stable H coherent for H
proof
  show "keeps coherent nfs_entries" "keeps coherent ensure_namespace"
    by (auto simp: keeps_def coherent_entries coherent_namespace)
  show "keeps coherent (file_size H p)" for p
    by (rule keeps_coherent) (auto simp: file_size_def bindS_apply caches_def split: option.split sum.split)
  show "keeps coherent (touch H p)" "keeps coherent (untouch p)" "keeps coherent (register H p)" "keeps coherent (forget H p)" for p
    by (rule keeps_coherent; simp add: touch_def untouch_def register_def forget_def time_now_def bindS_def caches_def split: prod.split)+
  show "keeps coherent (invalidate_namespace p)" for p
    by (rule keepsI, rule coherent_empty) (simp add: invalidate_namespace_def caches_def)
  show "keeps coherent (nfs_write_bytes H p d)" for p d
    unfolding nfs_write_bytes_def by (intro kept keeps_invalidated errs_keep_write)
  show "keeps coherent (nfs_delete_bytes H p)" for p
  proof -
    have "keeps coherent (bindS (onRepo (repo_delete_file p)) (\<lambda>_. invalidate_namespace p))"
      by (intro keeps_invalidated errs_keep_delete)
    with coherent_memory(1) [of "AList.delete p"] have "keeps coherent (\<lambda>s. if map_of (nh_ephemeral s) p \<noteq> None
        then modifyS (nh_ephemeral_update (AList.delete p)) s
        else bindS (onRepo (repo_delete_file p)) (\<lambda>_. invalidate_namespace p) s)" by (auto simp: keeps_def)
    then show ?thesis unfolding nfs_delete_bytes_def by (intro kept)
  qed
  show "keeps coherent (buffer_write p d)" for p d
    by (rule keeps_coherent) (simp_all add: buffer_write_def caches_def)
  show "keeps coherent (start_stage p)" for p
    by (rule keeps_coherent) (auto simp: start_stage_def caches_def split: option.split)
  show "keeps coherent (bindS (onRepo (repo_write_file (ho_sha1 H) (join_path p ''.trunkskeep'') [])) (\<lambda>_. invalidate_namespace p))" for p
    by (intro keeps_invalidated errs_keep_write)
qed (rule coherent_flush coherent_memory coherent_run_job)+

section \<open>What a client is told\<close>

lemma ensure_truth:
  assumes "coherent s" and "ensure_namespace s = (Inr (), s')"
  obtains es where "repo_index_entries (nh_repo s) = Inr es" and "nh_files_cache s' = Some (ie_path ` set es)"
    and "nh_dirs_cache s' = Some (fst (namespace es))" and "nh_children_cache s' = Some (snd (namespace es))"
proof -
  have s': "coherent s'" using coherent_namespace [OF assms(1)] assms(2) by simp
  have repo: "nh_repo s' = nh_repo s" using ensure_namespace_fields(1) [of s] assms(2) by simp
  from ensure_namespace_caches [OF assms(2)] s' that show ?thesis
    unfolding coherent_def repo by (metis not_None_eq sum.inject(2))
qed

lemma ensure_runs:
  assumes "coherent s" and "repo_index_entries (nh_repo s) = Inr es"
  shows "\<exists>s'. ensure_namespace s = (Inr (), s')"
  using assms by (auto simp: ensure_namespace_def nfs_entries_def bindS_def coherent_def split: option.split)

lemma directories_truth:
  assumes "repo_index_entries r = Inr es"
  shows "d \<in> fst (namespace es) \<longleftrightarrow> d = '''' \<or> (\<exists>e \<in> set es. under d (ie_path e))"
proof -
  have p: "\<forall>e \<in> set es. proper_parts (pieces (ie_path e))" using index_entries_proper [OF assms] by blast
  have no_root: "\<not> under '''' (ie_path e)" if "e \<in> set es" for e
    using p that by (auto simp: under_iff proper_parts_def pieces_def)
  show ?thesis
    unfolding namespace_spec(1) [OF p] using directory_of_path p no_root by blast
qed

lemma children_truth:
  assumes "repo_index_entries r = Inr es"
  shows "kids (snd (namespace es)) d = {c. c \<noteq> '''' \<and> SLASH \<notin> set c \<and> (\<exists>e \<in> set es. within (join_path d c) (ie_path e))}"
proof -
  have p: "\<forall>e \<in> set es. proper_parts (pieces (ie_path e))" using index_entries_proper [OF assms] by blast
  then have c: "pieces (ie_path e) ! k \<noteq> '''' \<and> SLASH \<notin> set (pieces (ie_path e) ! k)"
    if "e \<in> set es" and "k < length (pieces (ie_path e))" for e k
    using that nth_mem by (fastforce simp: proper_parts_def)
  show ?thesis
    unfolding namespace_spec(2) [OF p]
  proof (intro set_eqI iffI)
    fix x assume "x \<in> {pieces (ie_path e) ! k |k e. e \<in> set es \<and> k < length (pieces (ie_path e)) \<and>
        d = joined (take k (pieces (ie_path e)))}"
    then obtain k e where k: "x = pieces (ie_path e) ! k" "e \<in> set es" "k < length (pieces (ie_path e))"
      "d = joined (take k (pieces (ie_path e)))" by blast
    with c [of e k] child_of_path [of "ie_path e" x d] p
    show "x \<in> {c. c \<noteq> '''' \<and> SLASH \<notin> set c \<and> (\<exists>e \<in> set es. within (join_path d c) (ie_path e))}" by auto
  next
    fix x assume "x \<in> {c. c \<noteq> '''' \<and> SLASH \<notin> set c \<and> (\<exists>e \<in> set es. within (join_path d c) (ie_path e))}"
    then obtain e where e: "x \<noteq> ''''" "SLASH \<notin> set x" "e \<in> set es" "within (join_path d x) (ie_path e)" by blast
    then obtain k where "k < length (pieces (ie_path e))" "d = joined (take k (pieces (ie_path e)))" "x = pieces (ie_path e) ! k"
      using child_of_path [of "ie_path e" x d] p by auto
    with e(3) show "x \<in> {pieces (ie_path e) ! k |k e. e \<in> set es \<and> k < length (pieces (ie_path e)) \<and>
        d = joined (take k (pieces (ie_path e)))}" by blast
  qed
qed

text \<open>C27: the kind of a path that NFS reports is the truth about the index: a file if the index has that path, a
  directory if it is an ancestor of an indexed path, and nothing otherwise. The caches never
  show another answer.\<close>

theorem nfs_classify_truth:
  assumes "coherent s" and "repo_index_entries (nh_repo s) = Inr es"
  shows "\<exists>s'. classify p s = (Inr (
     if p \<in> ie_path ` set es then Some FileKind
     else if p = '''' \<or> (\<exists>e \<in> set es. under p (ie_path e)) then Some DirKind else None), s') \<and> coherent s'"
proof -
  from ensure_runs [OF assms] obtain s' where e: "ensure_namespace s = (Inr (), s')" by blast
  then have "coherent s'" using coherent_namespace [OF assms(1)] by simp
  moreover from ensure_truth [OF assms(1) e] have "nh_files_cache s' = Some (ie_path ` set es)"
    "nh_dirs_cache s' = Some (fst (namespace es))" using assms(2) by (metis sum.inject(2))+
  ultimately show ?thesis
    using e directories_truth [OF assms(2), of p] by (auto simp: classify_def bindS_apply)
qed

text \<open>C28: listing a directory gives, in order and without repetition, exactly the names that the indexed paths have
  in it, without the marker file of empty directories.\<close>

theorem nfs_listing_truth:
  assumes "coherent s" and "repo_index_entries (nh_repo s) = Inr es"
  shows "\<exists>names s'. nfs_children d s = (Inr names, s') \<and> sorted names \<and> distinct names \<and>
    set names = {c. c \<noteq> '''' \<and> SLASH \<notin> set c \<and> c \<noteq> ''.trunkskeep'' \<and>
      (\<exists>e \<in> set es. within (join_path d c) (ie_path e))}"
proof -
  from ensure_runs [OF assms] obtain s' where e: "ensure_namespace s = (Inr (), s')" by blast
  from ensure_truth [OF assms(1) e] have c: "nh_children_cache s' = Some (snd (namespace es))"
    using assms(2) by (metis sum.inject(2))
  let ?k = "kids (snd (namespace es)) d - {''.trunkskeep''}"
  have run: "nfs_children d s = (Inr (sorted_list_of_set ?k), s')"
    using e c by (simp add: nfs_children_def bindS_apply kids_def)
  have p: "\<forall>e \<in> set es. proper_parts (pieces (ie_path e))" using index_entries_proper [OF assms(2)] by blast
  have "kids (snd (namespace es)) d \<subseteq> (\<Union>e \<in> set es. set (pieces (ie_path e)))"
    unfolding namespace_spec(2) [OF p] by (auto intro!: nth_mem)
  then have "finite ?k" by (rule finite_subset [THEN finite_Diff]) simp
  then show ?thesis
    using run children_truth [OF assms(2), of d]
    by (intro exI [of _ "sorted_list_of_set ?k"] exI [of _ s']) auto
qed

definition sample_names :: NfsHandler where
  "sample_names = nfs_init sample_host (snd (repo_write_file sample_hash ''d/f'' ''y'' repo_empty)) (handles_init sample_digest ''k'')"

lemma sample_names_entries:
  "repo_index_entries (nh_repo sample_names) =
    Inr [\<lparr>ie_path = ''d/f'', ie_oid = from_bytes sample_hash (canonical_object ''blob'' ''y''), ie_mode = ''100644''\<rparr>]"
  by code_simp

lemma coherent_init: "coherent (nfs_init H r t)"
  by (rule coherent_empty) (simp add: nfs_init_def caches_def)

theorem nfs_classify_truth_witness:
  "\<exists>s'. classify ''d'' sample_names = (Inr (Some DirKind), s')"
  using nfs_classify_truth [OF _ sample_names_entries, of "''d''"] coherent_init [of sample_host]
  by (auto simp: under_iff sample_names_def)

theorem nfs_listing_truth_witness:
  "\<exists>names s'. nfs_children ''d'' sample_names = (Inr names, s') \<and> ''f'' \<in> set names"
proof -
  have "coherent sample_names" unfolding sample_names_def by (rule coherent_init)
  from nfs_listing_truth [OF this sample_names_entries, of "''d''"] show ?thesis
    by (auto simp: within_def join_path_def)
qed

text \<open>C29: every call other than RENAME, whatever its arguments and its outcome, leaves the caches of the namespace
  in agreement with the index of the repository.\<close>

theorem nfs_caches_stay_coherent:
  assumes "coherent s" and "proc c \<noteq> 14"
  shows "coherent (snd (nfs_dispatch H c s))"
  using keepsD [OF nfs_caches.dispatch [OF assms(2)] assms(1)] .

theorem nfs_caches_stay_coherent_witness:
  "coherent (snd (nfs_dispatch sample_host (sample_call 1 []) sample_names))"
  by (rule nfs_caches_stay_coherent) (simp_all add: sample_names_def coherent_init sample_call_def)

section \<open>Where the handler departs from a file system\<close>

text \<open>Renaming a file onto itself, or moving it in the repository, removes it: the copy is written and then the
  source, which is the same path, is deleted.\<close>

lemma move_onto_itself_deletes:
  assumes "repo_move_file h b p p r = (Inr (), r')"
  shows "\<exists>n. repo_normalize_trackable_path p = Inr n \<and> map_of (r_index r') n = None"
  using assms by (auto simp: repo_move_file_def repo_delete_file_def)

text \<open>Pending writes of the target of a RENAME survive it: the target reads as its old buffer and not as the file
  that was moved there.\<close>

lemma rename_keeps_target_buffer:
  assumes "digest20 (ho_sha1 H)" and "nfs_inv H s" and "\<not> is_ephemeral_path a" and "\<not> is_ephemeral_path b" and "a \<noteq> b"
    and "map_of (nh_write_buffers s) b = Some old" and "rename_file H a b s = (Inr True, s')"
  shows "read_bytes H b s' = Inr old"
proof -
  have f: "map_of (nh_write_buffers (snd (flush_path H a s))) b = Some old"
  proof (cases "a \<in> nh_dirty s")
    case True
    from assms(1,2) True show ?thesis
      by (cases rule: flush_cases)
        (use assms(5,6) in \<open>auto simp: only_jobs_def settled_def no_timer_def split: prod.splits sum.splits\<close>)
  qed (simp add: flush_clean assms(6))
  have "map_of (nh_write_buffers s') b = Some old"
    using assms(7,3,4) f
    by (auto simp: rename_file_def bindS_apply catchS_def onRepo_apply rename_handle_def invalidate_namespace_def
        untouch_def touch_run split: sum.splits prod.splits if_splits)
  then show ?thesis by (simp add: read_bytes_def)
qed

text \<open>Renaming a directory whose name makes its files desktop metadata keeps them in memory under a name that does
  not: they are served but never reach the repository.\<close>

lemma moved_memory_file_stays_in_memory:
  "map_of (nh_ephemeral (snd (move_one H ''._d'' ''d'' ''._d/x'' (s\<lparr>nh_ephemeral := [(''._d/x'', b)]\<rparr>)))) ''d/x'' = Some b \<and>
   \<not> is_ephemeral_path ''d/x''"
proof
  show "\<not> is_ephemeral_path ''d/x''" by code_simp
  show "map_of (nh_ephemeral (snd (move_one H ''._d'' ''d'' ''._d/x'' (s\<lparr>nh_ephemeral := [(''._d/x'', b)]\<rparr>)))) ''d/x'' = Some b"
    by (simp add: move_one_def Let_def bindS_apply rename_handle_def)
qed

text \<open>A directory rename that fails half way has moved some files but leaves the caches as they were.\<close>

definition broken_nfs :: NfsHandler where
  "broken_nfs = nfs_init sample_host
     (r_index_update (AList.update ''d/g'' (replicate 40 CHR ''0'', ''100644''))
       (snd (repo_write_file sample_hash ''d/f'' ''y'' repo_empty))) (handles_init sample_digest ''k'')"

lemma failed_directory_move_leaves_stale_names:
  "\<not> coherent (snd (move_directory sample_host ''d'' ''e'' broken_nfs))"
proof -
  let ?s = "snd (move_directory sample_host ''d'' ''e'' broken_nfs)"
  have "map_option (map ie_path) (nh_entries_cache ?s) = Some [''d/f'', ''d/g'']" by code_simp
  moreover have "(case repo_index_entries (nh_repo ?s) of Inl _ \<Rightarrow> [] | Inr es \<Rightarrow> map ie_path es) = [''d/g'', ''e/f'']"
    by code_simp
  ultimately show ?thesis by (auto simp: coherent_def)
qed

end
