(* ===== verification/NfsServer.thy ===== *)
theory NfsServer
  imports NfsInv
begin

text \<open>
  \<^verbatim>\<open>src/trunks/mount/server.py\<close>: the loop that reads records from a client, dispatches them to the two protocols
  and writes the replies. A connection is the bytes the client sends before it closes; the loop's
  result is what was written to it, the server's state and the exception that ended the
  connection, if any. Socket options and logging are left out. The table of handles is one
  object shared by both protocols, so the mount handler reads it from the NFS handler.
\<close>

record NfsServer =
  sv_nfs :: NfsHandler
  sv_mountd :: MountHandler

definition server_init :: "Host \<Rightarrow> Repo \<Rightarrow> string \<Rightarrow> bytes \<Rightarrow> NfsServer" where
  "server_init H repo export_name secret =
    \<lparr>sv_nfs = nfs_init H repo (handles_init (ho_sha256 H) secret), sv_mountd = mount_init export_name\<rparr>"

definition disable_mount_protocol :: "NfsServer \<Rightarrow> NfsServer" where
  "disable_mount_protocol s = s\<lparr>sv_mountd := disable_mnt (sv_mountd s)\<rparr>"

fun is_rpc_error :: "error \<Rightarrow> bool" where
  "is_rpc_error (RpcError _) = True"
| "is_rpc_error _ = False"

definition onNfs :: "(NfsHandler, 'a) st \<Rightarrow> (NfsServer, 'a) st" where
  "onNfs m = (\<lambda>s. case m (sv_nfs s) of (r, n) \<Rightarrow> (r, s\<lparr>sv_nfs := n\<rparr>))"

definition dispatch_call :: "Host \<Rightarrow> RpcCall \<Rightarrow> (NfsServer, bytes) st" where
  "dispatch_call H call =
    (if rpcvers call \<noteq> 2 then liftR (pack_reply_rpc_mismatch (xid call) 2 2)
     else if prog call = NFS_PROGRAM then
       (if vers call \<noteq> NFS_VERSION then liftR (pack_reply_prog_mismatch (xid call) NFS_VERSION NFS_VERSION)
        else onNfs (nfs_dispatch H call))
     else if prog call = MOUNT_PROGRAM then
       (if vers call \<noteq> MOUNT_VERSION then liftR (pack_reply_prog_mismatch (xid call) MOUNT_VERSION MOUNT_VERSION)
        else getsS (\<lambda>s. mount_dispatch (ho_sha256 H) (nh_handles (sv_nfs s)) (sv_mountd s) call))
     else liftR (pack_reply_accepted_error (xid call) PROG_UNAVAIL))"

definition server_dispatch :: "Host \<Rightarrow> bytes \<Rightarrow> (NfsServer, bytes) st" where
  "server_dispatch H record =
    (case parse_call record of
       Inl e \<Rightarrow> if is_rpc_error e then liftR (pack_reply_rpc_mismatch 0 2 2) else raiseS e
     | Inr call \<Rightarrow> dispatch_call H call)"

function serve_client :: "Host \<Rightarrow> bytes \<Rightarrow> NfsServer \<Rightarrow> bytes \<times> NfsServer \<times> error option" where
  "serve_client H reader s =
    (case read_record reader of
       (Inl e, _) \<Rightarrow> if e = IncompleteReadError \<or> is_rpc_error e then ([], s, None) else ([], s, Some e)
     | (Inr record, rest) \<Rightarrow>
       (case server_dispatch H record s of
          (Inl e, s') \<Rightarrow> ([], s', Some e)
        | (Inr reply, s') \<Rightarrow>
          (case encode_record reply of
             Inl e \<Rightarrow> ([], s', Some e)
           | Inr out \<Rightarrow> (case serve_client H rest s' of (written, t, ended) \<Rightarrow> (out @ written, t, ended)))))"
  by pat_completeness auto
termination
  by (relation "measure (\<lambda>(_, r, _). length r)") (force dest: read_record_shorter [OF sym])+

declare serve_client.simps [simp del]

section \<open>Replies\<close>

definition reply_to :: "nat \<Rightarrow> bytes \<Rightarrow> bool" where
  "reply_to x r \<longleftrightarrow> (\<exists>rest. r = reply_head x @ rest)"

lemma reply_to_accepted [simp, intro]: "reply_to x (accepted x n @ body)"
  by (auto simp: reply_to_def accepted_def)

lemma nfs_dispatch_replies:
  assumes "xid c < 2 ^ 32"
  shows "\<exists>n body s'. nfs_dispatch H c s = (Inr (accepted (xid c) n @ body), s')"
proof -
  have garbage: "pack_reply_accepted_error (xid c) GARBAGE_ARGS = Inr (accepted (xid c) GARBAGE_ARGS @ [])"
    and unavail: "pack_reply_accepted_error (xid c) PROC_UNAVAIL = Inr (accepted (xid c) PROC_UNAVAIL @ [])"
    using pack_replies(2) [OF assms] by (simp_all add: rpc_consts)
  have fault: "bindR (status_body NFS3ERR_SERVERFAULT) (pack_reply_success (xid c)) =
      Inr (accepted (xid c) SUCCESS @ be 4 NFS3ERR_SERVERFAULT)"
    by (simp add: status_body_def pack_uint32_ok NFS3ERR_SERVERFAULT_def pack_replies(1) [OF assms])
  show ?thesis
  proof (cases "map_of nfs_procs (proc c)")
    case None
    then show ?thesis by (simp add: nfs_dispatch_def catchS_def unavail) blast
  next
    case (Some f)
    obtain r s' where "f H (unpacker (args c)) s = (r, s')" by (cases "f H (unpacker (args c)) s")
    then show ?thesis
      using Some
      by (cases r) (auto simp: nfs_dispatch_def catchS_def fault pack_replies(1) [OF assms] garbage)
  qed
qed

lemma dispatch_call_replies:
  assumes "xid c < 2 ^ 32"
  shows "\<exists>r s'. dispatch_call H c s = (Inr r, s') \<and> reply_to (xid c) r"
proof -
  obtain n body t where "nfs_dispatch H c (sv_nfs s) = (Inr (accepted (xid c) n @ body), t)"
    using nfs_dispatch_replies [OF assms] by blast
  moreover obtain n' body' where "mount_dispatch (ho_sha256 H) (nh_handles (sv_nfs s)) (sv_mountd s) c =
      Inr (accepted (xid c) n' @ body')"
    using mount_dispatch_replies [OF assms] by blast
  ultimately show ?thesis
    using pack_replies(2-4) [OF assms]
    by (auto simp: dispatch_call_def onNfs_def NFS_VERSION_def MOUNT_VERSION_def PROG_UNAVAIL_def PROG_MISMATCH_def
        reply_to_def accepted_def)
qed

text \<open>C25: no call can make the dispatcher fail: any record that parses as a call is answered by a reply with the transaction
  id of that call; a record whose header is whole but is not that of a call is answered by a mismatch with transaction id 0, not its own;
  and only a record cut off inside its header raises (an XDR error, which ends the connection, where the documentation of
  \<^verbatim>\<open>parse_call\<close> promises an RPC error).\<close>

theorem server_dispatch_total:
  "case parse_call record of
     Inr call \<Rightarrow> \<exists>r s'. server_dispatch H record s = (Inr r, s') \<and> reply_to (xid call) r
   | Inl e \<Rightarrow> (\<exists>m. e = RpcError m \<and> (\<exists>r. server_dispatch H record s = (Inr r, s) \<and> reply_to 0 r)) \<or>
       (\<exists>m. e = XdrError m \<and> server_dispatch H record s = (Inl e, s))"
proof (cases "parse_call record")
  case (Inr call)
  then show ?thesis using dispatch_call_replies [OF parse_call_xid [OF Inr]] by (simp add: server_dispatch_def)
next
  case (Inl e)
  then have "(\<exists>m. e = RpcError m) \<or> (\<exists>m. e = XdrError m)"
    by (rule parse_call_errors)
  then show ?thesis
    using Inl pack_replies(4) [of 0 2 2] by (auto simp: server_dispatch_def reply_to_def)
qed
section \<open>A connection\<close>

text \<open>What the server would answer to the calls one after the other.\<close>

fun exchange :: "Host \<Rightarrow> RpcCall list \<Rightarrow> NfsServer \<Rightarrow> bytes list \<times> NfsServer" where
  "exchange H [] s = ([], s)"
| "exchange H (c # cs) s =
    (case dispatch_call H c s of
       (Inl e, s') \<Rightarrow> ([], s')
     | (Inr r, s') \<Rightarrow> (case exchange H cs s' of (rs, t) \<Rightarrow> (r # rs, t)))"

lemma exchange_replies:
  "list_all call_ok cs \<Longrightarrow> list_all2 (\<lambda>c r. reply_to (xid c) r) cs (fst (exchange H cs s))"
proof (induction cs arbitrary: s)
  case (Cons c cs)
  then have "xid c < 2 ^ 32" by (simp add: call_ok_def)
  then obtain r s' where "dispatch_call H c s = (Inr r, s')" "reply_to (xid c) r"
    using dispatch_call_replies by blast
  then show ?case using Cons.IH [of s'] Cons.prems by (cases "exchange H cs s'") simp
qed simp

lemma serve_record:
  assumes "length m \<le> MAX_RECORD" and "server_dispatch H m s = (Inr r, s')" and "length r \<le> MAX_RECORD"
  shows "serve_client H (frame [m] @ rest) s =
    (frame [r] @ fst (serve_client H rest s'), snd (serve_client H rest s'))"
proof -
  have "read_record (frame [m] @ rest) = (Inr m, rest)"
    using read_fragments_frame [of "[m]" "[]" rest] assms(1) by (simp add: read_record_def)
  then show ?thesis
    using assms(2) encode_record_frame [OF assms(3)]
    by (subst serve_client.simps) (simp split: prod.split)
qed

lemma serve_end: "serve_client H [] s = ([], s, None)"
  by (subst serve_client.simps)
    (simp add: read_record_def read_fragments.simps read_fragment_def bindS_def read_exact_def)

lemma dispatch_message:
  assumes "call_ok c"
  shows "server_dispatch H (call_message c) s = dispatch_call H c s"
proof -
  have "parse_call (call_message c) = Inr c"
    using call_reads [OF assms, of "call_message c"] ahead_unpacker [of "call_message c"]
    by (simp add: reads_all_def parse_call_def unpacker_def)
  then show ?thesis by (simp add: server_dispatch_def)
qed

text \<open>C26: a client that sends calls and closes gets one reply per call, in the order of the calls, each with the
  transaction id of its call, and the connection ends without an exception.\<close>

theorem server_answers_in_order:
  assumes "list_all call_ok cs" and "list_all (\<lambda>c. length (call_message c) \<le> MAX_RECORD) cs"
    and "exchange H cs s = (replies, s')" and "list_all (\<lambda>r. length r \<le> MAX_RECORD) replies"
  shows "serve_client H (concat (map (\<lambda>c. frame [call_message c]) cs)) s =
      (concat (map (\<lambda>r. frame [r]) replies), s', None) \<and>
    list_all2 (\<lambda>c r. reply_to (xid c) r) cs replies"
proof
  show "serve_client H (concat (map (\<lambda>c. frame [call_message c]) cs)) s =
      (concat (map (\<lambda>r. frame [r]) replies), s', None)"
    using assms
  proof (induction cs arbitrary: s replies)
    case Nil
    then show ?case by (simp add: serve_end)
  next
    case (Cons c cs)
    then have "xid c < 2 ^ 32" by (simp add: call_ok_def)
    then obtain r t where d: "dispatch_call H c s = (Inr r, t)" using dispatch_call_replies by blast
    with Cons.prems obtain rs where x: "exchange H cs t = (rs, s')" and rs: "replies = r # rs"
      by (auto split: prod.splits)
    have "serve_client H (concat (map (\<lambda>c. frame [call_message c]) cs)) t = (concat (map (\<lambda>r. frame [r]) rs), s', None)"
      using Cons.prems x rs by (intro Cons.IH) simp_all
    then show ?case
      using serve_record [of "call_message c" H s r t] dispatch_message [of c H s] d Cons.prems rs by simp
  qed
  show "list_all2 (\<lambda>c r. reply_to (xid c) r) cs replies"
    using exchange_replies [OF assms(1), of H s] assms(3) by simp
qed

definition sample_server :: NfsServer where
  "sample_server = server_init sample_host repo_empty ''demo'' ''k''"

theorem server_answers_in_order_witness:
  "\<exists>replies s'. serve_client sample_host (concat (map (\<lambda>c. frame [call_message c]) [sample_call 0 [], sample_call 99 []])) sample_server =
    (concat (map (\<lambda>r. frame [r]) replies), s', None) \<and> length replies = 2"
proof -
  let ?cs = "[sample_call 0 [], sample_call 99 []]"
  have n: "dispatch_call sample_host (sample_call 0 []) s = (Inr (accepted 9 SUCCESS), s)"
    and u: "dispatch_call sample_host (sample_call 99 []) s = (Inr (accepted 9 PROC_UNAVAIL), s)" for s
    using pack_replies(1,2) [of 9]
    by (simp_all add: dispatch_call_def onNfs_def sample_call_def NFS_PROGRAM_def NFS_VERSION_def nfs_dispatch_def
        nfs_procs_def proc_null_def catchS_def rpc_consts)
  have "exchange sample_host ?cs sample_server = ([accepted 9 SUCCESS, accepted 9 PROC_UNAVAIL], sample_server)"
    by (simp add: n u)
  moreover have "list_all call_ok ?cs" by (simp add: call_ok_def sample_call_def)
  moreover have "list_all (\<lambda>c. length (call_message c) \<le> MAX_RECORD) ?cs"
    by (simp add: call_message_def call_fields_def sample_call_def enc_opaque_def padding_def MAX_RECORD_def)
  moreover have "list_all (\<lambda>r. length r \<le> MAX_RECORD) [accepted 9 SUCCESS, accepted 9 PROC_UNAVAIL]"
    by (simp add: accepted_def reply_head_def enc_opaque_def padding_def MAX_RECORD_def)
  ultimately have "serve_client sample_host (concat (map (\<lambda>c. frame [call_message c]) ?cs)) sample_server =
      (concat (map (\<lambda>r. frame [r]) [accepted 9 SUCCESS, accepted 9 PROC_UNAVAIL]), sample_server, None)"
    using server_answers_in_order [of ?cs sample_host sample_server] by blast
  then show ?thesis by (intro exI conjI) (assumption, simp)
qed

text \<open>A record that ends inside its header raises an \<^verbatim>\<open>XdrError\<close>, not the \<^verbatim>\<open>RpcError\<close> that the documentation of
  \<^verbatim>\<open>parse_call\<close> names and that the dispatcher catches: it ends the connection with an exception.\<close>

lemma truncated_record_ends_connection:
  "serve_client H (frame [[]]) s = ([], s, Some (XdrError ''truncated XDR data''))"
proof -
  have "read_record (frame [[]]) = (Inr [], [])"
    using read_fragments_frame [of "[[]]" "[]" "[]"] by (simp add: read_record_def)
  moreover have "parse_call [] = Inl (XdrError ''truncated XDR data'')"
    by (simp add: parse_call_def call_reader_def unpack_uint32_def unp_read_def bindS_def unpacker_def Let_def)
  ultimately show ?thesis by (subst serve_client.simps) (simp add: server_dispatch_def)
qed

end
