(* ===== verification/ActionLeases.thy ===== *)
theory ActionLeases
  imports Cells
begin

text \<open>
  The life cycle of action runs under concurrency. Several executors work on one store; the operations
  of \<open>ActionRuns\<close> are many store calls each, and between any two of them the others may change the
  store. The cells (theory \<open>Cells\<close>) are the state references of the runs. \<open>run_op\<close> are the operations and
  \<open>op_guard\<close>, \<open>op_state\<close> the transition of the life cycle each of them may make.

  \<open>run_op_kept\<close> shows that no call changes a cell except by that transition, from the document that
  the cell named at that moment. On the life cycle itself, a run in a final phase stays as it is, a live
  lease cannot be claimed, and an executor that has lost its lease can no longer change the run.
\<close>

text \<open>The names of the state references of a repository, and ids of runs that no name of theirs ends with.\<close>

definition state_cells :: "string \<Rightarrow> string set" where
  "state_cells root = range (run_state_ref root)"

definition plain_id :: "string \<Rightarrow> bool" where
  "plain_id run \<longleftrightarrow> SLASH \<notin> set run \<and> run \<noteq> ''state''"

locale cell_store = cell_calls +
  assumes cells_sub: "cells \<subseteq> state_cells (as_root A)" and root: "startswith (as_root A) ''refs/''"

section \<open>Names that are not cells\<close>

lemma normalize_ref_append: "\<exists>p. normalize_ref n = p @ n"
  by (simp add: normalize_ref_def exI [of _ "[]"])

lemma normalize_ref_root [simp]: "startswith root ''refs/'' \<Longrightarrow> normalize_ref (root @ t) = root @ t"
  by (auto simp: normalize_ref_def startswith_iff)

lemma last_component:
  assumes "a @ SLASH # x = b @ SLASH # y" and "SLASH \<notin> set x" and "SLASH \<notin> set y"
  shows "x = y"
proof -
  have "rev x @ SLASH # rev a = rev y @ SLASH # rev b" using assms(1) [THEN arg_cong [where f = rev]] by simp
  then have "takeWhile (\<lambda>c. c \<noteq> SLASH) (rev x @ SLASH # rev a) = takeWhile (\<lambda>c. c \<noteq> SLASH) (rev y @ SLASH # rev b)" by simp
  then show ?thesis using assms(2,3) by (simp add: takeWhile_append_stop)
qed

lemma state_cells_end:
  assumes "p \<in> state_cells root" and "p = q @ SLASH # x" and "SLASH \<notin> set x"
  shows "x = ''state''"
proof -
  obtain X where "p = (root @ ''/runs/'' @ X) @ SLASH # ''state''" using assms(1) by (auto simp: state_cells_def run_state_ref_def)
  then show ?thesis using assms(2) last_component [of q x "root @ ''/runs/'' @ X" "''state''"] assms(3) by simp
qed

lemma fmt_d_plain: "SLASH \<notin> set (fmt_d w i)" and fmt_d_not_state: "fmt_d w i \<noteq> ''state''"
proof -
  have d: "c \<in> set (fmt_d w i) \<Longrightarrow> is_digit c \<or> c = CHR ''-''" for c
    by (auto simp: fmt_d_def dest: dec_pad_digits split: if_splits)
  then show "SLASH \<notin> set (fmt_d w i)" by (fastforce simp: is_digit_def)
  show "fmt_d w i \<noteq> ''state''" using d [of "CHR ''s''"] by (auto simp: is_digit_def)
qed

lemma names_not_cells [simp]:
  "run_log_ref root run i q \<notin> state_cells root"
  "run_index_by_repo_prefix root @ t \<notin> state_cells root"
  "run_index_by_status_prefix root st @ t \<notin> state_cells root"
  "run_queue_ref root k b sh run \<notin> state_cells root"
proof -
  show "run_log_ref root run i q \<notin> state_cells root"
    using state_cells_end [of _ root "root @ ''/runs/'' @ run @ ''/logs/'' @ int_str i" "fmt_d 20 q"] fmt_d_plain fmt_d_not_state
    by (auto simp: run_log_ref_def)
qed (auto simp: state_cells_def run_state_ref_def run_index_by_repo_prefix_def run_index_by_status_prefix_def run_queue_ref_def
    Let_def split: option.splits)

lemma names_normal:
  assumes "startswith root ''refs/''"
  shows "normalize_ref (run_log_ref root run i q) = run_log_ref root run i q"
    "normalize_ref (run_index_by_repo_prefix root @ t) = run_index_by_repo_prefix root @ t"
    "normalize_ref (run_index_by_status_prefix root st @ t) = run_index_by_status_prefix root st @ t"
    "normalize_ref (run_queue_ref root k b sh run) = run_queue_ref root k b sh run"
    "normalize_ref (run_state_ref root run) = run_state_ref root run"
  using assms by (auto simp: run_log_ref_def run_index_by_repo_prefix_def run_index_by_status_prefix_def run_queue_ref_def
      run_state_ref_def Let_def split: option.splits)

lemma run_names_not_cells:
  assumes "plain_id run" and "endswith name (''/'' @ run)"
  shows "normalize_ref name \<notin> state_cells root"
proof
  assume c: "normalize_ref name \<in> state_cells root"
  obtain p where p: "normalize_ref name = p @ name" using normalize_ref_append by blast
  obtain q where q: "name = q @ SLASH # run" using assms(2) by (auto simp: endswith_iff)
  show False using state_cells_end [OF c, of "p @ q" run] p q assms(1) by (simp add: plain_id_def)
qed

section \<open>The operations keep the cells\<close>

context cell_store
begin

lemma not_cell: "n \<notin> state_cells (as_root A) \<Longrightarrow> n \<in> cells \<longleftrightarrow> False"
  using cells_sub by blast

lemma logs_kept [intro!]:
  "keeps (kept L) (write_log_chunks A run i logs)" "keeps (kept L) (persist_log_chunks A run d)"
  "keeps (kept L) (load_log_chunks_for_attempt A run i)" "keeps (kept L) (load_log_chunks A run)"
proof -
  have "keeps (kept L) (write_log_chunk A run i item)" for item i
    unfolding write_log_chunk_def Let_def store
    by (intro keeps_cases_option keeps_basic keeps_bindS store_kept set_ref_kept) (simp_all add: names_normal [OF root] not_cell)
  then show w: "keeps (kept L) (write_log_chunks A run i logs)" for i logs unfolding write_log_chunks_def by (rule keeps_iterS)
  show "keeps (kept L) (persist_log_chunks A run d)" unfolding persist_log_chunks_def by (auto intro!: w split: json.splits)
qed (unfold load_log_chunks_for_attempt_def load_log_chunks_def, (intro keeps_bindS store_kept load_all_kept keeps_basic)+)

lemma refresh_kept:
  assumes "plain_id run" and "digest20 h \<Longrightarrow> valid_oid y"
  shows "keeps (kept L) (refresh_indexes A run y d previous)"
proof -
  note n = names_normal [OF root]
  have set: "keeps (kept L) (as_set_ref A m y)" if "normalize_ref m = m" "m \<notin> state_cells (as_root A)" for m
    using that by (intro set_ref_kept assms(2)) (simp_all add: not_cell)
  have del: "keeps (kept L) (as_delete_ref A name)" if "endswith name (''/'' @ run)" for name
    by (rule delete_ref_kept) (simp add: not_cell run_names_not_cells [OF assms(1) that])
  have q: "keeps (kept L) (refresh_queue_ref A run d p ph y)" for p ph
    unfolding refresh_queue_ref_def Let_def
    by (intro keeps_bindS keeps_if keeps_iterS keeps_basic store_kept)
      (auto intro!: del set simp: n split: json.splits)
  have ph: "keeps (kept L) (phase_at A previous)"
    unfolding phase_at_def by (intro keeps_cases_option keeps_bindS keeps_basic load_payload_kept)
  show ?thesis
    unfolding refresh_indexes_def Let_def
    by (intro keeps_bindS ph q set keeps_cases_option keeps_if keeps_basic delete_ref_kept) (simp_all add: n not_cell)
qed

lemma persist_kept:
  assumes "payload_id js d = Inr run" and "plain_id run"
    and "permitted (run_state_ref (as_root A) run) (Some x) (blob_id (doc_blob h (JObj (state_payload d))))"
  shows "keeps (kept L) (persist_run_payload js A d (Some x))"
proof -
  have "keeps (kept L) (move_state A run (Some x) (blob_id (doc_blob h (JObj (state_payload d)))))"
    unfolding move_state_def option.case as_cas_ref_def store
    by (intro keeps_bindS keeps_basic cas_kept) (use assms(3) in \<open>simp_all add: names_normal [OF root]\<close>)
  then show ?thesis
    unfolding persist_run_payload_def Let_def assms(1) store bindS_liftR_Inr
    by (intro keeps_bindS keeps_basic logs_kept store_kept keeps_cases_option)
      (auto intro!: keeps_bindS keeps_cases_option refresh_kept assms(2))
qed

lemma swap_kept:
  assumes "payload_id js d = Inr run" and "plain_id run"
    and "permitted (run_state_ref (as_root A) run) (Some x) (blob_id (doc_blob h (JObj (state_payload d))))"
  shows "keeps (kept L) (swap_run js A d x)"
  unfolding swap_run_def by (intro keeps_bindS persist_kept [OF assms] keeps_basic)

end

section \<open>The transitions of the life cycle\<close>

datatype run_op =
    ClaimRun Claim string int
  | HeartbeatRun string int int
  | CompleteRun payload string string "payload list" json
  | ReleaseRun payload string
  | CancelRun

fun run_op_exec :: "(json \<Rightarrow> string) \<Rightarrow> 's ActionsStore \<Rightarrow> string \<Rightarrow> run_op \<Rightarrow> (Repo \<times> 's, bool) st" where
  "run_op_exec js A run (ClaimRun c token now) = bindS (claim_run js A run c token now) (\<lambda>p. returnS (p \<noteq> None))"
| "run_op_exec js A run (HeartbeatRun token ttl_s now) = heartbeat_run js A run token ttl_s now"
| "run_op_exec js A run (CompleteRun d token phase logs result) = complete_run js A d token phase logs result"
| "run_op_exec js A run (ReleaseRun d token) = release_run_claim js A d token"
| "run_op_exec js A run CancelRun = bindS (cancel_run js A run) (\<lambda>p. returnS (p \<noteq> None))"

text \<open>When an operation may change the state of a run, and what it changes it to.\<close>

fun op_guard :: "run_op \<Rightarrow> payload \<Rightarrow> bool" where
  "op_guard (ClaimRun c token now) st \<longleftrightarrow> dget st ''phase'' = JStr ''pending'' \<or> lease_expired st now"
| "op_guard (HeartbeatRun token ttl_s now) st \<longleftrightarrow> dget st ''phase'' = JStr ''running'' \<and> dget st ''token'' = JStr token"
| "op_guard (CompleteRun d token phase logs result) st \<longleftrightarrow> dget st ''token'' = JStr token"
| "op_guard (ReleaseRun d token) st \<longleftrightarrow> dget st ''token'' = JStr token"
| "op_guard CancelRun st \<longleftrightarrow> \<not> is_terminal (dget st ''phase'')"

fun op_state :: "run_op \<Rightarrow> payload \<Rightarrow> payload" where
  "op_state (ClaimRun c token now) st = claimed_state c token now st"
| "op_state (HeartbeatRun token ttl_s now) st = dmerge st [(''expires_at'', JInt (now + ttl_s))]"
| "op_state (CompleteRun d token phase logs result) st = ended_state phase st"
| "op_state (ReleaseRun d token) st = ended_state ''pending'' st"
| "op_state CancelRun st = ended_state ''canceled'' st"

text \<open>The payload an executor hands back names the run.\<close>

fun op_for :: "(json \<Rightarrow> string) \<Rightarrow> string \<Rightarrow> run_op \<Rightarrow> bool" where
  "op_for js run (CompleteRun d token phase logs result) \<longleftrightarrow> payload_id js d = Inr run"
| "op_for js run (ReleaseRun d token) \<longleftrightarrow> payload_id js d = Inr run"
| "op_for js run op \<longleftrightarrow> True"

definition op_permits :: "hash \<Rightarrow> string \<Rightarrow> string \<Rightarrow> run_op \<Rightarrow> string \<Rightarrow> ObjectId option \<Rightarrow> ObjectId \<Rightarrow> bool" where
  "op_permits h root run op n e y \<longleftrightarrow> n = run_state_ref root run \<and>
    (\<exists>x d st d'. e = Some x \<and> doc_at h x d \<and> dget d ''state'' = JObj st \<and> op_guard op st \<and>
       y = blob_id (doc_blob h (JObj d')) \<and> dget d' ''state'' = JObj (op_state op st))"

lemma dget_update [simp]: "dget (AList.update k v d) k' = (if k' = k then v else dget d k')"
  by (simp add: dget_def)

lemma dget_dmerge_simps [simp]:
  "dmerge d [] = d" "dmerge d ((k, v) # kvs) = dmerge (AList.update k v d) kvs"
  by (simp_all add: dmerge_def)

lemma payload_id_update [simp]: "k \<noteq> ''id'' \<Longrightarrow> payload_id js (AList.update k v d) = payload_id js d"
  by (simp add: payload_id_def jitem_def)

lemma state_payload_get [simp]: "dget (state_payload d) ''state'' = dget d ''state''"
  by (simp add: state_payload_def)

context cell_store
begin

lemma with_run_kept:
  assumes st: "kept L (r, s, others, log)"
    and k: "\<And>x d st. refs (seen s others) (run_state_ref (as_root A) run) = Some x \<Longrightarrow> doc_at h x d \<Longrightarrow> dget d ''state'' = JObj st \<Longrightarrow>
      keeps (kept L) (k x d st)"
  shows "kept L (snd (with_run A run no k (r, s, others, log)))"
proof -
  let ?n = "run_state_ref (as_root A) run"
  let ?st = "(r, s, others, log)"
  obtain e st1 where e: "as_read_ref A ?n ?st = (e, st1)" by (cases "as_read_ref A ?n ?st")
  have k1: "kept L st1" using keepsD [OF store_kept(2) st, of ?n] e by simp
  show ?thesis
  proof (cases "\<exists>x. e = Inr (Some x)")
    case True
    then obtain x where x: "e = Inr (Some x)" by blast
    then have n: "refs (seen s others) ?n = Some x" using read_ref_seen [OF st, of ?n "Some x" st1] e names_normal(5) [OF root] by simp
    obtain c st2 where c: "load_payload A x st1 = (c, st2)" by (cases "load_payload A x st1")
    have k2: "kept L st2" using keepsD [OF load_payload_kept k1, of x] c by simp
    show ?thesis
    proof (cases "\<exists>d st'. c = Inr (Some d) \<and> dget d ''state'' = JObj st'")
      case True
      then obtain d st' where d: "c = Inr (Some d)" "dget d ''state'' = JObj st'" by blast
      have "doc_at h x d" using load_payload_doc [OF k1] c d(1) by blast
      from keepsD [OF k [OF n this d(2)] k2] show ?thesis by (simp add: with_run_def bindS_def e x c d)
    next
      case False
      then show ?thesis using k2 e x c
        by (cases c) (auto simp: with_run_def bindS_def split: option.splits json.splits)
    qed
  next
    case False
    then show ?thesis using k1 e by (cases e) (auto simp: with_run_def bindS_def split: option.splits)
  qed
qed

lemma run_op_kept:
  assumes p: "permitted = op_permits h (as_root A) run op" and "op_for js run op" and run: "plain_id run"
    and st: "kept L (r, s, others, log)"
    and ids: "\<And>x d. refs (seen s others) (run_state_ref (as_root A) run) = Some x \<Longrightarrow> doc_at h x d \<Longrightarrow> payload_id js d = Inr run"
  shows "kept L (snd (run_op_exec js A run op (r, s, others, log)))"
proof -
  have swap: "keeps (kept L) (swap_run js A d' x)"
    if "refs (seen s others) (run_state_ref (as_root A) run) = Some x" "doc_at h x d" "dget d ''state'' = JObj st"
      "op_guard op st" "payload_id js d' = payload_id js d" "dget d' ''state'' = JObj (op_state op st)" for x d st d'
  proof (rule swap_kept)
    show "payload_id js d' = Inr run" using ids that(1,2,5) by simp
    show "permitted (run_state_ref (as_root A) run) (Some x) (blob_id (doc_blob h (JObj (state_payload d'))))"
      unfolding p op_permits_def using that by (metis state_payload_get)
  qed (rule run)
  show ?thesis
  proof (cases op)
    case (ClaimRun c token now)
    show ?thesis
      unfolding ClaimRun run_op_exec.simps claim_run_def Let_def
    proof (rule kept_bindS, rule with_run_kept [OF st])
      fix x d st' assume a: "refs (seen s others) (run_state_ref (as_root A) run) = Some x" "doc_at h x d" "dget d ''state'' = JObj st'"
      show "keeps (kept L) (if dget st' ''phase'' \<noteq> JStr ''pending'' \<and> \<not> lease_expired st' now then returnS None
        else bindS (swap_run js A (AList.update ''state'' (JObj (claimed_state c token now st')) d) x)
          (\<lambda>swapped. returnS (if swapped then Some (AList.update ''state'' (JObj (claimed_state c token now st')) d) else None)))"
        using swap [OF a, of "AList.update ''state'' (JObj (claimed_state c token now st')) d"]
        by (intro keeps_if keeps_bindS keeps_basic) (simp_all add: ClaimRun)
    qed (rule keeps_basic)
  next
    case (HeartbeatRun token ttl_s now)
    show ?thesis
      unfolding HeartbeatRun run_op_exec.simps heartbeat_run_def
    proof (intro with_run_kept [OF st] keeps_if keeps_basic)
      fix x d st' assume a: "refs (seen s others) (run_state_ref (as_root A) run) = Some x" "doc_at h x d" "dget d ''state'' = JObj st'"
        and "\<not> (dget st' ''phase'' \<noteq> JStr ''running'' \<or> dget st' ''token'' \<noteq> JStr token)"
      then show "keeps (kept L) (swap_run js A (AList.update ''state'' (JObj (dmerge st' [(''expires_at'', JInt (now + ttl_s))])) d) x)"
        using swap [OF a] by (simp add: HeartbeatRun)
    qed
  next
    case (CompleteRun d0 token phase logs result)
    then have "payload_id js d0 = Inr run" using assms(2) by simp
    then show ?thesis
      unfolding CompleteRun run_op_exec.simps complete_run_def
    proof (simp only: bindS_liftR_Inr, intro with_run_kept [OF st] keeps_if keeps_basic keeps_bindS logs_kept)
      fix x d st' assume a: "refs (seen s others) (run_state_ref (as_root A) run) = Some x" "doc_at h x d" "dget d ''state'' = JObj st'"
        and "\<not> dget st' ''token'' \<noteq> JStr token"
      then show "keeps (kept L) (swap_run js A (dmerge d [(''logs'', JList []), (''result'', result),
          (''artifacts'', dget_or d0 ''artifacts'' (dget_or d ''artifacts'' (JList []))), (''state'', JObj (ended_state phase st'))]) x)"
        using swap [OF a] by (simp add: CompleteRun)
    qed
  next
    case (ReleaseRun d0 token)
    then have "payload_id js d0 = Inr run" using assms(2) by simp
    then show ?thesis
      unfolding ReleaseRun run_op_exec.simps release_run_claim_def
    proof (simp only: bindS_liftR_Inr, intro with_run_kept [OF st] keeps_if keeps_basic)
      fix x d st' assume a: "refs (seen s others) (run_state_ref (as_root A) run) = Some x" "doc_at h x d" "dget d ''state'' = JObj st'"
        and "\<not> dget st' ''token'' \<noteq> JStr token"
      then show "keeps (kept L) (swap_run js A (AList.update ''state'' (JObj (ended_state ''pending'' st')) d) x)"
        using swap [OF a] by (simp add: ReleaseRun)
    qed
  next
    case CancelRun
    show ?thesis
      unfolding CancelRun run_op_exec.simps cancel_run_def Let_def
    proof (rule kept_bindS, rule with_run_kept [OF st], intro keeps_if keeps_basic keeps_bindS)
      fix x d st' assume a: "refs (seen s others) (run_state_ref (as_root A) run) = Some x" "doc_at h x d" "dget d ''state'' = JObj st'"
        and "\<not> is_terminal (dget st' ''phase'')"
      then show "keeps (kept L) (swap_run js A (AList.update ''state'' (JObj (ended_state ''canceled'' st')) d) x)"
        using swap [OF a] by (simp add: CancelRun)
    qed (rule keeps_basic)
  qed
qed

lemma swap_run_moves:
  assumes id: "payload_id js d = Inr run" and run: "plain_id run"
    and p: "permitted (run_state_ref (as_root A) run) (Some x) (blob_id (doc_blob h (JObj (state_payload d))))"
    and st: "kept L st" and res: "swap_run js A d x st = (Inr True, (r', s', others', log'))"
  shows "swapped G refs (run_state_ref (as_root A) run) (Some x) (blob_id (doc_blob h (JObj (state_payload d)))) log'"
proof -
  let ?n = "run_state_ref (as_root A) run" and ?y = "blob_id (doc_blob h (JObj (state_payload d)))"
  let ?fin = "(r', s', others', log')"
  obtain v where per: "persist_run_payload js A d (Some x) st = (Inr (Some v), ?fin)"
    using res by (auto simp: swap_run_def bindS_Inr_iff)
  let ?k3 = "\<lambda>moved. case moved of None \<Rightarrow> returnS None
    | Some previous \<Rightarrow> bindS (refresh_indexes A run ?y (state_payload d) previous) (\<lambda>_. returnS (Some (oid_value ?y)))"
  let ?k2 = "\<lambda>_. bindS (move_state A run (Some x) ?y) ?k3"
  let ?k1 = "\<lambda>_. bindS (as_write_blob A (doc_blob h (JObj (state_payload d)))) ?k2"
  have b1: "bindS (persist_log_chunks A run d) ?k1 st = (Inr (Some v), ?fin)"
    using per by (simp only: persist_run_payload_def id bindS_liftR_Inr Let_def store)
  obtain u1 st1 where 1: "persist_log_chunks A run d st = (Inr u1, st1)" "kept L st1" "?k1 u1 st1 = (Inr (Some v), ?fin)"
    by (rule bindS_keptE [OF b1 logs_kept(2) st])
  obtain u2 st2 where "as_write_blob A (doc_blob h (JObj (state_payload d))) st1 = (Inr u2, st2)" and 2: "kept L st2" "?k2 u2 st2 = (Inr (Some v), ?fin)"
    by (rule bindS_keptE [OF 1(3) store_kept(1) 1(2)])
  obtain m st3 where 3: "move_state A run (Some x) ?y st2 = (Inr m, st3)" and 4: "?k3 m st3 = (Inr (Some v), ?fin)"
    using 2(2) unfolding bindS_Inr_iff by blast
  from 4 obtain pr where m: "m = Some pr" by (cases m) auto
  have cas: "as_cas_ref A ?n (Some x) ?y st2 = (Inr True, st3)"
    using 3 m by (auto simp: move_state_def bindS_Inr_iff split: if_splits)
  have n: "normalize_ref ?n = ?n" by (rule names_normal(5) [OF root])
  obtain L' where L': "kept L' st3" "\<And>log. set L' \<subseteq> set log \<Longrightarrow> swapped G refs (normalize_ref ?n) (Some x) ?y log"
    by (rule cas_moves [OF 2(1) cas valid_doc_id]) (use p n in auto)
  have "keeps (kept L') (refresh_indexes A run ?y (state_payload d) pr)" by (rule refresh_kept [OF run valid_doc_id])
  then have "kept L' ?fin" using 4 m keepsD L'(1) by (fastforce simp: bindS_Inr_iff)
  then show ?thesis using L'(2) [of log'] n by (simp add: guar_log)
qed

lemma with_run_result:
  assumes st: "kept L (r, s, others, log)" and res: "with_run A run no k (r, s, others, log) = (Inr v, st')" and "v \<noteq> no"
  obtains x d st2 stt where "refs (seen s others) (run_state_ref (as_root A) run) = Some x" "doc_at h x d" "dget d ''state'' = JObj stt"
    "kept L st2" "k x d stt st2 = (Inr v, st')"
proof -
  let ?n = "run_state_ref (as_root A) run"
  let ?k2 = "\<lambda>x c. case c of None \<Rightarrow> returnS no | Some d \<Rightarrow> (case dget d ''state'' of JObj st \<Rightarrow> k x d st | _ \<Rightarrow> returnS no)"
  obtain e st1 where 1: "as_read_ref A ?n (r, s, others, log) = (Inr e, st1)" "kept L st1"
    "(case e of None \<Rightarrow> returnS no | Some x \<Rightarrow> bindS (load_payload A x) (?k2 x)) st1 = (Inr v, st')"
    by (rule bindS_keptE [OF res [unfolded with_run_def] store_kept(2) st])
  from 1(3) assms(3) obtain x where x: "e = Some x" by (cases e) auto
  have n: "refs (seen s others) ?n = Some x" using read_ref_seen [OF st 1(1)] x names_normal(5) [OF root] by simp
  have b: "bindS (load_payload A x) (?k2 x) st1 = (Inr v, st')" using 1(3) x by simp
  obtain c st2 where 2: "load_payload A x st1 = (Inr c, st2)" "kept L st2" "?k2 x c st2 = (Inr v, st')"
    by (rule bindS_keptE [OF b load_payload_kept 1(2)])
  from 2(3) assms(3) obtain d stt where d: "c = Some d" "dget d ''state'' = JObj stt" "k x d stt st2 = (Inr v, st')"
    by (auto split: option.splits json.splits)
  show ?thesis using that [OF n load_payload_doc [OF 1(2)] d(2) 2(2) d(3)] 2(1) d(1) by simp
qed

lemma run_op_moves:
  assumes p: "permitted = op_permits h (as_root A) run op" and "op_for js run op" and run: "plain_id run" and "op \<noteq> CancelRun"
    and st: "kept L (r, s, others, log)"
    and ids: "\<And>x d. refs (seen s others) (run_state_ref (as_root A) run) = Some x \<Longrightarrow> doc_at h x d \<Longrightarrow> payload_id js d = Inr run"
    and res: "run_op_exec js A run op (r, s, others, log) = (Inr True, (r', s', others', log'))"
  shows "\<exists>e y. permitted (run_state_ref (as_root A) run) e y \<and> swapped G refs (run_state_ref (as_root A) run) e y log'"
proof -
  let ?fin = "(r', s', others', log')"
  have swap: ?thesis
    if "refs (seen s others) (run_state_ref (as_root A) run) = Some x" "doc_at h x d" "dget d ''state'' = JObj stt" "kept L st2"
      "op_guard op stt" "payload_id js d' = payload_id js d" "dget d' ''state'' = JObj (op_state op stt)"
      "swap_run js A d' x st2 = (Inr True, ?fin)" for x d stt st2 d'
  proof -
    have "payload_id js d' = Inr run" using ids that(1,2,6) by simp
    moreover have "permitted (run_state_ref (as_root A) run) (Some x) (blob_id (doc_blob h (JObj (state_payload d'))))"
      unfolding p op_permits_def using that by (metis state_payload_get)
    ultimately show ?thesis using swap_run_moves [OF _ run _ that(4,8)] by blast
  qed
  show ?thesis
  proof (cases op)
    case (ClaimRun c token now)
    then obtain v where v: "claim_run js A run c token now (r, s, others, log) = (Inr (Some v), ?fin)"
      using res by (auto simp: bindS_Inr_iff)
    obtain x d st2 stt where k: "refs (seen s others) (run_state_ref (as_root A) run) = Some x" "doc_at h x d" "dget d ''state'' = JObj stt"
      "kept L st2" "(if dget stt ''phase'' \<noteq> JStr ''pending'' \<and> \<not> lease_expired stt now then returnS None
        else bindS (swap_run js A (AList.update ''state'' (JObj (claimed_state c token now stt)) d) x)
          (\<lambda>swapped. returnS (if swapped then Some (AList.update ''state'' (JObj (claimed_state c token now stt)) d) else None))) st2 =
        (Inr (Some v), ?fin)"
      by (rule with_run_result [OF st v [unfolded claim_run_def Let_def]]) simp
    from k(5) have "swap_run js A (AList.update ''state'' (JObj (claimed_state c token now stt)) d) x st2 = (Inr True, ?fin)"
      "op_guard op stt" unfolding ClaimRun by (auto simp: bindS_Inr_iff split: if_splits)
    then show ?thesis using swap [OF k(1-4), of "AList.update ''state'' (JObj (claimed_state c token now stt)) d"]
      by (simp add: ClaimRun)
  next
    case (HeartbeatRun token ttl_s now)
    obtain x d st2 stt where k: "refs (seen s others) (run_state_ref (as_root A) run) = Some x" "doc_at h x d" "dget d ''state'' = JObj stt"
      "kept L st2" "(if dget stt ''phase'' \<noteq> JStr ''running'' \<or> dget stt ''token'' \<noteq> JStr token then returnS False
        else swap_run js A (AList.update ''state'' (JObj (dmerge stt [(''expires_at'', JInt (now + ttl_s))])) d) x) st2 = (Inr True, ?fin)"
      by (rule with_run_result [OF st res [unfolded HeartbeatRun run_op_exec.simps heartbeat_run_def]]) simp
    then show ?thesis
      using swap [OF k(1-4), of "AList.update ''state'' (JObj (dmerge stt [(''expires_at'', JInt (now + ttl_s))])) d"]
      by (simp add: HeartbeatRun split: if_splits)
  next
    case (CompleteRun d0 token phase logs result)
    then have id: "payload_id js d0 = Inr run" using assms(2) by simp
    obtain x d st2 stt where k: "refs (seen s others) (run_state_ref (as_root A) run) = Some x" "doc_at h x d" "dget d ''state'' = JObj stt"
      "kept L st2" "(if dget stt ''token'' \<noteq> JStr token then returnS False
        else bindS (write_log_chunks A run (attempt_from_state stt) logs) (\<lambda>_. swap_run js A (dmerge d
          [(''logs'', JList []), (''result'', result),
           (''artifacts'', dget_or d0 ''artifacts'' (dget_or d ''artifacts'' (JList []))),
           (''state'', JObj (ended_state phase stt))]) x)) st2 = (Inr True, ?fin)"
      by (rule with_run_result [OF st res [unfolded CompleteRun run_op_exec.simps complete_run_def id bindS_liftR_Inr]]) simp
    then have g: "dget stt ''token'' = JStr token" by (auto split: if_splits)
    obtain u st3 where "write_log_chunks A run (attempt_from_state stt) logs st2 = (Inr u, st3)" and 3: "kept L st3"
      "swap_run js A (dmerge d [(''logs'', JList []), (''result'', result),
           (''artifacts'', dget_or d0 ''artifacts'' (dget_or d ''artifacts'' (JList []))),
           (''state'', JObj (ended_state phase stt))]) x st3 = (Inr True, ?fin)"
      using k(5) g keepsD [OF logs_kept(1) k(4), of run "attempt_from_state stt" logs] by (auto simp: bindS_Inr_iff)
    show ?thesis by (rule swap [OF k(1-3) 3(1) _ _ _ 3(2)]) (simp_all add: CompleteRun g)
  next
    case (ReleaseRun d0 token)
    then have id: "payload_id js d0 = Inr run" using assms(2) by simp
    obtain x d st2 stt where k: "refs (seen s others) (run_state_ref (as_root A) run) = Some x" "doc_at h x d" "dget d ''state'' = JObj stt"
      "kept L st2" "(if dget stt ''token'' \<noteq> JStr token then returnS False
        else swap_run js A (AList.update ''state'' (JObj (ended_state ''pending'' stt)) d) x) st2 = (Inr True, ?fin)"
      by (rule with_run_result [OF st res [unfolded ReleaseRun run_op_exec.simps release_run_claim_def id bindS_liftR_Inr]]) simp
    then show ?thesis using swap [OF k(1-4), of "AList.update ''state'' (JObj (ended_state ''pending'' stt)) d"]
      by (simp add: ReleaseRun split: if_splits)
  qed (use assms(4) in simp)
qed

end

interpretation memory_runs: cell_store h "memory_backend h" "memory_inv h" memory_objs memory_refs
    "actions_store h (Some (interfered (memory_backend h))) tries r" "state_cells (repo_root r)" permitted "\<lambda>s. digest20 h \<and> memory_inv h s"
  for h tries r permitted
  by unfold_locales (auto simp: actions_store_def repo_root_def startswith_iff)

interpretation sqlite_runs: cell_store h "sqlite_backend h od trunk" "sqlite_inv h trunk" "sqlite_objs trunk" "sqlite_refs trunk"
    "actions_store h (Some (interfered (sqlite_backend h od trunk))) tries r" "state_cells (repo_root r)" permitted "\<lambda>s. digest20 h \<and> sqlite_inv h trunk s"
  for h od trunk tries r permitted
  by unfold_locales (auto simp: actions_store_def repo_root_def startswith_iff)

section \<open>Concurrent executors\<close>

lemma cell_storeI:
  assumes "backend_cells h B good objs refs"
    and "\<And>s. G s \<Longrightarrow> digest20 h \<and> good s"
    and "\<And>a b. G a \<Longrightarrow> good b \<Longrightarrow> fair_call refs (state_cells (repo_root r)) permitted (a, b) \<Longrightarrow> G b"
  shows "cell_store h B good objs refs (actions_store h (Some (interfered B)) tries r) (state_cells (repo_root r)) permitted G"
proof (rule cell_store.intro, rule cell_calls.intro [OF assms(1)], rule cell_calls_axioms.intro)
  fix a b assume "G a" "good b" "fair_call refs (state_cells (repo_root r)) permitted (a, b)"
  then show "G b" by (rule assms(3))
next
  fix s assume "G s" then show "digest20 h \<and> good s" by (rule assms(2))
qed (simp_all add: cell_store_axioms_def actions_store_def repo_root_def startswith_iff)

text \<open>C11: an operation on a run (claiming it, extending the lease, completing it, giving it back, canceling it), while
  other executors change the store between any two of its store calls: every call of it leaves the state
  references of all runs alone, or it swaps that of its run, from a document that the operation permits at
  that moment (a pending run or an expired lease for a claim, the executor's own token for the rest, a
  run that is not finished for canceling) to the one the operation makes of it. When the operation
  reports success, it has made such a swap. The store may fail at any call, and the document that the
  reference names at the first call carries the id of the run.\<close>

theorem run_op_follows_lifecycle:
  assumes "backend_cells h B good objs refs" and "digest20 h" and "good s" and "\<forall>f \<in> set others. \<forall>t. good t \<longrightarrow> good (f t)"
    and "plain_id run" and "op_for js run op"
    and "\<forall>x d. refs (seen s others) (run_state_ref (repo_root r) run) = Some x \<and> doc_at h x d \<longrightarrow> payload_id js d = Inr run"
    and "out = run_op_exec js (actions_store h (Some (interfered B)) tries r) run op (r, s, others, [])"
  shows "good (final_store out) \<and>
    (\<forall>e \<in> set (final_log out). fair_call refs (state_cells (repo_root r)) (op_permits h (repo_root r) run op) e) \<and>
    (fst out = Inr True \<and> op \<noteq> CancelRun \<longrightarrow>
      (\<exists>e y. op_permits h (repo_root r) run op (run_state_ref (repo_root r) run) e y \<and>
        swapped good refs (run_state_ref (repo_root r) run) e y (final_log out)))"
proof -
  let ?A = "actions_store h (Some (interfered B)) tries r"
  let ?p = "op_permits h (repo_root r) run op"
  let ?G = "\<lambda>s. digest20 h \<and> good s"
  have c: "cell_store h B good objs refs ?A (state_cells (repo_root r)) ?p ?G" using assms(1) by (rule cell_storeI) auto
  have root: "as_root ?A = repo_root r" by (simp add: actions_store_def)
  have k: "guar ?G (fair_call refs (state_cells (repo_root r)) ?p) [] (r, s, others, [])" using assms(2-4) by (simp add: guar_def)
  have ids: "payload_id js d = Inr run" if "refs (seen s others) (run_state_ref (as_root ?A) run) = Some x" "doc_at h x d" for x d
    using assms(7) that by (simp add: root)
  obtain r' s' others' log' where out: "snd out = (r', s', others', log')" by (cases "snd out") auto
  have "guar ?G (fair_call refs (state_cells (repo_root r)) ?p) [] (snd out)"
    unfolding assms(8) by (rule cell_store.run_op_kept [OF c _ assms(6,5) k]) (use ids root in auto)
  moreover have "\<exists>x y. ?p (run_state_ref (as_root ?A) run) x y \<and> swapped ?G refs (run_state_ref (as_root ?A) run) x y log'"
    if "fst out = Inr True" "op \<noteq> CancelRun"
    by (rule cell_store.run_op_moves [OF c _ assms(6,5) that(2) k]) (use ids root that(1) out assms(8) in \<open>auto simp: prod_eq_iff\<close>)
  ultimately show ?thesis
    using out by (cases out) (fastforce simp: final_store_def final_log_def guar_def root swapped_def)
qed

text \<open>The states in which an operation cannot change a run: it is finished, or another executor holds a lease that has not
  expired at the time of the operation. A cancellation needs no lease: anybody may cancel a run that is not finished, also one
  that an executor holds, so that only a finished run is protected from it.\<close>

definition protected :: "payload \<Rightarrow> run_op \<Rightarrow> bool" where
  "protected st op \<longleftrightarrow>
    is_terminal (dget st ''phase'') \<and> dget st ''token'' = JNull \<or>
    (\<exists>t e. dget st ''phase'' = JStr ''running'' \<and> dget st ''token'' = JStr t \<and> dget st ''expires_at'' = JInt e \<and>
      (case op of ClaimRun c u now \<Rightarrow> now < e | HeartbeatRun u _ _ \<Rightarrow> u \<noteq> t | CompleteRun _ u _ _ _ \<Rightarrow> u \<noteq> t
       | ReleaseRun _ u \<Rightarrow> u \<noteq> t | CancelRun \<Rightarrow> False))"

lemma protected_blocks: "protected st op \<Longrightarrow> \<not> op_guard op st"
  by (cases op) (auto simp: protected_def is_terminal_def TERMINAL_PHASES_def lease_expired_def jint_of_def
      split: option.splits json.splits)

text \<open>C12: a run that is finished stays as it is, whatever operation is tried on it, and a run that another executor holds with
  a live lease stays as it is under every operation but a cancellation, which anybody may do; this however the other executors
  change the rest of the store meanwhile. The operation does not report success (a cancellation of a finished run returns it). So a
  finished run is never reopened, no executor takes over a lease before it expires, and one that has lost its lease can neither
  extend nor complete nor release the run.\<close>

theorem protected_run_unchanged:
  assumes "backend_cells h B good objs refs" and "digest20 h" and "good s" and "refs s (run_state_ref (repo_root r) run) = Some x"
    and "\<forall>f \<in> set others. \<forall>t. good t \<and> refs t (run_state_ref (repo_root r) run) = Some x \<longrightarrow>
      good (f t) \<and> refs (f t) (run_state_ref (repo_root r) run) = Some x"
    and "plain_id run" and "op_for js run op"
    and "\<forall>d'. doc_at h x d' \<longrightarrow> d' = d" and "payload_id js d = Inr run" and "dget d ''state'' = JObj st" and "protected st op"
    and "out = run_op_exec js (actions_store h (Some (interfered B)) tries r) run op (r, s, others, [])"
  shows "refs (final_store out) (run_state_ref (repo_root r) run) = Some x \<and> (op \<noteq> CancelRun \<longrightarrow> fst out \<noteq> Inr True)"
proof -
  let ?A = "actions_store h (Some (interfered B)) tries r" and ?n = "run_state_ref (repo_root r) run"
  let ?p = "op_permits h (repo_root r) run op"
  let ?G = "\<lambda>s. digest20 h \<and> good s \<and> refs s ?n = Some x"
  have never: "\<not> ?p ?n (Some x) y" for y
    using assms(8,10) protected_blocks [OF assms(11)] by (auto simp: op_permits_def)
  have c: "cell_store h B good objs refs ?A (state_cells (repo_root r)) ?p ?G" using assms(1)
  proof (rule cell_storeI)
    fix a b assume a: "?G a" "good b" "fair_call refs (state_cells (repo_root r)) ?p (a, b)"
    have "?n \<in> state_cells (repo_root r)" by (simp add: state_cells_def)
    then show "?G b" using a never unfolding fair_call_def op_permits_def by fastforce
  qed simp
  have root: "as_root ?A = repo_root r" by (simp add: actions_store_def)
  have k: "guar ?G (fair_call refs (state_cells (repo_root r)) ?p) [] (r, s, others, [])" using assms(2-5) by (simp add: guar_def)
  have "refs (seen s others) ?n = Some x" using k by (cases others) (auto simp: seen_def guar_def)
  then have ids: "payload_id js d' = Inr run" if "refs (seen s others) (run_state_ref (as_root ?A) run) = Some x'" "doc_at h x' d'" for x' d'
    using assms(8,9) that by (auto simp: root)
  obtain r' s' others' log' where out: "snd out = (r', s', others', log')" by (cases "snd out") auto
  have g: "guar ?G (fair_call refs (state_cells (repo_root r)) ?p) [] (snd out)"
    unfolding assms(12) by (rule cell_store.run_op_kept [OF c _ assms(7,6) k]) (use ids root in auto)
  have "fst out \<noteq> Inr True" if "op \<noteq> CancelRun"
  proof
    assume t: "fst out = Inr True"
    have "\<exists>x' y. ?p (run_state_ref (as_root ?A) run) x' y \<and> swapped ?G refs (run_state_ref (as_root ?A) run) x' y log'"
      by (rule cell_store.run_op_moves [OF c _ assms(7,6) that k]) (use ids root t out assms(12) in \<open>auto simp: prod_eq_iff\<close>)
    then show False using never by (auto simp: swapped_def root)
  qed
  then show ?thesis using g out by (cases out) (auto simp: final_store_def guar_def)
qed

section \<open>Instances\<close>

text \<open>A store that holds one run.\<close>

abbreviation one_run :: "payload \<Rightarrow> Memory" where
  "one_run d \<equiv> one_doc (run_state_ref (repo_root repo_empty) ''01RUN'') d"

definition sample_run :: "string \<Rightarrow> json \<Rightarrow> json \<Rightarrow> payload" where
  "sample_run phase token expires_at = [(''id'', JStr ''01RUN''),
     (''state'', JObj [(''phase'', JStr phase), (''token'', token), (''expires_at'', expires_at), (''attempt'', JInt 1)])]"

lemma sample_run_ascii: "ascii_str phase \<Longrightarrow> ascii_json token \<Longrightarrow> ascii_json expires_at \<Longrightarrow> ascii_json (JObj (sample_run phase token expires_at))"
  by (simp add: sample_run_def ascii_str_def)

lemma sample_run_id: "payload_id js (sample_run phase token expires_at) = Inr ''01RUN''"
  by (simp add: sample_run_def payload_id_def jitem_def json_to_str_def)

definition sample_claim :: Claim where
  "sample_claim = \<lparr>cl_executor = ''executor'', cl_provider = ''local'', cl_spec_key = ''cpu2'', cl_region = None,
     cl_requested_region = None, cl_ttl_s = 90\<rparr>"

text \<open>A claim on the run at time 1000.\<close>

definition claim_op :: run_op where
  "claim_op = ClaimRun sample_claim ''TOKEN'' 1000"

definition claim_out :: "payload \<Rightarrow> bool res \<times> Repo \<times> Memory shared" where
  "claim_out d = run_op_exec (\<lambda>_. '''') (actions_store (one_hash d) (Some (interfered (memory_backend (one_hash d)))) 5 repo_empty)
     ''01RUN'' claim_op (repo_empty, one_run d, [], [])"

lemma claim_op_for [simp]: "op_for js run claim_op" and claim_op_neq [simp]: "claim_op \<noteq> CancelRun"
  by (simp_all add: claim_op_def)

theorem run_op_follows_lifecycle_witness:
  "list_all (fair_call memory_refs (state_cells (repo_root repo_empty))
      (op_permits (one_hash (sample_run ''pending'' JNull JNull)) (repo_root repo_empty) ''01RUN'' claim_op))
    (final_log (claim_out (sample_run ''pending'' JNull JNull)))"
proof -
  let ?d = "sample_run ''pending'' JNull JNull"
  have a: "ascii_json (JObj ?d)" by (rule sample_run_ascii) (simp_all add: ascii_str_def)
  note ok = one_doc_ok [OF a]
  note t = run_op_follows_lifecycle [where h = "one_hash ?d" and B = "memory_backend (one_hash ?d)" and good = "memory_inv (one_hash ?d)"
      and objs = memory_objs and refs = memory_refs and s = "one_run ?d" and others = "[]" and run = "''01RUN''" and js = "\<lambda>_. ''''"
      and op = claim_op and r = repo_empty and tries = 5 and out = "claim_out ?d"]
  show ?thesis
    unfolding list_all_iff
    by (rule t [THEN conjunct2, THEN conjunct1])
      (simp_all add: memory_cells.backend_cells_axioms ok plain_id_def seen_def sample_run_id claim_out_def)
qed

theorem protected_run_unchanged_witness:
  "memory_refs (final_store (claim_out (sample_run ''running'' (JStr ''MINE'') (JInt 2000))))
      (run_state_ref (repo_root repo_empty) ''01RUN'') =
    memory_refs (one_run (sample_run ''running'' (JStr ''MINE'') (JInt 2000))) (run_state_ref (repo_root repo_empty) ''01RUN'')"
proof -
  let ?d = "sample_run ''running'' (JStr ''MINE'') (JInt 2000)"
  let ?st = "[(''phase'', JStr ''running''), (''token'', JStr ''MINE''), (''expires_at'', JInt 2000), (''attempt'', JInt 1)]"
  have a: "ascii_json (JObj ?d)" by (rule sample_run_ascii) (simp_all add: ascii_str_def)
  note ok = one_doc_ok [OF a]
  have st: "dget ?d ''state'' = JObj ?st" by (simp add: sample_run_def dget_def)
  have pr: "protected ?st claim_op" by (simp add: protected_def claim_op_def dget_def)
  note t = protected_run_unchanged [where h = "one_hash ?d" and B = "memory_backend (one_hash ?d)" and good = "memory_inv (one_hash ?d)"
      and objs = memory_objs and refs = memory_refs and s = "one_run ?d" and others = "[]" and run = "''01RUN''" and js = "\<lambda>_. ''''"
      and op = claim_op and r = repo_empty and tries = 5 and out = "claim_out ?d" and d = ?d and st = ?st
      and x = "from_bytes (one_hash ?d) (doc_bytes ?d)"]
  show ?thesis
    unfolding ok(4)
    by (rule t [THEN conjunct1])
      (simp_all add: memory_cells.backend_cells_axioms ok plain_id_def sample_run_id claim_out_def st pr)
qed

end
