(* ===== verification/Capacity.thy ===== *)
theory Capacity
  imports Cells
begin

text \<open>
  \<^verbatim>\<open>src/trunks/actions/capacity.py\<close>: how many jobs may run at once on machines of one kind in one region.
  A pool has a limit and numbered slots; an executor takes a slot by comparing and swapping its
  reference, extends it while the job runs and deletes it afterwards. The time in seconds and the drawn
  token are arguments. A claim is the document that \<^verbatim>\<open>claim_capacity_slot\<close> returns.

  \<open>claim_slot_sound\<close> says which slots a claim may take and \<open>live_slot_kept\<close> that no claim and no
  heartbeat of another executor takes a slot over while it is live. Releasing a slot is not safe in that
  sense: it reads the slot and then deletes it, and \<open>release_deletes_other_slot\<close> has a run in which
  another executor's slot is deleted.
\<close>

section \<open>The limit\<close>

definition CAPACITY_SCHEMA :: string where
  "CAPACITY_SCHEMA = ''trunks.actions.capacity_limit.v1''"

definition CAPACITY_SNAPSHOT_SCHEMA :: string where
  "CAPACITY_SNAPSHOT_SCHEMA = ''trunks.actions.capacity_snapshot.v1''"

definition set_capacity_limit :: "'s ActionsStore \<Rightarrow> string \<Rightarrow> string \<Rightarrow> string \<Rightarrow> int \<Rightarrow> (Repo \<times> 's, payload) st" where
  "set_capacity_limit A pool region key max_concurrent =
    (if max_concurrent < 0 then raiseS (ValueError ''max_concurrent must be >= 0'')
     else
       let payload = [(''_schema_version'', JStr CAPACITY_SCHEMA), (''object'', JStr ''capacity_limit''), (''pool'', JStr pool),
             (''region'', JStr region), (''spec_key'', JStr key), (''max_concurrent'', JInt max_concurrent)];
           blob = doc_blob (as_hash A) (JObj payload)
       in bindS (as_write_blob A blob) (\<lambda>_.
          bindS (as_set_ref A (capacity_limit_ref pool region key) (blob_id blob)) (\<lambda>_. returnS payload)))"

definition capacity_limit :: "'s ActionsStore \<Rightarrow> string \<Rightarrow> string \<Rightarrow> string \<Rightarrow> (Repo \<times> 's, int option) st" where
  "capacity_limit A pool region key =
    bindS (as_read_ref A (capacity_limit_ref pool region key)) (\<lambda>oid.
    case oid of
      None \<Rightarrow> returnS None
    | Some x \<Rightarrow>
      bindS (as_load A x) (\<lambda>payload.
      case payload of
        JObj d \<Rightarrow> returnS (jint_of (dget d ''max_concurrent''))
      | _ \<Rightarrow> raiseS (AttributeError ''object has no attribute get'')))"

section \<open>Slots\<close>

definition slot_payload :: "'s ActionsStore \<Rightarrow> ObjectId option \<Rightarrow> (Repo \<times> 's, payload option) st" where
  "slot_payload A oid = (case oid of None \<Rightarrow> returnS None | Some x \<Rightarrow> load_payload A x)"

text \<open>\<^verbatim>\<open>payload is not None and int(payload.get("expires_at", 0)) > now\<close>\<close>

definition slot_live :: "int \<Rightarrow> payload option \<Rightarrow> bool res" where
  "slot_live now p =
    (case p of
       None \<Rightarrow> Inr False
     | Some d \<Rightarrow> bindR (jint (dget_or d ''expires_at'' (JInt 0))) (\<lambda>e. Inr (now < e)))"

definition slots_prefix :: "string \<Rightarrow> string \<Rightarrow> string \<Rightarrow> string" where
  "slots_prefix pool region key =
    (case rsplit1 ''/'' (capacity_slot_ref pool region key 0) of
       None \<Rightarrow> capacity_slot_ref pool region key 0 | Some (a, _) \<Rightarrow> a) @ ''/''"

fun live_among :: "'s ActionsStore \<Rightarrow> int \<Rightarrow> (string \<times> ObjectId) list \<Rightarrow> (Repo \<times> 's, payload list) st" where
  "live_among A now [] = returnS []"
| "live_among A now ((name, oid) # refs) =
    bindS (slot_payload A (Some oid)) (\<lambda>p.
    bindS (liftR (slot_live now p)) (\<lambda>live.
    bindS (live_among A now refs) (\<lambda>rest.
    returnS (case p of Some d \<Rightarrow> if live then d # rest else rest | None \<Rightarrow> rest))))"

definition live_slots :: "'s ActionsStore \<Rightarrow> string \<Rightarrow> string \<Rightarrow> string \<Rightarrow> int \<Rightarrow> (Repo \<times> 's, payload list) st" where
  "live_slots A pool region key now = bindS (as_list_refs A (slots_prefix pool region key)) (live_among A now)"

definition capacity_available :: "'s ActionsStore \<Rightarrow> string \<Rightarrow> string \<Rightarrow> string \<Rightarrow> int \<Rightarrow> (Repo \<times> 's, bool) st" where
  "capacity_available A pool region key now =
    bindS (capacity_limit A pool region key) (\<lambda>limit.
    case limit of
      None \<Rightarrow> returnS True
    | Some l \<Rightarrow> bindS (live_slots A pool region key now) (\<lambda>live. returnS (int (length live) < l)))"

definition slot_doc :: "string \<Rightarrow> string \<Rightarrow> string \<Rightarrow> string \<Rightarrow> string \<Rightarrow> int \<Rightarrow> int \<Rightarrow> payload" where
  "slot_doc pool region key owner token expires_at slot =
    [(''_schema_version'', JStr ''trunks.actions.capacity_slot.v1''), (''object'', JStr ''capacity_slot''), (''pool'', JStr pool),
     (''region'', JStr region), (''spec_key'', JStr key), (''slot'', JInt slot), (''owner'', JStr owner), (''token'', JStr token),
     (''expires_at'', JInt expires_at)]"

text \<open>One round of the loop in \<^verbatim>\<open>claim_capacity_slot\<close>: nothing when the slot is live or another client was faster.\<close>

definition try_slot :: "'s ActionsStore \<Rightarrow> string \<Rightarrow> payload \<Rightarrow> int \<Rightarrow> (Repo \<times> 's, payload option) st" where
  "try_slot A ref payload now =
    bindS (as_read_ref A ref) (\<lambda>expected.
    bindS (slot_payload A expected) (\<lambda>current.
    bindS (liftR (slot_live now current)) (\<lambda>live.
    if live then returnS None
    else
      let blob = doc_blob (as_hash A) (JObj payload)
      in bindS (as_write_blob A blob) (\<lambda>_.
         bindS (as_cas_ref A ref expected (blob_id blob)) (\<lambda>swapped.
         returnS (if swapped then Some payload else None))))))"

fun claim_loop :: "'s ActionsStore \<Rightarrow> (int \<Rightarrow> string) \<Rightarrow> (int \<Rightarrow> payload) \<Rightarrow> int \<Rightarrow> int list \<Rightarrow> (Repo \<times> 's, payload option) st" where
  "claim_loop A ref payload now [] = returnS None"
| "claim_loop A ref payload now (slot # slots) =
    bindS (try_slot A (ref slot) (payload slot) now) (\<lambda>p.
    case p of Some d \<Rightarrow> returnS (Some d) | None \<Rightarrow> claim_loop A ref payload now slots)"

definition claim_capacity_slot :: "'s ActionsStore \<Rightarrow> string \<Rightarrow> string \<Rightarrow> string \<Rightarrow> string \<Rightarrow> string \<Rightarrow> int \<Rightarrow> int \<Rightarrow>
    (Repo \<times> 's, payload option) st" where
  "claim_capacity_slot A pool region key owner token ttl_s now =
    bindS (capacity_limit A pool region key) (\<lambda>limit.
    case limit of
      None \<Rightarrow> returnS (Some [(''pool'', JStr pool), (''region'', JStr region), (''spec_key'', JStr key), (''slot'', JNull),
        (''token'', JNull)])
    | Some l \<Rightarrow>
      bindS (live_slots A pool region key now) (\<lambda>live.
      if int (length live) \<ge> l then returnS None
      else claim_loop A (capacity_slot_ref pool region key) (slot_doc pool region key owner token (now + ttl_s)) now [0..l - 1]))"

section \<open>Using and releasing a slot\<close>

text \<open>What release and heartbeat read out of a claim: its pool (the default when it is missing, null or empty), region, key
  and slot.\<close>

definition claim_pool :: "(json \<Rightarrow> string) \<Rightarrow> payload \<Rightarrow> string" where
  "claim_pool js claim =
    (let v = dget claim ''pool''
     in json_to_str js (if v \<in> {JNull, JBool False, JInt 0, JStr [], JList [], JObj []} \<or> json_is_int (Some v) 0 then JStr ''default'' else v))"

definition claim_slot :: "(json \<Rightarrow> string) \<Rightarrow> payload \<Rightarrow> string option" where
  "claim_slot js claim =
    (case (jint_of (dget claim ''slot''), dget claim ''region'', dget claim ''spec_key'') of
       (Some slot, JStr region, JStr key) \<Rightarrow> Some (capacity_slot_ref (claim_pool js claim) region key slot)
     | _ \<Rightarrow> None)"

definition release_capacity_slot :: "(json \<Rightarrow> string) \<Rightarrow> 's ActionsStore \<Rightarrow> payload option \<Rightarrow> (Repo \<times> 's, unit) st" where
  "release_capacity_slot js A claim =
    (case claim of
       None \<Rightarrow> returnS ()
     | Some c \<Rightarrow>
       if c = [] \<or> dget c ''slot'' = JNull then returnS ()
       else case claim_slot js c of
         None \<Rightarrow> returnS ()
       | Some ref \<Rightarrow>
         bindS (as_read_ref A ref) (\<lambda>oid.
         bindS (slot_payload A oid) (\<lambda>payload.
         case payload of
           None \<Rightarrow> returnS ()
         | Some d \<Rightarrow> if dget d ''token'' = dget c ''token'' then as_delete_ref A ref else returnS ())))"

definition heartbeat_capacity_slot :: "(json \<Rightarrow> string) \<Rightarrow> 's ActionsStore \<Rightarrow> payload option \<Rightarrow> int \<Rightarrow> int \<Rightarrow> (Repo \<times> 's, bool) st" where
  "heartbeat_capacity_slot js A claim ttl_s now =
    (case claim of
       None \<Rightarrow> returnS True
     | Some c \<Rightarrow>
       if c = [] \<or> dget c ''slot'' = JNull then returnS True
       else case (claim_slot js c, dget c ''token'') of
         (Some ref, JStr token) \<Rightarrow>
           bindS (as_read_ref A ref) (\<lambda>expected.
           bindS (slot_payload A expected) (\<lambda>payload.
           case payload of
             None \<Rightarrow> returnS False
           | Some d \<Rightarrow>
             if dget d ''token'' \<noteq> JStr token then returnS False
             else
               let blob = doc_blob (as_hash A) (JObj (dmerge d [(''expires_at'', JInt (now + ttl_s))]))
               in bindS (as_write_blob A blob) (\<lambda>_. as_cas_ref A ref expected (blob_id blob))))
       | _ \<Rightarrow> returnS False)"

section \<open>Snapshots\<close>

fun snapshot_refs :: "'s ActionsStore \<Rightarrow> (string \<times> ObjectId) list \<Rightarrow> (Repo \<times> 's, json list \<times> json list) st" where
  "snapshot_refs A [] = returnS ([], [])"
| "snapshot_refs A ((name, oid) # refs) =
    bindS (as_load A oid) (\<lambda>payload.
    bindS (snapshot_refs A refs) (\<lambda>(limits, slots).
    returnS (if endswith name ''/limit'' then (payload # limits, slots)
      else if contains ''/slots/'' name then (limits, payload # slots) else (limits, slots))))"

definition capacity_snapshot :: "'s ActionsStore \<Rightarrow> (Repo \<times> 's, json) st" where
  "capacity_snapshot A =
    bindS (as_list_refs A (capacity_prefix ''default'')) (\<lambda>refs.
    bindS (snapshot_refs A refs) (\<lambda>(limits, slots).
    bindS (list_runs A (Some ''running'') 10000 0) (\<lambda>running.
    returnS (JObj [(''_schema_version'', JStr CAPACITY_SNAPSHOT_SCHEMA), (''object'', JStr ''capacity_snapshot''),
      (''limits'', JList limits), (''slots'', JList slots), (''running'', JList (map JObj running))]))))"

section \<open>Which slots a claim takes\<close>

text \<open>The cells are the references of the slots.\<close>

definition slot_cells :: "string \<Rightarrow> string \<Rightarrow> string \<Rightarrow> string set" where
  "slot_cells pool region key = range (capacity_slot_ref pool region key)"

lemma slot_normal [simp]:
  "normalize_ref (capacity_slot_ref pool region key slot) = capacity_slot_ref pool region key slot"
  "normalize_ref (capacity_limit_ref pool region key) = capacity_limit_ref pool region key"
  by (simp_all add: normalize_ref_def capacity_slot_ref_def capacity_limit_ref_def pool_root_def startswith_iff)

context cell_calls
begin

lemma slot_payload_kept [intro!]: "keeps (kept L) (slot_payload A e)"
  unfolding slot_payload_def by (auto intro!: keeps_cases_option)

lemma capacity_limit_kept [intro!]: "keeps (kept L) (capacity_limit A pool region key)"
  unfolding capacity_limit_def by (intro keeps_bindS store_kept keeps_cases_option keeps_basic) (simp split: json.split)

lemma live_slots_kept [intro!]: "keeps (kept L) (live_slots A pool region key now)"
proof -
  have "keeps (kept L) (live_among A now rs)" for rs
    by (induction rs) (auto intro!: keeps_bindS)
  then show ?thesis unfolding live_slots_def by (intro keeps_bindS store_kept)
qed

lemma try_slot_kept:
  assumes "\<And>e. permitted (normalize_ref ref) e (blob_id (doc_blob h (JObj doc)))"
  shows "keeps (kept L) (try_slot A ref doc now)"
  using assms unfolding try_slot_def Let_def as_cas_ref_def store option.case
  by (intro keeps_bindS keeps_if keeps_basic store_kept slot_payload_kept cas_kept) simp_all

lemma try_slot_moves:
  assumes ok: "\<And>e. permitted (normalize_ref ref) e (blob_id (doc_blob h (JObj doc)))"
    and st: "kept L st" and res: "try_slot A ref doc now st = (Inr (Some p), (r', s', others', log'))"
  shows "p = doc \<and> (\<exists>e. swapped G refs (normalize_ref ref) e (blob_id (doc_blob h (JObj doc))) log')"
proof -
  let ?fin = "(r', s', others', log')" and ?b = "doc_blob h (JObj doc)"
  let ?cas = "\<lambda>e. bindS (as_cas_ref A ref e (blob_id ?b)) (\<lambda>swapped. returnS (if swapped then Some doc else None))"
  obtain e st1 where 1: "kept L st1" "bindS (slot_payload A e) (\<lambda>c. bindS (liftR (slot_live now c)) (\<lambda>live.
       if live then returnS None else bindS (as_write_blob A ?b) (\<lambda>_. ?cas e))) st1 = (Inr (Some p), ?fin)"
    by (rule bindS_keptE [OF res [unfolded try_slot_def Let_def store] store_kept(2) st])
  obtain c st2 where 2: "kept L st2" "bindS (liftR (slot_live now c)) (\<lambda>live.
       if live then returnS None else bindS (as_write_blob A ?b) (\<lambda>_. ?cas e)) st2 = (Inr (Some p), ?fin)"
    by (rule bindS_keptE [OF 1(2) slot_payload_kept 1(1)])
  from 2(2) have b: "bindS (as_write_blob A ?b) (\<lambda>_. ?cas e) st2 = (Inr (Some p), ?fin)"
    by (cases "slot_live now c") (auto simp: bindS_def liftR_def split: if_splits)
  obtain u st3 where 3: "kept L st3" "?cas e st3 = (Inr (Some p), ?fin)"
    by (rule bindS_keptE [OF b store_kept(1) 2(1)])
  then have cas: "as_cas_ref A ref e (blob_id ?b) st3 = (Inr True, ?fin)" and p: "p = doc"
    by (auto simp: bindS_Inr_iff split: if_splits)
  obtain L' where L': "kept L' ?fin" "\<And>log. set L' \<subseteq> set log \<Longrightarrow> swapped G refs (normalize_ref ref) e (blob_id ?b) log"
    by (rule cas_moves [OF 3(1) cas valid_doc_id]) (use ok in auto)
  show ?thesis using p L'(2) [OF guar_log [OF L'(1)]] by blast
qed

lemma claim_loop_kept:
  assumes "\<And>slot. slot \<in> set slots \<Longrightarrow> keeps (kept L) (try_slot A (ref slot) (doc slot) now)"
  shows "keeps (kept L) (claim_loop A ref doc now slots)"
  using assms by (induction slots) (auto intro!: keeps_bindS split: option.split)

lemma claim_loop_moves:
  assumes "\<And>slot e. slot \<in> set slots \<Longrightarrow> permitted (normalize_ref (ref slot)) e (blob_id (doc_blob h (JObj (doc slot))))"
    and "kept L st" and "claim_loop A ref doc now slots st = (Inr (Some p), (r', s', others', log'))"
  shows "\<exists>slot e. slot \<in> set slots \<and> p = doc slot \<and>
    swapped G refs (normalize_ref (ref slot)) e (blob_id (doc_blob h (JObj (doc slot)))) log'"
  using assms
proof (induction slots arbitrary: st)
  case (Cons slot slots)
  have ok: "permitted (normalize_ref (ref slot)) e (blob_id (doc_blob h (JObj (doc slot))))" for e using Cons.prems(1) by simp
  obtain c st1 where 1: "try_slot A (ref slot) (doc slot) now st = (Inr c, st1)" "kept L st1"
    "(case c of Some d \<Rightarrow> returnS (Some d) | None \<Rightarrow> claim_loop A ref doc now slots) st1 = (Inr (Some p), (r', s', others', log'))"
    by (rule bindS_keptE [OF Cons.prems(3) [unfolded claim_loop.simps] try_slot_kept [OF ok] Cons.prems(2)])
  show ?case
  proof (cases c)
    case None
    with 1 Cons.IH [of st1] Cons.prems(1) show ?thesis by force
  next
    case (Some d)
    with 1 have "try_slot A (ref slot) (doc slot) now st = (Inr (Some p), (r', s', others', log'))" by simp
    from try_slot_moves [OF ok Cons.prems(2) this] show ?thesis by auto
  qed
qed simp

end

definition slot_permits :: "hash \<Rightarrow> (int \<Rightarrow> string) \<Rightarrow> (int \<Rightarrow> payload) \<Rightarrow> int \<Rightarrow> string \<Rightarrow> ObjectId option \<Rightarrow> ObjectId \<Rightarrow> bool" where
  "slot_permits h ref doc limit n e y \<longleftrightarrow> (\<exists>slot. 0 \<le> slot \<and> slot < limit \<and> n = ref slot \<and> y = blob_id (doc_blob h (JObj (doc slot))))"

context cell_calls
begin

lemma limit_seen:
  assumes st: "kept L (r, s, others, log)" and res: "capacity_limit A pool region key (r, s, others, log) = (Inr l, st')"
    and x: "refs (seen s others) (capacity_limit_ref pool region key) = Some x"
    and lim: "\<And>d. doc_at h x d \<Longrightarrow> jint_of (dget d ''max_concurrent'') = Some limit"
  shows "l = Some limit"
proof -
  obtain e st1 where 1: "as_read_ref A (capacity_limit_ref pool region key) (r, s, others, log) = (Inr e, st1)" "kept L st1"
    "(case e of None \<Rightarrow> returnS None | Some x \<Rightarrow> bindS (as_load A x) (\<lambda>payload.
      case payload of JObj d \<Rightarrow> returnS (jint_of (dget d ''max_concurrent''))
      | _ \<Rightarrow> raiseS (AttributeError ''object has no attribute get''))) st1 = (Inr l, st')"
    by (rule bindS_keptE [OF res [unfolded capacity_limit_def] store_kept(2) st])
  have e: "e = Some x" using read_ref_seen [OF st 1(1)] x by simp
  from 1(3) obtain v st2 where v: "as_load A x st1 = (Inr v, st2)" "(case v of JObj d \<Rightarrow> returnS (jint_of (dget d ''max_concurrent''))
      | _ \<Rightarrow> raiseS (AttributeError ''object has no attribute get'')) st2 = (Inr l, st')"
    unfolding e option.case bindS_Inr_iff by blast
  then show ?thesis using lim load_doc [OF 1(2)] by (cases v) auto
qed

lemma claim_slot_kept:
  assumes p: "permitted = slot_permits h (capacity_slot_ref pool region key) (slot_doc pool region key owner token (now + ttl_s)) limit"
    and st: "kept L (r, s, others, log)"
    and x: "refs (seen s others) (capacity_limit_ref pool region key) = Some x"
    and lim: "\<And>d. doc_at h x d \<Longrightarrow> jint_of (dget d ''max_concurrent'') = Some limit"
    and out: "claim_capacity_slot A pool region key owner token ttl_s now (r, s, others, log) = (res, (r', s', others', log'))"
  shows "kept L (r', s', others', log') \<and> (\<forall>d. res = Inr (Some d) \<longrightarrow> (\<exists>slot e. 0 \<le> slot \<and> slot < limit \<and>
    d = slot_doc pool region key owner token (now + ttl_s) slot \<and>
    swapped G refs (capacity_slot_ref pool region key slot) e (blob_id (doc_blob h (JObj d))) log'))"
proof -
  let ?ref = "capacity_slot_ref pool region key" and ?doc = "slot_doc pool region key owner token (now + ttl_s)"
  let ?rest = "bindS (live_slots A pool region key now) (\<lambda>live.
    if int (length live) \<ge> limit then returnS None else claim_loop A ?ref ?doc now [0..limit - 1])"
  have ok: "permitted (normalize_ref (?ref slot)) e (blob_id (doc_blob h (JObj (?doc slot))))" if "slot \<in> set [0..limit - 1]" for slot e
    using that unfolding p slot_permits_def by auto
  obtain lr st1 where l: "capacity_limit A pool region key (r, s, others, log) = (lr, st1)"
    by (cases "capacity_limit A pool region key (r, s, others, log)")
  have k1: "kept L st1" using keepsD [OF capacity_limit_kept st, of pool region key] l by simp
  show ?thesis
  proof (cases lr)
    case (Inl e)
    with out l k1 show ?thesis by (auto simp: claim_capacity_slot_def bindS_def)
  next
    case (Inr lim')
    then have "lim' = Some limit" using limit_seen [OF st _ x lim] l by simp
    then have o: "?rest st1 = (res, (r', s', others', log'))" using out l Inr by (simp add: claim_capacity_slot_def bindS_def)
    have loop: "keeps (kept L) (claim_loop A ?ref ?doc now [0..limit - 1])"
      by (intro claim_loop_kept try_slot_kept ok)
    then have rest: "keeps (kept L) ?rest" by (intro keeps_bindS live_slots_kept keeps_if keeps_basic)
    have k: "kept L (r', s', others', log')" using keepsD [OF rest k1] o by simp
    moreover have "\<exists>slot e. 0 \<le> slot \<and> slot < limit \<and> d = ?doc slot \<and>
      swapped G refs (?ref slot) e (blob_id (doc_blob h (JObj d))) log'" if "res = Inr (Some d)" for d
    proof -
      have b: "?rest st1 = (Inr (Some d), (r', s', others', log'))" using o that by simp
      obtain live st2 where "live_slots A pool region key now st1 = (Inr live, st2)" and 2: "kept L st2" "(if int (length live) \<ge> limit then returnS None
          else claim_loop A ?ref ?doc now [0..limit - 1]) st2 = (Inr (Some d), (r', s', others', log'))"
        by (rule bindS_keptE [OF b live_slots_kept k1])
      then have "claim_loop A ?ref ?doc now [0..limit - 1] st2 = (Inr (Some d), (r', s', others', log'))" by (simp split: if_splits)
      from claim_loop_moves [OF ok 2(1) this] show ?thesis by auto
    qed
    ultimately show ?thesis by blast
  qed
qed

text \<open>A slot that the store holds on to: whoever reads it finds its document.\<close>

lemma load_payload_hit:
  assumes "kept L st" and "load_payload A x st = (Inr p, st')" and "doc_at h x d"
    and "\<And>s. G s \<Longrightarrow> x \<in> dom (objs s)" and hit: "\<And>s b. inv s \<Longrightarrow> objs s x = Some b \<Longrightarrow> fst (read_object B x s) = Inr b"
    and one: "\<And>b b'. from_bytes h b = x \<Longrightarrow> from_bytes h b' = x \<Longrightarrow> b = b'"
  shows "p = Some d"
proof -
  obtain r s others log where st: "st = (r, s, others, log)" by (cases st) auto
  have g: "G (seen s others)" "inv (seen s others)" using kept_seen [OF assms(1) [unfolded st]] by auto
  then obtain b where b: "objs (seen s others) x = Some b" using assms(4) by blast
  obtain v st1 where v: "onB (interfere (read_object B x)) st = (v, st1)" by (cases "onB (interfere (read_object B x)) st")
  have "v = Inr b" using interfere_result [OF v [unfolded st]] hit [OF g(2) b] unfolding seen_def by auto
  moreover obtain b' q where q: "from_bytes h b' = x" "parse_canonical_object b' = Inr (''blob'', q)" "is_str q" "loads q = Inr (JObj d)"
    using assms(3) unfolding doc_at_def by blast
  ultimately have "as_load A x st = (Inr (JObj d), st1)"
    using v one [OF q(1) content [OF g(2) b]]
    by (simp add: as_load_def as_read_blob_payload_def store interfered_def bindS_def liftR_def decode_utf8_def)
  then show ?thesis using assms(2) by (simp add: load_payload_def catchS_def bindS_def as_obj_def)
qed

end

interpretation memory_slots: cell_calls h "memory_backend h" "memory_inv h" memory_objs memory_refs
    "actions_store h (Some (interfered (memory_backend h))) tries r" "slot_cells pool region key" permitted "\<lambda>s. digest20 h \<and> memory_inv h s"
  for h tries r pool region key permitted
  by unfold_locales (auto simp: actions_store_def)

interpretation sqlite_slots: cell_calls h "sqlite_backend h od trunk" "sqlite_inv h trunk" "sqlite_objs trunk" "sqlite_refs trunk"
    "actions_store h (Some (interfered (sqlite_backend h od trunk))) tries r" "slot_cells pool region key" permitted
    "\<lambda>s. digest20 h \<and> sqlite_inv h trunk s"
  for h od trunk tries r pool region key permitted
  by unfold_locales (auto simp: actions_store_def)

section \<open>Concurrent executors\<close>

lemma cell_callsI:
  assumes "backend_cells h B good objs refs" and "\<And>s. G s \<Longrightarrow> digest20 h \<and> good s"
    and "\<And>a b. G a \<Longrightarrow> good b \<Longrightarrow> dom (objs a) \<subseteq> dom (objs b) \<Longrightarrow> fair_call refs cells permitted (a, b) \<Longrightarrow> G b"
  shows "cell_calls h B good objs refs (actions_store h (Some (interfered B)) tries r) cells permitted G"
proof (rule cell_calls.intro [OF assms(1)], rule cell_calls_axioms.intro)
  fix a b assume "G a" "good b" "dom (objs a) \<subseteq> dom (objs b)" "fair_call refs cells permitted (a, b)"
  then show "G b" by (rule assms(3))
next
  fix s assume "G s" then show "digest20 h \<and> good s" by (rule assms(2))
qed (simp_all add: actions_store_def)

text \<open>C13: claiming a slot of a pool that has a limit, while other executors change the store between any two store
  calls: every call leaves the slots alone, or it sets one of the slots below the limit to the claim's own
  document. A claim that is granted names a slot below the limit, and one call has set the
  reference of that slot to exactly the document that is returned. The limit is the one in the document that the
  limit's reference names at the first call.\<close>

theorem claim_slot_sound:
  assumes "backend_cells h B good objs refs" and "digest20 h" and "good s" and "\<forall>f \<in> set others. \<forall>t. good t \<longrightarrow> good (f t)"
    and "refs (seen s others) (capacity_limit_ref pool region key) = Some x"
    and "\<forall>d. doc_at h x d \<longrightarrow> jint_of (dget d ''max_concurrent'') = Some limit"
    and "out = claim_capacity_slot (actions_store h (Some (interfered B)) tries r) pool region key owner token ttl_s now (r, s, others, [])"
  shows "good (final_store out) \<and>
    (\<forall>e \<in> set (final_log out). fair_call refs (slot_cells pool region key)
      (slot_permits h (capacity_slot_ref pool region key) (slot_doc pool region key owner token (now + ttl_s)) limit) e) \<and>
    (\<forall>d. fst out = Inr (Some d) \<longrightarrow> (\<exists>slot e. 0 \<le> slot \<and> slot < limit \<and>
      d = slot_doc pool region key owner token (now + ttl_s) slot \<and>
      swapped good refs (capacity_slot_ref pool region key slot) e (blob_id (doc_blob h (JObj d))) (final_log out)))"
proof -
  let ?p = "slot_permits h (capacity_slot_ref pool region key) (slot_doc pool region key owner token (now + ttl_s)) limit"
  let ?A = "actions_store h (Some (interfered B)) tries r" and ?G = "\<lambda>s. digest20 h \<and> good s"
  have c: "cell_calls h B good objs refs ?A (slot_cells pool region key) ?p ?G" using assms(1) by (rule cell_callsI) auto
  obtain res r' s' others' log' where out: "out = (res, r', s', others', log')" by (cases out) auto
  have g: "guar ?G (fair_call refs (slot_cells pool region key) ?p) [] (r, s, others, [])" using assms(2-4) by (simp add: guar_def)
  note k = cell_calls.claim_slot_kept [OF c refl g assms(5) assms(6) [rule_format] trans [OF assms(7) [symmetric] out]]
  have "swapped ?G refs n e y log' \<Longrightarrow> swapped good refs n e y log'" for n e y by (auto simp: swapped_def)
  then have moves: "\<forall>d. fst out = Inr (Some d) \<longrightarrow> (\<exists>slot e. 0 \<le> slot \<and> slot < limit \<and>
      d = slot_doc pool region key owner token (now + ttl_s) slot \<and>
      swapped good refs (capacity_slot_ref pool region key slot) e (blob_id (doc_blob h (JObj d))) (final_log out))"
    using k [THEN conjunct2] unfolding out final_log_def fst_conv prod.case by blast
  from k [THEN conjunct1] have "good (final_store out)"
    "\<forall>e \<in> set (final_log out). fair_call refs (slot_cells pool region key) ?p e"
    unfolding out final_store_def final_log_def guar_def by simp_all
  with moves show ?thesis by blast
qed

text \<open>The operations that may change a slot while it is held, and when a slot with the document \<open>d\<close> is out of their reach:
  it is live at the time of a claim, or a heartbeat comes from a claim with another token.\<close>

datatype slot_op =
    ClaimSlot string string string string string int int
  | HeartbeatSlot payload int int

fun slot_op_exec :: "(json \<Rightarrow> string) \<Rightarrow> 's ActionsStore \<Rightarrow> slot_op \<Rightarrow> (Repo \<times> 's, bool) st" where
  "slot_op_exec js A (ClaimSlot pool region key owner token ttl_s now) =
    bindS (claim_capacity_slot A pool region key owner token ttl_s now) (\<lambda>p. returnS (p \<noteq> None))"
| "slot_op_exec js A (HeartbeatSlot claim ttl_s now) = heartbeat_capacity_slot js A (Some claim) ttl_s now"

fun out_of_reach :: "payload \<Rightarrow> slot_op \<Rightarrow> bool" where
  "out_of_reach d (ClaimSlot pool region key owner token ttl_s now) \<longleftrightarrow> slot_live now (Some d) = Inr True"
| "out_of_reach d (HeartbeatSlot claim ttl_s now) \<longleftrightarrow> dget d ''token'' \<noteq> dget claim ''token''"

context cell_calls
begin

text \<open>Reading a slot that the store keeps at \<open>x\<close> gives its document, whatever other slots an operation goes on with.\<close>

lemma read_slot_kept:
  assumes held: "\<And>s. G s \<Longrightarrow> refs s n = Some x \<and> x \<in> dom (objs s)" and d: "doc_at h x d"
    and hit: "\<And>s b. inv s \<Longrightarrow> objs s x = Some b \<Longrightarrow> fst (read_object B x s) = Inr b"
    and one: "\<And>b b'. from_bytes h b = x \<Longrightarrow> from_bytes h b' = x \<Longrightarrow> b = b'"
    and k: "\<And>e p. (normalize_ref ref = n \<Longrightarrow> e = Some x \<and> p = Some d) \<Longrightarrow> keeps (kept L) (k e p)"
  shows "keeps (kept L) (bindS (as_read_ref A ref) (\<lambda>e. bindS (slot_payload A e) (k e)))"
proof (rule keeps_bindS_result [where Q = "\<lambda>e. normalize_ref ref = n \<longrightarrow> e = Some x"])
  fix st e st' assume "kept L st" "as_read_ref A ref st = (Inr e, st')"
  then show "normalize_ref ref = n \<longrightarrow> e = Some x"
    using read_ref_seen [of L _ _ _ _ ref e st'] held kept_seen [of L] by (cases st) (metis prod_cases4)
next
  fix e assume e: "normalize_ref ref = n \<longrightarrow> e = Some x"
  show "keeps (kept L) (bindS (slot_payload A e) (k e))"
  proof (rule keeps_bindS_result [where Q = "\<lambda>p. normalize_ref ref = n \<longrightarrow> p = Some d"])
    fix st p st' assume "kept L st" "slot_payload A e st = (Inr p, st')"
    then show "normalize_ref ref = n \<longrightarrow> p = Some d"
      using e load_payload_hit [of L st x p st' d] held d hit one by (auto simp: slot_payload_def)
  qed (use e k in auto)
qed auto

lemma slot_op_kept:
  assumes held: "\<And>s. G s \<Longrightarrow> refs s n = Some x \<and> x \<in> dom (objs s)" and d: "doc_at h x d"
    and hit: "\<And>s b. inv s \<Longrightarrow> objs s x = Some b \<Longrightarrow> fst (read_object B x s) = Inr b"
    and one: "\<And>b b'. from_bytes h b = x \<Longrightarrow> from_bytes h b' = x \<Longrightarrow> b = b'"
    and p: "\<And>m e y. permitted m e y \<longleftrightarrow> m \<noteq> n" and "out_of_reach d op"
  shows "keeps (kept L) (slot_op_exec js A op)"
proof (cases op)
  case (ClaimSlot pool region key owner token ttl_s now)
  then have live: "slot_live now (Some d) = Inr True" using assms(6) by simp
  have "keeps (kept L) (try_slot A ref doc now)" for ref doc
    unfolding try_slot_def
  proof (rule read_slot_kept [OF held d hit one])
    fix e q assume *: "normalize_ref ref = n \<Longrightarrow> e = Some x \<and> q = Some d"
    show "keeps (kept L) (bindS (liftR (slot_live now q)) (\<lambda>live. if live then returnS None
      else let blob = doc_blob (as_hash A) (JObj doc) in bindS (as_write_blob A blob) (\<lambda>_.
        bindS (as_cas_ref A ref e (blob_id blob)) (\<lambda>swapped. returnS (if swapped then Some doc else None)))))"
    proof (cases "normalize_ref ref = n")
      case True
      with * live show ?thesis by (simp add: bindS_liftR_Inr)
    next
      case False
      then show ?thesis unfolding Let_def as_cas_ref_def store option.case
        by (intro keeps_bindS keeps_if keeps_basic store_kept cas_kept) (simp_all add: p)
    qed
  qed
  then show ?thesis unfolding ClaimSlot slot_op_exec.simps claim_capacity_slot_def
    by (intro keeps_bindS capacity_limit_kept live_slots_kept keeps_cases_option keeps_if keeps_basic claim_loop_kept)
next
  case (HeartbeatSlot c ttl_s now)
  then have tok: "dget d ''token'' \<noteq> dget c ''token''" using assms(6) by simp
  have "keeps (kept L) (bindS (as_read_ref A ref) (\<lambda>e. bindS (slot_payload A e) (\<lambda>payload.
    case payload of None \<Rightarrow> returnS False
    | Some d \<Rightarrow> if dget d ''token'' \<noteq> JStr token then returnS False
       else let blob = doc_blob (as_hash A) (JObj (dmerge d [(''expires_at'', JInt (now + ttl_s))]))
         in bindS (as_write_blob A blob) (\<lambda>_. as_cas_ref A ref e (blob_id blob)))))"
    if "dget c ''token'' = JStr token" for ref token
  proof (rule read_slot_kept [OF held d hit one])
    fix e q assume *: "normalize_ref ref = n \<Longrightarrow> e = Some x \<and> q = Some d"
    show "keeps (kept L) (case q of None \<Rightarrow> returnS False
      | Some d \<Rightarrow> if dget d ''token'' \<noteq> JStr token then returnS False
         else let blob = doc_blob (as_hash A) (JObj (dmerge d [(''expires_at'', JInt (now + ttl_s))]))
           in bindS (as_write_blob A blob) (\<lambda>_. as_cas_ref A ref e (blob_id blob)))"
    proof (cases "normalize_ref ref = n")
      case True
      with * tok that show ?thesis by simp
    next
      case False
      then show ?thesis unfolding Let_def as_cas_ref_def store option.case
        by (intro keeps_bindS keeps_cases_option keeps_if keeps_basic store_kept cas_kept) (simp_all add: p)
    qed
  qed
  then show ?thesis unfolding HeartbeatSlot slot_op_exec.simps heartbeat_capacity_slot_def option.case prod.case
    by (intro keeps_if keeps_basic) (auto split: option.split json.split)
qed

end

text \<open>C14: a slot that an executor holds stays as it is: while it is live, no claim of another executor takes it, and no heartbeat
  with another token changes it, however the other executors change the rest of the store meanwhile. The store
  has the document of the slot, and no other bytes have its id.\<close>

theorem live_slot_kept:
  assumes "backend_cells h B good objs refs" and "backend h B good objs refs" and "digest20 h"
    and "good s" and "refs s (capacity_slot_ref pool region key slot) = Some x" and "x \<in> dom (objs s)"
    and "\<forall>f \<in> set others. \<forall>t. good t \<and> refs t (capacity_slot_ref pool region key slot) = Some x \<and> x \<in> dom (objs t) \<longrightarrow>
      good (f t) \<and> refs (f t) (capacity_slot_ref pool region key slot) = Some x \<and> x \<in> dom (objs (f t))"
    and "doc_at h x d" and "\<forall>b b'. from_bytes h b = x \<and> from_bytes h b' = x \<longrightarrow> b = b'" and "out_of_reach d op"
  shows "refs (final_store (slot_op_exec js (actions_store h (Some (interfered B)) tries r) op (r, s, others, [])))
    (capacity_slot_ref pool region key slot) = Some x"
proof -
  let ?A = "actions_store h (Some (interfered B)) tries r" and ?n = "capacity_slot_ref pool region key slot"
  let ?G = "\<lambda>s. digest20 h \<and> good s \<and> refs s ?n = Some x \<and> x \<in> dom (objs s)" and ?p = "\<lambda>m e y. m \<noteq> ?n"
  have c: "cell_calls h B good objs refs ?A {?n} ?p ?G" using assms(1)
  proof (rule cell_callsI)
    fix a b assume "?G a" "good b" "dom (objs a) \<subseteq> dom (objs b)" "fair_call refs {?n} ?p (a, b)"
    then show "?G b" by (auto simp: fair_call_def)
  qed simp
  have "guar ?G (fair_call refs {?n} ?p) [] (r, s, others, [])" using assms(3-7) by (simp add: guar_def)
  moreover have "keeps (guar ?G (fair_call refs {?n} ?p) []) (slot_op_exec js ?A op)"
  proof (rule cell_calls.slot_op_kept [OF c _ assms(8) _ _ _ assms(10)])
    show "fst (read_object B x s) = Inr b" if "good s" "objs s x = Some b" for s b
      using assms(2) that by (rule backend.read_hit)
  qed (use assms(9) in auto)
  ultimately have "guar ?G (fair_call refs {?n} ?p) [] (snd (slot_op_exec js ?A op (r, s, others, [])))" by (rule keepsD [rotated])
  then show ?thesis by (auto simp: guar_def final_store_def split: prod.splits)
qed

section \<open>Instances\<close>

text \<open>A pool with two slots, and one with a slot that is held until 2000.\<close>

definition two_slots :: payload where
  "two_slots = [(''max_concurrent'', JInt 2)]"

definition held_slot :: payload where
  "held_slot = [(''slot'', JInt 0), (''region'', JStr ''eu''), (''spec_key'', JStr ''cpu2''), (''token'', JStr ''MINE''), (''expires_at'', JInt 2000)]"

lemma samples_ascii: "ascii_json (JObj two_slots)" "ascii_json (JObj held_slot)"
  by (simp_all add: two_slots_def held_slot_def ascii_str_def)

definition claim_two_slots :: "payload option res \<times> Repo \<times> Memory shared" where
  "claim_two_slots = claim_capacity_slot (actions_store (one_hash two_slots) (Some (interfered (memory_backend (one_hash two_slots)))) 5 repo_empty)
     ''default'' ''eu'' ''cpu2'' ''executor'' ''TOKEN'' 90 1000
     (repo_empty, one_doc (capacity_limit_ref ''default'' ''eu'' ''cpu2'') two_slots, [], [])"

theorem claim_slot_sound_witness:
  "list_all (fair_call memory_refs (slot_cells ''default'' ''eu'' ''cpu2'')
      (slot_permits (one_hash two_slots) (capacity_slot_ref ''default'' ''eu'' ''cpu2'')
        (slot_doc ''default'' ''eu'' ''cpu2'' ''executor'' ''TOKEN'' (1000 + 90)) 2)) (final_log claim_two_slots)"
proof -
  let ?h = "one_hash two_slots"
  note ok = one_doc_ok [OF samples_ascii(1)]
  have limit: "jint_of (dget two_slots ''max_concurrent'') = Some 2" by code_simp
  note t = claim_slot_sound [where h = ?h and B = "memory_backend ?h" and good = "memory_inv ?h" and objs = memory_objs and refs = memory_refs
      and s = "one_doc (capacity_limit_ref ''default'' ''eu'' ''cpu2'') two_slots" and others = "[]" and pool = "''default''"
      and region = "''eu''" and key = "''cpu2''" and owner = "''executor''" and token = "''TOKEN''" and ttl_s = 90 and now = 1000
      and limit = 2 and x = "from_bytes ?h (doc_bytes two_slots)" and r = repo_empty and tries = 5 and out = claim_two_slots]
  show ?thesis
    unfolding list_all_iff
    by (rule t [THEN conjunct2, THEN conjunct1])
      (simp_all add: memory_cells.backend_cells_axioms ok seen_def claim_two_slots_def limit)
qed

theorem live_slot_kept_witness:
  "memory_refs (final_store (slot_op_exec (\<lambda>_. '''') (actions_store (one_hash held_slot)
      (Some (interfered (memory_backend (one_hash held_slot)))) 5 repo_empty) (ClaimSlot ''default'' ''eu'' ''cpu2'' ''other'' ''THEIRS'' 90 1000)
      (repo_empty, one_doc (capacity_slot_ref ''default'' ''eu'' ''cpu2'' 0) held_slot, [], [])))
    (capacity_slot_ref ''default'' ''eu'' ''cpu2'' 0) = Some (from_bytes (one_hash held_slot) (doc_bytes held_slot))"
proof -
  let ?h = "one_hash held_slot"
  note ok = one_doc_ok [OF samples_ascii(2)]
  have one: "\<forall>b b'. from_bytes ?h b = from_bytes ?h (doc_bytes held_slot) \<and> from_bytes ?h b' = from_bytes ?h (doc_bytes held_slot) \<longrightarrow> b = b'"
    unfolding one_hash_eq by simp
  have live: "slot_live 1000 (Some held_slot) = Inr True" by code_simp
  show ?thesis
    by (rule live_slot_kept [where h = ?h and B = "memory_backend ?h" and good = "memory_inv ?h" and objs = memory_objs and d = held_slot,
        OF _ _ _ _ _ _ _ _ one])
      (simp_all add: memory_cells.backend_cells_axioms memory.backend_axioms ok live)
qed

text \<open>Releasing a slot reads it and then deletes it. When the lease has run out and another executor takes the slot between
  the two calls, its slot is deleted.\<close>

definition steal :: "Memory \<Rightarrow> Memory" where
  "steal s = s\<lparr>m_refs := [(capacity_slot_ref ''default'' ''eu'' ''cpu2'' 0,
     from_bytes (one_hash held_slot) (doc_bytes (AList.update ''token'' (JStr ''THEIRS'') held_slot)))]\<rparr>"

theorem release_deletes_other_slot:
  "memory_refs (steal s) (capacity_slot_ref ''default'' ''eu'' ''cpu2'' 0) \<noteq> None \<and>
   memory_refs (final_store (release_capacity_slot (\<lambda>_. '''') (actions_store (one_hash held_slot)
      (Some (interfered (memory_backend (one_hash held_slot)))) 5 repo_empty) (Some held_slot)
      (repo_empty, one_doc (capacity_slot_ref ''default'' ''eu'' ''cpu2'' 0) held_slot, [\<lambda>s. s, \<lambda>s. s, steal], [])))
    (capacity_slot_ref ''default'' ''eu'' ''cpu2'' 0) = None"
proof
  show "memory_refs (steal s) (capacity_slot_ref ''default'' ''eu'' ''cpu2'' 0) \<noteq> None" by (simp add: steal_def)
next
  have slot: "claim_slot (\<lambda>_. '''') held_slot = Some (capacity_slot_ref ''default'' ''eu'' ''cpu2'' 0)" "dget held_slot ''slot'' \<noteq> JNull" "held_slot \<noteq> []"
    by code_simp+
  show "memory_refs (final_store (release_capacity_slot (\<lambda>_. '''') (actions_store (one_hash held_slot)
      (Some (interfered (memory_backend (one_hash held_slot)))) 5 repo_empty) (Some held_slot)
      (repo_empty, one_doc (capacity_slot_ref ''default'' ''eu'' ''cpu2'' 0) held_slot, [\<lambda>s. s, \<lambda>s. s, steal], [])))
    (capacity_slot_ref ''default'' ''eu'' ''cpu2'' 0) = None"
    using slot doc_bytes_parse [OF samples_ascii(2)]
    by (simp add: release_capacity_slot_def as_read_ref_def slot_payload_def load_payload_def as_load_def as_read_blob_payload_def
        as_delete_ref_def actions_store_def interfered_def interfere_def onB_def bindS_def catchS_def liftR_def returnS_def Let_def
        memory_backend_def memory_read_ref_def memory_read_object_def memory_delete_ref_def one_doc_def memory_init_def
        decode_utf8_def as_obj_def final_store_def steal_def)
qed

end
