(* ===== verification/ActionQueue.thy ===== *)
theory ActionQueue
  imports Cells RepoGraph Segment Memory
begin

text \<open>
  How runs get into the queue: \<^verbatim>\<open>enqueue_command\<close> (\<^verbatim>\<open>src/trunks/actions/run.py\<close>), \<^verbatim>\<open>enqueue_workflow\<close> and the documents of
  workflow runs (\<^verbatim>\<open>src/trunks/actions/workflow.py\<close>), and the workflows that a push starts
  (\<^verbatim>\<open>src/trunks/actions/triggers.py\<close>). Drawn ids are arguments, for a workflow a function that gives the \<open>k\<close>-th id
  drawn; \<open>machine\<close> is what \<^verbatim>\<open>os.uname\<close> says and the system is one with POSIX shells.

  The loop that checks the closure of a commit takes at most \<open>n\<close> steps; \<open>closure_decided\<close> says how many are enough,
  and that the check then succeeds exactly when every object that the commit reaches is stored and
  well-formed.
\<close>

section \<open>The closure of a commit\<close>

text \<open>\<^verbatim>\<open>stack\<close> has its top first.\<close>

fun closure_loop :: "'s ActionsStore \<Rightarrow> nat \<Rightarrow> ObjectId list \<Rightarrow> ObjectId list \<Rightarrow> (Repo \<times> 's, unit) st" where
  "closure_loop A n [] visited = returnS ()"
| "closure_loop A 0 (oid # stack) visited = raiseS (RuntimeError ''stack not empty'')"
| "closure_loop A (Suc n) (oid # stack) visited =
    (if oid \<in> set visited then closure_loop A n stack visited
     else
       bindS (catchS (bindS (as_read_object A oid) (\<lambda>data. bindS (liftR (parse_canonical_object data)) (\<lambda>_. returnS data)))
         (\<lambda>_. raiseS (ValueError (''commit closure not in storage: missing '' @ oid_value oid)))) (\<lambda>data.
       bindS (liftR (object_links (as_hash A) oid data)) (\<lambda>links.
       closure_loop A n (rev links @ stack) (oid # visited))))"

definition ensure_commit_closure :: "'s ActionsStore \<Rightarrow> nat \<Rightarrow> string \<Rightarrow> (Repo \<times> 's, unit) st" where
  "ensure_commit_closure A n commit =
    (if commit = ''worktree'' then returnS ()
     else case mk_ObjectId commit of
       Inl _ \<Rightarrow> raiseS (ValueError (''invalid commit oid for distributed action: '' @ commit))
     | Inr root \<Rightarrow> closure_loop A n [root] [])"

section \<open>Enqueuing a command\<close>

definition default_spec :: "string \<Rightarrow> Spec res" where
  "default_spec machine = mk_Spec 2 7 14 (host_arch machine) None ''default''"

definition command_argv :: "string + string list \<Rightarrow> string list" where
  "command_argv command = (case command of Inr argv \<Rightarrow> argv | Inl c \<Rightarrow> [''/bin/sh'', ''-lc'', c])"

definition capabilities_for_isolation :: "string \<Rightarrow> string \<Rightarrow> string set" where
  "capabilities_for_isolation host isolation =
    (if isolation = ''container'' then {''linux'', ''container''}
     else if isolation \<in> {''microvm'', ''vm''} then {''linux''} else {host})"

text \<open>The keyword arguments.\<close>

record Enqueue =
  eq_commit :: string
  eq_timeout_s :: int
  eq_provider_id :: "string option"
  eq_strict_provider :: bool
  eq_region :: "string option"
  eq_spec :: "Spec option"
  eq_artifact_paths :: "string list"
  eq_isolation :: string

definition pending_run :: "string \<Rightarrow> string list \<Rightarrow> Enqueue \<Rightarrow> Spec \<Rightarrow> Run" where
  "pending_run run argv q spec = \<lparr>run_id = run, run_commit = eq_commit q, run_command = argv, run_spec = spec,
     run_timeout_s = eq_timeout_s q, run_isolation = eq_isolation q, run_provider_id = eq_provider_id q,
     run_strict_provider = eq_strict_provider q, run_artifact_paths = eq_artifact_paths q,
     run_state = \<lparr>rs_phase = ''pending'', rs_token = None, rs_expires_at = None, rs_result_oid = None, rs_attempt = 0,
       rs_executor = None, rs_provider = None, rs_spec_key = spec_key spec, rs_requested_region = eq_region q, rs_region = None\<rparr>,
     run_logs = [], run_result = None, run_artifacts = []\<rparr>"

definition enqueue_command :: "(json \<Rightarrow> string) \<Rightarrow> 's ActionsStore \<Rightarrow> nat \<Rightarrow> string \<Rightarrow> string \<Rightarrow> string + string list \<Rightarrow> Enqueue \<Rightarrow>
    (Repo \<times> 's, Run) st" where
  "enqueue_command js A n machine fresh command q =
    bindS (ensure_commit_closure A n (eq_commit q)) (\<lambda>_.
    bindS (liftR (case eq_spec q of Some s \<Rightarrow> Inr s | None \<Rightarrow> default_spec machine)) (\<lambda>spec.
    let run = pending_run fresh (command_argv command) q spec
    in bindS (persist_run js A run) (\<lambda>_. returnS run)))"

section \<open>Documents of workflow runs\<close>

definition jattr :: "json \<Rightarrow> payload res" where
  "jattr v = (case v of JObj d \<Rightarrow> Inr d | _ \<Rightarrow> Inl (AttributeError ''object has no attribute get''))"

definition drop_old_status :: "'s ActionsStore \<Rightarrow> string \<Rightarrow> string \<Rightarrow> ObjectId option \<Rightarrow> (Repo \<times> 's, unit) st" where
  "drop_old_status A wrun phase previous =
    (case previous of
       None \<Rightarrow> returnS ()
     | Some x \<Rightarrow>
       bindS (as_load A x) (\<lambda>v.
       bindS (liftR (jattr v)) (\<lambda>d.
       case dget d ''phase'' of
         JStr p \<Rightarrow> if p \<noteq> phase then as_delete_ref A (workflow_run_index_by_status_prefix (as_root A) (Some p) @ wrun) else returnS ()
       | _ \<Rightarrow> returnS ())))"

definition persist_workflow_run :: "(json \<Rightarrow> string) \<Rightarrow> 's ActionsStore \<Rightarrow> payload \<Rightarrow> (Repo \<times> 's, unit) st" where
  "persist_workflow_run js A d =
    (let blob = doc_blob (as_hash A) (JObj d)
     in bindS (as_write_blob A blob) (\<lambda>_.
        bindS (liftR (payload_id js d)) (\<lambda>wrun.
        bindS (liftR (bindR (jitem (JObj d) ''phase'') (\<lambda>v. Inr (json_to_str js v)))) (\<lambda>phase.
        bindS (as_read_ref A (workflow_run_state_ref (as_root A) wrun)) (\<lambda>previous.
        bindS (drop_old_status A wrun phase previous) (\<lambda>_.
        bindS (as_set_ref A (workflow_run_state_ref (as_root A) wrun) (blob_id blob)) (\<lambda>_.
        bindS (as_set_ref A (workflow_run_index_by_repo_prefix (as_root A) @ wrun) (blob_id blob)) (\<lambda>_.
        as_set_ref A (workflow_run_index_by_status_prefix (as_root A) (Some phase) @ wrun) (blob_id blob)))))))))"

definition persist_workflow_job_pointer :: "'s ActionsStore \<Rightarrow> string \<Rightarrow> string \<Rightarrow> string \<Rightarrow> nat \<Rightarrow> (Repo \<times> 's, unit) st" where
  "persist_workflow_job_pointer A wrun job run index =
    (let blob = blob_from_data (as_hash A) (dumps spaced (sort_keys (JObj
           [(''job'', JStr job), (''run'', JStr run), (''matrix_index'', JInt (int index))])))
     in bindS (as_write_blob A blob) (\<lambda>_. as_set_ref A (workflow_run_job_ref (as_root A) wrun job index) (blob_id blob)))"

definition load_workflow_run :: "'s ActionsStore \<Rightarrow> string \<Rightarrow> (Repo \<times> 's, json) st" where
  "load_workflow_run A wrun =
    bindS (as_read_ref A (workflow_run_state_ref (as_root A) wrun)) (\<lambda>oid.
    case oid of None \<Rightarrow> raiseS (KeyError (''unknown workflow run '' @ repr_str wrun)) | Some x \<Rightarrow> as_load A x)"

definition list_workflow_runs :: "'s ActionsStore \<Rightarrow> string option \<Rightarrow> nat \<Rightarrow> nat \<Rightarrow> (Repo \<times> 's, json list) st" where
  "list_workflow_runs A status limit offset =
    bindS (as_list_refs A (case truthy status of
        Some s \<Rightarrow> workflow_run_index_by_status_prefix (as_root A) (Some s)
      | None \<Rightarrow> workflow_run_index_by_repo_prefix (as_root A))) (\<lambda>refs.
    mapS (\<lambda>(_, oid). as_load A oid) (take limit (drop offset (rev (sort_key fst refs)))))"

definition workflow_run_jobs :: "'s ActionsStore \<Rightarrow> string \<Rightarrow> (Repo \<times> 's, json list) st" where
  "workflow_run_jobs A wrun =
    bindS (load_workflow_run A wrun) (\<lambda>v.
    bindS (liftR (jattr v)) (\<lambda>d. returnS (case dget d ''jobs'' of JList js \<Rightarrow> js | _ \<Rightarrow> [])))"

definition job_edges :: "(json \<Rightarrow> string) \<Rightarrow> json \<Rightarrow> (string \<times> string) list" where
  "job_edges js job =
    (case (dget (as_dict job) ''id'', dget (as_dict job) ''needs'') of
       (JStr i, JList needs) \<Rightarrow> map (\<lambda>need. (json_to_str js need, i)) needs
     | _ \<Rightarrow> [])"

definition workflow_run_graph :: "(json \<Rightarrow> string) \<Rightarrow> 's ActionsStore \<Rightarrow> string \<Rightarrow> (Repo \<times> 's, (string \<times> string) list) st" where
  "workflow_run_graph js A wrun =
    bindS (load_workflow_run A wrun) (\<lambda>v.
    bindS (liftR (jattr v)) (\<lambda>d.
    returnS (case dget (as_dict (dget d ''workflow'')) ''jobs'' of JList jobs \<Rightarrow> concat (map (job_edges js) jobs) | _ \<Rightarrow> [])))"

fun logs_of_jobs :: "'s ActionsStore \<Rightarrow> json list \<Rightarrow> (Repo \<times> 's, payload list) st" where
  "logs_of_jobs A [] = returnS []"
| "logs_of_jobs A (job # jobs) =
    (case dget (as_dict job) ''run'' of
       JStr run \<Rightarrow>
         bindS (load_run A run) (\<lambda>v.
         bindS (liftR (jattr v)) (\<lambda>d.
         bindS (logs_of_jobs A jobs) (\<lambda>rest.
         returnS ((case dget d ''logs'' of
            JList items \<Rightarrow> map (\<lambda>l. dmerge l [(''job'', dget (as_dict job) ''job''), (''run'', JStr run)]) (dict_items items)
          | _ \<Rightarrow> []) @ rest))))
     | _ \<Rightarrow> logs_of_jobs A jobs)"

definition workflow_run_logs :: "'s ActionsStore \<Rightarrow> string \<Rightarrow> (Repo \<times> 's, payload list) st" where
  "workflow_run_logs A wrun = bindS (workflow_run_jobs A wrun) (logs_of_jobs A)"

definition mark_job :: "string \<Rightarrow> string \<Rightarrow> json \<Rightarrow> json" where
  "mark_job run phase job =
    (case job of
       JObj j \<Rightarrow> if dget j ''run'' = JStr run then JObj (AList.update ''phase'' (JStr phase) j) else job
     | _ \<Rightarrow> job)"

definition has_job :: "string \<Rightarrow> json \<Rightarrow> bool" where
  "has_job run job = (case job of JObj j \<Rightarrow> dget j ''run'' = JStr run | _ \<Rightarrow> False)"

definition refresh_one :: "(json \<Rightarrow> string) \<Rightarrow> 's ActionsStore \<Rightarrow> string \<Rightarrow> string \<Rightarrow> json \<Rightarrow> (Repo \<times> 's, unit) st" where
  "refresh_one js A run phase wrun =
    bindS (liftR (jattr wrun)) (\<lambda>d.
    case dget d ''jobs'' of
      JList jobs \<Rightarrow>
        if \<not> list_ex (has_job run) jobs then returnS ()
        else
          let next_jobs = map (mark_job run phase) jobs
          in persist_workflow_run js A (dmerge d [(''jobs'', JList next_jobs), (''phase'', JStr (workflow_phase next_jobs))])
    | _ \<Rightarrow> returnS ())"

definition refresh_workflow_runs_for_action_run :: "(json \<Rightarrow> string) \<Rightarrow> 's ActionsStore \<Rightarrow> payload \<Rightarrow> (Repo \<times> 's, unit) st" where
  "refresh_workflow_runs_for_action_run js A d =
    (case (dget d ''id'', dget d ''state'') of
       (JStr run, JObj st) \<Rightarrow>
         (case dget st ''phase'' of
            JStr phase \<Rightarrow> bindS (list_workflow_runs A None 1000 0) (iterS (refresh_one js A run phase))
          | _ \<Rightarrow> returnS ())
     | _ \<Rightarrow> returnS ())"

section \<open>Enqueuing a workflow\<close>

definition matrix_rows :: "WorkflowJob \<Rightarrow> (nat \<times> (string, json) dict) list" where
  "matrix_rows job = List.enumerate 0 (if wj_matrix job = [] then [[]] else wj_matrix job)"

definition planned :: "WorkflowJob list list \<Rightarrow> (WorkflowJob \<times> nat \<times> (string, json) dict) list" where
  "planned sts = concat (map (\<lambda>stage. concat (map (\<lambda>job. map (\<lambda>row. (job, row)) (matrix_rows job)) stage)) sts)"

definition job_entry :: "WorkflowJob \<Rightarrow> nat \<Rightarrow> (string, json) dict \<Rightarrow> string \<Rightarrow> string \<Rightarrow> json" where
  "job_entry job index variables run phase = JObj
    [(''job'', JStr (wj_id job)), (''name'', JStr (wj_name job)), (''matrix_index'', JInt (int index)), (''matrix'', JObj variables),
     (''run'', JStr run), (''phase'', JStr phase)]"

definition job_context :: "string \<Rightarrow> string \<Rightarrow> string \<Rightarrow> WorkflowJob \<Rightarrow> (string, string) dict" where
  "job_context commit wrun wname job =
    [(''github.sha'', commit), (''github.run_id'', wrun), (''github.workflow'', wname), (''github.job'', wj_id job)]"

definition job_enqueue :: "(json \<Rightarrow> string) \<Rightarrow> string \<Rightarrow> WorkflowJob \<Rightarrow> (string, json) dict \<Rightarrow> Enqueue" where
  "job_enqueue js commit job variables = \<lparr>eq_commit = commit, eq_timeout_s = wj_timeout_s job, eq_provider_id = wj_provider_id job,
     eq_strict_provider = wj_strict_provider job, eq_region = wj_region job, eq_spec = Some (wj_spec job),
     eq_artifact_paths = job_artifacts js variables job, eq_isolation = wj_isolation job\<rparr>"

fun enqueue_jobs :: "(json \<Rightarrow> string) \<Rightarrow> 's ActionsStore \<Rightarrow> nat \<Rightarrow> string \<Rightarrow> (nat \<Rightarrow> string) \<Rightarrow> string \<Rightarrow> string \<Rightarrow> string \<Rightarrow> nat \<Rightarrow>
    (WorkflowJob \<times> nat \<times> (string, json) dict) list \<Rightarrow> (Repo \<times> 's, json list) st" where
  "enqueue_jobs js A n machine fresh commit wrun wname k [] = returnS []"
| "enqueue_jobs js A n machine fresh commit wrun wname k ((job, index, variables) # rest) =
    bindS (enqueue_command js A n machine (fresh k) (Inl (job_command js variables (job_context commit wrun wname job) job))
      (job_enqueue js commit job variables)) (\<lambda>run.
    bindS (persist_workflow_job_pointer A wrun (wj_id job) (run_id run) index) (\<lambda>_.
    bindS (enqueue_jobs js A n machine fresh commit wrun wname (Suc k) rest) (\<lambda>entries.
    returnS (job_entry job index variables (run_id run) ''pending'' # entries))))"

definition workflow_run_doc :: "string \<Rightarrow> Workflow \<Rightarrow> string \<Rightarrow> string \<Rightarrow> json list \<Rightarrow> payload" where
  "workflow_run_doc wrun w commit phase entries =
    [(''_schema_version'', JStr ''trunks.actions.workflow_run.v1''), (''object'', JStr ''workflow_run''), (''id'', JStr wrun),
     (''workflow'', workflow_to_dict w), (''commit'', JStr commit), (''phase'', JStr phase), (''jobs'', JList entries)]"

definition enqueue_workflow :: "(string \<Rightarrow> string + json) \<Rightarrow> (json \<Rightarrow> string) \<Rightarrow> 's ActionsStore \<Rightarrow> nat \<Rightarrow> string \<Rightarrow> (nat \<Rightarrow> string) \<Rightarrow>
    string \<Rightarrow> (string, bytes) dict \<Rightarrow> string option \<Rightarrow> string \<Rightarrow> (Repo \<times> 's, payload) st" where
  "enqueue_workflow yaml js A n machine fresh root fs workflow commit =
    bindS (liftR (load_workflows yaml js machine root False False fs)) (\<lambda>workflows.
    bindS (liftR (select_workflow workflows workflow)) (\<lambda>selected.
    bindS (liftR (stages (wf_jobs selected))) (\<lambda>sts.
    bindS (enqueue_jobs js A n machine fresh commit (fresh 0) (wf_name selected) 1 (planned sts)) (\<lambda>entries.
    let d = workflow_run_doc (fresh 0) selected commit ''pending'' entries
    in bindS (persist_workflow_run js A d) (\<lambda>_. returnS d)))))"

section \<open>Triggers\<close>

definition tree_map :: "IndexEntry list \<Rightarrow> (string, ObjectId) dict" where
  "tree_map es = foldl (\<lambda>d e. AList.update (ie_path e) (ie_oid e) d) [] es"

definition changed_paths :: "(string, ObjectId) dict \<Rightarrow> (string, ObjectId) dict \<Rightarrow> string list" where
  "changed_paths current parent = sort (remdups
    (filter (\<lambda>p. map_of parent p = None \<or> map_of parent p \<noteq> map_of current p) (map fst current) @
     filter (\<lambda>p. map_of current p = None) (map fst parent)))"

definition changed_files :: "hash \<Rightarrow> nat \<Rightarrow> string \<Rightarrow> Repo \<Rightarrow> string list res" where
  "changed_files h limit commit r =
    (case repo_load_commit (ObjectId commit) r of
       Inl _ \<Rightarrow> Inr []
     | Inr c \<Rightarrow>
       bindR (repo_flatten_tree h limit (c_tree c) [] r) (\<lambda>es.
       case c_parents c of
         [] \<Rightarrow> Inr (sort (map fst (tree_map es)))
       | p # _ \<Rightarrow>
         (case repo_load_commit p r of
            Inl _ \<Rightarrow> Inr (sort (map fst (tree_map es)))
          | Inr parent \<Rightarrow>
            bindR (repo_flatten_tree h limit (c_tree parent) [] r) (\<lambda>ps.
            Inr (changed_paths (tree_map es) (tree_map ps))))))"

text \<open>The loops over the workflows of a push and of a pull request; the \<open>i\<close>-th workflow draws its ids with \<open>fresh i\<close>.\<close>

fun start_workflows :: "(Workflow \<Rightarrow> bool) \<Rightarrow> (nat \<Rightarrow> string \<Rightarrow> (Repo \<times> 's, payload) st) \<Rightarrow> nat \<Rightarrow> Workflow list \<Rightarrow> (Repo \<times> 's, payload list) st" where
  "start_workflows wanted enqueue i [] = returnS []"
| "start_workflows wanted enqueue i (w # rest) =
    (if \<not> wanted w then start_workflows wanted enqueue (Suc i) rest
     else bindS (enqueue i (wf_path w)) (\<lambda>d. bindS (start_workflows wanted enqueue (Suc i) rest) (\<lambda>ds. returnS (d # ds))))"

definition wants_push :: "string \<Rightarrow> string option \<Rightarrow> string list \<Rightarrow> Workflow \<Rightarrow> bool" where
  "wants_push branch tag changed w =
    (case map_of (wf_triggers w) ''push'' of None \<Rightarrow> False | Some f \<Rightarrow> push_trigger_matches f branch changed tag)"

definition wants_pull_request :: "string \<Rightarrow> string \<Rightarrow> string list \<Rightarrow> Workflow \<Rightarrow> bool" where
  "wants_pull_request branch event changed w =
    (case map_of (wf_triggers w) ''pull_request'' of None \<Rightarrow> False | Some f \<Rightarrow> pull_request_trigger_matches f branch changed event)"

definition run_push_workflows :: "(string \<Rightarrow> string + json) \<Rightarrow> (json \<Rightarrow> string) \<Rightarrow> 's ActionsStore \<Rightarrow> nat \<Rightarrow> nat \<Rightarrow> string \<Rightarrow> (nat \<Rightarrow> nat \<Rightarrow> string) \<Rightarrow>
    string \<Rightarrow> (string, bytes) dict \<Rightarrow> string \<Rightarrow> string option \<Rightarrow> string option \<Rightarrow> (Repo \<times> 's, payload list) st" where
  "run_push_workflows yaml js A limit n machine fresh root fs commit branch tag =
    bindS (liftR (load_workflows yaml js machine root False False fs)) (\<lambda>workflows.
    bindS (onR (getsS (\<lambda>r. Inr (case branch of Some b \<Rightarrow> b | None \<Rightarrow> repo_current_branch r)))) (\<lambda>b.
    bindS (onR (getsS (changed_files (as_hash A) limit commit))) (\<lambda>changed.
    start_workflows (wants_push b tag changed)
      (\<lambda>i path. enqueue_workflow yaml js A n machine (fresh i) root fs (Some path) commit) 0 workflows)))"

definition run_pull_request_workflows :: "(string \<Rightarrow> string + json) \<Rightarrow> (json \<Rightarrow> string) \<Rightarrow> 's ActionsStore \<Rightarrow> nat \<Rightarrow> nat \<Rightarrow> string \<Rightarrow> (nat \<Rightarrow> nat \<Rightarrow> string) \<Rightarrow>
    string \<Rightarrow> (string, bytes) dict \<Rightarrow> string \<Rightarrow> string \<Rightarrow> string list option \<Rightarrow> string \<Rightarrow> (Repo \<times> 's, payload list) st" where
  "run_pull_request_workflows yaml js A limit n machine fresh root fs commit branch files event =
    bindS (liftR (load_workflows yaml js machine root False False fs)) (\<lambda>workflows.
    bindS (case files of Some fl \<Rightarrow> returnS fl | None \<Rightarrow> onR (getsS (changed_files (as_hash A) limit commit))) (\<lambda>changed.
    start_workflows (wants_pull_request branch event changed)
      (\<lambda>i path. enqueue_workflow yaml js A n machine (fresh i) root fs (Some path) commit) 0 workflows))"


section \<open>The closure check decides\<close>

text \<open>What a stored object refers to, whether it is there and well-formed, and what a commit reaches.\<close>

definition obj_links :: "hash \<Rightarrow> (ObjectId \<Rightarrow> bytes option) \<Rightarrow> ObjectId \<Rightarrow> ObjectId list" where
  "obj_links h objs x = (case objs x of None \<Rightarrow> [] | Some d \<Rightarrow> (case object_links h x d of Inl _ \<Rightarrow> [] | Inr l \<Rightarrow> l))"

definition whole :: "hash \<Rightarrow> (ObjectId \<Rightarrow> bytes option) \<Rightarrow> ObjectId \<Rightarrow> bool" where
  "whole h objs x \<longleftrightarrow> (case objs x of None \<Rightarrow> False | Some d \<Rightarrow> ok (object_links h x d))"

inductive from_root :: "hash \<Rightarrow> (ObjectId \<Rightarrow> bytes option) \<Rightarrow> ObjectId \<Rightarrow> ObjectId \<Rightarrow> bool" for h objs c where
  root: "from_root h objs c c"
| link: "from_root h objs c x \<Longrightarrow> y \<in> set (obj_links h objs x) \<Longrightarrow> from_root h objs c y"

definition edges :: "hash \<Rightarrow> (ObjectId \<Rightarrow> bytes option) \<Rightarrow> nat" where
  "edges h objs = (\<Sum>x \<in> dom objs. length (obj_links h objs x))"

text \<open>Reading objects from a store whose contents \<open>objs\<close> are known, from states where \<open>P\<close> holds.\<close>

locale object_reader =
  fixes A :: "'s ActionsStore" and P :: "Repo \<times> 's \<Rightarrow> bool" and objs :: "ObjectId \<Rightarrow> bytes option"
  assumes reads: "P st \<Longrightarrow> P (snd (as_read_object A x st)) \<and>
    (case objs x of Some d \<Rightarrow> fst (as_read_object A x st) = Inr d | None \<Rightarrow> \<not> ok (fst (as_read_object A x st)))"
begin

definition work :: "ObjectId list \<Rightarrow> ObjectId list \<Rightarrow> nat" where
  "work stack visited = length stack + (\<Sum>x \<in> dom objs - set visited. length (obj_links (as_hash A) objs x))"

lemma work_visit:
  assumes "finite (dom objs)" and "x \<in> dom objs" and "x \<notin> set visited"
  shows "Suc (work (rev (obj_links (as_hash A) objs x) @ stack) (x # visited)) = work (x # stack) visited"
proof -
  have "dom objs - set visited = insert x (dom objs - set (x # visited))" using assms(2,3) by auto
  moreover have "finite (dom objs - set (x # visited))" "x \<notin> dom objs - set (x # visited)" using assms(1) by auto
  ultimately have "(\<Sum>y \<in> dom objs - set visited. length (obj_links (as_hash A) objs y)) =
      length (obj_links (as_hash A) objs x) + (\<Sum>y \<in> dom objs - set (x # visited). length (obj_links (as_hash A) objs y))"
    by (metis sum.insert)
  then show ?thesis by (simp add: work_def)
qed

text \<open>A step of the loop at an object that was not visited.\<close>

lemma closure_visit:
  assumes "P st" and "x \<notin> set visited"
  shows "\<exists>st' e. P st' \<and> closure_loop A (Suc n) (x # stack) visited st =
    (if whole (as_hash A) objs x
     then closure_loop A n (rev (obj_links (as_hash A) objs x) @ stack) (x # visited) st' else (Inl e, st'))"
proof -
  obtain y t where yt: "as_read_object A x st = (y, t)" by (cases "as_read_object A x st")
  have r: "P t" and v: "case objs x of Some d \<Rightarrow> y = Inr d | None \<Rightarrow> \<not> ok y"
    using reads [OF assms(1), of x] yt by (auto split: option.splits)
  show ?thesis
  proof (cases "objs x")
    case None
    then obtain e where "y = Inl e" using v by (cases y) auto
    then show ?thesis using assms(2) yt None r by (intro exI [of _ t]) (auto simp: whole_def bindS_def catchS_def)
  next
    case (Some d)
    show ?thesis
    proof (cases "object_links (as_hash A) x d")
      case (Inr l)
      then have "ok (parse_canonical_object d)" by (auto simp: object_links_def ok_iff bindR_eq_Inr)
      then show ?thesis using assms(2) yt v Some Inr r
        by (intro exI [of _ t]) (auto simp: whole_def obj_links_def bindS_def catchS_def ok_iff)
    next
      case (Inl e)
      then show ?thesis using assms(2) yt v Some r
        by (intro exI [of _ t]) (auto simp: whole_def bindS_def catchS_def split: sum.splits)
    qed
  qed
qed

lemma closure_keeps: "P st \<Longrightarrow> P (snd (closure_loop A n stack visited st))"
proof (induction n arbitrary: stack visited st)
  case 0
  then show ?case by (cases stack) auto
next
  case (Suc n)
  show ?case
  proof (cases stack)
    case (Cons x rest)
    show ?thesis
    proof (cases "x \<in> set visited")
      case False
      from closure_visit [OF Suc.prems False, of n rest] show ?thesis using Cons Suc.IH by fastforce
    qed (use Cons Suc in simp)
  qed (use Suc.prems in simp)
qed

text \<open>A loop that ends has visited a closed set of whole objects.\<close>

lemma closure_sound:
  assumes "P st" and "ok (fst (closure_loop A n stack visited st))"
    and "\<forall>x \<in> set visited. whole (as_hash A) objs x \<and> set (obj_links (as_hash A) objs x) \<subseteq> set visited \<union> set stack"
  shows "\<exists>V. set stack \<subseteq> V \<and> (\<forall>x \<in> V. whole (as_hash A) objs x \<and> set (obj_links (as_hash A) objs x) \<subseteq> V)"
  using assms
proof (induction n arbitrary: stack visited st)
  case 0
  then show ?case by (cases stack) auto
next
  case (Suc n)
  show ?case
  proof (cases stack)
    case Nil
    then show ?thesis using Suc.prems(3) by (intro exI [of _ "set visited"]) auto
  next
    case (Cons x rest)
    show ?thesis
    proof (cases "x \<in> set visited")
      case True
      have "\<exists>V. set rest \<subseteq> V \<and> (\<forall>x \<in> V. whole (as_hash A) objs x \<and> set (obj_links (as_hash A) objs x) \<subseteq> V)"
        using Suc.prems Cons True by (intro Suc.IH [of st rest visited]) auto
      then obtain V where V: "set rest \<subseteq> V" "\<forall>x \<in> V. whole (as_hash A) objs x \<and> set (obj_links (as_hash A) objs x) \<subseteq> V" by blast
      have "\<forall>y \<in> V \<union> set visited. whole (as_hash A) objs y \<and> set (obj_links (as_hash A) objs y) \<subseteq> V \<union> set visited"
        using V Suc.prems(3) Cons True by auto
      then show ?thesis using V(1) Cons True by (intro exI [of _ "V \<union> set visited"]) auto
    next
      case False
      let ?l = "obj_links (as_hash A) objs x"
      obtain st' e where st': "P st'" and run: "closure_loop A (Suc n) (x # rest) visited st =
          (if whole (as_hash A) objs x then closure_loop A n (rev ?l @ rest) (x # visited) st' else (Inl e, st'))"
        using closure_visit [OF Suc.prems(1) False, of n rest] by blast
      have w: "whole (as_hash A) objs x" using run Suc.prems(2) Cons by (cases "whole (as_hash A) objs x") auto
      have ends: "ok (fst (closure_loop A n (rev ?l @ rest) (x # visited) st'))" using run w Suc.prems(2) Cons by simp
      have closed: "\<forall>y \<in> set (x # visited). whole (as_hash A) objs y \<and>
          set (obj_links (as_hash A) objs y) \<subseteq> set (x # visited) \<union> set (rev ?l @ rest)"
        using Suc.prems(3) Cons w by auto
      obtain V where V: "set (rev ?l @ rest) \<subseteq> V"
        "\<forall>x \<in> V. whole (as_hash A) objs x \<and> set (obj_links (as_hash A) objs x) \<subseteq> V"
        using Suc.IH [OF st' ends closed] by (elim exE conjE)
      have "\<forall>y \<in> insert x V. whole (as_hash A) objs y \<and> set (obj_links (as_hash A) objs y) \<subseteq> insert x V"
        using V w by auto
      then show ?thesis using V(1) Cons by (intro exI [of _ "insert x V"]) auto
    qed
  qed
qed

lemma closure_complete:
  assumes "P st" and "finite (dom objs)" and "work stack visited \<le> n" and "set stack \<subseteq> S"
    and "\<forall>x \<in> S. whole (as_hash A) objs x \<and> set (obj_links (as_hash A) objs x) \<subseteq> S"
  shows "fst (closure_loop A n stack visited st) = Inr ()"
  using assms(1,3,4)
proof (induction n arbitrary: stack visited st)
  case 0
  then show ?case by (cases stack) (auto simp: work_def)
next
  case (Suc n)
  show ?case
  proof (cases stack)
    case (Cons x rest)
    show ?thesis
    proof (cases "x \<in> set visited")
      case True
      then show ?thesis using Suc Cons by (simp add: work_def)
    next
      case False
      have x: "whole (as_hash A) objs x" "set (obj_links (as_hash A) objs x) \<subseteq> S" using assms(5) Suc.prems(3) Cons by auto
      then have "x \<in> dom objs" by (auto simp: whole_def split: option.splits)
      from work_visit [OF assms(2) this False, of rest]
      have "work (rev (obj_links (as_hash A) objs x) @ rest) (x # visited) \<le> n" using Suc.prems(2) Cons by simp
      then show ?thesis
        using closure_visit [OF Suc.prems(1) False, of n rest] x Suc.IH Suc.prems(3) Cons by fastforce
    qed
  qed simp
qed

theorem closure_iff:
  assumes "P st" and "finite (dom objs)" and "Suc (edges (as_hash A) objs) \<le> n"
  shows "fst (closure_loop A n [c] [] st) = Inr () \<longleftrightarrow> (\<forall>x. from_root (as_hash A) objs c x \<longrightarrow> whole (as_hash A) objs x)"
proof
  assume ok: "fst (closure_loop A n [c] [] st) = Inr ()"
  then obtain V where V: "c \<in> V" "\<forall>x \<in> V. whole (as_hash A) objs x \<and> set (obj_links (as_hash A) objs x) \<subseteq> V"
    using closure_sound [OF assms(1), of n "[c]" "[]"] by auto
  have "x \<in> V" if "from_root (as_hash A) objs c x" for x using that by induction (use V in auto)
  then show "\<forall>x. from_root (as_hash A) objs c x \<longrightarrow> whole (as_hash A) objs x" using V(2) by blast
next
  assume "\<forall>x. from_root (as_hash A) objs c x \<longrightarrow> whole (as_hash A) objs x"
  then show "fst (closure_loop A n [c] [] st) = Inr ()"
    using assms(3) by (intro closure_complete [OF assms(1,2), where S = "{x. from_root (as_hash A) objs c x}"])
      (auto simp: work_def edges_def intro: from_root.intros)
qed

end


interpretation repo_reader: object_reader "actions_store h None tries r" "\<lambda>st. fst st = r"
  "\<lambda>x. case repo_object_data x r of Inr d \<Rightarrow> Some d | Inl _ \<Rightarrow> None" for h tries r
  by unfold_locales (auto simp: as_read_object_def actions_store_def onR_def split: sum.splits)

sublocale backend \<subseteq> reader: object_reader "actions_store h (Some B) tries r"
  "\<lambda>st. fst st = q \<and> inv (snd st) \<and> objs (snd st) = os \<and> refs (snd st) = rs" os for tries r q os rs
proof
  fix st :: "Repo \<times> 'a" and x
  assume st: "fst st = q \<and> inv (snd st) \<and> objs (snd st) = os \<and> refs (snd st) = rs"
  have read: "as_read_object (actions_store h (Some B) tries r) x st =
      (fst (read_object B x (snd st)), fst st, snd (read_object B x (snd st)))"
    by (simp add: as_read_object_def actions_store_def onB_def split: prod.split)
  show "(fst (snd (as_read_object (actions_store h (Some B) tries r) x st)) = q \<and>
      inv (snd (snd (as_read_object (actions_store h (Some B) tries r) x st))) \<and>
      objs (snd (snd (as_read_object (actions_store h (Some B) tries r) x st))) = os \<and>
      refs (snd (snd (as_read_object (actions_store h (Some B) tries r) x st))) = rs) \<and>
    (case os x of Some d \<Rightarrow> fst (as_read_object (actions_store h (Some B) tries r) x st) = Inr d
     | None \<Rightarrow> \<not> ok (fst (as_read_object (actions_store h (Some B) tries r) x st)))"
    using st read_same [of "snd st" x] read_hit [of "snd st" x] read_miss [of "snd st" x]
    unfolding read by (auto simp: same_def split: option.splits)
qed


context backend
begin

lemmas reader_closure_iff = reader.closure_iff
lemmas reader_closure_keeps = reader.closure_keeps

end

section \<open>What is enqueued and what triggers it\<close>

text \<open>A workflow is enqueued as a whole: every job of every stage becomes a pending run at once, in the order of the
  stages. Nothing in the runs refers to the needs of their jobs.\<close>

lemma enqueue_command_id:
  "enqueue_command js A n machine fresh command q st = (Inr run, t) \<Longrightarrow> run_id run = fresh \<and> rs_phase (run_state run) = ''pending''"
  by (auto simp: enqueue_command_def Let_def pending_run_def)

lemma enqueued_at_once:
  "enqueue_jobs js A n machine fresh commit wrun wname k jobs st = (Inr entries, t) \<Longrightarrow>
   entries = map (\<lambda>(i, job, index, variables). job_entry job index variables (fresh i) ''pending'') (List.enumerate k jobs)"
proof (induction jobs arbitrary: k st entries)
  case (Cons j jobs)
  obtain job index variables where j: "j = (job, index, variables)" by (cases j)
  obtain run u v more where run: "enqueue_command js A n machine (fresh k) (Inl (job_command js variables (job_context commit wrun wname job) job))
      (job_enqueue js commit job variables) st = (Inr run, u)"
    and more: "enqueue_jobs js A n machine fresh commit wrun wname (Suc k) jobs v = (Inr more, t)"
    and entries: "entries = job_entry job index variables (run_id run) ''pending'' # more"
    using Cons.prems unfolding j by auto
  show ?case using Cons.IH [OF more] enqueue_command_id [OF run] entries j by simp
qed simp

lemma tree_map_wf: "wf_dict (tree_map es)"
proof -
  have "wf_dict (foldl (\<lambda>d e. AList.update (ie_path e) (ie_oid e) d) d es)" if "wf_dict d" for d
    using that by (induction es arbitrary: d) auto
  then show ?thesis by (simp add: tree_map_def)
qed

lemma changed_paths_set: "path \<in> set (changed_paths a b) \<longleftrightarrow> map_of a path \<noteq> map_of b path"
  by (auto simp: changed_paths_def map_of_eq_None_iff) (metis map_of_eq_None_iff image_eqI fst_conv option.exhaust_sel weak_map_of_SomeI)+

text \<open>The changed files of a commit with a parent are the paths at which the two trees differ.\<close>

lemma changed_files_diff:
  assumes "repo_load_commit (ObjectId commit) r = Inr c" and "c_parents c = p # ps" and "repo_load_commit p r = Inr pc"
    and "repo_flatten_tree h limit (c_tree c) [] r = Inr es" and "repo_flatten_tree h limit (c_tree pc) [] r = Inr pes"
  shows "\<exists>fs. changed_files h limit commit r = Inr fs \<and> sorted fs \<and> distinct fs \<and>
    (\<forall>path. path \<in> set fs \<longleftrightarrow> map_of (tree_map es) path \<noteq> map_of (tree_map pes) path)"
proof -
  have "changed_files h limit commit r = Inr (changed_paths (tree_map es) (tree_map pes))"
    using assms by (simp add: changed_files_def)
  moreover have "sorted (changed_paths (tree_map es) (tree_map pes))" "distinct (changed_paths (tree_map es) (tree_map pes))"
    by (simp_all add: changed_paths_def)
  ultimately show ?thesis using changed_paths_set by blast
qed

text \<open>The references that name a run that has just been queued: its state, its entries in the index of the repository and in the
  index of the pending runs, and its place in the queue that executors with its specification read.\<close>

definition queued_names :: "string \<Rightarrow> string \<Rightarrow> Spec \<Rightarrow> string list" where
  "queued_names root run spec =
    [run_state_ref root run, run_index_by_repo_prefix root @ run, run_index_by_status_prefix root (Some ''pending'') @ run,
     run_queue_ref root (spec_key spec) ''any'' (hex4 (crc32 run mod 64)) run]"

lemma normalize_queued: "n \<in> set (queued_names (repo_root r) run spec) \<Longrightarrow> normalize_ref n = n"
  by (auto simp: queued_names_def repo_root_def run_state_ref_def run_index_by_repo_prefix_def run_index_by_status_prefix_def
      run_queue_ref_def startswith_def)

lemma pending_doc:
  "payload_id js (run_to_dict (pending_run run argv q spec)) = Inr run"
  "dget (run_to_dict (pending_run run argv q spec)) ''logs'' = JList []"
  "payload_phase (state_payload (run_to_dict (pending_run run argv q spec))) = ''pending''"
  "dget (as_dict (dget (state_payload (run_to_dict (pending_run run argv q spec))) ''state'')) ''spec_key'' = JStr (spec_key spec)"
  "dget (state_payload (run_to_dict (pending_run run argv q spec))) ''region_pin'' = JNull"
  by (simp_all add: payload_id_def jitem_def json_to_str_def run_to_dict_def pending_run_def dget_def payload_phase_def
      state_payload_def run_state_to_dict_def as_dict_def)

context backend
begin

lemma read_ref_done:
  assumes "inv s" and "good_ref n" and "A = actions_store h (Some B) tries q"
  shows "\<exists>t. as_read_ref A n (r, s) = (Inr (refs s (normalize_ref n)), r, t) \<and> inv t \<and> objs t = objs s \<and> refs t = refs s"
proof -
  obtain t where t: "read_ref B n s = (Inr (refs s (normalize_ref n)), t)" using read_ref_eq [OF assms(1,2)] by (metis prod.collapse)
  then show ?thesis using ref_same [OF assms(1), of n] by (auto simp: assms(3) same_def as_read_ref_def actions_store_def onB_def)
qed

lemma persist_pending_done:
  assumes "inv s" and "digest20 h" and "0 < tries" and "A = actions_store h (Some B) tries r"
    and "list_all good_ref (queued_names (repo_root r) run spec)" and "refs s (run_state_ref (repo_root r) run) = None"
    and "y = blob_id (doc_blob h (JObj (state_payload (run_to_dict (pending_run run argv q spec)))))"
  shows "\<exists>res t. persist_run js A (pending_run run argv q spec) (r, s) = (Inr res, r, t) \<and> y \<in> dom (objs t) \<and>
    dom (objs s) \<subseteq> dom (objs t) \<and> refs t = (\<lambda>n. if n \<in> set (queued_names (repo_root r) run spec) then Some y else refs s n)"
proof -
  let ?d = "run_to_dict (pending_run run argv q spec)" and ?n = "\<lambda>i. queued_names (repo_root r) run spec ! i"
  have root: "as_root A = repo_root r" "as_hash A = h" using assms(4) by (simp_all add: actions_store_def)
  have y: "valid_oid y" using assms(2,7) by simp
  have n: "good_ref (?n i)" "normalize_ref (?n i) = ?n i" if "i < 4" for i
    using that assms(5) normalize_queued [of "?n i" r run spec] nth_mem [of i "queued_names (repo_root r) run spec"]
    by (auto simp: queued_names_def list_all_iff)
  obtain s1 where w: "as_write_blob A (doc_blob h (JObj (state_payload ?d))) (r, s) = (Inr (), r, s1)"
    and s1: "inv s1" "refs s1 = refs s" "y \<in> dom (objs s1)" "dom (objs s) \<subseteq> dom (objs s1)"
    using write_blob_done [OF assms(1) doc_blob_def assms(4)] unfolding assms(7) by blast
  obtain s2 where rd: "as_read_ref A (?n 0) (r, s1) = (Inr None, r, s2)" and s2: "inv s2" "objs s2 = objs s1" "refs s2 = refs s"
    using read_ref_done [OF s1(1) n(1) assms(4), of 0] n(2) [of 0] s1(2) assms(6) by (auto simp: queued_names_def)
  obtain s3 where w0: "as_set_ref A (?n 0) y (r, s2) = (Inr (), r, s3)" and s3: "inv s3" "objs s3 = objs s1" "refs s3 = (refs s)(?n 0 \<mapsto> y)"
    using set_ref_done [OF s2(1) n(1) y assms(3,4), of 0] n(2) [of 0] s2 by auto
  obtain s4 where w1: "as_set_ref A (?n 1) y (r, s3) = (Inr (), r, s4)" and s4: "inv s4" "objs s4 = objs s1" "refs s4 = (refs s3)(?n 1 \<mapsto> y)"
    using set_ref_done [OF s3(1) n(1) y assms(3,4), of 1] n(2) [of 1] s3 by auto
  obtain s5 where w2: "as_set_ref A (?n 2) y (r, s4) = (Inr (), r, s5)" and s5: "inv s5" "objs s5 = objs s1" "refs s5 = (refs s4)(?n 2 \<mapsto> y)"
    using set_ref_done [OF s4(1) n(1) y assms(3,4), of 2] n(2) [of 2] s4 by auto
  obtain s6 where w3: "as_set_ref A (?n 3) y (r, s5) = (Inr (), r, s6)" and s6: "objs s6 = objs s1" "refs s6 = (refs s5)(?n 3 \<mapsto> y)"
    using set_ref_done [OF s5(1) n(1) y assms(3,4), of 3] n(2) [of 3] s5 by auto
  note sets = w0 w1 w2 w3
  have key: "spec_key spec \<noteq> []" by (simp add: spec_key_def)
  have bucket: "(case v of JStr g \<Rightarrow> if dget (state_payload ?d) ''region_pin'' = JStr ''hard'' then g else ''any'' | _ \<Rightarrow> ''any'') = ''any''" for v
    by (cases v) (simp_all add: pending_doc)
  have "persist_run js A (pending_run run argv q spec) (r, s) = (Inr (Some (oid_value y)), r, s6)"
    using w rd sets key
    by (simp add: persist_run_def persist_run_payload_def persist_log_chunks_def pending_doc write_log_chunks_def dict_items_def
        root move_state_def refresh_indexes_def phase_at_def refresh_queue_ref_def bucket Let_def queued_names_def numeral_2_eq_2 numeral_3_eq_3
        bindS_apply assms(7) [symmetric])
  moreover have "refs s6 = (\<lambda>n. if n \<in> set (queued_names (repo_root r) run spec) then Some y else refs s n)"
    using s3 s4 s5 s6 by (auto simp: queued_names_def fun_eq_iff numeral_2_eq_2 numeral_3_eq_3)
  ultimately show ?thesis using s1 s6 by auto
qed

end

lemma closure_decided:
  assumes "backend h B good objs refs" and "good s" and "finite (dom (objs s))" and "mk_ObjectId commit = Inr c"
    and "Suc (edges h (objs s)) \<le> n"
  shows "(fst (ensure_commit_closure (actions_store h (Some B) tries r) n commit (r, s)) = Inr () \<longleftrightarrow>
      (\<forall>x. from_root h (objs s) c x \<longrightarrow> whole h (objs s) x)) \<and>
    (\<exists>t. snd (ensure_commit_closure (actions_store h (Some B) tries r) n commit (r, s)) = (r, t) \<and> good t \<and> objs t = objs s \<and> refs t = refs s)"
proof -
  let ?A = "actions_store h (Some B) tries r"
  let ?P = "\<lambda>st. fst st = r \<and> good (snd st) \<and> objs (snd st) = objs s \<and> refs (snd st) = refs s"
  have h: "as_hash ?A = h" by (simp add: actions_store_def)
  have P: "?P (r, s)" using assms(2) by simp
  have "commit \<noteq> ''worktree''" using assms(4) by (auto simp: mk_ObjectId_def split: if_splits)
  then have run: "ensure_commit_closure ?A n commit = closure_loop ?A n [c] []"
    using assms(4) by (simp add: ensure_commit_closure_def)
  have "fst (closure_loop ?A n [c] [] (r, s)) = Inr () \<longleftrightarrow> (\<forall>x. from_root h (objs s) c x \<longrightarrow> whole h (objs s) x)"
    using backend.reader_closure_iff [OF assms(1), of "(r, s)" r "objs s" "refs s" tries r n c] P assms(3,5) by (simp only: h simp_thms)
  moreover have "?P (snd (closure_loop ?A n [c] [] (r, s)))"
    by (rule backend.reader_closure_keeps [OF assms(1) P])
  ultimately show ?thesis unfolding run by (cases "snd (closure_loop ?A n [c] [] (r, s))") auto
qed

section \<open>Property\<close>

text \<open>C21: a run is queued exactly when executors can check its commit out. Over a store whose calls succeed, with as many steps
  as the stored objects have links, for a fresh run and with well-formed names: when every object that the commit reaches is stored
  and well-formed, \<^verbatim>\<open>enqueue_command\<close> returns the pending run, its document is stored, the references that name it
  (its state, the two indexes and its place in the queue) are set to that document, and no other reference has changed and no object
  is gone; otherwise it raises, and neither objects nor references of the store have changed.\<close>

theorem enqueue_needs_closure:
  assumes "backend h B good objs refs" and "good s" and "finite (dom (objs s))" and "mk_ObjectId (eq_commit q) = Inr c"
    and "Suc (edges h (objs s)) \<le> n" and "digest20 h" and "0 < tries"
    and "(case eq_spec q of Some sp \<Rightarrow> Inr sp | None \<Rightarrow> default_spec machine) = Inr spec"
    and "list_all good_ref (queued_names (repo_root r) fresh spec)" and "refs s (run_state_ref (repo_root r) fresh) = None"
  shows "if \<forall>x. from_root h (objs s) c x \<longrightarrow> whole h (objs s) x
    then \<exists>run y t. enqueue_command js (actions_store h (Some B) tries r) n machine fresh command q (r, s) = (Inr run, r, t) \<and>
      run = pending_run fresh (command_argv command) q spec \<and> y = blob_id (doc_blob h (JObj (state_payload (run_to_dict run)))) \<and>
      y \<in> dom (objs t) \<and> dom (objs s) \<subseteq> dom (objs t) \<and>
      refs t = (\<lambda>n. if n \<in> set (queued_names (repo_root r) fresh spec) then Some y else refs s n)
    else \<exists>e t. enqueue_command js (actions_store h (Some B) tries r) n machine fresh command q (r, s) = (Inl e, r, t) \<and>
      objs t = objs s \<and> refs t = refs s"
proof -
  let ?A = "actions_store h (Some B) tries r"
  obtain t where t: "snd (ensure_commit_closure ?A n (eq_commit q) (r, s)) = (r, t)" "good t" "objs t = objs s" "refs t = refs s"
    and decides: "fst (ensure_commit_closure ?A n (eq_commit q) (r, s)) = Inr () \<longleftrightarrow> (\<forall>x. from_root h (objs s) c x \<longrightarrow> whole h (objs s) x)"
    using closure_decided [OF assms(1-5)] by blast
  show ?thesis
  proof (cases "\<forall>x. from_root h (objs s) c x \<longrightarrow> whole h (objs s) x")
    case True
    then have e: "ensure_commit_closure ?A n (eq_commit q) (r, s) = (Inr (), r, t)" using decides t(1) by (simp add: prod_eq_iff)
    have none: "refs t (run_state_ref (repo_root r) fresh) = None" using assms(10) t(4) by simp
    show ?thesis
      using True backend.persist_pending_done [OF assms(1) t(2) assms(6,7) refl assms(9) none refl, of js "command_argv command" q]
      unfolding t(3,4) by (auto simp: enqueue_command_def bindS_def e assms(8) Let_def)
  next
    case False
    then obtain e where "ensure_commit_closure ?A n (eq_commit q) (r, s) = (Inl e, r, t)"
      using decides t(1) by (cases "ensure_commit_closure ?A n (eq_commit q) (r, s)"; cases "fst (ensure_commit_closure ?A n (eq_commit q) (r, s))") auto
    then show ?thesis using False t by (auto simp: enqueue_command_def bindS_def)
  qed
qed

definition sample_enqueue :: "ObjectId \<Rightarrow> Enqueue" where
  "sample_enqueue x = \<lparr>eq_commit = oid_value x, eq_timeout_s = 60, eq_provider_id = None, eq_strict_provider = False, eq_region = None,
     eq_spec = None, eq_artifact_paths = [], eq_isolation = ''process''\<rparr>"

lemma repo_root_empty: "repo_root repo_empty = ''refs/actions/repos/repo''"
  by code_simp

lemma sample_shard: "crc32 ''A'' mod 64 = 11"
proof -
  have "(f ^^ 8) x = f (f (f (f (f (f (f (f x)))))))" for f :: "32 word \<Rightarrow> 32 word" and x by (simp add: numeral_eq_Suc)
  then show ?thesis by (simp add: crc32_def crc_byte_def ordc_def crc_bit_def)
qed

lemma sample_queued: "\<exists>spec. default_spec ''x86_64'' = Inr spec \<and> list_all good_ref (queued_names ''refs/actions/repos/repo'' ''A'' spec)"
proof -
  let ?key = "''cpu2-mem7g-disk14g-x86_64-nogpu-default''"
  have "case default_spec ''x86_64'' of Inr spec \<Rightarrow> spec_key spec = ?key | Inl _ \<Rightarrow> False" by code_simp
  then obtain spec where spec: "default_spec ''x86_64'' = Inr spec" "spec_key spec = ?key" by (auto split: sum.splits)
  have "list_all good_ref [''refs/actions/repos/repo/runs/A/state'', ''refs/actions/repos/repo/index/runs/by-repo/A'',
      ''refs/actions/repos/repo/index/runs/by-status/pending/A'',
      ''refs/actions/repos/repo/queue/'' @ ?key @ ''/any/'' @ hex4 11 @ ''/A'']" by code_simp
  then show ?thesis using spec
    by (simp add: queued_names_def run_state_ref_def run_index_by_repo_prefix_def run_index_by_status_prefix_def run_queue_ref_def sample_shard)
qed

theorem enqueue_needs_closure_witness:
  "\<exists>run y t. enqueue_command (\<lambda>_. []) (actions_store sample_hash (Some (memory_backend sample_hash)) 1 repo_empty) 1
       ''x86_64'' ''A'' (Inl ''make'') (sample_enqueue (from_bytes sample_hash (sample_blob CHR ''a'')))
       (repo_empty,
        memory_init\<lparr>m_objects := [(from_bytes sample_hash (sample_blob CHR ''a''), sample_blob CHR ''a'')]\<rparr>) =
     (Inr run, repo_empty, t) \<and>
     run_command run = [''/bin/sh'', ''-lc'', ''make''] \<and> rs_phase (run_state run) = ''pending'' \<and>
     memory_refs t ''refs/actions/repos/repo/runs/A/state'' = Some y \<and> y \<in> dom (memory_objs t)"
proof -
  let ?x = "from_bytes sample_hash (sample_blob CHR ''a'')" and ?r = "repo_empty"
  let ?m = "memory_init\<lparr>m_objects := [(?x, sample_blob CHR ''a'')]\<rparr>"
  have links: "object_links sample_hash ?x (sample_blob CHR ''a'') = Inr []"
    using parse_canonical_canonical [of "''blob''" "''a''"]
    by (simp add: object_links_def sample_blob_def wf_kind_def is_str_def)
  have inv: "memory_inv sample_hash ?m" by (simp add: memory_inv_def memory_init_def wf_dict_def)
  have c: "mk_ObjectId (eq_commit (sample_enqueue ?x)) = Inr ?x"
    by (simp add: sample_enqueue_def mk_ObjectId_value)
  have none: "obj_links sample_hash (memory_objs ?m) y = []" for y by (simp add: obj_links_def links)
  then have n: "Suc (edges sample_hash (memory_objs ?m)) \<le> 1" by (simp add: edges_def)
  have "whole sample_hash (memory_objs ?m) y" if "from_root sample_hash (memory_objs ?m) ?x y" for y
    using that none by induction (auto simp: whole_def links)
  then have all: "\<forall>y. from_root sample_hash (memory_objs ?m) ?x y \<longrightarrow> whole sample_hash (memory_objs ?m) y" by blast
  obtain spec where "default_spec ''x86_64'' = Inr spec" "list_all good_ref (queued_names ''refs/actions/repos/repo'' ''A'' spec)"
    using sample_queued by blast
  then have spec: "(case eq_spec (sample_enqueue ?x) of Some sp \<Rightarrow> Inr sp | None \<Rightarrow> default_spec ''x86_64'') = Inr spec"
    and good: "list_all good_ref (queued_names (repo_root ?r) ''A'' spec)"
    by (simp_all add: sample_enqueue_def repo_root_empty)
  have fresh: "memory_refs ?m (run_state_ref (repo_root ?r) ''A'') = None" by (simp add: memory_init_def)
  have state: "''refs/actions/repos/repo/runs/A/state'' \<in> set (queued_names (repo_root ?r) ''A'' spec)"
    by (simp add: queued_names_def run_state_ref_def repo_root_empty)
  note applied = enqueue_needs_closure [OF memory.backend_axioms [of sample_hash] inv finite_dom_map_of c n]
  note sized = applied [OF digest20_sample zero_less_one spec]
  note named = sized [OF good]
  note new = named [OF fresh]
  note called = new [where js = "\<lambda>_. []" and command = "Inl ''make''"]
  note queued = called [unfolded if_P [OF all]]
  from queued show ?thesis
  proof (elim exE conjE)
    fix run y t
    assume q: "enqueue_command (\<lambda>_. []) (actions_store sample_hash (Some (memory_backend sample_hash)) 1 ?r) 1 ''x86_64'' ''A''
        (Inl ''make'') (sample_enqueue ?x) (?r, ?m) = (Inr run, ?r, t)"
      and run: "run = pending_run ''A'' (command_argv (Inl ''make'')) (sample_enqueue ?x) spec"
      and y: "y \<in> dom (memory_objs t)"
      and t: "memory_refs t = (\<lambda>n. if n \<in> set (queued_names (repo_root ?r) ''A'' spec) then Some y else memory_refs ?m n)"
    have "memory_refs t ''refs/actions/repos/repo/runs/A/state'' = Some y" unfolding t using state by (rule if_P)
    with q y show ?thesis
      by (intro exI conjI) (assumption | simp add: run pending_run_def command_argv_def)+
  qed
qed

end
