(* ===== verification/ActionHealth.thy ===== *)
theory ActionHealth
  imports Capacity
begin

text \<open>
  \<^verbatim>\<open>src/trunks/actions/health.py\<close>: what executors tell each other about providers. The last success or failure of a provider
  in a region for a kind of machine is one document; a provider that failed is avoided for a minute.
  The time in seconds is an argument, \<open>js\<close> is Python's \<^verbatim>\<open>str\<close> on values that are not strings.
\<close>

section \<open>Documents\<close>

definition HEALTH_SCHEMA :: string where
  "HEALTH_SCHEMA = ''trunks.actions.provider_health.v1''"

definition DEGRADED_SECONDS :: int where
  "DEGRADED_SECONDS = 60"

definition write_health :: "(json \<Rightarrow> string) \<Rightarrow> 's ActionsStore \<Rightarrow> payload \<Rightarrow> (Repo \<times> 's, payload) st" where
  "write_health js A d =
    (let blob = doc_blob (as_hash A) (JObj d)
     in bindS (as_write_blob A blob) (\<lambda>_.
        bindS (liftR (bindR (jitem (JObj d) ''provider'') (\<lambda>provider. bindR (jitem (JObj d) ''region'') (\<lambda>region.
          bindR (jitem (JObj d) ''spec_key'') (\<lambda>key.
          Inr (provider_health_ref ''default'' (json_to_str js provider) (json_to_str js region) (json_to_str js key))))))) (\<lambda>ref.
        bindS (as_set_ref A ref (blob_id blob)) (\<lambda>_. returnS d))))"

text \<open>A document that cannot be read is skipped, unless it is missing.\<close>

definition load_health :: "'s ActionsStore \<Rightarrow> ObjectId \<Rightarrow> (Repo \<times> 's, payload option) st" where
  "load_health A oid =
    catchS (bindS (as_load A oid) (\<lambda>v. returnS (as_obj v))) (\<lambda>e. if is_value_error e then returnS None else raiseS e)"

definition read_health :: "'s ActionsStore \<Rightarrow> string \<Rightarrow> string \<Rightarrow> string \<Rightarrow> (Repo \<times> 's, payload option) st" where
  "read_health A provider region key =
    bindS (as_read_ref A (provider_health_ref ''default'' provider region key)) (\<lambda>oid.
    case oid of None \<Rightarrow> returnS None | Some x \<Rightarrow> load_health A x)"

definition health_doc :: "string \<Rightarrow> string \<Rightarrow> string \<Rightarrow> string \<Rightarrow> string \<Rightarrow> json \<Rightarrow> int \<Rightarrow> int \<Rightarrow> json \<Rightarrow> payload" where
  "health_doc provider region key run status reason failures ts healthy_after =
    [(''_schema_version'', JStr HEALTH_SCHEMA), (''object'', JStr ''provider_health''), (''provider'', JStr provider),
     (''region'', JStr region), (''spec_key'', JStr key), (''run'', JStr run), (''status'', JStr status), (''reason'', reason),
     (''failures'', JInt failures), (''ts_s'', JInt ts), (''healthy_after_s'', healthy_after)]"

section \<open>Operations\<close>

definition record_provider_success :: "(json \<Rightarrow> string) \<Rightarrow> 's ActionsStore \<Rightarrow> string \<Rightarrow> string \<Rightarrow> string \<Rightarrow> string \<Rightarrow> int \<Rightarrow>
    (Repo \<times> 's, payload) st" where
  "record_provider_success js A provider region key run now =
    write_health js A (health_doc provider region key run ''healthy'' JNull 0 now JNull)"

definition failures_before :: "payload option \<Rightarrow> int" where
  "failures_before previous =
    (case previous of
       None \<Rightarrow> 0
     | Some d \<Rightarrow> (if dget d ''status'' = JStr ''degraded'' then (case jint_of (dget d ''failures'') of Some k \<Rightarrow> k | None \<Rightarrow> 0) else 0))"

definition record_provider_failure :: "(json \<Rightarrow> string) \<Rightarrow> 's ActionsStore \<Rightarrow> string \<Rightarrow> string \<Rightarrow> string \<Rightarrow> string \<Rightarrow> string \<Rightarrow> int \<Rightarrow>
    (Repo \<times> 's, payload) st" where
  "record_provider_failure js A provider region key run reason now =
    bindS (read_health A provider region key) (\<lambda>previous.
    write_health js A (health_doc provider region key run ''degraded'' (JStr reason) (failures_before previous + 1) now
      (JInt (now + DEGRADED_SECONDS))))"

text \<open>The provider a document says is to be avoided now.\<close>

definition degraded_by :: "string option \<Rightarrow> string \<Rightarrow> int \<Rightarrow> payload \<Rightarrow> string option" where
  "degraded_by region key now d =
    (if dget d ''status'' \<noteq> JStr ''degraded'' \<or> dget d ''spec_key'' \<noteq> JStr key then None
     else if region \<noteq> None \<and> dget d ''region'' \<noteq> jopt_str region then None
     else case (jint_of (dget d ''healthy_after_s''), dget d ''provider'') of
       (Some after, JStr p) \<Rightarrow> if after > now then Some p else None
     | _ \<Rightarrow> None)"

fun health_docs :: "'s ActionsStore \<Rightarrow> (string \<times> ObjectId) list \<Rightarrow> (Repo \<times> 's, payload list) st" where
  "health_docs A [] = returnS []"
| "health_docs A ((name, oid) # refs) =
    bindS (load_health A oid) (\<lambda>p. bindS (health_docs A refs) (\<lambda>ds. returnS (case p of None \<Rightarrow> ds | Some d \<Rightarrow> d # ds)))"

definition degraded_provider_ids :: "'s ActionsStore \<Rightarrow> string option \<Rightarrow> string \<Rightarrow> int \<Rightarrow> (Repo \<times> 's, string set) st" where
  "degraded_provider_ids A region key now =
    bindS (as_list_refs A (provider_health_prefix ''default'')) (\<lambda>refs.
    bindS (health_docs A refs) (\<lambda>ds. returnS (set (List.map_filter (degraded_by region key now) ds))))"

definition provider_health_snapshot :: "(json \<Rightarrow> string) \<Rightarrow> 's ActionsStore \<Rightarrow> (Repo \<times> 's, json) st" where
  "provider_health_snapshot js A =
    bindS (as_list_refs A (provider_health_prefix ''default'')) (\<lambda>refs.
    bindS (health_docs A refs) (\<lambda>ds.
    returnS (JObj [(''_schema_version'', JStr ''trunks.actions.provider_health_snapshot.v1''),
      (''object'', JStr ''provider_health_snapshot''),
      (''data'', JList (map JObj (sort_key (\<lambda>d. (json_to_str js (dget d ''provider''), json_to_str js (dget d ''region''),
         json_to_str js (dget d ''spec_key''))) ds)))])))"

section \<open>A document that was written is read back\<close>

context backend
begin

text \<open>Storing a blob under a reference, when no other client interferes and no other bytes have its hash.\<close>

lemma health_blob_stored:
  assumes "inv s" and "digest20 h" and "good_ref n" and "blob = blob_from_data h data" and "0 < tries"
    and "\<forall>b. from_bytes h b = blob_id blob \<longrightarrow> b = blob_canonical blob"
    and "A = actions_store h (Some B) tries q"
  shows "\<exists>t. bindS (as_write_blob A blob) (\<lambda>_. as_set_ref A n (blob_id blob)) (r, s) = (Inr (), r, t) \<and> inv t \<and>
    refs t = (refs s)(normalize_ref n \<mapsto> blob_id blob) \<and> objs t (blob_id blob) = Some (blob_canonical blob)"
proof -
  let ?x = "blob_id blob"
  have v: "valid_oid ?x" using assms(2) by (simp add: assms(4) blob_from_data_def object_id_def)
  obtain s1 where 1: "as_write_blob A blob (r, s) = (Inr (), r, s1)" "inv s1" "refs s1 = refs s" "?x \<in> dom (objs s1)"
    using write_blob_done [OF assms(1,4,7)] by blast
  then have o1: "objs s1 ?x = Some (blob_canonical blob)" using content [OF 1(2)] assms(6) by blast
  obtain t where "as_set_ref A n ?x (r, s1) = (Inr (), r, t)" "inv t" "objs t = objs s1" "refs t = (refs s1)(normalize_ref n \<mapsto> ?x)"
    using set_ref_done [OF 1(2) assms(3) v assms(5,7)] by blast
  with 1 o1 show ?thesis by (intro exI [of _ t]) (simp add: bindS_def)
qed

lemma blob_loaded:
  assumes "inv s" and "good_ref n" and "refs s (normalize_ref n) = Some (blob_id blob)"
    and "objs s (blob_id blob) = Some (blob_canonical blob)" and "is_str (blob_data blob)"
    and "A = actions_store h (Some B) tries q"
  shows "\<exists>t u. as_read_ref A n (r, s) = (Inr (Some (blob_id blob)), r, t) \<and> as_load A (blob_id blob) (r, t) = (loads (blob_data blob), r, u)"
proof -
  obtain s1 where r1: "read_ref B n s = (Inr (Some (blob_id blob)), s1)" using read_ref_eq [OF assms(1,2)] assms(3) by (metis prod.collapse)
  have s1: "inv s1" "objs s1 = objs s" using ref_same [OF assms(1), of n] r1 by (auto simp: same_def)
  obtain s2 where r2: "read_object B (blob_id blob) s1 = (Inr (blob_canonical blob), s2)"
    using read_hit [OF s1(1)] s1(2) assms(4) by (metis prod.collapse)
  have p: "parse_canonical_object (blob_canonical blob) = Inr (''blob'', blob_data blob)"
    using parse_canonical_canonical [of "''blob''"] by (simp add: blob_canonical_def wf_kind_def is_str_def)
  have "as_read_ref A n (r, s) = (Inr (Some (blob_id blob)), r, s1)" using r1 by (simp add: assms(6) as_read_ref_def actions_store_def onB_def)
  moreover have "as_load A (blob_id blob) (r, s1) = (loads (blob_data blob), r, s2)"
    using r2 p assms(5)
    by (auto simp: assms(6) as_load_def as_read_blob_payload_def actions_store_def bindS_def onB_def decode_utf8_def
        split: prod.splits sum.splits)
  ultimately show ?thesis by blast
qed

definition quiet :: "Repo \<Rightarrow> (ObjectId \<Rightarrow> bytes option) \<Rightarrow> (string \<Rightarrow> ObjectId option) \<Rightarrow> Repo \<times> 'a \<Rightarrow> bool" where
  "quiet r os rs st \<longleftrightarrow> fst st = r \<and> inv (snd st) \<and> objs (snd st) = os \<and> refs (snd st) = rs"

lemma quiet_call: "(\<And>s. inv s \<Longrightarrow> same inv objs refs s (snd (m s))) \<Longrightarrow> keeps (quiet r os rs) (onB m)"
proof (rule keepsI)
  fix st assume same: "\<And>s. inv s \<Longrightarrow> same inv objs refs s (snd (m s))" and st: "quiet r os rs st"
  show "quiet r os rs (snd (onB m st))"
    using same [of "snd st"] st by (cases st; cases "m (snd st)") (auto simp: quiet_def onB_def same_def)
qed

lemma quiet_health:
  assumes "A = actions_store h (Some B) tries q"
  shows "keeps (quiet r os rs) (read_health A provider region key)"
proof -
  have "keeps (quiet r os rs) (as_read_ref A n)" for n
    using quiet_call [OF ref_same] by (simp add: assms as_read_ref_def actions_store_def)
  moreover have "keeps (quiet r os rs) (as_load A x)" for x
    using quiet_call [OF read_same] by (auto simp: assms as_load_def as_read_blob_payload_def actions_store_def intro!: keeps_bindS)
  ultimately show ?thesis
    unfolding read_health_def load_health_def by (auto intro!: keeps_bindS keeps_catchS split: option.split)
qed

end

definition sorted_health :: "string \<Rightarrow> string \<Rightarrow> string \<Rightarrow> string \<Rightarrow> string \<Rightarrow> int \<Rightarrow> int \<Rightarrow> int \<Rightarrow> payload" where
  "sorted_health provider region key run reason failures ts after =
    [(''_schema_version'', JStr HEALTH_SCHEMA), (''failures'', JInt failures), (''healthy_after_s'', JInt after),
     (''object'', JStr ''provider_health''), (''provider'', JStr provider), (''reason'', JStr reason), (''region'', JStr region),
     (''run'', JStr run), (''spec_key'', JStr key), (''status'', JStr ''degraded''), (''ts_s'', JInt ts)]"

lemma sort_health:
  "sort_keys (JObj (health_doc provider region key run ''degraded'' (JStr reason) failures ts (JInt after))) =
   JObj (sorted_health provider region key run reason failures ts after)"
  by (simp add: health_doc_def sorted_health_def less_char_def)

lemma health_text:
  assumes "list_all ascii_str [provider, region, key, run, reason]"
  shows "is_str (doc_text (JObj (health_doc provider region key run ''degraded'' (JStr reason) failures ts (JInt after))))"
    and "loads (doc_text (JObj (health_doc provider region key run ''degraded'' (JStr reason) failures ts (JInt after)))) =
      Inr (JObj (sorted_health provider region key run reason failures ts after))"
proof -
  let ?v = "JObj (sorted_health provider region key run reason failures ts after)"
  have "ascii_str ''_schema_version''" "ascii_str ''failures''" "ascii_str ''healthy_after_s''" "ascii_str ''object''"
    "ascii_str ''provider''" "ascii_str ''reason''" "ascii_str ''region''" "ascii_str ''run''" "ascii_str ''spec_key''"
    "ascii_str ''status''" "ascii_str ''ts_s''" "ascii_str ''provider_health''" "ascii_str ''degraded''" "ascii_str HEALTH_SCHEMA"
    by (simp_all add: ascii_str_def ordc_def HEALTH_SCHEMA_def)
  then have a: "ascii_json ?v" using assms by (simp add: sorted_health_def)
  have t: "doc_text (JObj (health_doc provider region key run ''degraded'' (JStr reason) failures ts (JInt after))) = dumps compact ?v"
    by (simp only: doc_text_def sort_health)
  show "is_str (doc_text (JObj (health_doc provider region key run ''degraded'' (JStr reason) failures ts (JInt after))))"
    unfolding t using ascii_dumps [OF a] by (intro is_str_ascii) auto
  show "loads (doc_text (JObj (health_doc provider region key run ''degraded'' (JStr reason) failures ts (JInt after)))) = Inr ?v"
    unfolding t by (rule loads_dumps_sep [OF a]) simp
qed

section \<open>Property\<close>

text \<open>C22: failures of a provider add up and pass. When an executor reports that a provider failed, and no other one interferes,
  the next reader finds the document of this failure: one failure more than the last document had if that was a failure too,
  and one otherwise. The document makes the provider one to avoid for machines of this kind in this
  region, up to the end of the minute and no longer, whatever the number of failures is: the code has no lapse rate, no floor that
  takes a provider out of rotation and nothing that an operator resets, as \<^verbatim>\<open>docs/actions/capacity.md\<close> and
  \<^verbatim>\<open>docs/actions/providers.md\<close> promise.\<close>

theorem health_counts_failures:
  assumes "backend h B good objs refs" and "good s" and "digest20 h" and "0 < tries"
    and "good_ref (provider_health_ref ''default'' provider region key)"
    and "list_all ascii_str [provider, region, key, run, reason]"
    and "A = actions_store h (Some B) tries q" and "fst (read_health A provider region key (r, s)) = Inr previous"
    and "doc = health_doc provider region key run ''degraded'' (JStr reason) (failures_before previous + 1) now (JInt (now + DEGRADED_SECONDS))"
    and "\<forall>b. from_bytes h b = blob_id (doc_blob h (JObj doc)) \<longrightarrow> b = blob_canonical (doc_blob h (JObj doc))"
  shows "\<exists>t d. record_provider_failure js A provider region key run reason now (r, s) = (Inr doc, r, t) \<and>
    fst (read_health A provider region key (r, t)) = Inr (Some d) \<and>
    failures_before (Some d) = failures_before previous + 1 \<and>
    (\<forall>later. degraded_by (Some region) key later d = (if later < now + DEGRADED_SECONDS then Some provider else None))"
proof -
  let ?n = "provider_health_ref ''default'' provider region key" and ?blob = "doc_blob h (JObj doc)"
  let ?d = "sorted_health provider region key run reason (failures_before previous + 1) now (now + DEGRADED_SECONDS)"
  have h: "as_hash A = h" by (simp add: assms(7) actions_store_def)
  obtain s0 where s0: "read_health A provider region key (r, s) = (Inr previous, r, s0)" "good s0"
  proof -
    have "backend.quiet good objs refs r (objs s) (refs s) (snd (read_health A provider region key (r, s)))"
      by (rule keepsD [OF backend.quiet_health [OF assms(1,7)]]) (simp add: backend.quiet_def [OF assms(1)] assms(2))
    then show thesis using that assms(8) by (cases "read_health A provider region key (r, s)") (auto simp: backend.quiet_def [OF assms(1)])
  qed
  have blob: "?blob = blob_from_data h (doc_text (JObj doc))" by (simp add: doc_blob_def)
  obtain t where t: "bindS (as_write_blob A ?blob) (\<lambda>_. as_set_ref A ?n (blob_id ?blob)) (r, s0) = (Inr (), r, t)" "good t"
    "refs t = (refs s0)(normalize_ref ?n \<mapsto> blob_id ?blob)" "objs t (blob_id ?blob) = Some (blob_canonical ?blob)"
    using backend.health_blob_stored [OF assms(1) s0(2) assms(3,5) blob assms(4,10,7), of r] by (elim exE conjE)
  have wrote: "record_provider_failure js A provider region key run reason now (r, s) = (Inr doc, r, t)"
    using s0(1) t(1)
    by (auto simp: record_provider_failure_def write_health_def Let_def h bindS_def assms(9) health_doc_def jitem_def json_to_str_def
        split: prod.splits sum.splits)
  have data: "blob_data ?blob = doc_text (JObj doc)" by (simp add: doc_blob_def blob_from_data_def)
  have txts: "is_str (blob_data ?blob)" "loads (blob_data ?blob) = Inr (JObj ?d)"
    unfolding data unfolding assms(9) by (rule health_text [OF assms(6)])+
  have cur: "refs t (normalize_ref ?n) = Some (blob_id ?blob)" using t(3) by simp
  obtain u v where "as_read_ref A ?n (r, t) = (Inr (Some (blob_id ?blob)), r, u)"
    "as_load A (blob_id ?blob) (r, u) = (loads (blob_data ?blob), r, v)"
    using backend.blob_loaded [OF assms(1) t(2) assms(5) cur t(4) txts(1) assms(7), of r] by (elim exE conjE)
  then have "fst (read_health A provider region key (r, t)) = Inr (Some ?d)"
    unfolding txts(2) by (simp add: read_health_def load_health_def bindS_def catchS_def returnS_def as_obj_def)
  moreover have "failures_before (Some ?d) = failures_before previous + 1"
    by (simp add: failures_before_def sorted_health_def dget_def jint_of_def)
  moreover have "degraded_by (Some region) key later ?d = (if later < now + DEGRADED_SECONDS then Some provider else None)" for later
    by (simp add: degraded_by_def sorted_health_def dget_def jint_of_def jopt_str_def)
  ultimately show ?thesis using wrote by blast
qed

definition first_failure :: payload where
  "first_failure = sorted_health ''modal'' ''eu'' ''cpu2'' ''01RUN'' ''timeout'' 1 1000 1060"

theorem health_counts_failures_witness:
  "\<exists>t d. record_provider_failure (\<lambda>_. '''') (actions_store (one_hash first_failure) (Some (memory_backend (one_hash first_failure))) 5 repo_empty)
       ''modal'' ''eu'' ''cpu2'' ''01RUN'' ''timeout'' 1000 (repo_empty, memory_init) =
       (Inr (health_doc ''modal'' ''eu'' ''cpu2'' ''01RUN'' ''degraded'' (JStr ''timeout'') 1 1000 (JInt 1060)), repo_empty, t) \<and>
     fst (read_health (actions_store (one_hash first_failure) (Some (memory_backend (one_hash first_failure))) 5 repo_empty)
       ''modal'' ''eu'' ''cpu2'' (repo_empty, t)) = Inr (Some d) \<and>
     failures_before (Some d) = 1 \<and> degraded_by (Some ''eu'') ''cpu2'' 1059 d = Some ''modal'' \<and> degraded_by (Some ''eu'') ''cpu2'' 1060 d = None"
proof -
  let ?h = "one_hash first_failure" and ?doc = "health_doc ''modal'' ''eu'' ''cpu2'' ''01RUN'' ''degraded'' (JStr ''timeout'') 1 1000 (JInt 1060)"
  let ?A = "actions_store ?h (Some (memory_backend ?h)) 5 repo_empty"
  have none: "fst (read_health ?A ''modal'' ''eu'' ''cpu2'' (repo_empty, memory_init)) = Inr None"
    by (simp add: read_health_def as_read_ref_def actions_store_def onB_def bindS_def memory_init_def memory_backend_def memory_read_ref_def returnS_def)
  have bytes: "blob_canonical (doc_blob ?h (JObj ?doc)) = doc_bytes first_failure"
    unfolding doc_blob_def doc_bytes_def doc_text_def sort_health first_failure_def by (simp only: blob_from_data_def blob_canonical_def Blob.simps)
  then have "blob_id (doc_blob ?h (JObj ?doc)) = from_bytes ?h (doc_bytes first_failure)"
    by (simp add: doc_blob_def blob_from_data_def object_id_def blob_canonical_def)
  then have one: "\<forall>b. from_bytes ?h b = blob_id (doc_blob ?h (JObj ?doc)) \<longrightarrow> b = blob_canonical (doc_blob ?h (JObj ?doc))"
    unfolding bytes using one_hash_eq by simp
  have good: "good_ref (provider_health_ref ''default'' ''modal'' ''eu'' ''cpu2'')" by code_simp
  have fresh: "memory_inv ?h memory_init" by (simp add: memory_inv_def memory_init_def wf_dict_def)
  have dig: "digest20 ?h" by (simp add: digest20_def one_hash_def)
  have ascii: "list_all ascii_str [''modal'', ''eu'', ''cpu2'', ''01RUN'', ''timeout'']" by code_simp
  have doc: "?doc = health_doc ''modal'' ''eu'' ''cpu2'' ''01RUN'' ''degraded'' (JStr ''timeout'') (failures_before None + 1) 1000
    (JInt (1000 + DEGRADED_SECONDS))"
    by (simp add: failures_before_def DEGRADED_SECONDS_def)
  obtain t d where "record_provider_failure (\<lambda>_. '''') ?A ''modal'' ''eu'' ''cpu2'' ''01RUN'' ''timeout'' 1000 (repo_empty, memory_init) =
      (Inr ?doc, repo_empty, t)"
    "fst (read_health ?A ''modal'' ''eu'' ''cpu2'' (repo_empty, t)) = Inr (Some d)" "failures_before (Some d) = failures_before None + 1"
    "\<forall>later. degraded_by (Some ''eu'') ''cpu2'' later d = (if later < 1000 + DEGRADED_SECONDS then Some ''modal'' else None)"
    using health_counts_failures [where tries = 5 and js = "\<lambda>_. ''''", OF memory.backend_axioms fresh dig zero_less_numeral good ascii refl none doc one]
    by (elim exE conjE)
  then show ?thesis by (intro exI [of _ t] exI [of _ d]) (simp add: failures_before_def DEGRADED_SECONDS_def)
qed

end
