(* ===== verification/Secrets.thy ===== *)
theory Secrets
  imports ActionRuns "HOL-Library.Sublist"
begin

text \<open>
  \<^verbatim>\<open>src/trunks/actions/secrets.py\<close>: bindings of secrets to variables of the executor's environment, and the masking of their
  values in what is logged. The environment of the process is the dictionary \<open>environ\<close>; the order in
  which Python iterates over a set of values is the argument \<open>perm\<close>. \<^verbatim>\<open>isalnum\<close> and \<^verbatim>\<open>upper\<close> are about
  ASCII characters, as everywhere in the development.

  \<open>masked_text_hides\<close> is what masking promises for one piece of text, and \<open>secret_across_lines\<close> what
  it does not: the pieces are lines, and a secret of several lines is in none of them.
\<close>

section \<open>Bindings\<close>

definition SECRET_BINDING_SCHEMA :: string where
  "SECRET_BINDING_SCHEMA = ''trunks.actions.secret_binding.v1''"

definition MASKED_SECRET :: string where
  "MASKED_SECRET = ''***''"

definition is_alnum :: "char \<Rightarrow> bool" where
  "is_alnum c \<longleftrightarrow> is_digit c \<or> 65 \<le> ordc c \<and> ordc c \<le> 90 \<or> 97 \<le> ordc c \<and> ordc c \<le> 122"

definition validate_secret_name :: "string \<Rightarrow> unit res" where
  "validate_secret_name name =
    (if name = [] \<or> \<not> list_all (\<lambda>c. is_alnum c \<or> c = CHR ''_'') name
     then Inl (ValueError ''secret name must contain only letters, numbers, and underscores'') else Inr ())"

definition bind_secret :: "'s ActionsStore \<Rightarrow> string \<Rightarrow> string \<Rightarrow> (Repo \<times> 's, payload) st" where
  "bind_secret A name source =
    bindS (liftR (validate_secret_name name)) (\<lambda>_.
    let binding = [(''_schema_version'', JStr SECRET_BINDING_SCHEMA), (''object'', JStr ''secret_binding''), (''name'', JStr name),
          (''source'', JStr source)];
        blob = doc_blob (as_hash A) (JObj binding)
    in bindS (as_write_blob A blob) (\<lambda>_.
       bindS (as_set_ref A (secret_ref (as_root A) name) (blob_id blob)) (\<lambda>_. returnS binding)))"

definition list_secret_bindings :: "'s ActionsStore \<Rightarrow> (Repo \<times> 's, json list) st" where
  "list_secret_bindings A =
    bindS (as_list_refs A (secret_prefix (as_root A))) (\<lambda>refs. mapS (\<lambda>(name, oid). as_load A oid) (sort_key fst refs))"

definition show_secret_binding :: "'s ActionsStore \<Rightarrow> string \<Rightarrow> (Repo \<times> 's, json) st" where
  "show_secret_binding A name =
    bindS (as_read_ref A (secret_ref (as_root A) name)) (\<lambda>oid.
    case oid of
      None \<Rightarrow> raiseS (KeyError (''unknown action secret binding '' @ repr_str name))
    | Some x \<Rightarrow> as_load A x)"

definition remove_secret_binding :: "'s ActionsStore \<Rightarrow> string \<Rightarrow> (Repo \<times> 's, payload) st" where
  "remove_secret_binding A name =
    bindS (show_secret_binding A name) (\<lambda>binding.
    bindS (as_delete_ref A (secret_ref (as_root A) name)) (\<lambda>_.
    case binding of
      JObj d \<Rightarrow> returnS (AList.update ''deleted'' (JBool True) d)
    | _ \<Rightarrow> raiseS (TypeError ''object is not a mapping'')))"

text \<open>The loop of \<^verbatim>\<open>resolve_secret_env\<close>.\<close>

fun bound_values :: "(string, string) dict \<Rightarrow> json list \<Rightarrow> (string, string) dict \<Rightarrow> (string, string) dict res" where
  "bound_values environ [] resolved = Inr resolved"
| "bound_values environ (b # bs) resolved =
    (case b of
       JObj d \<Rightarrow>
         bound_values environ bs
           (case (dget d ''name'', dget d ''source'') of
              (JStr name, JStr source) \<Rightarrow>
                if startswith source ''env:''
                then (case map_of environ (drop 4 source) of Some v \<Rightarrow> AList.update name v resolved | None \<Rightarrow> resolved)
                else resolved
            | _ \<Rightarrow> resolved)
     | _ \<Rightarrow> Inl (AttributeError ''object has no attribute get''))"

definition resolve_secret_env :: "(string, string) dict \<Rightarrow> 's ActionsStore \<Rightarrow> (Repo \<times> 's, (string, string) dict) st" where
  "resolve_secret_env environ A = bindS (list_secret_bindings A) (\<lambda>bs. liftR (bound_values environ bs []))"

section \<open>Masking\<close>

text \<open>\<^verbatim>\<open>str.replace\<close> of a text that is not empty, from left to right.\<close>

function replace_all :: "string \<Rightarrow> string \<Rightarrow> string \<Rightarrow> string" where
  "replace_all old new s =
    (if old = [] then s
     else case split1 old s of None \<Rightarrow> s | Some (a, b) \<Rightarrow> a @ new @ replace_all old new b)"
  by pat_completeness auto

termination
  by (relation "measure (\<lambda>(old, new, s). length s)") (auto dest!: split1_Some)

declare replace_all.simps [simp del]

text \<open>The number of characters of a string.\<close>

definition str_len :: "string \<Rightarrow> nat" where
  "str_len s = length (filter (\<lambda>c. \<not> cont_byte (ordc c)) s)"

definition maskable_values :: "(string, string) dict \<Rightarrow> string list" where
  "maskable_values env = remdups (filter (\<lambda>v. v \<noteq> [] \<and> \<not> list_all is_space v) (map snd env))"

definition mask_secret_text :: "(string list \<Rightarrow> string list) \<Rightarrow> string \<Rightarrow> (string, string) dict \<Rightarrow> string" where
  "mask_secret_text perm msg env =
    foldl (\<lambda>masked v. replace_all v MASKED_SECRET masked) msg (rev (sort_key str_len (rev (perm (maskable_values env)))))"

definition mask_log_chunk :: "(string list \<Rightarrow> string list) \<Rightarrow> LogChunk \<Rightarrow> (string, string) dict \<Rightarrow> LogChunk" where
  "mask_log_chunk perm log env = log\<lparr>lc_text := mask_secret_text perm (lc_text log) env\<rparr>"

definition SENSITIVE_PARTS :: "string set" where
  "SENSITIVE_PARTS = {''SECRET'', ''TOKEN'', ''PASSWORD'', ''PASS'', ''KEY'', ''CREDENTIAL'', ''CREDENTIALS''}"

definition up_char :: "char \<Rightarrow> char" where
  "up_char c = (if 97 \<le> ordc c \<and> ordc c \<le> 122 then chrn (ordc c - 32) else c)"

definition sensitive_env_name :: "string \<Rightarrow> bool" where
  "sensitive_env_name name \<longleftrightarrow>
    list_ex (\<lambda>part. part \<in> SENSITIVE_PARTS) (split_on (CHR ''_'') (replace_char (CHR ''-'') (CHR ''_'') (map up_char name)))"

definition masking_env :: "(string, string) dict \<Rightarrow> (string, string) dict \<Rightarrow> (string, string) dict" where
  "masking_env secret_env extra_env =
    foldl (\<lambda>m (name, v). if sensitive_env_name name then AList.update name v m else m) secret_env extra_env"

section \<open>What masking removes\<close>

lemma replace_None: "w = [] \<or> split1 w s = None \<Longrightarrow> replace_all w new s = s"
  by (subst replace_all.simps) auto

lemma replace_Some: "split1 w s = Some (a, b) \<Longrightarrow> w \<noteq> [] \<Longrightarrow> replace_all w new s = a @ new @ replace_all w new b"
  by (subst replace_all.simps) simp

lemma split1_None: "split1 v s = None \<longleftrightarrow> \<not> sublist v s"
proof (induction s)
  case (Cons c s)
  have "sublist v (c # s) \<longleftrightarrow> startswith (c # s) v \<or> sublist v s"
    unfolding sublist_Cons_right prefix_def startswith_def by (metis append_eq_conv_conj append_take_drop_id)
  then show ?case using Cons by (simp del: sublist_Cons_right)
qed (auto simp: sublist_def)

lemma split1_leftmost: "split1 v s = Some (a, b) \<Longrightarrow> v \<noteq> [] \<Longrightarrow> \<not> sublist v a"
proof (induction s arbitrary: a)
  case (Cons c s)
  show ?case
  proof (cases "startswith (c # s) v")
    case True
    with Cons.prems show ?thesis by auto
  next
    case False
    then obtain a' where a: "a = c # a'" "split1 v s = Some (a', b)" using Cons.prems(1) by auto
    have "c # s = a @ v @ b" using split1_Some [OF a(2)] a(1) by simp
    then have "\<not> prefix v a" using False by (auto simp: prefix_def startswith_iff)
    with Cons.IH [OF a(2) Cons.prems(2)] a(1) show ?thesis by (simp add: sublist_Cons_right)
  qed
qed (auto split: if_splits)

lemma sublist_across: "sublist v (x @ c # y) \<Longrightarrow> c \<notin> set v \<Longrightarrow> sublist v x \<or> sublist v y"
proof -
  assume "sublist v (x @ c # y)" and c: "c \<notin> set v"
  then obtain p q where pq: "x @ c # y = p @ v @ q" by (auto simp: sublist_def)
  then consider us where "x = p @ us" "us @ c # y = v @ q" | us where "p = x @ us" "c # y = us @ v @ q"
    by (auto simp: append_eq_append_conv2)
  then show ?thesis
  proof cases
    case 1
    then consider zs where "us = v @ zs" | zs where "v = us @ zs" "zs @ q = c # y" by (auto simp: append_eq_append_conv2)
    then show ?thesis
    proof cases
      case (1 zs)
      with \<open>x = p @ us\<close> show ?thesis by (auto simp: sublist_def)
    next
      case (2 zs)
      with c have "zs = []" by (cases zs) auto
      with 2 \<open>x = p @ us\<close> show ?thesis by simp
    qed
  next
    case 2
    then show ?thesis using c by (cases us; cases v) (auto simp: sublist_def)
  qed
qed

lemma sublist_mask:
  assumes "sublist v (x @ MASKED_SECRET @ y)" and "v \<noteq> []" and "CHR ''*'' \<notin> set v"
  shows "sublist v x \<or> sublist v y"
  using assms sublist_across [of v x "CHR ''*''" "''**'' @ y"] sublist_across [of v "[]" "CHR ''*''" "''*'' @ y"]
    sublist_across [of v "[]" "CHR ''*''" y]
  by (auto simp: MASKED_SECRET_def)

lemma replace_keeps_out:
  assumes "v \<noteq> []" and "CHR ''*'' \<notin> set v"
  shows "sublist v (replace_all w MASKED_SECRET s) \<Longrightarrow> sublist v s"
proof (induction s rule: length_induct)
  case (1 s)
  show ?case
  proof (cases "w = [] \<or> split1 w s = None")
    case True
    with 1(2) replace_None show ?thesis by metis
  next
    case False
    then obtain a b where s: "split1 w s = Some (a, b)" "w \<noteq> []" by auto
    note eq = split1_Some [OF s(1)]
    have "sublist v a \<or> sublist v (replace_all w MASKED_SECRET b)"
      using 1(2) s by (intro sublist_mask [OF _ assms]) (simp add: replace_Some)
    then have "sublist v a \<or> sublist v b" using 1(1) eq s(2) by (metis length_append add.commute length_greater_0_conv less_add_same_cancel2 trans_less_add1)
    then show ?thesis unfolding eq by (metis sublist_append sublist_order.order_trans append.assoc sublist_append_leftI sublist_append_rightI)
  qed
qed

lemma replace_removes:
  assumes "v \<noteq> []" and "CHR ''*'' \<notin> set v"
  shows "\<not> sublist v (replace_all v MASKED_SECRET s)"
proof (induction s rule: length_induct)
  case (1 s)
  show ?case
  proof (cases "split1 v s")
    case None
    then have "replace_all v MASKED_SECRET s = s" by (simp add: replace_None)
    then show ?thesis using None split1_None by simp
  next
    case (Some ab)
    then obtain a b where s: "split1 v s = Some (a, b)" by (cases ab) auto
    then have "length b < length s" using split1_Some [OF s] assms(1) by simp
    then have "\<not> sublist v (replace_all v MASKED_SECRET b)" using 1 by blast
    with split1_leftmost [OF s assms(1)] have "\<not> sublist v (a @ MASKED_SECRET @ replace_all v MASKED_SECRET b)"
      using sublist_mask [OF _ assms] by blast
    then show ?thesis by (simp add: replace_Some [OF s assms(1)])
  qed
qed

lemma mask_fold:
  assumes "v \<noteq> []" and "CHR ''*'' \<notin> set v"
  shows "sublist v (foldl (\<lambda>m w. replace_all w MASKED_SECRET m) s vals) \<Longrightarrow> v \<notin> set vals \<and> sublist v s"
proof (induction vals arbitrary: s)
  case (Cons w vals)
  then have "v \<notin> set vals" "sublist v (replace_all w MASKED_SECRET s)" by auto
  then show ?case using replace_removes [OF assms] replace_keeps_out [OF assms] by (metis set_ConsD)
qed simp

lemma mask_fold_id: "(\<And>w. w \<in> set vals \<Longrightarrow> \<not> sublist w s) \<Longrightarrow> foldl (\<lambda>m w. replace_all w MASKED_SECRET m) s vals = s"
  by (induction vals) (auto simp: replace_None split1_None)

text \<open>A secret of two lines: each line of the log is masked on its own, and stays as it is.\<close>

lemma secret_across_lines:
  "mask_secret_text id (''BEGIN'' @ [NL]) [(''KEY'', (''BEGIN'' @ NL # ''a1''))] = (''BEGIN'' @ [NL]) \<and>
   mask_secret_text id (''a1'' @ [NL]) [(''KEY'', (''BEGIN'' @ NL # ''a1''))] = (''a1'' @ [NL])"
  by (simp add: mask_secret_text_def maskable_values_def is_space_def ordc_def replace_all.simps startswith_def)

section \<open>Property\<close>

text \<open>C24: no secret is left in a masked text. Whatever the text is and in whatever order the values are replaced, the value
  of a secret that does not contain an asterisk is not part of the result, not even one that another
  replacement puts together; and a text without secrets is not changed.\<close>

theorem masked_text_hides:
  assumes "\<forall>vs. set (perm vs) = set vs"
  shows "(\<forall>v \<in> set (maskable_values env). CHR ''*'' \<notin> set v \<longrightarrow> \<not> contains v (mask_secret_text perm msg env)) \<and>
    (list_all (\<lambda>v. \<not> contains v msg) (maskable_values env) \<longrightarrow> mask_secret_text perm msg env = msg)"
proof (intro conjI ballI impI)
  let ?vs = "rev (sort_key str_len (rev (perm (maskable_values env))))"
  have vs: "set ?vs = set (maskable_values env)" using assms by simp
  show "\<not> contains v (mask_secret_text perm msg env)" if "v \<in> set (maskable_values env)" "CHR ''*'' \<notin> set v" for v
    using that vs mask_fold [of v msg ?vs] unfolding mask_secret_text_def contains_def split1_None
    by (auto simp: maskable_values_def)
  show "mask_secret_text perm msg env = msg" if "list_all (\<lambda>v. \<not> contains v msg) (maskable_values env)"
    using that unfolding mask_secret_text_def
    by (intro mask_fold_id) (use vs in \<open>auto simp: list_all_iff contains_def split1_None\<close>)
qed

theorem masked_text_hides_witness:
  "\<not> contains ''hunter2'' (mask_secret_text rev ''login: hunter2!'' [(''PASS'', ''hunter2''), (''USER'', ''hunt'')]) \<and>
   mask_secret_text rev ''hello'' [(''PASS'', ''hunter2''), (''USER'', ''hunt'')] = ''hello''"
proof -
  let ?env = "[(''PASS'', ''hunter2''), (''USER'', ''hunt'')]"
  have v: "maskable_values ?env = [''hunter2'', ''hunt'']" by code_simp
  have none: "list_all (\<lambda>v. \<not> contains v ''hello'') [''hunter2'', ''hunt'']" by code_simp
  show ?thesis
    using masked_text_hides [of rev ?env "''login: hunter2!''"] masked_text_hides [of rev ?env "''hello''"] none
    unfolding v by simp
qed

end
