(* ===== verification/Workspace.thy ===== *)
theory Workspace
  imports ActionRuns
begin

text \<open>
  The files of a run: \<^verbatim>\<open>src/trunks/actions/hydration.py\<close> writes the files of a commit into a directory before a command runs,
  \<^verbatim>\<open>src/trunks/actions/artifacts.py\<close> stores files that it left.

  A path is the list of its parts. The disk is a state that keeps what was written when a later step raises. The directory that
  \<^verbatim>\<open>materialize_commit\<close> fills is a new temporary directory without symbolic links, so that
  \<^verbatim>\<open>Path.resolve\<close> is computed from the names; for artifacts, whose directory the command has changed, it is an argument.
  What a file system refuses (a file where a directory is, a directory where a file is) is an \<^verbatim>\<open>OSError\<close>.
\<close>

section \<open>A new directory\<close>

text \<open>\<^verbatim>\<open>(base / name).resolve()\<close> and \<^verbatim>\<open>is_relative_to\<close>.\<close>

fun walk :: "string list \<Rightarrow> string list \<Rightarrow> string list" where
  "walk p [] = p"
| "walk p (x # xs) = (if x = '''' \<or> x = ''.'' then walk p xs else if x = ''..'' then walk (butlast p) xs else walk (p @ [x]) xs)"

definition lex_resolve :: "string list \<Rightarrow> string \<Rightarrow> string list" where
  "lex_resolve base name = walk (if startswith name ''/'' then [] else base) (split_on SLASH name)"

definition is_relative_to :: "string list \<Rightarrow> string list \<Rightarrow> bool" where
  "is_relative_to p base \<longleftrightarrow> take (length base) p = base"

text \<open>The files of a directory with their contents and whether they can be executed, and its directories.\<close>

record Files =
  fl_files :: "(string list \<times> bytes \<times> bool) list"
  fl_dirs :: "string list list"

definition has_file :: "string list \<Rightarrow> Files \<Rightarrow> bool" where
  "has_file p fs \<longleftrightarrow> map_of (fl_files fs) p \<noteq> None"

definition ancestors :: "string list \<Rightarrow> string list list" where
  "ancestors p = map (\<lambda>n. take n p) [0..<length p]"

text \<open>\<^verbatim>\<open>mkdir(parents=True, exist_ok=True)\<close>, \<^verbatim>\<open>write_bytes\<close> and \<^verbatim>\<open>chmod\<close>.\<close>

definition make_dir :: "string list \<Rightarrow> Files \<Rightarrow> Files res" where
  "make_dir p fs =
    (if list_ex (\<lambda>q. has_file q fs) (p # ancestors p) then Inl (OSError ''file exists'')
     else Inr (fs\<lparr>fl_dirs := List.union (p # ancestors p) (fl_dirs fs)\<rparr>))"

definition write_bytes :: "string list \<Rightarrow> bytes \<Rightarrow> Files \<Rightarrow> Files res" where
  "write_bytes p data fs =
    (if p \<in> set (fl_dirs fs) then Inl (OSError ''is a directory'')
     else Inr (fs\<lparr>fl_files := AList.update p (data, case map_of (fl_files fs) p of None \<Rightarrow> False | Some (_, x) \<Rightarrow> x) (fl_files fs)\<rparr>))"

definition chmod_x :: "string list \<Rightarrow> Files \<Rightarrow> Files" where
  "chmod_x p fs = fs\<lparr>fl_files := AList.map_entry p (\<lambda>(data, _). (data, True)) (fl_files fs)\<rparr>"

section \<open>Writing a commit\<close>

definition read_kind :: "'s ActionsStore \<Rightarrow> string \<Rightarrow> ObjectId \<Rightarrow> (Repo \<times> 's, bytes) st" where
  "read_kind A wanted oid =
    bindS (as_read_object A oid) (\<lambda>data.
    bindS (liftR (parse_canonical_object data)) (\<lambda>(kind, payload).
    if kind \<noteq> wanted then raiseS (ValueError (''expected '' @ wanted @ '' object for '' @ oid_value oid @ '', got '' @ kind))
    else returnS payload))"

text \<open>The disk is part of the state, next to the repository and its store: what has been written stays when a later step
  raises. \<open>onB\<close> runs a step of the store; \<open>on_files\<close> runs an operation of the file system.\<close>

definition on_files :: "(Files \<Rightarrow> Files res) \<Rightarrow> (Files \<times> 's, unit) st" where
  "on_files f = (\<lambda>(fs, s). case f fs of Inl e \<Rightarrow> (Inl e, (fs, s)) | Inr fs1 \<Rightarrow> (Inr (), (fs1, s)))"

text \<open>An entry of a tree that is not a directory.\<close>

definition materialize_blob :: "'s ActionsStore \<Rightarrow> TreeEntry \<Rightarrow> string list \<Rightarrow> (Files \<times> Repo \<times> 's, unit) st" where
  "materialize_blob A entry path =
    bindS (onB (read_kind A ''blob'' (te_oid entry))) (\<lambda>data.
    bindS (on_files (make_dir (butlast path))) (\<lambda>_.
    bindS (on_files (write_bytes path data)) (\<lambda>_.
    if te_mode entry = ''100755'' then on_files (\<lambda>fs. Inr (chmod_x path fs)) else returnS ())))"

text \<open>One round of the loop over the entries of a tree; \<open>sub\<close> is the recursive call.\<close>

definition materialize_entry :: "'s ActionsStore \<Rightarrow> (ObjectId \<Rightarrow> string list \<Rightarrow> (Files \<times> Repo \<times> 's, unit) st) \<Rightarrow> string list \<Rightarrow>
    TreeEntry \<Rightarrow> (Files \<times> Repo \<times> 's, unit) st" where
  "materialize_entry A sub target entry =
    (let path = lex_resolve target (te_name entry)
     in if \<not> is_relative_to path target then raiseS (ValueError (''tree entry escapes workspace: '' @ te_name entry))
        else if te_mode entry = ''40000'' then bindS (on_files (make_dir path)) (\<lambda>_. sub (te_oid entry) path)
        else materialize_blob A entry path)"

text \<open>\<open>limit\<close> is how many more calls Python's stack takes.\<close>

primrec materialize_tree :: "'s ActionsStore \<Rightarrow> nat \<Rightarrow> ObjectId \<Rightarrow> string list \<Rightarrow> (Files \<times> Repo \<times> 's, unit) st" where
  "materialize_tree A 0 tree target = raiseS (RuntimeError ''maximum recursion depth exceeded'')"
| "materialize_tree A (Suc limit) tree target =
    bindS (onB (read_kind A ''tree'' tree)) (\<lambda>payload.
    bindS (liftR (parse_tree_payload (as_hash A) payload)) (\<lambda>t.
    iterS (materialize_entry A (materialize_tree A limit) target) (tree_entries t)))"

definition materialize_commit :: "'s ActionsStore \<Rightarrow> nat \<Rightarrow> string \<Rightarrow> string list \<Rightarrow> (Files \<times> Repo \<times> 's, unit) st" where
  "materialize_commit A limit commit target =
    bindS (on_files (make_dir target)) (\<lambda>_.
    bindS (liftR (mk_ObjectId commit)) (\<lambda>oid.
    bindS (onB (as_read_object A oid)) (\<lambda>data.
    bindS (liftR (parse_canonical_object data)) (\<lambda>(kind, payload).
    if kind \<noteq> ''commit'' then raiseS (ValueError (''expected commit object for '' @ commit @ '', got '' @ kind))
    else bindS (liftR (parse_commit_payload payload oid)) (\<lambda>c. materialize_tree A limit (c_tree c) target)))))"

section \<open>Artifacts\<close>

definition ARTIFACT_SCHEMA :: string where
  "ARTIFACT_SCHEMA = ''trunks.actions.artifact.v1''"

text \<open>The file system after a run: resolving a path, the sorted files below a directory, and the content of a file.\<close>

record Disk =
  dk_resolve :: "string list \<Rightarrow> string \<Rightarrow> string list"
  dk_dir :: "string list \<Rightarrow> string list list option"
  dk_file :: "string list \<Rightarrow> bytes option"

definition artifact_doc :: "string \<Rightarrow> string \<Rightarrow> Blob \<Rightarrow> payload" where
  "artifact_doc run relative content =
    [(''_schema_version'', JStr ARTIFACT_SCHEMA), (''object'', JStr ''artifact''), (''run'', JStr run), (''name'', JStr relative),
     (''path'', JStr relative), (''size'', JInt (int (length (blob_data content)))), (''oid'', JStr (oid_value (blob_id content)))]"

definition collect_file :: "'s ActionsStore \<Rightarrow> string \<Rightarrow> Disk \<Rightarrow> string list \<Rightarrow> string \<Rightarrow> string list \<Rightarrow> (Repo \<times> 's, payload) st" where
  "collect_file A run disk base raw_path path =
    (let resolved = dk_resolve disk path ''''
     in if \<not> is_relative_to resolved base then raiseS (ValueError (''artifact path escapes repository root: '' @ raw_path))
        else case dk_file disk resolved of
          None \<Rightarrow> raiseS (OSError ''no such file'')
        | Some data \<Rightarrow>
          let relative = join ''/'' (drop (length base) resolved);
              content = blob_from_data (as_hash A) data;
              entry = artifact_doc run relative content;
              meta = doc_blob (as_hash A) (JObj entry)
          in bindS (as_write_blob A content) (\<lambda>_.
             bindS (as_write_blob A meta) (\<lambda>_.
             bindS (as_set_ref A (run_artifact_ref (as_root A) run relative) (blob_id meta)) (\<lambda>_. returnS entry))))"

definition artifact_files :: "Disk \<Rightarrow> string list \<Rightarrow> string list list" where
  "artifact_files disk path =
    (case dk_dir disk path of
       Some files \<Rightarrow> files
     | None \<Rightarrow> (case dk_file disk path of Some _ \<Rightarrow> [path] | None \<Rightarrow> []))"

fun collect_paths :: "'s ActionsStore \<Rightarrow> string \<Rightarrow> Disk \<Rightarrow> string list \<Rightarrow> string list \<Rightarrow> (Repo \<times> 's, payload list) st" where
  "collect_paths A run disk base [] = returnS []"
| "collect_paths A run disk base (raw_path # paths) =
    (let path = dk_resolve disk base raw_path
     in if \<not> is_relative_to path base then raiseS (ValueError (''artifact path escapes repository root: '' @ raw_path))
        else bindS (mapS (collect_file A run disk base raw_path) (artifact_files disk path)) (\<lambda>entries.
          bindS (collect_paths A run disk base paths) (\<lambda>rest. returnS (entries @ rest))))"

definition collect_artifacts :: "'s ActionsStore \<Rightarrow> string \<Rightarrow> Disk \<Rightarrow> string list \<Rightarrow> string list \<Rightarrow> (Repo \<times> 's, payload list) st" where
  "collect_artifacts A run disk root paths = collect_paths A run disk (dk_resolve disk root '''') paths"

definition list_artifacts :: "'s ActionsStore \<Rightarrow> string \<Rightarrow> (Repo \<times> 's, json list) st" where
  "list_artifacts A run =
    bindS (as_list_refs A (run_artifacts_prefix (as_root A) run)) (\<lambda>refs. mapS (\<lambda>(_, oid). as_load A oid) (sort_key fst refs))"

fun find_artifact :: "'s ActionsStore \<Rightarrow> string \<Rightarrow> string \<Rightarrow> json list \<Rightarrow> (Repo \<times> 's, bytes) st" where
  "find_artifact A run name [] = raiseS (KeyError (''unknown artifact '' @ repr_str name @ '' for run '' @ repr_str run))"
| "find_artifact A run name (v # vs) =
    (case v of
       JObj d \<Rightarrow>
         if dget d ''name'' = JStr name \<or> dget d ''path'' = JStr name
         then (case dget d ''oid'' of
             JStr oid \<Rightarrow> bindS (liftR (mk_ObjectId oid)) (as_read_blob_payload A)
           | _ \<Rightarrow> raiseS (KeyError (''artifact has no object id: '' @ name)))
         else find_artifact A run name vs
     | _ \<Rightarrow> raiseS (AttributeError ''object has no attribute get''))"

definition get_artifact :: "'s ActionsStore \<Rightarrow> string \<Rightarrow> string \<Rightarrow> (Repo \<times> 's, bytes) st" where
  "get_artifact A run name = bindS (list_artifacts A run) (find_artifact A run name)"

section \<open>Nothing is written outside\<close>

text \<open>What every step keeps: the files that are not below the target are those of \<open>fs0\<close>, and so are the directories, the
  parents of the target aside.\<close>

definition confined :: "string list \<Rightarrow> Files \<Rightarrow> Files \<times> 's \<Rightarrow> bool" where
  "confined target fs0 st \<longleftrightarrow>
    (\<forall>p. \<not> is_relative_to p target \<longrightarrow> map_of (fl_files (fst st)) p = map_of (fl_files fs0) p) \<and>
    (\<forall>p. \<not> is_relative_to p target \<and> p \<notin> set (ancestors target) \<longrightarrow> (p \<in> set (fl_dirs (fst st)) \<longleftrightarrow> p \<in> set (fl_dirs fs0)))"

lemma relative_prefix: "is_relative_to p base \<longleftrightarrow> (\<exists>r. p = base @ r)"
  unfolding is_relative_to_def by (metis append_eq_conv_conj append_take_drop_id)

lemma relative_trans: "is_relative_to q p \<Longrightarrow> is_relative_to p base \<Longrightarrow> is_relative_to q base"
  by (auto simp: relative_prefix)

lemma ancestors_relative: "is_relative_to p base \<Longrightarrow> q \<in> set (ancestors p) \<Longrightarrow> is_relative_to q base \<or> q \<in> set (ancestors base)"
proof -
  assume "is_relative_to p base" "q \<in> set (ancestors p)"
  then obtain r n where p: "p = base @ r" "q = take n p" by (auto simp: relative_prefix ancestors_def)
  then show ?thesis by (cases "n < length base") (auto simp: relative_prefix ancestors_def)
qed

lemma butlast_near:
  assumes "is_relative_to path target" and "q \<in> set (butlast path # ancestors (butlast path))"
  shows "is_relative_to q target \<or> q \<in> set (ancestors target)"
proof (cases "path = []")
  case False
  obtain n where "n < length path" "q = take n (butlast path)"
  proof (cases "q = butlast path")
    case True
    then show ?thesis using False that [of "length path - 1"] by (simp add: butlast_conv_take)
  next
    case False
    then have "q \<in> (\<lambda>n. take n (butlast path)) ` {0..<length (butlast path)}" using assms(2) by (simp add: ancestors_def del: length_butlast)
    then obtain n where "n < length (butlast path)" "q = take n (butlast path)" by (auto simp del: length_butlast)
    then show ?thesis using that [of n] by simp
  qed
  then have "\<exists>m < length path. q = take m path" by (auto simp: butlast_conv_take min_def)
  then have "q \<in> set (ancestors path)" by (auto simp: ancestors_def)
  then show ?thesis using ancestors_relative [OF assms(1)] by blast
qed (use assms in \<open>auto simp: ancestors_def\<close>)

lemma map_of_map_entry: "map_of (AList.map_entry k f d) p = (if p = k then map_option f (map_of d k) else map_of d p)"
  by (induction d) auto

lemma keeps_onB_confined [intro!]: "keeps (confined target fs0) (onB m)"
  by (auto simp: keeps_def onB_def confined_def split: prod.splits)

lemma keeps_make_dir:
  assumes "\<And>q. q \<in> set (p # ancestors p) \<Longrightarrow> is_relative_to q target \<or> q \<in> set (ancestors target)"
  shows "keeps (confined target fs0) (on_files (make_dir p))"
  using assms by (fastforce simp: keeps_def on_files_def make_dir_def confined_def split: prod.splits sum.splits if_splits)

lemma keeps_write_bytes: "is_relative_to p target \<Longrightarrow> keeps (confined target fs0) (on_files (write_bytes p data))"
  by (auto simp: keeps_def on_files_def write_bytes_def confined_def AList.update_conv' split: prod.splits sum.splits if_splits)

lemma keeps_chmod: "is_relative_to p target \<Longrightarrow> keeps (confined target fs0) (on_files (\<lambda>fs. Inr (chmod_x p fs)))"
  by (auto simp: keeps_def on_files_def chmod_x_def confined_def map_of_map_entry)

lemma keeps_below: "is_relative_to p target \<Longrightarrow> keeps (confined target fs0) (on_files (make_dir p))"
  by (rule keeps_make_dir) (use ancestors_relative in auto)

lemma keeps_materialize_blob: "is_relative_to path target \<Longrightarrow> keeps (confined target fs0) (materialize_blob A entry path)"
  unfolding materialize_blob_def
  by (auto intro!: keeps_bindS keeps_write_bytes keeps_chmod keeps_make_dir dest: butlast_near)

lemma keeps_materialize_tree:
  "is_relative_to path target \<Longrightarrow> keeps (confined target fs0) (materialize_tree A limit tree path)"
proof (induction limit arbitrary: tree path)
  case (Suc limit)
  have "keeps (confined target fs0) (materialize_entry A (materialize_tree A limit) path entry)" for entry
    unfolding materialize_entry_def Let_def
    using relative_trans [OF _ Suc.prems] by (auto intro!: keeps_bindS keeps_below keeps_materialize_blob Suc.IH)
  then show ?case by (auto intro!: keeps_bindS keeps_iterS)
qed simp

lemma keeps_materialize_commit: "keeps (confined target fs0) (materialize_commit A limit commit target)"
proof -
  have "is_relative_to target target" by (simp add: relative_prefix)
  then show ?thesis
    unfolding materialize_commit_def
    by (auto intro!: keeps_bindS keeps_below keeps_materialize_tree split: prod.splits)
qed

section \<open>Property\<close>

text \<open>C23: an executor writes the files of a commit nowhere but in the directory of the run. Whatever objects the store answers
  with, also trees with names such as \<^verbatim>\<open>..\<close> or absolute ones, and whether the commit is written to its end or an error stops it
  half way: every file of the disk that is not below the directory is there with its content and mode as before, no such file is
  new, and of the directories that are not below it none is new and none is gone, except that its missing parents are made.\<close>

theorem materialize_confined:
  assumes "materialize_commit A limit commit target (fs, st) = (out, (fs', st'))"
  shows "(\<forall>p. \<not> is_relative_to p target \<longrightarrow> map_of (fl_files fs') p = map_of (fl_files fs) p) \<and>
    (\<forall>p. \<not> is_relative_to p target \<and> p \<notin> set (ancestors target) \<longrightarrow> (p \<in> set (fl_dirs fs') \<longleftrightarrow> p \<in> set (fl_dirs fs)))"
proof -
  have "confined target fs (fs, st)" by (simp add: confined_def)
  then have "confined target fs (snd (materialize_commit A limit commit target (fs, st)))" by (rule keepsD [OF keeps_materialize_commit])
  then show ?thesis unfolding assms by (simp add: confined_def)
qed

text \<open>A commit whose tree has a file and, after it, an entry that leads out of the directory, to a file that is there.\<close>

abbreviation demo_oid :: "char \<Rightarrow> ObjectId" where
  "demo_oid c \<equiv> sample_oid c"

definition demo_commit :: bytes where
  "demo_commit = serialize_commit_payload (demo_oid (CHR ''2'')) [] sample_identity sample_identity ''m''"

definition demo_entries :: "TreeEntry list" where
  "demo_entries = [\<lparr>te_mode = ''100755'', te_name = ''run'', te_oid = demo_oid (CHR ''3'')\<rparr>,
    \<lparr>te_mode = ''100644'', te_name = ''../key'', te_oid = demo_oid (CHR ''3'')\<rparr>]"

definition demo_tree :: bytes where
  "demo_tree = serialize_tree_entries demo_entries"

definition demo_disk :: Files where
  "demo_disk = \<lparr>fl_files = [([''tmp'', ''key''], ''k'', False)], fl_dirs = [[''tmp''], []]\<rparr>"

definition demo_repo :: Repo where
  "demo_repo = repo_empty\<lparr>r_objects :=
     [(oid_value (demo_oid (CHR ''1'')), (''commit'', canonical_object ''commit'' demo_commit)),
      (oid_value (demo_oid (CHR ''2'')), (''tree'', canonical_object ''tree'' demo_tree)),
      (oid_value (demo_oid (CHR ''3'')), (''blob'', canonical_object ''blob'' ''hi''))]\<rparr>"

lemma demo_reads:
  "as_read_object (actions_store sample_hash None 2 demo_repo) (demo_oid (CHR ''1'')) (demo_repo, ()) =
     (Inr (canonical_object ''commit'' demo_commit), (demo_repo, ()))"
  "as_read_object (actions_store sample_hash None 2 demo_repo) (demo_oid (CHR ''2'')) (demo_repo, ()) =
     (Inr (canonical_object ''tree'' demo_tree), (demo_repo, ()))"
  "as_read_object (actions_store sample_hash None 2 demo_repo) (demo_oid (CHR ''3'')) (demo_repo, ()) =
     (Inr (canonical_object ''blob'' ''hi''), (demo_repo, ()))"
  by (simp_all add: as_read_object_def actions_store_def onR_def getsS_def repo_object_data_def demo_repo_def sample_oid_def)

lemma demo_parses:
  "parse_commit_payload demo_commit x = Inr \<lparr>c_id = x, c_tree = demo_oid (CHR ''2''), c_parents = [],
     c_author = norm_identity sample_identity, c_committer = norm_identity sample_identity, c_message = ''m''\<rparr>"
  "parse_tree_payload sample_hash demo_tree = Inr \<lparr>tree_id = object_id sample_hash ''tree'' demo_tree,
     tree_entries = demo_entries\<rparr>"
proof -
  have v: "valid_oid (demo_oid (CHR ''2''))" "valid_oid (demo_oid (CHR ''3''))" by (simp_all add: valid_sample_oid is_hex_def is_digit_def)
  have m: "is_str ''m''" "rstrip_by (\<lambda>c. c = NL) ''m'' = ''m''" by (simp_all add: is_str_def rstrip_by_def)
  show "parse_commit_payload demo_commit x = Inr \<lparr>c_id = x, c_tree = demo_oid (CHR ''2''), c_parents = [],
     c_author = norm_identity sample_identity, c_committer = norm_identity sample_identity, c_message = ''m''\<rparr>"
    unfolding demo_commit_def using parse_serialize_commit [OF v(1) _ sample_identity_wf sample_identity_wf m(1), of "[]" x] m(2) by simp
  show "parse_tree_payload sample_hash demo_tree = Inr \<lparr>tree_id = object_id sample_hash ''tree'' demo_tree,
     tree_entries = demo_entries\<rparr>"
    unfolding demo_tree_def parse_tree_payload_def
    by (subst parse_serialize_tree) (use v(2) in \<open>auto simp: demo_entries_def wf_entry_def is_str_def\<close>)
qed

theorem materialize_confined_witness:
  "\<exists>e fs. materialize_commit (actions_store sample_hash (None :: unit Backend option) 2 demo_repo) 3 (replicate 40 (CHR ''1''))
       [''tmp'', ''w''] (demo_disk, (demo_repo, ())) = (Inl (ValueError e), (fs, (demo_repo, ()))) \<and>
     map_of (fl_files fs) [''tmp'', ''w'', ''run''] = Some (''hi'', True) \<and>
     map_of (fl_files fs) [''tmp'', ''key''] = map_of (fl_files demo_disk) [''tmp'', ''key''] \<and>
     ([''tmp'', ''x''] \<in> set (fl_dirs fs) \<longleftrightarrow> [''tmp'', ''x''] \<in> set (fl_dirs demo_disk))"
proof -
  let ?A = "actions_store sample_hash (None :: unit Backend option) 2 demo_repo" and ?st = "(demo_repo, ())"
  let ?d = "[[''tmp'', ''w''], [''tmp''], []]" and ?key = "([''tmp'', ''key''], ''k'', False)"
  let ?d1 = "\<lparr>fl_files = [?key], fl_dirs = ?d\<rparr>" and ?d2 = "\<lparr>fl_files = [?key, ([''tmp'', ''w'', ''run''], ''hi'', False)], fl_dirs = ?d\<rparr>"
  let ?d3 = "\<lparr>fl_files = [?key, ([''tmp'', ''w'', ''run''], ''hi'', True)], fl_dirs = ?d\<rparr>"
  have root: "mk_ObjectId (replicate 40 (CHR ''1'')) = Inr (demo_oid (CHR ''1''))" by code_simp
  have kinds: "parse_canonical_object (canonical_object ''commit'' d) = Inr (''commit'', d)"
    "parse_canonical_object (canonical_object ''tree'' d) = Inr (''tree'', d)"
    "parse_canonical_object (canonical_object ''blob'' d) = Inr (''blob'', d)" for d
    by (simp_all add: parse_canonical_canonical wf_kind_def is_str_def)
  have lex: "lex_resolve [''tmp'', ''w''] ''run'' = [''tmp'', ''w'', ''run'']" "is_relative_to [''tmp'', ''w'', ''run''] [''tmp'', ''w'']"
    "\<not> is_relative_to (lex_resolve [''tmp'', ''w''] ''../key'') [''tmp'', ''w'']"
    by code_simp+
  have d: "make_dir [''tmp'', ''w''] demo_disk = Inr ?d1" "make_dir [''tmp'', ''w''] ?d1 = Inr ?d1"
    "write_bytes [''tmp'', ''w'', ''run''] ''hi'' ?d1 = Inr ?d2" "chmod_x [''tmp'', ''w'', ''run''] ?d2 = ?d3"
    by code_simp+
  have "as_hash ?A = sample_hash" by (simp add: actions_store_def)
  then have e: "\<exists>e. materialize_commit ?A 3 (replicate 40 (CHR ''1'')) [''tmp'', ''w''] (demo_disk, ?st) = (Inl (ValueError e), (?d3, ?st))"
    by (simp add: materialize_commit_def root bindS_def liftR_def onB_def on_files_def demo_reads demo_parses kinds read_kind_def
        numeral_3_eq_3 demo_entries_def materialize_entry_def lex materialize_blob_def Let_def d returnS_def raiseS_def
        del: replicate.simps)
  then obtain e where e: "materialize_commit ?A 3 (replicate 40 (CHR ''1'')) [''tmp'', ''w''] (demo_disk, ?st) = (Inl (ValueError e), (?d3, ?st))"
    by blast
  have "\<not> is_relative_to [''tmp'', ''key''] [''tmp'', ''w'']" "\<not> is_relative_to [''tmp'', ''x''] [''tmp'', ''w'']"
    "[''tmp'', ''x''] \<notin> set (ancestors [''tmp'', ''w''])" by code_simp+
  then have "map_of (fl_files ?d3) [''tmp'', ''key''] = map_of (fl_files demo_disk) [''tmp'', ''key''] \<and>
     ([''tmp'', ''x''] \<in> set (fl_dirs ?d3) \<longleftrightarrow> [''tmp'', ''x''] \<in> set (fl_dirs demo_disk))"
    using materialize_confined [OF e] by blast
  moreover have "map_of (fl_files ?d3) [''tmp'', ''w'', ''run''] = Some (''hi'', True)" by simp
  ultimately show ?thesis using e by blast
qed

end
