(* ===== verification/Spec2Isabelle.thy ===== *)
theory Spec2Isabelle
  imports Memory SQLite Postgres Multi Cache Segment Chunked S3Cas Blobs LocalRefs Sftp RepoGraph Storage Fetch GitPush GitFetch NfsNames NfsServer ActionLeases Capacity ActionQueue ActionHealth Secrets Workspace
begin

text \<open>
  A verification development for Trunks, the Git-compatible version control system under
  \<^verbatim>\<open>src/trunks\<close>.

  \<^bold>\<open>The program.\<close> A repository keeps objects (blobs, trees, commits) under the SHA-1 of their bytes, references
  to commits, an index of staged files and a working tree in one SQLite file
  (\<^verbatim>\<open>repository.py\<close>). Repositories exchange objects and references through a backend
  (\<^verbatim>\<open>backend.py\<close>, \<^verbatim>\<open>backends/\<close>), an object store with compare-and-swap on references: \<^verbatim>\<open>push.py\<close>
  publishes a branch, \<^verbatim>\<open>fetch.py\<close> and \<^verbatim>\<open>pull.py\<close> bring one in. A cache and mirrors can be put in
  front of a backend. \<^verbatim>\<open>mount/\<close> serves a repository as an NFS version 3 file system over ONC RPC.
  \<^verbatim>\<open>actions/\<close> runs jobs described by workflow files, with the state of the runs kept in the same kind of
  store, and \<^verbatim>\<open>sandboxes/\<close> chooses where they run.

  \<^bold>\<open>Conventions\<close> (\<open>Prelude\<close>, \<open>PyStr\<close>, \<open>Json\<close>). A byte is a \<^typ>\<open>char\<close>; a Python \<^verbatim>\<open>str\<close> is the list of
  its UTF-8 bytes; a \<^verbatim>\<open>dict\<close> is an association list in insertion order; an exception is a value of the
  type \<open>error\<close>, an operation that can raise returns \<open>error + 'a\<close>, and one that changes state is a function
  from a state to a result and a state, so that an exception keeps the changes made before it. Hash
  functions (\<open>h\<close> for SHA-1, \<open>h2\<close> for SHA-256), the clock, drawn random values, the process environment and
  libraries such as \<^verbatim>\<open>orjson\<close> and \<^verbatim>\<open>yaml\<close> are arguments; where a result needs it, \<open>digest20 h\<close> says that
  digests have 20 bytes and \<open>inj_on h S\<close> that no two of the finitely many objects involved collide. The
  depth of Python's stack is the argument \<open>limit\<close> of the recursive operations, and theorems say how large
  it must be (for a fetch, more than the number of objects). Sets that Python iterates over in an unknown
  order are given with the order as an argument.

  \<^bold>\<open>Objects and names.\<close> \<open>Ids\<close> (\<^verbatim>\<open>ids.py\<close>), \<open>Objects\<close> (\<^verbatim>\<open>objects.py\<close>), \<open>Refs\<close> (\<^verbatim>\<open>refs.py\<close>), \<open>Paths\<close>
  (\<^verbatim>\<open>paths.py\<close>), \<open>Journal\<close> (\<^verbatim>\<open>journal.py\<close>), \<open>Segment\<close> (\<^verbatim>\<open>segment.py\<close>) and \<open>Chunked\<close> (\<^verbatim>\<open>chunked.py\<close>):
  one definition per function. The lemmas are the round trips of the encodings, the order of ULIDs, what
  normalization and the ignore rules decide.

  \<^bold>\<open>Backends.\<close> \<open>Backend\<close> has the abstract class as a record of operations and two locales: \<open>backend_safe\<close>, what a
  store that may fail at any call promises (objects are content-addressed, a swap is atomic), and
  \<open>backend\<close>, which adds that calls succeed. \<open>Memory\<close>, \<open>SQLite\<close>, \<open>Multi\<close> (mirrors, \<^verbatim>\<open>backends/multi.py\<close>) and
  \<open>Cache\<close> (\<^verbatim>\<open>cache/\<close>) model the implementations and interpret the locales on them, and so does \<open>Postgres\<close>
  (\<^verbatim>\<open>backends/postgres.py\<close>), whose tables are those of SQLite. The backends on object stores are programs of
  requests (\<open>Requests\<close>), between any two of which other clients run: \<open>S3\<close> (\<^verbatim>\<open>backends/s3.py\<close>, with retries and
  signatures), \<open>Blobs\<close> (\<^verbatim>\<open>gcs.py\<close>, \<^verbatim>\<open>azure.py\<close>) and \<open>Sftp\<close> (\<^verbatim>\<open>sftp.py\<close>, on files of a server). \<open>S3Cas\<close> shows when swaps of references through lock
  objects are atomic, and gives the runs in which they are not. \<open>LocalDir\<close> is the backend on a directory
  (\<^verbatim>\<open>backends/local.py\<close>), files by their paths; \<open>LocalObjects\<close> shows that it keeps objects, as files, chunks or
  segments, \<open>LocalRefs\<close> that a swap is exact, and where it is not. \<open>Storage\<close> and
  \<open>RepoStorage\<close> are the storage profiles (\<^verbatim>\<open>storage.py\<close>) and where a repository keeps them.

  \<^bold>\<open>Repository.\<close> \<open>Repository\<close> has the tables as a record and the operations on them; \<open>RepoTree\<close> shows that a commit
  of the index gives the index back, \<open>RepoGraph\<close> what the integrity check decides and what cleaning
  removes.

  \<^bold>\<open>Exchange.\<close> \<open>Push\<close> runs \<^verbatim>\<open>push.py\<close> against any backend while other clients change the store between any two
  calls (\<open>interfered\<close>), \<open>Fetch\<close> runs \<^verbatim>\<open>fetch.py\<close> and \<^verbatim>\<open>pull.py\<close>.
  \<open>GitHelper\<close> is the helper process behind \<^verbatim>\<open>git push\<close> and \<^verbatim>\<open>git fetch\<close> (\<^verbatim>\<open>remote_helper.py\<close>), with the command
  line of every call of Git; \<open>GitModel\<close> states what the helper relies on of Git, \<open>GitPush\<close> shows (with the Hoare
  triples of \<open>Triples\<close>) that a push keeps stores closed, \<open>GitFetch\<close> that a fetch brings all it needs.

  \<^bold>\<open>NFS.\<close> \<open>Xdr\<close>, \<open>Rpc\<close>, \<open>Handles\<close>, \<open>Mountd\<close> and \<open>Nfs\<close> model \<^verbatim>\<open>mount/xdr.py\<close>, \<^verbatim>\<open>rpc.py\<close>, \<^verbatim>\<open>handles.py\<close>,
  \<^verbatim>\<open>mountd.py\<close> and \<^verbatim>\<open>nfs.py\<close>, all 22 procedures with write buffers, background staging and the caches of
  names; what the host provides is the record \<open>Host\<close>. \<open>NfsSteps\<close> makes the daemon a transition system
  (calls of clients, timers, jobs that finish, closing), \<open>NfsInv\<close> proves the invariant of its reachable
  states, \<open>NfsFiles\<close> what READ, WRITE, COMMIT and closing do to file contents, \<open>NfsNames\<close> that the caches
  of names agree with the index, \<open>NfsServer\<close> (\<^verbatim>\<open>mount/server.py\<close>) how a connection is answered.

  \<^bold>\<open>Actions.\<close> \<open>Provider\<close> models machine specifications and the choice of a provider
  (\<^verbatim>\<open>sandboxes/provider.py\<close>, \<^verbatim>\<open>registry.py\<close>), \<open>Workflow\<close> the reading and planning of workflows
  (\<^verbatim>\<open>actions/workflow.py\<close>): the stages of a workflow are the layers of its dependency graph. \<open>ActionStore\<close>
  (\<^verbatim>\<open>actions/backend_store.py\<close>) and \<open>ActionRuns\<close> (\<^verbatim>\<open>state.py\<close>, \<^verbatim>\<open>storage.py\<close>) keep the records of runs,
  their logs, indexes and queues. \<open>Cells\<close> is about references that several executors compare and swap
  while the others change the store between any two calls; \<open>ActionLeases\<close> shows on it that runs follow
  their life cycle and that a live lease or a finished run is never taken over, and \<open>Capacity\<close>
  (\<^verbatim>\<open>capacity.py\<close>) that the slots of a pool are taken below the limit and not while they are live.
  \<open>ActionQueue\<close> (\<^verbatim>\<open>run.py\<close>, \<^verbatim>\<open>workflow.py\<close>, \<^verbatim>\<open>triggers.py\<close>) queues commands and workflows: a command is queued
  exactly when all that its commit reaches is stored, in as many steps as there are links between objects; the locale
  \<open>object_reader\<close> has what this needs, of a backend and of the tables of a repository. \<open>ActionHealth\<close> (\<^verbatim>\<open>health.py\<close>) is
  what executors tell each other about providers.
  \<open>Secrets\<close> (\<^verbatim>\<open>secrets.py\<close>) shows what masking removes from a log, \<open>Workspace\<close> (\<^verbatim>\<open>hydration.py\<close>, \<^verbatim>\<open>artifacts.py\<close>)
  that the files of a commit are written nowhere but in the directory of the run, also when an error stops it half way.
  \<^bold>\<open>Not modelled.\<close> The command lines, the SDK facades, the JSON-RPC server, webhooks and configuration files parse
  arguments, read files and call the components above. The Git shim, cache and importer run the \<^verbatim>\<open>git\<close> program. The sandbox providers drive container
  engines and vendor APIs, and the executor runs jobs in them; the steps it takes on the store are those of the actions above. Reading the Git
  configuration, the SQL schema text, socket options and process control are left out of the components
  that are modelled.
\<close>

end
